(* ===== verification/Prelude.thy ===== *)
theory Prelude
  imports Main "HOL-Library.Word"
begin

text \<open>
  Prelude of the development: the machine types of the C code, the byte-order accessors of
  core/alignment.h, and the generic list and word lemmas that several components share.
  The target is the default build of the library on a little-endian LP64 machine:
  \<open>size_t\<close> is modelled by \<open>nat\<close> with the wrap-around modulo \<open>2 ^ 64\<close>
  written out where the code relies on it.
\<close>

unbundle bit_operations_syntax

type_synonym u8 = "8 word"
type_synonym u16 = "16 word"
type_synonym u32 = "32 word"
type_synonym u64 = "64 word"
type_synonym bytes = "u8 list"

text \<open>\<open>byteorder\<close> collects the accessors for fixed-width integers in byte buffers.\<close>

named_theorems byteorder

section \<open>Sizes\<close>

definition SIZE_MAX :: nat where
  "SIZE_MAX = 2 ^ 64 - 1"

text \<open>Conversion of a \<open>size_t\<close> value to \<open>int32_t\<close>, and of an \<open>int32_t\<close> back to \<open>size_t\<close>.\<close>

definition int32_of_size :: "nat \<Rightarrow> int" where
  "int32_of_size n = (int n + 2 ^ 31) mod 2 ^ 32 - 2 ^ 31"

definition size_of_int :: "int \<Rightarrow> nat" where
  "size_of_int i = nat (i mod 2 ^ 64)"

lemma int32_of_size_small: "n < 2 ^ 31 \<Longrightarrow> int32_of_size n = int n"
  by (simp add: int32_of_size_def)

lemma size_of_int_nonneg: "0 \<le> i \<Longrightarrow> i < 2 ^ 64 \<Longrightarrow> size_of_int i = nat i"
  by (simp add: size_of_int_def)

section \<open>Byte order\<close>

text \<open>The byte-reading macros of core/alignment.h: byte \<open>n\<close> of an integer, byte 0 the least significant.\<close>

definition mbedtls_byte :: "nat \<Rightarrow> 'a::len word \<Rightarrow> u8" where
  "mbedtls_byte n x = ucast (drop_bit (8 * n) x AND 0xff)"

definition put_uint16_le :: "u16 \<Rightarrow> bytes" where
  "put_uint16_le x = [mbedtls_byte 0 x, mbedtls_byte 1 x]"

definition put_uint32_le :: "u32 \<Rightarrow> bytes" where
  "put_uint32_le x = [mbedtls_byte 0 x, mbedtls_byte 1 x, mbedtls_byte 2 x, mbedtls_byte 3 x]"

definition put_uint32_be :: "u32 \<Rightarrow> bytes" where
  "put_uint32_be x = [mbedtls_byte 3 x, mbedtls_byte 2 x, mbedtls_byte 1 x, mbedtls_byte 0 x]"

definition put_uint64_be :: "u64 \<Rightarrow> bytes" where
  "put_uint64_be x = [mbedtls_byte 7 x, mbedtls_byte 6 x, mbedtls_byte 5 x, mbedtls_byte 4 x,
     mbedtls_byte 3 x, mbedtls_byte 2 x, mbedtls_byte 1 x, mbedtls_byte 0 x]"

text \<open>
  Reading takes the bytes from offset \<open>o\<close> of a buffer. The code only reads inside its buffers;
  the readers below are used under that condition.
\<close>

definition get_uint16_le :: "bytes \<Rightarrow> nat \<Rightarrow> u16" where
  "get_uint16_le d ofs = ucast (d ! ofs) OR push_bit 8 (ucast (d ! (ofs + 1)))"

definition get_uint32_le :: "bytes \<Rightarrow> nat \<Rightarrow> u32" where
  "get_uint32_le d ofs =
     ucast (d ! ofs) OR push_bit 8 (ucast (d ! (ofs + 1)))
       OR push_bit 16 (ucast (d ! (ofs + 2))) OR push_bit 24 (ucast (d ! (ofs + 3)))"

definition get_uint32_be :: "bytes \<Rightarrow> nat \<Rightarrow> u32" where
  "get_uint32_be d ofs =
     push_bit 24 (ucast (d ! ofs)) OR push_bit 16 (ucast (d ! (ofs + 1)))
       OR push_bit 8 (ucast (d ! (ofs + 2))) OR ucast (d ! (ofs + 3))"

definition get_uint64_be :: "bytes \<Rightarrow> nat \<Rightarrow> u64" where
  "get_uint64_be d ofs =
     push_bit 56 (ucast (d ! ofs)) OR push_bit 48 (ucast (d ! (ofs + 1)))
       OR push_bit 40 (ucast (d ! (ofs + 2))) OR push_bit 32 (ucast (d ! (ofs + 3)))
       OR push_bit 24 (ucast (d ! (ofs + 4))) OR push_bit 16 (ucast (d ! (ofs + 5)))
       OR push_bit 8 (ucast (d ! (ofs + 6))) OR ucast (d ! (ofs + 7))"

definition get_uint64_le :: "bytes \<Rightarrow> nat \<Rightarrow> u64" where
  "get_uint64_le d ofs =
     ucast (d ! ofs) OR push_bit 8 (ucast (d ! (ofs + 1)))
       OR push_bit 16 (ucast (d ! (ofs + 2))) OR push_bit 24 (ucast (d ! (ofs + 3)))
       OR push_bit 32 (ucast (d ! (ofs + 4))) OR push_bit 40 (ucast (d ! (ofs + 5)))
       OR push_bit 48 (ucast (d ! (ofs + 6))) OR push_bit 56 (ucast (d ! (ofs + 7)))"

lemma length_put_uint [simp]:
  "length (put_uint16_le x) = 2"
  "length (put_uint32_le y) = 4"
  "length (put_uint32_be y) = 4"
  "length (put_uint64_be z) = 8"
  by (simp_all add: put_uint16_le_def put_uint32_le_def put_uint32_be_def put_uint64_be_def)

lemma bit_mbedtls_byte:
  "bit (mbedtls_byte n x) i \<longleftrightarrow> i < 8 \<and> bit x (8 * n + i)" for x :: "'a::len word"
proof (cases "i < 8")
  case True
  have m: "(0xff :: 'a word) = mask 8"
    by (simp add: mask_eq_decr_exp)
  have "mbedtls_byte n x = ucast (drop_bit (8 * n) x AND mask 8)"
    by (simp only: mbedtls_byte_def m)
  with True show ?thesis
    by (auto simp del: mask_numeral simp: bit_simps dest: bit_imp_le_length)
next
  case False
  then show ?thesis
    by (auto dest: bit_imp_le_length)
qed

lemma get_put_uint16_le [byteorder]:
  "get_uint16_le (put_uint16_le x) 0 = x"
  by (rule bit_word_eqI)
    (auto simp: get_uint16_le_def put_uint16_le_def bit_simps bit_mbedtls_byte not_less)

lemma byte_index_cases:
  fixes n :: nat
  obtains "n < 8" | "8 \<le> n" "n < 16" | "16 \<le> n" "n < 24" | "24 \<le> n"
  by linarith

lemma get_put_uint32_le [byteorder]:
  "get_uint32_le (put_uint32_le x) 0 = x"
proof (rule bit_word_eqI)
  fix n assume "n < LENGTH(32)"
  then show "bit (get_uint32_le (put_uint32_le x) 0) n \<longleftrightarrow> bit x n"
    by (cases rule: byte_index_cases [of n])
      (auto simp: get_uint32_le_def put_uint32_le_def bit_simps bit_mbedtls_byte)
qed

lemma get_put_uint32_be [byteorder]:
  "get_uint32_be (put_uint32_be x) 0 = x"
proof (rule bit_word_eqI)
  fix n assume "n < LENGTH(32)"
  then show "bit (get_uint32_be (put_uint32_be x) 0) n \<longleftrightarrow> bit x n"
    by (cases rule: byte_index_cases [of n])
      (auto simp: get_uint32_be_def put_uint32_be_def bit_simps bit_mbedtls_byte)
qed

text \<open>A reader at an offset sees the field that starts there, whatever is before and after it.\<close>

lemma get_uint16_le_append:
  "length pre = n \<Longrightarrow> length f = 2 \<Longrightarrow> get_uint16_le (pre @ f @ post) n = get_uint16_le f 0"
  by (simp add: get_uint16_le_def nth_append)

lemma get_uint32_le_append:
  "length pre = n \<Longrightarrow> length f = 4 \<Longrightarrow> get_uint32_le (pre @ f @ post) n = get_uint32_le f 0"
  by (simp add: get_uint32_le_def nth_append numeral_eq_Suc)

section \<open>Allocation\<close>

text \<open>
  \<open>mbedtls_calloc\<close> may fail at any call. Which calls fail is decided by the environment: a list
  of outcomes, one per call, after which every call succeeds. A statement over all outcome
  lists is a statement over all patterns of failure.
\<close>

fun mbedtls_calloc :: "bool list \<Rightarrow> bool \<times> bool list" where
  "mbedtls_calloc [] = (True, [])"
| "mbedtls_calloc (b # bs) = (b, bs)"

section \<open>Lists\<close>

lemma take_drop_block:
  "length pre = n \<Longrightarrow> length f = m \<Longrightarrow> take m (drop n (pre @ f @ post)) = f"
  by simp

lemma nth_list_update_neq' [simp]: "j \<noteq> i \<Longrightarrow> xs[i := v] ! j = xs ! j"
  by (simp add: nth_list_update_neq)

end
