(* ===== verification/Crypto_Values.thy ===== *)
theory Crypto_Values
  imports Prelude
begin

text \<open>
  The encodings of include/psa/crypto_values.h (and the few of crypto_sizes.h, crypto_extra.h
  and crypto_compat.h that the key policy uses): status codes, key types, algorithm
  identifiers, lifetimes, key identifiers and usage flags. A constant is an abbreviation for
  its numeral, so that ground terms evaluate; a function-like macro is a definition.
\<close>

section \<open>Status codes\<close>

datatype psa_status =
    PSA_SUCCESS
  | PSA_ERROR_GENERIC_ERROR | PSA_ERROR_NOT_SUPPORTED | PSA_ERROR_NOT_PERMITTED
  | PSA_ERROR_BUFFER_TOO_SMALL | PSA_ERROR_ALREADY_EXISTS | PSA_ERROR_DOES_NOT_EXIST
  | PSA_ERROR_BAD_STATE | PSA_ERROR_INVALID_ARGUMENT | PSA_ERROR_INSUFFICIENT_MEMORY
  | PSA_ERROR_INSUFFICIENT_STORAGE | PSA_ERROR_COMMUNICATION_FAILURE
  | PSA_ERROR_STORAGE_FAILURE | PSA_ERROR_HARDWARE_FAILURE | PSA_ERROR_CORRUPTION_DETECTED
  | PSA_ERROR_INSUFFICIENT_ENTROPY | PSA_ERROR_INVALID_SIGNATURE
  | PSA_ERROR_INVALID_PADDING | PSA_ERROR_INSUFFICIENT_DATA | PSA_ERROR_SERVICE_FAILURE
  | PSA_ERROR_INVALID_HANDLE | PSA_ERROR_DATA_CORRUPT | PSA_ERROR_DATA_INVALID
  | PSA_OPERATION_INCOMPLETE
  | PSA_STATUS_UNNAMED int

section \<open>Key types\<close>

type_synonym psa_key_type = u16

abbreviation PSA_KEY_TYPE_CATEGORY_MASK :: psa_key_type where
  "PSA_KEY_TYPE_CATEGORY_MASK \<equiv> 0x7000"
abbreviation PSA_KEY_TYPE_CATEGORY_RAW :: psa_key_type where
  "PSA_KEY_TYPE_CATEGORY_RAW \<equiv> 0x1000"
abbreviation PSA_KEY_TYPE_CATEGORY_SYMMETRIC :: psa_key_type where
  "PSA_KEY_TYPE_CATEGORY_SYMMETRIC \<equiv> 0x2000"
abbreviation PSA_KEY_TYPE_CATEGORY_PUBLIC_KEY :: psa_key_type where
  "PSA_KEY_TYPE_CATEGORY_PUBLIC_KEY \<equiv> 0x4000"
abbreviation PSA_KEY_TYPE_CATEGORY_FLAG_PAIR :: psa_key_type where
  "PSA_KEY_TYPE_CATEGORY_FLAG_PAIR \<equiv> 0x3000"

abbreviation PSA_KEY_TYPE_RAW_DATA :: psa_key_type where "PSA_KEY_TYPE_RAW_DATA \<equiv> 0x1001"
abbreviation PSA_KEY_TYPE_HMAC :: psa_key_type where "PSA_KEY_TYPE_HMAC \<equiv> 0x1100"
abbreviation PSA_KEY_TYPE_DERIVE :: psa_key_type where "PSA_KEY_TYPE_DERIVE \<equiv> 0x1200"
abbreviation PSA_KEY_TYPE_PASSWORD :: psa_key_type where "PSA_KEY_TYPE_PASSWORD \<equiv> 0x1203"
abbreviation PSA_KEY_TYPE_PASSWORD_HASH :: psa_key_type where
  "PSA_KEY_TYPE_PASSWORD_HASH \<equiv> 0x1205"
abbreviation PSA_KEY_TYPE_AES :: psa_key_type where "PSA_KEY_TYPE_AES \<equiv> 0x2400"
abbreviation PSA_KEY_TYPE_ARIA :: psa_key_type where "PSA_KEY_TYPE_ARIA \<equiv> 0x2406"
abbreviation PSA_KEY_TYPE_CAMELLIA :: psa_key_type where "PSA_KEY_TYPE_CAMELLIA \<equiv> 0x2403"
abbreviation PSA_KEY_TYPE_CHACHA20 :: psa_key_type where "PSA_KEY_TYPE_CHACHA20 \<equiv> 0x2004"

definition PSA_KEY_TYPE_IS_UNSTRUCTURED :: "psa_key_type \<Rightarrow> bool" where
  "PSA_KEY_TYPE_IS_UNSTRUCTURED t \<longleftrightarrow>
     t AND PSA_KEY_TYPE_CATEGORY_MASK = PSA_KEY_TYPE_CATEGORY_RAW \<or>
     t AND PSA_KEY_TYPE_CATEGORY_MASK = PSA_KEY_TYPE_CATEGORY_SYMMETRIC"

definition PSA_KEY_TYPE_IS_ASYMMETRIC :: "psa_key_type \<Rightarrow> bool" where
  "PSA_KEY_TYPE_IS_ASYMMETRIC t \<longleftrightarrow>
     t AND PSA_KEY_TYPE_CATEGORY_MASK AND NOT PSA_KEY_TYPE_CATEGORY_FLAG_PAIR =
       PSA_KEY_TYPE_CATEGORY_PUBLIC_KEY"

definition PSA_KEY_TYPE_IS_PUBLIC_KEY :: "psa_key_type \<Rightarrow> bool" where
  "PSA_KEY_TYPE_IS_PUBLIC_KEY t \<longleftrightarrow>
     t AND PSA_KEY_TYPE_CATEGORY_MASK = PSA_KEY_TYPE_CATEGORY_PUBLIC_KEY"

definition PSA_KEY_TYPE_PUBLIC_KEY_OF_KEY_PAIR :: "psa_key_type \<Rightarrow> psa_key_type" where
  "PSA_KEY_TYPE_PUBLIC_KEY_OF_KEY_PAIR t = t AND NOT PSA_KEY_TYPE_CATEGORY_FLAG_PAIR"

definition PSA_KEY_TYPE_IS_RSA :: "psa_key_type \<Rightarrow> bool" where
  "PSA_KEY_TYPE_IS_RSA t \<longleftrightarrow> PSA_KEY_TYPE_PUBLIC_KEY_OF_KEY_PAIR t = 0x4001"

definition PSA_KEY_TYPE_IS_ECC :: "psa_key_type \<Rightarrow> bool" where
  "PSA_KEY_TYPE_IS_ECC t \<longleftrightarrow> PSA_KEY_TYPE_PUBLIC_KEY_OF_KEY_PAIR t AND NOT 0x00ff = 0x4100"

definition PSA_KEY_TYPE_IS_DH :: "psa_key_type \<Rightarrow> bool" where
  "PSA_KEY_TYPE_IS_DH t \<longleftrightarrow> PSA_KEY_TYPE_PUBLIC_KEY_OF_KEY_PAIR t AND NOT 0x00ff = 0x4200"

definition PSA_GET_KEY_TYPE_BLOCK_SIZE_EXPONENT :: "psa_key_type \<Rightarrow> nat" where
  "PSA_GET_KEY_TYPE_BLOCK_SIZE_EXPONENT t = unat (drop_bit 8 t AND 7)"

definition PSA_BLOCK_CIPHER_BLOCK_LENGTH :: "psa_key_type \<Rightarrow> nat" where
  "PSA_BLOCK_CIPHER_BLOCK_LENGTH t =
     (if t AND PSA_KEY_TYPE_CATEGORY_MASK = PSA_KEY_TYPE_CATEGORY_SYMMETRIC
      then 2 ^ PSA_GET_KEY_TYPE_BLOCK_SIZE_EXPONENT t
      else 0)"

section \<open>Algorithms\<close>

type_synonym psa_algorithm = u32

abbreviation PSA_ALG_CATEGORY_MASK :: psa_algorithm where
  "PSA_ALG_CATEGORY_MASK \<equiv> 0x7f000000"
abbreviation PSA_ALG_CATEGORY_HASH :: psa_algorithm where
  "PSA_ALG_CATEGORY_HASH \<equiv> 0x02000000"
abbreviation PSA_ALG_CATEGORY_MAC :: psa_algorithm where
  "PSA_ALG_CATEGORY_MAC \<equiv> 0x03000000"
abbreviation PSA_ALG_CATEGORY_CIPHER :: psa_algorithm where
  "PSA_ALG_CATEGORY_CIPHER \<equiv> 0x04000000"
abbreviation PSA_ALG_CATEGORY_AEAD :: psa_algorithm where
  "PSA_ALG_CATEGORY_AEAD \<equiv> 0x05000000"
abbreviation PSA_ALG_CATEGORY_KEY_DERIVATION :: psa_algorithm where
  "PSA_ALG_CATEGORY_KEY_DERIVATION \<equiv> 0x08000000"
abbreviation PSA_ALG_CATEGORY_KEY_AGREEMENT :: psa_algorithm where
  "PSA_ALG_CATEGORY_KEY_AGREEMENT \<equiv> 0x09000000"

definition PSA_ALG_IS_HASH :: "psa_algorithm \<Rightarrow> bool" where
  "PSA_ALG_IS_HASH a \<longleftrightarrow> a AND PSA_ALG_CATEGORY_MASK = PSA_ALG_CATEGORY_HASH"

definition PSA_ALG_IS_MAC :: "psa_algorithm \<Rightarrow> bool" where
  "PSA_ALG_IS_MAC a \<longleftrightarrow> a AND PSA_ALG_CATEGORY_MASK = PSA_ALG_CATEGORY_MAC"

definition PSA_ALG_IS_CIPHER :: "psa_algorithm \<Rightarrow> bool" where
  "PSA_ALG_IS_CIPHER a \<longleftrightarrow> a AND PSA_ALG_CATEGORY_MASK = PSA_ALG_CATEGORY_CIPHER"

definition PSA_ALG_IS_AEAD :: "psa_algorithm \<Rightarrow> bool" where
  "PSA_ALG_IS_AEAD a \<longleftrightarrow> a AND PSA_ALG_CATEGORY_MASK = PSA_ALG_CATEGORY_AEAD"

definition PSA_ALG_IS_KEY_AGREEMENT :: "psa_algorithm \<Rightarrow> bool" where
  "PSA_ALG_IS_KEY_AGREEMENT a \<longleftrightarrow>
     a AND PSA_ALG_CATEGORY_MASK = PSA_ALG_CATEGORY_KEY_AGREEMENT"

definition PSA_ALG_IS_KEY_DERIVATION :: "psa_algorithm \<Rightarrow> bool" where
  "PSA_ALG_IS_KEY_DERIVATION a \<longleftrightarrow>
     a AND PSA_ALG_CATEGORY_MASK = PSA_ALG_CATEGORY_KEY_DERIVATION"

subsection \<open>Hashes\<close>

abbreviation PSA_ALG_HASH_MASK :: psa_algorithm where "PSA_ALG_HASH_MASK \<equiv> 0x000000ff"
abbreviation PSA_ALG_MD5 :: psa_algorithm where "PSA_ALG_MD5 \<equiv> 0x02000003"
abbreviation PSA_ALG_RIPEMD160 :: psa_algorithm where "PSA_ALG_RIPEMD160 \<equiv> 0x02000004"
abbreviation PSA_ALG_SHA_1 :: psa_algorithm where "PSA_ALG_SHA_1 \<equiv> 0x02000005"
abbreviation PSA_ALG_SHA_224 :: psa_algorithm where "PSA_ALG_SHA_224 \<equiv> 0x02000008"
abbreviation PSA_ALG_SHA_256 :: psa_algorithm where "PSA_ALG_SHA_256 \<equiv> 0x02000009"
abbreviation PSA_ALG_SHA_384 :: psa_algorithm where "PSA_ALG_SHA_384 \<equiv> 0x0200000a"
abbreviation PSA_ALG_SHA_512 :: psa_algorithm where "PSA_ALG_SHA_512 \<equiv> 0x0200000b"
abbreviation PSA_ALG_SHA_512_224 :: psa_algorithm where "PSA_ALG_SHA_512_224 \<equiv> 0x0200000c"
abbreviation PSA_ALG_SHA_512_256 :: psa_algorithm where "PSA_ALG_SHA_512_256 \<equiv> 0x0200000d"
abbreviation PSA_ALG_SHA3_224 :: psa_algorithm where "PSA_ALG_SHA3_224 \<equiv> 0x02000010"
abbreviation PSA_ALG_SHA3_256 :: psa_algorithm where "PSA_ALG_SHA3_256 \<equiv> 0x02000011"
abbreviation PSA_ALG_SHA3_384 :: psa_algorithm where "PSA_ALG_SHA3_384 \<equiv> 0x02000012"
abbreviation PSA_ALG_SHA3_512 :: psa_algorithm where "PSA_ALG_SHA3_512 \<equiv> 0x02000013"
abbreviation PSA_ALG_ANY_HASH :: psa_algorithm where "PSA_ALG_ANY_HASH \<equiv> 0x020000ff"

subsection \<open>MACs\<close>

abbreviation PSA_ALG_MAC_SUBCATEGORY_MASK :: psa_algorithm where
  "PSA_ALG_MAC_SUBCATEGORY_MASK \<equiv> 0x00c00000"
abbreviation PSA_ALG_HMAC_BASE :: psa_algorithm where "PSA_ALG_HMAC_BASE \<equiv> 0x03800000"
abbreviation PSA_ALG_CIPHER_MAC_BASE :: psa_algorithm where
  "PSA_ALG_CIPHER_MAC_BASE \<equiv> 0x03c00000"
abbreviation PSA_ALG_CMAC :: psa_algorithm where "PSA_ALG_CMAC \<equiv> 0x03c00200"
abbreviation PSA_ALG_MAC_TRUNCATION_MASK :: psa_algorithm where
  "PSA_ALG_MAC_TRUNCATION_MASK \<equiv> 0x003f0000"
abbreviation PSA_ALG_MAC_AT_LEAST_THIS_LENGTH_FLAG :: psa_algorithm where
  "PSA_ALG_MAC_AT_LEAST_THIS_LENGTH_FLAG \<equiv> 0x00008000"

definition PSA_ALG_HMAC :: "psa_algorithm \<Rightarrow> psa_algorithm" where
  "PSA_ALG_HMAC h = PSA_ALG_HMAC_BASE OR (h AND PSA_ALG_HASH_MASK)"

definition PSA_ALG_HMAC_GET_HASH :: "psa_algorithm \<Rightarrow> psa_algorithm" where
  "PSA_ALG_HMAC_GET_HASH a = PSA_ALG_CATEGORY_HASH OR (a AND PSA_ALG_HASH_MASK)"

definition PSA_ALG_IS_HMAC :: "psa_algorithm \<Rightarrow> bool" where
  "PSA_ALG_IS_HMAC a \<longleftrightarrow>
     a AND (PSA_ALG_CATEGORY_MASK OR PSA_ALG_MAC_SUBCATEGORY_MASK) = PSA_ALG_HMAC_BASE"

definition PSA_ALG_IS_BLOCK_CIPHER_MAC :: "psa_algorithm \<Rightarrow> bool" where
  "PSA_ALG_IS_BLOCK_CIPHER_MAC a \<longleftrightarrow>
     a AND (PSA_ALG_CATEGORY_MASK OR PSA_ALG_MAC_SUBCATEGORY_MASK) = PSA_ALG_CIPHER_MAC_BASE"

definition PSA_ALG_TRUNCATED_MAC :: "psa_algorithm \<Rightarrow> nat \<Rightarrow> psa_algorithm" where
  "PSA_ALG_TRUNCATED_MAC a n =
     (a AND NOT (PSA_ALG_MAC_TRUNCATION_MASK OR PSA_ALG_MAC_AT_LEAST_THIS_LENGTH_FLAG)) OR
     (push_bit 16 (word_of_nat n) AND PSA_ALG_MAC_TRUNCATION_MASK)"

definition PSA_ALG_FULL_LENGTH_MAC :: "psa_algorithm \<Rightarrow> psa_algorithm" where
  "PSA_ALG_FULL_LENGTH_MAC a =
     a AND NOT (PSA_ALG_MAC_TRUNCATION_MASK OR PSA_ALG_MAC_AT_LEAST_THIS_LENGTH_FLAG)"

definition PSA_MAC_TRUNCATED_LENGTH :: "psa_algorithm \<Rightarrow> nat" where
  "PSA_MAC_TRUNCATED_LENGTH a = unat (drop_bit 16 (a AND PSA_ALG_MAC_TRUNCATION_MASK))"

definition PSA_ALG_AT_LEAST_THIS_LENGTH_MAC :: "psa_algorithm \<Rightarrow> nat \<Rightarrow> psa_algorithm" where
  "PSA_ALG_AT_LEAST_THIS_LENGTH_MAC a n =
     PSA_ALG_TRUNCATED_MAC a n OR PSA_ALG_MAC_AT_LEAST_THIS_LENGTH_FLAG"

definition PSA_HASH_LENGTH :: "psa_algorithm \<Rightarrow> nat" where
  "PSA_HASH_LENGTH a =
    (let h = PSA_ALG_HMAC_GET_HASH a in
       if h = PSA_ALG_MD5 then 16 else if h = PSA_ALG_RIPEMD160 then 20
       else if h = PSA_ALG_SHA_1 then 20 else if h = PSA_ALG_SHA_224 then 28
       else if h = PSA_ALG_SHA_256 then 32 else if h = PSA_ALG_SHA_384 then 48
       else if h = PSA_ALG_SHA_512 then 64 else if h = PSA_ALG_SHA_512_224 then 28
       else if h = PSA_ALG_SHA_512_256 then 32 else if h = PSA_ALG_SHA3_224 then 28
       else if h = PSA_ALG_SHA3_256 then 32 else if h = PSA_ALG_SHA3_384 then 48
       else if h = PSA_ALG_SHA3_512 then 64 else 0)"

definition PSA_MAC_LENGTH :: "psa_key_type \<Rightarrow> nat \<Rightarrow> psa_algorithm \<Rightarrow> nat" where
  "PSA_MAC_LENGTH key_type key_bits a =
    (if a AND PSA_ALG_MAC_TRUNCATION_MASK \<noteq> 0 then PSA_MAC_TRUNCATED_LENGTH a
     else if PSA_ALG_IS_HMAC a then PSA_HASH_LENGTH (PSA_ALG_HMAC_GET_HASH a)
     else if PSA_ALG_IS_BLOCK_CIPHER_MAC a then PSA_BLOCK_CIPHER_BLOCK_LENGTH key_type
     else 0)"

subsection \<open>AEAD\<close>

abbreviation PSA_ALG_CCM :: psa_algorithm where "PSA_ALG_CCM \<equiv> 0x05500100"
abbreviation PSA_ALG_GCM :: psa_algorithm where "PSA_ALG_GCM \<equiv> 0x05500200"
abbreviation PSA_ALG_CHACHA20_POLY1305 :: psa_algorithm where
  "PSA_ALG_CHACHA20_POLY1305 \<equiv> 0x05100500"
abbreviation PSA_ALG_AEAD_TAG_LENGTH_MASK :: psa_algorithm where
  "PSA_ALG_AEAD_TAG_LENGTH_MASK \<equiv> 0x003f0000"
abbreviation PSA_ALG_AEAD_AT_LEAST_THIS_LENGTH_FLAG :: psa_algorithm where
  "PSA_ALG_AEAD_AT_LEAST_THIS_LENGTH_FLAG \<equiv> 0x00008000"

definition PSA_ALG_AEAD_WITH_SHORTENED_TAG :: "psa_algorithm \<Rightarrow> nat \<Rightarrow> psa_algorithm" where
  "PSA_ALG_AEAD_WITH_SHORTENED_TAG a n =
     (a AND NOT (PSA_ALG_AEAD_TAG_LENGTH_MASK OR PSA_ALG_AEAD_AT_LEAST_THIS_LENGTH_FLAG)) OR
     (push_bit 16 (word_of_nat n) AND PSA_ALG_AEAD_TAG_LENGTH_MASK)"

definition PSA_ALG_AEAD_GET_TAG_LENGTH :: "psa_algorithm \<Rightarrow> nat" where
  "PSA_ALG_AEAD_GET_TAG_LENGTH a = unat (drop_bit 16 (a AND PSA_ALG_AEAD_TAG_LENGTH_MASK))"

definition PSA_ALG_AEAD_WITH_AT_LEAST_THIS_LENGTH_TAG ::
    "psa_algorithm \<Rightarrow> nat \<Rightarrow> psa_algorithm" where
  "PSA_ALG_AEAD_WITH_AT_LEAST_THIS_LENGTH_TAG a n =
     PSA_ALG_AEAD_WITH_SHORTENED_TAG a n OR PSA_ALG_AEAD_AT_LEAST_THIS_LENGTH_FLAG"

subsection \<open>Signatures\<close>

definition PSA_ALG_IS_RSA_PKCS1V15_SIGN :: "psa_algorithm \<Rightarrow> bool" where
  "PSA_ALG_IS_RSA_PKCS1V15_SIGN a \<longleftrightarrow> a AND NOT PSA_ALG_HASH_MASK = 0x06000200"

definition PSA_ALG_IS_RSA_PSS :: "psa_algorithm \<Rightarrow> bool" where
  "PSA_ALG_IS_RSA_PSS a \<longleftrightarrow>
     a AND NOT PSA_ALG_HASH_MASK = 0x06000300 \<or> a AND NOT PSA_ALG_HASH_MASK = 0x06001300"

definition PSA_ALG_IS_ECDSA :: "psa_algorithm \<Rightarrow> bool" where
  "PSA_ALG_IS_ECDSA a \<longleftrightarrow> a AND NOT PSA_ALG_HASH_MASK AND NOT 0x00000100 = 0x06000600"

definition PSA_ALG_IS_HASH_EDDSA :: "psa_algorithm \<Rightarrow> bool" where
  "PSA_ALG_IS_HASH_EDDSA a \<longleftrightarrow> a AND NOT PSA_ALG_HASH_MASK = 0x06000900"

definition PSA_ALG_IS_SIGN_HASH :: "psa_algorithm \<Rightarrow> bool" where
  "PSA_ALG_IS_SIGN_HASH a \<longleftrightarrow>
     PSA_ALG_IS_RSA_PSS a \<or> PSA_ALG_IS_RSA_PKCS1V15_SIGN a \<or>
     PSA_ALG_IS_ECDSA a \<or> PSA_ALG_IS_HASH_EDDSA a"

definition PSA_ALG_IS_HASH_AND_SIGN :: "psa_algorithm \<Rightarrow> bool" where
  "PSA_ALG_IS_HASH_AND_SIGN a \<longleftrightarrow> PSA_ALG_IS_SIGN_HASH a \<and> a AND PSA_ALG_HASH_MASK \<noteq> 0"

definition PSA_ALG_SIGN_GET_HASH :: "psa_algorithm \<Rightarrow> psa_algorithm" where
  "PSA_ALG_SIGN_GET_HASH a =
     (if PSA_ALG_IS_HASH_AND_SIGN a then (a AND PSA_ALG_HASH_MASK) OR PSA_ALG_CATEGORY_HASH
      else 0)"

subsection \<open>Key agreement, PAKE, wildcards\<close>

definition PSA_ALG_KEY_AGREEMENT_GET_KDF :: "psa_algorithm \<Rightarrow> psa_algorithm" where
  "PSA_ALG_KEY_AGREEMENT_GET_KDF a = (a AND 0xfe00ffff) OR PSA_ALG_CATEGORY_KEY_DERIVATION"

definition PSA_ALG_KEY_AGREEMENT_GET_BASE :: "psa_algorithm \<Rightarrow> psa_algorithm" where
  "PSA_ALG_KEY_AGREEMENT_GET_BASE a = (a AND 0xffff0000) OR PSA_ALG_CATEGORY_KEY_AGREEMENT"

definition PSA_ALG_IS_RAW_KEY_AGREEMENT :: "psa_algorithm \<Rightarrow> bool" where
  "PSA_ALG_IS_RAW_KEY_AGREEMENT a \<longleftrightarrow>
     PSA_ALG_IS_KEY_AGREEMENT a \<and>
     PSA_ALG_KEY_AGREEMENT_GET_KDF a = PSA_ALG_CATEGORY_KEY_DERIVATION"

abbreviation PSA_ALG_JPAKE_BASE :: psa_algorithm where "PSA_ALG_JPAKE_BASE \<equiv> 0x0a000100"
abbreviation PSA_ALG_JPAKE_BETA :: psa_algorithm where "PSA_ALG_JPAKE_BETA \<equiv> PSA_ALG_JPAKE_BASE"

definition PSA_ALG_IS_JPAKE :: "psa_algorithm \<Rightarrow> bool" where
  "PSA_ALG_IS_JPAKE a \<longleftrightarrow> a AND NOT PSA_ALG_HASH_MASK = PSA_ALG_JPAKE_BASE"

definition PSA_ALG_IS_WILDCARD :: "psa_algorithm \<Rightarrow> bool" where
  "PSA_ALG_IS_WILDCARD a \<longleftrightarrow>
     (if PSA_ALG_IS_HASH_AND_SIGN a then PSA_ALG_SIGN_GET_HASH a = PSA_ALG_ANY_HASH
      else if PSA_ALG_IS_MAC a then a AND PSA_ALG_MAC_AT_LEAST_THIS_LENGTH_FLAG \<noteq> 0
      else if PSA_ALG_IS_AEAD a then a AND PSA_ALG_AEAD_AT_LEAST_THIS_LENGTH_FLAG \<noteq> 0
      else a = PSA_ALG_ANY_HASH)"

section \<open>Lifetimes, key identifiers, usage flags\<close>

type_synonym psa_key_lifetime = u32
type_synonym psa_key_id = u32
type_synonym psa_key_usage = u32

abbreviation PSA_KEY_LIFETIME_VOLATILE :: psa_key_lifetime where
  "PSA_KEY_LIFETIME_VOLATILE \<equiv> 0"
abbreviation PSA_KEY_LIFETIME_PERSISTENT :: psa_key_lifetime where
  "PSA_KEY_LIFETIME_PERSISTENT \<equiv> 1"

definition PSA_KEY_LIFETIME_GET_PERSISTENCE :: "psa_key_lifetime \<Rightarrow> u8" where
  "PSA_KEY_LIFETIME_GET_PERSISTENCE l = ucast (l AND 0x000000ff)"

definition PSA_KEY_LIFETIME_GET_LOCATION :: "psa_key_lifetime \<Rightarrow> u32" where
  "PSA_KEY_LIFETIME_GET_LOCATION l = drop_bit 8 l"

definition PSA_KEY_LIFETIME_IS_VOLATILE :: "psa_key_lifetime \<Rightarrow> bool" where
  "PSA_KEY_LIFETIME_IS_VOLATILE l \<longleftrightarrow> PSA_KEY_LIFETIME_GET_PERSISTENCE l = 0x00"

definition PSA_KEY_LIFETIME_IS_READ_ONLY :: "psa_key_lifetime \<Rightarrow> bool" where
  "PSA_KEY_LIFETIME_IS_READ_ONLY l \<longleftrightarrow> PSA_KEY_LIFETIME_GET_PERSISTENCE l = 0xff"

abbreviation PSA_KEY_LOCATION_LOCAL_STORAGE :: u32 where
  "PSA_KEY_LOCATION_LOCAL_STORAGE \<equiv> 0"

abbreviation PSA_KEY_ID_USER_MIN :: psa_key_id where "PSA_KEY_ID_USER_MIN \<equiv> 0x00000001"
abbreviation PSA_KEY_ID_USER_MAX :: psa_key_id where "PSA_KEY_ID_USER_MAX \<equiv> 0x3fffffff"
abbreviation PSA_KEY_ID_VENDOR_MIN :: psa_key_id where "PSA_KEY_ID_VENDOR_MIN \<equiv> 0x40000000"
abbreviation MBEDTLS_PSA_KEY_ID_BUILTIN_MIN :: psa_key_id where
  "MBEDTLS_PSA_KEY_ID_BUILTIN_MIN \<equiv> 0x7fff0000"
abbreviation MBEDTLS_PSA_KEY_ID_BUILTIN_MAX :: psa_key_id where
  "MBEDTLS_PSA_KEY_ID_BUILTIN_MAX \<equiv> 0x7fffefff"

definition psa_key_id_is_user :: "psa_key_id \<Rightarrow> bool" where
  "psa_key_id_is_user k \<longleftrightarrow> PSA_KEY_ID_USER_MIN \<le> k \<and> k \<le> PSA_KEY_ID_USER_MAX"

definition psa_key_id_is_builtin :: "psa_key_id \<Rightarrow> bool" where
  "psa_key_id_is_builtin k \<longleftrightarrow>
     MBEDTLS_PSA_KEY_ID_BUILTIN_MIN \<le> k \<and> k \<le> MBEDTLS_PSA_KEY_ID_BUILTIN_MAX"

text \<open>The volatile range of the dynamic key store (core/psa_crypto_slot_management.h).\<close>

definition psa_key_id_is_volatile :: "psa_key_id \<Rightarrow> bool" where
  "psa_key_id_is_volatile k \<longleftrightarrow>
     PSA_KEY_ID_VENDOR_MIN \<le> k \<and> k \<le> MBEDTLS_PSA_KEY_ID_BUILTIN_MIN - 1"

abbreviation PSA_KEY_USAGE_EXPORT :: psa_key_usage where "PSA_KEY_USAGE_EXPORT \<equiv> 0x00000001"
abbreviation PSA_KEY_USAGE_COPY :: psa_key_usage where "PSA_KEY_USAGE_COPY \<equiv> 0x00000002"
abbreviation PSA_KEY_USAGE_ENCRYPT :: psa_key_usage where "PSA_KEY_USAGE_ENCRYPT \<equiv> 0x00000100"
abbreviation PSA_KEY_USAGE_DECRYPT :: psa_key_usage where "PSA_KEY_USAGE_DECRYPT \<equiv> 0x00000200"
abbreviation PSA_KEY_USAGE_SIGN_MESSAGE :: psa_key_usage where
  "PSA_KEY_USAGE_SIGN_MESSAGE \<equiv> 0x00000400"
abbreviation PSA_KEY_USAGE_VERIFY_MESSAGE :: psa_key_usage where
  "PSA_KEY_USAGE_VERIFY_MESSAGE \<equiv> 0x00000800"
abbreviation PSA_KEY_USAGE_SIGN_HASH :: psa_key_usage where
  "PSA_KEY_USAGE_SIGN_HASH \<equiv> 0x00001000"
abbreviation PSA_KEY_USAGE_VERIFY_HASH :: psa_key_usage where
  "PSA_KEY_USAGE_VERIFY_HASH \<equiv> 0x00002000"
abbreviation PSA_KEY_USAGE_DERIVE :: psa_key_usage where "PSA_KEY_USAGE_DERIVE \<equiv> 0x00004000"
abbreviation PSA_KEY_USAGE_VERIFY_DERIVATION :: psa_key_usage where
  "PSA_KEY_USAGE_VERIFY_DERIVATION \<equiv> 0x00008000"

lemma psa_key_id_ranges_disjoint:
  "psa_key_id_is_user k \<Longrightarrow> \<not> psa_key_id_is_volatile k"
  "psa_key_id_is_builtin k \<Longrightarrow> \<not> psa_key_id_is_volatile k"
  "psa_key_id_is_user k \<Longrightarrow> \<not> psa_key_id_is_builtin k"
  by (auto simp: psa_key_id_is_user_def psa_key_id_is_volatile_def psa_key_id_is_builtin_def
      word_le_nat_alt)

section \<open>Key attributes\<close>

record psa_key_policy =
  policy_usage :: psa_key_usage
  policy_alg :: psa_algorithm
  policy_alg2 :: psa_algorithm

record psa_key_attributes =
  attr_type :: psa_key_type
  attr_bits :: u16
  attr_lifetime :: psa_key_lifetime
  attr_policy :: psa_key_policy
  attr_id :: psa_key_id

definition PSA_KEY_ATTRIBUTES_INIT :: psa_key_attributes where
  "PSA_KEY_ATTRIBUTES_INIT =
     \<lparr>attr_type = 0, attr_bits = 0, attr_lifetime = PSA_KEY_LIFETIME_VOLATILE,
      attr_policy = \<lparr>policy_usage = 0, policy_alg = 0, policy_alg2 = 0\<rparr>, attr_id = 0\<rparr>"

definition PSA_MAX_KEY_BITS :: nat where
  "PSA_MAX_KEY_BITS = 0xfff8"

end
