(* ===== verification/Key_Slots.thy ===== *)
theory Key_Slots
  imports Crypto_Values
begin

text \<open>
  The key store: core/psa_crypto_slot_management.c and .h and the slot functions of
  core/psa_crypto.c (psa_remove_key_data_from_memory, psa_wipe_key_slot), in the default
  configuration (dynamic key store, no threading layer, no built-in keys, no test hooks).
  A slot pointer is the pair of its slice index and its index in the slice. The state is the
  static \<open>global_data\<close> of the file, with the outcomes of the coming allocations.
\<close>

section \<open>Slots\<close>

datatype psa_key_slot_state =
    PSA_SLOT_EMPTY
  | PSA_SLOT_FILLING
  | PSA_SLOT_FULL
  | PSA_SLOT_PENDING_DELETION

text \<open>
  The union \<open>var\<close> overlays the 32-bit free-list link \<open>free.next_free_relative_to_next\<close> and the
  64-bit reader count \<open>occupied.registered_readers\<close>. It is kept as the 64-bit memory word both
  are read from (little-endian: the link is the low half).
\<close>

record psa_key_slot =
  slot_attr :: psa_key_attributes
  slot_state :: psa_key_slot_state
  slot_slice_index :: u8
  slot_var :: u64
  slot_key_data :: "bytes option"
  slot_key_bytes :: nat

definition next_free_relative_to_next :: "psa_key_slot \<Rightarrow> int" where
  "next_free_relative_to_next s = sint (ucast (slot_var s) :: u32)"

definition set_next_free_relative_to_next :: "int \<Rightarrow> psa_key_slot \<Rightarrow> psa_key_slot" where
  "set_next_free_relative_to_next r s =
     s\<lparr>slot_var := (slot_var s AND NOT 0xffffffff) OR ucast (word_of_int r :: u32)\<rparr>"

definition registered_readers :: "psa_key_slot \<Rightarrow> nat" where
  "registered_readers s = unat (slot_var s)"

definition set_registered_readers :: "nat \<Rightarrow> psa_key_slot \<Rightarrow> psa_key_slot" where
  "set_registered_readers n s = s\<lparr>slot_var := word_of_nat n\<rparr>"

text \<open>A slot whose memory is all zero: fresh from calloc, or after the memset of a wipe.\<close>

definition psa_key_slot_zero :: psa_key_slot where
  "psa_key_slot_zero =
     \<lparr>slot_attr = PSA_KEY_ATTRIBUTES_INIT, slot_state = PSA_SLOT_EMPTY, slot_slice_index = 0,
      slot_var = 0, slot_key_data = None, slot_key_bytes = 0\<rparr>"

definition psa_key_slot_has_readers :: "psa_key_slot \<Rightarrow> bool" where
  "psa_key_slot_has_readers s \<longleftrightarrow> registered_readers s > 0"

definition psa_key_slot_state_transition ::
    "psa_key_slot \<Rightarrow> psa_key_slot_state \<Rightarrow> psa_key_slot_state \<Rightarrow> psa_status \<times> psa_key_slot" where
  "psa_key_slot_state_transition s expected new =
     (if slot_state s \<noteq> expected then (PSA_ERROR_CORRUPTION_DETECTED, s)
      else (PSA_SUCCESS, s\<lparr>slot_state := new\<rparr>))"

definition psa_register_read :: "psa_key_slot \<Rightarrow> psa_status \<times> psa_key_slot" where
  "psa_register_read s =
     (if slot_state s \<noteq> PSA_SLOT_FULL \<or> registered_readers s \<ge> SIZE_MAX
      then (PSA_ERROR_CORRUPTION_DETECTED, s)
      else (PSA_SUCCESS, set_registered_readers (registered_readers s + 1) s))"

definition psa_remove_key_data_from_memory :: "psa_key_slot \<Rightarrow> psa_status \<times> psa_key_slot" where
  "psa_remove_key_data_from_memory s =
     (PSA_SUCCESS, s\<lparr>slot_key_data := None, slot_key_bytes := 0\<rparr>)"

section \<open>The store\<close>

type_synonym slot_ref = "nat \<times> nat"

record psa_global_data =
  key_slices :: "psa_key_slot list option list"
  first_free_slot_index :: "nat list"
  key_slots_initialized :: bool
  calloc_outcomes :: "bool list"

abbreviation MBEDTLS_PSA_KEY_SLOT_COUNT :: nat where "MBEDTLS_PSA_KEY_SLOT_COUNT \<equiv> 32"
abbreviation PERSISTENT_KEY_CACHE_COUNT :: nat where
  "PERSISTENT_KEY_CACHE_COUNT \<equiv> MBEDTLS_PSA_KEY_SLOT_COUNT"
abbreviation KEY_ID_SLOT_INDEX_WIDTH :: nat where "KEY_ID_SLOT_INDEX_WIDTH \<equiv> 25"
abbreviation KEY_ID_SLICE_INDEX_WIDTH :: nat where "KEY_ID_SLICE_INDEX_WIDTH \<equiv> 5"
abbreviation KEY_SLOT_VOLATILE_SLICE_BASE_LENGTH :: nat where
  "KEY_SLOT_VOLATILE_SLICE_BASE_LENGTH \<equiv> 16"
abbreviation KEY_SLOT_VOLATILE_SLICE_COUNT :: nat where "KEY_SLOT_VOLATILE_SLICE_COUNT \<equiv> 22"
abbreviation KEY_SLICE_COUNT :: nat where "KEY_SLICE_COUNT \<equiv> 23"
abbreviation KEY_SLOT_CACHE_SLICE_INDEX :: nat where "KEY_SLOT_CACHE_SLICE_INDEX \<equiv> 22"

definition FREE_SLOT_INDEX_NONE :: nat where
  "FREE_SLOT_INDEX_NONE = SIZE_MAX"

definition volatile_key_id_of_index :: "nat \<Rightarrow> nat \<Rightarrow> psa_key_id" where
  "volatile_key_id_of_index slice_idx slot_idx =
     0x40000000 OR push_bit KEY_ID_SLOT_INDEX_WIDTH (word_of_nat slice_idx) OR word_of_nat slot_idx"

definition slice_index_of_volatile_key_id :: "psa_key_id \<Rightarrow> nat" where
  "slice_index_of_volatile_key_id key_id =
     unat (drop_bit KEY_ID_SLOT_INDEX_WIDTH key_id AND mask KEY_ID_SLICE_INDEX_WIDTH)"

definition slot_index_of_volatile_key_id :: "psa_key_id \<Rightarrow> nat" where
  "slot_index_of_volatile_key_id key_id = unat (key_id AND mask KEY_ID_SLOT_INDEX_WIDTH)"

definition key_slice_length :: "nat \<Rightarrow> nat" where
  "key_slice_length slice_idx =
     (if slice_idx = KEY_SLOT_CACHE_SLICE_INDEX then PERSISTENT_KEY_CACHE_COUNT
      else KEY_SLOT_VOLATILE_SLICE_BASE_LENGTH * 2 ^ slice_idx)"

text \<open>Dereferencing a slot pointer, and writing through it.\<close>

definition get_key_slot :: "psa_global_data \<Rightarrow> slot_ref \<Rightarrow> psa_key_slot" where
  "get_key_slot g r = the (key_slices g ! fst r) ! snd r"

definition put_key_slot :: "slot_ref \<Rightarrow> psa_key_slot \<Rightarrow> psa_global_data \<Rightarrow> psa_global_data" where
  "put_key_slot r s g =
     g\<lparr>key_slices := (key_slices g)[fst r := Some ((the (key_slices g ! fst r))[snd r := s])]\<rparr>"

definition get_volatile_key_slot :: "psa_global_data \<Rightarrow> psa_key_id \<Rightarrow> slot_ref option" where
  "get_volatile_key_slot g key_id =
     (let slice_idx = slice_index_of_volatile_key_id key_id in
      if slice_idx \<ge> KEY_SLOT_VOLATILE_SLICE_COUNT then None
      else let slot_idx = slot_index_of_volatile_key_id key_id in
        if slot_idx \<ge> key_slice_length slice_idx then None
        else case key_slices g ! slice_idx of
            None \<Rightarrow> None
          | Some sl \<Rightarrow> Some (slice_idx, slot_idx))"

definition get_persistent_key_slot :: "psa_global_data \<Rightarrow> nat \<Rightarrow> slot_ref" where
  "get_persistent_key_slot g slot_idx = (KEY_SLOT_CACHE_SLICE_INDEX, slot_idx)"

section \<open>Allocating and freeing slots\<close>

text \<open>The scan of the volatile slices for one with a free slot.\<close>

fun find_free_slice :: "nat list \<Rightarrow> nat \<Rightarrow> nat" where
  "find_free_slice [] slice_idx = slice_idx"
| "find_free_slice (f # fs) slice_idx =
     (if f \<noteq> FREE_SLOT_INDEX_NONE then slice_idx else find_free_slice fs (Suc slice_idx))"

definition next_free_index :: "psa_key_slot \<Rightarrow> nat \<Rightarrow> nat" where
  "next_free_index s slot_idx = size_of_int (int slot_idx + 1 + next_free_relative_to_next s)"

text \<open>
  The result is the status, the key identifier written to \<open>*key_id\<close> (if the code got that far),
  the slot written to \<open>*p_slot\<close> and the new state. \<open>allocate_from_slice\<close> is the part of
  psa_allocate_volatile_key_slot after the slice is known to be allocated.
\<close>

definition allocate_from_slice ::
    "nat \<Rightarrow> psa_global_data \<Rightarrow>
     psa_status \<times> psa_key_id option \<times> slot_ref option \<times> psa_global_data" where
  "allocate_from_slice slice_idx g =
    (let slot_idx = first_free_slot_index g ! slice_idx;
         key_id = volatile_key_id_of_index slice_idx slot_idx;
         r = (slice_idx, slot_idx);
         slot = get_key_slot g r;
         next_free = next_free_index slot slot_idx;
         next_free = (if next_free \<ge> key_slice_length slice_idx
                      then FREE_SLOT_INDEX_NONE else next_free);
         g = g\<lparr>first_free_slot_index := (first_free_slot_index g)[slice_idx := next_free]\<rparr>;
         slot = set_next_free_relative_to_next 0 slot;
         (status, slot) = psa_key_slot_state_transition slot PSA_SLOT_EMPTY PSA_SLOT_FILLING
     in if status \<noteq> PSA_SUCCESS then (status, Some key_id, None, put_key_slot r slot g)
        else (PSA_SUCCESS, Some key_id, Some r,
              put_key_slot r (slot\<lparr>slot_slice_index := word_of_nat slice_idx\<rparr>) g))"

definition psa_allocate_volatile_key_slot ::
    "psa_global_data \<Rightarrow> psa_status \<times> psa_key_id option \<times> slot_ref option \<times> psa_global_data" where
  "psa_allocate_volatile_key_slot g =
    (let slice_idx = find_free_slice (first_free_slot_index g) 0 in
     if slice_idx = KEY_SLOT_VOLATILE_SLICE_COUNT
     then (PSA_ERROR_INSUFFICIENT_MEMORY, None, None, g)
     else
       case key_slices g ! slice_idx of
         Some _ \<Rightarrow> allocate_from_slice slice_idx g
       | None \<Rightarrow>
           let (ok, outcomes) = mbedtls_calloc (calloc_outcomes g);
               g = g\<lparr>calloc_outcomes := outcomes\<rparr>
           in if ok
              then allocate_from_slice slice_idx (g\<lparr>key_slices := (key_slices g)[slice_idx :=
                     Some (replicate (key_slice_length slice_idx) psa_key_slot_zero)]\<rparr>)
              else (PSA_ERROR_INSUFFICIENT_MEMORY, None, None, g))"

definition psa_free_key_slot ::
    "nat \<Rightarrow> slot_ref \<Rightarrow> psa_global_data \<Rightarrow> psa_status \<times> psa_global_data" where
  "psa_free_key_slot slice_idx r g =
    (if slice_idx = KEY_SLOT_CACHE_SLICE_INDEX then (PSA_SUCCESS, g)
     else if slice_idx \<ge> KEY_SLOT_VOLATILE_SLICE_COUNT then (PSA_ERROR_CORRUPTION_DETECTED, g)
     else if fst r \<noteq> slice_idx \<or> snd r \<ge> key_slice_length slice_idx
     then (PSA_ERROR_CORRUPTION_DETECTED, g)
     else
       let slot_idx = snd r;
           next_free = first_free_slot_index g ! slice_idx;
           next_free = (if next_free \<ge> key_slice_length slice_idx
                        then key_slice_length slice_idx else next_free);
           g = g\<lparr>first_free_slot_index := (first_free_slot_index g)[slice_idx := slot_idx]\<rparr>
       in (PSA_SUCCESS,
           put_key_slot r
             (set_next_free_relative_to_next
                (int32_of_size next_free - int32_of_size slot_idx - 1) (get_key_slot g r)) g))"

definition psa_wipe_key_slot :: "slot_ref \<Rightarrow> psa_global_data \<Rightarrow> psa_status \<times> psa_global_data" where
  "psa_wipe_key_slot r g =
    (let (status, slot) = psa_remove_key_data_from_memory (get_key_slot g r);
         status =
           (case slot_state slot of
              PSA_SLOT_FULL \<Rightarrow>
                if registered_readers slot \<noteq> 1 then PSA_ERROR_CORRUPTION_DETECTED else status
            | PSA_SLOT_PENDING_DELETION \<Rightarrow>
                if registered_readers slot \<noteq> 1 then PSA_ERROR_CORRUPTION_DETECTED else status
            | PSA_SLOT_FILLING \<Rightarrow>
                if registered_readers slot \<noteq> 0 then PSA_ERROR_CORRUPTION_DETECTED else status
            | PSA_SLOT_EMPTY \<Rightarrow> PSA_ERROR_CORRUPTION_DETECTED);
         slice_index = unat (slot_slice_index slot);
         g = put_key_slot r psa_key_slot_zero g
     in if status = PSA_SUCCESS then psa_free_key_slot slice_index r g else (status, g))"

text \<open>The scan of the cache slice: the first empty slot, and the first evictable one before it.\<close>

fun scan_cache :: "psa_key_slot list \<Rightarrow> nat \<Rightarrow> nat option \<Rightarrow> nat option \<times> nat option" where
  "scan_cache [] slot_idx unused = (None, unused)"
| "scan_cache (s # ss) slot_idx unused =
     (if slot_state s = PSA_SLOT_EMPTY then (Some slot_idx, unused)
      else scan_cache ss (Suc slot_idx)
        (if unused = None \<and> slot_state s = PSA_SLOT_FULL \<and> \<not> psa_key_slot_has_readers s \<and>
            \<not> PSA_KEY_LIFETIME_IS_VOLATILE (attr_lifetime (slot_attr s))
         then Some slot_idx else unused))"

text \<open>
  \<open>volatile\<close> stands for the test \<open>volatile_key_id != NULL\<close>.
\<close>

definition psa_reserve_free_key_slot ::
    "bool \<Rightarrow> psa_global_data \<Rightarrow>
     psa_status \<times> psa_key_id option \<times> slot_ref option \<times> psa_global_data" where
  "psa_reserve_free_key_slot volatile g =
    (if \<not> key_slots_initialized g then (PSA_ERROR_BAD_STATE, None, None, g)
     else if volatile then psa_allocate_volatile_key_slot g
     else
       let (selected, unused) =
             scan_cache (the (key_slices g ! KEY_SLOT_CACHE_SLICE_INDEX)) 0 None;
           (status, selected, g) =
             (case (selected, unused) of
                (None, Some u) \<Rightarrow>
                  let r = (KEY_SLOT_CACHE_SLICE_INDEX, u);
                      g = put_key_slot r (snd (psa_register_read (get_key_slot g r))) g;
                      (status, g) = psa_wipe_key_slot r g
                  in (status, Some u, g)
              | _ \<Rightarrow> (PSA_SUCCESS, selected, g))
       in if status \<noteq> PSA_SUCCESS then (status, None, None, g)
          else case selected of
              None \<Rightarrow> (PSA_ERROR_INSUFFICIENT_MEMORY, None, None, g)
            | Some slot_idx \<Rightarrow>
                let r = (KEY_SLOT_CACHE_SLICE_INDEX, slot_idx);
                    (status, slot) = psa_key_slot_state_transition (get_key_slot g r)
                                       PSA_SLOT_EMPTY PSA_SLOT_FILLING
                in if status \<noteq> PSA_SUCCESS then (status, None, None, g)
                   else (PSA_SUCCESS, None, Some r,
                         put_key_slot r
                           (slot\<lparr>slot_slice_index := word_of_nat KEY_SLOT_CACHE_SLICE_INDEX\<rparr>) g))"

section \<open>Finding and locking a key in memory\<close>

fun find_key_in_cache :: "psa_key_id \<Rightarrow> psa_key_slot list \<Rightarrow> nat \<Rightarrow> nat" where
  "find_key_in_cache key [] slot_idx = slot_idx"
| "find_key_in_cache key (s # ss) slot_idx =
     (if slot_state s = PSA_SLOT_FULL \<and> key = attr_id (slot_attr s) then slot_idx
      else find_key_in_cache key ss (Suc slot_idx))"

definition psa_get_and_lock_key_slot_in_memory ::
    "psa_key_id \<Rightarrow> psa_global_data \<Rightarrow> psa_status \<times> slot_ref option \<times> psa_global_data" where
  "psa_get_and_lock_key_slot_in_memory key g =
    (let lock = (\<lambda>r. let (status, slot) = psa_register_read (get_key_slot g r)
                 in if status = PSA_SUCCESS then (PSA_SUCCESS, Some r, put_key_slot r slot g)
                    else (status, None, g))
     in if psa_key_id_is_volatile key then
          (case get_volatile_key_slot g key of
             Some r \<Rightarrow>
               if slot_state (get_key_slot g r) = PSA_SLOT_FULL \<and>
                  key = attr_id (slot_attr (get_key_slot g r))
               then lock r else (PSA_ERROR_DOES_NOT_EXIST, None, g)
           | None \<Rightarrow> (PSA_ERROR_DOES_NOT_EXIST, None, g))
        else if psa_key_id_is_user key \<or> psa_key_id_is_builtin key then
          (let slot_idx = find_key_in_cache key
                            (the (key_slices g ! KEY_SLOT_CACHE_SLICE_INDEX)) 0
           in if slot_idx < MBEDTLS_PSA_KEY_SLOT_COUNT
              then lock (get_persistent_key_slot g slot_idx)
              else (PSA_ERROR_DOES_NOT_EXIST, None, g))
        else (PSA_ERROR_INVALID_HANDLE, None, g))"

definition psa_unregister_read ::
    "slot_ref option \<Rightarrow> psa_global_data \<Rightarrow> psa_status \<times> psa_global_data" where
  "psa_unregister_read p g =
    (case p of
       None \<Rightarrow> (PSA_SUCCESS, g)
     | Some r \<Rightarrow>
         let slot = get_key_slot g r in
         if slot_state slot \<noteq> PSA_SLOT_FULL \<and> slot_state slot \<noteq> PSA_SLOT_PENDING_DELETION
         then (PSA_ERROR_CORRUPTION_DETECTED, g)
         else if slot_state slot = PSA_SLOT_PENDING_DELETION \<and> registered_readers slot = 1
         then psa_wipe_key_slot r g
         else if psa_key_slot_has_readers slot
         then (PSA_SUCCESS,
               put_key_slot r (set_registered_readers (registered_readers slot - 1) slot) g)
         else (PSA_ERROR_CORRUPTION_DETECTED, g))"

text \<open>Without the threading layer, taking the mutex is a no-op.\<close>

definition psa_unregister_read_under_mutex ::
    "slot_ref option \<Rightarrow> psa_global_data \<Rightarrow> psa_status \<times> psa_global_data" where
  "psa_unregister_read_under_mutex p g = psa_unregister_read p g"

definition psa_purge_key :: "psa_key_id \<Rightarrow> psa_global_data \<Rightarrow> psa_status \<times> psa_global_data" where
  "psa_purge_key key g =
    (case psa_get_and_lock_key_slot_in_memory key g of
       (PSA_SUCCESS, Some r, g) \<Rightarrow>
         if \<not> PSA_KEY_LIFETIME_IS_VOLATILE (attr_lifetime (slot_attr (get_key_slot g r))) \<and>
            registered_readers (get_key_slot g r) = 1
         then psa_wipe_key_slot r g
         else psa_unregister_read (Some r) g
     | (status, _, g) \<Rightarrow> (status, g))"

section \<open>Initialisation and teardown\<close>

text \<open>The static \<open>global_data\<close> at program start: all zero.\<close>

definition psa_global_data_zero :: "bool list \<Rightarrow> psa_global_data" where
  "psa_global_data_zero outcomes =
     \<lparr>key_slices = replicate KEY_SLICE_COUNT None,
      first_free_slot_index = replicate KEY_SLOT_VOLATILE_SLICE_COUNT 0,
      key_slots_initialized = False, calloc_outcomes = outcomes\<rparr>"

definition psa_initialize_key_slots :: "psa_global_data \<Rightarrow> psa_status \<times> psa_global_data" where
  "psa_initialize_key_slots g =
    (let (ok, outcomes) = mbedtls_calloc (calloc_outcomes g);
         g = g\<lparr>calloc_outcomes := outcomes\<rparr>
     in if \<not> ok
        then (PSA_ERROR_INSUFFICIENT_MEMORY,
              g\<lparr>key_slices := (key_slices g)[KEY_SLOT_CACHE_SLICE_INDEX := None]\<rparr>)
        else (PSA_SUCCESS,
              g\<lparr>key_slices := (key_slices g)[KEY_SLOT_CACHE_SLICE_INDEX :=
                   Some (replicate PERSISTENT_KEY_CACHE_COUNT psa_key_slot_zero)],
                key_slots_initialized := True\<rparr>))"

definition wipe_slot_for_shutdown :: "slot_ref \<Rightarrow> psa_global_data \<Rightarrow> psa_global_data" where
  "wipe_slot_for_shutdown r g =
    (let slot = get_key_slot g r in
     if slot_state slot = PSA_SLOT_EMPTY then g
     else snd (psa_wipe_key_slot r
            (put_key_slot r ((set_registered_readers 1 slot)\<lparr>slot_state := PSA_SLOT_PENDING_DELETION\<rparr>) g)))"

definition wipe_slice_for_shutdown :: "nat \<Rightarrow> psa_global_data \<Rightarrow> psa_global_data" where
  "wipe_slice_for_shutdown slice_idx g =
    (case key_slices g ! slice_idx of
       None \<Rightarrow> g
     | Some _ \<Rightarrow>
         let g = fold (\<lambda>slot_idx. wipe_slot_for_shutdown (slice_idx, slot_idx))
                   [0..<key_slice_length slice_idx] g
         in g\<lparr>key_slices := (key_slices g)[slice_idx := None]\<rparr>)"

definition psa_wipe_all_key_slots :: "psa_global_data \<Rightarrow> psa_global_data" where
  "psa_wipe_all_key_slots g =
    (let g = fold wipe_slice_for_shutdown [0..<KEY_SLICE_COUNT] g
     in g\<lparr>first_free_slot_index :=
            fold (\<lambda>slice_idx fs. fs[slice_idx := 0]) [0..<KEY_SLOT_VOLATILE_SLICE_COUNT]
              (first_free_slot_index g),
          key_slots_initialized := False\<rparr>)"

definition psa_validate_key_persistence :: "psa_key_lifetime \<Rightarrow> psa_status" where
  "psa_validate_key_persistence lifetime =
    (if PSA_KEY_LIFETIME_IS_VOLATILE lifetime then PSA_SUCCESS
     else if PSA_KEY_LIFETIME_IS_READ_ONLY lifetime then PSA_ERROR_INVALID_ARGUMENT
     else PSA_SUCCESS)"

definition psa_key_lifetime_is_external :: "psa_key_lifetime \<Rightarrow> bool" where
  "psa_key_lifetime_is_external lifetime \<longleftrightarrow>
     PSA_KEY_LIFETIME_GET_LOCATION lifetime \<noteq> PSA_KEY_LOCATION_LOCAL_STORAGE"

section \<open>Statistics\<close>

record mbedtls_psa_stats =
  volatile_slots :: nat
  persistent_slots :: nat
  external_slots :: nat
  half_filled_slots :: nat
  cache_slots :: nat
  empty_slots :: nat
  locked_slots :: nat
  max_open_internal_key_id :: psa_key_id
  max_open_external_key_id :: psa_key_id

definition count_slot :: "psa_key_slot \<Rightarrow> mbedtls_psa_stats \<Rightarrow> mbedtls_psa_stats" where
  "count_slot slot st =
    (if slot_state slot = PSA_SLOT_EMPTY then st\<lparr>empty_slots := empty_slots st + 1\<rparr>
     else
       let key_id = attr_id (slot_attr slot);
           st = (if psa_key_slot_has_readers slot
                 then st\<lparr>locked_slots := locked_slots st + 1\<rparr> else st);
           st = (if PSA_KEY_LIFETIME_IS_VOLATILE (attr_lifetime (slot_attr slot))
                 then st\<lparr>volatile_slots := volatile_slots st + 1\<rparr>
                 else st\<lparr>persistent_slots := persistent_slots st + 1,
                         max_open_internal_key_id := max (max_open_internal_key_id st) key_id\<rparr>)
       in if PSA_KEY_LIFETIME_GET_LOCATION (attr_lifetime (slot_attr slot))
             \<noteq> PSA_KEY_LOCATION_LOCAL_STORAGE
          then st\<lparr>external_slots := external_slots st + 1,
                  max_open_external_key_id := max (max_open_external_key_id st) key_id\<rparr>
          else st)"

definition mbedtls_psa_get_stats :: "psa_global_data \<Rightarrow> mbedtls_psa_stats" where
  "mbedtls_psa_get_stats g =
     fold (\<lambda>slice_idx st.
        case key_slices g ! slice_idx of
          None \<Rightarrow> st
        | Some _ \<Rightarrow>
            fold (\<lambda>slot_idx. count_slot (get_key_slot g (slice_idx, slot_idx)))
              [0..<key_slice_length slice_idx] st)
       [0..<KEY_SLICE_COUNT]
       \<lparr>volatile_slots = 0, persistent_slots = 0, external_slots = 0, half_filled_slots = 0,
        cache_slots = 0, empty_slots = 0, locked_slots = 0, max_open_internal_key_id = 0, max_open_external_key_id = 0\<rparr>"

end
