(* ===== verification/Slot_Invariant.thy ===== *)
theory Slot_Invariant
  imports Key_Slots
begin

text \<open>
  The well-formedness invariant of the key store and its preservation by every operation of
  Key_Slots. Each volatile slice threads its empty slots on a free list whose links are stored
  in the slots themselves, relative to the next slot; \<open>free_chain\<close> follows them.
\<close>

named_theorems slot_simps

section \<open>Links\<close>

lemma key_slice_length_le: "i \<le> KEY_SLOT_CACHE_SLICE_INDEX \<Longrightarrow> key_slice_length i \<le> 2 ^ 25"
proof -
  assume "i \<le> KEY_SLOT_CACHE_SLICE_INDEX"
  show ?thesis
  proof (cases "i = 22")
    case False
    with \<open>i \<le> _\<close> have "(2::nat) ^ i \<le> 2 ^ 21"
      by (intro power_increasing) auto
    then have "16 * (2::nat) ^ i \<le> 2 ^ 25" by simp
    with False show ?thesis by (simp add: key_slice_length_def)
  qed (simp add: key_slice_length_def)
qed

lemma key_slice_length_pos: "0 < key_slice_length i"
  by (simp add: key_slice_length_def)

lemma key_slice_length_less_NONE: "i \<le> 22 \<Longrightarrow> key_slice_length i < FREE_SLOT_INDEX_NONE"
  using key_slice_length_le [of i] by (simp add: FREE_SLOT_INDEX_NONE_def SIZE_MAX_def)

lemma sint_word_of_int_32:
  "- (2 ^ 31) \<le> r \<Longrightarrow> r < 2 ^ 31 \<Longrightarrow> sint (word_of_int r :: u32) = r"
  by (simp add: sint_sbintrunc' signed_take_bit_int_eq_self)

lemma ucast_low_half: "(ucast ((v AND NOT 0xffffffff) OR ucast w :: u64) :: u32) = w"
  for v :: u64 and w :: u32
proof (rule bit_word_eqI)
  fix n assume n: "n < LENGTH(32)"
  have m: "(0xffffffff :: u64) = mask 32" by (simp add: mask_eq_decr_exp)
  show "bit (ucast ((v AND NOT 0xffffffff) OR ucast w :: u64) :: u32) n \<longleftrightarrow> bit w n"
    unfolding m using n by (auto simp del: mask_numeral simp: bit_simps)
qed

lemma slot_var_update: "slot_var (s\<lparr>slot_var := v\<rparr>) = v"
  by simp

lemma next_free_relative_set [slot_simps]:
  "- (2 ^ 31) \<le> r \<Longrightarrow> r < 2 ^ 31 \<Longrightarrow>
   next_free_relative_to_next (set_next_free_relative_to_next r s) = r"
  unfolding next_free_relative_to_next_def set_next_free_relative_to_next_def
    slot_var_update ucast_low_half
  by (rule sint_word_of_int_32)

lemma next_free_index_link:
  assumes "n \<le> 2 ^ 25" "j < 2 ^ 25"
  shows "next_free_index (set_next_free_relative_to_next
           (int32_of_size n - int32_of_size j - 1) s) j = n"
proof -
  have "int32_of_size n = int n" "int32_of_size j = int j"
    using assms by (auto intro!: int32_of_size_small)
  moreover have "- (2 ^ 31) \<le> int n - int j - 1" "int n - int j - 1 < 2 ^ 31"
    using assms by auto
  ultimately show ?thesis
    using assms by (simp add: next_free_index_def slot_simps size_of_int_nonneg)
qed

lemma next_free_index_zero_slot:
  "j < 2 ^ 25 \<Longrightarrow> next_free_index psa_key_slot_zero j = Suc j"
  by (simp add: next_free_index_def next_free_relative_to_next_def psa_key_slot_zero_def
      size_of_int_nonneg)

lemma set_next_free_simps [slot_simps]:
  "slot_attr (set_next_free_relative_to_next r s) = slot_attr s"
  "slot_state (set_next_free_relative_to_next r s) = slot_state s"
  "slot_slice_index (set_next_free_relative_to_next r s) = slot_slice_index s"
  "slot_key_data (set_next_free_relative_to_next r s) = slot_key_data s"
  "slot_key_bytes (set_next_free_relative_to_next r s) = slot_key_bytes s"
  by (simp_all add: set_next_free_relative_to_next_def)

lemma set_registered_readers_simps [slot_simps]:
  "slot_attr (set_registered_readers n s) = slot_attr s"
  "slot_state (set_registered_readers n s) = slot_state s"
  "slot_slice_index (set_registered_readers n s) = slot_slice_index s"
  "slot_key_data (set_registered_readers n s) = slot_key_data s"
  "slot_key_bytes (set_registered_readers n s) = slot_key_bytes s"
  "n < 2 ^ 64 \<Longrightarrow> registered_readers (set_registered_readers n s) = n"
  by (simp_all add: set_registered_readers_def registered_readers_def unsigned_of_nat take_bit_nat_eq_self)

section \<open>Free lists\<close>

fun free_chain :: "psa_key_slot list \<Rightarrow> nat \<Rightarrow> nat list \<Rightarrow> bool" where
  "free_chain S f [] \<longleftrightarrow> length S \<le> f"
| "free_chain S f (i # is) \<longleftrightarrow>
     f = i \<and> i < length S \<and> free_chain S (next_free_index (S ! i) i) is"

definition empty_slots_of :: "psa_key_slot list \<Rightarrow> nat set" where
  "empty_slots_of S = {j. j < length S \<and> slot_state (S ! j) = PSA_SLOT_EMPTY}"

lemma free_chain_update:
  "j \<notin> set fl \<Longrightarrow> free_chain (S[j := s]) f fl \<longleftrightarrow> free_chain S f fl"
  by (induction fl arbitrary: f) auto

lemma free_chain_end: "length S \<le> f \<Longrightarrow> free_chain S f fl \<longleftrightarrow> fl = []"
  by (cases fl) auto

lemma free_chain_head: "f < length S \<Longrightarrow> free_chain S f fl \<Longrightarrow> \<exists>is. fl = f # is"
  by (cases fl) auto

lemma free_chain_fresh:
  "n \<le> 2 ^ 25 \<Longrightarrow> k \<le> n \<Longrightarrow> free_chain (replicate n psa_key_slot_zero) k [k..<n]"
proof (induction "n - k" arbitrary: k)
  case 0
  then show ?case by simp
next
  case (Suc m)
  then have "k < n" by simp
  then show ?case
    using Suc by (simp add: upt_rec [of k n] next_free_index_zero_slot)
qed

lemma empty_slots_of_update:
  "j < length S \<Longrightarrow> empty_slots_of (S[j := s]) =
     (if slot_state s = PSA_SLOT_EMPTY then insert j (empty_slots_of S)
      else empty_slots_of S - {j})"
  by (auto simp: empty_slots_of_def nth_list_update split: if_splits)

section \<open>The invariant\<close>

text \<open>
  An empty slot is all zero apart from its link, and in the cache its link is zero too. An
  occupied slot knows its slice, and one that is being filled has no reader.
\<close>

definition slot_ok :: "nat \<Rightarrow> psa_key_slot \<Rightarrow> bool" where
  "slot_ok i s \<longleftrightarrow>
     (if slot_state s = PSA_SLOT_EMPTY
      then s = psa_key_slot_zero\<lparr>slot_var := slot_var s\<rparr> \<and> unat (slot_var s) < 2 ^ 32 \<and>
           (i = KEY_SLOT_CACHE_SLICE_INDEX \<longrightarrow> slot_var s = 0)
      else slot_slice_index s = word_of_nat i \<and>
           (slot_state s = PSA_SLOT_FILLING \<longrightarrow> slot_var s = 0))"

text \<open>The free list of a volatile slice holds exactly its empty slots, each once.\<close>

definition free_list_ok :: "psa_key_slot list \<Rightarrow> nat \<Rightarrow> bool" where
  "free_list_ok S f \<longleftrightarrow>
     (f = FREE_SLOT_INDEX_NONE \<or> f < length S) \<and>
     (\<exists>fl. free_chain S f fl \<and> distinct fl \<and> set fl = empty_slots_of S)"

definition slice_ok :: "nat \<Rightarrow> psa_key_slot list \<Rightarrow> bool" where
  "slice_ok i S \<longleftrightarrow> length S = key_slice_length i \<and> (\<forall>s \<in> set S. slot_ok i s)"

definition store_ok :: "psa_global_data \<Rightarrow> bool" where
  "store_ok g \<longleftrightarrow>
     length (key_slices g) = KEY_SLICE_COUNT \<and>
     length (first_free_slot_index g) = KEY_SLOT_VOLATILE_SLICE_COUNT \<and>
     (\<forall>i < KEY_SLICE_COUNT. \<forall>S. key_slices g ! i = Some S \<longrightarrow> slice_ok i S) \<and>
     (\<forall>i < KEY_SLOT_VOLATILE_SLICE_COUNT.
        case key_slices g ! i of None \<Rightarrow> first_free_slot_index g ! i = 0
        | Some S \<Rightarrow> free_list_ok S (first_free_slot_index g ! i)) \<and>
     (key_slots_initialized g \<longrightarrow> key_slices g ! KEY_SLOT_CACHE_SLICE_INDEX \<noteq> None)"

text \<open>A slot pointer that points into an allocated slice.\<close>

definition valid_ref :: "psa_global_data \<Rightarrow> slot_ref \<Rightarrow> bool" where
  "valid_ref g r \<longleftrightarrow>
     fst r < length (key_slices g) \<and>
     (\<exists>S. key_slices g ! fst r = Some S \<and> snd r < length S)"

lemma valid_refE:
  assumes "valid_ref g r"
  obtains i j S where "r = (i, j)" "key_slices g ! i = Some S" "j < length S"
    "i < length (key_slices g)"
  using assms by (cases r) (auto simp: valid_ref_def)

lemma store_okD:
  assumes "store_ok g"
  shows "length (key_slices g) = KEY_SLICE_COUNT"
    and "length (first_free_slot_index g) = KEY_SLOT_VOLATILE_SLICE_COUNT"
    and "i < KEY_SLICE_COUNT \<Longrightarrow> key_slices g ! i = Some S \<Longrightarrow> slice_ok i S"
    and "i < KEY_SLOT_VOLATILE_SLICE_COUNT \<Longrightarrow> key_slices g ! i = Some S \<Longrightarrow>
         free_list_ok S (first_free_slot_index g ! i)"
    and "i < KEY_SLOT_VOLATILE_SLICE_COUNT \<Longrightarrow> key_slices g ! i = None \<Longrightarrow>
         first_free_slot_index g ! i = 0"
    and "key_slots_initialized g \<Longrightarrow> \<exists>S. key_slices g ! KEY_SLOT_CACHE_SLICE_INDEX = Some S"
  using assms unfolding store_ok_def by (auto split: option.splits)

lemma store_ok_update:
  assumes g: "store_ok g" and i: "i < KEY_SLICE_COUNT" and S': "slice_ok i S'"
    and f': "i < KEY_SLOT_VOLATILE_SLICE_COUNT \<Longrightarrow> free_list_ok S' f'"
  shows "store_ok (g\<lparr>key_slices := (key_slices g)[i := Some S'],
                     first_free_slot_index := (first_free_slot_index g)[i := f']\<rparr>)"
  using assms unfolding store_ok_def
  by (auto simp: nth_list_update split: option.splits)

lemma store_ok_calloc [simp]: "store_ok (g\<lparr>calloc_outcomes := b\<rparr>) \<longleftrightarrow> store_ok g"
  by (simp add: store_ok_def cong: option.case_cong)

text \<open>Reading and writing slots.\<close>

lemma get_put_key_slot [slot_simps]:
  "valid_ref g r \<Longrightarrow> get_key_slot (put_key_slot r s g) r = s"
  by (auto simp: valid_ref_def get_key_slot_def put_key_slot_def)

lemma get_put_key_slot_other [slot_simps]:
  "r' \<noteq> r \<Longrightarrow> valid_ref g r \<Longrightarrow> get_key_slot (put_key_slot r s g) r' = get_key_slot g r'"
  by (cases r; cases r') (auto simp: valid_ref_def get_key_slot_def put_key_slot_def nth_list_update)

lemma valid_ref_put [slot_simps]:
  "valid_ref g r \<Longrightarrow> valid_ref (put_key_slot r s g) r' \<longleftrightarrow> valid_ref g r'"
  by (cases r; cases r') (auto simp: valid_ref_def put_key_slot_def nth_list_update)

lemma put_key_slot_simps [slot_simps]:
  "first_free_slot_index (put_key_slot r s g) = first_free_slot_index g"
  "key_slots_initialized (put_key_slot r s g) = key_slots_initialized g"
  "calloc_outcomes (put_key_slot r s g) = calloc_outcomes g"
  by (simp_all add: put_key_slot_def)

lemma get_key_slot_slice:
  "key_slices g ! i = Some S \<Longrightarrow> get_key_slot g (i, j) = S ! j"
  by (simp add: get_key_slot_def)

lemma put_key_slot_slice:
  "key_slices g ! i = Some S \<Longrightarrow>
   put_key_slot (i, j) s g = g\<lparr>key_slices := (key_slices g)[i := Some (S[j := s])]\<rparr>"
  by (simp add: put_key_slot_def)

lemma valid_ref_bounds:
  assumes "store_ok g" "valid_ref g (i, j)"
  shows "i < KEY_SLICE_COUNT" "j < key_slice_length i"
  using assms store_okD(1,3) [OF assms(1)] by (auto simp: valid_ref_def slice_ok_def)

lemma slot_ok_get:
  assumes "store_ok g" "valid_ref g r"
  shows "slot_ok (fst r) (get_key_slot g r)"
  using assms store_okD(1,3) [OF assms(1)]
  by (auto elim!: valid_refE simp: get_key_slot_slice slice_ok_def)

lemma slice_ok_upd: "slice_ok i S \<Longrightarrow> slot_ok i s \<Longrightarrow> slice_ok i (S[j := s])"
  by (auto simp: slice_ok_def dest: set_update_subset_insert [THEN subsetD])

lemma free_list_ok_upd:
  assumes "free_list_ok S f" "j < length S" "slot_state (S ! j) \<noteq> PSA_SLOT_EMPTY"
    "slot_state s \<noteq> PSA_SLOT_EMPTY"
  shows "free_list_ok (S[j := s]) f"
proof -
  from assms(1) obtain fl where fl: "free_chain S f fl" "distinct fl" "set fl = empty_slots_of S"
    and f: "f = FREE_SLOT_INDEX_NONE \<or> f < length S"
    by (auto simp: free_list_ok_def)
  have "j \<notin> set fl" using fl(3) assms(3) by (simp add: empty_slots_of_def)
  moreover have "empty_slots_of (S[j := s]) = empty_slots_of S"
    using assms by (subst empty_slots_of_update) (auto simp: empty_slots_of_def)
  ultimately show ?thesis
    using fl f unfolding free_list_ok_def
    by (intro conjI exI [of _ fl]) (simp_all add: free_chain_update)
qed

text \<open>Writing an occupied slot, or an empty one of the cache.\<close>

lemma store_ok_put:
  assumes g: "store_ok g" and r: "valid_ref g r" and s: "slot_ok (fst r) s"
    and e: "fst r < KEY_SLOT_VOLATILE_SLICE_COUNT \<Longrightarrow>
       slot_state (get_key_slot g r) \<noteq> PSA_SLOT_EMPTY \<and> slot_state s \<noteq> PSA_SLOT_EMPTY"
  shows "store_ok (put_key_slot r s g)"
proof -
  from r obtain i j S where r: "r = (i, j)" and S: "key_slices g ! i = Some S" "j < length S"
    and i: "i < KEY_SLICE_COUNT"
    by (elim valid_refE) (use store_okD(1) [OF g] in auto)
  have "store_ok (g\<lparr>key_slices := (key_slices g)[i := Some (S[j := s])],
           first_free_slot_index := (first_free_slot_index g)[i := first_free_slot_index g ! i]\<rparr>)"
  proof (rule store_ok_update [OF g i])
    show "slice_ok i (S[j := s])"
      using store_okD(3) [OF g i S(1)] s r by (simp add: slice_ok_upd)
  next
    assume "i < KEY_SLOT_VOLATILE_SLICE_COUNT"
    with e r S store_okD(4) [OF g _ S(1)] show "free_list_ok (S[j := s]) (first_free_slot_index g ! i)"
      by (intro free_list_ok_upd) (auto simp: get_key_slot_slice)
  qed
  then show ?thesis by (simp add: r put_key_slot_slice [OF S(1)])
qed

section \<open>Allocation and release\<close>

lemma find_free_slice_result:
  assumes "find_free_slice fs k = i" "i < k + length fs"
  shows "k \<le> i \<and> fs ! (i - k) \<noteq> FREE_SLOT_INDEX_NONE"
  using assms
proof (induction fs arbitrary: k)
  case (Cons f fs)
  show ?case
  proof (cases "f = FREE_SLOT_INDEX_NONE")
    case True
    with Cons have *: "find_free_slice fs (Suc k) = i" by simp
    with Cons have "Suc k \<le> i \<and> fs ! (i - Suc k) \<noteq> FREE_SLOT_INDEX_NONE" by simp
    then show ?thesis by (auto simp: nth_Cons split: nat.splits) (metis Suc_diff_Suc diff_Suc_Suc less_eq_Suc_le nat.inject)
  qed (use Cons in auto)
qed simp

lemma find_free_slice_bounds: "k \<le> find_free_slice fs k \<and> find_free_slice fs k \<le> k + length fs"
  by (induction fs arbitrary: k) (auto, metis Suc_leD, metis add_Suc)

lemma find_free_slice_full:
  "find_free_slice fs k = k + length fs \<longleftrightarrow> (\<forall>f \<in> set fs. f = FREE_SLOT_INDEX_NONE)"
proof (induction fs arbitrary: k)
  case (Cons f fs)
  from Cons [of "Suc k"] show ?case by simp
qed simp

lemma free_list_ok_zero: "slice_ok i (replicate (key_slice_length i) psa_key_slot_zero)"
  by (auto simp: slice_ok_def slot_ok_def psa_key_slot_zero_def)

lemma free_list_ok_fresh:
  assumes "i < KEY_SLOT_VOLATILE_SLICE_COUNT"
  shows "free_list_ok (replicate (key_slice_length i) psa_key_slot_zero) 0"
proof -
  let ?n = "key_slice_length i"
  have "free_chain (replicate ?n psa_key_slot_zero) 0 [0..<?n]"
    using assms by (intro free_chain_fresh key_slice_length_le) auto
  moreover have "set [0..<?n] = empty_slots_of (replicate ?n psa_key_slot_zero)"
    by (auto simp: empty_slots_of_def psa_key_slot_zero_def)
  ultimately show ?thesis
    unfolding free_list_ok_def using key_slice_length_pos [of i]
    by (intro conjI exI [of _ "[0..<?n]"]) auto
qed

text \<open>Taking the head of a free list.\<close>

definition next_free_capped :: "psa_key_slot list \<Rightarrow> nat \<Rightarrow> nat" where
  "next_free_capped S j =
     (if length S \<le> next_free_index (S ! j) j then FREE_SLOT_INDEX_NONE
      else next_free_index (S ! j) j)"

lemma free_list_ok_take:
  assumes fl: "free_list_ok S j" and j: "j \<noteq> FREE_SLOT_INDEX_NONE"
    and S: "length S \<le> FREE_SLOT_INDEX_NONE" and s: "slot_state s \<noteq> PSA_SLOT_EMPTY"
  shows "j < length S" "slot_state (S ! j) = PSA_SLOT_EMPTY"
    and "free_list_ok (S[j := s]) (next_free_capped S j)"
proof -
  show jS: "j < length S" using fl j by (simp add: free_list_ok_def)
  from fl obtain l where l: "free_chain S j l" "distinct l" "set l = empty_slots_of S"
    by (auto simp: free_list_ok_def)
  with jS obtain ks where l': "l = j # ks" by (auto dest: free_chain_head)
  with l(3) show "slot_state (S ! j) = PSA_SLOT_EMPTY" by (auto simp: empty_slots_of_def)
  let ?n = "next_free_index (S ! j) j"
  have jn: "j \<notin> set ks" using l l' by simp
  have "free_chain S ?n ks" using l l' by simp
  moreover have "free_chain S (next_free_capped S j) ks"
    using \<open>free_chain S ?n ks\<close> S by (auto simp: next_free_capped_def free_chain_end)
  ultimately have "free_chain (S[j := s]) (next_free_capped S j) ks"
    using jn by (simp add: free_chain_update)
  moreover have "set ks = empty_slots_of (S[j := s])"
    using l l' jS s jn by (auto simp: empty_slots_of_update)
  ultimately show "free_list_ok (S[j := s]) (next_free_capped S j)"
    using l l' unfolding free_list_ok_def
    by (intro conjI exI [of _ ks]) (auto simp: next_free_capped_def)
qed

text \<open>Putting a slot back at the head of a free list.\<close>

lemma free_list_ok_give:
  assumes fl: "free_list_ok S f" and j: "j < length S" and S: "length S \<le> 2 ^ 25"
    and o: "slot_state (S ! j) \<noteq> PSA_SLOT_EMPTY" and z: "slot_state z = PSA_SLOT_EMPTY"
  shows "free_list_ok (S[j := set_next_free_relative_to_next
           (int32_of_size (if length S \<le> f then length S else f) - int32_of_size j - 1) z]) j"
    (is "free_list_ok (S[j := ?z]) j")
proof -
  from fl obtain l where l: "free_chain S f l" "distinct l" "set l = empty_slots_of S"
    by (auto simp: free_list_ok_def)
  let ?f = "if length S \<le> f then length S else f"
  have jl: "j \<notin> set l" using l o by (simp add: empty_slots_of_def)
  have "free_chain S ?f l" using l(1) by (auto simp: free_chain_end)
  then have "free_chain (S[j := ?z]) ?f l" using jl by (simp add: free_chain_update)
  moreover have "next_free_index ?z j = ?f"
    using j S by (intro next_free_index_link) auto
  ultimately have "free_chain (S[j := ?z]) j (j # l)" using j by simp
  moreover have "set (j # l) = empty_slots_of (S[j := ?z])"
    using l j z by (simp add: empty_slots_of_update slot_simps)
  ultimately show ?thesis
    using l jl j unfolding free_list_ok_def by (intro conjI exI [of _ "j # l"]) auto
qed

section \<open>The abstract store\<close>

text \<open>
  What the rest of the library sees of the store: the occupied slots, as a map from slot
  pointers to their contents. Slices that are not allocated, empty slots and the free lists are
  not visible in it.
\<close>

definition store_abs :: "psa_global_data \<Rightarrow> slot_ref \<Rightarrow> psa_key_slot option" where
  "store_abs g r =
     (if valid_ref g r \<and> slot_state (get_key_slot g r) \<noteq> PSA_SLOT_EMPTY
      then Some (get_key_slot g r) else None)"

text \<open>The slot a creation starts from.\<close>

definition filling_slot :: "nat \<Rightarrow> psa_key_slot" where
  "filling_slot i = psa_key_slot_zero\<lparr>slot_state := PSA_SLOT_FILLING, slot_slice_index := word_of_nat i\<rparr>"

lemma store_abs_SomeD:
  assumes "store_abs g r = Some s"
  shows "valid_ref g r" "get_key_slot g r = s" "slot_state s \<noteq> PSA_SLOT_EMPTY"
  using assms by (auto simp: store_abs_def split: if_splits)

lemma store_abs_put [slot_simps]:
  "valid_ref g r \<Longrightarrow> store_abs (put_key_slot r s g) =
     (store_abs g)(r := if slot_state s = PSA_SLOT_EMPTY then None else Some s)"
  by (rule ext) (auto simp: store_abs_def slot_simps)

lemma store_abs_irrelevant [slot_simps]:
  "store_abs (g\<lparr>first_free_slot_index := ff\<rparr>) = store_abs g"
  "store_abs (g\<lparr>calloc_outcomes := b\<rparr>) = store_abs g"
  "store_abs (g\<lparr>key_slots_initialized := c\<rparr>) = store_abs g"
  by (auto simp: store_abs_def valid_ref_def get_key_slot_def)

lemma valid_ref_irrelevant [slot_simps]:
  "valid_ref (g\<lparr>first_free_slot_index := ff\<rparr>) r \<longleftrightarrow> valid_ref g r"
  "valid_ref (g\<lparr>calloc_outcomes := b\<rparr>) r \<longleftrightarrow> valid_ref g r"
  "valid_ref (g\<lparr>key_slots_initialized := c\<rparr>) r \<longleftrightarrow> valid_ref g r"
  by (auto simp: valid_ref_def)

lemma get_key_slot_irrelevant [slot_simps]:
  "get_key_slot (g\<lparr>first_free_slot_index := ff\<rparr>) r = get_key_slot g r"
  "get_key_slot (g\<lparr>calloc_outcomes := b\<rparr>) r = get_key_slot g r"
  by (auto simp: get_key_slot_def)

lemma store_abs_new_slice:
  "key_slices g ! i = None \<Longrightarrow>
   store_abs (g\<lparr>key_slices := (key_slices g)[i := Some (replicate n psa_key_slot_zero)]\<rparr>) = store_abs g"
  (is "_ \<Longrightarrow> store_abs ?g = _")
proof (rule ext)
  fix r :: slot_ref
  assume i: "key_slices g ! i = None"
  obtain a b where r: "r = (a, b)" by (cases r)
  show "store_abs ?g r = store_abs g r"
    using i by (cases "a = i"; cases "i < length (key_slices g)")
      (auto simp: r store_abs_def valid_ref_def get_key_slot_def psa_key_slot_zero_def)
qed

lemma store_ok_new_slice:
  assumes "store_ok g" "i < KEY_SLOT_VOLATILE_SLICE_COUNT" "key_slices g ! i = None"
  shows "store_ok (g\<lparr>key_slices := (key_slices g)[i :=
           Some (replicate (key_slice_length i) psa_key_slot_zero)]\<rparr>)"
proof -
  have "store_ok (g\<lparr>key_slices := (key_slices g)[i :=
           Some (replicate (key_slice_length i) psa_key_slot_zero)],
         first_free_slot_index := (first_free_slot_index g)[i := 0]\<rparr>)"
    using assms by (intro store_ok_update free_list_ok_zero free_list_ok_fresh) auto
  moreover have "(first_free_slot_index g)[i := 0] = first_free_slot_index g"
    using store_okD(5) [OF assms(1-3)] by (metis list_update_id)
  ultimately show ?thesis by simp
qed

text \<open>The two halves of an allocation: making sure the slice is there, then taking its head.\<close>

definition take_free_slot :: "psa_global_data \<Rightarrow> nat \<Rightarrow> psa_global_data" where
  "take_free_slot g i =
     (let S = the (key_slices g ! i); j = first_free_slot_index g ! i in
      g\<lparr>key_slices := (key_slices g)[i := Some (S[j := filling_slot i])],
        first_free_slot_index := (first_free_slot_index g)[i := next_free_capped S j]\<rparr>)"

lemma set_next_free_zero:
  assumes "s = psa_key_slot_zero\<lparr>slot_var := slot_var s\<rparr>" "unat (slot_var s) < 2 ^ 32"
  shows "set_next_free_relative_to_next 0 s = psa_key_slot_zero"
proof -
  have "take_bit 32 (slot_var s) = slot_var s"
    using assms(2) by (simp add: word_unat_eq_iff unsigned_take_bit_eq take_bit_nat_eq_self)
  then have "slot_var s AND NOT (mask 32) = 0"
    by (metis bit.conj_cancel_right take_bit_eq_mask and.assoc bit.conj_zero_right)
  moreover have "(0xffffffff :: u64) = mask 32" by (simp add: mask_eq_decr_exp)
  ultimately have "slot_var s AND NOT 0xffffffff = 0" by simp
  then have "set_next_free_relative_to_next 0 s = s\<lparr>slot_var := 0\<rparr>"
    unfolding set_next_free_relative_to_next_def by simp
  also have "\<dots> = psa_key_slot_zero"
    by (subst assms(1)) (simp add: psa_key_slot_zero_def)
  finally show ?thesis .
qed

lemma take_free_slot_correct:
  assumes g: "store_ok g" and i: "i < KEY_SLOT_VOLATILE_SLICE_COUNT"
    and S: "key_slices g ! i = Some S" and j: "first_free_slot_index g ! i = j"
    and n: "j \<noteq> FREE_SLOT_INDEX_NONE"
  shows "store_ok (take_free_slot g i)" "j < length S" "S ! j = psa_key_slot_zero\<lparr>slot_var := slot_var (S ! j)\<rparr>"
    "unat (slot_var (S ! j)) < 2 ^ 32"
    "store_abs (take_free_slot g i) = (store_abs g)((i, j) \<mapsto> filling_slot i)"
    "store_abs g (i, j) = None"
proof -
  have len: "length S = key_slice_length i" and ok: "slice_ok i S"
    using store_okD(3) [OF g _ S] i by (auto simp: slice_ok_def)
  have f: "slot_state (filling_slot i) \<noteq> PSA_SLOT_EMPTY" "slot_ok i (filling_slot i)"
    by (simp_all add: filling_slot_def psa_key_slot_zero_def slot_ok_def)
  note t = free_list_ok_take [OF store_okD(4) [OF g i S, unfolded j] n, of "filling_slot i"]
  have l: "length S \<le> FREE_SLOT_INDEX_NONE"
    using key_slice_length_less_NONE [of i] i len by simp
  show jS: "j < length S" using t(1) l f by simp
  have e: "slot_state (S ! j) = PSA_SLOT_EMPTY" using t(2) l f by simp
  have "slot_ok i (S ! j)" using ok jS by (simp add: slice_ok_def)
  then show "S ! j = psa_key_slot_zero\<lparr>slot_var := slot_var (S ! j)\<rparr>" "unat (slot_var (S ! j)) < 2 ^ 32"
    using e by (simp_all add: slot_ok_def)
  show "store_ok (take_free_slot g i)"
    unfolding take_free_slot_def Let_def j S option.sel
    using t(3) l f ok i by (intro store_ok_update [OF g]) (auto intro: slice_ok_upd)
  have v: "valid_ref g (i, j)" using jS S store_okD(1) [OF g] i by (auto simp: valid_ref_def)
  then show "store_abs g (i, j) = None" using e by (simp add: store_abs_def get_key_slot_slice [OF S])
  have "store_abs (take_free_slot g i) = store_abs (put_key_slot (i, j) (filling_slot i) g)"
    by (simp add: take_free_slot_def Let_def j S put_key_slot_slice [OF S] slot_simps)
  then show "store_abs (take_free_slot g i) = (store_abs g)((i, j) \<mapsto> filling_slot i)"
    using f v by (simp add: slot_simps)
qed

end
