(* ===== verification/Slot_Refinement.thy ===== *)
theory Slot_Refinement
  imports Slot_Invariant
begin

text \<open>
  Every operation of the key store keeps the invariant and acts on the abstract store as
  its contract says. The lemmas \<open>*_refines\<close> give that action, one per operation, on every branch.
\<close>

section \<open>Allocation\<close>

definition volatile_slots_full :: "psa_global_data \<Rightarrow> bool" where
  "volatile_slots_full g \<longleftrightarrow> (\<forall>f \<in> set (first_free_slot_index g). f = FREE_SLOT_INDEX_NONE)"

definition next_calloc_fails :: "psa_global_data \<Rightarrow> bool" where
  "next_calloc_fails g \<longleftrightarrow> \<not> fst (mbedtls_calloc (calloc_outcomes g))"

lemma allocate_from_slice_correct:
  assumes g: "store_ok g" and i: "i < KEY_SLOT_VOLATILE_SLICE_COUNT"
    and S: "key_slices g ! i = Some S" and j: "first_free_slot_index g ! i = j"
    and n: "j \<noteq> FREE_SLOT_INDEX_NONE"
  shows "allocate_from_slice i g =
           (PSA_SUCCESS, Some (volatile_key_id_of_index i j), Some (i, j), take_free_slot g i)"
proof -
  note t = take_free_slot_correct [OF g i S j n]
  have "length S = key_slice_length i"
    using store_okD(3) [OF g _ S] i by (simp add: slice_ok_def)
  moreover have "set_next_free_relative_to_next 0 (S ! j) = psa_key_slot_zero"
    by (rule set_next_free_zero [OF t(3,4)])
  ultimately show ?thesis
    by (simp add: allocate_from_slice_def take_free_slot_def S j get_key_slot_def put_key_slot_def
        next_free_capped_def filling_slot_def psa_key_slot_state_transition_def Let_def
        psa_key_slot_zero_def)
qed

lemma allocate_cases:
  assumes g: "store_ok g"
  obtains (full) "psa_allocate_volatile_key_slot g = (PSA_ERROR_INSUFFICIENT_MEMORY, None, None, g)"
      "volatile_slots_full g"
  | (nomem) outcomes where "psa_allocate_volatile_key_slot g =
        (PSA_ERROR_INSUFFICIENT_MEMORY, None, None, g\<lparr>calloc_outcomes := outcomes\<rparr>)"
      "next_calloc_fails g"
  | (ok) i j g1 S where "psa_allocate_volatile_key_slot g =
        (PSA_SUCCESS, Some (volatile_key_id_of_index i j), Some (i, j), take_free_slot g1 i)"
      "store_ok g1" "store_abs g1 = store_abs g" "key_slots_initialized g1 = key_slots_initialized g"
      "i < KEY_SLOT_VOLATILE_SLICE_COUNT" "key_slices g1 ! i = Some S"
      "first_free_slot_index g1 ! i = j" "j \<noteq> FREE_SLOT_INDEX_NONE"
proof -
  define i where "i = find_free_slice (first_free_slot_index g) 0"
  have len: "length (first_free_slot_index g) = KEY_SLOT_VOLATILE_SLICE_COUNT"
    by (rule store_okD(2) [OF g])
  consider "i = KEY_SLOT_VOLATILE_SLICE_COUNT" | "i < KEY_SLOT_VOLATILE_SLICE_COUNT"
    using find_free_slice_bounds [of 0 "first_free_slot_index g"] len i_def by fastforce
  then show thesis
  proof cases
    case 1
    with len find_free_slice_full [of "first_free_slot_index g" 0]
    show thesis
      by (intro full) (auto simp: psa_allocate_volatile_key_slot_def i_def volatile_slots_full_def)
  next
    case 2
    let ?j = "first_free_slot_index g ! i"
    have n: "?j \<noteq> FREE_SLOT_INDEX_NONE"
      using find_free_slice_result [OF i_def [symmetric]] 2 len by simp
    have i: "find_free_slice (first_free_slot_index g) 0 = i" by (simp add: i_def)
    show thesis
    proof (cases "key_slices g ! i")
      case (Some S)
      show thesis
        using 2 Some n allocate_from_slice_correct [OF g 2 Some refl n] g
        by (intro ok [of i ?j g S]) (simp_all add: psa_allocate_volatile_key_slot_def i)
    next
      case None
      obtain b outcomes where c: "mbedtls_calloc (calloc_outcomes g) = (b, outcomes)"
        by (cases "mbedtls_calloc (calloc_outcomes g)")
      let ?g0 = "g\<lparr>calloc_outcomes := outcomes\<rparr>"
      let ?S = "replicate (key_slice_length i) psa_key_slot_zero"
      let ?g1 = "?g0\<lparr>key_slices := (key_slices g)[i := Some ?S]\<rparr>"
      show thesis
      proof (cases b)
        case False
        with None c 2 show thesis
          by (intro nomem) (auto simp: psa_allocate_volatile_key_slot_def i next_calloc_fails_def)
      next
        case True
        have g1: "store_ok ?g1" "store_abs ?g1 = store_abs g"
          using store_ok_new_slice [of ?g0 i] store_abs_new_slice [of ?g0 i "key_slice_length i"] g 2 None
          by (simp_all add: slot_simps)
        have S: "key_slices ?g1 ! i = Some ?S" using 2 store_okD(1) [OF g] by simp
        have j: "first_free_slot_index ?g1 ! i = ?j" by simp
        show thesis
          using 2 None c True n allocate_from_slice_correct [OF g1(1) 2 S j n] g1 S
          by (intro ok [of i ?j ?g1 ?S]) (simp_all add: psa_allocate_volatile_key_slot_def i)
      qed
    qed
  qed
qed

section \<open>Wiping\<close>

text \<open>The reader count that \<open>psa_wipe_key_slot\<close> insists on.\<close>

definition wipeable :: "psa_key_slot \<Rightarrow> bool" where
  "wipeable s \<longleftrightarrow>
     (case slot_state s of
        PSA_SLOT_EMPTY \<Rightarrow> False
      | PSA_SLOT_FILLING \<Rightarrow> registered_readers s = 0
      | _ \<Rightarrow> registered_readers s = 1)"

lemma wipe_status:
  assumes "get_key_slot g r = s"
  shows "psa_wipe_key_slot r g =
    (if wipeable s
     then psa_free_key_slot (unat (slot_slice_index s)) r (put_key_slot r psa_key_slot_zero g)
     else (PSA_ERROR_CORRUPTION_DETECTED, put_key_slot r psa_key_slot_zero g))"
  using assms
  by (auto simp: psa_wipe_key_slot_def psa_remove_key_data_from_memory_def wipeable_def Let_def
      registered_readers_def split: psa_key_slot_state.splits)

lemma free_key_slot_volatile:
  assumes S: "key_slices g ! i = Some S" and i: "i < KEY_SLOT_VOLATILE_SLICE_COUNT"
    and len: "length S = key_slice_length i" and j: "j < length S" and l: "i < length (key_slices g)"
  shows "psa_free_key_slot i (i, j) (put_key_slot (i, j) z g) =
    (PSA_SUCCESS, g\<lparr>key_slices := (key_slices g)[i := Some (S[j := set_next_free_relative_to_next
           (int32_of_size (if length S \<le> first_free_slot_index g ! i then length S
              else first_free_slot_index g ! i) - int32_of_size j - 1) z])],
        first_free_slot_index := (first_free_slot_index g)[i := j]\<rparr>)"
  using i j l
  by (simp add: psa_free_key_slot_def get_key_slot_def put_key_slot_def S len Let_def)

lemma unat_ucast_u32_less: "unat (ucast w :: u64) < 2 ^ 32" for w :: u32
proof -
  have "unat w < 2 ^ LENGTH(32)" by (rule unsigned_less)
  then show ?thesis by (simp add: unsigned_ucast_eq take_bit_nat_eq_self)
qed

lemma store_ok_give:
  assumes g: "store_ok g" and S: "key_slices g ! i = Some S" and i: "i < KEY_SLOT_VOLATILE_SLICE_COUNT"
    and j: "j < length S" and o: "slot_state (S ! j) \<noteq> PSA_SLOT_EMPTY"
  shows "store_ok (g\<lparr>key_slices := (key_slices g)[i := Some (S[j := set_next_free_relative_to_next
           (int32_of_size (if length S \<le> first_free_slot_index g ! i then length S
              else first_free_slot_index g ! i) - int32_of_size j - 1) psa_key_slot_zero])],
        first_free_slot_index := (first_free_slot_index g)[i := j]\<rparr>)"
    (is "store_ok (g\<lparr>key_slices := (key_slices g)[i := Some (S[j := ?z])], first_free_slot_index := _\<rparr>)")
proof (rule store_ok_update [OF g])
  show "i < KEY_SLICE_COUNT" using i by simp
  have ok: "slice_ok i S" using store_okD(3) [OF g _ S] i by simp
  have "slot_ok i ?z"
  proof -
    have "slot_var ?z = ucast (word_of_int (int32_of_size (if length S \<le> first_free_slot_index g ! i
        then length S else first_free_slot_index g ! i) - int32_of_size j - 1) :: u32)" (is "_ = ucast ?w")
      by (simp add: set_next_free_relative_to_next_def psa_key_slot_zero_def)
    then have "unat (slot_var ?z) < 2 ^ 32" by (simp only: unat_ucast_u32_less)
    then show ?thesis using i
      by (simp add: slot_ok_def slot_simps) (simp add: set_next_free_relative_to_next_def psa_key_slot_zero_def)
  qed
  with ok show "slice_ok i (S[j := ?z])" by (rule slice_ok_upd)
  have "length S \<le> 2 ^ 25" using ok key_slice_length_le [of i] i by (simp add: slice_ok_def)
  then show "free_list_ok (S[j := ?z]) j"
    using store_okD(4) [OF g i S] j o
    by (intro free_list_ok_give) (auto simp: psa_key_slot_zero_def)
qed

lemma wipe_refines:
  assumes g: "store_ok g" and r: "store_abs g r = Some s" and w: "wipeable s"
  obtains g' where "psa_wipe_key_slot r g = (PSA_SUCCESS, g')" "store_ok g'"
    "store_abs g' = (store_abs g)(r := None)"
    "key_slots_initialized g' = key_slots_initialized g"
    "\<And>r'. valid_ref g' r' \<longleftrightarrow> valid_ref g r'"
    "fst r < KEY_SLOT_VOLATILE_SLICE_COUNT \<longrightarrow> first_free_slot_index g' ! fst r = snd r"
proof -
  note rD = store_abs_SomeD [OF r]
  from rD(1) obtain i j S where rij: "r = (i, j)" and S: "key_slices g ! i = Some S" "j < length S"
    "i < length (key_slices g)" by (rule valid_refE)
  have i: "i < KEY_SLICE_COUNT" using S store_okD(1) [OF g] by simp
  have ok: "slot_ok i s" using slot_ok_get [OF g rD(1)] rD(2) rij by simp
  then have "slot_slice_index s = word_of_nat i" using rD(3) by (simp add: slot_ok_def)
  then have si: "unat (slot_slice_index s) = i"
    using i by (simp add: unsigned_of_nat take_bit_nat_eq_self)
  have wp: "psa_wipe_key_slot r g = psa_free_key_slot i r (put_key_slot r psa_key_slot_zero g)"
    using wipe_status [OF rD(2)] w si by simp
  have z: "slot_state psa_key_slot_zero = PSA_SLOT_EMPTY" by (simp add: psa_key_slot_zero_def)
  have abs0: "store_abs (put_key_slot r psa_key_slot_zero g) = (store_abs g)(r := None)"
    using rD(1) z by (simp add: slot_simps)
  show thesis
  proof (cases "i = KEY_SLOT_CACHE_SLICE_INDEX")
    case True
    have "slot_ok i psa_key_slot_zero" by (simp add: slot_ok_def psa_key_slot_zero_def)
    with True rij have "store_ok (put_key_slot r psa_key_slot_zero g)"
      by (intro store_ok_put g rD(1)) auto
    then show thesis using True wp abs0 rD(1) rij
      by (intro that [of "put_key_slot r psa_key_slot_zero g"])
        (auto simp: psa_free_key_slot_def slot_simps)
  next
    case False
    with i have i22: "i < KEY_SLOT_VOLATILE_SLICE_COUNT" by simp
    have len: "length S = key_slice_length i" using store_okD(3) [OF g i S(1)] by (simp add: slice_ok_def)
    let ?z = "set_next_free_relative_to_next
           (int32_of_size (if length S \<le> first_free_slot_index g ! i then length S
              else first_free_slot_index g ! i) - int32_of_size j - 1) psa_key_slot_zero"
    let ?g = "g\<lparr>key_slices := (key_slices g)[i := Some (S[j := ?z])],
        first_free_slot_index := (first_free_slot_index g)[i := j]\<rparr>"
    have o: "slot_state (S ! j) \<noteq> PSA_SLOT_EMPTY" using rD rij by (simp add: get_key_slot_slice [OF S(1)])
    have e: "?g = (put_key_slot r ?z g)\<lparr>first_free_slot_index := (first_free_slot_index g)[i := j]\<rparr>"
      by (simp add: rij put_key_slot_slice [OF S(1)])
    have "store_abs ?g = (store_abs g)(r := None)"
      unfolding e using rD(1) z by (simp add: slot_simps)
    moreover have "valid_ref ?g r' \<longleftrightarrow> valid_ref g r'" for r'
      unfolding e using rD(1) by (simp add: slot_simps)
    moreover have "first_free_slot_index ?g ! i = j" using store_okD(2) [OF g] i22 by simp
    ultimately show thesis
      using wp free_key_slot_volatile [OF S(1) i22 len S(2,3)] store_ok_give [OF g S(1) i22 S(2) o] rij
      by (intro that [of ?g]) auto
  qed
qed

section \<open>Reader counts\<close>

lemma store_ok_put_occupied:
  assumes g: "store_ok g" and r: "store_abs g r = Some s"
    and s': "slot_state s' = PSA_SLOT_FULL \<or> slot_state s' = PSA_SLOT_PENDING_DELETION"
      "slot_slice_index s' = slot_slice_index s"
  shows "store_ok (put_key_slot r s' g)" "store_abs (put_key_slot r s' g) = (store_abs g)(r \<mapsto> s')"
proof -
  note rD = store_abs_SomeD [OF r]
  have "slot_ok (fst r) s" using slot_ok_get [OF g rD(1)] rD(2) by simp
  with rD(3) s' have "slot_ok (fst r) s'" by (auto simp: slot_ok_def)
  with rD s' show "store_ok (put_key_slot r s' g)" by (intro store_ok_put g) auto
  show "store_abs (put_key_slot r s' g) = (store_abs g)(r \<mapsto> s')"
    using rD s' by (auto simp: slot_simps)
qed

definition add_reader :: "psa_key_slot \<Rightarrow> psa_key_slot" where
  "add_reader s = set_registered_readers (registered_readers s + 1) s"

definition drop_reader :: "psa_key_slot \<Rightarrow> psa_key_slot" where
  "drop_reader s = set_registered_readers (registered_readers s - 1) s"

lemma registered_readers_less: "registered_readers s < 2 ^ 64"
proof -
  have "unat (slot_var s) < 2 ^ LENGTH(64)" by (rule unsigned_less)
  then show ?thesis by (simp add: registered_readers_def)
qed

lemma add_reader_simps [slot_simps]:
  "slot_attr (add_reader s) = slot_attr s"
  "slot_state (add_reader s) = slot_state s"
  "slot_slice_index (add_reader s) = slot_slice_index s"
  "slot_key_data (add_reader s) = slot_key_data s"
  "slot_key_bytes (add_reader s) = slot_key_bytes s"
  "registered_readers s < SIZE_MAX \<Longrightarrow> registered_readers (add_reader s) = registered_readers s + 1"
  by (simp_all add: add_reader_def slot_simps SIZE_MAX_def)

lemma drop_reader_simps [slot_simps]:
  "slot_attr (drop_reader s) = slot_attr s"
  "slot_state (drop_reader s) = slot_state s"
  "slot_slice_index (drop_reader s) = slot_slice_index s"
  "slot_key_data (drop_reader s) = slot_key_data s"
  "slot_key_bytes (drop_reader s) = slot_key_bytes s"
  "registered_readers (drop_reader s) = registered_readers s - 1"
  using registered_readers_less [of s] by (simp_all add: drop_reader_def slot_simps)

lemma register_read_cases:
  "psa_register_read s =
     (if slot_state s = PSA_SLOT_FULL \<and> registered_readers s < SIZE_MAX
      then (PSA_SUCCESS, add_reader s) else (PSA_ERROR_CORRUPTION_DETECTED, s))"
  by (auto simp: psa_register_read_def add_reader_def)

lemma find_key_in_cache_found:
  "find_key_in_cache key S k < k + length S \<Longrightarrow>
   k \<le> find_key_in_cache key S k \<and>
   slot_state (S ! (find_key_in_cache key S k - k)) = PSA_SLOT_FULL \<and>
   attr_id (slot_attr (S ! (find_key_in_cache key S k - k))) = key"
proof (induction S arbitrary: k)
  case (Cons s S)
  show ?case
  proof (cases "slot_state s = PSA_SLOT_FULL \<and> key = attr_id (slot_attr s)")
    case False
    then have e: "find_key_in_cache key (s # S) k = find_key_in_cache key S (Suc k)" by auto
    with Cons have IH: "Suc k \<le> find_key_in_cache key S (Suc k) \<and>
      slot_state (S ! (find_key_in_cache key S (Suc k) - Suc k)) = PSA_SLOT_FULL \<and>
      attr_id (slot_attr (S ! (find_key_in_cache key S (Suc k) - Suc k))) = key" by simp
    then obtain m where "find_key_in_cache key S (Suc k) = Suc k + m"
      using le_Suc_ex by blast
    with IH e show ?thesis by simp
  qed auto
qed simp

lemma find_key_in_cache_absent:
  "find_key_in_cache key S k \<ge> k + length S \<longleftrightarrow>
   (\<forall>s \<in> set S. \<not> (slot_state s = PSA_SLOT_FULL \<and> attr_id (slot_attr s) = key))"
proof (induction S arbitrary: k)
  case (Cons s S)
  from Cons [of "Suc k"] show ?case by auto
qed simp

text \<open>The slots where a lookup by identifier looks: one for a volatile key, the cache otherwise.\<close>

definition lookup_place :: "psa_key_id \<Rightarrow> slot_ref \<Rightarrow> bool" where
  "lookup_place key r \<longleftrightarrow>
     (if psa_key_id_is_volatile key
      then r = (slice_index_of_volatile_key_id key, slot_index_of_volatile_key_id key) \<and>
           fst r < KEY_SLOT_VOLATILE_SLICE_COUNT
      else (psa_key_id_is_user key \<or> psa_key_id_is_builtin key) \<and> fst r = KEY_SLOT_CACHE_SLICE_INDEX)"

definition holds_key :: "psa_global_data \<Rightarrow> psa_key_id \<Rightarrow> slot_ref \<Rightarrow> psa_key_slot \<Rightarrow> bool" where
  "holds_key g key r s \<longleftrightarrow>
     lookup_place key r \<and> store_abs g r = Some s \<and> slot_state s = PSA_SLOT_FULL \<and>
     attr_id (slot_attr s) = key"

lemma get_volatile_key_slot_valid:
  assumes g: "store_ok g"
  shows "get_volatile_key_slot g key =
    (let r = (slice_index_of_volatile_key_id key, slot_index_of_volatile_key_id key)
     in if fst r < KEY_SLOT_VOLATILE_SLICE_COUNT \<and> valid_ref g r then Some r else None)"
proof -
  let ?i = "slice_index_of_volatile_key_id key"
  have "length S = key_slice_length ?i" if "?i < 22" "key_slices g ! ?i = Some S" for S
    using store_okD(3) [OF g, of ?i S] that by (simp add: slice_ok_def)
  then show ?thesis
    using store_okD(1) [OF g]
    by (auto simp: get_volatile_key_slot_def valid_ref_def Let_def split: option.splits)
qed

lemma lock_found:
  assumes g: "store_ok g" and r: "store_abs g r = Some s" and f: "slot_state s = PSA_SLOT_FULL"
    and n: "registered_readers s < SIZE_MAX"
  shows "store_ok (put_key_slot r (add_reader s) g)"
    "store_abs (put_key_slot r (add_reader s) g) = (store_abs g)(r \<mapsto> add_reader s)"
  using store_ok_put_occupied [OF g r, of "add_reader s"] f by (auto simp: slot_simps)

lemma lock_in_memory_cases:
  assumes g: "store_ok g" and init: "key_slots_initialized g"
  obtains (locked) r s where "psa_get_and_lock_key_slot_in_memory key g =
        (PSA_SUCCESS, Some r, put_key_slot r (add_reader s) g)"
      "holds_key g key r s" "registered_readers s < SIZE_MAX"
  | (overflow) r s where "psa_get_and_lock_key_slot_in_memory key g =
        (PSA_ERROR_CORRUPTION_DETECTED, None, g)"
      "holds_key g key r s" "registered_readers s = SIZE_MAX"
  | (absent) "psa_get_and_lock_key_slot_in_memory key g = (PSA_ERROR_DOES_NOT_EXIST, None, g)"
      "\<And>r s. \<not> holds_key g key r s"
      "psa_key_id_is_volatile key \<or> psa_key_id_is_user key \<or> psa_key_id_is_builtin key"
  | (invalid) "psa_get_and_lock_key_slot_in_memory key g = (PSA_ERROR_INVALID_HANDLE, None, g)"
      "\<not> psa_key_id_is_volatile key" "\<not> psa_key_id_is_user key" "\<not> psa_key_id_is_builtin key"
proof -
  let ?lock = "\<lambda>r. let (status, slot) = psa_register_read (get_key_slot g r)
                 in if status = PSA_SUCCESS then (PSA_SUCCESS, Some r, put_key_slot r slot g)
                    else (status, None, g)"
  have lock: thesis
    if "psa_get_and_lock_key_slot_in_memory key g = ?lock r" "holds_key g key r s" for r s
  proof -
    have s: "get_key_slot g r = s" "slot_state s = PSA_SLOT_FULL"
      using that(2) by (auto simp: holds_key_def dest: store_abs_SomeD)
    have "registered_readers s \<le> SIZE_MAX"
      using registered_readers_less [of s] by (simp add: SIZE_MAX_def)
    then consider "registered_readers s < SIZE_MAX" | "registered_readers s = SIZE_MAX" by linarith
    then show thesis
    proof cases
      case 1 with that s show thesis by (intro locked [of r s]) (simp_all add: register_read_cases)
    next
      case 2 with that s show thesis by (intro overflow [of r s]) (simp_all add: register_read_cases)
    qed
  qed
  show thesis
  proof (cases "psa_key_id_is_volatile key")
    case True
    let ?r = "(slice_index_of_volatile_key_id key, slot_index_of_volatile_key_id key)"
    show thesis
    proof (cases "\<exists>s. holds_key g key ?r s")
      case True
      then obtain s where h: "holds_key g key ?r s" by blast
      then have v: "get_volatile_key_slot g key = Some ?r" "get_key_slot g ?r = s"
        using \<open>psa_key_id_is_volatile key\<close>
        by (auto simp: get_volatile_key_slot_valid [OF g] holds_key_def lookup_place_def Let_def
            dest: store_abs_SomeD)
      with h True \<open>psa_key_id_is_volatile key\<close> show thesis
        by (intro lock [OF _ h]) (auto simp: psa_get_and_lock_key_slot_in_memory_def holds_key_def)
    next
      case False
      have "psa_get_and_lock_key_slot_in_memory key g = (PSA_ERROR_DOES_NOT_EXIST, None, g)"
        using False True
        by (auto simp: psa_get_and_lock_key_slot_in_memory_def get_volatile_key_slot_valid [OF g]
            holds_key_def lookup_place_def Let_def store_abs_def)
      moreover have "\<not> holds_key g key r s" for r s
        using False True by (auto simp: holds_key_def lookup_place_def)
      ultimately show thesis using True by (intro absent) auto
    qed
  next
    case nv: False
    show thesis
    proof (cases "psa_key_id_is_user key \<or> psa_key_id_is_builtin key")
      case False with nv show thesis
        by (intro invalid) (auto simp: psa_get_and_lock_key_slot_in_memory_def)
    next
      case True
      obtain S where S: "key_slices g ! 22 = Some S" using store_okD(6) [OF g init] by auto
      have len: "length S = 32" using store_okD(3) [OF g _ S] by (simp add: slice_ok_def key_slice_length_def)
      let ?j = "find_key_in_cache key S 0"
      have e: "psa_get_and_lock_key_slot_in_memory key g =
          (if ?j < 32 then ?lock (22, ?j) else (PSA_ERROR_DOES_NOT_EXIST, None, g))"
        using nv True S by (auto simp: psa_get_and_lock_key_slot_in_memory_def get_persistent_key_slot_def Let_def
            split: prod.split)
      have v: "valid_ref g (22, j) \<longleftrightarrow> j < 32" for j
        using S len store_okD(1) [OF g] by (auto simp: valid_ref_def)
      show thesis
      proof (cases "?j < 32")
        case j: True
        have "holds_key g key (22, ?j) (S ! ?j)"
          using find_key_in_cache_found [of key S 0] j len nv True v
          by (simp add: holds_key_def lookup_place_def store_abs_def get_key_slot_slice [OF S])
        with e j show thesis by (intro lock) auto
      next
        case False
        have "\<not> holds_key g key r s" for r s
        proof (cases r)
          case (Pair a b)
          show ?thesis
            using find_key_in_cache_absent [of 0 S key] False len nv v [of b]
            by (auto simp: Pair holds_key_def lookup_place_def store_abs_def get_key_slot_slice [OF S]
                dest: nth_mem [of b S])
        qed
        with e False True show thesis by (intro absent) auto
      qed
    qed
  qed
qed

lemma unregister_read_cases:
  assumes g: "store_ok g" and r: "store_abs g r = Some s"
  obtains (bad) "psa_unregister_read (Some r) g = (PSA_ERROR_CORRUPTION_DETECTED, g)"
      "slot_state s = PSA_SLOT_FILLING \<or> registered_readers s = 0"
  | (last) g' where "psa_unregister_read (Some r) g = (PSA_SUCCESS, g')" "store_ok g'"
      "store_abs g' = (store_abs g)(r := None)"
      "key_slots_initialized g' = key_slots_initialized g"
      "slot_state s = PSA_SLOT_PENDING_DELETION" "registered_readers s = 1"
  | (dropped) "psa_unregister_read (Some r) g = (PSA_SUCCESS, put_key_slot r (drop_reader s) g)"
      "store_ok (put_key_slot r (drop_reader s) g)"
      "store_abs (put_key_slot r (drop_reader s) g) = (store_abs g)(r \<mapsto> drop_reader s)"
      "slot_state s = PSA_SLOT_FULL \<or> slot_state s = PSA_SLOT_PENDING_DELETION \<and> registered_readers s \<noteq> 1"
      "registered_readers s > 0"
proof -
  note rD = store_abs_SomeD [OF r]
  consider "slot_state s = PSA_SLOT_FILLING \<or> registered_readers s = 0"
    | "slot_state s = PSA_SLOT_PENDING_DELETION" "registered_readers s = 1"
    | "slot_state s = PSA_SLOT_FULL \<or> slot_state s = PSA_SLOT_PENDING_DELETION \<and> registered_readers s \<noteq> 1"
      "registered_readers s > 0"
    using rD(3) by (cases "slot_state s") auto
  then show thesis
  proof cases
    case 1
    then show thesis
      using rD by (intro bad) (auto simp: psa_unregister_read_def psa_key_slot_has_readers_def)
  next
    case 2
    then have "wipeable s" by (simp add: wipeable_def)
    from wipe_refines [OF g r this] obtain g' where "psa_wipe_key_slot r g = (PSA_SUCCESS, g')"
      "store_ok g'" "store_abs g' = (store_abs g)(r := None)"
      "key_slots_initialized g' = key_slots_initialized g" by metis
    with 2 rD show thesis by (intro last [of g']) (auto simp: psa_unregister_read_def)
  next
    case 3
    then show thesis
      using rD store_ok_put_occupied [OF g r, of "drop_reader s"]
      by (intro dropped)
        (auto simp: psa_unregister_read_def psa_key_slot_has_readers_def drop_reader_def slot_simps)
  qed
qed

section \<open>Reserving a cache slot\<close>

definition evictable :: "psa_key_slot \<Rightarrow> bool" where
  "evictable s \<longleftrightarrow> slot_state s = PSA_SLOT_FULL \<and> registered_readers s = 0 \<and>
     \<not> PSA_KEY_LIFETIME_IS_VOLATILE (attr_lifetime (slot_attr s))"

lemma scan_cache_spec:
  "scan_cache S k u = (sel, un) \<Longrightarrow>
   (\<forall>j. sel = Some j \<longrightarrow> k \<le> j \<and> j < k + length S \<and> slot_state (S ! (j - k)) = PSA_SLOT_EMPTY) \<and>
   (sel = None \<longrightarrow> (\<forall>s \<in> set S. slot_state s \<noteq> PSA_SLOT_EMPTY)) \<and>
   (\<forall>j. un = Some j \<longrightarrow> u = Some j \<or> k \<le> j \<and> j < k + length S \<and> evictable (S ! (j - k))) \<and>
   (sel = None \<longrightarrow> un = None \<longrightarrow> u = None \<and> (\<forall>s \<in> set S. \<not> evictable s))"
proof (induction S arbitrary: k u)
  case (Cons s S)
  show ?case
  proof (cases "slot_state s = PSA_SLOT_EMPTY")
    case False
    let ?u = "if u = None \<and> evictable s then Some k else u"
    from Cons.prems False have "scan_cache S (Suc k) ?u = (sel, un)"
      by (simp add: evictable_def psa_key_slot_has_readers_def)
    note IH = Cons.IH [OF this]
    have shift: "(s # S) ! (j - k) = S ! (j - Suc k)" if "Suc k \<le> j" for j
      using that by (simp add: nth_Cons split: nat.split) (metis Suc_diff_Suc diff_Suc_Suc less_eq_Suc_le nat.inject)
    show ?thesis using IH False shift by (auto split: if_splits)
  qed (use Cons.prems in auto)
qed simp

lemma cache_valid_ref:
  assumes g: "store_ok g" and S: "key_slices g ! KEY_SLOT_CACHE_SLICE_INDEX = Some S"
  shows "valid_ref g (KEY_SLOT_CACHE_SLICE_INDEX, j) \<longleftrightarrow> j < PERSISTENT_KEY_CACHE_COUNT"
  using store_okD(1) [OF g] store_okD(3) [OF g _ S] S
  by (auto simp: valid_ref_def slice_ok_def key_slice_length_def)

lemma empty_cache_slot:
  assumes "slot_ok KEY_SLOT_CACHE_SLICE_INDEX s" "slot_state s = PSA_SLOT_EMPTY"
  shows "s = psa_key_slot_zero"
  using assms by (cases s) (simp add: slot_ok_def psa_key_slot_zero_def)

lemma store_ok_fill_cache:
  assumes g: "store_ok g" and r: "valid_ref g r" "fst r = KEY_SLOT_CACHE_SLICE_INDEX"
  shows "store_ok (put_key_slot r (filling_slot KEY_SLOT_CACHE_SLICE_INDEX) g)"
    "store_abs (put_key_slot r (filling_slot KEY_SLOT_CACHE_SLICE_INDEX) g) =
       (store_abs g)(r \<mapsto> filling_slot KEY_SLOT_CACHE_SLICE_INDEX)"
  using r by (auto intro!: store_ok_put g simp: filling_slot_def psa_key_slot_zero_def slot_ok_def slot_simps)

lemma reserve_cache_cases:
  assumes g: "store_ok g" and init: "key_slots_initialized g"
  obtains (reserved) j g' where "psa_reserve_free_key_slot False g =
        (PSA_SUCCESS, None, Some (KEY_SLOT_CACHE_SLICE_INDEX, j), g')"
      "store_ok g'" "key_slots_initialized g'" "j < PERSISTENT_KEY_CACHE_COUNT"
      "store_abs g' = (store_abs g)((KEY_SLOT_CACHE_SLICE_INDEX, j) \<mapsto>
         filling_slot KEY_SLOT_CACHE_SLICE_INDEX)"
      "\<And>s. store_abs g (KEY_SLOT_CACHE_SLICE_INDEX, j) = Some s \<Longrightarrow> evictable s"
  | (none) "psa_reserve_free_key_slot False g = (PSA_ERROR_INSUFFICIENT_MEMORY, None, None, g)"
      "\<And>j. j < PERSISTENT_KEY_CACHE_COUNT \<Longrightarrow>
         \<exists>s. store_abs g (KEY_SLOT_CACHE_SLICE_INDEX, j) = Some s \<and> \<not> evictable s"
proof -
  obtain S where S: "key_slices g ! KEY_SLOT_CACHE_SLICE_INDEX = Some S"
    using store_okD(6) [OF g init] by auto
  have len: "length S = PERSISTENT_KEY_CACHE_COUNT"
    using store_okD(3) [OF g _ S] by (simp add: slice_ok_def key_slice_length_def)
  note v = cache_valid_ref [OF g S]
  obtain sel un where sc: "scan_cache S 0 None = (sel, un)" by (cases "scan_cache S 0 None")
  note sp = scan_cache_spec [OF sc]
  note get = get_key_slot_slice [OF S]
  let ?fill = "filling_slot KEY_SLOT_CACHE_SLICE_INDEX"
  show thesis
  proof (cases sel)
    case (Some j)
    with sp len have j: "j < PERSISTENT_KEY_CACHE_COUNT" "slot_state (S ! j) = PSA_SLOT_EMPTY" by auto
    have "slot_ok KEY_SLOT_CACHE_SLICE_INDEX (S ! j)" using slot_ok_get [OF g] v j get by force
    then have z: "S ! j = psa_key_slot_zero" using j by (rule_tac empty_cache_slot)
    have "psa_reserve_free_key_slot False g = (PSA_SUCCESS, None,
        Some (KEY_SLOT_CACHE_SLICE_INDEX, j), put_key_slot (KEY_SLOT_CACHE_SLICE_INDEX, j) ?fill g)"
      using init S sc Some z
      by (cases un) (simp_all add: psa_reserve_free_key_slot_def Let_def get
          psa_key_slot_state_transition_def filling_slot_def psa_key_slot_zero_def)
    then show thesis
      using store_ok_fill_cache [OF g, of "(KEY_SLOT_CACHE_SLICE_INDEX, j)"] v j init get
      by (intro reserved [of j "put_key_slot (KEY_SLOT_CACHE_SLICE_INDEX, j) ?fill g"]) (auto simp: slot_simps store_abs_def)
  next
    case None
    have ne: "store_abs g (KEY_SLOT_CACHE_SLICE_INDEX, j) = Some (S ! j)"
      if "j < PERSISTENT_KEY_CACHE_COUNT" for j
      using that sp None len v get by (auto simp: store_abs_def)
    show thesis
    proof (cases un)
      case None
      then have "psa_reserve_free_key_slot False g = (PSA_ERROR_INSUFFICIENT_MEMORY, None, None, g)"
        using init S sc \<open>sel = None\<close> by (simp add: psa_reserve_free_key_slot_def Let_def)
      then show thesis using sp None \<open>sel = None\<close> ne len by (intro none) auto
    next
      case (Some u)
      with sp \<open>sel = None\<close> len have u: "u < PERSISTENT_KEY_CACHE_COUNT" "evictable (S ! u)" by auto
      let ?r = "(KEY_SLOT_CACHE_SLICE_INDEX, u)" and ?s = "add_reader (S ! u)"
      have rr: "psa_register_read (S ! u) = (PSA_SUCCESS, ?s)"
        using u(2) by (auto simp: register_read_cases evictable_def SIZE_MAX_def)
      have l: "store_ok (put_key_slot ?r ?s g)"
        "store_abs (put_key_slot ?r ?s g) = (store_abs g)(?r \<mapsto> ?s)"
        using lock_found [OF g ne [OF u(1)]] u(2) by (auto simp: evictable_def SIZE_MAX_def)
      have "wipeable ?s" using u(2)
        by (simp add: wipeable_def evictable_def slot_simps SIZE_MAX_def)
      with l obtain g' where w: "psa_wipe_key_slot ?r (put_key_slot ?r ?s g) = (PSA_SUCCESS, g')"
        "store_ok g'" "store_abs g' = (store_abs (put_key_slot ?r ?s g))(?r := None)"
        "key_slots_initialized g' = key_slots_initialized (put_key_slot ?r ?s g)"
        "\<And>r'. valid_ref g' r' \<longleftrightarrow> valid_ref (put_key_slot ?r ?s g) r'"
        by (elim wipe_refines [of "put_key_slot ?r ?s g" ?r ?s]) auto
      have v': "valid_ref g' ?r" using w(5) v u(1) by (simp add: slot_simps)
      have "store_abs g' ?r = None" using w(3) by simp
      then have e: "slot_state (get_key_slot g' ?r) = PSA_SLOT_EMPTY"
        using v' by (simp add: store_abs_def split: if_splits)
      then have z: "get_key_slot g' ?r = psa_key_slot_zero"
        using slot_ok_get [OF w(2) v'] by (intro empty_cache_slot) auto
      have "psa_reserve_free_key_slot False g =
          (PSA_SUCCESS, None, Some ?r, put_key_slot ?r ?fill g')"
        using init S sc \<open>sel = None\<close> Some rr w(1) z
        by (simp add: psa_reserve_free_key_slot_def Let_def get
            psa_key_slot_state_transition_def filling_slot_def psa_key_slot_zero_def)
      then show thesis
        using store_ok_fill_cache [OF w(2) v'] w l u init ne [OF u(1)]
        by (intro reserved [of u "put_key_slot ?r ?fill g'"]) (auto simp: slot_simps)
    qed
  qed
qed

section \<open>Initialisation and shutdown\<close>

text \<open>The frame of the shutdown: which slices are allocated, and the sizes of the arrays.\<close>

definition same_layout :: "psa_global_data \<Rightarrow> psa_global_data \<Rightarrow> bool" where
  "same_layout g g' \<longleftrightarrow>
     length (key_slices g') = length (key_slices g) \<and>
     length (first_free_slot_index g') = length (first_free_slot_index g) \<and>
     calloc_outcomes g' = calloc_outcomes g \<and>
     (\<forall>i < length (key_slices g). (key_slices g' ! i = None) = (key_slices g ! i = None))"

lemma same_layout_trans: "same_layout a b \<Longrightarrow> same_layout b c \<Longrightarrow> same_layout a c"
  by (auto simp: same_layout_def)

lemma same_layout_refl [simp]: "same_layout g g"
  by (simp add: same_layout_def)

lemma wipe_slot_for_shutdown_layout:
  assumes "i < length (key_slices g)" "key_slices g ! i \<noteq> None"
  shows "same_layout g (wipe_slot_for_shutdown (i, j) g)"
proof -
  have p: "same_layout h (put_key_slot (i, j) s h)"
    if "i < length (key_slices h)" "key_slices h ! i \<noteq> None" for s h
    using that by (auto simp: same_layout_def put_key_slot_def nth_list_update)
  have f: "same_layout h (snd (psa_free_key_slot k (i, j) h))"
    if "i < length (key_slices h)" "key_slices h ! i \<noteq> None" for k h
    using that by (auto simp: psa_free_key_slot_def Let_def same_layout_def put_key_slot_def nth_list_update)
  have pp: "i < length (key_slices (put_key_slot (i, j) s h)) \<and> key_slices (put_key_slot (i, j) s h) ! i \<noteq> None"
    if "i < length (key_slices h)" for s h
    using that by (simp add: put_key_slot_def)
  have w: "same_layout h (snd (psa_wipe_key_slot (i, j) h))"
    if "i < length (key_slices h)" "key_slices h ! i \<noteq> None" for h
    using that pp [of h] by (auto simp: wipe_status [OF refl] intro!: p same_layout_trans [OF p f])
  show ?thesis
    using assms pp [of g]
    by (auto simp: wipe_slot_for_shutdown_def Let_def intro!: same_layout_trans [OF p w])
qed

lemma wipe_slots_layout:
  assumes "i < length (key_slices g)" "key_slices g ! i \<noteq> None"
  shows "same_layout g (fold (\<lambda>j. wipe_slot_for_shutdown (i, j)) js g)"
  using assms
proof (induction js arbitrary: g)
  case (Cons j js)
  note l = wipe_slot_for_shutdown_layout [OF Cons.prems, of j]
  then have "i < length (key_slices (wipe_slot_for_shutdown (i, j) g))"
    "key_slices (wipe_slot_for_shutdown (i, j) g) ! i \<noteq> None"
    using Cons.prems by (auto simp: same_layout_def)
  from Cons.IH [OF this] l show ?case by (auto intro: same_layout_trans)
qed simp

lemma wipe_slice_layout:
  assumes "i < length (key_slices g)"
  shows "length (key_slices (wipe_slice_for_shutdown i g)) = length (key_slices g)"
    "length (first_free_slot_index (wipe_slice_for_shutdown i g)) = length (first_free_slot_index g)"
    "calloc_outcomes (wipe_slice_for_shutdown i g) = calloc_outcomes g"
    "key_slices (wipe_slice_for_shutdown i g) ! i = None"
    "k \<noteq> i \<Longrightarrow> k < length (key_slices g) \<Longrightarrow> key_slices g ! k = None \<Longrightarrow>
       key_slices (wipe_slice_for_shutdown i g) ! k = None"
  using assms wipe_slots_layout [OF assms, of "[0..<key_slice_length i]"]
  by (auto simp: wipe_slice_for_shutdown_def Let_def same_layout_def split: option.split)

lemma wipe_slices_result:
  assumes "length (key_slices g) = n" "k \<le> n"
  shows "length (key_slices (fold wipe_slice_for_shutdown [0..<k] g)) = n \<and>
    length (first_free_slot_index (fold wipe_slice_for_shutdown [0..<k] g)) = length (first_free_slot_index g) \<and>
    calloc_outcomes (fold wipe_slice_for_shutdown [0..<k] g) = calloc_outcomes g \<and>
    (\<forall>i < k. key_slices (fold wipe_slice_for_shutdown [0..<k] g) ! i = None)"
  using assms(2)
proof (induction k)
  case (Suc k)
  let ?g = "fold wipe_slice_for_shutdown [0..<k] g"
  from Suc have IH: "length (key_slices ?g) = n" "calloc_outcomes ?g = calloc_outcomes g"
    "length (first_free_slot_index ?g) = length (first_free_slot_index g)"
    "\<forall>i < k. key_slices ?g ! i = None" by auto
  have k: "k < length (key_slices ?g)" using IH Suc by simp
  show ?case
    using wipe_slice_layout [OF k] IH Suc.prems by (auto simp: less_Suc_eq)
qed (use assms in simp)

lemma fold_zero: "k \<le> length fs \<Longrightarrow>
    fold (\<lambda>i fs. fs[i := 0]) [0..<k] fs = replicate k (0::nat) @ drop k fs"
proof (induction k)
  case (Suc k)
  then have "k < length fs" by simp
  then have "drop k fs = fs ! k # drop (Suc k) fs" by (simp add: Cons_nth_drop_Suc)
  with Suc show ?case by (simp add: list_update_append replicate_append_same)
qed simp

lemma wipe_all_result:
  assumes "store_ok g"
  shows "psa_wipe_all_key_slots g = psa_global_data_zero (calloc_outcomes g)"
proof -
  let ?g = "fold wipe_slice_for_shutdown [0..<KEY_SLICE_COUNT] g"
  note l = store_okD(1,2) [OF assms]
  note r = wipe_slices_result [OF l(1), of KEY_SLICE_COUNT, simplified]
  from r have "key_slices ?g = replicate KEY_SLICE_COUNT None"
    by (intro nth_equalityI) auto
  moreover have "fold (\<lambda>i fs. fs[i := 0]) [0..<KEY_SLOT_VOLATILE_SLICE_COUNT] (first_free_slot_index ?g) =
      replicate KEY_SLOT_VOLATILE_SLICE_COUNT 0"
    using r l by (simp add: fold_zero)
  ultimately show ?thesis
    using r by (simp add: psa_wipe_all_key_slots_def psa_global_data_zero_def Let_def)
qed

lemma store_ok_zero: "store_ok (psa_global_data_zero outcomes)"
  by (auto simp: store_ok_def psa_global_data_zero_def)

lemma store_abs_zero: "store_abs (psa_global_data_zero outcomes) = (\<lambda>_. None)"
  by (auto simp: store_abs_def psa_global_data_zero_def valid_ref_def)

lemma initialize_ok:
  assumes g: "store_ok g" and c: "key_slices g ! KEY_SLOT_CACHE_SLICE_INDEX = None"
  shows "psa_initialize_key_slots g = (st, g') \<Longrightarrow>
    (st = PSA_SUCCESS \<and> store_ok g' \<and> key_slots_initialized g' \<or>
     st = PSA_ERROR_INSUFFICIENT_MEMORY \<and> store_ok g' \<and>
       key_slots_initialized g' = key_slots_initialized g \<and> key_slices g' = key_slices g) \<and>
    store_abs g' = store_abs g"
proof -
  assume i: "psa_initialize_key_slots g = (st, g')"
  obtain ok outcomes where oc: "mbedtls_calloc (calloc_outcomes g) = (ok, outcomes)"
    by (cases "mbedtls_calloc (calloc_outcomes g)")
  let ?g0 = "g\<lparr>calloc_outcomes := outcomes\<rparr>"
  let ?S = "replicate PERSISTENT_KEY_CACHE_COUNT psa_key_slot_zero"
  let ?ks = "(key_slices g)[KEY_SLOT_CACHE_SLICE_INDEX := Some ?S]"
  have l: "length (key_slices g) = KEY_SLICE_COUNT" "length (first_free_slot_index g) = KEY_SLOT_VOLATILE_SLICE_COUNT"
    by (rule store_okD [OF g])+
  have g0: "store_ok ?g0" using g by simp
  show ?thesis
  proof (cases ok)
    case False
    have "(key_slices g)[KEY_SLOT_CACHE_SLICE_INDEX := None] = key_slices g"
      using c by (metis list_update_id)
    with False i oc have "g' = ?g0" "st = PSA_ERROR_INSUFFICIENT_MEMORY"
      by (auto simp: psa_initialize_key_slots_def)
    with g0 show ?thesis by (simp add: slot_simps)
  next
    case True
    have "slice_ok KEY_SLOT_CACHE_SLICE_INDEX ?S"
      using free_list_ok_zero [of KEY_SLOT_CACHE_SLICE_INDEX] by (simp add: key_slice_length_def)
    then have "store_ok (?g0\<lparr>key_slices := ?ks, first_free_slot_index := (first_free_slot_index ?g0)[KEY_SLOT_CACHE_SLICE_INDEX := 0]\<rparr>)"
      using store_ok_update [OF g0, of KEY_SLOT_CACHE_SLICE_INDEX ?S 0] by simp
    moreover have "?g0\<lparr>key_slices := ?ks, first_free_slot_index :=
        (first_free_slot_index ?g0)[KEY_SLOT_CACHE_SLICE_INDEX := 0]\<rparr> = ?g0\<lparr>key_slices := ?ks\<rparr>"
      using l by (cases g) (simp add: list_update_beyond)
    ultimately have s: "store_ok (?g0\<lparr>key_slices := ?ks\<rparr>)" by simp
    have "store_ok (?g0\<lparr>key_slices := ?ks, key_slots_initialized := True\<rparr>)"
      using s l unfolding store_ok_def by (simp cong: option.case_cong)
    moreover have "store_abs (?g0\<lparr>key_slices := ?ks\<rparr>) = store_abs g"
      using store_abs_new_slice [of ?g0 KEY_SLOT_CACHE_SLICE_INDEX PERSISTENT_KEY_CACHE_COUNT] c
      by (simp add: slot_simps)
    moreover have "g' = ?g0\<lparr>key_slices := ?ks, key_slots_initialized := True\<rparr>" "st = PSA_SUCCESS"
      using i oc True by (auto simp: psa_initialize_key_slots_def)
    ultimately show ?thesis by (simp add: slot_simps)
  qed
qed

section \<open>Volatile key identifiers\<close>

lemma bit_nat_less: "bit (j::nat) n \<Longrightarrow> j < 2 ^ m \<Longrightarrow> n < m"
proof (rule ccontr)
  assume b: "bit j n" "j < 2 ^ m" "\<not> n < m"
  then have "(2::nat) ^ m \<le> 2 ^ n" by (intro power_increasing) auto
  with b(2) have "j < 2 ^ n" by linarith
  then have "j div 2 ^ n = 0" by simp
  with b(1) show False by (simp add: bit_iff_odd)
qed

lemma volatile_key_id_sum:
  assumes "i < 32" "j < 2 ^ 25"
  shows "volatile_key_id_of_index i j = word_of_nat (2 ^ 30 + i * 2 ^ 25 + j)"
proof -
  let ?i = "push_bit 25 (word_of_nat i) :: u32" and ?j = "word_of_nat j :: u32"
  have bi: "25 \<le> n \<and> n < 30" if "bit ?i n" for n
    using that bit_nat_less [of i "n - 25" 5] assms by (auto simp: bit_simps)
  have bj: "n < 25" if "bit ?j n" for n
    using that bit_nat_less [of j n 25] assms by (auto simp: bit_simps)
  have m: "(0x40000000 :: u32) = push_bit 30 1" by (simp add: push_bit_eq_mult)
  have b30: "bit (0x40000000 :: u32) n \<longleftrightarrow> n = 30" for n
    unfolding m by (auto simp only: bit_simps simp_thms) (simp_all add: bit_simps)
  have "(0x40000000 :: u32) AND ?i = 0"
    by (rule bit_word_eqI) (auto simp only: bit_and_iff b30 bit_0_eq bot_apply bot_bool_def dest: bi)
  then have 1: "0x40000000 OR ?i = 0x40000000 + ?i" by (rule disjunctive_add_eq_or [symmetric])
  have "(0x40000000 OR ?i) AND ?j = 0"
  proof (rule bit_word_eqI)
    fix n :: nat
    have "\<not> (25 \<le> n \<and> n < 25)" "\<not> (n = 30 \<and> n < 25)" by auto
    with bi [of n] bj [of n] b30 [of n]
    show "bit ((0x40000000 OR ?i) AND ?j) n \<longleftrightarrow> bit (0 :: u32) n"
      by (simp only: bit_and_iff bit_or_iff bit_0_eq bot_apply bot_bool_def) blast
  qed
  then have "(0x40000000 OR ?i) OR ?j = (0x40000000 OR ?i) + ?j"
    by (rule disjunctive_add_eq_or [symmetric])
  moreover have "volatile_key_id_of_index i j = (0x40000000 OR ?i) OR ?j"
    unfolding volatile_key_id_of_index_def by (simp only: or.assoc)
  ultimately have "volatile_key_id_of_index i j = 0x40000000 + ?i + ?j" by (simp only: 1)
  then show ?thesis by (simp add: push_bit_eq_mult mult.commute)
qed

lemma volatile_key_id_fields:
  assumes "i < KEY_SLOT_VOLATILE_SLICE_COUNT" "j < 2 ^ 25"
  shows "unat (volatile_key_id_of_index i j) = 2 ^ 30 + i * 2 ^ 25 + j"
    "slice_index_of_volatile_key_id (volatile_key_id_of_index i j) = i"
    "slot_index_of_volatile_key_id (volatile_key_id_of_index i j) = j"
    "psa_key_id_is_volatile (volatile_key_id_of_index i j)"
proof -
  let ?k = "volatile_key_id_of_index i j"
  have "2 ^ 30 + i * 2 ^ 25 + j < 2 ^ 32" using assms by simp
  then show u: "unat ?k = 2 ^ 30 + i * 2 ^ 25 + j"
    using assms volatile_key_id_sum [of i j]
    by (simp del: of_nat_add of_nat_mult add: unsigned_of_nat take_bit_nat_eq_self)
  have lt: "unat ?k < 2 ^ 32" using u assms by simp
  have "slice_index_of_volatile_key_id ?k = take_bit 5 (drop_bit 25 (unat ?k))"
    unfolding slice_index_of_volatile_key_id_def take_bit_eq_mask [symmetric] unsigned_take_bit_eq
      unsigned_drop_bit_eq using lt by (simp add: take_bit_nat_eq_self)
  moreover have "unat ?k = j + (32 + i) * 2 ^ 25" using u by simp
  ultimately have "slice_index_of_volatile_key_id ?k = (32 + i) mod 32"
    using assms by (simp only: take_bit_eq_mod drop_bit_eq_div div_mult_self1) simp
  then show "slice_index_of_volatile_key_id ?k = i" using assms by simp
  have "slot_index_of_volatile_key_id ?k = take_bit 25 (unat ?k)"
    unfolding slot_index_of_volatile_key_id_def take_bit_eq_mask [symmetric] unsigned_take_bit_eq
    by simp
  moreover have "unat ?k = j + (32 + i) * 2 ^ 25" using u by simp
  ultimately have "slot_index_of_volatile_key_id ?k = j mod 2 ^ 25"
    by (simp only: take_bit_eq_mod mod_mult_self1)
  then show "slot_index_of_volatile_key_id ?k = j" using assms by simp
  show "psa_key_id_is_volatile ?k"
    using assms u by (simp add: psa_key_id_is_volatile_def word_le_nat_alt)
qed

end
