(* ===== verification/Slot_Readers.thy ===== *)
theory Slot_Readers
  imports Slot_Refinement "HOL-Library.Multiset"
begin

text \<open>
  The key store under concurrent use. Every operation on the store runs under the key slot
  mutex, so an execution is a sequence of atomic operations of several clients: lookups that
  register a reader, readers that unregister, creations that reserve a slot, fill it and publish
  or abandon it, destructions that mark a slot they have locked, purges. A ghost multiset records
  who holds a read registration and a ghost set which slots are owned by a creation; the
  operations themselves are those of Key_Slots and never look at the ghosts.
\<close>

section \<open>Clients\<close>

record client_state =
  cs_store :: psa_global_data
  cs_readers :: "slot_ref multiset"
  cs_creators :: "slot_ref set"

datatype client_event =
    Initialize
  | Lock psa_key_id
  | Unlock slot_ref
  | Reserve bool
  | Fill slot_ref psa_key_attributes "bytes option" nat
  | Publish slot_ref
  | Abandon slot_ref
  | MarkForDeletion slot_ref
  | Purge psa_key_id

text \<open>
  The creation writes attributes and key material into the slot it owns
  (psa_start_key_creation and psa_copy_key_material_into_slot), then makes it FULL
  (psa_finish_key_creation) or wipes it (psa_fail_key_creation). psa_destroy_key locks the slot,
  marks it, and unregisters.
\<close>

definition fill_slot :: "psa_key_attributes \<Rightarrow> bytes option \<Rightarrow> nat \<Rightarrow> psa_key_slot \<Rightarrow> psa_key_slot" where
  "fill_slot a d n s = s\<lparr>slot_attr := a, slot_key_data := d, slot_key_bytes := n\<rparr>"

definition transition_slot ::
    "slot_ref \<Rightarrow> psa_key_slot_state \<Rightarrow> psa_key_slot_state \<Rightarrow> psa_global_data \<Rightarrow> psa_status \<times> psa_global_data" where
  "transition_slot r expected new g =
     (let (st, s) = psa_key_slot_state_transition (get_key_slot g r) expected new
      in (st, put_key_slot r s g))"

inductive client_step :: "client_state \<Rightarrow> client_event \<Rightarrow> psa_status \<Rightarrow> client_state \<Rightarrow> bool" where
  initialize: "\<not> key_slots_initialized (cs_store c) \<Longrightarrow>
     psa_initialize_key_slots (cs_store c) = (st, g) \<Longrightarrow>
     client_step c Initialize st (c\<lparr>cs_store := g\<rparr>)"
| lock: "key_slots_initialized (cs_store c) \<Longrightarrow>
     psa_get_and_lock_key_slot_in_memory key (cs_store c) = (st, p, g) \<Longrightarrow>
     client_step c (Lock key) st
       (c\<lparr>cs_store := g, cs_readers := cs_readers c + (case p of None \<Rightarrow> {#} | Some r \<Rightarrow> {#r#})\<rparr>)"
| unlock: "r \<in># cs_readers c \<Longrightarrow>
     psa_unregister_read_under_mutex (Some r) (cs_store c) = (st, g) \<Longrightarrow>
     client_step c (Unlock r) st (c\<lparr>cs_store := g, cs_readers := cs_readers c - {#r#}\<rparr>)"
| reserve: "psa_reserve_free_key_slot v (cs_store c) = (st, kid, p, g) \<Longrightarrow>
     client_step c (Reserve v) st
       (c\<lparr>cs_store := g, cs_creators := cs_creators c \<union> set_option p\<rparr>)"
| fill: "r \<in> cs_creators c \<Longrightarrow>
     client_step c (Fill r a d n) PSA_SUCCESS
       (c\<lparr>cs_store := put_key_slot r (fill_slot a d n (get_key_slot (cs_store c) r)) (cs_store c)\<rparr>)"
| publish: "r \<in> cs_creators c \<Longrightarrow>
     transition_slot r PSA_SLOT_FILLING PSA_SLOT_FULL (cs_store c) = (st, g) \<Longrightarrow>
     client_step c (Publish r) st (c\<lparr>cs_store := g, cs_creators := cs_creators c - {r}\<rparr>)"
| abandon: "r \<in> cs_creators c \<Longrightarrow> psa_wipe_key_slot r (cs_store c) = (st, g) \<Longrightarrow>
     client_step c (Abandon r) st (c\<lparr>cs_store := g, cs_creators := cs_creators c - {r}\<rparr>)"
| mark: "r \<in># cs_readers c \<Longrightarrow>
     slot_state (get_key_slot (cs_store c) r) = PSA_SLOT_FULL \<Longrightarrow>
     transition_slot r PSA_SLOT_FULL PSA_SLOT_PENDING_DELETION (cs_store c) = (st, g) \<Longrightarrow>
     client_step c (MarkForDeletion r) st (c\<lparr>cs_store := g\<rparr>)"
| purge: "key_slots_initialized (cs_store c) \<Longrightarrow> psa_purge_key key (cs_store c) = (st, g) \<Longrightarrow>
     client_step c (Purge key) st (c\<lparr>cs_store := g\<rparr>)"

inductive_cases client_stepE: "client_step c e st c'"

definition client_init :: "bool list \<Rightarrow> client_state" where
  "client_init outcomes =
     \<lparr>cs_store = psa_global_data_zero outcomes, cs_readers = {#}, cs_creators = {}\<rparr>"

inductive client_reachable :: "client_state \<Rightarrow> bool" where
  start: "client_reachable (client_init outcomes)"
| step: "client_reachable c \<Longrightarrow> client_step c e st c' \<Longrightarrow> client_reachable c'"

section \<open>The invariant\<close>

text \<open>
  A slot's reader count is the number of registrations held on it; a slot being filled belongs
  to exactly one creation and has no readers; a slot marked for deletion has at least one.
\<close>

fun slot_owners_ok :: "nat \<Rightarrow> bool \<Rightarrow> psa_key_slot option \<Rightarrow> bool" where
  "slot_owners_ok n cr None \<longleftrightarrow> n = 0 \<and> \<not> cr"
| "slot_owners_ok n cr (Some s) \<longleftrightarrow>
     (case slot_state s of
        PSA_SLOT_EMPTY \<Rightarrow> False
      | PSA_SLOT_FILLING \<Rightarrow> n = 0 \<and> cr
      | PSA_SLOT_FULL \<Rightarrow> \<not> cr \<and> registered_readers s = n
      | PSA_SLOT_PENDING_DELETION \<Rightarrow> \<not> cr \<and> registered_readers s = n \<and> 0 < n)"

definition client_inv :: "client_state \<Rightarrow> bool" where
  "client_inv c \<longleftrightarrow>
     store_ok (cs_store c) \<and>
     (\<forall>r. slot_owners_ok (count (cs_readers c) r) (r \<in> cs_creators c) (store_abs (cs_store c) r)) \<and>
     (\<not> key_slots_initialized (cs_store c) \<longrightarrow>
        key_slices (cs_store c) ! KEY_SLOT_CACHE_SLICE_INDEX = None \<and>
        cs_readers c = {#} \<and> cs_creators c = {})"

lemma client_invD:
  assumes "client_inv c"
  shows "store_ok (cs_store c)"
    "slot_owners_ok (count (cs_readers c) r) (r \<in> cs_creators c) (store_abs (cs_store c) r)"
    "\<not> key_slots_initialized (cs_store c) \<Longrightarrow>
       key_slices (cs_store c) ! KEY_SLOT_CACHE_SLICE_INDEX = None"
    "\<not> key_slots_initialized (cs_store c) \<Longrightarrow> cs_readers c = {#}"
    "\<not> key_slots_initialized (cs_store c) \<Longrightarrow> cs_creators c = {}"
  using assms unfolding client_inv_def by blast+

lemma client_inv_reader:
  assumes "client_inv c" "r \<in># cs_readers c"
  obtains s where "store_abs (cs_store c) r = Some s" "registered_readers s = count (cs_readers c) r"
    "slot_state s = PSA_SLOT_FULL \<or> slot_state s = PSA_SLOT_PENDING_DELETION" "r \<notin> cs_creators c"
proof -
  have "0 < count (cs_readers c) r" using assms(2) by simp
  with client_invD(2) [OF assms(1), of r] obtain s where "store_abs (cs_store c) r = Some s"
    by (cases "store_abs (cs_store c) r") auto
  with client_invD(2) [OF assms(1), of r] \<open>0 < _\<close> show thesis
    by (intro that [of s]) (auto simp del: count_greater_zero_iff split: psa_key_slot_state.splits)
qed

lemma client_inv_creator:
  assumes "client_inv c" "r \<in> cs_creators c"
  obtains s where "store_abs (cs_store c) r = Some s" "slot_state s = PSA_SLOT_FILLING"
    "r \<notin># cs_readers c"
proof -
  from client_invD(2) [OF assms(1), of r] assms(2) obtain s where "store_abs (cs_store c) r = Some s"
    by (cases "store_abs (cs_store c) r") auto
  with client_invD(2) [OF assms(1), of r] assms(2) show thesis
    by (intro that [of s]) (auto simp: count_eq_zero_iff split: psa_key_slot_state.splits)
qed

lemma client_inv_initialized:
  assumes "client_inv c" "r \<in># cs_readers c \<or> r \<in> cs_creators c"
  shows "key_slots_initialized (cs_store c)"
  using client_invD(4,5) [OF assms(1)] assms(2)
  by (cases "key_slots_initialized (cs_store c)") simp_all

text \<open>How an operation that changes one slot re-establishes the invariant.\<close>

lemma client_inv_update:
  assumes c: "client_inv c" and g: "store_ok g" and init: "key_slots_initialized g"
    and abs: "store_abs g = (store_abs (cs_store c))(r := v)"
    and other: "\<And>r'. r' \<noteq> r \<Longrightarrow> count R r' = count (cs_readers c) r' \<and> (r' \<in> C) = (r' \<in> cs_creators c)"
    and here: "slot_owners_ok (count R r) (r \<in> C) v"
  shows "client_inv (c\<lparr>cs_store := g, cs_readers := R, cs_creators := C\<rparr>)"
proof -
  have "slot_owners_ok (count R r') (r' \<in> C) (store_abs g r')" for r'
    using client_invD(2) [OF c, of r'] here other [of r'] by (cases "r' = r") (simp_all add: abs)
  with g init show ?thesis unfolding client_inv_def by simp
qed

lemma client_inv_same:
  assumes "client_inv c" "store_ok g" "key_slots_initialized g" "store_abs g = store_abs (cs_store c)"
  shows "client_inv (c\<lparr>cs_store := g\<rparr>)"
  using assms client_invD(2) [OF assms(1)] unfolding client_inv_def by simp

section \<open>Preservation\<close>

text \<open>What a reader relies on: the attributes and the key material of the slot it has locked.\<close>

definition same_material :: "psa_key_slot \<Rightarrow> psa_key_slot \<Rightarrow> bool" where
  "same_material s s' \<longleftrightarrow>
     slot_attr s' = slot_attr s \<and> slot_key_data s' = slot_key_data s \<and>
     slot_key_bytes s' = slot_key_bytes s"

definition keeps_readers :: "slot_ref multiset \<Rightarrow> psa_global_data \<Rightarrow> psa_global_data \<Rightarrow> bool" where
  "keeps_readers R g g' \<longleftrightarrow>
     (\<forall>r \<in> set_mset R. \<forall>s. store_abs g r = Some s \<longrightarrow>
        (\<exists>s'. store_abs g' r = Some s' \<and> same_material s s'))"

lemma same_material_refl [simp]: "same_material s s"
  by (simp add: same_material_def)

lemma same_material_reader [simp]:
  "same_material s (add_reader s)" "same_material s (drop_reader s)"
  "same_material s (s\<lparr>slot_state := st\<rparr>)"
  by (simp_all add: same_material_def slot_simps)

lemma keeps_readers_trans:
  assumes "keeps_readers R g g'" "keeps_readers R g' g''"
  shows "keeps_readers R g g''"
  unfolding keeps_readers_def
proof (intro ballI allI impI)
  fix r s assume r: "r \<in># R" "store_abs g r = Some s"
  with assms(1) obtain s' where "store_abs g' r = Some s'" "same_material s s'"
    unfolding keeps_readers_def by blast
  moreover with assms(2) r(1) obtain s'' where "store_abs g'' r = Some s''" "same_material s' s''"
    unfolding keeps_readers_def by blast
  ultimately show "\<exists>s'. store_abs g'' r = Some s' \<and> same_material s s'"
    by (auto simp: same_material_def)
qed

lemma keeps_readers_same: "store_abs g' = store_abs g \<Longrightarrow> keeps_readers R g g'"
  by (simp add: keeps_readers_def)

lemma keeps_readers_update:
  assumes "store_abs g' = (store_abs g)(q := v)"
    and "\<And>s. q \<in># R \<Longrightarrow> store_abs g q = Some s \<Longrightarrow> \<exists>s'. v = Some s' \<and> same_material s s'"
  shows "keeps_readers R g g'"
  using assms by (auto simp: keeps_readers_def)

lemma step_initialize:
  assumes c: "client_inv c" and i: "\<not> key_slots_initialized (cs_store c)"
    and r: "psa_initialize_key_slots (cs_store c) = (st, g)"
  shows "client_inv (c\<lparr>cs_store := g\<rparr>) \<and> keeps_readers (cs_readers c) (cs_store c) g \<and>
    st \<noteq> PSA_ERROR_CORRUPTION_DETECTED"
proof -
  note k = initialize_ok [OF client_invD(1) [OF c] client_invD(3) [OF c i] r]
  then have "client_inv (c\<lparr>cs_store := g\<rparr>)"
    using client_invD(2,3,4,5) [OF c] i unfolding client_inv_def by auto
  with k show ?thesis by (auto simp: keeps_readers_same)
qed

lemma step_lock:
  assumes c: "client_inv c" and i: "key_slots_initialized (cs_store c)"
    and r: "psa_get_and_lock_key_slot_in_memory key (cs_store c) = (st, p, g)"
  shows "client_inv (c\<lparr>cs_store := g, cs_readers := cs_readers c + (case p of None \<Rightarrow> {#} | Some r \<Rightarrow> {#r#})\<rparr>) \<and>
    keeps_readers R (cs_store c) g"
proof (cases rule: lock_in_memory_cases [OF client_invD(1) [OF c] i, of key])
  case (1 q s)
  with r have e: "p = Some q" "g = put_key_slot q (add_reader s) (cs_store c)" by auto
  from 1 have h: "store_abs (cs_store c) q = Some s" "slot_state s = PSA_SLOT_FULL"
    by (auto simp: holds_key_def)
  note l = lock_found [OF client_invD(1) [OF c] h 1(3)]
  have "client_inv (c\<lparr>cs_store := g, cs_readers := cs_readers c + {#q#}, cs_creators := cs_creators c\<rparr>)"
    using client_invD(2) [OF c, of q] h 1(3) i l unfolding e
    by (intro client_inv_update [OF c _ _ l(2)]) (auto simp: slot_simps)
  moreover have "keeps_readers R (cs_store c) g"
    unfolding e by (rule keeps_readers_update [OF l(2)]) (use h in auto)
  ultimately show ?thesis by (simp add: e)
qed (use r c in \<open>auto intro!: keeps_readers_same\<close>)

lemma step_unlock:
  assumes c: "client_inv c" and q: "q \<in># cs_readers c"
    and r: "psa_unregister_read_under_mutex (Some q) (cs_store c) = (st, g)"
  shows "client_inv (c\<lparr>cs_store := g, cs_readers := cs_readers c - {#q#}\<rparr>) \<and> st = PSA_SUCCESS \<and>
    keeps_readers (cs_readers c - {#q#}) (cs_store c) g"
proof -
  from c q obtain s where s: "store_abs (cs_store c) q = Some s"
    "registered_readers s = count (cs_readers c) q"
    "slot_state s = PSA_SLOT_FULL \<or> slot_state s = PSA_SLOT_PENDING_DELETION" "q \<notin> cs_creators c"
    by (rule client_inv_reader)
  have i: "key_slots_initialized (cs_store c)" using client_inv_initialized [OF c] q by blast
  have pos: "0 < count (cs_readers c) q" using q by simp
  have upd: "client_inv (c\<lparr>cs_store := g, cs_readers := cs_readers c - {#q#}, cs_creators := cs_creators c\<rparr>)"
    if "store_ok g" "key_slots_initialized g" "store_abs g = (store_abs (cs_store c))(q := v)"
      "slot_owners_ok (count (cs_readers c) q - 1) (q \<in> cs_creators c) v" for v
    using that by (intro client_inv_update [OF c that(1-3)]) auto
  show ?thesis
  proof (cases rule: unregister_read_cases [OF client_invD(1) [OF c] s(1)])
    case 1 then show ?thesis using s pos by auto
  next
    case (2 g')
    with r have "g = g'" "st = PSA_SUCCESS" by (auto simp: psa_unregister_read_under_mutex_def)
    moreover have "keeps_readers (cs_readers c - {#q#}) (cs_store c) g'"
      using 2 s by (intro keeps_readers_update [OF 2(3)]) (auto simp: in_diff_count)
    ultimately show ?thesis using 2 s i upd [of None] by simp
  next
    case 3
    with r have e: "g = put_key_slot q (drop_reader s) (cs_store c)" "st = PSA_SUCCESS"
      by (auto simp: psa_unregister_read_under_mutex_def)
    have "slot_owners_ok (count (cs_readers c) q - 1) (q \<in> cs_creators c) (Some (drop_reader s))"
      using s 3(4,5) by (auto simp: slot_simps simp del: count_greater_zero_iff)
    moreover have "keeps_readers (cs_readers c - {#q#}) (cs_store c) g"
      unfolding e by (rule keeps_readers_update [OF 3(3)]) (use s in auto)
    ultimately show ?thesis using upd [of "Some (drop_reader s)"] 3 i by (simp add: e slot_simps)
  qed
qed

lemma step_reserve:
  assumes c: "client_inv c" and r: "psa_reserve_free_key_slot v (cs_store c) = (st, kid, p, g)"
  shows "client_inv (c\<lparr>cs_store := g, cs_creators := cs_creators c \<union> set_option p\<rparr>) \<and>
    keeps_readers (cs_readers c) (cs_store c) g \<and> st \<noteq> PSA_ERROR_CORRUPTION_DETECTED"
proof -
  note g = client_invD(1) [OF c]
  have upd: "client_inv (c\<lparr>cs_store := g, cs_readers := cs_readers c, cs_creators := cs_creators c \<union> {q}\<rparr>) \<and>
      keeps_readers (cs_readers c) (cs_store c) g"
    if "store_ok g" "key_slots_initialized g" "store_abs g = (store_abs (cs_store c))(q \<mapsto> filling_slot k)"
      "count (cs_readers c) q = 0" for q k
    using that by (intro conjI client_inv_update [OF c that(1-3)] keeps_readers_update [OF that(3)])
      (auto simp: filling_slot_def count_eq_zero_iff)
  show ?thesis
  proof (cases "key_slots_initialized (cs_store c)")
    case False
    with r c show ?thesis by (auto simp: psa_reserve_free_key_slot_def keeps_readers_same)
  next
    case i: True
    show ?thesis
    proof (cases v)
      case True
      with r i have r: "psa_allocate_volatile_key_slot (cs_store c) = (st, kid, p, g)"
        by (simp add: psa_reserve_free_key_slot_def)
      show ?thesis
      proof (cases rule: allocate_cases [OF g])
        case (3 k j g1 S)
        note t = take_free_slot_correct [OF 3(2,5,6,7,8)]
        have "count (cs_readers c) (k, j) = 0"
          using client_invD(2) [OF c, of "(k, j)"] t(6) 3(3) by simp
        with r t 3 i upd [of "(k, j)" k] show ?thesis by (auto simp: take_free_slot_def Let_def)
      qed (use r c i in \<open>auto intro!: client_inv_same keeps_readers_same simp: slot_simps client_invD\<close>)
    next
      case False
      with r have r: "psa_reserve_free_key_slot False (cs_store c) = (st, kid, p, g)" by simp
      show ?thesis
      proof (cases rule: reserve_cache_cases [OF g i])
        case (1 j g')
        let ?q = "(KEY_SLOT_CACHE_SLICE_INDEX, j)"
        have "count (cs_readers c) ?q = 0"
          using client_invD(2) [OF c, of ?q] 1(6)
          by (cases "store_abs (cs_store c) ?q") (auto simp: evictable_def)
        with r 1 upd [of ?q KEY_SLOT_CACHE_SLICE_INDEX] show ?thesis by auto
      qed (use r c in \<open>auto intro!: keeps_readers_same\<close>)
    qed
  qed
qed

text \<open>A slot owned by a creation.\<close>

lemma step_creator_update:
  assumes c: "client_inv c" and q: "q \<in> cs_creators c"
    and s': "slot_state s' = PSA_SLOT_FILLING \<and> C = cs_creators c \<or>
       slot_state s' = PSA_SLOT_FULL \<and> C = cs_creators c - {q}"
    and same: "slot_slice_index s' = slot_slice_index (get_key_slot (cs_store c) q)"
      "slot_var s' = slot_var (get_key_slot (cs_store c) q)"
  shows "client_inv (c\<lparr>cs_store := put_key_slot q s' (cs_store c), cs_creators := C\<rparr>) \<and>
    keeps_readers (cs_readers c) (cs_store c) (put_key_slot q s' (cs_store c))"
proof -
  from c q obtain s where s: "store_abs (cs_store c) q = Some s" "slot_state s = PSA_SLOT_FILLING"
    "q \<notin># cs_readers c" by (rule client_inv_creator)
  note sD = store_abs_SomeD [OF s(1)]
  note g = client_invD(1) [OF c]
  have i: "key_slots_initialized (cs_store c)" using client_inv_initialized [OF c] q by blast
  have ok: "slot_ok (fst q) s" using slot_ok_get [OF g sD(1)] sD(2) by simp
  then have v: "slot_var s = 0" "slot_slice_index s = word_of_nat (fst q)" using s by (auto simp: slot_ok_def)
  have ok': "slot_ok (fst q) s'" using s' same v sD(2) by (auto simp: slot_ok_def)
  have st: "store_ok (put_key_slot q s' (cs_store c))"
    using ok' s' s sD by (intro store_ok_put g) auto
  have ab: "store_abs (put_key_slot q s' (cs_store c)) = (store_abs (cs_store c))(q \<mapsto> s')"
    using sD s' by (auto simp: slot_simps)
  have "client_inv (c\<lparr>cs_store := put_key_slot q s' (cs_store c), cs_readers := cs_readers c, cs_creators := C\<rparr>)"
  proof (rule client_inv_update [OF c st _ ab])
    show "key_slots_initialized (put_key_slot q s' (cs_store c))" using i by (simp add: slot_simps)
    show "count (cs_readers c) r' = count (cs_readers c) r' \<and> (r' \<in> C) = (r' \<in> cs_creators c)"
      if "r' \<noteq> q" for r' using s' that by auto
    show "slot_owners_ok (count (cs_readers c) q) (q \<in> C) (Some s')"
      using s' s(3) v(1) same(2) sD(2) q by (auto simp: registered_readers_def not_in_iff)
  qed
  moreover have "keeps_readers (cs_readers c) (cs_store c) (put_key_slot q s' (cs_store c))"
    by (rule keeps_readers_update [OF ab]) (use s(3) in auto)
  ultimately show ?thesis by simp
qed

lemma step_fill:
  assumes "client_inv c" "q \<in> cs_creators c"
  shows "client_inv (c\<lparr>cs_store :=
           put_key_slot q (fill_slot a d n (get_key_slot (cs_store c) q)) (cs_store c)\<rparr>) \<and>
    keeps_readers (cs_readers c) (cs_store c)
      (put_key_slot q (fill_slot a d n (get_key_slot (cs_store c) q)) (cs_store c))"
proof -
  from assms obtain s where "store_abs (cs_store c) q = Some s" "slot_state s = PSA_SLOT_FILLING"
    by (rule client_inv_creator)
  then have "slot_state (get_key_slot (cs_store c) q) = PSA_SLOT_FILLING" by (auto dest: store_abs_SomeD)
  then show ?thesis
    using step_creator_update [OF assms, of "fill_slot a d n (get_key_slot (cs_store c) q)" "cs_creators c"]
    by (simp add: fill_slot_def)
qed

lemma step_publish:
  assumes c: "client_inv c" "q \<in> cs_creators c"
    and r: "transition_slot q PSA_SLOT_FILLING PSA_SLOT_FULL (cs_store c) = (st, g)"
  shows "client_inv (c\<lparr>cs_store := g, cs_creators := cs_creators c - {q}\<rparr>) \<and> st = PSA_SUCCESS \<and>
    keeps_readers (cs_readers c) (cs_store c) g"
proof -
  from c obtain s where "store_abs (cs_store c) q = Some s" "slot_state s = PSA_SLOT_FILLING"
    by (rule client_inv_creator)
  then have "get_key_slot (cs_store c) q = s" "slot_state s = PSA_SLOT_FILLING"
    by (auto dest: store_abs_SomeD)
  then have "g = put_key_slot q (s\<lparr>slot_state := PSA_SLOT_FULL\<rparr>) (cs_store c)" "st = PSA_SUCCESS"
    using r by (auto simp: transition_slot_def psa_key_slot_state_transition_def)
  then show ?thesis
    using step_creator_update [OF c, of "s\<lparr>slot_state := PSA_SLOT_FULL\<rparr>" "cs_creators c - {q}"]
      \<open>get_key_slot (cs_store c) q = s\<close> by simp
qed

lemma step_abandon:
  assumes c: "client_inv c" and q: "q \<in> cs_creators c" and r: "psa_wipe_key_slot q (cs_store c) = (st, g)"
  shows "client_inv (c\<lparr>cs_store := g, cs_creators := cs_creators c - {q}\<rparr>) \<and> st = PSA_SUCCESS \<and>
    keeps_readers (cs_readers c) (cs_store c) g"
proof -
  from c q obtain s where s: "store_abs (cs_store c) q = Some s" "slot_state s = PSA_SLOT_FILLING"
    "q \<notin># cs_readers c" by (rule client_inv_creator)
  note g = client_invD(1) [OF c]
  have i: "key_slots_initialized (cs_store c)" using client_inv_initialized [OF c] q by blast
  have "slot_ok (fst q) s" using slot_ok_get [OF g] store_abs_SomeD [OF s(1)] by metis
  then have "wipeable s" using s(2) by (simp add: slot_ok_def wipeable_def registered_readers_def)
  then obtain g' where w: "psa_wipe_key_slot q (cs_store c) = (PSA_SUCCESS, g')" "store_ok g'"
    "store_abs g' = (store_abs (cs_store c))(q := None)"
    "key_slots_initialized g' = key_slots_initialized (cs_store c)"
    using wipe_refines [OF g s(1)] by metis
  have "client_inv (c\<lparr>cs_store := g', cs_readers := cs_readers c, cs_creators := cs_creators c - {q}\<rparr>)"
    using w i s by (intro client_inv_update [OF c w(2) _ w(3)]) (auto simp: not_in_iff)
  moreover have "keeps_readers (cs_readers c) (cs_store c) g'"
    by (rule keeps_readers_update [OF w(3)]) (use s(3) in auto)
  ultimately show ?thesis using w r by simp
qed

lemma step_mark:
  assumes c: "client_inv c" and q: "q \<in># cs_readers c"
    and f: "slot_state (get_key_slot (cs_store c) q) = PSA_SLOT_FULL"
    and r: "transition_slot q PSA_SLOT_FULL PSA_SLOT_PENDING_DELETION (cs_store c) = (st, g)"
  shows "client_inv (c\<lparr>cs_store := g\<rparr>) \<and> st = PSA_SUCCESS \<and> keeps_readers R (cs_store c) g"
proof -
  from c q obtain s where s: "store_abs (cs_store c) q = Some s"
    "registered_readers s = count (cs_readers c) q" "q \<notin> cs_creators c" by (rule client_inv_reader)
  have i: "key_slots_initialized (cs_store c)" using client_inv_initialized [OF c] q by blast
  have pos: "0 < count (cs_readers c) q" using q by simp
  let ?s = "s\<lparr>slot_state := PSA_SLOT_PENDING_DELETION\<rparr>"
  have g: "get_key_slot (cs_store c) q = s" using store_abs_SomeD [OF s(1)] by simp
  have e: "g = put_key_slot q ?s (cs_store c)" "st = PSA_SUCCESS"
    using r f g by (auto simp: transition_slot_def psa_key_slot_state_transition_def)
  note p = store_ok_put_occupied [OF client_invD(1) [OF c] s(1), of ?s, simplified]
  have "client_inv (c\<lparr>cs_store := g, cs_readers := cs_readers c, cs_creators := cs_creators c\<rparr>)"
    using s i pos e p(1) by (intro client_inv_update [OF c _ _ p(2) [folded e]])
      (auto simp: slot_simps registered_readers_def simp del: count_greater_zero_iff)
  moreover have "keeps_readers R (cs_store c) g"
    by (rule keeps_readers_update [OF p(2) [folded e]]) (use s in auto)
  ultimately show ?thesis by (simp add: e)
qed

lemma step_purge:
  assumes c: "client_inv c" and i: "key_slots_initialized (cs_store c)"
    and r: "psa_purge_key key (cs_store c) = (st, g)"
  shows "client_inv (c\<lparr>cs_store := g\<rparr>) \<and> keeps_readers (cs_readers c) (cs_store c) g \<and>
    (st = PSA_ERROR_CORRUPTION_DETECTED \<longrightarrow>
       (\<exists>q s. holds_key (cs_store c) key q s \<and> registered_readers s = SIZE_MAX))"
proof (cases rule: lock_in_memory_cases [OF client_invD(1) [OF c] i, of key])
  case (1 q s)
  let ?g = "put_key_slot q (add_reader s) (cs_store c)"
  from 1 have h: "store_abs (cs_store c) q = Some s" "slot_state s = PSA_SLOT_FULL"
    by (auto simp: holds_key_def)
  note l = lock_found [OF client_invD(1) [OF c] h 1(3)]
  let ?c = "c\<lparr>cs_store := ?g, cs_readers := cs_readers c + {#q#}\<rparr>"
  have lk: "client_inv ?c" "keeps_readers (cs_readers c) (cs_store c) ?g"
    using step_lock [OF c i 1(1), of "cs_readers c"] by simp_all
  have get: "get_key_slot ?g q = add_reader s" using store_abs_SomeD [OF h(1)] by (simp add: slot_simps)
  show ?thesis
  proof (cases "\<not> PSA_KEY_LIFETIME_IS_VOLATILE (attr_lifetime (slot_attr s)) \<and> registered_readers (add_reader s) = 1")
    case True
    then have w: "wipeable (add_reader s)" using h by (simp add: wipeable_def slot_simps)
    have cnt: "count (cs_readers c) q = 0" "q \<notin> cs_creators c"
      using True 1(3) client_invD(2) [OF c, of q] h by (simp_all add: slot_simps)
    from True have "psa_purge_key key (cs_store c) = psa_wipe_key_slot q ?g"
      by (simp add: psa_purge_key_def 1(1) get slot_simps)
    moreover have lq: "store_abs ?g q = Some (add_reader s)" using l(2) by simp
    moreover obtain g' where g': "psa_wipe_key_slot q ?g = (PSA_SUCCESS, g')" "store_ok g'"
      "store_abs g' = (store_abs ?g)(q := None)" "key_slots_initialized g' = key_slots_initialized ?g"
      using wipe_refines [OF l(1) lq w] by metis
    ultimately have e: "g = g'" "st = PSA_SUCCESS" using r by simp_all
    have ab: "store_abs g' = (store_abs (cs_store c))(q := None)" using g'(3) l(2) by simp
    have "client_inv (c\<lparr>cs_store := g', cs_readers := cs_readers c, cs_creators := cs_creators c\<rparr>)"
      using g' i cnt by (intro client_inv_update [OF c g'(2) _ ab]) (auto simp: slot_simps)
    moreover have "keeps_readers (cs_readers c) (cs_store c) g'"
      by (rule keeps_readers_update [OF ab]) (use cnt in \<open>auto simp: count_eq_zero_iff\<close>)
    ultimately show ?thesis by (simp add: e)
  next
    case False
    then have "psa_unregister_read_under_mutex (Some q) (cs_store ?c) = (st, g)"
      using r by (auto simp: psa_purge_key_def 1(1) get slot_simps psa_unregister_read_under_mutex_def)
    from step_unlock [OF lk(1) _ this] have "client_inv (c\<lparr>cs_store := g\<rparr>)"
      "keeps_readers (cs_readers c) ?g g" "st = PSA_SUCCESS" by simp_all
    with keeps_readers_trans [OF lk(2)] show ?thesis by simp
  qed
qed (use r c in \<open>auto simp: psa_purge_key_def intro!: keeps_readers_same\<close>)

text \<open>The registrations that a step neither adds nor drops.\<close>

definition kept_readers :: "client_event \<Rightarrow> client_state \<Rightarrow> slot_ref multiset" where
  "kept_readers e c = (case e of Unlock r \<Rightarrow> cs_readers c - {#r#} | _ \<Rightarrow> cs_readers c)"

lemma client_step_preserves:
  assumes "client_inv c" "client_step c e st c'"
  shows "client_inv c' \<and> keeps_readers (kept_readers e c) (cs_store c) (cs_store c')"
  using assms(2)
proof cases
  case initialize
  then show ?thesis using step_initialize [OF assms(1)] by (simp add: kept_readers_def)
next
  case lock
  then show ?thesis using step_lock [OF assms(1)] by (simp add: kept_readers_def)
next
  case unlock
  then show ?thesis using step_unlock [OF assms(1)] by (simp add: kept_readers_def)
next
  case reserve
  then show ?thesis using step_reserve [OF assms(1)] by (simp add: kept_readers_def)
next
  case fill
  then show ?thesis using step_fill [OF assms(1)] by (simp add: kept_readers_def)
next
  case publish
  then show ?thesis using step_publish [OF assms(1)] by (simp add: kept_readers_def)
next
  case abandon
  then show ?thesis using step_abandon [OF assms(1)] by (simp add: kept_readers_def)
next
  case mark
  then show ?thesis using step_mark [OF assms(1)] by (simp add: kept_readers_def)
next
  case purge
  then show ?thesis using step_purge [OF assms(1)] by (simp add: kept_readers_def)
qed

lemma client_inv_init: "client_inv (client_init outcomes)"
  unfolding client_inv_def client_init_def
  by (simp add: store_ok_zero store_abs_zero) (simp add: psa_global_data_zero_def)

lemma reachable_inv: "client_reachable c \<Longrightarrow> client_inv c"
  by (induction rule: client_reachable.induct)
    (auto simp: client_inv_init dest: client_step_preserves)

section \<open>A concrete run\<close>

text \<open>
  A client initialises the store, reserves a volatile slot, fills and publishes it, looks the key
  up and marks it for deletion. The states of this run instantiate the properties below.
\<close>

definition demo_slot :: "psa_key_slot_state \<Rightarrow> u64 \<Rightarrow> psa_key_slot" where
  "demo_slot st n = \<lparr>slot_attr = PSA_KEY_ATTRIBUTES_INIT\<lparr>attr_id := 0x40000000\<rparr>, slot_state = st,
     slot_slice_index = 0, slot_var = n, slot_key_data = Some [0x2a], slot_key_bytes = 1\<rparr>"

definition demo_store :: "psa_key_slot \<Rightarrow> psa_global_data" where
  "demo_store s = \<lparr>key_slices =
      (replicate KEY_SLICE_COUNT None)[KEY_SLOT_CACHE_SLICE_INDEX := Some (replicate 32 psa_key_slot_zero),
         0 := Some ((replicate 16 psa_key_slot_zero)[0 := s])],
     first_free_slot_index = (replicate KEY_SLOT_VOLATILE_SLICE_COUNT 0)[0 := 1],
     key_slots_initialized = True, calloc_outcomes = []\<rparr>"

definition demo_client :: "psa_key_slot \<Rightarrow> bool \<Rightarrow> nat \<Rightarrow> client_state" where
  "demo_client s cr n = \<lparr>cs_store = demo_store s, cs_readers = replicate_mset n (0, 0),
     cs_creators = (if cr then {(0, 0)} else {})\<rparr>"

definition demo_client0 :: client_state where
  "demo_client0 = \<lparr>cs_store = snd (psa_initialize_key_slots (psa_global_data_zero [])),
     cs_readers = {#}, cs_creators = {}\<rparr>"

lemma demo_get: "get_key_slot (demo_store s) (0, 0) = s"
  by (simp add: get_key_slot_def demo_store_def)

lemma demo_put: "put_key_slot (0, 0) s' (demo_store s) = demo_store s'"
  by (simp add: put_key_slot_def demo_store_def)

lemma demo_step0: "client_step (client_init []) Initialize PSA_SUCCESS demo_client0"
  using client_step.initialize [of "client_init []" PSA_SUCCESS "snd (psa_initialize_key_slots (psa_global_data_zero []))"]
  by (simp add: client_init_def demo_client0_def psa_global_data_zero_def psa_initialize_key_slots_def)

definition demo_initialized :: "psa_key_slot list option \<Rightarrow> psa_global_data" where
  "demo_initialized p = \<lparr>key_slices =
      (replicate KEY_SLICE_COUNT None)[KEY_SLOT_CACHE_SLICE_INDEX := Some (replicate 32 psa_key_slot_zero), 0 := p],
     first_free_slot_index = replicate KEY_SLOT_VOLATILE_SLICE_COUNT 0,
     key_slots_initialized = True, calloc_outcomes = []\<rparr>"

lemma demo_init: "psa_initialize_key_slots (psa_global_data_zero []) = (PSA_SUCCESS, demo_initialized None)"
proof -
  have "(replicate KEY_SLICE_COUNT None)[22 := Some (replicate 32 psa_key_slot_zero), 0 := None] =
    (replicate KEY_SLICE_COUNT None)[22 := Some (replicate 32 psa_key_slot_zero)]"
    by (metis (no_types, lifting) list_update_id nth_list_update_neq nth_replicate zero_less_numeral zero_neq_numeral)
  then show ?thesis
    by (simp add: psa_initialize_key_slots_def psa_global_data_zero_def demo_initialized_def)
qed

lemma demo_allocate:
  "allocate_from_slice 0 (demo_initialized (Some (replicate 16 psa_key_slot_zero))) =
     (PSA_SUCCESS, Some 0x40000000, Some (0, 0), demo_store (filling_slot 0))"
proof -
  have k: "volatile_key_id_of_index 0 0 = 0x40000000" by (simp add: volatile_key_id_of_index_def)
  have n: "next_free_index psa_key_slot_zero 0 = 1" by (simp add: next_free_index_zero_slot)
  have z: "set_next_free_relative_to_next 0 psa_key_slot_zero = psa_key_slot_zero"
    by (simp add: set_next_free_relative_to_next_def psa_key_slot_zero_def)
  have e: "slot_state psa_key_slot_zero = PSA_SLOT_EMPTY" by (simp add: psa_key_slot_zero_def)
  have f: "first_free_slot_index (demo_initialized p) ! 0 = 0" for p
    by (simp add: demo_initialized_def)
  have g: "get_key_slot (demo_initialized (Some (replicate 16 psa_key_slot_zero))) (0, 0) = psa_key_slot_zero"
    by (simp add: demo_initialized_def get_key_slot_def)
  show ?thesis
    unfolding allocate_from_slice_def Let_def f g n z k
    by (simp add: psa_key_slot_state_transition_def e key_slice_length_def filling_slot_def
        put_key_slot_def demo_initialized_def demo_store_def)
qed

lemma demo_reserve:
  "psa_reserve_free_key_slot True (demo_initialized None) =
     (PSA_SUCCESS, Some 0x40000000, Some (0, 0), demo_store (filling_slot 0))"
proof -
  have f: "find_free_slice (first_free_slot_index (demo_initialized None)) 0 = 0"
  proof -
    have "replicate 22 (0::nat) = 0 # replicate 21 0" by (simp add: numeral_eq_Suc)
    then show ?thesis by (simp add: demo_initialized_def FREE_SLOT_INDEX_NONE_def SIZE_MAX_def)
  qed
  have a: "key_slices (demo_initialized None) ! 0 = None" "calloc_outcomes (demo_initialized p) = []"
     "key_slots_initialized (demo_initialized p)"
     "(demo_initialized None)\<lparr>calloc_outcomes := []\<rparr> = demo_initialized None"
     "(demo_initialized None)\<lparr>key_slices := (key_slices (demo_initialized None))[0 := p]\<rparr> = demo_initialized p" for p
    by (simp_all add: demo_initialized_def)
  have "psa_allocate_volatile_key_slot (demo_initialized None) =
      allocate_from_slice 0 (demo_initialized (Some (replicate 16 psa_key_slot_zero)))"
    unfolding psa_allocate_volatile_key_slot_def Let_def f a(1,2)
    by (simp add: a key_slice_length_def)
  then show ?thesis by (simp add: psa_reserve_free_key_slot_def a(3) demo_allocate)
qed

lemma demo_step1: "client_step demo_client0 (Reserve True) PSA_SUCCESS (demo_client (filling_slot 0) True 0)"
  using client_step.reserve [of True demo_client0] demo_reserve
  by (simp add: demo_client0_def demo_client_def demo_init)

lemma demo_step2: "client_step (demo_client (filling_slot 0) True 0)
   (Fill (0, 0) (PSA_KEY_ATTRIBUTES_INIT\<lparr>attr_id := 0x40000000\<rparr>) (Some [0x2a]) 1) PSA_SUCCESS
   (demo_client (demo_slot PSA_SLOT_FILLING 0) True 0)"
  using client_step.fill [of "(0, 0)" "demo_client (filling_slot 0) True 0"
      "PSA_KEY_ATTRIBUTES_INIT\<lparr>attr_id := 0x40000000\<rparr>" "Some [0x2a]" 1]
  by (simp add: demo_client_def demo_get demo_put fill_slot_def filling_slot_def demo_slot_def psa_key_slot_zero_def)

lemma demo_step3: "client_step (demo_client (demo_slot PSA_SLOT_FILLING 0) True 0) (Publish (0, 0)) PSA_SUCCESS
   (demo_client (demo_slot PSA_SLOT_FULL 0) False 0)"
  using client_step.publish [of "(0, 0)" "demo_client (demo_slot PSA_SLOT_FILLING 0) True 0" PSA_SUCCESS
     "demo_store (demo_slot PSA_SLOT_FULL 0)"]
  by (simp add: demo_client_def demo_get demo_put transition_slot_def psa_key_slot_state_transition_def demo_slot_def)

lemma demo_lookup: "psa_get_and_lock_key_slot_in_memory 0x40000000 (demo_store (demo_slot PSA_SLOT_FULL 0)) =
   (PSA_SUCCESS, Some (0, 0), demo_store (demo_slot PSA_SLOT_FULL 1))"
proof -
  have v: "get_volatile_key_slot (demo_store (demo_slot PSA_SLOT_FULL 0)) 0x40000000 = Some (0, 0)"
  proof -
    have "volatile_key_id_of_index 0 0 = 0x40000000" by (simp add: volatile_key_id_of_index_def)
    then show ?thesis
      using volatile_key_id_fields(2,3) [of 0 0]
      by (simp add: get_volatile_key_slot_def key_slice_length_def demo_store_def)
  qed
  have r: "psa_register_read (demo_slot PSA_SLOT_FULL 0) = (PSA_SUCCESS, demo_slot PSA_SLOT_FULL 1)"
    by (simp add: demo_slot_def psa_register_read_def registered_readers_def
       set_registered_readers_def SIZE_MAX_def)
  have d: "slot_state (demo_slot PSA_SLOT_FULL 0) = PSA_SLOT_FULL"
    "attr_id (slot_attr (demo_slot PSA_SLOT_FULL 0)) = 0x40000000" by (simp_all add: demo_slot_def)
  show ?thesis
    by (simp add: psa_get_and_lock_key_slot_in_memory_def v demo_get demo_put r d psa_key_id_is_volatile_def)
qed

lemma demo_step4: "client_step (demo_client (demo_slot PSA_SLOT_FULL 0) False 0) (Lock 0x40000000) PSA_SUCCESS
   (demo_client (demo_slot PSA_SLOT_FULL 1) False 1)"
  using client_step.lock [of "demo_client (demo_slot PSA_SLOT_FULL 0) False 0" "0x40000000" PSA_SUCCESS "Some (0, 0)"
      "demo_store (demo_slot PSA_SLOT_FULL 1)"] demo_lookup
  by (simp add: demo_client_def) (simp add: demo_store_def)

lemma demo_step5: "client_step (demo_client (demo_slot PSA_SLOT_FULL 1) False 1) (MarkForDeletion (0, 0)) PSA_SUCCESS
   (demo_client (demo_slot PSA_SLOT_PENDING_DELETION 1) False 1)"
  using client_step.mark [of "(0, 0)" "demo_client (demo_slot PSA_SLOT_FULL 1) False 1" PSA_SUCCESS
     "demo_store (demo_slot PSA_SLOT_PENDING_DELETION 1)"]
  by (simp add: demo_client_def demo_get demo_put transition_slot_def psa_key_slot_state_transition_def demo_slot_def)

lemma demo_reachable: "client_reachable (demo_client (demo_slot PSA_SLOT_FULL 1) False 1)"
  by (rule client_reachable.step [OF _ demo_step4], rule client_reachable.step [OF _ demo_step3],
      rule client_reachable.step [OF _ demo_step2], rule client_reachable.step [OF _ demo_step1],
      rule client_reachable.step [OF _ demo_step0], rule client_reachable.start)

lemma demo_reachable_pending: "client_reachable (demo_client (demo_slot PSA_SLOT_PENDING_DELETION 1) False 1)"
  by (rule client_reachable.step [OF demo_reachable demo_step5])

section \<open>Properties\<close>

text \<open>C5: Between any two atomic operations of any interleaving, the reader count of every occupied slot
  is exactly the number of read registrations held on it, a slot being filled belongs to one creation
  and is not readable, a slot marked for deletion still has a reader, and the free list of every
  volatile slice holds exactly its empty slots.\<close>

theorem key_store_invariant:
  "client_reachable c \<Longrightarrow> client_inv c"
  by (rule reachable_inv)

lemma key_store_invariant_witness: "client_inv (demo_client (demo_slot PSA_SLOT_FULL 1) False 1)"
  by (rule key_store_invariant [OF demo_reachable])

text \<open>C1: A client that has locked a key slot and does not unlock it in this step finds the slot after the
  step, whatever any other client did (destroy, purge, eviction from the cache, creation): still readable
  and with the same attributes and key material.\<close>

theorem locked_slot_stable:
  assumes "client_reachable c" "client_step c e st c'" "r \<in># kept_readers e c"
  shows "\<exists>s s'. store_abs (cs_store c) r = Some s \<and> store_abs (cs_store c') r = Some s' \<and>
    same_material s s' \<and>
    (slot_state s' = PSA_SLOT_FULL \<or> slot_state s' = PSA_SLOT_PENDING_DELETION)"
proof -
  note inv = reachable_inv [OF assms(1)]
  note p = client_step_preserves [OF inv assms(2)]
  have "r \<in># cs_readers c" using assms(3) by (auto simp: kept_readers_def split: client_event.splits dest: in_diffD)
  then obtain s where s: "store_abs (cs_store c) r = Some s" using client_inv_reader [OF inv] by metis
  then obtain s' where s': "store_abs (cs_store c') r = Some s'" "same_material s s'"
    using p assms(3) unfolding keeps_readers_def by blast
  have "r \<in># cs_readers c'"
    using assms(2,3) by (cases rule: client_step.cases) (auto simp: kept_readers_def)
  then show ?thesis
    using s s' client_inv_reader [OF conjunct1 [OF p]] by (metis option.inject)
qed

lemma locked_slot_stable_witness:
  "\<exists>s s'. store_abs (cs_store (demo_client (demo_slot PSA_SLOT_FULL 1) False 1)) (0, 0) = Some s \<and>
    store_abs (cs_store (demo_client (demo_slot PSA_SLOT_PENDING_DELETION 1) False 1)) (0, 0) = Some s' \<and>
    same_material s s' \<and> (slot_state s' = PSA_SLOT_FULL \<or> slot_state s' = PSA_SLOT_PENDING_DELETION)"
  by (rule locked_slot_stable [OF demo_reachable demo_step5]) (simp add: kept_readers_def demo_client_def)

text \<open>As long as fewer than SIZE_MAX read registrations are held in all, no atomic operation of an
  interleaving reports corruption.\<close>

theorem no_corruption_detected:
  assumes "client_reachable c" "client_step c e st c'" "size (cs_readers c) < SIZE_MAX"
  shows "st \<noteq> PSA_ERROR_CORRUPTION_DETECTED"
proof
  assume st: "st = PSA_ERROR_CORRUPTION_DETECTED"
  note inv = reachable_inv [OF assms(1)]
  have no: "registered_readers s < SIZE_MAX" if "holds_key (cs_store c) key r s" for key r s
    using that client_invD(2) [OF inv, of r] assms(3) count_le_size [of "cs_readers c" r]
    by (auto simp: holds_key_def)
  from assms(2) show False
  proof cases
    case initialize with step_initialize [OF inv] st show ?thesis by blast
  next
    case (lock key p g)
    show ?thesis
      by (cases rule: lock_in_memory_cases [OF client_invD(1) [OF inv] lock(3), of key])
        (use lock st in \<open>auto dest: no\<close>)
  next
    case unlock with step_unlock [OF inv] st show ?thesis by blast
  next
    case reserve with step_reserve [OF inv] st show ?thesis by blast
  next
    case publish with step_publish [OF inv] st show ?thesis by blast
  next
    case abandon with step_abandon [OF inv] st show ?thesis by blast
  next
    case mark with step_mark [OF inv] st show ?thesis by blast
  next
    case (purge key g)
    from step_purge [OF inv purge(3,4)] st no show ?thesis by (metis less_irrefl)
  qed (use st in simp)
qed

lemma no_corruption_detected_witness:
  "size (cs_readers (demo_client (demo_slot PSA_SLOT_FULL 1) False 1)) < SIZE_MAX \<and>
   PSA_SUCCESS \<noteq> PSA_ERROR_CORRUPTION_DETECTED"
proof -
  have "size (cs_readers (demo_client (demo_slot PSA_SLOT_FULL 1) False 1)) < SIZE_MAX"
    by (simp add: demo_client_def SIZE_MAX_def)
  with no_corruption_detected [OF demo_reachable demo_step5] show ?thesis by blast
qed

end
