(* ===== verification/Slot_Contracts.thy ===== *)
theory Slot_Contracts
  imports Slot_Readers
begin

text \<open>
  The contracts of the key store operations, stated over the abstract store: what each operation
  returns and how it changes the occupied slots, on success and on every error. The concrete
  stores of the run in Slot_Readers instantiate them.
\<close>

lemma demo_store_ok: "store_ok (demo_store (demo_slot PSA_SLOT_FULL 1))"
  using client_invD(1) [OF reachable_inv [OF demo_reachable]] by (simp add: demo_client_def)

lemma demo_store_abs: "store_abs (demo_store (demo_slot PSA_SLOT_FULL 1)) (0, 0) = Some (demo_slot PSA_SLOT_FULL 1)"
  by (simp add: store_abs_def demo_get valid_ref_def) (simp add: demo_store_def demo_slot_def)

section \<open>Properties\<close>

text \<open>C23: Allocating a volatile slot keeps the store well formed. On success it hands out a slot that was
  free, in the state FILLING with zeroed contents, leaves every other slot alone, and the key identifier
  it returns is volatile and leads back to exactly this slot. It fails only when every volatile slice is
  full or the allocation of a new slice fails, and then no slot changes.\<close>

theorem allocate_volatile_refines:
  assumes "store_ok g"
  shows "case psa_allocate_volatile_key_slot g of (st, kid, p, g') \<Rightarrow>
    store_ok g' \<and>
    (if st = PSA_SUCCESS
     then \<exists>r key. p = Some r \<and> kid = Some key \<and> store_abs g r = None \<and>
            store_abs g' = (store_abs g)(r \<mapsto> filling_slot (fst r)) \<and>
            psa_key_id_is_volatile key \<and> get_volatile_key_slot g' key = Some r
     else st = PSA_ERROR_INSUFFICIENT_MEMORY \<and> p = None \<and> store_abs g' = store_abs g \<and>
          (volatile_slots_full g \<or> next_calloc_fails g))"
proof (cases rule: allocate_cases [OF assms])
  case (3 i j g1 S)
  note t = take_free_slot_correct [OF 3(2,5,6,7,8)]
  have "length S \<le> 2 ^ 25"
    using store_okD(3) [OF 3(2) _ 3(6)] key_slice_length_le [of i] 3(5) by (simp add: slice_ok_def)
  with t(2) 3(5) have k: "slice_index_of_volatile_key_id (volatile_key_id_of_index i j) = i"
    "slot_index_of_volatile_key_id (volatile_key_id_of_index i j) = j"
    "psa_key_id_is_volatile (volatile_key_id_of_index i j)"
    by (simp_all add: volatile_key_id_fields)
  have "valid_ref (take_free_slot g1 i) (i, j)"
    by (rule store_abs_SomeD(1) [of _ _ "filling_slot i"]) (simp add: t(5))
  then show ?thesis
    using 3 t k by (auto simp: get_volatile_key_slot_valid [OF t(1)] Let_def)
qed (use assms in \<open>simp_all add: slot_simps\<close>)

lemma allocate_volatile_refines_witness:
  "fst (psa_allocate_volatile_key_slot (psa_global_data_zero [])) = PSA_SUCCESS \<and>
   (\<exists>r key. psa_key_id_is_volatile key \<and>
      get_volatile_key_slot (snd (snd (snd (psa_allocate_volatile_key_slot (psa_global_data_zero []))))) key = Some r)"
proof -
  have "\<not> volatile_slots_full (psa_global_data_zero [])" "\<not> next_calloc_fails (psa_global_data_zero [])"
    by (simp_all add: volatile_slots_full_def next_calloc_fails_def psa_global_data_zero_def
        FREE_SLOT_INDEX_NONE_def SIZE_MAX_def)
  with allocate_volatile_refines [OF store_ok_zero, of "[]"] show ?thesis
    by (auto split: prod.splits if_splits)
qed

text \<open>Wiping an occupied slot with the reader count its state requires succeeds, keeps the store well
  formed and empties exactly that slot; in a volatile slice the slot is the next one to be handed out.
  With another reader count the wipe reports corruption.\<close>

theorem wipe_key_slot_refines:
  assumes "store_ok g" "store_abs g r = Some s"
  shows "case psa_wipe_key_slot r g of (st, g') \<Rightarrow>
    store_abs g' = (store_abs g)(r := None) \<and>
    (if wipeable s
     then st = PSA_SUCCESS \<and> store_ok g' \<and>
          (fst r < KEY_SLOT_VOLATILE_SLICE_COUNT \<longrightarrow> first_free_slot_index g' ! fst r = snd r)
     else st = PSA_ERROR_CORRUPTION_DETECTED)"
proof (cases "wipeable s")
  case True
  obtain g' where "psa_wipe_key_slot r g = (PSA_SUCCESS, g')" "store_ok g'"
    "store_abs g' = (store_abs g)(r := None)"
    "fst r < KEY_SLOT_VOLATILE_SLICE_COUNT \<longrightarrow> first_free_slot_index g' ! fst r = snd r"
    by (rule wipe_refines [OF assms True])
  with True show ?thesis by simp
next
  case False
  note rD = store_abs_SomeD [OF assms(2)]
  have "store_abs (put_key_slot r psa_key_slot_zero g) = (store_abs g)(r := None)"
    using rD(1) by (simp add: slot_simps psa_key_slot_zero_def)
  with False show ?thesis by (simp add: wipe_status [OF rD(2)])
qed

lemma wipe_key_slot_refines_witness:
  "\<exists>g'. psa_wipe_key_slot (0, 0) (demo_store (demo_slot PSA_SLOT_FULL 1)) = (PSA_SUCCESS, g') \<and>
     store_ok g' \<and> store_abs g' (0, 0) = None \<and> first_free_slot_index g' ! 0 = 0"
proof -
  have "wipeable (demo_slot PSA_SLOT_FULL 1)"
    by (simp add: wipeable_def demo_slot_def registered_readers_def)
  with wipe_key_slot_refines [OF demo_store_ok demo_store_abs] show ?thesis
    by (auto split: prod.splits)
qed

text \<open>A lookup by key identifier finds a key exactly when the store holds it in a readable slot at
  the place for its identifier: the slot the identifier names for a volatile key, any cache slot for a
  user or built-in one. It then adds one reader to that slot and changes nothing else; otherwise the
  store is unchanged and the error says why.\<close>

theorem lookup_in_memory_correct:
  assumes "store_ok g" "key_slots_initialized g"
  shows "case psa_get_and_lock_key_slot_in_memory key g of (st, p, g') \<Rightarrow>
    store_ok g' \<and>
    (case p of
       Some r \<Rightarrow> st = PSA_SUCCESS \<and>
         (\<exists>s. holds_key g key r s \<and> registered_readers s < SIZE_MAX \<and>
              store_abs g' = (store_abs g)(r \<mapsto> set_registered_readers (registered_readers s + 1) s))
     | None \<Rightarrow> g' = g \<and>
         (st = PSA_ERROR_INVALID_HANDLE \<and>
            \<not> (psa_key_id_is_volatile key \<or> psa_key_id_is_user key \<or> psa_key_id_is_builtin key) \<or>
          st = PSA_ERROR_DOES_NOT_EXIST \<and> (\<forall>r s. \<not> holds_key g key r s) \<or>
          st = PSA_ERROR_CORRUPTION_DETECTED \<and>
            (\<exists>r s. holds_key g key r s \<and> registered_readers s = SIZE_MAX)))"
proof (cases rule: lock_in_memory_cases [OF assms, of key])
  case (1 r s)
  then show ?thesis
    using lock_found [OF assms(1), of r s] by (auto simp: holds_key_def add_reader_def)
qed (use assms in auto)

lemma lookup_in_memory_correct_witness:
  "\<exists>g'. psa_get_and_lock_key_slot_in_memory 0x40000000 (demo_store (demo_slot PSA_SLOT_FULL 1)) =
     (PSA_SUCCESS, Some (0, 0), g') \<and> store_ok g'"
proof -
  have k: "volatile_key_id_of_index 0 0 = 0x40000000" by (simp add: volatile_key_id_of_index_def)
  have v: "lookup_place 0x40000000 r \<longleftrightarrow> r = (0, 0)" for r
    using volatile_key_id_fields [of 0 0] unfolding k by (auto simp: lookup_place_def)
  have "holds_key (demo_store (demo_slot PSA_SLOT_FULL 1)) 0x40000000 (0, 0) (demo_slot PSA_SLOT_FULL 1)"
    using demo_store_abs by (simp add: holds_key_def v) (simp add: demo_slot_def)
  moreover have "registered_readers (demo_slot PSA_SLOT_FULL 1) \<noteq> SIZE_MAX"
    by (simp add: registered_readers_def demo_slot_def SIZE_MAX_def)
  moreover have "key_slots_initialized (demo_store (demo_slot PSA_SLOT_FULL 1))" by (simp add: demo_store_def)
  note lookup_in_memory_correct [OF demo_store_ok this, of "0x40000000"]
  moreover have "psa_key_id_is_volatile 0x40000000" using volatile_key_id_fields(4) [of 0 0] k by simp
  ultimately show ?thesis
    by (auto split: prod.splits option.splits simp: holds_key_def v demo_store_abs)
qed

text \<open>Reserving a cache slot succeeds unless every cache slot is occupied by something that must stay
  (a slot being filled or deleted, a slot with readers, a volatile key). It hands out a zeroed slot in the
  state FILLING and evicts at most the persistent, unread key that was in it.\<close>

theorem reserve_cache_slot_correct:
  assumes "store_ok g" "key_slots_initialized g"
  shows "case psa_reserve_free_key_slot False g of (st, _, p, g') \<Rightarrow>
    (case p of
       Some r \<Rightarrow> st = PSA_SUCCESS \<and> store_ok g' \<and> fst r = KEY_SLOT_CACHE_SLICE_INDEX \<and>
         (store_abs g r = None \<or> (\<exists>s. store_abs g r = Some s \<and> evictable s)) \<and>
         store_abs g' = (store_abs g)(r \<mapsto> filling_slot KEY_SLOT_CACHE_SLICE_INDEX)
     | None \<Rightarrow> st = PSA_ERROR_INSUFFICIENT_MEMORY \<and> g' = g \<and>
         (\<forall>j < PERSISTENT_KEY_CACHE_COUNT. \<exists>s.
            store_abs g (KEY_SLOT_CACHE_SLICE_INDEX, j) = Some s \<and> \<not> evictable s))"
proof (cases rule: reserve_cache_cases [OF assms])
  case (1 j g')
  then show ?thesis by (cases "store_abs g (KEY_SLOT_CACHE_SLICE_INDEX, j)") auto
qed auto

lemma reserve_cache_slot_correct_witness:
  "\<exists>kid j g'. psa_reserve_free_key_slot False (demo_store (demo_slot PSA_SLOT_FULL 1)) =
     (PSA_SUCCESS, kid, Some (KEY_SLOT_CACHE_SLICE_INDEX, j), g') \<and> store_ok g'"
proof -
  let ?g = "demo_store (demo_slot PSA_SLOT_FULL 1)"
  have "store_abs ?g (KEY_SLOT_CACHE_SLICE_INDEX, 0) = None"
    by (simp add: store_abs_def get_key_slot_def demo_store_def psa_key_slot_zero_def)
  then have "\<not> (\<forall>j < PERSISTENT_KEY_CACHE_COUNT. \<exists>s.
      store_abs ?g (KEY_SLOT_CACHE_SLICE_INDEX, j) = Some s \<and> \<not> evictable s)"
    by (intro notI) (drule spec [of _ 0], simp)
  moreover have "key_slots_initialized ?g" by (simp add: demo_store_def)
  note reserve_cache_slot_correct [OF demo_store_ok this]
  ultimately show ?thesis by (auto split: prod.splits option.splits)
qed

end
