(* ===== verification/Key_Policy.thy ===== *)
theory Key_Policy
  imports Crypto_Values
begin

text \<open>
  Key usage policies (core/psa_crypto.c: psa_mac_key_can_do, psa_key_policy_algorithm_intersection,
  psa_key_algorithm_permits, psa_key_policy_permits, psa_restrict_key_policy). A MAC or AEAD
  algorithm identifier is its base algorithm, a truncation length in bits 16 to 21 and the
  at-least-this-length flag in bit 15; the lemmas below reason about these three fields.
\<close>

section \<open>The code\<close>

definition psa_mac_key_can_do :: "psa_algorithm \<Rightarrow> psa_key_type \<Rightarrow> psa_status" where
  "psa_mac_key_can_do algorithm key_type =
    (if PSA_ALG_IS_HMAC algorithm \<and> key_type = PSA_KEY_TYPE_HMAC then PSA_SUCCESS
     else if PSA_ALG_IS_BLOCK_CIPHER_MAC algorithm \<and>
        key_type AND PSA_KEY_TYPE_CATEGORY_MASK = PSA_KEY_TYPE_CATEGORY_SYMMETRIC \<and>
        PSA_BLOCK_CIPHER_BLOCK_LENGTH key_type > 1
     then PSA_SUCCESS
     else PSA_ERROR_INVALID_ARGUMENT)"

text \<open>
  The MAC part of the intersection, entered when both algorithms are MACs with the same base;
  it returns on every path but the last.
\<close>

definition mac_intersection :: "psa_key_type \<Rightarrow> psa_algorithm \<Rightarrow> psa_algorithm \<Rightarrow> psa_algorithm" where
  "mac_intersection key_type alg1 alg2 =
    (if psa_mac_key_can_do alg1 key_type \<noteq> PSA_SUCCESS then 0
     else
       let alg1_len = PSA_MAC_LENGTH key_type 0 alg1;
           alg2_len = PSA_MAC_LENGTH key_type 0 alg2;
           restricted_len = (if alg1_len > alg2_len then alg1_len else alg2_len)
       in if alg1 AND PSA_ALG_MAC_AT_LEAST_THIS_LENGTH_FLAG \<noteq> 0 \<and>
             alg2 AND PSA_ALG_MAC_AT_LEAST_THIS_LENGTH_FLAG \<noteq> 0
          then PSA_ALG_AT_LEAST_THIS_LENGTH_MAC alg1 restricted_len
          else if alg1 AND PSA_ALG_MAC_AT_LEAST_THIS_LENGTH_FLAG \<noteq> 0
          then (if alg1_len \<le> alg2_len then alg2 else 0)
          else if alg2 AND PSA_ALG_MAC_AT_LEAST_THIS_LENGTH_FLAG \<noteq> 0
          then (if alg2_len \<le> alg1_len then alg1 else 0)
          else if alg1_len = alg2_len then PSA_ALG_TRUNCATED_MAC alg1 alg1_len
          else 0)"

text \<open>The AEAD part: \<open>None\<close> when the code falls through to the next case.\<close>

definition aead_intersection :: "psa_algorithm \<Rightarrow> psa_algorithm \<Rightarrow> psa_algorithm option" where
  "aead_intersection alg1 alg2 =
    (let alg1_len = PSA_ALG_AEAD_GET_TAG_LENGTH alg1;
         alg2_len = PSA_ALG_AEAD_GET_TAG_LENGTH alg2;
         restricted_len = (if alg1_len > alg2_len then alg1_len else alg2_len)
     in if alg1 AND PSA_ALG_AEAD_AT_LEAST_THIS_LENGTH_FLAG \<noteq> 0 \<and>
           alg2 AND PSA_ALG_AEAD_AT_LEAST_THIS_LENGTH_FLAG \<noteq> 0
        then Some (PSA_ALG_AEAD_WITH_AT_LEAST_THIS_LENGTH_TAG alg1 restricted_len)
        else if alg1 AND PSA_ALG_AEAD_AT_LEAST_THIS_LENGTH_FLAG \<noteq> 0 \<and> alg1_len \<le> alg2_len
        then Some alg2
        else if alg2 AND PSA_ALG_AEAD_AT_LEAST_THIS_LENGTH_FLAG \<noteq> 0 \<and> alg2_len \<le> alg1_len
        then Some alg1
        else None)"

definition psa_key_policy_algorithm_intersection ::
    "psa_key_type \<Rightarrow> psa_algorithm \<Rightarrow> psa_algorithm \<Rightarrow> psa_algorithm" where
  "psa_key_policy_algorithm_intersection key_type alg1 alg2 =
    (let same_sign_base = PSA_ALG_IS_SIGN_HASH alg1 \<and> PSA_ALG_IS_SIGN_HASH alg2 \<and>
           alg1 AND NOT PSA_ALG_HASH_MASK = alg2 AND NOT PSA_ALG_HASH_MASK;
         aead = (if PSA_ALG_IS_AEAD alg1 \<and> PSA_ALG_IS_AEAD alg2 \<and>
             PSA_ALG_AEAD_WITH_SHORTENED_TAG alg1 0 = PSA_ALG_AEAD_WITH_SHORTENED_TAG alg2 0
           then aead_intersection alg1 alg2 else None)
     in if alg1 = alg2 then alg1
        else if same_sign_base \<and> PSA_ALG_SIGN_GET_HASH alg1 = PSA_ALG_ANY_HASH then alg2
        else if same_sign_base \<and> PSA_ALG_SIGN_GET_HASH alg2 = PSA_ALG_ANY_HASH then alg1
        else case aead of
            Some alg \<Rightarrow> alg
          | None \<Rightarrow>
              if PSA_ALG_IS_MAC alg1 \<and> PSA_ALG_IS_MAC alg2 \<and>
                 PSA_ALG_FULL_LENGTH_MAC alg1 = PSA_ALG_FULL_LENGTH_MAC alg2
              then mac_intersection key_type alg1 alg2
              else 0)"

text \<open>The MAC part of the permission check: \<open>None\<close> when the code falls through.\<close>

definition mac_permits :: "psa_key_type \<Rightarrow> psa_algorithm \<Rightarrow> psa_algorithm \<Rightarrow> bool option" where
  "mac_permits key_type pol_alg requested_alg =
    (if psa_mac_key_can_do pol_alg key_type \<noteq> PSA_SUCCESS then Some False
     else
       let requested_output_length = PSA_MAC_LENGTH key_type 0 requested_alg;
           default_output_length = PSA_MAC_LENGTH key_type 0 (PSA_ALG_FULL_LENGTH_MAC requested_alg)
       in if PSA_MAC_TRUNCATED_LENGTH pol_alg = 0
          then Some (requested_output_length = default_output_length)
          else if PSA_MAC_TRUNCATED_LENGTH requested_alg = 0 \<and>
             PSA_MAC_TRUNCATED_LENGTH pol_alg = default_output_length
          then Some True
          else if pol_alg AND PSA_ALG_MAC_AT_LEAST_THIS_LENGTH_FLAG \<noteq> 0
          then Some (PSA_MAC_TRUNCATED_LENGTH pol_alg \<le> requested_output_length)
          else None)"

definition psa_key_algorithm_permits ::
    "psa_key_type \<Rightarrow> psa_algorithm \<Rightarrow> psa_algorithm \<Rightarrow> bool" where
  "psa_key_algorithm_permits key_type pol_alg requested_alg =
    (if requested_alg = pol_alg then True
     else if PSA_ALG_IS_SIGN_HASH requested_alg \<and> PSA_ALG_SIGN_GET_HASH pol_alg = PSA_ALG_ANY_HASH
     then pol_alg AND NOT PSA_ALG_HASH_MASK = requested_alg AND NOT PSA_ALG_HASH_MASK
     else if PSA_ALG_IS_AEAD pol_alg \<and> PSA_ALG_IS_AEAD requested_alg \<and>
        PSA_ALG_AEAD_WITH_SHORTENED_TAG pol_alg 0 = PSA_ALG_AEAD_WITH_SHORTENED_TAG requested_alg 0 \<and>
        pol_alg AND PSA_ALG_AEAD_AT_LEAST_THIS_LENGTH_FLAG \<noteq> 0
     then PSA_ALG_AEAD_GET_TAG_LENGTH pol_alg \<le> PSA_ALG_AEAD_GET_TAG_LENGTH requested_alg
     else
       let mac = (if PSA_ALG_IS_MAC pol_alg \<and> PSA_ALG_IS_MAC requested_alg \<and>
             PSA_ALG_FULL_LENGTH_MAC pol_alg = PSA_ALG_FULL_LENGTH_MAC requested_alg
           then mac_permits key_type pol_alg requested_alg else None)
       in case mac of
            Some b \<Rightarrow> b
          | None \<Rightarrow>
              if PSA_ALG_IS_RAW_KEY_AGREEMENT pol_alg \<and> PSA_ALG_IS_KEY_AGREEMENT requested_alg
              then PSA_ALG_KEY_AGREEMENT_GET_BASE requested_alg = pol_alg
              else pol_alg = PSA_ALG_JPAKE_BETA \<and> PSA_ALG_IS_JPAKE requested_alg)"

definition psa_key_policy_permits ::
    "psa_key_policy \<Rightarrow> psa_key_type \<Rightarrow> psa_algorithm \<Rightarrow> psa_status" where
  "psa_key_policy_permits policy key_type alg =
    (if alg = 0 then PSA_ERROR_INVALID_ARGUMENT
     else if PSA_ALG_IS_WILDCARD alg then PSA_ERROR_INVALID_ARGUMENT
     else if psa_key_algorithm_permits key_type (policy_alg policy) alg \<or>
             psa_key_algorithm_permits key_type (policy_alg2 policy) alg
     then PSA_SUCCESS
     else PSA_ERROR_NOT_PERMITTED)"

definition psa_restrict_key_policy ::
    "psa_key_type \<Rightarrow> psa_key_policy \<Rightarrow> psa_key_policy \<Rightarrow> psa_status \<times> psa_key_policy" where
  "psa_restrict_key_policy key_type policy constraint =
    (let intersection_alg = psa_key_policy_algorithm_intersection key_type
           (policy_alg policy) (policy_alg constraint);
         intersection_alg2 = psa_key_policy_algorithm_intersection key_type
           (policy_alg2 policy) (policy_alg2 constraint)
     in if intersection_alg = 0 \<and> policy_alg policy \<noteq> 0 \<and> policy_alg constraint \<noteq> 0
        then (PSA_ERROR_INVALID_ARGUMENT, policy)
        else if intersection_alg2 = 0 \<and> policy_alg2 policy \<noteq> 0 \<and> policy_alg2 constraint \<noteq> 0
        then (PSA_ERROR_INVALID_ARGUMENT, policy)
        else (PSA_SUCCESS,
              policy\<lparr>policy_usage := policy_usage policy AND policy_usage constraint,
                     policy_alg := intersection_alg, policy_alg2 := intersection_alg2\<rparr>))"

section \<open>The fields of an algorithm identifier\<close>

named_theorems alg_fields

abbreviation base_of :: "psa_algorithm \<Rightarrow> psa_algorithm" where
  "base_of \<equiv> PSA_ALG_FULL_LENGTH_MAC"
abbreviation len_of_alg :: "psa_algorithm \<Rightarrow> nat" where
  "len_of_alg \<equiv> PSA_MAC_TRUNCATED_LENGTH"

definition at_least :: "psa_algorithm \<Rightarrow> bool" where
  "at_least a \<longleftrightarrow> a AND PSA_ALG_MAC_AT_LEAST_THIS_LENGTH_FLAG \<noteq> 0"

lemma mask_bits:
  "bit (0x3f0000 :: u32) i \<longleftrightarrow> 16 \<le> i \<and> i < 22"
  "bit (0x8000 :: u32) i \<longleftrightarrow> i = 15"
  "bit (0x3f8000 :: u32) i \<longleftrightarrow> 15 \<le> i \<and> i < 22"
proof -
  have *: "(0x3f0000 :: u32) = push_bit 16 (mask 6)" "(0x8000 :: u32) = push_bit 15 1"
    "(0x3f8000 :: u32) = push_bit 15 (mask 7)"
    by (simp_all add: push_bit_eq_mult mask_eq_decr_exp)
  show "bit (0x3f0000 :: u32) i \<longleftrightarrow> 16 \<le> i \<and> i < 22" unfolding *(1)
    by (auto simp only: bit_push_bit_iff bit_mask_iff len_num1 len_num0 len_bit0) auto
  show "bit (0x8000 :: u32) i \<longleftrightarrow> i = 15" unfolding *(2)
    by (auto simp only: bit_push_bit_iff bit_1_iff) auto
  show "bit (0x3f8000 :: u32) i \<longleftrightarrow> 15 \<le> i \<and> i < 22" unfolding *(3)
    by (auto simp only: bit_push_bit_iff bit_mask_iff) auto
qed

lemma bit_base_of: "bit (base_of a) i \<longleftrightarrow> i < 32 \<and> bit a i \<and> \<not> (15 \<le> i \<and> i < 22)"
  unfolding PSA_ALG_FULL_LENGTH_MAC_def
  by (auto simp only: bit_and_iff bit_not_iff bit_or_iff mask_bits possible_bit_word len_num1 len_num0
      dest: bit_imp_le_length) (auto dest: bit_imp_le_length)

lemma bit_truncated:
  "bit (PSA_ALG_TRUNCATED_MAC a n) i \<longleftrightarrow>
     (if i = 15 then False else if 16 \<le> i \<and> i < 22 then bit n (i - 16) else bit a i)"
  unfolding PSA_ALG_TRUNCATED_MAC_def
  by (auto simp only: bit_and_iff bit_not_iff bit_or_iff mask_bits bit_push_bit_iff bit_of_nat_iff_bit
      possible_bit_word dest: bit_imp_le_length split: if_splits) (auto simp: bit_simps dest: bit_imp_le_length)

lemma word_zero_by_bits: "(w :: u32) = 0 \<longleftrightarrow> (\<forall>i. \<not> bit w i)"
  by (metis bit_0_eq bit_eqI bot_apply bot_bool_def)

lemma at_least_bit: "at_least a \<longleftrightarrow> bit a 15"
  by (auto simp only: at_least_def word_zero_by_bits bit_and_iff mask_bits)

lemma bit_len_of_alg: "bit (len_of_alg a) i \<longleftrightarrow> i < 6 \<and> bit a (i + 16)"
  unfolding PSA_MAC_TRUNCATED_LENGTH_def
  by (auto simp only: bit_unsigned_iff bit_drop_bit_eq bit_and_iff mask_bits o_def add.commute [of 16]) auto

lemma len_of_alg_less: "len_of_alg a < 64"
proof -
  have "len_of_alg a = take_bit 6 (len_of_alg a)"
    by (rule bit_eqI) (simp add: bit_take_bit_iff bit_len_of_alg)
  then show ?thesis using take_bit_nat_less_exp [of 6 "len_of_alg a"] by simp
qed

lemma nat_eq_by_bits: "(m :: nat) = n \<longleftrightarrow> (\<forall>i. bit m i = bit n i)"
  by (auto intro: bit_eqI)

lemma base_of_alg_eqI:
  assumes "base_of a = base_of b" "len_of_alg a = len_of_alg b" "at_least a = at_least b"
  shows "a = b"
proof (rule bit_word_eqI)
  fix i assume i: "i < LENGTH(32)"
  have 1: "bit (base_of a) i = bit (base_of b) i" using assms(1) by simp
  have 2: "bit (len_of_alg a) (i - 16) = bit (len_of_alg b) (i - 16)" using assms(2) by simp
  have 3: "bit a 15 = bit b 15" using assms(3) by (simp add: at_least_bit)
  consider "i = 15" | "16 \<le> i" "i < 22" | "\<not> (15 \<le> i \<and> i < 22)" by linarith
  then show "bit a i = bit b i"
  proof cases
    case 2
    then have "i - 16 < 6" by simp
    with 2 \<open>bit (len_of_alg a) (i - 16) = bit (len_of_alg b) (i - 16)\<close> show ?thesis
      by (simp add: bit_len_of_alg)
  qed (use i 1 3 in \<open>auto simp: bit_base_of\<close>)
qed

lemma truncated_fields [alg_fields]:
  "base_of (PSA_ALG_TRUNCATED_MAC a n) = base_of a"
  "len_of_alg (PSA_ALG_TRUNCATED_MAC a n) = n mod 64"
  "\<not> at_least (PSA_ALG_TRUNCATED_MAC a n)"
proof -
  show "base_of (PSA_ALG_TRUNCATED_MAC a n) = base_of a"
    by (rule bit_word_eqI) (auto simp: bit_base_of bit_truncated)
  have "len_of_alg (PSA_ALG_TRUNCATED_MAC a n) = take_bit 6 n"
    by (rule bit_eqI) (auto simp: bit_len_of_alg bit_truncated bit_take_bit_iff)
  then show "len_of_alg (PSA_ALG_TRUNCATED_MAC a n) = n mod 64" by (simp add: take_bit_eq_mod)
  show "\<not> at_least (PSA_ALG_TRUNCATED_MAC a n)" by (simp add: at_least_bit bit_truncated)
qed

lemma at_least_alg_fields [alg_fields]:
  "base_of (PSA_ALG_AT_LEAST_THIS_LENGTH_MAC a n) = base_of a"
  "len_of_alg (PSA_ALG_AT_LEAST_THIS_LENGTH_MAC a n) = n mod 64"
  "at_least (PSA_ALG_AT_LEAST_THIS_LENGTH_MAC a n)"
proof -
  have b: "bit (PSA_ALG_AT_LEAST_THIS_LENGTH_MAC a n) i \<longleftrightarrow> i = 15 \<or> bit (PSA_ALG_TRUNCATED_MAC a n) i" for i
    unfolding PSA_ALG_AT_LEAST_THIS_LENGTH_MAC_def by (auto simp only: bit_or_iff mask_bits)
  show "base_of (PSA_ALG_AT_LEAST_THIS_LENGTH_MAC a n) = base_of a"
    by (rule bit_word_eqI) (auto simp: bit_base_of b bit_truncated)
  have "len_of_alg (PSA_ALG_AT_LEAST_THIS_LENGTH_MAC a n) = take_bit 6 n"
    by (rule bit_eqI) (auto simp: bit_len_of_alg b bit_truncated bit_take_bit_iff)
  then show "len_of_alg (PSA_ALG_AT_LEAST_THIS_LENGTH_MAC a n) = n mod 64" by (simp add: take_bit_eq_mod)
  show "at_least (PSA_ALG_AT_LEAST_THIS_LENGTH_MAC a n)" by (simp add: at_least_bit b)
qed

text \<open>The AEAD macros address the same fields.\<close>

lemma aead_fields [alg_fields]:
  "PSA_ALG_AEAD_WITH_SHORTENED_TAG a n = PSA_ALG_TRUNCATED_MAC a n"
  "PSA_ALG_AEAD_WITH_AT_LEAST_THIS_LENGTH_TAG a n = PSA_ALG_AT_LEAST_THIS_LENGTH_MAC a n"
  "PSA_ALG_AEAD_GET_TAG_LENGTH a = len_of_alg a"
  by (simp_all add: PSA_ALG_AEAD_WITH_SHORTENED_TAG_def PSA_ALG_TRUNCATED_MAC_def
      PSA_ALG_AEAD_WITH_AT_LEAST_THIS_LENGTH_TAG_def PSA_ALG_AT_LEAST_THIS_LENGTH_MAC_def
      PSA_ALG_AEAD_GET_TAG_LENGTH_def PSA_MAC_TRUNCATED_LENGTH_def)

lemma truncated_0_eq: "PSA_ALG_TRUNCATED_MAC a 0 = base_of a"
  by (rule bit_word_eqI) (auto simp: bit_base_of bit_truncated)

text \<open>The category tests and the hash of a MAC only look at its base.\<close>

lemma base_of_masked: "K AND 0x3f8000 = 0 \<Longrightarrow> base_of a AND K = a AND K"
proof (rule bit_word_eqI)
  fix i assume K: "K AND 0x3f8000 = 0" and i: "i < LENGTH(32)"
  have "\<not> bit (K AND 0x3f8000) i" by (simp add: K)
  then have "\<not> (bit K i \<and> 15 \<le> i \<and> i < 22)" by (simp only: bit_and_iff mask_bits) blast
  with i show "bit (base_of a AND K) i = bit (a AND K) i"
    by (auto simp: bit_and_iff bit_base_of)
qed

lemma base_of_category [alg_fields]:
  "PSA_ALG_IS_MAC (base_of a) = PSA_ALG_IS_MAC a"
  "PSA_ALG_IS_AEAD (base_of a) = PSA_ALG_IS_AEAD a"
  "PSA_ALG_IS_HMAC (base_of a) = PSA_ALG_IS_HMAC a"
  "PSA_ALG_IS_BLOCK_CIPHER_MAC (base_of a) = PSA_ALG_IS_BLOCK_CIPHER_MAC a"
  "PSA_ALG_HMAC_GET_HASH (base_of a) = PSA_ALG_HMAC_GET_HASH a"
  "psa_mac_key_can_do (base_of a) kt = psa_mac_key_can_do a kt"
proof -
  note m = base_of_masked [of PSA_ALG_CATEGORY_MASK a]
    base_of_masked [of "PSA_ALG_CATEGORY_MASK OR PSA_ALG_MAC_SUBCATEGORY_MASK" a]
    base_of_masked [of PSA_ALG_HASH_MASK a]
  show "PSA_ALG_IS_MAC (base_of a) = PSA_ALG_IS_MAC a" "PSA_ALG_IS_AEAD (base_of a) = PSA_ALG_IS_AEAD a"
    using m(1) by (simp_all add: PSA_ALG_IS_MAC_def PSA_ALG_IS_AEAD_def)
  show h: "PSA_ALG_IS_HMAC (base_of a) = PSA_ALG_IS_HMAC a"
    and b: "PSA_ALG_IS_BLOCK_CIPHER_MAC (base_of a) = PSA_ALG_IS_BLOCK_CIPHER_MAC a"
    using m(2) by (simp_all add: PSA_ALG_IS_HMAC_def PSA_ALG_IS_BLOCK_CIPHER_MAC_def)
  show "PSA_ALG_HMAC_GET_HASH (base_of a) = PSA_ALG_HMAC_GET_HASH a"
    using m(3) by (simp add: PSA_ALG_HMAC_GET_HASH_def)
  show "psa_mac_key_can_do (base_of a) kt = psa_mac_key_can_do a kt"
    by (simp add: psa_mac_key_can_do_def h b)
qed

section \<open>What a policy permits\<close>

text \<open>
  The length a MAC algorithm asks for: its truncation length, or the full length.
\<close>

definition mac_default :: "psa_key_type \<Rightarrow> psa_algorithm \<Rightarrow> nat" where
  "mac_default kt a = PSA_MAC_LENGTH kt 0 (base_of a)"

lemma PSA_MAC_LENGTH_fields:
  "PSA_MAC_LENGTH kt n a = (if len_of_alg a \<noteq> 0 then len_of_alg a else mac_default kt a)"
proof -
  have z: "a AND PSA_ALG_MAC_TRUNCATION_MASK \<noteq> 0 \<longleftrightarrow> len_of_alg a \<noteq> 0" for a :: psa_algorithm
  proof -
    have "len_of_alg a = 0 \<longleftrightarrow> (\<forall>i < 6. \<not> bit a (i + 16))"
      by (auto simp: nat_eq_by_bits bit_len_of_alg)
    also have "\<dots> \<longleftrightarrow> (\<forall>i. \<not> (bit a i \<and> 16 \<le> i \<and> i < 22))"
    proof safe
      fix i assume "\<forall>i < 6. \<not> bit a (i + 16)" "bit a i" "16 \<le> i" "i < 22"
      then show False by (elim allE [of _ "i - 16"]) auto
    next
      fix i :: nat assume "\<forall>i. \<not> (bit a i \<and> 16 \<le> i \<and> i < 22)" "i < 6" "bit a (i + 16)"
      then show False by (elim allE [of _ "i + 16"]) auto
    qed
    also have "\<dots> \<longleftrightarrow> a AND PSA_ALG_MAC_TRUNCATION_MASK = 0"
      by (simp only: word_zero_by_bits bit_and_iff mask_bits)
    finally show ?thesis by simp
  qed
  have "len_of_alg (base_of a) = 0"
    by (auto simp: nat_eq_by_bits bit_len_of_alg bit_base_of)
  then have "mac_default kt a = (if PSA_ALG_IS_HMAC a then PSA_HASH_LENGTH (PSA_ALG_HMAC_GET_HASH a)
      else if PSA_ALG_IS_BLOCK_CIPHER_MAC a then PSA_BLOCK_CIPHER_BLOCK_LENGTH kt else 0)"
    unfolding mac_default_def PSA_MAC_LENGTH_def z by (simp add: alg_fields)
  then show ?thesis unfolding PSA_MAC_LENGTH_def z by simp
qed

text \<open>The categories of algorithms are told apart by bits 24 to 30.\<close>

definition category_of :: "psa_algorithm \<Rightarrow> psa_algorithm" where
  "category_of a = a AND PSA_ALG_CATEGORY_MASK"

lemma masked_category: "a AND NOT K = c \<Longrightarrow> K AND PSA_ALG_CATEGORY_MASK = 0 \<Longrightarrow> category_of a = category_of c"
proof -
  assume c: "a AND NOT K = c" and K: "K AND PSA_ALG_CATEGORY_MASK = 0"
  have "a AND PSA_ALG_CATEGORY_MASK = (a AND NOT K) AND PSA_ALG_CATEGORY_MASK"
  proof (rule bit_word_eqI)
    fix i assume i: "i < LENGTH(32)"
    have "\<not> bit (K AND PSA_ALG_CATEGORY_MASK) i" by (simp add: K)
    then have "\<not> (bit K i \<and> bit PSA_ALG_CATEGORY_MASK i)" by (simp only: bit_and_iff) blast
    with i show "bit (a AND PSA_ALG_CATEGORY_MASK) i = bit ((a AND NOT K) AND PSA_ALG_CATEGORY_MASK) i"
      by (auto simp only: bit_and_iff bit_not_iff possible_bit_word)
  qed
  then show "category_of a = category_of c" by (simp only: category_of_def c)
qed

lemma category_sign: "PSA_ALG_IS_SIGN_HASH a \<Longrightarrow> category_of a = 0x06000000"
  using masked_category [of a "0xff" "0x06000200"] masked_category [of a "0xff" "0x06000300"]
    masked_category [of a "0xff" "0x06001300"] masked_category [of a "0x1ff" "0x06000600"]
    masked_category [of a "0xff" "0x06000900"]
  by (auto simp: PSA_ALG_IS_SIGN_HASH_def PSA_ALG_IS_RSA_PSS_def PSA_ALG_IS_RSA_PKCS1V15_SIGN_def
      PSA_ALG_IS_ECDSA_def PSA_ALG_IS_HASH_EDDSA_def category_of_def)

lemma category_jpake: "PSA_ALG_IS_JPAKE a \<Longrightarrow> category_of a = 0x0a000000"
  using masked_category [of a PSA_ALG_HASH_MASK PSA_ALG_JPAKE_BASE]
  by (simp add: PSA_ALG_IS_JPAKE_def category_of_def)

lemma category_simple:
  "PSA_ALG_IS_MAC a \<longleftrightarrow> category_of a = 0x03000000"
  "PSA_ALG_IS_AEAD a \<longleftrightarrow> category_of a = 0x05000000"
  "PSA_ALG_IS_KEY_AGREEMENT a \<longleftrightarrow> category_of a = 0x09000000"
  by (simp_all add: PSA_ALG_IS_MAC_def PSA_ALG_IS_AEAD_def PSA_ALG_IS_KEY_AGREEMENT_def category_of_def)

lemma category_raw_ka: "PSA_ALG_IS_RAW_KEY_AGREEMENT a \<Longrightarrow> category_of a = 0x09000000"
  by (simp add: PSA_ALG_IS_RAW_KEY_AGREEMENT_def category_simple)

lemma category_hash_sign:
  "PSA_ALG_SIGN_GET_HASH a = PSA_ALG_ANY_HASH \<Longrightarrow> PSA_ALG_IS_SIGN_HASH a"
  by (auto simp: PSA_ALG_SIGN_GET_HASH_def PSA_ALG_IS_HASH_AND_SIGN_def split: if_splits)

text \<open>The five ways a policy algorithm permits another algorithm.\<close>

definition sign_case :: "psa_algorithm \<Rightarrow> psa_algorithm \<Rightarrow> bool" where
  "sign_case a r \<longleftrightarrow> PSA_ALG_IS_SIGN_HASH r \<and> PSA_ALG_SIGN_GET_HASH a = PSA_ALG_ANY_HASH \<and>
     a AND NOT PSA_ALG_HASH_MASK = r AND NOT PSA_ALG_HASH_MASK"

definition aead_case :: "psa_algorithm \<Rightarrow> psa_algorithm \<Rightarrow> bool" where
  "aead_case a r \<longleftrightarrow> PSA_ALG_IS_AEAD a \<and> PSA_ALG_IS_AEAD r \<and> base_of a = base_of r \<and>
     at_least a \<and> len_of_alg a \<le> len_of_alg r"

definition mac_case :: "psa_key_type \<Rightarrow> psa_algorithm \<Rightarrow> psa_algorithm \<Rightarrow> bool" where
  "mac_case kt a r \<longleftrightarrow> PSA_ALG_IS_MAC a \<and> PSA_ALG_IS_MAC r \<and> base_of a = base_of r \<and>
     mac_permits kt a r = Some True"

definition agreement_case :: "psa_algorithm \<Rightarrow> psa_algorithm \<Rightarrow> bool" where
  "agreement_case a r \<longleftrightarrow>
     PSA_ALG_IS_RAW_KEY_AGREEMENT a \<and> PSA_ALG_IS_KEY_AGREEMENT r \<and>
       PSA_ALG_KEY_AGREEMENT_GET_BASE r = a \<or>
     a = PSA_ALG_JPAKE_BETA \<and> PSA_ALG_IS_JPAKE r"

lemma case_categories:
  "sign_case a r \<Longrightarrow> category_of a = 0x06000000 \<and> category_of r = 0x06000000"
  "aead_case a r \<Longrightarrow> category_of a = 0x05000000 \<and> category_of r = 0x05000000"
  "mac_case kt a r \<Longrightarrow> category_of a = 0x03000000 \<and> category_of r = 0x03000000"
  "agreement_case a r \<Longrightarrow> category_of a = category_of r \<and>
     (category_of r = 0x09000000 \<or> category_of r = 0x0a000000)"
  by (auto simp: sign_case_def aead_case_def mac_case_def agreement_case_def category_simple
      category_raw_ka category_sign category_hash_sign category_jpake)
    (simp add: category_of_def)

lemma permits_iff:
  "psa_key_algorithm_permits kt a r \<longleftrightarrow>
     r = a \<or> sign_case a r \<or> aead_case a r \<or> mac_case kt a r \<or> agreement_case a r"
proof -
  have base: "PSA_ALG_AEAD_WITH_SHORTENED_TAG x 0 = base_of x" for x
    by (simp add: alg_fields truncated_0_eq)
  consider "r = a" | "r \<noteq> a" "PSA_ALG_IS_SIGN_HASH r" "PSA_ALG_SIGN_GET_HASH a = PSA_ALG_ANY_HASH"
    | "r \<noteq> a" "\<not> (PSA_ALG_IS_SIGN_HASH r \<and> PSA_ALG_SIGN_GET_HASH a = PSA_ALG_ANY_HASH)" by blast
  then show ?thesis
  proof cases
    case 1 then show ?thesis by (simp add: psa_key_algorithm_permits_def)
  next
    case 2
    have "category_of r = 0x06000000" by (rule category_sign [OF 2(2)])
    then have "\<not> aead_case a r" "\<not> mac_case kt a r" "\<not> agreement_case a r"
      using case_categories(2,4) [of a r] case_categories(3) [of kt a r] by auto
    with 2 show ?thesis by (simp add: psa_key_algorithm_permits_def sign_case_def)
  next
    case 3
    then have s: "\<not> sign_case a r" by (auto simp: sign_case_def)
    have "\<not> (PSA_ALG_IS_KEY_AGREEMENT r \<and> PSA_ALG_IS_JPAKE r)"
      using category_jpake [of r] by (auto simp: category_simple)
    then have ag: "(if PSA_ALG_IS_RAW_KEY_AGREEMENT a \<and> PSA_ALG_IS_KEY_AGREEMENT r
        then PSA_ALG_KEY_AGREEMENT_GET_BASE r = a else a = PSA_ALG_JPAKE_BETA \<and> PSA_ALG_IS_JPAKE r) =
        agreement_case a r"
      by (auto simp: agreement_case_def)
    have p: "psa_key_algorithm_permits kt a r =
       (if PSA_ALG_IS_AEAD a \<and> PSA_ALG_IS_AEAD r \<and> base_of a = base_of r \<and> at_least a
        then len_of_alg a \<le> len_of_alg r
        else case if PSA_ALG_IS_MAC a \<and> PSA_ALG_IS_MAC r \<and> base_of a = base_of r
                  then mac_permits kt a r else None of
             Some b \<Rightarrow> b | None \<Rightarrow> agreement_case a r)"
      using 3 by (simp only: psa_key_algorithm_permits_def base aead_fields(3) at_least_def Let_def ag if_False
          simp_thms)
    show ?thesis
    proof (cases "agreement_case a r")
      case True
      then have "\<not> PSA_ALG_IS_AEAD r" "\<not> PSA_ALG_IS_MAC r"
        using case_categories(4) [of a r] by (auto simp: category_simple)
      with True p show ?thesis by simp
    next
      case False
      have "\<not> (PSA_ALG_IS_AEAD r \<and> PSA_ALG_IS_MAC r)" by (simp add: category_simple)
      then consider "PSA_ALG_IS_AEAD r" "\<not> PSA_ALG_IS_MAC r" | "\<not> PSA_ALG_IS_AEAD r" by blast
      then show ?thesis
      proof cases
        case 1
        with p False s 3(1) show ?thesis by (simp add: aead_case_def mac_case_def) blast
      next
        case 2
        with p False s 3(1) show ?thesis
          by (cases "mac_permits kt a r"; simp add: aead_case_def mac_case_def; blast)
      qed
    qed
  qed
qed

section \<open>Requests\<close>

text \<open>
  The algorithms an operation can ask for: not zero, no wildcard, and a MAC whose length is at
  most the full length of the MAC (psa_mac_finalize_alg_and_key_validation rejects others).
\<close>

definition proper_request :: "psa_key_type \<Rightarrow> psa_algorithm \<Rightarrow> bool" where
  "proper_request kt r \<longleftrightarrow> r \<noteq> 0 \<and> \<not> PSA_ALG_IS_WILDCARD r \<and>
     (PSA_ALG_IS_MAC r \<longrightarrow> PSA_MAC_LENGTH kt 0 r \<le> PSA_MAC_LENGTH kt 0 (PSA_ALG_FULL_LENGTH_MAC r))"

lemma not_hash_and_sign:
  "category_of r \<noteq> 0x06000000 \<Longrightarrow> \<not> PSA_ALG_IS_HASH_AND_SIGN r"
  using category_sign [of r] by (auto simp: PSA_ALG_IS_HASH_AND_SIGN_def)

lemma request_not_at_least:
  assumes "proper_request kt r" "PSA_ALG_IS_MAC r \<or> PSA_ALG_IS_AEAD r"
  shows "\<not> at_least r"
  using assms not_hash_and_sign [of r]
  by (auto simp: proper_request_def PSA_ALG_IS_WILDCARD_def at_least_def category_simple)

lemma request_not_any_hash:
  assumes "proper_request kt r"
  shows "PSA_ALG_SIGN_GET_HASH r \<noteq> PSA_ALG_ANY_HASH"
  using assms
  by (auto simp: proper_request_def PSA_ALG_IS_WILDCARD_def PSA_ALG_SIGN_GET_HASH_def split: if_splits)

text \<open>
  With the same MAC base, a policy without the flag permits exactly its own length; with the flag
  it permits its length and more, where a length of zero stands for exactly the full length.
\<close>

abbreviation mac_len :: "psa_key_type \<Rightarrow> psa_algorithm \<Rightarrow> nat" where
  "mac_len kt a \<equiv> PSA_MAC_LENGTH kt 0 a"

lemma mac_default_same: "base_of a = base_of r \<Longrightarrow> mac_default kt a = mac_default kt r"
  by (simp add: mac_default_def)

lemma can_do_same: "base_of a = base_of r \<Longrightarrow> psa_mac_key_can_do a kt = psa_mac_key_can_do r kt"
  by (metis base_of_category(6))

lemma permits_mac:
  assumes m: "PSA_ALG_IS_MAC a" "PSA_ALG_IS_MAC r" "base_of a = base_of r" and r: "proper_request kt r"
  shows "psa_key_algorithm_permits kt a r \<longleftrightarrow>
    r = a \<or> psa_mac_key_can_do r kt = PSA_SUCCESS \<and>
      (if at_least a then (if len_of_alg a = 0 then mac_len kt r = mac_default kt r
                           else len_of_alg a \<le> mac_len kt r)
       else mac_len kt a = mac_len kt r)"
proof -
  have nf: "\<not> at_least r" using request_not_at_least [OF r] m(2) by blast
  have cat: "\<not> sign_case a r" "\<not> aead_case a r" "\<not> agreement_case a r"
    using m(2) case_categories(1,2,4) [of a r] by (auto simp: category_simple)
  have d: "PSA_MAC_LENGTH kt 0 (base_of r) = mac_default kt r" "mac_default kt a = mac_default kt r"
    using m(3) by (simp_all add: mac_default_def)
  have eq: "r = a" if "\<not> at_least a" "len_of_alg a = len_of_alg r"
    using base_of_alg_eqI [of r a] that nf m(3) by simp
  have mc: "mac_case kt a r \<longleftrightarrow> psa_mac_key_can_do r kt = PSA_SUCCESS \<and>
     (if len_of_alg a = 0 then mac_len kt r = mac_default kt r
      else len_of_alg r = 0 \<and> len_of_alg a = mac_default kt r \<or> at_least a \<and> len_of_alg a \<le> mac_len kt r)"
    using m can_do_same [OF m(3), of kt]
    by (simp add: mac_case_def mac_permits_def Let_def d at_least_def [symmetric])
  have L: "psa_key_algorithm_permits kt a r \<longleftrightarrow> r = a \<or> mac_case kt a r"
    using cat by (simp add: permits_iff)
  note len = PSA_MAC_LENGTH_fields [of kt 0 a, unfolded d(2)] PSA_MAC_LENGTH_fields [of kt 0 r]
  show ?thesis
  proof (cases "at_least a")
    case True
    then show ?thesis unfolding L mc len by (simp split: if_split) linarith
  next
    case False
    then show ?thesis unfolding L mc len using eq [OF False] by (auto split: if_split)
  qed
qed

lemma permits_aead:
  assumes m: "PSA_ALG_IS_AEAD a" "PSA_ALG_IS_AEAD r"
  shows "psa_key_algorithm_permits kt a r \<longleftrightarrow>
    r = a \<or> base_of a = base_of r \<and> at_least a \<and> len_of_alg a \<le> len_of_alg r"
proof -
  have "\<not> sign_case a r" "\<not> mac_case kt a r" "\<not> agreement_case a r"
    using m(2) case_categories(1,4) [of a r] case_categories(3) [of kt a r] by (auto simp: category_simple)
  with m show ?thesis by (simp add: permits_iff aead_case_def)
qed

lemma permits_other_category:
  "psa_key_algorithm_permits kt a r \<Longrightarrow> category_of a = category_of r"
  using case_categories(1,2,4) [of a r] case_categories(3) [of kt a r] by (auto simp: permits_iff)

lemma permits_base:
  assumes "psa_key_algorithm_permits kt a r" "PSA_ALG_IS_MAC a \<or> PSA_ALG_IS_AEAD a"
  shows "base_of a = base_of r \<and> PSA_ALG_IS_MAC r = PSA_ALG_IS_MAC a \<and> PSA_ALG_IS_AEAD r = PSA_ALG_IS_AEAD a"
  using assms permits_other_category [OF assms(1)] case_categories(1,4) [of a r]
  by (auto simp: permits_iff aead_case_def mac_case_def category_simple)

lemma permits_zero: "r \<noteq> 0 \<Longrightarrow> \<not> psa_key_algorithm_permits kt 0 r"
  using case_categories(1,2,4) [of 0 r] case_categories(3) [of kt 0 r]
  by (auto simp: permits_iff category_of_def)

section \<open>The intersection\<close>

lemma mac_default_range: "mac_default kt a < 64 \<or> mac_default kt a mod 64 = 0"
proof -
  have h: "PSA_HASH_LENGTH x < 64 \<or> PSA_HASH_LENGTH x mod 64 = 0" for x
    unfolding PSA_HASH_LENGTH_def Let_def by (simp split: if_split)
  have "PSA_GET_KEY_TYPE_BLOCK_SIZE_EXPONENT kt < 8"
  proof -
    have "(7 :: u16) = mask 3" by (simp add: mask_eq_decr_exp)
    then have "PSA_GET_KEY_TYPE_BLOCK_SIZE_EXPONENT kt = take_bit 3 (unat (drop_bit 8 kt))"
      unfolding PSA_GET_KEY_TYPE_BLOCK_SIZE_EXPONENT_def
      by (simp only: take_bit_eq_mask [symmetric] unsigned_take_bit_eq)
    then show ?thesis using take_bit_nat_less_exp [of 3 "unat (drop_bit 8 kt)"] by simp
  qed
  then consider "PSA_GET_KEY_TYPE_BLOCK_SIZE_EXPONENT kt \<le> 5" | "PSA_GET_KEY_TYPE_BLOCK_SIZE_EXPONENT kt = 6"
    | "PSA_GET_KEY_TYPE_BLOCK_SIZE_EXPONENT kt = 7" by linarith
  then have b: "PSA_BLOCK_CIPHER_BLOCK_LENGTH kt < 64 \<or> PSA_BLOCK_CIPHER_BLOCK_LENGTH kt mod 64 = 0"
  proof cases
    case 1
    then have "(2::nat) ^ PSA_GET_KEY_TYPE_BLOCK_SIZE_EXPONENT kt \<le> 2 ^ 5" by (intro power_increasing) auto
    then show ?thesis by (simp add: PSA_BLOCK_CIPHER_BLOCK_LENGTH_def)
  qed (simp_all add: PSA_BLOCK_CIPHER_BLOCK_LENGTH_def)
  have "len_of_alg (base_of a) = 0"
    by (auto simp: nat_eq_by_bits bit_len_of_alg bit_base_of)
  then have "mac_default kt a \<in> {0, PSA_HASH_LENGTH (PSA_ALG_HMAC_GET_HASH (base_of a)), PSA_BLOCK_CIPHER_BLOCK_LENGTH kt}"
    unfolding mac_default_def PSA_MAC_LENGTH_def PSA_MAC_TRUNCATED_LENGTH_def by (auto split: if_splits)
  with h [of "PSA_ALG_HMAC_GET_HASH (base_of a)"] b show ?thesis by auto
qed

text \<open>The permission of a MAC when the key can do it, by length.\<close>

definition len_permits :: "bool \<Rightarrow> nat \<Rightarrow> nat \<Rightarrow> nat \<Rightarrow> bool" where
  "len_permits flag la lr D \<longleftrightarrow>
     (if flag then (if la = 0 then lr = D else la \<le> lr) else (if la \<noteq> 0 then la else D) = lr)"

lemma permits_mac_len:
  assumes m: "PSA_ALG_IS_MAC a" "PSA_ALG_IS_MAC r" "base_of a = base_of r" and r: "proper_request kt r"
    and c: "psa_mac_key_can_do r kt = PSA_SUCCESS"
  shows "psa_key_algorithm_permits kt a r \<longleftrightarrow>
    len_permits (at_least a) (len_of_alg a) (mac_len kt r) (mac_default kt r)"
proof -
  have "\<not> at_least r" using request_not_at_least [OF r] m(2) by blast
  moreover have "mac_default kt a = mac_default kt r" using m(3) by (simp add: mac_default_def)
  ultimately show ?thesis
    using c by (auto simp: permits_mac [OF m r] len_permits_def PSA_MAC_LENGTH_fields)
qed

lemma len_permits_mod:
  assumes "D < 64 \<or> D mod 64 = 0" "n < 64 \<or> n = D"
  shows "len_permits False (n mod 64) lr D \<longleftrightarrow> (if n \<noteq> 0 then n else D) = lr"
    "len_permits True (n mod 64) lr D \<longleftrightarrow> (if n = 0 \<or> 64 \<le> n then lr = D else n \<le> lr)"
  using assms by (auto simp: len_permits_def)

lemma mac_intersection_permits:
  assumes m: "PSA_ALG_IS_MAC a" "PSA_ALG_IS_MAC b" "base_of a = base_of b" "a \<noteq> b"
    and r: "proper_request kt r"
  shows "psa_key_algorithm_permits kt (mac_intersection kt a b) r \<longleftrightarrow>
    psa_key_algorithm_permits kt a r \<and> psa_key_algorithm_permits kt b r"
    (is "psa_key_algorithm_permits kt ?i r \<longleftrightarrow> _")
proof (cases "PSA_ALG_IS_MAC r \<and> base_of r = base_of a")
  case False
  have "\<not> psa_key_algorithm_permits kt a r"
    using permits_base [of kt a r] m(1) False by auto
  moreover have "\<not> psa_key_algorithm_permits kt ?i r"
  proof
    assume p: "psa_key_algorithm_permits kt ?i r"
    have "r \<noteq> 0" using r by (simp add: proper_request_def)
    then have "?i \<noteq> 0" using p permits_zero by metis
    then have "base_of ?i = base_of a"
      by (auto simp: mac_intersection_def Let_def alg_fields m(3) split: if_splits)
    moreover from this have "PSA_ALG_IS_MAC ?i" using m(1) by (metis base_of_category(1))
    ultimately show False using permits_base [OF p] False m(1) by auto
  qed
  ultimately show ?thesis by simp
next
  case True
  then have rm: "PSA_ALG_IS_MAC r" "base_of a = base_of r" "base_of b = base_of r" using m(3) by simp_all
  have r0: "r \<noteq> 0" using r by (simp add: proper_request_def)
  have can: "psa_mac_key_can_do a kt = psa_mac_key_can_do r kt" by (rule can_do_same [OF rm(2)])
  show ?thesis
  proof (cases "psa_mac_key_can_do r kt = PSA_SUCCESS")
    case False
    then have "?i = 0" by (simp add: mac_intersection_def can)
    then show ?thesis
      using False permits_zero [OF r0] permits_mac [OF m(1) rm(1,2) r] permits_mac [OF m(2) rm(1,3) r] m(4)
      by auto
  next
    case c: True
    let ?D = "mac_default kt r" and ?la = "len_of_alg a" and ?lb = "len_of_alg b" and ?lr = "mac_len kt r"
    let ?La = "if ?la \<noteq> 0 then ?la else ?D" and ?Lb = "if ?lb \<noteq> 0 then ?lb else ?D"
    have pa: "psa_key_algorithm_permits kt a r = len_permits (at_least a) ?la ?lr ?D"
      by (rule permits_mac_len [OF m(1) rm(1,2) r c])
    have pb: "psa_key_algorithm_permits kt b r = len_permits (at_least b) ?lb ?lr ?D"
      by (rule permits_mac_len [OF m(2) rm(1,3) r c])
    have pi: "psa_key_algorithm_permits kt x r = len_permits (at_least x) (len_of_alg x) ?lr ?D"
      if "base_of x = base_of a" for x
      using that m(1) rm by (intro permits_mac_len [OF _ rm(1) _ r c]) (metis base_of_category(1), simp)
    have D: "?D < 64 \<or> ?D mod 64 = 0" by (rule mac_default_range)
    have lt: "?la < 64" "?lb < 64" using len_of_alg_less by blast+
    have le: "?lr \<le> ?D" using r rm(1) by (simp add: proper_request_def mac_default_def)
    have ne: "at_least a = at_least b \<Longrightarrow> ?la \<noteq> ?lb"
      using base_of_alg_eqI [OF m(3)] m(4) by blast
    have La: "mac_len kt a = ?La" "mac_len kt b = ?Lb"
      using mac_default_same [OF rm(2)] mac_default_same [OF rm(3)] by (simp_all add: PSA_MAC_LENGTH_fields)
    let ?m = "if ?Lb < ?La then ?La else ?Lb"
    have m64: "?m < 64 \<or> ?m = ?D" "?La < 64 \<or> ?La = ?D" using lt by auto
    consider "at_least a" "at_least b" | "at_least a" "\<not> at_least b" | "\<not> at_least a" "at_least b"
      | "\<not> at_least a" "\<not> at_least b" by blast
    then show ?thesis
    proof cases
      case 1
      have i: "?i = PSA_ALG_AT_LEAST_THIS_LENGTH_MAC a ?m"
        using 1 c by (simp only: mac_intersection_def can La Let_def at_least_def if_False if_True not_True_eq_False simp_thms)
      have "psa_key_algorithm_permits kt ?i r = len_permits True (?m mod 64) ?lr ?D"
        unfolding i by (subst pi) (simp_all add: alg_fields)
      also have "\<dots> \<longleftrightarrow> (if ?m = 0 \<or> 64 \<le> ?m then ?lr = ?D else ?m \<le> ?lr)"
        by (rule len_permits_mod(2) [OF D m64(1)])
      finally show ?thesis using 1 ne lt le by (auto simp: pa pb len_permits_def split: if_splits)
    next
      case 2
      then have i: "?i = (if ?La \<le> ?Lb then b else 0)"
        using c by (simp add: mac_intersection_def can La Let_def at_least_def)
      show ?thesis
        unfolding i using 2 permits_zero [OF r0, of kt] D lt le by (auto simp: pa pb len_permits_def)
    next
      case 3
      then have i: "?i = (if ?Lb \<le> ?La then a else 0)"
        using c by (simp add: mac_intersection_def can La Let_def at_least_def)
      show ?thesis
        unfolding i using 3 permits_zero [OF r0, of kt] D lt le by (auto simp: pa pb len_permits_def)
    next
      case 4
      then have i: "?i = (if ?La = ?Lb then PSA_ALG_TRUNCATED_MAC a ?La else 0)"
        using c by (simp add: mac_intersection_def can La Let_def at_least_def)
      show ?thesis
      proof (cases "?La = ?Lb")
        case True
        then have i: "?i = PSA_ALG_TRUNCATED_MAC a ?La" using i by simp
        have "psa_key_algorithm_permits kt (PSA_ALG_TRUNCATED_MAC a ?La) r = len_permits False (?La mod 64) ?lr ?D"
          by (subst pi) (simp_all add: alg_fields)
        also have "\<dots> \<longleftrightarrow> (if ?La \<noteq> 0 then ?La else ?D) = ?lr" by (rule len_permits_mod(1) [OF D m64(2)])
        finally show ?thesis using 4 True by (auto simp: i pa pb len_permits_def)
      next
        case False
        then show ?thesis unfolding i using permits_zero [OF r0, of kt] 4 by (auto simp: pa pb len_permits_def)
      qed
    qed
  qed
qed

lemma permits_aead_request:
  assumes "PSA_ALG_IS_AEAD a" "PSA_ALG_IS_AEAD r" "at_least a" "proper_request kt r"
  shows "psa_key_algorithm_permits kt a r \<longleftrightarrow> base_of a = base_of r \<and> len_of_alg a \<le> len_of_alg r"
  using permits_aead [OF assms(1,2), of kt] request_not_at_least [OF assms(4)] assms(2,3) by auto

lemma aead_intersection_permits:
  assumes m: "PSA_ALG_IS_AEAD a" "PSA_ALG_IS_AEAD b" "base_of a = base_of b"
    and i: "aead_intersection a b = Some i" and r: "proper_request kt r"
  shows "psa_key_algorithm_permits kt i r \<longleftrightarrow>
    psa_key_algorithm_permits kt a r \<and> psa_key_algorithm_permits kt b r"
proof -
  have i: "at_least a \<and> at_least b \<and>
       i = PSA_ALG_AT_LEAST_THIS_LENGTH_MAC a (max (len_of_alg a) (len_of_alg b)) \<or>
     at_least a \<and> \<not> at_least b \<and> len_of_alg a \<le> len_of_alg b \<and> i = b \<or>
     \<not> at_least a \<and> at_least b \<and> len_of_alg b \<le> len_of_alg a \<and> i = a"
    using i unfolding aead_intersection_def Let_def alg_fields at_least_def [symmetric] max_def
    by (auto split: if_splits)
  have ib: "base_of i = base_of a" using i m(3) by (auto simp: alg_fields)
  then have im: "PSA_ALG_IS_AEAD i" using m(1) by (metis base_of_category(2))
  show ?thesis
  proof (cases "PSA_ALG_IS_AEAD r")
    case False
    then show ?thesis using permits_base [of kt i r] permits_base [of kt a r] m im by blast
  next
    case True
    have lt: "len_of_alg a < 64" "len_of_alg b < 64" by (rule len_of_alg_less)+
    note p = permits_aead [OF _ True, of _ kt] permits_aead_request [OF _ True _ r]
    from i consider "at_least a" "at_least b"
        "i = PSA_ALG_AT_LEAST_THIS_LENGTH_MAC a (max (len_of_alg a) (len_of_alg b))"
      | "at_least a" "\<not> at_least b" "len_of_alg a \<le> len_of_alg b" "i = b"
      | "\<not> at_least a" "at_least b" "len_of_alg b \<le> len_of_alg a" "i = a" by blast
    then show ?thesis
    proof cases
      case 1
      then have "len_of_alg i = max (len_of_alg a) (len_of_alg b)" "at_least i"
        using lt by (simp_all add: alg_fields)
      then show ?thesis using p(2) [OF im] p(2) [OF m(1)] p(2) [OF m(2)] 1 ib m(3) by auto
    next
      case 2 then show ?thesis using p(1) [OF m(2)] p(2) [OF m(1)] m(3) by auto
    next
      case 3 then show ?thesis using p(1) [OF m(1)] p(2) [OF m(2)] m(3) by auto
    qed
  qed
qed

lemma sign_intersection_permits:
  assumes s: "PSA_ALG_IS_SIGN_HASH a" "PSA_ALG_IS_SIGN_HASH b"
    "a AND NOT PSA_ALG_HASH_MASK = b AND NOT PSA_ALG_HASH_MASK"
    "PSA_ALG_SIGN_GET_HASH a = PSA_ALG_ANY_HASH" and p: "psa_key_algorithm_permits kt b r"
  shows "psa_key_algorithm_permits kt a r"
proof -
  have "category_of b = 0x06000000" by (rule category_sign [OF s(2)])
  with p have "r = b \<or> sign_case b r"
    using case_categories(2,4) [of b r] case_categories(3) [of kt b r] by (auto simp: permits_iff)
  then have "sign_case a r" using s by (auto simp: sign_case_def)
  then show ?thesis by (simp add: permits_iff)
qed

text \<open>The branches of the intersection.\<close>

lemma intersection_cases:
  obtains (same) "a = b" "psa_key_policy_algorithm_intersection kt a b = a"
  | (sign1) "a \<noteq> b" "PSA_ALG_IS_SIGN_HASH a" "PSA_ALG_IS_SIGN_HASH b"
      "a AND NOT PSA_ALG_HASH_MASK = b AND NOT PSA_ALG_HASH_MASK"
      "PSA_ALG_SIGN_GET_HASH a = PSA_ALG_ANY_HASH" "psa_key_policy_algorithm_intersection kt a b = b"
  | (sign2) "a \<noteq> b" "PSA_ALG_IS_SIGN_HASH a" "PSA_ALG_IS_SIGN_HASH b"
      "a AND NOT PSA_ALG_HASH_MASK = b AND NOT PSA_ALG_HASH_MASK"
      "PSA_ALG_SIGN_GET_HASH b = PSA_ALG_ANY_HASH" "psa_key_policy_algorithm_intersection kt a b = a"
  | (aead) i where "a \<noteq> b" "PSA_ALG_IS_AEAD a" "PSA_ALG_IS_AEAD b" "base_of a = base_of b"
      "aead_intersection a b = Some i" "psa_key_policy_algorithm_intersection kt a b = i"
  | (mac) "a \<noteq> b" "PSA_ALG_IS_MAC a" "PSA_ALG_IS_MAC b" "base_of a = base_of b"
      "psa_key_policy_algorithm_intersection kt a b = mac_intersection kt a b"
  | (none) "a \<noteq> b" "psa_key_policy_algorithm_intersection kt a b = 0"
      "\<not> (PSA_ALG_IS_SIGN_HASH a \<and> PSA_ALG_IS_SIGN_HASH b \<and>
          a AND NOT PSA_ALG_HASH_MASK = b AND NOT PSA_ALG_HASH_MASK \<and>
          (PSA_ALG_SIGN_GET_HASH a = PSA_ALG_ANY_HASH \<or> PSA_ALG_SIGN_GET_HASH b = PSA_ALG_ANY_HASH))"
      "\<not> (PSA_ALG_IS_AEAD a \<and> PSA_ALG_IS_AEAD b \<and> base_of a = base_of b \<and> aead_intersection a b \<noteq> None)"
      "\<not> (PSA_ALG_IS_MAC a \<and> PSA_ALG_IS_MAC b \<and> base_of a = base_of b)"
proof -
  have base: "PSA_ALG_AEAD_WITH_SHORTENED_TAG x 0 = base_of x" for x
    by (simp add: alg_fields truncated_0_eq)
  let ?s = "PSA_ALG_IS_SIGN_HASH a \<and> PSA_ALG_IS_SIGN_HASH b \<and>
     a AND NOT PSA_ALG_HASH_MASK = b AND NOT PSA_ALG_HASH_MASK"
  let ?A = "PSA_ALG_IS_AEAD a \<and> PSA_ALG_IS_AEAD b \<and> base_of a = base_of b"
  let ?M = "PSA_ALG_IS_MAC a \<and> PSA_ALG_IS_MAC b \<and> base_of a = base_of b"
  note d = psa_key_policy_algorithm_intersection_def [of kt a b, unfolded base Let_def]
  consider "a = b" | "a \<noteq> b" "?s" "PSA_ALG_SIGN_GET_HASH a = PSA_ALG_ANY_HASH"
    | "a \<noteq> b" "?s" "PSA_ALG_SIGN_GET_HASH a \<noteq> PSA_ALG_ANY_HASH" "PSA_ALG_SIGN_GET_HASH b = PSA_ALG_ANY_HASH"
    | "a \<noteq> b" "\<not> (?s \<and> (PSA_ALG_SIGN_GET_HASH a = PSA_ALG_ANY_HASH \<or> PSA_ALG_SIGN_GET_HASH b = PSA_ALG_ANY_HASH))"
    by blast
  then show thesis
  proof cases
    case 1
    have "psa_key_policy_algorithm_intersection kt a b = a" unfolding d using 1 by (rule if_P)
    with 1 show thesis by (rule same)
  next
    case 2 then show thesis by (intro sign1) (simp_all add: d)
  next
    case 3 then show thesis by (intro sign2) (simp_all add: d)
  next
    case 4
    then have e: "psa_key_policy_algorithm_intersection kt a b =
        (case if ?A then aead_intersection a b else None of Some alg \<Rightarrow> alg
         | None \<Rightarrow> if ?M then mac_intersection kt a b else 0)"
      unfolding d by (simp only: if_False simp_thms) (auto split: option.split)
    show thesis
    proof (cases "if ?A then aead_intersection a b else None")
      case (Some i)
      then have "?A" "aead_intersection a b = Some i" by (simp_all split: if_splits)
      with 4 e Some show thesis by (intro aead [of i]) simp_all
    next
      case None
      then have e: "psa_key_policy_algorithm_intersection kt a b = (if ?M then mac_intersection kt a b else 0)"
        using e by simp
      show thesis
      proof (cases "?M")
        case True with 4 e show thesis by (intro mac) simp_all
      next
        case False
        from None have "\<not> (?A \<and> aead_intersection a b \<noteq> None)" by (simp split: if_splits) blast?
        with 4 e False show thesis by (intro none) simp_all
      qed
    qed
  qed
qed

lemma intersection_sound:
  assumes r: "proper_request kt r"
    and p: "psa_key_algorithm_permits kt (psa_key_policy_algorithm_intersection kt a b) r"
  shows "psa_key_algorithm_permits kt a r \<and> psa_key_algorithm_permits kt b r"
proof (cases rule: intersection_cases [of a b kt])
  case sign1 with p show ?thesis by (metis sign_intersection_permits)
next
  case sign2 with p show ?thesis by (metis sign_intersection_permits)
next
  case (aead i) with p r show ?thesis by (metis aead_intersection_permits)
next
  case mac with p r show ?thesis by (metis mac_intersection_permits)
next
  case none with p r permits_zero show ?thesis by (auto simp: proper_request_def)
qed (use p in simp)

lemma intersection_complete:
  assumes r: "proper_request kt r" and pa: "psa_key_algorithm_permits kt a r"
    and pb: "psa_key_algorithm_permits kt b r"
    and k: "\<not> agreement_case a r" "\<not> agreement_case b r"
  shows "psa_key_algorithm_permits kt (psa_key_policy_algorithm_intersection kt a b) r"
proof (cases rule: intersection_cases [of a b kt])
  case (aead i) with pa pb r show ?thesis by (metis aead_intersection_permits)
next
  case mac with pa pb r show ?thesis by (metis mac_intersection_permits)
next
  case none
  have cat: "category_of a = category_of r" "category_of b = category_of r"
    using pa pb permits_other_category by blast+
  have False if "sign_case a r \<or> sign_case b r"
  proof -
    from that have c: "category_of r = 0x06000000" using case_categories(1) by blast
    then have "\<not> aead_case x r" "\<not> mac_case kt x r" for x
      using case_categories(2) [of x r] case_categories(3) [of kt x r] by auto
    then have "r = a \<or> sign_case a r" "r = b \<or> sign_case b r"
      using pa pb k by (auto simp: permits_iff)
    with that none(1,3) category_hash_sign show False by (auto simp: sign_case_def)
  qed
  moreover have False if "aead_case a r \<or> aead_case b r"
  proof -
    from that have "PSA_ALG_IS_AEAD r" by (auto simp: aead_case_def)
    then have c: "PSA_ALG_IS_AEAD a" "PSA_ALG_IS_AEAD b" using cat by (simp_all add: category_simple)
    note p = pa [unfolded permits_aead [OF c(1) \<open>PSA_ALG_IS_AEAD r\<close>]] pb [unfolded permits_aead [OF c(2) \<open>PSA_ALG_IS_AEAD r\<close>]]
    then have "base_of a = base_of b" by auto
    with c none(4) have "aead_intersection a b = None" by blast
    with p none(1) show False
      unfolding aead_intersection_def Let_def alg_fields at_least_def [symmetric] by (auto split: if_splits)
  qed
  moreover have False if "mac_case kt a r \<or> mac_case kt b r"
  proof -
    from that have "PSA_ALG_IS_MAC r" by (auto simp: mac_case_def)
    then have c: "PSA_ALG_IS_MAC a" "PSA_ALG_IS_MAC b" using cat by (simp_all add: category_simple)
    with permits_base [OF pa] permits_base [OF pb] none(5) show False by auto
  qed
  ultimately show ?thesis using pa pb k none(1) by (auto simp: permits_iff)
qed (use pa pb in simp_all)

lemma intersection_same: "psa_key_policy_algorithm_intersection kt a a = a"
  by (cases rule: intersection_cases [of a a kt]) simp_all

lemma agreement_not_intersected:
  assumes r: "proper_request kt r" and ab: "a \<noteq> b" "agreement_case a r \<or> agreement_case b r"
  shows "\<not> psa_key_algorithm_permits kt (psa_key_policy_algorithm_intersection kt a b) r"
proof
  assume p: "psa_key_algorithm_permits kt (psa_key_policy_algorithm_intersection kt a b) r"
  from intersection_sound [OF r p] have "category_of a = category_of r" "category_of b = category_of r"
    using permits_other_category by blast+
  moreover have "category_of r = 0x09000000 \<or> category_of r = 0x0a000000" using ab(2) case_categories(4) by blast
  ultimately have c: "category_of a = 0x09000000 \<or> category_of a = 0x0a000000" "category_of b = category_of a" by auto
  show False
  proof (cases rule: intersection_cases [of a b kt])
    case none with p permits_zero r show ?thesis by (auto simp: proper_request_def)
  qed (use ab c category_sign [of a] in \<open>auto simp: category_simple\<close>)
qed

lemma restricted_policy:
  assumes "psa_restrict_key_policy kt policy constraint = (PSA_SUCCESS, restricted)"
  shows "restricted = \<lparr>policy_usage = policy_usage policy AND policy_usage constraint,
    policy_alg = psa_key_policy_algorithm_intersection kt (policy_alg policy) (policy_alg constraint),
    policy_alg2 = psa_key_policy_algorithm_intersection kt (policy_alg2 policy) (policy_alg2 constraint)\<rparr>"
proof -
  have "restricted = policy\<lparr>policy_usage := policy_usage policy AND policy_usage constraint,
      policy_alg := psa_key_policy_algorithm_intersection kt (policy_alg policy) (policy_alg constraint),
      policy_alg2 := psa_key_policy_algorithm_intersection kt (policy_alg2 policy) (policy_alg2 constraint)\<rparr>"
    using assms unfolding psa_restrict_key_policy_def Let_def by (simp split: if_splits)
  then show ?thesis by (cases policy) simp
qed

lemma restrict_sound:
  assumes "psa_restrict_key_policy kt policy constraint = (PSA_SUCCESS, restricted)"
    and "proper_request kt alg" "psa_key_policy_permits restricted kt alg = PSA_SUCCESS"
  shows "psa_key_policy_permits policy kt alg = PSA_SUCCESS \<and>
    psa_key_policy_permits constraint kt alg = PSA_SUCCESS \<and>
    policy_usage restricted = policy_usage policy AND policy_usage constraint"
proof -
  let ?i1 = "psa_key_policy_algorithm_intersection kt (policy_alg policy) (policy_alg constraint)"
  let ?i2 = "psa_key_policy_algorithm_intersection kt (policy_alg2 policy) (policy_alg2 constraint)"
  note res = restricted_policy [OF assms(1)]
  have p: "psa_key_policy_permits pol kt alg = PSA_SUCCESS \<longleftrightarrow>
      psa_key_algorithm_permits kt (policy_alg pol) alg \<or> psa_key_algorithm_permits kt (policy_alg2 pol) alg" for pol
    using assms(2) by (simp add: psa_key_policy_permits_def proper_request_def)
  from assms(3) have "psa_key_algorithm_permits kt ?i1 alg \<or> psa_key_algorithm_permits kt ?i2 alg"
    by (simp add: p res)
  then have "psa_key_algorithm_permits kt (policy_alg policy) alg \<and> psa_key_algorithm_permits kt (policy_alg constraint) alg \<or>
      psa_key_algorithm_permits kt (policy_alg2 policy) alg \<and> psa_key_algorithm_permits kt (policy_alg2 constraint) alg"
    by (blast intro: intersection_sound [OF assms(2), THEN conjunct1] intersection_sound [OF assms(2), THEN conjunct2])
  moreover have "policy_usage restricted = policy_usage policy AND policy_usage constraint" by (simp add: res)
  ultimately show ?thesis unfolding p by blast
qed

section \<open>Properties\<close>

text \<open>C17: Intersecting two policy algorithms is exact, but for key agreement and J-PAKE: among the algorithms
  that an operation can ask for (not zero, no wildcard, and a MAC no longer than its full length), those
  that the intersection permits are exactly those that both policies permit, where two different policies
  lose every algorithm that one of them permits as the base of a key agreement or of J-PAKE. So it never
  widens a policy.\<close>

theorem intersection_exact:
  assumes "proper_request kt r"
  shows "psa_key_algorithm_permits kt (psa_key_policy_algorithm_intersection kt a b) r \<longleftrightarrow>
    psa_key_algorithm_permits kt a r \<and> psa_key_algorithm_permits kt b r \<and> (a = b \<or> \<not> agreement_case a r \<and> \<not> agreement_case b r)"
proof (cases "a = b")
  case True
  then show ?thesis by (simp add: intersection_same)
next
  case False
  then show ?thesis
    using intersection_sound [OF assms, of a b] intersection_complete [OF assms, of a b] agreement_not_intersected [OF assms, of a b] by blast
qed

lemma intersection_exact_witness:
  "psa_key_policy_algorithm_intersection PSA_KEY_TYPE_HMAC 0x03908009 0x03940009 = 0x03940009 \<and>
   psa_key_algorithm_permits PSA_KEY_TYPE_HMAC
     (psa_key_policy_algorithm_intersection PSA_KEY_TYPE_HMAC 0x03908009 0x03940009) 0x03940009"
proof -
  have "proper_request PSA_KEY_TYPE_HMAC 0x03940009" by code_simp
  moreover have "\<not> agreement_case 0x03908009 0x03940009" "\<not> agreement_case 0x03940009 0x03940009" by code_simp+
  moreover have "psa_key_algorithm_permits PSA_KEY_TYPE_HMAC 0x03908009 0x03940009"
    "psa_key_algorithm_permits PSA_KEY_TYPE_HMAC 0x03940009 0x03940009" by code_simp+
  ultimately have "psa_key_algorithm_permits PSA_KEY_TYPE_HMAC
     (psa_key_policy_algorithm_intersection PSA_KEY_TYPE_HMAC 0x03908009 0x03940009) 0x03940009"
    using intersection_exact [of PSA_KEY_TYPE_HMAC "0x03940009" "0x03908009" "0x03940009"] by blast
  moreover have "psa_key_policy_algorithm_intersection PSA_KEY_TYPE_HMAC 0x03908009 0x03940009 = 0x03940009"
    by code_simp
  ultimately show ?thesis by blast
qed

text \<open>A request for a wildcard algorithm, or for no algorithm, is refused whatever the policy.\<close>

lemma wildcard_refused:
  "alg = 0 \<or> PSA_ALG_IS_WILDCARD alg \<Longrightarrow>
   psa_key_policy_permits policy kt alg = PSA_ERROR_INVALID_ARGUMENT"
  by (auto simp: psa_key_policy_permits_def)

end
