(* ===== verification/Its_File.thy ===== *)
theory Its_File
  imports Crypto_Values
begin

text \<open>
  Internal trusted storage over files (core/psa_its_file.c), on a model of the C library's file
  functions. The disk maps file names to contents. Every call to the C library may fail: the
  outcomes of the coming calls are a list in the state, and a call for which none is left
  succeeds. A failed read or write transfers a prefix of the data, as fread and fwrite may.
\<close>

section \<open>Files\<close>

datatype io_outcome = IO_ok | IO_error nat

record file_system =
  disk :: "string \<Rightarrow> bytes option"
  io_outcomes :: "io_outcome list"

definition next_io :: "file_system \<Rightarrow> io_outcome \<times> file_system" where
  "next_io fs = (case io_outcomes fs of
     [] \<Rightarrow> (IO_ok, fs)
   | x # xs \<Rightarrow> (x, fs\<lparr>io_outcomes := xs\<rparr>))"

text \<open>A stream open for reading: the contents of its file and the position in it.\<close>

type_synonym read_stream = "bytes \<times> nat"

definition fopen_rb :: "string \<Rightarrow> file_system \<Rightarrow> read_stream option \<times> file_system" where
  "fopen_rb name fs =
    (let (x, fs) = next_io fs in
     case disk fs name of
       None \<Rightarrow> (None, fs)
     | Some content \<Rightarrow> (if x = IO_ok then Some (content, 0) else None, fs))"

definition fread :: "nat \<Rightarrow> read_stream \<Rightarrow> file_system \<Rightarrow> bytes \<times> read_stream \<times> file_system" where
  "fread n stream fs =
    (let (content, pos) = stream;
         (x, fs) = next_io fs;
         available = (case x of IO_ok \<Rightarrow> n | IO_error k \<Rightarrow> min k n);
         d = take available (drop pos content)
     in (d, (content, pos + length d), fs))"

definition fseek_cur :: "nat \<Rightarrow> read_stream \<Rightarrow> file_system \<Rightarrow> bool \<times> read_stream \<times> file_system" where
  "fseek_cur offset stream fs =
    (let (x, fs) = next_io fs in
     if x = IO_ok then (True, (fst stream, snd stream + offset), fs) else (False, stream, fs))"

text \<open>Writing is unbuffered; a stream open for writing is the name of its file.\<close>

definition fopen_wb :: "string \<Rightarrow> file_system \<Rightarrow> string option \<times> file_system" where
  "fopen_wb name fs =
    (let (x, fs) = next_io fs in
     if x = IO_ok then (Some name, fs\<lparr>disk := (disk fs)(name \<mapsto> [])\<rparr>) else (None, fs))"

definition fwrite :: "bytes \<Rightarrow> string \<Rightarrow> file_system \<Rightarrow> nat \<times> file_system" where
  "fwrite d name fs =
    (let (x, fs) = next_io fs;
         n = (case x of IO_ok \<Rightarrow> length d | IO_error k \<Rightarrow> min k (length d))
     in (n, fs\<lparr>disk := (disk fs)(name \<mapsto> the (disk fs name) @ take n d)\<rparr>))"

definition fclose :: "file_system \<Rightarrow> bool \<times> file_system" where
  "fclose fs = (let (x, fs) = next_io fs in (x = IO_ok, fs))"

definition rename_replace_existing ::
    "string \<Rightarrow> string \<Rightarrow> file_system \<Rightarrow> bool \<times> file_system" where
  "rename_replace_existing oldpath newpath fs =
    (let (x, fs) = next_io fs in
     if x = IO_ok \<and> disk fs oldpath \<noteq> None
     then (True, fs\<lparr>disk := (disk fs)(newpath := disk fs oldpath, oldpath := None)\<rparr>)
     else (False, fs))"

definition remove_file :: "string \<Rightarrow> file_system \<Rightarrow> bool \<times> file_system" where
  "remove_file name fs =
    (let (x, fs) = next_io fs in
     if x = IO_ok \<and> disk fs name \<noteq> None then (True, fs\<lparr>disk := (disk fs)(name := None)\<rparr>)
     else (False, fs))"

section \<open>File names\<close>

type_synonym psa_storage_uid = u64
type_synonym psa_storage_create_flags = u32

definition hex_digit :: "nat \<Rightarrow> char" where
  "hex_digit n = ''0123456789abcdef'' ! n"

text \<open>The conversion \<open>%08x\<close> of a 32-bit value.\<close>

definition format_08x :: "u32 \<Rightarrow> string" where
  "format_08x w = map (\<lambda>i. hex_digit (unat (drop_bit (4 * i) w AND 0xf))) [7, 6, 5, 4, 3, 2, 1, 0]"

definition PSA_ITS_STORAGE_SUFFIX :: string where
  "PSA_ITS_STORAGE_SUFFIX = ''.psa_its''"

definition PSA_ITS_STORAGE_TEMP :: string where
  "PSA_ITS_STORAGE_TEMP = ''tempfile'' @ PSA_ITS_STORAGE_SUFFIX"

definition PSA_ITS_STORAGE_FILENAME_LENGTH :: nat where
  "PSA_ITS_STORAGE_FILENAME_LENGTH = 16 + length PSA_ITS_STORAGE_SUFFIX + 1"

text \<open>snprintf keeps at most one character less than the size of the buffer.\<close>

definition psa_its_fill_filename :: "psa_storage_uid \<Rightarrow> string" where
  "psa_its_fill_filename uid =
     take (PSA_ITS_STORAGE_FILENAME_LENGTH - 1)
       (format_08x (ucast (drop_bit 32 uid)) @ format_08x (ucast (uid AND 0xffffffff)) @
        PSA_ITS_STORAGE_SUFFIX)"

section \<open>Storage operations\<close>

definition PSA_ITS_MAGIC_STRING :: bytes where
  "PSA_ITS_MAGIC_STRING = [0x50, 0x53, 0x41, 0x00, 0x49, 0x54, 0x53, 0x00]"

abbreviation PSA_ITS_MAGIC_LENGTH :: nat where "PSA_ITS_MAGIC_LENGTH \<equiv> 8"

text \<open>The size of psa_its_file_header_t: the magic string, the size and the flags.\<close>

abbreviation its_header_length :: nat where "its_header_length \<equiv> PSA_ITS_MAGIC_LENGTH + 4 + 4"

record psa_storage_info =
  info_size :: u32
  info_flags :: psa_storage_create_flags

definition psa_its_read_file ::
    "psa_storage_uid \<Rightarrow> file_system \<Rightarrow>
     psa_status \<times> psa_storage_info option \<times> read_stream option \<times> file_system" where
  "psa_its_read_file uid fs =
    (let (p_stream, fs) = fopen_rb (psa_its_fill_filename uid) fs in
     case p_stream of
       None \<Rightarrow> (PSA_ERROR_DOES_NOT_EXIST, None, None, fs)
     | Some stream \<Rightarrow>
         let (header, stream, fs) = fread its_header_length stream fs in
         if length header \<noteq> its_header_length
         then (PSA_ERROR_DATA_CORRUPT, None, Some stream, fs)
         else if take PSA_ITS_MAGIC_LENGTH header \<noteq> PSA_ITS_MAGIC_STRING
         then (PSA_ERROR_DATA_CORRUPT, None, Some stream, fs)
         else (PSA_SUCCESS,
               Some \<lparr>info_size = get_uint32_le header 8, info_flags = get_uint32_le header 12\<rparr>,
               Some stream, fs))"

text \<open>Closing a stream that was opened; the result of fclose is ignored on the read paths.\<close>

definition close_if_open :: "'a option \<Rightarrow> file_system \<Rightarrow> file_system" where
  "close_if_open stream fs = (if stream = None then fs else snd (fclose fs))"

definition psa_its_get_info ::
    "psa_storage_uid \<Rightarrow> file_system \<Rightarrow> psa_status \<times> psa_storage_info option \<times> file_system" where
  "psa_its_get_info uid fs =
    (let (status, info, stream, fs) = psa_its_read_file uid fs
     in (status, info, close_if_open stream fs))"

text \<open>The sum of the offset and the length is a sum of 32-bit values.\<close>

definition psa_its_get ::
    "psa_storage_uid \<Rightarrow> u32 \<Rightarrow> u32 \<Rightarrow> file_system \<Rightarrow> psa_status \<times> bytes \<times> nat option \<times> file_system" where
  "psa_its_get uid data_offset data_length fs =
    (let (status, info, stream, fs) = psa_its_read_file uid fs in
     if status \<noteq> PSA_SUCCESS then (status, [], None, close_if_open stream fs)
     else if data_offset + data_length < data_offset
     then (PSA_ERROR_INVALID_ARGUMENT, [], None, close_if_open stream fs)
     else if data_offset + data_length > info_size (the info)
     then (PSA_ERROR_INVALID_ARGUMENT, [], None, close_if_open stream fs)
     else
       let (ok, s, fs) = fseek_cur (unat data_offset) (the stream) fs in
       if \<not> ok then (PSA_ERROR_STORAGE_FAILURE, [], None, close_if_open stream fs)
       else
         let (p_data, s, fs) = fread (unat data_length) s fs in
         if length p_data \<noteq> unat data_length
         then (PSA_ERROR_STORAGE_FAILURE, p_data, None, close_if_open stream fs)
         else (PSA_SUCCESS, p_data, Some (length p_data), close_if_open stream fs))"

definition its_header :: "u32 \<Rightarrow> psa_storage_create_flags \<Rightarrow> bytes" where
  "its_header data_length create_flags =
     PSA_ITS_MAGIC_STRING @ put_uint32_le data_length @ put_uint32_le create_flags"

text \<open>Filling the temporary file: the part of psa_its_set before the label \<open>exit\<close>.\<close>

definition its_write_temp ::
    "u32 \<Rightarrow> bytes \<Rightarrow> psa_storage_create_flags \<Rightarrow> file_system \<Rightarrow> psa_status \<times> string option \<times> file_system" where
  "its_write_temp data_length p_data create_flags fs =
    (let header = its_header data_length create_flags;
         (stream, fs) = fopen_wb PSA_ITS_STORAGE_TEMP fs in
     case stream of
       None \<Rightarrow> (PSA_ERROR_STORAGE_FAILURE, None, fs)
     | Some s \<Rightarrow>
         let (n, fs) = fwrite header s fs in
         if n \<noteq> length header then (PSA_ERROR_INSUFFICIENT_STORAGE, stream, fs)
         else if data_length \<noteq> 0 then
           let (n, fs) = fwrite (take (unat data_length) p_data) s fs in
           if n \<noteq> unat data_length then (PSA_ERROR_INSUFFICIENT_STORAGE, stream, fs)
           else (PSA_SUCCESS, stream, fs)
         else (PSA_SUCCESS, stream, fs))"

definition psa_its_set ::
    "psa_storage_uid \<Rightarrow> u32 \<Rightarrow> bytes \<Rightarrow> psa_storage_create_flags \<Rightarrow> file_system \<Rightarrow>
     psa_status \<times> file_system" where
  "psa_its_set uid data_length p_data create_flags fs =
    (if uid = 0 then (PSA_ERROR_INVALID_HANDLE, fs)
     else
       let filename = psa_its_fill_filename uid;
           (status, stream, fs) = its_write_temp data_length p_data create_flags fs;
           (status, fs) =
             (if stream = None then (status, fs)
              else let (closed, fs) = fclose fs in
                (if status = PSA_SUCCESS \<and> \<not> closed then PSA_ERROR_INSUFFICIENT_STORAGE else status, fs));
           (status, fs) =
             (if status = PSA_SUCCESS then
                let (renamed, fs) = rename_replace_existing PSA_ITS_STORAGE_TEMP filename fs in
                (if \<not> renamed then PSA_ERROR_STORAGE_FAILURE else status, fs)
              else (status, fs));
           (_, fs) = remove_file PSA_ITS_STORAGE_TEMP fs
       in (status, fs))"

definition psa_its_remove :: "psa_storage_uid \<Rightarrow> file_system \<Rightarrow> psa_status \<times> file_system" where
  "psa_its_remove uid fs =
    (let filename = psa_its_fill_filename uid;
         (stream, fs) = fopen_rb filename fs in
     case stream of
       None \<Rightarrow> (PSA_ERROR_DOES_NOT_EXIST, fs)
     | Some _ \<Rightarrow>
         let (_, fs) = fclose fs;
             (removed, fs) = remove_file filename fs
         in if \<not> removed then (PSA_ERROR_STORAGE_FAILURE, fs) else (PSA_SUCCESS, fs))"

end
