(* ===== verification/Its_Store.thy ===== *)
theory Its_Store
  imports Its_File
begin

text \<open>
  The file-backed storage as an abstract store: a map from identifiers to data and flags. The
  files of a well-formed disk are exactly the encodings of the entries; every operation keeps
  that, whatever calls to the C library fail, and acts on the map as a storage interface
  promises. The interface is a locale, interpreted at the end on the operations of Its_File.
\<close>

section \<open>File names are distinct\<close>

lemma length_format_08x [simp]: "length (format_08x w) = 8"
  by (simp add: format_08x_def)

lemma filename_eq:
  "psa_its_fill_filename uid =
     format_08x (ucast (drop_bit 32 uid)) @ format_08x (ucast (uid AND 0xffffffff)) @ PSA_ITS_STORAGE_SUFFIX"
  by (simp add: psa_its_fill_filename_def PSA_ITS_STORAGE_FILENAME_LENGTH_def)

lemma hex_digit_inj:
  assumes "m < 16" "n < 16" "hex_digit m = hex_digit n" shows "m = n"
proof -
  have "distinct ''0123456789abcdef''" by simp
  then show ?thesis using assms nth_eq_iff_index_eq [of "''0123456789abcdef''" m n]
    by (simp add: hex_digit_def)
qed

lemma nibble_less: "unat (x AND 0xf :: u32) < 16"
proof -
  have "(0xf :: u32) = mask 4" by (simp add: mask_eq_decr_exp)
  then have "unat (x AND 0xf) = take_bit 4 (unat x)"
    by (simp only: take_bit_eq_mask [symmetric] unsigned_take_bit_eq)
  then show ?thesis using take_bit_nat_less_exp [of 4 "unat x"] by simp
qed

lemma format_08x_inj:
  assumes "format_08x v = format_08x w" shows "v = w"
proof (rule bit_word_eqI)
  fix n assume n: "n < LENGTH(32)"
  let ?i = "n div 4"
  have i: "?i \<in> set [7, 6, 5, 4, 3, 2, 1, 0]" using n by auto
  have "hex_digit (unat (drop_bit (4 * ?i) v AND 0xf)) = hex_digit (unat (drop_bit (4 * ?i) w AND 0xf))"
    using assms i unfolding format_08x_def map_eq_conv by blast
  then have "unat (drop_bit (4 * ?i) v AND 0xf) = unat (drop_bit (4 * ?i) w AND 0xf)"
    by (rule hex_digit_inj [OF nibble_less nibble_less])
  then have e: "drop_bit (4 * ?i) v AND 0xf = drop_bit (4 * ?i) w AND 0xf"
    by (rule word_unat_eq_iff [THEN iffD2])
  have m: "(0xf :: u32) = mask 4" by (simp add: mask_eq_decr_exp)
  have "bit (drop_bit (4 * ?i) v AND 0xf) (n mod 4) = bit (drop_bit (4 * ?i) w AND 0xf) (n mod 4)"
    using e by simp
  moreover have "n mod 4 < 4" by simp
  then have "n mod 4 < 32" by linarith
  ultimately show "bit v n = bit w n"
    unfolding m by (simp only: bit_and_iff bit_drop_bit_eq o_def bit_mask_iff) simp
qed

lemma filename_inj: "psa_its_fill_filename u = psa_its_fill_filename v \<longleftrightarrow> u = v"
proof
  assume "psa_its_fill_filename u = psa_its_fill_filename v"
  then have "format_08x (ucast (drop_bit 32 u)) = format_08x (ucast (drop_bit 32 v))"
    "format_08x (ucast (u AND 0xffffffff)) = format_08x (ucast (v AND 0xffffffff))"
    by (simp_all add: filename_eq)
  then have hi: "(ucast (drop_bit 32 u) :: u32) = ucast (drop_bit 32 v)"
    and lo: "(ucast (u AND 0xffffffff) :: u32) = ucast (v AND 0xffffffff)"
    by (blast dest: format_08x_inj)+
  have m: "(0xffffffff :: u64) = mask 32" by (simp add: mask_eq_decr_exp)
  show "u = v"
  proof (rule bit_word_eqI)
    fix n assume n: "n < LENGTH(64)"
    have h: "bit (ucast (drop_bit 32 u) :: u32) (n - 32) = bit (ucast (drop_bit 32 v) :: u32) (n - 32)"
      using hi by simp
    have l: "bit (ucast (u AND 0xffffffff) :: u32) n = bit (ucast (v AND 0xffffffff) :: u32) n"
      using lo by simp
    have "\<not> n < 32 \<Longrightarrow> n - 32 < 32" using n by simp
    then show "bit u n = bit v n"
      using h l n unfolding m
      by (cases "n < 32") (simp_all add: bit_simps del: mask_numeral)
  qed
qed simp

lemma filename_not_temp: "psa_its_fill_filename u \<noteq> PSA_ITS_STORAGE_TEMP"
proof
  assume "psa_its_fill_filename u = PSA_ITS_STORAGE_TEMP"
  then have "length (psa_its_fill_filename u) = length PSA_ITS_STORAGE_TEMP" by simp
  then show False by (simp add: filename_eq PSA_ITS_STORAGE_TEMP_def)
qed

section \<open>The abstract store\<close>

type_synonym its_entry = "bytes \<times> psa_storage_create_flags"

definition encode_entry :: "its_entry \<Rightarrow> bytes" where
  "encode_entry e = its_header (word_of_nat (length (fst e))) (snd e) @ fst e"

text \<open>Every file with the name of an entry is the encoding of an entry whose size fits 32 bits.\<close>

definition disk_ok :: "file_system \<Rightarrow> bool" where
  "disk_ok fs \<longleftrightarrow> (\<forall>uid d. disk fs (psa_its_fill_filename uid) = Some d \<longrightarrow>
     (\<exists>e. d = encode_entry e \<and> length (fst e) < 2 ^ 32))"

definition decode_entry :: "bytes \<Rightarrow> its_entry" where
  "decode_entry d = (drop its_header_length d, get_uint32_le d 12)"

definition its_abs :: "file_system \<Rightarrow> psa_storage_uid \<Rightarrow> its_entry option" where
  "its_abs fs uid = map_option decode_entry (disk fs (psa_its_fill_filename uid))"

lemma length_magic [simp]: "length PSA_ITS_MAGIC_STRING = 8"
  by (simp add: PSA_ITS_MAGIC_STRING_def)

lemma length_its_header [simp]: "length (its_header n f) = 16"
  by (simp add: its_header_def)

lemma its_header_fields:
  "take 8 (its_header n f @ d) = PSA_ITS_MAGIC_STRING"
  "get_uint32_le (its_header n f @ d) 8 = n"
  "get_uint32_le (its_header n f @ d) 12 = f"
proof -
  show "take 8 (its_header n f @ d) = PSA_ITS_MAGIC_STRING" by (simp add: its_header_def)
  have "get_uint32_le (PSA_ITS_MAGIC_STRING @ put_uint32_le n @ (put_uint32_le f @ d)) 8 = n"
    by (subst get_uint32_le_append) (simp_all add: byteorder)
  then show "get_uint32_le (its_header n f @ d) 8 = n" by (simp add: its_header_def)
  have "get_uint32_le ((PSA_ITS_MAGIC_STRING @ put_uint32_le n) @ put_uint32_le f @ d) 12 = f"
    by (subst get_uint32_le_append) (simp_all add: byteorder)
  then show "get_uint32_le (its_header n f @ d) 12 = f" by (simp add: its_header_def)
qed

lemma decode_encode [simp]: "decode_entry (encode_entry e) = e"
  by (simp add: decode_entry_def encode_entry_def its_header_fields)

lemma its_abs_Some:
  assumes "disk_ok fs" "its_abs fs uid = Some e"
  shows "disk fs (psa_its_fill_filename uid) = Some (encode_entry e)" "length (fst e) < 2 ^ 32"
proof -
  from assms(2) obtain d where d: "disk fs (psa_its_fill_filename uid) = Some d" "e = decode_entry d"
    by (auto simp: its_abs_def)
  with assms(1) obtain e' where "d = encode_entry e'" "length (fst e') < 2 ^ 32"
    unfolding disk_ok_def by blast
  with d show "disk fs (psa_its_fill_filename uid) = Some (encode_entry e)" "length (fst e) < 2 ^ 32"
    by simp_all
qed

lemma its_abs_None: "its_abs fs uid = None \<longleftrightarrow> disk fs (psa_its_fill_filename uid) = None"
  by (simp add: its_abs_def)

section \<open>The C library\<close>

named_theorems io_simps

text \<open>A state in which no call to the C library will fail.\<close>

definition no_faults :: "file_system \<Rightarrow> bool" where
  "no_faults fs \<longleftrightarrow> io_outcomes fs = []"

lemma next_io_disk [io_simps]: "disk (snd (next_io fs)) = disk fs"
  by (simp add: next_io_def split: list.split)

lemma next_io_no_faults [io_simps]: "no_faults fs \<Longrightarrow> next_io fs = (IO_ok, fs)"
  by (simp add: next_io_def no_faults_def)

lemma fopen_rb_disk [io_simps]: "disk (snd (fopen_rb name fs)) = disk fs"
  by (simp add: fopen_rb_def io_simps split: prod.split option.split) (metis next_io_disk snd_conv)

lemma fopen_rb_result:
  "fst (fopen_rb name fs) = Some s \<Longrightarrow> \<exists>d. disk fs name = Some d \<and> s = (d, 0)"
  by (auto simp: fopen_rb_def split: prod.splits option.splits if_splits)
    (metis next_io_disk snd_conv)+

lemma fopen_rb_no_faults [io_simps]:
  "no_faults fs \<Longrightarrow> fopen_rb name fs = (map_option (\<lambda>d. (d, 0)) (disk fs name), fs)"
  by (simp add: fopen_rb_def io_simps split: option.split)

lemma fread_disk [io_simps]: "disk (snd (snd (fread n s fs))) = disk fs"
  by (simp add: fread_def io_simps split: prod.split) (metis next_io_disk snd_conv)

lemma fread_result: "fread n (c, p) fs = (d, s, fs') \<Longrightarrow> d = take (length d) (drop p c) \<and> length d \<le> n \<and> s = (c, p + length d)"
  by (auto simp: fread_def Let_def split: prod.splits io_outcome.splits) (simp_all add: min_def)

lemma fread_no_faults [io_simps]:
  "no_faults fs \<Longrightarrow> fread n (c, p) fs = (take n (drop p c), (c, p + length (take n (drop p c))), fs)"
  by (simp add: fread_def io_simps)

lemma fseek_disk [io_simps]: "disk (snd (snd (fseek_cur n s fs))) = disk fs"
  by (simp add: fseek_cur_def io_simps split: prod.split) (metis next_io_disk snd_conv)

lemma fseek_no_faults [io_simps]: "no_faults fs \<Longrightarrow> fseek_cur n s fs = (True, (fst s, snd s + n), fs)"
  by (simp add: fseek_cur_def io_simps)

lemma fclose_disk [io_simps]: "disk (snd (fclose fs)) = disk fs"
  by (simp add: fclose_def io_simps split: prod.split) (metis next_io_disk snd_conv)

lemma fclose_no_faults [io_simps]: "no_faults fs \<Longrightarrow> fclose fs = (True, fs)"
  by (simp add: fclose_def io_simps)

lemma close_if_open_disk [io_simps]: "disk (close_if_open s fs) = disk fs"
  by (simp add: close_if_open_def io_simps)

lemma close_if_open_no_faults [io_simps]: "no_faults fs \<Longrightarrow> close_if_open s fs = fs"
  by (simp add: close_if_open_def io_simps)

section \<open>Reading\<close>

lemma read_file_result:
  assumes ok: "disk_ok fs" and r: "psa_its_read_file uid fs = (st, info, stream, fs')"
  shows "disk fs' = disk fs"
    "st = PSA_SUCCESS \<Longrightarrow> \<exists>e. its_abs fs uid = Some e \<and>
       info = Some \<lparr>info_size = word_of_nat (length (fst e)), info_flags = snd e\<rparr> \<and>
       stream = Some (encode_entry e, 16)"
    "its_abs fs uid = None \<Longrightarrow> st = PSA_ERROR_DOES_NOT_EXIST"
    "st \<noteq> PSA_SUCCESS \<Longrightarrow> st = PSA_ERROR_DOES_NOT_EXIST \<or> st = PSA_ERROR_DATA_CORRUPT"
proof -
  obtain p fs1 where o: "fopen_rb (psa_its_fill_filename uid) fs = (p, fs1)" by (meson surj_pair)
  have d1: "disk fs1 = disk fs" using fopen_rb_disk [of "psa_its_fill_filename uid" fs] o by simp
  have all: "disk fs' = disk fs \<and>
    (st = PSA_SUCCESS \<longrightarrow> (\<exists>e. its_abs fs uid = Some e \<and>
       info = Some \<lparr>info_size = word_of_nat (length (fst e)), info_flags = snd e\<rparr> \<and>
       stream = Some (encode_entry e, 16))) \<and>
    (its_abs fs uid = None \<longrightarrow> st = PSA_ERROR_DOES_NOT_EXIST) \<and>
    (st \<noteq> PSA_SUCCESS \<longrightarrow> st = PSA_ERROR_DOES_NOT_EXIST \<or> st = PSA_ERROR_DATA_CORRUPT)"
  proof (cases p)
    case None
    with r o d1 show ?thesis by (auto simp: psa_its_read_file_def)
  next
    case (Some s)
    then obtain d where d: "disk fs (psa_its_fill_filename uid) = Some d" "s = (d, 0)"
      using fopen_rb_result [of "psa_its_fill_filename uid" fs s] o by auto
    then obtain e where e: "d = encode_entry e" "length (fst e) < 2 ^ 32" using ok unfolding disk_ok_def by blast
    then have a: "its_abs fs uid = Some e" using d by (simp add: its_abs_def)
    obtain h s2 fs2 where f: "fread 16 s fs1 = (h, s2, fs2)" by (rule prod_cases3)
    have d2: "disk fs2 = disk fs" using fread_disk [of 16 s fs1] f d1 by simp
    have h: "h = take (length h) (encode_entry e)" "s2 = (encode_entry e, length h)"
      using fread_result [of 16 d 0 fs1 h s2 fs2] f d e by auto
    have hh: "length h = 16 \<Longrightarrow> h = its_header (word_of_nat (length (fst e))) (snd e)"
      by (subst h(1)) (simp add: encode_entry_def)
    then have "length h = 16 \<Longrightarrow> take 8 h = PSA_ITS_MAGIC_STRING \<and>
        get_uint32_le h 8 = word_of_nat (length (fst e)) \<and> get_uint32_le h 12 = snd e"
      using its_header_fields [of "word_of_nat (length (fst e))" "snd e" "[]"] by simp
    then show ?thesis
      using r o Some f a d2 h(2)
      by (auto simp: psa_its_read_file_def split: if_splits)
  qed
  then show "disk fs' = disk fs"
    "st = PSA_SUCCESS \<Longrightarrow> \<exists>e. its_abs fs uid = Some e \<and>
       info = Some \<lparr>info_size = word_of_nat (length (fst e)), info_flags = snd e\<rparr> \<and>
       stream = Some (encode_entry e, 16)"
    "its_abs fs uid = None \<Longrightarrow> st = PSA_ERROR_DOES_NOT_EXIST"
    "st \<noteq> PSA_SUCCESS \<Longrightarrow> st = PSA_ERROR_DOES_NOT_EXIST \<or> st = PSA_ERROR_DATA_CORRUPT"
    by blast+
qed

lemma read_file_no_faults:
  assumes "disk_ok fs" "no_faults fs" "its_abs fs uid = Some e"
  shows "psa_its_read_file uid fs = (PSA_SUCCESS,
     Some \<lparr>info_size = word_of_nat (length (fst e)), info_flags = snd e\<rparr>, Some (encode_entry e, 16), fs)"
proof -
  have h: "take 16 (encode_entry e) = its_header (word_of_nat (length (fst e))) (snd e)"
    by (simp add: encode_entry_def)
  have l: "length (take 16 (encode_entry e)) = 16" by (simp add: h)
  show ?thesis
    using assms its_abs_Some [OF assms(1,3)]
      its_header_fields [of "word_of_nat (length (fst e))" "snd e" "[]"]
    by (simp add: psa_its_read_file_def io_simps h)
qed

lemma its_abs_disk: "disk fs' = disk fs \<Longrightarrow> its_abs fs' = its_abs fs"
  by (simp add: its_abs_def fun_eq_iff)

lemma disk_ok_disk: "disk fs' = disk fs \<Longrightarrow> disk_ok fs' = disk_ok fs"
  by (simp add: disk_ok_def)

lemma get_info_result:
  assumes ok: "disk_ok fs" and r: "psa_its_get_info uid fs = (st, info, fs')"
  shows "disk fs' = disk fs"
    "st = PSA_SUCCESS \<Longrightarrow> \<exists>e. its_abs fs uid = Some e \<and>
       info = Some \<lparr>info_size = word_of_nat (length (fst e)), info_flags = snd e\<rparr>"
    "its_abs fs uid = None \<Longrightarrow> st = PSA_ERROR_DOES_NOT_EXIST"
proof -
  obtain stream fs1 where s: "psa_its_read_file uid fs = (st, info, stream, fs1)" "fs' = close_if_open stream fs1"
    using r by (auto simp: psa_its_get_info_def split: prod.splits)
  note f = read_file_result [OF ok s(1)]
  from f(1) s(2) show "disk fs' = disk fs" by (simp add: io_simps)
  from f(2,3) show "st = PSA_SUCCESS \<Longrightarrow> \<exists>e. its_abs fs uid = Some e \<and>
       info = Some \<lparr>info_size = word_of_nat (length (fst e)), info_flags = snd e\<rparr>"
    "its_abs fs uid = None \<Longrightarrow> st = PSA_ERROR_DOES_NOT_EXIST" by blast+
qed

lemma get_info_no_faults:
  assumes "disk_ok fs" "no_faults fs"
  shows "psa_its_get_info uid fs = (case its_abs fs uid of
     None \<Rightarrow> (PSA_ERROR_DOES_NOT_EXIST, None, fs)
   | Some e \<Rightarrow> (PSA_SUCCESS, Some \<lparr>info_size = word_of_nat (length (fst e)), info_flags = snd e\<rparr>, fs))"
proof (cases "its_abs fs uid")
  case None
  then have "disk fs (psa_its_fill_filename uid) = None" by (simp add: its_abs_None)
  with None assms(2) show ?thesis by (simp add: psa_its_get_info_def psa_its_read_file_def io_simps)
next
  case (Some e)
  with read_file_no_faults [OF assms Some] assms(2) show ?thesis
    by (simp add: psa_its_get_info_def io_simps)
qed

lemma unat_sum_no_overflow:
  fixes a b :: u32 assumes "\<not> a + b < a" shows "unat (a + b) = unat a + unat b"
proof -
  have "unat (a + b) = (unat a + unat b) mod 2 ^ 32" by (simp add: unat_word_ariths(1))
  moreover have "unat a < 2 ^ LENGTH(32)" "unat b < 2 ^ LENGTH(32)" by (rule unsigned_less)+
  moreover have "\<not> unat (a + b) < unat a" using assms by (simp add: word_less_nat_alt)
  ultimately show ?thesis by (cases "unat a + unat b < 2 ^ 32") (simp_all add: mod_if [of "unat a + unat b"])
qed

lemma drop_entry: "drop (16 + n) (encode_entry e) = drop n (fst e)"
  by (simp add: encode_entry_def)

lemma get_result:
  assumes ok: "disk_ok fs" and r: "psa_its_get uid ofs len fs = (st, d, n, fs')"
  shows "disk fs' = disk fs"
    "st = PSA_SUCCESS \<Longrightarrow> \<exists>e. its_abs fs uid = Some e \<and> unat ofs + unat len \<le> length (fst e) \<and>
       d = take (unat len) (drop (unat ofs) (fst e)) \<and> n = Some (unat len)"
    "st \<noteq> PSA_SUCCESS \<Longrightarrow> n = None"
    "its_abs fs uid = None \<Longrightarrow> st = PSA_ERROR_DOES_NOT_EXIST"
proof -
  obtain st1 info stream fs1 where s: "psa_its_read_file uid fs = (st1, info, stream, fs1)"
    by (rule prod_cases4)
  note f = read_file_result [OF ok s]
  have all: "disk fs' = disk fs \<and>
    (st = PSA_SUCCESS \<longrightarrow> (\<exists>e. its_abs fs uid = Some e \<and> unat ofs + unat len \<le> length (fst e) \<and>
       d = take (unat len) (drop (unat ofs) (fst e)) \<and> n = Some (unat len))) \<and>
    (st \<noteq> PSA_SUCCESS \<longrightarrow> n = None) \<and> (its_abs fs uid = None \<longrightarrow> st = PSA_ERROR_DOES_NOT_EXIST)"
  proof (cases "st1 = PSA_SUCCESS \<and> \<not> ofs + len < ofs \<and> \<not> ofs + len > info_size (the info)")
    case False
    with s r f show ?thesis by (auto simp: psa_its_get_def io_simps split: if_splits)
  next
    case True
    then obtain e where e: "its_abs fs uid = Some e"
      "info = Some \<lparr>info_size = word_of_nat (length (fst e)), info_flags = snd e\<rparr>" "stream = Some (encode_entry e, 16)"
      using f(2) by blast
    obtain b s2 fs2 where k: "fseek_cur (unat ofs) (encode_entry e, 16) fs1 = (b, s2, fs2)" by (rule prod_cases3)
    have d2: "disk fs2 = disk fs" using fseek_disk [of "unat ofs" "(encode_entry e, 16)" fs1] k f(1) by simp
    have s2: "b \<Longrightarrow> s2 = (encode_entry e, 16 + unat ofs)"
      using k by (auto simp: fseek_cur_def split: prod.splits if_splits)
    obtain d3 s3 fs3 where rd: "fread (unat len) s2 fs2 = (d3, s3, fs3)" by (rule prod_cases3)
    have d3: "disk fs3 = disk fs" using fread_disk [of "unat len" s2 fs2] rd d2 by simp
    have "length (fst e) < 2 ^ 32" using its_abs_Some [OF ok e(1)] by simp
    then have "unat (word_of_nat (length (fst e)) :: u32) = length (fst e)"
      by (simp add: unsigned_of_nat take_bit_nat_eq_self)
    then have le: "unat ofs + unat len \<le> length (fst e)"
      using True e(2) unat_sum_no_overflow [of ofs len] by (simp add: word_less_nat_alt not_less)
    have eq: "psa_its_get uid ofs len fs =
       (if \<not> b then (PSA_ERROR_STORAGE_FAILURE, [], None, close_if_open stream fs2)
        else if length d3 \<noteq> unat len then (PSA_ERROR_STORAGE_FAILURE, d3, None, close_if_open stream fs3)
        else (PSA_SUCCESS, d3, Some (length d3), close_if_open stream fs3))"
      using True s e k rd by (simp add: psa_its_get_def)
    show ?thesis
    proof (cases "b \<and> length d3 = unat len")
      case True
      then have "d3 = take (unat len) (drop (unat ofs) (fst e))"
        using fread_result [of "unat len" "encode_entry e" "16 + unat ofs" fs2 d3 s3 fs3] rd s2
        by (simp add: drop_entry)
      with True eq r d3 le e(1) show ?thesis by (auto simp: io_simps)
    next
      case False
      with eq r d2 d3 e(1) show ?thesis by (auto simp: io_simps split: if_splits)
    qed
  qed
  then show "disk fs' = disk fs"
    "st = PSA_SUCCESS \<Longrightarrow> \<exists>e. its_abs fs uid = Some e \<and> unat ofs + unat len \<le> length (fst e) \<and>
       d = take (unat len) (drop (unat ofs) (fst e)) \<and> n = Some (unat len)"
    "st \<noteq> PSA_SUCCESS \<Longrightarrow> n = None"
    "its_abs fs uid = None \<Longrightarrow> st = PSA_ERROR_DOES_NOT_EXIST" by blast+
qed

lemma get_no_faults:
  assumes ok: "disk_ok fs" "no_faults fs" and e: "its_abs fs uid = Some e" "unat ofs + unat len \<le> length (fst e)"
  shows "psa_its_get uid ofs len fs =
    (PSA_SUCCESS, take (unat len) (drop (unat ofs) (fst e)), Some (unat len), fs)"
proof -
  have l: "length (fst e) < 2 ^ 32" using its_abs_Some [OF ok(1) e(1)] by simp
  then have u: "unat (word_of_nat (length (fst e)) :: u32) = length (fst e)"
    by (simp add: unsigned_of_nat take_bit_nat_eq_self)
  have s: "unat (ofs + len) = unat ofs + unat len"
    using l e(2) by (simp add: unat_word_ariths(1))
  have "\<not> ofs + len < ofs" "\<not> ofs + len > word_of_nat (length (fst e))"
    using e(2) by (simp_all add: word_less_nat_alt s u)
  then show ?thesis
    using read_file_no_faults [OF ok e(1)] ok(2) e(2)
    by (simp add: psa_its_get_def io_simps drop_entry)
qed

section \<open>Writing\<close>

text \<open>Two disks that agree on everything but the temporary file.\<close>

definition same_but_temp :: "file_system \<Rightarrow> file_system \<Rightarrow> bool" where
  "same_but_temp fs fs' \<longleftrightarrow> (\<forall>name. name \<noteq> PSA_ITS_STORAGE_TEMP \<longrightarrow> disk fs' name = disk fs name)"

lemma same_but_temp_abs:
  "same_but_temp fs fs' \<Longrightarrow> its_abs fs' = its_abs fs"
  by (simp add: same_but_temp_def its_abs_def filename_not_temp fun_eq_iff)

lemma same_but_temp_ok:
  "same_but_temp fs fs' \<Longrightarrow> disk_ok fs' = disk_ok fs"
  by (simp add: same_but_temp_def disk_ok_def filename_not_temp)

lemma same_but_temp_trans: "same_but_temp a b \<Longrightarrow> same_but_temp b c \<Longrightarrow> same_but_temp a c"
  by (simp add: same_but_temp_def)

lemma same_but_temp_refl: "disk fs' = disk fs \<Longrightarrow> same_but_temp fs fs'"
  by (simp add: same_but_temp_def)

lemma fwrite_result:
  assumes "fwrite d name fs = (n, fs')"
  shows "disk fs' = (disk fs)(name \<mapsto> the (disk fs name) @ take n d)" "n \<le> length d"
  using assms next_io_disk [of fs]
  by (auto simp: fwrite_def Let_def split: prod.splits io_outcome.splits)

lemma fopen_wb_result:
  assumes "fopen_wb name fs = (p, fs')"
  shows "p = Some name \<and> disk fs' = (disk fs)(name \<mapsto> []) \<or> p = None \<and> disk fs' = disk fs"
  using assms next_io_disk [of fs]
  by (auto simp: fopen_wb_def split: prod.splits if_splits)

lemma rename_result:
  assumes "rename_replace_existing a b fs = (r, fs')"
  shows "r \<and> disk fs a \<noteq> None \<and> disk fs' = (disk fs)(b := disk fs a, a := None) \<or> \<not> r \<and> disk fs' = disk fs"
  using assms next_io_disk [of fs]
  by (auto simp: rename_replace_existing_def split: prod.splits if_splits)

lemma remove_result:
  assumes "remove_file a fs = (r, fs')"
  shows "r \<and> disk fs' = (disk fs)(a := None) \<or> \<not> r \<and> disk fs' = disk fs"
  using assms next_io_disk [of fs]
  by (auto simp: remove_file_def split: prod.splits if_splits)

lemma write_temp_result:
  assumes r: "its_write_temp (word_of_nat (length d)) d f fs = (st, stream, fs')" and l: "length d < 2 ^ 32"
  shows "same_but_temp fs fs'"
    "st = PSA_SUCCESS \<Longrightarrow> disk fs' PSA_ITS_STORAGE_TEMP = Some (encode_entry (d, f)) \<and> stream \<noteq> None"
proof -
  let ?h = "its_header (word_of_nat (length d)) f" and ?T = PSA_ITS_STORAGE_TEMP
  have u: "unat (word_of_nat (length d) :: u32) = length d"
    using l by (simp add: unsigned_of_nat take_bit_nat_eq_self)
  have z: "(word_of_nat (length d) :: u32) = 0 \<longleftrightarrow> d = []" using u by (metis length_0_conv unat_0 unat_eq_zero)
  obtain p fs1 where o: "fopen_wb ?T fs = (p, fs1)" by (meson surj_pair)
  obtain n fs2 where w1: "fwrite ?h ?T fs1 = (n, fs2)" by (meson surj_pair)
  obtain m fs3 where w2: "fwrite d ?T fs2 = (m, fs3)" by (meson surj_pair)
  note od = fopen_wb_result [OF o] and w1d = fwrite_result [OF w1] and w2d = fwrite_result [OF w2]
  have p: "p = None \<or> p = Some ?T" using od by auto
  have eq: "its_write_temp (word_of_nat (length d)) d f fs =
    (if p = None then (PSA_ERROR_STORAGE_FAILURE, None, fs1)
     else if n \<noteq> 16 then (PSA_ERROR_INSUFFICIENT_STORAGE, p, fs2)
     else if d \<noteq> [] then
       (if m \<noteq> length d then (PSA_ERROR_INSUFFICIENT_STORAGE, p, fs3) else (PSA_SUCCESS, p, fs3))
     else (PSA_SUCCESS, p, fs2))"
    using p o w1 w2 by (auto simp: its_write_temp_def Let_def u z)
  have s1: "same_but_temp fs fs1" using od by (auto simp: same_but_temp_def)
  have s2: "same_but_temp fs fs2" using s1 w1d by (simp add: same_but_temp_def)
  have s3: "same_but_temp fs fs3" using s2 w2d by (simp add: same_but_temp_def)
  show "same_but_temp fs fs'" using eq r s1 s2 s3 by (auto split: if_splits)
  assume st: "st = PSA_SUCCESS"
  then have pn: "p = Some ?T" "n = 16" using eq r p by (auto split: if_splits)
  then have t2: "disk fs2 ?T = Some ?h" using od w1d by simp
  show "disk fs' ?T = Some (encode_entry (d, f)) \<and> stream \<noteq> None"
  proof (cases "d = []")
    case True then show ?thesis using eq r pn t2 by (auto simp: encode_entry_def)
  next
    case False
    then have "m = length d" "fs' = fs3" "stream = p" using eq r pn st by (auto split: if_splits)
    with w2d t2 pn show ?thesis by (simp add: encode_entry_def)
  qed
qed

lemma set_result:
  assumes r: "psa_its_set uid (word_of_nat (length d)) d f fs = (st, fs')"
    and l: "length d < 2 ^ 32" and ok: "disk_ok fs"
  shows "disk_ok fs'"
    "its_abs fs' = (if st = PSA_SUCCESS then (its_abs fs)(uid \<mapsto> (d, f)) else its_abs fs)"
proof -
  let ?T = PSA_ITS_STORAGE_TEMP and ?F = "psa_its_fill_filename uid"
  have "disk_ok fs' \<and> its_abs fs' = (if st = PSA_SUCCESS then (its_abs fs)(uid \<mapsto> (d, f)) else its_abs fs)"
  proof (cases "uid = 0")
    case True then show ?thesis using r ok by (auto simp: psa_its_set_def)
  next
    case False
    obtain st1 stream fs1 where w: "its_write_temp (word_of_nat (length d)) d f fs = (st1, stream, fs1)"
      by (rule prod_cases3)
    note wr = write_temp_result [OF w l]
    define st2 where "st2 = (if stream \<noteq> None \<and> st1 = PSA_SUCCESS \<and> \<not> fst (fclose fs1)
      then PSA_ERROR_INSUFFICIENT_STORAGE else st1)"
    define fs2 where "fs2 = (if stream = None then fs1 else snd (fclose fs1))"
    have d2: "disk fs2 = disk fs1" by (simp add: fs2_def io_simps)
    have s2: "same_but_temp fs fs2" using wr(1) d2 by (simp add: same_but_temp_def)
    obtain b fs3 where rn: "rename_replace_existing ?T ?F fs2 = (b, fs3)" by (meson surj_pair)
    define st3 where "st3 = (if st2 = PSA_SUCCESS \<and> \<not> b then PSA_ERROR_STORAGE_FAILURE else st2)"
    define fs4 where "fs4 = (if st2 = PSA_SUCCESS then fs3 else fs2)"
    obtain b2 fs5 where rm: "remove_file ?T fs4 = (b2, fs5)" by (meson surj_pair)
    have eq: "psa_its_set uid (word_of_nat (length d)) d f fs = (st3, fs5)"
      using False w rn rm unfolding st3_def fs4_def st2_def fs2_def
      by (auto simp: psa_its_set_def Let_def split: prod.splits)
    then have f5: "st = st3" "fs' = fs5" using r by simp_all
    have s5: "same_but_temp fs4 fs5" using remove_result [OF rm] by (auto simp: same_but_temp_def)
    show ?thesis
    proof (cases "st2 = PSA_SUCCESS \<and> b")
      case True
      then have "st1 = PSA_SUCCESS" by (auto simp: st2_def split: if_splits)
      then have "disk fs2 ?T = Some (encode_entry (d, f))" using wr(2) d2 by simp
      then have d4: "disk fs4 = (disk fs2)(?F \<mapsto> encode_entry (d, f), ?T := None)"
        using True rename_result [OF rn] by (auto simp: fs4_def)
      have abs4: "its_abs fs4 = (its_abs fs2)(uid \<mapsto> (d, f))"
        by (auto simp: its_abs_def d4 filename_not_temp filename_inj fun_eq_iff)
      have "disk_ok fs2" using ok same_but_temp_ok [OF s2] by simp
      then have "disk_ok fs4"
        using l unfolding disk_ok_def d4 by (auto simp: filename_not_temp filename_inj split: if_splits)
      then show ?thesis
        using True f5 abs4 same_but_temp_abs [OF s2] same_but_temp_abs [OF s5] same_but_temp_ok [OF s5]
        by (simp add: st3_def)
    next
      case False
      then have "disk fs4 = disk fs2" using rename_result [OF rn] by (auto simp: fs4_def)
      then have "same_but_temp fs fs5" using s2 s5 by (simp add: same_but_temp_def)
      moreover have "st \<noteq> PSA_SUCCESS" using False f5 by (auto simp: st3_def)
      ultimately show ?thesis using f5 ok by (simp add: same_but_temp_abs same_but_temp_ok)
    qed
  qed
  then show "disk_ok fs'"
    "its_abs fs' = (if st = PSA_SUCCESS then (its_abs fs)(uid \<mapsto> (d, f)) else its_abs fs)" by blast+
qed

lemma set_no_faults:
  assumes "no_faults fs" "uid \<noteq> 0" "length d < 2 ^ 32"
  shows "\<exists>fs'. psa_its_set uid (word_of_nat (length d)) d f fs = (PSA_SUCCESS, fs') \<and> no_faults fs'"
proof -
  have u: "unat (word_of_nat (length d) :: u32) = length d"
    using assms(3) by (simp add: unsigned_of_nat take_bit_nat_eq_self)
  have ev: "no_faults (fs\<lparr>disk := x\<rparr>)" for x using assms(1) by (simp add: no_faults_def)
  have z: "(word_of_nat (length d) :: u32) = 0 \<longleftrightarrow> d = []" using u by (metis length_0_conv unat_0 unat_eq_zero)
  let ?T = PSA_ITS_STORAGE_TEMP
  let ?x = "(disk fs)(?T \<mapsto> encode_entry (d, f))"
  have w: "its_write_temp (word_of_nat (length d)) d f fs = (PSA_SUCCESS, Some ?T, fs\<lparr>disk := ?x\<rparr>)"
    by (cases "d = []")
      (simp_all add: its_write_temp_def fopen_wb_def fwrite_def io_simps assms(1) ev u z Let_def encode_entry_def)
  let ?y = "?x(psa_its_fill_filename uid := ?x ?T, ?T := None)"
  have r: "rename_replace_existing ?T (psa_its_fill_filename uid) (fs\<lparr>disk := ?x\<rparr>) = (True, fs\<lparr>disk := ?y\<rparr>)"
    unfolding rename_replace_existing_def next_io_no_faults [OF ev] by simp
  have m: "remove_file ?T (fs\<lparr>disk := ?y\<rparr>) = (False, fs\<lparr>disk := ?y\<rparr>)"
    unfolding remove_file_def next_io_no_faults [OF ev] by simp
  have "psa_its_set uid (word_of_nat (length d)) d f fs = (PSA_SUCCESS, fs\<lparr>disk := ?y\<rparr>)"
    unfolding psa_its_set_def Let_def w using assms(2)
    by (simp only: prod.case fclose_no_faults [OF ev] r m option.simps if_False if_True simp_thms)
  with ev show ?thesis by blast
qed

lemma its_remove_result:
  assumes ok: "disk_ok fs" and r: "psa_its_remove uid fs = (st, fs')"
  shows "disk_ok fs'" "its_abs fs' = (if st = PSA_SUCCESS then (its_abs fs)(uid := None) else its_abs fs)"
    "its_abs fs uid = None \<Longrightarrow> st = PSA_ERROR_DOES_NOT_EXIST"
proof -
  let ?F = "psa_its_fill_filename uid"
  obtain p fs1 where o: "fopen_rb ?F fs = (p, fs1)" by (meson surj_pair)
  have d1: "disk fs1 = disk fs" using fopen_rb_disk [of ?F fs] o by simp
  obtain c fs2 where cl: "fclose fs1 = (c, fs2)" by (meson surj_pair)
  have d2: "disk fs2 = disk fs" using fclose_disk [of fs1] cl d1 by simp
  obtain b fs3 where rm: "remove_file ?F fs2 = (b, fs3)" by (meson surj_pair)
  have eq: "psa_its_remove uid fs = (if p = None then (PSA_ERROR_DOES_NOT_EXIST, fs1)
     else if b then (PSA_SUCCESS, fs3) else (PSA_ERROR_STORAGE_FAILURE, fs3))"
    using o cl rm by (auto simp: psa_its_remove_def split: option.split)
  have d3: "disk fs3 = (if b then (disk fs)(?F := None) else disk fs)" using remove_result [OF rm] d2 by auto
  have ok3: "disk_ok fs3" using ok unfolding disk_ok_def d3 by (auto simp: filename_inj split: if_splits)
  have abs3: "its_abs fs3 = (if b then (its_abs fs)(uid := None) else its_abs fs)"
    by (auto simp: its_abs_def d3 filename_inj fun_eq_iff)
  from eq r ok ok3 show "disk_ok fs'" by (auto simp: disk_ok_disk [OF d1] split: if_splits)
  from eq r abs3 show "its_abs fs' = (if st = PSA_SUCCESS then (its_abs fs)(uid := None) else its_abs fs)"
    by (auto simp: its_abs_disk [OF d1] split: if_splits)
  assume "its_abs fs uid = None"
  then have "p = None" using fopen_rb_result [of ?F fs "the p"] o by (cases p) (auto simp: its_abs_None)
  with eq r show "st = PSA_ERROR_DOES_NOT_EXIST" by simp
qed

lemma its_remove_no_faults:
  assumes "no_faults fs" "its_abs fs uid \<noteq> None"
  shows "\<exists>fs'. psa_its_remove uid fs = (PSA_SUCCESS, fs') \<and> no_faults fs'"
  using assms
  by (auto simp: psa_its_remove_def io_simps its_abs_def remove_file_def) (simp add: no_faults_def)

section \<open>The storage interface\<close>

text \<open>
  What core/psa_crypto_storage.c relies on: the four operations, and their laws over an abstract
  map from identifiers to entries. \<open>inv\<close> is the invariant of the backend and \<open>quiet\<close> a state in
  which no operation fails.
\<close>

record 's its_ops =
  its_get_info :: "psa_storage_uid \<Rightarrow> 's \<Rightarrow> psa_status \<times> psa_storage_info option \<times> 's"
  its_get :: "psa_storage_uid \<Rightarrow> u32 \<Rightarrow> u32 \<Rightarrow> 's \<Rightarrow> psa_status \<times> bytes \<times> nat option \<times> 's"
  its_set :: "psa_storage_uid \<Rightarrow> u32 \<Rightarrow> bytes \<Rightarrow> psa_storage_create_flags \<Rightarrow> 's \<Rightarrow> psa_status \<times> 's"
  its_remove :: "psa_storage_uid \<Rightarrow> 's \<Rightarrow> psa_status \<times> 's"

locale its_backend =
  fixes ops :: "'s its_ops"
    and store :: "'s \<Rightarrow> psa_storage_uid \<Rightarrow> its_entry option"
    and inv :: "'s \<Rightarrow> bool"
    and quiet :: "'s \<Rightarrow> bool"
  assumes entry_size: "inv s \<Longrightarrow> store s uid = Some e \<Longrightarrow> length (fst e) < 2 ^ 32"
    and get_info: "inv s \<Longrightarrow> its_get_info ops uid s = (st, info, s') \<Longrightarrow>
      inv s' \<and> store s' = store s \<and>
      (st = PSA_SUCCESS \<longrightarrow> (\<exists>e. store s uid = Some e \<and>
         info = Some \<lparr>info_size = word_of_nat (length (fst e)), info_flags = snd e\<rparr>)) \<and>
      (store s uid = None \<longrightarrow> st = PSA_ERROR_DOES_NOT_EXIST)"
    and get: "inv s \<Longrightarrow> its_get ops uid ofs len s = (st, d, n, s') \<Longrightarrow>
      inv s' \<and> store s' = store s \<and>
      (st = PSA_SUCCESS \<longrightarrow> (\<exists>e. store s uid = Some e \<and> unat ofs + unat len \<le> length (fst e) \<and>
         d = take (unat len) (drop (unat ofs) (fst e)) \<and> n = Some (unat len))) \<and>
      (st \<noteq> PSA_SUCCESS \<longrightarrow> n = None)"
    and set: "inv s \<Longrightarrow> length d < 2 ^ 32 \<Longrightarrow> its_set ops uid (word_of_nat (length d)) d f s = (st, s') \<Longrightarrow>
      inv s' \<and> store s' = (if st = PSA_SUCCESS then (store s)(uid \<mapsto> (d, f)) else store s)"
    and remove: "inv s \<Longrightarrow> its_remove ops uid s = (st, s') \<Longrightarrow>
      inv s' \<and> store s' = (if st = PSA_SUCCESS then (store s)(uid := None) else store s) \<and>
      (store s uid = None \<longrightarrow> st = PSA_ERROR_DOES_NOT_EXIST)"
    and quiet_get_info: "inv s \<Longrightarrow> quiet s \<Longrightarrow> store s uid = Some e \<Longrightarrow>
      its_get_info ops uid s = (PSA_SUCCESS, Some \<lparr>info_size = word_of_nat (length (fst e)), info_flags = snd e\<rparr>, s)"
    and quiet_get_info_none: "inv s \<Longrightarrow> quiet s \<Longrightarrow> store s uid = None \<Longrightarrow>
      its_get_info ops uid s = (PSA_ERROR_DOES_NOT_EXIST, None, s)"
    and quiet_get: "inv s \<Longrightarrow> quiet s \<Longrightarrow> store s uid = Some e \<Longrightarrow> unat ofs + unat len \<le> length (fst e) \<Longrightarrow>
      its_get ops uid ofs len s = (PSA_SUCCESS, take (unat len) (drop (unat ofs) (fst e)), Some (unat len), s)"
    and quiet_set: "inv s \<Longrightarrow> quiet s \<Longrightarrow> uid \<noteq> 0 \<Longrightarrow> length d < 2 ^ 32 \<Longrightarrow>
      \<exists>s'. its_set ops uid (word_of_nat (length d)) d f s = (PSA_SUCCESS, s') \<and> quiet s'"
    and quiet_remove: "inv s \<Longrightarrow> quiet s \<Longrightarrow> store s uid \<noteq> None \<Longrightarrow>
      \<exists>s'. its_remove ops uid s = (PSA_SUCCESS, s') \<and> quiet s'"

definition its_file_ops :: "file_system its_ops" where
  "its_file_ops = \<lparr>its_get_info = psa_its_get_info, its_get = psa_its_get, its_set = psa_its_set,
     its_remove = psa_its_remove\<rparr>"

interpretation its_file: its_backend its_file_ops its_abs disk_ok no_faults
proof
  fix fs uid e
  show "disk_ok fs \<Longrightarrow> its_abs fs uid = Some e \<Longrightarrow> length (fst e) < 2 ^ 32" by (rule its_abs_Some(2))
next
  fix fs uid st info fs'
  assume "disk_ok fs" "its_get_info its_file_ops uid fs = (st, info, fs')"
  then show "disk_ok fs' \<and> its_abs fs' = its_abs fs \<and>
      (st = PSA_SUCCESS \<longrightarrow> (\<exists>e. its_abs fs uid = Some e \<and>
         info = Some \<lparr>info_size = word_of_nat (length (fst e)), info_flags = snd e\<rparr>)) \<and>
      (its_abs fs uid = None \<longrightarrow> st = PSA_ERROR_DOES_NOT_EXIST)"
    using get_info_result [of fs uid st info fs'] disk_ok_disk [of fs' fs] its_abs_disk [of fs' fs]
    by (simp add: its_file_ops_def)
next
  fix fs uid ofs len st d n fs'
  assume "disk_ok fs" "its_get its_file_ops uid ofs len fs = (st, d, n, fs')"
  then show "disk_ok fs' \<and> its_abs fs' = its_abs fs \<and>
      (st = PSA_SUCCESS \<longrightarrow> (\<exists>e. its_abs fs uid = Some e \<and> unat ofs + unat len \<le> length (fst e) \<and>
         d = take (unat len) (drop (unat ofs) (fst e)) \<and> n = Some (unat len))) \<and>
      (st \<noteq> PSA_SUCCESS \<longrightarrow> n = None)"
    using get_result [of fs uid ofs len st d n fs'] disk_ok_disk [of fs' fs] its_abs_disk [of fs' fs]
    by (simp add: its_file_ops_def)
next
  fix fs d uid f st fs'
  assume "disk_ok fs" "length (d :: bytes) < 2 ^ 32" "its_set its_file_ops uid (word_of_nat (length d)) d f fs = (st, fs')"
  then show "disk_ok fs' \<and> its_abs fs' = (if st = PSA_SUCCESS then (its_abs fs)(uid \<mapsto> (d, f)) else its_abs fs)"
    using set_result [of uid d f fs st fs'] by (simp add: its_file_ops_def)
next
  fix fs uid st fs'
  assume "disk_ok fs" "its_remove its_file_ops uid fs = (st, fs')"
  then show "disk_ok fs' \<and> its_abs fs' = (if st = PSA_SUCCESS then (its_abs fs)(uid := None) else its_abs fs) \<and>
      (its_abs fs uid = None \<longrightarrow> st = PSA_ERROR_DOES_NOT_EXIST)"
    using its_remove_result [of fs uid st fs'] by (simp add: its_file_ops_def)
qed (simp_all add: its_file_ops_def get_info_no_faults get_no_faults set_no_faults its_remove_no_faults)

section \<open>Properties\<close>

text \<open>C19: Storing an entry is atomic whatever calls to the C library fail: afterwards the store holds either
  the new entry, exactly when success is returned, or what it held before, every other entry is untouched,
  and every file still is the encoding of its entry.\<close>

theorem its_set_atomic:
  assumes "disk_ok fs" "length d < 2 ^ 32" "psa_its_set uid (word_of_nat (length d)) d f fs = (st, fs')"
  shows "disk_ok fs' \<and> its_abs fs' = (if st = PSA_SUCCESS then (its_abs fs)(uid \<mapsto> (d, f)) else its_abs fs)"
  using its_file.set [OF assms(1,2), of uid f st fs'] assms(3) by (simp add: its_file_ops_def)

lemma its_set_atomic_witness:
  "its_abs (snd (psa_its_set 7 2 [1, 2] 0 \<lparr>disk = \<lambda>_. None, io_outcomes = [IO_ok, IO_error 5]\<rparr>)) 7 = None"
proof -
  let ?fs = "\<lparr>disk = \<lambda>_. None, io_outcomes = [IO_ok, IO_error 5]\<rparr>"
  have "disk_ok ?fs" by (simp add: disk_ok_def)
  moreover obtain st fs' where e: "psa_its_set 7 2 [1, 2] 0 ?fs = (st, fs')" by (meson surj_pair)
  moreover have "fst (psa_its_set 7 2 [1, 2] 0 ?fs) = PSA_ERROR_INSUFFICIENT_STORAGE"
    by (simp add: psa_its_set_def its_write_temp_def fopen_wb_def fwrite_def next_io_def fclose_def Let_def
        remove_file_def)
  ultimately show ?thesis
    using its_set_atomic [of ?fs "[1, 2]" 7 0 st fs'] by (simp add: its_abs_def)
qed

end
