(* ===== verification/Key_Storage.thy ===== *)
theory Key_Storage
  imports Its_Store
begin

text \<open>
  Persistent keys (core/psa_crypto_storage.c) over any trusted-storage backend: the storage
  format, its parser, and saving, loading and destroying a key. The operations take the
  backend's operations as a parameter; what they guarantee is proved once from the laws of the
  interface and used through its interpretation on files.
\<close>

section \<open>The storage format\<close>

definition PSA_KEY_STORAGE_MAGIC_HEADER :: bytes where
  "PSA_KEY_STORAGE_MAGIC_HEADER = [0x50, 0x53, 0x41, 0x00, 0x4b, 0x45, 0x59, 0x00]"

abbreviation PSA_KEY_STORAGE_MAGIC_HEADER_LENGTH :: nat where
  "PSA_KEY_STORAGE_MAGIC_HEADER_LENGTH \<equiv> 8"

text \<open>
  The offsets of the fields of psa_persistent_key_storage_format: the magic string, version,
  lifetime, type, bits, policy (usage, alg, alg2) and data length; the key data follow.
\<close>

abbreviation storage_format_size :: nat where "storage_format_size \<equiv> 8 + 4 + 4 + 2 + 2 + 12 + 4"

definition PSA_CRYPTO_MAX_STORAGE_SIZE :: nat where
  "PSA_CRYPTO_MAX_STORAGE_SIZE = (PSA_MAX_KEY_BITS + 7) div 8"

definition psa_format_key_data_for_storage :: "bytes \<Rightarrow> psa_key_attributes \<Rightarrow> bytes" where
  "psa_format_key_data_for_storage data attr =
     PSA_KEY_STORAGE_MAGIC_HEADER @ put_uint32_le 0 @ put_uint32_le (attr_lifetime attr) @
     put_uint16_le (attr_type attr) @ put_uint16_le (attr_bits attr) @
     put_uint32_le (policy_usage (attr_policy attr)) @ put_uint32_le (policy_alg (attr_policy attr)) @
     put_uint32_le (policy_alg2 (attr_policy attr)) @ put_uint32_le (word_of_nat (length data)) @ data"

definition check_magic_header :: "bytes \<Rightarrow> psa_status" where
  "check_magic_header data =
     (if take PSA_KEY_STORAGE_MAGIC_HEADER_LENGTH data \<noteq> PSA_KEY_STORAGE_MAGIC_HEADER
      then PSA_ERROR_DATA_INVALID else PSA_SUCCESS)"

text \<open>
  The parser returns the status, \<open>*key_data\<close> (\<open>None\<close> for a null pointer),
  \<open>*key_data_length\<close>, the attributes and the remaining allocation outcomes.
\<close>

definition psa_parse_key_data_from_storage ::
    "bytes \<Rightarrow> psa_key_attributes \<Rightarrow> bool list \<Rightarrow>
     psa_status \<times> bytes option \<times> nat \<times> psa_key_attributes \<times> bool list" where
  "psa_parse_key_data_from_storage storage_data attr outcomes =
    (if length storage_data < storage_format_size then (PSA_ERROR_DATA_INVALID, None, 0, attr, outcomes)
     else if check_magic_header storage_data \<noteq> PSA_SUCCESS
     then (check_magic_header storage_data, None, 0, attr, outcomes)
     else if get_uint32_le storage_data 8 \<noteq> 0 then (PSA_ERROR_DATA_INVALID, None, 0, attr, outcomes)
     else
       let key_data_length = unat (get_uint32_le storage_data 32) in
       if key_data_length > length storage_data - storage_format_size \<or>
          key_data_length > PSA_CRYPTO_MAX_STORAGE_SIZE
       then (PSA_ERROR_DATA_INVALID, None, key_data_length, attr, outcomes)
       else
         let (ok, outcomes) = (if key_data_length = 0 then (True, outcomes) else mbedtls_calloc outcomes) in
         if \<not> ok then (PSA_ERROR_INSUFFICIENT_MEMORY, None, key_data_length, attr, outcomes)
         else
           (PSA_SUCCESS,
            if key_data_length = 0 then None
            else Some (take key_data_length (drop storage_format_size storage_data)),
            key_data_length,
            attr\<lparr>attr_lifetime := get_uint32_le storage_data 12,
                 attr_type := get_uint16_le storage_data 16,
                 attr_bits := get_uint16_le storage_data 18,
                 attr_policy := \<lparr>policy_usage = get_uint32_le storage_data 20,
                                 policy_alg = get_uint32_le storage_data 24,
                                 policy_alg2 = get_uint32_le storage_data 28\<rparr>\<rparr>,
            outcomes))"

section \<open>Storage operations\<close>

definition psa_its_identifier_of_slot :: "psa_key_id \<Rightarrow> psa_storage_uid" where
  "psa_its_identifier_of_slot key = ucast key"

definition psa_crypto_storage_load ::
    "'s its_ops \<Rightarrow> psa_key_id \<Rightarrow> nat \<Rightarrow> 's \<Rightarrow> psa_status \<times> bytes \<times> 's" where
  "psa_crypto_storage_load ops key data_size s =
    (let data_identifier = psa_its_identifier_of_slot key;
         (status, _, s) = its_get_info ops data_identifier s
     in if status \<noteq> PSA_SUCCESS then (status, [], s)
        else
          let (status, data, n, s) = its_get ops data_identifier 0 (word_of_nat data_size) s;
              data_length = (case n of None \<Rightarrow> 0 | Some n \<Rightarrow> n)
          in (if data_size \<noteq> data_length then PSA_ERROR_DATA_INVALID else status, data, s))"

definition psa_is_key_present_in_storage :: "'s its_ops \<Rightarrow> psa_key_id \<Rightarrow> 's \<Rightarrow> bool \<times> 's" where
  "psa_is_key_present_in_storage ops key s =
    (let (ret, _, s) = its_get_info ops (psa_its_identifier_of_slot key) s
     in (ret \<noteq> PSA_ERROR_DOES_NOT_EXIST, s))"

definition psa_crypto_storage_store ::
    "'s its_ops \<Rightarrow> psa_key_id \<Rightarrow> bytes \<Rightarrow> 's \<Rightarrow> psa_status \<times> 's" where
  "psa_crypto_storage_store ops key data s =
    (let data_identifier = psa_its_identifier_of_slot key;
         (present, s) = psa_is_key_present_in_storage ops key s
     in if present then (PSA_ERROR_ALREADY_EXISTS, s)
        else
          let (status, s) = its_set ops data_identifier (word_of_nat (length data)) data 0 s in
          if status \<noteq> PSA_SUCCESS then (PSA_ERROR_DATA_INVALID, s)
          else
            let (status, info, s) = its_get_info ops data_identifier s;
                status = (if status \<noteq> PSA_SUCCESS then status
                          else if unat (info_size (the info)) \<noteq> length data then PSA_ERROR_DATA_INVALID
                          else status)
            in if status \<noteq> PSA_SUCCESS then (status, snd (its_remove ops data_identifier s))
               else (status, s))"

definition psa_destroy_persistent_key :: "'s its_ops \<Rightarrow> psa_key_id \<Rightarrow> 's \<Rightarrow> psa_status \<times> 's" where
  "psa_destroy_persistent_key ops key s =
    (let data_identifier = psa_its_identifier_of_slot key;
         (ret, _, s) = its_get_info ops data_identifier s
     in if ret = PSA_ERROR_DOES_NOT_EXIST then (PSA_SUCCESS, s)
        else
          let (ret, s) = its_remove ops data_identifier s in
          if ret \<noteq> PSA_SUCCESS then (PSA_ERROR_DATA_INVALID, s)
          else
            let (ret, _, s) = its_get_info ops data_identifier s in
            if ret \<noteq> PSA_ERROR_DOES_NOT_EXIST then (PSA_ERROR_DATA_INVALID, s)
            else (PSA_SUCCESS, s))"

definition psa_crypto_storage_get_data_length ::
    "'s its_ops \<Rightarrow> psa_key_id \<Rightarrow> 's \<Rightarrow> psa_status \<times> nat \<times> 's" where
  "psa_crypto_storage_get_data_length ops key s =
    (let (status, info, s) = its_get_info ops (psa_its_identifier_of_slot key) s
     in if status \<noteq> PSA_SUCCESS then (status, 0, s)
        else (PSA_SUCCESS, unat (info_size (the info)), s))"

text \<open>The key material is a pointer (possibly null) and a length.\<close>

definition psa_save_persistent_key ::
    "'s its_ops \<Rightarrow> psa_key_attributes \<Rightarrow> bytes option \<Rightarrow> nat \<Rightarrow> bool list \<Rightarrow> 's \<Rightarrow>
     psa_status \<times> bool list \<times> 's" where
  "psa_save_persistent_key ops attr data data_length outcomes s =
    (if data = None \<or> data_length = 0 then (PSA_ERROR_INVALID_ARGUMENT, outcomes, s)
     else if data_length > PSA_CRYPTO_MAX_STORAGE_SIZE then (PSA_ERROR_INSUFFICIENT_STORAGE, outcomes, s)
     else
       let (ok, outcomes) = mbedtls_calloc outcomes in
       if \<not> ok then (PSA_ERROR_INSUFFICIENT_MEMORY, outcomes, s)
       else
         let storage_data = psa_format_key_data_for_storage (take data_length (the data)) attr;
             (status, s) = psa_crypto_storage_store ops (attr_id attr) storage_data s
         in (status, outcomes, s))"

definition psa_load_persistent_key ::
    "'s its_ops \<Rightarrow> psa_key_attributes \<Rightarrow> bool list \<Rightarrow> 's \<Rightarrow>
     psa_status \<times> bytes option \<times> nat \<times> psa_key_attributes \<times> bool list \<times> 's" where
  "psa_load_persistent_key ops attr outcomes s =
    (let key = attr_id attr;
         (status, storage_data_length, s) = psa_crypto_storage_get_data_length ops key s
     in if status \<noteq> PSA_SUCCESS then (status, None, 0, attr, outcomes, s)
        else
          let (ok, outcomes) = mbedtls_calloc outcomes in
          if \<not> ok then (PSA_ERROR_INSUFFICIENT_MEMORY, None, 0, attr, outcomes, s)
          else
            let (status, loaded_data, s) = psa_crypto_storage_load ops key storage_data_length s in
            if status \<noteq> PSA_SUCCESS then (status, None, 0, attr, outcomes, s)
            else
              let (status, data, data_length, attr, outcomes) =
                    psa_parse_key_data_from_storage loaded_data attr outcomes
              in (if status = PSA_SUCCESS \<and> (data = None \<or> data_length = 0)
                  then PSA_ERROR_STORAGE_FAILURE else status,
                  data, data_length, attr, outcomes, s))"

section \<open>Parsing what was formatted\<close>

lemma length_format [simp]: "length (psa_format_key_data_for_storage data attr) = 36 + length data"
  by (simp add: psa_format_key_data_for_storage_def PSA_KEY_STORAGE_MAGIC_HEADER_def)

lemma max_storage_size: "PSA_CRYPTO_MAX_STORAGE_SIZE = 8191"
  by (simp add: PSA_CRYPTO_MAX_STORAGE_SIZE_def PSA_MAX_KEY_BITS_def)

lemma format_fields:
  fixes data attr rest
  defines "f \<equiv> psa_format_key_data_for_storage data attr @ rest"
  shows "take 8 f = PSA_KEY_STORAGE_MAGIC_HEADER" "get_uint32_le f 8 = 0"
    "get_uint32_le f 12 = attr_lifetime attr" "get_uint16_le f 16 = attr_type attr"
    "get_uint16_le f 18 = attr_bits attr" "get_uint32_le f 20 = policy_usage (attr_policy attr)"
    "get_uint32_le f 24 = policy_alg (attr_policy attr)"
    "get_uint32_le f 28 = policy_alg2 (attr_policy attr)"
    "get_uint32_le f 32 = word_of_nat (length data)" "drop 36 f = data @ rest"
proof -
  let ?m = PSA_KEY_STORAGE_MAGIC_HEADER and ?v = "put_uint32_le 0" and ?l = "put_uint32_le (attr_lifetime attr)"
    and ?t = "put_uint16_le (attr_type attr)" and ?b = "put_uint16_le (attr_bits attr)"
    and ?u = "put_uint32_le (policy_usage (attr_policy attr))" and ?a = "put_uint32_le (policy_alg (attr_policy attr))"
    and ?c = "put_uint32_le (policy_alg2 (attr_policy attr))" and ?n = "put_uint32_le (word_of_nat (length data))"
  have m: "length ?m = 8" by (simp add: PSA_KEY_STORAGE_MAGIC_HEADER_def)
  have f: "f = ?m @ ?v @ ?l @ ?t @ ?b @ ?u @ ?a @ ?c @ ?n @ data @ rest"
    by (simp add: f_def psa_format_key_data_for_storage_def)
  show "take 8 f = ?m" "drop 36 f = data @ rest" by (simp_all add: f m)
  have at32: "get_uint32_le f n = x" if "f = pre @ put_uint32_le x @ post" "length pre = n" for pre post x n
    using that by (simp add: get_uint32_le_append byteorder)
  have at16: "get_uint16_le f n = x" if "f = pre @ put_uint16_le x @ post" "length pre = n" for pre post x n
    using that by (simp add: get_uint16_le_append byteorder)
  show "get_uint32_le f 8 = 0" by (rule at32 [of ?m]) (simp_all add: f m)
  show "get_uint32_le f 12 = attr_lifetime attr" by (rule at32 [of "?m @ ?v"]) (simp_all add: f m)
  show "get_uint16_le f 16 = attr_type attr" by (rule at16 [of "?m @ ?v @ ?l"]) (simp_all add: f m)
  show "get_uint16_le f 18 = attr_bits attr" by (rule at16 [of "?m @ ?v @ ?l @ ?t"]) (simp_all add: f m)
  show "get_uint32_le f 20 = policy_usage (attr_policy attr)"
    by (rule at32 [of "?m @ ?v @ ?l @ ?t @ ?b"]) (simp_all add: f m)
  show "get_uint32_le f 24 = policy_alg (attr_policy attr)"
    by (rule at32 [of "?m @ ?v @ ?l @ ?t @ ?b @ ?u"]) (simp_all add: f m)
  show "get_uint32_le f 28 = policy_alg2 (attr_policy attr)"
    by (rule at32 [of "?m @ ?v @ ?l @ ?t @ ?b @ ?u @ ?a"]) (simp_all add: f m)
  show "get_uint32_le f 32 = word_of_nat (length data)"
    by (rule at32 [of "?m @ ?v @ ?l @ ?t @ ?b @ ?u @ ?a @ ?c"]) (simp_all add: f m)
qed

lemma parse_format:
  assumes "0 < length data" "length data \<le> PSA_CRYPTO_MAX_STORAGE_SIZE" "mbedtls_calloc outcomes = (True, rest_outcomes)"
  shows "psa_parse_key_data_from_storage (psa_format_key_data_for_storage data attr @ rest) attr0 outcomes =
    (PSA_SUCCESS, Some data, length data, attr\<lparr>attr_id := attr_id attr0\<rparr>, rest_outcomes)"
proof -
  have "length data < 2 ^ 32" using assms(2) by (simp add: max_storage_size)
  then have u: "unat (word_of_nat (length data) :: u32) = length data"
    by (simp add: unsigned_of_nat take_bit_nat_eq_self)
  note f = format_fields [of data attr rest] format_fields(1,10) [of data attr "[]", simplified]
  have a: "attr\<lparr>attr_id := attr_id attr0\<rparr> = attr0\<lparr>attr_lifetime := attr_lifetime attr,
      attr_type := attr_type attr, attr_bits := attr_bits attr,
      attr_policy := \<lparr>policy_usage = policy_usage (attr_policy attr), policy_alg = policy_alg (attr_policy attr),
        policy_alg2 = policy_alg2 (attr_policy attr)\<rparr>\<rparr>" by (cases attr; cases attr0) simp
  show ?thesis
    using assms
    by (simp add: psa_parse_key_data_from_storage_def check_magic_header_def f u a)
qed

section \<open>Keys in a storage backend\<close>

lemma identifier_nonzero: "key \<noteq> 0 \<Longrightarrow> psa_its_identifier_of_slot key \<noteq> 0"
proof -
  assume k: "key \<noteq> 0"
  have "unat key < 2 ^ LENGTH(32)" by (rule unsigned_less)
  then have "unat (ucast key :: u64) = unat key" by (simp add: unsigned_ucast_eq take_bit_nat_eq_self)
  with k show ?thesis by (metis psa_its_identifier_of_slot_def unat_0 unat_eq_zero)
qed

context its_backend
begin

lemma get_data_length_quiet:
  assumes "inv s" "quiet s" "store s (psa_its_identifier_of_slot key) = Some e"
  shows "psa_crypto_storage_get_data_length ops key s = (PSA_SUCCESS, length (fst e), s)"
proof -
  have "unat (word_of_nat (length (fst e)) :: u32) = length (fst e)"
    using entry_size [OF assms(1,3)] by (simp add: unsigned_of_nat take_bit_nat_eq_self)
  with quiet_get_info [OF assms] show ?thesis by (simp add: psa_crypto_storage_get_data_length_def)
qed

lemma storage_load_quiet:
  assumes "inv s" "quiet s" "store s (psa_its_identifier_of_slot key) = Some e"
  shows "psa_crypto_storage_load ops key (length (fst e)) s = (PSA_SUCCESS, fst e, s)"
proof -
  have "unat (word_of_nat (length (fst e)) :: u32) = length (fst e)"
    using entry_size [OF assms(1,3)] by (simp add: unsigned_of_nat take_bit_nat_eq_self)
  then have "its_get ops (psa_its_identifier_of_slot key) 0 (word_of_nat (length (fst e))) s =
      (PSA_SUCCESS, fst e, Some (length (fst e)), s)"
    using quiet_get [OF assms, of 0 "word_of_nat (length (fst e))"] by simp
  with quiet_get_info [OF assms] show ?thesis by (simp add: psa_crypto_storage_load_def)
qed

lemma store_quiet:
  assumes "inv s" "quiet s" "store s (psa_its_identifier_of_slot key) = None" "key \<noteq> 0" "length d < 2 ^ 32"
  obtains s' where "psa_crypto_storage_store ops key d s = (PSA_SUCCESS, s')" "inv s'" "quiet s'"
    "store s' = (store s)(psa_its_identifier_of_slot key \<mapsto> (d, 0))"
proof -
  let ?u = "psa_its_identifier_of_slot key"
  have u0: "?u \<noteq> 0" using assms(4) by (rule identifier_nonzero)
  obtain s1 where s1: "its_set ops ?u (word_of_nat (length d)) d 0 s = (PSA_SUCCESS, s1)" "quiet s1"
    using quiet_set [OF assms(1,2) u0 assms(5)] by blast
  have i1: "inv s1" "store s1 = (store s)(?u \<mapsto> (d, 0))"
    using set [OF assms(1,5) s1(1)] by simp_all
  have "unat (word_of_nat (length d) :: u32) = length d"
    using assms(5) by (simp add: unsigned_of_nat take_bit_nat_eq_self)
  with s1 i1 quiet_get_info [OF i1(1) s1(2), of ?u "(d, 0)"] quiet_get_info_none [OF assms(1-3)]
  have "psa_crypto_storage_store ops key d s = (PSA_SUCCESS, s1)"
    by (simp add: psa_crypto_storage_store_def psa_is_key_present_in_storage_def)
  with s1 i1 show thesis by (intro that [of s1])
qed

lemma save_then_load:
  assumes "inv s" "quiet s" "store s (psa_its_identifier_of_slot (attr_id attr)) = None" "attr_id attr \<noteq> 0"
    and d: "0 < length d" "length d \<le> PSA_CRYPTO_MAX_STORAGE_SIZE"
  obtains s' where "psa_save_persistent_key ops attr (Some d) (length d) [] s = (PSA_SUCCESS, [], s')"
    "inv s'" "quiet s'"
    "\<And>attr0. attr_id attr0 = attr_id attr \<Longrightarrow>
       psa_load_persistent_key ops attr0 [] s' = (PSA_SUCCESS, Some d, length d, attr, [], s')"
proof -
  let ?f = "psa_format_key_data_for_storage d attr"
  have "length ?f < 2 ^ 32" using d(2) by (simp add: max_storage_size)
  then obtain s' where s': "psa_crypto_storage_store ops (attr_id attr) ?f s = (PSA_SUCCESS, s')" "inv s'" "quiet s'"
    "store s' = (store s)(psa_its_identifier_of_slot (attr_id attr) \<mapsto> (?f, 0))"
    by (rule store_quiet [OF assms(1-4)])
  show thesis
  proof (rule that [OF _ s'(2,3)])
    show "psa_save_persistent_key ops attr (Some d) (length d) [] s = (PSA_SUCCESS, [], s')"
      using d s'(1) by (simp add: psa_save_persistent_key_def)
  next
    fix attr0 :: psa_key_attributes assume a: "attr_id attr0 = attr_id attr"
    have e: "store s' (psa_its_identifier_of_slot (attr_id attr)) = Some (?f, 0)" using s'(4) by simp
    have "psa_parse_key_data_from_storage ?f attr0 [] = (PSA_SUCCESS, Some d, length d, attr, [])"
      using parse_format [OF d, of "[]" "[]" attr "[]" attr0] a by simp
    then show "psa_load_persistent_key ops attr0 [] s' = (PSA_SUCCESS, Some d, length d, attr, [], s')"
      using get_data_length_quiet [OF s'(2,3) e] storage_load_quiet [OF s'(2,3) e] a d
      by (simp add: psa_load_persistent_key_def)
  qed
qed

lemma save_existing:
  assumes "inv s" "quiet s" "store s (psa_its_identifier_of_slot (attr_id attr)) \<noteq> None"
  shows "snd (snd (psa_save_persistent_key ops attr d n outcomes s)) = s"
    "fst (psa_save_persistent_key ops attr d n outcomes s) \<noteq> PSA_SUCCESS"
proof -
  from assms(3) obtain e where "store s (psa_its_identifier_of_slot (attr_id attr)) = Some e" by blast
  note q = quiet_get_info [OF assms(1,2) this]
  show "snd (snd (psa_save_persistent_key ops attr d n outcomes s)) = s"
    "fst (psa_save_persistent_key ops attr d n outcomes s) \<noteq> PSA_SUCCESS"
    by (auto simp: psa_save_persistent_key_def psa_crypto_storage_store_def psa_is_key_present_in_storage_def
        q Let_def split: prod.split)
qed

lemma destroy_quiet:
  assumes "inv s" "quiet s"
  obtains s' where "psa_destroy_persistent_key ops key s = (PSA_SUCCESS, s')" "inv s'" "quiet s'"
    "store s' = (store s)(psa_its_identifier_of_slot key := None)"
proof (cases "store s (psa_its_identifier_of_slot key)")
  case None
  then have "(store s)(psa_its_identifier_of_slot key := None) = store s" by auto
  with None show thesis
    using assms quiet_get_info_none [OF assms None]
    by (intro that [of s]) (simp_all add: psa_destroy_persistent_key_def)
next
  case (Some e)
  let ?u = "psa_its_identifier_of_slot key"
  obtain s1 where s1: "its_remove ops ?u s = (PSA_SUCCESS, s1)" "quiet s1"
    using quiet_remove [OF assms, of ?u] Some by auto
  have i1: "inv s1" "store s1 = (store s)(?u := None)" using remove [OF assms(1) s1(1)] by simp_all
  then have "its_get_info ops ?u s1 = (PSA_ERROR_DOES_NOT_EXIST, None, s1)"
    using s1 by (intro quiet_get_info_none) simp_all
  with s1 i1 quiet_get_info [OF assms Some] show thesis
    by (intro that [of s1]) (simp_all add: psa_destroy_persistent_key_def)
qed

text \<open>
  What a store promises under failures: success means the entry is exactly the data, and no
  other entry changes.
\<close>

lemma store_result:
  assumes "inv s" "length d < 2 ^ 32" "psa_crypto_storage_store ops key d s = (st, s')"
  shows "inv s'" "uid \<noteq> psa_its_identifier_of_slot key \<Longrightarrow> store s' uid = store s uid"
    "st = PSA_SUCCESS \<Longrightarrow> store s' = (store s)(psa_its_identifier_of_slot key \<mapsto> (d, 0))"
proof -
  let ?u = "psa_its_identifier_of_slot key"
  obtain b i1 s1 where g1: "its_get_info ops ?u s = (b, i1, s1)" by (rule prod_cases3)
  have l1: "inv s1" "store s1 = store s" using get_info [OF assms(1) g1] by simp_all
  obtain st2 s2 where g2: "its_set ops ?u (word_of_nat (length d)) d 0 s1 = (st2, s2)" by (meson surj_pair)
  have l2: "inv s2" "store s2 = (if st2 = PSA_SUCCESS then (store s)(?u \<mapsto> (d, 0)) else store s)"
    using set [OF l1(1) assms(2) g2] l1(2) by simp_all
  obtain st3 i3 s3 where g3: "its_get_info ops ?u s2 = (st3, i3, s3)" by (rule prod_cases3)
  have l3: "inv s3" "store s3 = store s2" using get_info [OF l2(1) g3] by simp_all
  obtain st4 s4 where g4: "its_remove ops ?u s3 = (st4, s4)" by (meson surj_pair)
  have l4: "inv s4" "store s4 = (if st4 = PSA_SUCCESS then (store s3)(?u := None) else store s3)"
    using remove [OF l3(1) g4] by simp_all
  have eq: "psa_crypto_storage_store ops key d s =
    (if b \<noteq> PSA_ERROR_DOES_NOT_EXIST then (PSA_ERROR_ALREADY_EXISTS, s1)
     else if st2 \<noteq> PSA_SUCCESS then (PSA_ERROR_DATA_INVALID, s2)
     else if st3 \<noteq> PSA_SUCCESS then (st3, s4)
     else if unat (info_size (the i3)) \<noteq> length d then (PSA_ERROR_DATA_INVALID, s4)
     else (PSA_SUCCESS, s3))"
    using g1 g2 g3 g4 by (simp add: psa_crypto_storage_store_def psa_is_key_present_in_storage_def)
  show "inv s'" using eq assms(3) l1 l2 l3 l4 by (auto split: if_splits)
  show "store s' uid = store s uid" if "uid \<noteq> ?u"
    using eq assms(3) l1 l2 l3 l4 that by (auto split: if_splits)
  show "store s' = (store s)(?u \<mapsto> (d, 0))" if "st = PSA_SUCCESS"
    using eq assms(3) l2 l3 that by (auto split: if_splits)
qed

text \<open>Loading a key only reads the storage, and what it returns is what the stored entry parses to.\<close>

lemma get_data_length_result:
  assumes "inv s" "psa_crypto_storage_get_data_length ops key s = (st, n, s')"
  shows "inv s' \<and> store s' = store s \<and> (st = PSA_SUCCESS \<longrightarrow>
    (\<exists>e. store s (psa_its_identifier_of_slot key) = Some e \<and> n = length (fst e)))"
proof -
  obtain st1 i1 s1 where g: "its_get_info ops (psa_its_identifier_of_slot key) s = (st1, i1, s1)" by (rule prod_cases3)
  have "unat (word_of_nat (length (fst e)) :: u32) = length (fst e)"
    if "store s (psa_its_identifier_of_slot key) = Some e" for e
    using entry_size [OF assms(1) that] by (simp add: unsigned_of_nat take_bit_nat_eq_self)
  then show ?thesis using get_info [OF assms(1) g] assms(2) g
    by (auto simp: psa_crypto_storage_get_data_length_def split: if_splits)
qed

lemma storage_load_result:
  assumes "inv s" "psa_crypto_storage_load ops key n s = (st, d, s')"
  shows "inv s' \<and> store s' = store s \<and> (st = PSA_SUCCESS \<and> n < 2 ^ 32 \<longrightarrow>
    (\<exists>e. store s (psa_its_identifier_of_slot key) = Some e \<and> d = take n (fst e)))"
proof -
  obtain st1 i1 s1 where g1: "its_get_info ops (psa_its_identifier_of_slot key) s = (st1, i1, s1)" by (rule prod_cases3)
  obtain st2 d2 n2 s2 where g2: "its_get ops (psa_its_identifier_of_slot key) 0 (word_of_nat n) s1 = (st2, d2, n2, s2)"
    by (rule prod_cases4)
  have l1: "inv s1" "store s1 = store s" using get_info [OF assms(1) g1] by simp_all
  have u: "n < 2 ^ 32 \<Longrightarrow> unat (word_of_nat n :: u32) = n" by (simp add: unsigned_of_nat take_bit_nat_eq_self)
  show ?thesis using get [OF l1(1) g2] l1 assms g1 g2 u
    by (auto simp: psa_crypto_storage_load_def split: if_splits)
qed

lemma load_result:
  assumes "inv s" "psa_load_persistent_key ops attr outcomes s = (st, kd, n, attr', outcomes', s')"
  shows "inv s'" "store s' = store s" "attr_id attr' = attr_id attr"
    "st = PSA_SUCCESS \<Longrightarrow> \<exists>e o1. store s (psa_its_identifier_of_slot (attr_id attr)) = Some e \<and>
       psa_parse_key_data_from_storage (fst e) attr o1 = (PSA_SUCCESS, kd, n, attr', outcomes') \<and> kd \<noteq> None \<and> 0 < n"
proof -
  let ?key = "attr_id attr"
  obtain st1 n1 s1 where g1: "psa_crypto_storage_get_data_length ops ?key s = (st1, n1, s1)" by (rule prod_cases3)
  note l1 = get_data_length_result [OF assms(1) g1]
  obtain st2 d2 s2 where g2: "psa_crypto_storage_load ops ?key n1 s1 = (st2, d2, s2)" by (rule prod_cases3)
  have i1: "inv s1" using l1 by simp
  note l2 = storage_load_result [OF i1 g2]
  obtain ok o1 where c: "mbedtls_calloc outcomes = (ok, o1)" by (meson surj_pair)
  obtain st3 kd3 n3 attr3 o3 where p: "psa_parse_key_data_from_storage d2 attr o1 = (st3, kd3, n3, attr3, o3)"
    by (rule prod_cases5)
  have id: "attr_id attr3 = attr_id attr"
    using p by (auto simp: psa_parse_key_data_from_storage_def Let_def split: if_splits prod.splits)
  have d: "d2 = fst e" if "st1 = PSA_SUCCESS" "st2 = PSA_SUCCESS" "store s (psa_its_identifier_of_slot ?key) = Some e" for e
    using that l1 l2 entry_size [OF assms(1) that(3)] by auto
  have eq: "psa_load_persistent_key ops attr outcomes s =
    (if st1 \<noteq> PSA_SUCCESS then (st1, None, 0, attr, outcomes, s1)
     else if \<not> ok then (PSA_ERROR_INSUFFICIENT_MEMORY, None, 0, attr, o1, s1)
     else if st2 \<noteq> PSA_SUCCESS then (st2, None, 0, attr, o1, s2)
     else (if st3 = PSA_SUCCESS \<and> (kd3 = None \<or> n3 = 0) then PSA_ERROR_STORAGE_FAILURE else st3,
           kd3, n3, attr3, o3, s2))"
    using g1 g2 c p by (simp add: psa_load_persistent_key_def)
  show "inv s'" "store s' = store s" "attr_id attr' = attr_id attr"
    using eq assms(2) l1 l2 id by (auto split: if_splits)
  show "\<exists>e o1. store s (psa_its_identifier_of_slot (attr_id attr)) = Some e \<and>
       psa_parse_key_data_from_storage (fst e) attr o1 = (PSA_SUCCESS, kd, n, attr', outcomes') \<and> kd \<noteq> None \<and> 0 < n"
    if "st = PSA_SUCCESS"
  proof -
    have "st1 = PSA_SUCCESS" "st2 = PSA_SUCCESS" "st3 = PSA_SUCCESS" "kd3 \<noteq> None" "0 < n3"
      "(kd, n, attr', outcomes') = (kd3, n3, attr3, o3)"
      using eq assms(2) that by (auto split: if_splits)
    with l1 d p show ?thesis by auto
  qed
qed

text \<open>Without failures, a stored key that parses is loaded.\<close>

lemma load_quiet:
  assumes "inv s" "quiet s" "store s (psa_its_identifier_of_slot (attr_id attr)) = Some (psa_format_key_data_for_storage d a, f)"
    and d: "0 < length d" "length d \<le> PSA_CRYPTO_MAX_STORAGE_SIZE" and a: "attr_id a = attr_id attr"
  shows "psa_load_persistent_key ops attr [] s = (PSA_SUCCESS, Some d, length d, a, [], s)"
proof -
  have "psa_parse_key_data_from_storage (psa_format_key_data_for_storage d a) attr [] = (PSA_SUCCESS, Some d, length d, a, [])"
    using parse_format [OF d, of "[]" "[]" a "[]" attr] a by simp
  then show ?thesis
    using get_data_length_quiet [OF assms(1-3)] storage_load_quiet [OF assms(1-3)] d
    by (simp add: psa_load_persistent_key_def)
qed

lemma load_quiet_absent:
  assumes "inv s" "quiet s" "store s (psa_its_identifier_of_slot (attr_id attr)) = None"
  shows "psa_load_persistent_key ops attr outcomes s = (PSA_ERROR_DOES_NOT_EXIST, None, 0, attr, outcomes, s)"
  using quiet_get_info_none [OF assms]
  by (simp add: psa_load_persistent_key_def psa_crypto_storage_get_data_length_def)

lemma load_quiet_state:
  assumes "inv s" "quiet s"
  shows "snd (snd (snd (snd (snd (psa_load_persistent_key ops attr outcomes s))))) = s"
proof (cases "store s (psa_its_identifier_of_slot (attr_id attr))")
  case None
  from load_quiet_absent [OF assms this] show ?thesis by simp
next
  case (Some e)
  note get_data_length_quiet [OF assms Some] storage_load_quiet [OF assms Some]
  then show ?thesis by (simp add: psa_load_persistent_key_def split_def Let_def)
qed

text \<open>Without failures of the storage, a save either stores the key or changes nothing.\<close>

lemma save_quiet:
  assumes "inv s" "quiet s" "attr_id attr \<noteq> 0" "psa_save_persistent_key ops attr d n outcomes s = (st, outcomes', s')"
  shows "quiet s'" "st \<noteq> PSA_SUCCESS \<Longrightarrow> s' = s"
    "st = PSA_SUCCESS \<Longrightarrow> store s (psa_its_identifier_of_slot (attr_id attr)) = None"
proof -
  have "quiet s' \<and> (st \<noteq> PSA_SUCCESS \<longrightarrow> s' = s) \<and> (st = PSA_SUCCESS \<longrightarrow> store s (psa_its_identifier_of_slot (attr_id attr)) = None)"
  proof (cases "store s (psa_its_identifier_of_slot (attr_id attr))")
    case (Some e)
    with save_existing [OF assms(1,2), of attr d n outcomes] assms show ?thesis by simp
  next
    case None
    let ?f = "psa_format_key_data_for_storage (take n (the d)) attr"
    obtain ok o1 where c: "mbedtls_calloc outcomes = (ok, o1)" by (meson surj_pair)
    have eq: "psa_save_persistent_key ops attr d n outcomes s =
      (if d = None \<or> n = 0 then (PSA_ERROR_INVALID_ARGUMENT, outcomes, s)
       else if n > PSA_CRYPTO_MAX_STORAGE_SIZE then (PSA_ERROR_INSUFFICIENT_STORAGE, outcomes, s)
       else if \<not> ok then (PSA_ERROR_INSUFFICIENT_MEMORY, o1, s)
       else (fst (psa_crypto_storage_store ops (attr_id attr) ?f s), o1, snd (psa_crypto_storage_store ops (attr_id attr) ?f s)))"
      using c by (simp add: psa_save_persistent_key_def split_def Let_def)
    have len: "length ?f < 2 ^ 32" if "n \<le> PSA_CRYPTO_MAX_STORAGE_SIZE" using that by (simp add: max_storage_size)
    show ?thesis
    proof (cases "n \<le> PSA_CRYPTO_MAX_STORAGE_SIZE")
      case True
      from store_quiet [OF assms(1,2) None assms(3) len [OF True]] obtain s1
        where "psa_crypto_storage_store ops (attr_id attr) ?f s = (PSA_SUCCESS, s1)" "quiet s1" by blast
      with eq assms None show ?thesis by (auto split: if_splits)
    next
      case False
      with eq assms None show ?thesis by (auto split: if_splits)
    qed
  qed
  then show "quiet s'" "st \<noteq> PSA_SUCCESS \<Longrightarrow> s' = s"
    "st = PSA_SUCCESS \<Longrightarrow> store s (psa_its_identifier_of_slot (attr_id attr)) = None" by blast+
qed

lemma save_result:
  assumes "inv s" "psa_save_persistent_key ops attr d n outcomes s = (st, outcomes', s')"
  shows "inv s'" "uid \<noteq> psa_its_identifier_of_slot (attr_id attr) \<Longrightarrow> store s' uid = store s uid"
    "st = PSA_SUCCESS \<Longrightarrow> d \<noteq> None \<and> 0 < n \<and> n \<le> PSA_CRYPTO_MAX_STORAGE_SIZE \<and> store s' =
      (store s)(psa_its_identifier_of_slot (attr_id attr) \<mapsto> (psa_format_key_data_for_storage (take n (the d)) attr, 0))"
proof -
  let ?f = "psa_format_key_data_for_storage (take n (the d)) attr"
  obtain st1 s1 where g: "psa_crypto_storage_store ops (attr_id attr) ?f s = (st1, s1)" by (meson surj_pair)
  have len: "length ?f < 2 ^ 32" if "n \<le> PSA_CRYPTO_MAX_STORAGE_SIZE" using that by (simp add: max_storage_size)
  obtain ok o1 where c: "mbedtls_calloc outcomes = (ok, o1)" by (meson surj_pair)
  have eq: "psa_save_persistent_key ops attr d n outcomes s =
    (if d = None \<or> n = 0 then (PSA_ERROR_INVALID_ARGUMENT, outcomes, s)
     else if n > PSA_CRYPTO_MAX_STORAGE_SIZE then (PSA_ERROR_INSUFFICIENT_STORAGE, outcomes, s)
     else if \<not> ok then (PSA_ERROR_INSUFFICIENT_MEMORY, o1, s) else (st1, o1, s1))"
    using g c by (simp add: psa_save_persistent_key_def)
  note r = store_result [OF assms(1) len g]
  show "inv s'" "uid \<noteq> psa_its_identifier_of_slot (attr_id attr) \<Longrightarrow> store s' uid = store s uid"
    "st = PSA_SUCCESS \<Longrightarrow> d \<noteq> None \<and> 0 < n \<and> n \<le> PSA_CRYPTO_MAX_STORAGE_SIZE \<and> store s' =
      (store s)(psa_its_identifier_of_slot (attr_id attr) \<mapsto> (?f, 0))"
    using eq assms r by (auto split: if_splits)
qed

lemma destroy_result:
  assumes "inv s" "psa_destroy_persistent_key ops key s = (st, s')"
  shows "inv s'" "uid \<noteq> psa_its_identifier_of_slot key \<Longrightarrow> store s' uid = store s uid"
    "store s' (psa_its_identifier_of_slot key) \<in> {None, store s (psa_its_identifier_of_slot key)}"
proof -
  let ?u = "psa_its_identifier_of_slot key"
  obtain st1 i1 s1 where g1: "its_get_info ops ?u s = (st1, i1, s1)" by (rule prod_cases3)
  have l1: "inv s1" "store s1 = store s" using get_info [OF assms(1) g1] by simp_all
  obtain st2 s2 where g2: "its_remove ops ?u s1 = (st2, s2)" by (meson surj_pair)
  have l2: "inv s2" "store s2 = (if st2 = PSA_SUCCESS then (store s)(?u := None) else store s)"
    using remove [OF l1(1) g2] l1(2) by simp_all
  obtain st3 i3 s3 where g3: "its_get_info ops ?u s2 = (st3, i3, s3)" by (rule prod_cases3)
  have l3: "inv s3" "store s3 = store s2" using get_info [OF l2(1) g3] by simp_all
  have eq: "psa_destroy_persistent_key ops key s =
    (if st1 = PSA_ERROR_DOES_NOT_EXIST then (PSA_SUCCESS, s1)
     else if st2 \<noteq> PSA_SUCCESS then (PSA_ERROR_DATA_INVALID, s2)
     else if st3 \<noteq> PSA_ERROR_DOES_NOT_EXIST then (PSA_ERROR_DATA_INVALID, s3) else (PSA_SUCCESS, s3))"
    using g1 g2 g3 by (simp add: psa_destroy_persistent_key_def)
  show "inv s'" "uid \<noteq> ?u \<Longrightarrow> store s' uid = store s uid" "store s' ?u \<in> {None, store s ?u}"
    using eq assms(2) l1 l2 l3 by (auto split: if_splits)
qed

end

section \<open>Properties\<close>

text \<open>C21: The storage format loses nothing: parsing the formatted form of a key, followed by anything,
  gives back its key material and all its attributes except the identifier, which is the one the caller
  asked for.\<close>

theorem storage_format_roundtrip:
  assumes "0 < length data" "length data \<le> PSA_CRYPTO_MAX_STORAGE_SIZE" "mbedtls_calloc outcomes = (True, rest_outcomes)"
  shows "psa_parse_key_data_from_storage (psa_format_key_data_for_storage data attr @ rest) attr0 outcomes =
    (PSA_SUCCESS, Some data, length data, attr\<lparr>attr_id := attr_id attr0\<rparr>, rest_outcomes)"
  by (rule parse_format [OF assms])

lemma storage_format_roundtrip_witness:
  "fst (psa_parse_key_data_from_storage (psa_format_key_data_for_storage [1, 2, 3] PSA_KEY_ATTRIBUTES_INIT @ [9])
     PSA_KEY_ATTRIBUTES_INIT []) = PSA_SUCCESS"
  using storage_format_roundtrip [of "[1, 2, 3]" "[]" "[]" PSA_KEY_ATTRIBUTES_INIT "[9]" PSA_KEY_ATTRIBUTES_INIT]
  by (simp add: max_storage_size)

text \<open>C24: The parser is safe on any stored bytes: it accepts only a complete header with the right magic and
  version, and the key material it returns lies inside the stored data and within the maximum key size.\<close>

theorem storage_parse_safe:
  assumes "psa_parse_key_data_from_storage d attr outcomes = (PSA_SUCCESS, k, n, attr', rest)"
  shows "36 + n \<le> length d \<and> n \<le> PSA_CRYPTO_MAX_STORAGE_SIZE \<and> take 8 d = PSA_KEY_STORAGE_MAGIC_HEADER \<and>
    get_uint32_le d 8 = 0 \<and> attr_id attr' = attr_id attr \<and>
    k = (if n = 0 then None else Some (take n (drop 36 d)))"
  using assms
  by (auto simp: psa_parse_key_data_from_storage_def check_magic_header_def Let_def
      split: if_splits prod.splits)

lemma storage_parse_safe_witness:
  "36 + 3 \<le> length (psa_format_key_data_for_storage [1, 2, 3] PSA_KEY_ATTRIBUTES_INIT @ [9])"
proof -
  have "psa_parse_key_data_from_storage (psa_format_key_data_for_storage [1, 2, 3] PSA_KEY_ATTRIBUTES_INIT @ [9])
     PSA_KEY_ATTRIBUTES_INIT [] = (PSA_SUCCESS, Some [1, 2, 3], 3, PSA_KEY_ATTRIBUTES_INIT, [])"
    using parse_format [of "[1, 2, 3]" "[]" "[]" PSA_KEY_ATTRIBUTES_INIT "[9]" PSA_KEY_ATTRIBUTES_INIT]
    by (simp add: max_storage_size)
  from storage_parse_safe [OF this] show ?thesis by simp
qed

text \<open>C20: A key saved to the file-backed storage is found again: on a well-formed disk without failing calls,
  saving a key under an unused identifier succeeds, and loading that identifier afterwards returns the same
  key material and the same attributes.\<close>

theorem saved_key_is_loaded:
  assumes "disk_ok fs" "no_faults fs" "its_abs fs (psa_its_identifier_of_slot (attr_id attr)) = None"
    "attr_id attr \<noteq> 0" "0 < length d" "length d \<le> PSA_CRYPTO_MAX_STORAGE_SIZE"
  shows "\<exists>fs'. psa_save_persistent_key its_file_ops attr (Some d) (length d) [] fs = (PSA_SUCCESS, [], fs') \<and>
    disk_ok fs' \<and> (\<forall>attr0. attr_id attr0 = attr_id attr \<longrightarrow>
      psa_load_persistent_key its_file_ops attr0 [] fs' = (PSA_SUCCESS, Some d, length d, attr, [], fs'))"
  by (rule its_file.save_then_load [OF assms]) blast

lemma saved_key_is_loaded_witness:
  "\<exists>fs'. psa_save_persistent_key its_file_ops (PSA_KEY_ATTRIBUTES_INIT\<lparr>attr_id := 5\<rparr>) (Some [7]) 1 []
     \<lparr>disk = \<lambda>_. None, io_outcomes = []\<rparr> = (PSA_SUCCESS, [], fs') \<and>
   psa_load_persistent_key its_file_ops (PSA_KEY_ATTRIBUTES_INIT\<lparr>attr_id := 5\<rparr>) [] fs' =
     (PSA_SUCCESS, Some [7], 1, PSA_KEY_ATTRIBUTES_INIT\<lparr>attr_id := 5\<rparr>, [], fs')"
proof -
  let ?fs = "\<lparr>disk = \<lambda>_. None, io_outcomes = []\<rparr>"
  have "disk_ok ?fs" "no_faults ?fs" "its_abs ?fs u = None" for u
    by (simp_all add: disk_ok_def no_faults_def its_abs_def)
  from saved_key_is_loaded [OF this, of "PSA_KEY_ATTRIBUTES_INIT\<lparr>attr_id := 5\<rparr>" "[7]"]
  show ?thesis by (auto simp: max_storage_size)
qed

text \<open>Saving a key never replaces another one: when the identifier is in use and no call fails, the save
  is refused and the storage is left as it was.\<close>

theorem save_never_overwrites:
  assumes "disk_ok fs" "no_faults fs" "its_abs fs (psa_its_identifier_of_slot (attr_id attr)) \<noteq> None"
    "psa_save_persistent_key its_file_ops attr d n outcomes fs = (st, outcomes', fs')"
  shows "st \<noteq> PSA_SUCCESS \<and> fs' = fs"
  using its_file.save_existing [OF assms(1-3), of d n outcomes] assms(4) by simp

lemma save_never_overwrites_witness:
  "\<exists>st o' fs fs'. its_abs fs 5 \<noteq> None \<and>
     psa_save_persistent_key its_file_ops (PSA_KEY_ATTRIBUTES_INIT\<lparr>attr_id := 5\<rparr>) (Some [7]) 1 [] fs = (st, o', fs') \<and>
     st \<noteq> PSA_SUCCESS \<and> fs' = fs"
proof -
  let ?fs = "\<lparr>disk = (\<lambda>_. None)(psa_its_fill_filename 5 \<mapsto> encode_entry ([3], 0)), io_outcomes = []\<rparr>"
  have "disk_ok ?fs" by (auto simp: disk_ok_def filename_inj intro: exI [of _ "[3]"] exI [of _ "0 :: u32"])
  moreover have "no_faults ?fs" "its_abs ?fs 5 \<noteq> None" by (simp_all add: no_faults_def its_abs_def)
  moreover have "psa_its_identifier_of_slot 5 = 5" by (simp add: psa_its_identifier_of_slot_def)
  moreover obtain st o' fs' where e: "psa_save_persistent_key its_file_ops (PSA_KEY_ATTRIBUTES_INIT\<lparr>attr_id := 5\<rparr>)
      (Some [7]) 1 [] ?fs = (st, o', fs')" by (rule prod_cases3)
  ultimately have "st \<noteq> PSA_SUCCESS \<and> fs' = ?fs"
    by (intro save_never_overwrites [OF _ _ _ e]) simp_all
  with e \<open>its_abs ?fs 5 \<noteq> None\<close> show ?thesis by blast
qed

text \<open>C25: The guard against overwriting depends on the file opening: when the first open of the check fails for
  any reason, the storage reports the key as absent, the save succeeds and the stored key is replaced.\<close>

theorem open_failure_overwrites_key:
  assumes "disk_ok fs" "io_outcomes fs = [IO_error k]" "attr_id attr \<noteq> 0" "0 < length d"
    "length d \<le> PSA_CRYPTO_MAX_STORAGE_SIZE"
  shows "\<exists>fs'. psa_save_persistent_key its_file_ops attr (Some d) (length d) [] fs = (PSA_SUCCESS, [], fs') \<and>
    its_abs fs' (psa_its_identifier_of_slot (attr_id attr)) = Some (psa_format_key_data_for_storage d attr, 0)"
proof -
  let ?u = "psa_its_identifier_of_slot (attr_id attr)" and ?f = "psa_format_key_data_for_storage d attr"
  let ?fs = "fs\<lparr>io_outcomes := []\<rparr>"
  have ok: "disk_ok ?fs" "no_faults ?fs" using assms(1) by (simp_all add: disk_ok_def no_faults_def)
  have absent: "psa_its_get_info ?u fs = (PSA_ERROR_DOES_NOT_EXIST, None, ?fs)"
    using assms(2)
    by (simp add: psa_its_get_info_def psa_its_read_file_def fopen_rb_def next_io_def close_if_open_def split: option.split)
  have l: "length ?f < 2 ^ 32" using assms(5) by (simp add: max_storage_size)
  have u0: "?u \<noteq> 0" using assms(3) by (rule identifier_nonzero)
  obtain s1 where s1: "psa_its_set ?u (word_of_nat (length ?f)) ?f 0 ?fs = (PSA_SUCCESS, s1)" "no_faults s1"
    using set_no_faults [OF ok(2) u0 l, of 0] by blast
  have i1: "disk_ok s1" "its_abs s1 = (its_abs ?fs)(?u \<mapsto> (?f, 0))" using set_result [OF s1(1) l ok(1)] by simp_all
  have "unat (word_of_nat (length ?f) :: u32) = length ?f"
    using l by (simp only: unsigned_of_nat) (simp add: take_bit_nat_eq_self)
  moreover have "psa_its_get_info ?u s1 = (PSA_SUCCESS, Some \<lparr>info_size = word_of_nat (length ?f), info_flags = 0\<rparr>, s1)"
    using get_info_no_faults [OF i1(1) s1(2), of ?u] i1(2) by simp
  ultimately have "psa_crypto_storage_store its_file_ops (attr_id attr) ?f fs = (PSA_SUCCESS, s1)"
    using absent s1(1)
    by (simp add: psa_crypto_storage_store_def psa_is_key_present_in_storage_def its_file_ops_def)
  then show ?thesis
    using assms(4,5) i1(2) by (intro exI [of _ s1]) (simp add: psa_save_persistent_key_def)
qed

lemma open_failure_overwrites_key_witness:
  "\<exists>fs fs'. its_abs fs 5 = Some ([3], 0) \<and>
     psa_save_persistent_key its_file_ops (PSA_KEY_ATTRIBUTES_INIT\<lparr>attr_id := 5\<rparr>) (Some [7]) 1 [] fs =
       (PSA_SUCCESS, [], fs') \<and> its_abs fs' 5 \<noteq> its_abs fs 5"
proof -
  let ?fs = "\<lparr>disk = (\<lambda>_. None)(psa_its_fill_filename 5 \<mapsto> encode_entry ([3], 0)), io_outcomes = [IO_error 0]\<rparr>"
  let ?a = "PSA_KEY_ATTRIBUTES_INIT\<lparr>attr_id := 5\<rparr>"
  have ok: "disk_ok ?fs" by (auto simp: disk_ok_def filename_inj intro: exI [of _ "[3]"] exI [of _ "0 :: u32"])
  have a: "its_abs ?fs 5 = Some ([3], 0)" by (simp add: its_abs_def)
  have "psa_its_identifier_of_slot 5 = 5" by (simp add: psa_its_identifier_of_slot_def)
  then obtain fs' where f: "psa_save_persistent_key its_file_ops ?a (Some [7]) (length [7 :: u8]) [] ?fs = (PSA_SUCCESS, [], fs')"
    "its_abs fs' 5 = Some (psa_format_key_data_for_storage [7] ?a, 0)"
    using open_failure_overwrites_key [OF ok, of 0 ?a "[7]"] by (auto simp: max_storage_size)
  have "psa_format_key_data_for_storage [7] ?a \<noteq> [3]"
  proof
    assume "psa_format_key_data_for_storage [7] ?a = [3]"
    then have "length (psa_format_key_data_for_storage [7] ?a) = length [3 :: u8]" by (rule arg_cong)
    then show False by simp
  qed
  then have "its_abs fs' 5 \<noteq> its_abs ?fs 5" using f(2) a by auto
  with f(1) a show ?thesis by (intro exI [of _ ?fs] exI [of _ fs']) simp
qed

end
