(* ===== verification/Local_Buffers.thy ===== *)
theory Local_Buffers
  imports Crypto_Values
begin

text \<open>
  The copies the API functions make of their callers' buffers (the end of core/psa_crypto.c and
  the macros LOCAL_INPUT_ALLOC, LOCAL_OUTPUT_ALLOC and LOCAL_OUTPUT_FREE). A caller's buffer is
  its contents, \<open>None\<close> for a null pointer; the copies are allocated, which may fail.
\<close>

record psa_crypto_local_input =
  input_buffer :: "bytes option"
  input_length :: nat

definition PSA_CRYPTO_LOCAL_INPUT_INIT :: psa_crypto_local_input where
  "PSA_CRYPTO_LOCAL_INPUT_INIT = \<lparr>input_buffer = None, input_length = 0\<rparr>"

record psa_crypto_local_output =
  output_original :: "bytes option"
  output_buffer :: "bytes option"
  output_length :: nat

definition PSA_CRYPTO_LOCAL_OUTPUT_INIT :: psa_crypto_local_output where
  "PSA_CRYPTO_LOCAL_OUTPUT_INIT = \<lparr>output_original = None, output_buffer = None, output_length = 0\<rparr>"

text \<open>Copying into a buffer of the given contents, in the size of the source.\<close>

definition psa_crypto_copy_input :: "bytes \<Rightarrow> bytes \<Rightarrow> psa_status \<times> bytes" where
  "psa_crypto_copy_input input input_copy =
    (if length input > length input_copy then (PSA_ERROR_CORRUPTION_DETECTED, input_copy)
     else (PSA_SUCCESS, input @ drop (length input) input_copy))"

definition psa_crypto_copy_output :: "bytes \<Rightarrow> bytes \<Rightarrow> psa_status \<times> bytes" where
  "psa_crypto_copy_output output_copy output =
    (if length output < length output_copy then (PSA_ERROR_BUFFER_TOO_SMALL, output)
     else (PSA_SUCCESS, output_copy @ drop (length output_copy) output))"

definition psa_crypto_local_input_alloc ::
    "bytes \<Rightarrow> bool list \<Rightarrow> psa_status \<times> psa_crypto_local_input \<times> bool list" where
  "psa_crypto_local_input_alloc input outcomes =
    (if length input = 0 then (PSA_SUCCESS, PSA_CRYPTO_LOCAL_INPUT_INIT, outcomes)
     else
       let (ok, outcomes) = mbedtls_calloc outcomes in
       if \<not> ok then (PSA_ERROR_INSUFFICIENT_MEMORY, PSA_CRYPTO_LOCAL_INPUT_INIT, outcomes)
       else
         let (status, buffer) = psa_crypto_copy_input input (replicate (length input) 0)
         in if status \<noteq> PSA_SUCCESS then (status, PSA_CRYPTO_LOCAL_INPUT_INIT, outcomes)
            else (PSA_SUCCESS, \<lparr>input_buffer = Some buffer, input_length = length input\<rparr>, outcomes))"

definition psa_crypto_local_input_free :: "psa_crypto_local_input \<Rightarrow> psa_crypto_local_input" where
  "psa_crypto_local_input_free li = li\<lparr>input_buffer := None, input_length := 0\<rparr>"

definition psa_crypto_local_output_alloc ::
    "bytes option \<Rightarrow> nat \<Rightarrow> bool list \<Rightarrow> psa_status \<times> psa_crypto_local_output \<times> bool list" where
  "psa_crypto_local_output_alloc out output_len outcomes =
    (if output_len = 0 then (PSA_SUCCESS, PSA_CRYPTO_LOCAL_OUTPUT_INIT, outcomes)
     else
       let (ok, outcomes) = mbedtls_calloc outcomes in
       if \<not> ok then (PSA_ERROR_INSUFFICIENT_MEMORY, PSA_CRYPTO_LOCAL_OUTPUT_INIT, outcomes)
       else (PSA_SUCCESS,
             \<lparr>output_original = out, output_buffer = Some (replicate output_len 0),
              output_length = output_len\<rparr>, outcomes))"

text \<open>Freeing a local output returns the new contents of the caller's buffer.\<close>

definition psa_crypto_local_output_free ::
    "psa_crypto_local_output \<Rightarrow> psa_status \<times> bytes option" where
  "psa_crypto_local_output_free lo =
    (case output_buffer lo of
       None \<Rightarrow> (PSA_SUCCESS, output_original lo)
     | Some buffer \<Rightarrow>
         (case output_original lo of
            None \<Rightarrow> (PSA_ERROR_CORRUPTION_DETECTED, None)
          | Some out \<Rightarrow>
              let (status, out') = psa_crypto_copy_output (take (output_length lo) buffer)
                                     (take (output_length lo) out)
              in (status, Some (out' @ drop (output_length lo) out))))"

text \<open>The contents a pointer to a copy gives access to.\<close>

definition contents :: "bytes option \<Rightarrow> bytes" where
  "contents p = (case p of None \<Rightarrow> [] | Some d \<Rightarrow> d)"

text \<open>
  LOCAL_OUTPUT_FREE: a failure to copy back replaces the status; without a copy the caller's
  buffer keeps its contents.
\<close>

definition LOCAL_OUTPUT_FREE ::
    "psa_crypto_local_output \<Rightarrow> bytes option \<Rightarrow> psa_status \<Rightarrow> psa_status \<times> bytes option" where
  "LOCAL_OUTPUT_FREE lo original status =
    (let (st, out) = psa_crypto_local_output_free lo
     in (if st \<noteq> PSA_SUCCESS then st else status,
         if output_buffer lo = None then original else out))"

section \<open>What the copies guarantee\<close>

lemma contents_simps [simp]: "contents None = []" "contents (Some d) = d"
  by (simp_all add: contents_def)

lemma local_input_alloc_eq:
  "psa_crypto_local_input_alloc input outcomes =
    (if input = [] then (PSA_SUCCESS, PSA_CRYPTO_LOCAL_INPUT_INIT, outcomes)
     else if fst (mbedtls_calloc outcomes)
     then (PSA_SUCCESS, \<lparr>input_buffer = Some input, input_length = length input\<rparr>, snd (mbedtls_calloc outcomes))
     else (PSA_ERROR_INSUFFICIENT_MEMORY, PSA_CRYPTO_LOCAL_INPUT_INIT, snd (mbedtls_calloc outcomes)))"
  by (simp add: psa_crypto_local_input_alloc_def psa_crypto_copy_input_def split_def)

lemma local_input_contents:
  "psa_crypto_local_input_alloc input outcomes = (PSA_SUCCESS, li, outcomes') \<Longrightarrow>
   contents (input_buffer li) = input"
  by (auto simp: local_input_alloc_eq PSA_CRYPTO_LOCAL_INPUT_INIT_def split: if_splits)

lemma local_output_alloc_eq:
  "psa_crypto_local_output_alloc out n outcomes =
    (if n = 0 then (PSA_SUCCESS, PSA_CRYPTO_LOCAL_OUTPUT_INIT, outcomes)
     else if fst (mbedtls_calloc outcomes)
     then (PSA_SUCCESS, \<lparr>output_original = out, output_buffer = Some (replicate n 0), output_length = n\<rparr>,
           snd (mbedtls_calloc outcomes))
     else (PSA_ERROR_INSUFFICIENT_MEMORY, PSA_CRYPTO_LOCAL_OUTPUT_INIT, snd (mbedtls_calloc outcomes)))"
  by (simp add: psa_crypto_local_output_alloc_def split_def)

lemma local_output_free_init [simp]:
  "LOCAL_OUTPUT_FREE PSA_CRYPTO_LOCAL_OUTPUT_INIT original status = (status, original)"
  by (simp add: LOCAL_OUTPUT_FREE_def psa_crypto_local_output_free_def PSA_CRYPTO_LOCAL_OUTPUT_INIT_def)

lemma local_output_free_copy:
  "length buffer = length out \<Longrightarrow>
   LOCAL_OUTPUT_FREE \<lparr>output_original = Some out, output_buffer = Some buffer, output_length = length buffer\<rparr>
     (Some out) status = (status, Some buffer)"
  by (simp add: LOCAL_OUTPUT_FREE_def psa_crypto_local_output_free_def psa_crypto_copy_output_def)

end
