(* ===== verification/Key_Lifecycle.thy ===== *)
theory Key_Lifecycle
  imports Slot_Refinement Key_Policy Key_Storage Local_Buffers
begin

text \<open>
  The life of a key: creation by import and by copy, access with a policy, export, destruction
  (the key management functions of core/psa_crypto.c, psa_get_and_lock_key_slot of
  core/psa_crypto_slot_management.c, and the dispatch of the driver wrappers when no accelerator
  or opaque driver is registered). The state is the key store and the file system that holds the
  persistent keys. The conversions of asymmetric keys belong to the built-in drivers and are a
  parameter.
\<close>

record psa_system =
  keystore :: psa_global_data
  storage :: file_system

abbreviation with_keystore :: "psa_system \<Rightarrow> psa_status \<times> psa_global_data \<Rightarrow> psa_status \<times> psa_system" where
  "with_keystore sys p \<equiv> (fst p, sys\<lparr>keystore := snd p\<rparr>)"

text \<open>
  Import of an asymmetric key: from the attributes, the data and the size of the key buffer to a
  status, the key material and the size in bits. Export of a public key: from the attributes,
  the key material and the size of the output buffer to a status and the encoded key.
\<close>

record asymmetric_drivers =
  import_asymmetric :: "psa_key_attributes \<Rightarrow> bytes \<Rightarrow> nat \<Rightarrow> psa_status \<times> bytes \<times> nat"
  export_asymmetric_public :: "psa_key_attributes \<Rightarrow> bytes \<Rightarrow> nat \<Rightarrow> psa_status \<times> bytes"

section \<open>Key material in slots\<close>

definition key_type_is_raw_bytes :: "psa_key_type \<Rightarrow> bool" where
  "key_type_is_raw_bytes t \<longleftrightarrow> PSA_KEY_TYPE_IS_UNSTRUCTURED t"

definition psa_validate_unstructured_key_bit_size :: "psa_key_type \<Rightarrow> nat \<Rightarrow> psa_status" where
  "psa_validate_unstructured_key_bit_size t bits =
    (if t = PSA_KEY_TYPE_RAW_DATA \<or> t = PSA_KEY_TYPE_HMAC \<or> t = PSA_KEY_TYPE_DERIVE \<or>
        t = PSA_KEY_TYPE_PASSWORD \<or> t = PSA_KEY_TYPE_PASSWORD_HASH
     then (if bits mod 8 \<noteq> 0 then PSA_ERROR_INVALID_ARGUMENT else PSA_SUCCESS)
     else if t = PSA_KEY_TYPE_AES \<or> t = PSA_KEY_TYPE_ARIA \<or> t = PSA_KEY_TYPE_CAMELLIA
     then (if bits \<noteq> 128 \<and> bits \<noteq> 192 \<and> bits \<noteq> 256 then PSA_ERROR_INVALID_ARGUMENT
           else if bits mod 8 \<noteq> 0 then PSA_ERROR_INVALID_ARGUMENT else PSA_SUCCESS)
     else if t = PSA_KEY_TYPE_CHACHA20
     then (if bits \<noteq> 256 then PSA_ERROR_INVALID_ARGUMENT
           else if bits mod 8 \<noteq> 0 then PSA_ERROR_INVALID_ARGUMENT else PSA_SUCCESS)
     else PSA_ERROR_NOT_SUPPORTED)"

definition psa_allocate_buffer_to_slot ::
    "slot_ref \<Rightarrow> nat \<Rightarrow> psa_global_data \<Rightarrow> psa_status \<times> psa_global_data" where
  "psa_allocate_buffer_to_slot r buffer_length g =
    (let slot = get_key_slot g r in
     if slot_key_data slot \<noteq> None then (PSA_ERROR_ALREADY_EXISTS, g)
     else
       let (ok, outcomes) = mbedtls_calloc (calloc_outcomes g);
           g = g\<lparr>calloc_outcomes := outcomes\<rparr>
       in if \<not> ok then (PSA_ERROR_INSUFFICIENT_MEMORY, g)
          else (PSA_SUCCESS,
                put_key_slot r (slot\<lparr>slot_key_data := Some (replicate buffer_length 0),
                                     slot_key_bytes := buffer_length\<rparr>) g))"

definition psa_copy_key_material_into_slot ::
    "slot_ref \<Rightarrow> bytes \<Rightarrow> psa_global_data \<Rightarrow> psa_status \<times> psa_global_data" where
  "psa_copy_key_material_into_slot r data g =
    (let (status, g) = psa_allocate_buffer_to_slot r (length data) g in
     if status \<noteq> PSA_SUCCESS then (status, g)
     else (PSA_SUCCESS, put_key_slot r ((get_key_slot g r)\<lparr>slot_key_data := Some data\<rparr>) g))"

text \<open>The key material of a slot: the first \<open>key.bytes\<close> bytes at \<open>key.data\<close>.\<close>

definition slot_material :: "psa_key_slot \<Rightarrow> bytes" where
  "slot_material s = take (slot_key_bytes s) (contents (slot_key_data s))"

text \<open>
  The result of an import: the status, the key buffer, its length and the size in bits. The
  arguments \<open>key_buffer_length\<close> and \<open>bits\<close> are what the caller's variables held before.
\<close>

definition psa_is_dh_key_size_valid :: "nat \<Rightarrow> bool" where
  "psa_is_dh_key_size_valid bits \<longleftrightarrow>
     bits = 2048 \<or> bits = 3072 \<or> bits = 4096 \<or> bits = 6144 \<or> bits = 8192"

definition psa_import_key_into_slot ::
    "asymmetric_drivers \<Rightarrow> psa_key_attributes \<Rightarrow> bytes \<Rightarrow> bytes \<Rightarrow> nat \<Rightarrow> nat \<Rightarrow>
     psa_status \<times> bytes \<times> nat \<times> nat" where
  "psa_import_key_into_slot drv attr data key_buffer key_buffer_length bits =
    (if length data = 0 then (PSA_ERROR_NOT_SUPPORTED, key_buffer, key_buffer_length, bits)
     else if key_type_is_raw_bytes (attr_type attr) then
       let bits = 8 * length data;
           status = psa_validate_unstructured_key_bit_size (attr_type attr) bits
       in if status \<noteq> PSA_SUCCESS then (status, key_buffer, key_buffer_length, bits)
          else (PSA_SUCCESS, data @ drop (length data) key_buffer, length data, bits)
     else if PSA_KEY_TYPE_IS_ASYMMETRIC (attr_type attr) \<and> PSA_KEY_TYPE_IS_DH (attr_type attr) \<and>
        \<not> psa_is_dh_key_size_valid (8 * length data)
     then (PSA_ERROR_NOT_SUPPORTED, key_buffer, key_buffer_length, bits)
     else if PSA_KEY_TYPE_IS_ASYMMETRIC (attr_type attr) \<and>
        (PSA_KEY_TYPE_IS_DH (attr_type attr) \<or> PSA_KEY_TYPE_IS_ECC (attr_type attr) \<or>
         PSA_KEY_TYPE_IS_RSA (attr_type attr)) then
       let (status, material, bits') = import_asymmetric drv attr data (length key_buffer)
       in if status \<noteq> PSA_SUCCESS then (status, key_buffer, key_buffer_length, bits)
          else (PSA_SUCCESS, material @ drop (length material) key_buffer, length material, bits')
     else (PSA_ERROR_NOT_SUPPORTED, key_buffer, key_buffer_length, bits))"

definition psa_extend_key_usage_flags :: "psa_key_usage \<Rightarrow> psa_key_usage" where
  "psa_extend_key_usage_flags usage_flags =
    (let usage_flags = (if usage_flags AND PSA_KEY_USAGE_SIGN_HASH \<noteq> 0
                        then usage_flags OR PSA_KEY_USAGE_SIGN_MESSAGE else usage_flags)
     in if usage_flags AND PSA_KEY_USAGE_VERIFY_HASH \<noteq> 0
        then usage_flags OR PSA_KEY_USAGE_VERIFY_MESSAGE else usage_flags)"

section \<open>Driver dispatch\<close>

text \<open>The wrappers without accelerators: local keys go to the core, other locations are refused.\<close>

definition psa_driver_wrapper_get_key_buffer_size_from_key_data ::
    "psa_key_attributes \<Rightarrow> bytes \<Rightarrow> psa_status \<times> nat" where
  "psa_driver_wrapper_get_key_buffer_size_from_key_data attr data = (PSA_ERROR_INVALID_ARGUMENT, 0)"

definition psa_driver_wrapper_get_key_buffer_size :: "psa_key_attributes \<Rightarrow> psa_status \<times> nat" where
  "psa_driver_wrapper_get_key_buffer_size attr = (PSA_ERROR_INVALID_ARGUMENT, 0)"

definition psa_driver_wrapper_import_key ::
    "asymmetric_drivers \<Rightarrow> psa_key_attributes \<Rightarrow> bytes \<Rightarrow> bytes \<Rightarrow> nat \<Rightarrow> nat \<Rightarrow>
     psa_status \<times> bytes \<times> nat \<times> nat" where
  "psa_driver_wrapper_import_key drv attr data key_buffer key_buffer_length bits =
    (if PSA_KEY_LIFETIME_GET_LOCATION (attr_lifetime attr) = PSA_KEY_LOCATION_LOCAL_STORAGE
     then psa_import_key_into_slot drv attr data key_buffer key_buffer_length bits
     else (PSA_ERROR_INVALID_ARGUMENT, key_buffer, key_buffer_length, bits))"

definition psa_driver_wrapper_copy_key ::
    "psa_key_attributes \<Rightarrow> bytes \<Rightarrow> bytes \<Rightarrow> nat \<Rightarrow> psa_status \<times> bytes \<times> nat" where
  "psa_driver_wrapper_copy_key attr source_key target_buffer target_length =
     (PSA_ERROR_INVALID_ARGUMENT, target_buffer, target_length)"

text \<open>Export: from the key material and the output buffer to a status, the buffer and \<open>*data_length\<close>.\<close>

definition psa_export_key_buffer_internal ::
    "bytes \<Rightarrow> bytes \<Rightarrow> nat \<Rightarrow> psa_status \<times> bytes \<times> nat" where
  "psa_export_key_buffer_internal key_buffer data data_length =
    (if length key_buffer > length data then (PSA_ERROR_BUFFER_TOO_SMALL, data, data_length)
     else (PSA_SUCCESS, key_buffer @ replicate (length data - length key_buffer) 0, length key_buffer))"

definition psa_export_key_internal ::
    "psa_key_attributes \<Rightarrow> bytes \<Rightarrow> bytes \<Rightarrow> nat \<Rightarrow> psa_status \<times> bytes \<times> nat" where
  "psa_export_key_internal attr key_buffer data data_length =
    (if key_type_is_raw_bytes (attr_type attr) \<or> PSA_KEY_TYPE_IS_RSA (attr_type attr) \<or>
        PSA_KEY_TYPE_IS_ECC (attr_type attr) \<or> PSA_KEY_TYPE_IS_DH (attr_type attr)
     then psa_export_key_buffer_internal key_buffer data data_length
     else (PSA_ERROR_NOT_SUPPORTED, data, data_length))"

definition psa_export_public_key_internal ::
    "asymmetric_drivers \<Rightarrow> psa_key_attributes \<Rightarrow> bytes \<Rightarrow> bytes \<Rightarrow> nat \<Rightarrow> psa_status \<times> bytes \<times> nat" where
  "psa_export_public_key_internal drv attr key_buffer data data_length =
    (if PSA_KEY_TYPE_IS_PUBLIC_KEY (attr_type attr) \<and>
        (PSA_KEY_TYPE_IS_RSA (attr_type attr) \<or> PSA_KEY_TYPE_IS_ECC (attr_type attr) \<or>
         PSA_KEY_TYPE_IS_DH (attr_type attr))
     then psa_export_key_buffer_internal key_buffer data data_length
     else if PSA_KEY_TYPE_IS_RSA (attr_type attr) \<or> PSA_KEY_TYPE_IS_ECC (attr_type attr) \<or>
        PSA_KEY_TYPE_IS_DH (attr_type attr) then
       let (status, encoded) = export_asymmetric_public drv attr key_buffer (length data)
       in if status \<noteq> PSA_SUCCESS then (status, data, data_length)
          else (PSA_SUCCESS, encoded @ drop (length encoded) data, length encoded)
     else (PSA_ERROR_NOT_SUPPORTED, data, data_length))"

definition psa_driver_wrapper_export_key ::
    "psa_key_attributes \<Rightarrow> bytes \<Rightarrow> bytes \<Rightarrow> nat \<Rightarrow> psa_status \<times> bytes \<times> nat" where
  "psa_driver_wrapper_export_key attr key_buffer data data_length =
    (if PSA_KEY_LIFETIME_GET_LOCATION (attr_lifetime attr) = PSA_KEY_LOCATION_LOCAL_STORAGE
     then psa_export_key_internal attr key_buffer data data_length
     else (PSA_ERROR_INVALID_ARGUMENT, data, data_length))"

definition psa_driver_wrapper_export_public_key ::
    "asymmetric_drivers \<Rightarrow> psa_key_attributes \<Rightarrow> bytes \<Rightarrow> bytes \<Rightarrow> nat \<Rightarrow> psa_status \<times> bytes \<times> nat" where
  "psa_driver_wrapper_export_public_key drv attr key_buffer data data_length =
    (if PSA_KEY_LIFETIME_GET_LOCATION (attr_lifetime attr) = PSA_KEY_LOCATION_LOCAL_STORAGE
     then psa_export_public_key_internal drv attr key_buffer data data_length
     else (PSA_ERROR_INVALID_ARGUMENT, data, data_length))"

section \<open>Loading and locking a key\<close>

definition psa_load_persistent_key_into_slot :: "slot_ref \<Rightarrow> psa_system \<Rightarrow> psa_status \<times> psa_system" where
  "psa_load_persistent_key_into_slot r sys =
    (let g = keystore sys; slot = get_key_slot g r in
     if \<not> psa_key_id_is_user (attr_id (slot_attr slot)) then (PSA_ERROR_DOES_NOT_EXIST, sys)
     else
       let (status, key_data, key_data_length, attr, outcomes, fs) =
             psa_load_persistent_key its_file_ops (slot_attr slot) (calloc_outcomes g) (storage sys);
           g = put_key_slot r (slot\<lparr>slot_attr := attr\<rparr>) (g\<lparr>calloc_outcomes := outcomes\<rparr>)
       in if status \<noteq> PSA_SUCCESS then (status, \<lparr>keystore = g, storage = fs\<rparr>)
          else with_keystore (sys\<lparr>storage := fs\<rparr>)
                 (psa_copy_key_material_into_slot r (take key_data_length (contents key_data)) g))"

definition psa_get_and_lock_key_slot ::
    "psa_key_id \<Rightarrow> psa_system \<Rightarrow> psa_status \<times> slot_ref option \<times> psa_system" where
  "psa_get_and_lock_key_slot key sys =
    (if \<not> key_slots_initialized (keystore sys) then (PSA_ERROR_BAD_STATE, None, sys)
     else
       let (status, p_slot, g) = psa_get_and_lock_key_slot_in_memory key (keystore sys) in
       if status \<noteq> PSA_ERROR_DOES_NOT_EXIST then (status, p_slot, sys\<lparr>keystore := g\<rparr>)
       else
         let (status, _, p_slot, g) = psa_reserve_free_key_slot False g in
         if status \<noteq> PSA_SUCCESS then (status, p_slot, sys\<lparr>keystore := g\<rparr>)
         else
           let r = the p_slot;
               slot = get_key_slot g r;
               g = put_key_slot r (slot\<lparr>slot_attr := (slot_attr slot)
                     \<lparr>attr_id := key, attr_lifetime := PSA_KEY_LIFETIME_PERSISTENT\<rparr>\<rparr>) g;
               (status, sys) = psa_load_persistent_key_into_slot r (sys\<lparr>keystore := g\<rparr>)
           in if status \<noteq> PSA_SUCCESS
              then (if status = PSA_ERROR_DOES_NOT_EXIST then PSA_ERROR_INVALID_HANDLE else status, None,
                    sys\<lparr>keystore := snd (psa_wipe_key_slot r (keystore sys))\<rparr>)
              else
                let slot = get_key_slot (keystore sys) r;
                    attr = slot_attr slot;
                    slot = slot\<lparr>slot_attr := attr\<lparr>attr_policy := (attr_policy attr)
                      \<lparr>policy_usage := psa_extend_key_usage_flags (policy_usage (attr_policy attr))\<rparr>\<rparr>\<rparr>;
                    slot = snd (psa_key_slot_state_transition slot PSA_SLOT_FILLING PSA_SLOT_FULL);
                    (status, slot) = psa_register_read slot
                in (status, if status \<noteq> PSA_SUCCESS then None else Some r,
                    sys\<lparr>keystore := put_key_slot r slot (keystore sys)\<rparr>))"

definition psa_get_and_lock_key_slot_with_policy ::
    "psa_key_id \<Rightarrow> psa_key_usage \<Rightarrow> psa_algorithm \<Rightarrow> psa_system \<Rightarrow>
     psa_status \<times> slot_ref option \<times> psa_system" where
  "psa_get_and_lock_key_slot_with_policy key usage alg sys =
    (let (status, p_slot, sys) = psa_get_and_lock_key_slot key sys in
     if status \<noteq> PSA_SUCCESS then (status, p_slot, sys)
     else
       let attr = slot_attr (get_key_slot (keystore sys) (the p_slot));
           usage = (if PSA_KEY_TYPE_IS_PUBLIC_KEY (attr_type attr)
                    then usage AND NOT PSA_KEY_USAGE_EXPORT else usage);
           status = (if policy_usage (attr_policy attr) AND usage \<noteq> usage then PSA_ERROR_NOT_PERMITTED
                     else if alg \<noteq> 0 then psa_key_policy_permits (attr_policy attr) (attr_type attr) alg
                     else PSA_SUCCESS)
       in if status \<noteq> PSA_SUCCESS
          then (status, None,
                sys\<lparr>keystore := snd (psa_unregister_read_under_mutex p_slot (keystore sys))\<rparr>)
          else (PSA_SUCCESS, p_slot, sys))"

definition psa_get_and_lock_transparent_key_slot_with_policy ::
    "psa_key_id \<Rightarrow> psa_key_usage \<Rightarrow> psa_algorithm \<Rightarrow> psa_system \<Rightarrow>
     psa_status \<times> slot_ref option \<times> psa_system" where
  "psa_get_and_lock_transparent_key_slot_with_policy key usage alg sys =
    (let (status, p_slot, sys) = psa_get_and_lock_key_slot_with_policy key usage alg sys in
     if status \<noteq> PSA_SUCCESS then (status, p_slot, sys)
     else if psa_key_lifetime_is_external (attr_lifetime (slot_attr (get_key_slot (keystore sys) (the p_slot))))
     then (PSA_ERROR_NOT_SUPPORTED, None,
           sys\<lparr>keystore := snd (psa_unregister_read_under_mutex p_slot (keystore sys))\<rparr>)
     else (PSA_SUCCESS, p_slot, sys))"

section \<open>Destroying, querying and exporting\<close>

definition psa_destroy_key :: "psa_key_id \<Rightarrow> psa_system \<Rightarrow> psa_status \<times> psa_system" where
  "psa_destroy_key key sys =
    (if key = 0 then (PSA_SUCCESS, sys)
     else
       let (status, p_slot, sys) = psa_get_and_lock_key_slot key sys in
       if status \<noteq> PSA_SUCCESS then (status, sys)
       else
         let r = the p_slot;
             (overall_status, slot) = psa_key_slot_state_transition (get_key_slot (keystore sys) r)
                                        PSA_SLOT_FULL PSA_SLOT_PENDING_DELETION;
             sys = sys\<lparr>keystore := put_key_slot r slot (keystore sys)\<rparr>;
             (overall_status, sys) =
               (if overall_status \<noteq> PSA_SUCCESS then (overall_status, sys)
                else if PSA_KEY_LIFETIME_IS_READ_ONLY (attr_lifetime (slot_attr slot))
                then (PSA_ERROR_NOT_PERMITTED, sys)
                else if \<not> PSA_KEY_LIFETIME_IS_VOLATILE (attr_lifetime (slot_attr slot)) then
                  let (status, fs) = psa_destroy_persistent_key its_file_ops (attr_id (slot_attr slot)) (storage sys)
                  in (if overall_status = PSA_SUCCESS then status else overall_status, sys\<lparr>storage := fs\<rparr>)
                else (overall_status, sys));
             (status, g) = psa_unregister_read (Some r) (keystore sys)
         in (if status \<noteq> PSA_SUCCESS then status else overall_status, sys\<lparr>keystore := g\<rparr>))"

definition psa_get_key_attributes ::
    "psa_key_id \<Rightarrow> psa_system \<Rightarrow> psa_status \<times> psa_key_attributes \<times> psa_system" where
  "psa_get_key_attributes key sys =
    (let (status, p_slot, sys) = psa_get_and_lock_key_slot_with_policy key 0 0 sys in
     if status \<noteq> PSA_SUCCESS then (status, PSA_KEY_ATTRIBUTES_INIT, sys)
     else
       let attr = slot_attr (get_key_slot (keystore sys) (the p_slot));
           (status, g) = psa_unregister_read_under_mutex p_slot (keystore sys)
       in (status, attr, sys\<lparr>keystore := g\<rparr>))"

text \<open>
  The export functions return the status, the caller's buffer, the value of \<open>*data_length\<close>
  (\<open>None\<close> when it is not written) and the new state.
\<close>

definition psa_export_key ::
    "psa_key_id \<Rightarrow> bytes option \<Rightarrow> nat \<Rightarrow> psa_system \<Rightarrow>
     psa_status \<times> bytes option \<times> nat option \<times> psa_system" where
  "psa_export_key key data_external data_size sys =
    (if data_size = 0 then (PSA_ERROR_BUFFER_TOO_SMALL, data_external, None, sys)
     else
       let data_length = 0;
           (status, p_slot, sys) = psa_get_and_lock_key_slot_with_policy key PSA_KEY_USAGE_EXPORT 0 sys
       in if status \<noteq> PSA_SUCCESS then (status, data_external, Some data_length, sys)
          else
            let slot = get_key_slot (keystore sys) (the p_slot);
                (status, lo, outcomes) =
                  psa_crypto_local_output_alloc data_external data_size (calloc_outcomes (keystore sys));
                g = (keystore sys)\<lparr>calloc_outcomes := outcomes\<rparr>;
                (status, lo, data_length) =
                  (if status \<noteq> PSA_SUCCESS then (status, lo, data_length)
                   else
                     let (status, data, data_length) =
                           psa_driver_wrapper_export_key (slot_attr slot) (slot_material slot)
                             (contents (output_buffer lo)) data_length
                     in (status, lo\<lparr>output_buffer := Some data\<rparr>, data_length));
                (unlock_status, g) = psa_unregister_read_under_mutex p_slot g;
                (status, data_external) = LOCAL_OUTPUT_FREE lo data_external status
            in (if status = PSA_SUCCESS then unlock_status else status, data_external, Some data_length,
                sys\<lparr>keystore := g\<rparr>))"

definition psa_export_public_key ::
    "asymmetric_drivers \<Rightarrow> psa_key_id \<Rightarrow> bytes option \<Rightarrow> nat \<Rightarrow> psa_system \<Rightarrow>
     psa_status \<times> bytes option \<times> nat option \<times> psa_system" where
  "psa_export_public_key drv key data_external data_size sys =
    (if data_size = 0 then (PSA_ERROR_BUFFER_TOO_SMALL, data_external, None, sys)
     else
       let data_length = 0;
           (status, p_slot, sys) = psa_get_and_lock_key_slot_with_policy key 0 0 sys
       in if status \<noteq> PSA_SUCCESS then (status, data_external, Some data_length, sys)
          else
            let slot = get_key_slot (keystore sys) (the p_slot);
                (status, lo, outcomes) =
                  psa_crypto_local_output_alloc data_external data_size (calloc_outcomes (keystore sys));
                g = (keystore sys)\<lparr>calloc_outcomes := outcomes\<rparr>;
                (status, lo, data_length) =
                  (if status \<noteq> PSA_SUCCESS then (status, lo, data_length)
                   else if \<not> PSA_KEY_TYPE_IS_ASYMMETRIC (attr_type (slot_attr slot))
                   then (PSA_ERROR_INVALID_ARGUMENT, lo, data_length)
                   else
                     let (status, data, data_length) =
                           psa_driver_wrapper_export_public_key drv (slot_attr slot) (slot_material slot)
                             (contents (output_buffer lo)) data_length
                     in (status, lo\<lparr>output_buffer := Some data\<rparr>, data_length));
                (unlock_status, g) = psa_unregister_read_under_mutex p_slot g;
                (status, data_external) = LOCAL_OUTPUT_FREE lo data_external status
            in (if status = PSA_SUCCESS then unlock_status else status, data_external, Some data_length,
                sys\<lparr>keystore := g\<rparr>))"

section \<open>Creating keys\<close>

definition psa_validate_key_policy :: "psa_key_policy \<Rightarrow> psa_status" where
  "psa_validate_key_policy policy =
    (if policy_usage policy AND NOT (PSA_KEY_USAGE_EXPORT OR PSA_KEY_USAGE_COPY OR PSA_KEY_USAGE_ENCRYPT OR
          PSA_KEY_USAGE_DECRYPT OR PSA_KEY_USAGE_SIGN_MESSAGE OR PSA_KEY_USAGE_VERIFY_MESSAGE OR
          PSA_KEY_USAGE_SIGN_HASH OR PSA_KEY_USAGE_VERIFY_HASH OR PSA_KEY_USAGE_VERIFY_DERIVATION OR
          PSA_KEY_USAGE_DERIVE) \<noteq> 0
     then PSA_ERROR_INVALID_ARGUMENT else PSA_SUCCESS)"

definition psa_validate_key_attributes :: "psa_key_attributes \<Rightarrow> psa_status" where
  "psa_validate_key_attributes attr =
    (let lifetime = attr_lifetime attr; key = attr_id attr;
         status = psa_validate_key_persistence lifetime
     in if status \<noteq> PSA_SUCCESS then status
        else if PSA_KEY_LIFETIME_IS_VOLATILE lifetime \<and> key \<noteq> 0 then PSA_ERROR_INVALID_ARGUMENT
        else if \<not> PSA_KEY_LIFETIME_IS_VOLATILE lifetime \<and> \<not> psa_key_id_is_user key
        then PSA_ERROR_INVALID_ARGUMENT
        else if psa_validate_key_policy (attr_policy attr) \<noteq> PSA_SUCCESS
        then psa_validate_key_policy (attr_policy attr)
        else if unat (attr_bits attr) > PSA_MAX_KEY_BITS then PSA_ERROR_NOT_SUPPORTED
        else PSA_SUCCESS)"

definition psa_start_key_creation ::
    "psa_key_attributes \<Rightarrow> psa_system \<Rightarrow> psa_status \<times> slot_ref option \<times> psa_system" where
  "psa_start_key_creation attr sys =
    (let status = psa_validate_key_attributes attr in
     if status \<noteq> PSA_SUCCESS then (status, None, sys)
     else
       let key_is_volatile = PSA_KEY_LIFETIME_IS_VOLATILE (attr_lifetime attr);
           (status, volatile_key_id, p_slot, g) = psa_reserve_free_key_slot key_is_volatile (keystore sys)
       in if status \<noteq> PSA_SUCCESS then (status, p_slot, sys\<lparr>keystore := g\<rparr>)
          else
            let r = the p_slot;
                attr = (if key_is_volatile then attr\<lparr>attr_id := the volatile_key_id\<rparr> else attr)
            in (PSA_SUCCESS, p_slot,
                sys\<lparr>keystore := put_key_slot r ((get_key_slot g r)\<lparr>slot_attr := attr\<rparr>) g\<rparr>))"

text \<open>The second component is the identifier written to \<open>*key\<close>, which the callers have set to 0.\<close>

definition psa_finish_key_creation ::
    "slot_ref \<Rightarrow> psa_system \<Rightarrow> psa_status \<times> psa_key_id \<times> psa_system" where
  "psa_finish_key_creation r sys =
    (let slot = get_key_slot (keystore sys) r;
         (status, sys) =
           (if \<not> PSA_KEY_LIFETIME_IS_VOLATILE (attr_lifetime (slot_attr slot)) then
              let (status, outcomes, fs) =
                    psa_save_persistent_key its_file_ops (slot_attr slot) (slot_key_data slot)
                      (slot_key_bytes slot) (calloc_outcomes (keystore sys)) (storage sys)
              in (status, \<lparr>keystore = (keystore sys)\<lparr>calloc_outcomes := outcomes\<rparr>, storage = fs\<rparr>)
            else (PSA_SUCCESS, sys))
     in if status \<noteq> PSA_SUCCESS then (status, 0, sys)
        else
          let (status, slot) = psa_key_slot_state_transition slot PSA_SLOT_FILLING PSA_SLOT_FULL
          in (status, if status \<noteq> PSA_SUCCESS then 0 else attr_id (slot_attr slot),
              sys\<lparr>keystore := put_key_slot r slot (keystore sys)\<rparr>))"

definition psa_fail_key_creation :: "slot_ref option \<Rightarrow> psa_system \<Rightarrow> psa_system" where
  "psa_fail_key_creation p_slot sys =
    (case p_slot of
       None \<Rightarrow> sys
     | Some r \<Rightarrow> sys\<lparr>keystore := snd (psa_wipe_key_slot r (keystore sys))\<rparr>)"

definition psa_validate_optional_attributes :: "psa_key_slot \<Rightarrow> psa_key_attributes \<Rightarrow> psa_status" where
  "psa_validate_optional_attributes slot attr =
    (if attr_type attr \<noteq> 0 \<and> attr_type attr \<noteq> attr_type (slot_attr slot) then PSA_ERROR_INVALID_ARGUMENT
     else if attr_bits attr \<noteq> 0 \<and> attr_bits attr \<noteq> attr_bits (slot_attr slot)
     then PSA_ERROR_INVALID_ARGUMENT
     else PSA_SUCCESS)"

text \<open>
  The body of psa_import_key between the start of the creation and its end: it fills the slot
  \<open>r\<close>, which is being created, from the data.
\<close>

definition import_into_new_slot ::
    "asymmetric_drivers \<Rightarrow> psa_key_attributes \<Rightarrow> bytes \<Rightarrow> slot_ref \<Rightarrow> psa_global_data \<Rightarrow>
     psa_status \<times> psa_global_data" where
  "import_into_new_slot drv attr data r g =
    (let (status, g) =
           (if slot_key_bytes (get_key_slot g r) = 0 then
              let (status, storage_size) =
                    (if psa_key_lifetime_is_external (attr_lifetime attr)
                     then psa_driver_wrapper_get_key_buffer_size_from_key_data attr data
                     else (PSA_SUCCESS, length data))
              in if status \<noteq> PSA_SUCCESS then (status, g)
                 else psa_allocate_buffer_to_slot r storage_size g
            else (PSA_SUCCESS, g))
     in if status \<noteq> PSA_SUCCESS then (status, g)
        else
          let slot = get_key_slot g r;
              (status, key_buffer, key_bytes, bits) =
                psa_driver_wrapper_import_key drv attr data (contents (slot_key_data slot))
                  (slot_key_bytes slot) (unat (attr_bits (slot_attr slot)));
              slot = slot\<lparr>slot_key_data := Some key_buffer, slot_key_bytes := key_bytes\<rparr>;
              g = put_key_slot r slot g
          in if status \<noteq> PSA_SUCCESS then (status, g)
             else
               let (status, slot) =
                     (if attr_bits (slot_attr slot) = 0
                      then (PSA_SUCCESS, slot\<lparr>slot_attr := (slot_attr slot)\<lparr>attr_bits := word_of_nat bits\<rparr>\<rparr>)
                      else if bits \<noteq> unat (attr_bits (slot_attr slot)) then (PSA_ERROR_INVALID_ARGUMENT, slot)
                      else (PSA_SUCCESS, slot));
                   g = put_key_slot r slot g
               in if status \<noteq> PSA_SUCCESS then (status, g)
                  else if bits > PSA_MAX_KEY_BITS then (PSA_ERROR_NOT_SUPPORTED, g)
                  else (psa_validate_optional_attributes slot attr, g))"

definition psa_import_key ::
    "asymmetric_drivers \<Rightarrow> psa_key_attributes \<Rightarrow> bytes \<Rightarrow> psa_system \<Rightarrow>
     psa_status \<times> psa_key_id \<times> psa_system" where
  "psa_import_key drv attr data_external sys =
    (if length data_external = 0 then (PSA_ERROR_INVALID_ARGUMENT, 0, sys)
     else if length data_external > SIZE_MAX div 8 then (PSA_ERROR_NOT_SUPPORTED, 0, sys)
     else
       let (status, li, outcomes) =
             psa_crypto_local_input_alloc data_external (calloc_outcomes (keystore sys));
           sys = sys\<lparr>keystore := (keystore sys)\<lparr>calloc_outcomes := outcomes\<rparr>\<rparr>
       in if status \<noteq> PSA_SUCCESS then (status, 0, sys)
          else
            let data = contents (input_buffer li);
                (status, p_slot, sys) = psa_start_key_creation attr sys;
                (status, key, sys) =
                  (if status \<noteq> PSA_SUCCESS then (status, 0, sys)
                   else
                     let (status, g) = import_into_new_slot drv attr data (the p_slot) (keystore sys);
                         sys = sys\<lparr>keystore := g\<rparr>
                     in if status \<noteq> PSA_SUCCESS then (status, 0, sys)
                        else psa_finish_key_creation (the p_slot) sys)
            in (status, key,
                if status \<noteq> PSA_SUCCESS then psa_fail_key_creation p_slot sys else sys))"

text \<open>The body of psa_copy_key between locking the source and its label \<open>exit\<close>.\<close>

definition copy_into_new_slot ::
    "slot_ref \<Rightarrow> psa_key_attributes \<Rightarrow> psa_system \<Rightarrow>
     psa_status \<times> psa_key_id \<times> slot_ref option \<times> psa_system" where
  "copy_into_new_slot source specified_attr sys =
    (let source_slot = get_key_slot (keystore sys) source;
         status = psa_validate_optional_attributes source_slot specified_attr
     in if status \<noteq> PSA_SUCCESS then (status, 0, None, sys)
        else
          let actual = specified_attr\<lparr>attr_bits := attr_bits (slot_attr source_slot),
                                      attr_type := attr_type (slot_attr source_slot)\<rparr>;
              (status, policy) = psa_restrict_key_policy (attr_type (slot_attr source_slot))
                                   (attr_policy actual) (attr_policy (slot_attr source_slot));
              actual = actual\<lparr>attr_policy := policy\<rparr>
          in if status \<noteq> PSA_SUCCESS then (status, 0, None, sys)
             else
               let (status, target, sys) = psa_start_key_creation actual sys in
               if status \<noteq> PSA_SUCCESS then (status, 0, target, sys)
               else
                 let r = the target; target_slot = get_key_slot (keystore sys) r in
                 if PSA_KEY_LIFETIME_GET_LOCATION (attr_lifetime (slot_attr target_slot)) \<noteq>
                    PSA_KEY_LIFETIME_GET_LOCATION (attr_lifetime (slot_attr source_slot))
                 then (PSA_ERROR_NOT_SUPPORTED, 0, target, sys)
                 else
                   let (status, g) =
                         (if psa_key_lifetime_is_external (attr_lifetime actual) then
                            let (status, storage_size) = psa_driver_wrapper_get_key_buffer_size actual in
                            if status \<noteq> PSA_SUCCESS then (status, keystore sys)
                            else
                              let (status, g) = psa_allocate_buffer_to_slot r storage_size (keystore sys) in
                              if status \<noteq> PSA_SUCCESS then (status, g)
                              else
                                let slot = get_key_slot g r;
                                    (status, key_buffer, key_bytes) =
                                      psa_driver_wrapper_copy_key actual (slot_material source_slot)
                                        (contents (slot_key_data slot)) (slot_key_bytes slot)
                                in (status, put_key_slot r (slot\<lparr>slot_key_data := Some key_buffer,
                                                                  slot_key_bytes := key_bytes\<rparr>) g)
                          else psa_copy_key_material_into_slot r (slot_material source_slot) (keystore sys));
                       sys = sys\<lparr>keystore := g\<rparr>
                   in if status \<noteq> PSA_SUCCESS then (status, 0, target, sys)
                      else
                        let (status, key, sys) = psa_finish_key_creation r sys
                        in (status, key, target, sys))"

definition psa_copy_key ::
    "psa_key_id \<Rightarrow> psa_key_attributes \<Rightarrow> psa_system \<Rightarrow> psa_status \<times> psa_key_id \<times> psa_system" where
  "psa_copy_key source_key specified_attr sys =
    (let (status, source, sys) =
           psa_get_and_lock_key_slot_with_policy source_key PSA_KEY_USAGE_COPY 0 sys;
         (status, key, target, sys) =
           (if status \<noteq> PSA_SUCCESS then (status, 0, None, sys)
            else copy_into_new_slot (the source) specified_attr sys);
         sys = (if status \<noteq> PSA_SUCCESS then psa_fail_key_creation target sys else sys);
         (unlock_status, g) = psa_unregister_read_under_mutex source (keystore sys)
     in (if status = PSA_SUCCESS then unlock_status else status, key, sys\<lparr>keystore := g\<rparr>))"

end
