(* ===== verification/Lifecycle_Facts.thy ===== *)
theory Lifecycle_Facts
  imports Key_Lifecycle
begin

text \<open>
  What the key management functions do to the store. A call is \<open>transparent\<close> when it leaves every
  slot as it was except idle persistent keys of the cache, which may be loaded and evicted:
  no lock is leaked, no volatile key is touched. Each function is described by a cases rule or a
  result lemma; the properties of Lifecycle_Contracts are read off these.
\<close>

section \<open>Frames\<close>

definition idle :: "psa_key_slot \<Rightarrow> bool" where
  "idle s \<longleftrightarrow> slot_state s = PSA_SLOT_FULL \<and> registered_readers s = 0"

lemma evictable_idle: "evictable s \<Longrightarrow> idle s"
  by (simp add: evictable_def idle_def)

definition reusable :: "psa_global_data \<Rightarrow> slot_ref \<Rightarrow> bool" where
  "reusable g r \<longleftrightarrow> fst r = KEY_SLOT_CACHE_SLICE_INDEX \<and>
     (case store_abs g r of None \<Rightarrow> True | Some s \<Rightarrow> idle s)"

definition transparent :: "psa_global_data \<Rightarrow> psa_global_data \<Rightarrow> bool" where
  "transparent g g' \<longleftrightarrow>
     (\<forall>r. store_abs g' r = store_abs g r \<or> reusable g r \<and> reusable g' r)"

lemma reusable_cong: "store_abs g r = store_abs g' r \<Longrightarrow> reusable g r = reusable g' r"
  by (simp add: reusable_def)

lemma transparent_refl [simp]: "transparent g g"
  by (simp add: transparent_def)

lemma transparent_trans: "transparent a b \<Longrightarrow> transparent b c \<Longrightarrow> transparent a c"
  unfolding transparent_def reusable_def by metis

lemma transparent_same: "store_abs g' = store_abs g \<Longrightarrow> transparent g g'"
  by (simp add: transparent_def)

lemma transparent_at:
  assumes "store_abs g' = (store_abs g)(r := x)" "reusable g r" "\<And>s. x = Some s \<Longrightarrow> idle s"
  shows "transparent g g'"
  using assms unfolding transparent_def reusable_def by (auto split: option.splits)

lemma transparent_back:
  assumes "transparent g g'" "store_abs g r = Some s" "\<not> idle s"
  shows "store_abs g' r = Some s"
  using assms unfolding transparent_def reusable_def by (metis option.simps(5))

text \<open>The parts of the state every function keeps well-formed.\<close>

definition system_ok :: "psa_system \<Rightarrow> bool" where
  "system_ok sys \<longleftrightarrow> store_ok (keystore sys) \<and> key_slots_initialized (keystore sys) \<and> disk_ok (storage sys)"

text \<open>A step that leaves the stored keys alone and does not bring storage failures with it.\<close>

definition calm :: "psa_system \<Rightarrow> psa_system \<Rightarrow> bool" where
  "calm sys sys' \<longleftrightarrow> system_ok sys' \<and> its_abs (storage sys') = its_abs (storage sys) \<and>
     (no_faults (storage sys) \<longrightarrow> storage sys' = storage sys)"

section \<open>Slots under construction\<close>

lemma store_ok_put_same:
  assumes g: "store_ok g" and r: "store_abs g r = Some s"
    and s': "slot_state s' = slot_state s" "slot_slice_index s' = slot_slice_index s" "slot_var s' = slot_var s"
  shows "store_ok (put_key_slot r s' g)" "store_abs (put_key_slot r s' g) = (store_abs g)(r \<mapsto> s')"
proof -
  note rD = store_abs_SomeD [OF r]
  have "slot_ok (fst r) s" using slot_ok_get [OF g rD(1)] rD(2) by simp
  with rD(3) s' have "slot_ok (fst r) s'" by (auto simp: slot_ok_def)
  with rD s' show "store_ok (put_key_slot r s' g)" by (intro store_ok_put g) auto
  show "store_abs (put_key_slot r s' g) = (store_abs g)(r \<mapsto> s')"
    using rD s' by (auto simp: slot_simps)
qed

lemma drop_add_reader: "registered_readers s < SIZE_MAX \<Longrightarrow> drop_reader (add_reader s) = s"
proof -
  assume "registered_readers s < SIZE_MAX"
  then have "registered_readers (add_reader s) = registered_readers s + 1" by (simp add: slot_simps)
  then have "drop_reader (add_reader s) = s\<lparr>slot_var := word_of_nat (registered_readers s)\<rparr>"
    by (simp add: drop_reader_def add_reader_def set_registered_readers_def)
  then show ?thesis by (simp add: registered_readers_def)
qed

lemma filling_readers:
  assumes "store_ok g" "store_abs g r = Some s" "slot_state s = PSA_SLOT_FILLING"
  shows "slot_var s = 0" "registered_readers s = 0" "wipeable s"
proof -
  note rD = store_abs_SomeD [OF assms(2)]
  have "slot_ok (fst r) s" using slot_ok_get [OF assms(1) rD(1)] rD(2) by simp
  then show "slot_var s = 0" using assms(3) by (simp add: slot_ok_def)
  then show "registered_readers s = 0" "wipeable s" using assms(3) by (simp_all add: registered_readers_def wipeable_def)
qed

text \<open>A slot of the store is being filled: the working state of the creation functions.\<close>

definition creating :: "psa_global_data \<Rightarrow> slot_ref \<Rightarrow> psa_global_data \<Rightarrow> psa_key_slot \<Rightarrow> bool" where
  "creating g0 r g s \<longleftrightarrow>
     store_ok g \<and> key_slots_initialized g \<and> slot_state s = PSA_SLOT_FILLING \<and>
     store_abs g = (store_abs g0)(r \<mapsto> s)"

lemma creating_get: "creating g0 r g s \<Longrightarrow> get_key_slot g r = s"
  unfolding creating_def by (metis fun_upd_same store_abs_SomeD(2))

lemma creating_put:
  assumes "creating g0 r g s" "slot_state s' = slot_state s" "slot_slice_index s' = slot_slice_index s"
    "slot_var s' = slot_var s"
  shows "creating g0 r (put_key_slot r s' g) s'"
  using assms store_ok_put_same [of g r s s'] by (simp add: creating_def slot_simps)

lemma creating_calloc: "creating g0 r g s \<Longrightarrow> creating g0 r (g\<lparr>calloc_outcomes := b\<rparr>) s"
  by (simp add: creating_def slot_simps)

lemma creating_wipe:
  assumes "creating g0 r g s"
  obtains g' where "psa_wipe_key_slot r g = (PSA_SUCCESS, g')" "store_ok g'" "key_slots_initialized g'"
    "store_abs g' = (store_abs g0)(r := None)"
proof -
  have c: "store_ok g" "store_abs g r = Some s" "slot_state s = PSA_SLOT_FILLING" "key_slots_initialized g"
    "store_abs g = (store_abs g0)(r \<mapsto> s)"
    using assms by (simp_all add: creating_def)
  from wipe_refines [OF c(1,2) filling_readers(3) [OF c(1-3)]]
  obtain g' where "psa_wipe_key_slot r g = (PSA_SUCCESS, g')" "store_ok g'"
    "store_abs g' = (store_abs g)(r := None)" "key_slots_initialized g' = key_slots_initialized g" by blast
  then show thesis using c by (intro that [of g']) auto
qed

lemma creating_full:
  assumes "creating g0 r g s" "slot_state s' = PSA_SLOT_FULL" "slot_slice_index s' = slot_slice_index s"
  shows "store_ok (put_key_slot r s' g)" "key_slots_initialized (put_key_slot r s' g)"
    "store_abs (put_key_slot r s' g) = (store_abs g0)(r \<mapsto> s')"
  using assms store_ok_put_occupied [of g r s s'] by (auto simp: creating_def slot_simps)

lemma slot_data_bytes: "s\<lparr>slot_key_bytes := n, slot_key_data := d\<rparr> = s\<lparr>slot_key_data := d, slot_key_bytes := n\<rparr>"
  by (cases s) simp

lemma allocate_buffer_cases:
  assumes "creating g0 r g s" "slot_key_data s = None"
  obtains (nomem) g' where "psa_allocate_buffer_to_slot r n g = (PSA_ERROR_INSUFFICIENT_MEMORY, g')"
      "creating g0 r g' s" "next_calloc_fails g"
  | (ok) g' where "psa_allocate_buffer_to_slot r n g = (PSA_SUCCESS, g')"
      "creating g0 r g' (s\<lparr>slot_key_data := Some (replicate n 0), slot_key_bytes := n\<rparr>)"
      "calloc_outcomes g' = snd (mbedtls_calloc (calloc_outcomes g))"
proof -
  let ?g = "g\<lparr>calloc_outcomes := snd (mbedtls_calloc (calloc_outcomes g))\<rparr>"
  let ?s = "s\<lparr>slot_key_data := Some (replicate n 0), slot_key_bytes := n\<rparr>"
  have get: "get_key_slot g r = s" by (rule creating_get [OF assms(1)])
  have c: "creating g0 r ?g s" by (rule creating_calloc [OF assms(1)])
  show thesis
  proof (cases "fst (mbedtls_calloc (calloc_outcomes g))")
    case True
    show thesis
    proof (rule ok)
      show "psa_allocate_buffer_to_slot r n g = (PSA_SUCCESS, put_key_slot r ?s ?g)"
        using True assms(2) by (simp add: psa_allocate_buffer_to_slot_def get split_def)
      show "creating g0 r (put_key_slot r ?s ?g) ?s" by (rule creating_put [OF c]) simp_all
      show "calloc_outcomes (put_key_slot r ?s ?g) = snd (mbedtls_calloc (calloc_outcomes g))"
        by (simp add: slot_simps)
    qed
  next
    case False
    show thesis
    proof (rule nomem)
      show "psa_allocate_buffer_to_slot r n g = (PSA_ERROR_INSUFFICIENT_MEMORY, ?g)"
        using False assms(2) by (simp add: psa_allocate_buffer_to_slot_def get split_def)
    qed (use c False in \<open>simp_all add: next_calloc_fails_def\<close>)
  qed
qed

lemma copy_material_cases:
  assumes "creating g0 r g s" "slot_key_data s = None"
  obtains (nomem) g' where "psa_copy_key_material_into_slot r d g = (PSA_ERROR_INSUFFICIENT_MEMORY, g')"
      "creating g0 r g' s" "next_calloc_fails g"
  | (ok) g' where "psa_copy_key_material_into_slot r d g = (PSA_SUCCESS, g')"
      "creating g0 r g' (s\<lparr>slot_key_data := Some d, slot_key_bytes := length d\<rparr>)"
      "calloc_outcomes g' = snd (mbedtls_calloc (calloc_outcomes g))"
proof (rule allocate_buffer_cases [OF assms, of "length d"])
  fix g' assume "psa_allocate_buffer_to_slot r (length d) g = (PSA_ERROR_INSUFFICIENT_MEMORY, g')"
    "creating g0 r g' s" "next_calloc_fails g"
  then show thesis by (intro nomem [of g']) (simp_all add: psa_copy_key_material_into_slot_def)
next
  fix g' let ?s = "s\<lparr>slot_key_data := Some (replicate (length d) 0), slot_key_bytes := length d\<rparr>"
  let ?s' = "s\<lparr>slot_key_data := Some d, slot_key_bytes := length d\<rparr>"
  assume a: "psa_allocate_buffer_to_slot r (length d) g = (PSA_SUCCESS, g')" "creating g0 r g' ?s"
    "calloc_outcomes g' = snd (mbedtls_calloc (calloc_outcomes g))"
  show thesis
  proof (rule ok)
    show "psa_copy_key_material_into_slot r d g = (PSA_SUCCESS, put_key_slot r ?s' g')"
      using a(1) creating_get [OF a(2)] by (simp add: psa_copy_key_material_into_slot_def slot_data_bytes)
    show "creating g0 r (put_key_slot r ?s' g') ?s'" by (rule creating_put [OF a(2)]) simp_all
  qed (use a(3) in \<open>simp add: slot_simps\<close>)
qed

section \<open>Allocations\<close>

text \<open>Only allocation consumes allocation outcomes; without failures there never are any.\<close>

lemma wipe_calloc [slot_simps]: "calloc_outcomes (snd (psa_wipe_key_slot r g)) = calloc_outcomes g"
  by (simp add: psa_wipe_key_slot_def psa_free_key_slot_def Let_def slot_simps split: prod.split)

lemma unregister_calloc [slot_simps]: "calloc_outcomes (snd (psa_unregister_read p g)) = calloc_outcomes g"
  by (simp add: psa_unregister_read_def Let_def slot_simps split: option.split)

lemma reserve_cache_calloc [slot_simps]:
  "calloc_outcomes (snd (snd (snd (psa_reserve_free_key_slot False g)))) = calloc_outcomes g"
  by (auto simp: psa_reserve_free_key_slot_def Let_def slot_simps split_def split: option.split)

lemma allocate_calloc_nil:
  "calloc_outcomes g = [] \<Longrightarrow> calloc_outcomes (snd (snd (snd (psa_allocate_volatile_key_slot g)))) = []"
  by (auto simp: psa_allocate_volatile_key_slot_def allocate_from_slice_def Let_def slot_simps split_def
      split: option.split)

lemma reserve_calloc_nil:
  "calloc_outcomes g = [] \<Longrightarrow> calloc_outcomes (snd (snd (snd (psa_reserve_free_key_slot v g)))) = []"
  using reserve_cache_calloc [of g] allocate_calloc_nil [of g]
  by (cases v) (auto simp: psa_reserve_free_key_slot_def)

section \<open>Getting a key\<close>

definition extend_attributes :: "psa_key_attributes \<Rightarrow> psa_key_attributes" where
  "extend_attributes attr = attr\<lparr>attr_policy := (attr_policy attr)
     \<lparr>policy_usage := psa_extend_key_usage_flags (policy_usage (attr_policy attr))\<rparr>\<rparr>"

lemma extend_attributes_simps [simp]:
  "attr_id (extend_attributes a) = attr_id a" "attr_type (extend_attributes a) = attr_type a"
  "attr_bits (extend_attributes a) = attr_bits a" "attr_lifetime (extend_attributes a) = attr_lifetime a"
  "policy_alg (attr_policy (extend_attributes a)) = policy_alg (attr_policy a)"
  "policy_alg2 (attr_policy (extend_attributes a)) = policy_alg2 (attr_policy a)"
  by (simp_all add: extend_attributes_def)

text \<open>The attributes a slot has before a persistent key is loaded into it.\<close>

definition attributes_to_load :: "psa_key_id \<Rightarrow> psa_key_attributes" where
  "attributes_to_load key = PSA_KEY_ATTRIBUTES_INIT\<lparr>attr_id := key, attr_lifetime := PSA_KEY_LIFETIME_PERSISTENT\<rparr>"

text \<open>A full slot with one reader whose contents come from the storage.\<close>

definition loaded_slot :: "psa_key_attributes \<Rightarrow> bytes \<Rightarrow> psa_key_slot" where
  "loaded_slot attr d = \<lparr>slot_attr = extend_attributes attr, slot_state = PSA_SLOT_FULL,
     slot_slice_index = word_of_nat KEY_SLOT_CACHE_SLICE_INDEX, slot_var = 1, slot_key_data = Some d,
     slot_key_bytes = length d\<rparr>"

definition stored_key :: "file_system \<Rightarrow> psa_key_id \<Rightarrow> psa_key_attributes \<Rightarrow> bytes \<Rightarrow> bool" where
  "stored_key fs key attr d \<longleftrightarrow>
     (\<exists>e o1 o2 kd n. its_abs fs (psa_its_identifier_of_slot key) = Some e \<and>
        psa_parse_key_data_from_storage (fst e) (attributes_to_load key) o1 = (PSA_SUCCESS, kd, n, attr, o2) \<and>
        d = take n (contents kd) \<and> d \<noteq> [])"

lemma stored_key_abs: "its_abs fs' = its_abs fs \<Longrightarrow> stored_key fs' = stored_key fs"
  by (simp add: stored_key_def fun_eq_iff)

lemma stored_key_id: "stored_key fs key attr d \<Longrightarrow> attr_id attr = key"
  by (auto simp: stored_key_def psa_parse_key_data_from_storage_def attributes_to_load_def Let_def split: if_splits prod.splits)

text \<open>The cache agrees with the storage: every key in it is stored, with the same contents, and is there once.\<close>

definition backed :: "file_system \<Rightarrow> psa_key_slot \<Rightarrow> bool" where
  "backed fs s \<longleftrightarrow> psa_key_id_is_user (attr_id (slot_attr s)) \<and>
     (\<exists>attr d. stored_key fs (attr_id (slot_attr s)) attr d \<and> slot_attr s \<in> {attr, extend_attributes attr} \<and>
        slot_material s = d)"

definition cached :: "psa_global_data \<Rightarrow> slot_ref \<Rightarrow> psa_key_slot \<Rightarrow> bool" where
  "cached g r s \<longleftrightarrow> fst r = KEY_SLOT_CACHE_SLICE_INDEX \<and> store_abs g r = Some s \<and> slot_state s = PSA_SLOT_FULL"

definition cache_coherent :: "psa_system \<Rightarrow> bool" where
  "cache_coherent sys \<longleftrightarrow>
     (\<forall>r s. cached (keystore sys) r s \<longrightarrow> backed (storage sys) s) \<and>
     (\<forall>r r' s s'. cached (keystore sys) r s \<longrightarrow> cached (keystore sys) r' s' \<longrightarrow>
        attr_id (slot_attr s) = attr_id (slot_attr s') \<longrightarrow> r = r')"

lemma cache_coherentD:
  assumes "cache_coherent sys" "cached (keystore sys) r s"
  shows "backed (storage sys) s"
    "cached (keystore sys) r' s' \<Longrightarrow> attr_id (slot_attr s) = attr_id (slot_attr s') \<Longrightarrow> r = r'"
  using assms unfolding cache_coherent_def by blast+

lemma cache_coherent_upd:
  assumes c: "cache_coherent sys" and u: "store_abs (keystore sys') = (store_abs (keystore sys))(r := x)"
    and k: "\<And>q t. q \<noteq> r \<Longrightarrow> cached (keystore sys) q t \<Longrightarrow> backed (storage sys') t"
    and n: "\<And>s. x = Some s \<Longrightarrow> fst r = KEY_SLOT_CACHE_SLICE_INDEX \<Longrightarrow> slot_state s = PSA_SLOT_FULL \<Longrightarrow>
      backed (storage sys') s \<and> (\<forall>r' s'. r' \<noteq> r \<longrightarrow> cached (keystore sys) r' s' \<longrightarrow> attr_id (slot_attr s') \<noteq> attr_id (slot_attr s))"
  shows "cache_coherent sys'"
proof -
  have old: "cached (keystore sys) q t" if "cached (keystore sys') q t" "q \<noteq> r" for q t
    using that u by (simp add: cached_def)
  have new: "x = Some t \<and> fst r = KEY_SLOT_CACHE_SLICE_INDEX \<and> slot_state t = PSA_SLOT_FULL"
    if "cached (keystore sys') r t" for t using that u by (simp add: cached_def)
  show ?thesis
    unfolding cache_coherent_def
  proof (intro conjI allI impI)
    fix q t assume q: "cached (keystore sys') q t"
    show "backed (storage sys') t"
      using q old new n k by (cases "q = r") blast+
  next
    fix q q' t t' assume q: "cached (keystore sys') q t" "cached (keystore sys') q' t'"
      "attr_id (slot_attr t) = attr_id (slot_attr t')"
    show "q = q'"
    proof (cases "q = r")
      case True
      then have "x = Some t" "fst r = KEY_SLOT_CACHE_SLICE_INDEX" "slot_state t = PSA_SLOT_FULL" using new q(1) by blast+
      note nt = n [OF this]
      show ?thesis
      proof (rule ccontr)
        assume "q \<noteq> q'"
        then have "q' \<noteq> r" "cached (keystore sys) q' t'" using True old [OF q(2)] by simp_all
        with nt q(3) show False by metis
      qed
    next
      case False
      then have cq: "cached (keystore sys) q t" using old [OF q(1)] by simp
      show ?thesis
      proof (cases "q' = r")
        case True
        then have "x = Some t'" "fst r = KEY_SLOT_CACHE_SLICE_INDEX" "slot_state t' = PSA_SLOT_FULL" using new q(2) by blast+
        from n [OF this] False cq q(3) show ?thesis by metis
      next
        case nq: False
        show ?thesis by (rule cache_coherentD(2) [OF c cq old [OF q(2) nq] q(3)])
      qed
    qed
  qed
qed

lemma cache_coherent_at:
  assumes c: "cache_coherent sys" and u: "store_abs (keystore sys') = (store_abs (keystore sys))(r := x)"
    and a: "its_abs (storage sys') = its_abs (storage sys)"
    and n: "\<And>s. x = Some s \<Longrightarrow> fst r = KEY_SLOT_CACHE_SLICE_INDEX \<Longrightarrow> slot_state s = PSA_SLOT_FULL \<Longrightarrow>
      backed (storage sys) s \<and> (\<forall>r' s'. r' \<noteq> r \<longrightarrow> cached (keystore sys) r' s' \<longrightarrow> attr_id (slot_attr s') \<noteq> attr_id (slot_attr s))"
  shows "cache_coherent sys'"
proof (rule cache_coherent_upd [OF c u])
  have b: "backed (storage sys') = backed (storage sys)"
    unfolding backed_def [abs_def] stored_key_abs [OF a] by (rule refl)
  show "backed (storage sys') t" if "cached (keystore sys) q t" for q t
    unfolding b by (rule cache_coherentD(1) [OF c that])
  show "backed (storage sys') s \<and> (\<forall>r' s'. r' \<noteq> r \<longrightarrow> cached (keystore sys) r' s' \<longrightarrow> attr_id (slot_attr s') \<noteq> attr_id (slot_attr s))"
    if "x = Some s" "fst r = KEY_SLOT_CACHE_SLICE_INDEX" "slot_state s = PSA_SLOT_FULL" for s
    unfolding b by (rule n [OF that])
qed

lemma cache_coherent_same:
  assumes "store_abs (keystore sys') = store_abs (keystore sys)" "its_abs (storage sys') = its_abs (storage sys)"
    "cache_coherent sys"
  shows "cache_coherent sys'"
proof -
  have "cached (keystore sys') = cached (keystore sys)" using assms(1) by (simp add: cached_def [abs_def])
  moreover have "backed (storage sys') = backed (storage sys)"
    unfolding backed_def [abs_def] stored_key_abs [OF assms(2)] by (rule refl)
  ultimately show ?thesis using assms(3) unfolding cache_coherent_def by (simp only:)
qed

text \<open>Changing the reader count of a slot does not matter to the cache.\<close>

lemma cache_coherent_readers:
  assumes "cache_coherent sys" "store_abs (keystore sys) r = Some s0"
    "store_abs (keystore sys') = (store_abs (keystore sys))(r \<mapsto> s)" "its_abs (storage sys') = its_abs (storage sys)"
    "slot_attr s = slot_attr s0" "slot_material s = slot_material s0" "slot_state s = PSA_SLOT_FULL \<longrightarrow> slot_state s0 = PSA_SLOT_FULL"
  shows "cache_coherent sys'"
proof (rule cache_coherent_at [OF assms(1,3,4)])
  fix t assume t: "Some s = Some t" "fst r = KEY_SLOT_CACHE_SLICE_INDEX" "slot_state t = PSA_SLOT_FULL"
  have ts: "t = s" using t(1) by simp
  have c: "cached (keystore sys) r s0" using assms(2,7) t(2,3) ts by (simp add: cached_def)
  have "backed (storage sys) t"
    using cache_coherentD(1) [OF assms(1) c] unfolding ts backed_def assms(5,6) .
  moreover have "attr_id (slot_attr s') \<noteq> attr_id (slot_attr t)" if "r' \<noteq> r" "cached (keystore sys) r' s'" for r' s'
  proof
    assume "attr_id (slot_attr s') = attr_id (slot_attr t)"
    then have "attr_id (slot_attr s0) = attr_id (slot_attr s')" unfolding ts assms(5) by (rule sym)
    from cache_coherentD(2) [OF assms(1) c that(2) this] that(1) show False by simp
  qed
  ultimately show "backed (storage sys) t \<and> (\<forall>r' s'. r' \<noteq> r \<longrightarrow> cached (keystore sys) r' s' \<longrightarrow> attr_id (slot_attr s') \<noteq> attr_id (slot_attr t))"
    by (intro conjI allI impI)
qed

text \<open>A step that only takes and gives back locks, loads and evicts.\<close>

definition harmless :: "psa_system \<Rightarrow> psa_system \<Rightarrow> bool" where
  "harmless sys sys' \<longleftrightarrow> calm sys sys' \<and> transparent (keystore sys) (keystore sys') \<and>
     (cache_coherent sys \<longrightarrow> cache_coherent sys')"

lemma calm_refl [simp]: "system_ok sys \<Longrightarrow> calm sys sys"
  by (simp add: calm_def)

lemma calm_trans: "calm a b \<Longrightarrow> calm b c \<Longrightarrow> calm a c"
  by (auto simp: calm_def)

lemma harmless_refl [simp]: "system_ok sys \<Longrightarrow> harmless sys sys"
  by (simp add: harmless_def)

lemma harmless_trans: "harmless a b \<Longrightarrow> harmless b c \<Longrightarrow> harmless a c"
  unfolding harmless_def using calm_trans transparent_trans by blast

lemma load_into_slot_cases:
  assumes c: "creating g0 r g s" and fs: "disk_ok fs" and s: "slot_attr s = attributes_to_load key" "slot_key_data s = None"
  obtains (failed) st g' fs' s' where "psa_load_persistent_key_into_slot r \<lparr>keystore = g, storage = fs\<rparr> =
        (st, \<lparr>keystore = g', storage = fs'\<rparr>)" "st \<noteq> PSA_SUCCESS" "creating g0 r g' s'" "disk_ok fs'" "its_abs fs' = its_abs fs"
      "no_faults fs \<longrightarrow> fs' = fs"
  | (loaded) attr d g' fs' where "psa_load_persistent_key_into_slot r \<lparr>keystore = g, storage = fs\<rparr> =
        (PSA_SUCCESS, \<lparr>keystore = g', storage = fs'\<rparr>)" "disk_ok fs'" "its_abs fs' = its_abs fs"
      "no_faults fs \<longrightarrow> fs' = fs"
      "creating g0 r g' (s\<lparr>slot_attr := attr, slot_key_data := Some d, slot_key_bytes := length d\<rparr>)"
      "attr_id attr = key" "stored_key fs key attr d" "psa_key_id_is_user key"
proof -
  have get: "get_key_slot g r = s" by (rule creating_get [OF c])
  have id: "attr_id (attributes_to_load key) = key" by (simp add: attributes_to_load_def)
  show thesis
  proof (cases "psa_key_id_is_user key")
    case False
    then show thesis using c fs
      by (intro failed [of PSA_ERROR_DOES_NOT_EXIST g fs s]) (simp_all add: psa_load_persistent_key_into_slot_def get s id)
  next
    case True
    obtain st kd n attr o1 fs1 where l: "psa_load_persistent_key its_file_ops (attributes_to_load key) (calloc_outcomes g) fs =
        (st, kd, n, attr, o1, fs1)" by (rule prod_cases6)
    note lr = its_file.load_result [OF fs l]
    have nf: "no_faults fs \<longrightarrow> fs1 = fs"
      using its_file.load_quiet_state [OF fs, of "attributes_to_load key" "calloc_outcomes g"] l by simp
    let ?s1 = "s\<lparr>slot_attr := attr\<rparr>" and ?d = "take n (contents kd)"
    let ?g1 = "put_key_slot r ?s1 (g\<lparr>calloc_outcomes := o1\<rparr>)"
    have c1: "creating g0 r ?g1 ?s1" by (rule creating_put [OF creating_calloc [OF c]]) simp_all
    show thesis
    proof (cases "st = PSA_SUCCESS")
      case False
      then show thesis using True l lr nf c1
        by (intro failed [of st ?g1 fs1 ?s1]) (simp_all add: psa_load_persistent_key_into_slot_def get s id)
    next
      case st: True
      from lr(4) [OF st] obtain e o0 where e: "its_abs fs (psa_its_identifier_of_slot key) = Some e"
        "psa_parse_key_data_from_storage (fst e) (attributes_to_load key) o0 = (PSA_SUCCESS, kd, n, attr, o1)"
        "kd \<noteq> None" "0 < n" by (auto simp: id)
      have "length ?d = n \<and> ?d \<noteq> []"
        using e by (auto simp: psa_parse_key_data_from_storage_def Let_def split: if_splits prod.splits)
      then have sk: "stored_key fs key attr ?d" using e unfolding stored_key_def by blast
      have nd: "slot_key_data ?s1 = None" using s(2) by simp
      show thesis
      proof (cases rule: copy_material_cases [OF c1 nd, of ?d, case_names nomem ok])
        case (nomem g')
        then show thesis using True l lr nf st
          by (intro failed [of PSA_ERROR_INSUFFICIENT_MEMORY g' fs1 ?s1])
            (simp_all add: psa_load_persistent_key_into_slot_def get s id)
      next
        case (ok g')
        show thesis
        proof (rule loaded)
          show "psa_load_persistent_key_into_slot r \<lparr>keystore = g, storage = fs\<rparr> =
              (PSA_SUCCESS, \<lparr>keystore = g', storage = fs1\<rparr>)"
            using True l lr st ok(1) by (simp add: psa_load_persistent_key_into_slot_def get s id)
        qed (use ok lr nf True sk id in auto)
      qed
    qed
  qed
qed

lemma psa_system_eta: "sys = \<lparr>keystore = keystore sys, storage = storage sys\<rparr>" by simp

lemma get_and_lock_cases:
  assumes ok: "system_ok sys"
  obtains (in_memory) r s where "psa_get_and_lock_key_slot key sys =
        (PSA_SUCCESS, Some r, sys\<lparr>keystore := put_key_slot r (add_reader s) (keystore sys)\<rparr>)"
      "holds_key (keystore sys) key r s" "registered_readers s < SIZE_MAX"
  | (loaded) r attr d sys' where "psa_get_and_lock_key_slot key sys = (PSA_SUCCESS, Some r, sys')"
      "calm sys sys'" "reusable (keystore sys) r"
      "store_abs (keystore sys') = (store_abs (keystore sys))(r \<mapsto> loaded_slot attr d)"
      "attr_id attr = key" "stored_key (storage sys) key attr d" "psa_key_id_is_user key"
      "\<And>r s. \<not> holds_key (keystore sys) key r s" "cache_coherent sys \<longrightarrow> cache_coherent sys'"
  | (failed) st sys' where "psa_get_and_lock_key_slot key sys = (st, None, sys')" "st \<noteq> PSA_SUCCESS"
      "harmless sys sys'"
proof -
  let ?g = "keystore sys"
  have g: "store_ok ?g" "key_slots_initialized ?g" and fs: "disk_ok (storage sys)" using ok by (simp_all add: system_ok_def)
  show thesis
  proof (cases rule: lock_in_memory_cases [OF g, of key, case_names locked overflow absent invalid])
    case (locked r s)
    then show thesis using g by (intro in_memory [of r s]) (simp_all add: psa_get_and_lock_key_slot_def)
  next
    case (overflow r s)
    then show thesis using g ok
      by (intro failed [of PSA_ERROR_CORRUPTION_DETECTED sys]) (simp_all add: psa_get_and_lock_key_slot_def)
  next
    case invalid
    then show thesis using g ok
      by (intro failed [of PSA_ERROR_INVALID_HANDLE sys]) (simp_all add: psa_get_and_lock_key_slot_def)
  next
    case absent
    show thesis
    proof (cases rule: reserve_cache_cases [OF g, case_names reserved none])
      case none
      then show thesis using g ok absent
        by (intro failed [of PSA_ERROR_INSUFFICIENT_MEMORY sys]) (simp_all add: psa_get_and_lock_key_slot_def)
    next
      case (reserved j g1)
      let ?r = "(KEY_SLOT_CACHE_SLICE_INDEX, j)" and ?f = "filling_slot KEY_SLOT_CACHE_SLICE_INDEX"
      let ?s0 = "?f\<lparr>slot_attr := attributes_to_load key\<rparr>"
      have f: "slot_state ?f = PSA_SLOT_FILLING" "slot_attr ?f = PSA_KEY_ATTRIBUTES_INIT" "slot_key_data ?f = None"
        by (simp_all add: filling_slot_def psa_key_slot_zero_def)
      have ru: "reusable ?g ?r" using reserved(6) evictable_idle by (auto simp: reusable_def split: option.split)
      have c0: "creating ?g ?r g1 ?f" using reserved f by (simp add: creating_def)
      then have c1: "creating ?g ?r (put_key_slot ?r ?s0 g1) ?s0" by (rule creating_put) simp_all
      have e0: "psa_get_and_lock_key_slot key sys =
        (if status \<noteq> PSA_SUCCESS
              then (if status = PSA_ERROR_DOES_NOT_EXIST then PSA_ERROR_INVALID_HANDLE else status, None,
                    sys1\<lparr>keystore := snd (psa_wipe_key_slot ?r (keystore sys1))\<rparr>)
              else
                let slot = get_key_slot (keystore sys1) ?r;
                    attr = slot_attr slot;
                    slot = slot\<lparr>slot_attr := attr\<lparr>attr_policy := (attr_policy attr)
                      \<lparr>policy_usage := psa_extend_key_usage_flags (policy_usage (attr_policy attr))\<rparr>\<rparr>\<rparr>;
                    slot = snd (psa_key_slot_state_transition slot PSA_SLOT_FILLING PSA_SLOT_FULL);
                    (status, slot) = psa_register_read slot
                in (status, if status \<noteq> PSA_SUCCESS then None else Some ?r,
                    sys1\<lparr>keystore := put_key_slot ?r slot (keystore sys1)\<rparr>))"
        if "psa_load_persistent_key_into_slot ?r \<lparr>keystore = put_key_slot ?r ?s0 g1, storage = storage sys\<rparr> = (status, sys1)"
        for status sys1
        using that g absent reserved(1) creating_get [OF c0] f
        by (cases sys) (simp add: psa_get_and_lock_key_slot_def attributes_to_load_def Let_def split_def)
      have s0: "slot_attr ?s0 = attributes_to_load key" "slot_key_data ?s0 = None" using f by simp_all
      show thesis
      proof (cases rule: load_into_slot_cases [OF c1 fs s0, case_names lfailed lloaded])
        case (lfailed st g' fs' s')
        from creating_wipe [OF lfailed(3)] obtain g2 where w: "psa_wipe_key_slot ?r g' = (PSA_SUCCESS, g2)"
          "store_ok g2" "key_slots_initialized g2" "store_abs g2 = (store_abs ?g)(?r := None)" by blast
        have "transparent ?g g2" by (rule transparent_at [OF w(4) ru]) simp
        moreover have "cache_coherent \<lparr>keystore = g2, storage = fs'\<rparr>" if "cache_coherent sys"
          by (rule cache_coherent_at [OF that, of _ ?r None]) (simp_all add: w lfailed)
        ultimately show thesis using e0 [OF lfailed(1)] lfailed w
          by (intro failed [of "if st = PSA_ERROR_DOES_NOT_EXIST then PSA_ERROR_INVALID_HANDLE else st"
                "\<lparr>keystore = g2, storage = fs'\<rparr>"]) (simp_all add: harmless_def calm_def system_ok_def)
      next
        case (lloaded attr d g' fs')
        let ?s' = "?s0\<lparr>slot_attr := attr, slot_key_data := Some d, slot_key_bytes := length d\<rparr>"
        have get: "get_key_slot g' ?r = ?s'" by (rule creating_get [OF lloaded(5)])
        have l: "add_reader (?s'\<lparr>slot_attr := extend_attributes attr, slot_state := PSA_SLOT_FULL\<rparr>) = loaded_slot attr d"
          by (simp add: loaded_slot_def add_reader_def set_registered_readers_def registered_readers_def
              filling_slot_def psa_key_slot_zero_def)
        have rr: "psa_register_read (?s'\<lparr>slot_attr := extend_attributes attr, slot_state := PSA_SLOT_FULL\<rparr>) =
            (PSA_SUCCESS, loaded_slot attr d)"
          unfolding register_read_cases l
          by (simp add: registered_readers_def filling_slot_def psa_key_slot_zero_def SIZE_MAX_def)
        have "psa_get_and_lock_key_slot key sys =
            (PSA_SUCCESS, Some ?r, \<lparr>keystore = put_key_slot ?r (loaded_slot attr d) g', storage = fs'\<rparr>)"
          unfolding e0 [OF lloaded(1)] using rr f
          by (simp add: get psa_key_slot_state_transition_def extend_attributes_def)
        moreover have "slot_state (loaded_slot attr d) = PSA_SLOT_FULL"
          "slot_slice_index (loaded_slot attr d) = slot_slice_index ?s'"
          by (simp_all add: loaded_slot_def filling_slot_def)
        note f2 = creating_full [OF lloaded(5) this]
        moreover have "cache_coherent \<lparr>keystore = put_key_slot ?r (loaded_slot attr d) g', storage = fs'\<rparr>" if "cache_coherent sys"
        proof (rule cache_coherent_at [OF that])
          show "store_abs (keystore \<lparr>keystore = put_key_slot ?r (loaded_slot attr d) g', storage = fs'\<rparr>) =
              (store_abs ?g)(?r \<mapsto> loaded_slot attr d)" using f2 by simp
          have "backed (storage sys) (loaded_slot attr d)"
            using lloaded by (auto simp: backed_def loaded_slot_def slot_material_def)
          moreover have "attr_id (slot_attr s') \<noteq> key" if "cached ?g r' s'" for r' s'
            using absent(2) [of r' s'] that lloaded(8) psa_key_id_ranges_disjoint(1)
            by (auto simp: cached_def holds_key_def lookup_place_def)
          ultimately show "backed (storage sys) s \<and>
              (\<forall>r' s'. r' \<noteq> ?r \<longrightarrow> cached ?g r' s' \<longrightarrow> attr_id (slot_attr s') \<noteq> attr_id (slot_attr s))"
            if "Some (loaded_slot attr d) = Some s" for s
            using that lloaded(6) by (auto simp: loaded_slot_def)
        qed (simp add: lloaded)
        ultimately show thesis using lloaded ru absent f2
          by (intro loaded [of ?r "\<lparr>keystore = put_key_slot ?r (loaded_slot attr d) g', storage = fs'\<rparr>" attr d])
            (auto simp: calm_def system_ok_def)
      qed
    qed
  qed
qed

section \<open>Locks taken and released by a call\<close>

text \<open>
  \<open>locked g g' r s\<close>: a call has taken one read lock on the slot \<open>r\<close>, which now holds \<open>s\<close>, either
  on a key that was in memory or on one it has loaded.
\<close>

definition locked :: "psa_global_data \<Rightarrow> psa_global_data \<Rightarrow> slot_ref \<Rightarrow> psa_key_slot \<Rightarrow> bool" where
  "locked g g' r s \<longleftrightarrow>
     store_ok g' \<and> key_slots_initialized g' \<and> store_abs g' = (store_abs g)(r \<mapsto> s) \<and>
     slot_state s = PSA_SLOT_FULL \<and> registered_readers s > 0 \<and>
     (store_abs g r = Some (drop_reader s) \<or> reusable g r \<and> idle (drop_reader s))"

lemma locked_get: "locked g g' r s \<Longrightarrow> get_key_slot g' r = s"
  unfolding locked_def by (metis fun_upd_same store_abs_SomeD(2))

lemma unlock_full:
  assumes "store_ok g" "store_abs g r = Some s" "slot_state s = PSA_SLOT_FULL" "registered_readers s > 0"
  shows "psa_unregister_read (Some r) g = (PSA_SUCCESS, put_key_slot r (drop_reader s) g)"
    "store_ok (put_key_slot r (drop_reader s) g)"
    "store_abs (put_key_slot r (drop_reader s) g) = (store_abs g)(r \<mapsto> drop_reader s)"
    "key_slots_initialized (put_key_slot r (drop_reader s) g) = key_slots_initialized g"
  by (rule unregister_read_cases [OF assms(1,2)]; use assms(3,4) in \<open>simp add: slot_simps\<close>)+

text \<open>Giving back the lock after steps that are harmless for everybody else is harmless altogether.\<close>

lemma unlock_transparent:
  assumes l: "locked g g1 r s" and t: "transparent g1 g2" and ok: "store_ok g2"
  obtains g3 where "psa_unregister_read (Some r) g2 = (PSA_SUCCESS, g3)" "store_ok g3" "transparent g g3"
    "key_slots_initialized g3 = key_slots_initialized g2" "store_abs g2 r = Some s"
    "store_abs g3 = (store_abs g2)(r \<mapsto> drop_reader s)"
proof -
  have ls: "store_abs g1 r = Some s" "slot_state s = PSA_SLOT_FULL" "registered_readers s > 0"
    "store_abs g1 = (store_abs g)(r \<mapsto> s)"
    "store_abs g r = Some (drop_reader s) \<or> reusable g r \<and> idle (drop_reader s)"
    using l by (auto simp: locked_def)
  have r: "store_abs g2 r = Some s" by (rule transparent_back [OF t ls(1)]) (use ls(3) in \<open>simp add: idle_def\<close>)
  note u = unlock_full [OF ok r ls(2,3)]
  let ?g3 = "put_key_slot r (drop_reader s) g2"
  have "store_abs ?g3 r' = store_abs g r' \<or> reusable g r' \<and> reusable ?g3 r'" for r'
  proof (cases "r' = r")
    case True
    then show ?thesis using u(3) ls(5) by (auto simp: reusable_def)
  next
    case False
    then have "store_abs g1 r' = store_abs g r'" "store_abs ?g3 r' = store_abs g2 r'"
      using ls(4) u(3) by simp_all
    moreover have "store_abs g2 r' = store_abs g1 r' \<or> reusable g1 r' \<and> reusable g2 r'"
      using t by (simp only: transparent_def)
    ultimately show ?thesis using reusable_cong [of g1 r' g] reusable_cong [of ?g3 r' g2] by metis
  qed
  then have "transparent g ?g3" by (simp add: transparent_def)
  with u r show thesis by (intro that) auto
qed

lemma unlock_harmless:
  assumes l: "locked (keystore sys) (keystore sys1) r s" and c: "calm sys sys1"
    and co: "cache_coherent sys \<longrightarrow> cache_coherent sys1" and h: "harmless sys1 sys2"
  obtains g3 where "psa_unregister_read (Some r) (keystore sys2) = (PSA_SUCCESS, g3)"
    "harmless sys (sys2\<lparr>keystore := g3\<rparr>)" "store_abs g3 = (store_abs (keystore sys2))(r \<mapsto> drop_reader s)"
proof -
  have t: "transparent (keystore sys1) (keystore sys2)" and ok: "store_ok (keystore sys2)" "system_ok sys2"
    using h by (auto simp: harmless_def calm_def system_ok_def)
  have full: "slot_state s = PSA_SLOT_FULL" using l by (simp add: locked_def)
  from unlock_transparent [OF l t ok(1)] obtain g3 where u: "psa_unregister_read (Some r) (keystore sys2) = (PSA_SUCCESS, g3)"
    "store_ok g3" "transparent (keystore sys) g3" "key_slots_initialized g3 = key_slots_initialized (keystore sys2)"
    "store_abs (keystore sys2) r = Some s" "store_abs g3 = (store_abs (keystore sys2))(r \<mapsto> drop_reader s)" by blast
  have cc: "cache_coherent (sys2\<lparr>keystore := g3\<rparr>)" if "cache_coherent sys2"
    using cache_coherent_readers [OF that u(5), of "sys2\<lparr>keystore := g3\<rparr>" "drop_reader s"] u(6) full
    by (simp add: slot_simps slot_material_def)
  have "calm sys (sys2\<lparr>keystore := g3\<rparr>)"
    using calm_trans [OF c] h u ok by (auto simp: harmless_def calm_def system_ok_def)
  with u(3) cc co h have "harmless sys (sys2\<lparr>keystore := g3\<rparr>)" by (simp add: harmless_def)
  with u show thesis by (intro that) auto
qed

text \<open>What the caller of a lock knows of the key it has got.\<close>

definition found_key :: "psa_system \<Rightarrow> psa_key_id \<Rightarrow> psa_key_slot \<Rightarrow> bool" where
  "found_key sys key s \<longleftrightarrow>
     (\<exists>r s0. holds_key (keystore sys) key r s0 \<and> s = add_reader s0) \<or>
     (\<exists>attr d. psa_key_id_is_user key \<and> stored_key (storage sys) key attr d \<and> attr_id attr = key \<and> s = loaded_slot attr d \<and>
        (\<forall>r s. \<not> holds_key (keystore sys) key r s))"

lemma found_key_id: "found_key sys key s \<Longrightarrow> attr_id (slot_attr s) = key"
  by (auto simp: found_key_def holds_key_def slot_simps loaded_slot_def)

lemma loaded_slot_locked:
  "slot_state (loaded_slot attr d) = PSA_SLOT_FULL" "registered_readers (loaded_slot attr d) = 1"
  "idle (drop_reader (loaded_slot attr d))"
  by (simp_all add: loaded_slot_def registered_readers_def idle_def drop_reader_def set_registered_readers_def)

lemma get_and_lock_result:
  assumes ok: "system_ok sys"
  obtains (got) r s sys' where "psa_get_and_lock_key_slot key sys = (PSA_SUCCESS, Some r, sys')"
      "calm sys sys'" "locked (keystore sys) (keystore sys') r s" "found_key sys key s"
      "cache_coherent sys \<longrightarrow> cache_coherent sys'" "lookup_place key r"
  | (failed) st sys' where "psa_get_and_lock_key_slot key sys = (st, None, sys')" "st \<noteq> PSA_SUCCESS" "harmless sys sys'"
proof (cases rule: get_and_lock_cases [OF ok, of key, case_names in_memory loaded failed])
  case (in_memory r s)
  let ?sys = "sys\<lparr>keystore := put_key_slot r (add_reader s) (keystore sys)\<rparr>"
  have h: "store_abs (keystore sys) r = Some s" "slot_state s = PSA_SLOT_FULL" using in_memory(2) by (simp_all add: holds_key_def)
  have g: "store_ok (keystore sys)" using ok by (simp add: system_ok_def)
  note l = lock_found [OF g h in_memory(3)]
  show thesis
  proof (rule got [OF in_memory(1)])
    show "calm sys ?sys" using ok l by (simp add: calm_def system_ok_def slot_simps)
    show "locked (keystore sys) (keystore ?sys) r (add_reader s)"
      using l h in_memory(3) ok drop_add_reader [OF in_memory(3)] by (simp add: locked_def system_ok_def slot_simps)
    show "found_key sys key (add_reader s)" using in_memory(2) unfolding found_key_def by blast
    show "cache_coherent sys \<longrightarrow> cache_coherent ?sys"
      using cache_coherent_readers [OF _ h(1), of ?sys "add_reader s"] l h by (simp add: slot_simps slot_material_def)
    show "lookup_place key r" using in_memory(2) by (simp add: holds_key_def)
  qed
next
  case (loaded r attr d sys')
  have "locked (keystore sys) (keystore sys') r (loaded_slot attr d)"
    using loaded loaded_slot_locked by (simp add: locked_def calm_def system_ok_def)
  moreover have "lookup_place key r"
    using loaded(3,7) psa_key_id_ranges_disjoint(1) [of key] by (simp add: lookup_place_def reusable_def)
  ultimately show thesis using loaded by (intro got [of r sys' "loaded_slot attr d"]) (auto simp: found_key_def)
next
  case (failed st sys')
  then show thesis by (rule that(2))
qed

text \<open>The usage a policy check asks for, and what it lets through.\<close>

definition requested_usage :: "psa_key_slot \<Rightarrow> psa_key_usage \<Rightarrow> psa_key_usage" where
  "requested_usage s usage =
     (if PSA_KEY_TYPE_IS_PUBLIC_KEY (attr_type (slot_attr s)) then usage AND NOT PSA_KEY_USAGE_EXPORT else usage)"

definition policy_check :: "psa_key_slot \<Rightarrow> psa_key_usage \<Rightarrow> psa_algorithm \<Rightarrow> psa_status" where
  "policy_check s usage alg =
     (let u = requested_usage s usage in
      if policy_usage (attr_policy (slot_attr s)) AND u \<noteq> u then PSA_ERROR_NOT_PERMITTED
      else if alg \<noteq> 0 then psa_key_policy_permits (attr_policy (slot_attr s)) (attr_type (slot_attr s)) alg
      else PSA_SUCCESS)"

lemma with_policy_result:
  assumes ok: "system_ok sys"
  obtains (got) r s sys' where "psa_get_and_lock_key_slot_with_policy key usage alg sys = (PSA_SUCCESS, Some r, sys')"
      "calm sys sys'" "locked (keystore sys) (keystore sys') r s" "found_key sys key s"
      "cache_coherent sys \<longrightarrow> cache_coherent sys'" "policy_check s usage alg = PSA_SUCCESS"
  | (refused) st s sys' where "psa_get_and_lock_key_slot_with_policy key usage alg sys = (st, None, sys')"
      "st \<noteq> PSA_SUCCESS" "harmless sys sys'" "found_key sys key s" "policy_check s usage alg = st"
  | (failed) st sys' where "psa_get_and_lock_key_slot_with_policy key usage alg sys = (st, None, sys')"
      "st \<noteq> PSA_SUCCESS" "harmless sys sys'" "psa_get_and_lock_key_slot key sys = (st, None, sys')"
proof (cases rule: get_and_lock_result [OF ok, of key, case_names got failed])
  case (failed st sys')
  then show thesis by (intro that(3)) (simp_all add: psa_get_and_lock_key_slot_with_policy_def)
next
  case (got r s sys')
  have e: "psa_get_and_lock_key_slot_with_policy key usage alg sys =
      (if policy_check s usage alg \<noteq> PSA_SUCCESS
       then (policy_check s usage alg, None, sys'\<lparr>keystore := snd (psa_unregister_read (Some r) (keystore sys'))\<rparr>)
       else (PSA_SUCCESS, Some r, sys'))"
    using got(1) locked_get [OF got(3)]
    by (simp add: psa_get_and_lock_key_slot_with_policy_def policy_check_def requested_usage_def
        psa_unregister_read_under_mutex_def Let_def)
  show thesis
  proof (cases "policy_check s usage alg = PSA_SUCCESS")
    case True
    with e got show thesis by (intro that(1) [of r sys' s]) auto
  next
    case False
    have "harmless sys' sys'" using got(2) by (simp add: calm_def)
    from unlock_harmless [OF got(3,2,5) this] obtain g3
      where "psa_unregister_read (Some r) (keystore sys') = (PSA_SUCCESS, g3)" "harmless sys (sys'\<lparr>keystore := g3\<rparr>)" by blast
    with e got False show thesis
      by (intro that(2) [of "policy_check s usage alg" "sys'\<lparr>keystore := g3\<rparr>" s]) auto
  qed
qed

end
