(* ===== verification/Lifecycle_Calls.thy ===== *)
theory Lifecycle_Calls
  imports Lifecycle_Facts
begin

text \<open>
  One result lemma per key management call: queries, exports, and the two ways a key is created.
\<close>

section \<open>Locking, using and unlocking\<close>

lemma calloc_harmless: "system_ok sys \<Longrightarrow> harmless sys (sys\<lparr>keystore := (keystore sys)\<lparr>calloc_outcomes := b\<rparr>\<rparr>)"
  unfolding harmless_def calm_def
  using cache_coherent_same [of "sys\<lparr>keystore := (keystore sys)\<lparr>calloc_outcomes := b\<rparr>\<rparr>" sys]
  by (auto simp: system_ok_def slot_simps intro!: transparent_same)

lemma get_key_attributes_result:
  assumes ok: "system_ok sys" and e: "psa_get_key_attributes key sys = (st, attr, sys')"
  shows "harmless sys sys'"
    and "if st = PSA_SUCCESS then \<exists>s. found_key sys key s \<and> attr = slot_attr s
         else attr = PSA_KEY_ATTRIBUTES_INIT \<and> (\<exists>sys1. psa_get_and_lock_key_slot key sys = (st, None, sys1))"
proof -
  have *: "harmless sys sys' \<and> (if st = PSA_SUCCESS then \<exists>s. found_key sys key s \<and> attr = slot_attr s
      else attr = PSA_KEY_ATTRIBUTES_INIT \<and> (\<exists>sys1. psa_get_and_lock_key_slot key sys = (st, None, sys1)))"
  proof (cases rule: with_policy_result [OF ok, of key 0 0, case_names got refused failed])
    case (got r s sys1)
    have "harmless sys1 sys1" using got(2) by (simp add: calm_def)
    from unlock_harmless [OF got(3,2,5) this] obtain g3 where u: "psa_unregister_read (Some r) (keystore sys1) = (PSA_SUCCESS, g3)"
      "harmless sys (sys1\<lparr>keystore := g3\<rparr>)" by blast
    with got(1,4) e locked_get [OF got(3)] show ?thesis
      by (auto simp: psa_get_key_attributes_def psa_unregister_read_under_mutex_def)
  next
    case (refused st1 s sys1)
    have "policy_check s 0 0 = PSA_SUCCESS" by (simp add: policy_check_def requested_usage_def)
    with refused show ?thesis by simp
  next
    case (failed st1 sys1)
    then show ?thesis using e by (auto simp: psa_get_key_attributes_def)
  qed
  show "harmless sys sys'" and "if st = PSA_SUCCESS then \<exists>s. found_key sys key s \<and> attr = slot_attr s
         else attr = PSA_KEY_ATTRIBUTES_INIT \<and> (\<exists>sys1. psa_get_and_lock_key_slot key sys = (st, None, sys1))"
    using * by blast+
qed

text \<open>
  The common tail of the export functions, after the key is locked: an output copy, an operation
  on it that reads the slot, the unlock and the copy back.
\<close>

definition export_tail ::
    "(psa_key_slot \<Rightarrow> bytes \<Rightarrow> nat \<Rightarrow> psa_status \<times> bytes \<times> nat) \<Rightarrow> bytes option \<Rightarrow> nat \<Rightarrow>
     slot_ref \<Rightarrow> psa_system \<Rightarrow> psa_status \<times> bytes option \<times> nat option \<times> psa_system" where
  "export_tail f data_external data_size r sys =
    (let slot = get_key_slot (keystore sys) r;
         (status, lo, outcomes) =
           psa_crypto_local_output_alloc data_external data_size (calloc_outcomes (keystore sys));
         g = (keystore sys)\<lparr>calloc_outcomes := outcomes\<rparr>;
         (status, lo, data_length) =
           (if status \<noteq> PSA_SUCCESS then (status, lo, 0)
            else let (status, data, data_length) = f slot (contents (output_buffer lo)) 0
                 in (status, lo\<lparr>output_buffer := Some data\<rparr>, data_length));
         (unlock_status, g) = psa_unregister_read (Some r) g;
         (status, data_external) = LOCAL_OUTPUT_FREE lo data_external status
     in (if status = PSA_SUCCESS then unlock_status else status, data_external, Some data_length,
         sys\<lparr>keystore := g\<rparr>))"

lemma psa_export_key_locked:
  assumes "data_size \<noteq> 0" "psa_get_and_lock_key_slot_with_policy key PSA_KEY_USAGE_EXPORT 0 sys = (st, p, sys1)" "st = PSA_SUCCESS \<longrightarrow> p \<noteq> None"
  shows "psa_export_key key data_external data_size sys =
    (if st \<noteq> PSA_SUCCESS then (st, data_external, Some 0, sys1)
     else export_tail (\<lambda>slot. psa_driver_wrapper_export_key (slot_attr slot) (slot_material slot))
            data_external data_size (the p) sys1)"
  using assms
  by (auto simp: psa_export_key_def export_tail_def psa_unregister_read_under_mutex_def Let_def)

lemma psa_export_public_key_locked:
  assumes "data_size \<noteq> 0" "psa_get_and_lock_key_slot_with_policy key 0 0 sys = (st, p, sys1)" "st = PSA_SUCCESS \<longrightarrow> p \<noteq> None"
  shows "psa_export_public_key drv key data_external data_size sys =
    (if st \<noteq> PSA_SUCCESS then (st, data_external, Some 0, sys1)
     else export_tail (\<lambda>slot data n.
            if \<not> PSA_KEY_TYPE_IS_ASYMMETRIC (attr_type (slot_attr slot)) then (PSA_ERROR_INVALID_ARGUMENT, data, n)
            else psa_driver_wrapper_export_public_key drv (slot_attr slot) (slot_material slot) data n)
            data_external data_size (the p) sys1)"
proof -
  have same: "lo\<lparr>output_buffer := Some (contents (output_buffer lo))\<rparr> = lo"
    if "psa_crypto_local_output_alloc data_external data_size o1 = (PSA_SUCCESS, lo, o2)" for lo o1 o2
    using that assms(1) by (auto simp: local_output_alloc_eq split: if_splits)
  show ?thesis
  proof (cases "psa_crypto_local_output_alloc data_external data_size (calloc_outcomes (keystore sys1))")
    case (fields st1 lo o1)
    show ?thesis
      using assms fields same [of "calloc_outcomes (keystore sys1)" lo o1]
      by (auto simp: psa_export_public_key_def export_tail_def psa_unregister_read_under_mutex_def Let_def)
  qed
qed

text \<open>The result of such a call on a key \<open>s\<close>, when \<open>f\<close> keeps the size of the output buffer.\<close>

lemma export_tail_result:
  assumes l: "locked (keystore sys) (keystore sys1) r s" and c: "calm sys sys1"
    and co: "cache_coherent sys \<longrightarrow> cache_coherent sys1"
    and d: "length d = n" "0 < n" and f: "\<forall>buf st b k. f s buf 0 = (st, b, k) \<longrightarrow> length b = length buf"
    and e: "export_tail f (Some d) n r sys1 = (st, out, len, sys')"
  shows "harmless sys sys' \<and>
    ((st, out, len) = (PSA_ERROR_INSUFFICIENT_MEMORY, Some d, Some 0) \<and> next_calloc_fails (keystore sys1) \<or>
     (\<exists>b k. f s (replicate n 0) 0 = (st, b, k) \<and> out = Some b \<and> len = Some k))"
proof -
  let ?o = "snd (mbedtls_calloc (calloc_outcomes (keystore sys1)))"
  let ?sys2 = "sys1\<lparr>keystore := (keystore sys1)\<lparr>calloc_outcomes := ?o\<rparr>\<rparr>"
  have "system_ok sys1" using c by (simp add: calm_def)
  note h = calloc_harmless [OF this, of ?o]
  from unlock_harmless [OF l c co h] obtain g3
    where u: "psa_unregister_read (Some r) ((keystore sys1)\<lparr>calloc_outcomes := ?o\<rparr>) = (PSA_SUCCESS, g3)"
      "harmless sys (sys1\<lparr>keystore := g3\<rparr>)" by auto
  note get = locked_get [OF l]
  show ?thesis
  proof (cases "fst (mbedtls_calloc (calloc_outcomes (keystore sys1)))")
    case False
    then show ?thesis using e u d get
      by (auto simp: export_tail_def local_output_alloc_eq next_calloc_fails_def)
  next
    case True
    obtain st1 b k where fs: "f s (replicate n 0) 0 = (st1, b, k)" by (rule prod_cases3)
    have "length b = length d" using f fs d by fastforce
    note free = local_output_free_copy [OF this, of st1]
    have "export_tail f (Some d) n r sys1 = (st1, Some b, Some k, sys1\<lparr>keystore := g3\<rparr>)"
      using True u d get fs free \<open>length b = length d\<close> by (simp add: export_tail_def local_output_alloc_eq)
    with e u fs show ?thesis by auto
  qed
qed

lemma driver_export_length:
  "psa_driver_wrapper_export_key attr d buf k = (st, b, k') \<Longrightarrow> length b = length buf"
  by (auto simp: psa_driver_wrapper_export_key_def psa_export_key_internal_def psa_export_key_buffer_internal_def
      split: if_splits)

lemma export_key_result:
  assumes ok: "system_ok sys" and d: "length d = n"
    and e: "psa_export_key key (Some d) n sys = (st, out, len, sys')"
  shows "harmless sys sys'"
    and "if st = PSA_SUCCESS
         then \<exists>s. found_key sys key s \<and> policy_check s PSA_KEY_USAGE_EXPORT 0 = PSA_SUCCESS \<and>
                length (slot_material s) \<le> n \<and> len = Some (length (slot_material s)) \<and>
                out = Some (slot_material s @ replicate (n - length (slot_material s)) 0)
         else out = Some d \<or> out = Some (replicate n 0)"
proof -
  have *: "harmless sys sys' \<and> (if st = PSA_SUCCESS
         then \<exists>s. found_key sys key s \<and> policy_check s PSA_KEY_USAGE_EXPORT 0 = PSA_SUCCESS \<and>
                length (slot_material s) \<le> n \<and> len = Some (length (slot_material s)) \<and>
                out = Some (slot_material s @ replicate (n - length (slot_material s)) 0)
         else out = Some d \<or> out = Some (replicate n 0))"
  proof (cases "n = 0")
    case True
    then show ?thesis using e ok by (simp add: psa_export_key_def)
  next
    case n: False
    show ?thesis
    proof (cases rule: with_policy_result [OF ok, of key PSA_KEY_USAGE_EXPORT 0, case_names got refused failed])
      case (got r s sys1)
      let ?f = "\<lambda>slot. psa_driver_wrapper_export_key (slot_attr slot) (slot_material slot)"
      have e1: "export_tail ?f (Some d) n r sys1 = (st, out, len, sys')"
        using psa_export_key_locked [OF n got(1), of "Some d"] e by simp
      have "0 < n" using n by simp
      have fl: "\<forall>buf st b k. ?f s buf 0 = (st, b, k) \<longrightarrow> length b = length buf" using driver_export_length by blast
      from export_tail_result [OF got(3,2,5) d \<open>0 < n\<close> fl e1]
      have h: "harmless sys sys'" and r: "(st, out, len) = (PSA_ERROR_INSUFFICIENT_MEMORY, Some d, Some 0) \<or>
        (\<exists>b k. ?f s (replicate n 0) 0 = (st, b, k) \<and> out = Some b \<and> len = Some k)" by blast+
      from r show ?thesis
      proof
        assume "(st, out, len) = (PSA_ERROR_INSUFFICIENT_MEMORY, Some d, Some 0)"
        with h show ?thesis by simp
      next
        assume "\<exists>b k. ?f s (replicate n 0) 0 = (st, b, k) \<and> out = Some b \<and> len = Some k"
        with h got(4,6) show ?thesis
          by (auto simp: psa_driver_wrapper_export_key_def psa_export_key_internal_def
              psa_export_key_buffer_internal_def split: if_splits)
      qed
    next
      case (refused st1 s sys1)
      then show ?thesis using psa_export_key_locked [OF n refused(1), of "Some d"] e by simp
    next
      case (failed st1 sys1)
      then show ?thesis using psa_export_key_locked [OF n failed(1), of "Some d"] e by simp
    qed
  qed
  show "harmless sys sys'"
    and "if st = PSA_SUCCESS
         then \<exists>s. found_key sys key s \<and> policy_check s PSA_KEY_USAGE_EXPORT 0 = PSA_SUCCESS \<and>
                length (slot_material s) \<le> n \<and> len = Some (length (slot_material s)) \<and>
                out = Some (slot_material s @ replicate (n - length (slot_material s)) 0)
         else out = Some d \<or> out = Some (replicate n 0)"
    using * by blast+
qed

section \<open>Starting, finishing and abandoning a creation\<close>

text \<open>The attributes of the new slot: the caller's, with the allocated identifier for a volatile key.\<close>

definition fresh_place :: "psa_system \<Rightarrow> psa_key_attributes \<Rightarrow> slot_ref \<Rightarrow> psa_key_id \<Rightarrow> bool" where
  "fresh_place sys attr r key \<longleftrightarrow>
     (if PSA_KEY_LIFETIME_IS_VOLATILE (attr_lifetime attr)
      then fst r < KEY_SLOT_VOLATILE_SLICE_COUNT \<and> store_abs (keystore sys) r = None \<and>
           psa_key_id_is_volatile key \<and> lookup_place key r
      else reusable (keystore sys) r \<and> fst r = KEY_SLOT_CACHE_SLICE_INDEX \<and>
           psa_key_id_is_user key \<and> key = attr_id attr)"

definition new_slot :: "nat \<Rightarrow> psa_key_attributes \<Rightarrow> psa_key_slot" where
  "new_slot i attr = (filling_slot i)\<lparr>slot_attr := attr\<rparr>"

lemma new_slot_simps [simp]:
  "slot_attr (new_slot i a) = a" "slot_state (new_slot i a) = PSA_SLOT_FILLING"
  "slot_key_data (new_slot i a) = None" "slot_key_bytes (new_slot i a) = 0"
  "slot_slice_index (new_slot i a) = word_of_nat i" "slot_var (new_slot i a) = 0"
  by (simp_all add: new_slot_def filling_slot_def psa_key_slot_zero_def)

lemma volatile_place:
  assumes g: "store_ok g" and i: "i < KEY_SLOT_VOLATILE_SLICE_COUNT" and S: "key_slices g ! i = Some S"
    and j: "j < length S"
  shows "psa_key_id_is_volatile (volatile_key_id_of_index i j)" "lookup_place (volatile_key_id_of_index i j) (i, j)"
proof -
  have "length S \<le> 2 ^ 25"
    using store_okD(3) [OF g _ S] key_slice_length_le [of i] i by (simp add: slice_ok_def)
  then have "j < 2 ^ 25" using j by simp
  note v = volatile_key_id_fields [OF i this]
  from v(4) show "psa_key_id_is_volatile (volatile_key_id_of_index i j)" .
  show "lookup_place (volatile_key_id_of_index i j) (i, j)" using v i by (simp add: lookup_place_def)
qed

lemma start_creation_cases:
  assumes ok: "system_ok sys"
  obtains (refused) st sys' where "psa_start_key_creation attr sys = (st, None, sys')" "st \<noteq> PSA_SUCCESS"
      "system_ok sys'" "store_abs (keystore sys') = store_abs (keystore sys)" "storage sys' = storage sys"
  | (started) r key g where "psa_start_key_creation attr sys = (PSA_SUCCESS, Some r, sys\<lparr>keystore := g\<rparr>)"
      "creating (keystore sys) r g (new_slot (fst r) (attr\<lparr>attr_id := key\<rparr>))" "fresh_place sys attr r key"
      "psa_validate_key_attributes attr = PSA_SUCCESS"
proof -
  let ?g = "keystore sys" and ?v = "PSA_KEY_LIFETIME_IS_VOLATILE (attr_lifetime attr)"
  have g: "store_ok ?g" "key_slots_initialized ?g" using ok by (simp_all add: system_ok_def)
  show thesis
  proof (cases "psa_validate_key_attributes attr = PSA_SUCCESS")
    case False
    then show thesis using ok by (intro refused [of "psa_validate_key_attributes attr" sys])
      (simp_all add: psa_start_key_creation_def)
  next
    case valid: True
    have fin: thesis if "psa_reserve_free_key_slot ?v ?g = (PSA_SUCCESS, kid, Some r, g1)"
      "creating ?g r g1 (filling_slot (fst r))" "fresh_place sys attr r key" "?v \<longrightarrow> kid = Some key" for kid r g1 key
    proof -
      have key: "?v \<Longrightarrow> the kid = key" "\<not> ?v \<Longrightarrow> attr\<lparr>attr_id := key\<rparr> = attr"
        using that(3,4) by (auto simp: fresh_place_def)
      have "psa_start_key_creation attr sys =
          (PSA_SUCCESS, Some r, sys\<lparr>keystore := put_key_slot r (new_slot (fst r) (attr\<lparr>attr_id := key\<rparr>)) g1\<rparr>)"
        using valid that(1) creating_get [OF that(2)] key
        by (simp add: psa_start_key_creation_def new_slot_def)
      moreover have "creating ?g r (put_key_slot r (new_slot (fst r) (attr\<lparr>attr_id := key\<rparr>)) g1)
          (new_slot (fst r) (attr\<lparr>attr_id := key\<rparr>))"
        by (rule creating_put [OF that(2)]) (simp_all add: new_slot_def)
      ultimately show thesis using that(3) valid by (rule started)
    qed
    show thesis
    proof (cases ?v)
      case True
      show thesis
      proof (cases rule: allocate_cases [OF g(1), case_names full nomem ok])
        case full
        then show thesis using ok valid True g
          by (intro refused [of PSA_ERROR_INSUFFICIENT_MEMORY sys])
            (simp_all add: psa_start_key_creation_def psa_reserve_free_key_slot_def)
      next
        case (nomem outcomes)
        then show thesis using ok valid True g
          by (intro refused [of PSA_ERROR_INSUFFICIENT_MEMORY "sys\<lparr>keystore := ?g\<lparr>calloc_outcomes := outcomes\<rparr>\<rparr>"])
            (simp_all add: psa_start_key_creation_def psa_reserve_free_key_slot_def system_ok_def slot_simps)
      next
        case (ok i j g1 S)
        note t = take_free_slot_correct [OF ok(2,5,6,7,8)]
        note v = volatile_place [OF ok(2,5,6) t(2)]
        have "key_slots_initialized (take_free_slot g1 i)" using ok(4) g by (simp add: take_free_slot_def Let_def)
        then have "creating ?g (i, j) (take_free_slot g1 i) (filling_slot (fst (i, j)))"
          using t ok(3) by (simp add: creating_def filling_slot_def)
        moreover have "fresh_place sys attr (i, j) (volatile_key_id_of_index i j)"
          using True ok(3,5) t(6) v by (simp add: fresh_place_def)
        ultimately show thesis using True ok(1) g
          by (intro fin) (simp_all add: psa_reserve_free_key_slot_def)
      qed
    next
      case False
      have user: "psa_key_id_is_user (attr_id attr)"
        using valid False by (auto simp: psa_validate_key_attributes_def Let_def split: if_splits)
      show thesis
      proof (cases rule: reserve_cache_cases [OF g, case_names reserved none])
        case (reserved j g')
        have "fresh_place sys attr (KEY_SLOT_CACHE_SLICE_INDEX, j) (attr_id attr)"
          using False user reserved(6) evictable_idle by (auto simp: fresh_place_def reusable_def split: option.split)
        moreover have "creating ?g (KEY_SLOT_CACHE_SLICE_INDEX, j) g' (filling_slot (fst (KEY_SLOT_CACHE_SLICE_INDEX, j)))"
          using reserved by (simp add: creating_def filling_slot_def)
        ultimately show thesis using False reserved(1) by (intro fin) simp_all
      next
        case none
        then show thesis using ok valid False
          by (intro refused [of PSA_ERROR_INSUFFICIENT_MEMORY sys]) (simp_all add: psa_start_key_creation_def)
      qed
    qed
  qed
qed

text \<open>Abandoning: the slot is empty again, so only an idle cache entry may be gone.\<close>

lemma fail_creation:
  assumes c: "creating (keystore sys) r g s" and fp: "fresh_place sys attr r key" and ok: "system_ok sys" and fs: "disk_ok fs"
  obtains g2 where "psa_fail_key_creation (Some r) \<lparr>keystore = g, storage = fs\<rparr> = \<lparr>keystore = g2, storage = fs\<rparr>"
    "system_ok \<lparr>keystore = g2, storage = fs\<rparr>" "transparent (keystore sys) g2"
    "its_abs fs = its_abs (storage sys) \<Longrightarrow> no_faults (storage sys) \<longrightarrow> fs = storage sys \<Longrightarrow>
       harmless sys \<lparr>keystore = g2, storage = fs\<rparr>"
proof -
  from creating_wipe [OF c] obtain g2 where w: "psa_wipe_key_slot r g = (PSA_SUCCESS, g2)" "store_ok g2"
    "key_slots_initialized g2" "store_abs g2 = (store_abs (keystore sys))(r := None)" by blast
  let ?sys = "\<lparr>keystore = g2, storage = fs\<rparr>"
  have t: "transparent (keystore sys) g2"
  proof (cases "PSA_KEY_LIFETIME_IS_VOLATILE (attr_lifetime attr)")
    case True
    then have "store_abs g2 = store_abs (keystore sys)" using w(4) fp by (auto simp: fresh_place_def)
    then show ?thesis by (rule transparent_same)
  next
    case False
    then show ?thesis using fp by (intro transparent_at [OF w(4)]) (simp_all add: fresh_place_def)
  qed
  show thesis
  proof (rule that [of g2])
    show "psa_fail_key_creation (Some r) \<lparr>keystore = g, storage = fs\<rparr> = ?sys" using w(1) by (simp add: psa_fail_key_creation_def)
    show s: "system_ok ?sys" using w fs by (simp add: system_ok_def)
    show "transparent (keystore sys) g2" by (rule t)
    assume f: "its_abs fs = its_abs (storage sys)" "no_faults (storage sys) \<longrightarrow> fs = storage sys"
    have "cache_coherent ?sys" if "cache_coherent sys"
      by (rule cache_coherent_at [OF that, of _ r None]) (simp_all add: w f)
    then show "harmless sys ?sys" using s t f by (simp add: harmless_def calm_def)
  qed
qed

lemma harmless_refused:
  assumes "system_ok sys'" "store_abs (keystore sys') = store_abs (keystore sys)" "storage sys' = storage sys"
  shows "harmless sys sys'"
  using assms cache_coherent_same [of sys' sys] by (simp add: harmless_def calm_def transparent_same)

text \<open>Importing into a slot: the buffer, and the attributes completed with the size.\<close>

definition completed :: "psa_key_attributes \<Rightarrow> nat \<Rightarrow> psa_key_attributes" where
  "completed attr bits = (if attr_bits attr = 0 then attr\<lparr>attr_bits := word_of_nat bits\<rparr> else attr)"

definition imports_as ::
    "asymmetric_drivers \<Rightarrow> psa_key_attributes \<Rightarrow> bytes \<Rightarrow> nat \<Rightarrow> bytes \<Rightarrow> bool" where
  "imports_as drv attr data bits d \<longleftrightarrow>
     PSA_KEY_LIFETIME_GET_LOCATION (attr_lifetime attr) = PSA_KEY_LOCATION_LOCAL_STORAGE \<and>
     (\<exists>buf n. psa_import_key_into_slot drv attr data (replicate (length data) 0) (length data) (unat (attr_bits attr)) =
        (PSA_SUCCESS, buf, n, bits) \<and> d = take n buf \<and> length d = n) \<and>
     bits \<le> PSA_MAX_KEY_BITS \<and> (attr_bits attr = 0 \<or> bits = unat (attr_bits attr))"

lemma import_buffer:
  assumes "psa_import_key_into_slot drv attr data buf0 n0 b0 = (PSA_SUCCESS, buf, n, bits)"
  shows "n \<le> length buf"
  using assms by (auto simp: psa_import_key_into_slot_def Let_def split: if_splits prod.splits)

lemma imports_as_raw:
  assumes "imports_as drv attr data bits d" "key_type_is_raw_bytes (attr_type attr)"
  shows "d = data" "bits = 8 * length data"
    "psa_validate_unstructured_key_bit_size (attr_type attr) (8 * length data) = PSA_SUCCESS"
proof -
  from assms(1) obtain buf n where im: "psa_import_key_into_slot drv attr data (replicate (length data) 0) (length data)
      (unat (attr_bits attr)) = (PSA_SUCCESS, buf, n, bits)" "d = take n buf" by (auto simp: imports_as_def)
  have eq: "psa_import_key_into_slot drv attr data (replicate (length data) 0) (length data) (unat (attr_bits attr)) =
    (if length data = 0 then (PSA_ERROR_NOT_SUPPORTED, replicate (length data) 0, length data, unat (attr_bits attr))
     else if psa_validate_unstructured_key_bit_size (attr_type attr) (8 * length data) \<noteq> PSA_SUCCESS
     then (psa_validate_unstructured_key_bit_size (attr_type attr) (8 * length data), replicate (length data) 0,
           length data, 8 * length data)
     else (PSA_SUCCESS, data, length data, 8 * length data))"
    using assms(2) by (simp add: psa_import_key_into_slot_def Let_def)
  show "d = data" "bits = 8 * length data"
    "psa_validate_unstructured_key_bit_size (attr_type attr) (8 * length data) = PSA_SUCCESS"
    using im unfolding eq by (auto split: if_splits)
qed

lemma import_into_new_slot_result:
  assumes c: "creating g0 r g (new_slot i (attr\<lparr>attr_id := key\<rparr>))"
    and e: "import_into_new_slot drv attr data r g = (st, g')"
  obtains s where "creating g0 r g' s"
    "st = PSA_SUCCESS \<Longrightarrow> \<exists>bits. imports_as drv attr data bits (slot_material s) \<and>
       slot_attr s = completed (attr\<lparr>attr_id := key\<rparr>) bits \<and> slot_key_data s \<noteq> None \<and> slot_key_bytes s = length (slot_material s)"
proof -
  let ?s0 = "new_slot i (attr\<lparr>attr_id := key\<rparr>)"
  have get: "get_key_slot g r = ?s0" by (rule creating_get [OF c])
  show thesis
  proof (cases "psa_key_lifetime_is_external (attr_lifetime attr)")
    case True
    then have "st = PSA_ERROR_INVALID_ARGUMENT" "g' = g" using e get
      by (simp_all add: import_into_new_slot_def psa_driver_wrapper_get_key_buffer_size_from_key_data_def)
    with c show thesis by (intro that [of ?s0]) simp_all
  next
    case False
    then have loc: "PSA_KEY_LIFETIME_GET_LOCATION (attr_lifetime attr) = PSA_KEY_LOCATION_LOCAL_STORAGE"
      by (simp add: psa_key_lifetime_is_external_def)
    have nd: "slot_key_data ?s0 = None" by simp
    show thesis
    proof (cases rule: allocate_buffer_cases [OF c nd, of "length data", case_names nomem ok])
      case (nomem g1)
      then have "st = PSA_ERROR_INSUFFICIENT_MEMORY" "g' = g1" using e get False by (simp_all add: import_into_new_slot_def)
      with nomem show thesis by (intro that [of ?s0]) simp_all
    next
      case (ok g1)
      let ?s1 = "?s0\<lparr>slot_key_data := Some (replicate (length data) 0), slot_key_bytes := length data\<rparr>"
      have get1: "get_key_slot g1 r = ?s1" by (rule creating_get [OF ok(2)])
      obtain st1 buf n bits where im: "psa_import_key_into_slot drv attr data (replicate (length data) 0) (length data)
          (unat (attr_bits attr)) = (st1, buf, n, bits)" by (rule prod_cases4)
      let ?s2 = "?s1\<lparr>slot_key_data := Some buf, slot_key_bytes := n\<rparr>"
      let ?s3 = "if attr_bits attr = 0 then ?s2\<lparr>slot_attr := (attr\<lparr>attr_id := key\<rparr>)\<lparr>attr_bits := word_of_nat bits\<rparr>\<rparr> else ?s2"
      have c2: "creating g0 r (put_key_slot r ?s2 g1) ?s2" by (rule creating_put [OF ok(2)]) simp_all
      have c3: "creating g0 r (put_key_slot r ?s3 (put_key_slot r ?s2 g1)) ?s3" by (rule creating_put [OF c2]) simp_all
      have eq: "import_into_new_slot drv attr data r g =
        (if st1 \<noteq> PSA_SUCCESS then (st1, put_key_slot r ?s2 g1)
         else if attr_bits attr \<noteq> 0 \<and> bits \<noteq> unat (attr_bits attr)
         then (PSA_ERROR_INVALID_ARGUMENT, put_key_slot r ?s3 (put_key_slot r ?s2 g1))
         else if bits > PSA_MAX_KEY_BITS then (PSA_ERROR_NOT_SUPPORTED, put_key_slot r ?s3 (put_key_slot r ?s2 g1))
         else (psa_validate_optional_attributes ?s3 attr, put_key_slot r ?s3 (put_key_slot r ?s2 g1)))"
        using get False ok(1) get1 im loc
        by (cases "st1 = PSA_SUCCESS"; cases "attr_bits attr = 0")
          (simp_all add: import_into_new_slot_def psa_driver_wrapper_import_key_def slot_data_bytes Let_def)
      show thesis
      proof (cases "st1 = PSA_SUCCESS")
        case False
        with eq e c2 show thesis by (intro that [of ?s2]) auto
      next
        case True
        then have cr: "creating g0 r g' ?s3" using eq e c3 by (auto simp del: if_split split: if_splits)
        show thesis
        proof (rule that [OF cr])
          assume st: "st = PSA_SUCCESS"
          then have b: "bits \<le> PSA_MAX_KEY_BITS" "attr_bits attr = 0 \<or> bits = unat (attr_bits attr)"
            using eq e True by (auto split: if_splits)
          have n: "n \<le> length buf" using im True by (intro import_buffer) simp
          have m: "slot_material ?s3 = take n buf" by (simp add: slot_material_def)
          have "imports_as drv attr data bits (take n buf)" using loc im True n b by (auto simp: imports_as_def)
          moreover have "slot_attr ?s3 = completed (attr\<lparr>attr_id := key\<rparr>) bits" by (simp add: completed_def)
          moreover have "slot_key_data ?s3 \<noteq> None" "slot_key_bytes ?s3 = length (slot_material ?s3)" using n m by simp_all
          ultimately show "\<exists>bits. imports_as drv attr data bits (slot_material ?s3) \<and>
              slot_attr ?s3 = completed (attr\<lparr>attr_id := key\<rparr>) bits \<and> slot_key_data ?s3 \<noteq> None \<and>
              slot_key_bytes ?s3 = length (slot_material ?s3)"
            unfolding m by blast
        qed
      qed
    qed
  qed
qed

lemma identifier_inj: "psa_its_identifier_of_slot k = psa_its_identifier_of_slot l \<longleftrightarrow> k = l"
proof
  assume "psa_its_identifier_of_slot k = psa_its_identifier_of_slot l"
  then have "unat (ucast k :: u64) = unat (ucast l :: u64)" by (simp add: psa_its_identifier_of_slot_def)
  moreover have "unat k < 2 ^ LENGTH(32)" "unat l < 2 ^ LENGTH(32)" by (rule unsigned_less)+
  ultimately show "k = l" by (simp add: unsigned_ucast_eq take_bit_nat_eq_self word_unat_eq_iff)
qed simp

text \<open>
  What a completed creation has done: a slot at a fresh place holds the key, and a persistent key
  is in the storage, where nothing else has changed.
\<close>

definition created :: "psa_system \<Rightarrow> psa_key_id \<Rightarrow> psa_key_attributes \<Rightarrow> bytes \<Rightarrow> psa_system \<Rightarrow> bool" where
  "created sys key attr d sys' \<longleftrightarrow>
     system_ok sys' \<and> attr_id attr = key \<and>
     (\<exists>r s. fresh_place sys attr r key \<and> store_abs (keystore sys') = (store_abs (keystore sys))(r \<mapsto> s) \<and>
        idle s \<and> slot_attr s = attr \<and> slot_material s = d) \<and>
     (if PSA_KEY_LIFETIME_IS_VOLATILE (attr_lifetime attr) then storage sys' = storage sys
      else stored_key (storage sys') key attr d \<and>
           (\<forall>u. u \<noteq> psa_its_identifier_of_slot key \<longrightarrow> its_abs (storage sys') u = its_abs (storage sys) u) \<and>
           (no_faults (storage sys) \<longrightarrow> its_abs (storage sys) (psa_its_identifier_of_slot key) = None)) \<and>
     (no_faults (storage sys) \<longrightarrow> no_faults (storage sys'))"

definition only_entry_changed :: "psa_system \<Rightarrow> psa_key_id \<Rightarrow> file_system \<Rightarrow> bool" where
  "only_entry_changed sys key fs \<longleftrightarrow>
     disk_ok fs \<and> (\<forall>u. u \<noteq> psa_its_identifier_of_slot key \<longrightarrow> its_abs fs u = its_abs (storage sys) u) \<and>
     (no_faults (storage sys) \<longrightarrow> fs = storage sys)"

lemma finish_creation_result:
  assumes c: "creating (keystore sys0) r (keystore sys) s" and fp: "fresh_place sys0 attr r key"
    and a: "attr_id (slot_attr s) = key" "attr_lifetime (slot_attr s) = attr_lifetime attr"
    and fs: "disk_ok (storage sys)" "storage sys = storage sys0"
    and m: "slot_key_data s \<noteq> None" "slot_key_bytes s = length (slot_material s)"
    and e: "psa_finish_key_creation r sys = (st, k, sys')"
  obtains (failed) g fs' where "st \<noteq> PSA_SUCCESS" "k = 0" "sys' = \<lparr>keystore = g, storage = fs'\<rparr>"
      "creating (keystore sys0) r g s" "only_entry_changed sys0 key fs'"
  | (finished) "st = PSA_SUCCESS" "k = key" "created sys0 key (slot_attr s) (slot_material s) sys'"
proof -
  let ?g0 = "keystore sys0" and ?v = "PSA_KEY_LIFETIME_IS_VOLATILE (attr_lifetime attr)"
  let ?full = "s\<lparr>slot_state := PSA_SLOT_FULL\<rparr>" and ?id = "psa_its_identifier_of_slot key"
  have get: "get_key_slot (keystore sys) r = s" by (rule creating_get [OF c])
  have sf: "slot_state s = PSA_SLOT_FILLING" "slot_var s = 0"
    using c filling_readers(1) [of "keystore sys" r s] by (simp_all add: creating_def)
  have place: "fresh_place sys0 (slot_attr s) r key"
    using fp a by (auto simp: fresh_place_def)
  have fin: "system_ok \<lparr>keystore = put_key_slot r ?full (keystore sys\<lparr>calloc_outcomes := o1\<rparr>), storage = fs1\<rparr>"
    "store_abs (put_key_slot r ?full (keystore sys\<lparr>calloc_outcomes := o1\<rparr>)) = (store_abs ?g0)(r \<mapsto> ?full)"
    if "disk_ok fs1" for o1 fs1
    using creating_full [OF creating_calloc [OF c], of ?full o1] that by (simp_all add: system_ok_def)
  have full: "idle ?full" "slot_attr ?full = slot_attr s" "slot_material ?full = slot_material s"
    using sf by (simp_all add: idle_def registered_readers_def slot_material_def)
  have there: "\<exists>r' s'. fresh_place sys0 (slot_attr s) r' key \<and> (store_abs ?g0)(r \<mapsto> ?full) = (store_abs ?g0)(r' \<mapsto> s') \<and>
      idle s' \<and> slot_attr s' = slot_attr s \<and> slot_material s' = slot_material s"
    by (intro exI [of _ r] exI [of _ ?full] conjI) (simp_all add: full place)
  show thesis
  proof (cases ?v)
    case True
    have "creating ?g0 r (keystore sys) s" by (rule c)
    have "(st, k, sys') = (PSA_SUCCESS, key, sys\<lparr>keystore := put_key_slot r ?full (keystore sys)\<rparr>)"
      using e True a get sf by (simp add: psa_finish_key_creation_def psa_key_slot_state_transition_def)
    moreover have "created sys0 key (slot_attr s) (slot_material s) (sys\<lparr>keystore := put_key_slot r ?full (keystore sys)\<rparr>)"
      unfolding created_def
      using fin [OF fs(1), of "calloc_outcomes (keystore sys)"] there fs a True by (simp add: system_ok_def)
    ultimately show thesis by (intro finished) simp_all
  next
    case False
    obtain st1 o1 fs1 where sv: "psa_save_persistent_key its_file_ops (slot_attr s) (slot_key_data s) (slot_key_bytes s)
        (calloc_outcomes (keystore sys)) (storage sys) = (st1, o1, fs1)" by (rule prod_cases3)
    note r = its_file.save_result [OF fs(1) sv]
    have kn: "attr_id (slot_attr s) \<noteq> 0" using place False a by (auto simp: fresh_place_def psa_key_id_is_user_def)
    have q: "no_faults (storage sys) \<longrightarrow> no_faults fs1 \<and> (st1 \<noteq> PSA_SUCCESS \<longrightarrow> fs1 = storage sys) \<and>
        (st1 = PSA_SUCCESS \<longrightarrow> its_abs (storage sys) ?id = None)"
      using its_file.save_quiet [OF fs(1) _ kn sv] a by blast
    show thesis
    proof (cases "st1 = PSA_SUCCESS")
      case F: False
      have "(st, k, sys') = (st1, 0, \<lparr>keystore = (keystore sys)\<lparr>calloc_outcomes := o1\<rparr>, storage = fs1\<rparr>)"
        using e False a get sv F by (simp add: psa_finish_key_creation_def)
      moreover have "only_entry_changed sys0 key fs1" using r(1,2) q F fs a by (auto simp: only_entry_changed_def)
      ultimately show thesis using F creating_calloc [OF c] by (intro failed) simp_all
    next
      case True
      let ?sys = "\<lparr>keystore = put_key_slot r ?full ((keystore sys)\<lparr>calloc_outcomes := o1\<rparr>), storage = fs1\<rparr>"
      have mat: "take (slot_key_bytes s) (the (slot_key_data s)) = slot_material s"
        using m by (auto simp: slot_material_def)
      have "(st, k, sys') = (PSA_SUCCESS, key, ?sys)"
        using e False a get sv True sf by (simp add: psa_finish_key_creation_def psa_key_slot_state_transition_def)
      moreover have "stored_key fs1 key (slot_attr s) (slot_material s)"
      proof -
        have len: "0 < length (slot_material s)" "length (slot_material s) \<le> PSA_CRYPTO_MAX_STORAGE_SIZE"
          using r(3) [OF True] m by simp_all
        have "its_abs fs1 ?id = Some (psa_format_key_data_for_storage (slot_material s) (slot_attr s), 0)"
          using r(3) [OF True] a unfolding mat by simp
        moreover have "psa_parse_key_data_from_storage (psa_format_key_data_for_storage (slot_material s) (slot_attr s))
            (attributes_to_load key) [] = (PSA_SUCCESS, Some (slot_material s), length (slot_material s), slot_attr s, [])"
          using parse_format [OF len, of "[]" "[]" "slot_attr s" "[]" "attributes_to_load key"] a
          by (simp add: attributes_to_load_def)
        ultimately show ?thesis using len unfolding stored_key_def by fastforce
      qed
      ultimately show thesis
        using fin [OF r(1), of o1] there fs a False q True r(2)
        by (intro finished) (simp_all add: created_def)
    qed
  qed
qed

section \<open>Import\<close>

text \<open>
  What a failed creation may have done: cache entries come and go, and with failing file
  operations the storage entry of the key itself may have changed.
\<close>

definition not_created :: "psa_system \<Rightarrow> psa_key_id \<Rightarrow> psa_system \<Rightarrow> bool" where
  "not_created sys key sys' \<longleftrightarrow>
     system_ok sys' \<and> transparent (keystore sys) (keystore sys') \<and>
     (\<forall>u. u \<noteq> psa_its_identifier_of_slot key \<longrightarrow> its_abs (storage sys') u = its_abs (storage sys) u) \<and>
     (no_faults (storage sys) \<longrightarrow> harmless sys sys')"

lemma harmless_not_created: "harmless sys sys' \<Longrightarrow> not_created sys key sys'"
  by (simp add: not_created_def harmless_def calm_def)

lemma not_created_after_harmless:
  assumes "harmless sys sys1" "not_created sys1 key sys2"
  shows "not_created sys key sys2"
proof -
  have "no_faults (storage sys) \<longrightarrow> no_faults (storage sys1)" using assms(1) by (auto simp: harmless_def calm_def)
  moreover have "its_abs (storage sys1) = its_abs (storage sys)" "transparent (keystore sys) (keystore sys1)"
    using assms(1) by (simp_all add: harmless_def calm_def)
  ultimately show ?thesis
    using assms harmless_trans [OF assms(1)] transparent_trans by (simp add: not_created_def)
qed

lemma abandoned:
  assumes c: "creating (keystore sys) r g s" and fp: "fresh_place sys attr r key0" and ok: "system_ok sys"
    and o: "only_entry_changed sys key fs"
  shows "not_created sys key (psa_fail_key_creation (Some r) \<lparr>keystore = g, storage = fs\<rparr>)"
proof -
  have "disk_ok fs" using o by (simp add: only_entry_changed_def)
  from fail_creation [OF c fp ok this] obtain g2
    where g2: "psa_fail_key_creation (Some r) \<lparr>keystore = g, storage = fs\<rparr> = \<lparr>keystore = g2, storage = fs\<rparr>"
    "system_ok \<lparr>keystore = g2, storage = fs\<rparr>" "transparent (keystore sys) g2"
    "its_abs fs = its_abs (storage sys) \<Longrightarrow> no_faults (storage sys) \<longrightarrow> fs = storage sys \<Longrightarrow>
       harmless sys \<lparr>keystore = g2, storage = fs\<rparr>" by blast
  then show ?thesis using o by (auto simp: not_created_def only_entry_changed_def)
qed

lemma only_entry_changed_refl: "system_ok sys \<Longrightarrow> only_entry_changed sys key (storage sys)"
  by (simp add: only_entry_changed_def system_ok_def)

lemma created_calloc:
  "created (sys\<lparr>keystore := (keystore sys)\<lparr>calloc_outcomes := b\<rparr>\<rparr>) = created sys"
  by (simp add: created_def fun_eq_iff fresh_place_def reusable_def slot_simps)

lemma completed_simps [simp]:
  "attr_id (completed a b) = attr_id a" "attr_lifetime (completed a b) = attr_lifetime a"
  "attr_type (completed a b) = attr_type a" "attr_policy (completed a b) = attr_policy a"
  by (simp_all add: completed_def)

lemma import_key_result:
  assumes ok: "system_ok sys" and e: "psa_import_key drv attr data sys = (st, k, sys')"
  shows "if st = PSA_SUCCESS
    then \<exists>bits d. imports_as drv attr data bits d \<and> psa_validate_key_attributes attr = PSA_SUCCESS \<and>
           created sys k (completed (attr\<lparr>attr_id := k\<rparr>) bits) d sys'
    else k = 0 \<and> not_created sys (attr_id attr) sys'"
proof -
  obtain st1 li o1 where li: "psa_crypto_local_input_alloc data (calloc_outcomes (keystore sys)) = (st1, li, o1)"
    by (rule prod_cases3)
  let ?sys1 = "sys\<lparr>keystore := (keystore sys)\<lparr>calloc_outcomes := o1\<rparr>\<rparr>"
  have h1: "harmless sys ?sys1" by (rule calloc_harmless [OF ok])
  have ok1: "system_ok ?sys1" using h1 by (simp add: harmless_def calm_def)
  have inp: "st1 = PSA_SUCCESS \<Longrightarrow> contents (input_buffer li) = data" using local_input_contents li by simp
  consider (early) "st \<noteq> PSA_SUCCESS" "k = 0" "sys' = sys" | (nomem) "st \<noteq> PSA_SUCCESS" "k = 0" "sys' = ?sys1"
    | (run) "st1 = PSA_SUCCESS" "length data \<noteq> 0" "\<not> length data > SIZE_MAX div 8"
    using e li by (cases "st1 = PSA_SUCCESS") (auto simp: psa_import_key_def Let_def split: if_splits)
  then show ?thesis
  proof cases
    case early
    then show ?thesis using ok by (simp add: harmless_not_created)
  next
    case nomem
    then show ?thesis using harmless_not_created [OF h1] by simp
  next
    case run
    show ?thesis
    proof (cases rule: start_creation_cases [OF ok1, of attr, case_names refused started])
      case (refused st2 sys2)
      have "(st, k, sys') = (st2, 0, sys2)"
        using e run li refused(1,2) by (simp add: psa_import_key_def psa_fail_key_creation_def)
      moreover have "harmless sys sys2" by (rule harmless_trans [OF h1 harmless_refused [OF refused(3-5)]])
      ultimately show ?thesis using refused(2) harmless_not_created by simp
    next
      case (started r key g)
      obtain st3 g3 where im: "import_into_new_slot drv attr data r g = (st3, g3)" by (meson surj_pair)
      from import_into_new_slot_result [OF started(2) im] obtain s where s: "creating (keystore ?sys1) r g3 s"
        "st3 = PSA_SUCCESS \<Longrightarrow> \<exists>bits. imports_as drv attr data bits (slot_material s) \<and>
           slot_attr s = completed (attr\<lparr>attr_id := key\<rparr>) bits \<and> slot_key_data s \<noteq> None \<and>
           slot_key_bytes s = length (slot_material s)" by blast
      let ?sys3 = "\<lparr>keystore = g3, storage = storage sys\<rparr>"
      obtain st4 k4 sys4 where fi: "psa_finish_key_creation r ?sys3 = (st4, k4, sys4)" by (rule prod_cases3)
      have eq: "psa_import_key drv attr data sys =
        (if st3 \<noteq> PSA_SUCCESS then (st3, 0, psa_fail_key_creation (Some r) ?sys3)
         else (st4, k4, if st4 \<noteq> PSA_SUCCESS then psa_fail_key_creation (Some r) sys4 else sys4))"
        using run li inp started(1) im fi by (cases sys) (simp add: psa_import_key_def)
      show ?thesis
      proof (cases "st3 = PSA_SUCCESS")
        case False
        have "only_entry_changed ?sys1 (attr_id attr) (storage sys)" using only_entry_changed_refl [OF ok1] by simp
        from abandoned [OF s(1) started(3) ok1 this] have "not_created sys (attr_id attr) (psa_fail_key_creation (Some r) ?sys3)"
          by (rule not_created_after_harmless [OF h1])
        then show ?thesis using False eq e by simp
      next
        case True
        from s(2) [OF True] obtain bits where b: "imports_as drv attr data bits (slot_material s)"
          "slot_attr s = completed (attr\<lparr>attr_id := key\<rparr>) bits" "slot_key_data s \<noteq> None"
          "slot_key_bytes s = length (slot_material s)" by blast
        have a: "attr_id (slot_attr s) = key" "attr_lifetime (slot_attr s) = attr_lifetime attr" by (simp_all add: b(2))
        have d: "disk_ok (storage ?sys3)" "storage ?sys3 = storage ?sys1" using ok by (simp_all add: system_ok_def)
        have c3: "creating (keystore ?sys1) r (keystore ?sys3) s" using s(1) by simp
        have fp: "fresh_place ?sys1 attr r key" by (rule started(3))
        show ?thesis
        proof (cases rule: finish_creation_result [OF c3 fp a d b(3,4) fi, case_names failed finished])
          case (failed g4 fs4)
          have "only_entry_changed ?sys1 (attr_id attr) fs4"
          proof (cases "PSA_KEY_LIFETIME_IS_VOLATILE (attr_lifetime attr)")
            case v: True
            then have "st4 = PSA_SUCCESS"
              using fi creating_get [OF s(1)] a s(1)
              by (simp add: psa_finish_key_creation_def psa_key_slot_state_transition_def creating_def)
            with failed show ?thesis by simp
          next
            case nv: False
            then have "key = attr_id attr" using started(3) by (simp add: fresh_place_def)
            with failed show ?thesis by simp
          qed
          from abandoned [OF failed(4) started(3) ok1 this]
          have "not_created sys (attr_id attr) (psa_fail_key_creation (Some r) \<lparr>keystore = g4, storage = fs4\<rparr>)"
            by (rule not_created_after_harmless [OF h1])
          then show ?thesis using failed(1-3) True eq e by simp
        next
          case finished
          then show ?thesis using True eq e b started(4) unfolding created_calloc by auto
        qed
      qed
    qed
  qed
qed

end
