(* ===== verification/Lifecycle_Copy.thy ===== *)
theory Lifecycle_Copy
  imports Lifecycle_Calls
begin

text \<open>
  Copying and destroying keys: the result of each call.
\<close>

section \<open>Copy\<close>

text \<open>A creation after steps that do not matter.\<close>

definition adds_key :: "psa_system \<Rightarrow> psa_key_id \<Rightarrow> psa_key_attributes \<Rightarrow> bytes \<Rightarrow> psa_system \<Rightarrow> bool" where
  "adds_key sys key attr d sys' \<longleftrightarrow> (\<exists>sys1. harmless sys sys1 \<and> created sys1 key attr d sys')"

lemma unlock_created:
  assumes l: "locked (keystore sys) (keystore sys1) src s" and c: "calm sys sys1"
    and co: "cache_coherent sys \<longrightarrow> cache_coherent sys1" and cr: "created sys1 key attr d sys2"
  obtains g3 where "psa_unregister_read (Some src) (keystore sys2) = (PSA_SUCCESS, g3)"
    "adds_key sys key attr d (sys2\<lparr>keystore := g3\<rparr>)"
proof -
  from cr obtain r t where t: "fresh_place sys1 attr r key" "store_abs (keystore sys2) = (store_abs (keystore sys1))(r \<mapsto> t)"
    "idle t" "slot_attr t = attr" "slot_material t = d" and ok2: "system_ok sys2" by (auto simp: created_def)
  have ls: "store_abs (keystore sys1) src = Some s" "slot_state s = PSA_SLOT_FULL" "registered_readers s > 0"
    using l by (auto simp: locked_def)
  have ne: "r \<noteq> src"
    using t(1) ls by (auto simp: fresh_place_def reusable_def idle_def split: if_splits)
  then have s2: "store_abs (keystore sys2) src = Some s" using t(2) ls(1) by simp
  have ok: "store_ok (keystore sys2)" using ok2 by (simp add: system_ok_def)
  note u = unlock_full [OF ok s2 ls(2,3)]
  have "harmless sys1 sys1" using c by (simp add: calm_def)
  from unlock_harmless [OF l c co this] obtain gA where A: "psa_unregister_read (Some src) (keystore sys1) = (PSA_SUCCESS, gA)"
    "harmless sys (sys1\<lparr>keystore := gA\<rparr>)" "store_abs gA = (store_abs (keystore sys1))(src \<mapsto> drop_reader s)" by blast
  have "fresh_place (sys1\<lparr>keystore := gA\<rparr>) attr r key"
    using t(1) A(3) ne by (auto simp: fresh_place_def reusable_def)
  moreover have "store_abs (put_key_slot src (drop_reader s) (keystore sys2)) = (store_abs gA)(r \<mapsto> t)"
    using u(3) t(2) A(3) ne by (auto simp: fun_upd_twist)
  moreover have "system_ok (sys2\<lparr>keystore := put_key_slot src (drop_reader s) (keystore sys2)\<rparr>)"
    using ok2 u(2,4) by (simp add: system_ok_def)
  moreover from calculation(1,2) have "\<exists>r t. fresh_place (sys1\<lparr>keystore := gA\<rparr>) attr r key \<and>
      store_abs (put_key_slot src (drop_reader s) (keystore sys2)) = (store_abs gA)(r \<mapsto> t) \<and>
      idle t \<and> slot_attr t = attr \<and> slot_material t = d"
    using t(3-5) by blast
  ultimately have "created (sys1\<lparr>keystore := gA\<rparr>) key attr d
      (sys2\<lparr>keystore := put_key_slot src (drop_reader s) (keystore sys2)\<rparr>)"
    using cr by (simp add: created_def)
  with u(1) A(2) show thesis by (intro that) (auto simp: adds_key_def)
qed

lemma unlock_not_created:
  assumes l: "locked (keystore sys) (keystore sys1) src s" and c: "calm sys sys1"
    and co: "cache_coherent sys \<longrightarrow> cache_coherent sys1" and n: "not_created sys1 key sys2"
  obtains g3 where "psa_unregister_read (Some src) (keystore sys2) = (PSA_SUCCESS, g3)"
    "not_created sys key (sys2\<lparr>keystore := g3\<rparr>)"
proof -
  have t: "transparent (keystore sys1) (keystore sys2)" and ok: "store_ok (keystore sys2)" "system_ok sys2"
    using n by (auto simp: not_created_def system_ok_def)
  from unlock_transparent [OF l t ok(1)] obtain g3 where u: "psa_unregister_read (Some src) (keystore sys2) = (PSA_SUCCESS, g3)"
    "store_ok g3" "transparent (keystore sys) g3" "key_slots_initialized g3 = key_slots_initialized (keystore sys2)" by blast
  have h: "harmless sys (sys2\<lparr>keystore := g3\<rparr>)" if "no_faults (storage sys)"
  proof -
    have "harmless sys1 sys2" using n c that by (simp add: not_created_def calm_def)
    from unlock_harmless [OF l c co this] u(1) show ?thesis by (metis prod.inject)
  qed
  have "not_created sys key (sys2\<lparr>keystore := g3\<rparr>)"
    using n c u ok h by (auto simp: not_created_def calm_def system_ok_def)
  with u(1) show thesis by (rule that)
qed

text \<open>The attributes of a copy: type and size of the source, the intersection of the policies.\<close>

definition copied_attributes :: "psa_key_attributes \<Rightarrow> psa_key_attributes \<Rightarrow> psa_key_policy \<Rightarrow> psa_key_attributes" where
  "copied_attributes source specified policy =
     specified\<lparr>attr_bits := attr_bits source, attr_type := attr_type source, attr_policy := policy\<rparr>"

lemma copied_attributes_simps [simp]:
  "attr_bits (copied_attributes a b p) = attr_bits a" "attr_type (copied_attributes a b p) = attr_type a"
  "attr_policy (copied_attributes a b p) = p" "attr_id (copied_attributes a b p) = attr_id b"
  "attr_lifetime (copied_attributes a b p) = attr_lifetime b"
  by (simp_all add: copied_attributes_def)

definition copies_as :: "psa_key_slot \<Rightarrow> psa_key_attributes \<Rightarrow> psa_key_attributes \<Rightarrow> bool" where
  "copies_as s specified attr \<longleftrightarrow>
     psa_validate_optional_attributes s specified = PSA_SUCCESS \<and>
     PSA_KEY_LIFETIME_GET_LOCATION (attr_lifetime specified) = PSA_KEY_LOCATION_LOCAL_STORAGE \<and>
     PSA_KEY_LIFETIME_GET_LOCATION (attr_lifetime (slot_attr s)) = PSA_KEY_LOCATION_LOCAL_STORAGE \<and>
     (\<exists>policy. psa_restrict_key_policy (attr_type (slot_attr s)) (attr_policy specified) (attr_policy (slot_attr s)) =
        (PSA_SUCCESS, policy) \<and> attr = copied_attributes (slot_attr s) specified policy)"

text \<open>The attributes a copy creates the key with, before a volatile key gets its identifier.\<close>

lemma copy_into_new_slot_result:
  assumes ok: "system_ok sys" and s: "store_abs (keystore sys) src = Some s" "\<not> idle s" "slot_state s = PSA_SLOT_FULL"
    and e: "copy_into_new_slot src specified sys = (st, k, p, sys')"
  shows "if st = PSA_SUCCESS
    then \<exists>attr. copies_as s specified attr \<and> psa_validate_key_attributes attr = PSA_SUCCESS \<and>
           created sys k (attr\<lparr>attr_id := k\<rparr>) (slot_material s) sys'
    else k = 0 \<and> not_created sys (attr_id specified) (psa_fail_key_creation p sys')"
proof -
  have get: "get_key_slot (keystore sys) src = s" using s(1) by (auto dest: store_abs_SomeD)
  let ?sa = "slot_attr s"
  obtain st1 policy where rp: "psa_restrict_key_policy (attr_type ?sa) (attr_policy specified) (attr_policy ?sa) = (st1, policy)"
    by (meson surj_pair)
  let ?actual = "copied_attributes ?sa specified policy"
  have refl: "not_created sys (attr_id specified) (psa_fail_key_creation None sys)"
    using ok by (simp add: psa_fail_key_creation_def harmless_not_created)
  show ?thesis
  proof (cases "psa_validate_optional_attributes s specified = PSA_SUCCESS \<and> st1 = PSA_SUCCESS")
    case False
    then have "st \<noteq> PSA_SUCCESS" "k = 0" "p = None" "sys' = sys"
      using e rp by (auto simp: copy_into_new_slot_def get Let_def split: if_splits)
    with refl show ?thesis by simp
  next
    case v: True
    show ?thesis
    proof (cases rule: start_creation_cases [OF ok, of ?actual, case_names refused started])
      case (refused st2 sys2)
      then have "(st, k, p, sys') = (st2, 0, None, sys2)"
        using e rp v by (simp add: copy_into_new_slot_def get copied_attributes_def)
      moreover have "harmless sys sys2" by (rule harmless_refused [OF refused(3-5)])
      ultimately show ?thesis using refused(2) by (simp add: psa_fail_key_creation_def harmless_not_created)
    next
      case (started r key g)
      let ?n = "new_slot (fst r) (?actual\<lparr>attr_id := key\<rparr>)"
      have getr: "get_key_slot g r = ?n" by (rule creating_get [OF started(2)])
      have body: "copy_into_new_slot src specified sys =
        (if PSA_KEY_LIFETIME_GET_LOCATION (attr_lifetime specified) \<noteq> PSA_KEY_LIFETIME_GET_LOCATION (attr_lifetime ?sa)
         then (PSA_ERROR_NOT_SUPPORTED, 0, Some r, sys\<lparr>keystore := g\<rparr>)
         else if psa_key_lifetime_is_external (attr_lifetime specified)
         then (PSA_ERROR_INVALID_ARGUMENT, 0, Some r, sys\<lparr>keystore := g\<rparr>)
         else
           let (status, g') = psa_copy_key_material_into_slot r (slot_material s) g
           in if status \<noteq> PSA_SUCCESS then (status, 0, Some r, sys\<lparr>keystore := g'\<rparr>)
              else let (status, key, sys) = psa_finish_key_creation r (sys\<lparr>keystore := g'\<rparr>) in (status, key, Some r, sys))"
        using started(1) rp v getr get unfolding copied_attributes_def
        by (cases sys) (simp add: copy_into_new_slot_def Let_def psa_driver_wrapper_get_key_buffer_size_def split_def)
      have o: "only_entry_changed sys (attr_id specified) (storage sys)" by (rule only_entry_changed_refl [OF ok])
      have gone: "not_created sys (attr_id specified) (psa_fail_key_creation (Some r) (sys\<lparr>keystore := g'\<rparr>))"
        if "creating (keystore sys) r g' s'" for g' s'
        using abandoned [OF that started(3) ok o] by (cases sys) simp
      consider (bad) "st \<noteq> PSA_SUCCESS" "k = 0" "p = Some r" "sys' = sys\<lparr>keystore := g\<rparr>"
        | (good) "PSA_KEY_LIFETIME_GET_LOCATION (attr_lifetime specified) = PSA_KEY_LOCATION_LOCAL_STORAGE"
          "PSA_KEY_LIFETIME_GET_LOCATION (attr_lifetime ?sa) = PSA_KEY_LOCATION_LOCAL_STORAGE"
        using e unfolding body psa_key_lifetime_is_external_def by (auto split: if_splits)
      then show ?thesis
      proof cases
        case bad
        with gone [OF started(2)] show ?thesis by simp
      next
        case good
        have nd: "slot_key_data ?n = None" by simp
        show ?thesis
        proof (cases rule: copy_material_cases [OF started(2) nd, of "slot_material s", case_names nomem ok])
          case (nomem g')
          with e good gone [OF nomem(2)] show ?thesis unfolding body by (auto simp: psa_key_lifetime_is_external_def)
        next
          case (ok g')
          let ?t = "?n\<lparr>slot_key_data := Some (slot_material s), slot_key_bytes := length (slot_material s)\<rparr>"
          let ?sys1 = "sys\<lparr>keystore := g'\<rparr>"
          obtain st4 k4 sys4 where fi: "psa_finish_key_creation r ?sys1 = (st4, k4, sys4)" by (rule prod_cases3)
          have r: "(st, k, p, sys') = (st4, k4, Some r, sys4)"
            using e good ok(1) fi unfolding body by (simp add: psa_key_lifetime_is_external_def)
          have c: "creating (keystore sys) r (keystore ?sys1) ?t" using ok(2) by simp
          have a: "attr_id (slot_attr ?t) = key" "attr_lifetime (slot_attr ?t) = attr_lifetime ?actual" by simp_all
          have d: "disk_ok (storage ?sys1)" "storage ?sys1 = storage sys" using assms(1) by (simp_all add: system_ok_def)
          have mt: "slot_key_data ?t \<noteq> None" "slot_key_bytes ?t = length (slot_material ?t)"
            by (simp_all add: slot_material_def)
          have m: "slot_material ?t = slot_material s" by (simp add: slot_material_def [of ?t])
          show ?thesis
          proof (cases rule: finish_creation_result [OF c started(3) a d mt fi, case_names failed finished])
            case (failed g4 fs4)
            have "only_entry_changed sys (attr_id specified) fs4"
            proof (cases "PSA_KEY_LIFETIME_IS_VOLATILE (attr_lifetime ?actual)")
              case v: True
              then have "st4 = PSA_SUCCESS" using fi creating_get [OF c]
                by (simp add: psa_finish_key_creation_def psa_key_slot_state_transition_def)
              with failed show ?thesis by simp
            next
              case nv: False
              then have "key = attr_id specified" using started(3) by (simp add: fresh_place_def)
              with failed show ?thesis by simp
            qed
            from abandoned [OF failed(4) started(3) assms(1) this] show ?thesis using r failed(1-3) by simp
          next
            case finished
            have "copies_as s specified ?actual" using v rp good by (auto simp: copies_as_def)
            with finished r started(4) show ?thesis unfolding m by auto
          qed
        qed
      qed
    qed
  qed
qed

lemma found_key_locked:
  "found_key sys key s \<Longrightarrow> attr_id (slot_attr s) = key \<and> slot_state s = PSA_SLOT_FULL"
  by (auto simp: found_key_def holds_key_def slot_simps loaded_slot_def)

lemma copy_key_result:
  assumes ok: "system_ok sys" and e: "psa_copy_key source specified sys = (st, k, sys')"
  shows "if st = PSA_SUCCESS
    then \<exists>s attr. found_key sys source s \<and> policy_check s PSA_KEY_USAGE_COPY 0 = PSA_SUCCESS \<and>
           copies_as s specified attr \<and> psa_validate_key_attributes attr = PSA_SUCCESS \<and>
           adds_key sys k (attr\<lparr>attr_id := k\<rparr>) (slot_material s) sys'
    else k = 0 \<and> not_created sys (attr_id specified) sys'"
proof (cases rule: with_policy_result [OF ok, of source PSA_KEY_USAGE_COPY 0, case_names got refused failed])
  case (got r s sys1)
  obtain st1 k1 p1 sys2 where cp: "copy_into_new_slot r specified sys1 = (st1, k1, p1, sys2)" by (rule prod_cases4)
  have ok1: "system_ok sys1" using got(2) by (simp add: calm_def)
  have s: "store_abs (keystore sys1) r = Some s" "\<not> idle s" "slot_state s = PSA_SLOT_FULL"
    using got(3) by (auto simp: locked_def idle_def)
  note cr = copy_into_new_slot_result [OF ok1 s cp]
  let ?sys3 = "if st1 \<noteq> PSA_SUCCESS then psa_fail_key_creation p1 sys2 else sys2"
  have eq: "psa_copy_key source specified sys =
    (let (u, g) = psa_unregister_read (Some r) (keystore ?sys3)
     in (if st1 = PSA_SUCCESS then u else st1, k1, ?sys3\<lparr>keystore := g\<rparr>))"
    using got(1) cp by (simp add: psa_copy_key_def psa_unregister_read_under_mutex_def Let_def)
  show ?thesis
  proof (cases "st1 = PSA_SUCCESS")
    case True
    with cr obtain attr where attr: "copies_as s specified attr" "psa_validate_key_attributes attr = PSA_SUCCESS"
      "created sys1 k1 (attr\<lparr>attr_id := k1\<rparr>) (slot_material s) sys2" by auto
    from unlock_created [OF got(3,2,5) attr(3)] obtain g3
      where u: "psa_unregister_read (Some r) (keystore sys2) = (PSA_SUCCESS, g3)"
        "adds_key sys k1 (attr\<lparr>attr_id := k1\<rparr>) (slot_material s) (sys2\<lparr>keystore := g3\<rparr>)" by blast
    with eq e True have "st = PSA_SUCCESS" "k = k1" "sys' = sys2\<lparr>keystore := g3\<rparr>" by simp_all
    with u(2) attr got(4,6) show ?thesis by auto
  next
    case False
    with cr have n: "k1 = 0" "not_created sys1 (attr_id specified) (psa_fail_key_creation p1 sys2)" by simp_all
    from unlock_not_created [OF got(3,2,5) n(2)] obtain g3
      where u: "psa_unregister_read (Some r) (keystore (psa_fail_key_creation p1 sys2)) = (PSA_SUCCESS, g3)"
        "not_created sys (attr_id specified) ((psa_fail_key_creation p1 sys2)\<lparr>keystore := g3\<rparr>)" by blast
    with eq e False n show ?thesis by simp
  qed
next
  case (refused st1 s sys1)
  then have "(st, k, sys') = (st1, 0, sys1)" using e
    by (cases sys1) (simp add: psa_copy_key_def psa_fail_key_creation_def psa_unregister_read_under_mutex_def psa_unregister_read_def)
  with refused show ?thesis by (simp add: harmless_not_created)
next
  case (failed st1 sys1)
  then have "(st, k, sys') = (st1, 0, sys1)" using e
    by (cases sys1) (simp add: psa_copy_key_def psa_fail_key_creation_def psa_unregister_read_under_mutex_def psa_unregister_read_def)
  with failed show ?thesis by (simp add: harmless_not_created)
qed

section \<open>Destroy\<close>

text \<open>
  A destroyed key: its slot is emptied, or marked for deletion while others read it; a
  persistent key's storage entry is removed by psa_destroy_persistent_key.
\<close>

definition destroys :: "psa_system \<Rightarrow> slot_ref \<Rightarrow> psa_key_slot \<Rightarrow> psa_system \<Rightarrow> psa_status \<Rightarrow> bool" where
  "destroys sys1 r s sys' st \<longleftrightarrow>
     system_ok sys' \<and>
     store_abs (keystore sys1) r = Some s \<and> slot_state s = PSA_SLOT_FULL \<and>
     store_abs (keystore sys') = (store_abs (keystore sys1))
       (r := if registered_readers s = 1 then None
             else Some (drop_reader (s\<lparr>slot_state := PSA_SLOT_PENDING_DELETION\<rparr>))) \<and>
     (if PSA_KEY_LIFETIME_IS_READ_ONLY (attr_lifetime (slot_attr s))
      then st = PSA_ERROR_NOT_PERMITTED \<and> storage sys' = storage sys1
      else if PSA_KEY_LIFETIME_IS_VOLATILE (attr_lifetime (slot_attr s))
      then st = PSA_SUCCESS \<and> storage sys' = storage sys1
      else psa_destroy_persistent_key its_file_ops (attr_id (slot_attr s)) (storage sys1) = (st, storage sys'))"

lemma destroy_key_result:
  assumes ok: "system_ok sys" and k: "key \<noteq> 0" and e: "psa_destroy_key key sys = (st, sys')"
  shows "(\<exists>s r sys1. calm sys sys1 \<and> locked (keystore sys) (keystore sys1) r s \<and> found_key sys key s \<and>
            (cache_coherent sys \<longrightarrow> cache_coherent sys1) \<and> lookup_place key r \<and> destroys sys1 r s sys' st) \<or>
         st \<noteq> PSA_SUCCESS \<and> harmless sys sys' \<and> psa_get_and_lock_key_slot key sys = (st, None, sys')"
proof (cases rule: get_and_lock_result [OF ok, of key, case_names got failed])
  case (failed st1 sys1)
  then show ?thesis using e k by (simp add: psa_destroy_key_def)
next
  case (got r s sys1)
  let ?g1 = "keystore sys1" and ?p = "s\<lparr>slot_state := PSA_SLOT_PENDING_DELETION\<rparr>"
  have ok1: "store_ok ?g1" "key_slots_initialized ?g1" "disk_ok (storage sys1)" using got(2) by (simp_all add: calm_def system_ok_def)
  have s: "store_abs ?g1 r = Some s" "slot_state s = PSA_SLOT_FULL" "registered_readers s > 0"
    using got(3) by (auto simp: locked_def)
  have get: "get_key_slot ?g1 r = s" by (rule locked_get [OF got(3)])
  let ?g2 = "put_key_slot r ?p ?g1"
  have g2: "store_ok ?g2" "store_abs ?g2 = (store_abs ?g1)(r \<mapsto> ?p)"
    using store_ok_put_occupied [OF ok1(1) s(1), of ?p] by simp_all
  have pr: "registered_readers ?p = registered_readers s" by (simp add: registered_readers_def)
  obtain std fsd where ds: "psa_destroy_persistent_key its_file_ops (attr_id (slot_attr s)) (storage sys1) = (std, fsd)"
    by (meson surj_pair)
  have dd: "disk_ok fsd" by (rule its_file.destroy_result(1) [OF ok1(3) ds])
  let ?ro = "PSA_KEY_LIFETIME_IS_READ_ONLY (attr_lifetime (slot_attr s))"
  let ?vo = "PSA_KEY_LIFETIME_IS_VOLATILE (attr_lifetime (slot_attr s))"
  let ?fs = "if ?ro \<or> ?vo then storage sys1 else fsd"
  have eq: "psa_destroy_key key sys =
    (let (u, g) = psa_unregister_read (Some r) ?g2
     in (if u \<noteq> PSA_SUCCESS then u
         else if ?ro then PSA_ERROR_NOT_PERMITTED else if ?vo then PSA_SUCCESS else std, \<lparr>keystore = g, storage = ?fs\<rparr>))"
    using got(1) k s(2) ds get
    by (cases sys1) (auto simp: psa_destroy_key_def psa_key_slot_state_transition_def Let_def split: prod.splits)
  obtain g3 where u: "psa_unregister_read (Some r) ?g2 = (PSA_SUCCESS, g3)" "store_ok g3" "key_slots_initialized g3"
    "store_abs g3 = (store_abs ?g1)(r := if registered_readers s = 1 then None else Some (drop_reader ?p))"
  proof (cases rule: unregister_read_cases [OF g2(1), of r ?p, case_names occ bad last dropped])
    case occ
    then show ?case using g2(2) by simp
  next
    case bad
    then show ?thesis using s(3) pr by simp
  next
    case (last g')
    then show ?thesis using g2(2) pr ok1(2) by (intro that [of g']) (simp_all add: slot_simps)
  next
    case dropped
    then show ?thesis using g2(2) pr ok1(2)
      by (intro that [of "put_key_slot r (drop_reader ?p) ?g2"]) (auto simp: slot_simps)
  qed
  have "disk_ok ?fs" using dd ok1(3) by simp
  then have "destroys sys1 r s sys' st"
    unfolding destroys_def
    using eq e u s(1,2) ds by (auto simp: system_ok_def)
  with got show ?thesis by blast
qed

end
