(* ===== verification/Lifecycle_Contracts.thy ===== *)
theory Lifecycle_Contracts
  imports Lifecycle_Copy
begin

text \<open>
  The contract of key management. What an application sees is a map from key identifiers to
  attributes and key material (\<open>key_view\<close>): the persistent keys are what the storage holds, the
  volatile ones what the volatile slices hold; the cache, the locks, loading and eviction are
  invisible. Every call acts on that map as its specification says.
\<close>

declare split_paired_All [simp del] split_paired_Ex [simp del]

section \<open>The map of keys\<close>

definition key_view :: "psa_system \<Rightarrow> psa_key_id \<Rightarrow> psa_key_attributes \<Rightarrow> bytes \<Rightarrow> bool" where
  "key_view sys key attr d \<longleftrightarrow>
     (if psa_key_id_is_user key
      then \<exists>a. stored_key (storage sys) key a d \<and> attr = extend_attributes a
      else \<exists>r s. holds_key (keystore sys) key r s \<and> attr = extend_attributes (slot_attr s) \<and> d = slot_material s)"

definition storage_sane :: "file_system \<Rightarrow> bool" where
  "storage_sane fs \<longleftrightarrow>
     (\<forall>key attr d. stored_key fs key attr d \<longrightarrow> \<not> PSA_KEY_LIFETIME_IS_VOLATILE (attr_lifetime attr))"

definition volatile_slots_ok :: "psa_global_data \<Rightarrow> bool" where
  "volatile_slots_ok g \<longleftrightarrow>
     (\<forall>r s. store_abs g r = Some s \<longrightarrow> fst r < KEY_SLOT_VOLATILE_SLICE_COUNT \<longrightarrow> slot_state s = PSA_SLOT_FULL \<longrightarrow>
        PSA_KEY_LIFETIME_IS_VOLATILE (attr_lifetime (slot_attr s)))"

definition system_inv :: "psa_system \<Rightarrow> bool" where
  "system_inv sys \<longleftrightarrow> system_ok sys \<and> no_faults (storage sys) \<and> cache_coherent sys \<and>
     storage_sane (storage sys) \<and> volatile_slots_ok (keystore sys)"

lemma system_invD:
  assumes "system_inv sys"
  shows "system_ok sys" "no_faults (storage sys)" "cache_coherent sys" "storage_sane (storage sys)"
    "volatile_slots_ok (keystore sys)"
  using assms by (simp_all add: system_inv_def)

lemma extend_usage_idem: "psa_extend_key_usage_flags (psa_extend_key_usage_flags u) = psa_extend_key_usage_flags u"
proof -
  have 1: "(v OR 0x400) AND 0x1000 = v AND (0x1000 :: u32)" "(v OR 0x800) AND 0x2000 = v AND (0x2000 :: u32)"
    "(v OR 0x400) AND 0x2000 = v AND (0x2000 :: u32)" "(v OR 0x800) AND 0x1000 = v AND (0x1000 :: u32)" for v
    by (simp_all add: bit.conj_disj_distrib2)
  show ?thesis unfolding psa_extend_key_usage_flags_def Let_def by (simp add: 1 or.assoc)
qed

lemma extend_attributes_idem [simp]: "extend_attributes (extend_attributes a) = extend_attributes a"
  by (simp add: extend_attributes_def extend_usage_idem)

lemma stored_key_fun:
  assumes "stored_key fs key a d" "stored_key fs key a' d'" shows "a' = a" "d' = d"
proof -
  have *: "(a', d') = (a, d)"
    using assms by (auto simp: stored_key_def psa_parse_key_data_from_storage_def Let_def split: if_splits prod.splits)
  then show "a' = a" "d' = d" by simp_all
qed

text \<open>Where a key can be.\<close>

lemma holds_user: "psa_key_id_is_user key \<Longrightarrow> holds_key g key r s \<longleftrightarrow> cached g r s \<and> attr_id (slot_attr s) = key"
  using psa_key_id_ranges_disjoint(1) [of key] by (auto simp: holds_key_def lookup_place_def cached_def)

lemma holds_other:
  assumes c: "cache_coherent sys" and n: "\<not> psa_key_id_is_user key" and h: "holds_key (keystore sys) key r s"
  shows "psa_key_id_is_volatile key" "fst r < KEY_SLOT_VOLATILE_SLICE_COUNT"
proof -
  have v: "psa_key_id_is_volatile key"
  proof (rule ccontr)
    assume "\<not> psa_key_id_is_volatile key"
    with h have k: "cached (keystore sys) r s" "attr_id (slot_attr s) = key"
      by (auto simp: holds_key_def lookup_place_def cached_def)
    from cache_coherentD(1) [OF c k(1)] k(2) n show False by (simp add: backed_def)
  qed
  then show "psa_key_id_is_volatile key" "fst r < KEY_SLOT_VOLATILE_SLICE_COUNT"
    using h by (auto simp: holds_key_def lookup_place_def)
qed

lemma holder_unique:
  assumes c: "cache_coherent sys" and h: "holds_key (keystore sys) key r s" "holds_key (keystore sys) key r' s'"
  shows "r' = r" "s' = s"
proof -
  show r: "r' = r"
  proof (cases "psa_key_id_is_user key")
    case True
    with h have k: "cached (keystore sys) r s" "cached (keystore sys) r' s'"
      "attr_id (slot_attr s) = attr_id (slot_attr s')" by (simp_all add: holds_user)
    from cache_coherentD(2) [OF c k] show ?thesis by simp
  next
    case False
    from holds_other(1) [OF c this h(1)] h show ?thesis by (simp add: holds_key_def lookup_place_def)
  qed
  then show "s' = s" using h by (simp add: holds_key_def)
qed

lemma key_view_fun:
  assumes i: "system_inv sys" and v: "key_view sys key a d" "key_view sys key a' d'"
  shows "a' = a \<and> d' = d"
proof (cases "psa_key_id_is_user key")
  case True
  with v stored_key_fun show ?thesis unfolding key_view_def by (metis (full_types))
next
  case False
  with v obtain r s r' s' where "holds_key (keystore sys) key r s" "holds_key (keystore sys) key r' s'"
    "a = extend_attributes (slot_attr s)" "d = slot_material s" "a' = extend_attributes (slot_attr s')" "d' = slot_material s'"
    by (auto simp: key_view_def)
  with holder_unique [OF system_invD(3) [OF i]] show ?thesis by blast
qed

text \<open>What a call finds is what the map holds.\<close>

lemma found_view:
  assumes c: "cache_coherent sys" and f: "found_key sys key s"
  shows "key_view sys key (extend_attributes (slot_attr s)) (slot_material s)"
proof -
  from f consider r s0 where "holds_key (keystore sys) key r s0" "s = add_reader s0"
    | a d where "psa_key_id_is_user key" "stored_key (storage sys) key a d" "s = loaded_slot a d"
    unfolding found_key_def by blast
  then show ?thesis
  proof cases
    case 1
    have e: "slot_attr s = slot_attr s0" "slot_material s = slot_material s0"
      by (simp_all add: 1(2) slot_simps slot_material_def)
    show ?thesis
    proof (cases "psa_key_id_is_user key")
      case True
      with 1(1) have k: "cached (keystore sys) r s0" "attr_id (slot_attr s0) = key" by (simp_all add: holds_user)
      from cache_coherentD(1) [OF c k(1)] k(2) obtain a d where "stored_key (storage sys) key a d"
        "slot_attr s0 \<in> {a, extend_attributes a}" "slot_material s0 = d" by (auto simp: backed_def)
      with True e show ?thesis by (auto simp: key_view_def)
    next
      case False
      with 1 e show ?thesis by (auto simp: key_view_def)
    qed
  next
    case 2
    have "slot_attr s = extend_attributes a" "slot_material s = d" by (simp_all add: 2(3) loaded_slot_def slot_material_def)
    with 2 show ?thesis by (auto simp: key_view_def)
  qed
qed

section \<open>Steps that do not matter\<close>

lemma transparent_volatile: "transparent g g' \<Longrightarrow> fst r < KEY_SLOT_VOLATILE_SLICE_COUNT \<Longrightarrow> store_abs g' r = store_abs g r"
  unfolding transparent_def reusable_def by (metis less_irrefl)

lemma view_other:
  assumes c: "cache_coherent sys" "cache_coherent sys'" and n: "\<not> psa_key_id_is_user key"
    and e: "\<And>r. lookup_place key r \<Longrightarrow> fst r < KEY_SLOT_VOLATILE_SLICE_COUNT \<Longrightarrow>
      store_abs (keystore sys') r = store_abs (keystore sys) r"
  shows "key_view sys' key = key_view sys key"
proof -
  have "holds_key (keystore sys') key r s \<longleftrightarrow> holds_key (keystore sys) key r s" for r s
    using holds_other(2) [OF c(1) n, of r s] holds_other(2) [OF c(2) n, of r s] e [of r]
    unfolding holds_key_def by metis
  then show ?thesis using n by (simp add: key_view_def fun_eq_iff)
qed

lemma harmless_inv:
  assumes i: "system_inv sys" and h: "harmless sys sys'"
  shows "system_inv sys'" "key_view sys' = key_view sys"
proof -
  have s: "system_ok sys'" "its_abs (storage sys') = its_abs (storage sys)" "no_faults (storage sys')"
    "transparent (keystore sys) (keystore sys')" "cache_coherent sys'" "stored_key (storage sys') = stored_key (storage sys)"
    using h system_invD [OF i] by (auto simp: harmless_def calm_def intro: stored_key_abs)
  have v: "volatile_slots_ok (keystore sys')"
    using system_invD(5) [OF i] transparent_volatile [OF s(4)] by (auto simp: volatile_slots_ok_def)
  show i': "system_inv sys'" using s v system_invD [OF i] by (simp add: system_inv_def storage_sane_def)
  show "key_view sys' = key_view sys"
  proof
    fix key
    show "key_view sys' key = key_view sys key"
    proof (cases "psa_key_id_is_user key")
      case True
      then show ?thesis using s(6) by (simp add: key_view_def fun_eq_iff)
    next
      case False
      then show ?thesis
        using transparent_volatile [OF s(4)] by (intro view_other system_invD(3) [OF i] s(5)) simp_all
    qed
  qed
qed

section \<open>Creation\<close>

lemma stored_key_other:
  "its_abs fs' (psa_its_identifier_of_slot k) = its_abs fs (psa_its_identifier_of_slot k) \<Longrightarrow> stored_key fs' k = stored_key fs k"
  by (simp add: stored_key_def fun_eq_iff)

lemma backed_other:
  assumes "backed fs s" "its_abs fs' (psa_its_identifier_of_slot (attr_id (slot_attr s))) =
    its_abs fs (psa_its_identifier_of_slot (attr_id (slot_attr s)))"
  shows "backed fs' s"
  using assms(1) unfolding backed_def stored_key_other [OF assms(2)] .

lemma created_place:
  assumes "created sys key attr d sys'"
  obtains r s where "fresh_place sys attr r key" "store_abs (keystore sys') = (store_abs (keystore sys))(r \<mapsto> s)"
    "idle s" "slot_attr s = attr" "slot_material s = d" "system_ok sys'" "attr_id attr = key"
  using assms unfolding created_def by (elim conjE exE) (rule that)

lemma created_volatile_place:
  assumes cr: "created sys key attr d sys'" and v: "PSA_KEY_LIFETIME_IS_VOLATILE (attr_lifetime attr)"
  obtains r s where "fst r < KEY_SLOT_VOLATILE_SLICE_COUNT" "store_abs (keystore sys) r = None"
      "psa_key_id_is_volatile key" "lookup_place key r"
      "store_abs (keystore sys') = (store_abs (keystore sys))(r \<mapsto> s)" "idle s" "slot_attr s = attr" "slot_material s = d"
      "system_ok sys'" "attr_id attr = key" "storage sys' = storage sys"
proof (rule created_place [OF cr])
  fix r s
  assume p: "fresh_place sys attr r key" and o: "store_abs (keystore sys') = (store_abs (keystore sys))(r \<mapsto> s)"
    "idle s" "slot_attr s = attr" "slot_material s = d" "system_ok sys'" "attr_id attr = key"
  have "storage sys' = storage sys" using cr v by (simp add: created_def)
  moreover have "fst r < KEY_SLOT_VOLATILE_SLICE_COUNT \<and> store_abs (keystore sys) r = None \<and>
      psa_key_id_is_volatile key \<and> lookup_place key r" using p v by (simp add: fresh_place_def)
  ultimately show thesis by (elim conjE) (rule that [OF _ _ _ _ o])
qed

lemma volatile_place_unique: "psa_key_id_is_volatile key \<Longrightarrow> lookup_place key q \<Longrightarrow> lookup_place key r \<Longrightarrow> q = r"
  by (simp add: lookup_place_def)

lemma created_volatile_inv:
  assumes i: "system_inv sys" and cr: "created sys key attr d sys'" and v: "PSA_KEY_LIFETIME_IS_VOLATILE (attr_lifetime attr)"
  shows "system_inv sys'" "key_view sys' = (key_view sys)(key := \<lambda>a e. a = extend_attributes attr \<and> e = d)"
    "\<not> key_view sys key a e"
proof -
  note inv = system_invD [OF i]
  from created_volatile_place [OF cr v] obtain r s
    where r: "fst r < KEY_SLOT_VOLATILE_SLICE_COUNT" "store_abs (keystore sys) r = None"
      "psa_key_id_is_volatile key" "lookup_place key r"
    and u: "store_abs (keystore sys') = (store_abs (keystore sys))(r \<mapsto> s)" "idle s" "slot_attr s = attr" "slot_material s = d"
    and st: "system_ok sys'" "attr_id attr = key" "storage sys' = storage sys" by metis
  have nu: "\<not> psa_key_id_is_user key" using psa_key_id_ranges_disjoint(1) r(3) by blast
  have cc: "cache_coherent sys'"
    by (rule cache_coherent_at [OF inv(3) u(1)]) (use st(3) r(1) in simp_all)
  have vo: "volatile_slots_ok (keystore sys')"
    unfolding volatile_slots_ok_def
  proof (intro allI impI)
    fix q t assume t: "store_abs (keystore sys') q = Some t" "fst q < KEY_SLOT_VOLATILE_SLICE_COUNT" "slot_state t = PSA_SLOT_FULL"
    show "PSA_KEY_LIFETIME_IS_VOLATILE (attr_lifetime (slot_attr t))"
    proof (cases "q = r")
      case True
      then show ?thesis using t(1) u(1,3) v by simp
    next
      case False
      then have "store_abs (keystore sys) q = Some t" using t(1) u(1) by simp
      then show ?thesis using t(2,3) inv(5) unfolding volatile_slots_ok_def by blast
    qed
  qed
  show "system_inv sys'" using st cc vo inv by (simp add: system_inv_def)
  note only = volatile_place_unique [OF r(3) _ r(4)]
  show "\<not> key_view sys key a e" for a e
  proof
    assume "key_view sys key a e"
    then obtain q t where "holds_key (keystore sys) key q t" using nu unfolding key_view_def by auto
    then have "lookup_place key q" "store_abs (keystore sys) q = Some t" by (simp_all add: holds_key_def)
    with only [OF this(1)] r(2) show False by simp
  qed
  have full: "slot_state s = PSA_SLOT_FULL" using u(2) by (simp add: idle_def)
  have "key_view sys' k = ((key_view sys)(key := \<lambda>a e. a = extend_attributes attr \<and> e = d)) k" for k
  proof (cases "k = key")
    case True
    have "holds_key (keystore sys') key q t \<longleftrightarrow> q = r \<and> t = s" for q t
      unfolding holds_key_def u(1) using only [of q] r(4) u(3) full st(2) by (cases "q = r") (simp_all, blast+)
    then show ?thesis using True nu u by (simp add: key_view_def fun_eq_iff)
  next
    case False
    have "holds_key (keystore sys') k q t \<longleftrightarrow> holds_key (keystore sys) k q t" for q t
      unfolding holds_key_def u(1) using False u(3) r(2) st(2) by (cases "q = r") auto
    then show ?thesis using False st(3) by (simp add: key_view_def fun_eq_iff)
  qed
  then show "key_view sys' = (key_view sys)(key := \<lambda>a e. a = extend_attributes attr \<and> e = d)" by (rule ext)
qed

lemma created_persistent_place:
  assumes cr: "created sys key attr d sys'" and v: "\<not> PSA_KEY_LIFETIME_IS_VOLATILE (attr_lifetime attr)"
    and nf: "no_faults (storage sys)"
  obtains r s where "fst r = KEY_SLOT_CACHE_SLICE_INDEX" "psa_key_id_is_user key"
      "store_abs (keystore sys') = (store_abs (keystore sys))(r \<mapsto> s)" "idle s" "slot_attr s = attr" "slot_material s = d"
      "stored_key (storage sys') key attr d" "its_abs (storage sys) (psa_its_identifier_of_slot key) = None"
      "\<forall>w. w \<noteq> psa_its_identifier_of_slot key \<longrightarrow> its_abs (storage sys') w = its_abs (storage sys) w"
      "system_ok sys'" "attr_id attr = key" "no_faults (storage sys')"
proof (rule created_place [OF cr])
  fix r s
  assume p: "fresh_place sys attr r key" and o: "store_abs (keystore sys') = (store_abs (keystore sys))(r \<mapsto> s)"
    "idle s" "slot_attr s = attr" "slot_material s = d" "system_ok sys'" "attr_id attr = key"
  have st: "stored_key (storage sys') key attr d" "its_abs (storage sys) (psa_its_identifier_of_slot key) = None"
    "\<forall>w. w \<noteq> psa_its_identifier_of_slot key \<longrightarrow> its_abs (storage sys') w = its_abs (storage sys) w"
    "no_faults (storage sys')" using cr v nf by (simp_all add: created_def)
  have "fst r = KEY_SLOT_CACHE_SLICE_INDEX \<and> psa_key_id_is_user key" using p v by (auto simp: fresh_place_def)
  then show thesis by (elim conjE) (rule that [OF _ _ o(1-4) st(1-3) o(5,6) st(4)])
qed

text \<open>A change of the storage entry of one key leaves the other cached keys backed.\<close>

lemma backed_except:
  assumes b: "backed fs s" and ne: "attr_id (slot_attr s) \<noteq> key"
    and o: "\<forall>w. w \<noteq> psa_its_identifier_of_slot key \<longrightarrow> its_abs fs' w = its_abs fs w"
  shows "backed fs' s"
  by (rule backed_other [OF b]) (use ne o in \<open>simp add: identifier_inj\<close>)

lemma stored_key_except:
  assumes "k \<noteq> key" "\<forall>w. w \<noteq> psa_its_identifier_of_slot key \<longrightarrow> its_abs fs' w = its_abs fs w"
  shows "stored_key fs' k = stored_key fs k"
  by (rule stored_key_other) (use assms in \<open>simp add: identifier_inj\<close>)

lemma created_persistent_inv:
  assumes i: "system_inv sys" and cr: "created sys key attr d sys'" and v: "\<not> PSA_KEY_LIFETIME_IS_VOLATILE (attr_lifetime attr)"
  shows "system_inv sys'" "key_view sys' = (key_view sys)(key := \<lambda>a e. a = extend_attributes attr \<and> e = d)"
    "\<not> key_view sys key a e"
proof -
  note inv = system_invD [OF i]
  let ?id = psa_its_identifier_of_slot
  from created_persistent_place [OF cr v inv(2)] obtain r s
    where r: "fst r = KEY_SLOT_CACHE_SLICE_INDEX" "psa_key_id_is_user key"
    and u: "store_abs (keystore sys') = (store_abs (keystore sys))(r \<mapsto> s)" "idle s" "slot_attr s = attr" "slot_material s = d"
    and st: "stored_key (storage sys') key attr d" "its_abs (storage sys) (?id key) = None"
      "\<forall>w. w \<noteq> ?id key \<longrightarrow> its_abs (storage sys') w = its_abs (storage sys) w"
    and ok: "system_ok sys'" "attr_id attr = key" "no_faults (storage sys')" by metis
  have absent: "\<not> stored_key (storage sys) key a e" for a e using st(2) by (simp add: stored_key_def)
  note other = stored_key_except [OF _ st(3)]
  have ids: "attr_id (slot_attr t) \<noteq> key" if "cached (keystore sys) q t" for q t
    using cache_coherentD(1) [OF inv(3) that] absent unfolding backed_def by blast
  have cc: "cache_coherent sys'"
  proof (rule cache_coherent_upd [OF inv(3) u(1)])
    show "backed (storage sys') t" if "cached (keystore sys) q t" for q t
      by (rule backed_except [OF cache_coherentD(1) [OF inv(3) that] ids [OF that] st(3)])
    show "backed (storage sys') t \<and> (\<forall>r' s'. r' \<noteq> r \<longrightarrow> cached (keystore sys) r' s' \<longrightarrow> attr_id (slot_attr s') \<noteq> attr_id (slot_attr t))"
      if "Some s = Some t" for t
    proof -
      have t: "t = s" using that by simp
      have "backed (storage sys') s" using u(3,4) st(1) r(2) ok(2) unfolding backed_def by blast
      moreover have "attr_id (slot_attr s) = key" using u(3) ok(2) by simp
      ultimately show ?thesis unfolding t using ids by blast
    qed
  qed
  have sane: "storage_sane (storage sys')"
    unfolding storage_sane_def
  proof (intro allI impI)
    fix k a e assume k: "stored_key (storage sys') k a e"
    show "\<not> PSA_KEY_LIFETIME_IS_VOLATILE (attr_lifetime a)"
    proof (cases "k = key")
      case True
      with k stored_key_fun(1) [OF st(1)] v show ?thesis by blast
    next
      case False
      from inv(4) k show ?thesis unfolding storage_sane_def other [OF False] by blast
    qed
  qed
  have vo: "volatile_slots_ok (keystore sys')"
    unfolding volatile_slots_ok_def
  proof (intro allI impI)
    fix q t assume t: "store_abs (keystore sys') q = Some t" "fst q < KEY_SLOT_VOLATILE_SLICE_COUNT" "slot_state t = PSA_SLOT_FULL"
    then have "q \<noteq> r" using r(1) by auto
    then have "store_abs (keystore sys) q = Some t" using t(1) u(1) by simp
    then show "PSA_KEY_LIFETIME_IS_VOLATILE (attr_lifetime (slot_attr t))"
      using t(2,3) inv(5) unfolding volatile_slots_ok_def by blast
  qed
  show "system_inv sys'" using ok cc sane vo by (simp add: system_inv_def)
  show "\<not> key_view sys key a e" for a e using r(2) absent by (simp add: key_view_def)
  have "key_view sys' k = ((key_view sys)(key := \<lambda>a e. a = extend_attributes attr \<and> e = d)) k" for k
  proof (cases "psa_key_id_is_user k")
    case True
    show ?thesis
    proof (cases "k = key")
      case k: True
      have "stored_key (storage sys') key a e \<longleftrightarrow> a = attr \<and> e = d" for a e
        using stored_key_fun [OF st(1)] st(1) by blast
      then show ?thesis using k True by (auto simp: key_view_def fun_eq_iff)
    next
      case k: False
      then show ?thesis using True other [OF k] by (simp add: key_view_def fun_eq_iff)
    qed
  next
    case False
    have "key_view sys' k = key_view sys k"
      by (rule view_other [OF inv(3) cc False]) (use u(1) r(1) in auto)
    then show ?thesis using False r(2) by auto
  qed
  then show "key_view sys' = (key_view sys)(key := \<lambda>a e. a = extend_attributes attr \<and> e = d)" by (rule ext)
qed

lemma created_inv:
  assumes "system_inv sys" "created sys key attr d sys'"
  shows "system_inv sys'" "key_view sys' = (key_view sys)(key := \<lambda>a e. a = extend_attributes attr \<and> e = d)"
    "\<not> key_view sys key a e"
  using created_volatile_inv [OF assms] created_persistent_inv [OF assms]
  by (cases "PSA_KEY_LIFETIME_IS_VOLATILE (attr_lifetime attr)"; simp)+

lemma adds_key_inv:
  assumes "system_inv sys" "adds_key sys key attr d sys'"
  shows "system_inv sys'" "key_view sys' = (key_view sys)(key := \<lambda>a e. a = extend_attributes attr \<and> e = d)"
    "\<not> key_view sys key a e"
proof -
  from assms(2) obtain sys1 where 1: "harmless sys sys1" "created sys1 key attr d sys'" by (auto simp: adds_key_def)
  note h = harmless_inv [OF assms(1) 1(1)]
  note created_inv [OF h(1) 1(2), unfolded h(2)]
  then show "system_inv sys'" "key_view sys' = (key_view sys)(key := \<lambda>a e. a = extend_attributes attr \<and> e = d)"
    "\<not> key_view sys key a e" by simp_all
qed

section \<open>Destruction\<close>

lemma found_lifetime:
  assumes i: "system_inv sys" and f: "found_key sys key s"
  shows "PSA_KEY_LIFETIME_IS_VOLATILE (attr_lifetime (slot_attr s)) \<longleftrightarrow> \<not> psa_key_id_is_user key"
proof -
  note inv = system_invD [OF i]
  from f consider r s0 where "holds_key (keystore sys) key r s0" "slot_attr s = slot_attr s0"
    | a d where "psa_key_id_is_user key" "stored_key (storage sys) key a d" "slot_attr s = extend_attributes a"
    unfolding found_key_def by (force simp: slot_simps loaded_slot_def)
  then show ?thesis
  proof cases
    case 2
    then show ?thesis using inv(4) by (auto simp: storage_sane_def)
  next
    case 1
    show ?thesis
    proof (cases "psa_key_id_is_user key")
      case True
      with 1(1) have k: "cached (keystore sys) r s0" "attr_id (slot_attr s0) = key" by (simp_all add: holds_user)
      from cache_coherentD(1) [OF inv(3) k(1)] k(2) obtain a d where "stored_key (storage sys) key a d"
        "slot_attr s0 = a \<or> slot_attr s0 = extend_attributes a" unfolding backed_def by blast
      then have "attr_lifetime (slot_attr s) = attr_lifetime a" "\<not> PSA_KEY_LIFETIME_IS_VOLATILE (attr_lifetime a)"
        using 1(2) inv(4) unfolding storage_sane_def by (auto 0 3)
      then show ?thesis using True by simp
    next
      case False
      note h = holds_other(2) [OF inv(3) False 1(1)]
      have "store_abs (keystore sys) r = Some s0" "slot_state s0 = PSA_SLOT_FULL" using 1(1) by (simp_all add: holds_key_def)
      then show ?thesis using False 1(2) h inv(5) unfolding volatile_slots_ok_def by metis
    qed
  qed
qed

text \<open>The effect of a destruction on the two places a key can be.\<close>

definition removes_key :: "psa_system \<Rightarrow> psa_key_id \<Rightarrow> psa_key_attributes \<Rightarrow> slot_ref \<Rightarrow> psa_system \<Rightarrow> psa_status \<Rightarrow> bool" where
  "removes_key sys key attr r sys' st \<longleftrightarrow>
     system_ok sys' \<and> lookup_place key r \<and> (PSA_KEY_LIFETIME_IS_READ_ONLY (attr_lifetime attr) \<longrightarrow> psa_key_id_is_user key) \<and>
     (\<forall>q t. cached (keystore sys) q t \<longrightarrow> q \<noteq> r \<longrightarrow> attr_id (slot_attr t) \<noteq> key) \<and>
     (\<forall>t. fst r < KEY_SLOT_VOLATILE_SLICE_COUNT \<longrightarrow> store_abs (keystore sys) r = Some t \<longrightarrow> attr_id (slot_attr t) = key) \<and>
     (\<exists>y. store_abs (keystore sys') = (store_abs (keystore sys))(r := y) \<and> (\<forall>s. y = Some s \<longrightarrow> slot_state s \<noteq> PSA_SLOT_FULL)) \<and>
     (if PSA_KEY_LIFETIME_IS_READ_ONLY (attr_lifetime attr)
      then st = PSA_ERROR_NOT_PERMITTED \<and> storage sys' = storage sys
      else st = PSA_SUCCESS \<and> no_faults (storage sys') \<and> its_abs (storage sys') = (if psa_key_id_is_user key
             then (its_abs (storage sys))(psa_its_identifier_of_slot key := None) else its_abs (storage sys)))"

lemma destroys_removes:
  assumes i: "system_inv sys" and c: "calm sys sys1" and l: "locked (keystore sys) (keystore sys1) r s"
    and co: "cache_coherent sys \<longrightarrow> cache_coherent sys1"
    and f: "found_key sys key s" and p: "lookup_place key r" and dst: "destroys sys1 r s sys' st"
  shows "removes_key sys key (slot_attr s) r sys' st"
proof -
  note inv = system_invD [OF i]
  let ?y = "if registered_readers s = 1 then None else Some (drop_reader (s\<lparr>slot_state := PSA_SLOT_PENDING_DELETION\<rparr>))"
  have id: "attr_id (slot_attr s) = key" using found_key_locked [OF f] by simp
  have s1: "store_abs (keystore sys1) = (store_abs (keystore sys))(r \<mapsto> s)" using l by (simp add: locked_def)
  have nf: "storage sys1 = storage sys" using c inv(2) by (simp add: calm_def)
  have "disk_ok (storage sys1)" "no_faults (storage sys1)" using inv(1,2) nf by (simp_all add: system_ok_def)
  from its_file.destroy_quiet [OF this, of key] obtain fs where d: "psa_destroy_persistent_key its_file_ops key (storage sys1) = (PSA_SUCCESS, fs)"
    "no_faults fs" "its_abs fs = (its_abs (storage sys1))(psa_its_identifier_of_slot key := None)" by metis
  have dd: "system_ok sys'" "store_abs (keystore sys') = (store_abs (keystore sys1))(r := ?y)"
    "if PSA_KEY_LIFETIME_IS_READ_ONLY (attr_lifetime (slot_attr s))
      then st = PSA_ERROR_NOT_PERMITTED \<and> storage sys' = storage sys1
      else if PSA_KEY_LIFETIME_IS_VOLATILE (attr_lifetime (slot_attr s))
      then st = PSA_SUCCESS \<and> storage sys' = storage sys1
      else psa_destroy_persistent_key its_file_ops (attr_id (slot_attr s)) (storage sys1) = (st, storage sys')"
    using dst by (simp_all add: destroys_def)
  have "store_abs (keystore sys') = (store_abs (keystore sys))(r := ?y)" unfolding dd(2) s1 by simp
  moreover have "\<forall>t. ?y = Some t \<longrightarrow> slot_state t \<noteq> PSA_SLOT_FULL" by (simp add: slot_simps)
  moreover have "if PSA_KEY_LIFETIME_IS_READ_ONLY (attr_lifetime (slot_attr s))
      then st = PSA_ERROR_NOT_PERMITTED \<and> storage sys' = storage sys
      else st = PSA_SUCCESS \<and> no_faults (storage sys') \<and> its_abs (storage sys') = (if psa_key_id_is_user key
             then (its_abs (storage sys))(psa_its_identifier_of_slot key := None) else its_abs (storage sys))"
    using dd(3) d unfolding id nf found_lifetime [OF i f] by (auto simp: inv(2) split: if_splits)
  moreover have "psa_key_id_is_user key" if "PSA_KEY_LIFETIME_IS_READ_ONLY (attr_lifetime (slot_attr s))"
    using that found_lifetime [OF i f] by (simp add: PSA_KEY_LIFETIME_IS_READ_ONLY_def PSA_KEY_LIFETIME_IS_VOLATILE_def)
  moreover have "attr_id (slot_attr t) = key" if "fst r < KEY_SLOT_VOLATILE_SLICE_COUNT" "store_abs (keystore sys) r = Some t" for t
    using that l id by (auto simp: locked_def reusable_def slot_simps)
  moreover have "attr_id (slot_attr t) \<noteq> key" if t: "cached (keystore sys) q t" "q \<noteq> r" for q t
  proof
    assume k: "attr_id (slot_attr t) = key"
    have "psa_key_id_is_user key" using cache_coherentD(1) [OF inv(3) t(1)] k by (simp add: backed_def)
    then have "fst r = KEY_SLOT_CACHE_SLICE_INDEX"
      using p psa_key_id_ranges_disjoint(1) [of key] by (simp add: lookup_place_def)
    then have "cached (keystore sys1) r s" using l by (simp add: cached_def locked_def)
    moreover have "cached (keystore sys1) q t" using t s1 by (simp add: cached_def)
    ultimately show False using cache_coherentD(2) co inv(3) id k t(2) by metis
  qed
  ultimately show ?thesis using dd(1) p unfolding removes_key_def by blast
qed

lemma removes_key_inv:
  assumes i: "system_inv sys" and rm: "removes_key sys key attr r sys' st"
  shows "system_inv sys'"
    "if PSA_KEY_LIFETIME_IS_READ_ONLY (attr_lifetime attr) then st = PSA_ERROR_NOT_PERMITTED \<and> key_view sys' = key_view sys
     else st = PSA_SUCCESS \<and> key_view sys' = (key_view sys)(key := \<lambda>_ _. False)"
proof -
  note inv = system_invD [OF i]
  let ?id = psa_its_identifier_of_slot
  let ?ro = "PSA_KEY_LIFETIME_IS_READ_ONLY (attr_lifetime attr)"
  obtain y where y: "store_abs (keystore sys') = (store_abs (keystore sys))(r := y)" "\<And>s. y = Some s \<Longrightarrow> slot_state s \<noteq> PSA_SLOT_FULL"
    using rm unfolding removes_key_def by blast
  have ok: "system_ok sys'" "lookup_place key r" "?ro \<Longrightarrow> psa_key_id_is_user key"
    "\<And>q t. cached (keystore sys) q t \<Longrightarrow> q \<noteq> r \<Longrightarrow> attr_id (slot_attr t) \<noteq> key"
    and own: "\<And>t. fst r < KEY_SLOT_VOLATILE_SLICE_COUNT \<Longrightarrow> store_abs (keystore sys) r = Some t \<Longrightarrow> attr_id (slot_attr t) = key"
    using rm unfolding removes_key_def by blast+
  have st: "if ?ro then st = PSA_ERROR_NOT_PERMITTED \<and> storage sys' = storage sys
      else st = PSA_SUCCESS \<and> no_faults (storage sys') \<and> its_abs (storage sys') = (if psa_key_id_is_user key
             then (its_abs (storage sys))(?id key := None) else its_abs (storage sys))"
    using rm unfolding removes_key_def by blast
  then have nf: "no_faults (storage sys')" using inv(2) by (simp split: if_splits)
  have o: "\<forall>w. w \<noteq> ?id key \<longrightarrow> its_abs (storage sys') w = its_abs (storage sys) w"
    using st by (simp split: if_splits)
  note other = stored_key_except [OF _ o]
  have cc: "cache_coherent sys'"
  proof (rule cache_coherent_upd [OF inv(3) y(1)])
    show "backed (storage sys') t" if "q \<noteq> r" "cached (keystore sys) q t" for q t
      by (rule backed_except [OF cache_coherentD(1) [OF inv(3) that(2)] ok(4) [OF that(2,1)] o])
  qed (use y(2) in blast)
  have gone: "\<not> stored_key (storage sys') key a d" if "\<not> ?ro" "psa_key_id_is_user key" for a d
    using that st by (simp add: stored_key_def)
  have stored: "stored_key (storage sys) k a d" if "stored_key (storage sys') k a d" for k a d
  proof (cases "k = key \<and> storage sys' \<noteq> storage sys")
    case False
    with that other [of k] show ?thesis by auto
  next
    case True
    with st have "\<not> ?ro" by auto
    with True gone that have "\<not> psa_key_id_is_user key" by blast
    with st \<open>\<not> ?ro\<close> have "its_abs (storage sys') = its_abs (storage sys)" by simp
    from stored_key_abs [OF this] that show ?thesis by simp
  qed
  have sane: "storage_sane (storage sys')" using inv(4) stored unfolding storage_sane_def by blast
  have vo: "volatile_slots_ok (keystore sys')"
    unfolding volatile_slots_ok_def
  proof (intro allI impI)
    fix q t assume t: "store_abs (keystore sys') q = Some t" "fst q < KEY_SLOT_VOLATILE_SLICE_COUNT" "slot_state t = PSA_SLOT_FULL"
    then have "q \<noteq> r" using y by auto
    then have "store_abs (keystore sys) q = Some t" using t(1) y(1) by simp
    then show "PSA_KEY_LIFETIME_IS_VOLATILE (attr_lifetime (slot_attr t))"
      using t(2,3) inv(5) unfolding volatile_slots_ok_def by blast
  qed
  show "system_inv sys'" using ok(1) nf cc sane vo by (simp add: system_inv_def)
  have same: "key_view sys' k = key_view sys k" if "k \<noteq> key \<or> psa_key_id_is_user key \<and> ?ro" for k
  proof (cases "psa_key_id_is_user k")
    case True
    then show ?thesis using that other [of k] st by (cases "k = key") (simp_all add: key_view_def fun_eq_iff)
  next
    case False
    then have ne: "k \<noteq> key" using that by blast
    have "holds_key (keystore sys') k q t \<longleftrightarrow> holds_key (keystore sys) k q t" for q t
    proof (cases "q = r")
      case q: True
      have "\<not> holds_key (keystore sys') k q t" using q y by (auto simp: holds_key_def)
      moreover have "\<not> holds_key (keystore sys) k q t"
      proof
        assume h: "holds_key (keystore sys) k q t"
        then have "store_abs (keystore sys) r = Some t" "attr_id (slot_attr t) = k" using q by (simp_all add: holds_key_def)
        moreover have "fst r < KEY_SLOT_VOLATILE_SLICE_COUNT" using holds_other(2) [OF inv(3) False h] q by simp
        ultimately show False using own ne by blast
      qed
      ultimately show ?thesis by blast
    next
      case q: False
      then show ?thesis by (simp add: holds_key_def y(1))
    qed
    then show ?thesis using False by (simp add: key_view_def fun_eq_iff)
  qed
  have gone_key: "\<not> key_view sys' key a d" if n: "\<not> ?ro" for a d
  proof (cases "psa_key_id_is_user key")
    case True
    with gone [OF n True] show ?thesis by (simp add: key_view_def)
  next
    case False
    have "\<not> holds_key (keystore sys') key q t" for q t
    proof
      assume h: "holds_key (keystore sys') key q t"
      have "q = r" using holds_other(1) [OF cc False h] h ok(2) volatile_place_unique
        unfolding holds_key_def by blast
      then show False using h y by (auto simp: holds_key_def)
    qed
    then show ?thesis using False by (simp add: key_view_def)
  qed
  show "if ?ro then st = PSA_ERROR_NOT_PERMITTED \<and> key_view sys' = key_view sys
     else st = PSA_SUCCESS \<and> key_view sys' = (key_view sys)(key := \<lambda>_ _. False)"
  proof (cases ?ro)
    case True
    have "key_view sys' = key_view sys" by (rule ext) (rule same, use ok(3) True in blast)
    then show ?thesis using True st by simp
  next
    case False
    have "key_view sys' k = ((key_view sys)(key := \<lambda>_ _. False)) k" for k
      using gone_key [OF False] same [of k] by (cases "k = key") (simp_all add: fun_eq_iff)
    then have "key_view sys' = (key_view sys)(key := \<lambda>_ _. False)" by (rule ext)
    then show ?thesis using False st by simp
  qed
qed

end
