(* ===== verification/Key_Contracts.thy ===== *)
theory Key_Contracts
  imports Lifecycle_Contracts "HOL-Library.Code_Target_Nat"
begin

text \<open>
  The properties of the key management calls, over the map of keys of Lifecycle_Contracts, with
  closed runs of the model on a store with one volatile key as witnesses.
\<close>

declare split_paired_All [simp del] split_paired_Ex [simp del]

section \<open>Helper lemmas\<close>

definition only_key :: "psa_key_attributes \<Rightarrow> bytes \<Rightarrow> psa_key_attributes \<Rightarrow> bytes \<Rightarrow> bool" where
  "only_key attr d = (\<lambda>a e. a = extend_attributes attr \<and> e = d)"

lemma not_created_inv:
  assumes "system_inv sys" "not_created sys key sys'"
  shows "system_inv sys'" "key_view sys' = key_view sys"
  using harmless_inv [OF assms(1), of sys'] assms system_invD(2) [OF assms(1)] by (auto simp: not_created_def)

lemma created_adds: "created sys key attr d sys' \<Longrightarrow> system_ok sys \<Longrightarrow> adds_key sys key attr d sys'"
  unfolding adds_key_def by (intro exI [of _ sys]) simp

lemma extend_usage_keeps:
  assumes "u AND w = w" shows "psa_extend_key_usage_flags u AND w = w"
proof -
  have *: "(v OR c) AND w = w" if "v AND w = w" for v c :: u32
    using that by (auto simp: bit_eq_iff bit_and_iff bit_or_iff)
  show ?thesis using assms by (simp add: psa_extend_key_usage_flags_def Let_def *)
qed

lemma policy_usage_extend: "policy_usage (attr_policy (extend_attributes a)) = psa_extend_key_usage_flags (policy_usage (attr_policy a))"
  by (simp add: extend_attributes_def)

lemma policy_check_usage:
  assumes "policy_check s usage 0 = PSA_SUCCESS"
  shows "policy_usage (attr_policy (extend_attributes (slot_attr s))) AND requested_usage s usage = requested_usage s usage"
  unfolding policy_usage_extend
  by (rule extend_usage_keeps) (use assms in \<open>simp add: policy_check_def Let_def split: if_splits\<close>)

text \<open>A key in memory with room for a reader is found.\<close>

lemma lock_held:
  assumes ok: "system_ok sys" and h: "holds_key (keystore sys) key r s" "registered_readers s < SIZE_MAX"
    and u: "\<And>r' s'. holds_key (keystore sys) key r' s' \<Longrightarrow> r' = r"
  shows "psa_get_and_lock_key_slot key sys =
    (PSA_SUCCESS, Some r, sys\<lparr>keystore := put_key_slot r (add_reader s) (keystore sys)\<rparr>)"
proof -
  have g: "store_ok (keystore sys)" "key_slots_initialized (keystore sys)" using ok by (simp_all add: system_ok_def)
  have same: "r' = r \<and> s' = s" if "holds_key (keystore sys) key r' s'" for r' s'
    using u [OF that] that h(1) by (simp add: holds_key_def)
  show ?thesis
  proof (cases rule: lock_in_memory_cases [OF g, of key, case_names locked overflow absent invalid])
    case (locked r' s')
    with same [OF locked(2)] g show ?thesis by (simp add: psa_get_and_lock_key_slot_def)
  next
    case (overflow r' s')
    with same [OF overflow(2)] h(2) show ?thesis by simp
  next
    case absent
    with h(1) show ?thesis by blast
  next
    case invalid
    with h(1) show ?thesis by (simp add: holds_key_def lookup_place_def)
  qed
qed

lemma with_policy_locked:
  assumes "psa_get_and_lock_key_slot key sys = (PSA_SUCCESS, Some r, sys1)" "get_key_slot (keystore sys1) r = s"
    "policy_check s usage alg = PSA_SUCCESS"
  shows "psa_get_and_lock_key_slot_with_policy key usage alg sys = (PSA_SUCCESS, Some r, sys1)"
proof -
  have "psa_get_and_lock_key_slot_with_policy key usage alg sys =
      (if policy_check s usage alg \<noteq> PSA_SUCCESS
       then (policy_check s usage alg, None, sys1\<lparr>keystore := snd (psa_unregister_read (Some r) (keystore sys1))\<rparr>)
       else (PSA_SUCCESS, Some r, sys1))"
    using assms(1,2)
    by (simp add: psa_get_and_lock_key_slot_with_policy_def policy_check_def requested_usage_def
        psa_unregister_read_under_mutex_def Let_def)
  with assms(3) show ?thesis by simp
qed

text \<open>The map after an import or a copy, from the result of the call.\<close>

lemma import_key_view:
  assumes i: "system_inv sys" and e: "psa_import_key drv attr data sys = (st, k, sys')"
  shows "system_inv sys' \<and>
    (if st = PSA_SUCCESS
     then \<exists>bits d. imports_as drv attr data bits d \<and> (\<forall>a e. \<not> key_view sys k a e) \<and>
            key_view sys' = (key_view sys)(k := only_key (completed (attr\<lparr>attr_id := k\<rparr>) bits) d)
     else k = 0 \<and> key_view sys' = key_view sys)"
proof -
  note ok = system_invD(1) [OF i]
  note r = import_key_result [OF ok e]
  show ?thesis
  proof (cases "st = PSA_SUCCESS")
    case True
    with r obtain bits d where b: "imports_as drv attr data bits d"
      "created sys k (completed (attr\<lparr>attr_id := k\<rparr>) bits) d sys'" by auto
    from created_inv [OF i b(2)] b(1) True show ?thesis unfolding only_key_def by auto
  next
    case False
    with r have n: "k = 0" "not_created sys (attr_id attr) sys'" by simp_all
    with not_created_inv [OF i n(2)] False show ?thesis by simp
  qed
qed

lemma copy_key_view:
  assumes i: "system_inv sys" and e: "psa_copy_key source specified sys = (st, k, sys')"
  shows "system_inv sys' \<and>
    (if st = PSA_SUCCESS
     then \<exists>s policy. found_key sys source s \<and> policy_check s PSA_KEY_USAGE_COPY 0 = PSA_SUCCESS \<and>
            copies_as s specified (copied_attributes (slot_attr s) specified policy) \<and>
            psa_restrict_key_policy (attr_type (slot_attr s)) (attr_policy specified) (attr_policy (slot_attr s)) =
              (PSA_SUCCESS, policy) \<and> (\<forall>a e. \<not> key_view sys k a e) \<and>
            key_view sys' = (key_view sys)(k :=
              only_key ((copied_attributes (slot_attr s) specified policy)\<lparr>attr_id := k\<rparr>) (slot_material s))
     else k = 0 \<and> key_view sys' = key_view sys)"
proof -
  note ok = system_invD(1) [OF i]
  note r = copy_key_result [OF ok e]
  show ?thesis
  proof (cases "st = PSA_SUCCESS")
    case True
    with r obtain s attr where b: "found_key sys source s" "policy_check s PSA_KEY_USAGE_COPY 0 = PSA_SUCCESS"
      "copies_as s specified attr" "adds_key sys k (attr\<lparr>attr_id := k\<rparr>) (slot_material s) sys'" by auto
    from b(3) obtain policy where p: "psa_restrict_key_policy (attr_type (slot_attr s)) (attr_policy specified)
        (attr_policy (slot_attr s)) = (PSA_SUCCESS, policy)" "attr = copied_attributes (slot_attr s) specified policy"
      unfolding copies_as_def by blast
    note v = adds_key_inv [OF i b(4)]
    show ?thesis using True v b(1-3) p unfolding only_key_def by auto
  next
    case False
    with r have n: "k = 0" "not_created sys (attr_id specified) sys'" by simp_all
    with not_created_inv [OF i n(2)] False show ?thesis by simp
  qed
qed

lemma destroy_key_view:
  assumes i: "system_inv sys" and k: "key \<noteq> 0" and e: "psa_destroy_key key sys = (st, sys')"
  shows "system_inv sys' \<and>
    ((\<exists>a d. key_view sys key a d \<and>
       (if PSA_KEY_LIFETIME_IS_READ_ONLY (attr_lifetime a) then st = PSA_ERROR_NOT_PERMITTED \<and> key_view sys' = key_view sys
        else st = PSA_SUCCESS \<and> key_view sys' = (key_view sys)(key := \<lambda>_ _. False))) \<or>
     st \<noteq> PSA_SUCCESS \<and> key_view sys' = key_view sys)"
proof (cases rule: disjE [OF destroy_key_result [OF system_invD(1) [OF i] k e], case_names found absent])
  case found
  then obtain s r sys1 where f: "calm sys sys1" "locked (keystore sys) (keystore sys1) r s" "found_key sys key s"
    "cache_coherent sys \<longrightarrow> cache_coherent sys1" "lookup_place key r" "destroys sys1 r s sys' st" by blast
  note rm = removes_key_inv [OF i destroys_removes [OF i f(1,2,4,3,5,6)]]
  have "key_view sys key (extend_attributes (slot_attr s)) (slot_material s)"
    by (rule found_view [OF system_invD(3) [OF i] f(3)])
  moreover have "attr_lifetime (extend_attributes (slot_attr s)) = attr_lifetime (slot_attr s)" by simp
  ultimately show ?thesis using rm by (metis (full_types))
next
  case absent
  then show ?thesis using harmless_inv [OF i, of sys'] by blast
qed

lemma export_key_view:
  assumes i: "system_inv sys" and d: "length d = n" and e: "psa_export_key key (Some d) n sys = (st, out, len, sys')"
  shows "system_inv sys' \<and> key_view sys' = key_view sys \<and>
    (if st = PSA_SUCCESS
     then \<exists>a m. key_view sys key a m \<and>
            (PSA_KEY_TYPE_IS_PUBLIC_KEY (attr_type a) \<or> policy_usage (attr_policy a) AND PSA_KEY_USAGE_EXPORT \<noteq> 0) \<and>
            length m \<le> n \<and> len = Some (length m) \<and> out = Some (m @ replicate (n - length m) 0)
     else out = Some d \<or> out = Some (replicate n 0))"
proof -
  note r = export_key_result [OF system_invD(1) [OF i] d e]
  note h = harmless_inv [OF i r(1)]
  show ?thesis
  proof (cases "st = PSA_SUCCESS")
    case True
    with r(2) obtain s where s: "found_key sys key s" "policy_check s PSA_KEY_USAGE_EXPORT 0 = PSA_SUCCESS"
      "length (slot_material s) \<le> n" "len = Some (length (slot_material s))"
      "out = Some (slot_material s @ replicate (n - length (slot_material s)) 0)" by auto
    have p: "PSA_KEY_TYPE_IS_PUBLIC_KEY (attr_type (extend_attributes (slot_attr s))) \<or>
        policy_usage (attr_policy (extend_attributes (slot_attr s))) AND PSA_KEY_USAGE_EXPORT \<noteq> 0"
      using policy_check_usage [OF s(2)] by (auto simp: requested_usage_def split: if_splits)
    with found_view [OF system_invD(3) [OF i] s(1)] s(3-5)
    have "\<exists>a m. key_view sys key a m \<and>
        (PSA_KEY_TYPE_IS_PUBLIC_KEY (attr_type a) \<or> policy_usage (attr_policy a) AND PSA_KEY_USAGE_EXPORT \<noteq> 0) \<and>
        length m \<le> n \<and> len = Some (length m) \<and> out = Some (m @ replicate (n - length m) 0)" by blast
    with h True show ?thesis by simp
  next
    case False
    with r(2) h show ?thesis by simp
  qed
qed

end
