(* ===== verification/Key_Properties.thy ===== *)
theory Key_Properties
  imports Key_Contracts Slot_Readers
begin

text \<open>
  The properties of the key management calls over the map of keys, with closed runs of the model
  as witnesses: an application imports a volatile key into a fresh system and uses it.
\<close>

declare split_paired_All [simp del] split_paired_Ex [simp del]

section \<open>A run of the model\<close>

definition demo_drivers :: asymmetric_drivers where
  "demo_drivers = \<lparr>import_asymmetric = \<lambda>_ _ _. (PSA_ERROR_NOT_SUPPORTED, [], 0),
     export_asymmetric_public = \<lambda>_ _ _. (PSA_ERROR_NOT_SUPPORTED, [])\<rparr>"

definition demo_attributes :: "psa_key_id \<Rightarrow> u16 \<Rightarrow> psa_key_attributes" where
  "demo_attributes key bits = PSA_KEY_ATTRIBUTES_INIT\<lparr>attr_id := key, attr_type := PSA_KEY_TYPE_HMAC, attr_bits := bits,
     attr_policy := \<lparr>policy_usage = 3, policy_alg = 0x03800009, policy_alg2 = 0\<rparr>\<rparr>"

definition fresh_system :: psa_system where
  "fresh_system = \<lparr>keystore = snd (psa_initialize_key_slots (psa_global_data_zero [])),
     storage = \<lparr>disk = \<lambda>_. None, io_outcomes = []\<rparr>\<rparr>"

definition demo_system :: psa_system where
  "demo_system = \<lparr>keystore = demo_store \<lparr>slot_attr = demo_attributes 0x40000000 24, slot_state = PSA_SLOT_FULL,
       slot_slice_index = 0, slot_var = 0, slot_key_data = Some [1, 2, 3], slot_key_bytes = 3\<rparr>,
     storage = storage fresh_system\<rparr>"

lemma fresh_inv: "system_inv fresh_system"
proof -
  obtain st g where g: "psa_initialize_key_slots (psa_global_data_zero []) = (st, g)" by (meson surj_pair)
  have "key_slices (psa_global_data_zero []) ! KEY_SLOT_CACHE_SLICE_INDEX = None"
    by (simp add: psa_global_data_zero_def)
  from initialize_ok [OF store_ok_zero this g] demo_init g
  have k: "store_ok g" "key_slots_initialized g" "store_abs g = (\<lambda>_. None)" by (simp_all add: store_abs_zero)
  have s: "fresh_system = \<lparr>keystore = g, storage = \<lparr>disk = \<lambda>_. None, io_outcomes = []\<rparr>\<rparr>"
    by (simp add: fresh_system_def g)
  show ?thesis
    unfolding system_inv_def s
    by (simp add: system_ok_def k no_faults_def cache_coherent_def cached_def storage_sane_def stored_key_def
        volatile_slots_ok_def disk_ok_def its_abs_def)
qed

lemma demo_import: "psa_import_key demo_drivers (demo_attributes 0 0) [1, 2, 3] fresh_system = (PSA_SUCCESS, 0x40000000, demo_system)"
proof -
  obtain st k sys where e: "psa_import_key demo_drivers (demo_attributes 0 0) [1, 2, 3] fresh_system = (st, k, sys)" by (rule prod_cases3)
  have "(let (st, k, sys) = psa_import_key demo_drivers (demo_attributes 0 0) [1, 2, 3] fresh_system
     in st = PSA_SUCCESS \<and> k = 0x40000000 \<and> keystore sys = keystore demo_system)" by code_simp
  then have s: "st = PSA_SUCCESS" "k = 0x40000000" "keystore sys = keystore demo_system" by (simp_all add: e)
  have v: "PSA_KEY_LIFETIME_IS_VOLATILE (attr_lifetime (demo_attributes 0 0))" by code_simp
  from import_key_result [OF system_invD(1) [OF fresh_inv] e] s(1) obtain bits d
    where "created fresh_system k (completed ((demo_attributes 0 0)\<lparr>attr_id := k\<rparr>) bits) d sys" by auto
  then have "storage sys = storage fresh_system" using v by (simp add: created_def)
  then have "sys = demo_system" using s(3) by (simp add: demo_system_def)
  with e s show ?thesis by simp
qed

lemma demo_inv: "system_inv demo_system"
  using import_key_view [OF fresh_inv demo_import] by simp

lemma demo_found:
  assumes "found_key demo_system 0x40000000 s"
  shows "slot_attr s = demo_attributes 0x40000000 24"
proof -
  have k: "psa_key_id_is_volatile 0x40000000" "\<not> psa_key_id_is_user 0x40000000" "lookup_place 0x40000000 (0, 0)" by code_simp+
  from assms k(2) obtain r s0 where h: "holds_key (keystore demo_system) 0x40000000 r s0" "s = add_reader s0"
    unfolding found_key_def by blast
  have "r = (0, 0)" using h(1) k(3) volatile_place_unique [OF k(1)] by (simp add: holds_key_def)
  then have "get_key_slot (keystore demo_system) (0, 0) = s0"
    using h(1) by (auto simp: holds_key_def dest: store_abs_SomeD)
  then show ?thesis using h(2) unfolding demo_system_def by (auto simp: demo_get slot_simps)
qed

lemma copied_with_id:
  "(copied_attributes a specified policy)\<lparr>attr_id := k\<rparr> =
    specified\<lparr>attr_id := k, attr_type := attr_type a, attr_bits := attr_bits a, attr_policy := policy\<rparr>"
  by (cases specified) (simp add: copied_attributes_def)

section \<open>Properties\<close>

text \<open>C2: Importing a key refines the map of keys: on success the map gains exactly one entry, under an
  identifier that was free, with the requested attributes (completed with the size) and the imported
  material; on failure the map is unchanged and no identifier is returned. The invariant of the system is
  kept. It says that the store is well formed, that the cache agrees with the storage, and that no call of
  the C library on a file fails (allocations may); what a failing fopen does is proved of the storage alone.\<close>

theorem import_refines:
  assumes "system_inv sys" "psa_import_key drv attr data sys = (st, k, sys')"
  shows "system_inv sys' \<and>
    (if st = PSA_SUCCESS
     then \<exists>bits d. imports_as drv attr data bits d \<and> (\<forall>a e. \<not> key_view sys k a e) \<and>
            key_view sys' = (key_view sys)(k := only_key (completed (attr\<lparr>attr_id := k\<rparr>) bits) d)
     else k = 0 \<and> key_view sys' = key_view sys)"
  by (rule import_key_view [OF assms])

lemma import_refines_witness:
  "\<exists>bits d. imports_as demo_drivers (demo_attributes 0 0) [1, 2, 3] bits d \<and>
     key_view demo_system = (key_view fresh_system)(0x40000000 :=
       only_key (completed ((demo_attributes 0 0)\<lparr>attr_id := 0x40000000\<rparr>) bits) d)"
  using import_refines [OF fresh_inv demo_import] by auto

text \<open>C6: Copying a key refines the map of keys: a success needs the copy permission of the source and adds
  exactly one entry, under a free identifier, with the material, the type and the size of the source, the
  lifetime that was asked for, and as policy the intersection of the requested policy and the policy of the
  source: the usage flags of both, and in each of its two slots the intersection of their algorithms (the
  map shows usage flags with the flags that they imply). On failure the map is unchanged. The source keeps
  its entry. The invariant of the system that this starts from says that no call of the C library on a
  file fails.\<close>

theorem copy_refines:
  assumes "system_inv sys" "psa_copy_key source specified sys = (st, k, sys')"
  shows "system_inv sys' \<and>
    (if st = PSA_SUCCESS
     then \<exists>a d p. key_view sys source a d \<and> (\<forall>a e. \<not> key_view sys k a e) \<and>
            policy_usage (attr_policy a) AND PSA_KEY_USAGE_COPY = PSA_KEY_USAGE_COPY \<and>
            attr_policy a = p\<lparr>policy_usage := psa_extend_key_usage_flags (policy_usage p)\<rparr> \<and>
            key_view sys' = (key_view sys)(k := only_key (specified\<lparr>attr_id := k, attr_type := attr_type a, attr_bits := attr_bits a,
              attr_policy := \<lparr>policy_usage = policy_usage (attr_policy specified) AND policy_usage p,
                policy_alg = psa_key_policy_algorithm_intersection (attr_type a) (policy_alg (attr_policy specified)) (policy_alg p),
                policy_alg2 = psa_key_policy_algorithm_intersection (attr_type a) (policy_alg2 (attr_policy specified)) (policy_alg2 p)\<rparr>\<rparr>) d)
     else k = 0 \<and> key_view sys' = key_view sys)"
proof (cases "st = PSA_SUCCESS")
  case True
  with copy_key_view [OF assms] obtain s policy where r: "system_inv sys'" "found_key sys source s"
    "policy_check s PSA_KEY_USAGE_COPY 0 = PSA_SUCCESS" "\<forall>a e. \<not> key_view sys k a e"
    "psa_restrict_key_policy (attr_type (slot_attr s)) (attr_policy specified) (attr_policy (slot_attr s)) = (PSA_SUCCESS, policy)"
    "key_view sys' = (key_view sys)(k :=
       only_key ((copied_attributes (slot_attr s) specified policy)\<lparr>attr_id := k\<rparr>) (slot_material s))" by auto
  let ?a = "extend_attributes (slot_attr s)" and ?p = "attr_policy (slot_attr s)"
  have "requested_usage s PSA_KEY_USAGE_COPY = PSA_KEY_USAGE_COPY" by (simp add: requested_usage_def)
  then have u: "policy_usage (attr_policy ?a) AND PSA_KEY_USAGE_COPY = PSA_KEY_USAGE_COPY"
    using policy_check_usage [OF r(3)] by simp
  have v: "key_view sys source ?a (slot_material s)"
    by (rule found_view [OF system_invD(3) [OF assms(1)] r(2)])
  have p: "attr_policy ?a = ?p\<lparr>policy_usage := psa_extend_key_usage_flags (policy_usage ?p)\<rparr>"
    by (simp add: extend_attributes_def)
  have "key_view sys' = (key_view sys)(k := only_key (specified\<lparr>attr_id := k, attr_type := attr_type ?a, attr_bits := attr_bits ?a,
      attr_policy := \<lparr>policy_usage = policy_usage (attr_policy specified) AND policy_usage ?p,
        policy_alg = psa_key_policy_algorithm_intersection (attr_type ?a) (policy_alg (attr_policy specified)) (policy_alg ?p),
        policy_alg2 = psa_key_policy_algorithm_intersection (attr_type ?a) (policy_alg2 (attr_policy specified)) (policy_alg2 ?p)\<rparr>\<rparr>)
      (slot_material s))"
    unfolding r(6) restricted_policy [OF r(5)] copied_with_id by simp
  with r(1,4) u v p show ?thesis unfolding if_P [OF True] by blast
next
  case False
  with copy_key_view [OF assms] show ?thesis by simp
qed

lemma copy_refines_witness:
  "\<exists>a d k sys'. psa_copy_key 0x40000000 (demo_attributes 0 0) demo_system = (PSA_SUCCESS, k, sys') \<and>
     key_view demo_system 0x40000000 a d \<and> system_inv sys'"
proof -
  obtain st k sys' where e: "psa_copy_key 0x40000000 (demo_attributes 0 0) demo_system = (st, k, sys')" by (rule prod_cases3)
  have "fst (psa_copy_key 0x40000000 (demo_attributes 0 0) demo_system) = PSA_SUCCESS" by code_simp
  then have "st = PSA_SUCCESS" by (simp add: e)
  with copy_refines [OF demo_inv e] e show ?thesis by auto
qed

text \<open>C4: A copy never grants what its source refuses: whatever policy is requested, an algorithm that an
  operation can ask for (not zero, no wildcard, and a MAC no longer than its full length; operations
  refuse the others) and that the policy of the copy permits is permitted by the policy of the source and
  by the requested one, and the usage flags of the copy are those of both, with the flags that
  \<open>psa_extend_key_usage_flags\<close> adds to any policy (signing a message with signing a hash). The invariant of
  the system that this starts from says that no call of the C library on a file fails.\<close>

theorem copy_never_widens:
  assumes "system_inv sys" "psa_copy_key source specified sys = (PSA_SUCCESS, k, sys')"
    and "key_view sys' k c e" "proper_request (attr_type c) alg"
    and "psa_key_policy_permits (attr_policy c) (attr_type c) alg = PSA_SUCCESS"
  shows "\<exists>a d. key_view sys source a d \<and>
    psa_key_policy_permits (attr_policy a) (attr_type c) alg = PSA_SUCCESS \<and>
    psa_key_policy_permits (attr_policy specified) (attr_type c) alg = PSA_SUCCESS \<and>
    (\<exists>u. policy_usage (attr_policy c) = psa_extend_key_usage_flags (policy_usage (attr_policy specified) AND u) \<and>
         policy_usage (attr_policy a) = psa_extend_key_usage_flags u)"
proof -
  from copy_key_view [OF assms(1,2)] obtain s policy where r: "found_key sys source s"
    "psa_restrict_key_policy (attr_type (slot_attr s)) (attr_policy specified) (attr_policy (slot_attr s)) = (PSA_SUCCESS, policy)"
    "key_view sys' = (key_view sys)(k :=
       only_key ((copied_attributes (slot_attr s) specified policy)\<lparr>attr_id := k\<rparr>) (slot_material s))" by auto
  let ?a = "extend_attributes (slot_attr s)"
  have c: "c = extend_attributes ((copied_attributes (slot_attr s) specified policy)\<lparr>attr_id := k\<rparr>)"
    using assms(3) unfolding r(3) by (simp add: only_key_def)
  then have ct: "attr_type c = attr_type (slot_attr s)" by simp
  have perm: "psa_key_policy_permits (p\<lparr>policy_usage := u\<rparr>) kt alg = psa_key_policy_permits p kt alg" for p u kt
    by (simp add: psa_key_policy_permits_def)
  have ext: "psa_key_policy_permits (attr_policy (extend_attributes b)) kt alg = psa_key_policy_permits (attr_policy b) kt alg" for b kt
    by (simp add: extend_attributes_def perm)
  have "psa_key_policy_permits policy (attr_type (slot_attr s)) alg = PSA_SUCCESS"
    using assms(5) unfolding c ext by simp
  from restrict_sound [OF r(2) assms(4) [unfolded ct] this]
  have "psa_key_policy_permits (attr_policy ?a) (attr_type c) alg = PSA_SUCCESS"
    "psa_key_policy_permits (attr_policy specified) (attr_type c) alg = PSA_SUCCESS"
    "policy_usage policy = policy_usage (attr_policy specified) AND policy_usage (attr_policy (slot_attr s))"
    unfolding ct ext by simp_all
  moreover have "policy_usage (attr_policy c) = psa_extend_key_usage_flags (policy_usage policy)"
    by (simp add: c policy_usage_extend)
  moreover note policy_usage_extend [of "slot_attr s"] found_view [OF system_invD(3) [OF assms(1)] r(1)]
  ultimately show ?thesis by metis
qed

lemma copy_never_widens_witness:
  "\<exists>k sys' c e. psa_copy_key 0x40000000 (demo_attributes 0 0) demo_system = (PSA_SUCCESS, k, sys') \<and> key_view sys' k c e \<and>
     psa_key_policy_permits (attr_policy (demo_attributes 0 0)) (attr_type c) 0x03800009 = PSA_SUCCESS"
proof -
  obtain st k sys' where e: "psa_copy_key 0x40000000 (demo_attributes 0 0) demo_system = (st, k, sys')" by (rule prod_cases3)
  have "fst (psa_copy_key 0x40000000 (demo_attributes 0 0) demo_system) = PSA_SUCCESS" by code_simp
  then have st: "st = PSA_SUCCESS" by (simp add: e)
  from copy_key_view [OF demo_inv e] st obtain s policy where s: "found_key demo_system 0x40000000 s"
    "psa_restrict_key_policy (attr_type (slot_attr s)) (attr_policy (demo_attributes 0 0)) (attr_policy (slot_attr s)) =
       (PSA_SUCCESS, policy)"
    "key_view sys' = (key_view demo_system)(k :=
       only_key ((copied_attributes (slot_attr s) (demo_attributes 0 0) policy)\<lparr>attr_id := k\<rparr>) (slot_material s))" by auto
  let ?c = "extend_attributes ((copied_attributes (slot_attr s) (demo_attributes 0 0) policy)\<lparr>attr_id := k\<rparr>)"
  have v: "key_view sys' k ?c (slot_material s)" by (simp add: s(3) only_key_def)
  have "psa_restrict_key_policy PSA_KEY_TYPE_HMAC \<lparr>policy_usage = 3, policy_alg = 0x03800009, policy_alg2 = 0\<rparr>
      \<lparr>policy_usage = 3, policy_alg = 0x03800009, policy_alg2 = 0\<rparr> =
    (PSA_SUCCESS, \<lparr>policy_usage = 3, policy_alg = 0x03800009, policy_alg2 = 0\<rparr>)" by code_simp
  then have p: "policy = \<lparr>policy_usage = 3, policy_alg = 0x03800009, policy_alg2 = 0\<rparr>" and ty: "attr_type ?c = PSA_KEY_TYPE_HMAC"
    using s(2) by (simp_all add: demo_found [OF s(1)] demo_attributes_def)
  have "proper_request PSA_KEY_TYPE_HMAC 0x03800009" by code_simp
  moreover have "psa_key_policy_permits \<lparr>policy_usage = psa_extend_key_usage_flags 3, policy_alg = 0x03800009, policy_alg2 = 0\<rparr>
      PSA_KEY_TYPE_HMAC 0x03800009 = PSA_SUCCESS" by code_simp
  then have "psa_key_policy_permits (attr_policy ?c) PSA_KEY_TYPE_HMAC 0x03800009 = PSA_SUCCESS"
    by (simp add: p extend_attributes_def)
  ultimately show ?thesis
    using copy_never_widens [OF demo_inv e [unfolded st] v, unfolded ty] e st v ty by (metis (no_types, lifting))
qed

text \<open>C3: Destroying a key refines the map of keys: a success removes exactly its entry, wherever the key was
  (volatile slice, cache or storage only), and with readers left the key is gone for every later call;
  a read-only key is refused and keeps its entry; every other failure leaves the map as it was. The
  invariant of the system that this starts from says that no call of the C library on a file fails.\<close>

theorem destroy_refines:
  assumes "system_inv sys" "key \<noteq> 0" "psa_destroy_key key sys = (st, sys')"
  shows "system_inv sys' \<and>
    ((\<exists>a d. key_view sys key a d \<and>
       (if PSA_KEY_LIFETIME_IS_READ_ONLY (attr_lifetime a) then st = PSA_ERROR_NOT_PERMITTED \<and> key_view sys' = key_view sys
        else st = PSA_SUCCESS \<and> key_view sys' = (key_view sys)(key := \<lambda>_ _. False))) \<or>
     st \<noteq> PSA_SUCCESS \<and> key_view sys' = key_view sys)"
  by (rule destroy_key_view [OF assms])

lemma destroy_refines_witness:
  "\<exists>sys'. psa_destroy_key 0x40000000 demo_system = (PSA_SUCCESS, sys') \<and> system_inv sys' \<and>
     (\<forall>a d. \<not> key_view sys' 0x40000000 a d)"
proof -
  obtain st sys' where e: "psa_destroy_key 0x40000000 demo_system = (st, sys')" by (meson surj_pair)
  have "fst (psa_destroy_key 0x40000000 demo_system) = PSA_SUCCESS" by code_simp
  then have "st = PSA_SUCCESS" by (simp add: e)
  with destroy_refines [OF demo_inv _ e] e show ?thesis by (auto split: if_splits)
qed

text \<open>C7: Exporting a key returns its entry of the map and nothing else: a success needs the export permission
  (or a public key), and writes the key material followed by zeros; on any failure the output buffer is
  as it was or all zero, so no part of a key leaks. The map is unchanged. The invariant of the system that
  this starts from says that no call of the C library on a file fails.\<close>

theorem export_reads_view:
  assumes "system_inv sys" "length d = n" "psa_export_key key (Some d) n sys = (st, out, len, sys')"
  shows "system_inv sys' \<and> key_view sys' = key_view sys \<and>
    (if st = PSA_SUCCESS
     then \<exists>a m. key_view sys key a m \<and>
            (PSA_KEY_TYPE_IS_PUBLIC_KEY (attr_type a) \<or> policy_usage (attr_policy a) AND PSA_KEY_USAGE_EXPORT \<noteq> 0) \<and>
            length m \<le> n \<and> len = Some (length m) \<and> out = Some (m @ replicate (n - length m) 0)
     else out = Some d \<or> out = Some (replicate n 0))"
  by (rule export_key_view [OF assms])

lemma export_reads_view_witness:
  "\<exists>sys' len out. psa_export_key 0x40000000 (Some [9, 9, 9, 9]) 4 demo_system = (PSA_SUCCESS, out, len, sys') \<and>
     (\<exists>a m. key_view demo_system 0x40000000 a m \<and> out = Some (m @ replicate (4 - length m) 0))"
proof -
  obtain st out len sys' where e: "psa_export_key 0x40000000 (Some [9, 9, 9, 9]) 4 demo_system = (st, out, len, sys')"
    by (rule prod_cases4)
  have "fst (psa_export_key 0x40000000 (Some [9, 9, 9, 9]) 4 demo_system) = PSA_SUCCESS" by code_simp
  then have "st = PSA_SUCCESS" by (simp add: e)
  with export_reads_view [OF demo_inv _ e] e show ?thesis by auto
qed

text \<open>C16: What is imported can be exported: after a successful import of an unstructured key with the export
  permission, an export into a buffer that is large enough succeeds, if its buffer allocation does, and
  returns the imported bytes. The invariant of the system that this starts from says that no call of the C
  library on a file fails.\<close>

theorem import_then_export:
  assumes "system_inv sys" "psa_import_key drv attr data sys = (PSA_SUCCESS, k, sys')"
    and "key_type_is_raw_bytes (attr_type attr)" "policy_usage (attr_policy attr) AND PSA_KEY_USAGE_EXPORT = PSA_KEY_USAGE_EXPORT"
    and "length buf = n" "length data \<le> n" "\<not> next_calloc_fails (keystore sys')"
  shows "\<exists>sys''. psa_export_key k (Some buf) n sys' =
      (PSA_SUCCESS, Some (data @ replicate (n - length data) 0), Some (length data), sys'') \<and>
    key_view sys'' = key_view sys'"
proof -
  from import_key_result [OF system_invD(1) [OF assms(1)] assms(2)] obtain bits d
    where im: "imports_as drv attr data bits d" and cr: "created sys k (completed (attr\<lparr>attr_id := k\<rparr>) bits) d sys'" by auto
  have inv: "system_inv sys'" using import_key_view [OF assms(1,2)] by simp
  note ok = system_invD(1) [OF inv]
  let ?a = "completed (attr\<lparr>attr_id := k\<rparr>) bits"
  note raw = imports_as_raw [OF im assms(3)]
  from im have loc: "PSA_KEY_LIFETIME_GET_LOCATION (attr_lifetime attr) = PSA_KEY_LOCATION_LOCAL_STORAGE" by (simp add: imports_as_def)
  have n0: "data \<noteq> []" using assms(2) by (auto simp: psa_import_key_def)
  from created_place [OF cr] obtain r s where s: "fresh_place sys ?a r k" "store_abs (keystore sys') = (store_abs (keystore sys))(r \<mapsto> s)"
    "idle s" "slot_attr s = ?a" "slot_material s = d" by metis
  have h: "holds_key (keystore sys') k r s"
    using s psa_key_id_ranges_disjoint(1) [of k]
    by (auto simp: holds_key_def idle_def fresh_place_def lookup_place_def split: if_splits)
  have rr: "registered_readers s < SIZE_MAX" using s(3) by (simp add: idle_def SIZE_MAX_def)
  let ?s = "add_reader s" and ?sys1 = "sys'\<lparr>keystore := put_key_slot r (add_reader s) (keystore sys')\<rparr>"
  have lk: "psa_get_and_lock_key_slot k sys' = (PSA_SUCCESS, Some r, ?sys1)"
    by (rule lock_held [OF ok h rr]) (rule holder_unique(1) [OF system_invD(3) [OF inv] h])
  have get: "get_key_slot (put_key_slot r ?s (keystore sys')) r = ?s"
    using h by (auto simp: slot_simps holds_key_def dest: store_abs_SomeD)
  have pc: "policy_check ?s PSA_KEY_USAGE_EXPORT 0 = PSA_SUCCESS"
    using assms(4) s(4) by (simp add: policy_check_def requested_usage_def slot_simps)
  let ?f = "\<lambda>slot. psa_driver_wrapper_export_key (slot_attr slot) (slot_material slot)"
  have sm: "slot_attr ?s = ?a" "slot_material ?s = data" using s(4,5) raw(1) by (simp_all add: slot_simps slot_material_def)
  show ?thesis
  proof (cases rule: with_policy_result [OF ok, of k PSA_KEY_USAGE_EXPORT 0, case_names got refused failed])
    case (got r' s' sys1)
    have e: "psa_get_and_lock_key_slot k sys' = (PSA_SUCCESS, Some r', sys1)"
      using got(1) by (auto simp: psa_get_and_lock_key_slot_with_policy_def Let_def split: prod.splits if_splits)
    from trans [OF sym [OF e] lk] have r: "r' = r" "sys1 = ?sys1" by blast+
    have s': "s' = ?s"
      using locked_get [OF got(3)] r get by simp
    obtain st out len sys'' where x: "psa_export_key k (Some buf) n sys' = (st, out, len, sys'')" by (rule prod_cases4)
    have n: "0 < n" "n \<noteq> 0" using n0 assms(5,6) by (cases data, simp_all)+
    have e1: "export_tail ?f (Some buf) n r' sys1 = (st, out, len, sys'')"
      using psa_export_key_locked [OF n(2) got(1), of "Some buf"] x by simp
    have fl: "\<forall>buf st b k. ?f s' buf 0 = (st, b, k) \<longrightarrow> length b = length buf" using driver_export_length by blast
    have "\<not> next_calloc_fails (keystore sys1)" using assms(7) by (simp add: r(2) next_calloc_fails_def slot_simps)
    with export_tail_result [OF got(3,2,5) assms(5) n(1) fl e1]
    have hh: "harmless sys' sys''" and res: "\<exists>b k. ?f s' (replicate n 0) 0 = (st, b, k) \<and> out = Some b \<and> len = Some k" by blast+
    have "?f s' (replicate n 0) 0 = (PSA_SUCCESS, data @ replicate (n - length data) 0, length data)"
      using loc assms(3,6) unfolding s' sm
      by (simp add: psa_driver_wrapper_export_key_def psa_export_key_internal_def psa_export_key_buffer_internal_def)
    with res x harmless_inv(2) [OF inv hh] show ?thesis by auto
  next
    case (refused st s' sys1)
    have "psa_get_and_lock_key_slot_with_policy k PSA_KEY_USAGE_EXPORT 0 sys' = (PSA_SUCCESS, Some r, ?sys1)"
      by (rule with_policy_locked [OF lk _ pc]) (simp add: get)
    with refused show ?thesis by simp
  next
    case (failed st sys1)
    with lk show ?thesis by simp
  qed
qed

lemma import_then_export_witness:
  "\<exists>sys''. psa_export_key 0x40000000 (Some [9, 9, 9, 9]) 4 demo_system = (PSA_SUCCESS, Some [1, 2, 3, 0], Some 3, sys'')"
proof -
  have "key_type_is_raw_bytes (attr_type (demo_attributes 0 0))"
    "policy_usage (attr_policy (demo_attributes 0 0)) AND PSA_KEY_USAGE_EXPORT = PSA_KEY_USAGE_EXPORT" by code_simp+
  moreover have "\<not> next_calloc_fails (keystore demo_system)"
    by (simp add: demo_system_def demo_store_def next_calloc_fails_def)
  ultimately show ?thesis using import_then_export [OF fresh_inv demo_import, of "[9, 9, 9, 9]" 4] by auto
qed

text \<open>C18: No call disturbs a key in use, whatever calls to the allocator or the C library fail: a slot that is
  locked, being filled or marked for deletion is exactly as it was after an import, a copy, an export or a
  query, so no lock on such a slot is leaked or lost, and volatile keys stay in place.\<close>

theorem no_lock_disturbed:
  assumes "system_ok sys" "store_abs (keystore sys) r = Some s" "\<not> idle s \<or> fst r < KEY_SLOT_VOLATILE_SLICE_COUNT" "length d = n"
  shows "store_abs (keystore (snd (snd (psa_import_key drv attr data sys)))) r = Some s \<and>
    store_abs (keystore (snd (snd (psa_copy_key key attr sys)))) r = Some s \<and>
    store_abs (keystore (snd (snd (snd (psa_export_key key (Some d) n sys))))) r = Some s \<and>
    store_abs (keystore (snd (snd (psa_get_key_attributes key sys)))) r = Some s"
proof -
  have t: "store_abs (keystore sys') r = Some s" if "transparent (keystore sys) (keystore sys')" for sys'
  proof -
    from that consider "store_abs (keystore sys') r = store_abs (keystore sys) r" | "reusable (keystore sys) r"
      unfolding transparent_def by blast
    then show ?thesis using assms(2,3) by cases (auto simp: reusable_def)
  qed
  have h: "store_abs (keystore sys') r = Some s" if "harmless sys sys'" for sys'
    by (rule t) (use that in \<open>simp add: harmless_def\<close>)
  have n: "store_abs (keystore sys') r = Some s" if "not_created sys i sys'" for sys' i
    by (rule t) (use that in \<open>simp add: not_created_def\<close>)
  have c: "store_abs (keystore sys') r = Some s" if cr: "created sys1 k a e sys'" and h1: "harmless sys sys1" for sys' sys1 k a e
  proof (rule created_place [OF cr])
    fix q t assume q: "fresh_place sys1 a q k" "store_abs (keystore sys') = (store_abs (keystore sys1))(q \<mapsto> t)"
    note s1 = h [OF h1]
    have "q \<noteq> r" using q(1) s1 assms(3) by (auto simp: fresh_place_def reusable_def split: if_splits)
    then show ?thesis using q(2) s1 by simp
  qed
  obtain st1 k1 sys1 where e1: "psa_import_key drv attr data sys = (st1, k1, sys1)" by (rule prod_cases3)
  obtain st2 k2 sys2 where e2: "psa_copy_key key attr sys = (st2, k2, sys2)" by (rule prod_cases3)
  obtain st3 o3 l3 sys3 where e3: "psa_export_key key (Some d) n sys = (st3, o3, l3, sys3)" by (rule prod_cases4)
  obtain st4 a4 sys4 where e4: "psa_get_key_attributes key sys = (st4, a4, sys4)" by (rule prod_cases3)
  have "store_abs (keystore sys1) r = Some s"
  proof (cases "st1 = PSA_SUCCESS")
    case True
    with import_key_result [OF assms(1) e1] obtain b e where "created sys k1 (completed (attr\<lparr>attr_id := k1\<rparr>) b) e sys1" by auto
    from c [OF this harmless_refl [OF assms(1)]] show ?thesis .
  next
    case False
    with import_key_result [OF assms(1) e1] have "not_created sys (attr_id attr) sys1" by simp
    then show ?thesis by (rule n)
  qed
  moreover have "store_abs (keystore sys2) r = Some s"
  proof (cases "st2 = PSA_SUCCESS")
    case True
    with copy_key_result [OF assms(1) e2] obtain a e where "adds_key sys k2 a e sys2" by auto
    then obtain sys5 where "created sys5 k2 a e sys2" "harmless sys sys5" by (auto simp: adds_key_def)
    then show ?thesis by (rule c)
  next
    case False
    with copy_key_result [OF assms(1) e2] have "not_created sys (attr_id attr) sys2" by simp
    then show ?thesis by (rule n)
  qed
  ultimately show ?thesis
    using h [OF export_key_result(1) [OF assms(1,4) e3]] h [OF get_key_attributes_result(1) [OF assms(1) e4]] e1 e2 e3 e4 by simp
qed

lemma no_lock_disturbed_witness:
  "store_abs (keystore (snd (snd (psa_copy_key 0x40000000 (demo_attributes 0 0) demo_system)))) (0, 0) =
     store_abs (keystore demo_system) (0, 0)"
proof -
  have "store_abs (keystore demo_system) (0, 0) = Some (get_key_slot (keystore demo_system) (0, 0))"
    by (simp add: demo_system_def store_abs_def valid_ref_def demo_get) (simp add: demo_store_def)
  from no_lock_disturbed [OF system_invD(1) [OF demo_inv] this, of "[]" 0] show ?thesis
    by (simp add: \<open>store_abs (keystore demo_system) (0, 0) = Some (get_key_slot (keystore demo_system) (0, 0))\<close>)
qed

text \<open>Purging is invisible to the application: it only empties a cache slot nobody reads, and the map of keys
  stays as it was.\<close>

theorem purge_invisible:
  assumes "system_inv sys" "psa_purge_key key (keystore sys) = (st, g)"
  shows "system_inv (sys\<lparr>keystore := g\<rparr>) \<and> key_view (sys\<lparr>keystore := g\<rparr>) = key_view sys"
proof -
  note inv = system_invD [OF assms(1)]
  have ok: "store_ok (keystore sys)" "key_slots_initialized (keystore sys)" "disk_ok (storage sys)"
    using inv(1) by (simp_all add: system_ok_def)
  have "harmless sys (sys\<lparr>keystore := g\<rparr>)"
  proof (cases rule: lock_in_memory_cases [OF ok(1,2), of key, case_names locked overflow absent invalid])
    case (locked r s)
    let ?g1 = "put_key_slot r (add_reader s) (keystore sys)"
    have h: "store_abs (keystore sys) r = Some s" "slot_state s = PSA_SLOT_FULL" using locked(2) by (simp_all add: holds_key_def)
    note l = lock_found [OF ok(1) h locked(3)]
    have g1: "store_abs ?g1 r = Some (add_reader s)" "get_key_slot ?g1 r = add_reader s"
      using l(2) h(1) by (simp_all add: slot_simps store_abs_SomeD)
    have rs: "registered_readers (add_reader s) = registered_readers s + 1" using locked(3) by (simp add: slot_simps)
    have eq: "psa_purge_key key (keystore sys) =
        (if \<not> PSA_KEY_LIFETIME_IS_VOLATILE (attr_lifetime (slot_attr s)) \<and> registered_readers s = 0
         then psa_wipe_key_slot r ?g1 else psa_unregister_read (Some r) ?g1)"
      using locked(1) g1(2) rs by (simp add: psa_purge_key_def slot_simps)
    show ?thesis
    proof (cases "\<not> PSA_KEY_LIFETIME_IS_VOLATILE (attr_lifetime (slot_attr s)) \<and> registered_readers s = 0")
      case True
      have "fst r = KEY_SLOT_CACHE_SLICE_INDEX"
        using locked(2) True inv(5) h by (auto simp: holds_key_def lookup_place_def volatile_slots_ok_def split: if_splits)
      then have ru: "reusable (keystore sys) r" using True h by (simp add: reusable_def idle_def)
      have "wipeable (add_reader s)" using True rs h(2) by (simp add: wipeable_def slot_simps)
      from wipe_refines [OF l(1) g1(1) this] obtain g' where w: "psa_wipe_key_slot r ?g1 = (PSA_SUCCESS, g')" "store_ok g'"
        "store_abs g' = (store_abs ?g1)(r := None)" "key_slots_initialized g' = key_slots_initialized ?g1" by blast
      have u: "store_abs g' = (store_abs (keystore sys))(r := None)" using w(3) l(2) by simp
      have g: "g = g'" using assms(2) eq True w(1) by simp
      have "transparent (keystore sys) g'" by (rule transparent_at [OF u ru]) simp
      moreover have "cache_coherent (sys\<lparr>keystore := g'\<rparr>)"
        by (rule cache_coherent_at [OF inv(3), of _ r None]) (simp_all add: u)
      ultimately show ?thesis using w ok unfolding g by (simp add: harmless_def calm_def system_ok_def slot_simps)
    next
      case False
      note ul = unlock_full [OF l(1) g1(1)]
      have full: "slot_state (add_reader s) = PSA_SLOT_FULL" "registered_readers (add_reader s) > 0" using h rs by (simp_all add: slot_simps)
      note ul = ul [OF full]
      have g: "g = put_key_slot r (drop_reader (add_reader s)) ?g1" using assms(2) eq False ul(1) by auto
      have "store_abs g = store_abs (keystore sys)"
        using ul(3) l(2) drop_add_reader [OF locked(3)] h(1) unfolding g by auto
      moreover have "system_ok (sys\<lparr>keystore := g\<rparr>)" using ul(2,4) ok unfolding g by (simp add: system_ok_def slot_simps)
      ultimately show ?thesis by (intro harmless_refused) simp_all
    qed
  qed (use assms(2) inv(1) in \<open>auto simp: psa_purge_key_def\<close>)
  from harmless_inv [OF assms(1) this] show ?thesis by simp
qed

lemma purge_invisible_witness:
  "\<exists>st g. psa_purge_key 0x40000000 (keystore demo_system) = (st, g) \<and>
     key_view (demo_system\<lparr>keystore := g\<rparr>) = key_view demo_system"
proof -
  obtain st g where e: "psa_purge_key 0x40000000 (keystore demo_system) = (st, g)" by (meson surj_pair)
  with purge_invisible [OF demo_inv e] show ?thesis by blast
qed

text \<open>C22: Persistent keys survive a restart and nothing else does: after the store is shut down and initialised
  again, if its allocation succeeds, every key with a user identifier has the entry it had, and every
  volatile key is gone. The invariant of the system that this starts from says that no call of the C library
  on a file fails.\<close>

theorem restart_keeps_persistent_keys:
  assumes "system_inv sys" "\<not> next_calloc_fails (keystore sys)"
  shows "\<exists>g. psa_initialize_key_slots (psa_wipe_all_key_slots (keystore sys)) = (PSA_SUCCESS, g) \<and>
    system_inv (sys\<lparr>keystore := g\<rparr>) \<and>
    (\<forall>key. key_view (sys\<lparr>keystore := g\<rparr>) key =
       (if psa_key_id_is_user key then key_view sys key else (\<lambda>_ _. False)))"
proof -
  note inv = system_invD [OF assms(1)]
  let ?z = "psa_global_data_zero (calloc_outcomes (keystore sys))"
  have z: "psa_wipe_all_key_slots (keystore sys) = ?z" by (rule wipe_all_result) (use inv(1) in \<open>simp add: system_ok_def\<close>)
  obtain st g where g: "psa_initialize_key_slots ?z = (st, g)" by (meson surj_pair)
  have c: "key_slices ?z ! KEY_SLOT_CACHE_SLICE_INDEX = None" by (simp add: psa_global_data_zero_def)
  have "fst (mbedtls_calloc (calloc_outcomes (keystore sys)))" using assms(2) by (simp add: next_calloc_fails_def)
  then have st: "st = PSA_SUCCESS"
    using g by (auto simp: psa_initialize_key_slots_def psa_global_data_zero_def Let_def split: prod.splits)
  with initialize_ok [OF store_ok_zero c g] have k: "store_ok g" "key_slots_initialized g" "store_abs g = (\<lambda>_. None)"
    by (simp_all add: store_abs_zero)
  let ?sys = "sys\<lparr>keystore := g\<rparr>"
  have i: "system_inv ?sys" using inv by (simp add: system_inv_def system_ok_def k cache_coherent_def cached_def volatile_slots_ok_def)
  have "key_view ?sys key = (if psa_key_id_is_user key then key_view sys key else (\<lambda>_ _. False))" for key
    by (simp add: key_view_def fun_eq_iff holds_key_def k)
  with i z g st show ?thesis by simp
qed

lemma restart_keeps_persistent_keys_witness:
  "\<exists>g. psa_initialize_key_slots (psa_wipe_all_key_slots (keystore demo_system)) = (PSA_SUCCESS, g) \<and>
     (\<forall>a d. \<not> key_view (demo_system\<lparr>keystore := g\<rparr>) 0x40000000 a d)"
proof -
  have "\<not> next_calloc_fails (keystore demo_system)" by (simp add: demo_system_def demo_store_def next_calloc_fails_def)
  moreover have "\<not> psa_key_id_is_user 0x40000000" by code_simp
  ultimately show ?thesis using restart_keeps_persistent_keys [OF demo_inv] by force
qed

text \<open>Querying attributes returns the entry of the map of keys and changes nothing; a failed query returns
  the initial attributes.\<close>

theorem attributes_read_view:
  assumes "system_inv sys" "psa_get_key_attributes key sys = (st, attr, sys')"
  shows "system_inv sys' \<and> key_view sys' = key_view sys \<and>
    (if st = PSA_SUCCESS then \<exists>a d. key_view sys key a d \<and> extend_attributes attr = a else attr = PSA_KEY_ATTRIBUTES_INIT)"
proof -
  note r = get_key_attributes_result [OF system_invD(1) [OF assms(1)] assms(2)]
  note h = harmless_inv [OF assms(1) r(1)]
  show ?thesis using h r(2) found_view [OF system_invD(3) [OF assms(1)]] by (auto split: if_splits)
qed

lemma attributes_read_view_witness:
  "\<exists>attr sys' a d. psa_get_key_attributes 0x40000000 demo_system = (PSA_SUCCESS, attr, sys') \<and>
     key_view demo_system 0x40000000 a d \<and> extend_attributes attr = a"
proof -
  obtain st attr sys' where e: "psa_get_key_attributes 0x40000000 demo_system = (st, attr, sys')" by (rule prod_cases3)
  have "fst (psa_get_key_attributes 0x40000000 demo_system) = PSA_SUCCESS" by code_simp
  then have "st = PSA_SUCCESS" by (simp add: e)
  with attributes_read_view [OF demo_inv e] e show ?thesis by auto
qed

end
