(* ===== verification/Block_Hash.thy ===== *)
theory Block_Hash
  imports Prelude
begin

text \<open>
  The buffering shared by the block hash functions of drivers/builtin/src (md5.c, sha1.c,
  ripemd160.c, sha256.c, sha512.c): each of these files has its own copy of the same update
  function, over its own block size, word size and compression function, which are parameters
  here. The invariant \<open>absorbed\<close> relates a context to the message it has been fed, and the
  update and finish functions are proved against the padding of the standards (RFC 1321 and
  FIPS 180-4, section 5.1).
\<close>

section \<open>Contexts and operations\<close>

text \<open>The fields of a hash context: the byte counter, the chaining state and the pending bytes.\<close>

record 'w hash_context =
  total0 :: 'w
  total1 :: 'w
  hash_state :: "'w list"
  hash_buffer :: bytes

text \<open>\<open>memcpy (buffer + ofs, src, length src)\<close> for a copy that stays inside the buffer.\<close>

definition buffer_put :: "nat \<Rightarrow> bytes \<Rightarrow> bytes \<Rightarrow> bytes" where
  "buffer_put ofs src buf = take ofs buf @ src @ drop (ofs + length src) buf"

text \<open>
  The loop over the full blocks of the input. \<open>process\<close> returns the return code and the new
  state; the result is the return code, the state and the input that is left.
\<close>

function process_blocks ::
    "nat \<Rightarrow> ('s \<Rightarrow> bytes \<Rightarrow> int \<times> 's) \<Rightarrow> 's \<Rightarrow> bytes \<Rightarrow> int \<times> 's \<times> bytes" where
  "process_blocks B process state input =
    (if B = 0 \<or> length input < B then (0, state, input)
     else
       let (ret, state) = process state (take B input) in
       if ret \<noteq> 0 then (ret, state, input)
       else process_blocks B process state (drop B input))"
  by auto
termination by (relation "measure (\<lambda>(B, _, _, input). length input)") auto

declare process_blocks.simps [simp del]

definition hash_update ::
    "nat \<Rightarrow> ('w::len word list \<Rightarrow> bytes \<Rightarrow> int \<times> 'w word list) \<Rightarrow> ('w word, 'z) hash_context_scheme \<Rightarrow> bytes \<Rightarrow>
     int \<times> ('w word, 'z) hash_context_scheme" where
  "hash_update B process ctx input =
    (if length input = 0 then (0, ctx)
     else
       let left = unat (total0 ctx AND (word_of_nat B - 1));
           fill = B - left;
           ctx = ctx\<lparr>total0 := total0 ctx + word_of_nat (length input)\<rparr>;
           ctx = (if total0 ctx < word_of_nat (length input) then ctx\<lparr>total1 := total1 ctx + 1\<rparr> else ctx);
           (ret, ctx, input, left) =
             (if left \<noteq> 0 \<and> length input \<ge> fill then
                let ctx = ctx\<lparr>hash_buffer := buffer_put left (take fill input) (hash_buffer ctx)\<rparr>;
                    (ret, state) = process (hash_state ctx) (hash_buffer ctx)
                in (ret, ctx\<lparr>hash_state := state\<rparr>, drop fill input, 0)
              else (0, ctx, input, left))
       in if ret \<noteq> 0 then (ret, ctx)
          else
            let (ret, state, input) = process_blocks B process (hash_state ctx) input;
                ctx = ctx\<lparr>hash_state := state\<rparr>
            in if ret \<noteq> 0 then (ret, ctx)
               else if length input > 0
               then (0, ctx\<lparr>hash_buffer := buffer_put left input (hash_buffer ctx)\<rparr>)
               else (0, ctx))"

text \<open>
  The padding of the last blocks, up to and with the processing of the last block: \<open>L\<close> is the
  size of the length field and \<open>put_length high low\<close> its encoding.
\<close>

definition hash_finish_blocks ::
    "nat \<Rightarrow> nat \<Rightarrow> ('w::len word \<Rightarrow> 'w word \<Rightarrow> bytes) \<Rightarrow> ('w word list \<Rightarrow> bytes \<Rightarrow> int \<times> 'w word list) \<Rightarrow>
     ('w word, 'z) hash_context_scheme \<Rightarrow> int \<times> ('w word, 'z) hash_context_scheme" where
  "hash_finish_blocks B L put_length process ctx =
    (let used = unat (total0 ctx AND (word_of_nat B - 1));
         ctx = ctx\<lparr>hash_buffer := (hash_buffer ctx)[used := 0x80]\<rparr>;
         used = used + 1;
         (ret, ctx) =
           (if used \<le> B - L
            then (0, ctx\<lparr>hash_buffer := buffer_put used (replicate (B - L - used) 0) (hash_buffer ctx)\<rparr>)
            else
              let ctx = ctx\<lparr>hash_buffer := buffer_put used (replicate (B - used) 0) (hash_buffer ctx)\<rparr>;
                  (ret, state) = process (hash_state ctx) (hash_buffer ctx);
                  ctx = ctx\<lparr>hash_state := state\<rparr>
              in if ret \<noteq> 0 then (ret, ctx)
                 else (0, ctx\<lparr>hash_buffer := buffer_put 0 (replicate (B - L) 0) (hash_buffer ctx)\<rparr>))
     in if ret \<noteq> 0 then (ret, ctx)
        else
          let high = drop_bit (LENGTH('w) - 3) (total0 ctx) OR push_bit 3 (total1 ctx);
              low = push_bit 3 (total0 ctx);
              ctx = ctx\<lparr>hash_buffer := buffer_put (B - L) (put_length high low) (hash_buffer ctx)\<rparr>;
              (ret, state) = process (hash_state ctx) (hash_buffer ctx)
          in (ret, ctx\<lparr>hash_state := state\<rparr>))"

text \<open>A caller that feeds a message in pieces and stops at the first error.\<close>

fun hash_updates :: "('c \<Rightarrow> bytes \<Rightarrow> int \<times> 'c) \<Rightarrow> 'c \<Rightarrow> bytes list \<Rightarrow> int \<times> 'c" where
  "hash_updates upd ctx [] = (0, ctx)"
| "hash_updates upd ctx (input # inputs) =
    (let (ret, ctx) = upd ctx input in if ret \<noteq> 0 then (ret, ctx) else hash_updates upd ctx inputs)"

lemma hash_updates_one: "hash_updates upd ctx [input] = (0, ctx') \<longleftrightarrow> upd ctx input = (0, ctx')"
  by (cases "upd ctx input") auto

section \<open>The standards\<close>

text \<open>Folding a compression function over the full blocks of a message.\<close>

function absorb :: "nat \<Rightarrow> ('s \<Rightarrow> bytes \<Rightarrow> 's) \<Rightarrow> 's \<Rightarrow> bytes \<Rightarrow> 's" where
  "absorb B compress s m =
     (if B = 0 \<or> length m < B then s else absorb B compress (compress s (take B m)) (drop B m))"
  by auto
termination by (relation "measure (\<lambda>(B, _, _, m). length m)") auto

declare absorb.simps [simp del]

text \<open>
  The padding of a message of \<open>n\<close> bytes: a one bit, zeros up to the length field, and the length
  in bits in \<open>L\<close> bytes.
\<close>

definition md_padding :: "nat \<Rightarrow> nat \<Rightarrow> (nat \<Rightarrow> bytes) \<Rightarrow> nat \<Rightarrow> bytes" where
  "md_padding B L encode n = 0x80 # replicate ((2 * B - L - 1 - n mod B) mod B) 0 @ encode (8 * n)"

definition md_hash :: "nat \<Rightarrow> nat \<Rightarrow> (nat \<Rightarrow> bytes) \<Rightarrow> ('s \<Rightarrow> bytes \<Rightarrow> 's) \<Rightarrow> 's \<Rightarrow> bytes \<Rightarrow> 's" where
  "md_hash B L encode compress iv m = absorb B compress iv (m @ md_padding B L encode (length m))"

definition big_endian :: "nat \<Rightarrow> nat \<Rightarrow> bytes" where
  "big_endian k n = map (\<lambda>i. word_of_nat (n div 256 ^ (k - 1 - i))) [0..<k]"

definition little_endian :: "nat \<Rightarrow> nat \<Rightarrow> bytes" where
  "little_endian k n = map (\<lambda>i. word_of_nat (n div 256 ^ i)) [0..<k]"

lemma absorb_short: "length m < B \<Longrightarrow> absorb B f s m = s"
  by (simp add: absorb.simps)

lemma absorb_block: "0 < B \<Longrightarrow> length b = B \<Longrightarrow> absorb B f s (b @ m) = absorb B f (f s b) m"
  by (subst absorb.simps) simp

lemma absorb_append:
  assumes "B dvd length a" "0 < B"
  shows "absorb B f s (a @ b) = absorb B f (absorb B f s a) b"
  using assms(1)
proof (induction "length a" arbitrary: a s rule: less_induct)
  case less
  show ?case
  proof (cases "length a < B")
    case True
    with less.prems have "a = []" using nat_dvd_not_less by fastforce
    then show ?thesis using assms(2) by (simp add: absorb_short)
  next
    case False
    let ?x = "take B a" and ?y = "drop B a"
    have x: "length ?x = B" and a: "a = ?x @ ?y" using False by simp_all
    have "B dvd length ?y" using less.prems by simp
    then have "absorb B f (f s ?x) (?y @ b) = absorb B f (absorb B f (f s ?x) ?y) b"
      using False assms(2) by (intro less.hyps) simp_all
    moreover have "absorb B f s (a @ b) = absorb B f (f s ?x) (?y @ b)"
      using absorb_block [OF assms(2) x, of f s "?y @ b"] by (metis a append_assoc)
    moreover have "absorb B f s a = absorb B f (f s ?x) ?y"
      using absorb_block [OF assms(2) x, of f s ?y] a by simp
    ultimately show ?thesis by simp
  qed
qed

lemma absorb_remainder:
  assumes "B dvd length a" "0 < B" "length r < B"
  shows "absorb B f s (a @ r) = absorb B f s a"
  using assms by (simp add: absorb_append absorb_short)

text \<open>Compression functions that agree on the states that occur give the same hash.\<close>

lemma absorb_cong:
  assumes "\<And>s d. P s \<Longrightarrow> f s d = g s d" "\<And>s d. P s \<Longrightarrow> P (g s d)" "P s"
  shows "absorb B f s m = absorb B g s m"
  using assms(3)
proof (induction "length m" arbitrary: m s rule: less_induct)
  case less
  show ?case
  proof (cases "B = 0 \<or> length m < B")
    case True
    then show ?thesis by (simp add: absorb.simps)
  next
    case False
    then have "absorb B f (g s (take B m)) (drop B m) = absorb B g (g s (take B m)) (drop B m)"
      using less.prems assms(2) by (intro less.hyps) auto
    then show ?thesis using False less.prems assms(1) by (simp add: absorb.simps [of B _ s m])
  qed
qed

lemma absorb_induct_state:
  assumes "\<And>s d. P s \<Longrightarrow> P (f s d)" "P s"
  shows "P (absorb B f s m)"
  using assms(2)
proof (induction "length m" arbitrary: m s rule: less_induct)
  case less
  show ?case
  proof (cases "B = 0 \<or> length m < B")
    case True
    then show ?thesis using less.prems by (simp add: absorb.simps)
  next
    case False
    then have "P (absorb B f (f s (take B m)) (drop B m))" using less.prems assms(1) by (intro less.hyps) auto
    then show ?thesis using False by (simp add: absorb.simps [of B f s m])
  qed
qed

lemma process_blocks_absorb:
  assumes "\<And>s d. process s d = (0, f s d)" "0 < B"
  shows "process_blocks B process s m = (0, absorb B f s m, drop (length m - length m mod B) m)"
proof (induction "length m" arbitrary: m s rule: less_induct)
  case less
  show ?case
  proof (cases "length m < B")
    case True
    then show ?thesis by (simp add: process_blocks.simps absorb_short)
  next
    case False
    have "length (drop B m) < length m" using assms(2) False by simp
    note ih = less.hyps [OF this, of "f s (take B m)"]
    have d: "(length m - B) mod B = length m mod B" using False by (simp add: le_mod_geq)
    have "length m - length m mod B = length m div B * B" by (simp add: minus_mod_eq_div_mult)
    moreover have "1 \<le> length m div B" using False assms(2) by (simp add: div_greater_zero_iff Suc_le_eq)
    ultimately have "B \<le> length m - length m mod B" by (metis mult_le_mono1 mult_1)
    then have "length m - B - length m mod B + B = length m - length m mod B" by simp
    then show ?thesis
      using False ih assms(2)
      by (simp add: process_blocks.simps [of B _ s m] absorb.simps [of B f s m] assms(1) d)
  qed
qed

section \<open>The update function\<close>

lemma length_buffer_put: "ofs + length src \<le> length buf \<Longrightarrow> length (buffer_put ofs src buf) = length buf"
  by (simp add: buffer_put_def)

lemma take_buffer_put: "ofs \<le> length buf \<Longrightarrow> take (ofs + length src) (buffer_put ofs src buf) = take ofs buf @ src"
  by (simp add: buffer_put_def)

lemma buffer_put_twice:
  "length a = n \<Longrightarrow> n + length b \<le> length buf \<Longrightarrow> buffer_put n b (buffer_put 0 a buf) = buffer_put 0 (a @ b) buf"
  by (simp add: buffer_put_def add.commute)

lemma length_concat_words:
  "length (concat (map put_uint32_be ws)) = 4 * length ws" "length (concat (map put_uint64_be vs)) = 8 * length vs"
  by (induction ws, simp_all) (induction vs, simp_all)

text \<open>A two-word counter.\<close>

lemma count_step_nat:
  fixes W t0 t1 m l :: nat
  assumes "t0 < W" "t1 < W" "l < W" "t1 * W + t0 = m mod (W * W)"
  shows "(if (t0 + l) mod W < l then (t1 + 1) mod W else t1) * W + (t0 + l) mod W = (m + l) mod (W * W)"
proof -
  have gen: "(x * W + r) mod (W * W) = x mod W * W + r" if "r < W" for x r
    using that by (simp add: mod_mult2_eq)
  have eq: "(m + l) mod (W * W) = (t1 * W + t0 + l) mod (W * W)" using assms(4) by (metis mod_add_left_eq)
  show ?thesis
  proof (cases "t0 + l < W")
    case True
    have "t1 * W + (t0 + l) < t1 * W + W" using True by simp
    also have "\<dots> \<le> W * W" using assms(2) by (metis Suc_leI add.commute mult_Suc mult_le_mono1)
    finally show ?thesis using eq True by (simp add: add.assoc)
  next
    case False
    then have u: "(t0 + l) mod W = t0 + l - W" using assms(1,3) by (simp add: mod_if)
    have t: "t1 * W + t0 + l = (t1 + 1) * W + (t0 + l - W)" using False by simp
    have r: "t0 + l - W < W" using assms(1,3) by simp
    have "((t1 + 1) * W + (t0 + l - W)) mod (W * W) = (t1 + 1) mod W * W + (t0 + l - W)"
      by (rule gen [OF r])
    moreover have "t0 + l - W < l" using assms(1) False by simp
    ultimately show ?thesis using eq t u by simp
  qed
qed

text \<open>The last bytes of a message, and its remainder after the full blocks.\<close>

lemma drop_last: "k \<le> length y \<Longrightarrow> drop (length (x @ y) - k) (x @ y) = drop (length y - k) y"
  by simp

lemma length_mod_add:
  fixes a b m :: nat
  shows "(a - a mod m + b) mod m = b mod m"
  by (simp add: minus_mod_eq_mult_div)

text \<open>
  A hash function over \<open>B\<close>-byte blocks with words of type \<open>'w\<close>: the code's \<open>process\<close> never fails
  and computes \<open>compress\<close>, and the length field is written as the standard encodes it.
\<close>

locale block_hash =
  fixes B L :: nat and process :: "'w::len word list \<Rightarrow> bytes \<Rightarrow> int \<times> 'w word list"
    and compress :: "'w word list \<Rightarrow> bytes \<Rightarrow> 'w word list"
    and put_length :: "'w word \<Rightarrow> 'w word \<Rightarrow> bytes" and encode :: "nat \<Rightarrow> bytes" and iv :: "'w word list"
  assumes process: "process s d = (0, compress s d)"
    and block_size: "\<exists>k. B = 2 ^ k \<and> k \<le> LENGTH('w)" and field_size: "L + 1 < B" "3 \<le> LENGTH('w)"
    and encode: "length (encode n) = L"
      "put_length (word_of_nat (n div 2 ^ LENGTH('w))) (word_of_nat n) = encode n"
begin

text \<open>The context \<open>ctx\<close> has been fed the message \<open>M\<close>.\<close>

definition absorbed :: "('w word, 'z) hash_context_scheme \<Rightarrow> bytes \<Rightarrow> bool" where
  "absorbed ctx M \<longleftrightarrow>
     hash_state ctx = absorb B compress iv M \<and>
     unat (total1 ctx) * 2 ^ LENGTH('w) + unat (total0 ctx) = length M mod 2 ^ (2 * LENGTH('w)) \<and>
     length (hash_buffer ctx) = B \<and>
     take (length M mod B) (hash_buffer ctx) = drop (length M - length M mod B) M"

lemma B_pos [simp]: "0 < B"
  using field_size(1) by simp

lemma B_dvd: "B dvd 2 ^ LENGTH('w)"
  using block_size by (auto simp: le_imp_power_dvd)

lemma mask_B: "unat (t AND (word_of_nat B - 1)) = unat t mod B" for t :: "'w word"
proof -
  obtain k where k: "B = 2 ^ k" "k \<le> LENGTH('w)" using block_size by blast
  have "word_of_nat B - 1 = (mask k :: 'w word)" by (simp add: k mask_eq_decr_exp)
  then show ?thesis using k by (simp add: flip: take_bit_eq_mask) (simp add: unsigned_take_bit_eq take_bit_nat_def k)
qed

lemma absorbed_left:
  assumes "absorbed ctx M"
  shows "unat (total0 ctx AND (word_of_nat B - 1)) = length M mod B"
proof -
  have "unat (total0 ctx) < 2 ^ LENGTH('w)" by (rule unsigned_less)
  have "unat (total0 ctx) mod B = (unat (total1 ctx) * 2 ^ LENGTH('w) + unat (total0 ctx)) mod B"
    using B_dvd by (metis dvd_mult mod_add_left_eq mod_0_imp_dvd add_0 dvd_imp_mod_0)
  also have "\<dots> = length M mod 2 ^ (2 * LENGTH('w)) mod B" using assms by (simp add: absorbed_def)
  also have "\<dots> = length M mod B"
    using B_dvd by (intro mod_mod_cancel) (simp add: mult_2 power_add)
  finally show ?thesis by (simp add: mask_B)
qed

text \<open>The byte counter: exact as long as each input is shorter than the words of the counter can count.\<close>

lemma count_step:
  fixes t0 t1 i :: "'w word" and m l :: nat
  assumes "unat t1 * 2 ^ LENGTH('w) + unat t0 = m mod 2 ^ (2 * LENGTH('w))" "l < 2 ^ LENGTH('w)" "i = word_of_nat l"
  shows "unat (if t0 + i < i then t1 + 1 else t1) * 2 ^ LENGTH('w) + unat (t0 + i) = (m + l) mod 2 ^ (2 * LENGTH('w))"
proof -
  have i: "unat i = l" using assms(2,3) by (simp add: unat_of_nat)
  have "unat (t0 + i) = (unat t0 + l) mod 2 ^ LENGTH('w)" "unat (t1 + 1) = (unat t1 + 1) mod 2 ^ LENGTH('w)"
    by (simp_all add: unat_word_ariths i)
  moreover have "2 ^ (2 * LENGTH('w)) = (2 ^ LENGTH('w) * 2 ^ LENGTH('w) :: nat)" by (simp add: mult_2 power_add)
  moreover have "t0 + i < i \<longleftrightarrow> unat (t0 + i) < l" by (simp add: word_less_nat_alt i)
  ultimately show ?thesis
    using count_step_nat [of "unat t0" "2 ^ LENGTH('w)" "unat t1" l m] assms(1,2) unsigned_less [of t0] unsigned_less [of t1]
    by auto
qed


lemma absorbed_absorb:
  assumes "absorbed ctx M"
  shows "absorb B compress iv (M @ x) = absorb B compress (hash_state ctx) (take (length M mod B) (hash_buffer ctx) @ x)"
proof -
  let ?n = "length M - length M mod B"
  have "length (take ?n M) = ?n" by simp
  then have d: "B dvd length (take ?n M)" unfolding minus_mod_eq_mult_div by simp
  have r: "length (drop ?n M) < B" by simp
  have s: "hash_state ctx = absorb B compress iv (take ?n M)"
    using absorb_remainder [OF d B_pos r, of compress iv] assms by (simp add: absorbed_def)
  have "M @ x = take ?n M @ (drop ?n M @ x)" by simp
  then have "absorb B compress iv (M @ x) = absorb B compress (absorb B compress iv (take ?n M)) (drop ?n M @ x)"
    by (metis absorb_append [OF d B_pos])
  then show ?thesis using s assms by (simp add: absorbed_def)
qed

text \<open>The update function without its error branches, which \<open>process\<close> never takes.\<close>

definition counted :: "('w word, 'z) hash_context_scheme \<Rightarrow> nat \<Rightarrow> ('w word, 'z) hash_context_scheme" where
  "counted ctx l =
    (let ctx' = ctx\<lparr>total0 := total0 ctx + word_of_nat l\<rparr>
     in if total0 ctx' < word_of_nat l then ctx'\<lparr>total1 := total1 ctx' + 1\<rparr> else ctx')"

lemma counted_simps:
  "hash_state (counted ctx l) = hash_state ctx" "hash_buffer (counted ctx l) = hash_buffer ctx"
  "total0 (counted ctx l) = total0 ctx + word_of_nat l"
  "total1 (counted ctx l) = (if total0 ctx + word_of_nat l < word_of_nat l then total1 ctx + 1 else total1 ctx)"
  by (simp_all add: counted_def Let_def)

definition put_nonempty :: "nat \<Rightarrow> bytes \<Rightarrow> bytes \<Rightarrow> bytes" where
  "put_nonempty ofs q buf = (if q = [] then buf else buffer_put ofs q buf)"

definition rest_of :: "bytes \<Rightarrow> bytes" where
  "rest_of m = drop (length m - length m mod B) m"

lemma hash_update_eq:
  assumes "input \<noteq> []"
  shows "hash_update B process ctx input =
    (let left = unat (total0 ctx AND (word_of_nat B - 1)); fill = B - left; c = counted ctx (length input)
     in if left \<noteq> 0 \<and> length input \<ge> fill
        then let block = buffer_put left (take fill input) (hash_buffer ctx); rest = drop fill input
             in (0, c\<lparr>hash_buffer := put_nonempty 0 (rest_of rest) block,
                      hash_state := absorb B compress (compress (hash_state ctx) block) rest\<rparr>)
        else (0, c\<lparr>hash_buffer := put_nonempty left (rest_of input) (hash_buffer ctx),
                   hash_state := absorb B compress (hash_state ctx) input\<rparr>))"
proof -
  have c: "(if total0 (ctx\<lparr>total0 := total0 ctx + word_of_nat (length input)\<rparr>) < word_of_nat (length input)
        then (ctx\<lparr>total0 := total0 ctx + word_of_nat (length input)\<rparr>)
          \<lparr>total1 := total1 (ctx\<lparr>total0 := total0 ctx + word_of_nat (length input)\<rparr>) + 1\<rparr>
        else ctx\<lparr>total0 := total0 ctx + word_of_nat (length input)\<rparr>) = counted ctx (length input)"
    by (simp add: counted_def Let_def)
  have pb: "process_blocks B process s m = (0, absorb B compress s m, rest_of m)" for s m
    by (simp add: process_blocks_absorb [OF process B_pos] rest_of_def)
  show ?thesis
    unfolding hash_update_def Let_def c
    using assms
    by (simp add: process pb counted_simps put_nonempty_def)
qed

text \<open>The buffer after an input.\<close>

lemma length_rest_of: "length (rest_of m) = length m mod B"
  by (simp add: rest_of_def)

lemma rest_of_append:
  assumes "B dvd length x" shows "rest_of (x @ y) = rest_of y"
proof -
  from assms obtain q where "length x = B * q" by blast
  then have "length (x @ y) mod B = length y mod B" by simp
  then show ?thesis unfolding rest_of_def using drop_last [of "length y mod B" y x] by simp
qed

lemma take_put_nonempty:
  "ofs + length q \<le> length buf \<Longrightarrow> take (ofs + length q) (put_nonempty ofs q buf) = take ofs buf @ q"
  by (simp add: put_nonempty_def take_buffer_put)

lemma length_put_nonempty: "ofs + length q \<le> length buf \<Longrightarrow> length (put_nonempty ofs q buf) = length buf"
  by (simp add: put_nonempty_def length_buffer_put)

lemma absorbed_rest: "absorbed ctx M \<Longrightarrow> take (length M mod B) (hash_buffer ctx) = rest_of M"
  by (simp add: absorbed_def rest_of_def)

lemma rest_of_split: "M = take (length M - length M mod B) M @ rest_of M" "B dvd length (take (length M - length M mod B) M)"
proof -
  show "M = take (length M - length M mod B) M @ rest_of M" by (simp add: rest_of_def)
  have "length (take (length M - length M mod B) M) = length M - length M mod B" by simp
  then show "B dvd length (take (length M - length M mod B) M)" unfolding minus_mod_eq_mult_div by simp
qed

lemma rest_of_message: "rest_of (M @ x) = rest_of (rest_of M @ x)"
proof -
  have "M @ x = take (length M - length M mod B) M @ (rest_of M @ x)" using rest_of_split(1) [of M] by simp
  then show ?thesis using rest_of_append [OF rest_of_split(2)] by metis
qed

lemma absorb_message: "absorb B compress s (M @ x) = absorb B compress (absorb B compress s M) (rest_of M @ x)"
proof -
  let ?a = "take (length M - length M mod B) M"
  have "absorb B compress s (?a @ (rest_of M @ x)) = absorb B compress (absorb B compress s ?a) (rest_of M @ x)"
    by (rule absorb_append [OF rest_of_split(2) B_pos])
  moreover have "absorb B compress s (?a @ rest_of M) = absorb B compress s ?a"
    by (rule absorb_remainder [OF rest_of_split(2) B_pos]) (simp add: length_rest_of)
  ultimately show ?thesis using rest_of_split(1) [of M] by (metis append_assoc)
qed

lemma update_absorbed:
  assumes a: "absorbed ctx M" and l: "length input < 2 ^ LENGTH('w)"
  obtains ctx' where "hash_update B process ctx input = (0, ctx')" "absorbed ctx' (M @ input)"
proof (cases "input = []")
  case True
  then show thesis using a by (intro that [of ctx]) (simp_all add: hash_update_def)
next
  case n: False
  let ?r = "length M mod B" and ?buf = "hash_buffer ctx" and ?c = "counted ctx (length input)"
  have left: "unat (total0 ctx AND (word_of_nat B - 1)) = ?r" by (rule absorbed_left [OF a])
  have buf: "length ?buf = B" "take ?r ?buf = rest_of M" "length (rest_of M) = ?r"
    using absorbed_rest [OF a] by (simp_all add: length_rest_of) (use a in \<open>simp add: absorbed_def\<close>)
  have s: "hash_state ctx = absorb B compress iv M" using a by (simp add: absorbed_def)
  have cnt: "unat (total1 ?c) * 2 ^ LENGTH('w) + unat (total0 ?c) = length (M @ input) mod 2 ^ (2 * LENGTH('w))"
    using count_step [OF _ l refl] a unfolding counted_simps absorbed_def by simp
  note result = that
  have fin: thesis if "hash_update B process ctx input = (0, ?c\<lparr>hash_buffer := b, hash_state := st\<rparr>)"
    "st = absorb B compress iv (M @ input)" "length b = B" "take (length (M @ input) mod B) b = rest_of (M @ input)" for b st
  proof (rule result [OF that(1)])
    show "absorbed (?c\<lparr>hash_buffer := b, hash_state := st\<rparr>) (M @ input)"
      using that cnt unfolding absorbed_def rest_of_def by simp
  qed
  show thesis
  proof (cases "?r \<noteq> 0 \<and> length input \<ge> B - ?r")
    case True
    let ?rest = "drop (B - ?r) input" and ?block = "rest_of M @ take (B - ?r) input"
    have bl: "buffer_put ?r (take (B - ?r) input) ?buf = ?block" "length ?block = B"
      using True buf by (simp_all add: buffer_put_def)
    have e: "rest_of M @ input = ?block @ ?rest" by simp
    have "rest_of (M @ input) = rest_of (?block @ ?rest)" unfolding rest_of_message [of M] e ..
    also have "\<dots> = rest_of ?rest" by (rule rest_of_append) (simp only: bl(2) dvd_refl)
    finally have q: "rest_of (M @ input) = rest_of ?rest" .
    have m: "length (M @ input) mod B = length (rest_of ?rest)" unfolding q [symmetric] length_rest_of ..
    have k: "length (rest_of ?rest) \<le> length ?block" unfolding bl(2) by (simp add: length_rest_of less_imp_le)
    show thesis
    proof (rule fin)
      show "hash_update B process ctx input = (0, ?c\<lparr>hash_buffer := put_nonempty 0 (rest_of ?rest) ?block,
          hash_state := absorb B compress (compress (hash_state ctx) ?block) ?rest\<rparr>)"
        unfolding hash_update_eq [OF n] left Let_def bl(1) using True by simp
      show "absorb B compress (compress (hash_state ctx) ?block) ?rest = absorb B compress iv (M @ input)"
        unfolding absorb_message [of iv M] e s absorb_block [OF B_pos bl(2)] ..
      show "length (put_nonempty 0 (rest_of ?rest) ?block) = B"
        using length_put_nonempty [of 0 "rest_of ?rest" ?block] k bl(2) by simp
      show "take (length (M @ input) mod B) (put_nonempty 0 (rest_of ?rest) ?block) = rest_of (M @ input)"
        unfolding m q using take_put_nonempty [of 0 "rest_of ?rest" ?block] k by simp
    qed
  next
    case False
    have len: "?r + length (rest_of input) \<le> B" and q: "rest_of (M @ input) = rest_of M @ rest_of input"
      and st: "absorb B compress iv (M @ input) = absorb B compress (hash_state ctx) input"
    proof -
      have "?r + length (rest_of input) \<le> B \<and> rest_of (M @ input) = rest_of M @ rest_of input \<and>
        absorb B compress iv (M @ input) = absorb B compress (hash_state ctx) input"
      proof (cases "?r = 0")
        case True
        then have "rest_of M = []" using buf(3) by simp
        then show ?thesis using True by (simp add: rest_of_message [of M] absorb_message [of iv M] s length_rest_of less_imp_le)
      next
        case r: False
        then have short: "length (rest_of M @ input) < B" "length input < B" using False buf(3) by auto
        then have "rest_of input = input" "rest_of (rest_of M @ input) = rest_of M @ input" by (simp_all add: rest_of_def)
        then show ?thesis using short by (simp add: rest_of_message [of M] absorb_message [of iv M] s absorb_short buf(3))
      qed
      then show "?r + length (rest_of input) \<le> B" "rest_of (M @ input) = rest_of M @ rest_of input"
        "absorb B compress iv (M @ input) = absorb B compress (hash_state ctx) input" by blast+
    qed
    have m: "length (M @ input) mod B = ?r + length (rest_of input)"
      unfolding length_rest_of [symmetric] q by simp
    show thesis
    proof (rule fin)
      show "hash_update B process ctx input = (0, ?c\<lparr>hash_buffer := put_nonempty ?r (rest_of input) ?buf,
          hash_state := absorb B compress (hash_state ctx) input\<rparr>)"
        unfolding hash_update_eq [OF n] left Let_def using False by auto
      show "absorb B compress (hash_state ctx) input = absorb B compress iv (M @ input)" by (rule st [symmetric])
      show "length (put_nonempty ?r (rest_of input) ?buf) = B"
        using length_put_nonempty [of ?r "rest_of input" ?buf] len buf(1) by simp
      show "take (length (M @ input) mod B) (put_nonempty ?r (rest_of input) ?buf) = rest_of (M @ input)"
        unfolding m q using take_put_nonempty [of ?r "rest_of input" ?buf] len buf by simp
    qed
  qed
qed

lemma updates_absorbed:
  assumes "absorbed ctx M" "\<forall>c\<in>set inputs. length c < 2 ^ LENGTH('w)"
  obtains ctx' where "hash_updates (hash_update B process) ctx inputs = (0, ctx')" "absorbed ctx' (M @ concat inputs)"
  using assms
proof (induction inputs arbitrary: ctx M thesis)
  case Nil
  then show ?case by simp
next
  case (Cons c cs)
  from update_absorbed [OF Cons.prems(2), of c] Cons.prems(3)
  obtain ctx1 where c1: "hash_update B process ctx c = (0, ctx1)" "absorbed ctx1 (M @ c)" by auto
  from Cons.IH [OF _ c1(2)] Cons.prems(3) obtain ctx2
    where "hash_updates (hash_update B process) ctx1 cs = (0, ctx2)" "absorbed ctx2 ((M @ c) @ concat cs)" by auto
  then show ?case using c1(1) by (intro Cons.prems(1) [of ctx2]) simp_all
qed

lemma absorbed_start:
  "hash_state ctx = iv \<Longrightarrow> total0 ctx = 0 \<Longrightarrow> total1 ctx = 0 \<Longrightarrow> length (hash_buffer ctx) = B \<Longrightarrow> absorbed ctx []"
  by (simp add: absorbed_def absorb_short)

section \<open>The finish function\<close>

lemma bit_count:
  assumes "unat t1 * 2 ^ LENGTH('w) + unat t0 = n mod 2 ^ (2 * LENGTH('w))"
  shows "drop_bit (LENGTH('w) - 3) t0 OR push_bit 3 t1 = (word_of_nat (8 * n div 2 ^ LENGTH('w)) :: 'w word)"
    and "push_bit 3 t0 = (word_of_nat (8 * n) :: 'w word)"
proof -
  let ?W = "2 ^ LENGTH('w) :: nat"
  have W2: "2 ^ (2 * LENGTH('w)) = ?W * ?W" by (simp add: mult_2 power_add)
  have b: "unat t0 < ?W" by (rule unsigned_less)
  define q where "q = n div (?W * ?W)"
  have n: "n = (q * ?W + unat t1) * ?W + unat t0"
    using div_mult_mod_eq [of n "?W * ?W"] assms unfolding W2 q_def by (simp add: algebra_simps)
  have W0: "(word_of_nat ?W :: 'w word) = 0" by simp
  have t0: "(word_of_nat n :: 'w word) = t0" unfolding n by (simp add: W0 del: of_nat_power)
  show "push_bit 3 t0 = (word_of_nat (8 * n) :: 'w word)"
    using t0 by (simp add: push_bit_eq_mult)
  have W8: "?W = 8 * 2 ^ (LENGTH('w) - 3)"
  proof -
    have "LENGTH('w) = 3 + (LENGTH('w) - 3)" using field_size(2) by simp
    then have "?W = 2 ^ 3 * 2 ^ (LENGTH('w) - 3)" by (metis power_add)
    then show ?thesis by simp
  qed
  have "8 * n = 8 * (q * ?W + unat t1) * ?W + 8 * unat t0" by (simp add: n algebra_simps)
  then have "8 * n div ?W = 8 * (q * ?W + unat t1) + 8 * unat t0 div ?W" by simp
  moreover have "8 * unat t0 div ?W = unat (drop_bit (LENGTH('w) - 3) t0)"
    unfolding unat_drop_bit_eq W8 by (simp add: drop_bit_eq_div)
  ultimately have "(word_of_nat (8 * n div ?W) :: 'w word) = 8 * t1 + drop_bit (LENGTH('w) - 3) t0"
    by (simp add: W0 del: of_nat_power)
  moreover have "drop_bit (LENGTH('w) - 3) t0 AND push_bit 3 t1 = 0"
    by (rule bit_word_eqI) (auto simp: bit_simps dest: bit_imp_le_length)
  then have "drop_bit (LENGTH('w) - 3) t0 + push_bit 3 t1 = drop_bit (LENGTH('w) - 3) t0 OR push_bit 3 t1"
    by (rule disjunctive_add_eq_or)
  ultimately show "drop_bit (LENGTH('w) - 3) t0 OR push_bit 3 t1 = (word_of_nat (8 * n div ?W) :: 'w word)"
    by (simp add: push_bit_eq_mult add.commute mult.commute)
qed

lemma finish_blocks_absorbed:
  assumes a: "absorbed ctx M"
  obtains ctx' where "hash_finish_blocks B L put_length process ctx = (0, ctx')"
    "hash_state ctx' = md_hash B L encode compress iv M"
proof -
  let ?r = "length M mod B" and ?buf = "hash_buffer ctx"
  let ?e = "encode (8 * length M)"
  have left: "unat (total0 ctx AND (word_of_nat B - 1)) = ?r" by (rule absorbed_left [OF a])
  have buf: "length ?buf = B" "take ?r ?buf = rest_of M" "length (rest_of M) = ?r"
    using absorbed_rest [OF a] by (simp_all add: length_rest_of) (use a in \<open>simp add: absorbed_def\<close>)
  have s: "hash_state ctx = absorb B compress iv M" and r: "?r < B" using a by (simp_all add: absorbed_def)
  have pl: "put_length (drop_bit (LENGTH('w) - 3) (total0 ctx) OR push_bit 3 (total1 ctx)) (push_bit 3 (total0 ctx)) = ?e"
    using bit_count [of "total1 ctx" "total0 ctx" "length M"] a encode(2) [of "8 * length M"] by (simp add: absorbed_def)
  have el: "length ?e = L" by (rule encode(1))
  let ?b1 = "?buf[?r := 0x80]"
  have b1: "length ?b1 = B" "take (?r + 1) ?b1 = rest_of M @ [0x80]"
    using buf r by (simp_all add: take_Suc_conv_app_nth)
  show thesis
  proof (cases "?r + 1 \<le> B - L")
    case True
    let ?z = "replicate (B - L - (?r + 1)) (0 :: u8)"
    let ?block = "rest_of M @ 0x80 # ?z @ ?e"
    have k: "(2 * B - L - 1 - ?r) mod B = B - L - (?r + 1)"
    proof -
      have "2 * B - L - 1 - ?r = B + (B - L - (?r + 1))" using True field_size(1) by simp
      moreover have "(B + (B - L - (?r + 1))) mod B = B - L - (?r + 1)" 
        using B_pos by (subst mod_add_self1) (rule mod_less, arith)
      ultimately show ?thesis by (simp only:)
    qed
    have bl: "length ?block = B" using True field_size(1) el buf(3) by simp
    have fz: "?r + 1 + length ?z = B - L" "B - L + length ?e = B" "?r + 1 \<le> length ?b1" "?r + 1 + length ?z \<le> length ?b1"
      using True el field_size(1) b1(1) by simp_all
    have "take (B - L) (buffer_put (?r + 1) ?z ?b1) = rest_of M @ 0x80 # ?z"
      using take_buffer_put [OF fz(3), of ?z] b1(2) unfolding fz(1) by simp
    moreover have "length (buffer_put (?r + 1) ?z ?b1) = B" using length_buffer_put [OF fz(4)] b1(1) by simp
    ultimately have bb: "buffer_put (B - L) ?e (buffer_put (?r + 1) ?z ?b1) = ?block"
      unfolding buffer_put_def [of "B - L"] fz(2) by simp
    have "md_hash B L encode compress iv M = compress (hash_state ctx) ?block"
      unfolding md_hash_def md_padding_def k absorb_message [of iv M] s [symmetric]
      using absorb_block [OF B_pos bl, of compress "hash_state ctx" "[]"] by (simp add: absorb_short)
    then show thesis
      using True
      by (intro that [of "ctx\<lparr>hash_buffer := ?block, hash_state := compress (hash_state ctx) ?block\<rparr>"])
        (simp_all add: hash_finish_blocks_def Let_def left process pl bb [simplified])
  next
    case False
    let ?z1 = "replicate (B - (?r + 1)) (0 :: u8)" and ?z2 = "replicate (B - L) (0 :: u8)"
    let ?block1 = "rest_of M @ 0x80 # ?z1" and ?block2 = "?z2 @ ?e"
    have k: "(2 * B - L - 1 - ?r) mod B = B - (?r + 1) + (B - L)"
    proof -
      have "2 * B - L - 1 - ?r = B - (?r + 1) + (B - L)" "B - (?r + 1) + (B - L) < B"
        using False field_size(1) r by arith+
      then show ?thesis by simp
    qed
    have rr: "?r + Suc (B - Suc ?r) = B" "Suc (?r + (B - Suc ?r)) = B" using r by arith+
    have bl: "length ?block1 = B" "length ?block2 = B" using rr field_size(1) el buf(3) by simp_all
    have bb: "buffer_put (?r + 1) ?z1 ?b1 = ?block1" "buffer_put (B - L) ?e (buffer_put 0 ?z2 ?block1) = ?block2"
      using rr b1 el field_size(1) buf(3) bl(1) by (simp_all add: buffer_put_def)
    have "rest_of M @ 0x80 # replicate (B - (?r + 1) + (B - L)) 0 @ ?e = ?block1 @ ?block2 @ []"
      by (simp add: replicate_add)
    then have "md_hash B L encode compress iv M = compress (compress (hash_state ctx) ?block1) ?block2"
      unfolding md_hash_def md_padding_def k absorb_message [of iv M] s [symmetric]
      by (simp only: absorb_block [OF B_pos bl(1)] absorb_block [OF B_pos bl(2)]) (simp add: absorb_short)
    then show thesis
      using False
      by (intro that [of "ctx\<lparr>hash_buffer := ?block2, hash_state := compress (compress (hash_state ctx) ?block1) ?block2\<rparr>"])
        (simp_all add: hash_finish_blocks_def Let_def left process pl bb [simplified])
  qed
qed

text \<open>A message fed in pieces and finished.\<close>

lemma stream_result:
  assumes "absorbed ctx0 []" "\<forall>c\<in>set inputs. length c < 2 ^ LENGTH('w)"
  obtains ctx1 ctx2 where "hash_updates (hash_update B process) ctx0 inputs = (0, ctx1)"
    "hash_finish_blocks B L put_length process ctx1 = (0, ctx2)"
    "hash_state ctx2 = md_hash B L encode compress iv (concat inputs)"
proof -
  from updates_absorbed [OF assms] obtain ctx1 where c1: "hash_updates (hash_update B process) ctx0 inputs = (0, ctx1)"
    "absorbed ctx1 (concat inputs)" by auto
  from finish_blocks_absorbed [OF c1(2)] c1(1) show thesis by (metis that)
qed

end

section \<open>Encodings of the length\<close>

lemma byte_of_nat:
  assumes "8 * (k + 1) \<le> LENGTH('w)"
  shows "mbedtls_byte k (word_of_nat n :: 'w::len word) = word_of_nat (n div 256 ^ k)"
proof (rule bit_word_eqI)
  fix i assume i: "i < LENGTH(8)"
  have "n div 256 ^ k = drop_bit (8 * k) n" by (simp add: drop_bit_eq_div power_mult)
  then show "bit (mbedtls_byte k (word_of_nat n :: 'w word)) i \<longleftrightarrow> bit (word_of_nat (n div 256 ^ k) :: u8) i"
    using i assms by (simp add: bit_mbedtls_byte bit_simps)
qed

lemma encode_32:
  fixes n :: nat
  defines "high \<equiv> word_of_nat (n div 2 ^ LENGTH(32)) :: u32" and "low \<equiv> word_of_nat n :: u32"
  shows "put_uint32_be high @ put_uint32_be low = big_endian 8 n"
    "put_uint32_le low @ put_uint32_le high = little_endian 8 n"
proof -
  have "[0..<8] = [0, 1, 2, 3, 4, 5, 6, 7 :: nat]" by (simp add: upt_rec)
  then show "put_uint32_be high @ put_uint32_be low = big_endian 8 n"
    "put_uint32_le low @ put_uint32_le high = little_endian 8 n"
    by (simp_all add: put_uint32_be_def put_uint32_le_def byte_of_nat high_def low_def big_endian_def little_endian_def
        div_mult2_eq [symmetric])
qed

lemma encode_64:
  fixes n :: nat
  defines "high \<equiv> word_of_nat (n div 2 ^ LENGTH(64)) :: u64" and "low \<equiv> word_of_nat n :: u64"
  shows "put_uint64_be high @ put_uint64_be low = big_endian 16 n"
proof -
  have "[0..<16] = [0, 1, 2, 3, 4, 5, 6, 7, 8, 9, 10, 11, 12, 13, 14, 15 :: nat]" by (simp add: upt_rec)
  then show ?thesis
    by (simp add: put_uint64_be_def byte_of_nat high_def low_def big_endian_def div_mult2_eq [symmetric])
qed

lemma length_endian [simp]: "length (big_endian k n) = k" "length (little_endian k n) = k"
  by (simp_all add: big_endian_def little_endian_def)

section \<open>Rotations\<close>

lemma rotl_shifts:
  fixes x :: "'w::len word"
  assumes "0 < n" "n < LENGTH('w)"
  shows "push_bit n x OR drop_bit (LENGTH('w) - n) x = word_rotl n x"
proof (rule bit_word_eqI)
  fix i assume i: "i < LENGTH('w)"
  show "bit (push_bit n x OR drop_bit (LENGTH('w) - n) x) i \<longleftrightarrow> bit (word_rotl n x) i"
  proof (cases "i < n")
    case True
    then have "(LENGTH('w) - n + i) mod LENGTH('w) = LENGTH('w) - n + i" using assms by simp
    then show ?thesis using True i assms by (simp add: bit_simps algebra_simps)
  next
    case False
    then have "\<not> bit x (LENGTH('w) - n + i)" by (auto dest: bit_imp_le_length)
    moreover have "(i + (LENGTH('w) - n)) mod LENGTH('w) = i - n"
    proof -
      have "i + (LENGTH('w) - n) = LENGTH('w) + (i - n)" using False assms by simp
      moreover have "(LENGTH('w) + (i - n)) mod LENGTH('w) = i - n"
        using i by (subst mod_add_self1) (rule mod_less, simp)
      ultimately show ?thesis by (simp only:)
    qed
    ultimately show ?thesis using False i assms by (simp add: bit_simps algebra_simps)
  qed
qed

lemma rotr_shifts:
  fixes x :: "'w::len word"
  assumes "0 < n" "n < LENGTH('w)"
  shows "drop_bit n x OR push_bit (LENGTH('w) - n) x = word_rotr n x"
  using rotl_shifts [of "LENGTH('w) - n" x] assms by (simp add: or.commute word_rotl_eq_word_rotr)

lemma and_all_ones: "x AND 0xFFFFFFFF = (x :: u32)"
proof -
  have "(0xFFFFFFFF :: u32) = - 1" by simp
  then show ?thesis by (simp only: bit.conj_one_right)
qed

end
