(* ===== verification/Hash_Md5.thy ===== *)
theory Hash_Md5
  imports Block_Hash
begin

text \<open>
  drivers/builtin/src/md5.c. The four local variables A, B, C, D of the compression function are
  a list; a call of the macro P is a step \<open>(a, b, c, d, k, s, t)\<close>, its first four components
  the variables in the order of the macro's arguments.

  Beside the code stands RFC 1321: its table, functions and 64 operations, written from the RFC, with the
  compression \<open>md5_compress\<close> and the digest of a message; the compression of the code equals it.
\<close>

type_synonym mbedtls_md5_context = "u32 hash_context"

definition mbedtls_md5_init :: mbedtls_md5_context where
  "mbedtls_md5_init = \<lparr>total0 = 0, total1 = 0, hash_state = replicate 4 0, hash_buffer = replicate 64 0\<rparr>"

definition mbedtls_md5_free :: "mbedtls_md5_context \<Rightarrow> mbedtls_md5_context" where
  "mbedtls_md5_free ctx = \<lparr>total0 = 0, total1 = 0, hash_state = replicate 4 0, hash_buffer = replicate 64 0\<rparr>"

definition mbedtls_md5_clone :: "mbedtls_md5_context \<Rightarrow> mbedtls_md5_context" where
  "mbedtls_md5_clone src = src"

definition md5_iv :: "u32 list" where
  "md5_iv = [0x67452301, 0xEFCDAB89, 0x98BADCFE, 0x10325476]"

definition mbedtls_md5_starts :: "mbedtls_md5_context \<Rightarrow> int \<times> mbedtls_md5_context" where
  "mbedtls_md5_starts ctx = (0, ctx\<lparr>total0 := 0, total1 := 0, hash_state := md5_iv\<rparr>)"

definition md5_S :: "u32 \<Rightarrow> nat \<Rightarrow> u32" where
  "md5_S x n = push_bit n x OR drop_bit (32 - n) (x AND 0xFFFFFFFF)"

type_synonym md5_step = "nat \<times> nat \<times> nat \<times> nat \<times> nat \<times> nat \<times> u32"

fun md5_P :: "(u32 \<Rightarrow> u32 \<Rightarrow> u32 \<Rightarrow> u32) \<Rightarrow> u32 list \<Rightarrow> md5_step \<Rightarrow> u32 list \<Rightarrow> u32 list" where
  "md5_P F X (a, b, c, d, k, s, t) A =
    (let A = A[a := A ! a + (F (A ! b) (A ! c) (A ! d) + X ! k + t)]
     in A[a := md5_S (A ! a) s + A ! b])"

definition md5_F1 :: "u32 \<Rightarrow> u32 \<Rightarrow> u32 \<Rightarrow> u32" where
  "md5_F1 x y z = z XOR (x AND (y XOR z))"

definition md5_F2 :: "u32 \<Rightarrow> u32 \<Rightarrow> u32 \<Rightarrow> u32" where
  "md5_F2 x y z = y XOR (z AND (x XOR y))"

definition md5_F3 :: "u32 \<Rightarrow> u32 \<Rightarrow> u32 \<Rightarrow> u32" where
  "md5_F3 x y z = x XOR y XOR z"

definition md5_F4 :: "u32 \<Rightarrow> u32 \<Rightarrow> u32 \<Rightarrow> u32" where
  "md5_F4 x y z = y XOR (x OR NOT z)"

definition md5_round1 :: "md5_step list" where
  "md5_round1 = [
    (0, 1, 2, 3, 0, 7, 0xD76AA478), (3, 0, 1, 2, 1, 12, 0xE8C7B756), (2, 3, 0, 1, 2, 17, 0x242070DB),
    (1, 2, 3, 0, 3, 22, 0xC1BDCEEE), (0, 1, 2, 3, 4, 7, 0xF57C0FAF), (3, 0, 1, 2, 5, 12, 0x4787C62A),
    (2, 3, 0, 1, 6, 17, 0xA8304613), (1, 2, 3, 0, 7, 22, 0xFD469501), (0, 1, 2, 3, 8, 7, 0x698098D8),
    (3, 0, 1, 2, 9, 12, 0x8B44F7AF), (2, 3, 0, 1, 10, 17, 0xFFFF5BB1), (1, 2, 3, 0, 11, 22, 0x895CD7BE),
    (0, 1, 2, 3, 12, 7, 0x6B901122), (3, 0, 1, 2, 13, 12, 0xFD987193), (2, 3, 0, 1, 14, 17, 0xA679438E),
    (1, 2, 3, 0, 15, 22, 0x49B40821)]"

definition md5_round2 :: "md5_step list" where
  "md5_round2 = [
    (0, 1, 2, 3, 1, 5, 0xF61E2562), (3, 0, 1, 2, 6, 9, 0xC040B340), (2, 3, 0, 1, 11, 14, 0x265E5A51),
    (1, 2, 3, 0, 0, 20, 0xE9B6C7AA), (0, 1, 2, 3, 5, 5, 0xD62F105D), (3, 0, 1, 2, 10, 9, 0x02441453),
    (2, 3, 0, 1, 15, 14, 0xD8A1E681), (1, 2, 3, 0, 4, 20, 0xE7D3FBC8), (0, 1, 2, 3, 9, 5, 0x21E1CDE6),
    (3, 0, 1, 2, 14, 9, 0xC33707D6), (2, 3, 0, 1, 3, 14, 0xF4D50D87), (1, 2, 3, 0, 8, 20, 0x455A14ED),
    (0, 1, 2, 3, 13, 5, 0xA9E3E905), (3, 0, 1, 2, 2, 9, 0xFCEFA3F8), (2, 3, 0, 1, 7, 14, 0x676F02D9),
    (1, 2, 3, 0, 12, 20, 0x8D2A4C8A)]"

definition md5_round3 :: "md5_step list" where
  "md5_round3 = [
    (0, 1, 2, 3, 5, 4, 0xFFFA3942), (3, 0, 1, 2, 8, 11, 0x8771F681), (2, 3, 0, 1, 11, 16, 0x6D9D6122),
    (1, 2, 3, 0, 14, 23, 0xFDE5380C), (0, 1, 2, 3, 1, 4, 0xA4BEEA44), (3, 0, 1, 2, 4, 11, 0x4BDECFA9),
    (2, 3, 0, 1, 7, 16, 0xF6BB4B60), (1, 2, 3, 0, 10, 23, 0xBEBFBC70), (0, 1, 2, 3, 13, 4, 0x289B7EC6),
    (3, 0, 1, 2, 0, 11, 0xEAA127FA), (2, 3, 0, 1, 3, 16, 0xD4EF3085), (1, 2, 3, 0, 6, 23, 0x04881D05),
    (0, 1, 2, 3, 9, 4, 0xD9D4D039), (3, 0, 1, 2, 12, 11, 0xE6DB99E5), (2, 3, 0, 1, 15, 16, 0x1FA27CF8),
    (1, 2, 3, 0, 2, 23, 0xC4AC5665)]"

definition md5_round4 :: "md5_step list" where
  "md5_round4 = [
    (0, 1, 2, 3, 0, 6, 0xF4292244), (3, 0, 1, 2, 7, 10, 0x432AFF97), (2, 3, 0, 1, 14, 15, 0xAB9423A7),
    (1, 2, 3, 0, 5, 21, 0xFC93A039), (0, 1, 2, 3, 12, 6, 0x655B59C3), (3, 0, 1, 2, 3, 10, 0x8F0CCC92),
    (2, 3, 0, 1, 10, 15, 0xFFEFF47D), (1, 2, 3, 0, 1, 21, 0x85845DD1), (0, 1, 2, 3, 8, 6, 0x6FA87E4F),
    (3, 0, 1, 2, 15, 10, 0xFE2CE6E0), (2, 3, 0, 1, 6, 15, 0xA3014314), (1, 2, 3, 0, 13, 21, 0x4E0811A1),
    (0, 1, 2, 3, 4, 6, 0xF7537E82), (3, 0, 1, 2, 11, 10, 0xBD3AF235), (2, 3, 0, 1, 2, 15, 0x2AD7D2BB),
    (1, 2, 3, 0, 9, 21, 0xEB86D391)]"

definition mbedtls_internal_md5_process :: "u32 list \<Rightarrow> bytes \<Rightarrow> int \<times> u32 list" where
  "mbedtls_internal_md5_process state data =
    (let X = map (\<lambda>i. get_uint32_le data (4 * i)) [0..<16];
         A = fold (md5_P md5_F1 X) md5_round1 (take 4 state);
         A = fold (md5_P md5_F2 X) md5_round2 A;
         A = fold (md5_P md5_F3 X) md5_round3 A;
         A = fold (md5_P md5_F4 X) md5_round4 A
     in (0, map2 (+) state A))"

definition mbedtls_md5_update :: "mbedtls_md5_context \<Rightarrow> bytes \<Rightarrow> int \<times> mbedtls_md5_context" where
  "mbedtls_md5_update = hash_update 64 mbedtls_internal_md5_process"

text \<open>The length field, and the output of the state into the caller's buffer.\<close>

definition md5_put_length :: "u32 \<Rightarrow> u32 \<Rightarrow> bytes" where
  "md5_put_length high low = put_uint32_le low @ put_uint32_le high"

definition mbedtls_md5_finish :: "mbedtls_md5_context \<Rightarrow> bytes \<Rightarrow> int \<times> mbedtls_md5_context \<times> bytes" where
  "mbedtls_md5_finish ctx output =
    (let (ret, ctx) = hash_finish_blocks 64 8 md5_put_length mbedtls_internal_md5_process ctx
     in if ret \<noteq> 0 then (ret, mbedtls_md5_free ctx, output)
        else (0, mbedtls_md5_free ctx, buffer_put 0 (concat (map put_uint32_le (hash_state ctx))) output))"

definition mbedtls_md5 :: "bytes \<Rightarrow> bytes \<Rightarrow> int \<times> bytes" where
  "mbedtls_md5 input output =
    (let (ret, ctx) = mbedtls_md5_starts mbedtls_md5_init
     in if ret \<noteq> 0 then (ret, output)
        else
          let (ret, ctx) = mbedtls_md5_update ctx input
          in if ret \<noteq> 0 then (ret, output)
             else
               let (ret, ctx, output) = mbedtls_md5_finish ctx output
               in (ret, output))"

section \<open>The standard\<close>

text \<open>
  RFC 1321: the table T, the auxiliary functions F, G, H and I, the index of the word of the block and
  the shift of each of the 64 operations, and the operation itself, which leaves the four variables
  rotated so that the next one works on them in the same order.
\<close>

definition md5_T :: "u32 list" where
  "md5_T = [
    0xD76AA478, 0xE8C7B756, 0x242070DB, 0xC1BDCEEE, 0xF57C0FAF, 0x4787C62A, 0xA8304613, 0xFD469501,
    0x698098D8, 0x8B44F7AF, 0xFFFF5BB1, 0x895CD7BE, 0x6B901122, 0xFD987193, 0xA679438E, 0x49B40821,
    0xF61E2562, 0xC040B340, 0x265E5A51, 0xE9B6C7AA, 0xD62F105D, 0x02441453, 0xD8A1E681, 0xE7D3FBC8,
    0x21E1CDE6, 0xC33707D6, 0xF4D50D87, 0x455A14ED, 0xA9E3E905, 0xFCEFA3F8, 0x676F02D9, 0x8D2A4C8A,
    0xFFFA3942, 0x8771F681, 0x6D9D6122, 0xFDE5380C, 0xA4BEEA44, 0x4BDECFA9, 0xF6BB4B60, 0xBEBFBC70,
    0x289B7EC6, 0xEAA127FA, 0xD4EF3085, 0x04881D05, 0xD9D4D039, 0xE6DB99E5, 0x1FA27CF8, 0xC4AC5665,
    0xF4292244, 0x432AFF97, 0xAB9423A7, 0xFC93A039, 0x655B59C3, 0x8F0CCC92, 0xFFEFF47D, 0x85845DD1,
    0x6FA87E4F, 0xFE2CE6E0, 0xA3014314, 0x4E0811A1, 0xF7537E82, 0xBD3AF235, 0x2AD7D2BB, 0xEB86D391]"

definition md5_f :: "nat \<Rightarrow> u32 \<Rightarrow> u32 \<Rightarrow> u32 \<Rightarrow> u32" where
  "md5_f i x y z =
    (if i < 16 then (x AND y) OR (NOT x AND z)
     else if i < 32 then (x AND z) OR (y AND NOT z)
     else if i < 48 then x XOR y XOR z
     else y XOR (x OR NOT z))"

definition md5_k :: "nat \<Rightarrow> nat" where
  "md5_k i = (if i < 16 then i else if i < 32 then (5 * i + 1) mod 16 else if i < 48 then (3 * i + 5) mod 16 else 7 * i mod 16)"

definition md5_s :: "nat \<Rightarrow> nat" where
  "md5_s i = (if i < 16 then [7, 12, 17, 22] else if i < 32 then [5, 9, 14, 20] else if i < 48 then [4, 11, 16, 23]
    else [6, 10, 15, 21]) ! (i mod 4)"

fun md5_operation :: "bytes \<Rightarrow> nat \<Rightarrow> u32 list \<Rightarrow> u32 list" where
  "md5_operation M i [a, b, c, d] =
    [d, b + word_rotl (md5_s i) (a + md5_f i b c d + get_uint32_le M (4 * md5_k i) + md5_T ! i), b, c]"
| "md5_operation M i s = s"

definition md5_compress :: "u32 list \<Rightarrow> bytes \<Rightarrow> u32 list" where
  "md5_compress H M = map2 (+) H (fold (md5_operation M) [0..<64] (take 4 H))"

section \<open>The compression function computes the standard\<close>

text \<open>The variable that plays the part \<open>j\<close> (a, b, c or d) in operation \<open>i\<close>, and the call of P there.\<close>

definition md5_reg :: "nat \<Rightarrow> nat \<Rightarrow> nat" where
  "md5_reg i j = (j + 64 - i) mod 4"

definition md5_call :: "nat \<Rightarrow> md5_step" where
  "md5_call i = (md5_reg i 0, md5_reg i 1, md5_reg i 2, md5_reg i 3, md5_k i, md5_s i, md5_T ! i)"

definition md5_variables :: "nat \<Rightarrow> u32 list \<Rightarrow> u32 list" where
  "md5_variables i A = [A ! md5_reg i 0, A ! md5_reg i 1, A ! md5_reg i 2, A ! md5_reg i 3]"

lemma md5_calls:
  "md5_round1 = map md5_call [0..<16]" "md5_round2 = map md5_call [16..<32]"
  "md5_round3 = map md5_call [32..<48]" "md5_round4 = map md5_call [48..<64]"
  by code_simp+

lemma md5_S_rotl: "0 < n \<Longrightarrow> n < 32 \<Longrightarrow> md5_S x n = word_rotl n x"
  using rotl_shifts [of n x] by (simp add: md5_S_def and_all_ones)

lemma md5_F_eq:
  "md5_F1 x y z = (x AND y) OR (NOT x AND z)" "md5_F2 x y z = (x AND z) OR (y AND NOT z)"
  "md5_F3 x y z = x XOR y XOR z" "md5_F4 x y z = y XOR (x OR NOT z)"
  by (auto simp: md5_F1_def md5_F2_def md5_F3_def md5_F4_def bit_eq_iff bit_simps)

lemma md5_s_range: "0 < md5_s i \<and> md5_s i < 32"
proof -
  have "i mod 4 < 4" by simp
  then consider "i mod 4 = 0" | "i mod 4 = 1" | "i mod 4 = 2" | "i mod 4 = 3" by linarith
  then show ?thesis by cases (simp_all add: md5_s_def)
qed

lemma md5_k_range: "i < 64 \<Longrightarrow> md5_k i < 16"
  by (simp add: md5_k_def)

lemma md5_call_operation:
  assumes "length A = 4" "i < 64" and X: "X = map (\<lambda>i. get_uint32_le M (4 * i)) [0..<16]"
  shows "length (md5_P (md5_f i) X (md5_call i) A) = 4"
    "md5_variables (Suc i) (md5_P (md5_f i) X (md5_call i) A) = md5_operation M i (md5_variables i A)"
proof -
  have reg: "md5_reg i j = (j + 4 - i mod 4) mod 4" "md5_reg (Suc i) j = (j + 3 - i mod 4) mod 4" if "j < 4" for j
  proof -
    have "i mod 4 + 4 * (i div 4) = i" "i div 4 \<le> 15" "i mod 4 < 4" using assms(2) by simp_all
    then have "j + 64 - i = j + 4 - i mod 4 + 4 * (15 - i div 4)" "j + 64 - Suc i = j + 3 - i mod 4 + 4 * (15 - i div 4)" by linarith+
    then show "md5_reg i j = (j + 4 - i mod 4) mod 4" "md5_reg (Suc i) j = (j + 3 - i mod 4) mod 4"
      by (simp_all only: md5_reg_def mod_mult_self2)
  qed
  obtain a b c d where A: "A = [a, b, c, d]"
    using assms(1) by (auto simp: numeral_eq_Suc length_Suc_conv)
  have x: "X ! md5_k i = get_uint32_le M (4 * md5_k i)" using md5_k_range [OF assms(2)] by (simp add: X)
  have "i mod 4 < 4" by simp
  then consider "i mod 4 = 0" | "i mod 4 = 1" | "i mod 4 = 2" | "i mod 4 = 3" by linarith
  then show "md5_variables (Suc i) (md5_P (md5_f i) X (md5_call i) A) = md5_operation M i (md5_variables i A)"
    by cases (simp_all add: md5_variables_def md5_call_def reg x Let_def A md5_S_rotl md5_s_range algebra_simps)
  show "length (md5_P (md5_f i) X (md5_call i) A) = 4" using assms(1) by (simp add: md5_call_def Let_def)
qed

lemma md5_calls_operations:
  assumes X: "X = map (\<lambda>i. get_uint32_le M (4 * i)) [0..<16]" and A: "length A = 4"
  shows "n \<le> 64 \<Longrightarrow> length (fold (\<lambda>i. md5_P (md5_f i) X (md5_call i)) [0..<n] A) = 4 \<and>
    md5_variables n (fold (\<lambda>i. md5_P (md5_f i) X (md5_call i)) [0..<n] A) = fold (md5_operation M) [0..<n] (md5_variables 0 A)"
proof (induction n)
  case 0
  show ?case using A by simp
next
  case (Suc n)
  then have ih: "length (fold (\<lambda>i. md5_P (md5_f i) X (md5_call i)) [0..<n] A) = 4"
    "md5_variables n (fold (\<lambda>i. md5_P (md5_f i) X (md5_call i)) [0..<n] A) = fold (md5_operation M) [0..<n] (md5_variables 0 A)"
    by simp_all
  from Suc.prems have "n < 64" by simp
  from md5_call_operation [OF ih(1) this X] ih(2) show ?case by simp
qed

lemma md5_process_compress:
  assumes "length state = 4"
  shows "mbedtls_internal_md5_process state data = (0, md5_compress state data)"
proof -
  let ?X = "map (\<lambda>i. get_uint32_le data (4 * i)) [0..<16]"
  let ?all = "fold (\<lambda>i. md5_P (md5_f i) ?X (md5_call i))"
  have seg: "fold (md5_P F ?X) (map md5_call ts) s = ?all ts s" if "\<And>i. i \<in> set ts \<Longrightarrow> md5_f i = F" for F ts s
    unfolding fold_map by (rule fold_cong) (use that in simp_all)
  have s1: "fold (md5_P md5_F1 ?X) (map md5_call [0..<16]) s = ?all [0..<16] s" for s
    by (rule seg) (auto simp: md5_f_def fun_eq_iff md5_F_eq)
  have s2: "fold (md5_P md5_F2 ?X) (map md5_call [16..<32]) s = ?all [16..<32] s" for s
    by (rule seg) (auto simp: md5_f_def fun_eq_iff md5_F_eq)
  have s3: "fold (md5_P md5_F3 ?X) (map md5_call [32..<48]) s = ?all [32..<48] s" for s
    by (rule seg) (auto simp: md5_f_def fun_eq_iff md5_F_eq)
  have s4: "fold (md5_P md5_F4 ?X) (map md5_call [48..<64]) s = ?all [48..<64] s" for s
    by (rule seg) (auto simp: md5_f_def fun_eq_iff md5_F_eq)
  have up: "[0..<64] = [0..<16] @ [16..<32] @ [32..<48] @ [48..<64]"
    using upt_add_eq_append [of 0 48 16] upt_add_eq_append [of 0 32 16] upt_add_eq_append [of 0 16 16] by simp
  have "fold (md5_P md5_F4 ?X) md5_round4 (fold (md5_P md5_F3 ?X) md5_round3 (fold (md5_P md5_F2 ?X) md5_round2
      (fold (md5_P md5_F1 ?X) md5_round1 (take 4 state)))) = ?all [0..<64] (take 4 state)"
    unfolding up fold_append comp_def md5_calls s1 s2 s3 s4 ..
  moreover have "md5_variables 64 A = A" "md5_variables 0 A = A" if l: "length A = 4" for A
  proof -
    obtain a b c d where "A = [a, b, c, d]" using l by (auto simp: numeral_eq_Suc length_Suc_conv)
    then show "md5_variables 64 A = A" "md5_variables 0 A = A" by (simp_all add: md5_variables_def md5_reg_def)
  qed
  moreover have "length (?all [0..<64] (take 4 state)) = 4"
    "md5_variables 64 (?all [0..<64] (take 4 state)) = fold (md5_operation data) [0..<64] (md5_variables 0 (take 4 state))"
    using md5_calls_operations [OF refl, of "take 4 state" 64 data] assms by simp_all
  ultimately show ?thesis using assms unfolding mbedtls_internal_md5_process_def md5_compress_def Let_def by simp
qed

lemma length_md5_compress: "length s = 4 \<Longrightarrow> length (md5_compress s d) = 4"
proof -
  assume l: "length s = 4"
  have r: "length (md5_operation d i x) = length x" for i x
    by (cases "(d, i, x)" rule: md5_operation.cases) simp_all
  have "length (fold (md5_operation d) ts x) = length x" for ts x
    by (induction ts arbitrary: x) (simp_all add: r)
  then show ?thesis using l by (simp add: md5_compress_def)
qed

section \<open>The hash function\<close>

interpretation md5: block_hash 64 8 mbedtls_internal_md5_process "\<lambda>s d. snd (mbedtls_internal_md5_process s d)"
  md5_put_length "little_endian 8" md5_iv
proof unfold_locales
  show "mbedtls_internal_md5_process s d = (0, snd (mbedtls_internal_md5_process s d))" for s d
    by (simp add: mbedtls_internal_md5_process_def Let_def)
  show "\<exists>k. (64 :: nat) = 2 ^ k \<and> k \<le> LENGTH(32)" by (rule exI [of _ 6]) simp
qed (simp_all add: md5_put_length_def encode_32 [simplified])

lemma md5_started: "md5.absorbed (snd (mbedtls_md5_starts mbedtls_md5_init)) []"
  by (rule md5.absorbed_start) (simp_all add: mbedtls_md5_starts_def mbedtls_md5_init_def)

definition md5_digest :: "bytes \<Rightarrow> bytes" where
  "md5_digest m = concat (map put_uint32_le (md_hash 64 8 (little_endian 8) md5_compress md5_iv m))"

lemma md5_hash_eq:
  "md_hash 64 8 (little_endian 8) (\<lambda>s d. snd (mbedtls_internal_md5_process s d)) md5_iv m =
   md_hash 64 8 (little_endian 8) md5_compress md5_iv m"
  unfolding md_hash_def
  by (rule absorb_cong [where P = "\<lambda>s. length s = 4"])
    (simp_all add: md5_process_compress length_md5_compress md5_iv_def)

lemma md5_stream:
  assumes "\<forall>c\<in>set inputs. length c < 2 ^ 32"
  shows "\<exists>ctx. hash_updates mbedtls_md5_update (snd (mbedtls_md5_starts mbedtls_md5_init)) inputs = (0, ctx) \<and>
    mbedtls_md5_finish ctx output = (0, mbedtls_md5_init, buffer_put 0 (md5_digest (concat inputs)) output)"
proof -
  have l: "\<forall>c\<in>set inputs. length c < 2 ^ LENGTH(32)" using assms by simp
  from md5.stream_result [OF md5_started l] obtain ctx1 ctx2
    where s: "hash_updates (hash_update 64 mbedtls_internal_md5_process) (snd (mbedtls_md5_starts mbedtls_md5_init)) inputs = (0, ctx1)"
      "hash_finish_blocks 64 8 md5_put_length mbedtls_internal_md5_process ctx1 = (0, ctx2)"
      "hash_state ctx2 = md_hash 64 8 (little_endian 8) md5_compress md5_iv (concat inputs)"
    unfolding md5_hash_eq by metis
  then show ?thesis
    by (intro exI [of _ ctx1])
      (simp add: mbedtls_md5_update_def mbedtls_md5_finish_def md5_digest_def mbedtls_md5_free_def mbedtls_md5_init_def)
qed

end
