(* ===== verification/Md5_Sine.thy ===== *)
theory Md5_Sine
  imports Hash_Md5 Complex_Main
begin

text \<open>
  The table T of RFC 1321 is what the RFC says it is: the integer parts of \<open>2 ^ 32\<close> times the absolute
  values of the sines of 1 to 64. The sines are computed with 64 binary digits after the point, one from
  the other, by the multiplication with \<open>cis 1\<close>, whose error grows only linearly.
\<close>

section \<open>The point of the circle at angle 1\<close>

abbreviation cos_one :: int where "cos_one \<equiv> 9966818358784711825"
abbreviation sin_one :: int where "sin_one \<equiv> 15522399902203605024"

lemma add_errors: "\<bar>a - b\<bar> \<le> 1 / 2 ^ 64 \<Longrightarrow> \<bar>b - c\<bar> \<le> 1 / 2 ^ 64 \<Longrightarrow> \<bar>a - c\<bar> \<le> 1 / 2 ^ 63" for a b c :: real
  using abs_triangle_ineq [of "a - b" "b - c"] by simp

lemma one_approx:
  "\<bar>sin 1 - real_of_int sin_one / 2 ^ 64\<bar> \<le> 1 / 2 ^ 63" "\<bar>cos 1 - real_of_int cos_one / 2 ^ 64\<bar> \<le> 1 / 2 ^ 63"
proof -
  have "\<bar>sin 1 - (\<Sum>m<24. sin_coeff m * 1 ^ m)\<bar> \<le> inverse (fact 24) * \<bar>1\<bar> ^ 24" by (rule Maclaurin_sin_bound)
  then have s: "\<bar>sin 1 - (\<Sum>m<24. sin_coeff m)\<bar> \<le> 1 / 2 ^ 64" by (simp add: fact_numeral)
  have "\<bar>(\<Sum>m<24. sin_coeff m) - real_of_int sin_one / 2 ^ 64\<bar> \<le> 1 / 2 ^ 64"
    by (simp add: sin_coeff_def lessThan_nat_numeral fact_numeral)
  with s show "\<bar>sin 1 - real_of_int sin_one / 2 ^ 64\<bar> \<le> 1 / 2 ^ 63" by (rule add_errors)
  obtain t :: real where t: "cos 1 = (\<Sum>m<24. cos_coeff m * 1 ^ m) + cos (t + 1 / 2 * real 24 * pi) / fact 24 * 1 ^ 24"
    using Maclaurin_cos_expansion [of 1 24] by blast
  have "\<bar>cos (t + 1 / 2 * real 24 * pi) / fact 24\<bar> \<le> 1 / fact 24" unfolding abs_divide by (simp add: divide_right_mono)
  also have "\<dots> \<le> 1 / 2 ^ 64" by (simp add: fact_numeral)
  finally have "\<bar>cos 1 - (\<Sum>m<24. cos_coeff m)\<bar> \<le> 1 / 2 ^ 64" using t by simp
  moreover have "\<bar>(\<Sum>m<24. cos_coeff m) - real_of_int cos_one / 2 ^ 64\<bar> \<le> 1 / 2 ^ 64"
    by (simp add: cos_coeff_def lessThan_nat_numeral fact_numeral)
  ultimately show "\<bar>cos 1 - real_of_int cos_one / 2 ^ 64\<bar> \<le> 1 / 2 ^ 63" by (rule add_errors)
qed

section \<open>Around the circle\<close>

definition next_point :: "int \<times> int \<Rightarrow> int \<times> int" where
  "next_point p = (case p of (c, s) \<Rightarrow>
     ((c * cos_one - s * sin_one) div 2 ^ 64, (c * sin_one + s * cos_one) div 2 ^ 64))"

definition point :: "int \<times> int \<Rightarrow> complex" where
  "point p = Complex (real_of_int (fst p) / 2 ^ 64) (real_of_int (snd p) / 2 ^ 64)"

lemma point_one: "cmod (point (cos_one, sin_one)) \<le> 1" "cmod (cis 1 - point (cos_one, sin_one)) \<le> 2 / 2 ^ 63"
proof -
  have "(real_of_int cos_one / 2 ^ 64)\<^sup>2 + (real_of_int sin_one / 2 ^ 64)\<^sup>2 \<le> 1" by (simp add: power2_eq_square)
  then show "cmod (point (cos_one, sin_one)) \<le> 1" by (simp add: point_def cmod_def)
  have "cmod (cis 1 - point (cos_one, sin_one)) \<le> \<bar>cos 1 - real_of_int cos_one / 2 ^ 64\<bar> + \<bar>sin 1 - real_of_int sin_one / 2 ^ 64\<bar>"
    using cmod_le [of "cis 1 - point (cos_one, sin_one)"] by (simp add: point_def)
  with one_approx show "cmod (cis 1 - point (cos_one, sin_one)) \<le> 2 / 2 ^ 63" by simp
qed

lemma div_error: "\<bar>real_of_int (x div 2 ^ 64) - real_of_int x / 2 ^ 64\<bar> \<le> 1"
proof -
  define q r where "q = x div 2 ^ 64" and "r = x mod 2 ^ 64"
  have "x = 2 ^ 64 * q + r" by (simp add: q_def r_def)
  then have "real_of_int x / 2 ^ 64 = real_of_int q + real_of_int r / 2 ^ 64" by (simp add: field_simps)
  moreover have "0 \<le> r" "r < 2 ^ 64" by (simp_all add: r_def)
  then have "0 \<le> real_of_int r / 2 ^ 64" "real_of_int r / 2 ^ 64 \<le> 1" by simp_all
  ultimately show ?thesis unfolding q_def [symmetric] by linarith
qed

lemma scaled_error: "z = (a - b) / 2 ^ 64 \<Longrightarrow> \<bar>b - a\<bar> \<le> 1 \<Longrightarrow> \<bar>z\<bar> \<le> 1 / 2 ^ 64" for z a b :: real
  by (simp add: abs_minus_commute divide_right_mono)

lemma next_point_error: "cmod (point p * point (cos_one, sin_one) - point (next_point p)) \<le> 1 / 2 ^ 63"
proof -
  obtain c s where p: "p = (c, s)" by (cases p)
  let ?x = "c * cos_one - s * sin_one" and ?y = "c * sin_one + s * cos_one"
  let ?z = "point p * point (cos_one, sin_one) - point (next_point p)"
  have z: "Re ?z = (real_of_int ?x / 2 ^ 64 - real_of_int (?x div 2 ^ 64)) / 2 ^ 64"
    "Im ?z = (real_of_int ?y / 2 ^ 64 - real_of_int (?y div 2 ^ 64)) / 2 ^ 64"
    by (simp_all add: point_def next_point_def p diff_divide_distrib add_divide_distrib)
  note scaled_error [OF z(1) div_error] scaled_error [OF z(2) div_error]
  with cmod_le [of ?z] show ?thesis by simp
qed

lemma points_error: "cmod (cis (real n) - point ((next_point ^^ n) (2 ^ 64, 0))) \<le> real n * 6 / 2 ^ 64"
proof (induction n)
  case 0
  show ?case by (simp add: point_def Complex_eq_1)
next
  case (Suc n)
  let ?p = "(next_point ^^ n) (2 ^ 64, 0)" and ?w = "point (cos_one, sin_one)"
  have "cis (real (Suc n)) - point (next_point ?p) =
      cis (real n) * (cis 1 - ?w) + (cis (real n) - point ?p) * ?w + (point ?p * ?w - point (next_point ?p))"
    by (simp add: cis_mult algebra_simps)
  then have "cmod (cis (real (Suc n)) - point (next_point ?p)) \<le>
      cmod (cis (real n)) * cmod (cis 1 - ?w) + cmod (cis (real n) - point ?p) * cmod ?w + cmod (point ?p * ?w - point (next_point ?p))"
    by (metis (no_types, lifting) norm_triangle_mono norm_mult order_refl)
  moreover have "cmod (cis (real n) - point ?p) * cmod ?w \<le> real n * 6 / 2 ^ 64 * 1"
    using Suc.IH point_one(1) by (intro mult_mono) simp_all
  ultimately show ?case using point_one(2) next_point_error [of ?p] by (simp add: field_simps)
qed

section \<open>The table\<close>

text \<open>The values of a list are the integer parts for \<open>n\<close>, \<open>n + 1\<close> and so on, with room for the error.\<close>

fun sines_fit :: "int list \<Rightarrow> int \<Rightarrow> int \<times> int \<Rightarrow> bool" where
  "sines_fit [] n p = True"
| "sines_fit (t # ts) n p \<longleftrightarrow> t * 2 ^ 32 + 6 * n \<le> \<bar>snd p\<bar> \<and> \<bar>snd p\<bar> + 6 * n < (t + 1) * 2 ^ 32 \<and> sines_fit ts (n + 1) (next_point p)"

lemma floor_within:
  fixes a b e :: real
  assumes "\<bar>a - b / 2 ^ 64\<bar> \<le> e / 2 ^ 64" "real_of_int t * 2 ^ 32 + e \<le> b" "b + e < (real_of_int t + 1) * 2 ^ 32"
  shows "\<lfloor>2 ^ 32 * a\<rfloor> = t"
  using assms by (simp add: floor_eq_iff abs_le_iff field_simps)

lemma sines_fit_nth:
  "sines_fit ts (int n) ((next_point ^^ n) (2 ^ 64, 0)) \<Longrightarrow> i < length ts \<Longrightarrow> \<lfloor>2 ^ 32 * \<bar>sin (real (n + i))\<bar>\<rfloor> = ts ! i"
proof (induction ts arbitrary: n i)
  case (Cons t ts)
  show ?case
  proof (cases i)
    case (Suc j)
    have "(next_point ^^ Suc n) (2 ^ 64, 0) = next_point ((next_point ^^ n) (2 ^ 64, 0))" by simp
    then have "sines_fit ts (int (Suc n)) ((next_point ^^ Suc n) (2 ^ 64, 0))" using Cons.prems(1) by (simp add: add.commute)
    from Cons.IH [OF this, of j] show ?thesis using Cons.prems(2) Suc by simp
  next
    case 0
    let ?s = "snd ((next_point ^^ n) (2 ^ 64, 0))"
    have "\<bar>sin (real n) - real_of_int ?s / 2 ^ 64\<bar> \<le> real n * 6 / 2 ^ 64"
      using abs_Im_le_cmod [of "cis (real n) - point ((next_point ^^ n) (2 ^ 64, 0))"] points_error [of n] by (simp add: point_def)
    then have "\<bar>\<bar>sin (real n)\<bar> - \<bar>real_of_int ?s\<bar> / 2 ^ 64\<bar> \<le> real n * 6 / 2 ^ 64" by (simp add: abs_if split: if_splits)
    moreover have "real_of_int (t * 2 ^ 32 + 6 * int n) \<le> real_of_int \<bar>?s\<bar>" "real_of_int (\<bar>?s\<bar> + 6 * int n) < real_of_int ((t + 1) * 2 ^ 32)"
      using Cons.prems(1) unfolding of_int_le_iff of_int_less_iff by simp_all
    then have "real_of_int t * 2 ^ 32 + real n * 6 \<le> \<bar>real_of_int ?s\<bar>" "\<bar>real_of_int ?s\<bar> + real n * 6 < (real_of_int t + 1) * 2 ^ 32"
      by (simp_all add: algebra_simps)
    ultimately have "\<lfloor>2 ^ 32 * \<bar>sin (real n)\<bar>\<rfloor> = t" by (rule floor_within)
    then show ?thesis by (simp add: 0)
  qed
qed simp

lemma md5_T_fits: "sines_fit (map uint md5_T) 1 (next_point (2 ^ 64, 0))"
  by code_simp

lemma md5_T_sines:
  assumes "i < 64"
  shows "uint (md5_T ! i) = \<lfloor>2 ^ 32 * \<bar>sin (real (i + 1))\<bar>\<rfloor>"
proof -
  have "length md5_T = 64" by (simp add: md5_T_def)
  then show ?thesis using sines_fit_nth [of "map uint md5_T" 1 i] md5_T_fits assms by simp
qed

end
