(* ===== verification/Hash_Sha3.thy ===== *)
theory Hash_Sha3
  imports Block_Hash
begin

text \<open>
  drivers/builtin/src/sha3.c: the permutation Keccak-f[1600] and the SHA-3 and SHAKE functions
  over it, with the step mappings and the sponge of FIPS 202. The index, the output length and
  the block size stay below 200, so they are natural numbers here.
\<close>

section \<open>The code\<close>

datatype mbedtls_sha3_id =
  MBEDTLS_SHA3_NONE | MBEDTLS_SHA3_224 | MBEDTLS_SHA3_256 | MBEDTLS_SHA3_384 | MBEDTLS_SHA3_512
  | MBEDTLS_SHA3_SHAKE128 | MBEDTLS_SHA3_SHAKE256

record mbedtls_sha3_context =
  sha3_state :: "u64 list"
  sha3_index :: nat
  sha3_olen :: nat
  max_block_size :: nat
  sha3_finished :: nat

definition MBEDTLS_ERR_SHA3_BAD_INPUT_DATA :: int where
  "MBEDTLS_ERR_SHA3_BAD_INPUT_DATA = - 135"

definition iota_H :: "nat \<Rightarrow> nat \<Rightarrow> nat \<Rightarrow> u8" where
  "iota_H b63 b31 b15 = push_bit 6 (word_of_nat b63) OR push_bit 5 (word_of_nat b31) OR push_bit 4 (word_of_nat b15)"

definition iota_r_packed :: "u8 list" where
  "iota_r_packed = [
    iota_H 0 0 0 OR 0x01, iota_H 0 0 1 OR 0x82, iota_H 1 0 1 OR 0x8a, iota_H 1 1 1 OR 0x00,
    iota_H 0 0 1 OR 0x8b, iota_H 0 1 0 OR 0x01, iota_H 1 1 1 OR 0x81, iota_H 1 0 1 OR 0x09,
    iota_H 0 0 0 OR 0x8a, iota_H 0 0 0 OR 0x88, iota_H 0 1 1 OR 0x09, iota_H 0 1 0 OR 0x0a,
    iota_H 0 1 1 OR 0x8b, iota_H 1 0 0 OR 0x8b, iota_H 1 0 1 OR 0x89, iota_H 1 0 1 OR 0x03,
    iota_H 1 0 1 OR 0x02, iota_H 1 0 0 OR 0x80, iota_H 0 0 1 OR 0x0a, iota_H 1 1 0 OR 0x0a,
    iota_H 1 1 1 OR 0x81, iota_H 1 0 1 OR 0x80, iota_H 0 1 0 OR 0x01, iota_H 1 1 1 OR 0x08]"

definition keccak_rho_table :: "u32 list" where
  "keccak_rho_table = [0x3f022425, 0x1c143a09, 0x2c3d3615, 0x27191713, 0x312b382e, 0x3e030832]"

definition keccak_pi_table :: "u32 list" where
  "keccak_pi_table = [0x110b070a, 0x10050312, 0x04181508, 0x0d13170f, 0x0e14020c, 0x01060916]"

definition ROTR64 :: "u64 \<Rightarrow> nat \<Rightarrow> u64" where
  "ROTR64 x y = push_bit (64 - y) x OR drop_bit y x"

definition sha3_ABSORB :: "nat \<Rightarrow> u64 \<Rightarrow> u64 list \<Rightarrow> u64 list" where
  "sha3_ABSORB idx v s = s[idx div 8 := s ! (idx div 8) XOR push_bit (8 * (idx mod 8)) v]"

definition sha3_SQUEEZE :: "nat \<Rightarrow> u64 list \<Rightarrow> u8" where
  "sha3_SQUEEZE idx s = ucast (drop_bit (8 * (idx mod 8)) (s ! (idx div 8)))"

text \<open>The five steps of a round, in the form of the loops (the unrolled forms are the same statements).\<close>

definition keccak_theta :: "u64 list \<Rightarrow> u64 list" where
  "keccak_theta s =
    (let lane = map (\<lambda>i. s ! i XOR s ! (i + 5) XOR s ! (i + 10) XOR s ! (i + 15) XOR s ! (i + 20)) [0..<5]
     in fold (\<lambda>i s. let t = lane ! ((i + 4) mod 5) XOR ROTR64 (lane ! ((i + 1) mod 5)) 63
          in s[i := s ! i XOR t, i + 5 := s ! (i + 5) XOR t, i + 10 := s ! (i + 10) XOR t,
               i + 15 := s ! (i + 15) XOR t, i + 20 := s ! (i + 20) XOR t]) [0..<5] s)"

definition keccak_rho :: "u64 list \<Rightarrow> u64 list" where
  "keccak_rho s = fold (\<lambda>i s.
     let r = keccak_rho_table ! ((i - 1) div 4)
     in s[i := ROTR64 (s ! i) (unat (mbedtls_byte 3 r)), i + 1 := ROTR64 (s ! (i + 1)) (unat (mbedtls_byte 2 r)),
          i + 2 := ROTR64 (s ! (i + 2)) (unat (mbedtls_byte 1 r)), i + 3 := ROTR64 (s ! (i + 3)) (unat (mbedtls_byte 0 r))])
     [1, 5, 9, 13, 17, 21] s"

text \<open>\<open>SWAP (s[k], t)\<close>\<close>

definition keccak_swap :: "nat \<Rightarrow> u64 list \<times> u64 \<Rightarrow> u64 list \<times> u64" where
  "keccak_swap k = (\<lambda>(s, t). (s[k := t], s ! k))"

definition keccak_pi :: "u64 list \<Rightarrow> u64 list" where
  "keccak_pi s = fst (fold (\<lambda>p st.
     keccak_swap (unat (mbedtls_byte 3 p)) (keccak_swap (unat (mbedtls_byte 2 p))
       (keccak_swap (unat (mbedtls_byte 1 p)) (keccak_swap (unat (mbedtls_byte 0 p)) st)))) keccak_pi_table (s, s ! 1))"

definition keccak_chi :: "u64 list \<Rightarrow> u64 list" where
  "keccak_chi s = fold (\<lambda>i s.
     let lane = [s ! i, s ! (i + 1), s ! (i + 2), s ! (i + 3), s ! (i + 4)]
     in s[i := s ! i XOR (NOT (lane ! 1) AND lane ! 2), i + 1 := s ! (i + 1) XOR (NOT (lane ! 2) AND lane ! 3),
          i + 2 := s ! (i + 2) XOR (NOT (lane ! 3) AND lane ! 4), i + 3 := s ! (i + 3) XOR (NOT (lane ! 4) AND lane ! 0),
          i + 4 := s ! (i + 4) XOR (NOT (lane ! 0) AND lane ! 1)]) [0, 5, 10, 15, 20] s"

definition keccak_iota_constant :: "nat \<Rightarrow> u64" where
  "keccak_iota_constant round =
    (let r = ucast (iota_r_packed ! round)
     in push_bit 57 (r AND 0x40) OR push_bit 26 (r AND 0x20) OR push_bit 11 (r AND 0x10) OR (r AND 0x8f))"

definition keccak_iota :: "nat \<Rightarrow> u64 list \<Rightarrow> u64 list" where
  "keccak_iota round s = s[0 := s ! 0 XOR keccak_iota_constant round]"

definition keccak_f1600 :: "u64 list \<Rightarrow> u64 list" where
  "keccak_f1600 s = fold (\<lambda>round s. keccak_iota round (keccak_chi (keccak_pi (keccak_rho (keccak_theta s))))) [0..<24] s"

definition mbedtls_sha3_init :: mbedtls_sha3_context where
  "mbedtls_sha3_init =
    \<lparr>sha3_state = replicate 25 0, sha3_index = 0, sha3_olen = 0, max_block_size = 0, sha3_finished = 0\<rparr>"

definition mbedtls_sha3_free :: "mbedtls_sha3_context \<Rightarrow> mbedtls_sha3_context" where
  "mbedtls_sha3_free ctx =
    \<lparr>sha3_state = replicate 25 0, sha3_index = 0, sha3_olen = 0, max_block_size = 0, sha3_finished = 0\<rparr>"

definition mbedtls_sha3_clone :: "mbedtls_sha3_context \<Rightarrow> mbedtls_sha3_context" where
  "mbedtls_sha3_clone src = src"

definition mbedtls_sha3_starts :: "mbedtls_sha3_context \<Rightarrow> mbedtls_sha3_id \<Rightarrow> int \<times> mbedtls_sha3_context" where
  "mbedtls_sha3_starts ctx sha3_id =
    (let ctx = mbedtls_sha3_init in
     case sha3_id of
       MBEDTLS_SHA3_224 \<Rightarrow> (0, ctx\<lparr>sha3_olen := 224 div 8, max_block_size := 1152 div 8\<rparr>)
     | MBEDTLS_SHA3_256 \<Rightarrow> (0, ctx\<lparr>sha3_olen := 256 div 8, max_block_size := 1088 div 8\<rparr>)
     | MBEDTLS_SHA3_384 \<Rightarrow> (0, ctx\<lparr>sha3_olen := 384 div 8, max_block_size := 832 div 8\<rparr>)
     | MBEDTLS_SHA3_512 \<Rightarrow> (0, ctx\<lparr>sha3_olen := 512 div 8, max_block_size := 576 div 8\<rparr>)
     | MBEDTLS_SHA3_SHAKE128 \<Rightarrow> (0, ctx\<lparr>max_block_size := 1344 div 8\<rparr>)
     | MBEDTLS_SHA3_SHAKE256 \<Rightarrow> (0, ctx\<lparr>max_block_size := 1088 div 8\<rparr>)
     | MBEDTLS_SHA3_NONE \<Rightarrow> (MBEDTLS_ERR_SHA3_BAD_INPUT_DATA, ctx))"

text \<open>One byte without and with the step to the next block, and the loop over 8-byte chunks.\<close>

definition sha3_align_byte :: "u8 \<Rightarrow> mbedtls_sha3_context \<Rightarrow> mbedtls_sha3_context" where
  "sha3_align_byte b ctx =
     ctx\<lparr>sha3_state := sha3_ABSORB (sha3_index ctx) (ucast b) (sha3_state ctx), sha3_index := sha3_index ctx + 1\<rparr>"

definition sha3_next :: "nat \<Rightarrow> mbedtls_sha3_context \<Rightarrow> mbedtls_sha3_context" where
  "sha3_next index ctx =
    (let ctx = ctx\<lparr>sha3_index := index mod max_block_size ctx\<rparr>
     in if sha3_index ctx = 0 then ctx\<lparr>sha3_state := keccak_f1600 (sha3_state ctx)\<rparr> else ctx)"

definition sha3_absorb_byte :: "u8 \<Rightarrow> mbedtls_sha3_context \<Rightarrow> mbedtls_sha3_context" where
  "sha3_absorb_byte b ctx =
     sha3_next (sha3_index ctx + 1) (ctx\<lparr>sha3_state := sha3_ABSORB (sha3_index ctx) (ucast b) (sha3_state ctx)\<rparr>)"

function sha3_absorb_chunks :: "mbedtls_sha3_context \<Rightarrow> bytes \<Rightarrow> mbedtls_sha3_context \<times> bytes" where
  "sha3_absorb_chunks ctx input =
    (if length input < 8 then (ctx, input)
     else
       let ctx = ctx\<lparr>sha3_state := sha3_ABSORB (sha3_index ctx) (get_uint64_le input 0) (sha3_state ctx)\<rparr>
       in sha3_absorb_chunks (sha3_next (sha3_index ctx + 8) ctx) (drop 8 input))"
  by auto
termination by (relation "measure (\<lambda>(_, input). length input)") auto

declare sha3_absorb_chunks.simps [simp del]

definition mbedtls_sha3_update :: "mbedtls_sha3_context \<Rightarrow> bytes \<Rightarrow> int \<times> mbedtls_sha3_context" where
  "mbedtls_sha3_update ctx input =
    (let (ctx, input) =
       (if length input \<ge> 8 then
          let align_bytes = 8 - sha3_index ctx mod 8;
              (ctx, input) =
                (if align_bytes \<noteq> 0 then
                   let ctx = fold sha3_align_byte (take align_bytes input) ctx
                   in (sha3_next (sha3_index ctx) ctx, drop align_bytes input)
                 else (ctx, input))
          in sha3_absorb_chunks ctx input
        else (ctx, input))
     in (0, fold sha3_absorb_byte input ctx))"

fun sha3_squeeze :: "nat \<Rightarrow> mbedtls_sha3_context \<Rightarrow> bytes \<times> mbedtls_sha3_context" where
  "sha3_squeeze 0 ctx = ([], ctx)"
| "sha3_squeeze (Suc olen) ctx =
    (let b = sha3_SQUEEZE (sha3_index ctx) (sha3_state ctx);
         (bs, ctx) = sha3_squeeze olen (sha3_next (sha3_index ctx + 1) ctx)
     in (b # bs, ctx))"

text \<open>The result holds the bytes written at the start of the output buffer.\<close>

definition mbedtls_sha3_finish ::
    "mbedtls_sha3_context \<Rightarrow> bytes \<Rightarrow> nat \<Rightarrow> int \<times> mbedtls_sha3_context \<times> bytes" where
  "mbedtls_sha3_finish ctx out olen =
    (if sha3_olen ctx > 0 \<and> sha3_olen ctx > olen
     then (MBEDTLS_ERR_SHA3_BAD_INPUT_DATA, mbedtls_sha3_free ctx, out)
     else
       let (olen, xor_byte) = (if sha3_olen ctx > 0 then (sha3_olen ctx, 0x06) else (olen, 0x1F));
           ctx = (if sha3_finished ctx = 0
                  then ctx\<lparr>sha3_state := keccak_f1600 (sha3_ABSORB (max_block_size ctx - 1) 0x80
                             (sha3_ABSORB (sha3_index ctx) xor_byte (sha3_state ctx))),
                           sha3_index := 0, sha3_finished := 1\<rparr>
                  else ctx);
           (bs, ctx) = sha3_squeeze olen ctx;
           out = buffer_put 0 bs out
       in if sha3_olen ctx > 0 then (0, mbedtls_sha3_free ctx, out) else (0, ctx, out))"

definition mbedtls_sha3 :: "mbedtls_sha3_id \<Rightarrow> bytes \<Rightarrow> bytes \<Rightarrow> nat \<Rightarrow> int \<times> bytes" where
  "mbedtls_sha3 sha3_id input out olen =
    (let (ret, ctx) = mbedtls_sha3_starts mbedtls_sha3_init sha3_id
     in if ret \<noteq> 0 then (ret, out)
        else
          let (ret, ctx) = mbedtls_sha3_update ctx input
          in if ret \<noteq> 0 then (ret, out)
             else
               let (ret, ctx, out) = mbedtls_sha3_finish ctx out olen
               in (ret, out))"

end
