(* ===== verification/Sha3_Standard.thy ===== *)
theory Sha3_Standard
  imports Hash_Sha3
begin

text \<open>
  sha3.c against FIPS 202: the step mappings and round constants of Keccak-f[1600], the sponge
  construction on bytes, and the streaming functions, whose word-wise loop over the input is a
  byte-by-byte absorption.
\<close>

section \<open>The permutation of FIPS 202\<close>

text \<open>
  The state as an array of lanes: lane \<open>(x, y)\<close> is at position \<open>x + 5 y\<close>. The step mappings of
  section 3.2 of the standard.
\<close>

definition fips_lane :: "u64 list \<Rightarrow> nat \<Rightarrow> nat \<Rightarrow> u64" where
  "fips_lane s x y = s ! (x mod 5 + 5 * (y mod 5))"

definition fips_map :: "(nat \<Rightarrow> nat \<Rightarrow> u64) \<Rightarrow> u64 list" where
  "fips_map f = map (\<lambda>i. f (i mod 5) (i div 5)) [0..<25]"

definition fips_theta :: "u64 list \<Rightarrow> u64 list" where
  "fips_theta s =
    (let C = (\<lambda>x. fips_lane s x 0 XOR fips_lane s x 1 XOR fips_lane s x 2 XOR fips_lane s x 3 XOR fips_lane s x 4);
         D = (\<lambda>x. C (x + 4) XOR word_rotl 1 (C (x + 1)))
     in fips_map (\<lambda>x y. fips_lane s x y XOR D x))"

text \<open>The positions visited by the loop of step mapping rho, with the offset of each.\<close>

fun fips_walk :: "nat \<Rightarrow> nat \<times> nat" where
  "fips_walk 0 = (1, 0)"
| "fips_walk (Suc t) = (let (x, y) = fips_walk t in (y, (2 * x + 3 * y) mod 5))"

definition fips_offset :: "nat \<Rightarrow> nat \<Rightarrow> nat" where
  "fips_offset x y =
    (case List.find (\<lambda>t. fips_walk t = (x, y)) [0..<24] of None \<Rightarrow> 0 | Some t \<Rightarrow> ((t + 1) * (t + 2) div 2) mod 64)"

definition fips_rho :: "u64 list \<Rightarrow> u64 list" where
  "fips_rho s = fips_map (\<lambda>x y. word_rotl (fips_offset x y) (fips_lane s x y))"

definition fips_pi :: "u64 list \<Rightarrow> u64 list" where
  "fips_pi s = fips_map (\<lambda>x y. fips_lane s (x + 3 * y) x)"

definition fips_chi :: "u64 list \<Rightarrow> u64 list" where
  "fips_chi s = fips_map (\<lambda>x y. fips_lane s x y XOR (NOT (fips_lane s (x + 1) y) AND fips_lane s (x + 2) y))"

text \<open>The round constants by the shift register of section 3.2.5.\<close>

definition fips_rc_step :: "bool list \<Rightarrow> bool list" where
  "fips_rc_step R =
    (let R = False # R
     in [R ! 0 \<noteq> R ! 8, R ! 1, R ! 2, R ! 3, R ! 4 \<noteq> R ! 8, R ! 5 \<noteq> R ! 8, R ! 6 \<noteq> R ! 8, R ! 7])"

definition fips_rc :: "nat \<Rightarrow> bool" where
  "fips_rc t = hd ((fips_rc_step ^^ (t mod 255)) [True, False, False, False, False, False, False, False])"

definition fips_RC :: "nat \<Rightarrow> u64" where
  "fips_RC ir = foldr (\<lambda>j w. (if fips_rc (j + 7 * ir) then push_bit (2 ^ j - 1) 1 else 0) OR w) [0..<7] 0"

definition fips_iota :: "nat \<Rightarrow> u64 list \<Rightarrow> u64 list" where
  "fips_iota ir s = fips_map (\<lambda>x y. if x = 0 \<and> y = 0 then fips_lane s x y XOR fips_RC ir else fips_lane s x y)"

definition keccak_p :: "u64 list \<Rightarrow> u64 list" where
  "keccak_p s = fold (\<lambda>ir s. fips_iota ir (fips_chi (fips_pi (fips_rho (fips_theta s))))) [0..<24] s"

lemma length_fips [simp]: "length (fips_map f) = 25" "length (fips_theta s) = 25" "length (fips_rho s) = 25"
  "length (fips_pi s) = 25" "length (fips_chi s) = 25" "length (fips_iota k s) = 25"
  by (simp_all add: fips_map_def fips_theta_def fips_rho_def fips_pi_def fips_chi_def fips_iota_def Let_def)

lemma lanes_25: "length (s :: u64 list) = 25 \<Longrightarrow> \<exists>f. s = map f [0..<25]"
  by (metis map_nth)

lemma fips_positions: "[0..<25] =
  [0, 1, 2, 3, 4, 5, 6, 7, 8, 9, 10, 11, 12, 13, 14, 15, 16, 17, 18, 19, 20, 21, 22, 23, 24 :: nat]"
  by (simp add: upt_rec)

lemma ROTR64_rotl:
  assumes "0 < n" "n < 64"
  shows "ROTR64 x n = word_rotl (64 - n) x"
  using rotl_shifts [of "64 - n" x] assms by (simp add: ROTR64_def or.commute)

lemma upt_5: "[0..<5] = [0, 1, 2, 3, 4 :: nat]"
  by (simp add: upt_rec)

lemma keccak_theta_fips: "length s = 25 \<Longrightarrow> keccak_theta s = fips_theta s"
  by (drule lanes_25, elim exE, hypsubst)
    (simp add: keccak_theta_def fips_theta_def fips_map_def fips_positions fips_lane_def Let_def ROTR64_rotl upt_5 ac_simps)
lemma keccak_chi_fips: "length s = 25 \<Longrightarrow> keccak_chi s = fips_chi s"
  by (drule lanes_25, elim exE, hypsubst)
    (simp add: keccak_chi_def fips_chi_def fips_map_def fips_positions fips_lane_def)
lemma keccak_pi_fips: "length s = 25 \<Longrightarrow> keccak_pi s = fips_pi s"
  by (drule lanes_25, elim exE, hypsubst)
    (simp add: keccak_pi_def keccak_pi_table_def keccak_swap_def mbedtls_byte_def fips_pi_def fips_map_def fips_positions fips_lane_def)

lemma fips_offsets: "map (\<lambda>(x, y). fips_offset x y) (concat (map (\<lambda>y. map (\<lambda>x. (x, y)) [0, 1, 2, 3, 4]) [0, 1, 2, 3, 4])) =
  [0, 1, 62, 28, 27, 36, 44, 6, 55, 20, 3, 10, 43, 25, 39, 41, 45, 15, 21, 8, 18, 2, 61, 56, 14]"
  by code_simp

lemma keccak_rho_fips: "length s = 25 \<Longrightarrow> keccak_rho s = fips_rho s"
proof (drule lanes_25, elim exE, hypsubst)
  fix f :: "nat \<Rightarrow> u64"
  have "word_rotl 0 (f 0) = f 0" by (rule bit_word_eqI) (simp add: bit_simps)
  then show "keccak_rho (map f [0..<25]) = fips_rho (map f [0..<25])"
    using fips_offsets
    by (simp add: keccak_rho_def keccak_rho_table_def mbedtls_byte_def ROTR64_rotl fips_rho_def fips_map_def
        fips_positions fips_lane_def)
qed

text \<open>The output bits of the shift register, computed in one run.\<close>

primrec fips_rc_run :: "bool list \<Rightarrow> nat \<Rightarrow> bool list" where
  "fips_rc_run R 0 = []"
| "fips_rc_run R (Suc n) = hd R # fips_rc_run (fips_rc_step R) n"

lemma fips_rc_run_nth: "t < n \<Longrightarrow> fips_rc_run R n ! t = hd ((fips_rc_step ^^ t) R)"
proof (induction n arbitrary: R t)
  case (Suc n)
  then show ?case by (cases t) (simp_all add: funpow_swap1)
qed simp

lemma fips_rc_eq: "t < 168 \<Longrightarrow> fips_rc t = fips_rc_run [True, False, False, False, False, False, False, False] 168 ! t"
  by (simp add: fips_rc_def fips_rc_run_nth)

lemma fips_rc_bits: "fips_rc_run [True, False, False, False, False, False, False, False] 168 =
   [True, False, False, False, False, False, False, False, True, False, True, True, False, False, False, True,
    True, True, True, False, True, False, False, False, False, True, True, True, True, True, True, True, True,
    False, False, True, False, False, False, False, True, False, True, False, False, True, True, True, True, True,
    False, True, False, True, False, True, False, True, True, True, False, False, False, False, False, True, True,
    False, False, False, True, False, True, False, True, True, False, False, True, True, False, False, True,
    False, True, True, True, True, True, True, False, True, True, True, True, False, False, True, True, False,
    True, True, True, False, True, True, True, False, False, True, False, True, False, True, False, False, True,
    False, True, False, False, False, True, False, False, True, False, True, True, False, True, False, False,
    False, True, True, False, False, True, True, True, False, False, True, True, True, True, False, False, False,
    True, True, False, True, True, False, False, False, False, True, False, False, False, True, False, True, True,
    True]"
  by code_simp

lemma fips_RC_values: "map fips_RC [0..<24] =
   [0x1, 0x8082, 0x800000000000808a, 0x8000000080008000, 0x808b, 0x80000001, 0x8000000080008081, 0x8000000000008009, 0x8a, 0x88, 0x80008009, 0x8000000a, 0x8000808b, 0x800000000000008b, 0x8000000000008089, 0x8000000000008003, 0x8000000000008002, 0x8000000000000080, 0x800a, 0x800000008000000a, 0x8000000080008081, 0x8000000000008080, 0x80000001, 0x8000000080008008]"
  by (simp add: fips_RC_def fips_rc_eq fips_rc_bits upt_rec)

lemma keccak_iota_values: "map keccak_iota_constant [0..<24] =
   [0x1, 0x8082, 0x800000000000808a, 0x8000000080008000, 0x808b, 0x80000001, 0x8000000080008081, 0x8000000000008009, 0x8a, 0x88, 0x80008009, 0x8000000a, 0x8000808b, 0x800000000000008b, 0x8000000000008089, 0x8000000000008003, 0x8000000000008002, 0x8000000000000080, 0x800a, 0x800000008000000a, 0x8000000080008081, 0x8000000000008080, 0x80000001, 0x8000000080008008]"
  by (simp add: keccak_iota_constant_def iota_r_packed_def iota_H_def upt_rec)


lemma keccak_iota_fips: "length s = 25 \<Longrightarrow> k < 24 \<Longrightarrow> keccak_iota k s = fips_iota k s"
proof (drule lanes_25, elim exE, hypsubst)
  fix f :: "nat \<Rightarrow> u64"
  assume k: "k < 24"
  have "keccak_iota_constant k = map keccak_iota_constant [0..<24] ! k" using k by simp
  also have "\<dots> = map fips_RC [0..<24] ! k" by (simp only: fips_RC_values keccak_iota_values)
  also have "\<dots> = fips_RC k" using k by simp
  finally have "keccak_iota_constant k = fips_RC k" .
  then show "keccak_iota k (map f [0..<25]) = fips_iota k (map f [0..<25])"
    by (simp add: keccak_iota_def fips_iota_def fips_map_def fips_positions fips_lane_def)
qed

lemma keccak_f1600_fips:
  assumes "length s = 25"
  shows "keccak_f1600 s = keccak_p s"
proof -
  have "fold (\<lambda>round s. keccak_iota round (keccak_chi (keccak_pi (keccak_rho (keccak_theta s))))) ks s =
      fold (\<lambda>ir s. fips_iota ir (fips_chi (fips_pi (fips_rho (fips_theta s))))) ks s"
    if "set ks \<subseteq> {0..<24}" for ks
    using assms that
  proof (induction ks arbitrary: s)
    case (Cons k ks)
    then show ?case
      by (simp add: keccak_theta_fips keccak_rho_fips keccak_pi_fips keccak_chi_fips keccak_iota_fips)
  qed simp
  then show ?thesis by (simp add: keccak_f1600_def keccak_p_def)
qed

lemma length_keccak_p: "length s = 25 \<Longrightarrow> length (keccak_p s) = 25"
proof -
  assume l: "length s = 25"
  have "length (fold (\<lambda>ir s. fips_iota ir (fips_chi (fips_pi (fips_rho (fips_theta s))))) ks s) = 25" for ks
    using l by (induction ks arbitrary: s) simp_all
  then show ?thesis by (simp add: keccak_p_def)
qed

section \<open>Bytes of the state\<close>

lemma ucast_xor_split: "ucast (drop_bit n (x XOR y)) = (ucast (drop_bit n x) XOR ucast (drop_bit n y) :: u8)" for x y :: u64
  by (rule bit_word_eqI) (simp add: bit_simps)

lemma squeeze_absorb:
  assumes "length s = 25" "i < 200" "k < 200"
  shows "sha3_SQUEEZE k (sha3_ABSORB i (ucast b) s) = sha3_SQUEEZE k s XOR (if k = i then b else 0)"
proof (cases "k div 8 = i div 8")
  case True
  have l: "i div 8 < length s" using assms by simp
  have "k = i \<longleftrightarrow> k mod 8 = i mod 8" using True by (metis div_mult_mod_eq)
  moreover have "bit (ucast (drop_bit (8 * (k mod 8)) (push_bit (8 * (i mod 8)) (ucast b :: u64))) :: u8) n \<longleftrightarrow>
      n < 8 \<and> k mod 8 = i mod 8 \<and> bit b n" for n
  proof -
    have a: "k mod 8 < 8" "i mod 8 < 8" by simp_all
    show ?thesis
    proof (cases "k mod 8 = i mod 8")
      case True
      then show ?thesis using a by (auto simp: bit_simps dest: bit_imp_le_length)
    next
      case False
      then have "8 * (i mod 8) + 8 \<le> 8 * (k mod 8) \<or> 8 * (k mod 8) + 8 \<le> 8 * (i mod 8)" by linarith
      then show ?thesis using False by (auto simp: bit_simps dest: bit_imp_le_length)
    qed
  qed
  ultimately have b: "(ucast (drop_bit (8 * (k mod 8)) (push_bit (8 * (i mod 8)) (ucast b :: u64))) :: u8) =
      (if k = i then b else 0)"
    by (intro bit_word_eqI) auto
  then show ?thesis
    unfolding sha3_SQUEEZE_def sha3_ABSORB_def
    by (simp only: True nth_list_update_eq [OF l] ucast_xor_split b)
next
  case False
  then show ?thesis by (auto simp: sha3_SQUEEZE_def sha3_ABSORB_def)
qed

lemma squeeze_eqI:
  assumes "length s = 25" "length s' = 25" "\<And>k. k < 200 \<Longrightarrow> sha3_SQUEEZE k s = sha3_SQUEEZE k s'"
  shows "s = s'"
proof (rule nth_equalityI)
  fix i assume "i < length s"
  then have i: "i < 25" using assms(1) by simp
  show "s ! i = s' ! i"
  proof (rule bit_word_eqI)
    fix n assume n: "n < LENGTH(64)"
    have k: "8 * i + n div 8 < 200" "(8 * i + n div 8) div 8 = i" "(8 * i + n div 8) mod 8 = n div 8"
      using i n by simp_all
    have "bit (sha3_SQUEEZE (8 * i + n div 8) s) (n mod 8) = bit (sha3_SQUEEZE (8 * i + n div 8) s') (n mod 8)"
      using assms(3) [OF k(1)] by simp
    moreover have "8 * (n div 8) + n mod 8 = n" "n div 8 mod 8 = n div 8" using n by simp_all
    ultimately show "bit (s ! i) n = bit (s' ! i) n"
      by (simp add: sha3_SQUEEZE_def k bit_simps)
  qed
qed (use assms in simp)

text \<open>XOR of a string of bytes into the state, byte by byte.\<close>

primrec sha3_xor_at :: "nat \<Rightarrow> bytes \<Rightarrow> u64 list \<Rightarrow> u64 list" where
  "sha3_xor_at i [] s = s"
| "sha3_xor_at i (b # bs) s = sha3_xor_at (i + 1) bs (sha3_ABSORB i (ucast b) s)"

lemma length_ABSORB [simp]: "length (sha3_ABSORB i v s) = length s"
  by (simp add: sha3_ABSORB_def)

lemma length_xor_at [simp]: "length (sha3_xor_at i bs s) = length s"
  by (induction bs arbitrary: i s) simp_all

lemma squeeze_xor_at:
  assumes "length s = 25" "i + length bs \<le> 200" "k < 200"
  shows "sha3_SQUEEZE k (sha3_xor_at i bs s) =
    sha3_SQUEEZE k s XOR (if i \<le> k \<and> k < i + length bs then bs ! (k - i) else 0)"
  using assms
proof (induction bs arbitrary: i s)
  case (Cons b bs)
  then have "sha3_SQUEEZE k (sha3_xor_at (i + 1) bs (sha3_ABSORB i (ucast b) s)) =
      sha3_SQUEEZE k s XOR (if k = i then b else 0) XOR (if i + 1 \<le> k \<and> k < i + 1 + length bs then bs ! (k - (i + 1)) else 0)"
    by (simp add: squeeze_absorb)
  then show ?case using Cons.prems by (auto simp: nth_Cons')
qed auto

lemma sha3_xor_at_append: "sha3_xor_at i (a @ b) s = sha3_xor_at (i + length a) b (sha3_xor_at i a s)"
  by (induction a arbitrary: i s) simp_all

lemma bit_u8_high: "8 \<le> n \<Longrightarrow> \<not> bit (b :: u8) n"
  by (auto dest: bit_imp_le_length)

lemma byte_of_get_uint64_le:
  assumes "j < 8"
  shows "ucast (drop_bit (8 * j) (get_uint64_le d ofs)) = d ! (ofs + j)"
proof (rule bit_word_eqI)
  fix n assume n: "n < LENGTH(8)"
  from assms consider "j = 0" | "j = 1" | "j = 2" | "j = 3" | "j = 4" | "j = 5" | "j = 6" | "j = 7" by linarith
  then show "bit (ucast (drop_bit (8 * j) (get_uint64_le d ofs)) :: u8) n \<longleftrightarrow> bit (d ! (ofs + j)) n"
    using n by cases (simp_all add: get_uint64_le_def bit_simps bit_u8_high)
qed

lemma squeeze_absorb64:
  assumes "length s = 25" "i mod 8 = 0" "i < 200" "k < 200"
  shows "sha3_SQUEEZE k (sha3_ABSORB i (get_uint64_le d 0) s) =
    sha3_SQUEEZE k s XOR (if i \<le> k \<and> k < i + 8 then d ! (k - i) else 0)"
proof -
  have e: "8 * (k div 8) + k mod 8 = k" "8 * (i div 8) = i" "k mod 8 < 8" using assms(2) by auto
  show ?thesis
  proof (cases "k div 8 = i div 8")
    case True
    have l: "i div 8 < length s" using assms by simp
    have k: "i \<le> k" "k < i + 8" "k - i = k mod 8" using True e by linarith+
    have b: "ucast (drop_bit (8 * (k mod 8)) (get_uint64_le d 0)) = d ! (k - i)"
      unfolding k(3) using byte_of_get_uint64_le [of "k mod 8" d 0] by simp
    then show ?thesis
      unfolding sha3_SQUEEZE_def sha3_ABSORB_def assms(2) mult_0_right push_bit_0_id
      by (simp only: True nth_list_update_eq [OF l] ucast_xor_split b k simp_thms if_True id_apply)
  next
    case False
    then have "\<not> (i \<le> k \<and> k < i + 8)" using e by linarith
    then show ?thesis using False by (auto simp: sha3_SQUEEZE_def sha3_ABSORB_def)
  qed
qed

lemma absorb64_bytes:
  assumes "length s = 25" "i mod 8 = 0" "i < 200" "length d \<ge> 8"
  shows "sha3_ABSORB i (get_uint64_le d 0) s = sha3_xor_at i (take 8 d) s"
proof (rule squeeze_eqI)
  fix k :: nat assume k: "k < 200"
  have i: "i + 8 \<le> 200" using assms(2,3) by presburger
  then show "sha3_SQUEEZE k (sha3_ABSORB i (get_uint64_le d 0) s) = sha3_SQUEEZE k (sha3_xor_at i (take 8 d) s)"
    using assms k by (auto simp: squeeze_absorb64 squeeze_xor_at)
qed (simp_all add: assms)

section \<open>Absorbing byte by byte\<close>

definition sha3_rate_ok :: "mbedtls_sha3_context \<Rightarrow> bool" where
  "sha3_rate_ok ctx \<longleftrightarrow> 0 < max_block_size ctx \<and> max_block_size ctx \<le> 200 \<and> max_block_size ctx mod 8 = 0 \<and>
     length (sha3_state ctx) = 25 \<and> sha3_index ctx < max_block_size ctx"

lemma length_keccak_f1600 [simp]: "length s = 25 \<Longrightarrow> length (keccak_f1600 s) = 25"
  by (simp add: keccak_f1600_fips length_keccak_p)

lemma rate_ok_next: "sha3_rate_ok ctx \<Longrightarrow> sha3_rate_ok (sha3_next n (ctx\<lparr>sha3_state := sha3_xor_at i bs (sha3_state ctx)\<rparr>))"
  by (auto simp: sha3_rate_ok_def sha3_next_def Let_def)

lemma rate_ok_absorb_byte: "sha3_rate_ok ctx \<Longrightarrow> sha3_rate_ok (sha3_absorb_byte b ctx)"
  by (auto simp: sha3_rate_ok_def sha3_absorb_byte_def sha3_next_def Let_def)

lemma rate_ok_absorb_bytes: "sha3_rate_ok ctx \<Longrightarrow> sha3_rate_ok (fold sha3_absorb_byte bs ctx)"
  by (induction bs arbitrary: ctx) (simp_all add: rate_ok_absorb_byte)

lemma align_bytes:
  "fold sha3_align_byte bs ctx =
     ctx\<lparr>sha3_state := sha3_xor_at (sha3_index ctx) bs (sha3_state ctx), sha3_index := sha3_index ctx + length bs\<rparr>"
  by (induction bs arbitrary: ctx) (simp_all add: sha3_align_byte_def)

lemma sha3_next_upd: "sha3_next n (ctx\<lparr>sha3_index := k\<rparr>) = sha3_next n ctx"
  by (simp add: sha3_next_def Let_def)

text \<open>Bytes that do not pass the end of the block, absorbed with one step to the next block at the end.\<close>

lemma align_absorb:
  assumes "bs \<noteq> []" "sha3_index ctx + length bs \<le> max_block_size ctx"
  shows "sha3_next (sha3_index ctx + length bs) (ctx\<lparr>sha3_state := sha3_xor_at (sha3_index ctx) bs (sha3_state ctx)\<rparr>) =
    fold sha3_absorb_byte bs ctx"
  using assms
proof (induction bs arbitrary: ctx)
  case (Cons b bs)
  show ?case
  proof (cases "bs = []")
    case True
    then show ?thesis by (simp add: sha3_absorb_byte_def)
  next
    case False
    let ?c = "sha3_absorb_byte b ctx"
    have c: "?c = ctx\<lparr>sha3_state := sha3_ABSORB (sha3_index ctx) (ucast b) (sha3_state ctx), sha3_index := sha3_index ctx + 1\<rparr>"
      using False Cons.prems(2) by (cases bs) (simp_all add: sha3_absorb_byte_def sha3_next_def)
    have "sha3_next (sha3_index ?c + length bs) (?c\<lparr>sha3_state := sha3_xor_at (sha3_index ?c) bs (sha3_state ?c)\<rparr>) =
        fold sha3_absorb_byte bs ?c"
      by (rule Cons.IH [OF False]) (use Cons.prems(2) in \<open>simp add: c\<close>)
    moreover have "sha3_next n (ctx\<lparr>sha3_index := k, sha3_state := st\<rparr>) = sha3_next n (ctx\<lparr>sha3_state := st\<rparr>)" for n st k
      by (simp add: sha3_next_def Let_def)
    ultimately show ?thesis by (simp add: c)
  qed
qed simp

lemma absorb_chunks:
  assumes "sha3_rate_ok ctx" "sha3_index ctx mod 8 = 0"
  shows "\<exists>ctx' rest. sha3_absorb_chunks ctx input = (ctx', rest) \<and> sha3_rate_ok ctx' \<and>
    fold sha3_absorb_byte rest ctx' = fold sha3_absorb_byte input ctx"
  using assms
proof (induction ctx input rule: sha3_absorb_chunks.induct)
  case (1 ctx input)
  show ?case
  proof (cases "length input < 8")
    case True
    then show ?thesis using 1 by (simp add: sha3_absorb_chunks.simps)
  next
    case False
    let ?c = "ctx\<lparr>sha3_state := sha3_ABSORB (sha3_index ctx) (get_uint64_le input 0) (sha3_state ctx)\<rparr>"
    let ?n = "sha3_next (sha3_index ctx + 8) ?c"
    have idx: "sha3_index ctx + 8 \<le> max_block_size ctx" "sha3_index ctx < 200"
      using 1(2,3) unfolding sha3_rate_ok_def by presburger+
    have c: "?c = ctx\<lparr>sha3_state := sha3_xor_at (sha3_index ctx) (take 8 input) (sha3_state ctx)\<rparr>"
      using 1(2,3) False idx(2) absorb64_bytes [of "sha3_state ctx" "sha3_index ctx" input] by (simp add: sha3_rate_ok_def)
    have t: "length (take 8 input) = 8" using False by simp
    have n: "?n = fold sha3_absorb_byte (take 8 input) ctx"
      using align_absorb [of "take 8 input" ctx] idx(1) unfolding t c by (cases input) (use False in auto)
    have ok: "sha3_rate_ok ?n" unfolding n by (rule rate_ok_absorb_bytes) (rule 1(2))
    have "sha3_index ?n = (sha3_index ctx + 8) mod max_block_size ctx" by (simp add: sha3_next_def Let_def)
    also have "\<dots> mod 8 = 0" using 1(2,3) by (simp add: sha3_rate_ok_def mod_mod_cancel mod_eq_0_iff_dvd)
    finally have "\<exists>ctx' rest. sha3_absorb_chunks ?n (drop 8 input) = (ctx', rest) \<and> sha3_rate_ok ctx' \<and>
        fold sha3_absorb_byte rest ctx' = fold sha3_absorb_byte (drop 8 input) ?n"
      using 1(1) [OF False refl] ok by simp
    moreover have "fold sha3_absorb_byte (drop 8 input) ?n = fold sha3_absorb_byte input ctx"
      unfolding n by (metis append_take_drop_id comp_apply fold_append)
    moreover have "sha3_absorb_chunks ctx input = sha3_absorb_chunks ?n (drop 8 input)"
      using False by (simp add: sha3_absorb_chunks.simps [of ctx input])
    ultimately show ?thesis by simp
  qed
qed

lemma sha3_update_bytes:
  assumes "sha3_rate_ok ctx"
  shows "mbedtls_sha3_update ctx input = (0, fold sha3_absorb_byte input ctx)"
proof (cases "length input \<ge> 8")
  case False
  then show ?thesis by (simp add: mbedtls_sha3_update_def)
next
  case True
  let ?a = "8 - sha3_index ctx mod 8"
  have a: "0 < ?a" "?a \<le> length input" using True by simp_all
  have "8 dvd max_block_size ctx" "sha3_index ctx < max_block_size ctx" using assms by (auto simp: sha3_rate_ok_def)
  then have le: "sha3_index ctx + ?a \<le> max_block_size ctx" by presburger
  let ?c = "ctx\<lparr>sha3_state := sha3_xor_at (sha3_index ctx) (take ?a input) (sha3_state ctx)\<rparr>"
  let ?n = "sha3_next (sha3_index ctx + ?a) ?c"
  have n: "?n = fold sha3_absorb_byte (take ?a input) ctx"
  proof -
    have t: "length (take ?a input) = ?a" using a by simp
    then have "take ?a input \<noteq> []" using a(1) by (metis list.size(3) less_irrefl)
    then show ?thesis using align_absorb [of "take ?a input" ctx] le unfolding t by blast
  qed
  have ok: "sha3_rate_ok ?n" unfolding n by (rule rate_ok_absorb_bytes) (rule assms)
  have "sha3_index ?n = (sha3_index ctx + ?a) mod max_block_size ctx" by (simp add: sha3_next_def Let_def)
  moreover have "(sha3_index ctx + ?a) mod 8 = 0" by presburger
  ultimately have i8: "sha3_index ?n mod 8 = 0"
    using \<open>8 dvd max_block_size ctx\<close> by (simp add: mod_mod_cancel)
  from absorb_chunks [OF ok i8, of "drop ?a input"] obtain ctx' rest where
    r: "sha3_absorb_chunks ?n (drop ?a input) = (ctx', rest)"
      "fold sha3_absorb_byte rest ctx' = fold sha3_absorb_byte (drop ?a input) ?n" by blast
  have al: "fold sha3_align_byte (take ?a input) ctx =
      ?c\<lparr>sha3_index := sha3_index ctx + ?a\<rparr>"
    using a(2) by (simp add: align_bytes min_def)
  have "sha3_next (sha3_index (?c\<lparr>sha3_index := sha3_index ctx + ?a\<rparr>)) (?c\<lparr>sha3_index := sha3_index ctx + ?a\<rparr>) = ?n"
    unfolding sha3_next_upd by simp
  moreover have nz: "8 \<le> sha3_index ctx mod 8 \<longleftrightarrow> False" by (simp add: not_le)
  ultimately have "mbedtls_sha3_update ctx input = (0, fold sha3_absorb_byte rest ctx')"
    using True r(1) nz unfolding mbedtls_sha3_update_def Let_def al by (simp add: nz)
  also have "fold sha3_absorb_byte rest ctx' = fold sha3_absorb_byte input ctx"
    unfolding r(2) n by (metis append_take_drop_id comp_apply fold_append)
  finally show ?thesis .
qed

section \<open>The sponge\<close>

text \<open>
  The sponge of FIPS 202, section 4, on bytes: the block is extended with zeros to the width of
  the permutation and added to the state, lane by lane, and the output is read from successive
  states. \<open>sponge_pad\<close> is the domain suffix with the padding 10*1, for messages of whole bytes.
\<close>

definition sponge_step :: "u64 list \<Rightarrow> bytes \<Rightarrow> u64 list" where
  "sponge_step s block =
     keccak_p (map2 (XOR) s (map (\<lambda>i. get_uint64_le (block @ replicate (200 - length block) 0) (8 * i)) [0..<25]))"

definition sponge_pad :: "nat \<Rightarrow> u8 \<Rightarrow> nat \<Rightarrow> bytes" where
  "sponge_pad r d n =
     (let q = r - n mod r in if q = 1 then [d XOR 0x80] else d # replicate (q - 2) 0 @ [0x80])"

definition sponge_byte :: "nat \<Rightarrow> u64 list \<Rightarrow> nat \<Rightarrow> u8" where
  "sponge_byte r s n = concat (map (\<lambda>w. map (\<lambda>j. mbedtls_byte j w) [0..<8]) ((keccak_p ^^ (n div r)) s)) ! (n mod r)"

definition sponge :: "nat \<Rightarrow> u8 \<Rightarrow> bytes \<Rightarrow> nat \<Rightarrow> bytes" where
  "sponge r d m n =
     map (sponge_byte r (absorb r sponge_step (replicate 25 0) (m @ sponge_pad r d (length m)))) [0..<n]"

lemma squeeze_byte: "length s = 25 \<Longrightarrow> k < 200 \<Longrightarrow>
  concat (map (\<lambda>w. map (\<lambda>j. mbedtls_byte j w) [0..<8]) s) ! k = sha3_SQUEEZE k s"
proof -
  assume l: "length s = 25" and k: "k < 200"
  have "concat (map (\<lambda>w. map (\<lambda>j. mbedtls_byte j w) [0..<8]) ws) ! i = mbedtls_byte (i mod 8) (ws ! (i div 8))"
    if "i < 8 * length ws" for i and ws :: "u64 list"
    using that
  proof (induction ws arbitrary: i)
    case (Cons w ws)
    show ?case
    proof (cases "i < 8")
      case True
      then show ?thesis by (simp add: nth_append)
    next
      case False
      then have "i div 8 = Suc ((i - 8) div 8)" "i mod 8 = (i - 8) mod 8" by (simp_all add: div_if mod_if)
      then show ?thesis using Cons False by (simp add: nth_append)
    qed
  qed simp
  moreover have "mbedtls_byte n w = ucast (drop_bit (8 * n) w)" for n and w :: u64
    by (rule bit_word_eqI) (simp add: bit_mbedtls_byte bit_simps)
  ultimately show ?thesis using l k by (simp add: sha3_SQUEEZE_def)
qed

lemma xor_lanes:
  assumes "length s = 25" "length b \<le> 200"
  shows "map2 (XOR) s (map (\<lambda>i. get_uint64_le (b @ replicate (200 - length b) 0) (8 * i)) [0..<25]) = sha3_xor_at 0 b s"
proof (rule squeeze_eqI)
  fix k :: nat assume k: "k < 200"
  let ?d = "b @ replicate (200 - length b) 0"
  have i: "k div 8 < 25" using k by simp
  have "8 * (k div 8) + k mod 8 = k" by simp
  then have d: "ucast (drop_bit (8 * (k mod 8)) (get_uint64_le ?d (8 * (k div 8)))) = ?d ! k"
    using byte_of_get_uint64_le [of "k mod 8" ?d "8 * (k div 8)"] by simp
  have "sha3_SQUEEZE k (map2 (XOR) s (map (\<lambda>i. get_uint64_le ?d (8 * i)) [0..<25])) = sha3_SQUEEZE k s XOR ?d ! k"
    unfolding sha3_SQUEEZE_def using i assms(1) by (simp add: ucast_xor_split d [symmetric] del: drop_bit_xor)
  moreover have "?d ! k = (if k < length b then b ! k else 0)" using k assms(2) by (simp add: nth_append)
  ultimately show "sha3_SQUEEZE k (map2 (XOR) s (map (\<lambda>i. get_uint64_le ?d (8 * i)) [0..<25])) = sha3_SQUEEZE k (sha3_xor_at 0 b s)"
    using assms k by (simp add: squeeze_xor_at)
qed (use assms in simp_all)

lemma sponge_step_xor:
  "length s = 25 \<Longrightarrow> length b \<le> 200 \<Longrightarrow> sponge_step s b = keccak_f1600 (sha3_xor_at 0 b s)"
  by (simp add: sponge_step_def xor_lanes keccak_f1600_fips)

text \<open>A context that has absorbed the message \<open>m\<close>.\<close>

definition sponge_absorbed :: "mbedtls_sha3_context \<Rightarrow> bytes \<Rightarrow> bool" where
  "sponge_absorbed ctx m \<longleftrightarrow> sha3_rate_ok ctx \<and> sha3_finished ctx = 0 \<and>
     (\<exists>a b. m = a @ b \<and> max_block_size ctx dvd length a \<and> length b = sha3_index ctx \<and>
        sha3_state ctx = sha3_xor_at 0 b (absorb (max_block_size ctx) sponge_step (replicate 25 0) a))"

lemma sponge_absorbedI:
  "sha3_rate_ok ctx \<Longrightarrow> m = a @ b \<Longrightarrow> sha3_finished ctx = 0 \<Longrightarrow> max_block_size ctx dvd length a \<Longrightarrow>
   length b = sha3_index ctx \<Longrightarrow>
   sha3_state ctx = sha3_xor_at 0 b (absorb (max_block_size ctx) sponge_step (replicate 25 0) a) \<Longrightarrow> sponge_absorbed ctx m"
  by (auto simp: sponge_absorbed_def)

lemma length_sponge_absorb [simp]: "length (absorb r sponge_step (replicate 25 0) m) = 25"
  by (rule absorb_induct_state) (simp_all add: sponge_step_def length_keccak_p)

lemma absorbed_byte:
  assumes "sponge_absorbed ctx m"
  shows "sponge_absorbed (sha3_absorb_byte c ctx) (m @ [c])"
proof -
  let ?r = "max_block_size ctx"
  obtain a b where ab: "m = a @ b" "?r dvd length a" "length b = sha3_index ctx"
      "sha3_state ctx = sha3_xor_at 0 b (absorb ?r sponge_step (replicate 25 0) a)"
    and ok: "sha3_rate_ok ctx" and f: "sha3_finished ctx = 0" using assms by (auto simp: sponge_absorbed_def)
  have r: "0 < ?r" "?r \<le> 200" "sha3_index ctx < ?r" using ok by (auto simp: sha3_rate_ok_def)
  let ?s = "sha3_ABSORB (sha3_index ctx) (ucast c) (sha3_state ctx)"
  have s: "?s = sha3_xor_at 0 (b @ [c]) (absorb ?r sponge_step (replicate 25 0) a)"
    by (simp add: sha3_xor_at_append ab(3,4))
  show ?thesis
  proof (cases "sha3_index ctx + 1 = ?r")
    case False
    then have "sha3_absorb_byte c ctx = ctx\<lparr>sha3_state := ?s, sha3_index := sha3_index ctx + 1\<rparr>"
      using r by (simp add: sha3_absorb_byte_def sha3_next_def)
    then show ?thesis
      using ab(1-3) s ok f False r
      by (intro sponge_absorbedI [of _ _ a "b @ [c]"]) (auto simp: sha3_rate_ok_def)
  next
    case True
    then have n: "sha3_absorb_byte c ctx = ctx\<lparr>sha3_state := keccak_f1600 ?s, sha3_index := 0\<rparr>"
      by (simp add: sha3_absorb_byte_def sha3_next_def)
    have len: "length (b @ [c]) = ?r" using ab(3) True by simp
    have "absorb ?r sponge_step (replicate 25 0) (a @ b @ [c]) =
        absorb ?r sponge_step (absorb ?r sponge_step (replicate 25 0) a) (b @ [c])"
      by (rule absorb_append [OF ab(2) r(1)])
    also have "\<dots> = sponge_step (absorb ?r sponge_step (replicate 25 0) a) (b @ [c])"
      using absorb_block [OF r(1) len, of sponge_step _ "[]"] r(1) by (simp add: absorb_short)
    also have "\<dots> = keccak_f1600 ?s" unfolding s using len r(2) by (intro sponge_step_xor) simp_all
    finally have "keccak_f1600 ?s = absorb ?r sponge_step (replicate 25 0) (m @ [c])" by (simp add: ab(1))
    moreover have "?r dvd length (m @ [c])" using ab(1,2) len by simp
    moreover have "sha3_rate_ok (sha3_absorb_byte c ctx)" by (rule rate_ok_absorb_byte [OF ok])
    ultimately show ?thesis
      using f unfolding n by (intro sponge_absorbedI [of _ _ "m @ [c]" "[]"]) simp_all
  qed
qed

lemma absorbed_bytes: "sponge_absorbed ctx m \<Longrightarrow> sponge_absorbed (fold sha3_absorb_byte cs ctx) (m @ cs)"
proof (induction cs arbitrary: ctx m)
  case (Cons c cs)
  from Cons.IH [OF absorbed_byte [OF Cons.prems]] show ?case by simp
qed simp

lemma absorb_byte_keeps:
  "max_block_size (fold sha3_absorb_byte cs ctx) = max_block_size ctx"
  "sha3_olen (fold sha3_absorb_byte cs ctx) = sha3_olen ctx"
  by (induction cs arbitrary: ctx) (simp_all add: sha3_absorb_byte_def sha3_next_def Let_def)

lemma sha3_updates_bytes:
  assumes "sponge_absorbed ctx m"
  shows "hash_updates mbedtls_sha3_update ctx inputs = (0, fold sha3_absorb_byte (concat inputs) ctx)"
  using assms
proof (induction inputs arbitrary: ctx m)
  case (Cons c cs)
  have "sha3_rate_ok ctx" using Cons.prems by (simp add: sponge_absorbed_def)
  then show ?case using Cons.IH [OF absorbed_bytes [OF Cons.prems]] by (simp add: sha3_update_bytes)
qed simp

section \<open>Finishing and squeezing\<close>

lemma funpow_keccak_length: "length s = 25 \<Longrightarrow> length ((keccak_p ^^ n) s) = 25"
  by (induction n) (simp_all add: length_keccak_p)

lemma funpow_add': "(f ^^ a) ((f ^^ b) x) = (f ^^ (b + a)) x"
  by (metis add.commute comp_apply funpow_add)

lemma sha3_squeeze_stream:
  assumes "sha3_rate_ok ctx"
  shows "sha3_squeeze n ctx =
    (map (\<lambda>k. sponge_byte (max_block_size ctx) (sha3_state ctx) (sha3_index ctx + k)) [0..<n],
     ctx\<lparr>sha3_index := (sha3_index ctx + n) mod max_block_size ctx,
         sha3_state := (keccak_p ^^ ((sha3_index ctx + n) div max_block_size ctx)) (sha3_state ctx)\<rparr>)"
  using assms
proof (induction n arbitrary: ctx)
  case 0
  then show ?case by (simp add: sha3_rate_ok_def)
next
  case (Suc n)
  let ?r = "max_block_size ctx" and ?i = "sha3_index ctx" and ?s = "sha3_state ctx"
  let ?c = "sha3_next (?i + 1) ctx"
  have r: "0 < ?r" "?i < ?r" "?r \<le> 200" "length ?s = 25" using Suc.prems by (auto simp: sha3_rate_ok_def)
  have ok: "sha3_rate_ok ?c" using Suc.prems by (auto simp: sha3_rate_ok_def sha3_next_def Let_def)
  have b: "sha3_SQUEEZE ?i ?s = sponge_byte ?r ?s ?i"
    using r squeeze_byte [of ?s ?i] by (simp add: sponge_byte_def)
  have c: "max_block_size ?c = ?r" "sha3_index ?c = (?i + 1) mod ?r" "sha3_state ?c = (keccak_p ^^ ((?i + 1) div ?r)) ?s"
  proof -
    have "(?i + 1) div ?r = (if ?i + 1 = ?r then 1 else 0)" using r by auto
    then show "max_block_size ?c = ?r" "sha3_index ?c = (?i + 1) mod ?r" "sha3_state ?c = (keccak_p ^^ ((?i + 1) div ?r)) ?s"
      using r by (auto simp: sha3_next_def Let_def keccak_f1600_fips)
  qed
  have split: "((?i + 1) mod ?r + k) mod ?r = (?i + (1 + k)) mod ?r" 
    "(?i + 1) div ?r + ((?i + 1) mod ?r + k) div ?r = (?i + (1 + k)) div ?r" for k
  proof -
    show "((?i + 1) mod ?r + k) mod ?r = (?i + (1 + k)) mod ?r" by (simp add: mod_simps add.assoc)
    have "(?i + 1) div ?r + ((?i + 1) mod ?r + k) div ?r = ((?i + 1) div ?r * ?r + ((?i + 1) mod ?r + k)) div ?r"
      by (rule div_mult_self3 [symmetric]) (use r(1) in simp)
    also have "(?i + 1) div ?r * ?r + ((?i + 1) mod ?r + k) = ?i + (1 + k)"
      by (metis add.assoc div_mult_mod_eq)
    finally show "(?i + 1) div ?r + ((?i + 1) mod ?r + k) div ?r = (?i + (1 + k)) div ?r" .
  qed
  have "sponge_byte ?r ((keccak_p ^^ ((?i + 1) div ?r)) ?s) ((?i + 1) mod ?r + k) = sponge_byte ?r ?s (?i + (1 + k))" for k
    unfolding sponge_byte_def split(1) by (simp only: funpow_add' split(2))
  then have m: "map (\<lambda>k. sponge_byte (max_block_size ?c) (sha3_state ?c) (sha3_index ?c + k)) [0..<n] =
      map (\<lambda>k. sponge_byte ?r ?s (?i + k)) [1..<Suc n]"
    unfolding c by (simp add: map_Suc_upt [symmetric] comp_def del: upt_Suc)
  have st: "(keccak_p ^^ ((sha3_index ?c + n) div max_block_size ?c)) (sha3_state ?c) = (keccak_p ^^ ((?i + Suc n) div ?r)) ?s"
    unfolding c funpow_add' split(2) by simp
  have ix: "(sha3_index ?c + n) mod max_block_size ?c = (?i + Suc n) mod ?r" unfolding c split(1) by simp
  have up: "[0..<Suc n] = 0 # [1..<Suc n]" by (simp add: upt_conv_Cons del: upt_Suc)
  show ?case
    unfolding sha3_squeeze.simps Suc.IH [OF ok] m st ix up b Let_def
    by (simp add: sha3_next_def Let_def del: upt_Suc)
qed

lemma length_sponge_pad:
  assumes "0 < r"
  shows "length (sponge_pad r d n) = r - n mod r"
proof -
  define q where "q = r - n mod r"
  have "0 < q" using assms by (simp add: q_def)
  then have "length (if q = 1 then [d XOR 0x80] else d # replicate (q - 2) 0 @ [0x80]) = q" by auto
  then show ?thesis by (simp only: sponge_pad_def Let_def q_def)
qed

lemma nth_sponge_pad:
  assumes "k < r - n mod r"
  shows "sponge_pad r d n ! k = (if k = 0 then d else 0) XOR (if k = r - n mod r - 1 then 0x80 else 0)"
proof -
  define q where "q = r - n mod r"
  have k: "k < q" using assms by (simp add: q_def)
  have "(if q = 1 then [d XOR 0x80] else d # replicate (q - 2) 0 @ [0x80]) ! k =
      (if k = 0 then d else 0) XOR (if k = q - 1 then 0x80 else 0)"
  proof (cases "q = 1")
    case True
    then show ?thesis using k by simp
  next
    case False
    then have "k = 0 \<or> (0 < k \<and> k < q - 1) \<or> k = q - 1" using k by linarith
    then show ?thesis using False k by (auto simp: nth_Cons' nth_append)
  qed
  then show ?thesis by (simp only: sponge_pad_def Let_def q_def)
qed

lemma sponge_pad_state:
  assumes "sponge_absorbed ctx m"
  shows "keccak_f1600 (sha3_ABSORB (max_block_size ctx - 1) 0x80 (sha3_ABSORB (sha3_index ctx) (ucast d) (sha3_state ctx))) =
    absorb (max_block_size ctx) sponge_step (replicate 25 0) (m @ sponge_pad (max_block_size ctx) d (length m))"
proof -
  let ?r = "max_block_size ctx" and ?p = "sponge_pad (max_block_size ctx) d (length m)"
  obtain a b where ab: "m = a @ b" "?r dvd length a" "length b = sha3_index ctx"
      "sha3_state ctx = sha3_xor_at 0 b (absorb ?r sponge_step (replicate 25 0) a)"
    and ok: "sha3_rate_ok ctx" using assms by (auto simp: sponge_absorbed_def)
  let ?i = "sha3_index ctx" and ?S = "absorb ?r sponge_step (replicate 25 0) a"
  have r: "0 < ?r" "?r \<le> 200" "?i < ?r" using ok by (auto simp: sha3_rate_ok_def)
  have n: "length m mod ?r = ?i" using ab(1-3) r(3) by (auto elim!: dvdE)
  have pl: "length ?p = ?r - ?i" using length_sponge_pad [OF r(1), of d "length m"] unfolding n .
  have pn: "?p ! k = (if k = 0 then d else 0) XOR (if k = ?r - ?i - 1 then 0x80 else 0)" if "k < ?r - ?i" for k
    using nth_sponge_pad [of k ?r "length m" d] that unfolding n by blast
  have len: "length (b @ ?p) = ?r" using pl ab(3) r(3) by simp
  have "sha3_ABSORB (?r - 1) (ucast (0x80 :: u8)) (sha3_ABSORB ?i (ucast d) (sha3_state ctx)) = sha3_xor_at 0 (b @ ?p) ?S"
  proof (rule squeeze_eqI)
    fix k :: nat assume k: "k < 200"
    show "sha3_SQUEEZE k (sha3_ABSORB (?r - 1) (ucast (0x80 :: u8)) (sha3_ABSORB ?i (ucast d) (sha3_state ctx))) =
        sha3_SQUEEZE k (sha3_xor_at 0 (b @ ?p) ?S)"
    proof -
      have "sha3_SQUEEZE k (sha3_ABSORB (?r - 1) (ucast (0x80 :: u8)) (sha3_ABSORB ?i (ucast d) (sha3_state ctx))) =
          sha3_SQUEEZE k ?S XOR ((if k < ?i then b ! k else 0) XOR (if k = ?i then d else 0) XOR (if k = ?r - 1 then 0x80 else 0))"
      proof -
        have "sha3_SQUEEZE k (sha3_ABSORB (?r - 1) (ucast c) (sha3_ABSORB ?i (ucast d) (sha3_state ctx))) =
            sha3_SQUEEZE k ?S XOR ((if k < ?i then b ! k else 0) XOR (if k = ?i then d else 0) XOR (if k = ?r - 1 then c else 0))"
          for c :: u8
          using r k ab(3) by (simp add: squeeze_absorb squeeze_xor_at ab(4) xor.assoc)
        then show ?thesis .
      qed
      moreover have "sha3_SQUEEZE k (sha3_xor_at 0 (b @ ?p) ?S) = sha3_SQUEEZE k ?S XOR (if k < ?r then (b @ ?p) ! k else 0)"
        using r k len by (simp add: squeeze_xor_at)
      moreover have "(if k < ?i then b ! k else 0) XOR (if k = ?i then d else 0) XOR (if k = ?r - 1 then 0x80 else 0) =
          (if k < ?r then (b @ ?p) ! k else 0)"
      proof (cases "?i \<le> k \<and> k < ?r")
        case True
        then have "k - ?i = ?r - ?i - 1 \<longleftrightarrow> k = ?r - 1" by arith
        moreover have "k - ?i < ?r - ?i" using True by arith
        moreover have "k - ?i = 0 \<longleftrightarrow> k = ?i" using True by arith
        ultimately show ?thesis using True pn [of "k - ?i"] ab(3) unfolding nth_append by simp
      next
        case False
        then show ?thesis using r(3) ab(3) by (auto simp: nth_append)
      qed
      ultimately show ?thesis by (simp only:)
    qed
  qed (use ok in \<open>simp_all add: sha3_rate_ok_def\<close>)
  then have "keccak_f1600 (sha3_ABSORB (?r - 1) 0x80 (sha3_ABSORB ?i (ucast d) (sha3_state ctx))) = keccak_f1600 (sha3_xor_at 0 (b @ ?p) ?S)"
    by simp
  also have "\<dots> = sponge_step ?S (b @ ?p)" using len r(2) by (intro sponge_step_xor [symmetric]) simp_all
  also have "\<dots> = absorb ?r sponge_step ?S (b @ ?p)"
    using absorb_block [OF r(1) len, of sponge_step _ "[]"] r(1) by (simp add: absorb_short)
  also have "\<dots> = absorb ?r sponge_step (replicate 25 0) (a @ (b @ ?p))"
    by (rule absorb_append [OF ab(2) r(1), symmetric])
  finally show ?thesis by (simp add: ab(1))
qed

section \<open>Streaming\<close>

text \<open>The functions of FIPS 202, section 6: block size, suffix and length of the digest.\<close>

fun sha3_rate :: "mbedtls_sha3_id \<Rightarrow> nat" where
  "sha3_rate MBEDTLS_SHA3_224 = 200 - 2 * 28"
| "sha3_rate MBEDTLS_SHA3_256 = 200 - 2 * 32"
| "sha3_rate MBEDTLS_SHA3_384 = 200 - 2 * 48"
| "sha3_rate MBEDTLS_SHA3_512 = 200 - 2 * 64"
| "sha3_rate MBEDTLS_SHA3_SHAKE128 = 200 - 2 * 16"
| "sha3_rate MBEDTLS_SHA3_SHAKE256 = 200 - 2 * 32"
| "sha3_rate MBEDTLS_SHA3_NONE = 0"

fun sha3_length :: "mbedtls_sha3_id \<Rightarrow> nat" where
  "sha3_length MBEDTLS_SHA3_224 = 28"
| "sha3_length MBEDTLS_SHA3_256 = 32"
| "sha3_length MBEDTLS_SHA3_384 = 48"
| "sha3_length MBEDTLS_SHA3_512 = 64"
| "sha3_length _ = 0"

definition sha3_digest :: "mbedtls_sha3_id \<Rightarrow> bytes \<Rightarrow> bytes" where
  "sha3_digest alg m = sponge (sha3_rate alg) 0x06 m (sha3_length alg)"

definition shake_output :: "mbedtls_sha3_id \<Rightarrow> bytes \<Rightarrow> nat \<Rightarrow> bytes" where
  "shake_output alg m n = sponge (sha3_rate alg) 0x1F m n"

text \<open>A caller that reads the output of an extendable-output function in pieces.\<close>

fun shake_outputs :: "mbedtls_sha3_context \<Rightarrow> nat list \<Rightarrow> int \<times> bytes" where
  "shake_outputs ctx [] = (0, [])"
| "shake_outputs ctx (n # ns) =
    (let (ret, ctx, out) = mbedtls_sha3_finish ctx (replicate n 0) n
     in if ret \<noteq> 0 then (ret, out)
        else let (ret, outs) = shake_outputs ctx ns in (ret, out @ outs))"

definition sha3_fresh :: "mbedtls_sha3_id \<Rightarrow> mbedtls_sha3_context" where
  "sha3_fresh alg = snd (mbedtls_sha3_starts mbedtls_sha3_init alg)"

lemma sha3_fresh_fields:
  assumes "alg \<noteq> MBEDTLS_SHA3_NONE"
  shows "mbedtls_sha3_starts ctx alg = (0, sha3_fresh alg)" "sponge_absorbed (sha3_fresh alg) []"
    "max_block_size (sha3_fresh alg) = sha3_rate alg" "sha3_olen (sha3_fresh alg) = sha3_length alg"
proof -
  show "mbedtls_sha3_starts ctx alg = (0, sha3_fresh alg)" "max_block_size (sha3_fresh alg) = sha3_rate alg"
    "sha3_olen (sha3_fresh alg) = sha3_length alg"
    using assms by (cases alg; simp add: sha3_fresh_def mbedtls_sha3_starts_def mbedtls_sha3_init_def)+
  show "sponge_absorbed (sha3_fresh alg) []"
  proof (rule sponge_absorbedI [of _ _ "[]" "[]"])
    show "sha3_rate_ok (sha3_fresh alg)" "sha3_finished (sha3_fresh alg) = 0" "length [] = sha3_index (sha3_fresh alg)"
      using assms by (cases alg; simp add: sha3_fresh_def mbedtls_sha3_starts_def mbedtls_sha3_init_def sha3_rate_ok_def)+
    show "sha3_state (sha3_fresh alg) = sha3_xor_at 0 [] (absorb (max_block_size (sha3_fresh alg)) sponge_step (replicate 25 0) [])"
      using assms by (cases alg; simp add: sha3_fresh_def mbedtls_sha3_starts_def mbedtls_sha3_init_def absorb_short)
  qed simp_all
qed

lemma sha3_finish_digest:
  assumes "sponge_absorbed ctx m" "0 < sha3_olen ctx" "sha3_olen ctx \<le> olen"
  shows "mbedtls_sha3_finish ctx out olen =
    (0, mbedtls_sha3_init, buffer_put 0 (sponge (max_block_size ctx) 0x06 m (sha3_olen ctx)) out)"
proof -
  let ?r = "max_block_size ctx"
  define ctx1 where "ctx1 = ctx\<lparr>sha3_state := keccak_f1600 (sha3_ABSORB (?r - 1) 0x80 (sha3_ABSORB (sha3_index ctx) 0x06 (sha3_state ctx))),
    sha3_index := 0, sha3_finished := 1\<rparr>"
  have st: "sha3_state ctx1 = absorb ?r sponge_step (replicate 25 0) (m @ sponge_pad ?r 0x06 (length m))"
    using sponge_pad_state [OF assms(1), of "0x06"] by (simp add: ctx1_def)
  have "sha3_rate_ok ctx1" using assms(1) by (auto simp: sponge_absorbed_def sha3_rate_ok_def ctx1_def)
  from sha3_squeeze_stream [OF this, of "sha3_olen ctx"]
  have "fst (sha3_squeeze (sha3_olen ctx) ctx1) = sponge ?r 0x06 m (sha3_olen ctx)"
    unfolding st sponge_def by (simp add: ctx1_def)
  moreover have "sha3_olen (snd (sha3_squeeze (sha3_olen ctx) ctx1)) = sha3_olen ctx"
    using sha3_squeeze_stream [OF \<open>sha3_rate_ok ctx1\<close>, of "sha3_olen ctx"] by (simp add: ctx1_def)
  moreover have "sha3_finished ctx = 0" using assms(1) by (simp add: sponge_absorbed_def)
  then have "mbedtls_sha3_finish ctx out olen =
    (let (bs, c) = sha3_squeeze (sha3_olen ctx) ctx1; out = buffer_put 0 bs out
     in if sha3_olen c > 0 then (0, mbedtls_sha3_free c, out) else (0, c, out))"
    using assms(2,3) unfolding mbedtls_sha3_finish_def ctx1_def by (simp add: Let_def split_def)
  ultimately show ?thesis
    using assms(2) by (simp add: Let_def split_def mbedtls_sha3_free_def mbedtls_sha3_init_def)
qed

lemma sha3_finish_small:
  assumes "olen < sha3_olen ctx"
  shows "mbedtls_sha3_finish ctx out olen = (MBEDTLS_ERR_SHA3_BAD_INPUT_DATA, mbedtls_sha3_init, out)"
  using assms by (simp add: mbedtls_sha3_finish_def mbedtls_sha3_free_def mbedtls_sha3_init_def)

text \<open>After the first output of an extendable-output function.\<close>

definition shake_at :: "mbedtls_sha3_context \<Rightarrow> u64 list \<Rightarrow> nat \<Rightarrow> bool" where
  "shake_at ctx s k \<longleftrightarrow> sha3_rate_ok ctx \<and> sha3_olen ctx = 0 \<and> sha3_finished ctx \<noteq> 0 \<and> length s = 25 \<and>
     sha3_index ctx = k mod max_block_size ctx \<and> sha3_state ctx = (keccak_p ^^ (k div max_block_size ctx)) s"

lemma shake_read:
  assumes "shake_at ctx s k"
  shows "\<exists>ctx'. sha3_squeeze n ctx = (map (sponge_byte (max_block_size ctx) s) [k..<k + n], ctx') \<and>
    shake_at ctx' s (k + n) \<and> max_block_size ctx' = max_block_size ctx"
proof -
  let ?r = "max_block_size ctx"
  have ok: "sha3_rate_ok ctx" and i: "sha3_index ctx = k mod ?r" and st: "sha3_state ctx = (keccak_p ^^ (k div ?r)) s"
    using assms by (simp_all add: shake_at_def)
  have r: "?r \<noteq> 0" using ok by (simp add: sha3_rate_ok_def)
  have m: "(k mod ?r + j) mod ?r = (k + j) mod ?r" for j by (simp add: mod_simps)
  have d: "k div ?r + (k mod ?r + j) div ?r = (k + j) div ?r" for j
  proof -
    have "k div ?r + (k mod ?r + j) div ?r = (k div ?r * ?r + (k mod ?r + j)) div ?r"
      by (rule div_mult_self3 [symmetric]) (rule r)
    also have "k div ?r * ?r + (k mod ?r + j) = k + j" by (metis add.assoc div_mult_mod_eq)
    finally show ?thesis .
  qed
  have b: "sponge_byte ?r (sha3_state ctx) (sha3_index ctx + j) = sponge_byte ?r s (k + j)" for j
    unfolding sponge_byte_def st i funpow_add' m d ..
  let ?c = "ctx\<lparr>sha3_index := (sha3_index ctx + n) mod ?r, sha3_state := (keccak_p ^^ ((sha3_index ctx + n) div ?r)) (sha3_state ctx)\<rparr>"
  have c: "?c = ctx\<lparr>sha3_index := (k + n) mod ?r, sha3_state := (keccak_p ^^ ((k + n) div ?r)) s\<rparr>"
    unfolding st i funpow_add' m d ..
  have "map (\<lambda>j. sponge_byte ?r s (k + j)) [0..<n] = map (sponge_byte ?r s) [k..<k + n]"
    by (rule nth_equalityI) simp_all
  then have "sha3_squeeze n ctx = (map (sponge_byte ?r s) [k..<k + n], ?c)"
    unfolding sha3_squeeze_stream [OF ok] b by simp
  moreover have "shake_at ?c s (k + n)"
    using assms r unfolding c shake_at_def by (auto simp: sha3_rate_ok_def funpow_keccak_length)
  ultimately show ?thesis by auto
qed

lemma buffer_put_whole: "length bs = n \<Longrightarrow> buffer_put 0 bs (replicate n x) = bs"
  by (simp add: buffer_put_def)

lemma shake_finish:
  assumes "shake_at ctx s k"
  shows "\<exists>ctx'. mbedtls_sha3_finish ctx (replicate n 0) n = (0, ctx', map (sponge_byte (max_block_size ctx) s) [k..<k + n]) \<and>
    shake_at ctx' s (k + n) \<and> max_block_size ctx' = max_block_size ctx"
proof -
  from shake_read [OF assms, of n] obtain ctx' where
    c: "sha3_squeeze n ctx = (map (sponge_byte (max_block_size ctx) s) [k..<k + n], ctx')" "shake_at ctx' s (k + n)"
      "max_block_size ctx' = max_block_size ctx" by blast
  have "sha3_olen ctx = 0" "sha3_finished ctx \<noteq> 0" "sha3_olen ctx' = 0" using assms c(2) by (simp_all add: shake_at_def)
  then show ?thesis using c
    by (intro exI [of _ ctx']) (simp add: mbedtls_sha3_finish_def buffer_put_whole)
qed

lemma shake_outputs_at:
  "shake_at ctx s k \<Longrightarrow> shake_outputs ctx ns = (0, map (sponge_byte (max_block_size ctx) s) [k..<k + sum_list ns])"
proof (induction ns arbitrary: ctx k)
  case (Cons n ns)
  from shake_finish [OF Cons.prems, of n] obtain ctx' where
    c: "mbedtls_sha3_finish ctx (replicate n 0) n = (0, ctx', map (sponge_byte (max_block_size ctx) s) [k..<k + n])"
      "shake_at ctx' s (k + n)" "max_block_size ctx' = max_block_size ctx" by blast
  have "[k..<k + n] @ [k + n..<k + n + sum_list ns] = [k..<k + (n + sum_list ns)]"
    by (metis add.assoc le_add1 upt_add_eq_append)
  then show ?case using Cons.IH [OF c(2)] c by (simp add: Let_def map_append [symmetric] del: map_append)
qed simp

lemma shake_outputs_result:
  assumes "sponge_absorbed ctx m" "sha3_olen ctx = 0" "ns \<noteq> []"
  shows "shake_outputs ctx ns = (0, sponge (max_block_size ctx) 0x1F m (sum_list ns))"
proof -
  let ?r = "max_block_size ctx"
  define ctx1 where "ctx1 = ctx\<lparr>sha3_state := keccak_f1600 (sha3_ABSORB (?r - 1) 0x80 (sha3_ABSORB (sha3_index ctx) 0x1F (sha3_state ctx))),
    sha3_index := 0, sha3_finished := 1\<rparr>"
  let ?s = "absorb ?r sponge_step (replicate 25 0) (m @ sponge_pad ?r 0x1F (length m))"
  have st: "sha3_state ctx1 = ?s" using sponge_pad_state [OF assms(1), of "0x1F"] by (simp add: ctx1_def)
  have ok: "sha3_rate_ok ctx1" using assms(1) by (auto simp: sponge_absorbed_def sha3_rate_ok_def ctx1_def)
  have "shake_at ctx1 ?s 0" using ok st assms(2) by (simp add: shake_at_def ctx1_def)
  then have r: "shake_outputs ctx1 ns = (0, map (sponge_byte ?r ?s) [0..<sum_list ns])"
    using shake_outputs_at [of ctx1 ?s 0 ns] by (simp add: ctx1_def)
  have "sha3_finished ctx = 0" using assms(1) by (simp add: sponge_absorbed_def)
  then have "mbedtls_sha3_finish ctx out n = mbedtls_sha3_finish ctx1 out n" for out n
    using assms(2) unfolding mbedtls_sha3_finish_def by (simp add: ctx1_def)
  then have "shake_outputs ctx ns = shake_outputs ctx1 ns" using assms(3) by (cases ns) simp_all
  then show ?thesis using r by (simp add: sponge_def)
qed

end
