(* ===== verification/Hash_Sha1.thy ===== *)
theory Hash_Sha1
  imports Block_Hash
begin

text \<open>
  drivers/builtin/src/sha1.c, and its compression function against FIPS 180-4, section 6.1: the
  code keeps a window of sixteen words of the message schedule and permutes the roles of the five
  working variables instead of moving their values.
\<close>

type_synonym mbedtls_sha1_context = "u32 hash_context"

definition mbedtls_sha1_init :: mbedtls_sha1_context where
  "mbedtls_sha1_init = \<lparr>total0 = 0, total1 = 0, hash_state = replicate 5 0, hash_buffer = replicate 64 0\<rparr>"

definition mbedtls_sha1_free :: "mbedtls_sha1_context \<Rightarrow> mbedtls_sha1_context" where
  "mbedtls_sha1_free ctx = \<lparr>total0 = 0, total1 = 0, hash_state = replicate 5 0, hash_buffer = replicate 64 0\<rparr>"

definition mbedtls_sha1_clone :: "mbedtls_sha1_context \<Rightarrow> mbedtls_sha1_context" where
  "mbedtls_sha1_clone src = src"

definition sha1_iv :: "u32 list" where
  "sha1_iv = [0x67452301, 0xEFCDAB89, 0x98BADCFE, 0x10325476, 0xC3D2E1F0]"

definition mbedtls_sha1_starts :: "mbedtls_sha1_context \<Rightarrow> int \<times> mbedtls_sha1_context" where
  "mbedtls_sha1_starts ctx = (0, ctx\<lparr>total0 := 0, total1 := 0, hash_state := sha1_iv\<rparr>)"

definition sha1_S :: "u32 \<Rightarrow> nat \<Rightarrow> u32" where
  "sha1_S x n = push_bit n x OR drop_bit (32 - n) (x AND 0xFFFFFFFF)"

text \<open>The macro R: the next word of the schedule, stored in the window.\<close>

definition sha1_R :: "u32 list \<Rightarrow> nat \<Rightarrow> u32 \<times> u32 list" where
  "sha1_R W t =
    (let temp = W ! ((t - 3) mod 16) XOR W ! ((t - 8) mod 16) XOR W ! ((t - 14) mod 16) XOR W ! (t mod 16);
         w = sha1_S temp 1
     in (w, W[t mod 16 := w]))"

text \<open>The macro P, on a list of the variables A to E and the positions of its arguments.\<close>

definition sha1_P ::
    "(u32 \<Rightarrow> u32 \<Rightarrow> u32 \<Rightarrow> u32) \<Rightarrow> u32 \<Rightarrow> nat \<Rightarrow> nat \<Rightarrow> nat \<Rightarrow> nat \<Rightarrow> nat \<Rightarrow> u32 \<Rightarrow> u32 list \<Rightarrow> u32 list" where
  "sha1_P F K a b c d e x A =
    (let A = A[e := A ! e + (sha1_S (A ! a) 5 + F (A ! b) (A ! c) (A ! d) + K + x)]
     in A[b := sha1_S (A ! b) 30])"

definition sha1_F1 :: "u32 \<Rightarrow> u32 \<Rightarrow> u32 \<Rightarrow> u32" where
  "sha1_F1 x y z = z XOR (x AND (y XOR z))"

definition sha1_F2 :: "u32 \<Rightarrow> u32 \<Rightarrow> u32 \<Rightarrow> u32" where
  "sha1_F2 x y z = x XOR y XOR z"

definition sha1_F3 :: "u32 \<Rightarrow> u32 \<Rightarrow> u32 \<Rightarrow> u32" where
  "sha1_F3 x y z = (x AND y) OR (z AND (x OR y))"

text \<open>The arguments of the \<open>t\<close>-th call of P: A, B, C, D, E rotated \<open>t\<close> times.\<close>

definition sha1_reg :: "nat \<Rightarrow> nat \<Rightarrow> nat" where
  "sha1_reg t j = (j + 80 - t) mod 5"

definition sha1_call ::
    "(u32 \<Rightarrow> u32 \<Rightarrow> u32 \<Rightarrow> u32) \<Rightarrow> u32 \<Rightarrow> nat \<Rightarrow> u32 list \<times> u32 list \<Rightarrow> u32 list \<times> u32 list" where
  "sha1_call F K t = (\<lambda>(A, W).
    let (x, W) = (if t < 16 then (W ! t, W) else sha1_R W t)
    in (sha1_P F K (sha1_reg t 0) (sha1_reg t 1) (sha1_reg t 2) (sha1_reg t 3) (sha1_reg t 4) x A, W))"

definition mbedtls_internal_sha1_process :: "u32 list \<Rightarrow> bytes \<Rightarrow> int \<times> u32 list" where
  "mbedtls_internal_sha1_process state data =
    (let W = map (\<lambda>i. get_uint32_be data (4 * i)) [0..<16];
         s = fold (sha1_call sha1_F1 0x5A827999) [0..<20] (take 5 state, W);
         s = fold (sha1_call sha1_F2 0x6ED9EBA1) [20..<40] s;
         s = fold (sha1_call sha1_F3 0x8F1BBCDC) [40..<60] s;
         s = fold (sha1_call sha1_F2 0xCA62C1D6) [60..<80] s
     in (0, map2 (+) state (fst s)))"

definition mbedtls_sha1_update :: "mbedtls_sha1_context \<Rightarrow> bytes \<Rightarrow> int \<times> mbedtls_sha1_context" where
  "mbedtls_sha1_update = hash_update 64 mbedtls_internal_sha1_process"

definition sha1_put_length :: "u32 \<Rightarrow> u32 \<Rightarrow> bytes" where
  "sha1_put_length high low = put_uint32_be high @ put_uint32_be low"

definition mbedtls_sha1_finish :: "mbedtls_sha1_context \<Rightarrow> bytes \<Rightarrow> int \<times> mbedtls_sha1_context \<times> bytes" where
  "mbedtls_sha1_finish ctx output =
    (let (ret, ctx) = hash_finish_blocks 64 8 sha1_put_length mbedtls_internal_sha1_process ctx
     in if ret \<noteq> 0 then (ret, mbedtls_sha1_free ctx, output)
        else (0, mbedtls_sha1_free ctx, buffer_put 0 (concat (map put_uint32_be (hash_state ctx))) output))"

definition mbedtls_sha1 :: "bytes \<Rightarrow> bytes \<Rightarrow> int \<times> bytes" where
  "mbedtls_sha1 input output =
    (let (ret, ctx) = mbedtls_sha1_starts mbedtls_sha1_init
     in if ret \<noteq> 0 then (ret, output)
        else
          let (ret, ctx) = mbedtls_sha1_update ctx input
          in if ret \<noteq> 0 then (ret, output)
             else
               let (ret, ctx, output) = mbedtls_sha1_finish ctx output
               in (ret, output))"

section \<open>The compression function of FIPS 180-4\<close>

fun sha1_schedule :: "bytes \<Rightarrow> nat \<Rightarrow> u32" where
  "sha1_schedule M t =
    (if t < 16 then get_uint32_be M (4 * t)
     else word_rotl 1 (sha1_schedule M (t - 3) XOR sha1_schedule M (t - 8) XOR
            sha1_schedule M (t - 14) XOR sha1_schedule M (t - 16)))"

declare sha1_schedule.simps [simp del]

definition sha1_f :: "nat \<Rightarrow> u32 \<Rightarrow> u32 \<Rightarrow> u32 \<Rightarrow> u32" where
  "sha1_f t x y z =
    (if t < 20 then (x AND y) XOR (NOT x AND z)
     else if t < 40 then x XOR y XOR z
     else if t < 60 then (x AND y) XOR (x AND z) XOR (y AND z)
     else x XOR y XOR z)"

definition sha1_K :: "nat \<Rightarrow> u32" where
  "sha1_K t = (if t < 20 then 0x5a827999 else if t < 40 then 0x6ed9eba1 else if t < 60 then 0x8f1bbcdc else 0xca62c1d6)"

fun sha1_round :: "bytes \<Rightarrow> nat \<Rightarrow> u32 list \<Rightarrow> u32 list" where
  "sha1_round M t [a, b, c, d, e] =
     [word_rotl 5 a + sha1_f t b c d + e + sha1_K t + sha1_schedule M t, a, word_rotl 30 b, c, d]"
| "sha1_round M t s = s"

definition sha1_compress :: "u32 list \<Rightarrow> bytes \<Rightarrow> u32 list" where
  "sha1_compress H M = map2 (+) H (fold (sha1_round M) [0..<80] (take 5 H))"

lemma sha1_S_rotl: "0 < n \<Longrightarrow> n < 32 \<Longrightarrow> sha1_S x n = word_rotl n x"
  using rotl_shifts [of n x] by (simp add: sha1_S_def and_all_ones)

lemma sha1_F_eq: "sha1_F1 x y z = (x AND y) XOR (NOT x AND z)" "sha1_F2 x y z = x XOR y XOR z"
  "sha1_F3 x y z = (x AND y) XOR (x AND z) XOR (y AND z)"
  by (auto simp: sha1_F1_def sha1_F2_def sha1_F3_def bit_eq_iff bit_simps)

text \<open>One call of P, with the function and the constant that its position selects.\<close>

definition sha1_step :: "nat \<Rightarrow> u32 list \<times> u32 list \<Rightarrow> u32 list \<times> u32 list" where
  "sha1_step t = sha1_call (sha1_f t) (sha1_K t) t"

definition sha1_window :: "bytes \<Rightarrow> nat \<Rightarrow> u32 list \<Rightarrow> bool" where
  "sha1_window M t W \<longleftrightarrow> length W = 16 \<and>
     (\<forall>i. i < max t 16 \<longrightarrow> max t 16 \<le> i + 16 \<longrightarrow> W ! (i mod 16) = sha1_schedule M i)"

definition sha1_variables :: "nat \<Rightarrow> u32 list \<Rightarrow> u32 list" where
  "sha1_variables t A = [A ! sha1_reg t 0, A ! sha1_reg t 1, A ! sha1_reg t 2, A ! sha1_reg t 3, A ! sha1_reg t 4]"

lemma sha1_next_word:
  assumes "sha1_window M t W"
  shows "\<exists>W'. (if t < 16 then (W ! t, W) else sha1_R W t) = (sha1_schedule M t, W') \<and> sha1_window M (t + 1) W'"
proof (cases "t < 16")
  case True
  then have "W ! (t mod 16) = sha1_schedule M t" using assms unfolding sha1_window_def by (simp add: max_def)
  then have "W ! t = sha1_schedule M t" using True by simp
  moreover have "max (t + 1) 16 = max t 16" using True by simp
  ultimately show ?thesis using True assms unfolding sha1_window_def by (intro exI [of _ W]) simp
next
  case False
  have w: "W ! (i mod 16) = sha1_schedule M i" if "i < t" "t \<le> i + 16" for i
    using assms that False unfolding sha1_window_def by (simp add: max_def)
  have m: "(t - 16) mod 16 = t mod 16" using False by (metis le_mod_geq not_less)
  have "sha1_S (W ! ((t - 3) mod 16) XOR W ! ((t - 8) mod 16) XOR W ! ((t - 14) mod 16) XOR W ! (t mod 16)) 1 = sha1_schedule M t"
  proof -
    have "W ! ((t - 3) mod 16) = sha1_schedule M (t - 3)" "W ! ((t - 8) mod 16) = sha1_schedule M (t - 8)"
      "W ! ((t - 14) mod 16) = sha1_schedule M (t - 14)" "W ! (t mod 16) = sha1_schedule M (t - 16)"
      using w [of "t - 3"] w [of "t - 8"] w [of "t - 14"] w [of "t - 16"] False m by simp_all
    moreover have "sha1_S x 1 = word_rotl 1 x" for x by (rule sha1_S_rotl) simp_all
    ultimately show ?thesis unfolding sha1_schedule.simps [of M t] using False by simp
  qed
  then have r: "sha1_R W t = (sha1_schedule M t, W[t mod 16 := sha1_schedule M t])"
    unfolding sha1_R_def Let_def by simp
  have "(W[t mod 16 := sha1_schedule M t]) ! (i mod 16) = sha1_schedule M i" if "i < t + 1" "t + 1 \<le> i + 16" for i
  proof (cases "i = t")
    case True
    then show ?thesis using assms by (simp add: sha1_window_def)
  next
    case ne: False
    then have lt: "i < t" "t < i + 16" using that by simp_all
    moreover have "t mod 16 = i mod 16 \<longleftrightarrow> 16 dvd t - i" using lt(1) by (intro mod_eq_dvd_iff_nat) simp
    ultimately have "i mod 16 \<noteq> t mod 16" using nat_dvd_not_less [of "t - i" 16] by auto
    then show ?thesis using w [of i] that ne by simp
  qed
  then have "sha1_window M (t + 1) (W[t mod 16 := sha1_schedule M t])"
    using assms False unfolding sha1_window_def by (simp add: max_def)
  then show ?thesis using False r by auto
qed

lemma sha1_step_round:
  assumes "sha1_window M t W" "length A = 5" "t < 80"
  obtains A' W' where "sha1_step t (A, W) = (A', W')" "sha1_window M (t + 1) W'" "length A' = 5"
    "sha1_variables (t + 1) A' = sha1_round M t (sha1_variables t A)"
proof -
  from sha1_next_word [OF assms(1)] obtain W' where W': "(if t < 16 then (W ! t, W) else sha1_R W t) = (sha1_schedule M t, W')"
    "sha1_window M (t + 1) W'" by blast
  let ?A' = "sha1_P (sha1_f t) (sha1_K t) (sha1_reg t 0) (sha1_reg t 1) (sha1_reg t 2) (sha1_reg t 3) (sha1_reg t 4)
    (sha1_schedule M t) A"
  have s: "sha1_step t (A, W) = (?A', W')" by (simp add: sha1_step_def sha1_call_def W'(1) Let_def)
  have reg: "sha1_reg t j = (j + 5 - t mod 5) mod 5" if "j < 5" for j
  proof -
    have "t mod 5 + 5 * (t div 5) = t" "t div 5 \<le> 15" "t mod 5 < 5" using assms(3) by simp_all
    then have "j + 80 - t = j + 5 - t mod 5 + 5 * (15 - t div 5)" by linarith
    then show ?thesis by (simp only: sha1_reg_def mod_mult_self2)
  qed
  have reg': "sha1_reg (Suc t) j = (j + 4 - t mod 5) mod 5" if "j < 5" for j
  proof -
    have "t mod 5 + 5 * (t div 5) = t" "t div 5 \<le> 15" "t mod 5 < 5" using assms(3) by simp_all
    then have "j + 80 - Suc t = j + 4 - t mod 5 + 5 * (15 - t div 5)" by linarith
    then show ?thesis by (simp only: sha1_reg_def mod_mult_self2)
  qed
  obtain a b c d e where A: "A = [a, b, c, d, e]"
    using assms(2) by (auto simp: numeral_eq_Suc length_Suc_conv)
  have "t mod 5 < 5" by simp
  then consider "t mod 5 = 0" | "t mod 5 = 1" | "t mod 5 = 2" | "t mod 5 = 3" | "t mod 5 = 4" by linarith
  then have v: "sha1_variables (t + 1) ?A' = sha1_round M t (sha1_variables t A)"
    by cases (simp_all add: sha1_variables_def reg reg' sha1_P_def Let_def A sha1_S_rotl algebra_simps)
  show thesis by (rule that [OF s W'(2) _ v]) (simp add: sha1_P_def Let_def assms(2))
qed

lemma sha1_steps:
  assumes "sha1_window M 0 W" "length A = 5" "n \<le> 80"
  obtains A' W' where "fold sha1_step [0..<n] (A, W) = (A', W')" "sha1_window M n W'" "length A' = 5"
    "sha1_variables n A' = fold (sha1_round M) [0..<n] (sha1_variables 0 A)"
  using assms(3)
proof (induction n arbitrary: thesis)
  case 0
  then show ?case using assms by simp
next
  case (Suc n)
  from Suc.IH Suc.prems(2) obtain A1 W1 where 1: "fold sha1_step [0..<n] (A, W) = (A1, W1)" "sha1_window M n W1" "length A1 = 5"
    "sha1_variables n A1 = fold (sha1_round M) [0..<n] (sha1_variables 0 A)" by (metis Suc_leD)
  from sha1_step_round [OF 1(2,3)] Suc.prems(2) obtain A2 W2 where "sha1_step n (A1, W1) = (A2, W2)" "sha1_window M (n + 1) W2"
    "length A2 = 5" "sha1_variables (n + 1) A2 = sha1_round M n (sha1_variables n A1)" by (metis Suc_le_lessD)
  then show ?case using 1 by (intro Suc.prems(1) [of A2 W2]) simp_all
qed

lemma sha1_process_compress:
  assumes "length state = 5"
  shows "mbedtls_internal_sha1_process state data = (0, sha1_compress state data)"
proof -
  let ?W = "map (\<lambda>i. get_uint32_be data (4 * i)) [0..<16]"
  have "sha1_schedule data i = get_uint32_be data (4 * i)" if "i < 16" for i
    using that by (simp add: sha1_schedule.simps [of data i])
  then have W: "sha1_window data 0 ?W" by (simp add: sha1_window_def)
  have seg: "fold (sha1_call F K) ts s = fold sha1_step ts s" if "\<And>t. t \<in> set ts \<Longrightarrow> sha1_f t = F \<and> sha1_K t = K" for F K ts s
    by (rule fold_cong) (use that in \<open>simp_all add: sha1_step_def\<close>)
  have s1: "fold (sha1_call sha1_F1 0x5A827999) [0..<20] s = fold sha1_step [0..<20] s" for s
    by (rule seg) (auto simp: sha1_f_def sha1_K_def fun_eq_iff sha1_F_eq)
  have s2: "fold (sha1_call sha1_F2 0x6ED9EBA1) [20..<40] s = fold sha1_step [20..<40] s" for s
    by (rule seg) (auto simp: sha1_f_def sha1_K_def fun_eq_iff sha1_F_eq)
  have s3: "fold (sha1_call sha1_F3 0x8F1BBCDC) [40..<60] s = fold sha1_step [40..<60] s" for s
    by (rule seg) (auto simp: sha1_f_def sha1_K_def fun_eq_iff sha1_F_eq)
  have s4: "fold (sha1_call sha1_F2 0xCA62C1D6) [60..<80] s = fold sha1_step [60..<80] s" for s
    by (rule seg) (auto simp: sha1_f_def sha1_K_def fun_eq_iff sha1_F_eq)
  have up: "[0..<80] = [0..<20] @ [20..<40] @ [40..<60] @ [60..<80]"
    using upt_add_eq_append [of 0 60 20] upt_add_eq_append [of 0 40 20] upt_add_eq_append [of 0 20 20] by simp
  have "fold (sha1_call sha1_F2 0xCA62C1D6) [60..<80] (fold (sha1_call sha1_F3 0x8F1BBCDC) [40..<60]
      (fold (sha1_call sha1_F2 0x6ED9EBA1) [20..<40] (fold (sha1_call sha1_F1 0x5A827999) [0..<20] (take 5 state, ?W)))) =
    fold sha1_step [0..<80] (take 5 state, ?W)"
    unfolding up fold_append comp_def s1 s2 s3 s4 ..
  moreover obtain A' W' where r: "fold sha1_step [0..<80] (take 5 state, ?W) = (A', W')" "length A' = 5"
    "sha1_variables 80 A' = fold (sha1_round data) [0..<80] (sha1_variables 0 (take 5 state))"
    using sha1_steps [OF W, of "take 5 state" 80] assms by (metis length_take min.idem order_refl)
  moreover have id: "sha1_variables 80 A = A" "sha1_variables 0 A = A" if l: "length A = 5" for A
  proof -
    obtain a b c d e where "A = [a, b, c, d, e]"
      using l by (auto simp: numeral_eq_Suc length_Suc_conv)
    then show "sha1_variables 80 A = A" "sha1_variables 0 A = A" by (simp_all add: sha1_variables_def sha1_reg_def)
  qed
  ultimately show ?thesis
    using assms by (simp add: mbedtls_internal_sha1_process_def sha1_compress_def Let_def id)
qed

lemma length_sha1_compress: "length s = 5 \<Longrightarrow> length (sha1_compress s d) = 5"
proof -
  assume l: "length s = 5"
  have r: "length (sha1_round d t x) = length x" for t x
    by (cases "(d, t, x)" rule: sha1_round.cases) simp_all
  have "length (fold (sha1_round d) ts x) = length x" for ts x
    by (induction ts arbitrary: x) (simp_all add: r)
  then show ?thesis using l by (simp add: sha1_compress_def)
qed

section \<open>The hash function\<close>

interpretation sha1: block_hash 64 8 mbedtls_internal_sha1_process "\<lambda>s d. snd (mbedtls_internal_sha1_process s d)"
  sha1_put_length "big_endian 8" sha1_iv
proof unfold_locales
  show "mbedtls_internal_sha1_process s d = (0, snd (mbedtls_internal_sha1_process s d))" for s d
    by (simp add: mbedtls_internal_sha1_process_def Let_def)
  show "\<exists>k. (64 :: nat) = 2 ^ k \<and> k \<le> LENGTH(32)" by (rule exI [of _ 6]) simp
qed (simp_all add: sha1_put_length_def encode_32 [simplified])

lemma sha1_started: "sha1.absorbed (snd (mbedtls_sha1_starts mbedtls_sha1_init)) []"
  by (rule sha1.absorbed_start) (simp_all add: mbedtls_sha1_starts_def mbedtls_sha1_init_def)

definition sha1_digest :: "bytes \<Rightarrow> bytes" where
  "sha1_digest m = concat (map put_uint32_be (md_hash 64 8 (big_endian 8) sha1_compress sha1_iv m))"

lemma sha1_hash_eq:
  "md_hash 64 8 (big_endian 8) (\<lambda>s d. snd (mbedtls_internal_sha1_process s d)) sha1_iv m =
   md_hash 64 8 (big_endian 8) sha1_compress sha1_iv m"
  unfolding md_hash_def
  by (rule absorb_cong [where P = "\<lambda>s. length s = 5"])
    (simp_all add: sha1_process_compress length_sha1_compress sha1_iv_def)

lemma sha1_stream:
  assumes "\<forall>c\<in>set inputs. length c < 2 ^ 32"
  shows "\<exists>ctx. hash_updates mbedtls_sha1_update (snd (mbedtls_sha1_starts mbedtls_sha1_init)) inputs = (0, ctx) \<and>
    mbedtls_sha1_finish ctx output = (0, mbedtls_sha1_init, buffer_put 0 (sha1_digest (concat inputs)) output)"
proof -
  have l: "\<forall>c\<in>set inputs. length c < 2 ^ LENGTH(32)" using assms by simp
  from sha1.stream_result [OF sha1_started l] obtain ctx1 ctx2
    where "hash_updates (hash_update 64 mbedtls_internal_sha1_process) (snd (mbedtls_sha1_starts mbedtls_sha1_init)) inputs = (0, ctx1)"
      "hash_finish_blocks 64 8 sha1_put_length mbedtls_internal_sha1_process ctx1 = (0, ctx2)"
      "hash_state ctx2 = md_hash 64 8 (big_endian 8) sha1_compress sha1_iv (concat inputs)"
    unfolding sha1_hash_eq by metis
  then show ?thesis
    by (intro exI [of _ ctx1])
      (simp add: mbedtls_sha1_update_def mbedtls_sha1_finish_def sha1_digest_def mbedtls_sha1_free_def mbedtls_sha1_init_def)
qed

end
