(* ===== verification/Hash_Ripemd160.thy ===== *)
theory Hash_Ripemd160
  imports Block_Hash
begin

text \<open>
  drivers/builtin/src/ripemd160.c. The local variables A to E and Ap to Ep of the compression
  function are two lists; a call of the macro P2 is a step \<open>(a, b, c, d, e, r, s, rp, sp)\<close>. The
  finish function of this file is written with the update function.

  Beside the code stands the standard: its permutations, shifts, constants and functions, with the
  compression \<open>ripemd160_compress\<close> and the digest of a message; the compression of the code equals it.
\<close>

type_synonym mbedtls_ripemd160_context = "u32 hash_context"

definition mbedtls_ripemd160_init :: mbedtls_ripemd160_context where
  "mbedtls_ripemd160_init = \<lparr>total0 = 0, total1 = 0, hash_state = replicate 5 0, hash_buffer = replicate 64 0\<rparr>"

definition mbedtls_ripemd160_free :: "mbedtls_ripemd160_context \<Rightarrow> mbedtls_ripemd160_context" where
  "mbedtls_ripemd160_free ctx = \<lparr>total0 = 0, total1 = 0, hash_state = replicate 5 0, hash_buffer = replicate 64 0\<rparr>"

definition mbedtls_ripemd160_clone :: "mbedtls_ripemd160_context \<Rightarrow> mbedtls_ripemd160_context" where
  "mbedtls_ripemd160_clone src = src"

definition ripemd160_iv :: "u32 list" where
  "ripemd160_iv = [0x67452301, 0xEFCDAB89, 0x98BADCFE, 0x10325476, 0xC3D2E1F0]"

definition mbedtls_ripemd160_starts :: "mbedtls_ripemd160_context \<Rightarrow> int \<times> mbedtls_ripemd160_context" where
  "mbedtls_ripemd160_starts ctx = (0, ctx\<lparr>total0 := 0, total1 := 0, hash_state := ripemd160_iv\<rparr>)"

definition ripemd160_F1 :: "u32 \<Rightarrow> u32 \<Rightarrow> u32 \<Rightarrow> u32" where
  "ripemd160_F1 x y z = x XOR y XOR z"

definition ripemd160_F2 :: "u32 \<Rightarrow> u32 \<Rightarrow> u32 \<Rightarrow> u32" where
  "ripemd160_F2 x y z = (x AND y) OR (NOT x AND z)"

definition ripemd160_F3 :: "u32 \<Rightarrow> u32 \<Rightarrow> u32 \<Rightarrow> u32" where
  "ripemd160_F3 x y z = (x OR NOT y) XOR z"

definition ripemd160_F4 :: "u32 \<Rightarrow> u32 \<Rightarrow> u32 \<Rightarrow> u32" where
  "ripemd160_F4 x y z = (x AND z) OR (y AND NOT z)"

definition ripemd160_F5 :: "u32 \<Rightarrow> u32 \<Rightarrow> u32 \<Rightarrow> u32" where
  "ripemd160_F5 x y z = x XOR (y OR NOT z)"

definition ripemd160_S :: "u32 \<Rightarrow> nat \<Rightarrow> u32" where
  "ripemd160_S x n = push_bit n x OR drop_bit (32 - n) x"

definition ripemd160_P ::
    "u32 list \<Rightarrow> nat \<Rightarrow> nat \<Rightarrow> nat \<Rightarrow> nat \<Rightarrow> nat \<Rightarrow> nat \<Rightarrow> nat \<Rightarrow> (u32 \<Rightarrow> u32 \<Rightarrow> u32 \<Rightarrow> u32) \<Rightarrow> u32 \<Rightarrow> u32 list \<Rightarrow> u32 list" where
  "ripemd160_P X a b c d e r s f k A =
    (let A = A[a := A ! a + (f (A ! b) (A ! c) (A ! d) + X ! r + k)];
         A = A[a := ripemd160_S (A ! a) s + A ! e]
     in A[c := ripemd160_S (A ! c) 10])"

type_synonym ripemd160_step = "nat \<times> nat \<times> nat \<times> nat \<times> nat \<times> nat \<times> nat \<times> nat \<times> nat"

fun ripemd160_P2 ::
    "(u32 \<Rightarrow> u32 \<Rightarrow> u32 \<Rightarrow> u32) \<Rightarrow> u32 \<Rightarrow> (u32 \<Rightarrow> u32 \<Rightarrow> u32 \<Rightarrow> u32) \<Rightarrow> u32 \<Rightarrow> u32 list \<Rightarrow> ripemd160_step \<Rightarrow>
     u32 list \<times> u32 list \<Rightarrow> u32 list \<times> u32 list" where
  "ripemd160_P2 F K Fp Kp X (a, b, c, d, e, r, s, rp, sp) (A, Ap) =
    (ripemd160_P X a b c d e r s F K A, ripemd160_P X a b c d e rp sp Fp Kp Ap)"

definition ripemd160_round1 :: "ripemd160_step list" where
  "ripemd160_round1 = [
    (0, 1, 2, 3, 4, 0, 11, 5, 8), (4, 0, 1, 2, 3, 1, 14, 14, 9), (3, 4, 0, 1, 2, 2, 15, 7, 9), (2, 3, 4, 0, 1, 3, 12, 0, 11),
    (1, 2, 3, 4, 0, 4, 5, 9, 13), (0, 1, 2, 3, 4, 5, 8, 2, 15), (4, 0, 1, 2, 3, 6, 7, 11, 15), (3, 4, 0, 1, 2, 7, 9, 4, 5),
    (2, 3, 4, 0, 1, 8, 11, 13, 7), (1, 2, 3, 4, 0, 9, 13, 6, 7), (0, 1, 2, 3, 4, 10, 14, 15, 8), (4, 0, 1, 2, 3, 11, 15, 8, 11),
    (3, 4, 0, 1, 2, 12, 6, 1, 14), (2, 3, 4, 0, 1, 13, 7, 10, 14), (1, 2, 3, 4, 0, 14, 9, 3, 12), (0, 1, 2, 3, 4, 15, 8, 12, 6)]"

definition ripemd160_round2 :: "ripemd160_step list" where
  "ripemd160_round2 = [
    (4, 0, 1, 2, 3, 7, 7, 6, 9), (3, 4, 0, 1, 2, 4, 6, 11, 13), (2, 3, 4, 0, 1, 13, 8, 3, 15), (1, 2, 3, 4, 0, 1, 13, 7, 7),
    (0, 1, 2, 3, 4, 10, 11, 0, 12), (4, 0, 1, 2, 3, 6, 9, 13, 8), (3, 4, 0, 1, 2, 15, 7, 5, 9), (2, 3, 4, 0, 1, 3, 15, 10, 11),
    (1, 2, 3, 4, 0, 12, 7, 14, 7), (0, 1, 2, 3, 4, 0, 12, 15, 7), (4, 0, 1, 2, 3, 9, 15, 8, 12), (3, 4, 0, 1, 2, 5, 9, 12, 7),
    (2, 3, 4, 0, 1, 2, 11, 4, 6), (1, 2, 3, 4, 0, 14, 7, 9, 15), (0, 1, 2, 3, 4, 11, 13, 1, 13), (4, 0, 1, 2, 3, 8, 12, 2, 11)]"

definition ripemd160_round3 :: "ripemd160_step list" where
  "ripemd160_round3 = [
    (3, 4, 0, 1, 2, 3, 11, 15, 9), (2, 3, 4, 0, 1, 10, 13, 5, 7), (1, 2, 3, 4, 0, 14, 6, 1, 15), (0, 1, 2, 3, 4, 4, 7, 3, 11),
    (4, 0, 1, 2, 3, 9, 14, 7, 8), (3, 4, 0, 1, 2, 15, 9, 14, 6), (2, 3, 4, 0, 1, 8, 13, 6, 6), (1, 2, 3, 4, 0, 1, 15, 9, 14),
    (0, 1, 2, 3, 4, 2, 14, 11, 12), (4, 0, 1, 2, 3, 7, 8, 8, 13), (3, 4, 0, 1, 2, 0, 13, 12, 5), (2, 3, 4, 0, 1, 6, 6, 2, 14),
    (1, 2, 3, 4, 0, 13, 5, 10, 13), (0, 1, 2, 3, 4, 11, 12, 0, 13), (4, 0, 1, 2, 3, 5, 7, 4, 7), (3, 4, 0, 1, 2, 12, 5, 13, 5)]"

definition ripemd160_round4 :: "ripemd160_step list" where
  "ripemd160_round4 = [
    (2, 3, 4, 0, 1, 1, 11, 8, 15), (1, 2, 3, 4, 0, 9, 12, 6, 5), (0, 1, 2, 3, 4, 11, 14, 4, 8), (4, 0, 1, 2, 3, 10, 15, 1, 11),
    (3, 4, 0, 1, 2, 0, 14, 3, 14), (2, 3, 4, 0, 1, 8, 15, 11, 14), (1, 2, 3, 4, 0, 12, 9, 15, 6), (0, 1, 2, 3, 4, 4, 8, 0, 14),
    (4, 0, 1, 2, 3, 13, 9, 5, 6), (3, 4, 0, 1, 2, 3, 14, 12, 9), (2, 3, 4, 0, 1, 7, 5, 2, 12), (1, 2, 3, 4, 0, 15, 6, 13, 9),
    (0, 1, 2, 3, 4, 14, 8, 9, 12), (4, 0, 1, 2, 3, 5, 6, 7, 5), (3, 4, 0, 1, 2, 6, 5, 10, 15), (2, 3, 4, 0, 1, 2, 12, 14, 8)]"

definition ripemd160_round5 :: "ripemd160_step list" where
  "ripemd160_round5 = [
    (1, 2, 3, 4, 0, 4, 9, 12, 8), (0, 1, 2, 3, 4, 0, 15, 15, 5), (4, 0, 1, 2, 3, 5, 5, 10, 12), (3, 4, 0, 1, 2, 9, 11, 4, 9),
    (2, 3, 4, 0, 1, 7, 6, 1, 12), (1, 2, 3, 4, 0, 12, 8, 5, 5), (0, 1, 2, 3, 4, 2, 13, 8, 14), (4, 0, 1, 2, 3, 10, 12, 7, 6),
    (3, 4, 0, 1, 2, 14, 5, 6, 8), (2, 3, 4, 0, 1, 1, 12, 2, 13), (1, 2, 3, 4, 0, 3, 13, 13, 6), (0, 1, 2, 3, 4, 8, 14, 14, 5),
    (4, 0, 1, 2, 3, 11, 11, 0, 15), (3, 4, 0, 1, 2, 6, 8, 3, 13), (2, 3, 4, 0, 1, 15, 5, 9, 11), (1, 2, 3, 4, 0, 13, 6, 11, 11)]"

definition mbedtls_internal_ripemd160_process :: "u32 list \<Rightarrow> bytes \<Rightarrow> int \<times> u32 list" where
  "mbedtls_internal_ripemd160_process state data =
    (let X = map (\<lambda>i. get_uint32_le data (4 * i)) [0..<16];
         s = (take 5 state, take 5 state);
         s = fold (ripemd160_P2 ripemd160_F1 0x00000000 ripemd160_F5 0x50A28BE6 X) ripemd160_round1 s;
         s = fold (ripemd160_P2 ripemd160_F2 0x5A827999 ripemd160_F4 0x5C4DD124 X) ripemd160_round2 s;
         s = fold (ripemd160_P2 ripemd160_F3 0x6ED9EBA1 ripemd160_F3 0x6D703EF3 X) ripemd160_round3 s;
         s = fold (ripemd160_P2 ripemd160_F4 0x8F1BBCDC ripemd160_F2 0x7A6D76E9 X) ripemd160_round4 s;
         (A, Ap) = fold (ripemd160_P2 ripemd160_F5 0xA953FD4E ripemd160_F1 0x00000000 X) ripemd160_round5 s
     in (0, [state ! 1 + A ! 2 + Ap ! 3, state ! 2 + A ! 3 + Ap ! 4, state ! 3 + A ! 4 + Ap ! 0,
             state ! 4 + A ! 0 + Ap ! 1, state ! 0 + A ! 1 + Ap ! 2]))"

definition mbedtls_ripemd160_update :: "mbedtls_ripemd160_context \<Rightarrow> bytes \<Rightarrow> int \<times> mbedtls_ripemd160_context" where
  "mbedtls_ripemd160_update = hash_update 64 mbedtls_internal_ripemd160_process"

definition ripemd160_padding :: bytes where
  "ripemd160_padding = 0x80 # replicate 63 0"

definition mbedtls_ripemd160_finish :: "mbedtls_ripemd160_context \<Rightarrow> bytes \<Rightarrow> int \<times> mbedtls_ripemd160_context \<times> bytes" where
  "mbedtls_ripemd160_finish ctx output =
    (let high = drop_bit 29 (total0 ctx) OR push_bit 3 (total1 ctx);
         low = push_bit 3 (total0 ctx);
         msglen = put_uint32_le low @ put_uint32_le high;
         last = unat (total0 ctx AND 0x3F);
         padn = (if last < 56 then 56 - last else 120 - last);
         (ret, ctx) = mbedtls_ripemd160_update ctx (take padn ripemd160_padding)
     in if ret \<noteq> 0 then (ret, mbedtls_ripemd160_free ctx, output)
        else
          let (ret, ctx) = mbedtls_ripemd160_update ctx msglen
          in if ret \<noteq> 0 then (ret, mbedtls_ripemd160_free ctx, output)
             else (0, mbedtls_ripemd160_free ctx, buffer_put 0 (concat (map put_uint32_le (hash_state ctx))) output))"

definition mbedtls_ripemd160 :: "bytes \<Rightarrow> bytes \<Rightarrow> int \<times> bytes" where
  "mbedtls_ripemd160 input output =
    (let (ret, ctx) = mbedtls_ripemd160_starts mbedtls_ripemd160_init
     in if ret \<noteq> 0 then (ret, output)
        else
          let (ret, ctx) = mbedtls_ripemd160_update ctx input
          in if ret \<noteq> 0 then (ret, output)
             else
               let (ret, ctx, output) = mbedtls_ripemd160_finish ctx output
               in (ret, output))"

section \<open>The standard\<close>

text \<open>
  RIPEMD-160 as Dobbertin, Bosselaers and Preneel define it: the words of the block are taken in an order
  given by the permutations \<open>\<rho>\<close> and \<open>\<pi>\<close>, the shift of a step belongs to its round and to the word it takes,
  the constants are the integer parts of \<open>2 ^ 30\<close> times the square and cube roots of 2, 3, 5 and 7, and the
  functions are used in the opposite order in the second line. A step leaves the five variables rotated.
\<close>

definition ripemd160_rho :: "nat \<Rightarrow> nat" where
  "ripemd160_rho i = [7, 4, 13, 1, 10, 6, 15, 3, 12, 0, 9, 5, 2, 14, 11, 8] ! i"

definition ripemd160_pi :: "nat \<Rightarrow> nat" where
  "ripemd160_pi i = (9 * i + 5) mod 16"

definition ripemd160_r :: "nat \<Rightarrow> nat" where
  "ripemd160_r j = (ripemd160_rho ^^ (j div 16)) (j mod 16)"

definition ripemd160_r' :: "nat \<Rightarrow> nat" where
  "ripemd160_r' j = (ripemd160_rho ^^ (j div 16)) (ripemd160_pi (j mod 16))"

definition ripemd160_shift :: "nat \<Rightarrow> nat \<Rightarrow> nat" where
  "ripemd160_shift round word =
    [[11, 14, 15, 12, 5, 8, 7, 9, 11, 13, 14, 15, 6, 7, 9, 8],
     [12, 13, 11, 15, 6, 9, 9, 7, 12, 15, 11, 13, 7, 8, 7, 7],
     [13, 15, 14, 11, 7, 7, 6, 8, 13, 14, 13, 12, 5, 5, 6, 9],
     [14, 11, 12, 14, 8, 6, 5, 5, 15, 12, 15, 14, 9, 9, 8, 6],
     [15, 12, 13, 13, 9, 5, 8, 6, 14, 11, 12, 11, 8, 6, 5, 5]] ! round ! word"

definition ripemd160_K :: "nat \<Rightarrow> u32" where
  "ripemd160_K j = [0, 0x5A827999, 0x6ED9EBA1, 0x8F1BBCDC, 0xA953FD4E] ! (j div 16)"

definition ripemd160_K' :: "nat \<Rightarrow> u32" where
  "ripemd160_K' j = [0x50A28BE6, 0x5C4DD124, 0x6D703EF3, 0x7A6D76E9, 0] ! (j div 16)"

definition ripemd160_f :: "nat \<Rightarrow> u32 \<Rightarrow> u32 \<Rightarrow> u32 \<Rightarrow> u32" where
  "ripemd160_f j x y z =
    (if j < 16 then x XOR y XOR z
     else if j < 32 then (x AND y) OR (NOT x AND z)
     else if j < 48 then (x OR NOT y) XOR z
     else if j < 64 then (x AND z) OR (y AND NOT z)
     else x XOR (y OR NOT z))"

fun ripemd160_operation :: "u32 \<Rightarrow> nat \<Rightarrow> (u32 \<Rightarrow> u32 \<Rightarrow> u32 \<Rightarrow> u32) \<Rightarrow> u32 \<Rightarrow> u32 list \<Rightarrow> u32 list" where
  "ripemd160_operation x s f k [a, b, c, d, e] = [e, word_rotl s (a + f b c d + x + k) + e, b, word_rotl 10 c, d]"
| "ripemd160_operation x s f k v = v"

definition ripemd160_left :: "bytes \<Rightarrow> nat \<Rightarrow> u32 list \<Rightarrow> u32 list" where
  "ripemd160_left M j = ripemd160_operation (get_uint32_le M (4 * ripemd160_r j)) (ripemd160_shift (j div 16) (ripemd160_r j))
     (ripemd160_f j) (ripemd160_K j)"

definition ripemd160_right :: "bytes \<Rightarrow> nat \<Rightarrow> u32 list \<Rightarrow> u32 list" where
  "ripemd160_right M j = ripemd160_operation (get_uint32_le M (4 * ripemd160_r' j)) (ripemd160_shift (j div 16) (ripemd160_r' j))
     (ripemd160_f (79 - j)) (ripemd160_K' j)"

definition ripemd160_compress :: "u32 list \<Rightarrow> bytes \<Rightarrow> u32 list" where
  "ripemd160_compress H M =
    (let L = fold (ripemd160_left M) [0..<80] (take 5 H); R = fold (ripemd160_right M) [0..<80] (take 5 H)
     in [H ! 1 + L ! 2 + R ! 3, H ! 2 + L ! 3 + R ! 4, H ! 3 + L ! 4 + R ! 0, H ! 4 + L ! 0 + R ! 1, H ! 0 + L ! 1 + R ! 2])"

text \<open>The constants are the roots they are meant to be.\<close>

lemma ripemd160_K_roots:
  "list_all2 (\<lambda>p k. unat k ^ 2 \<le> p * 2 ^ 60 \<and> p * 2 ^ 60 < (unat k + 1) ^ 2) [2, 3, 5, 7] (map ripemd160_K [16, 32, 48, 64])"
  "list_all2 (\<lambda>p k. unat k ^ 3 \<le> p * 2 ^ 90 \<and> p * 2 ^ 90 < (unat k + 1) ^ 3) [2, 3, 5, 7] (map ripemd160_K' [0, 16, 32, 48])"
  by (simp_all add: ripemd160_K_def ripemd160_K'_def)

section \<open>The compression function computes the standard\<close>

text \<open>The variable that plays the part \<open>j\<close> (a to e) in step \<open>t\<close>, and the call of P2 there.\<close>

definition ripemd160_reg :: "nat \<Rightarrow> nat \<Rightarrow> nat" where
  "ripemd160_reg t j = (j + 80 - t) mod 5"

definition ripemd160_call :: "nat \<Rightarrow> ripemd160_step" where
  "ripemd160_call t = (ripemd160_reg t 0, ripemd160_reg t 1, ripemd160_reg t 2, ripemd160_reg t 3, ripemd160_reg t 4,
     ripemd160_r t, ripemd160_shift (t div 16) (ripemd160_r t), ripemd160_r' t, ripemd160_shift (t div 16) (ripemd160_r' t))"

definition ripemd160_variables :: "nat \<Rightarrow> u32 list \<Rightarrow> u32 list" where
  "ripemd160_variables t A = map (\<lambda>j. A ! ripemd160_reg t j) [0, 1, 2, 3, 4]"

lemma ripemd160_calls:
  "ripemd160_round1 = map ripemd160_call [0..<16]" "ripemd160_round2 = map ripemd160_call [16..<32]"
  "ripemd160_round3 = map ripemd160_call [32..<48]" "ripemd160_round4 = map ripemd160_call [48..<64]"
  "ripemd160_round5 = map ripemd160_call [64..<80]"
  by code_simp+

lemma ripemd160_tables:
  "list_all (\<lambda>t. ripemd160_r t < 16 \<and> ripemd160_r' t < 16 \<and>
     (\<lambda>s. 0 < s \<and> s < 32) (ripemd160_shift (t div 16) (ripemd160_r t)) \<and>
     (\<lambda>s. 0 < s \<and> s < 32) (ripemd160_shift (t div 16) (ripemd160_r' t))) [0..<80]"
  by code_simp

lemma ripemd160_S_rotl: "0 < n \<Longrightarrow> n < 32 \<Longrightarrow> ripemd160_S x n = word_rotl n x"
  using rotl_shifts [of n x] by (simp add: ripemd160_S_def)

text \<open>A call of P, whatever its message word, shift, function and constant.\<close>

lemma ripemd160_P_operation:
  assumes "length A = 5" "t < 80" "0 < s" "s < 32"
  shows "length (ripemd160_P X (ripemd160_reg t 0) (ripemd160_reg t 1) (ripemd160_reg t 2) (ripemd160_reg t 3) (ripemd160_reg t 4)
      r s f k A) = 5"
    "ripemd160_variables (Suc t) (ripemd160_P X (ripemd160_reg t 0) (ripemd160_reg t 1) (ripemd160_reg t 2) (ripemd160_reg t 3)
        (ripemd160_reg t 4) r s f k A) =
      ripemd160_operation (X ! r) s f k (ripemd160_variables t A)"
proof -
  have reg: "ripemd160_reg t j = (j + 5 - t mod 5) mod 5" "ripemd160_reg (Suc t) j = (j + 4 - t mod 5) mod 5" if "j < 5" for j
  proof -
    have "t mod 5 + 5 * (t div 5) = t" "t div 5 \<le> 15" "t mod 5 < 5" using assms(2) by simp_all
    then have "j + 80 - t = j + 5 - t mod 5 + 5 * (15 - t div 5)" "j + 80 - Suc t = j + 4 - t mod 5 + 5 * (15 - t div 5)" by linarith+
    then show "ripemd160_reg t j = (j + 5 - t mod 5) mod 5" "ripemd160_reg (Suc t) j = (j + 4 - t mod 5) mod 5"
      by (simp_all only: ripemd160_reg_def mod_mult_self2)
  qed
  obtain a b c d e where A: "A = [a, b, c, d, e]"
    using assms(1) by (auto simp: numeral_eq_Suc length_Suc_conv)
  have "t mod 5 < 5" by simp
  then consider "t mod 5 = 0" | "t mod 5 = 1" | "t mod 5 = 2" | "t mod 5 = 3" | "t mod 5 = 4" by linarith
  then show "ripemd160_variables (Suc t) (ripemd160_P X (ripemd160_reg t 0) (ripemd160_reg t 1) (ripemd160_reg t 2) (ripemd160_reg t 3)
        (ripemd160_reg t 4) r s f k A) =
      ripemd160_operation (X ! r) s f k (ripemd160_variables t A)"
    by cases (simp_all add: ripemd160_variables_def ripemd160_P_def reg Let_def A ripemd160_S_rotl assms(3,4) algebra_simps)
qed (simp add: ripemd160_P_def Let_def assms(1))

text \<open>The call of P2 in step \<open>t\<close>, with the functions and constants of the standard.\<close>

definition ripemd160_both :: "u32 list \<Rightarrow> nat \<Rightarrow> u32 list \<times> u32 list \<Rightarrow> u32 list \<times> u32 list" where
  "ripemd160_both X t =
    ripemd160_P2 (ripemd160_f t) (ripemd160_K t) (ripemd160_f (79 - t)) (ripemd160_K' t) X (ripemd160_call t)"

lemma ripemd160_both_steps:
  assumes X: "X = map (\<lambda>i. get_uint32_le M (4 * i)) [0..<16]" and A: "length A = 5" "length B = 5"
  shows "n \<le> 80 \<Longrightarrow> \<exists>A' B'. fold (ripemd160_both X) [0..<n] (A, B) = (A', B') \<and> length A' = 5 \<and> length B' = 5 \<and>
    ripemd160_variables n A' = fold (ripemd160_left M) [0..<n] (ripemd160_variables 0 A) \<and>
    ripemd160_variables n B' = fold (ripemd160_right M) [0..<n] (ripemd160_variables 0 B)"
proof (induction n)
  case 0
  show ?case using A by simp
next
  case (Suc n)
  then obtain A' B' where ih: "fold (ripemd160_both X) [0..<n] (A, B) = (A', B')" "length A' = 5" "length B' = 5"
    "ripemd160_variables n A' = fold (ripemd160_left M) [0..<n] (ripemd160_variables 0 A)"
    "ripemd160_variables n B' = fold (ripemd160_right M) [0..<n] (ripemd160_variables 0 B)" by auto
  from Suc.prems have n: "n < 80" by simp
  then have tab: "ripemd160_r n < 16" "ripemd160_r' n < 16"
    "0 < ripemd160_shift (n div 16) (ripemd160_r n)" "ripemd160_shift (n div 16) (ripemd160_r n) < 32"
    "0 < ripemd160_shift (n div 16) (ripemd160_r' n)" "ripemd160_shift (n div 16) (ripemd160_r' n) < 32"
    using ripemd160_tables unfolding list_all_iff by auto
  note l = ripemd160_P_operation [OF ih(2) n tab(3,4), of X "ripemd160_r n" "ripemd160_f n" "ripemd160_K n"]
  note r = ripemd160_P_operation [OF ih(3) n tab(5,6), of X "ripemd160_r' n" "ripemd160_f (79 - n)" "ripemd160_K' n"]
  let ?P = "ripemd160_P X (ripemd160_reg n 0) (ripemd160_reg n 1) (ripemd160_reg n 2) (ripemd160_reg n 3) (ripemd160_reg n 4)"
  let ?L = "?P (ripemd160_r n) (ripemd160_shift (n div 16) (ripemd160_r n)) (ripemd160_f n) (ripemd160_K n) A'"
  let ?R = "?P (ripemd160_r' n) (ripemd160_shift (n div 16) (ripemd160_r' n)) (ripemd160_f (79 - n)) (ripemd160_K' n) B'"
  have x: "X ! ripemd160_r n = get_uint32_le M (4 * ripemd160_r n)" "X ! ripemd160_r' n = get_uint32_le M (4 * ripemd160_r' n)"
    using tab(1,2) by (simp_all add: X)
  have "ripemd160_both X n (A', B') = (?L, ?R)" by (simp add: ripemd160_both_def ripemd160_call_def)
  then have "fold (ripemd160_both X) [0..<Suc n] (A, B) = (?L, ?R)" using ih(1) by simp
  moreover have "ripemd160_variables (Suc n) ?L = fold (ripemd160_left M) [0..<Suc n] (ripemd160_variables 0 A)"
    unfolding l(2) x ih(4) by (simp add: ripemd160_left_def)
  moreover have "ripemd160_variables (Suc n) ?R = fold (ripemd160_right M) [0..<Suc n] (ripemd160_variables 0 B)"
    unfolding r(2) x ih(5) by (simp add: ripemd160_right_def)
  ultimately show ?case using l(1) r(1) by blast
qed

lemma ripemd160_segment:
  assumes "\<And>t. a \<le> t \<Longrightarrow> t < b \<Longrightarrow>
    ripemd160_f t = F \<and> ripemd160_K t = K \<and> ripemd160_f (79 - t) = F' \<and> ripemd160_K' t = K'"
  shows "fold (ripemd160_P2 F K F' K' X) (map ripemd160_call [a..<b]) s = fold (ripemd160_both X) [a..<b] s"
  unfolding fold_map by (rule fold_cong) (use assms in \<open>simp_all add: ripemd160_both_def\<close>)

lemma ripemd160_constants:
  assumes "16 * q \<le> t" "t < 16 * q + 16"
  shows "ripemd160_K t = [0, 0x5A827999, 0x6ED9EBA1, 0x8F1BBCDC, 0xA953FD4E] ! q"
    "ripemd160_K' t = [0x50A28BE6, 0x5C4DD124, 0x6D703EF3, 0x7A6D76E9, 0] ! q"
proof -
  have "t div 16 = q" using assms by (intro div_nat_eqI) simp_all
  then show "ripemd160_K t = [0, 0x5A827999, 0x6ED9EBA1, 0x8F1BBCDC, 0xA953FD4E] ! q"
    "ripemd160_K' t = [0x50A28BE6, 0x5C4DD124, 0x6D703EF3, 0x7A6D76E9, 0] ! q"
    by (simp_all add: ripemd160_K_def ripemd160_K'_def)
qed

lemma ripemd160_rounds:
  "fold (ripemd160_P2 ripemd160_F1 0x00000000 ripemd160_F5 0x50A28BE6 X) ripemd160_round1 s =
    fold (ripemd160_both X) [0..<16] s"
  "fold (ripemd160_P2 ripemd160_F2 0x5A827999 ripemd160_F4 0x5C4DD124 X) ripemd160_round2 s =
    fold (ripemd160_both X) [16..<32] s"
  "fold (ripemd160_P2 ripemd160_F3 0x6ED9EBA1 ripemd160_F3 0x6D703EF3 X) ripemd160_round3 s =
    fold (ripemd160_both X) [32..<48] s"
  "fold (ripemd160_P2 ripemd160_F4 0x8F1BBCDC ripemd160_F2 0x7A6D76E9 X) ripemd160_round4 s =
    fold (ripemd160_both X) [48..<64] s"
  "fold (ripemd160_P2 ripemd160_F5 0xA953FD4E ripemd160_F1 0x00000000 X) ripemd160_round5 s =
    fold (ripemd160_both X) [64..<80] s"
proof -
  show "fold (ripemd160_P2 ripemd160_F1 0x00000000 ripemd160_F5 0x50A28BE6 X) ripemd160_round1 s =
      fold (ripemd160_both X) [0..<16] s"
    unfolding ripemd160_calls
    by (rule ripemd160_segment) (auto simp: ripemd160_constants [of 0] ripemd160_f_def fun_eq_iff ripemd160_F1_def ripemd160_F5_def)
  show "fold (ripemd160_P2 ripemd160_F2 0x5A827999 ripemd160_F4 0x5C4DD124 X) ripemd160_round2 s =
      fold (ripemd160_both X) [16..<32] s"
    unfolding ripemd160_calls
    by (rule ripemd160_segment) (auto simp: ripemd160_constants [of 1] ripemd160_f_def fun_eq_iff ripemd160_F2_def ripemd160_F4_def)
  show "fold (ripemd160_P2 ripemd160_F3 0x6ED9EBA1 ripemd160_F3 0x6D703EF3 X) ripemd160_round3 s =
      fold (ripemd160_both X) [32..<48] s"
    unfolding ripemd160_calls
    by (rule ripemd160_segment) (auto simp: ripemd160_constants [of 2] ripemd160_f_def fun_eq_iff ripemd160_F3_def)
  show "fold (ripemd160_P2 ripemd160_F4 0x8F1BBCDC ripemd160_F2 0x7A6D76E9 X) ripemd160_round4 s =
      fold (ripemd160_both X) [48..<64] s"
    unfolding ripemd160_calls
    by (rule ripemd160_segment) (auto simp: ripemd160_constants [of 3] ripemd160_f_def fun_eq_iff ripemd160_F4_def ripemd160_F2_def)
  show "fold (ripemd160_P2 ripemd160_F5 0xA953FD4E ripemd160_F1 0x00000000 X) ripemd160_round5 s =
      fold (ripemd160_both X) [64..<80] s"
    unfolding ripemd160_calls
    by (rule ripemd160_segment) (auto simp: ripemd160_constants [of 4] ripemd160_f_def fun_eq_iff ripemd160_F5_def ripemd160_F1_def)
qed

lemma ripemd160_process_compress:
  assumes "length state = 5"
  shows "mbedtls_internal_ripemd160_process state data = (0, ripemd160_compress state data)"
proof -
  let ?X = "map (\<lambda>i. get_uint32_le data (4 * i)) [0..<16]"
  have up: "[0..<80] = [0..<16] @ [16..<32] @ [32..<48] @ [48..<64] @ [64..<80]"
    using upt_add_eq_append [of 0 64 16] upt_add_eq_append [of 0 48 16] upt_add_eq_append [of 0 32 16]
      upt_add_eq_append [of 0 16 16] by simp
  have five: "length (take 5 state) = 5" using assms by simp
  obtain L R where lr: "fold (ripemd160_both ?X) [0..<80] (take 5 state, take 5 state) = (L, R)" "length L = 5" "length R = 5"
    "ripemd160_variables 80 L = fold (ripemd160_left data) [0..<80] (ripemd160_variables 0 (take 5 state))"
    "ripemd160_variables 80 R = fold (ripemd160_right data) [0..<80] (ripemd160_variables 0 (take 5 state))"
    using ripemd160_both_steps [OF refl five five, of 80 data] by blast
  have id: "ripemd160_variables 80 A = A" "ripemd160_variables 0 A = A" if l: "length A = 5" for A
  proof -
    obtain a b c d e where "A = [a, b, c, d, e]" using l by (auto simp: numeral_eq_Suc length_Suc_conv)
    then show "ripemd160_variables 80 A = A" "ripemd160_variables 0 A = A"
      by (simp_all add: ripemd160_variables_def ripemd160_reg_def)
  qed
  have s: "L = fold (ripemd160_left data) [0..<80] (take 5 state)" "R = fold (ripemd160_right data) [0..<80] (take 5 state)"
    using lr(4,5) unfolding id(1) [OF lr(2)] id(1) [OF lr(3)] id(2) [OF five] .
  have "fold (ripemd160_both ?X) [64..<80] (fold (ripemd160_both ?X) [48..<64] (fold (ripemd160_both ?X) [32..<48]
      (fold (ripemd160_both ?X) [16..<32] (fold (ripemd160_both ?X) [0..<16] (take 5 state, take 5 state))))) = (L, R)"
    using lr(1) unfolding up fold_append comp_def .
  then show ?thesis
    unfolding mbedtls_internal_ripemd160_process_def ripemd160_compress_def ripemd160_rounds Let_def s [symmetric] by (simp only: prod.case)
qed

lemma length_ripemd160_compress: "length (ripemd160_compress s d) = 5"
  by (simp add: ripemd160_compress_def Let_def)

section \<open>The hash function\<close>

definition ripemd160_put_length :: "u32 \<Rightarrow> u32 \<Rightarrow> bytes" where
  "ripemd160_put_length high low = put_uint32_le low @ put_uint32_le high"

interpretation ripemd160: block_hash 64 8 mbedtls_internal_ripemd160_process
  "\<lambda>s d. snd (mbedtls_internal_ripemd160_process s d)" ripemd160_put_length "little_endian 8" ripemd160_iv
proof unfold_locales
  show "mbedtls_internal_ripemd160_process s d = (0, snd (mbedtls_internal_ripemd160_process s d))" for s d
    by (simp add: mbedtls_internal_ripemd160_process_def Let_def split_def)
  show "\<exists>k. (64 :: nat) = 2 ^ k \<and> k \<le> LENGTH(32)" by (rule exI [of _ 6]) simp
qed (simp_all add: ripemd160_put_length_def encode_32 [simplified])

lemma ripemd160_started: "ripemd160.absorbed (snd (mbedtls_ripemd160_starts mbedtls_ripemd160_init)) []"
  by (rule ripemd160.absorbed_start) (simp_all add: mbedtls_ripemd160_starts_def mbedtls_ripemd160_init_def)

definition ripemd160_digest :: "bytes \<Rightarrow> bytes" where
  "ripemd160_digest m = concat (map put_uint32_le (md_hash 64 8 (little_endian 8) ripemd160_compress ripemd160_iv m))"

lemma ripemd160_hash_eq:
  "md_hash 64 8 (little_endian 8) (\<lambda>s d. snd (mbedtls_internal_ripemd160_process s d)) ripemd160_iv m =
   md_hash 64 8 (little_endian 8) ripemd160_compress ripemd160_iv m"
  unfolding md_hash_def
  by (rule absorb_cong [where P = "\<lambda>s. length s = 5"])
    (simp_all add: ripemd160_process_compress length_ripemd160_compress ripemd160_iv_def)

lemma ripemd160_finish_result:
  assumes a: "ripemd160.absorbed ctx M"
  shows "mbedtls_ripemd160_finish ctx output = (0, mbedtls_ripemd160_init, buffer_put 0 (ripemd160_digest M) output)"
proof -
  let ?last = "length M mod 64"
  let ?padn = "if ?last < 56 then 56 - ?last else 120 - ?last"
  let ?p = "take ?padn ripemd160_padding" and ?e = "little_endian 8 (8 * length M)"
  have left: "unat (total0 ctx AND 0x3F) = ?last" using ripemd160.absorbed_left [OF a] by simp
  have "unat (total1 ctx) * 2 ^ LENGTH(32) + unat (total0 ctx) = length M mod 2 ^ (2 * LENGTH(32))"
    using a by (simp add: ripemd160.absorbed_def)
  note bits = ripemd160.bit_count [OF this]
  have e: "put_uint32_le (push_bit 3 (total0 ctx)) @ put_uint32_le (drop_bit 29 (total0 ctx) OR push_bit 3 (total1 ctx)) = ?e"
    using bits encode_32(2) [of "8 * length M"] by simp
  have "length ?p < 2 ^ LENGTH(32)" by (simp add: ripemd160_padding_def)
  from ripemd160.update_absorbed [OF a this] obtain ctx1
    where u1: "hash_update 64 mbedtls_internal_ripemd160_process ctx ?p = (0, ctx1)" "ripemd160.absorbed ctx1 (M @ ?p)" by metis
  have "length ?e < 2 ^ LENGTH(32)" by simp
  from ripemd160.update_absorbed [OF u1(2) this] obtain ctx2
    where u2: "hash_update 64 mbedtls_internal_ripemd160_process ctx1 ?e = (0, ctx2)" "ripemd160.absorbed ctx2 ((M @ ?p) @ ?e)" by metis
  have "?p = 0x80 # replicate ((2 * 64 - 8 - 1 - ?last) mod 64) 0"
  proof -
    define l where "l = ?last"
    have "l < 64" by (simp add: l_def)
    define k where "k = (if l < 56 then 55 - l else 119 - l)"
    have k: "k \<le> 63" by (auto simp: k_def)
    have "(if l < 56 then 56 - l else 120 - l) = Suc k" using \<open>l < 64\<close> by (auto simp: k_def)
    moreover have "(2 * 64 - 8 - 1 - l) mod 64 = k"
    proof (cases "l < 56")
      case True
      then have "2 * 64 - 8 - 1 - l = k + 64 * 1" "k < 64" using k by (simp_all add: k_def)
      then show ?thesis by (simp only: mod_mult_self2 mod_less)
    next
      case False
      then have "2 * 64 - 8 - 1 - l = k" "k < 64" using k by (simp_all add: k_def)
      then show ?thesis by (simp only: mod_less)
    qed
    ultimately show ?thesis using k unfolding l_def [symmetric] by (simp add: ripemd160_padding_def min_def)
  qed
  then have "(M @ ?p) @ ?e = M @ md_padding 64 8 (little_endian 8) (length M)"
    unfolding md_padding_def by simp
  then have "hash_state ctx2 = md_hash 64 8 (little_endian 8) (\<lambda>s d. snd (mbedtls_internal_ripemd160_process s d)) ripemd160_iv M"
    using u2(2) by (simp add: ripemd160.absorbed_def md_hash_def)
  then have "hash_state ctx2 = md_hash 64 8 (little_endian 8) ripemd160_compress ripemd160_iv M" unfolding ripemd160_hash_eq .
  then show ?thesis
    using u1(1) u2(1) unfolding mbedtls_ripemd160_finish_def mbedtls_ripemd160_update_def left e Let_def
    by (simp add: ripemd160_digest_def mbedtls_ripemd160_free_def mbedtls_ripemd160_init_def)
qed

lemma ripemd160_stream:
  assumes "\<forall>c\<in>set inputs. length c < 2 ^ 32"
  shows "\<exists>ctx. hash_updates mbedtls_ripemd160_update (snd (mbedtls_ripemd160_starts mbedtls_ripemd160_init)) inputs = (0, ctx) \<and>
    mbedtls_ripemd160_finish ctx output = (0, mbedtls_ripemd160_init, buffer_put 0 (ripemd160_digest (concat inputs)) output)"
proof -
  have l: "\<forall>c\<in>set inputs. length c < 2 ^ LENGTH(32)" using assms by simp
  from ripemd160.updates_absorbed [OF ripemd160_started l] obtain ctx1
    where "hash_updates (hash_update 64 mbedtls_internal_ripemd160_process) (snd (mbedtls_ripemd160_starts mbedtls_ripemd160_init)) inputs = (0, ctx1)"
      "ripemd160.absorbed ctx1 (concat inputs)" by (metis append_Nil)
  then show ?thesis
    using ripemd160_finish_result by (intro exI [of _ ctx1]) (simp add: mbedtls_ripemd160_update_def)
qed

end
