(* ===== verification/Sha2_Rounds.thy ===== *)
theory Sha2_Rounds
  imports Block_Hash
begin

text \<open>
  What drivers/builtin/src/sha256.c and sha512.c share: the macros P, F0 and F1, which have the
  same text in both files, the two ways in which the rounds are run (unrolled by eight with the
  variables in rotated positions, or one call of P in a loop that moves the values), the message
  schedule, and the update function with its loop over \<open>process_many\<close>. The parameters are the
  functions S0 to S3 of each file. Each is proved against the rounds of FIPS 180-4, section 6.
\<close>

definition MBEDTLS_ERR_ERROR_GENERIC_ERROR :: int where
  "MBEDTLS_ERR_ERROR_GENERIC_ERROR = - 132"

definition MBEDTLS_ERR_SHA2_BAD_INPUT_DATA :: int where
  "MBEDTLS_ERR_SHA2_BAD_INPUT_DATA = - 135"

section \<open>The macros\<close>

definition sha2_F0 :: "'w::len word \<Rightarrow> 'w word \<Rightarrow> 'w word \<Rightarrow> 'w word" where
  "sha2_F0 x y z = (x AND y) OR (z AND (x OR y))"

definition sha2_F1 :: "'w::len word \<Rightarrow> 'w word \<Rightarrow> 'w word \<Rightarrow> 'w word" where
  "sha2_F1 x y z = z XOR (x AND (y XOR z))"

text \<open>The macro P, on the list of the variables A[0] to A[7] and the positions of its arguments.\<close>

definition sha2_P ::
    "('w::len word \<Rightarrow> 'w word) \<Rightarrow> ('w word \<Rightarrow> 'w word) \<Rightarrow>
     nat \<Rightarrow> nat \<Rightarrow> nat \<Rightarrow> nat \<Rightarrow> nat \<Rightarrow> nat \<Rightarrow> nat \<Rightarrow> nat \<Rightarrow> 'w word \<Rightarrow> 'w word \<Rightarrow> 'w word list \<Rightarrow> 'w word list" where
  "sha2_P S2 S3 a b c d e f g h x K A =
    (let temp1 = A ! h + S3 (A ! e) + sha2_F1 (A ! e) (A ! f) (A ! g) + K + x;
         temp2 = S2 (A ! a) + sha2_F0 (A ! a) (A ! b) (A ! c);
         A = A[d := A ! d + temp1]
     in A[h := temp1 + temp2])"

text \<open>The assignment to \<open>W[t]\<close>.\<close>

definition sha2_R ::
    "('w::len word \<Rightarrow> 'w word) \<Rightarrow> ('w word \<Rightarrow> 'w word) \<Rightarrow> nat \<Rightarrow> 'w word list \<Rightarrow> 'w word list" where
  "sha2_R S0 S1 t W = W[t := S1 (W ! (t - 2)) + W ! (t - 7) + S0 (W ! (t - 15)) + W ! (t - 16)]"

text \<open>The positions of the \<open>t\<close>-th call of P in the unrolled loops: 0 to 7 rotated \<open>t\<close> times.\<close>

definition sha2_reg :: "nat \<Rightarrow> nat \<Rightarrow> nat" where
  "sha2_reg t j = (j + 80 - t) mod 8"

definition sha2_unrolled_call ::
    "('w::len word \<Rightarrow> 'w word) \<Rightarrow> ('w word \<Rightarrow> 'w word) \<Rightarrow> nat \<Rightarrow> 'w word \<Rightarrow> 'w word \<Rightarrow> 'w word list \<Rightarrow> 'w word list" where
  "sha2_unrolled_call S2 S3 t =
     sha2_P S2 S3 (sha2_reg t 0) (sha2_reg t 1) (sha2_reg t 2) (sha2_reg t 3)
       (sha2_reg t 4) (sha2_reg t 5) (sha2_reg t 6) (sha2_reg t 7)"

text \<open>The body of the small loop after the call of P: the variables move one position up.\<close>

definition sha2_move :: "'w::len word list \<Rightarrow> 'w word list" where
  "sha2_move A =
    (let temp1 = A ! 7; A = A[7 := A ! 6]; A = A[6 := A ! 5]; A = A[5 := A ! 4]; A = A[4 := A ! 3];
         A = A[3 := A ! 2]; A = A[2 := A ! 1]; A = A[1 := A ! 0]
     in A[0 := temp1])"

definition sha2_small_call ::
    "('w::len word \<Rightarrow> 'w word) \<Rightarrow> ('w word \<Rightarrow> 'w word) \<Rightarrow> 'w word \<Rightarrow> 'w word \<Rightarrow> 'w word list \<Rightarrow> 'w word list" where
  "sha2_small_call S2 S3 x K A = sha2_move (sha2_P S2 S3 0 1 2 3 4 5 6 7 x K A)"

section \<open>The rounds of FIPS 180-4\<close>

definition sha2_Ch :: "'w::len word \<Rightarrow> 'w word \<Rightarrow> 'w word \<Rightarrow> 'w word" where
  "sha2_Ch x y z = (x AND y) XOR (NOT x AND z)"

definition sha2_Maj :: "'w::len word \<Rightarrow> 'w word \<Rightarrow> 'w word \<Rightarrow> 'w word" where
  "sha2_Maj x y z = (x AND y) XOR (x AND z) XOR (y AND z)"

fun sha2_round ::
    "('w::len word \<Rightarrow> 'w word) \<Rightarrow> ('w word \<Rightarrow> 'w word) \<Rightarrow> 'w word \<Rightarrow> 'w word \<Rightarrow> 'w word list \<Rightarrow> 'w word list" where
  "sha2_round Sigma0 Sigma1 W K [a, b, c, d, e, f, g, h] =
    (let T1 = h + Sigma1 e + sha2_Ch e f g + K + W;
         T2 = Sigma0 a + sha2_Maj a b c
     in [T1 + T2, a, b, c, d + T1, e, f, g])"
| "sha2_round Sigma0 Sigma1 W K s = s"

text \<open>The message schedule; \<open>M t\<close> is the \<open>t\<close>-th word of the block.\<close>

fun sha2_schedule ::
    "('w::len word \<Rightarrow> 'w word) \<Rightarrow> ('w word \<Rightarrow> 'w word) \<Rightarrow> (nat \<Rightarrow> 'w word) \<Rightarrow> nat \<Rightarrow> 'w word" where
  "sha2_schedule sigma0 sigma1 M t =
    (if t < 16 then M t
     else sigma1 (sha2_schedule sigma0 sigma1 M (t - 2)) + sha2_schedule sigma0 sigma1 M (t - 7) +
          sigma0 (sha2_schedule sigma0 sigma1 M (t - 15)) + sha2_schedule sigma0 sigma1 M (t - 16))"

declare sha2_schedule.simps [simp del]

section \<open>The calls of P are rounds\<close>

lemma sha2_F_eq: "sha2_F1 = sha2_Ch" "sha2_F0 = sha2_Maj"
  by (auto simp: fun_eq_iff sha2_F1_def sha2_F0_def sha2_Ch_def sha2_Maj_def bit_eq_iff bit_simps)

lemma length_eight:
  assumes "length A = 8"
  obtains a b c d e f g h where "A = [a, b, c, d, e, f, g, h]"
  using assms by (auto simp: numeral_eq_Suc length_Suc_conv)

lemma length_sha2_P [simp]: "length (sha2_P S2 S3 a b c d e f g h x K A) = length A"
  by (simp add: sha2_P_def Let_def)

lemma length_sha2_round [simp]: "length (sha2_round S0 S1 W K s) = length s"
  by (cases "(S0, S1, W, K, s)" rule: sha2_round.cases) (simp_all add: Let_def)

lemma sha2_small_round:
  assumes "length A = 8"
  shows "sha2_small_call S2 S3 x K A = sha2_round S2 S3 x K A"
  using assms
  by (elim length_eight)
    (simp add: sha2_small_call_def sha2_P_def sha2_move_def Let_def sha2_F_eq)

definition sha2_variables :: "nat \<Rightarrow> 'w::len word list \<Rightarrow> 'w word list" where
  "sha2_variables t A = map (\<lambda>j. A ! sha2_reg t j) [0, 1, 2, 3, 4, 5, 6, 7]"

lemma sha2_reg_mod:
  assumes "t \<le> 80"
  shows "sha2_reg t j = (j + 80 - t mod 8) mod 8"
proof -
  have "t mod 8 + 8 * (t div 8) = t" "t div 8 \<le> 10" "t mod 8 < 8" using assms by simp_all
  then have "j + 80 - t mod 8 = j + 80 - t + 8 * (t div 8)" using assms by linarith
  then show ?thesis by (simp only: sha2_reg_def mod_mult_self2)
qed

lemma sha2_unrolled_round:
  assumes "length A = 8" "t < 80"
  shows "sha2_variables (t + 1) (sha2_unrolled_call S2 S3 t x K A) = sha2_round S2 S3 x K (sha2_variables t A)"
proof -
  have reg: "sha2_reg t j = (j + 80 - t mod 8) mod 8" for j using assms(2) by (intro sha2_reg_mod) simp
  have reg': "sha2_reg (t + 1) j = (j + 79 - t mod 8) mod 8" for j
  proof -
    have "(t + 1) mod 8 = (if t mod 8 = 7 then 0 else t mod 8 + 1)" by (simp add: mod_Suc)
    moreover have "sha2_reg (t + 1) j = (j + 80 - (t + 1) mod 8) mod 8" using assms(2) by (intro sha2_reg_mod) simp
    moreover have "(j + 80) mod 8 = (j + 72) mod 8"
    proof -
      have "j + 80 = j + 72 + 8 * 1" by simp
      then show ?thesis by (simp only: mod_mult_self2)
    qed
    ultimately show ?thesis by (auto simp: algebra_simps)
  qed
  have "t mod 8 < 8" by simp
  then consider "t mod 8 = 0" | "t mod 8 = 1" | "t mod 8 = 2" | "t mod 8 = 3" | "t mod 8 = 4" | "t mod 8 = 5"
    | "t mod 8 = 6" | "t mod 8 = 7" by linarith
  then show ?thesis
    by cases (insert assms(1), elim length_eight,
      simp add: sha2_variables_def sha2_unrolled_call_def sha2_P_def reg reg' [simplified] Let_def sha2_F_eq add.commute add.left_commute)+
qed

lemma sha2_variables_whole:
  assumes "length A = 8"
  shows "sha2_variables 0 A = A" "sha2_variables 64 A = A" "sha2_variables 80 A = A"
  using assms by (elim length_eight, simp add: sha2_variables_def sha2_reg_def)+

text \<open>Running the calls in order, from an increasing list of positions.\<close>

lemma sha2_unrolled_rounds:
  assumes "length A = 8" "n \<le> 80"
  shows "sha2_variables n (fold (\<lambda>t. sha2_unrolled_call S2 S3 t (w t) (k t)) [0..<n] A) =
    fold (\<lambda>t. sha2_round S2 S3 (w t) (k t)) [0..<n] A \<and>
    length (fold (\<lambda>t. sha2_unrolled_call S2 S3 t (w t) (k t)) [0..<n] A) = 8"
  using assms(2)
proof (induction n)
  case 0
  then show ?case using assms(1) by (simp add: sha2_variables_whole)
next
  case (Suc n)
  then have ih: "sha2_variables n (fold (\<lambda>t. sha2_unrolled_call S2 S3 t (w t) (k t)) [0..<n] A) =
      fold (\<lambda>t. sha2_round S2 S3 (w t) (k t)) [0..<n] A"
    "length (fold (\<lambda>t. sha2_unrolled_call S2 S3 t (w t) (k t)) [0..<n] A) = 8" by simp_all
  from sha2_unrolled_round [OF ih(2), of n S2 S3 "w n" "k n"] Suc.prems ih show ?case
    by (simp add: sha2_unrolled_call_def)
qed

lemma sha2_unrolled_rounds_whole:
  assumes "length A = 8" "n = 64 \<or> n = 80"
  shows "fold (\<lambda>t. sha2_unrolled_call S2 S3 t (w t) (k t)) [0..<n] A = fold (\<lambda>t. sha2_round S2 S3 (w t) (k t)) [0..<n] A"
proof -
  have le: "n \<le> 80" using assms(2) by auto
  note u = sha2_unrolled_rounds [OF assms(1) le, of S2 S3 w k]
  have "sha2_variables n X = X" if l: "length X = 8" for X :: "'a word list"
    using assms(2) sha2_variables_whole [OF l] by blast
  then show ?thesis using u by metis
qed

lemma sha2_small_rounds:
  assumes "length A = 8"
  shows "fold (\<lambda>t. sha2_small_call S2 S3 (w t) (k t)) ts A = fold (\<lambda>t. sha2_round S2 S3 (w t) (k t)) ts A"
  using assms by (induction ts arbitrary: A) (simp_all add: sha2_small_round)

lemma length_sha2_rounds [simp]: "length (fold (\<lambda>t. sha2_round S2 S3 (w t) (k t)) ts A) = length A"
  by (induction ts arbitrary: A) simp_all

section \<open>The schedule\<close>

text \<open>The first \<open>n\<close> words of the array hold the schedule.\<close>

definition sha2_filled ::
    "('w::len word \<Rightarrow> 'w word) \<Rightarrow> ('w word \<Rightarrow> 'w word) \<Rightarrow> (nat \<Rightarrow> 'w word) \<Rightarrow> nat \<Rightarrow> 'w word list \<Rightarrow> bool" where
  "sha2_filled S0 S1 M n W \<longleftrightarrow> n \<le> length W \<and> (\<forall>i<n. W ! i = sha2_schedule S0 S1 M i)"

lemma sha2_filled_R:
  assumes "sha2_filled S0 S1 M t W" "16 \<le> t" "t < length W"
  shows "sha2_filled S0 S1 M (t + 1) (sha2_R S0 S1 t W)"
  using assms by (auto simp: sha2_filled_def sha2_R_def sha2_schedule.simps [of S0 S1 M t] less_Suc_eq)

lemma sha2_filled_start:
  assumes "length W = 16" "\<And>i. i < 16 \<Longrightarrow> W ! i = M i"
  shows "sha2_filled S0 S1 M 16 (W @ Z)"
  using assms by (simp add: sha2_filled_def nth_append sha2_schedule.simps)

lemma sha2_fill:
  assumes "sha2_filled S0 S1 M 16 W" "16 + n \<le> length W"
  shows "sha2_filled S0 S1 M (16 + n) (fold (sha2_R S0 S1) [16..<16 + n] W)"
  using assms(2)
proof (induction n)
  case 0
  then show ?case using assms(1) by simp
next
  case (Suc n)
  have l: "length (fold (sha2_R S0 S1) ts X) = length X" for ts and X :: "'a word list"
    by (induction ts arbitrary: X) (simp_all add: sha2_R_def)
  have "sha2_filled S0 S1 M (16 + n + 1) (sha2_R S0 S1 (16 + n) (fold (sha2_R S0 S1) [16..<16 + n] W))"
    by (rule sha2_filled_R) (use Suc in \<open>simp_all add: l\<close>)
  moreover have "[16..<16 + Suc n] = [16..<16 + n] @ [16 + n]" by (metis add_Suc_right le_add1 upt_Suc_append)
  ultimately show ?case by (simp del: upt_Suc)
qed

text \<open>A loop that computes \<open>W[t]\<close> just before the round that uses it.\<close>

lemma sha2_fused:
  assumes "sha2_filled S0 S1 M 16 W" "16 + n \<le> length W"
  shows "\<exists>W'. fold (\<lambda>t (A, W). let W = sha2_R S0 S1 t W in (step t (W ! t) A, W)) [16..<16 + n] (A, W) =
      (fold (\<lambda>t. step t (sha2_schedule S0 S1 M t)) [16..<16 + n] A, W') \<and>
    sha2_filled S0 S1 M (16 + n) W' \<and> length W' = length W"
  using assms(2)
proof (induction n)
  case 0
  then show ?case using assms(1) by simp
next
  case (Suc n)
  then obtain W' where ih: "fold (\<lambda>t (A, W). let W = sha2_R S0 S1 t W in (step t (W ! t) A, W)) [16..<16 + n] (A, W) =
      (fold (\<lambda>t. step t (sha2_schedule S0 S1 M t)) [16..<16 + n] A, W')"
    "sha2_filled S0 S1 M (16 + n) W'" "length W' = length W" by auto
  have f: "sha2_filled S0 S1 M (16 + n + 1) (sha2_R S0 S1 (16 + n) W')"
    by (rule sha2_filled_R) (use ih Suc.prems in simp_all)
  then have "sha2_R S0 S1 (16 + n) W' ! (16 + n) = sha2_schedule S0 S1 M (16 + n)"
    by (simp add: sha2_filled_def)
  moreover have "[16..<16 + Suc n] = [16..<16 + n] @ [16 + n]" by (metis add_Suc_right le_add1 upt_Suc_append)
  moreover have "length (sha2_R S0 S1 (16 + n) W') = length W" using ih(3) by (simp add: sha2_R_def)
  ultimately show ?case using ih f
    by (intro exI [of _ "sha2_R S0 S1 (16 + n) W'"]) (simp add: Let_def del: upt_Suc)
qed

section \<open>The update function\<close>

text \<open>\<open>process_many\<close>: the number of bytes processed, 0 after an error.\<close>

function sha2_process_many ::
    "nat \<Rightarrow> ('s \<Rightarrow> bytes \<Rightarrow> int \<times> 's) \<Rightarrow> nat \<Rightarrow> 's \<Rightarrow> bytes \<Rightarrow> nat \<times> 's" where
  "sha2_process_many B process processed state data =
    (if B = 0 \<or> length data < B then (processed, state)
     else
       let (ret, state) = process state (take B data) in
       if ret \<noteq> 0 then (0, state)
       else sha2_process_many B process (processed + B) state (drop B data))"
  by auto
termination by (relation "measure (\<lambda>(B, _, _, _, data). length data)") auto

declare sha2_process_many.simps [simp del]

text \<open>The loop of the update function around it.\<close>

function sha2_many_loop ::
    "nat \<Rightarrow> ('s \<Rightarrow> bytes \<Rightarrow> int \<times> 's) \<Rightarrow> 's \<Rightarrow> bytes \<Rightarrow> int \<times> 's \<times> bytes" where
  "sha2_many_loop B process state input =
    (if B = 0 \<or> length input < B then (0, state, input)
     else
       let (processed, state) = sha2_process_many B process 0 state input in
       if processed < B then (MBEDTLS_ERR_ERROR_GENERIC_ERROR, state, input)
       else sha2_many_loop B process state (drop processed input))"
  by auto
termination by (relation "measure (\<lambda>(B, _, _, input). length input)") auto

declare sha2_many_loop.simps [simp del]

definition sha2_update ::
    "nat \<Rightarrow> ('w::len word list \<Rightarrow> bytes \<Rightarrow> int \<times> 'w word list) \<Rightarrow> ('w word, 'z) hash_context_scheme \<Rightarrow> bytes \<Rightarrow>
     int \<times> ('w word, 'z) hash_context_scheme" where
  "sha2_update B process ctx input =
    (if length input = 0 then (0, ctx)
     else
       let left = unat (total0 ctx AND (word_of_nat B - 1));
           fill = B - left;
           ctx = ctx\<lparr>total0 := total0 ctx + word_of_nat (length input)\<rparr>;
           ctx = (if total0 ctx < word_of_nat (length input) then ctx\<lparr>total1 := total1 ctx + 1\<rparr> else ctx);
           (ret, ctx, input, left) =
             (if left \<noteq> 0 \<and> length input \<ge> fill then
                let ctx = ctx\<lparr>hash_buffer := buffer_put left (take fill input) (hash_buffer ctx)\<rparr>;
                    (ret, state) = process (hash_state ctx) (hash_buffer ctx)
                in (ret, ctx\<lparr>hash_state := state\<rparr>, drop fill input, 0)
              else (0, ctx, input, left))
       in if ret \<noteq> 0 then (ret, ctx)
          else
            let (ret, state, input) = sha2_many_loop B process (hash_state ctx) input;
                ctx = ctx\<lparr>hash_state := state\<rparr>
            in if ret \<noteq> 0 then (ret, ctx)
               else if length input > 0
               then (0, ctx\<lparr>hash_buffer := buffer_put left input (hash_buffer ctx)\<rparr>)
               else (0, ctx))"

text \<open>With a compression function that does not fail, the two nested loops are one.\<close>

lemma sha2_process_many_absorb:
  assumes "\<And>s d. process s d = (0, f s d)" "0 < B"
  shows "sha2_process_many B process n s m = (n + (length m - length m mod B), absorb B f s m)"
proof (induction "length m" arbitrary: m n s rule: less_induct)
  case less
  show ?case
  proof (cases "length m < B")
    case True
    then show ?thesis by (simp add: sha2_process_many.simps absorb_short)
  next
    case False
    have "length (drop B m) < length m" using assms(2) False by simp
    note ih = less.hyps [OF this, of "n + B" "f s (take B m)"]
    have d: "(length m - B) mod B = length m mod B" using False by (simp add: le_mod_geq)
    have "length m mod B + B \<le> length m"
      using False assms(2) by (metis add_le_cancel_right d le_add_diff_inverse2 mod_less_eq_dividend not_less)
    then have "n + B + (length m - B - length m mod B) = n + (length m - length m mod B)" by simp
    then show ?thesis
      using False ih assms(2)
      by (simp add: sha2_process_many.simps [of B _ n s m] absorb.simps [of B f s m] assms(1) d)
  qed
qed

lemma sha2_many_loop_eq:
  assumes "\<And>s d. process s d = (0, f s d)" "0 < B"
  shows "sha2_many_loop B process s m = process_blocks B process s m"
proof (cases "length m < B")
  case True
  then show ?thesis by (simp add: sha2_many_loop.simps process_blocks.simps)
next
  case False
  let ?k = "length m - length m mod B"
  have "(length m - B) mod B = length m mod B" using False by (simp add: le_mod_geq)
  then have "length m mod B + B \<le> length m"
    using False assms(2) by (metis add_le_cancel_right le_add_diff_inverse2 mod_less_eq_dividend not_less)
  then have k: "B \<le> ?k" by simp
  have "sha2_many_loop B process s' (drop ?k m) = (0, s', drop ?k m)" for s'
    using assms(2) by (simp add: sha2_many_loop.simps)
  then show ?thesis
    using False k assms(2)
    by (simp add: sha2_many_loop.simps [of B process s m] sha2_process_many_absorb [OF assms] process_blocks_absorb [OF assms])
qed

lemma sha2_update_eq:
  assumes "\<And>s d. process s d = (0, f s d)" "0 < B"
  shows "sha2_update B process = hash_update B process"
  by (intro ext) (simp only: sha2_update_def hash_update_def sha2_many_loop_eq [OF assms])

end
