(* ===== verification/Hash_Sha256.thy ===== *)
theory Hash_Sha256
  imports Sha2_Rounds "HOL-Library.Code_Target_Nat"
begin

text \<open>
  drivers/builtin/src/sha256.c: SHA-256 and SHA-224, with both variants of the compression
  function (the unrolled one of the default build and the one of MBEDTLS_SHA256_SMALLER), each
  proved equal to FIPS 180-4, section 6.2. The Armv8 variant is written with compiler
  intrinsics and is not modelled.
\<close>

declare upt_rec_numeral [simp del]

record mbedtls_sha256_context = "u32 hash_context" +
  is224 :: int

definition mbedtls_sha256_init :: mbedtls_sha256_context where
  "mbedtls_sha256_init =
    \<lparr>total0 = 0, total1 = 0, hash_state = replicate 8 0, hash_buffer = replicate 64 0, is224 = 0\<rparr>"

definition mbedtls_sha256_free :: "mbedtls_sha256_context \<Rightarrow> mbedtls_sha256_context" where
  "mbedtls_sha256_free ctx =
    \<lparr>total0 = 0, total1 = 0, hash_state = replicate 8 0, hash_buffer = replicate 64 0, is224 = 0\<rparr>"

definition mbedtls_sha256_clone :: "mbedtls_sha256_context \<Rightarrow> mbedtls_sha256_context" where
  "mbedtls_sha256_clone src = src"

definition sha256_iv :: "int \<Rightarrow> u32 list" where
  "sha256_iv is_224 =
    (if is_224 = 0
     then [0x6A09E667, 0xBB67AE85, 0x3C6EF372, 0xA54FF53A, 0x510E527F, 0x9B05688C, 0x1F83D9AB, 0x5BE0CD19]
     else [0xC1059ED8, 0x367CD507, 0x3070DD17, 0xF70E5939, 0xFFC00B31, 0x68581511, 0x64F98FA7, 0xBEFA4FA4])"

definition mbedtls_sha256_starts :: "mbedtls_sha256_context \<Rightarrow> int \<Rightarrow> int \<times> mbedtls_sha256_context" where
  "mbedtls_sha256_starts ctx is_224 =
    (if is_224 \<noteq> 0 \<and> is_224 \<noteq> 1 then (MBEDTLS_ERR_SHA2_BAD_INPUT_DATA, ctx)
     else (0, ctx\<lparr>total0 := 0, total1 := 0, hash_state := sha256_iv is_224, is224 := is_224\<rparr>))"

definition sha256_K :: "u32 list" where
  "sha256_K = [
    0x428A2F98, 0x71374491, 0xB5C0FBCF, 0xE9B5DBA5, 0x3956C25B, 0x59F111F1,
    0x923F82A4, 0xAB1C5ED5, 0xD807AA98, 0x12835B01, 0x243185BE, 0x550C7DC3,
    0x72BE5D74, 0x80DEB1FE, 0x9BDC06A7, 0xC19BF174, 0xE49B69C1, 0xEFBE4786,
    0x0FC19DC6, 0x240CA1CC, 0x2DE92C6F, 0x4A7484AA, 0x5CB0A9DC, 0x76F988DA,
    0x983E5152, 0xA831C66D, 0xB00327C8, 0xBF597FC7, 0xC6E00BF3, 0xD5A79147,
    0x06CA6351, 0x14292967, 0x27B70A85, 0x2E1B2138, 0x4D2C6DFC, 0x53380D13,
    0x650A7354, 0x766A0ABB, 0x81C2C92E, 0x92722C85, 0xA2BFE8A1, 0xA81A664B,
    0xC24B8B70, 0xC76C51A3, 0xD192E819, 0xD6990624, 0xF40E3585, 0x106AA070,
    0x19A4C116, 0x1E376C08, 0x2748774C, 0x34B0BCB5, 0x391C0CB3, 0x4ED8AA4A,
    0x5B9CCA4F, 0x682E6FF3, 0x748F82EE, 0x78A5636F, 0x84C87814, 0x8CC70208,
    0x90BEFFFA, 0xA4506CEB, 0xBEF9A3F7, 0xC67178F2]"

definition sha256_SHR :: "u32 \<Rightarrow> nat \<Rightarrow> u32" where
  "sha256_SHR x n = drop_bit n (x AND 0xFFFFFFFF)"

definition sha256_ROTR :: "u32 \<Rightarrow> nat \<Rightarrow> u32" where
  "sha256_ROTR x n = sha256_SHR x n OR push_bit (32 - n) x"

definition sha256_S0 :: "u32 \<Rightarrow> u32" where
  "sha256_S0 x = sha256_ROTR x 7 XOR sha256_ROTR x 18 XOR sha256_SHR x 3"

definition sha256_S1 :: "u32 \<Rightarrow> u32" where
  "sha256_S1 x = sha256_ROTR x 17 XOR sha256_ROTR x 19 XOR sha256_SHR x 10"

definition sha256_S2 :: "u32 \<Rightarrow> u32" where
  "sha256_S2 x = sha256_ROTR x 2 XOR sha256_ROTR x 13 XOR sha256_ROTR x 22"

definition sha256_S3 :: "u32 \<Rightarrow> u32" where
  "sha256_S3 x = sha256_ROTR x 6 XOR sha256_ROTR x 11 XOR sha256_ROTR x 25"

text \<open>
  The unrolled variant. The array W is not initialised by the code; the zeros stand for words that
  are written before they are read.
\<close>

definition mbedtls_internal_sha256_process :: "u32 list \<Rightarrow> bytes \<Rightarrow> int \<times> u32 list" where
  "mbedtls_internal_sha256_process state data =
    (let W = map (\<lambda>i. get_uint32_be data (4 * i)) [0..<16] @ replicate 48 0;
         A = fold (\<lambda>i. sha2_unrolled_call sha256_S2 sha256_S3 i (W ! i) (sha256_K ! i)) [0..<16] (take 8 state);
         (A, W) = fold (\<lambda>i (A, W).
           let W = sha2_R sha256_S0 sha256_S1 i W
           in (sha2_unrolled_call sha256_S2 sha256_S3 i (W ! i) (sha256_K ! i) A, W)) [16..<64] (A, W)
     in (0, map2 (+) state A))"

text \<open>The variant of MBEDTLS_SHA256_SMALLER.\<close>

definition sha256_process_small :: "u32 list \<Rightarrow> bytes \<Rightarrow> int \<times> u32 list" where
  "sha256_process_small state data =
    (let (A, W) = fold (\<lambda>i (A, W).
           let W = (if i < 16 then W[i := get_uint32_be data (4 * i)] else sha2_R sha256_S0 sha256_S1 i W)
           in (sha2_small_call sha256_S2 sha256_S3 (W ! i) (sha256_K ! i) A, W)) [0..<64] (take 8 state, replicate 64 0)
     in (0, map2 (+) state A))"

definition mbedtls_internal_sha256_process_many :: "u32 list \<Rightarrow> bytes \<Rightarrow> nat \<times> u32 list" where
  "mbedtls_internal_sha256_process_many = sha2_process_many 64 mbedtls_internal_sha256_process 0"

definition mbedtls_sha256_update :: "mbedtls_sha256_context \<Rightarrow> bytes \<Rightarrow> int \<times> mbedtls_sha256_context" where
  "mbedtls_sha256_update = sha2_update 64 mbedtls_internal_sha256_process"

definition sha256_put_length :: "u32 \<Rightarrow> u32 \<Rightarrow> bytes" where
  "sha256_put_length high low = put_uint32_be high @ put_uint32_be low"

definition mbedtls_sha256_finish :: "mbedtls_sha256_context \<Rightarrow> bytes \<Rightarrow> int \<times> mbedtls_sha256_context \<times> bytes" where
  "mbedtls_sha256_finish ctx output =
    (let (ret, ctx) = hash_finish_blocks 64 8 sha256_put_length mbedtls_internal_sha256_process ctx
     in if ret \<noteq> 0 then (ret, mbedtls_sha256_free ctx, output)
        else
          let output = buffer_put 0 (concat (map put_uint32_be (take 7 (hash_state ctx)))) output;
              truncated = is224 ctx;
              output = (if truncated = 0
                        then buffer_put 28 (concat (map put_uint32_be (drop 7 (hash_state ctx)))) output
                        else output)
          in (0, mbedtls_sha256_free ctx, output))"

definition mbedtls_sha256 :: "bytes \<Rightarrow> bytes \<Rightarrow> int \<Rightarrow> int \<times> bytes" where
  "mbedtls_sha256 input output is_224 =
    (if is_224 \<noteq> 0 \<and> is_224 \<noteq> 1 then (MBEDTLS_ERR_SHA2_BAD_INPUT_DATA, output)
     else
       let (ret, ctx) = mbedtls_sha256_starts mbedtls_sha256_init is_224
       in if ret \<noteq> 0 then (ret, output)
          else
            let (ret, ctx) = mbedtls_sha256_update ctx input
            in if ret \<noteq> 0 then (ret, output)
               else
                 let (ret, ctx, output) = mbedtls_sha256_finish ctx output
                 in (ret, output))"

section \<open>The compression function of FIPS 180-4\<close>

definition sha256_sigma0 :: "u32 \<Rightarrow> u32" where
  "sha256_sigma0 x = word_rotr 7 x XOR word_rotr 18 x XOR drop_bit 3 x"

definition sha256_sigma1 :: "u32 \<Rightarrow> u32" where
  "sha256_sigma1 x = word_rotr 17 x XOR word_rotr 19 x XOR drop_bit 10 x"

definition sha256_Sigma0 :: "u32 \<Rightarrow> u32" where
  "sha256_Sigma0 x = word_rotr 2 x XOR word_rotr 13 x XOR word_rotr 22 x"

definition sha256_Sigma1 :: "u32 \<Rightarrow> u32" where
  "sha256_Sigma1 x = word_rotr 6 x XOR word_rotr 11 x XOR word_rotr 25 x"

definition sha256_compress :: "u32 list \<Rightarrow> bytes \<Rightarrow> u32 list" where
  "sha256_compress H M =
    map2 (+) H (fold (\<lambda>t. sha2_round sha256_Sigma0 sha256_Sigma1
      (sha2_schedule sha256_sigma0 sha256_sigma1 (\<lambda>i. get_uint32_be M (4 * i)) t) (sha256_K ! t)) [0..<64] (take 8 H))"

lemma sha256_SHR_eq: "sha256_SHR x n = drop_bit n x"
proof -
  have "(0xFFFFFFFF :: u32) = - 1" by simp
  then show ?thesis by (simp only: sha256_SHR_def bit.conj_one_right)
qed

lemma sha256_ROTR_eq: "0 < n \<Longrightarrow> n < 32 \<Longrightarrow> sha256_ROTR x n = word_rotr n x"
  using rotr_shifts [of n x] by (simp add: sha256_ROTR_def sha256_SHR_eq)

lemma sha256_S_eq: "sha256_S0 = sha256_sigma0" "sha256_S1 = sha256_sigma1"
  "sha256_S2 = sha256_Sigma0" "sha256_S3 = sha256_Sigma1"
  by (simp_all add: fun_eq_iff sha256_S0_def sha256_S1_def sha256_S2_def sha256_S3_def sha256_sigma0_def
      sha256_sigma1_def sha256_Sigma0_def sha256_Sigma1_def sha256_ROTR_eq sha256_SHR_eq)

lemma sha256_process_compress:
  assumes "length state = 8"
  shows "mbedtls_internal_sha256_process state data = (0, sha256_compress state data)"
proof -
  let ?M = "\<lambda>i. get_uint32_be data (4 * i)" and ?step = "\<lambda>t x. sha2_unrolled_call sha256_S2 sha256_S3 t x (sha256_K ! t)"
  let ?w = "sha2_schedule sha256_S0 sha256_S1 ?M"
  define W where "W = map ?M [0..<16] @ replicate 48 0"
  have f: "sha2_filled sha256_S0 sha256_S1 ?M 16 W" unfolding W_def by (rule sha2_filled_start) simp_all
  have l: "length W = 64" by (simp add: W_def)
  let ?A = "fold (\<lambda>t. ?step t (?w t)) [0..<16] (take 8 state)"
  have 1: "fold (\<lambda>i. ?step i (W ! i)) [0..<16] (take 8 state) = ?A"
    by (rule fold_cong) (use f in \<open>simp_all add: sha2_filled_def\<close>)
  obtain W' where 2: "fold (\<lambda>t (A, W). let W = sha2_R sha256_S0 sha256_S1 t W in (?step t (W ! t) A, W)) [16..<16 + 48] (?A, W) =
      (fold (\<lambda>t. ?step t (?w t)) [16..<16 + 48] ?A, W')"
    using sha2_fused [OF f, of 48 ?step ?A] l by auto
  have up: "[0..<64] = [0..<16] @ [16..<16 + 48]" using upt_add_eq_append [of 0 16 48] by simp
  have "mbedtls_internal_sha256_process state data = (0, map2 (+) state (fold (\<lambda>t. ?step t (?w t)) [0..<64] (take 8 state)))"
    using 2 unfolding mbedtls_internal_sha256_process_def W_def [symmetric] Let_def 1 up by simp
  moreover have "fold (\<lambda>t. ?step t (?w t)) [0..<64] (take 8 state) =
      fold (\<lambda>t. sha2_round sha256_S2 sha256_S3 (?w t) (sha256_K ! t)) [0..<64] (take 8 state)"
    by (rule sha2_unrolled_rounds_whole) (use assms in simp_all)
  ultimately show ?thesis by (simp add: sha256_compress_def sha256_S_eq)
qed

lemma sha256_small_compress:
  assumes "length state = 8"
  shows "sha256_process_small state data = (0, sha256_compress state data)"
proof -
  let ?M = "\<lambda>i. get_uint32_be data (4 * i)" and ?step = "\<lambda>t x. sha2_small_call sha256_S2 sha256_S3 x (sha256_K ! t)"
  let ?body = "\<lambda>i (A, W). let W = (if i < 16 then W[i := ?M i] else sha2_R sha256_S0 sha256_S1 i W) in (?step i (W ! i) A, W)"
  let ?w = "sha2_schedule sha256_S0 sha256_S1 ?M"
  have load: "\<exists>W. fold ?body [0..<n] (take 8 state, replicate 64 0) = (fold (\<lambda>t. ?step t (?w t)) [0..<n] (take 8 state), W) \<and>
    sha2_filled sha256_S0 sha256_S1 ?M n W \<and> length W = 64" if "n \<le> 16" for n
    using that
  proof (induction n)
    case 0
    then show ?case by (simp add: sha2_filled_def)
  next
    case (Suc n)
    then obtain W where ih: "fold ?body [0..<n] (take 8 state, replicate 64 0) = (fold (\<lambda>t. ?step t (?w t)) [0..<n] (take 8 state), W)"
      "sha2_filled sha256_S0 sha256_S1 ?M n W" "length W = 64" by auto
    have "sha2_filled sha256_S0 sha256_S1 ?M (Suc n) (W[n := ?M n])" "W[n := ?M n] ! n = ?w n"
      using ih(2,3) Suc.prems by (auto simp: sha2_filled_def less_Suc_eq sha2_schedule.simps [of _ _ _ n])
    then show ?case using ih(1,3) Suc.prems by (intro exI [of _ "W[n := ?M n]"]) simp
  qed
  obtain W where W: "fold ?body [0..<16] (take 8 state, replicate 64 0) = (fold (\<lambda>t. ?step t (?w t)) [0..<16] (take 8 state), W)"
    "sha2_filled sha256_S0 sha256_S1 ?M 16 W" "length W = 64" using load [of 16] by auto
  have "fold ?body [16..<64] (fold (\<lambda>t. ?step t (?w t)) [0..<16] (take 8 state), W) =
    fold (\<lambda>t (A, W). let W = sha2_R sha256_S0 sha256_S1 t W in (?step t (W ! t) A, W)) [16..<16 + 48]
      (fold (\<lambda>t. ?step t (?w t)) [0..<16] (take 8 state), W)"
    by (rule fold_cong) (auto simp: Let_def)
  moreover obtain W' where "fold (\<lambda>t (A, W). let W = sha2_R sha256_S0 sha256_S1 t W in (?step t (W ! t) A, W)) [16..<16 + 48]
      (fold (\<lambda>t. ?step t (?w t)) [0..<16] (take 8 state), W) =
    (fold (\<lambda>t. ?step t (?w t)) [16..<16 + 48] (fold (\<lambda>t. ?step t (?w t)) [0..<16] (take 8 state)), W')"
    using sha2_fused [OF W(2), of 48 ?step "fold (\<lambda>t. ?step t (?w t)) [0..<16] (take 8 state)"] W(3) by auto
  moreover have up: "[0..<64] = [0..<16] @ [16..<16 + 48]" using upt_add_eq_append [of 0 16 48] by simp
  ultimately have "fold ?body [0..<64] (take 8 state, replicate 64 0) = (fold (\<lambda>t. ?step t (?w t)) [0..<64] (take 8 state), W')"
    unfolding up fold_append comp_def W(1) by simp
  then have "sha256_process_small state data = (0, map2 (+) state (fold (\<lambda>t. ?step t (?w t)) [0..<64] (take 8 state)))"
    unfolding sha256_process_small_def by simp
  then show ?thesis
    using sha2_small_rounds [of "take 8 state" sha256_S2 sha256_S3 ?w "\<lambda>t. sha256_K ! t" "[0..<64]"] assms
    by (simp add: sha256_compress_def sha256_S_eq)
qed

lemma length_sha256_compress: "length s = 8 \<Longrightarrow> length (sha256_compress s d) = 8"
  by (simp add: sha256_compress_def)

section \<open>The hash function\<close>

interpretation sha256: block_hash 64 8 mbedtls_internal_sha256_process "\<lambda>s d. snd (mbedtls_internal_sha256_process s d)"
  sha256_put_length "big_endian 8" iv for iv
proof unfold_locales
  show "mbedtls_internal_sha256_process s d = (0, snd (mbedtls_internal_sha256_process s d))" for s d
    by (simp add: mbedtls_internal_sha256_process_def Let_def split_def)
  show "\<exists>k. (64 :: nat) = 2 ^ k \<and> k \<le> LENGTH(32)" by (rule exI [of _ 6]) simp
qed (simp_all add: sha256_put_length_def encode_32 [simplified])

definition sha256_digest :: "int \<Rightarrow> bytes \<Rightarrow> bytes" where
  "sha256_digest is_224 m =
    concat (map put_uint32_be (take (if is_224 = 0 then 8 else 7) (md_hash 64 8 (big_endian 8) sha256_compress (sha256_iv is_224) m)))"

lemma sha256_started:
  "is_224 \<in> {0, 1} \<Longrightarrow> sha256.absorbed (sha256_iv is_224) (snd (mbedtls_sha256_starts mbedtls_sha256_init is_224)) []"
  by (rule sha256.absorbed_start) (auto simp: mbedtls_sha256_starts_def mbedtls_sha256_init_def)

lemma length_sha256_iv: "length (sha256_iv k) = 8"
  by (simp add: sha256_iv_def)

lemma sha256_hash_eq:
  "md_hash 64 8 (big_endian 8) (\<lambda>s d. snd (mbedtls_internal_sha256_process s d)) (sha256_iv k) m =
   md_hash 64 8 (big_endian 8) sha256_compress (sha256_iv k) m"
  unfolding md_hash_def
  by (rule absorb_cong [where P = "\<lambda>s. length s = 8"])
    (simp_all add: sha256_process_compress length_sha256_compress length_sha256_iv)

lemma sha256_update_eq: "mbedtls_sha256_update = hash_update 64 mbedtls_internal_sha256_process"
  unfolding mbedtls_sha256_update_def
  by (rule sha2_update_eq [of _ "\<lambda>s d. snd (mbedtls_internal_sha256_process s d)"])
    (simp_all add: mbedtls_internal_sha256_process_def Let_def split_def)

lemma sha256_starts_is:
  "is224 (snd (mbedtls_sha256_starts mbedtls_sha256_init k)) = (if k \<in> {0, 1} then k else 0)"
  by (simp add: mbedtls_sha256_starts_def mbedtls_sha256_init_def)

text \<open>The update and padding functions do not change the choice of the hash function.\<close>

lemma hash_update_is224: "is224 (snd (hash_update B process ctx input)) = is224 ctx"
  by (simp add: hash_update_def Let_def split_def)

lemma hash_finish_blocks_is224: "is224 (snd (hash_finish_blocks B L put process ctx)) = is224 ctx"
  by (simp add: hash_finish_blocks_def Let_def split_def)

lemma hash_updates_is224: "is224 (snd (hash_updates (hash_update B process) ctx inputs)) = is224 ctx"
  by (induction inputs arbitrary: ctx) (simp_all add: Let_def split_def hash_update_is224)

lemma sha256_stream:
  assumes k: "k \<in> {0, 1}" and l: "\<forall>c\<in>set inputs. length c < 2 ^ 32" and o: "(if k = 0 then 32 else 28) \<le> length out"
  shows "\<exists>ctx. hash_updates mbedtls_sha256_update (snd (mbedtls_sha256_starts mbedtls_sha256_init k)) inputs = (0, ctx) \<and>
    mbedtls_sha256_finish ctx out = (0, mbedtls_sha256_init, buffer_put 0 (sha256_digest k (concat inputs)) out)"
proof -
  have l': "\<forall>c\<in>set inputs. length c < 2 ^ LENGTH(32)" using l by simp
  let ?s = "snd (mbedtls_sha256_starts mbedtls_sha256_init k)"
  from sha256.stream_result [OF sha256_started [OF k] l'] obtain ctx1 ctx2
    where c1: "hash_updates mbedtls_sha256_update ?s inputs = (0, ctx1)"
      and c2: "hash_finish_blocks 64 8 sha256_put_length mbedtls_internal_sha256_process ctx1 = (0, ctx2)"
      and s: "hash_state ctx2 = md_hash 64 8 (big_endian 8) sha256_compress (sha256_iv k) (concat inputs)"
    unfolding sha256_hash_eq sha256_update_eq by metis
  have "is224 ctx1 = k"
    using hash_updates_is224 [of 64 mbedtls_internal_sha256_process ?s inputs] c1 k
    by (simp add: sha256_update_eq sha256_starts_is)
  then have k2: "is224 ctx2 = k"
    using hash_finish_blocks_is224 [of 64 8 sha256_put_length mbedtls_internal_sha256_process ctx1] c2 by simp
  have "length (hash_state ctx2) = 8"
  proof -
    have "length (absorb 64 sha256_compress (sha256_iv k) m) = 8" for m
      by (rule absorb_induct_state) (simp_all add: length_sha256_compress length_sha256_iv)
    then show ?thesis unfolding s md_hash_def .
  qed
  then have len: "length (concat (map put_uint32_be (take 7 (hash_state ctx2)))) = 28"
    "length (concat (map put_uint32_be (drop 7 (hash_state ctx2)))) = 32 - 28"
    by (simp_all add: length_concat_words)
  have d: "sha256_digest k (concat inputs) = concat (map put_uint32_be (take (if k = 0 then 8 else 7) (hash_state ctx2)))"
    by (simp only: sha256_digest_def s)
  have "mbedtls_sha256_finish ctx1 out = (0, mbedtls_sha256_init, buffer_put 0 (sha256_digest k (concat inputs)) out)"
  proof (cases "k = 0")
    case True
    have "concat (map put_uint32_be (take 7 (hash_state ctx2))) @ concat (map put_uint32_be (drop 7 (hash_state ctx2))) =
        concat (map put_uint32_be (hash_state ctx2))"
      by (metis append_take_drop_id concat_append map_append)
    moreover have "take 8 (hash_state ctx2) = hash_state ctx2" using \<open>length (hash_state ctx2) = 8\<close> by simp
    ultimately show ?thesis
      unfolding d using True c2 k2 len o
      by (simp add: mbedtls_sha256_finish_def Let_def buffer_put_twice [OF len(1)]
          mbedtls_sha256_free_def mbedtls_sha256_init_def)
  next
    case False
    then show ?thesis
      unfolding d using c2 k2
      by (simp add: mbedtls_sha256_finish_def Let_def
          mbedtls_sha256_free_def mbedtls_sha256_init_def)
  qed
  then show ?thesis using c1 by blast
qed

lemma sha256_one_shot:
  assumes "length input < 2 ^ 32" "(if k = 0 then 32 else 28) \<le> length out"
  shows "mbedtls_sha256 input out k =
    (if k \<in> {0, 1} then (0, buffer_put 0 (sha256_digest k input) out) else (MBEDTLS_ERR_SHA2_BAD_INPUT_DATA, out))"
proof (cases "k \<in> {0, 1}")
  case True
  have s: "mbedtls_sha256_starts mbedtls_sha256_init k = (0, snd (mbedtls_sha256_starts mbedtls_sha256_init k))"
    using True by (auto simp: mbedtls_sha256_starts_def)
  obtain ctx where "mbedtls_sha256_update (snd (mbedtls_sha256_starts mbedtls_sha256_init k)) input = (0, ctx)"
      "mbedtls_sha256_finish ctx out = (0, mbedtls_sha256_init, buffer_put 0 (sha256_digest k input) out)"
    using sha256_stream [OF True, where inputs = "[input]" and out = out] assms by (auto simp: hash_updates_one simp del: hash_updates.simps)
  then show ?thesis using True unfolding mbedtls_sha256_def by (subst s) (auto simp: Let_def)
next
  case False
  then show ?thesis by (simp add: mbedtls_sha256_def)
qed

end
