(* ===== verification/Hash_Sha512.thy ===== *)
theory Hash_Sha512
  imports Sha2_Rounds "HOL-Library.Code_Target_Nat"
begin

text \<open>
  drivers/builtin/src/sha512.c: SHA-512 and SHA-384, with both variants of the compression
  function (the unrolled one of the default build and the one of MBEDTLS_SHA512_SMALLER), each
  proved equal to FIPS 180-4, section 6.4. The Armv8 variant is written with compiler
  intrinsics and is not modelled.
\<close>

declare upt_rec_numeral [simp del]

record mbedtls_sha512_context = "u64 hash_context" +
  is384 :: int

definition mbedtls_sha512_init :: mbedtls_sha512_context where
  "mbedtls_sha512_init =
    \<lparr>total0 = 0, total1 = 0, hash_state = replicate 8 0, hash_buffer = replicate 128 0, is384 = 0\<rparr>"

definition mbedtls_sha512_free :: "mbedtls_sha512_context \<Rightarrow> mbedtls_sha512_context" where
  "mbedtls_sha512_free ctx =
    \<lparr>total0 = 0, total1 = 0, hash_state = replicate 8 0, hash_buffer = replicate 128 0, is384 = 0\<rparr>"

definition mbedtls_sha512_clone :: "mbedtls_sha512_context \<Rightarrow> mbedtls_sha512_context" where
  "mbedtls_sha512_clone src = src"

definition sha512_iv :: "int \<Rightarrow> u64 list" where
  "sha512_iv is_384 =
    (if is_384 = 0
     then [
        0x6A09E667F3BCC908, 0xBB67AE8584CAA73B, 0x3C6EF372FE94F82B, 0xA54FF53A5F1D36F1,
        0x510E527FADE682D1, 0x9B05688C2B3E6C1F, 0x1F83D9ABFB41BD6B, 0x5BE0CD19137E2179]
     else [
        0xCBBB9D5DC1059ED8, 0x629A292A367CD507, 0x9159015A3070DD17, 0x152FECD8F70E5939,
        0x67332667FFC00B31, 0x8EB44A8768581511, 0xDB0C2E0D64F98FA7, 0x47B5481DBEFA4FA4])"

definition mbedtls_sha512_starts :: "mbedtls_sha512_context \<Rightarrow> int \<Rightarrow> int \<times> mbedtls_sha512_context" where
  "mbedtls_sha512_starts ctx is_384 =
    (if is_384 \<noteq> 0 \<and> is_384 \<noteq> 1 then (MBEDTLS_ERR_SHA2_BAD_INPUT_DATA, ctx)
     else (0, ctx\<lparr>total0 := 0, total1 := 0, hash_state := sha512_iv is_384, is384 := is_384\<rparr>))"

definition sha512_K :: "u64 list" where
  "sha512_K = [
    0x428A2F98D728AE22, 0x7137449123EF65CD, 0xB5C0FBCFEC4D3B2F, 0xE9B5DBA58189DBBC,
    0x3956C25BF348B538, 0x59F111F1B605D019, 0x923F82A4AF194F9B, 0xAB1C5ED5DA6D8118,
    0xD807AA98A3030242, 0x12835B0145706FBE, 0x243185BE4EE4B28C, 0x550C7DC3D5FFB4E2,
    0x72BE5D74F27B896F, 0x80DEB1FE3B1696B1, 0x9BDC06A725C71235, 0xC19BF174CF692694,
    0xE49B69C19EF14AD2, 0xEFBE4786384F25E3, 0x0FC19DC68B8CD5B5, 0x240CA1CC77AC9C65,
    0x2DE92C6F592B0275, 0x4A7484AA6EA6E483, 0x5CB0A9DCBD41FBD4, 0x76F988DA831153B5,
    0x983E5152EE66DFAB, 0xA831C66D2DB43210, 0xB00327C898FB213F, 0xBF597FC7BEEF0EE4,
    0xC6E00BF33DA88FC2, 0xD5A79147930AA725, 0x06CA6351E003826F, 0x142929670A0E6E70,
    0x27B70A8546D22FFC, 0x2E1B21385C26C926, 0x4D2C6DFC5AC42AED, 0x53380D139D95B3DF,
    0x650A73548BAF63DE, 0x766A0ABB3C77B2A8, 0x81C2C92E47EDAEE6, 0x92722C851482353B,
    0xA2BFE8A14CF10364, 0xA81A664BBC423001, 0xC24B8B70D0F89791, 0xC76C51A30654BE30,
    0xD192E819D6EF5218, 0xD69906245565A910, 0xF40E35855771202A, 0x106AA07032BBD1B8,
    0x19A4C116B8D2D0C8, 0x1E376C085141AB53, 0x2748774CDF8EEB99, 0x34B0BCB5E19B48A8,
    0x391C0CB3C5C95A63, 0x4ED8AA4AE3418ACB, 0x5B9CCA4F7763E373, 0x682E6FF3D6B2B8A3,
    0x748F82EE5DEFB2FC, 0x78A5636F43172F60, 0x84C87814A1F0AB72, 0x8CC702081A6439EC,
    0x90BEFFFA23631E28, 0xA4506CEBDE82BDE9, 0xBEF9A3F7B2C67915, 0xC67178F2E372532B,
    0xCA273ECEEA26619C, 0xD186B8C721C0C207, 0xEADA7DD6CDE0EB1E, 0xF57D4F7FEE6ED178,
    0x06F067AA72176FBA, 0x0A637DC5A2C898A6, 0x113F9804BEF90DAE, 0x1B710B35131C471B,
    0x28DB77F523047D84, 0x32CAAB7B40C72493, 0x3C9EBE0A15C9BEBC, 0x431D67C49C100D4C,
    0x4CC5D4BECB3E42B6, 0x597F299CFC657E2A, 0x5FCB6FAB3AD6FAEC, 0x6C44198C4A475817]"

definition sha512_SHR :: "u64 \<Rightarrow> nat \<Rightarrow> u64" where
  "sha512_SHR x n = drop_bit n x"

definition sha512_ROTR :: "u64 \<Rightarrow> nat \<Rightarrow> u64" where
  "sha512_ROTR x n = sha512_SHR x n OR push_bit (64 - n) x"

definition sha512_S0 :: "u64 \<Rightarrow> u64" where
  "sha512_S0 x = sha512_ROTR x 1 XOR sha512_ROTR x 8 XOR sha512_SHR x 7"

definition sha512_S1 :: "u64 \<Rightarrow> u64" where
  "sha512_S1 x = sha512_ROTR x 19 XOR sha512_ROTR x 61 XOR sha512_SHR x 6"

definition sha512_S2 :: "u64 \<Rightarrow> u64" where
  "sha512_S2 x = sha512_ROTR x 28 XOR sha512_ROTR x 34 XOR sha512_ROTR x 39"

definition sha512_S3 :: "u64 \<Rightarrow> u64" where
  "sha512_S3 x = sha512_ROTR x 14 XOR sha512_ROTR x 18 XOR sha512_ROTR x 41"

text \<open>
  The unrolled variant. The array W is not initialised by the code; the zeros stand for words that
  are written before they are read.
\<close>

definition mbedtls_internal_sha512_process :: "u64 list \<Rightarrow> bytes \<Rightarrow> int \<times> u64 list" where
  "mbedtls_internal_sha512_process state data =
    (let W = map (\<lambda>i. get_uint64_be data (8 * i)) [0..<16] @ replicate 64 0;
         W = fold (sha2_R sha512_S0 sha512_S1) [16..<80] W;
         A = fold (\<lambda>i. sha2_unrolled_call sha512_S2 sha512_S3 i (W ! i) (sha512_K ! i)) [0..<80] (take 8 state)
     in (0, map2 (+) state A))"

text \<open>The variant of MBEDTLS_SHA512_SMALLER.\<close>

definition sha512_process_small :: "u64 list \<Rightarrow> bytes \<Rightarrow> int \<times> u64 list" where
  "sha512_process_small state data =
    (let (A, W) = fold (\<lambda>i (A, W).
           let W = (if i < 16 then W[i := get_uint64_be data (8 * i)] else sha2_R sha512_S0 sha512_S1 i W)
           in (sha2_small_call sha512_S2 sha512_S3 (W ! i) (sha512_K ! i) A, W)) [0..<80] (take 8 state, replicate 80 0)
     in (0, map2 (+) state A))"

definition mbedtls_internal_sha512_process_many :: "u64 list \<Rightarrow> bytes \<Rightarrow> nat \<times> u64 list" where
  "mbedtls_internal_sha512_process_many = sha2_process_many 128 mbedtls_internal_sha512_process 0"

definition mbedtls_sha512_update :: "mbedtls_sha512_context \<Rightarrow> bytes \<Rightarrow> int \<times> mbedtls_sha512_context" where
  "mbedtls_sha512_update = sha2_update 128 mbedtls_internal_sha512_process"

definition sha512_put_length :: "u64 \<Rightarrow> u64 \<Rightarrow> bytes" where
  "sha512_put_length high low = put_uint64_be high @ put_uint64_be low"

definition mbedtls_sha512_finish :: "mbedtls_sha512_context \<Rightarrow> bytes \<Rightarrow> int \<times> mbedtls_sha512_context \<times> bytes" where
  "mbedtls_sha512_finish ctx output =
    (let (ret, ctx) = hash_finish_blocks 128 16 sha512_put_length mbedtls_internal_sha512_process ctx
     in if ret \<noteq> 0 then (ret, mbedtls_sha512_free ctx, output)
        else
          let output = buffer_put 0 (concat (map put_uint64_be (take 6 (hash_state ctx)))) output;
              truncated = is384 ctx;
              output = (if truncated = 0
                        then buffer_put 48 (concat (map put_uint64_be (drop 6 (hash_state ctx)))) output
                        else output)
          in (0, mbedtls_sha512_free ctx, output))"

definition mbedtls_sha512 :: "bytes \<Rightarrow> bytes \<Rightarrow> int \<Rightarrow> int \<times> bytes" where
  "mbedtls_sha512 input output is_384 =
    (if is_384 \<noteq> 0 \<and> is_384 \<noteq> 1 then (MBEDTLS_ERR_SHA2_BAD_INPUT_DATA, output)
     else
       let (ret, ctx) = mbedtls_sha512_starts mbedtls_sha512_init is_384
       in if ret \<noteq> 0 then (ret, output)
          else
            let (ret, ctx) = mbedtls_sha512_update ctx input
            in if ret \<noteq> 0 then (ret, output)
               else
                 let (ret, ctx, output) = mbedtls_sha512_finish ctx output
                 in (ret, output))"

section \<open>The compression function of FIPS 180-4\<close>

definition sha512_sigma0 :: "u64 \<Rightarrow> u64" where
  "sha512_sigma0 x = word_rotr 1 x XOR word_rotr 8 x XOR drop_bit 7 x"

definition sha512_sigma1 :: "u64 \<Rightarrow> u64" where
  "sha512_sigma1 x = word_rotr 19 x XOR word_rotr 61 x XOR drop_bit 6 x"

definition sha512_Sigma0 :: "u64 \<Rightarrow> u64" where
  "sha512_Sigma0 x = word_rotr 28 x XOR word_rotr 34 x XOR word_rotr 39 x"

definition sha512_Sigma1 :: "u64 \<Rightarrow> u64" where
  "sha512_Sigma1 x = word_rotr 14 x XOR word_rotr 18 x XOR word_rotr 41 x"

definition sha512_compress :: "u64 list \<Rightarrow> bytes \<Rightarrow> u64 list" where
  "sha512_compress H M =
    map2 (+) H (fold (\<lambda>t. sha2_round sha512_Sigma0 sha512_Sigma1
      (sha2_schedule sha512_sigma0 sha512_sigma1 (\<lambda>i. get_uint64_be M (8 * i)) t) (sha512_K ! t)) [0..<80] (take 8 H))"

lemma sha512_SHR_eq: "sha512_SHR x n = drop_bit n x"
  by (simp add: sha512_SHR_def)

lemma sha512_ROTR_eq: "0 < n \<Longrightarrow> n < 64 \<Longrightarrow> sha512_ROTR x n = word_rotr n x"
  using rotr_shifts [of n x] by (simp add: sha512_ROTR_def sha512_SHR_eq)

lemma sha512_S_eq: "sha512_S0 = sha512_sigma0" "sha512_S1 = sha512_sigma1"
  "sha512_S2 = sha512_Sigma0" "sha512_S3 = sha512_Sigma1"
  by (simp_all add: fun_eq_iff sha512_S0_def sha512_S1_def sha512_S2_def sha512_S3_def sha512_sigma0_def
      sha512_sigma1_def sha512_Sigma0_def sha512_Sigma1_def sha512_ROTR_eq sha512_SHR_eq)

lemma sha512_process_compress:
  assumes "length state = 8"
  shows "mbedtls_internal_sha512_process state data = (0, sha512_compress state data)"
proof -
  let ?M = "\<lambda>i. get_uint64_be data (8 * i)" and ?step = "\<lambda>t x. sha2_unrolled_call sha512_S2 sha512_S3 t x (sha512_K ! t)"
  let ?w = "sha2_schedule sha512_S0 sha512_S1 ?M"
  define W where "W = fold (sha2_R sha512_S0 sha512_S1) [16..<16 + 64] (map ?M [0..<16] @ replicate 64 0)"
  have "sha2_filled sha512_S0 sha512_S1 ?M (16 + 64) W"
    unfolding W_def by (rule sha2_fill [OF sha2_filled_start]) simp_all
  then have 1: "fold (\<lambda>i. ?step i (W ! i)) [0..<80] (take 8 state) = fold (\<lambda>t. ?step t (?w t)) [0..<80] (take 8 state)"
    by (intro fold_cong) (simp_all add: sha2_filled_def)
  have W: "fold (sha2_R sha512_S0 sha512_S1) [16..<80] (map ?M [0..<16] @ replicate 64 0) = W" by (simp add: W_def)
  have "mbedtls_internal_sha512_process state data = (0, map2 (+) state (fold (\<lambda>t. ?step t (?w t)) [0..<80] (take 8 state)))"
    unfolding mbedtls_internal_sha512_process_def Let_def W 1 ..
  moreover have "fold (\<lambda>t. ?step t (?w t)) [0..<80] (take 8 state) =
      fold (\<lambda>t. sha2_round sha512_S2 sha512_S3 (?w t) (sha512_K ! t)) [0..<80] (take 8 state)"
    by (rule sha2_unrolled_rounds_whole) (use assms in simp_all)
  ultimately show ?thesis by (simp add: sha512_compress_def sha512_S_eq)
qed

lemma sha512_small_compress:
  assumes "length state = 8"
  shows "sha512_process_small state data = (0, sha512_compress state data)"
proof -
  let ?M = "\<lambda>i. get_uint64_be data (8 * i)" and ?step = "\<lambda>t x. sha2_small_call sha512_S2 sha512_S3 x (sha512_K ! t)"
  let ?body = "\<lambda>i (A, W). let W = (if i < 16 then W[i := ?M i] else sha2_R sha512_S0 sha512_S1 i W) in (?step i (W ! i) A, W)"
  let ?w = "sha2_schedule sha512_S0 sha512_S1 ?M"
  have load: "\<exists>W. fold ?body [0..<n] (take 8 state, replicate 80 0) = (fold (\<lambda>t. ?step t (?w t)) [0..<n] (take 8 state), W) \<and>
    sha2_filled sha512_S0 sha512_S1 ?M n W \<and> length W = 80" if "n \<le> 16" for n
    using that
  proof (induction n)
    case 0
    then show ?case by (simp add: sha2_filled_def)
  next
    case (Suc n)
    then obtain W where ih: "fold ?body [0..<n] (take 8 state, replicate 80 0) = (fold (\<lambda>t. ?step t (?w t)) [0..<n] (take 8 state), W)"
      "sha2_filled sha512_S0 sha512_S1 ?M n W" "length W = 80" by auto
    have "sha2_filled sha512_S0 sha512_S1 ?M (Suc n) (W[n := ?M n])" "W[n := ?M n] ! n = ?w n"
      using ih(2,3) Suc.prems by (auto simp: sha2_filled_def less_Suc_eq sha2_schedule.simps [of _ _ _ n])
    then show ?case using ih(1,3) Suc.prems by (intro exI [of _ "W[n := ?M n]"]) simp
  qed
  obtain W where W: "fold ?body [0..<16] (take 8 state, replicate 80 0) = (fold (\<lambda>t. ?step t (?w t)) [0..<16] (take 8 state), W)"
    "sha2_filled sha512_S0 sha512_S1 ?M 16 W" "length W = 80" using load [of 16] by auto
  have "fold ?body [16..<80] (fold (\<lambda>t. ?step t (?w t)) [0..<16] (take 8 state), W) =
    fold (\<lambda>t (A, W). let W = sha2_R sha512_S0 sha512_S1 t W in (?step t (W ! t) A, W)) [16..<16 + 64]
      (fold (\<lambda>t. ?step t (?w t)) [0..<16] (take 8 state), W)"
    by (rule fold_cong) (auto simp: Let_def)
  moreover obtain W' where "fold (\<lambda>t (A, W). let W = sha2_R sha512_S0 sha512_S1 t W in (?step t (W ! t) A, W)) [16..<16 + 64]
      (fold (\<lambda>t. ?step t (?w t)) [0..<16] (take 8 state), W) =
    (fold (\<lambda>t. ?step t (?w t)) [16..<16 + 64] (fold (\<lambda>t. ?step t (?w t)) [0..<16] (take 8 state)), W')"
    using sha2_fused [OF W(2), of 64 ?step "fold (\<lambda>t. ?step t (?w t)) [0..<16] (take 8 state)"] W(3) by auto
  moreover have up: "[0..<80] = [0..<16] @ [16..<16 + 64]" using upt_add_eq_append [of 0 16 64] by simp
  ultimately have "fold ?body [0..<80] (take 8 state, replicate 80 0) = (fold (\<lambda>t. ?step t (?w t)) [0..<80] (take 8 state), W')"
    unfolding up fold_append comp_def W(1) by simp
  then have "sha512_process_small state data = (0, map2 (+) state (fold (\<lambda>t. ?step t (?w t)) [0..<80] (take 8 state)))"
    unfolding sha512_process_small_def by simp
  then show ?thesis
    using sha2_small_rounds [of "take 8 state" sha512_S2 sha512_S3 ?w "\<lambda>t. sha512_K ! t" "[0..<80]"] assms
    by (simp add: sha512_compress_def sha512_S_eq)
qed

lemma length_sha512_compress: "length s = 8 \<Longrightarrow> length (sha512_compress s d) = 8"
  by (simp add: sha512_compress_def)

section \<open>The hash function\<close>

interpretation sha512: block_hash 128 16 mbedtls_internal_sha512_process "\<lambda>s d. snd (mbedtls_internal_sha512_process s d)"
  sha512_put_length "big_endian 16" iv for iv
proof unfold_locales
  show "mbedtls_internal_sha512_process s d = (0, snd (mbedtls_internal_sha512_process s d))" for s d
    by (simp add: mbedtls_internal_sha512_process_def Let_def split_def)
  show "\<exists>k. (128 :: nat) = 2 ^ k \<and> k \<le> LENGTH(64)" by (rule exI [of _ 7]) simp
qed (simp_all add: sha512_put_length_def encode_64 [simplified])

definition sha512_digest :: "int \<Rightarrow> bytes \<Rightarrow> bytes" where
  "sha512_digest is_384 m =
    concat (map put_uint64_be (take (if is_384 = 0 then 8 else 6) (md_hash 128 16 (big_endian 16) sha512_compress (sha512_iv is_384) m)))"

lemma sha512_started:
  "is_384 \<in> {0, 1} \<Longrightarrow> sha512.absorbed (sha512_iv is_384) (snd (mbedtls_sha512_starts mbedtls_sha512_init is_384)) []"
  by (rule sha512.absorbed_start) (auto simp: mbedtls_sha512_starts_def mbedtls_sha512_init_def)

lemma length_sha512_iv: "length (sha512_iv k) = 8"
  by (simp add: sha512_iv_def)

lemma sha512_hash_eq:
  "md_hash 128 16 (big_endian 16) (\<lambda>s d. snd (mbedtls_internal_sha512_process s d)) (sha512_iv k) m =
   md_hash 128 16 (big_endian 16) sha512_compress (sha512_iv k) m"
  unfolding md_hash_def
  by (rule absorb_cong [where P = "\<lambda>s. length s = 8"])
    (simp_all add: sha512_process_compress length_sha512_compress length_sha512_iv)

lemma sha512_update_eq: "mbedtls_sha512_update = hash_update 128 mbedtls_internal_sha512_process"
  unfolding mbedtls_sha512_update_def
  by (rule sha2_update_eq [of _ "\<lambda>s d. snd (mbedtls_internal_sha512_process s d)"])
    (simp_all add: mbedtls_internal_sha512_process_def Let_def split_def)

lemma sha512_starts_is:
  "is384 (snd (mbedtls_sha512_starts mbedtls_sha512_init k)) = (if k \<in> {0, 1} then k else 0)"
  by (simp add: mbedtls_sha512_starts_def mbedtls_sha512_init_def)

text \<open>The update and padding functions do not change the choice of the hash function.\<close>

lemma hash_update_is384: "is384 (snd (hash_update B process ctx input)) = is384 ctx"
  by (simp add: hash_update_def Let_def split_def)

lemma hash_finish_blocks_is384: "is384 (snd (hash_finish_blocks B L put process ctx)) = is384 ctx"
  by (simp add: hash_finish_blocks_def Let_def split_def)

lemma hash_updates_is384: "is384 (snd (hash_updates (hash_update B process) ctx inputs)) = is384 ctx"
  by (induction inputs arbitrary: ctx) (simp_all add: Let_def split_def hash_update_is384)

lemma sha512_stream:
  assumes k: "k \<in> {0, 1}" and l: "\<forall>c\<in>set inputs. length c < 2 ^ 64" and o: "(if k = 0 then 64 else 48) \<le> length out"
  shows "\<exists>ctx. hash_updates mbedtls_sha512_update (snd (mbedtls_sha512_starts mbedtls_sha512_init k)) inputs = (0, ctx) \<and>
    mbedtls_sha512_finish ctx out = (0, mbedtls_sha512_init, buffer_put 0 (sha512_digest k (concat inputs)) out)"
proof -
  have l': "\<forall>c\<in>set inputs. length c < 2 ^ LENGTH(64)" using l by simp
  let ?s = "snd (mbedtls_sha512_starts mbedtls_sha512_init k)"
  from sha512.stream_result [OF sha512_started [OF k] l'] obtain ctx1 ctx2
    where c1: "hash_updates mbedtls_sha512_update ?s inputs = (0, ctx1)"
      and c2: "hash_finish_blocks 128 16 sha512_put_length mbedtls_internal_sha512_process ctx1 = (0, ctx2)"
      and s: "hash_state ctx2 = md_hash 128 16 (big_endian 16) sha512_compress (sha512_iv k) (concat inputs)"
    unfolding sha512_hash_eq sha512_update_eq by metis
  have "is384 ctx1 = k"
    using hash_updates_is384 [of 128 mbedtls_internal_sha512_process ?s inputs] c1 k
    by (simp add: sha512_update_eq sha512_starts_is)
  then have k2: "is384 ctx2 = k"
    using hash_finish_blocks_is384 [of 128 16 sha512_put_length mbedtls_internal_sha512_process ctx1] c2 by simp
  have "length (hash_state ctx2) = 8"
  proof -
    have "length (absorb 128 sha512_compress (sha512_iv k) m) = 8" for m
      by (rule absorb_induct_state) (simp_all add: length_sha512_compress length_sha512_iv)
    then show ?thesis unfolding s md_hash_def .
  qed
  then have len: "length (concat (map put_uint64_be (take 6 (hash_state ctx2)))) = 48"
    "length (concat (map put_uint64_be (drop 6 (hash_state ctx2)))) = 64 - 48"
    by (simp_all add: length_concat_words)
  have d: "sha512_digest k (concat inputs) = concat (map put_uint64_be (take (if k = 0 then 8 else 6) (hash_state ctx2)))"
    by (simp only: sha512_digest_def s)
  have "mbedtls_sha512_finish ctx1 out = (0, mbedtls_sha512_init, buffer_put 0 (sha512_digest k (concat inputs)) out)"
  proof (cases "k = 0")
    case True
    have "concat (map put_uint64_be (take 6 (hash_state ctx2))) @ concat (map put_uint64_be (drop 6 (hash_state ctx2))) =
        concat (map put_uint64_be (hash_state ctx2))"
      by (metis append_take_drop_id concat_append map_append)
    moreover have "take 8 (hash_state ctx2) = hash_state ctx2" using \<open>length (hash_state ctx2) = 8\<close> by simp
    ultimately show ?thesis
      unfolding d using True c2 k2 len o
      by (simp add: mbedtls_sha512_finish_def Let_def buffer_put_twice [OF len(1)]
          mbedtls_sha512_free_def mbedtls_sha512_init_def)
  next
    case False
    then show ?thesis
      unfolding d using c2 k2
      by (simp add: mbedtls_sha512_finish_def Let_def
          mbedtls_sha512_free_def mbedtls_sha512_init_def)
  qed
  then show ?thesis using c1 by blast
qed

lemma sha512_one_shot:
  assumes "length input < 2 ^ 64" "(if k = 0 then 64 else 48) \<le> length out"
  shows "mbedtls_sha512 input out k =
    (if k \<in> {0, 1} then (0, buffer_put 0 (sha512_digest k input) out) else (MBEDTLS_ERR_SHA2_BAD_INPUT_DATA, out))"
proof (cases "k \<in> {0, 1}")
  case True
  have s: "mbedtls_sha512_starts mbedtls_sha512_init k = (0, snd (mbedtls_sha512_starts mbedtls_sha512_init k))"
    using True by (auto simp: mbedtls_sha512_starts_def)
  obtain ctx where "mbedtls_sha512_update (snd (mbedtls_sha512_starts mbedtls_sha512_init k)) input = (0, ctx)"
      "mbedtls_sha512_finish ctx out = (0, mbedtls_sha512_init, buffer_put 0 (sha512_digest k input) out)"
    using sha512_stream [OF True, where inputs = "[input]" and out = out] assms by (auto simp: hash_updates_one simp del: hash_updates.simps)
  then show ?thesis using True unfolding mbedtls_sha512_def by (subst s) (auto simp: Let_def)
next
  case False
  then show ?thesis by (simp add: mbedtls_sha512_def)
qed

end
