(* ===== verification/Hash_Properties.thy ===== *)
theory Hash_Properties
  imports Md5_Sine Sha3_Standard Hash_Sha1 Hash_Ripemd160 Hash_Sha256 Hash_Sha512
begin

text \<open>
  The properties of the block hash functions: a message fed in any pieces gives the digest of the
  standard, the compression functions are those of FIPS 180-4, the tables hold the constants that
  the standard defines by square and cube roots, and the byte counter of the 32-bit functions
  misses an update of 2^32 bytes.
\<close>

section \<open>Streaming\<close>

text \<open>C11: SHA-256 and SHA-224 by mbedtls_sha256_starts, any number of calls of mbedtls_sha256_update
  and mbedtls_sha256_finish: whatever the pieces, as long as each is shorter than 2^32 bytes,
  every call succeeds, the output buffer starts with the digest that FIPS 180-4 defines for the
  whole message (28 bytes of it for SHA-224, the bytes after it untouched), and the context is
  left zeroized. The message itself may be longer than 2^32 bytes.\<close>

theorem sha256_streaming:
  assumes "is_224 \<in> {0, 1}" "\<forall>c\<in>set inputs. length c < 2 ^ 32" "(if is_224 = 0 then 32 else 28) \<le> length out"
  shows "\<exists>ctx. hash_updates mbedtls_sha256_update (snd (mbedtls_sha256_starts mbedtls_sha256_init is_224)) inputs = (0, ctx) \<and>
    mbedtls_sha256_finish ctx out = (0, mbedtls_sha256_init, buffer_put 0 (sha256_digest is_224 (concat inputs)) out)"
  by (rule sha256_stream) (use assms in auto)

theorem sha256_streaming_witness:
  "\<exists>ctx. hash_updates mbedtls_sha256_update (snd (mbedtls_sha256_starts mbedtls_sha256_init 1)) [[97, 98], [99]] = (0, ctx) \<and>
    mbedtls_sha256_finish ctx (replicate 28 0) =
      (0, mbedtls_sha256_init, buffer_put 0 (sha256_digest 1 (concat [[97, 98], [99]])) (replicate 28 0))"
  by (rule sha256_streaming) simp_all

text \<open>C26: SHA-512 and SHA-384 likewise, with pieces shorter than 2^64 bytes, which every size_t is.\<close>

theorem sha512_streaming:
  assumes "is_384 \<in> {0, 1}" "\<forall>c\<in>set inputs. length c < 2 ^ 64" "(if is_384 = 0 then 64 else 48) \<le> length out"
  shows "\<exists>ctx. hash_updates mbedtls_sha512_update (snd (mbedtls_sha512_starts mbedtls_sha512_init is_384)) inputs = (0, ctx) \<and>
    mbedtls_sha512_finish ctx out = (0, mbedtls_sha512_init, buffer_put 0 (sha512_digest is_384 (concat inputs)) out)"
  by (rule sha512_stream) (use assms in auto)

theorem sha512_streaming_witness:
  "\<exists>ctx. hash_updates mbedtls_sha512_update (snd (mbedtls_sha512_starts mbedtls_sha512_init 0)) [[97, 98], [], [99]] = (0, ctx) \<and>
    mbedtls_sha512_finish ctx (replicate 70 1) =
      (0, mbedtls_sha512_init, buffer_put 0 (sha512_digest 0 (concat [[97, 98], [], [99]])) (replicate 70 1))"
  by (rule sha512_streaming) simp_all

text \<open>SHA-1: a message fed in any pieces shorter than 2^32 bytes gives the digest of FIPS 180-4,
  computed with its own schedule and rounds, and the context is left zeroized.\<close>

theorem sha1_streaming:
  assumes "\<forall>c\<in>set inputs. length c < 2 ^ 32"
  shows "\<exists>ctx. hash_updates mbedtls_sha1_update (snd (mbedtls_sha1_starts mbedtls_sha1_init)) inputs = (0, ctx) \<and>
    mbedtls_sha1_finish ctx out = (0, mbedtls_sha1_init, buffer_put 0 (sha1_digest (concat inputs)) out)"
  by (rule sha1_stream) (rule assms)

theorem sha1_streaming_witness:
  "\<exists>ctx. hash_updates mbedtls_sha1_update (snd (mbedtls_sha1_starts mbedtls_sha1_init)) [[97], [98, 99]] = (0, ctx) \<and>
    mbedtls_sha1_finish ctx (replicate 20 0) =
      (0, mbedtls_sha1_init, buffer_put 0 (sha1_digest (concat [[97], [98, 99]])) (replicate 20 0))"
  by (rule sha1_streaming) simp

text \<open>C29: SHA-3 and SHAKE by mbedtls_sha3_starts, any number of calls of mbedtls_sha3_update with
  pieces of any size, and mbedtls_sha3_finish, for every algorithm identifier: every update
  succeeds; for a hash, finish refuses a buffer shorter than the digest and else writes the digest
  that FIPS 202 defines by the sponge construction with the multi-rate padding, and leaves the
  context zeroized either way; for SHAKE, finish may be called again and again, and the pieces it
  returns make up the output of FIPS 202 for their total length.\<close>

theorem sha3_streaming:
  assumes "alg \<noteq> MBEDTLS_SHA3_NONE" "ns \<noteq> []"
  shows "\<exists>ctx. hash_updates mbedtls_sha3_update (snd (mbedtls_sha3_starts mbedtls_sha3_init alg)) inputs = (0, ctx) \<and>
    (if alg \<in> {MBEDTLS_SHA3_SHAKE128, MBEDTLS_SHA3_SHAKE256}
     then shake_outputs ctx ns = (0, shake_output alg (concat inputs) (sum_list ns))
     else mbedtls_sha3_finish ctx out olen =
       (if olen < sha3_length alg then (MBEDTLS_ERR_SHA3_BAD_INPUT_DATA, mbedtls_sha3_init, out)
        else (0, mbedtls_sha3_init, buffer_put 0 (sha3_digest alg (concat inputs)) out)))"
proof -
  let ?f = "sha3_fresh alg" and ?c = "fold sha3_absorb_byte (concat inputs) (sha3_fresh alg)"
  note fresh = sha3_fresh_fields [OF assms(1)]
  have absorbed: "sponge_absorbed ?c (concat inputs)" using absorbed_bytes [OF fresh(2)] by simp
  have keep: "max_block_size ?c = sha3_rate alg" "sha3_olen ?c = sha3_length alg" by (simp_all add: absorb_byte_keeps fresh)
  have "if alg \<in> {MBEDTLS_SHA3_SHAKE128, MBEDTLS_SHA3_SHAKE256}
     then shake_outputs ?c ns = (0, shake_output alg (concat inputs) (sum_list ns))
     else mbedtls_sha3_finish ?c out olen =
       (if olen < sha3_length alg then (MBEDTLS_ERR_SHA3_BAD_INPUT_DATA, mbedtls_sha3_init, out)
        else (0, mbedtls_sha3_init, buffer_put 0 (sha3_digest alg (concat inputs)) out))"
  proof (cases "alg \<in> {MBEDTLS_SHA3_SHAKE128, MBEDTLS_SHA3_SHAKE256}")
    case True
    then have "sha3_olen ?c = 0" using keep by auto
    then show ?thesis using True shake_outputs_result [OF absorbed _ assms(2)] keep by (simp add: shake_output_def)
  next
    case False
    then have "0 < sha3_olen ?c" using keep assms(1) by (cases alg) auto
    then show ?thesis using False sha3_finish_digest [OF absorbed, of olen out] sha3_finish_small [of olen ?c out] keep
      by (auto simp: sha3_digest_def)
  qed
  then show ?thesis using sha3_updates_bytes [OF fresh(2), of inputs] fresh(1) [of mbedtls_sha3_init] by simp
qed

theorem sha3_streaming_witness:
  "\<exists>ctx. hash_updates mbedtls_sha3_update (snd (mbedtls_sha3_starts mbedtls_sha3_init MBEDTLS_SHA3_SHAKE128)) [[97], [98, 99]] = (0, ctx) \<and>
    shake_outputs ctx [1, 200] = (0, shake_output MBEDTLS_SHA3_SHAKE128 [97, 98, 99] 201)"
  using sha3_streaming [of MBEDTLS_SHA3_SHAKE128 "[1, 200]" "[[97], [98, 99]]" "[]" 0] by simp

section \<open>The compression functions and their tables\<close>

text \<open>C27: The two builds of the SHA-2 compression functions, the unrolled one, which rotates the roles
  of the working variables, and the one of the SMALLER option, which moves their values, compute
  the same: the compression function of FIPS 180-4, on every state of eight words and every
  block.\<close>

theorem sha2_compression_variants:
  assumes "length s = 8" "length s' = 8"
  shows "mbedtls_internal_sha256_process s data = (0, sha256_compress s data) \<and>
    sha256_process_small s data = (0, sha256_compress s data) \<and>
    mbedtls_internal_sha512_process s' data = (0, sha512_compress s' data) \<and>
    sha512_process_small s' data = (0, sha512_compress s' data)"
  using assms by (simp add: sha256_process_compress sha256_small_compress sha512_process_compress sha512_small_compress)

theorem sha2_compression_variants_witness:
  "sha256_process_small (sha256_iv 0) (replicate 64 1) = mbedtls_internal_sha256_process (sha256_iv 0) (replicate 64 1) \<and>
   sha512_process_small (sha512_iv 1) (replicate 64 1) = mbedtls_internal_sha512_process (sha512_iv 1) (replicate 64 1)"
  using sha2_compression_variants [of "sha256_iv 0" "sha512_iv 1" "replicate 64 1"] by (simp add: length_sha256_iv length_sha512_iv)

text \<open>
  FIPS 180-4 defines the constants as the first bits of the fractional parts of roots of primes:
  \<open>k\<close> holds the first \<open>n\<close> bits of the fractional part of the \<open>r\<close>-th root of \<open>p\<close>, whose integer
  part is \<open>int_root r p\<close>. The primes that occur are below 441, so that their square roots are below 21.
\<close>

definition int_root :: "nat \<Rightarrow> nat \<Rightarrow> nat" where
  "int_root r p =
     length (filter (\<lambda>q. q ^ r \<le> p) [1, 2, 3, 4, 5, 6, 7, 8, 9, 10, 11, 12, 13, 14, 15, 16, 17, 18, 19, 20])"

definition root_bits :: "nat \<Rightarrow> nat \<Rightarrow> nat \<Rightarrow> nat \<Rightarrow> bool" where
  "root_bits r n p k \<longleftrightarrow> k < 2 ^ n \<and>
     (int_root r p * 2 ^ n + k) ^ r \<le> p * 2 ^ (r * n) \<and> p * 2 ^ (r * n) < (int_root r p * 2 ^ n + k + 1) ^ r"

definition first_primes :: "nat list" where
  "first_primes =
    [2, 3, 5, 7, 11, 13, 17, 19, 23, 29, 31, 37, 41, 43, 47, 53, 59, 61, 67, 71,
     73, 79, 83, 89, 97, 101, 103, 107, 109, 113, 127, 131, 137, 139, 149, 151, 157, 163, 167, 173,
     179, 181, 191, 193, 197, 199, 211, 223, 227, 229, 233, 239, 241, 251, 257, 263, 269, 271, 277, 281,
     283, 293, 307, 311, 313, 317, 331, 337, 347, 349, 353, 359, 367, 373, 379, 383, 389, 397, 401, 409]"

text \<open>The tables of sha256.c and sha512.c hold the constants of the standard: K of SHA-256 are the
  cube roots of the first 64 primes and the high halves of the first 64 words of K of SHA-512, the
  initial states are the square roots of the first eight primes, those of SHA-384 of the next
  eight, and those of SHA-224 the second 32 bits of the latter.\<close>

theorem sha2_tables:
  "list_all2 (root_bits 3 32) (take 64 first_primes) (map unat sha256_K) \<and>
   map (\<lambda>k. ucast (drop_bit 32 k)) (take 64 sha512_K) = sha256_K \<and> length sha512_K = 80 \<and>
   list_all2 (root_bits 2 32) (take 8 first_primes) (map unat (sha256_iv 0)) \<and>
   list_all2 (root_bits 2 64) (take 8 first_primes) (map unat (sha512_iv 0)) \<and>
   list_all2 (root_bits 2 64) (take 8 (drop 8 first_primes)) (map unat (sha512_iv 1)) \<and>
   sha256_iv 1 = map ucast (sha512_iv 1)"
proof (intro conjI)
  show "list_all2 (root_bits 3 32) (take 64 first_primes) (map unat sha256_K)"
    by (simp add: root_bits_def int_root_def first_primes_def sha256_K_def)
  show "map (\<lambda>k. ucast (drop_bit 32 k)) (take 64 sha512_K) = sha256_K" "length sha512_K = 80"
    by (simp_all add: sha256_K_def sha512_K_def)
  show "list_all2 (root_bits 2 32) (take 8 first_primes) (map unat (sha256_iv 0))"
    "list_all2 (root_bits 2 64) (take 8 first_primes) (map unat (sha512_iv 0))"
    "list_all2 (root_bits 2 64) (take 8 (drop 8 first_primes)) (map unat (sha512_iv 1))"
    by (simp_all add: root_bits_def int_root_def first_primes_def sha256_iv_def sha512_iv_def)
  show "sha256_iv 1 = map ucast (sha512_iv 1)"
    by (simp add: sha256_iv_def sha512_iv_def)
qed

section \<open>The byte counter\<close>

lemma hash_update_count:
  fixes ctx :: "(u32, 'z) hash_context_scheme"
  assumes "length input = 2 ^ 32 * k"
  shows "total0 (snd (hash_update 64 f ctx input)) = total0 ctx" "total1 (snd (hash_update 64 f ctx input)) = total1 ctx"
proof -
  have "(word_of_nat (length input) :: u32) = 0" unfolding word_of_nat_eq_0_iff assms by simp
  then show "total0 (snd (hash_update 64 f ctx input)) = total0 ctx" "total1 (snd (hash_update 64 f ctx input)) = total1 ctx"
    by (simp_all add: hash_update_def Let_def split_def)
qed

text \<open>C28: The update functions of md5.c, sha1.c, ripemd160.c and sha256.c add the length of the input
  after a conversion to 32 bits: an update of a multiple of 2^32 bytes leaves both words of the byte
  counter, from which the length field of the padding is made, as they were.\<close>

theorem update_misses_4GiB:
  assumes "length input = 2 ^ 32 * k"
  shows "total0 (snd (mbedtls_md5_update c1 input)) = total0 c1 \<and> total1 (snd (mbedtls_md5_update c1 input)) = total1 c1 \<and>
    total0 (snd (mbedtls_sha1_update c1 input)) = total0 c1 \<and> total1 (snd (mbedtls_sha1_update c1 input)) = total1 c1 \<and>
    total0 (snd (mbedtls_ripemd160_update c1 input)) = total0 c1 \<and> total1 (snd (mbedtls_ripemd160_update c1 input)) = total1 c1 \<and>
    total0 (snd (mbedtls_sha256_update c2 input)) = total0 c2 \<and> total1 (snd (mbedtls_sha256_update c2 input)) = total1 c2"
  unfolding mbedtls_md5_update_def mbedtls_sha1_update_def mbedtls_ripemd160_update_def sha256_update_eq
  by (intro conjI) (simp_all only: hash_update_count [OF assms])

theorem update_misses_4GiB_witness:
  "total0 (snd (mbedtls_sha256_update mbedtls_sha256_init (replicate (2 ^ 32) 7))) = 0 \<and>
   total1 (snd (mbedtls_sha256_update mbedtls_sha256_init (replicate (2 ^ 32) 7))) = 0"
proof -
  have l: "length (replicate (2 ^ 32) (7 :: u8)) = 2 ^ 32 * 1" by (simp only: length_replicate mult_1_right)
  show ?thesis using update_misses_4GiB [OF l, of mbedtls_sha1_init mbedtls_sha256_init]
    by (simp only: mbedtls_sha256_init_def hash_context.simps)
qed

end
