(* ===== verification/Psa_Error.thy ===== *)
theory Psa_Error
  imports Crypto_Values
begin

text \<open>
  The translation of error codes between the built-in drivers and the API: a driver function returns
  an \<open>int\<close>, which is a PSA status or a low-level and a high-level code added together, and
  \<open>mbedtls_to_psa_error\<close> of psa_crypto.c turns it into a PSA status.
\<close>

section \<open>Codes\<close>

abbreviation MBEDTLS_ERR_AES_INVALID_KEY_LENGTH :: int where "MBEDTLS_ERR_AES_INVALID_KEY_LENGTH \<equiv> -0x20"
abbreviation MBEDTLS_ERR_AES_INVALID_INPUT_LENGTH :: int where "MBEDTLS_ERR_AES_INVALID_INPUT_LENGTH \<equiv> -0x22"
abbreviation MBEDTLS_ERR_ASN1_OUT_OF_DATA :: int where "MBEDTLS_ERR_ASN1_OUT_OF_DATA \<equiv> -0x60"
abbreviation MBEDTLS_ERR_ASN1_UNEXPECTED_TAG :: int where "MBEDTLS_ERR_ASN1_UNEXPECTED_TAG \<equiv> -0x62"
abbreviation MBEDTLS_ERR_ASN1_INVALID_LENGTH :: int where "MBEDTLS_ERR_ASN1_INVALID_LENGTH \<equiv> -0x64"
abbreviation MBEDTLS_ERR_ASN1_LENGTH_MISMATCH :: int where "MBEDTLS_ERR_ASN1_LENGTH_MISMATCH \<equiv> -0x66"
abbreviation MBEDTLS_ERR_ASN1_INVALID_DATA :: int where "MBEDTLS_ERR_ASN1_INVALID_DATA \<equiv> -0x68"
abbreviation MBEDTLS_ERR_CAMELLIA_INVALID_INPUT_LENGTH :: int where "MBEDTLS_ERR_CAMELLIA_INVALID_INPUT_LENGTH \<equiv> -0x26"
abbreviation MBEDTLS_ERR_CHACHAPOLY_BAD_STATE :: int where "MBEDTLS_ERR_CHACHAPOLY_BAD_STATE \<equiv> -0x54"
abbreviation MBEDTLS_ERR_CIPHER_FEATURE_UNAVAILABLE :: int where "MBEDTLS_ERR_CIPHER_FEATURE_UNAVAILABLE \<equiv> -0x6080"
abbreviation MBEDTLS_ERR_CIPHER_FULL_BLOCK_EXPECTED :: int where "MBEDTLS_ERR_CIPHER_FULL_BLOCK_EXPECTED \<equiv> -0x6280"
abbreviation MBEDTLS_ERR_CIPHER_INVALID_CONTEXT :: int where "MBEDTLS_ERR_CIPHER_INVALID_CONTEXT \<equiv> -0x6380"
abbreviation MBEDTLS_ERR_CTR_DRBG_ENTROPY_SOURCE_FAILED :: int where "MBEDTLS_ERR_CTR_DRBG_ENTROPY_SOURCE_FAILED \<equiv> -0x34"
abbreviation MBEDTLS_ERR_CTR_DRBG_REQUEST_TOO_BIG :: int where "MBEDTLS_ERR_CTR_DRBG_REQUEST_TOO_BIG \<equiv> -0x36"
abbreviation MBEDTLS_ERR_CTR_DRBG_INPUT_TOO_BIG :: int where "MBEDTLS_ERR_CTR_DRBG_INPUT_TOO_BIG \<equiv> -0x38"
abbreviation MBEDTLS_ERR_CTR_DRBG_FILE_IO_ERROR :: int where "MBEDTLS_ERR_CTR_DRBG_FILE_IO_ERROR \<equiv> -0x3a"
abbreviation MBEDTLS_ERR_ENTROPY_NO_SOURCES_DEFINED :: int where "MBEDTLS_ERR_ENTROPY_NO_SOURCES_DEFINED \<equiv> -0x40"
abbreviation MBEDTLS_ERR_ENTROPY_NO_STRONG_SOURCE :: int where "MBEDTLS_ERR_ENTROPY_NO_STRONG_SOURCE \<equiv> -0x3d"
abbreviation MBEDTLS_ERR_ENTROPY_SOURCE_FAILED :: int where "MBEDTLS_ERR_ENTROPY_SOURCE_FAILED \<equiv> -148"
abbreviation MBEDTLS_ERR_MD_FEATURE_UNAVAILABLE :: int where "MBEDTLS_ERR_MD_FEATURE_UNAVAILABLE \<equiv> -0x5080"
abbreviation MBEDTLS_ERR_MD_FILE_IO_ERROR :: int where "MBEDTLS_ERR_MD_FILE_IO_ERROR \<equiv> -0x5200"
abbreviation MBEDTLS_ERR_MPI_FILE_IO_ERROR :: int where "MBEDTLS_ERR_MPI_FILE_IO_ERROR \<equiv> -0x2"
abbreviation MBEDTLS_ERR_MPI_INVALID_CHARACTER :: int where "MBEDTLS_ERR_MPI_INVALID_CHARACTER \<equiv> -0x6"
abbreviation MBEDTLS_ERR_MPI_NEGATIVE_VALUE :: int where "MBEDTLS_ERR_MPI_NEGATIVE_VALUE \<equiv> -0xa"
abbreviation MBEDTLS_ERR_MPI_DIVISION_BY_ZERO :: int where "MBEDTLS_ERR_MPI_DIVISION_BY_ZERO \<equiv> -0xc"
abbreviation MBEDTLS_ERR_MPI_NOT_ACCEPTABLE :: int where "MBEDTLS_ERR_MPI_NOT_ACCEPTABLE \<equiv> -0xe"
abbreviation MBEDTLS_ERR_PK_TYPE_MISMATCH :: int where "MBEDTLS_ERR_PK_TYPE_MISMATCH \<equiv> -0x3f00"
abbreviation MBEDTLS_ERR_PK_FILE_IO_ERROR :: int where "MBEDTLS_ERR_PK_FILE_IO_ERROR \<equiv> -0x3e00"
abbreviation MBEDTLS_ERR_PK_KEY_INVALID_VERSION :: int where "MBEDTLS_ERR_PK_KEY_INVALID_VERSION \<equiv> -0x3d80"
abbreviation MBEDTLS_ERR_PK_KEY_INVALID_FORMAT :: int where "MBEDTLS_ERR_PK_KEY_INVALID_FORMAT \<equiv> -0x3d00"
abbreviation MBEDTLS_ERR_PK_UNKNOWN_PK_ALG :: int where "MBEDTLS_ERR_PK_UNKNOWN_PK_ALG \<equiv> -0x3c80"
abbreviation MBEDTLS_ERR_PK_PASSWORD_REQUIRED :: int where "MBEDTLS_ERR_PK_PASSWORD_REQUIRED \<equiv> -0x3c00"
abbreviation MBEDTLS_ERR_PK_PASSWORD_MISMATCH :: int where "MBEDTLS_ERR_PK_PASSWORD_MISMATCH \<equiv> -0x3b80"
abbreviation MBEDTLS_ERR_PK_INVALID_PUBKEY :: int where "MBEDTLS_ERR_PK_INVALID_PUBKEY \<equiv> -0x3b00"
abbreviation MBEDTLS_ERR_PK_INVALID_ALG :: int where "MBEDTLS_ERR_PK_INVALID_ALG \<equiv> -0x3a80"
abbreviation MBEDTLS_ERR_PK_UNKNOWN_NAMED_CURVE :: int where "MBEDTLS_ERR_PK_UNKNOWN_NAMED_CURVE \<equiv> -0x3a00"
abbreviation MBEDTLS_ERR_PK_FEATURE_UNAVAILABLE :: int where "MBEDTLS_ERR_PK_FEATURE_UNAVAILABLE \<equiv> -0x3980"
abbreviation MBEDTLS_ERR_PLATFORM_HW_ACCEL_FAILED :: int where "MBEDTLS_ERR_PLATFORM_HW_ACCEL_FAILED \<equiv> -147"
abbreviation MBEDTLS_ERR_PLATFORM_FEATURE_UNSUPPORTED :: int where "MBEDTLS_ERR_PLATFORM_FEATURE_UNSUPPORTED \<equiv> -134"
abbreviation MBEDTLS_ERR_RSA_KEY_GEN_FAILED :: int where "MBEDTLS_ERR_RSA_KEY_GEN_FAILED \<equiv> -0x4180"
abbreviation MBEDTLS_ERR_RSA_KEY_CHECK_FAILED :: int where "MBEDTLS_ERR_RSA_KEY_CHECK_FAILED \<equiv> -0x4200"
abbreviation MBEDTLS_ERR_RSA_PUBLIC_FAILED :: int where "MBEDTLS_ERR_RSA_PUBLIC_FAILED \<equiv> -0x4280"
abbreviation MBEDTLS_ERR_RSA_PRIVATE_FAILED :: int where "MBEDTLS_ERR_RSA_PRIVATE_FAILED \<equiv> -0x4300"
abbreviation MBEDTLS_ERR_RSA_RNG_FAILED :: int where "MBEDTLS_ERR_RSA_RNG_FAILED \<equiv> -0x4480"
abbreviation MBEDTLS_ERR_ECP_INVALID_KEY :: int where "MBEDTLS_ERR_ECP_INVALID_KEY \<equiv> -0x4c80"
abbreviation MBEDTLS_ERR_ERROR_CORRUPTION_DETECTED :: int where "MBEDTLS_ERR_ERROR_CORRUPTION_DETECTED \<equiv> -151"

text \<open>The numbers of the PSA status codes, in both directions; a number in the range of the PSA codes
  that has no name keeps its value.\<close>

definition psa_status_number :: "psa_status \<Rightarrow> int" where
  "psa_status_number status =
    (case status of
     PSA_SUCCESS \<Rightarrow> 0
     | PSA_ERROR_GENERIC_ERROR \<Rightarrow> -132
     | PSA_ERROR_NOT_PERMITTED \<Rightarrow> -133
     | PSA_ERROR_NOT_SUPPORTED \<Rightarrow> -134
     | PSA_ERROR_INVALID_ARGUMENT \<Rightarrow> -135
     | PSA_ERROR_INVALID_HANDLE \<Rightarrow> -136
     | PSA_ERROR_BAD_STATE \<Rightarrow> -137
     | PSA_ERROR_BUFFER_TOO_SMALL \<Rightarrow> -138
     | PSA_ERROR_ALREADY_EXISTS \<Rightarrow> -139
     | PSA_ERROR_DOES_NOT_EXIST \<Rightarrow> -140
     | PSA_ERROR_INSUFFICIENT_MEMORY \<Rightarrow> -141
     | PSA_ERROR_INSUFFICIENT_STORAGE \<Rightarrow> -142
     | PSA_ERROR_INSUFFICIENT_DATA \<Rightarrow> -143
     | PSA_ERROR_SERVICE_FAILURE \<Rightarrow> -144
     | PSA_ERROR_COMMUNICATION_FAILURE \<Rightarrow> -145
     | PSA_ERROR_STORAGE_FAILURE \<Rightarrow> -146
     | PSA_ERROR_HARDWARE_FAILURE \<Rightarrow> -147
     | PSA_ERROR_INSUFFICIENT_ENTROPY \<Rightarrow> -148
     | PSA_ERROR_INVALID_SIGNATURE \<Rightarrow> -149
     | PSA_ERROR_INVALID_PADDING \<Rightarrow> -150
     | PSA_ERROR_CORRUPTION_DETECTED \<Rightarrow> -151
     | PSA_ERROR_DATA_CORRUPT \<Rightarrow> -152
     | PSA_ERROR_DATA_INVALID \<Rightarrow> -153
     | PSA_OPERATION_INCOMPLETE \<Rightarrow> -248
     | PSA_STATUS_UNNAMED n \<Rightarrow> n)"

definition psa_status_of_number :: "int \<Rightarrow> psa_status" where
  "psa_status_of_number n =
    (if n = 0 then PSA_SUCCESS
     else if n = -132 then PSA_ERROR_GENERIC_ERROR
     else if n = -133 then PSA_ERROR_NOT_PERMITTED
     else if n = -134 then PSA_ERROR_NOT_SUPPORTED
     else if n = -135 then PSA_ERROR_INVALID_ARGUMENT
     else if n = -136 then PSA_ERROR_INVALID_HANDLE
     else if n = -137 then PSA_ERROR_BAD_STATE
     else if n = -138 then PSA_ERROR_BUFFER_TOO_SMALL
     else if n = -139 then PSA_ERROR_ALREADY_EXISTS
     else if n = -140 then PSA_ERROR_DOES_NOT_EXIST
     else if n = -141 then PSA_ERROR_INSUFFICIENT_MEMORY
     else if n = -142 then PSA_ERROR_INSUFFICIENT_STORAGE
     else if n = -143 then PSA_ERROR_INSUFFICIENT_DATA
     else if n = -144 then PSA_ERROR_SERVICE_FAILURE
     else if n = -145 then PSA_ERROR_COMMUNICATION_FAILURE
     else if n = -146 then PSA_ERROR_STORAGE_FAILURE
     else if n = -147 then PSA_ERROR_HARDWARE_FAILURE
     else if n = -148 then PSA_ERROR_INSUFFICIENT_ENTROPY
     else if n = -149 then PSA_ERROR_INVALID_SIGNATURE
     else if n = -150 then PSA_ERROR_INVALID_PADDING
     else if n = -151 then PSA_ERROR_CORRUPTION_DETECTED
     else if n = -152 then PSA_ERROR_DATA_CORRUPT
     else if n = -153 then PSA_ERROR_DATA_INVALID
     else if n = -248 then PSA_OPERATION_INCOMPLETE
     else PSA_STATUS_UNNAMED n)"

section \<open>The translation\<close>

definition mbedtls_to_psa_error :: "int \<Rightarrow> psa_status" where
  "mbedtls_to_psa_error ret =
    (if ret > - 0x1000 \<and> ret < - 0x80 then psa_status_of_number ret
     else
       let low_level_ret = - (- ret AND 0x007f);
           c = (if low_level_ret \<noteq> 0 then low_level_ret else ret)
       in if c = 0 then PSA_SUCCESS
       else if c \<in> {MBEDTLS_ERR_AES_INVALID_KEY_LENGTH, MBEDTLS_ERR_AES_INVALID_INPUT_LENGTH}
         then PSA_ERROR_NOT_SUPPORTED
       else if c \<in> {MBEDTLS_ERR_ASN1_OUT_OF_DATA, MBEDTLS_ERR_ASN1_UNEXPECTED_TAG, MBEDTLS_ERR_ASN1_INVALID_LENGTH, MBEDTLS_ERR_ASN1_LENGTH_MISMATCH, MBEDTLS_ERR_ASN1_INVALID_DATA}
         then PSA_ERROR_INVALID_ARGUMENT
       else if c = MBEDTLS_ERR_CAMELLIA_INVALID_INPUT_LENGTH
         then PSA_ERROR_NOT_SUPPORTED
       else if c = MBEDTLS_ERR_CHACHAPOLY_BAD_STATE
         then PSA_ERROR_BAD_STATE
       else if c = MBEDTLS_ERR_CIPHER_FEATURE_UNAVAILABLE
         then PSA_ERROR_NOT_SUPPORTED
       else if c = MBEDTLS_ERR_CIPHER_FULL_BLOCK_EXPECTED
         then PSA_ERROR_INVALID_ARGUMENT
       else if c = MBEDTLS_ERR_CIPHER_INVALID_CONTEXT
         then PSA_ERROR_CORRUPTION_DETECTED
       else if c = MBEDTLS_ERR_CTR_DRBG_ENTROPY_SOURCE_FAILED
         then PSA_ERROR_INSUFFICIENT_ENTROPY
       else if c \<in> {MBEDTLS_ERR_CTR_DRBG_REQUEST_TOO_BIG, MBEDTLS_ERR_CTR_DRBG_INPUT_TOO_BIG}
         then PSA_ERROR_NOT_SUPPORTED
       else if c = MBEDTLS_ERR_CTR_DRBG_FILE_IO_ERROR
         then PSA_ERROR_INSUFFICIENT_ENTROPY
       else if c \<in> {MBEDTLS_ERR_ENTROPY_NO_SOURCES_DEFINED, MBEDTLS_ERR_ENTROPY_NO_STRONG_SOURCE, MBEDTLS_ERR_ENTROPY_SOURCE_FAILED}
         then PSA_ERROR_INSUFFICIENT_ENTROPY
       else if c = MBEDTLS_ERR_MD_FEATURE_UNAVAILABLE
         then PSA_ERROR_NOT_SUPPORTED
       else if c = MBEDTLS_ERR_MD_FILE_IO_ERROR
         then PSA_ERROR_STORAGE_FAILURE
       else if c = MBEDTLS_ERR_MPI_FILE_IO_ERROR
         then PSA_ERROR_STORAGE_FAILURE
       else if c = MBEDTLS_ERR_MPI_INVALID_CHARACTER
         then PSA_ERROR_INVALID_ARGUMENT
       else if c = MBEDTLS_ERR_MPI_NEGATIVE_VALUE
         then PSA_ERROR_INVALID_ARGUMENT
       else if c = MBEDTLS_ERR_MPI_DIVISION_BY_ZERO
         then PSA_ERROR_INVALID_ARGUMENT
       else if c = MBEDTLS_ERR_MPI_NOT_ACCEPTABLE
         then PSA_ERROR_INVALID_ARGUMENT
       else if c = MBEDTLS_ERR_PK_TYPE_MISMATCH
         then PSA_ERROR_INVALID_ARGUMENT
       else if c = MBEDTLS_ERR_PK_FILE_IO_ERROR
         then PSA_ERROR_STORAGE_FAILURE
       else if c \<in> {MBEDTLS_ERR_PK_KEY_INVALID_VERSION, MBEDTLS_ERR_PK_KEY_INVALID_FORMAT}
         then PSA_ERROR_INVALID_ARGUMENT
       else if c = MBEDTLS_ERR_PK_UNKNOWN_PK_ALG
         then PSA_ERROR_NOT_SUPPORTED
       else if c \<in> {MBEDTLS_ERR_PK_PASSWORD_REQUIRED, MBEDTLS_ERR_PK_PASSWORD_MISMATCH}
         then PSA_ERROR_NOT_PERMITTED
       else if c = MBEDTLS_ERR_PK_INVALID_PUBKEY
         then PSA_ERROR_INVALID_ARGUMENT
       else if c \<in> {MBEDTLS_ERR_PK_INVALID_ALG, MBEDTLS_ERR_PK_UNKNOWN_NAMED_CURVE, MBEDTLS_ERR_PK_FEATURE_UNAVAILABLE}
         then PSA_ERROR_NOT_SUPPORTED
       else if c = MBEDTLS_ERR_PLATFORM_HW_ACCEL_FAILED
         then PSA_ERROR_HARDWARE_FAILURE
       else if c = MBEDTLS_ERR_PLATFORM_FEATURE_UNSUPPORTED
         then PSA_ERROR_NOT_SUPPORTED
       else if c = MBEDTLS_ERR_RSA_KEY_GEN_FAILED
         then PSA_ERROR_HARDWARE_FAILURE
       else if c = MBEDTLS_ERR_RSA_KEY_CHECK_FAILED
         then PSA_ERROR_INVALID_ARGUMENT
       else if c \<in> {MBEDTLS_ERR_RSA_PUBLIC_FAILED, MBEDTLS_ERR_RSA_PRIVATE_FAILED}
         then PSA_ERROR_CORRUPTION_DETECTED
       else if c = MBEDTLS_ERR_RSA_RNG_FAILED
         then PSA_ERROR_INSUFFICIENT_ENTROPY
       else if c = MBEDTLS_ERR_ECP_INVALID_KEY
         then PSA_ERROR_INVALID_ARGUMENT
       else if c = MBEDTLS_ERR_ERROR_CORRUPTION_DETECTED
         then PSA_ERROR_CORRUPTION_DETECTED
       else PSA_ERROR_GENERIC_ERROR)"

lemma to_psa_error_0 [simp]: "mbedtls_to_psa_error 0 = PSA_SUCCESS"
  by (simp add: mbedtls_to_psa_error_def)

text \<open>A PSA status passes through the drivers unchanged, and only 0 stands for success.\<close>

lemma to_psa_error_status: "(\<forall>n. status \<noteq> PSA_STATUS_UNNAMED n) \<Longrightarrow> mbedtls_to_psa_error (psa_status_number status) = status"
  by (cases status) (simp_all add: psa_status_number_def mbedtls_to_psa_error_def psa_status_of_number_def)

lemma if_other: "x \<noteq> v \<Longrightarrow> ((if P then x else y) = v) = (\<not> P \<and> y = v)"
  by simp

lemma to_psa_error_success: "mbedtls_to_psa_error ret = PSA_SUCCESS \<longleftrightarrow> ret = 0"
proof (cases "ret > - 0x1000 \<and> ret < - 0x80")
  case True
  then show ?thesis by (simp add: mbedtls_to_psa_error_def psa_status_of_number_def if_other)
next
  case False
  show ?thesis unfolding mbedtls_to_psa_error_def if_not_P [OF False] Let_def
    by (simp add: if_other del: insert_iff) auto
qed

end
