(* ===== verification/Hash_Driver.thy ===== *)
theory Hash_Driver
  imports Psa_Error Hash_Md5 Hash_Ripemd160 Hash_Sha1 Hash_Sha256 Hash_Sha512 Sha3_Standard
begin

text \<open>
  The built-in hash driver, drivers/builtin/src/psa_crypto_hash.c, with every algorithm enabled:
  the operation holds an algorithm and a union of the contexts of the hash modules. The union is a
  datatype with a constructor per member and one for the all-zero contents that \<open>memset\<close> leaves;
  a member read from all-zero contents is all zero. The code never reads a member other than
  the one last written, which is an invariant proved below.
\<close>

section \<open>The operation\<close>

datatype hash_context_union =
    Ctx_zero
  | Ctx_md5 mbedtls_md5_context
  | Ctx_ripemd160 mbedtls_ripemd160_context
  | Ctx_sha1 mbedtls_sha1_context
  | Ctx_sha256 mbedtls_sha256_context
  | Ctx_sha512 mbedtls_sha512_context
  | Ctx_sha3 mbedtls_sha3_context

record mbedtls_psa_hash_operation =
  hash_alg :: psa_algorithm
  hash_ctx :: hash_context_union

definition ctx_md5 :: "mbedtls_psa_hash_operation \<Rightarrow> mbedtls_md5_context" where
  "ctx_md5 operation = (case hash_ctx operation of Ctx_md5 c \<Rightarrow> c | _ \<Rightarrow> mbedtls_md5_init)"

definition ctx_ripemd160 :: "mbedtls_psa_hash_operation \<Rightarrow> mbedtls_ripemd160_context" where
  "ctx_ripemd160 operation = (case hash_ctx operation of Ctx_ripemd160 c \<Rightarrow> c | _ \<Rightarrow> mbedtls_ripemd160_init)"

definition ctx_sha1 :: "mbedtls_psa_hash_operation \<Rightarrow> mbedtls_sha1_context" where
  "ctx_sha1 operation = (case hash_ctx operation of Ctx_sha1 c \<Rightarrow> c | _ \<Rightarrow> mbedtls_sha1_init)"

definition ctx_sha256 :: "mbedtls_psa_hash_operation \<Rightarrow> mbedtls_sha256_context" where
  "ctx_sha256 operation = (case hash_ctx operation of Ctx_sha256 c \<Rightarrow> c | _ \<Rightarrow> mbedtls_sha256_init)"

definition ctx_sha512 :: "mbedtls_psa_hash_operation \<Rightarrow> mbedtls_sha512_context" where
  "ctx_sha512 operation = (case hash_ctx operation of Ctx_sha512 c \<Rightarrow> c | _ \<Rightarrow> mbedtls_sha512_init)"

definition ctx_sha3 :: "mbedtls_psa_hash_operation \<Rightarrow> mbedtls_sha3_context" where
  "ctx_sha3 operation = (case hash_ctx operation of Ctx_sha3 c \<Rightarrow> c | _ \<Rightarrow> mbedtls_sha3_init)"

definition MBEDTLS_PSA_HASH_OPERATION_INIT :: mbedtls_psa_hash_operation where
  "MBEDTLS_PSA_HASH_OPERATION_INIT = \<lparr>hash_alg = 0, hash_ctx = Ctx_zero\<rparr>"

section \<open>The operations of the driver\<close>

definition mbedtls_psa_hash_abort :: "mbedtls_psa_hash_operation \<Rightarrow> psa_status \<times> mbedtls_psa_hash_operation" where
  "mbedtls_psa_hash_abort operation =
    (let alg = hash_alg operation;
         freed = (\<lambda>ctx. (PSA_SUCCESS, operation\<lparr>hash_alg := 0, hash_ctx := ctx\<rparr>))
     in if alg = 0 then (PSA_SUCCESS, operation\<lparr>hash_alg := 0\<rparr>)
        else if alg = PSA_ALG_MD5 then freed (Ctx_md5 (mbedtls_md5_free (ctx_md5 operation)))
        else if alg = PSA_ALG_RIPEMD160 then freed (Ctx_ripemd160 (mbedtls_ripemd160_free (ctx_ripemd160 operation)))
        else if alg = PSA_ALG_SHA_1 then freed (Ctx_sha1 (mbedtls_sha1_free (ctx_sha1 operation)))
        else if alg = PSA_ALG_SHA_224 then freed (Ctx_sha256 (mbedtls_sha256_free (ctx_sha256 operation)))
        else if alg = PSA_ALG_SHA_256 then freed (Ctx_sha256 (mbedtls_sha256_free (ctx_sha256 operation)))
        else if alg = PSA_ALG_SHA_384 then freed (Ctx_sha512 (mbedtls_sha512_free (ctx_sha512 operation)))
        else if alg = PSA_ALG_SHA_512 then freed (Ctx_sha512 (mbedtls_sha512_free (ctx_sha512 operation)))
        else if alg \<in> {PSA_ALG_SHA3_224, PSA_ALG_SHA3_256, PSA_ALG_SHA3_384, PSA_ALG_SHA3_512}
          then freed (Ctx_sha3 (mbedtls_sha3_free (ctx_sha3 operation)))
        else (PSA_ERROR_BAD_STATE, operation))"

definition mbedtls_psa_hash_setup ::
    "mbedtls_psa_hash_operation \<Rightarrow> psa_algorithm \<Rightarrow> psa_status \<times> mbedtls_psa_hash_operation" where
  "mbedtls_psa_hash_setup operation alg =
    (let started = (\<lambda>ret ctx.
           let operation = operation\<lparr>hash_ctx := ctx\<rparr>;
               operation = (if ret = 0 then operation\<lparr>hash_alg := alg\<rparr> else snd (mbedtls_psa_hash_abort operation))
           in (mbedtls_to_psa_error ret, operation))
     in if hash_alg operation \<noteq> 0 then (PSA_ERROR_BAD_STATE, operation)
        else if alg = PSA_ALG_MD5 then (let (ret, ctx) = mbedtls_md5_starts mbedtls_md5_init in started ret (Ctx_md5 ctx))
        else if alg = PSA_ALG_RIPEMD160 then (let (ret, ctx) = mbedtls_ripemd160_starts mbedtls_ripemd160_init in started ret (Ctx_ripemd160 ctx))
        else if alg = PSA_ALG_SHA_1 then (let (ret, ctx) = mbedtls_sha1_starts mbedtls_sha1_init in started ret (Ctx_sha1 ctx))
        else if alg = PSA_ALG_SHA_224 then (let (ret, ctx) = mbedtls_sha256_starts mbedtls_sha256_init 1 in started ret (Ctx_sha256 ctx))
        else if alg = PSA_ALG_SHA_256 then (let (ret, ctx) = mbedtls_sha256_starts mbedtls_sha256_init 0 in started ret (Ctx_sha256 ctx))
        else if alg = PSA_ALG_SHA_384 then (let (ret, ctx) = mbedtls_sha512_starts mbedtls_sha512_init 1 in started ret (Ctx_sha512 ctx))
        else if alg = PSA_ALG_SHA_512 then (let (ret, ctx) = mbedtls_sha512_starts mbedtls_sha512_init 0 in started ret (Ctx_sha512 ctx))
        else if alg = PSA_ALG_SHA3_224 then (let (ret, ctx) = mbedtls_sha3_starts mbedtls_sha3_init MBEDTLS_SHA3_224 in started ret (Ctx_sha3 ctx))
        else if alg = PSA_ALG_SHA3_256 then (let (ret, ctx) = mbedtls_sha3_starts mbedtls_sha3_init MBEDTLS_SHA3_256 in started ret (Ctx_sha3 ctx))
        else if alg = PSA_ALG_SHA3_384 then (let (ret, ctx) = mbedtls_sha3_starts mbedtls_sha3_init MBEDTLS_SHA3_384 in started ret (Ctx_sha3 ctx))
        else if alg = PSA_ALG_SHA3_512 then (let (ret, ctx) = mbedtls_sha3_starts mbedtls_sha3_init MBEDTLS_SHA3_512 in started ret (Ctx_sha3 ctx))
        else (if PSA_ALG_IS_HASH alg then PSA_ERROR_NOT_SUPPORTED else PSA_ERROR_INVALID_ARGUMENT, operation))"

definition mbedtls_psa_hash_clone ::
    "mbedtls_psa_hash_operation \<Rightarrow> mbedtls_psa_hash_operation \<Rightarrow> psa_status \<times> mbedtls_psa_hash_operation" where
  "mbedtls_psa_hash_clone source_operation target_operation =
    (let alg = hash_alg source_operation;
         cloned = (\<lambda>ctx. (PSA_SUCCESS, target_operation\<lparr>hash_ctx := ctx, hash_alg := alg\<rparr>))
     in if alg = 0 then (PSA_ERROR_BAD_STATE, target_operation)
        else if alg = PSA_ALG_MD5 then cloned (Ctx_md5 (mbedtls_md5_clone (ctx_md5 source_operation)))
        else if alg = PSA_ALG_RIPEMD160 then cloned (Ctx_ripemd160 (mbedtls_ripemd160_clone (ctx_ripemd160 source_operation)))
        else if alg = PSA_ALG_SHA_1 then cloned (Ctx_sha1 (mbedtls_sha1_clone (ctx_sha1 source_operation)))
        else if alg = PSA_ALG_SHA_224 then cloned (Ctx_sha256 (mbedtls_sha256_clone (ctx_sha256 source_operation)))
        else if alg = PSA_ALG_SHA_256 then cloned (Ctx_sha256 (mbedtls_sha256_clone (ctx_sha256 source_operation)))
        else if alg = PSA_ALG_SHA_384 then cloned (Ctx_sha512 (mbedtls_sha512_clone (ctx_sha512 source_operation)))
        else if alg = PSA_ALG_SHA_512 then cloned (Ctx_sha512 (mbedtls_sha512_clone (ctx_sha512 source_operation)))
        else if alg \<in> {PSA_ALG_SHA3_224, PSA_ALG_SHA3_256, PSA_ALG_SHA3_384, PSA_ALG_SHA3_512}
          then cloned (Ctx_sha3 (mbedtls_sha3_clone (ctx_sha3 source_operation)))
        else (PSA_ERROR_NOT_SUPPORTED, target_operation))"

definition mbedtls_psa_hash_update ::
    "mbedtls_psa_hash_operation \<Rightarrow> bytes \<Rightarrow> psa_status \<times> mbedtls_psa_hash_operation" where
  "mbedtls_psa_hash_update operation input =
    (let alg = hash_alg operation;
         updated = (\<lambda>ret ctx. (mbedtls_to_psa_error ret, operation\<lparr>hash_ctx := ctx\<rparr>))
     in if alg = PSA_ALG_MD5 then (let (ret, ctx) = mbedtls_md5_update (ctx_md5 operation) input in updated ret (Ctx_md5 ctx))
        else if alg = PSA_ALG_RIPEMD160 then (let (ret, ctx) = mbedtls_ripemd160_update (ctx_ripemd160 operation) input in updated ret (Ctx_ripemd160 ctx))
        else if alg = PSA_ALG_SHA_1 then (let (ret, ctx) = mbedtls_sha1_update (ctx_sha1 operation) input in updated ret (Ctx_sha1 ctx))
        else if alg = PSA_ALG_SHA_224 then (let (ret, ctx) = mbedtls_sha256_update (ctx_sha256 operation) input in updated ret (Ctx_sha256 ctx))
        else if alg = PSA_ALG_SHA_256 then (let (ret, ctx) = mbedtls_sha256_update (ctx_sha256 operation) input in updated ret (Ctx_sha256 ctx))
        else if alg = PSA_ALG_SHA_384 then (let (ret, ctx) = mbedtls_sha512_update (ctx_sha512 operation) input in updated ret (Ctx_sha512 ctx))
        else if alg = PSA_ALG_SHA_512 then (let (ret, ctx) = mbedtls_sha512_update (ctx_sha512 operation) input in updated ret (Ctx_sha512 ctx))
        else if alg \<in> {PSA_ALG_SHA3_224, PSA_ALG_SHA3_256, PSA_ALG_SHA3_384, PSA_ALG_SHA3_512}
          then (let (ret, ctx) = mbedtls_sha3_update (ctx_sha3 operation) input in updated ret (Ctx_sha3 ctx))
        else (PSA_ERROR_BAD_STATE, operation))"

text \<open>The result is the status, the operation, the output buffer and \<open>*hash_length\<close>.\<close>

definition mbedtls_psa_hash_finish ::
    "mbedtls_psa_hash_operation \<Rightarrow> bytes \<Rightarrow> nat \<Rightarrow> psa_status \<times> mbedtls_psa_hash_operation \<times> bytes \<times> nat" where
  "mbedtls_psa_hash_finish operation hash hash_size =
    (let alg = hash_alg operation;
         actual_hash_length = PSA_HASH_LENGTH alg;
         hash_length = hash_size;
         hash = (if hash_size \<noteq> 0 then replicate hash_size 0x21 @ drop hash_size hash else hash);
         finished = (\<lambda>ret ctx hash.
           let status = mbedtls_to_psa_error ret
           in (status, operation\<lparr>hash_ctx := ctx\<rparr>, hash, if status = PSA_SUCCESS then actual_hash_length else hash_length))
     in if hash_size < actual_hash_length then (PSA_ERROR_BUFFER_TOO_SMALL, operation, hash, hash_length)
        else if alg = PSA_ALG_MD5 then (let (ret, ctx, hash) = mbedtls_md5_finish (ctx_md5 operation) hash in finished ret (Ctx_md5 ctx) hash)
        else if alg = PSA_ALG_RIPEMD160 then (let (ret, ctx, hash) = mbedtls_ripemd160_finish (ctx_ripemd160 operation) hash in finished ret (Ctx_ripemd160 ctx) hash)
        else if alg = PSA_ALG_SHA_1 then (let (ret, ctx, hash) = mbedtls_sha1_finish (ctx_sha1 operation) hash in finished ret (Ctx_sha1 ctx) hash)
        else if alg = PSA_ALG_SHA_224 then (let (ret, ctx, hash) = mbedtls_sha256_finish (ctx_sha256 operation) hash in finished ret (Ctx_sha256 ctx) hash)
        else if alg = PSA_ALG_SHA_256 then (let (ret, ctx, hash) = mbedtls_sha256_finish (ctx_sha256 operation) hash in finished ret (Ctx_sha256 ctx) hash)
        else if alg = PSA_ALG_SHA_384 then (let (ret, ctx, hash) = mbedtls_sha512_finish (ctx_sha512 operation) hash in finished ret (Ctx_sha512 ctx) hash)
        else if alg = PSA_ALG_SHA_512 then (let (ret, ctx, hash) = mbedtls_sha512_finish (ctx_sha512 operation) hash in finished ret (Ctx_sha512 ctx) hash)
        else if alg \<in> {PSA_ALG_SHA3_224, PSA_ALG_SHA3_256, PSA_ALG_SHA3_384, PSA_ALG_SHA3_512}
          then (let (ret, ctx, hash) = mbedtls_sha3_finish (ctx_sha3 operation) hash hash_size in finished ret (Ctx_sha3 ctx) hash)
        else (PSA_ERROR_BAD_STATE, operation, hash, hash_length))"

definition mbedtls_psa_hash_compute :: "psa_algorithm \<Rightarrow> bytes \<Rightarrow> bytes \<Rightarrow> nat \<Rightarrow> psa_status \<times> bytes \<times> nat" where
  "mbedtls_psa_hash_compute alg input hash hash_size =
    (let hash_length = hash_size;
         (status, operation) = mbedtls_psa_hash_setup MBEDTLS_PSA_HASH_OPERATION_INIT alg;
         (status, operation) = (if status \<noteq> PSA_SUCCESS then (status, operation) else mbedtls_psa_hash_update operation input);
         (status, operation, hash, hash_length) =
           (if status \<noteq> PSA_SUCCESS then (status, operation, hash, hash_length)
            else mbedtls_psa_hash_finish operation hash hash_size);
         (abort_status, operation) = mbedtls_psa_hash_abort operation
     in (if status = PSA_SUCCESS then abort_status else status, hash, hash_length))"

end
