(* ===== verification/Constant_Time.thy ===== *)
theory Constant_Time
  imports Prelude
begin

text \<open>
  The constant-time module: the conditions, comparisons and selections of
  utilities/constant_time_impl.h, in the portable C variant and in the x86-64 and AArch64
  assembly variants, and the buffer functions of utilities/constant_time.c, each with the
  ordinary function it computes. \<open>mbedtls_ct_uint_t\<close> has 64 bits; a condition is all ones or
  zero. \<open>mbedtls_ct_compiler_opaque\<close> is the identity on values.
\<close>

type_synonym ct_uint = u64
type_synonym ct_condition = u64

definition mbedtls_ct_compiler_opaque :: "ct_uint \<Rightarrow> ct_uint" where
  "mbedtls_ct_compiler_opaque x = x"

section \<open>Conditions\<close>

definition mbedtls_ct_bool :: "ct_uint \<Rightarrow> ct_condition" where
  "mbedtls_ct_bool x =
    (let xo = mbedtls_ct_compiler_opaque x;
         y = (- xo) OR (- (drop_bit 1 xo));
         y = drop_bit 63 y
     in - y)"

text \<open>neg, or, sar: the same sequence on x86-64 and AArch64.\<close>

definition mbedtls_ct_bool_asm :: "ct_uint \<Rightarrow> ct_condition" where
  "mbedtls_ct_bool_asm x = (let s = - x; s = s OR x in signed_drop_bit 63 s)"

definition mbedtls_ct_if :: "ct_condition \<Rightarrow> ct_uint \<Rightarrow> ct_uint \<Rightarrow> ct_uint" where
  "mbedtls_ct_if condition if1 if0 =
    (let not_cond = NOT (mbedtls_ct_compiler_opaque condition) in (condition AND if1) OR (not_cond AND if0))"

text \<open>and, mvn, and, orr on AArch64; and, not, and, or on x86-64.\<close>

definition mbedtls_ct_if_aarch64 :: "ct_condition \<Rightarrow> ct_uint \<Rightarrow> ct_uint \<Rightarrow> ct_uint" where
  "mbedtls_ct_if_aarch64 condition if1 if0 =
    (let if1 = if1 AND condition; condition = NOT condition; condition = condition AND if0 in if1 OR condition)"

definition mbedtls_ct_if_x86_64 :: "ct_condition \<Rightarrow> ct_uint \<Rightarrow> ct_uint \<Rightarrow> ct_uint" where
  "mbedtls_ct_if_x86_64 condition if1 if0 =
    (let if1 = if1 AND condition; condition = NOT condition; if0 = if0 AND condition in if0 OR if1)"

definition mbedtls_ct_uint_lt :: "ct_uint \<Rightarrow> ct_uint \<Rightarrow> ct_condition" where
  "mbedtls_ct_uint_lt x y =
    (let xo = mbedtls_ct_compiler_opaque x;
         yo = mbedtls_ct_compiler_opaque y;
         cond = mbedtls_ct_bool (drop_bit 63 (xo XOR yo));
         ret = mbedtls_ct_if cond yo (xo - yo);
         ret = drop_bit 63 ret
     in mbedtls_ct_bool ret)"

definition mbedtls_ct_uint_lt_x86_64 :: "ct_uint \<Rightarrow> ct_uint \<Rightarrow> ct_condition" where
  "mbedtls_ct_uint_lt_x86_64 x y =
    (let s = x; s = s XOR y; x = x - y; y = y AND s; s = NOT s; x = x AND s; x = x OR y
     in signed_drop_bit 63 x)"

definition mbedtls_ct_uint_lt_aarch64 :: "ct_uint \<Rightarrow> ct_uint \<Rightarrow> ct_condition" where
  "mbedtls_ct_uint_lt_aarch64 x y =
    (let s1 = y XOR x; x = x - y; x = x AND NOT s1; s1 = s1 AND y; s1 = x OR s1
     in signed_drop_bit 63 s1)"

definition mbedtls_ct_uint_ne :: "ct_uint \<Rightarrow> ct_uint \<Rightarrow> ct_condition" where
  "mbedtls_ct_uint_ne x y = mbedtls_ct_bool (mbedtls_ct_compiler_opaque x XOR mbedtls_ct_compiler_opaque y)"

definition mbedtls_ct_uchar_in_range_if :: "u8 \<Rightarrow> u8 \<Rightarrow> u8 \<Rightarrow> u8 \<Rightarrow> u8" where
  "mbedtls_ct_uchar_in_range_if low high c t =
    (let co = (ucast (mbedtls_ct_compiler_opaque (ucast c)) :: u8);
         to = (ucast (mbedtls_ct_compiler_opaque (ucast t)) :: u8);
         low_mask = drop_bit 8 ((ucast co :: u32) - ucast low);
         high_mask = drop_bit 8 ((ucast high :: u32) - ucast co)
     in ucast (NOT (low_mask OR high_mask)) AND to)"

definition mbedtls_ct_uint_eq :: "ct_uint \<Rightarrow> ct_uint \<Rightarrow> ct_condition" where
  "mbedtls_ct_uint_eq x y = NOT (mbedtls_ct_uint_ne x y)"

definition mbedtls_ct_uint_gt :: "ct_uint \<Rightarrow> ct_uint \<Rightarrow> ct_condition" where
  "mbedtls_ct_uint_gt x y = mbedtls_ct_uint_lt y x"

definition mbedtls_ct_uint_ge :: "ct_uint \<Rightarrow> ct_uint \<Rightarrow> ct_condition" where
  "mbedtls_ct_uint_ge x y = NOT (mbedtls_ct_uint_lt x y)"

definition mbedtls_ct_uint_le :: "ct_uint \<Rightarrow> ct_uint \<Rightarrow> ct_condition" where
  "mbedtls_ct_uint_le x y = NOT (mbedtls_ct_uint_gt x y)"

definition mbedtls_ct_size_if :: "ct_condition \<Rightarrow> u64 \<Rightarrow> u64 \<Rightarrow> u64" where
  "mbedtls_ct_size_if condition if1 if0 = mbedtls_ct_if condition if1 if0"

definition mbedtls_ct_uint_if :: "ct_condition \<Rightarrow> u32 \<Rightarrow> u32 \<Rightarrow> u32" where
  "mbedtls_ct_uint_if condition if1 if0 = ucast (mbedtls_ct_if condition (ucast if1) (ucast if0))"

definition mbedtls_ct_bool_if :: "ct_condition \<Rightarrow> ct_condition \<Rightarrow> ct_condition \<Rightarrow> ct_condition" where
  "mbedtls_ct_bool_if condition if1 if0 = mbedtls_ct_if condition if1 if0"

definition mbedtls_ct_size_if_else_0 :: "ct_condition \<Rightarrow> u64 \<Rightarrow> u64" where
  "mbedtls_ct_size_if_else_0 condition if1 = condition AND if1"

definition mbedtls_ct_uint_if_else_0 :: "ct_condition \<Rightarrow> u32 \<Rightarrow> u32" where
  "mbedtls_ct_uint_if_else_0 condition if1 = ucast (condition AND ucast if1)"

definition mbedtls_ct_bool_if_else_0 :: "ct_condition \<Rightarrow> ct_condition \<Rightarrow> ct_condition" where
  "mbedtls_ct_bool_if_else_0 condition if1 = condition AND if1"

text \<open>Error codes are 32-bit signed; the cast of \<open>- if1\<close> to \<open>mbedtls_ct_uint_t\<close> extends the sign.\<close>

definition mbedtls_ct_error_if :: "ct_condition \<Rightarrow> 32 word \<Rightarrow> 32 word \<Rightarrow> 32 word" where
  "mbedtls_ct_error_if condition if1 if0 = - ucast (mbedtls_ct_if condition (scast (- if1)) (scast (- if0)))"

definition mbedtls_ct_error_if_else_0 :: "ct_condition \<Rightarrow> 32 word \<Rightarrow> 32 word" where
  "mbedtls_ct_error_if_else_0 condition if1 = - ucast (condition AND scast (- if1))"

definition mbedtls_ct_bool_ne :: "ct_condition \<Rightarrow> ct_condition \<Rightarrow> ct_condition" where
  "mbedtls_ct_bool_ne x y = x XOR y"

definition mbedtls_ct_bool_and :: "ct_condition \<Rightarrow> ct_condition \<Rightarrow> ct_condition" where
  "mbedtls_ct_bool_and x y = x AND y"

definition mbedtls_ct_bool_or :: "ct_condition \<Rightarrow> ct_condition \<Rightarrow> ct_condition" where
  "mbedtls_ct_bool_or x y = x OR y"

definition mbedtls_ct_bool_not :: "ct_condition \<Rightarrow> ct_condition" where
  "mbedtls_ct_bool_not x = NOT x"

section \<open>What the conditions are\<close>

text \<open>The condition that stands for a truth value; \<open>ct\<close> collects the rules that reduce to it.\<close>

definition ct_mask :: "bool \<Rightarrow> ct_condition" where
  "ct_mask b = (if b then - 1 else 0)"

named_theorems ct

lemma ct_mask_simps [simp]: "ct_mask True = - 1" "ct_mask False = 0"
  by (simp_all add: ct_mask_def)

lemma ct_mask_eq [simp]: "ct_mask a = ct_mask b \<longleftrightarrow> a = b"
  by (simp add: ct_mask_def)

lemma bit_ct_mask: "bit (ct_mask b) n \<longleftrightarrow> b \<and> n < 64"
  by (simp add: ct_mask_def bit_simps)

lemma ct_mask_and [simp]: "ct_mask b AND x = (if b then x else 0)"
  by (simp add: ct_mask_def)

lemma ct_mask_logic [ct]:
  "NOT (ct_mask a) = ct_mask (\<not> a)" "ct_mask a AND ct_mask b = ct_mask (a \<and> b)"
  "ct_mask a OR ct_mask b = ct_mask (a \<or> b)" "ct_mask a XOR ct_mask b = ct_mask (a \<noteq> b)"
  by (auto simp: ct_mask_def)

lemma top_bit: "bit w 63 \<longleftrightarrow> 2 ^ 63 \<le> unat w" for w :: u64
proof -
  have "unat w < 2 ^ 64" using unsigned_less [of w] by simp
  then have "unat w div 2 ^ 63 = (if 2 ^ 63 \<le> unat w then 1 else 0)" by (auto simp: div_nat_eqI)
  then have "odd (unat w div 2 ^ 63) \<longleftrightarrow> 2 ^ 63 \<le> unat w" by (simp split: if_splits)
  then show ?thesis by (simp only: bit_iff_odd [of "unat w" 63, symmetric] bit_unsigned_iff) simp
qed

lemma drop_bit_top: "drop_bit 63 w = (if bit w 63 then 1 else 0)" for w :: u64
proof (rule bit_word_eqI)
  fix n
  show "bit (drop_bit 63 w) n = bit (if bit w 63 then 1 else 0 :: u64) n"
    by (cases n) (auto simp: bit_simps dest: bit_imp_le_length)
qed

lemma signed_drop_bit_top: "signed_drop_bit 63 w = ct_mask (bit w 63)" for w :: u64
proof (rule bit_word_eqI)
  fix n assume "n < LENGTH(64)"
  then show "bit (signed_drop_bit 63 w) n = bit (ct_mask (bit w 63)) n"
    by (cases n) (simp_all add: bit_signed_drop_bit_iff bit_ct_mask)
qed

lemma unat_diff: "unat (x - y) = (if unat y \<le> unat x then unat x - unat y else unat x + 2 ^ 64 - unat y)" for x y :: u64
  by (simp add: unat_sub_if_size word_size)

lemma top_bit_uminus: "bit (- x) 63 \<longleftrightarrow> x \<noteq> 0 \<and> unat x \<le> 2 ^ 63" for x :: u64
proof -
  have "unat (0 - x) = (if x = 0 then 0 else 2 ^ 64 - unat x)"
    unfolding unat_diff by (simp add: unat_eq_zero)
  moreover have "unat x < 2 ^ 64" using unsigned_less [of x] by simp
  ultimately show ?thesis unfolding top_bit by auto
qed

lemma xor_eq_0_iff_eq_word: "x XOR y = 0 \<longleftrightarrow> x = y" for x y :: "'a::len word"
  by (metis xor.right_neutral xor_self_eq xor.left_commute)

lemma or_eq_0_iff_word: "x OR y = 0 \<longleftrightarrow> x = 0 \<and> y = 0" for x y :: "'a::len word"
  by (auto simp: bit_eq_iff bit_simps)

lemma ucast_scast_id: "ucast (scast (x :: u32) :: u64) = x" "ucast (ucast (x :: u32) :: u64) = x"
  by (rule bit_word_eqI; simp add: bit_simps)+

lemma uminus_bit: "- (if b then 1 else 0 :: u64) = ct_mask b"
  by simp

text \<open>Both variants of the conversion to a condition.\<close>

lemma ct_bool_eq [ct]: "mbedtls_ct_bool x = ct_mask (x \<noteq> 0)"
proof -
  have "bit (- x OR - drop_bit 1 x) 63 \<longleftrightarrow> x \<noteq> 0"
  proof -
    have "unat (drop_bit 1 x) = unat x div 2" unfolding unat_drop_bit_eq by (simp add: drop_bit_eq_div)
    moreover have "unat x < 2 ^ 64" using unsigned_less [of x] by simp
    moreover have "drop_bit 1 x = 0 \<longleftrightarrow> unat x div 2 = 0" using calculation(1) by (metis unat_eq_zero)
    moreover have "x = 0 \<longleftrightarrow> unat x = 0" by (simp add: unat_eq_zero)
    ultimately show ?thesis unfolding bit_or_iff top_bit_uminus by auto
  qed
  then show ?thesis
    unfolding mbedtls_ct_bool_def Let_def mbedtls_ct_compiler_opaque_def drop_bit_top uminus_bit by simp
qed

lemma ct_bool_asm_eq: "mbedtls_ct_bool_asm x = ct_mask (x \<noteq> 0)"
proof -
  have "bit (- x OR x) 63 \<longleftrightarrow> x \<noteq> 0"
    unfolding bit_or_iff top_bit_uminus unfolding top_bit by (auto simp: unat_eq_zero)
  then show ?thesis by (simp add: mbedtls_ct_bool_asm_def Let_def signed_drop_bit_top)
qed

lemma ct_if_eq [ct]: "mbedtls_ct_if (ct_mask b) x y = (if b then x else y)"
  by (simp add: mbedtls_ct_if_def mbedtls_ct_compiler_opaque_def)

text \<open>The sign of \<open>y\<close> when the top bits differ, of the difference when they agree.\<close>

lemma less_top_bit: "x < y \<longleftrightarrow> (if bit x 63 \<noteq> bit y 63 then bit y 63 else bit (x - y) 63)" for x y :: u64
proof -
  have "unat x < 2 ^ 64" "unat y < 2 ^ 64" using unsigned_less [of x] unsigned_less [of y] by simp_all
  then show ?thesis unfolding top_bit unat_diff word_less_nat_alt by auto
qed

lemma ct_uint_lt_eq [ct]: "mbedtls_ct_uint_lt x y = ct_mask (x < y)"
  unfolding mbedtls_ct_uint_lt_def Let_def mbedtls_ct_compiler_opaque_def drop_bit_top ct_bool_eq ct_if_eq less_top_bit [of x y]
  by (simp add: bit_xor_iff)

lemma ct_uint_lt_asm_eq: "mbedtls_ct_uint_lt_x86_64 x y = ct_mask (x < y)" "mbedtls_ct_uint_lt_aarch64 x y = ct_mask (x < y)"
  unfolding mbedtls_ct_uint_lt_x86_64_def mbedtls_ct_uint_lt_aarch64_def Let_def signed_drop_bit_top less_top_bit [of x y]
  by (auto simp: bit_simps)

lemma ct_compare [ct]:
  "mbedtls_ct_uint_ne x y = ct_mask (x \<noteq> y)" "mbedtls_ct_uint_eq x y = ct_mask (x = y)"
  "mbedtls_ct_uint_gt x y = ct_mask (y < x)" "mbedtls_ct_uint_ge x y = ct_mask (y \<le> x)" "mbedtls_ct_uint_le x y = ct_mask (x \<le> y)"
proof -
  show ne: "mbedtls_ct_uint_ne x y = ct_mask (x \<noteq> y)"
    by (simp add: mbedtls_ct_uint_ne_def mbedtls_ct_compiler_opaque_def ct xor_eq_0_iff_eq_word)
  then show "mbedtls_ct_uint_eq x y = ct_mask (x = y)" by (simp add: mbedtls_ct_uint_eq_def ct)
  show "mbedtls_ct_uint_gt x y = ct_mask (y < x)" "mbedtls_ct_uint_ge x y = ct_mask (y \<le> x)" "mbedtls_ct_uint_le x y = ct_mask (x \<le> y)"
    by (simp_all add: mbedtls_ct_uint_gt_def mbedtls_ct_uint_ge_def mbedtls_ct_uint_le_def ct not_less)
qed

lemma ct_select [ct]:
  "mbedtls_ct_size_if (ct_mask b) s t = (if b then s else t)" "mbedtls_ct_bool_if (ct_mask b) c d = (if b then c else d)"
  "mbedtls_ct_uint_if (ct_mask b) u v = (if b then u else v)"
  "mbedtls_ct_size_if_else_0 (ct_mask b) s = (if b then s else 0)" "mbedtls_ct_bool_if_else_0 (ct_mask b) c = (if b then c else 0)"
  "mbedtls_ct_uint_if_else_0 (ct_mask b) u = (if b then u else 0)"
  "mbedtls_ct_error_if (ct_mask b) u v = (if b then u else v)" "mbedtls_ct_error_if_else_0 (ct_mask b) u = (if b then u else 0)"
  "mbedtls_ct_bool_ne (ct_mask a) (ct_mask b) = ct_mask (a \<noteq> b)" "mbedtls_ct_bool_and (ct_mask a) (ct_mask b) = ct_mask (a \<and> b)"
  "mbedtls_ct_bool_or (ct_mask a) (ct_mask b) = ct_mask (a \<or> b)" "mbedtls_ct_bool_not (ct_mask a) = ct_mask (\<not> a)"
  by (simp_all add: mbedtls_ct_size_if_def mbedtls_ct_bool_if_def mbedtls_ct_uint_if_def mbedtls_ct_size_if_else_0_def
      mbedtls_ct_bool_if_else_0_def mbedtls_ct_uint_if_else_0_def mbedtls_ct_error_if_def mbedtls_ct_error_if_else_0_def
      mbedtls_ct_bool_ne_def mbedtls_ct_bool_and_def mbedtls_ct_bool_or_def mbedtls_ct_bool_not_def ct ucast_scast_id)

lemma ucast_u8_u64: "ucast (ucast (x :: u8) :: u64) = x" "ucast (ucast (x :: u8) :: u32) = x"
  by (rule bit_word_eqI; simp add: bit_simps)+

lemma ct_in_range: "mbedtls_ct_uchar_in_range_if low high c t = (if low \<le> c \<and> c \<le> high then t else 0)"
proof -
  have l: "unat (ucast x :: u32) = unat x" "unat x < 256" for x :: u8
  proof -
    show b: "unat x < 256" using unsigned_less [of x] by simp
    show "unat (ucast x :: u32) = unat x" by (simp add: unsigned_ucast_eq take_bit_nat_eq_self_iff b [THEN less_trans])
  qed
  have sub: "ucast (NOT (drop_bit 8 ((ucast x :: u32) - ucast y))) = (if y \<le> x then - 1 else 0 :: u8)" for x y :: u8
  proof -
    have d: "drop_bit 8 w = (word_of_nat (unat w div 256) :: u32)" for w :: u32
    proof (rule word_unat_eq_iff [THEN iffD2])
      have "unat w div 256 < 2 ^ LENGTH(32)" by (rule order_le_less_trans [OF div_le_dividend unsigned_less])
      then have "take_bit LENGTH(32) (unat w div 256) = unat w div 256" by (rule take_bit_nat_eq_self)
      moreover have "drop_bit 8 (unat w) = unat w div 256" by (simp add: drop_bit_eq_div)
      ultimately show "unat (drop_bit 8 w) = unat (word_of_nat (unat w div 256) :: u32)"
        unfolding unat_drop_bit_eq unsigned_of_nat by simp
    qed
    have u: "unat ((ucast x :: u32) - ucast y) = (if unat y \<le> unat x then unat x - unat y else unat x + 2 ^ 32 - unat y)"
      by (simp add: unat_sub_if_size word_size l(1))
    show ?thesis
    proof (cases "y \<le> x")
      case True
      then have "unat ((ucast x :: u32) - ucast y) div 256 = 0" using u l(2) [of x] by (simp add: word_le_nat_alt)
      moreover have "ucast (- 1 :: u32) = (- 1 :: u8)" by (rule bit_word_eqI) (simp add: bit_simps)
      ultimately show ?thesis using True by (simp add: d)
    next
      case False
      then have "unat ((ucast x :: u32) - ucast y) = 256 * (2 ^ 24 - 1) + (256 + unat x - unat y)" "256 + unat x - unat y < 256"
        using u l(2) [of y] by (auto simp: word_le_nat_alt)
      then have "unat ((ucast x :: u32) - ucast y) div 256 = 2 ^ 24 - 1" by simp
      then show ?thesis using False by (simp add: d)
    qed
  qed
  have "(ucast (NOT (a OR b)) :: u8) = ucast (NOT a) AND ucast (NOT b)" for a b :: u32
    by (rule bit_word_eqI) (auto simp: bit_simps)
  then show ?thesis
    unfolding mbedtls_ct_uchar_in_range_if_def Let_def mbedtls_ct_compiler_opaque_def
    by (simp add: sub ucast_u8_u64)
qed

section \<open>Buffers\<close>

text \<open>
  The loop over the first \<open>n\<close> bytes; the reading by words of the ARM builds accumulates the same
  difference. The result is the \<open>int\<close> that the function returns.
\<close>

definition ct_diff :: "bytes \<Rightarrow> bytes \<Rightarrow> nat \<Rightarrow> u32" where
  "ct_diff A B n = fold (\<lambda>i diff. diff OR ucast (A ! i XOR B ! i)) [0..<n] 0"

definition mbedtls_ct_memcmp :: "bytes \<Rightarrow> bytes \<Rightarrow> nat \<Rightarrow> int" where
  "mbedtls_ct_memcmp A B n = (let diff = ct_diff A B n in sint ((diff AND 0xffff) OR drop_bit 16 diff))"

definition mbedtls_ct_memcmp_partial :: "bytes \<Rightarrow> bytes \<Rightarrow> nat \<Rightarrow> nat \<Rightarrow> nat \<Rightarrow> int" where
  "mbedtls_ct_memcmp_partial A B n skip_head skip_tail =
    (let valid_end = (word_of_nat n - word_of_nat skip_tail :: u64);
         diff = fold (\<lambda>i diff.
           let d = (ucast (A ! i XOR B ! i) :: u32);
               valid = mbedtls_ct_bool_and (mbedtls_ct_uint_ge (word_of_nat i) (word_of_nat skip_head))
                         (mbedtls_ct_uint_lt (word_of_nat i) valid_end)
           in diff OR mbedtls_ct_uint_if_else_0 valid d) [0..<n] 0
     in sint diff)"

text \<open>One pass of the outer loop of \<open>mbedtls_ct_memmove_left\<close>; the buffer has \<open>len\<close> bytes.\<close>

definition ct_shift_pass :: "nat \<Rightarrow> ct_condition \<Rightarrow> bytes \<Rightarrow> bytes" where
  "ct_shift_pass len no_op buf =
    (let buf = fold (\<lambda>n buf.
           let current = buf ! n; next = buf ! (n + 1)
           in buf[n := ucast (mbedtls_ct_uint_if no_op (ucast current) (ucast next))]) [0..<len - 1] buf
     in buf[len - 1 := ucast (mbedtls_ct_uint_if_else_0 no_op (ucast (buf ! (len - 1))))])"

definition mbedtls_ct_memmove_left :: "bytes \<Rightarrow> nat \<Rightarrow> nat \<Rightarrow> bytes" where
  "mbedtls_ct_memmove_left buf len offset =
    fold (\<lambda>i buf. ct_shift_pass len (mbedtls_ct_uint_gt (word_of_nat len - word_of_nat offset) (word_of_nat i)) buf)
      [0..<len] buf"

definition put_uint64_le :: "u64 \<Rightarrow> bytes" where
  "put_uint64_le x = [mbedtls_byte 0 x, mbedtls_byte 1 x, mbedtls_byte 2 x, mbedtls_byte 3 x,
     mbedtls_byte 4 x, mbedtls_byte 5 x, mbedtls_byte 6 x, mbedtls_byte 7 x]"

text \<open>
  The copy of \<open>len\<close> bytes by words of eight and then by single bytes; \<open>None\<close> is a null \<open>src2\<close>,
  which stands for \<open>dest\<close>.
\<close>

definition ct_select_bytes :: "ct_condition \<Rightarrow> bytes \<Rightarrow> bytes \<Rightarrow> bytes" where
  "ct_select_bytes condition src1 src2 =
    (let mask = condition; not_mask = NOT (mbedtls_ct_compiler_opaque condition);
         words = concat (map (\<lambda>k. put_uint64_le ((get_uint64_le src1 (8 * k) AND mask) OR (get_uint64_le src2 (8 * k) AND not_mask)))
           [0..<length src1 div 8]);
         rest = map (\<lambda>i. ucast ((ucast (src1 ! i) AND mask) OR (ucast (src2 ! i) AND not_mask)))
           [8 * (length src1 div 8)..<length src1]
     in words @ rest)"

definition mbedtls_ct_memcpy_if :: "ct_condition \<Rightarrow> bytes \<Rightarrow> bytes \<Rightarrow> bytes option \<Rightarrow> nat \<Rightarrow> bytes" where
  "mbedtls_ct_memcpy_if condition dest src1 src2 len =
    (let src2 = (case src2 of None \<Rightarrow> dest | Some s \<Rightarrow> s)
     in ct_select_bytes condition (take len src1) (take len src2) @ drop len dest)"

definition mbedtls_ct_memcpy_offset :: "bytes \<Rightarrow> bytes \<Rightarrow> nat \<Rightarrow> nat \<Rightarrow> nat \<Rightarrow> nat \<Rightarrow> bytes" where
  "mbedtls_ct_memcpy_offset dest src offset offset_min offset_max len =
    fold (\<lambda>offsetval dest.
      mbedtls_ct_memcpy_if (mbedtls_ct_uint_eq (word_of_nat offsetval) (word_of_nat offset)) dest (drop offsetval src) None len)
      [offset_min..<offset_max + 1] dest"

definition mbedtls_ct_zeroize_if :: "ct_condition \<Rightarrow> bytes \<Rightarrow> nat \<Rightarrow> bytes" where
  "mbedtls_ct_zeroize_if condition buf len =
    (let mask = (ucast (NOT condition) :: u32);
         words = concat (map (\<lambda>k. put_uint32_le (get_uint32_le buf (4 * k) AND mask)) [0..<len div 4]);
         rest = map (\<lambda>i. ucast (ucast (buf ! i) AND mask)) [4 * (len div 4)..<len]
     in words @ rest @ drop len buf)"

section \<open>What the buffer functions compute\<close>

lemma ucast_u8_zero: "ucast x = (0 :: u32) \<longleftrightarrow> x = 0" for x :: u8
proof
  assume "ucast x = (0 :: u32)"
  then have "ucast (ucast x :: u32) = (0 :: u8)" by simp
  moreover have "ucast (ucast x :: u32) = x" by (rule bit_word_eqI) (simp add: bit_simps)
  ultimately show "x = 0" by simp
qed simp

lemma ct_diff_zero: "ct_diff A B n = 0 \<longleftrightarrow> (\<forall>i<n. A ! i = B ! i)"
proof (induction n)
  case (Suc n)
  have "ct_diff A B (Suc n) = ct_diff A B n OR ucast (A ! n XOR B ! n)" by (simp add: ct_diff_def)
  moreover have "ucast (x XOR y) = (0 :: u32) \<longleftrightarrow> x = y" for x y :: u8
    by (metis xor_eq_0_iff_eq_word ucast_u8_zero)
  ultimately show ?case using Suc by (simp add: or_eq_0_iff_word less_Suc_eq) blast
qed (simp add: ct_diff_def)

lemma sint_eq_0: "sint w = 0 \<longleftrightarrow> w = 0" for w :: "'a::len word"
  by (metis signed_0 signed_word_eqI)

lemma ct_memcmp_zero: "mbedtls_ct_memcmp A B n = 0 \<longleftrightarrow> (\<forall>i<n. A ! i = B ! i)"
proof -
  let ?d = "ct_diff A B n"
  have "(?d AND 0xffff) OR drop_bit 16 ?d = 0 \<longleftrightarrow> ?d = 0"
  proof
    assume a: "(?d AND 0xffff) OR drop_bit 16 ?d = 0"
    then have l: "?d AND mask 16 = 0" and h: "drop_bit 16 ?d = 0" by (simp_all add: or_eq_0_iff_word mask_eq_exp_minus_1)
    show "?d = 0"
    proof (rule bit_word_eqI)
      fix n assume n: "n < LENGTH(32)"
      show "bit ?d n = bit 0 n"
      proof (cases "n < 16")
        case True
        moreover have "\<not> bit (?d AND mask 16) n" using l by simp
        ultimately show ?thesis by (simp add: bit_and_iff bit_mask_iff del: mask_numeral)
      next
        case False
        then have "bit (drop_bit 16 ?d) (n - 16) = bit ?d n" by (simp add: bit_simps)
        then show ?thesis using h by simp
      qed
    qed
  qed simp
  then show ?thesis unfolding mbedtls_ct_memcmp_def Let_def ct_diff_zero [symmetric] sint_eq_0 by simp
qed

text \<open>Comparisons of sizes.\<close>

lemma ct_nat_compare:
  assumes "i < 2 ^ 64" "n < 2 ^ 64"
  shows "mbedtls_ct_uint_ge (word_of_nat i) (word_of_nat n) = ct_mask (n \<le> i)"
    "mbedtls_ct_uint_eq (word_of_nat i) (word_of_nat n) = ct_mask (i = n)"
    "s \<le> n \<Longrightarrow> mbedtls_ct_uint_lt (word_of_nat i) (word_of_nat n - word_of_nat s) = ct_mask (i < n - s)"
    "s \<le> n \<Longrightarrow> mbedtls_ct_uint_gt (word_of_nat n - word_of_nat s) (word_of_nat i) = ct_mask (i < n - s)"
proof -
  have u: "unat (word_of_nat k :: u64) = k" if "k < 2 ^ 64" for k
    using that by (simp add: unsigned_of_nat take_bit_nat_eq_self)
  show "mbedtls_ct_uint_ge (word_of_nat i) (word_of_nat n) = ct_mask (n \<le> i)"
    "mbedtls_ct_uint_eq (word_of_nat i) (word_of_nat n) = ct_mask (i = n)"
    using u [OF assms(1)] u [OF assms(2)] by (simp_all add: ct word_le_nat_alt word_unat_eq_iff)
  assume s: "s \<le> n"
  then have d: "word_of_nat n - word_of_nat s = (word_of_nat (n - s) :: u64)" by (simp only: of_nat_diff)
  have "unat (word_of_nat (n - s) :: u64) = n - s" using assms(2) by (intro u) simp
  then show "mbedtls_ct_uint_lt (word_of_nat i) (word_of_nat n - word_of_nat s) = ct_mask (i < n - s)"
    "mbedtls_ct_uint_gt (word_of_nat n - word_of_nat s) (word_of_nat i) = ct_mask (i < n - s)"
    unfolding d using u [OF assms(1)] by (simp_all only: ct word_less_nat_alt)
qed

lemma ct_memcmp_partial_zero:
  assumes "n < 2 ^ 64" "skip_head < 2 ^ 64" "skip_tail \<le> n"
  shows "mbedtls_ct_memcmp_partial A B n skip_head skip_tail = 0 \<longleftrightarrow>
    (\<forall>i. skip_head \<le> i \<and> i < n - skip_tail \<longrightarrow> A ! i = B ! i)"
proof -
  let ?step = "\<lambda>i diff. diff OR (if skip_head \<le> i \<and> i < n - skip_tail then ucast (A ! i XOR B ! i) else 0 :: u32)"
  have "mbedtls_ct_memcmp_partial A B n skip_head skip_tail = sint (fold ?step [0..<n] 0)"
    unfolding mbedtls_ct_memcmp_partial_def Let_def
    by (intro arg_cong [of _ _ sint] fold_cong) (use assms in \<open>auto simp: ct_nat_compare ct(13-)\<close>)
  moreover have "fold ?step [0..<k] 0 = 0 \<longleftrightarrow> (\<forall>i<k. skip_head \<le> i \<and> i < n - skip_tail \<longrightarrow> A ! i = B ! i)" for k
  proof (induction k)
    case (Suc k)
    have "ucast (x XOR y) = (0 :: u32) \<longleftrightarrow> x = y" for x y :: u8
      by (metis xor_eq_0_iff_eq_word ucast_u8_zero)
    then show ?case using Suc by (auto simp: or_eq_0_iff_word less_Suc_eq)
  qed simp
  ultimately have "mbedtls_ct_memcmp_partial A B n skip_head skip_tail = 0 \<longleftrightarrow>
      (\<forall>i<n. skip_head \<le> i \<and> i < n - skip_tail \<longrightarrow> A ! i = B ! i)" by (simp only: sint_eq_0)
  then show ?thesis using less_imp_diff_less less_le_trans [OF _ diff_le_self] by blast
qed

text \<open>A pass keeps the buffer or moves it one byte to the left.\<close>

lemma ct_shift_pass_eq:
  assumes "length buf = n" "0 < n"
  shows "ct_shift_pass n (ct_mask no_op) buf = (if no_op then buf else tl buf @ [0])"
proof -
  let ?f = "\<lambda>i buf. buf[i := if no_op then buf ! i else buf ! (i + 1)]"
  have u: "ucast (mbedtls_ct_uint_if (ct_mask no_op) (ucast (x :: u8)) (ucast y)) = (if no_op then x else y)" for x y
    by (simp add: ct ucast_u8_u64)
  have loop: "fold ?f [0..<k] buf = (if no_op then buf else take k (tl buf) @ drop k buf)" if "k < n" for k
    using that
  proof (induction k)
    case 0
    then show ?case by simp
  next
    case (Suc k)
    show ?case
    proof (cases no_op)
      case True
      then show ?thesis using Suc by simp
    next
      case False
      have l: "length (take k (tl buf)) = k" "drop k buf = buf ! k # drop (Suc k) buf" "k < length (tl buf)"
        using Suc.prems assms(1) by (simp_all add: Cons_nth_drop_Suc)
      have "fold ?f [0..<Suc k] buf = ?f k (take k (tl buf) @ drop k buf)" using Suc False by simp
      also have "\<dots> = take k (tl buf) @ tl buf ! k # drop (Suc k) buf"
        using False l Suc.prems assms(1) by (simp add: list_update_append nth_append nth_tl)
      also have "\<dots> = take (Suc k) (tl buf) @ drop (Suc k) buf" using l(3) by (simp add: take_Suc_conv_app_nth)
      finally show ?thesis using False by simp
    qed
  qed
  have "ct_shift_pass n (ct_mask no_op) buf = (fold ?f [0..<n - 1] buf)[n - 1 := if no_op then fold ?f [0..<n - 1] buf ! (n - 1) else 0]"
    unfolding ct_shift_pass_def Let_def u by (simp add: ct ucast_u8_u64)
  also have "\<dots> = (if no_op then buf else tl buf @ [0])"
  proof (cases no_op)
    case True
    then show ?thesis using loop [of "n - 1"] assms by simp
  next
    case False
    have "take (n - 1) (tl buf) = tl buf" "drop (n - 1) buf = [buf ! (n - 1)]"
      using assms Cons_nth_drop_Suc [of "n - 1" buf] by simp_all
    then show ?thesis using loop [of "n - 1"] False assms by (simp add: list_update_append)
  qed
  finally show ?thesis .
qed

lemma ct_memmove_left_eq:
  assumes "length buf = n" "offset \<le> n" "n < 2 ^ 64"
  shows "mbedtls_ct_memmove_left buf n offset = drop offset buf @ replicate offset 0"
proof -
  let ?f = "\<lambda>i buf. ct_shift_pass n (ct_mask (i < n - offset)) buf"
  have "mbedtls_ct_memmove_left buf n offset = fold ?f [0..<n] buf"
    unfolding mbedtls_ct_memmove_left_def by (rule fold_cong) (use assms in \<open>simp_all add: ct_nat_compare\<close>)
  moreover have "fold ?f [0..<k] buf = drop (k - (n - offset)) buf @ replicate (k - (n - offset)) 0" if "k \<le> n" for k
    using that
  proof (induction k)
    case 0
    then show ?case using assms by simp
  next
    case (Suc k)
    let ?m = "k - (n - offset)"
    have ih: "fold ?f [0..<Suc k] buf = ?f k (drop ?m buf @ replicate ?m 0)" using Suc by simp
    have l: "length (drop ?m buf @ replicate ?m 0) = n" "0 < n" using Suc.prems assms by simp_all
    show ?case
    proof (cases "k < n - offset")
      case True
      then have m: "Suc k - (n - offset) = 0" "?m = 0" by simp_all
      show ?thesis unfolding ih m(1) using ct_shift_pass_eq [OF l, of True] True unfolding m(2) by simp
    next
      case False
      then have m: "Suc k - (n - offset) = Suc ?m" "?m < length buf" using Suc.prems assms by simp_all
      have "drop ?m buf = buf ! ?m # drop (Suc ?m) buf" using m(2) by (simp add: Cons_nth_drop_Suc)
      then show ?thesis unfolding ih m(1) using ct_shift_pass_eq [OF l, of False] False
        by (simp add: replicate_append_same)
    qed
  qed
  ultimately show ?thesis using assms(2) by simp
qed

text \<open>The copies by words.\<close>

lemma concat_words:
  assumes "\<And>j. j < q \<Longrightarrow> f j = take k (drop (k * j) xs)"
  shows "concat (map f [0..<q]) = take (k * q) xs"
  using assms
proof (induction q)
  case (Suc q)
  then show ?case by (simp add: take_add [symmetric] add.commute)
qed simp

lemma bit_byte: "8 \<le> n \<Longrightarrow> \<not> bit (x :: u8) n"
  by (auto dest: bit_imp_le_length)

lemma byte_get_uint64_le:
  "mbedtls_byte 0 (get_uint64_le b i) = b ! i" "mbedtls_byte 1 (get_uint64_le b i) = b ! (i + 1)"
  "mbedtls_byte 2 (get_uint64_le b i) = b ! (i + 2)" "mbedtls_byte 3 (get_uint64_le b i) = b ! (i + 3)"
  "mbedtls_byte 4 (get_uint64_le b i) = b ! (i + 4)" "mbedtls_byte 5 (get_uint64_le b i) = b ! (i + 5)"
  "mbedtls_byte 6 (get_uint64_le b i) = b ! (i + 6)" "mbedtls_byte 7 (get_uint64_le b i) = b ! (i + 7)"
  by (rule bit_word_eqI, simp add: bit_mbedtls_byte get_uint64_le_def bit_simps bit_byte)+

lemma byte_get_uint32_le:
  "mbedtls_byte 0 (get_uint32_le b i) = b ! i" "mbedtls_byte 1 (get_uint32_le b i) = b ! (i + 1)"
  "mbedtls_byte 2 (get_uint32_le b i) = b ! (i + 2)" "mbedtls_byte 3 (get_uint32_le b i) = b ! (i + 3)"
  by (rule bit_word_eqI, simp add: bit_mbedtls_byte get_uint32_le_def bit_simps bit_byte)+

lemma take_drop_map: "i + k \<le> length b \<Longrightarrow> take k (drop i b) = map (\<lambda>j. b ! (i + j)) [0..<k]"
  by (rule nth_equalityI) simp_all

lemma upt_words: "[0..<4] = [0, 1, 2, 3]" "[0..<8] = [0, 1, 2, 3, 4, 5, 6, 7]"
  by code_simp+

lemma put_get_uint64_le: "i + 8 \<le> length b \<Longrightarrow> put_uint64_le (get_uint64_le b i) = take 8 (drop i b)"
  by (simp add: put_uint64_le_def byte_get_uint64_le take_drop_map upt_words del: upt_rec_numeral One_nat_def)

lemma put_get_uint32_le: "i + 4 \<le> length b \<Longrightarrow> put_uint32_le (get_uint32_le b i) = take 4 (drop i b)"
  by (simp add: put_uint32_le_def byte_get_uint32_le take_drop_map upt_words del: upt_rec_numeral One_nat_def)

lemma ct_select_bytes_eq:
  assumes "length a = length b"
  shows "ct_select_bytes (ct_mask c) a b = (if c then a else b)"
proof -
  let ?x = "if c then a else b" and ?q = "length a div 8"
  have q: "8 * j + 8 \<le> length ?x" if "j < ?q" for j using that assms by auto
  have "concat (map (\<lambda>k. put_uint64_le ((get_uint64_le a (8 * k) AND ct_mask c) OR (get_uint64_le b (8 * k) AND NOT (ct_mask c)))) [0..<?q])
    = take (8 * ?q) ?x"
    by (rule concat_words) (cases c; use q put_get_uint64_le [of _ ?x] in simp)
  moreover have "map (\<lambda>i. ucast ((ucast (a ! i) AND ct_mask c) OR (ucast (b ! i) AND NOT (ct_mask c)))) [8 * ?q..<length a] = drop (8 * ?q) ?x"
    by (rule nth_equalityI) (use assms in \<open>auto simp: ct_mask_def ucast_u8_u64\<close>)
  ultimately show ?thesis unfolding ct_select_bytes_def Let_def mbedtls_ct_compiler_opaque_def by simp
qed

lemma ct_memcpy_if_eq:
  assumes "len \<le> length src1" "len \<le> length dest" "\<And>s. src2 = Some s \<Longrightarrow> len \<le> length s"
  shows "mbedtls_ct_memcpy_if (ct_mask c) dest src1 src2 len =
    take len (if c then src1 else case src2 of None \<Rightarrow> dest | Some s \<Rightarrow> s) @ drop len dest"
proof -
  have "length (take len src1) = length (take len (case src2 of None \<Rightarrow> dest | Some s \<Rightarrow> s))"
    using assms by (simp split: option.splits)
  from ct_select_bytes_eq [OF this, of c] show ?thesis unfolding mbedtls_ct_memcpy_if_def Let_def by simp
qed

lemma ct_memcpy_offset_eq:
  assumes "offset_max + len \<le> length src" "length dest = len" "offset < 2 ^ 64" "offset_max < 2 ^ 64 - 1"
  shows "mbedtls_ct_memcpy_offset dest src offset offset_min offset_max len =
    (if offset_min \<le> offset \<and> offset \<le> offset_max then take len (drop offset src) else dest)"
proof -
  let ?f = "\<lambda>v d. if v = offset then take len (drop v src) else d"
  have loop: "fold (\<lambda>v d. mbedtls_ct_memcpy_if (mbedtls_ct_uint_eq (word_of_nat v) (word_of_nat offset)) d (drop v src) None len) vs d = fold ?f vs d"
    if "\<forall>v\<in>set vs. v \<le> offset_max" "length d = len" for vs d
    using that
  proof (induction vs arbitrary: d)
    case (Cons v vs)
    have "mbedtls_ct_memcpy_if (mbedtls_ct_uint_eq (word_of_nat v) (word_of_nat offset)) d (drop v src) None len = ?f v d"
    proof -
      have "len \<le> length (drop v src)" using Cons.prems(1) assms(1) by (simp add: le_diff_conv2)
      moreover have "v < 2 ^ 64" using Cons.prems(1) assms(4) by simp
      ultimately show ?thesis using Cons.prems(2) assms(3) ct_memcpy_if_eq [of len "drop v src" d None "v = offset"]
        by (cases "v = offset") (simp_all add: ct_nat_compare del: ct_mask_simps)
    qed
    moreover have "length (?f v d) = len" using Cons.prems assms(1) by auto
    ultimately show ?case using Cons.IH [of "?f v d"] Cons.prems(1) by simp
  qed simp
  have "mbedtls_ct_memcpy_offset dest src offset offset_min offset_max len = fold ?f [offset_min..<offset_max + 1] dest"
    unfolding mbedtls_ct_memcpy_offset_def by (rule loop) (use assms in auto)
  also have "fold ?f vs d = (if offset \<in> set vs then take len (drop offset src) else d)" for vs d
    by (induction vs arbitrary: d) auto
  finally show ?thesis by auto
qed

lemma ct_zeroize_if_eq:
  assumes "len \<le> length buf"
  shows "mbedtls_ct_zeroize_if (ct_mask c) buf len = (if c then replicate len 0 @ drop len buf else buf)"
proof -
  let ?x = "if c then replicate len 0 else take len buf" and ?q = "len div 4"
  have m: "(ucast (NOT (ct_mask c)) :: u32) = (if c then 0 else - 1)"
    by (rule bit_word_eqI) (simp add: bit_simps ct_mask_def)
  have q: "4 * j + 4 \<le> len" if "j < ?q" for j using that by auto
  have z: "put_uint32_le 0 = replicate 4 0" by code_simp
  have "concat (map (\<lambda>k. put_uint32_le (get_uint32_le buf (4 * k) AND (if c then 0 else - 1))) [0..<?q]) = take (4 * ?q) ?x"
  proof (rule concat_words)
    fix j assume "j < ?q"
    then show "put_uint32_le (get_uint32_le buf (4 * j) AND (if c then 0 else - 1)) = take 4 (drop (4 * j) ?x)"
      using q [of j] assms put_get_uint32_le [of "4 * j" buf] z by (auto simp: drop_take min_def)
  qed
  moreover have "map (\<lambda>i. ucast (ucast (buf ! i) AND (if c then 0 else - 1 :: u32))) [4 * ?q..<len] = drop (4 * ?q) ?x"
    by (rule nth_equalityI) (use assms in \<open>auto simp: ucast_u8_u64\<close>)
  ultimately have "mbedtls_ct_zeroize_if (ct_mask c) buf len = take (4 * ?q) ?x @ drop (4 * ?q) ?x @ drop len buf"
    unfolding mbedtls_ct_zeroize_if_def Let_def m by simp
  then show ?thesis unfolding append_assoc [symmetric] append_take_drop_id by simp
qed

lemma ct_memcmp_range:
  assumes "length a = n" "length b = n" "h + t \<le> n" "n < 2 ^ 64"
  shows "mbedtls_ct_memcmp_partial a b n h t = 0 \<longleftrightarrow> take (n - h - t) (drop h a) = take (n - h - t) (drop h b)"
proof -
  have "(\<forall>i. h \<le> i \<and> i < n - t \<longrightarrow> a ! i = b ! i) \<longleftrightarrow> (\<forall>j < n - h - t. a ! (h + j) = b ! (h + j))"
  proof (intro iffI allI impI)
    fix i assume l: "\<forall>j < n - h - t. a ! (h + j) = b ! (h + j)" and i: "h \<le> i \<and> i < n - t"
    then have "i - h < n - h - t" by arith
    with l have "a ! (h + (i - h)) = b ! (h + (i - h))" by blast
    then show "a ! i = b ! i" using i by simp
  qed simp
  also have "\<dots> \<longleftrightarrow> take (n - h - t) (drop h a) = take (n - h - t) (drop h b)"
    using assms(1-3) by (simp add: list_eq_iff_nth_eq)
  finally show ?thesis using assms(3,4) by (simp add: ct_memcmp_partial_zero)
qed

lemma ct_if_asm_eq:
  "mbedtls_ct_if_x86_64 c s t = mbedtls_ct_if c s t" "mbedtls_ct_if_aarch64 c s t = mbedtls_ct_if c s t"
  by (simp_all add: mbedtls_ct_if_x86_64_def mbedtls_ct_if_aarch64_def mbedtls_ct_if_def mbedtls_ct_compiler_opaque_def Let_def
      and.commute or.commute)

section \<open>Properties\<close>

text \<open>C30: the constant-time conditions, comparisons and selections, with 64-bit words, compute what the
ordinary operators compute: a condition is all ones exactly when the comparison of the two numbers
holds, the three primitives that have instruction sequences for x86-64 and AArch64 (the condition of a
value, the selection, the comparison) agree in these with the portable C, a selection returns its
first value when the condition holds and its second (or zero) when it does not, and the range check
returns its value exactly inside the range. The sequences for 32-bit processors are not covered.\<close>

theorem ct_variants_agree:
  "mbedtls_ct_bool x = ct_mask (x \<noteq> 0) \<and> mbedtls_ct_bool_asm x = mbedtls_ct_bool x
    \<and> mbedtls_ct_uint_lt x y = ct_mask (x < y) \<and> mbedtls_ct_uint_lt_x86_64 x y = mbedtls_ct_uint_lt x y
    \<and> mbedtls_ct_uint_lt_aarch64 x y = mbedtls_ct_uint_lt x y
    \<and> mbedtls_ct_uint_eq x y = ct_mask (x = y) \<and> mbedtls_ct_uint_ne x y = ct_mask (x \<noteq> y)
    \<and> mbedtls_ct_uint_ge x y = ct_mask (y \<le> x) \<and> mbedtls_ct_uint_gt x y = ct_mask (y < x) \<and> mbedtls_ct_uint_le x y = ct_mask (x \<le> y)
    \<and> mbedtls_ct_if_x86_64 c s t = mbedtls_ct_if c s t \<and> mbedtls_ct_if_aarch64 c s t = mbedtls_ct_if c s t
    \<and> mbedtls_ct_if (ct_mask b) s t = (if b then s else t)
    \<and> mbedtls_ct_size_if (ct_mask b) s t = (if b then s else t) \<and> mbedtls_ct_size_if_else_0 (ct_mask b) s = (if b then s else 0)
    \<and> mbedtls_ct_uint_if (ct_mask b) u v = (if b then u else v) \<and> mbedtls_ct_uint_if_else_0 (ct_mask b) u = (if b then u else 0)
    \<and> mbedtls_ct_error_if (ct_mask b) u v = (if b then u else v) \<and> mbedtls_ct_error_if_else_0 (ct_mask b) u = (if b then u else 0)
    \<and> mbedtls_ct_uchar_in_range_if low high ch r = (if low \<le> ch \<and> ch \<le> high then r else 0)"
  by (simp only: ct ct_bool_asm_eq ct_uint_lt_asm_eq ct_if_asm_eq ct_in_range simp_thms)

text \<open>C31: the constant-time buffer functions compute what their plain counterparts compute, for
every choice of the secret inputs: the comparisons return 0 exactly when the buffers agree on the
compared bytes, the move to the left drops the first offset bytes and fills with zeros, the
conditional copy and erasure act exactly when the condition holds, and the copy from a secret
offset takes the bytes at that offset when it lies in the allowed range. The lengths and offsets given
are within the buffers.\<close>

theorem ct_buffers_plain:
  assumes "length buf = n" "length other = n" "n < 2 ^ 64" "offset \<le> n" "head + tail \<le> n"
    and "offset_max + len \<le> length src" "length dest = len" "length src < 2 ^ 64 - 1" "secret < 2 ^ 64"
  shows "(mbedtls_ct_memcmp other buf n = 0) = (other = buf)
    \<and> (mbedtls_ct_memcmp_partial other buf n head tail = 0)
      = (take (n - head - tail) (drop head other) = take (n - head - tail) (drop head buf))
    \<and> mbedtls_ct_memmove_left buf n offset = drop offset buf @ replicate offset 0
    \<and> mbedtls_ct_memcpy_if (ct_mask b) dest src None len = (if b then take len src else dest)
    \<and> mbedtls_ct_memcpy_offset dest src secret offset_min offset_max len
      = (if offset_min \<le> secret \<and> secret \<le> offset_max then take len (drop secret src) else dest)
    \<and> mbedtls_ct_zeroize_if (ct_mask b) buf n = (if b then replicate n 0 else buf)"
proof -
  have "(\<forall>i<n. other ! i = buf ! i) \<longleftrightarrow> other = buf" using assms(1,2) by (auto simp: list_eq_iff_nth_eq)
  moreover have "offset_max < 2 ^ 64 - 1" using assms(6,8) by linarith
  ultimately show ?thesis
    using assms ct_memcmp_range [of other n buf head tail] ct_memmove_left_eq [of buf n offset]
      ct_memcpy_if_eq [of len src dest None b]
      ct_memcpy_offset_eq [of offset_max len src dest secret offset_min] ct_zeroize_if_eq [of n buf b]
    by (intro conjI) (simp_all only: ct_memcmp_zero, simp_all del: ct_mask_simps)
qed

theorem ct_buffers_plain_witness:
  "mbedtls_ct_memcpy_offset [9, 9] [1, 2, 3, 4, 5] 2 1 3 2 = [3, 4] \<and> mbedtls_ct_memmove_left [1, 2, 3] 3 1 = [2, 3, 0]"
  using ct_buffers_plain [of "[1, 2, 3]" 3 "[1, 2, 3]" 1 1 1 3 2 "[1, 2, 3, 4, 5]" "[9, 9]" 2 True 1] by simp

end
