(* ===== verification/Hash_Api.thy ===== *)
theory Hash_Api
  imports Hash_Driver Local_Buffers Constant_Time
begin

text \<open>
  The hash functions of the API, core/psa_crypto.c, on top of the dispatch of
  psa_crypto_driver_wrappers.h.jinja with the built-in driver. An operation is active when its
  \<open>id\<close> is not zero. \<open>outcomes\<close> says which of the next allocations succeed; an output argument that
  a function does not write is \<open>None\<close>.
\<close>

section \<open>The operation\<close>

abbreviation PSA_CRYPTO_MBED_TLS_DRIVER_ID :: nat where "PSA_CRYPTO_MBED_TLS_DRIVER_ID \<equiv> 1"
abbreviation PSA_HASH_MAX_SIZE :: nat where "PSA_HASH_MAX_SIZE \<equiv> 64"

record psa_hash_operation =
  hash_id :: nat
  hash_driver :: mbedtls_psa_hash_operation

definition PSA_HASH_OPERATION_INIT :: psa_hash_operation where
  "PSA_HASH_OPERATION_INIT = \<lparr>hash_id = 0, hash_driver = MBEDTLS_PSA_HASH_OPERATION_INIT\<rparr>"

definition is_hash_supported :: "psa_algorithm \<Rightarrow> bool" where
  "is_hash_supported alg \<longleftrightarrow>
     alg \<in> {PSA_ALG_MD5, PSA_ALG_RIPEMD160, PSA_ALG_SHA_1, PSA_ALG_SHA_224, PSA_ALG_SHA_256, PSA_ALG_SHA_384, PSA_ALG_SHA_512,
       PSA_ALG_SHA3_224, PSA_ALG_SHA3_256, PSA_ALG_SHA3_384, PSA_ALG_SHA3_512}"

section \<open>Dispatch to the driver\<close>

definition psa_driver_wrapper_hash_compute :: "psa_algorithm \<Rightarrow> bytes \<Rightarrow> bytes \<Rightarrow> nat \<Rightarrow> psa_status \<times> bytes \<times> nat" where
  "psa_driver_wrapper_hash_compute alg input hash hash_size =
    (let (status, hash, hash_length) = mbedtls_psa_hash_compute alg input hash hash_size
     in if status \<noteq> PSA_ERROR_NOT_SUPPORTED then (status, hash, hash_length)
        else (PSA_ERROR_NOT_SUPPORTED, hash, hash_length))"

definition psa_driver_wrapper_hash_setup :: "psa_hash_operation \<Rightarrow> psa_algorithm \<Rightarrow> psa_status \<times> psa_hash_operation" where
  "psa_driver_wrapper_hash_setup operation alg =
    (let (status, ctx) = mbedtls_psa_hash_setup (hash_driver operation) alg;
         operation = operation\<lparr>hash_driver := ctx\<rparr>;
         operation = (if status = PSA_SUCCESS then operation\<lparr>hash_id := PSA_CRYPTO_MBED_TLS_DRIVER_ID\<rparr> else operation)
     in if status \<noteq> PSA_ERROR_NOT_SUPPORTED then (status, operation) else (PSA_ERROR_NOT_SUPPORTED, operation))"

definition psa_driver_wrapper_hash_clone ::
    "psa_hash_operation \<Rightarrow> psa_hash_operation \<Rightarrow> psa_status \<times> psa_hash_operation" where
  "psa_driver_wrapper_hash_clone source_operation target_operation =
    (if hash_id source_operation = PSA_CRYPTO_MBED_TLS_DRIVER_ID then
       let target_operation = target_operation\<lparr>hash_id := PSA_CRYPTO_MBED_TLS_DRIVER_ID\<rparr>;
           (status, ctx) = mbedtls_psa_hash_clone (hash_driver source_operation) (hash_driver target_operation)
       in (status, target_operation\<lparr>hash_driver := ctx\<rparr>)
     else (PSA_ERROR_BAD_STATE, target_operation))"

definition psa_driver_wrapper_hash_update :: "psa_hash_operation \<Rightarrow> bytes \<Rightarrow> psa_status \<times> psa_hash_operation" where
  "psa_driver_wrapper_hash_update operation input =
    (if hash_id operation = PSA_CRYPTO_MBED_TLS_DRIVER_ID then
       let (status, ctx) = mbedtls_psa_hash_update (hash_driver operation) input
       in (status, operation\<lparr>hash_driver := ctx\<rparr>)
     else (PSA_ERROR_BAD_STATE, operation))"

definition psa_driver_wrapper_hash_finish ::
    "psa_hash_operation \<Rightarrow> bytes \<Rightarrow> nat \<Rightarrow> nat \<Rightarrow> psa_status \<times> psa_hash_operation \<times> bytes \<times> nat" where
  "psa_driver_wrapper_hash_finish operation hash hash_size hash_length =
    (if hash_id operation = PSA_CRYPTO_MBED_TLS_DRIVER_ID then
       let (status, ctx, hash, hash_length) = mbedtls_psa_hash_finish (hash_driver operation) hash hash_size
       in (status, operation\<lparr>hash_driver := ctx\<rparr>, hash, hash_length)
     else (PSA_ERROR_BAD_STATE, operation, hash, hash_length))"

definition psa_driver_wrapper_hash_abort :: "psa_hash_operation \<Rightarrow> psa_status \<times> psa_hash_operation" where
  "psa_driver_wrapper_hash_abort operation =
    (if hash_id operation = PSA_CRYPTO_MBED_TLS_DRIVER_ID then
       let (status, ctx) = mbedtls_psa_hash_abort (hash_driver operation)
       in (status, operation\<lparr>hash_driver := ctx\<rparr>)
     else (PSA_ERROR_BAD_STATE, operation))"

section \<open>The API\<close>

definition psa_hash_abort :: "psa_hash_operation \<Rightarrow> psa_status \<times> psa_hash_operation" where
  "psa_hash_abort operation =
    (if hash_id operation = 0 then (PSA_SUCCESS, operation)
     else
       let (status, operation) = psa_driver_wrapper_hash_abort operation
       in (status, operation\<lparr>hash_id := 0\<rparr>))"

definition psa_hash_setup :: "psa_hash_operation \<Rightarrow> psa_algorithm \<Rightarrow> psa_status \<times> psa_hash_operation" where
  "psa_hash_setup operation alg =
    (let (status, operation) =
       (if hash_id operation \<noteq> 0 then (PSA_ERROR_BAD_STATE, operation)
        else if \<not> PSA_ALG_IS_HASH alg then (PSA_ERROR_INVALID_ARGUMENT, operation)
        else
          let operation = operation\<lparr>hash_driver := MBEDTLS_PSA_HASH_OPERATION_INIT\<rparr>
          in psa_driver_wrapper_hash_setup operation alg)
     in (status, if status \<noteq> PSA_SUCCESS then snd (psa_hash_abort operation) else operation))"

definition psa_hash_update ::
    "psa_hash_operation \<Rightarrow> bytes \<Rightarrow> bool list \<Rightarrow> psa_status \<times> psa_hash_operation \<times> bool list" where
  "psa_hash_update operation input_external outcomes =
    (if hash_id operation = 0 then (PSA_ERROR_BAD_STATE, snd (psa_hash_abort operation), outcomes)
     else if length input_external = 0 then (PSA_SUCCESS, operation, outcomes)
     else
       let (status, li, outcomes) = psa_crypto_local_input_alloc input_external outcomes;
           (status, operation) =
             (if status \<noteq> PSA_SUCCESS then (status, operation)
              else psa_driver_wrapper_hash_update operation (contents (input_buffer li)));
           operation = (if status \<noteq> PSA_SUCCESS then snd (psa_hash_abort operation) else operation)
       in (status, operation, outcomes))"

definition psa_hash_finish_internal ::
    "psa_hash_operation \<Rightarrow> bytes \<Rightarrow> nat \<Rightarrow> psa_status \<times> psa_hash_operation \<times> bytes \<times> nat" where
  "psa_hash_finish_internal operation hash hash_size =
    (let hash_length = 0
     in if hash_id operation = 0 then (PSA_ERROR_BAD_STATE, operation, hash, hash_length)
        else
          let (status, operation, hash, hash_length) = psa_driver_wrapper_hash_finish operation hash hash_size hash_length
          in (status, snd (psa_hash_abort operation), hash, hash_length))"

definition psa_hash_finish ::
    "psa_hash_operation \<Rightarrow> bytes option \<Rightarrow> nat \<Rightarrow> bool list \<Rightarrow>
     psa_status \<times> psa_hash_operation \<times> bytes option \<times> nat option \<times> bool list" where
  "psa_hash_finish operation hash_external hash_size outcomes =
    (let (status, lo, outcomes) = psa_crypto_local_output_alloc hash_external hash_size outcomes;
         (status, operation, lo, hash_length) =
           (if status \<noteq> PSA_SUCCESS then (status, operation, lo, None)
            else
              let (status, operation, hash, hash_length) =
                    psa_hash_finish_internal operation (contents (output_buffer lo)) hash_size
              in (status, operation, if output_buffer lo = None then lo else lo\<lparr>output_buffer := Some hash\<rparr>, Some hash_length));
         (status, hash_external) = LOCAL_OUTPUT_FREE lo hash_external status
     in (status, operation, hash_external, hash_length, outcomes))"

text \<open>\<open>actual_hash\<close> stands for the contents of the array on the stack before the call.\<close>

definition psa_hash_verify ::
    "bytes \<Rightarrow> psa_hash_operation \<Rightarrow> bytes \<Rightarrow> bool list \<Rightarrow> psa_status \<times> psa_hash_operation \<times> bool list" where
  "psa_hash_verify actual_hash operation hash_external outcomes =
    (let (status, operation, actual_hash, actual_hash_length) =
           psa_hash_finish_internal operation actual_hash PSA_HASH_MAX_SIZE;
         (status, outcomes) =
           (if status \<noteq> PSA_SUCCESS then (status, outcomes)
            else if actual_hash_length \<noteq> length hash_external then (PSA_ERROR_INVALID_SIGNATURE, outcomes)
            else
              let (status, li, outcomes) = psa_crypto_local_input_alloc hash_external outcomes
              in if status \<noteq> PSA_SUCCESS then (status, outcomes)
                 else if mbedtls_ct_memcmp (contents (input_buffer li)) actual_hash actual_hash_length \<noteq> 0
                 then (PSA_ERROR_INVALID_SIGNATURE, outcomes)
                 else (status, outcomes));
         operation = (if status \<noteq> PSA_SUCCESS then snd (psa_hash_abort operation) else operation)
     in (status, operation, outcomes))"

definition psa_hash_compute ::
    "psa_algorithm \<Rightarrow> bytes \<Rightarrow> bytes option \<Rightarrow> nat \<Rightarrow> bool list \<Rightarrow>
     psa_status \<times> bytes option \<times> nat \<times> bool list" where
  "psa_hash_compute alg input_external hash_external hash_size outcomes =
    (let hash_length = 0
     in if \<not> PSA_ALG_IS_HASH alg then (PSA_ERROR_INVALID_ARGUMENT, hash_external, hash_length, outcomes)
        else
          let (status, li, outcomes) = psa_crypto_local_input_alloc input_external outcomes
          in if status \<noteq> PSA_SUCCESS
             then (let (status, hash_external) = LOCAL_OUTPUT_FREE PSA_CRYPTO_LOCAL_OUTPUT_INIT hash_external status
                   in (status, hash_external, hash_length, outcomes))
             else
               let (status, lo, outcomes) = psa_crypto_local_output_alloc hash_external hash_size outcomes;
                   (status, lo, hash_length) =
                     (if status \<noteq> PSA_SUCCESS then (status, lo, hash_length)
                      else
                        let (status, hash, hash_length) =
                              psa_driver_wrapper_hash_compute alg (contents (input_buffer li)) (contents (output_buffer lo)) hash_size
                        in (status, if output_buffer lo = None then lo else lo\<lparr>output_buffer := Some hash\<rparr>, hash_length));
                   (status, hash_external) = LOCAL_OUTPUT_FREE lo hash_external status
               in (status, hash_external, hash_length, outcomes))"

definition psa_hash_compare ::
    "bytes \<Rightarrow> psa_algorithm \<Rightarrow> bytes \<Rightarrow> bytes \<Rightarrow> bool list \<Rightarrow> psa_status \<times> bool list" where
  "psa_hash_compare actual_hash alg input_external hash_external outcomes =
    (if \<not> PSA_ALG_IS_HASH alg then (PSA_ERROR_INVALID_ARGUMENT, outcomes)
     else
       let (status, li, outcomes) = psa_crypto_local_input_alloc input_external outcomes
       in if status \<noteq> PSA_SUCCESS then (status, outcomes)
          else
            let (status, actual_hash, actual_hash_length) =
                  psa_driver_wrapper_hash_compute alg (contents (input_buffer li)) actual_hash PSA_HASH_MAX_SIZE
            in if status \<noteq> PSA_SUCCESS then (status, outcomes)
               else if actual_hash_length \<noteq> length hash_external then (PSA_ERROR_INVALID_SIGNATURE, outcomes)
               else
                 let (status, li, outcomes) = psa_crypto_local_input_alloc hash_external outcomes
                 in if status \<noteq> PSA_SUCCESS then (status, outcomes)
                    else if mbedtls_ct_memcmp (contents (input_buffer li)) actual_hash actual_hash_length \<noteq> 0
                    then (PSA_ERROR_INVALID_SIGNATURE, outcomes)
                    else (status, outcomes))"

definition psa_hash_clone ::
    "psa_hash_operation \<Rightarrow> psa_hash_operation \<Rightarrow> psa_status \<times> psa_hash_operation" where
  "psa_hash_clone source_operation target_operation =
    (if hash_id source_operation = 0 \<or> hash_id target_operation \<noteq> 0 then (PSA_ERROR_BAD_STATE, target_operation)
     else
       let target_operation = target_operation\<lparr>hash_driver := MBEDTLS_PSA_HASH_OPERATION_INIT\<rparr>;
           (status, target_operation) = psa_driver_wrapper_hash_clone source_operation target_operation
       in (status, if status \<noteq> PSA_SUCCESS then snd (psa_hash_abort target_operation) else target_operation))"

end
