(* ===== verification/Hash_Streams.thy ===== *)
theory Hash_Streams
  imports Hash_Api
begin

text \<open>
  What a hash module promises to its callers, as a locale: a message fed in pieces gives the digest
  of the whole. Every module satisfies it. On top of it, what the operations of the hash driver and
  of the API do to an operation that has absorbed a message.
\<close>

section \<open>The contract of a hash module\<close>

locale streaming_hash =
  fixes start :: 'c and update :: "'c \<Rightarrow> bytes \<Rightarrow> int \<times> 'c" and finish :: "'c \<Rightarrow> bytes \<Rightarrow> int \<times> 'c \<times> bytes"
    and digest :: "bytes \<Rightarrow> bytes" and len :: nat
  assumes stream: "\<forall>c\<in>set inputs. length c < 2 ^ 32 \<Longrightarrow> len \<le> length out \<Longrightarrow>
      \<exists>ctx zeroed. hash_updates update start inputs = (0, ctx) \<and>
        finish ctx out = (0, zeroed, buffer_put 0 (digest (concat inputs)) out)"
    and length_digest: "length (digest m) = len"
begin

definition fed :: "'c \<Rightarrow> bytes \<Rightarrow> bool" where
  "fed ctx m \<longleftrightarrow> (\<exists>inputs. (\<forall>c\<in>set inputs. length c < 2 ^ 32) \<and> concat inputs = m \<and> hash_updates update start inputs = (0, ctx))"

lemma fed_start: "fed start []"
  unfolding fed_def by (rule exI [of _ "[]"]) simp

lemma fed_update:
  assumes "fed ctx m" "length c < 2 ^ 32"
  obtains ctx' where "update ctx c = (0, ctx')" "fed ctx' (m @ c)"
proof -
  from assms(1) obtain inputs where i: "\<forall>c\<in>set inputs. length c < 2 ^ 32" "concat inputs = m"
    "hash_updates update start inputs = (0, ctx)" unfolding fed_def by blast
  have snoc: "hash_updates update s (xs @ [c]) = (case hash_updates update s xs of (ret, s') \<Rightarrow>
      if ret \<noteq> 0 then (ret, s') else hash_updates update s' [c])" for s xs
    by (induction xs arbitrary: s) (simp_all split: prod.splits)
  have "\<forall>c\<in>set (inputs @ [c]). length c < 2 ^ 32" using i(1) assms(2) by simp
  from stream [OF this, of "replicate len 0"] obtain ctx' where "hash_updates update start (inputs @ [c]) = (0, ctx')" by auto
  moreover have "update ctx c = (0, ctx')" using calculation unfolding snoc i(3) by (simp add: hash_updates_one del: hash_updates.simps)
  moreover have "fed ctx' (m @ c)" unfolding fed_def using calculation(1) i(1,2) assms(2)
    by (intro exI [of _ "inputs @ [c]"]) simp
  ultimately show thesis by (intro that)
qed

lemma fed_finish:
  assumes "fed ctx m" "len \<le> length out"
  obtains zeroed where "finish ctx out = (0, zeroed, digest m @ drop len out)"
proof -
  from assms(1) obtain inputs where i: "\<forall>c\<in>set inputs. length c < 2 ^ 32" "concat inputs = m"
    "hash_updates update start inputs = (0, ctx)" unfolding fed_def by blast
  from stream [OF i(1) assms(2)] i(2,3) obtain zeroed where "finish ctx out = (0, zeroed, buffer_put 0 (digest m) out)" by auto
  then show thesis by (intro that) (simp add: buffer_put_def length_digest)
qed

end

section \<open>The modules keep it\<close>

lemma absorb_invariant:
  assumes "\<And>s d. P s \<Longrightarrow> P (compress s d)" "P s"
  shows "P (absorb B compress s m)"
proof -
  have "(\<And>s d. P s \<Longrightarrow> P (compress s d)) \<Longrightarrow> P s \<Longrightarrow> P (absorb B compress s m)"
  proof (induction B compress s m rule: absorb.induct)
    case (1 B compress s m)
    then show ?case by (subst absorb.simps) auto
  qed
  then show ?thesis using assms by blast
qed

lemma length_md_hash:
  assumes "\<And>s d. length s = n \<Longrightarrow> length (compress s d) = n" "length iv = n"
  shows "length (md_hash B L encode compress iv m) = n"
  unfolding md_hash_def by (rule absorb_invariant [of "\<lambda>s. length s = n"]) (use assms in auto)

lemma length_concat_map: "(\<And>x. length (f x) = k) \<Longrightarrow> length (concat (map f xs)) = k * length xs"
  by (induction xs) simp_all

lemma length_md5_digest: "length (md5_digest m) = 16"
  unfolding md5_digest_def
  by (subst length_concat_map [of _ 4]) (simp_all add: length_md_hash [of 4] length_md5_compress md5_iv_def)

lemma length_ripemd160_digest: "length (ripemd160_digest m) = 20"
  unfolding ripemd160_digest_def
  by (subst length_concat_map [of _ 4]) (simp_all add: length_md_hash [of 5] length_ripemd160_compress ripemd160_iv_def)

lemma length_sha1_digest: "length (sha1_digest m) = 20"
  unfolding sha1_digest_def
  by (subst length_concat_map [of _ 4]) (simp_all add: length_md_hash [of 5] length_sha1_compress sha1_iv_def)

lemma length_sha256_digest: "length (sha256_digest k m) = (if k = 0 then 32 else 28)"
  unfolding sha256_digest_def
  by (subst length_concat_map [of _ 4]) (simp_all add: length_md_hash [of 8] length_sha256_compress length_sha256_iv)

lemma length_sha512_digest: "length (sha512_digest k m) = (if k = 0 then 64 else 48)"
  unfolding sha512_digest_def
  by (subst length_concat_map [of _ 8]) (simp_all add: length_md_hash [of 8] length_sha512_compress length_sha512_iv)

lemma length_sha3_digest: "length (sha3_digest alg m) = sha3_length alg"
  by (simp add: sha3_digest_def sponge_def)

abbreviation "md5_start \<equiv> snd (mbedtls_md5_starts mbedtls_md5_init)"
abbreviation "ripemd160_start \<equiv> snd (mbedtls_ripemd160_starts mbedtls_ripemd160_init)"
abbreviation "sha1_start \<equiv> snd (mbedtls_sha1_starts mbedtls_sha1_init)"
abbreviation "sha256_start k \<equiv> snd (mbedtls_sha256_starts mbedtls_sha256_init k)"
abbreviation "sha512_start k \<equiv> snd (mbedtls_sha512_starts mbedtls_sha512_init k)"

interpretation md5_module: streaming_hash md5_start mbedtls_md5_update mbedtls_md5_finish md5_digest 16
  by unfold_locales (use md5_stream length_md5_digest in blast)+

interpretation ripemd160_module:
  streaming_hash ripemd160_start mbedtls_ripemd160_update mbedtls_ripemd160_finish ripemd160_digest 20
  by unfold_locales (use ripemd160_stream length_ripemd160_digest in blast)+

interpretation sha1_module: streaming_hash sha1_start mbedtls_sha1_update mbedtls_sha1_finish sha1_digest 20
  by unfold_locales (use sha1_stream length_sha1_digest in blast)+

lemma stream_some: "\<exists>ctx. P ctx \<and> Q ctx z \<Longrightarrow> \<exists>ctx zeroed. P ctx \<and> Q ctx zeroed"
  by blast

interpretation sha224_module: streaming_hash "sha256_start 1" mbedtls_sha256_update mbedtls_sha256_finish "sha256_digest 1" 28
  by (unfold_locales, rule stream_some, rule sha256_stream) (auto simp: length_sha256_digest)

interpretation sha256_module: streaming_hash "sha256_start 0" mbedtls_sha256_update mbedtls_sha256_finish "sha256_digest 0" 32
  by (unfold_locales, rule stream_some, rule sha256_stream) (auto simp: length_sha256_digest)

lemma short_piece: "length (c :: bytes) < 2 ^ 32 \<Longrightarrow> length c < 2 ^ 64"
  by simp

interpretation sha384_module: streaming_hash "sha512_start 1" mbedtls_sha512_update mbedtls_sha512_finish "sha512_digest 1" 48
  by (unfold_locales, rule stream_some, rule sha512_stream) (auto simp: length_sha512_digest dest: short_piece)

interpretation sha512_module: streaming_hash "sha512_start 0" mbedtls_sha512_update mbedtls_sha512_finish "sha512_digest 0" 64
  by (unfold_locales, rule stream_some, rule sha512_stream) (auto simp: length_sha512_digest dest: short_piece)

text \<open>A SHA-3 context knows the length of its digest; its finish function also takes the size of the buffer.\<close>

lemma sha3_stream:
  assumes "0 < sha3_length alg" "sha3_length alg \<le> length out"
  shows "\<exists>ctx. hash_updates mbedtls_sha3_update (snd (mbedtls_sha3_starts mbedtls_sha3_init alg)) inputs = (0, ctx) \<and>
    mbedtls_sha3_finish ctx out (length out) = (0, mbedtls_sha3_init, buffer_put 0 (sha3_digest alg (concat inputs)) out)"
proof -
  have "alg \<noteq> MBEDTLS_SHA3_NONE" using assms(1) by auto
  note fresh = sha3_fresh_fields [OF this]
  let ?c = "fold sha3_absorb_byte (concat inputs) (sha3_fresh alg)"
  have "sponge_absorbed ?c (concat inputs)" using absorbed_bytes [OF fresh(2)] by simp
  moreover have "max_block_size ?c = sha3_rate alg" "sha3_olen ?c = sha3_length alg" by (simp_all add: absorb_byte_keeps fresh(3,4))
  ultimately have "mbedtls_sha3_finish ?c out (length out) =
      (0, mbedtls_sha3_init, buffer_put 0 (sha3_digest alg (concat inputs)) out)"
    using sha3_finish_digest [of ?c "concat inputs" "length out" out] assms by (simp add: sha3_digest_def)
  then show ?thesis using sha3_updates_bytes [OF fresh(2), of inputs] fresh(1) [of mbedtls_sha3_init] by simp
qed

abbreviation "sha3_start alg \<equiv> snd (mbedtls_sha3_starts mbedtls_sha3_init alg)"
abbreviation "sha3_finish_all ctx out \<equiv> mbedtls_sha3_finish ctx out (length out)"

interpretation sha3_224_module:
  streaming_hash "sha3_start MBEDTLS_SHA3_224" mbedtls_sha3_update sha3_finish_all "sha3_digest MBEDTLS_SHA3_224" 28
  by (unfold_locales, rule stream_some, rule sha3_stream) (auto simp: length_sha3_digest)

interpretation sha3_256_module:
  streaming_hash "sha3_start MBEDTLS_SHA3_256" mbedtls_sha3_update sha3_finish_all "sha3_digest MBEDTLS_SHA3_256" 32
  by (unfold_locales, rule stream_some, rule sha3_stream) (auto simp: length_sha3_digest)

interpretation sha3_384_module:
  streaming_hash "sha3_start MBEDTLS_SHA3_384" mbedtls_sha3_update sha3_finish_all "sha3_digest MBEDTLS_SHA3_384" 48
  by (unfold_locales, rule stream_some, rule sha3_stream) (auto simp: length_sha3_digest)

interpretation sha3_512_module:
  streaming_hash "sha3_start MBEDTLS_SHA3_512" mbedtls_sha3_update sha3_finish_all "sha3_digest MBEDTLS_SHA3_512" 64
  by (unfold_locales, rule stream_some, rule sha3_stream) (auto simp: length_sha3_digest)

section \<open>The driver\<close>

text \<open>The digest that the standard of each algorithm defines.\<close>

definition hash_standard :: "psa_algorithm \<Rightarrow> bytes \<Rightarrow> bytes" where
  "hash_standard alg m =
    (if alg = PSA_ALG_MD5 then md5_digest m
     else if alg = PSA_ALG_RIPEMD160 then ripemd160_digest m
     else if alg = PSA_ALG_SHA_1 then sha1_digest m
     else if alg = PSA_ALG_SHA_224 then sha256_digest 1 m
     else if alg = PSA_ALG_SHA_256 then sha256_digest 0 m
     else if alg = PSA_ALG_SHA_384 then sha512_digest 1 m
     else if alg = PSA_ALG_SHA_512 then sha512_digest 0 m
     else if alg = PSA_ALG_SHA3_224 then sha3_digest MBEDTLS_SHA3_224 m
     else if alg = PSA_ALG_SHA3_256 then sha3_digest MBEDTLS_SHA3_256 m
     else if alg = PSA_ALG_SHA3_384 then sha3_digest MBEDTLS_SHA3_384 m
     else if alg = PSA_ALG_SHA3_512 then sha3_digest MBEDTLS_SHA3_512 m
     else [])"

text \<open>An operation that has absorbed a message: its algorithm is set and the member of the union that
  belongs to it holds a context fed with the message.\<close>

inductive absorbing :: "psa_algorithm \<Rightarrow> bytes \<Rightarrow> mbedtls_psa_hash_operation \<Rightarrow> bool" where
  md5: "md5_module.fed c m \<Longrightarrow> absorbing PSA_ALG_MD5 m \<lparr>hash_alg = PSA_ALG_MD5, hash_ctx = Ctx_md5 c\<rparr>"
| ripemd160: "ripemd160_module.fed c m \<Longrightarrow> absorbing PSA_ALG_RIPEMD160 m \<lparr>hash_alg = PSA_ALG_RIPEMD160, hash_ctx = Ctx_ripemd160 c\<rparr>"
| sha1: "sha1_module.fed c m \<Longrightarrow> absorbing PSA_ALG_SHA_1 m \<lparr>hash_alg = PSA_ALG_SHA_1, hash_ctx = Ctx_sha1 c\<rparr>"
| sha224: "sha224_module.fed c m \<Longrightarrow> absorbing PSA_ALG_SHA_224 m \<lparr>hash_alg = PSA_ALG_SHA_224, hash_ctx = Ctx_sha256 c\<rparr>"
| sha256: "sha256_module.fed c m \<Longrightarrow> absorbing PSA_ALG_SHA_256 m \<lparr>hash_alg = PSA_ALG_SHA_256, hash_ctx = Ctx_sha256 c\<rparr>"
| sha384: "sha384_module.fed c m \<Longrightarrow> absorbing PSA_ALG_SHA_384 m \<lparr>hash_alg = PSA_ALG_SHA_384, hash_ctx = Ctx_sha512 c\<rparr>"
| sha512: "sha512_module.fed c m \<Longrightarrow> absorbing PSA_ALG_SHA_512 m \<lparr>hash_alg = PSA_ALG_SHA_512, hash_ctx = Ctx_sha512 c\<rparr>"
| sha3_224: "sha3_224_module.fed c m \<Longrightarrow> absorbing PSA_ALG_SHA3_224 m \<lparr>hash_alg = PSA_ALG_SHA3_224, hash_ctx = Ctx_sha3 c\<rparr>"
| sha3_256: "sha3_256_module.fed c m \<Longrightarrow> absorbing PSA_ALG_SHA3_256 m \<lparr>hash_alg = PSA_ALG_SHA3_256, hash_ctx = Ctx_sha3 c\<rparr>"
| sha3_384: "sha3_384_module.fed c m \<Longrightarrow> absorbing PSA_ALG_SHA3_384 m \<lparr>hash_alg = PSA_ALG_SHA3_384, hash_ctx = Ctx_sha3 c\<rparr>"
| sha3_512: "sha3_512_module.fed c m \<Longrightarrow> absorbing PSA_ALG_SHA3_512 m \<lparr>hash_alg = PSA_ALG_SHA3_512, hash_ctx = Ctx_sha3 c\<rparr>"

lemmas union_members = ctx_md5_def ctx_ripemd160_def ctx_sha1_def ctx_sha256_def ctx_sha512_def ctx_sha3_def

text \<open>The algorithm and the member in use agree.\<close>

fun member_algorithms :: "hash_context_union \<Rightarrow> psa_algorithm set" where
  "member_algorithms Ctx_zero = {}"
| "member_algorithms (Ctx_md5 c) = {PSA_ALG_MD5}"
| "member_algorithms (Ctx_ripemd160 c) = {PSA_ALG_RIPEMD160}"
| "member_algorithms (Ctx_sha1 c) = {PSA_ALG_SHA_1}"
| "member_algorithms (Ctx_sha256 c) = {PSA_ALG_SHA_224, PSA_ALG_SHA_256}"
| "member_algorithms (Ctx_sha512 c) = {PSA_ALG_SHA_384, PSA_ALG_SHA_512}"
| "member_algorithms (Ctx_sha3 c) = {PSA_ALG_SHA3_224, PSA_ALG_SHA3_256, PSA_ALG_SHA3_384, PSA_ALG_SHA3_512}"

definition hash_typed :: "mbedtls_psa_hash_operation \<Rightarrow> bool" where
  "hash_typed operation \<longleftrightarrow> hash_alg operation = 0 \<or> hash_alg operation \<in> member_algorithms (hash_ctx operation)"

lemma absorbing_typed: "absorbing alg m operation \<Longrightarrow> hash_typed operation \<and> hash_alg operation = alg \<and> is_hash_supported alg"
  by (induction rule: absorbing.induct) (simp_all add: hash_typed_def is_hash_supported_def)

lemma driver_abort:
  assumes "hash_typed operation"
  shows "\<exists>ctx. mbedtls_psa_hash_abort operation = (PSA_SUCCESS, \<lparr>hash_alg = 0, hash_ctx = ctx\<rparr>)"
  using assms unfolding hash_typed_def
  by (cases operation; cases "hash_ctx operation") (auto simp: mbedtls_psa_hash_abort_def Let_def)

lemma starts_succeed:
  "fst (mbedtls_md5_starts mbedtls_md5_init) = 0" "fst (mbedtls_ripemd160_starts mbedtls_ripemd160_init) = 0"
  "fst (mbedtls_sha1_starts mbedtls_sha1_init) = 0" "k \<in> {0, 1} \<Longrightarrow> fst (mbedtls_sha256_starts mbedtls_sha256_init k) = 0"
  "k \<in> {0, 1} \<Longrightarrow> fst (mbedtls_sha512_starts mbedtls_sha512_init k) = 0"
  "alg \<noteq> MBEDTLS_SHA3_NONE \<Longrightarrow> fst (mbedtls_sha3_starts mbedtls_sha3_init alg) = 0"
  by (auto simp: mbedtls_md5_starts_def mbedtls_ripemd160_starts_def mbedtls_sha1_starts_def mbedtls_sha256_starts_def
      mbedtls_sha512_starts_def mbedtls_sha3_starts_def split: mbedtls_sha3_id.splits)

lemmas absorbing_start = absorbing.md5 [OF md5_module.fed_start] absorbing.ripemd160 [OF ripemd160_module.fed_start] absorbing.sha1 [OF sha1_module.fed_start] absorbing.sha224 [OF sha224_module.fed_start] absorbing.sha256 [OF sha256_module.fed_start] absorbing.sha384 [OF sha384_module.fed_start] absorbing.sha512 [OF sha512_module.fed_start] absorbing.sha3_224 [OF sha3_224_module.fed_start] absorbing.sha3_256 [OF sha3_256_module.fed_start] absorbing.sha3_384 [OF sha3_384_module.fed_start] absorbing.sha3_512 [OF sha3_512_module.fed_start]

lemma driver_setup:
  assumes "is_hash_supported alg" "hash_alg operation = 0"
  shows "\<exists>operation'. mbedtls_psa_hash_setup operation alg = (PSA_SUCCESS, operation') \<and> absorbing alg [] operation'"
  using assms absorbing_start unfolding is_hash_supported_def insert_iff empty_iff
  by (cases operation, elim disjE) (simp_all add: mbedtls_psa_hash_setup_def Let_def split_def starts_succeed)

lemma driver_update:
  assumes "absorbing alg m operation" "length input < 2 ^ 32"
  shows "\<exists>operation'. mbedtls_psa_hash_update operation input = (PSA_SUCCESS, operation') \<and> absorbing alg (m @ input) operation'"
  using assms(1)
proof (cases rule: absorbing.cases)
  case (md5 c)
  then obtain c' where "mbedtls_md5_update c input = (0, c')" "md5_module.fed c' (m @ input)" using md5_module.fed_update [OF _ assms(2)] by blast
  then show ?thesis using md5 absorbing.md5 [of c' "m @ input"] by (simp add: mbedtls_psa_hash_update_def union_members)
next
  case (ripemd160 c)
  then obtain c' where "mbedtls_ripemd160_update c input = (0, c')" "ripemd160_module.fed c' (m @ input)" using ripemd160_module.fed_update [OF _ assms(2)] by blast
  then show ?thesis using ripemd160 absorbing.ripemd160 [of c' "m @ input"] by (simp add: mbedtls_psa_hash_update_def union_members)
next
  case (sha1 c)
  then obtain c' where "mbedtls_sha1_update c input = (0, c')" "sha1_module.fed c' (m @ input)" using sha1_module.fed_update [OF _ assms(2)] by blast
  then show ?thesis using sha1 absorbing.sha1 [of c' "m @ input"] by (simp add: mbedtls_psa_hash_update_def union_members)
next
  case (sha224 c)
  then obtain c' where "mbedtls_sha256_update c input = (0, c')" "sha224_module.fed c' (m @ input)" using sha224_module.fed_update [OF _ assms(2)] by blast
  then show ?thesis using sha224 absorbing.sha224 [of c' "m @ input"] by (simp add: mbedtls_psa_hash_update_def union_members)
next
  case (sha256 c)
  then obtain c' where "mbedtls_sha256_update c input = (0, c')" "sha256_module.fed c' (m @ input)" using sha256_module.fed_update [OF _ assms(2)] by blast
  then show ?thesis using sha256 absorbing.sha256 [of c' "m @ input"] by (simp add: mbedtls_psa_hash_update_def union_members)
next
  case (sha384 c)
  then obtain c' where "mbedtls_sha512_update c input = (0, c')" "sha384_module.fed c' (m @ input)" using sha384_module.fed_update [OF _ assms(2)] by blast
  then show ?thesis using sha384 absorbing.sha384 [of c' "m @ input"] by (simp add: mbedtls_psa_hash_update_def union_members)
next
  case (sha512 c)
  then obtain c' where "mbedtls_sha512_update c input = (0, c')" "sha512_module.fed c' (m @ input)" using sha512_module.fed_update [OF _ assms(2)] by blast
  then show ?thesis using sha512 absorbing.sha512 [of c' "m @ input"] by (simp add: mbedtls_psa_hash_update_def union_members)
next
  case (sha3_224 c)
  then obtain c' where "mbedtls_sha3_update c input = (0, c')" "sha3_224_module.fed c' (m @ input)" using sha3_224_module.fed_update [OF _ assms(2)] by blast
  then show ?thesis using sha3_224 absorbing.sha3_224 [of c' "m @ input"] by (simp add: mbedtls_psa_hash_update_def union_members)
next
  case (sha3_256 c)
  then obtain c' where "mbedtls_sha3_update c input = (0, c')" "sha3_256_module.fed c' (m @ input)" using sha3_256_module.fed_update [OF _ assms(2)] by blast
  then show ?thesis using sha3_256 absorbing.sha3_256 [of c' "m @ input"] by (simp add: mbedtls_psa_hash_update_def union_members)
next
  case (sha3_384 c)
  then obtain c' where "mbedtls_sha3_update c input = (0, c')" "sha3_384_module.fed c' (m @ input)" using sha3_384_module.fed_update [OF _ assms(2)] by blast
  then show ?thesis using sha3_384 absorbing.sha3_384 [of c' "m @ input"] by (simp add: mbedtls_psa_hash_update_def union_members)
next
  case (sha3_512 c)
  then obtain c' where "mbedtls_sha3_update c input = (0, c')" "sha3_512_module.fed c' (m @ input)" using sha3_512_module.fed_update [OF _ assms(2)] by blast
  then show ?thesis using sha3_512 absorbing.sha3_512 [of c' "m @ input"] by (simp add: mbedtls_psa_hash_update_def union_members)
qed

lemma hash_lengths:
  "PSA_HASH_LENGTH PSA_ALG_MD5 = 16"
  "PSA_HASH_LENGTH PSA_ALG_RIPEMD160 = 20"
  "PSA_HASH_LENGTH PSA_ALG_SHA_1 = 20"
  "PSA_HASH_LENGTH PSA_ALG_SHA_224 = 28"
  "PSA_HASH_LENGTH PSA_ALG_SHA_256 = 32"
  "PSA_HASH_LENGTH PSA_ALG_SHA_384 = 48"
  "PSA_HASH_LENGTH PSA_ALG_SHA_512 = 64"
  "PSA_HASH_LENGTH PSA_ALG_SHA3_224 = 28"
  "PSA_HASH_LENGTH PSA_ALG_SHA3_256 = 32"
  "PSA_HASH_LENGTH PSA_ALG_SHA3_384 = 48"
  "PSA_HASH_LENGTH PSA_ALG_SHA3_512 = 64"
  by code_simp+

lemma driver_finish:
  assumes "absorbing alg m operation" "PSA_HASH_LENGTH alg \<le> length hash"
  shows "\<exists>operation'. mbedtls_psa_hash_finish operation hash (length hash) =
      (PSA_SUCCESS, operation', hash_standard alg m @ replicate (length hash - PSA_HASH_LENGTH alg) 0x21, PSA_HASH_LENGTH alg) \<and>
    hash_typed operation' \<and> length (hash_standard alg m) = PSA_HASH_LENGTH alg"
  using assms(1)
proof (cases rule: absorbing.cases)
  case (md5 c)
  note l = hash_lengths(1)
  obtain z where "mbedtls_md5_finish c (replicate (length hash) 0x21) = (0, z, md5_digest m @ replicate (length hash - 16) 0x21)"
    using md5 l assms(2) md5_module.fed_finish [of c m "replicate (length hash) 0x21"] by fastforce
  moreover have "hash \<noteq> []" using l md5 assms(2) by auto
  ultimately show ?thesis using md5 assms(2) l md5_module.length_digest [of m]
    by (simp add: mbedtls_psa_hash_finish_def Let_def union_members hash_standard_def hash_typed_def)
next
  case (ripemd160 c)
  note l = hash_lengths(2)
  obtain z where "mbedtls_ripemd160_finish c (replicate (length hash) 0x21) = (0, z, ripemd160_digest m @ replicate (length hash - 20) 0x21)"
    using ripemd160 l assms(2) ripemd160_module.fed_finish [of c m "replicate (length hash) 0x21"] by fastforce
  moreover have "hash \<noteq> []" using l ripemd160 assms(2) by auto
  ultimately show ?thesis using ripemd160 assms(2) l ripemd160_module.length_digest [of m]
    by (simp add: mbedtls_psa_hash_finish_def Let_def union_members hash_standard_def hash_typed_def)
next
  case (sha1 c)
  note l = hash_lengths(3)
  obtain z where "mbedtls_sha1_finish c (replicate (length hash) 0x21) = (0, z, sha1_digest m @ replicate (length hash - 20) 0x21)"
    using sha1 l assms(2) sha1_module.fed_finish [of c m "replicate (length hash) 0x21"] by fastforce
  moreover have "hash \<noteq> []" using l sha1 assms(2) by auto
  ultimately show ?thesis using sha1 assms(2) l sha1_module.length_digest [of m]
    by (simp add: mbedtls_psa_hash_finish_def Let_def union_members hash_standard_def hash_typed_def)
next
  case (sha224 c)
  note l = hash_lengths(4)
  obtain z where "mbedtls_sha256_finish c (replicate (length hash) 0x21) = (0, z, sha256_digest 1 m @ replicate (length hash - 28) 0x21)"
    using sha224 l assms(2) sha224_module.fed_finish [of c m "replicate (length hash) 0x21"] by fastforce
  moreover have "hash \<noteq> []" using l sha224 assms(2) by auto
  ultimately show ?thesis using sha224 assms(2) l sha224_module.length_digest [of m]
    by (simp add: mbedtls_psa_hash_finish_def Let_def union_members hash_standard_def hash_typed_def)
next
  case (sha256 c)
  note l = hash_lengths(5)
  obtain z where "mbedtls_sha256_finish c (replicate (length hash) 0x21) = (0, z, sha256_digest 0 m @ replicate (length hash - 32) 0x21)"
    using sha256 l assms(2) sha256_module.fed_finish [of c m "replicate (length hash) 0x21"] by fastforce
  moreover have "hash \<noteq> []" using l sha256 assms(2) by auto
  ultimately show ?thesis using sha256 assms(2) l sha256_module.length_digest [of m]
    by (simp add: mbedtls_psa_hash_finish_def Let_def union_members hash_standard_def hash_typed_def)
next
  case (sha384 c)
  note l = hash_lengths(6)
  obtain z where "mbedtls_sha512_finish c (replicate (length hash) 0x21) = (0, z, sha512_digest 1 m @ replicate (length hash - 48) 0x21)"
    using sha384 l assms(2) sha384_module.fed_finish [of c m "replicate (length hash) 0x21"] by fastforce
  moreover have "hash \<noteq> []" using l sha384 assms(2) by auto
  ultimately show ?thesis using sha384 assms(2) l sha384_module.length_digest [of m]
    by (simp add: mbedtls_psa_hash_finish_def Let_def union_members hash_standard_def hash_typed_def)
next
  case (sha512 c)
  note l = hash_lengths(7)
  obtain z where "mbedtls_sha512_finish c (replicate (length hash) 0x21) = (0, z, sha512_digest 0 m @ replicate (length hash - 64) 0x21)"
    using sha512 l assms(2) sha512_module.fed_finish [of c m "replicate (length hash) 0x21"] by fastforce
  moreover have "hash \<noteq> []" using l sha512 assms(2) by auto
  ultimately show ?thesis using sha512 assms(2) l sha512_module.length_digest [of m]
    by (simp add: mbedtls_psa_hash_finish_def Let_def union_members hash_standard_def hash_typed_def)
next
  case (sha3_224 c)
  note l = hash_lengths(8)
  obtain z where "mbedtls_sha3_finish c (replicate (length hash) 0x21) (length hash) = (0, z, sha3_digest MBEDTLS_SHA3_224 m @ replicate (length hash - 28) 0x21)"
    using sha3_224 l assms(2) sha3_224_module.fed_finish [of c m "replicate (length hash) 0x21"] by fastforce
  moreover have "hash \<noteq> []" using l sha3_224 assms(2) by auto
  ultimately show ?thesis using sha3_224 assms(2) l sha3_224_module.length_digest [of m]
    by (simp add: mbedtls_psa_hash_finish_def Let_def union_members hash_standard_def hash_typed_def)
next
  case (sha3_256 c)
  note l = hash_lengths(9)
  obtain z where "mbedtls_sha3_finish c (replicate (length hash) 0x21) (length hash) = (0, z, sha3_digest MBEDTLS_SHA3_256 m @ replicate (length hash - 32) 0x21)"
    using sha3_256 l assms(2) sha3_256_module.fed_finish [of c m "replicate (length hash) 0x21"] by fastforce
  moreover have "hash \<noteq> []" using l sha3_256 assms(2) by auto
  ultimately show ?thesis using sha3_256 assms(2) l sha3_256_module.length_digest [of m]
    by (simp add: mbedtls_psa_hash_finish_def Let_def union_members hash_standard_def hash_typed_def)
next
  case (sha3_384 c)
  note l = hash_lengths(10)
  obtain z where "mbedtls_sha3_finish c (replicate (length hash) 0x21) (length hash) = (0, z, sha3_digest MBEDTLS_SHA3_384 m @ replicate (length hash - 48) 0x21)"
    using sha3_384 l assms(2) sha3_384_module.fed_finish [of c m "replicate (length hash) 0x21"] by fastforce
  moreover have "hash \<noteq> []" using l sha3_384 assms(2) by auto
  ultimately show ?thesis using sha3_384 assms(2) l sha3_384_module.length_digest [of m]
    by (simp add: mbedtls_psa_hash_finish_def Let_def union_members hash_standard_def hash_typed_def)
next
  case (sha3_512 c)
  note l = hash_lengths(11)
  obtain z where "mbedtls_sha3_finish c (replicate (length hash) 0x21) (length hash) = (0, z, sha3_digest MBEDTLS_SHA3_512 m @ replicate (length hash - 64) 0x21)"
    using sha3_512 l assms(2) sha3_512_module.fed_finish [of c m "replicate (length hash) 0x21"] by fastforce
  moreover have "hash \<noteq> []" using l sha3_512 assms(2) by auto
  ultimately show ?thesis using sha3_512 assms(2) l sha3_512_module.length_digest [of m]
    by (simp add: mbedtls_psa_hash_finish_def Let_def union_members hash_standard_def hash_typed_def)
qed

lemma driver_clone:
  assumes "absorbing alg m source"
  shows "mbedtls_psa_hash_clone source target = (PSA_SUCCESS, source)"
  using assms
  by (cases rule: absorbing.cases; cases target)
    (simp_all add: mbedtls_psa_hash_clone_def union_members mbedtls_md5_clone_def mbedtls_ripemd160_clone_def mbedtls_sha1_clone_def
      mbedtls_sha256_clone_def mbedtls_sha512_clone_def mbedtls_sha3_clone_def)

text \<open>The union is typed, whatever a caller does.\<close>

lemma driver_update_typed: "hash_typed operation \<Longrightarrow>
    hash_typed (snd (mbedtls_psa_hash_update operation input)) \<and>
    hash_alg (snd (mbedtls_psa_hash_update operation input)) = hash_alg operation"
  by (auto simp: mbedtls_psa_hash_update_def Let_def hash_typed_def split_def)

lemma driver_finish_typed: "hash_typed operation \<Longrightarrow> hash_typed (fst (snd (mbedtls_psa_hash_finish operation hash n)))"
  by (auto simp: mbedtls_psa_hash_finish_def Let_def hash_typed_def split_def)

lemma driver_clone_typed: "hash_typed source \<Longrightarrow> hash_alg source \<noteq> 0 \<Longrightarrow>
    fst (mbedtls_psa_hash_clone source target) = PSA_SUCCESS \<and>
    hash_typed (snd (mbedtls_psa_hash_clone source target)) \<and> hash_alg (snd (mbedtls_psa_hash_clone source target)) = hash_alg source"
  unfolding mbedtls_psa_hash_clone_def Let_def hash_typed_def
  by (cases "hash_ctx source") auto

section \<open>The API\<close>

definition hash_active :: "psa_algorithm \<Rightarrow> bytes \<Rightarrow> psa_hash_operation \<Rightarrow> bool" where
  "hash_active alg m operation \<longleftrightarrow> hash_id operation = 1 \<and> absorbing alg m (hash_driver operation)"

definition hash_operation_typed :: "psa_hash_operation \<Rightarrow> bool" where
  "hash_operation_typed operation \<longleftrightarrow> hash_id operation = 0 \<or>
    (hash_id operation = 1 \<and> hash_alg (hash_driver operation) \<noteq> 0 \<and> hash_typed (hash_driver operation))"

lemma supported_is_hash: "is_hash_supported alg \<Longrightarrow> PSA_ALG_IS_HASH alg \<and> alg \<noteq> 0"
  by (auto simp: is_hash_supported_def PSA_ALG_IS_HASH_def)

lemma active_typed: "hash_active alg m operation \<Longrightarrow> hash_operation_typed operation"
  using absorbing_typed supported_is_hash by (auto simp: hash_active_def hash_operation_typed_def)

lemma api_abort: "hash_operation_typed operation \<Longrightarrow>
    fst (psa_hash_abort operation) = PSA_SUCCESS \<and> hash_id (snd (psa_hash_abort operation)) = 0"
  using driver_abort [of "hash_driver operation"]
  by (auto simp: hash_operation_typed_def psa_hash_abort_def psa_driver_wrapper_hash_abort_def)

lemma api_abort_inactive [simp]: "hash_id (snd (psa_hash_abort operation)) = 0"
  by (simp add: psa_hash_abort_def split_def Let_def)

lemma api_setup:
  assumes "is_hash_supported alg" "hash_id operation = 0"
  obtains operation' where "psa_hash_setup operation alg = (PSA_SUCCESS, operation')" "hash_active alg [] operation'"
proof -
  obtain ctx where "mbedtls_psa_hash_setup MBEDTLS_PSA_HASH_OPERATION_INIT alg = (PSA_SUCCESS, ctx)" "absorbing alg [] ctx"
    using driver_setup [OF assms(1), of MBEDTLS_PSA_HASH_OPERATION_INIT] by (auto simp: MBEDTLS_PSA_HASH_OPERATION_INIT_def)
  then show thesis using assms(2) supported_is_hash [OF assms(1)]
    by (intro that [of "operation\<lparr>hash_driver := ctx, hash_id := 1\<rparr>"]) (simp_all add: psa_hash_setup_def psa_driver_wrapper_hash_setup_def hash_active_def)
qed

lemma driver_setup_refused:
  "\<not> is_hash_supported alg \<Longrightarrow> PSA_ALG_IS_HASH alg \<Longrightarrow> hash_alg operation = 0 \<Longrightarrow>
   mbedtls_psa_hash_setup operation alg = (PSA_ERROR_NOT_SUPPORTED, operation)"
  by (simp add: is_hash_supported_def mbedtls_psa_hash_setup_def)

lemma api_setup_refused:
  assumes "hash_id operation \<noteq> 0 \<or> \<not> is_hash_supported alg"
  shows "fst (psa_hash_setup operation alg) =
      (if hash_id operation \<noteq> 0 then PSA_ERROR_BAD_STATE else if PSA_ALG_IS_HASH alg then PSA_ERROR_NOT_SUPPORTED
       else PSA_ERROR_INVALID_ARGUMENT) \<and> hash_id (snd (psa_hash_setup operation alg)) = 0"
  using assms driver_setup_refused [of alg MBEDTLS_PSA_HASH_OPERATION_INIT]
  by (auto simp: psa_hash_setup_def psa_driver_wrapper_hash_setup_def MBEDTLS_PSA_HASH_OPERATION_INIT_def)

lemma api_update:
  assumes "hash_active alg m operation" "length input < 2 ^ 32"
  shows "(if input = [] \<or> fst (mbedtls_calloc outcomes)
      then \<exists>operation' outcomes'. psa_hash_update operation input outcomes = (PSA_SUCCESS, operation', outcomes') \<and>
        hash_active alg (m @ input) operation'
      else \<exists>operation' outcomes'. psa_hash_update operation input outcomes = (PSA_ERROR_INSUFFICIENT_MEMORY, operation', outcomes') \<and>
        hash_id operation' = 0)"
proof -
  obtain ctx where "mbedtls_psa_hash_update (hash_driver operation) input = (PSA_SUCCESS, ctx)" "absorbing alg (m @ input) ctx"
    using driver_update assms unfolding hash_active_def by blast
  then show ?thesis using assms(1)
    by (auto simp: psa_hash_update_def hash_active_def local_input_alloc_eq psa_driver_wrapper_hash_update_def split_def)
qed

text \<open>What \<open>psa_hash_finish_internal\<close> leaves in a buffer that is large enough.\<close>

lemma api_finish_internal:
  assumes "hash_active alg m operation" "PSA_HASH_LENGTH alg \<le> length hash"
  obtains operation' where "psa_hash_finish_internal operation hash (length hash) = (PSA_SUCCESS, operation',
      hash_standard alg m @ replicate (length hash - PSA_HASH_LENGTH alg) 0x21, PSA_HASH_LENGTH alg)"
    "hash_id operation' = 0" "length (hash_standard alg m) = PSA_HASH_LENGTH alg"
proof -
  obtain ctx where c: "mbedtls_psa_hash_finish (hash_driver operation) hash (length hash) =
      (PSA_SUCCESS, ctx, hash_standard alg m @ replicate (length hash - PSA_HASH_LENGTH alg) 0x21, PSA_HASH_LENGTH alg)"
      "length (hash_standard alg m) = PSA_HASH_LENGTH alg"
    using driver_finish [OF _ assms(2), of m "hash_driver operation"] assms(1) unfolding hash_active_def by blast
  show thesis using c assms(1)
    by (intro that [of "snd (psa_hash_abort (operation\<lparr>hash_driver := ctx\<rparr>))"])
      (simp_all add: psa_hash_finish_internal_def psa_driver_wrapper_hash_finish_def hash_active_def)
qed

end
