(* ===== verification/Hash_Operations.thy ===== *)
theory Hash_Operations
  imports Hash_Streams
begin

text \<open>
  The properties of the hash API: multipart hashing is the digest of the whole message, verification
  accepts exactly that digest, clones are independent, the context union is always read as it was
  written, and an operation can always be brought back to a state where it can be used.
\<close>

section \<open>Runs of the API\<close>

text \<open>A caller that feeds a message in pieces and stops at the first error.\<close>

fun psa_hash_updates ::
    "psa_hash_operation \<Rightarrow> bytes list \<Rightarrow> bool list \<Rightarrow> psa_status \<times> psa_hash_operation \<times> bool list" where
  "psa_hash_updates operation [] outcomes = (PSA_SUCCESS, operation, outcomes)"
| "psa_hash_updates operation (input # inputs) outcomes =
    (let (status, operation, outcomes) = psa_hash_update operation input outcomes
     in if status \<noteq> PSA_SUCCESS then (status, operation, outcomes) else psa_hash_updates operation inputs outcomes)"

lemma updates_active:
  assumes "hash_active alg m operation" "\<forall>c\<in>set inputs. length c < 2 ^ 32"
  shows "(\<exists>operation' outcomes'. psa_hash_updates operation inputs outcomes = (PSA_SUCCESS, operation', outcomes') \<and>
      hash_active alg (m @ concat inputs) operation') \<or>
    (\<exists>operation' outcomes'. psa_hash_updates operation inputs outcomes = (PSA_ERROR_INSUFFICIENT_MEMORY, operation', outcomes') \<and>
      hash_id operation' = 0)"
  using assms
proof (induction inputs arbitrary: m operation outcomes)
  case (Cons c cs)
  have "length c < 2 ^ 32" using Cons.prems(2) by simp
  from api_update [OF Cons.prems(1) this, of outcomes] consider
      (ok) operation1 outcomes1 where "psa_hash_update operation c outcomes = (PSA_SUCCESS, operation1, outcomes1)"
        "hash_active alg (m @ c) operation1"
    | (memory) operation1 outcomes1 where "psa_hash_update operation c outcomes = (PSA_ERROR_INSUFFICIENT_MEMORY, operation1, outcomes1)"
        "hash_id operation1 = 0"
    by (auto split: if_splits)
  then show ?case
  proof cases
    case ok
    then show ?thesis using Cons.IH [OF ok(2), of outcomes1] Cons.prems(2) by simp
  next
    case memory
    then show ?thesis by simp
  qed
qed simp

lemma updates_with_memory:
  assumes "hash_active alg m operation" "\<forall>c\<in>set inputs. length c < 2 ^ 32"
  shows "\<exists>operation'. psa_hash_updates operation inputs [] = (PSA_SUCCESS, operation', []) \<and>
      hash_active alg (m @ concat inputs) operation'"
  using assms
proof (induction inputs arbitrary: m operation)
  case (Cons c cs)
  have "length c < 2 ^ 32" using Cons.prems(2) by simp
  from api_update [OF Cons.prems(1) this, of "[]"] obtain operation1 outcomes1 where
    1: "psa_hash_update operation c [] = (PSA_SUCCESS, operation1, outcomes1)" "hash_active alg (m @ c) operation1" by auto
  have "outcomes1 = []" using 1(1)
    by (auto simp: psa_hash_update_def local_input_alloc_eq split_def Let_def split: if_splits)
  then show ?case using Cons.IH [OF 1(2)] Cons.prems(2) 1(1) by simp
qed simp

lemma supported_length: "is_hash_supported alg \<Longrightarrow> 0 < PSA_HASH_LENGTH alg \<and> PSA_HASH_LENGTH alg \<le> 64"
  by (auto simp: is_hash_supported_def hash_lengths)

lemma active_supported: "hash_active alg m operation \<Longrightarrow> is_hash_supported alg"
  using absorbing_typed by (auto simp: hash_active_def)

lemma finish_active:
  assumes "hash_active alg m operation" "PSA_HASH_LENGTH alg \<le> length out"
  shows "if fst (mbedtls_calloc outcomes)
     then \<exists>operation'. psa_hash_finish operation (Some out) (length out) outcomes =
         (PSA_SUCCESS, operation', Some (hash_standard alg m @ replicate (length out - PSA_HASH_LENGTH alg) 0x21),
          Some (PSA_HASH_LENGTH alg), snd (mbedtls_calloc outcomes)) \<and> hash_id operation' = 0
     else psa_hash_finish operation (Some out) (length out) outcomes =
         (PSA_ERROR_INSUFFICIENT_MEMORY, operation, Some out, None, snd (mbedtls_calloc outcomes))"
proof -
  let ?d = "hash_standard alg m @ replicate (length out - PSA_HASH_LENGTH alg) 0x21"
  have n: "length out \<noteq> 0" using supported_length [OF active_supported [OF assms(1)]] assms(2) by auto
  from api_finish_internal [OF assms(1), of "replicate (length out) 0"] assms(2) obtain operation' where
    f: "psa_hash_finish_internal operation (replicate (length out) 0) (length out) = (PSA_SUCCESS, operation', ?d, PSA_HASH_LENGTH alg)"
      "hash_id operation' = 0" "length (hash_standard alg m) = PSA_HASH_LENGTH alg" by auto
  have l: "length ?d = length out" using f(3) assms(2) by simp
  from local_output_free_copy [OF l, unfolded l] show ?thesis
    using f n by (simp add: psa_hash_finish_def local_output_alloc_eq)
qed

lemma memcmp_digest:
  assumes "length d = n" "length h = n"
  shows "mbedtls_ct_memcmp h (d @ rest) n = 0 \<longleftrightarrow> h = d"
  using assms by (auto simp: ct_memcmp_zero nth_append list_eq_iff_nth_eq)

lemma verify_active:
  assumes "hash_active alg m operation" "length garbage = 64"
  shows "psa_hash_verify garbage operation hash outcomes =
    (if length hash = PSA_HASH_LENGTH alg \<and> \<not> fst (mbedtls_calloc outcomes) then PSA_ERROR_INSUFFICIENT_MEMORY
     else if hash = hash_standard alg m then PSA_SUCCESS else PSA_ERROR_INVALID_SIGNATURE,
     fst (snd (psa_hash_verify garbage operation hash outcomes)), snd (snd (psa_hash_verify garbage operation hash outcomes))) \<and>
    hash_id (fst (snd (psa_hash_verify garbage operation hash outcomes))) = 0"
proof -
  note l = supported_length [OF active_supported [OF assms(1)]]
  from api_finish_internal [OF assms(1), of garbage] l assms(2) obtain operation' where
    f: "psa_hash_finish_internal operation garbage 64 =
        (PSA_SUCCESS, operation', hash_standard alg m @ replicate (64 - PSA_HASH_LENGTH alg) 0x21, PSA_HASH_LENGTH alg)"
      "hash_id operation' = 0" "length (hash_standard alg m) = PSA_HASH_LENGTH alg" by auto
  show ?thesis
  proof (cases "length hash = PSA_HASH_LENGTH alg")
    case False
    then have "hash \<noteq> hash_standard alg m" using f(3) by auto
    then show ?thesis using f False by (simp add: psa_hash_verify_def)
  next
    case True
    then have "hash \<noteq> []" using l by auto
    then show ?thesis using f True memcmp_digest [OF f(3) True]
      by (simp add: psa_hash_verify_def local_input_alloc_eq)
  qed
qed

text \<open>The one-shot functions.\<close>

lemma driver_compute:
  assumes "is_hash_supported alg" "length input < 2 ^ 32" "PSA_HASH_LENGTH alg \<le> length hash"
  shows "mbedtls_psa_hash_compute alg input hash (length hash) =
      (PSA_SUCCESS, hash_standard alg input @ replicate (length hash - PSA_HASH_LENGTH alg) 0x21, PSA_HASH_LENGTH alg) \<and>
    length (hash_standard alg input) = PSA_HASH_LENGTH alg"
proof -
  obtain op1 where 1: "mbedtls_psa_hash_setup MBEDTLS_PSA_HASH_OPERATION_INIT alg = (PSA_SUCCESS, op1)" "absorbing alg [] op1"
    using driver_setup [OF assms(1), of MBEDTLS_PSA_HASH_OPERATION_INIT] by (auto simp: MBEDTLS_PSA_HASH_OPERATION_INIT_def)
  obtain op2 where 2: "mbedtls_psa_hash_update op1 input = (PSA_SUCCESS, op2)" "absorbing alg input op2"
    using driver_update [OF 1(2) assms(2)] by auto
  obtain op3 where 3: "mbedtls_psa_hash_finish op2 hash (length hash) =
      (PSA_SUCCESS, op3, hash_standard alg input @ replicate (length hash - PSA_HASH_LENGTH alg) 0x21, PSA_HASH_LENGTH alg)"
      "hash_typed op3" "length (hash_standard alg input) = PSA_HASH_LENGTH alg"
    using driver_finish [OF 2(2) assms(3)] by blast
  show ?thesis using 1 2 3 driver_abort [OF 3(2)] by (auto simp: mbedtls_psa_hash_compute_def)
qed

lemma compute_result:
  assumes "is_hash_supported alg" "length input < 2 ^ 32" "PSA_HASH_LENGTH alg \<le> length out"
  shows "psa_hash_compute alg input (Some out) (length out) [] =
    (PSA_SUCCESS, Some (hash_standard alg input @ replicate (length out - PSA_HASH_LENGTH alg) 0x21), PSA_HASH_LENGTH alg, [])"
proof -
  let ?d = "hash_standard alg input @ replicate (length out - PSA_HASH_LENGTH alg) 0x21"
  have n: "length out \<noteq> 0" using supported_length [OF assms(1)] assms(3) by auto
  have c: "mbedtls_psa_hash_compute alg input (replicate (length out) 0) (length out) = (PSA_SUCCESS, ?d, PSA_HASH_LENGTH alg)"
    and l: "length ?d = length out"
    using driver_compute [OF assms(1,2), of "replicate (length out) 0"] assms(3) by simp_all
  have a: "contents (input_buffer li) = input" if "psa_crypto_local_input_alloc input [] = (PSA_SUCCESS, li, oc)" for li oc
    using local_input_contents [OF that] .
  obtain li where li: "psa_crypto_local_input_alloc input [] = (PSA_SUCCESS, li, [])" by (cases "input = []") (auto simp: local_input_alloc_eq)
  show ?thesis using local_output_free_copy [OF l, unfolded l] c n li a [OF li] supported_is_hash [OF assms(1)]
    by (simp add: psa_hash_compute_def psa_driver_wrapper_hash_compute_def local_output_alloc_eq)
qed

lemma compare_result:
  assumes "is_hash_supported alg" "length input < 2 ^ 32" "length garbage = 64"
  shows "fst (psa_hash_compare garbage alg input hash []) =
    (if hash = hash_standard alg input then PSA_SUCCESS else PSA_ERROR_INVALID_SIGNATURE)"
proof -
  note l = supported_length [OF assms(1)]
  obtain li where li: "psa_crypto_local_input_alloc input [] = (PSA_SUCCESS, li, [])" by (cases "input = []") (auto simp: local_input_alloc_eq)
  have c: "mbedtls_psa_hash_compute alg input garbage 64 =
      (PSA_SUCCESS, hash_standard alg input @ replicate (64 - PSA_HASH_LENGTH alg) 0x21, PSA_HASH_LENGTH alg)"
    and d: "length (hash_standard alg input) = PSA_HASH_LENGTH alg"
    using driver_compute [OF assms(1,2), of garbage] l assms(3) by simp_all
  show ?thesis
  proof (cases "length hash = PSA_HASH_LENGTH alg")
    case False
    then have "hash \<noteq> hash_standard alg input" using d by auto
    then show ?thesis using False c li local_input_contents [OF li] supported_is_hash [OF assms(1)]
      by (simp add: psa_hash_compare_def psa_driver_wrapper_hash_compute_def)
  next
    case True
    then have "hash \<noteq> []" using l by auto
    then show ?thesis using True c li local_input_contents [OF li] supported_is_hash [OF assms(1)] memcmp_digest [OF d True]
      by (simp add: psa_hash_compare_def psa_driver_wrapper_hash_compute_def local_input_alloc_eq)
  qed
qed

section \<open>Reachable operations\<close>

inductive hash_reachable :: "psa_hash_operation \<Rightarrow> bool" where
  op_init: "hash_reachable PSA_HASH_OPERATION_INIT"
| op_setup: "hash_reachable operation \<Longrightarrow> hash_reachable (snd (psa_hash_setup operation alg))"
| op_update: "hash_reachable operation \<Longrightarrow> hash_reachable (fst (snd (psa_hash_update operation input outcomes)))"
| op_finish: "hash_reachable operation \<Longrightarrow> hash_reachable (fst (snd (psa_hash_finish operation out n outcomes)))"
| op_verify: "hash_reachable operation \<Longrightarrow> hash_reachable (fst (snd (psa_hash_verify garbage operation hash outcomes)))"
| op_abort: "hash_reachable operation \<Longrightarrow> hash_reachable (snd (psa_hash_abort operation))"
| op_clone: "hash_reachable source \<Longrightarrow> hash_reachable target \<Longrightarrow> hash_reachable (snd (psa_hash_clone source target))"

lemma inactive_typed: "hash_id operation = 0 \<Longrightarrow> hash_operation_typed operation"
  by (simp add: hash_operation_typed_def)

lemma setup_typed: "hash_operation_typed (snd (psa_hash_setup operation alg))"
proof (cases "hash_id operation \<noteq> 0 \<or> \<not> is_hash_supported alg")
  case True
  then show ?thesis using api_setup_refused [OF True] by (simp add: inactive_typed)
next
  case False
  then show ?thesis using api_setup [of alg operation] active_typed by (metis snd_conv)
qed

lemma update_typed:
  assumes "hash_operation_typed operation"
  shows "hash_operation_typed (fst (snd (psa_hash_update operation input outcomes)))"
  using assms driver_update_typed [of "hash_driver operation"]
  by (auto simp: psa_hash_update_def hash_operation_typed_def psa_driver_wrapper_hash_update_def split_def Let_def)

lemma finish_internal_inactive: "hash_id (fst (snd (psa_hash_finish_internal operation hash n))) = 0"
  by (simp add: psa_hash_finish_internal_def split_def Let_def)

lemma finish_cases:
  "hash_id (fst (snd (psa_hash_finish operation out n outcomes))) = 0 \<or>
   (fst (snd (psa_hash_finish operation out n outcomes)) = operation \<and>
    fst (psa_hash_finish operation out n outcomes) = PSA_ERROR_INSUFFICIENT_MEMORY)"
  by (auto simp: finish_internal_inactive psa_hash_finish_def local_output_alloc_eq split_def Let_def)

lemma verify_inactive: "hash_id (fst (snd (psa_hash_verify garbage operation hash outcomes))) = 0"
  using finish_internal_inactive [of operation garbage 64]
  by (simp add: psa_hash_verify_def split_def Let_def)

lemma clone_typed:
  assumes "hash_operation_typed source" "hash_operation_typed target"
  shows "hash_operation_typed (snd (psa_hash_clone source target))"
  using assms driver_clone_typed [of "hash_driver source"]
  by (auto simp: psa_hash_clone_def psa_driver_wrapper_hash_clone_def hash_operation_typed_def split_def Let_def)

lemma clone_outcome:
  assumes "hash_operation_typed source"
  shows "if hash_id source \<noteq> 0 \<and> hash_id target = 0
    then fst (psa_hash_clone source target) = PSA_SUCCESS \<and> hash_id (snd (psa_hash_clone source target)) \<noteq> 0
    else psa_hash_clone source target = (PSA_ERROR_BAD_STATE, target)"
  using assms driver_clone_typed [of "hash_driver source" MBEDTLS_PSA_HASH_OPERATION_INIT]
  by (auto simp: psa_hash_clone_def psa_driver_wrapper_hash_clone_def hash_operation_typed_def split_def Let_def)

lemma reachable_typed: "hash_reachable operation \<Longrightarrow> hash_operation_typed operation"
proof (induction rule: hash_reachable.induct)
  case (op_finish operation out n outcomes)
  then show ?case using finish_cases [of operation out n outcomes] by (auto simp: inactive_typed)
qed (simp_all add: PSA_HASH_OPERATION_INIT_def setup_typed update_typed verify_inactive clone_typed inactive_typed)

lemma typed_member:
  "alg \<in> member_algorithms ctx \<Longrightarrow> is_hash_supported alg"
  by (cases ctx) (auto simp: is_hash_supported_def)

section \<open>Properties\<close>

text \<open>C12: Hashing in several calls through the API, for each of the eleven algorithms: on an inactive
  operation setup succeeds; feeding the message in any pieces, each below 2^32 bytes, either succeeds or stops at the first
  failed allocation with the operation closed; when everything was fed, finish, given a
  buffer that the digest fits into, writes exactly the digest that the standard of the algorithm
  defines for the whole message, fills the rest of the buffer with exclamation marks, reports the length of the digest and closes the operation; only
  when the allocation of its output copy fails does it leave the operation active, the buffer
  untouched and the length unwritten.\<close>

theorem hash_multipart:
  assumes "hash_id operation = 0" "is_hash_supported alg" "\<forall>c\<in>set inputs. length c < 2 ^ 32" "PSA_HASH_LENGTH alg \<le> length out"
  shows "\<exists>operation0 status operation1 outcomes1.
    psa_hash_setup operation alg = (PSA_SUCCESS, operation0) \<and>
    psa_hash_updates operation0 inputs outcomes = (status, operation1, outcomes1) \<and>
    (if status \<noteq> PSA_SUCCESS then status = PSA_ERROR_INSUFFICIENT_MEMORY \<and> hash_id operation1 = 0
     else if fst (mbedtls_calloc outcomes1)
     then \<exists>operation2. psa_hash_finish operation1 (Some out) (length out) outcomes1 =
       (PSA_SUCCESS, operation2, Some (hash_standard alg (concat inputs) @ replicate (length out - PSA_HASH_LENGTH alg) 0x21),
        Some (PSA_HASH_LENGTH alg), snd (mbedtls_calloc outcomes1)) \<and> hash_id operation2 = 0
     else psa_hash_finish operation1 (Some out) (length out) outcomes1 =
       (PSA_ERROR_INSUFFICIENT_MEMORY, operation1, Some out, None, snd (mbedtls_calloc outcomes1)))"
proof -
  obtain operation0 where 0: "psa_hash_setup operation alg = (PSA_SUCCESS, operation0)" "hash_active alg [] operation0"
    using api_setup [OF assms(2,1)] .
  from updates_active [OF 0(2) assms(3), of outcomes] consider
      (ok) operation1 outcomes1 where "psa_hash_updates operation0 inputs outcomes = (PSA_SUCCESS, operation1, outcomes1)"
        "hash_active alg (concat inputs) operation1"
    | (memory) operation1 outcomes1 where "psa_hash_updates operation0 inputs outcomes =
        (PSA_ERROR_INSUFFICIENT_MEMORY, operation1, outcomes1)" "hash_id operation1 = 0"
    by auto
  then show ?thesis
  proof cases
    case ok
    then show ?thesis using 0(1) finish_active [OF ok(2) assms(4), of outcomes1] by (auto split: if_splits)
  next
    case memory
    then show ?thesis using 0(1) by simp
  qed
qed

theorem hash_multipart_witness:
  "\<exists>operation0 operation1 operation2.
    psa_hash_setup PSA_HASH_OPERATION_INIT PSA_ALG_SHA_256 = (PSA_SUCCESS, operation0) \<and>
    psa_hash_updates operation0 [[97], [98, 99]] [] = (PSA_SUCCESS, operation1, []) \<and>
    psa_hash_finish operation1 (Some (replicate 33 0)) 33 [] =
      (PSA_SUCCESS, operation2, Some (hash_standard PSA_ALG_SHA_256 [97, 98, 99] @ [0x21]), Some 32, [])"
proof -
  have a: "hash_id PSA_HASH_OPERATION_INIT = 0" "is_hash_supported PSA_ALG_SHA_256" "\<forall>c\<in>set [[97], [98, 99 :: u8]]. length c < 2 ^ 32"
      "PSA_HASH_LENGTH PSA_ALG_SHA_256 \<le> length (replicate 33 (0 :: u8))"
    by (simp_all add: PSA_HASH_OPERATION_INIT_def is_hash_supported_def hash_lengths)
  obtain operation0 where 0: "psa_hash_setup PSA_HASH_OPERATION_INIT PSA_ALG_SHA_256 = (PSA_SUCCESS, operation0)"
      "hash_active PSA_ALG_SHA_256 [] operation0"
    using api_setup [OF a(2,1)] .
  from updates_with_memory [OF 0(2) a(3)] obtain operation1 where
    "psa_hash_updates operation0 [[97], [98, 99]] [] = (PSA_SUCCESS, operation1, [])" by auto
  then show ?thesis using 0(1) hash_multipart [OF a, of "[]"] by (auto simp: hash_lengths)
qed

text \<open>C32: Verifying a hash, in several calls or in one, when no allocation fails, every piece is below
  2^32 bytes and so is the message of the single call, accepts exactly the digest that the standard of
  the algorithm defines for the message that was fed: any other value, a truncated or an extended digest
  included, is reported as an invalid signature, and the operation is closed either way.\<close>

theorem hash_verify_exact:
  assumes "hash_id operation = 0" "is_hash_supported alg" "\<forall>c\<in>set inputs. length c < 2 ^ 32" "length (concat inputs) < 2 ^ 32"
    and "length actual_hash = PSA_HASH_MAX_SIZE"
  shows "\<exists>operation0 operation1 operation2.
    psa_hash_setup operation alg = (PSA_SUCCESS, operation0) \<and>
    psa_hash_updates operation0 inputs [] = (PSA_SUCCESS, operation1, []) \<and>
    psa_hash_verify actual_hash operation1 hash [] =
      (if hash = hash_standard alg (concat inputs) then PSA_SUCCESS else PSA_ERROR_INVALID_SIGNATURE, operation2, []) \<and>
    hash_id operation2 = 0 \<and>
    psa_hash_compare actual_hash alg (concat inputs) hash [] =
      (if hash = hash_standard alg (concat inputs) then PSA_SUCCESS else PSA_ERROR_INVALID_SIGNATURE, [])"
proof -
  obtain operation0 where 0: "psa_hash_setup operation alg = (PSA_SUCCESS, operation0)" "hash_active alg [] operation0"
    using api_setup [OF assms(2,1)] .
  from updates_with_memory [OF 0(2) assms(3)] obtain operation1 where
    1: "psa_hash_updates operation0 inputs [] = (PSA_SUCCESS, operation1, [])" "hash_active alg (concat inputs) operation1" by auto
  have "snd (snd (psa_hash_verify actual_hash operation1 hash [])) = []" "snd (psa_hash_compare actual_hash alg (concat inputs) hash []) = []"
    by (auto simp: psa_hash_verify_def psa_hash_compare_def local_input_alloc_eq split_def Let_def)
  then show ?thesis
    using 0 1 verify_active [OF 1(2) assms(5), of hash "[]"] compare_result [OF assms(2,4,5), of hash]
    by (intro exI conjI) (assumption | auto simp: prod_eq_iff)+
qed

theorem hash_verify_exact_witness:
  "\<exists>operation0 operation1 operation2.
    psa_hash_setup PSA_HASH_OPERATION_INIT PSA_ALG_MD5 = (PSA_SUCCESS, operation0) \<and>
    psa_hash_updates operation0 [[97]] [] = (PSA_SUCCESS, operation1, []) \<and>
    psa_hash_verify (replicate 64 0) operation1 [1, 2] [] = (PSA_ERROR_INVALID_SIGNATURE, operation2, [])"
proof -
  have l: "length (hash_standard PSA_ALG_MD5 [97]) = 16" by (simp add: hash_standard_def length_md5_digest)
  then have "[1, 2] \<noteq> hash_standard PSA_ALG_MD5 [97]" by (auto dest: arg_cong [of _ _ length])
  then show ?thesis
    using hash_verify_exact [of PSA_HASH_OPERATION_INIT PSA_ALG_MD5 "[[97]]" "replicate 64 0" "[1, 2]"]
    by (auto simp: PSA_HASH_OPERATION_INIT_def is_hash_supported_def)
qed

text \<open>C13: The union of hash contexts is always read as the member that was written: for an operation
  that any sequence of API calls has produced, with any arguments, clones from other such
  operations and any failures of allocation, it is either inactive or belongs to the built-in
  driver with a supported algorithm, and the context union then holds the member of that
  algorithm, which is what the driver reads.\<close>

theorem hash_union_typed:
  assumes "hash_reachable operation" "hash_id operation \<noteq> 0"
  shows "hash_id operation = PSA_CRYPTO_MBED_TLS_DRIVER_ID \<and> is_hash_supported (hash_alg (hash_driver operation)) \<and>
    hash_alg (hash_driver operation) \<in> member_algorithms (hash_ctx (hash_driver operation))"
  using reachable_typed [OF assms(1)] assms(2) typed_member
  by (auto simp: hash_operation_typed_def hash_typed_def)

theorem hash_union_typed_witness:
  "hash_alg (hash_driver (snd (psa_hash_setup PSA_HASH_OPERATION_INIT PSA_ALG_SHA3_256))) \<in>
    member_algorithms (hash_ctx (hash_driver (snd (psa_hash_setup PSA_HASH_OPERATION_INIT PSA_ALG_SHA3_256))))"
proof -
  have "is_hash_supported PSA_ALG_SHA3_256" "hash_id PSA_HASH_OPERATION_INIT = 0"
    by (simp_all add: is_hash_supported_def PSA_HASH_OPERATION_INIT_def)
  then have "hash_id (snd (psa_hash_setup PSA_HASH_OPERATION_INIT PSA_ALG_SHA3_256)) \<noteq> 0"
    using api_setup [of PSA_ALG_SHA3_256 PSA_HASH_OPERATION_INIT] unfolding hash_active_def by (metis snd_conv zero_neq_one)
  then show ?thesis using hash_union_typed [OF op_setup [OF op_init]] by blast
qed

text \<open>C33: A hash operation never gets stuck: whatever calls were made on it, aborting it succeeds, and
  then it can be set up again for any supported algorithm. A failed setup, update or verify closes the
  operation itself, and so does a failed finish, unless it cannot allocate its output copy and leaves the
  operation as it was. Cloning into an operation succeeds exactly when the source is active and the
  target is not, and then the target is active; otherwise it is refused as a bad state and leaves the target as it
  was, active or not.\<close>

theorem hash_never_stuck:
  assumes "hash_reachable operation" "hash_reachable source" "is_hash_supported alg"
  shows "fst (psa_hash_abort operation) = PSA_SUCCESS \<and>
    fst (psa_hash_setup (snd (psa_hash_abort operation)) alg) = PSA_SUCCESS \<and>
    (fst (psa_hash_setup operation alg) = PSA_SUCCESS \<or> hash_id (snd (psa_hash_setup operation alg)) = 0) \<and>
    (fst (psa_hash_update operation input outcomes) = PSA_SUCCESS \<or> hash_id (fst (snd (psa_hash_update operation input outcomes))) = 0) \<and>
    (hash_id (fst (snd (psa_hash_finish operation out n outcomes))) = 0 \<or>
     fst (psa_hash_finish operation out n outcomes) = PSA_ERROR_INSUFFICIENT_MEMORY \<and>
     fst (snd (psa_hash_finish operation out n outcomes)) = operation) \<and>
    hash_id (fst (snd (psa_hash_verify actual_hash operation hash outcomes))) = 0 \<and>
    (if hash_id source \<noteq> 0 \<and> hash_id operation = 0
     then fst (psa_hash_clone source operation) = PSA_SUCCESS \<and> hash_id (snd (psa_hash_clone source operation)) \<noteq> 0
     else psa_hash_clone source operation = (PSA_ERROR_BAD_STATE, operation))"
proof -
  have "fst (psa_hash_setup (snd (psa_hash_abort operation)) alg) = PSA_SUCCESS"
    using api_setup [OF assms(3) api_abort_inactive] by (metis fst_conv)
  moreover have "fst (psa_hash_setup operation alg) = PSA_SUCCESS \<or> hash_id (snd (psa_hash_setup operation alg)) = 0"
    by (simp add: psa_hash_setup_def split_def Let_def)
  moreover have "fst (psa_hash_update operation input outcomes) = PSA_SUCCESS \<or>
      hash_id (fst (snd (psa_hash_update operation input outcomes))) = 0"
    by (simp add: psa_hash_update_def split_def Let_def)
  ultimately show ?thesis
    using api_abort [OF reachable_typed [OF assms(1)]] finish_cases [of operation out n outcomes] verify_inactive
      clone_outcome [OF reachable_typed [OF assms(2)], of operation]
    by blast
qed

theorem hash_never_stuck_witness:
  "fst (psa_hash_setup (snd (psa_hash_abort (snd (psa_hash_setup PSA_HASH_OPERATION_INIT PSA_ALG_SHA_1)))) PSA_ALG_MD5) = PSA_SUCCESS"
  using hash_never_stuck [OF op_setup [OF op_init] op_init, of PSA_ALG_MD5] by (simp add: is_hash_supported_def)

end
