(* ===== verification/Xof_Api.thy ===== *)
theory Xof_Api
  imports Psa_Error Sha3_Standard Local_Buffers
begin

text \<open>
  Extendable-output functions: the built-in driver drivers/builtin/src/psa_crypto_xof.c, its
  dispatch, and the API of core/psa_crypto.c with its rules on the order of the calls.
\<close>

section \<open>Algorithms\<close>

abbreviation PSA_ALG_CATEGORY_XOF :: psa_algorithm where "PSA_ALG_CATEGORY_XOF \<equiv> 0x0d000000"
abbreviation PSA_ALG_SHAKE128 :: psa_algorithm where "PSA_ALG_SHAKE128 \<equiv> 0x0d000100"
abbreviation PSA_ALG_SHAKE256 :: psa_algorithm where "PSA_ALG_SHAKE256 \<equiv> 0x0d000200"
abbreviation PSA_ALG_XOF_CONTEXT_FLAG :: psa_algorithm where "PSA_ALG_XOF_CONTEXT_FLAG \<equiv> 0x00008000"

definition PSA_ALG_IS_XOF :: "psa_algorithm \<Rightarrow> bool" where
  "PSA_ALG_IS_XOF alg \<longleftrightarrow> alg AND PSA_ALG_CATEGORY_MASK = PSA_ALG_CATEGORY_XOF"

section \<open>The driver\<close>

text \<open>The union of contexts has a single member.\<close>

record mbedtls_psa_xof_operation =
  xof_alg :: psa_algorithm
  have_output :: u8
  shake :: mbedtls_sha3_context

definition MBEDTLS_PSA_XOF_OPERATION_INIT :: mbedtls_psa_xof_operation where
  "MBEDTLS_PSA_XOF_OPERATION_INIT = \<lparr>xof_alg = 0, have_output = 0, shake = mbedtls_sha3_init\<rparr>"

definition mbedtls_psa_xof_abort :: "mbedtls_psa_xof_operation \<Rightarrow> psa_status \<times> mbedtls_psa_xof_operation" where
  "mbedtls_psa_xof_abort operation =
    (if xof_alg operation = 0 then (PSA_SUCCESS, operation\<lparr>xof_alg := 0\<rparr>)
     else if xof_alg operation \<in> {PSA_ALG_SHAKE128, PSA_ALG_SHAKE256}
     then (PSA_SUCCESS, operation\<lparr>shake := mbedtls_sha3_free (shake operation), xof_alg := 0\<rparr>)
     else (PSA_ERROR_BAD_STATE, operation))"

definition mbedtls_psa_xof_setup ::
    "mbedtls_psa_xof_operation \<Rightarrow> psa_algorithm \<Rightarrow> psa_status \<times> mbedtls_psa_xof_operation" where
  "mbedtls_psa_xof_setup operation alg =
    (if xof_alg operation \<noteq> 0 then (PSA_ERROR_BAD_STATE, operation)
     else if alg = PSA_ALG_SHAKE128
     then (PSA_SUCCESS, operation\<lparr>shake := snd (mbedtls_sha3_starts (shake operation) MBEDTLS_SHA3_SHAKE128), xof_alg := alg\<rparr>)
     else if alg = PSA_ALG_SHAKE256
     then (PSA_SUCCESS, operation\<lparr>shake := snd (mbedtls_sha3_starts (shake operation) MBEDTLS_SHA3_SHAKE256), xof_alg := alg\<rparr>)
     else (if PSA_ALG_IS_XOF alg then PSA_ERROR_NOT_SUPPORTED else PSA_ERROR_INVALID_ARGUMENT, operation))"

definition mbedtls_psa_xof_set_context :: "mbedtls_psa_xof_operation \<Rightarrow> bytes \<Rightarrow> psa_status" where
  "mbedtls_psa_xof_set_context operation context =
    (if xof_alg operation = 0 then PSA_ERROR_BAD_STATE else PSA_ERROR_INVALID_ARGUMENT)"

definition mbedtls_psa_xof_update :: "mbedtls_psa_xof_operation \<Rightarrow> bytes \<Rightarrow> psa_status \<times> mbedtls_psa_xof_operation" where
  "mbedtls_psa_xof_update operation input =
    (if xof_alg operation \<in> {PSA_ALG_SHAKE128, PSA_ALG_SHAKE256}
     then (PSA_SUCCESS, operation\<lparr>shake := snd (mbedtls_sha3_update (shake operation) input)\<rparr>)
     else (PSA_ERROR_BAD_STATE, operation))"

definition mbedtls_psa_xof_output ::
    "mbedtls_psa_xof_operation \<Rightarrow> bytes \<Rightarrow> nat \<Rightarrow> psa_status \<times> mbedtls_psa_xof_operation \<times> bytes" where
  "mbedtls_psa_xof_output operation out output_size =
    (if xof_alg operation \<in> {PSA_ALG_SHAKE128, PSA_ALG_SHAKE256}
     then (let (ret, ctx, out) = mbedtls_sha3_finish (shake operation) out output_size
           in (PSA_SUCCESS, operation\<lparr>shake := ctx\<rparr>, out))
     else (PSA_ERROR_BAD_STATE, operation, out))"

section \<open>The operation and the dispatch\<close>

record psa_xof_operation =
  xof_id :: nat
  requires_context :: bool
  allows_context :: bool
  xof_active :: bool
  has_context :: bool
  has_input :: bool
  has_output :: bool
  xof_driver :: mbedtls_psa_xof_operation

definition PSA_XOF_OPERATION_INIT :: psa_xof_operation where
  "PSA_XOF_OPERATION_INIT =
    \<lparr>xof_id = 0, requires_context = False, allows_context = False, xof_active = False, has_context = False,
     has_input = False, has_output = False, xof_driver = MBEDTLS_PSA_XOF_OPERATION_INIT\<rparr>"

definition psa_driver_wrapper_xof_setup :: "psa_xof_operation \<Rightarrow> psa_algorithm \<Rightarrow> psa_status \<times> psa_xof_operation" where
  "psa_driver_wrapper_xof_setup operation alg =
    (let (status, ctx) = mbedtls_psa_xof_setup (xof_driver operation) alg;
         operation = operation\<lparr>xof_driver := ctx\<rparr>;
         operation = (if status = PSA_SUCCESS then operation\<lparr>xof_id := 1\<rparr> else operation)
     in if status \<noteq> PSA_ERROR_NOT_SUPPORTED then (status, operation) else (PSA_ERROR_NOT_SUPPORTED, operation))"

definition psa_driver_wrapper_xof_set_context :: "psa_xof_operation \<Rightarrow> bytes \<Rightarrow> psa_status" where
  "psa_driver_wrapper_xof_set_context operation context =
    (if xof_id operation = 1 then mbedtls_psa_xof_set_context (xof_driver operation) context else PSA_ERROR_BAD_STATE)"

definition psa_driver_wrapper_xof_update :: "psa_xof_operation \<Rightarrow> bytes \<Rightarrow> psa_status \<times> psa_xof_operation" where
  "psa_driver_wrapper_xof_update operation input =
    (if xof_id operation = 1
     then (let (status, ctx) = mbedtls_psa_xof_update (xof_driver operation) input
           in (status, operation\<lparr>xof_driver := ctx\<rparr>))
     else (PSA_ERROR_BAD_STATE, operation))"

definition psa_driver_wrapper_xof_output ::
    "psa_xof_operation \<Rightarrow> bytes \<Rightarrow> nat \<Rightarrow> psa_status \<times> psa_xof_operation \<times> bytes" where
  "psa_driver_wrapper_xof_output operation out output_len =
    (if xof_id operation = 1
     then (let (status, ctx, out) = mbedtls_psa_xof_output (xof_driver operation) out output_len
           in (status, operation\<lparr>xof_driver := ctx\<rparr>, out))
     else (PSA_ERROR_BAD_STATE, operation, out))"

definition psa_driver_wrapper_xof_abort :: "psa_xof_operation \<Rightarrow> psa_status \<times> psa_xof_operation" where
  "psa_driver_wrapper_xof_abort operation =
    (if xof_id operation = 1
     then (let (status, ctx) = mbedtls_psa_xof_abort (xof_driver operation) in (status, operation\<lparr>xof_driver := ctx\<rparr>))
     else (PSA_ERROR_BAD_STATE, operation))"

section \<open>The API\<close>

definition psa_xof_abort :: "psa_xof_operation \<Rightarrow> psa_status \<times> psa_xof_operation" where
  "psa_xof_abort operation =
    (if xof_id operation = 0 then (PSA_SUCCESS, operation)
     else (fst (psa_driver_wrapper_xof_abort operation), PSA_XOF_OPERATION_INIT))"

definition psa_xof_setup :: "psa_xof_operation \<Rightarrow> psa_algorithm \<Rightarrow> psa_status \<times> psa_xof_operation" where
  "psa_xof_setup operation alg =
    (let (status, operation) =
       (if xof_id operation \<noteq> 0 then (PSA_ERROR_BAD_STATE, operation)
        else if \<not> PSA_ALG_IS_XOF alg then (PSA_ERROR_INVALID_ARGUMENT, operation)
        else psa_driver_wrapper_xof_setup (operation\<lparr>xof_driver := MBEDTLS_PSA_XOF_OPERATION_INIT\<rparr>) alg)
     in if status = PSA_SUCCESS then
          let operation = operation\<lparr>xof_active := True\<rparr>
          in (status,
              if alg AND PSA_ALG_XOF_CONTEXT_FLAG \<noteq> 0
              then operation\<lparr>allows_context := True, requires_context := True\<rparr> else operation)
        else (status, snd (psa_xof_abort operation)))"

definition psa_xof_set_context ::
    "psa_xof_operation \<Rightarrow> bytes \<Rightarrow> bool list \<Rightarrow> psa_status \<times> psa_xof_operation \<times> bool list" where
  "psa_xof_set_context operation context_external outcomes =
    (if xof_id operation = 0 then (PSA_ERROR_BAD_STATE, operation, outcomes)
     else if \<not> xof_active operation then (PSA_ERROR_BAD_STATE, operation, outcomes)
     else if \<not> allows_context operation then (PSA_ERROR_BAD_STATE, operation, outcomes)
     else if has_context operation then (PSA_ERROR_BAD_STATE, operation, outcomes)
     else if has_input operation then (PSA_ERROR_BAD_STATE, operation, outcomes)
     else if has_output operation then (PSA_ERROR_BAD_STATE, operation, outcomes)
     else
       let operation = operation\<lparr>has_context := True\<rparr>;
           (status, li, outcomes) = psa_crypto_local_input_alloc context_external outcomes;
           status = (if status \<noteq> PSA_SUCCESS then status
                     else psa_driver_wrapper_xof_set_context operation (contents (input_buffer li)))
       in (status, if status \<noteq> PSA_SUCCESS then snd (psa_xof_abort operation) else operation, outcomes))"

definition psa_xof_update ::
    "psa_xof_operation \<Rightarrow> bytes \<Rightarrow> bool list \<Rightarrow> psa_status \<times> psa_xof_operation \<times> bool list" where
  "psa_xof_update operation input_external outcomes =
    (if xof_id operation = 0 then (PSA_ERROR_BAD_STATE, operation, outcomes)
     else if \<not> xof_active operation then (PSA_ERROR_BAD_STATE, operation, outcomes)
     else if \<not> has_context operation \<and> requires_context operation then (PSA_ERROR_BAD_STATE, operation, outcomes)
     else if has_output operation then (PSA_ERROR_BAD_STATE, operation, outcomes)
     else
       let operation = operation\<lparr>has_input := True\<rparr>
       in if length input_external = 0 then (PSA_SUCCESS, operation, outcomes)
          else
            let (status, li, outcomes) = psa_crypto_local_input_alloc input_external outcomes;
                (status, operation) =
                  (if status \<noteq> PSA_SUCCESS then (status, operation)
                   else psa_driver_wrapper_xof_update operation (contents (input_buffer li)))
            in (status, if status \<noteq> PSA_SUCCESS then snd (psa_xof_abort operation) else operation, outcomes))"

definition psa_xof_output ::
    "psa_xof_operation \<Rightarrow> bytes option \<Rightarrow> nat \<Rightarrow> bool list \<Rightarrow>
     psa_status \<times> psa_xof_operation \<times> bytes option \<times> bool list" where
  "psa_xof_output operation output_external output_len outcomes =
    (if xof_id operation = 0 then (PSA_ERROR_BAD_STATE, operation, output_external, outcomes)
     else if \<not> xof_active operation then (PSA_ERROR_BAD_STATE, operation, output_external, outcomes)
     else if \<not> has_context operation \<and> requires_context operation
     then (PSA_ERROR_BAD_STATE, operation, output_external, outcomes)
     else
       let operation = operation\<lparr>has_output := True\<rparr>
       in if output_len = 0 then (PSA_SUCCESS, operation, output_external, outcomes)
          else
            let (status, lo, outcomes) = psa_crypto_local_output_alloc output_external output_len outcomes;
                (status, operation, lo) =
                  (if status \<noteq> PSA_SUCCESS then (status, operation, lo)
                   else
                     let (status, operation, out) =
                           psa_driver_wrapper_xof_output operation (contents (output_buffer lo)) output_len
                     in (status, operation, lo\<lparr>output_buffer := Some out\<rparr>));
                operation = (if status \<noteq> PSA_SUCCESS then snd (psa_xof_abort operation) else operation);
                (status, output_external) = LOCAL_OUTPUT_FREE lo output_external status
            in (status, operation, output_external, outcomes))"

section \<open>Absorbing and squeezing\<close>

fun shake_id :: "psa_algorithm \<Rightarrow> mbedtls_sha3_id" where
  "shake_id alg = (if alg = PSA_ALG_SHAKE128 then MBEDTLS_SHA3_SHAKE128 else MBEDTLS_SHA3_SHAKE256)"

text \<open>A caller that feeds pieces, and one that reads pieces, each into a buffer of its own.\<close>

fun psa_xof_updates :: "psa_xof_operation \<Rightarrow> bytes list \<Rightarrow> psa_status \<times> psa_xof_operation" where
  "psa_xof_updates operation [] = (PSA_SUCCESS, operation)"
| "psa_xof_updates operation (input # inputs) =
    (let (status, operation, _) = psa_xof_update operation input []
     in if status \<noteq> PSA_SUCCESS then (status, operation) else psa_xof_updates operation inputs)"

fun psa_xof_outputs :: "psa_xof_operation \<Rightarrow> nat list \<Rightarrow> psa_status \<times> psa_xof_operation \<times> bytes" where
  "psa_xof_outputs operation [] = (PSA_SUCCESS, operation, [])"
| "psa_xof_outputs operation (n # ns) =
    (let (status, operation, out, _) = psa_xof_output operation (Some (replicate n 0)) n []
     in if status \<noteq> PSA_SUCCESS then (status, operation, [])
        else
          let (status, operation, outs) = psa_xof_outputs operation ns
          in (status, operation, contents out @ outs))"

text \<open>An active operation of a SHAKE algorithm, without a context.\<close>

definition xof_ready :: "psa_algorithm \<Rightarrow> psa_xof_operation \<Rightarrow> bool" where
  "xof_ready alg operation \<longleftrightarrow> xof_id operation = 1 \<and> xof_active operation \<and> \<not> requires_context operation \<and> \<not> allows_context operation \<and>
     alg \<in> {PSA_ALG_SHAKE128, PSA_ALG_SHAKE256} \<and> xof_alg (xof_driver operation) = alg \<and> sha3_olen (shake (xof_driver operation)) = 0"

definition xof_absorbed :: "psa_algorithm \<Rightarrow> bytes \<Rightarrow> psa_xof_operation \<Rightarrow> bool" where
  "xof_absorbed alg m operation \<longleftrightarrow> xof_ready alg operation \<and> \<not> has_output operation \<and>
     sponge_absorbed (shake (xof_driver operation)) m \<and> max_block_size (shake (xof_driver operation)) = sha3_rate (shake_id alg)"

lemma xof_setup_ok:
  assumes "xof_id operation = 0" "alg \<in> {PSA_ALG_SHAKE128, PSA_ALG_SHAKE256}" "\<not> requires_context operation"
    "\<not> allows_context operation" "\<not> has_output operation"
  shows "\<exists>operation'. psa_xof_setup operation alg = (PSA_SUCCESS, operation') \<and> xof_absorbed alg [] operation'"
proof -
  have "shake_id alg \<noteq> MBEDTLS_SHA3_NONE" by simp
  note f = sha3_fresh_fields [OF this]
  have "PSA_ALG_IS_XOF alg" "alg AND PSA_ALG_XOF_CONTEXT_FLAG = 0" "alg \<noteq> 0" using assms(2) by (auto simp: PSA_ALG_IS_XOF_def)
  moreover have "sha3_length (shake_id alg) = 0" by simp
  ultimately show ?thesis using assms f
    by (auto simp: psa_xof_setup_def psa_driver_wrapper_xof_setup_def mbedtls_psa_xof_setup_def MBEDTLS_PSA_XOF_OPERATION_INIT_def
        xof_absorbed_def xof_ready_def)
qed

lemma xof_updates_absorbed:
  "xof_absorbed alg m operation \<Longrightarrow>
   \<exists>operation'. psa_xof_updates operation inputs = (PSA_SUCCESS, operation') \<and> xof_absorbed alg (m @ concat inputs) operation'"
proof (induction inputs arbitrary: m operation)
  case (Cons c cs)
  let ?ctx = "shake (xof_driver operation)"
  have a: "sponge_absorbed ?ctx m" using Cons.prems by (simp add: xof_absorbed_def)
  have u: "mbedtls_sha3_update ?ctx c = (0, fold sha3_absorb_byte c ?ctx)"
    using sha3_updates_bytes [OF a, of "[c]"] unfolding hash_updates_one by simp
  obtain operation' outcomes' where "psa_xof_update operation c [] = (PSA_SUCCESS, operation', outcomes')" "xof_absorbed alg (m @ c) operation'"
    using Cons.prems u absorbed_bytes [OF a, of c] absorb_byte_keeps [of c ?ctx]
    by (cases "c = []") (auto simp: psa_xof_update_def local_input_alloc_eq psa_driver_wrapper_xof_update_def mbedtls_psa_xof_update_def
      xof_absorbed_def xof_ready_def)
  then show ?case using Cons.IH [of "m @ c" operation'] by simp
qed simp

lemma length_sha3_squeeze: "length (fst (sha3_squeeze n ctx)) = n"
  by (induction n arbitrary: ctx) (simp_all add: Let_def split_def)

lemma squeeze_olen: "sha3_olen (snd (sha3_squeeze n ctx)) = sha3_olen ctx"
  by (induction n arbitrary: ctx) (simp_all add: Let_def split_def sha3_next_def)

lemma sha3_finish_xof:
  assumes "sha3_olen ctx = 0"
  obtains ctx' out where "mbedtls_sha3_finish ctx (replicate n 0) n = (0, ctx', out)" "sha3_olen ctx' = 0" "length out = n"
proof -
  have "fst (mbedtls_sha3_finish ctx (replicate n 0) n) = 0" "sha3_olen (fst (snd (mbedtls_sha3_finish ctx (replicate n 0) n))) = 0"
    "length (snd (snd (mbedtls_sha3_finish ctx (replicate n 0) n))) = n"
    using assms by (auto simp: mbedtls_sha3_finish_def split_def Let_def length_sha3_squeeze squeeze_olen buffer_put_def)
  then show thesis using that by (metis prod.collapse)
qed

lemma xof_outputs_shake:
  assumes "xof_ready alg operation"
  shows "\<exists>operation'. psa_xof_outputs operation ns =
      (PSA_SUCCESS, operation', snd (shake_outputs (shake (xof_driver operation)) (filter (\<lambda>n. n \<noteq> 0) ns))) \<and>
    xof_ready alg operation' \<and> (ns \<noteq> [] \<or> has_output operation \<longrightarrow> has_output operation')"
  using assms
proof (induction ns arbitrary: operation)
  case (Cons n ns)
  show ?case
  proof (cases "n = 0")
    case True
    then have "psa_xof_output operation (Some []) 0 [] = (PSA_SUCCESS, operation\<lparr>has_output := True\<rparr>, Some [], [])"
      using Cons.prems by (simp add: psa_xof_output_def xof_ready_def)
    moreover have "xof_ready alg (operation\<lparr>has_output := True\<rparr>)" using Cons.prems by (simp add: xof_ready_def)
    ultimately show ?thesis using Cons.IH [of "operation\<lparr>has_output := True\<rparr>"] True by auto
  next
    case False
    obtain ctx' out where f: "mbedtls_sha3_finish (shake (xof_driver operation)) (replicate n 0) n = (0, ctx', out)"
        "sha3_olen ctx' = 0" "length out = n"
      using sha3_finish_xof Cons.prems unfolding xof_ready_def by blast
    let ?o = "operation\<lparr>has_output := True, xof_driver := (xof_driver operation)\<lparr>shake := ctx'\<rparr>\<rparr>"
    have "psa_xof_output operation (Some (replicate n 0)) n [] = (PSA_SUCCESS, ?o, Some out, [])"
      using Cons.prems f False local_output_free_copy [of out "replicate n 0"]
      by (auto simp: psa_xof_output_def xof_ready_def local_output_alloc_eq psa_driver_wrapper_xof_output_def mbedtls_psa_xof_output_def)
    moreover have "xof_ready alg ?o" using Cons.prems f(2) by (simp add: xof_ready_def)
    ultimately show ?thesis using Cons.IH [of ?o] False f(1) by (auto simp: split_def Let_def)
  qed
qed simp

text \<open>C34: An extendable-output operation used through the API, as long as no allocation of a local
  copy fails: setup of SHAKE128 or SHAKE256 on a fresh operation succeeds, the message may be fed in
  any pieces and the output read in any pieces, empty ones included, and the bytes read are those of
  FIPS 202 for the whole message and the total length; once output was requested, more input is
  refused as a bad state without changing the operation. A context is refused without changing the
  operation too, right after setup, after the input and after the output, and always as a bad state:
  for an algorithm without a context, crypto.h documents an invalid argument instead.\<close>

theorem xof_multipart:
  assumes "alg \<in> {PSA_ALG_SHAKE128, PSA_ALG_SHAKE256}"
  shows "\<exists>operation0 operation1 operation2.
    psa_xof_setup PSA_XOF_OPERATION_INIT alg = (PSA_SUCCESS, operation0) \<and>
    psa_xof_updates operation0 inputs = (PSA_SUCCESS, operation1) \<and>
    psa_xof_outputs operation1 ns = (PSA_SUCCESS, operation2, shake_output (shake_id alg) (concat inputs) (sum_list ns)) \<and>
    (ns \<noteq> [] \<longrightarrow> psa_xof_update operation2 late outcomes = (PSA_ERROR_BAD_STATE, operation2, outcomes)) \<and>
    psa_xof_set_context operation0 context_value outcomes = (PSA_ERROR_BAD_STATE, operation0, outcomes) \<and>
    psa_xof_set_context operation1 context_value outcomes = (PSA_ERROR_BAD_STATE, operation1, outcomes) \<and>
    psa_xof_set_context operation2 context_value outcomes = (PSA_ERROR_BAD_STATE, operation2, outcomes)"
proof -
  have refused: "psa_xof_set_context operation context_value outcomes = (PSA_ERROR_BAD_STATE, operation, outcomes)"
    if "xof_ready alg operation" for operation
    using that by (auto simp: xof_ready_def psa_xof_set_context_def)
  obtain operation0 where 0: "psa_xof_setup PSA_XOF_OPERATION_INIT alg = (PSA_SUCCESS, operation0)" "xof_absorbed alg [] operation0"
    using xof_setup_ok [of PSA_XOF_OPERATION_INIT alg] assms by (auto simp: PSA_XOF_OPERATION_INIT_def)
  obtain operation1 where 1: "psa_xof_updates operation0 inputs = (PSA_SUCCESS, operation1)" "xof_absorbed alg (concat inputs) operation1"
    using xof_updates_absorbed [OF 0(2), of inputs] by auto
  then have r: "xof_ready alg operation1" by (simp add: xof_absorbed_def)
  have "xof_ready alg operation0" using 0(2) by (simp add: xof_absorbed_def)
  note contexts = refused [OF this] refused [OF r]
  from xof_outputs_shake [OF r, of ns] obtain operation2 where 2: "psa_xof_outputs operation1 ns =
      (PSA_SUCCESS, operation2, snd (shake_outputs (shake (xof_driver operation1)) (filter (\<lambda>n. n \<noteq> 0) ns)))"
      "xof_ready alg operation2" "ns \<noteq> [] \<longrightarrow> has_output operation2" by blast
  have s: "sum_list (filter (\<lambda>n. n \<noteq> 0) ns) = sum_list ns" by (induction ns) auto
  have "snd (shake_outputs (shake (xof_driver operation1)) (filter (\<lambda>n. n \<noteq> 0) ns)) = shake_output (shake_id alg) (concat inputs) (sum_list ns)"
  proof (cases "filter (\<lambda>n. n \<noteq> 0) ns = []")
    case True
    then have "sum_list ns = 0" using s by simp
    then show ?thesis using True by (simp add: shake_output_def sponge_def)
  next
    case False
    then show ?thesis using shake_outputs_result [of "shake (xof_driver operation1)" "concat inputs" "filter (\<lambda>n. n \<noteq> 0) ns"] 1(2) s
      by (simp add: xof_absorbed_def xof_ready_def shake_output_def)
  qed
  then have "psa_xof_outputs operation1 ns = (PSA_SUCCESS, operation2, shake_output (shake_id alg) (concat inputs) (sum_list ns))"
    using 2(1) by simp
  moreover have "ns \<noteq> [] \<longrightarrow> psa_xof_update operation2 late outcomes = (PSA_ERROR_BAD_STATE, operation2, outcomes)"
    "psa_xof_set_context operation2 context_value outcomes = (PSA_ERROR_BAD_STATE, operation2, outcomes)"
    using 2(2,3) refused by (auto simp: xof_ready_def psa_xof_update_def)
  ultimately show ?thesis using 0(1) 1(1) contexts by blast
qed

theorem xof_multipart_witness:
  "\<exists>operation0 operation1 operation2.
    psa_xof_setup PSA_XOF_OPERATION_INIT PSA_ALG_SHAKE256 = (PSA_SUCCESS, operation0) \<and>
    psa_xof_updates operation0 [[97], [98, 99]] = (PSA_SUCCESS, operation1) \<and>
    psa_xof_outputs operation1 [1, 0, 200] = (PSA_SUCCESS, operation2, shake_output MBEDTLS_SHA3_SHAKE256 [97, 98, 99] 201) \<and>
    psa_xof_update operation2 [100] [] = (PSA_ERROR_BAD_STATE, operation2, [])"
proof -
  have "PSA_ALG_SHAKE256 \<in> {PSA_ALG_SHAKE128, PSA_ALG_SHAKE256}" "shake_id PSA_ALG_SHAKE256 = MBEDTLS_SHA3_SHAKE256"
    "concat [[97], [98, 99]] = [97, 98, 99 :: u8]" "sum_list [1, 0, 200] = (201 :: nat)" by simp_all
  then show ?thesis using xof_multipart [of PSA_ALG_SHAKE256 "[[97], [98, 99]]" "[1, 0, 200]" "[100]" "[]" "[]"] by (metis list.distinct(1))
qed

end
