(* ===== verification/Base64.thy ===== *)
theory Base64
  imports Constant_Time Block_Hash
begin

text \<open>
  Base64, utilities/base64.c: the conversions of characters without branches on their values, the
  encoder, and the decoder with its two passes, one that validates the text and computes the size of
  the output and one that writes it. Sizes are 64-bit; a null \<open>dst\<close> is \<open>None\<close> and an \<open>*olen\<close> that is
  not written is \<open>None\<close>.
\<close>

section \<open>Characters\<close>

abbreviation MBEDTLS_ERR_BASE64_BUFFER_TOO_SMALL :: int where "MBEDTLS_ERR_BASE64_BUFFER_TOO_SMALL \<equiv> -138"
abbreviation MBEDTLS_ERR_BASE64_INVALID_CHARACTER :: int where "MBEDTLS_ERR_BASE64_INVALID_CHARACTER \<equiv> -0x2C"
abbreviation SIZE_MAX :: nat where "SIZE_MAX \<equiv> 2 ^ 64 - 1"

definition mbedtls_ct_base64_enc_char :: "u8 \<Rightarrow> u8" where
  "mbedtls_ct_base64_enc_char value =
    (let digit = 0;
         digit = digit OR mbedtls_ct_uchar_in_range_if 0 25 value (0x41 + value);
         digit = digit OR mbedtls_ct_uchar_in_range_if 26 51 value (0x61 + value - 26);
         digit = digit OR mbedtls_ct_uchar_in_range_if 52 61 value (0x30 + value - 52);
         digit = digit OR mbedtls_ct_uchar_in_range_if 62 62 value 0x2B;
         digit = digit OR mbedtls_ct_uchar_in_range_if 63 63 value 0x2F
     in digit)"

definition mbedtls_ct_base64_dec_value :: "u8 \<Rightarrow> int" where
  "mbedtls_ct_base64_dec_value c =
    (let val = 0;
         val = val OR mbedtls_ct_uchar_in_range_if 0x41 0x5A c (c - 0x41 + 0 + 1);
         val = val OR mbedtls_ct_uchar_in_range_if 0x61 0x7A c (c - 0x61 + 26 + 1);
         val = val OR mbedtls_ct_uchar_in_range_if 0x30 0x39 c (c - 0x30 + 52 + 1);
         val = val OR mbedtls_ct_uchar_in_range_if 0x2B 0x2B c (c - 0x2B + 62 + 1);
         val = val OR mbedtls_ct_uchar_in_range_if 0x2F 0x2F c (c - 0x2F + 63 + 1)
     in sint (val - 1))"

section \<open>Encoding\<close>

text \<open>The loop over groups of three bytes and the last, shorter group.\<close>

fun base64_groups :: "bytes \<Rightarrow> bytes" where
  "base64_groups (c1 # c2 # c3 # src) =
    (let C1 = ucast c1 :: u32; C2 = ucast c2 :: u32; C3 = ucast c3 :: u32
     in [mbedtls_ct_base64_enc_char (ucast (drop_bit 2 C1 AND 0x3F)),
         mbedtls_ct_base64_enc_char (ucast ((push_bit 4 (C1 AND 3) + drop_bit 4 C2) AND 0x3F)),
         mbedtls_ct_base64_enc_char (ucast ((push_bit 2 (C2 AND 15) + drop_bit 6 C3) AND 0x3F)),
         mbedtls_ct_base64_enc_char (ucast (C3 AND 0x3F))] @ base64_groups src)"
| "base64_groups [] = []"
| "base64_groups (c1 # src) =
    (let C1 = ucast c1 :: u32; C2 = (case src of c2 # _ \<Rightarrow> ucast c2 | [] \<Rightarrow> 0) :: u32
     in [mbedtls_ct_base64_enc_char (ucast (drop_bit 2 C1 AND 0x3F)),
         mbedtls_ct_base64_enc_char (ucast ((push_bit 4 (C1 AND 3) + drop_bit 4 C2) AND 0x3F)),
         (if src \<noteq> [] then mbedtls_ct_base64_enc_char (ucast (push_bit 2 (C2 AND 15) AND 0x3F)) else 0x3D),
         0x3D])"

definition mbedtls_base64_encode :: "bytes option \<Rightarrow> nat \<Rightarrow> bytes \<Rightarrow> int \<times> bytes option \<times> nat" where
  "mbedtls_base64_encode dst dlen src =
    (let slen = length src
     in if slen = 0 then (0, dst, 0)
        else
          let n = slen div 3 + (if slen mod 3 \<noteq> 0 then 1 else 0)
          in if n > (SIZE_MAX - 1) div 4 then (MBEDTLS_ERR_BASE64_BUFFER_TOO_SMALL, dst, SIZE_MAX)
             else
               let n = n * 4
               in case dst of
                    None \<Rightarrow> (MBEDTLS_ERR_BASE64_BUFFER_TOO_SMALL, dst, n + 1)
                  | Some d \<Rightarrow>
                      if dlen < n + 1 then (MBEDTLS_ERR_BASE64_BUFFER_TOO_SMALL, dst, n + 1)
                      else let out = base64_groups src in (0, Some (buffer_put 0 (out @ [0]) d), length out))"

section \<open>Decoding\<close>

text \<open>The first pass: the number of digits and equal signs, and the number of equal signs.\<close>

function base64_check :: "bytes \<Rightarrow> nat \<Rightarrow> nat \<Rightarrow> int + (nat \<times> nat)" where
  "base64_check src n equals =
    (let rest = dropWhile (\<lambda>c. c = 0x20) src;
         spaces_present = (rest \<noteq> src)
     in case rest of
          [] \<Rightarrow> Inr (n, equals)
        | c # cs \<Rightarrow>
            if length rest \<ge> 2 \<and> c = 0x0D \<and> hd cs = 0x0A then base64_check cs n equals
            else if c = 0x0A then base64_check cs n equals
            else if spaces_present then Inl MBEDTLS_ERR_BASE64_INVALID_CHARACTER
            else if c > 127 then Inl MBEDTLS_ERR_BASE64_INVALID_CHARACTER
            else if c = 0x3D then
              (if equals + 1 > 2 then Inl MBEDTLS_ERR_BASE64_INVALID_CHARACTER
               else base64_check cs (n + 1) (equals + 1))
            else if equals \<noteq> 0 then Inl MBEDTLS_ERR_BASE64_INVALID_CHARACTER
            else if mbedtls_ct_base64_dec_value c < 0 then Inl MBEDTLS_ERR_BASE64_INVALID_CHARACTER
            else base64_check cs (n + 1) equals)"
  by auto
termination
  by (relation "measure (\<lambda>(src, _, _). length src)")
    (auto dest!: arg_cong [of _ _ length] simp: Suc_le_eq [symmetric] intro: order_trans [OF _ length_dropWhile_le])

declare base64_check.simps [simp del]

text \<open>The second pass: the accumulator, the number of digits in it and the bytes written.\<close>

fun base64_output :: "bytes \<Rightarrow> u32 \<Rightarrow> nat \<Rightarrow> bytes \<Rightarrow> u32 \<times> nat \<times> bytes" where
  "base64_output [] x accumulated_digits out = (x, accumulated_digits, out)"
| "base64_output (c # src) x accumulated_digits out =
    (if c = 0x0D \<or> c = 0x0A \<or> c = 0x20 then base64_output src x accumulated_digits out
     else if c = 0x3D then (x, accumulated_digits, out)
     else
       let x = push_bit 6 x;
           x = x OR word_of_int (mbedtls_ct_base64_dec_value c)
       in if accumulated_digits + 1 = 4
          then base64_output src x 0 (out @ [mbedtls_byte 2 x, mbedtls_byte 1 x, mbedtls_byte 0 x])
          else base64_output src x (accumulated_digits + 1) out)"

definition base64_flush :: "u32 \<times> nat \<times> bytes \<Rightarrow> bytes" where
  "base64_flush = (\<lambda>(x, accumulated_digits, out).
     if accumulated_digits = 3 then out @ [mbedtls_byte 2 (push_bit 6 x), mbedtls_byte 1 (push_bit 6 x)]
     else if accumulated_digits = 2 then out @ [mbedtls_byte 2 (push_bit 12 x)]
     else out)"

definition mbedtls_base64_decode :: "bytes option \<Rightarrow> nat \<Rightarrow> bytes \<Rightarrow> int \<times> bytes option \<times> nat option" where
  "mbedtls_base64_decode dst dlen src =
    (case base64_check src 0 0 of
       Inl ret \<Rightarrow> (ret, dst, None)
     | Inr (n, equals) \<Rightarrow>
         if (n - equals) mod 4 = 1 then (MBEDTLS_ERR_BASE64_INVALID_CHARACTER, dst, None)
         else if n mod 4 \<noteq> 0 then (MBEDTLS_ERR_BASE64_INVALID_CHARACTER, dst, None)
         else
           let olen = n div 4 * 3 - equals
           in if (olen \<noteq> 0 \<and> dst = None) \<or> dlen < olen then (MBEDTLS_ERR_BASE64_BUFFER_TOO_SMALL, dst, Some olen)
              else
                let out = base64_flush (base64_output src 0 0 []);
                    dst = map_option (buffer_put 0 out) dst
                in if olen \<noteq> length out then (-151, dst, Some olen) else (0, dst, Some olen))"

section \<open>Digits\<close>

definition base64_alphabet :: bytes where
  "base64_alphabet = [65, 66, 67, 68, 69, 70, 71, 72, 73, 74, 75, 76, 77, 78, 79, 80, 81, 82, 83, 84, 85, 86, 87, 88, 89, 90, 97, 98, 99, 100, 101, 102, 103, 104, 105, 106, 107, 108, 109, 110, 111, 112, 113, 114, 115, 116, 117, 118, 119, 120, 121, 122, 48, 49, 50, 51, 52, 53, 54, 55, 56, 57, 43, 47]"


lemma word_le_1: "\<not> 26 \<le> (1 :: u8)" "\<not> 52 \<le> (1 :: u8)" "\<not> 62 \<le> (1 :: u8)" "\<not> 63 \<le> (1 :: u8)"
  by code_simp+

lemma enc_table: "map (\<lambda>k. mbedtls_ct_base64_enc_char (word_of_nat k)) [0..<64] = base64_alphabet"
  by (simp add: mbedtls_ct_base64_enc_char_def ct_in_range base64_alphabet_def upt_rec word_le_1)

lemma dec_table: "map mbedtls_ct_base64_dec_value base64_alphabet = map int [0..<64]"
  by (simp add: mbedtls_ct_base64_dec_value_def ct_in_range base64_alphabet_def upt_rec)

lemma alphabet_plain: "list_all (\<lambda>c. c \<notin> {0x20, 0x0A, 0x0D, 0x3D} \<and> c \<le> 127) base64_alphabet"
  by (simp add: base64_alphabet_def)

lemma enc_char_alphabet:
  assumes "v < 64"
  shows "mbedtls_ct_base64_enc_char v = base64_alphabet ! unat v" "unat v < 64"
proof -
  show l: "unat v < 64" using assms by (simp add: word_less_nat_alt)
  have "map (\<lambda>k. mbedtls_ct_base64_enc_char (word_of_nat k)) [0..<64] ! unat v = mbedtls_ct_base64_enc_char v"
    using l by simp
  then show "mbedtls_ct_base64_enc_char v = base64_alphabet ! unat v" by (simp add: enc_table)
qed

lemma enc_char_plain:
  assumes "v < 64"
  shows "mbedtls_ct_base64_dec_value (mbedtls_ct_base64_enc_char v) = uint v"
    "mbedtls_ct_base64_enc_char v \<notin> {0x20, 0x0A, 0x0D, 0x3D}" "mbedtls_ct_base64_enc_char v \<le> 127"
proof -
  note e = enc_char_alphabet [OF assms]
  have l: "length base64_alphabet = 64" by (simp add: base64_alphabet_def)
  have "map mbedtls_ct_base64_dec_value base64_alphabet ! unat v = mbedtls_ct_base64_dec_value (base64_alphabet ! unat v)"
    using e(2) l by simp
  then show "mbedtls_ct_base64_dec_value (mbedtls_ct_base64_enc_char v) = uint v" using e by (simp add: dec_table)
  have "base64_alphabet ! unat v \<in> set base64_alphabet" using e(2) l by simp
  then have "base64_alphabet ! unat v \<notin> {0x20, 0x0A, 0x0D, 0x3D} \<and> base64_alphabet ! unat v \<le> 127"
    using alphabet_plain unfolding list_all_iff by blast
  then show "mbedtls_ct_base64_enc_char v \<notin> {0x20, 0x0A, 0x0D, 0x3D}" "mbedtls_ct_base64_enc_char v \<le> 127"
    unfolding e(1) by simp_all
qed

text \<open>A digit in either pass.\<close>

lemma digit_step:
  assumes "v < 64"
  shows "base64_output (mbedtls_ct_base64_enc_char v # src) x a out =
    (let x = push_bit 6 x OR ucast v
     in if a + 1 = 4 then base64_output src x 0 (out @ [mbedtls_byte 2 x, mbedtls_byte 1 x, mbedtls_byte 0 x])
        else base64_output src x (a + 1) out)"
    and "base64_check (mbedtls_ct_base64_enc_char v # src) n 0 = base64_check src (n + 1) 0"
proof -
  have "word_of_int (uint v) = (ucast v :: u32)" by simp
  then show "base64_output (mbedtls_ct_base64_enc_char v # src) x a out =
    (let x = push_bit 6 x OR ucast v
     in if a + 1 = 4 then base64_output src x 0 (out @ [mbedtls_byte 2 x, mbedtls_byte 1 x, mbedtls_byte 0 x])
        else base64_output src x (a + 1) out)"
    using enc_char_plain [OF assms] by (simp add: Let_def)
  show "base64_check (mbedtls_ct_base64_enc_char v # src) n 0 = base64_check src (n + 1) 0"
    using enc_char_plain [OF assms] leD [OF enc_char_plain(3) [OF assms]] by (subst base64_check.simps) simp
qed

lemma digit_small: "ucast (w AND 0x3F :: u32) < (64 :: u8)"
proof -
  have "w AND 0x3F = take_bit 6 w" by (simp add: take_bit_eq_mask mask_eq_exp_minus_1)
  moreover have "unat (take_bit 6 w) < 64"
    using take_bit_nat_less_exp [of 6 "unat w"] by (simp add: unsigned_take_bit_eq)
  moreover from this have "unat (ucast (take_bit 6 w) :: u8) = unat (take_bit 6 w)"
    by (simp add: unsigned_ucast_eq take_bit_nat_eq_self_iff)
  ultimately show ?thesis unfolding word_less_nat_alt by simp
qed

text \<open>The four digits of three bytes put the bytes back together.\<close>

abbreviation "sextet1 C1 \<equiv> ucast (drop_bit 2 C1 AND 0x3F :: u32) :: u8"
abbreviation "sextet2 C1 C2 \<equiv> ucast ((push_bit 4 (C1 AND 3) + drop_bit 4 C2) AND 0x3F :: u32) :: u8"
abbreviation "sextet3 C2 C3 \<equiv> ucast ((push_bit 2 (C2 AND 15) + drop_bit 6 C3) AND 0x3F :: u32) :: u8"
abbreviation "sextet4 C3 \<equiv> ucast (C3 AND 0x3F :: u32) :: u8"

lemma bit_small: "\<not> bit (ucast (c :: u8) :: u32) n" if "8 \<le> n"
  using that by (auto simp: bit_simps dest: bit_imp_le_length)

lemma add_shifted:
  fixes c :: u8
  assumes "k + j = 8"
  shows "push_bit k w + drop_bit j (ucast c) = push_bit k w OR drop_bit j (ucast c :: u32)"
proof (rule disjunctive_add)
  fix n
  have "\<not> bit (push_bit k w) n" if "n < k" using that by (simp only: bit_push_bit_iff) simp
  moreover have "\<not> bit (drop_bit j (ucast c :: u32)) n" if "k \<le> n"
    using that assms bit_small [of "j + n" c] by (simp add: bit_drop_bit_eq)
  ultimately show "\<not> bit (push_bit k w) n \<or> \<not> bit (drop_bit j (ucast c :: u32)) n" by (meson not_le)
qed

lemma join_digits:
  fixes c1 c2 c3 :: u8 and x :: u32
  defines "x2 \<equiv> push_bit 6 (push_bit 6 x OR ucast (sextet1 (ucast c1))) OR ucast (sextet2 (ucast c1) (ucast c2))"
  defines "x3 \<equiv> push_bit 6 x2 OR ucast (sextet3 (ucast c2) (ucast c3))"
  defines "x4 \<equiv> push_bit 6 x3 OR ucast (sextet4 (ucast c3))"
  shows "mbedtls_byte 2 x4 = c1" "mbedtls_byte 1 x4 = c2" "mbedtls_byte 0 x4 = c3"
    "mbedtls_byte 2 (push_bit 6 x3) = c1" "mbedtls_byte 1 (push_bit 6 x3) = c2" "mbedtls_byte 2 (push_bit 12 x2) = c1"
proof -
  have add2: "push_bit 4 (ucast c1 AND 3) + drop_bit 4 (ucast c2) = push_bit 4 (ucast c1 AND 3) OR drop_bit 4 (ucast c2 :: u32)"
    and add3: "push_bit 2 (ucast c2 AND 15) + drop_bit 6 (ucast c3) = push_bit 2 (ucast c2 AND 15) OR drop_bit 6 (ucast c3 :: u32)"
    by (rule add_shifted, simp)+
  have cases: "P n" if "n < 8" "P 0" "P 1" "P 2" "P 3" "P 4" "P 5" "P 6" "P 7" for P and n :: nat
    using that by (simp add: numeral_eq_Suc less_Suc_eq) blast
  have byteI: "b = c" if "bit b 0 = bit c 0" "bit b 1 = bit c 1" "bit b 2 = bit c 2" "bit b 3 = bit c 3"
      "bit b 4 = bit c 4" "bit b 5 = bit c 5" "bit b 6 = bit c 6" "bit b 7 = bit c 7" for b c :: u8
    by (rule bit_word_eqI) (use cases [of _ "\<lambda>n. bit b n = bit c n"] that in simp)
  show "mbedtls_byte 2 x4 = c1" "mbedtls_byte 1 x4 = c2" "mbedtls_byte 0 x4 = c3" "mbedtls_byte 2 (push_bit 6 x3) = c1" "mbedtls_byte 1 (push_bit 6 x3) = c2" "mbedtls_byte 2 (push_bit 12 x2) = c1"
    unfolding x4_def x3_def x2_def add2 add3
    by (rule byteI; simp add: bit_mbedtls_byte bit_simps bit_byte; simp add: numeral_2_eq_2)+
qed

section \<open>Both passes on encoded text\<close>

lemma digits_step:
  fixes x :: u32
  assumes "d1 < 64" "d2 < 64" "d3 < 64" "d4 < 64"
  defines "x2 \<equiv> push_bit 6 (push_bit 6 x OR ucast d1) OR ucast d2"
  defines "x3 \<equiv> push_bit 6 x2 OR ucast d3"
  defines "x4 \<equiv> push_bit 6 x3 OR ucast d4"
  shows "base64_output (map mbedtls_ct_base64_enc_char [d1, d2, d3, d4] @ rest) x 0 out =
      base64_output rest x4 0 (out @ [mbedtls_byte 2 x4, mbedtls_byte 1 x4, mbedtls_byte 0 x4])"
    and "base64_output (map mbedtls_ct_base64_enc_char [d1, d2, d3] @ [0x3D]) x 0 out = (x3, 3, out)"
    and "base64_output (map mbedtls_ct_base64_enc_char [d1, d2] @ [0x3D, 0x3D]) x 0 out = (x2, 2, out)"
  unfolding x4_def x3_def x2_def
  by (simp_all add: digit_step [unfolded Let_def] assms(1-4) del: base64_output.simps(2)) simp_all

lemma output_groups: "base64_flush (base64_output (base64_groups src) x 0 out) = out @ src"
proof (induction src arbitrary: x out rule: base64_groups.induct [case_names group empty single double])
  case (group c1 c2 c3 src)
  note d = digits_step(1) [OF digit_small digit_small digit_small digit_small, of _ _ _ _ _ x out]
  show ?case using group [OF refl refl refl]
    unfolding base64_groups.simps Let_def d [unfolded list.map] join_digits(1-3) by simp
next
  case empty
  then show ?case by (simp add: base64_flush_def)
next
  case (single c1)
  note d = digits_step(3) [OF digit_small digit_small digit_small digit_small, of _ _ x out]
  have g: "base64_groups [c1] = map mbedtls_ct_base64_enc_char [sextet1 (ucast c1), sextet2 (ucast c1) (ucast (0 :: u8))] @ [0x3D, 0x3D]"
    by (simp add: Let_def)
  show ?case unfolding g d base64_flush_def prod.case join_digits(6) by simp
next
  case (double c1 c2)
  note d = digits_step(2) [OF digit_small digit_small digit_small digit_small, of _ _ _ x out]
  have g: "base64_groups [c1, c2] = map mbedtls_ct_base64_enc_char [sextet1 (ucast c1), sextet2 (ucast c1) (ucast c2),
      sextet3 (ucast c2) (ucast (0 :: u8))] @ [0x3D]"
    by (simp add: Let_def)
  show ?case unfolding g d base64_flush_def prod.case join_digits(4,5) by simp
qed

lemma equal_step: "base64_check (0x3D # src) n equals =
  (if equals + 1 > 2 then Inl MBEDTLS_ERR_BASE64_INVALID_CHARACTER else base64_check src (n + 1) (equals + 1))"
  by (subst base64_check.simps) simp

lemma check_end: "base64_check [] n equals = Inr (n, equals)"
  by (subst base64_check.simps) simp

lemma check_groups:
  "base64_check (base64_groups src) n 0 = Inr (n + length (base64_groups src), (3 - length src mod 3) mod 3)"
  by (induction src arbitrary: n rule: base64_groups.induct)
    (simp_all add: Let_def digit_step(2) digit_small equal_step check_end del: One_nat_def)

lemma length_groups: "length (base64_groups src) = 4 * (length src div 3 + (if length src mod 3 \<noteq> 0 then 1 else 0))"
proof (induction src rule: base64_groups.induct [case_names group empty single double])
  case (group c1 c2 c3 src)
  have "length (c1 # c2 # c3 # src) = length src + 3" by simp
  then have "length (c1 # c2 # c3 # src) div 3 = length src div 3 + 1" "length (c1 # c2 # c3 # src) mod 3 = length src mod 3"
    by (simp_all only: div_add_self2 mod_add_self2 not_False_eq_True zero_neq_numeral not_sym)
  moreover have "length (base64_groups (c1 # c2 # c3 # src)) = 4 + length (base64_groups src)"
    by (simp only: base64_groups.simps Let_def length_append list.size)
  ultimately show ?case using group [OF refl refl refl] by (simp only:) simp
qed (simp_all add: Let_def)

section \<open>Line breaks\<close>

text \<open>
  A text broken into lines: line feeds, with or without a carriage return, anywhere between the
  characters, with spaces before them, and spaces at the end of the text.
\<close>

inductive broken_into_lines :: "bytes \<Rightarrow> bytes \<Rightarrow> bool" where
  text_end: "broken_into_lines (replicate k 0x20) []"
| text_char: "c \<notin> {0x20, 0x0D, 0x0A} \<Longrightarrow> broken_into_lines t d \<Longrightarrow> broken_into_lines (c # t) (c # d)"
| text_lf: "broken_into_lines t d \<Longrightarrow> broken_into_lines (replicate k 0x20 @ 0x0A # t) d"
| text_crlf: "broken_into_lines t d \<Longrightarrow> broken_into_lines (replicate k 0x20 @ 0x0D # 0x0A # t) d"

lemma dropWhile_spaces: "dropWhile (\<lambda>c. c = 0x20) (replicate k 0x20 @ t) = dropWhile (\<lambda>c. c = (0x20 :: u8)) t"
  "dropWhile (\<lambda>c. c = 0x20) (replicate k (0x20 :: u8)) = []"
  by (induction k) simp_all

lemma check_plain_char:
  assumes "c \<notin> {0x20, 0x0D, 0x0A}" "\<And>n e. base64_check t n e = base64_check d n e"
  shows "base64_check (c # t) n e = base64_check (c # d) n e"
  by (subst (1 2) base64_check.simps) (use assms in simp)

lemma check_lf: "base64_check (replicate k 0x20 @ 0x0A # t) n e = base64_check t n e"
  by (subst base64_check.simps) (simp add: dropWhile_spaces)

lemma check_crlf: "base64_check (replicate k 0x20 @ 0x0D # 0x0A # t) n e = base64_check t n e"
  by (subst base64_check.simps) (simp add: dropWhile_spaces check_lf [of 0, simplified])

lemma check_lines: "broken_into_lines t d \<Longrightarrow> base64_check t n e = base64_check d n e"
proof (induction arbitrary: n e rule: broken_into_lines.induct)
  case (text_end k)
  show ?case by (subst (1 2) base64_check.simps) (simp add: dropWhile_spaces)
next
  case (text_char c t d)
  then show ?case by (intro check_plain_char) simp_all
qed (simp_all add: check_lf check_crlf)

lemma output_spaces: "base64_output (replicate k 0x20 @ t) x a out = base64_output t x a out"
  by (induction k) simp_all

lemma output_lines: "broken_into_lines t d \<Longrightarrow> base64_output t x a out = base64_output d x a out"
proof (induction arbitrary: x a out rule: broken_into_lines.induct)
  case (text_end k)
  show ?case using output_spaces [of k "[]"] by simp
qed (simp_all add: output_spaces Let_def)

lemma decode_lines: "broken_into_lines t d \<Longrightarrow> mbedtls_base64_decode dst dlen t = mbedtls_base64_decode dst dlen d"
proof -
  assume l: "broken_into_lines t d"
  show ?thesis unfolding mbedtls_base64_decode_def check_lines [OF l] output_lines [OF l] ..
qed

lemma decode_groups:
  "mbedtls_base64_decode dst dlen (base64_groups src) =
    (if (src \<noteq> [] \<and> dst = None) \<or> dlen < length src
     then (MBEDTLS_ERR_BASE64_BUFFER_TOO_SMALL, dst, Some (length src))
     else (0, map_option (buffer_put 0 src) dst, Some (length src)))"
proof -
  let ?n = "length (base64_groups src)" and ?e = "(3 - length src mod 3) mod 3"
  have n: "?n mod 4 = 0" "?n div 4 * 3 - ?e = length src" "(?n - ?e) mod 4 \<noteq> 1"
    unfolding length_groups by (simp_all split: if_splits) presburger+
  show ?thesis
    unfolding mbedtls_base64_decode_def check_groups using n output_groups [of src 0 "[]"] by (simp add: Let_def)
qed

section \<open>What the decoder writes\<close>

lemma dec_cr: "mbedtls_ct_base64_dec_value 0x0D < 0"
  by (simp add: mbedtls_ct_base64_dec_value_def ct_in_range)

lemma check_accepts:
  assumes "base64_check src n e = Inr r"
  obtains (text_end) "dropWhile (\<lambda>c. c = 0x20) src = []" "r = (n, e)"
  | (line_break) c cs where "dropWhile (\<lambda>c. c = 0x20) src = c # cs" "c \<in> {0x0D, 0x0A}" "base64_check cs n e = Inr r"
  | (equal) cs where "src = 0x3D # cs" "e + 1 \<le> 2" "base64_check cs (n + 1) (e + 1) = Inr r"
  | (digit) c cs where "src = c # cs" "c \<notin> {0x20, 0x0D, 0x0A, 0x3D}" "e = 0" "base64_check cs (n + 1) 0 = Inr r"
proof (cases "dropWhile (\<lambda>c. c = 0x20) src")
  case Nil
  show thesis using assms unfolding base64_check.simps [of src] Let_def Nil by (intro text_end [OF Nil]) simp
next
  case (Cons c cs)
  then have c: "c \<noteq> 0x20" by (metis (full_types) dropWhile_eq_Cons_conv)
  show thesis
  proof (cases "c = 0x0A \<or> (c = 0x0D \<and> cs \<noteq> [] \<and> hd cs = 0x0A)")
    case True
    then have "base64_check cs n e = Inr r" using assms Cons by (subst (asm) base64_check.simps) (auto simp: Let_def Suc_le_eq)
    then show thesis using line_break Cons True by blast
  next
    case False
    then have r: "(if dropWhile (\<lambda>c. c = 0x20) src \<noteq> src then Inl MBEDTLS_ERR_BASE64_INVALID_CHARACTER
        else if c > 127 then Inl MBEDTLS_ERR_BASE64_INVALID_CHARACTER
        else if c = 0x3D then
          (if e + 1 > 2 then Inl MBEDTLS_ERR_BASE64_INVALID_CHARACTER else base64_check cs (n + 1) (e + 1))
        else if e \<noteq> 0 then Inl MBEDTLS_ERR_BASE64_INVALID_CHARACTER
        else if mbedtls_ct_base64_dec_value c < 0 then Inl MBEDTLS_ERR_BASE64_INVALID_CHARACTER
        else base64_check cs (n + 1) e) = Inr r"
      using assms Cons by (subst (asm) base64_check.simps) (auto simp: Let_def Suc_le_eq split: if_splits)
    then have s: "src = c # cs" using Cons by (simp split: if_splits)
    show thesis
    proof (cases "c = 0x3D")
      case True
      then show thesis using r s equal by (simp split: if_splits)
    next
      case c3D: False
      then have "c \<noteq> 0x0D" using r dec_cr by (auto split: if_splits)
      moreover have "e = 0" "base64_check cs (n + 1) 0 = Inr r" using r c3D by (auto split: if_splits)
      ultimately show thesis using digit s c c3D False by simp
    qed
  qed
qed

text \<open>The two passes agree on the number of digits.\<close>

lemma check_after_equals:
  "base64_check src n e = Inr (n', e') \<Longrightarrow> 0 < e \<Longrightarrow> e \<le> n \<Longrightarrow> n' - e' = n - e \<and> e' \<le> n'"
proof (induction src arbitrary: n e rule: length_induct)
  case (1 src)
  from 1(2) show ?case
  proof (cases rule: check_accepts)
    case (line_break c cs)
    then have "length cs < length src" using length_dropWhile_le [of "\<lambda>c. c = 0x20" src] by simp
    then show ?thesis using 1 line_break by blast
  next
    case (equal cs)
    then show ?thesis using 1(1) [rule_format, of cs "n + 1" "e + 1"] 1(3,4) by simp
  qed (use 1(3,4) in auto)
qed

lemma output_dropWhile: "base64_output (dropWhile (\<lambda>c. c = 0x20) src) x a out = base64_output src x a out"
  by (induction src) simp_all

lemma check_counts:
  "base64_check src n 0 = Inr (n', e') \<Longrightarrow> a < 4 \<Longrightarrow>
   \<exists>x' a' out'. base64_output src x a out = (x', a', out') \<and> a' < 4 \<and>
     3 * a + 3 * (n' - e' - n) + 4 * length out = 4 * length out' + 3 * a' \<and> n \<le> n' - e' \<and> e' \<le> n'"
proof (induction src arbitrary: n x a out rule: length_induct)
  case (1 src)
  from 1(2) show ?case
  proof (cases rule: check_accepts)
    case text_end
    have "base64_output src x a out = (x, a, out)" using output_dropWhile [of src x a out] unfolding text_end(1) by simp
    then show ?thesis using text_end(2) 1(3) by simp
  next
    case (line_break c cs)
    then have l: "length cs < length src" using length_dropWhile_le [of "\<lambda>c. c = 0x20" src] by simp
    have "base64_output src x a out = base64_output cs x a out"
      using output_dropWhile [of src x a out] line_break(2) unfolding line_break(1) by auto
    then show ?thesis using 1(1) [rule_format, OF l line_break(3) 1(3), of x out] by simp
  next
    case (equal cs)
    then show ?thesis using 1(3) check_after_equals [of cs "n + 1" 1 n' e'] by simp
  next
    case (digit c cs)
    let ?x = "push_bit 6 x OR word_of_int (mbedtls_ct_base64_dec_value c)"
    have o: "base64_output src x a out =
        (if a + 1 = 4 then base64_output cs ?x 0 (out @ [mbedtls_byte 2 ?x, mbedtls_byte 1 ?x, mbedtls_byte 0 ?x])
         else base64_output cs ?x (a + 1) out)"
      using digit(1,2) by (simp add: Let_def)
    have l: "length cs < length src" using digit(1) by simp
    show ?thesis
    proof (cases "a + 1 = 4")
      case True
      then show ?thesis unfolding o
        using 1(1) [rule_format, OF l digit(4), of 0 ?x "out @ [mbedtls_byte 2 ?x, mbedtls_byte 1 ?x, mbedtls_byte 0 ?x]"] by auto
    next
      case False
      then show ?thesis unfolding o using 1(1) [rule_format, OF l digit(4), of "a + 1" ?x out] 1(3) by auto
    qed
  qed
qed

lemma check_equals_bound: "base64_check src n e = Inr (n', e') \<Longrightarrow> e \<le> 2 \<Longrightarrow> e' \<le> 2"
proof (induction src arbitrary: n e rule: length_induct)
  case (1 src)
  from 1(2) show ?case
  proof (cases rule: check_accepts)
    case (line_break c cs)
    then have "length cs < length src" using length_dropWhile_le [of "\<lambda>c. c = 0x20" src] by simp
    then show ?thesis using 1 line_break by blast
  next
    case (digit c cs)
    then show ?thesis using 1(1) [rule_format, of cs "n + 1" 0] by simp
  qed (use 1 in auto)
qed

lemma check_error: "base64_check src n e = Inl ret \<Longrightarrow> ret = MBEDTLS_ERR_BASE64_INVALID_CHARACTER"
proof (induction src arbitrary: n e rule: length_induct)
  case (1 src)
  have l: "length cs < length src" if "dropWhile (\<lambda>c. c = 0x20) src = c # cs" for c cs
    using that length_dropWhile_le [of "\<lambda>c. c = 0x20" src] by simp
  show ?case using 1(2) 1(1) [rule_format, OF l]
    by (subst (asm) base64_check.simps) (auto simp: Let_def split: list.splits if_splits)
qed

text \<open>So a text that the first pass accepts fills exactly the size that it computed.\<close>

lemma decode_result:
  "(\<forall>dst dlen. mbedtls_base64_decode dst dlen src = (MBEDTLS_ERR_BASE64_INVALID_CHARACTER, dst, None)) \<or>
   (\<exists>out. \<forall>dst dlen. mbedtls_base64_decode dst dlen src =
     (if (out \<noteq> [] \<and> dst = None) \<or> dlen < length out then (MBEDTLS_ERR_BASE64_BUFFER_TOO_SMALL, dst, Some (length out))
      else (0, map_option (buffer_put 0 out) dst, Some (length out))))"
proof (cases "base64_check src 0 0")
  case (Inl ret)
  then show ?thesis using check_error [OF Inl] by (simp add: mbedtls_base64_decode_def)
next
  case (Inr r)
  obtain n e where r: "base64_check src 0 0 = Inr (n, e)" using Inr by (cases r) auto
  show ?thesis
  proof (cases "(n - e) mod 4 = 1 \<or> n mod 4 \<noteq> 0")
    case True
    then show ?thesis using r by (auto simp: mbedtls_base64_decode_def)
  next
    case False
    obtain x' a' out' where o: "base64_output src 0 0 [] = (x', a', out')" "a' < 4" "3 * (n - e) = 4 * length out' + 3 * a'" "e \<le> n"
      using check_counts [OF r, of 0 0 "[]"] by auto
    let ?out = "base64_flush (base64_output src 0 0 [])"
    have "length ?out = length out' + (if a' = 3 then 2 else if a' = 2 then 1 else 0)" by (simp add: base64_flush_def o(1))
    moreover have "e \<le> 2" using check_equals_bound [OF r] by simp
    ultimately have "n div 4 * 3 - e = length ?out" using False o(2-4) by (auto split: if_splits)
    then show ?thesis using r False by (intro disjI2 exI [of _ ?out]) (auto simp: mbedtls_base64_decode_def Let_def)
  qed
qed

section \<open>Properties\<close>

text \<open>C35: Decoding inverts encoding: the text that the encoder writes for any input that is not empty, broken into lines
  in any way (line feeds with or without carriage returns, spaces before them and at the end),
  decodes to exactly that input, in any output buffer that is large enough, and asking for the
  size with a null buffer returns the length of the input.\<close>

theorem base64_roundtrip:
  assumes "mbedtls_base64_encode (Some buf) dlen src = (0, Some text, len)" "dlen \<le> length buf"
    and "broken_into_lines t (take len text)" "length src \<le> dlen'" "src \<noteq> []"
  shows "mbedtls_base64_decode (Some out) dlen' t = (0, Some (buffer_put 0 src out), Some (length src)) \<and>
    mbedtls_base64_decode None 0 t = (MBEDTLS_ERR_BASE64_BUFFER_TOO_SMALL, None, Some (length src))"
proof -
  have "text = buffer_put 0 (base64_groups src @ [0]) buf" "len = length (base64_groups src)"
    using assms(1,5) by (auto simp: mbedtls_base64_encode_def Let_def split: if_splits)
  then have "take len text = base64_groups src" by (simp add: buffer_put_def)
  then show ?thesis using decode_lines [OF assms(3)] assms(4,5) by (simp add: decode_groups)
qed

theorem base64_roundtrip_witness:
  "mbedtls_base64_decode (Some (replicate 4 0)) 4 [0x54, 0x57, 0x0A, 0x46, 0x75, 0x20] = (0, Some [77, 97, 110, 0], Some 3)"
proof -
  have e: "mbedtls_base64_encode (Some (replicate 5 0)) 5 [77, 97, 110] = (0, Some [0x54, 0x57, 0x46, 0x75, 0], 4)"
    by (simp add: mbedtls_base64_encode_def Let_def mbedtls_ct_base64_enc_char_def ct_in_range buffer_put_def)
  have "broken_into_lines [0x20] []" using text_end [of 1] by simp
  then have "broken_into_lines ([0x54, 0x57] @ 0x0A # [0x46, 0x75, 0x20]) [0x54, 0x57, 0x46, 0x75]"
    using text_lf [of "[0x46, 0x75, 0x20]" "[0x46, 0x75]" 0] text_char [of "0x46" "[0x75, 0x20]" "[0x75]"] text_char [of "0x75" "[0x20]" "[]"]
    by (auto intro!: text_char)
  then show ?thesis using base64_roundtrip [OF e, of "[0x54, 0x57, 0x0A, 0x46, 0x75, 0x20]" 4 "replicate 4 0"]
    by (simp add: buffer_put_def)
qed

text \<open>C36: Whatever its input, the decoder returns an invalid-character error without writing anything,
  or has found out the exact size of its output: it then asks for more room, or writes exactly
  that many bytes at the start of the buffer; the size does not depend on the buffer, so the size
  query is exact, and the internal consistency check never fails.\<close>

theorem base64_decode_size:
  "mbedtls_base64_decode (Some buf) dlen src = (MBEDTLS_ERR_BASE64_INVALID_CHARACTER, Some buf, None) \<and>
     mbedtls_base64_decode None 0 src = (MBEDTLS_ERR_BASE64_INVALID_CHARACTER, None, None) \<or>
   (\<exists>out. mbedtls_base64_decode (Some buf) dlen src =
       (if dlen < length out then (MBEDTLS_ERR_BASE64_BUFFER_TOO_SMALL, Some buf, Some (length out))
        else (0, Some (buffer_put 0 out buf), Some (length out))) \<and>
     mbedtls_base64_decode None 0 src =
       (if out = [] then 0 else MBEDTLS_ERR_BASE64_BUFFER_TOO_SMALL, None, Some (length out)))"
  using decode_result [of src]
proof
  assume "\<exists>out. \<forall>dst dlen. mbedtls_base64_decode dst dlen src =
     (if (out \<noteq> [] \<and> dst = None) \<or> dlen < length out then (MBEDTLS_ERR_BASE64_BUFFER_TOO_SMALL, dst, Some (length out))
      else (0, map_option (buffer_put 0 out) dst, Some (length out)))"
  then obtain out where "\<forall>dst dlen. mbedtls_base64_decode dst dlen src =
     (if (out \<noteq> [] \<and> dst = None) \<or> dlen < length out then (MBEDTLS_ERR_BASE64_BUFFER_TOO_SMALL, dst, Some (length out))
      else (0, map_option (buffer_put 0 out) dst, Some (length out)))" ..
  then show ?thesis by (intro disjI2 exI [of _ out]) simp
qed simp


end
