(* ===== verification/Bignum_Core.thy ===== *)
theory Bignum_Core
  imports Constant_Time Psa_Error
begin

text \<open>
  The core of big-number arithmetic, drivers/builtin/src/bignum_core.c, with the portable
  multiply-accumulate of bn_mul.h. Limbs have 64 bits and the host is little-endian
  (\<open>MBEDTLS_HAVE_INT64\<close>, \<open>MBEDTLS_HAVE_UDBL\<close>). An array of limbs is a list, its limb count the
  length of the list; an output array that the function overwrites whole is a result, one that it
  updates is an argument and a result. Where the code returns early on \<open>X == A\<close> only to skip a copy
  of an array onto itself, the values are the same and the test is left out. Limb counts are
  natural numbers: arrays are far smaller than \<open>2 ^ 31\<close> limbs.
\<close>

type_synonym mpi_uint = u64
type_synonym mpi = "u64 list"

abbreviation MBEDTLS_ERR_MPI_BUFFER_TOO_SMALL :: int where "MBEDTLS_ERR_MPI_BUFFER_TOO_SMALL \<equiv> -138"
abbreviation MBEDTLS_ERR_MPI_BAD_INPUT_DATA :: int where "MBEDTLS_ERR_MPI_BAD_INPUT_DATA \<equiv> -135"

definition CHARS_TO_LIMBS :: "nat \<Rightarrow> nat" where
  "CHARS_TO_LIMBS i = i div 8 + (if i mod 8 \<noteq> 0 then 1 else 0)"

definition GET_BYTE :: "mpi \<Rightarrow> nat \<Rightarrow> u8" where
  "GET_BYTE X i = ucast (drop_bit (i mod 8 * 8) (X ! (i div 8)) AND 0xff)"

text \<open>The limbs as the bytes of memory they occupy, on a little-endian host.\<close>

definition mpi_memory :: "mpi \<Rightarrow> bytes" where
  "mpi_memory X = concat (map put_uint64_le X)"

definition mpi_of_memory :: "bytes \<Rightarrow> mpi" where
  "mpi_of_memory b = map (\<lambda>i. get_uint64_le b (8 * i)) [0..<length b div 8]"

section \<open>Sizes and byte order\<close>

function clz_loop :: "mpi_uint \<Rightarrow> mpi_uint \<Rightarrow> nat \<Rightarrow> nat" where
  "clz_loop a m j =
    (if j < 64 then (if a AND m \<noteq> 0 then j else clz_loop a (drop_bit 1 m) (j + 1)) else j)"
  by pat_completeness auto
termination by (relation "measure (\<lambda>(a, m, j). 64 - j)") auto

declare clz_loop.simps [simp del]

definition mbedtls_mpi_core_clz :: "mpi_uint \<Rightarrow> nat" where
  "mbedtls_mpi_core_clz a = clz_loop a (push_bit 63 1) 0"

primrec bitlen_loop :: "mpi \<Rightarrow> nat \<Rightarrow> nat" where
  "bitlen_loop A 0 = 0"
| "bitlen_loop A (Suc i) =
    (if A ! i \<noteq> 0 then let j = 64 - mbedtls_mpi_core_clz (A ! i) in i * 64 + j else bitlen_loop A i)"

definition mbedtls_mpi_core_bitlen :: "mpi \<Rightarrow> nat" where
  "mbedtls_mpi_core_bitlen A = bitlen_loop A (length A)"

definition mbedtls_bswap64 :: "u64 \<Rightarrow> u64" where
  "mbedtls_bswap64 x =
    push_bit 56 (x AND 0x00000000000000ff) OR push_bit 40 (x AND 0x000000000000ff00) OR
    push_bit 24 (x AND 0x0000000000ff0000) OR push_bit 8 (x AND 0x00000000ff000000) OR
    drop_bit 8 (x AND 0x000000ff00000000) OR drop_bit 24 (x AND 0x0000ff0000000000) OR
    drop_bit 40 (x AND 0x00ff000000000000) OR drop_bit 56 (x AND 0xff00000000000000)"

definition mpi_bigendian_to_host :: "mpi_uint \<Rightarrow> mpi_uint" where
  "mpi_bigendian_to_host a = mbedtls_bswap64 a"

text \<open>The two pointers are indices; the loop stops when the left one passes the right one.\<close>

function bigendian_loop :: "mpi \<Rightarrow> nat \<Rightarrow> nat \<Rightarrow> mpi" where
  "bigendian_loop A left right =
    (if left \<le> right then
       let tmp = mpi_bigendian_to_host (A ! left);
           A = A[left := mpi_bigendian_to_host (A ! right)];
           A = A[right := tmp]
       in if right = 0 then A else bigendian_loop A (left + 1) (right - 1)
     else A)"
  by pat_completeness auto
termination by (relation "measure (\<lambda>(A, left, right). right + 1 - left)") auto

declare bigendian_loop.simps [simp del]

definition mbedtls_mpi_core_bigendian_to_host :: "mpi \<Rightarrow> mpi" where
  "mbedtls_mpi_core_bigendian_to_host A =
    (if length A = 0 then A else bigendian_loop A 0 (length A - 1))"

section \<open>Comparison and conditional moves\<close>

definition mbedtls_ct_mpi_uint_if :: "ct_condition \<Rightarrow> mpi_uint \<Rightarrow> mpi_uint \<Rightarrow> mpi_uint" where
  "mbedtls_ct_mpi_uint_if condition if1 if0 = mbedtls_ct_if condition if1 if0"

definition mbedtls_ct_mpi_uint_if_else_0 :: "ct_condition \<Rightarrow> mpi_uint \<Rightarrow> mpi_uint" where
  "mbedtls_ct_mpi_uint_if_else_0 condition if1 = condition AND if1"

definition mbedtls_mpi_core_uint_le_mpi :: "mpi_uint \<Rightarrow> mpi \<Rightarrow> ct_condition" where
  "mbedtls_mpi_core_uint_le_mpi lower A =
    (let min_le_lsl = mbedtls_ct_uint_ge (A ! 0) lower;
         msll_mask = fold (\<lambda>i m. mbedtls_ct_bool_or m (mbedtls_ct_bool (A ! i))) [1..<length A] 0
     in mbedtls_ct_bool_or msll_mask min_le_lsl)"

primrec lt_ct_loop :: "mpi \<Rightarrow> mpi \<Rightarrow> nat \<Rightarrow> ct_condition \<Rightarrow> ct_condition \<Rightarrow> ct_condition" where
  "lt_ct_loop A B 0 ret done = ret"
| "lt_ct_loop A B (Suc i) ret done =
    (let cond = mbedtls_ct_uint_lt (B ! i) (A ! i);
         done = mbedtls_ct_bool_or done cond;
         cond = mbedtls_ct_uint_lt (A ! i) (B ! i);
         ret = mbedtls_ct_bool_or ret (mbedtls_ct_bool_and cond (mbedtls_ct_bool_not done));
         done = mbedtls_ct_bool_or done cond
     in lt_ct_loop A B i ret done)"

definition mbedtls_mpi_core_lt_ct :: "mpi \<Rightarrow> mpi \<Rightarrow> nat \<Rightarrow> ct_condition" where
  "mbedtls_mpi_core_lt_ct A B limbs = lt_ct_loop A B limbs 0 0"

definition mbedtls_mpi_core_cond_assign :: "mpi \<Rightarrow> mpi \<Rightarrow> ct_condition \<Rightarrow> mpi" where
  "mbedtls_mpi_core_cond_assign X A assign = map2 (\<lambda>x a. mbedtls_ct_mpi_uint_if assign a x) X A"

definition mbedtls_mpi_core_cond_swap :: "mpi \<Rightarrow> mpi \<Rightarrow> ct_condition \<Rightarrow> mpi \<times> mpi" where
  "mbedtls_mpi_core_cond_swap X Y swap =
    (map2 (\<lambda>x y. mbedtls_ct_mpi_uint_if swap y x) X Y,
     map2 (\<lambda>x y. let tmp = x in mbedtls_ct_mpi_uint_if swap tmp y) X Y)"

section \<open>Import and export\<close>

definition mbedtls_mpi_core_read_le :: "mpi \<Rightarrow> bytes \<Rightarrow> int \<times> mpi" where
  "mbedtls_mpi_core_read_le X input =
    (if length X < CHARS_TO_LIMBS (length input) then (MBEDTLS_ERR_MPI_BUFFER_TOO_SMALL, X)
     else
       (0, fold (\<lambda>i X. X[i div 8 := X ! (i div 8) OR push_bit (i mod 8 * 8) (ucast (input ! i))])
         [0..<length input] (replicate (length X) 0)))"

definition mbedtls_mpi_core_read_be :: "mpi \<Rightarrow> bytes \<Rightarrow> int \<times> mpi" where
  "mbedtls_mpi_core_read_be X input =
    (if length X < CHARS_TO_LIMBS (length input) then (MBEDTLS_ERR_MPI_BUFFER_TOO_SMALL, X)
     else if length X = 0 then (0, X)
     else
       let X = replicate (length X) 0;
           overhead = length X * 8 - length input;
           X = (if length input \<noteq> 0 then mpi_of_memory (take overhead (mpi_memory X) @ input) else X)
       in (0, mbedtls_mpi_core_bigendian_to_host X))"

definition mbedtls_mpi_core_write_le :: "mpi \<Rightarrow> bytes \<Rightarrow> int \<times> bytes" where
  "mbedtls_mpi_core_write_le A output_buf =
    (let stored_bytes = length A * 8
     in if stored_bytes < length output_buf then
          (0, map (GET_BYTE A) [0..<stored_bytes] @ replicate (length output_buf - stored_bytes) 0)
        else if \<exists>i\<in>set [length output_buf..<stored_bytes]. GET_BYTE A i \<noteq> 0 then
          (MBEDTLS_ERR_MPI_BUFFER_TOO_SMALL, output_buf)
        else (0, map (GET_BYTE A) [0..<length output_buf]))"

definition mbedtls_mpi_core_write_be :: "mpi \<Rightarrow> bytes \<Rightarrow> int \<times> bytes" where
  "mbedtls_mpi_core_write_be X output_buf =
    (let stored_bytes = length X * 8
     in if stored_bytes < length output_buf then
          let p = map (\<lambda>i. GET_BYTE X (stored_bytes - 1 - i)) [0..<stored_bytes]
          in (0, replicate (length output_buf - stored_bytes) 0 @ p)
        else if \<exists>i\<in>set [length output_buf..<stored_bytes]. GET_BYTE X i \<noteq> 0 then
          (MBEDTLS_ERR_MPI_BUFFER_TOO_SMALL, output_buf)
        else (0, map (\<lambda>i. GET_BYTE X (length output_buf - 1 - i)) [0..<length output_buf]))"

section \<open>Shifts\<close>

primrec shift_r_bits :: "nat \<Rightarrow> mpi \<Rightarrow> nat \<Rightarrow> mpi_uint \<Rightarrow> mpi" where
  "shift_r_bits v1 X 0 r0 = X"
| "shift_r_bits v1 X (Suc i) r0 =
    (let r1 = push_bit (64 - v1) (X ! i);
         X = X[i := drop_bit v1 (X ! i)];
         X = X[i := X ! i OR r0]
     in shift_r_bits v1 X i r1)"

definition mbedtls_mpi_core_shift_r :: "mpi \<Rightarrow> nat \<Rightarrow> mpi" where
  "mbedtls_mpi_core_shift_r X count =
    (let limbs = length X; v0 = count div 64; v1 = count AND 63
     in if v0 > limbs \<or> (v0 = limbs \<and> v1 > 0) then replicate limbs 0
        else
          let X = (if v0 > 0 then
                fold (\<lambda>i X. X[i := 0]) [limbs - v0..<limbs] (fold (\<lambda>i X. X[i := X ! (i + v0)]) [0..<limbs - v0] X)
              else X)
          in if v1 > 0 then shift_r_bits v1 X limbs 0 else X)"

fun shift_l_bits :: "nat \<Rightarrow> mpi \<Rightarrow> mpi_uint \<Rightarrow> mpi" where
  "shift_l_bits v1 [] r0 = []"
| "shift_l_bits v1 (x # X) r0 =
    (let r1 = drop_bit (64 - v1) x;
         x = push_bit v1 x;
         x = x OR r0
     in x # shift_l_bits v1 X r1)"

text \<open>The first loop counts from \<open>limbs\<close> down to \<open>v0\<close>, the second from there down to zero; when
  \<open>v0 > limbs\<close> the second one starts at \<open>limbs\<close> and clears every limb.\<close>

definition mbedtls_mpi_core_shift_l :: "mpi \<Rightarrow> nat \<Rightarrow> mpi" where
  "mbedtls_mpi_core_shift_l X count =
    (let limbs = length X; v0 = count div 64; v1 = count AND 63;
         X = (if v0 > 0 then
             fold (\<lambda>i X. X[i - 1 := 0]) (rev [1..<min v0 limbs + 1])
               (fold (\<lambda>i X. X[i - 1 := X ! (i - v0 - 1)]) (rev [v0 + 1..<limbs + 1]) X)
           else X)
     in if v1 > 0 then take v0 X @ shift_l_bits v1 (drop v0 X) 0 else X)"

section \<open>Addition, subtraction, multiplication\<close>

fun add_loop :: "mpi_uint \<Rightarrow> mpi \<Rightarrow> mpi \<Rightarrow> mpi \<times> mpi_uint" where
  "add_loop c (a # A) (b # B) =
    (let t = c + a;
         c = of_bool (t < a);
         t = t + b;
         c = c + of_bool (t < b);
         (X, c) = add_loop c A B
     in (t # X, c))"
| "add_loop c _ _ = ([], c)"

definition mbedtls_mpi_core_add :: "mpi \<Rightarrow> mpi \<Rightarrow> mpi \<times> mpi_uint" where
  "mbedtls_mpi_core_add A B = add_loop 0 A B"

fun add_if_loop :: "ct_condition \<Rightarrow> mpi_uint \<Rightarrow> mpi \<Rightarrow> mpi \<Rightarrow> mpi \<times> mpi_uint" where
  "add_if_loop do_add c (x # X) (a # A) =
    (let add = mbedtls_ct_mpi_uint_if_else_0 do_add a;
         t = c + x;
         c = of_bool (t < x);
         t = t + add;
         c = c + of_bool (t < add);
         (X, c) = add_if_loop do_add c X A
     in (t # X, c))"
| "add_if_loop do_add c _ _ = ([], c)"

definition mbedtls_mpi_core_add_if :: "mpi \<Rightarrow> mpi \<Rightarrow> u32 \<Rightarrow> mpi \<times> mpi_uint" where
  "mbedtls_mpi_core_add_if X A cond = (let do_add = mbedtls_ct_bool (ucast cond) in add_if_loop do_add 0 X A)"

fun sub_loop :: "mpi_uint \<Rightarrow> mpi \<Rightarrow> mpi \<Rightarrow> mpi \<times> mpi_uint" where
  "sub_loop c (a # A) (b # B) =
    (let z = mbedtls_ct_mpi_uint_if (mbedtls_ct_uint_lt a c) 1 0;
         t = a - c;
         c = mbedtls_ct_mpi_uint_if (mbedtls_ct_uint_lt t b) 1 0 + z;
         (X, c) = sub_loop c A B
     in ((t - b) # X, c))"
| "sub_loop c _ _ = ([], c)"

definition mbedtls_mpi_core_sub :: "mpi \<Rightarrow> mpi \<Rightarrow> mpi \<times> mpi_uint" where
  "mbedtls_mpi_core_sub A B = sub_loop 0 A B"

fun mbedtls_mpi_core_sub_int :: "mpi \<Rightarrow> mpi_uint \<Rightarrow> mpi \<times> mpi_uint" where
  "mbedtls_mpi_core_sub_int [] c = ([], c)"
| "mbedtls_mpi_core_sub_int (s # A) c =
    (let t = s - c;
         c = of_bool (t > s);
         (X, c) = mbedtls_mpi_core_sub_int A c
     in (t # X, c))"

text \<open>
  One multiply-accumulate step, in the variant with a double-width type and in the one that splits
  the factors into halves: the pair of the new limb of \<open>d\<close> and of the new carry.
\<close>

definition muladdc_udbl :: "mpi_uint \<Rightarrow> mpi_uint \<Rightarrow> mpi_uint \<Rightarrow> mpi_uint \<Rightarrow> mpi_uint \<times> mpi_uint" where
  "muladdc_udbl s b c d =
    (let r = ucast s * (ucast b :: 128 word);
         r0 = ucast r;
         r1 = ucast (drop_bit 64 r);
         r0 = r0 + c; r1 = r1 + of_bool (r0 < c);
         r0 = r0 + d; r1 = r1 + of_bool (r0 < d)
     in (r0, r1))"

definition muladdc_halves :: "mpi_uint \<Rightarrow> mpi_uint \<Rightarrow> mpi_uint \<Rightarrow> mpi_uint \<Rightarrow> mpi_uint \<times> mpi_uint" where
  "muladdc_halves s b c d =
    (let b0 = drop_bit 32 (push_bit 32 b); b1 = drop_bit 32 b;
         s0 = drop_bit 32 (push_bit 32 s); s1 = drop_bit 32 s;
         rx = s0 * b1; r0 = s0 * b0;
         ry = s1 * b0; r1 = s1 * b1;
         r1 = r1 + drop_bit 32 rx;
         r1 = r1 + drop_bit 32 ry;
         rx = push_bit 32 rx; ry = push_bit 32 ry;
         r0 = r0 + rx; r1 = r1 + of_bool (r0 < rx);
         r0 = r0 + ry; r1 = r1 + of_bool (r0 < ry);
         r0 = r0 + c; r1 = r1 + of_bool (r0 < c);
         r0 = r0 + d; r1 = r1 + of_bool (r0 < d)
     in (r0, r1))"

text \<open>The carry, the pointers \<open>s\<close> and \<open>d\<close> as the limbs from there on, and the limbs of \<open>d\<close> passed.\<close>

type_synonym muladdc_state = "mpi_uint \<times> mpi \<times> mpi \<times> mpi"

fun MULADDC_X1_CORE :: "mpi_uint \<Rightarrow> muladdc_state \<Rightarrow> muladdc_state" where
  "MULADDC_X1_CORE b (c, s, d, passed) =
    (let (r0, r1) = muladdc_udbl (hd s) b c (hd d) in (r1, tl s, tl d, passed @ [r0]))"

definition MULADDC_X8_CORE :: "mpi_uint \<Rightarrow> muladdc_state \<Rightarrow> muladdc_state" where
  "MULADDC_X8_CORE b = MULADDC_X1_CORE b ^^ 8"

fun mla_excess :: "mpi_uint \<Rightarrow> mpi \<Rightarrow> mpi \<times> mpi_uint" where
  "mla_excess c [] = ([], c)"
| "mla_excess c (x # d) =
    (let x = x + c;
         c = mbedtls_ct_mpi_uint_if (mbedtls_ct_uint_lt x c) 1 0;
         (d, c) = mla_excess c d
     in (x # d, c))"

definition mbedtls_mpi_core_mla :: "mpi \<Rightarrow> mpi \<Rightarrow> mpi_uint \<Rightarrow> mpi \<times> mpi_uint" where
  "mbedtls_mpi_core_mla d s b =
    (let s_len = (if length d < length s then length d else length s);
         steps_x8 = s_len div 8;
         steps_x1 = s_len AND 7;
         st = (MULADDC_X8_CORE b ^^ steps_x8) (0, s, d, []);
         (c, s, d, passed) = (MULADDC_X1_CORE b ^^ steps_x1) st;
         (d, c) = mla_excess c d
     in (passed @ d, c))"

definition mbedtls_mpi_core_mul :: "mpi \<Rightarrow> mpi \<Rightarrow> mpi" where
  "mbedtls_mpi_core_mul A B =
    fold (\<lambda>i X. let n = length A + 1; d = take n (drop i X)
        in take i X @ fst (mbedtls_mpi_core_mla d A (B ! i)) @ drop (i + n) X)
      [0..<length B] (replicate (length A + length B) 0)"

definition mbedtls_mpi_core_check_zero_ct :: "mpi \<Rightarrow> ct_condition" where
  "mbedtls_mpi_core_check_zero_ct A = (let bits = fold (\<lambda>a bits. bits OR a) A 0 in mbedtls_ct_bool bits)"

end
