(* ===== verification/Bignum_Arith.thy ===== *)
theory Bignum_Arith
  imports Bignum_Core
begin

text \<open>
  The number that an array of limbs stands for, and what the loops of the core compute on it:
  addition and subtraction with carry and borrow, the multiply-accumulate row and the product.
\<close>

section \<open>The value of an array\<close>

definition limb_base :: nat where
  "limb_base = 2 ^ 64"

definition mpi_nat :: "mpi \<Rightarrow> nat" where
  "mpi_nat X = horner_sum unat limb_base X"

lemma mpi_nat_simps [simp]:
  "mpi_nat [] = 0" "mpi_nat (x # X) = unat x + limb_base * mpi_nat X"
  by (simp_all add: mpi_nat_def)

lemma mpi_nat_append [simp]: "mpi_nat (X @ Y) = mpi_nat X + limb_base ^ length X * mpi_nat Y"
  by (simp add: mpi_nat_def horner_sum_append)

lemma mpi_nat_zero [simp]: "mpi_nat (replicate n 0) = 0"
  by (induction n) simp_all

lemma limb_base_pos [simp]: "0 < limb_base" "limb_base \<noteq> 0" "1 < limb_base" "Suc 0 < limb_base"
  by (simp_all add: limb_base_def)

lemma limb_less [simp]: "unat (x :: u64) < limb_base"
  using unsigned_less [of x] by (simp add: limb_base_def)

lemma limb_le [simp]: "unat (x :: u64) \<le> limb_base - 1"
  using limb_less [of x] by linarith

lemma mpi_nat_less: "mpi_nat X < limb_base ^ length X"
proof (induction X)
  case (Cons x X)
  then have "limb_base * (mpi_nat X + 1) \<le> limb_base * limb_base ^ length X" by (intro mult_left_mono) simp_all
  with limb_less [of x] show ?case by (simp add: distrib_left del: limb_less)
qed simp

lemma mpi_nat_inj:
  assumes "length X = length Y" "mpi_nat X = mpi_nat Y"
  shows "X = Y"
  using assms
proof (induction X Y rule: list_induct2)
  case (Cons x X y Y)
  from Cons.prems have e: "unat x + limb_base * mpi_nat X = unat y + limb_base * mpi_nat Y" by simp
  from arg_cong [OF e, of "\<lambda>n. n mod limb_base"] have "unat x = unat y" by simp
  with e Cons.IH show ?case by (simp add: unsigned_word_eqI)
qed simp

lemma mpi_nat_mod: "X \<noteq> [] \<Longrightarrow> mpi_nat X mod limb_base = unat (X ! 0)"
  by (cases X) simp_all

lemma mpi_nat_take_drop: "mpi_nat X = mpi_nat (take k X) + limb_base ^ min k (length X) * mpi_nat (drop k X)"
  using mpi_nat_append [of "take k X" "drop k X"] by (simp add: min.commute)

lemma odd_mpi_nat: "X \<noteq> [] \<Longrightarrow> odd (mpi_nat X) \<longleftrightarrow> odd (unat (X ! 0))"
  by (cases X) (simp_all add: limb_base_def)

section \<open>Addition and subtraction\<close>

text \<open>A sum that wraps is smaller than either summand, and only by then.\<close>

lemma unat_add_base: "unat (x + y) = (unat x + unat y) mod limb_base" for x y :: u64
  by (simp add: unat_word_ariths limb_base_def)

lemma add_carry:
  "unat (x + y) + limb_base * of_bool (x + y < y) = unat x + unat y"
  "unat (x + y) + limb_base * of_bool (x + y < x) = unat x + unat y" for x y :: u64
proof -
  have c: "unat (x + y) + limb_base * of_bool (limb_base \<le> unat x + unat y) = unat x + unat y"
    using limb_less [of x] limb_less [of y] unfolding unat_add_base
    by (cases "limb_base \<le> unat x + unat y") (simp_all add: le_mod_geq del: limb_less)
  then have "x + y < y \<longleftrightarrow> limb_base \<le> unat x + unat y" "x + y < x \<longleftrightarrow> limb_base \<le> unat x + unat y"
    using limb_less [of x] limb_less [of y]
    by (cases "limb_base \<le> unat x + unat y"; simp add: word_less_nat_alt del: limb_less)+
  with c show "unat (x + y) + limb_base * of_bool (x + y < y) = unat x + unat y"
    "unat (x + y) + limb_base * of_bool (x + y < x) = unat x + unat y" by simp_all
qed

lemma sub_borrow: "unat (x - y) + unat y = unat x + limb_base * of_bool (x < y)" for x y :: u64
  using limb_less [of x] limb_less [of y] unfolding unat_diff
  by (auto simp: word_less_nat_alt limb_base_def simp del: limb_less)

lemma unat_of_bool [simp]: "unat (of_bool b :: u64) = of_bool b"
  by simp

lemma carry_step:
  fixes a b c :: u64
  assumes "unat c \<le> 1"
  defines "t \<equiv> c + a"
  shows "unat (t + b) + limb_base * unat (of_bool (t < a) + of_bool (t + b < b) :: u64) = unat a + unat b + unat c"
    and "unat (of_bool (t < a) + of_bool (t + b < b) :: u64) \<le> 1"
proof -
  have 1: "unat t + limb_base * of_bool (t < a) = unat c + unat a"
    and 2: "unat (t + b) + limb_base * of_bool (t + b < b) = unat t + unat b"
    unfolding t_def by (rule add_carry)+
  have "limb_base * (of_bool (t < a) + of_bool (t + b < b)) < limb_base * 2"
    using 1 2 limb_less [of a] limb_less [of b] assms(1)
    by (cases "t < a"; cases "t + b < b") (simp_all del: limb_less)
  then have le: "of_bool (t < a) + of_bool (t + b < b) \<le> (1 :: nat)" by (auto split: if_splits)
  then have s: "unat (of_bool (t < a) + of_bool (t + b < b) :: u64) = of_bool (t < a) + of_bool (t + b < b)" by auto
  from 1 2 show "unat (t + b) + limb_base * unat (of_bool (t < a) + of_bool (t + b < b) :: u64) = unat a + unat b + unat c"
    unfolding s by (simp add: distrib_left)
  show "unat (of_bool (t < a) + of_bool (t + b < b) :: u64) \<le> 1" unfolding s by (rule le)
qed

lemma add_loop_value:
  assumes "length A = length B" "unat c \<le> 1" "add_loop c A B = (X, c')"
  shows "length X = length A \<and> unat c' \<le> 1 \<and> mpi_nat X + limb_base ^ length A * unat c' = mpi_nat A + mpi_nat B + unat c"
  using assms
proof (induction A B arbitrary: c X c' rule: list_induct2)
  case (Cons a A b B)
  let ?t = "c + a" and ?c = "of_bool (c + a < a) + of_bool (c + a + b < b) :: u64"
  obtain X1 c1 where l: "add_loop ?c A B = (X1, c1)" by fastforce
  with Cons.prems(2) have X: "X = (?t + b) # X1" "c' = c1" by (simp_all add: Let_def)
  note s = carry_step [OF Cons.prems(1), of a b]
  from Cons.IH [OF s(2) l] have "length X1 = length A" "unat c1 \<le> 1"
    and v: "mpi_nat X1 + limb_base ^ length A * unat c1 = mpi_nat A + mpi_nat B + unat ?c" by simp_all
  have "mpi_nat X + limb_base ^ length (a # A) * unat c' =
      unat (?t + b) + limb_base * (mpi_nat X1 + limb_base ^ length A * unat c1)"
    by (simp add: X algebra_simps)
  also have "\<dots> = mpi_nat (a # A) + mpi_nat (b # B) + unat c"
    unfolding v using s(1) by (simp add: algebra_simps)
  finally show ?case using \<open>length X1 = length A\<close> \<open>unat c1 \<le> 1\<close> by (simp add: X)
qed simp

lemma core_add_value:
  assumes "length A = length B" "mbedtls_mpi_core_add A B = (X, c)"
  shows "length X = length A" "unat c \<le> 1" "mpi_nat X + limb_base ^ length A * unat c = mpi_nat A + mpi_nat B"
  using add_loop_value [OF assms(1) _ assms(2) [unfolded mbedtls_mpi_core_add_def]] by simp_all

lemma add_if_loop_eq:
  assumes "length X = length A"
  shows "add_if_loop (ct_mask do_add) c X A = add_loop c X (if do_add then A else replicate (length X) 0)"
  using assms
  by (induction X A arbitrary: c rule: list_induct2) (auto simp: mbedtls_ct_mpi_uint_if_else_0_def Let_def split_def)

lemma inj_ucast_zero: "(ucast w :: u64) = 0 \<longleftrightarrow> w = 0" for w :: u32
proof
  assume z: "(ucast w :: u64) = 0"
  show "w = 0"
  proof (rule bit_word_eqI)
    fix n assume "n < LENGTH(32)"
    with arg_cong [OF z, of "\<lambda>v. bit v n"] show "bit w n = bit (0 :: u32) n" by (simp add: bit_simps)
  qed
qed simp

lemma core_add_if_eq:
  "length X = length A \<Longrightarrow>
    mbedtls_mpi_core_add_if X A cond = mbedtls_mpi_core_add X (if cond \<noteq> 0 then A else replicate (length X) 0)"
proof -
  have "ucast cond = (0 :: u64) \<longleftrightarrow> cond = 0"
    by (rule inj_ucast_zero)
  then show "length X = length A \<Longrightarrow> ?thesis"
    by (simp add: mbedtls_mpi_core_add_if_def mbedtls_mpi_core_add_def ct_bool_eq add_if_loop_eq del: ct_mask_simps)
qed

lemma ct_mpi_uint_if [ct]: "mbedtls_ct_mpi_uint_if (ct_mask b) x y = (if b then x else y)"
  by (simp add: mbedtls_ct_mpi_uint_if_def ct)

lemma borrow_step:
  fixes a b c :: u64
  assumes "unat c \<le> 1"
  defines "t \<equiv> a - c"
  shows "unat (t - b) + unat b + unat c = unat a + limb_base * unat (of_bool (t < b) + of_bool (a < c) :: u64)"
    and "unat (of_bool (t < b) + of_bool (a < c) :: u64) \<le> 1"
proof -
  have 1: "unat t + unat c = unat a + limb_base * of_bool (a < c)"
    and 2: "unat (t - b) + unat b = unat t + limb_base * of_bool (t < b)"
    unfolding t_def by (rule sub_borrow)+
  have "limb_base * (of_bool (t < b) + of_bool (a < c)) < limb_base * 2"
    using 1 2 limb_less [of "t - b"] limb_less [of b] assms(1)
    by (cases "t < b"; cases "a < c") (simp_all del: limb_less)
  then have le: "of_bool (t < b) + of_bool (a < c) \<le> (1 :: nat)" by (auto split: if_splits)
  then have s: "unat (of_bool (t < b) + of_bool (a < c) :: u64) = of_bool (t < b) + of_bool (a < c)" by auto
  from 1 2 show "unat (t - b) + unat b + unat c = unat a + limb_base * unat (of_bool (t < b) + of_bool (a < c) :: u64)"
    unfolding s by (simp add: distrib_left)
  show "unat (of_bool (t < b) + of_bool (a < c) :: u64) \<le> 1" unfolding s by (rule le)
qed

lemma sub_loop_step:
  "sub_loop c (a # A) (b # B) =
    (let (X, c') = sub_loop (of_bool (a - c < b) + of_bool (a < c)) A B in ((a - c - b) # X, c'))"
  by (simp add: ct Let_def of_bool_def)

lemma sub_loop_value:
  assumes "length A = length B" "unat c \<le> 1" "sub_loop c A B = (X, c')"
  shows "length X = length A \<and> unat c' \<le> 1 \<and> mpi_nat X + mpi_nat B + unat c = mpi_nat A + limb_base ^ length A * unat c'"
  using assms
proof (induction A B arbitrary: c X c' rule: list_induct2)
  case (Cons a A b B)
  let ?t = "a - c" and ?c = "of_bool (a - c < b) + of_bool (a < c) :: u64"
  obtain X1 c1 where l: "sub_loop ?c A B = (X1, c1)" by fastforce
  with Cons.prems(2) have X: "X = (?t - b) # X1" "c' = c1" by (simp_all add: sub_loop_step del: sub_loop.simps)
  note s = borrow_step [OF Cons.prems(1), of a b]
  from Cons.IH [OF s(2) l] have "length X1 = length A" "unat c1 \<le> 1"
    and v: "mpi_nat X1 + mpi_nat B + unat ?c = mpi_nat A + limb_base ^ length A * unat c1" by simp_all
  have "mpi_nat X + mpi_nat (b # B) + unat c + limb_base * unat ?c =
      unat (?t - b) + unat b + unat c + limb_base * (mpi_nat X1 + mpi_nat B + unat ?c)"
    by (simp add: X algebra_simps)
  also have "\<dots> = mpi_nat (a # A) + limb_base ^ length (a # A) * unat c' + limb_base * unat ?c"
    unfolding v s(1) by (simp add: X algebra_simps)
  finally show ?case using \<open>length X1 = length A\<close> \<open>unat c1 \<le> 1\<close> by (simp add: X)
qed simp

lemma core_sub_value:
  assumes "length A = length B" "mbedtls_mpi_core_sub A B = (X, c)"
  shows "length X = length A" "unat c \<le> 1" "mpi_nat X + mpi_nat B = mpi_nat A + limb_base ^ length A * unat c"
  using sub_loop_value [OF assms(1) _ assms(2) [unfolded mbedtls_mpi_core_sub_def]] by simp_all

lemma core_sub_cases:
  assumes "length A = length B" "mbedtls_mpi_core_sub A B = (X, c)"
  shows "c = of_bool (mpi_nat A < mpi_nat B)"
    "mpi_nat X = (if mpi_nat A < mpi_nat B then limb_base ^ length A + mpi_nat A - mpi_nat B else mpi_nat A - mpi_nat B)"
proof -
  note v = core_sub_value [OF assms]
  have lt: "mpi_nat X < limb_base ^ length A" "mpi_nat B < limb_base ^ length A"
    using mpi_nat_less [of X] mpi_nat_less [of B] by (simp_all add: v(1) assms(1))
  from v(2) consider "unat c = 0" | "unat c = 1" by linarith
  then have "unat c = of_bool (mpi_nat A < mpi_nat B) \<and>
    mpi_nat X = (if mpi_nat A < mpi_nat B then limb_base ^ length A + mpi_nat A - mpi_nat B else mpi_nat A - mpi_nat B)"
    by cases (use v(3) lt in auto)
  then show "c = of_bool (mpi_nat A < mpi_nat B)"
    "mpi_nat X = (if mpi_nat A < mpi_nat B then limb_base ^ length A + mpi_nat A - mpi_nat B else mpi_nat A - mpi_nat B)"
    by (auto simp: word_unat_eq_iff)
qed

lemma core_sub_int_value:
  assumes "mbedtls_mpi_core_sub_int A c = (X, c')"
  shows "length X = length A \<and> mpi_nat X + unat c = mpi_nat A + limb_base ^ length A * unat c'"
  using assms
proof (induction A arbitrary: c X c')
  case (Cons s A)
  let ?c = "of_bool (s < s - c) :: u64"
  obtain X1 c1 where l: "mbedtls_mpi_core_sub_int A ?c = (X1, c1)" by fastforce
  with Cons.prems have X: "X = (s - c) # X1" "c' = c1" by (simp_all add: Let_def)
  have "s < s - c \<longleftrightarrow> s < c"
    using sub_borrow [of s c] limb_less [of c] limb_less [of "s - c"]
    by (cases "s < c") (simp_all add: word_less_nat_alt del: limb_less)
  then have b: "unat (s - c) + unat c = unat s + limb_base * unat ?c" using sub_borrow [of s c] by simp
  from Cons.IH [OF l] have v: "length X1 = length A" "mpi_nat X1 + unat ?c = mpi_nat A + limb_base ^ length A * unat c1" by simp_all
  have "mpi_nat X + unat c + limb_base * unat ?c = unat (s - c) + unat c + limb_base * (mpi_nat X1 + unat ?c)"
    by (simp add: X algebra_simps)
  also have "\<dots> = mpi_nat (s # A) + limb_base ^ length (s # A) * unat c' + limb_base * unat ?c"
    unfolding v b by (simp add: X algebra_simps)
  finally show ?case by (simp add: X v)
qed simp

section \<open>Multiply and accumulate\<close>

lemma limb_products: "unat x * unat y + unat c + unat d < limb_base * limb_base" for x y c d :: u64
proof -
  obtain m where m: "limb_base = Suc m" by (cases limb_base) simp_all
  have "unat x \<le> m" "unat y \<le> m" "unat c \<le> m" "unat d \<le> m" using limb_le m by (metis diff_Suc_1)+
  moreover from this have "unat x * unat y \<le> m * m" by (intro mult_mono) simp_all
  ultimately have "unat x * unat y + unat c + unat d \<le> m * m + m + m" by linarith
  also have "\<dots> < limb_base * limb_base" by (simp add: m)
  finally show ?thesis .
qed

lemma accumulate:
  fixes r0 r1 c :: u64
  assumes "unat r0 + limb_base * unat r1 + unat c = v" "v < limb_base * limb_base"
  shows "unat (r0 + c) + limb_base * unat (r1 + of_bool (r0 + c < c)) = v"
proof -
  from add_carry(1) [of r0 c] assms(1)
  have v: "unat (r0 + c) + limb_base * (unat r1 + of_bool (r0 + c < c)) = v" by (simp add: distrib_left)
  with assms(2) have "limb_base * (unat r1 + of_bool (r0 + c < c)) < limb_base * limb_base" by linarith
  then have "unat r1 + of_bool (r0 + c < c) < limb_base" by (simp only: mult_less_cancel1)
  then have "unat (r1 + of_bool (r0 + c < c)) = unat r1 + of_bool (r0 + c < c)" by (simp only: unat_add_base unat_of_bool) simp
  with v show ?thesis by (simp only:)
qed

lemma muladdc_udbl_value:
  "muladdc_udbl s b c d = (r0, r1) \<Longrightarrow> unat r0 + limb_base * unat r1 = unat s * unat b + unat c + unat d"
proof -
  define r where "r = ucast s * (ucast b :: 128 word)"
  have "unat s * unat b < 2 ^ 128" using limb_products [of s b 0 0] by (simp add: limb_base_def)
  moreover have "unat (ucast w :: 128 word) = unat w" for w :: u64
    using limb_less [of w] by (simp add: unsigned_ucast_eq take_bit_nat_eq_self_iff limb_base_def del: limb_less)
  ultimately have r: "unat r = unat s * unat b" by (simp add: r_def unat_word_ariths)
  have lo: "unat (ucast r :: u64) = unat r mod limb_base"
    by (simp add: unsigned_ucast_eq limb_base_def take_bit_eq_mod)
  have hi: "unat (ucast (drop_bit 64 r) :: u64) = unat r div limb_base"
  proof -
    have "unat r div limb_base < 2 ^ 64"
      using limb_products [of s b 0 0] by (simp add: r less_mult_imp_div_less) (simp add: limb_base_def)
    then have "take_bit 64 (unat r div 2 ^ 64) = unat r div 2 ^ 64"
      by (simp add: take_bit_nat_eq_self_iff limb_base_def)
    then show ?thesis unfolding unsigned_ucast_eq unat_drop_bit_eq unfolding drop_bit_eq_div limb_base_def by simp
  qed
  have 0: "unat (ucast r :: u64) + limb_base * unat (ucast (drop_bit 64 r) :: u64) = unat s * unat b"
    unfolding lo hi r by simp
  define p0 :: u64 where "p0 = ucast r"
  define p1 :: u64 where "p1 = ucast (drop_bit 64 r)"
  have 1: "unat (p0 + c) + limb_base * unat (p1 + of_bool (p0 + c < c)) = unat s * unat b + unat c"
    by (rule accumulate) (use 0 limb_products [of s b c 0] in \<open>simp_all add: p0_def p1_def\<close>)
  have 2: "unat (p0 + c + d) + limb_base * unat (p1 + of_bool (p0 + c < c) + of_bool (p0 + c + d < d)) = unat s * unat b + unat c + unat d"
    by (rule accumulate) (use 1 limb_products [of s b c d] in \<open>simp_all\<close>)
  show "muladdc_udbl s b c d = (r0, r1) \<Longrightarrow> ?thesis"
    using 2 unfolding muladdc_udbl_def Let_def r_def [symmetric] p0_def [symmetric] p1_def [symmetric] prod.inject
    by (auto simp only:)
qed

text \<open>Halves of a limb, in base \<open>2 ^ 32\<close>.\<close>

lemma limb_halves:
  "unat (drop_bit 32 (push_bit 32 x)) = unat x mod 2 ^ 32" "unat (drop_bit 32 x) = unat x div 2 ^ 32"
  "unat (push_bit 32 x) = unat x mod 2 ^ 32 * 2 ^ 32" for x :: u64
proof -
  have lt: "unat x < 2 ^ 64" using limb_less [of x] by (simp add: limb_base_def)
  have "unat (push_bit 32 x) = take_bit 64 (push_bit 32 (unat x))" by (simp add: unsigned_push_bit_eq)
  also have "\<dots> = push_bit 32 (take_bit 32 (unat x))" by (simp add: take_bit_push_bit)
  also have "\<dots> = unat x mod 2 ^ 32 * 2 ^ 32" by (simp only: push_bit_eq_mult take_bit_eq_mod)
  finally show push: "unat (push_bit 32 x) = unat x mod 2 ^ 32 * 2 ^ 32" .
  show "unat (drop_bit 32 (push_bit 32 x)) = unat x mod 2 ^ 32" "unat (drop_bit 32 x) = unat x div 2 ^ 32"
    unfolding unat_drop_bit_eq unfolding drop_bit_eq_div push by simp_all
qed

lemma half_product: "unat x < 2 ^ 32 \<Longrightarrow> unat y < 2 ^ 32 \<Longrightarrow> unat (x * y) = unat x * unat y" for x y :: u64
proof -
  assume "unat x < 2 ^ 32" "unat y < 2 ^ 32"
  then have "unat x * unat y < 2 ^ 32 * 2 ^ 32" by (rule mult_strict_mono) simp_all
  then show ?thesis by (simp add: unat_word_ariths)
qed

lemma unat_add_small: "unat x + unat y < limb_base \<Longrightarrow> unat (x + y) = unat x + unat y" for x y :: u64
  by (simp add: unat_add_base)

lemma muladdc_halves_value:
  "muladdc_halves s b c d = (r0, r1) \<Longrightarrow> unat r0 + limb_base * unat r1 = unat s * unat b + unat c + unat d"
proof -
  define H :: nat where "H = 2 ^ 32"
  define b0 b1 s0 s1 :: u64
    where "b0 = drop_bit 32 (push_bit 32 b)" and "b1 = drop_bit 32 b"
      and "s0 = drop_bit 32 (push_bit 32 s)" and "s1 = drop_bit 32 s"
  have base: "limb_base = H * H" and H: "0 < H" by (simp_all add: limb_base_def H_def)
  have halves: "unat b0 = unat b mod H" "unat b1 = unat b div H" "unat s0 = unat s mod H" "unat s1 = unat s div H"
    unfolding b0_def b1_def s0_def s1_def limb_halves H_def by simp_all
  have lt: "unat b0 < H" "unat s0 < H" "unat b1 < H" "unat s1 < H"
    unfolding halves using limb_less [of b] limb_less [of s] H by (simp_all add: base less_mult_imp_div_less del: limb_less)
  have prods: "unat (s0 * b1) = unat s0 * unat b1" "unat (s0 * b0) = unat s0 * unat b0"
    "unat (s1 * b0) = unat s1 * unat b0" "unat (s1 * b1) = unat s1 * unat b1"
    by (rule half_product; use lt in \<open>simp add: H_def\<close>)+
  define X where "X = unat s0 * unat b1"
  define Y where "Y = unat s1 * unat b0"
  have sb: "unat s = unat s0 + H * unat s1" "unat b = unat b0 + H * unat b1" unfolding halves by simp_all
  define p1 where "p1 = s1 * b1 + drop_bit 32 (s0 * b1) + drop_bit 32 (s1 * b0)"
  define rx ry where "rx = push_bit 32 (s0 * b1)" and "ry = push_bit 32 (s1 * b0)"
  have rxy: "unat rx = X mod H * H" "unat ry = Y mod H * H"
    unfolding rx_def ry_def limb_halves prods X_def Y_def H_def by simp_all
  have hi: "unat (drop_bit 32 (s0 * b1)) = X div H" "unat (drop_bit 32 (s1 * b0)) = Y div H"
    unfolding limb_halves prods X_def Y_def H_def by simp_all
  obtain m where m: "H = Suc m" using H by (cases H) simp_all
  have le: "unat s1 * unat b1 \<le> m * m" "X \<le> m * m" "Y \<le> m * m"
    unfolding X_def Y_def using lt by (auto simp: m intro!: mult_mono)
  then have "X div H < H" "Y div H < H" by (simp_all add: less_mult_imp_div_less m)
  with le have sum: "unat s1 * unat b1 + X div H + Y div H < limb_base" unfolding base by (simp add: m)
  have p1: "unat p1 = unat s1 * unat b1 + X div H + Y div H"
    unfolding p1_def using sum by (simp add: unat_add_small prods hi)
  have "unat s * unat b = unat s0 * unat b0 + limb_base * (unat s1 * unat b1) + H * X + H * Y"
    by (simp add: sb X_def Y_def base algebra_simps)
  moreover have "H * X = limb_base * (X div H) + unat rx" "H * Y = limb_base * (Y div H) + unat ry"
    unfolding rxy base by (metis div_mult_mod_eq distrib_left mult.assoc mult.commute)+
  ultimately have total: "unat (s0 * b0) + limb_base * unat p1 + unat rx + unat ry = unat s * unat b"
    unfolding p1 prods by (simp add: distrib_left)
  let ?a = "s0 * b0 + rx" let ?p = "p1 + of_bool (?a < rx)"
  have 1: "unat ?a + limb_base * unat ?p = unat (s0 * b0) + limb_base * unat p1 + unat rx"
    by (rule accumulate) (use total limb_products [of s b 0 0] in simp_all)
  let ?b = "?a + ry" let ?q = "?p + of_bool (?b < ry)"
  have 2: "unat ?b + limb_base * unat ?q = unat s * unat b"
    by (rule accumulate) (use 1 total limb_products [of s b 0 0] in simp_all)
  let ?c = "?b + c" let ?r = "?q + of_bool (?c < c)"
  have 3: "unat ?c + limb_base * unat ?r = unat s * unat b + unat c"
    by (rule accumulate) (use 2 limb_products [of s b c 0] in simp_all)
  let ?d = "?c + d" let ?s = "?r + of_bool (?d < d)"
  have 4: "unat ?d + limb_base * unat ?s = unat s * unat b + unat c + unat d"
    by (rule accumulate) (use 3 limb_products [of s b c d] in simp_all)
  have "muladdc_halves s b c d = (?d, ?s)"
    unfolding muladdc_halves_def Let_def b0_def [symmetric] b1_def [symmetric] s0_def [symmetric] s1_def [symmetric]
      p1_def [symmetric] rx_def [symmetric] ry_def [symmetric] by (rule refl)
  with 4 show "muladdc_halves s b c d = (r0, r1) \<Longrightarrow> ?thesis" by (simp only: prod.inject) (elim conjE, hypsubst)
qed

lemma limb_pair_unique:
  "unat r0 + limb_base * unat r1 = unat q0 + limb_base * unat q1 \<Longrightarrow> r0 = q0 \<and> r1 = q1" for r0 r1 q0 q1 :: u64
  using mpi_nat_inj [of "[r0, r1]" "[q0, q1]"] by simp

lemma muladdc_variants: "muladdc_halves s b c d = muladdc_udbl s b c d"
proof -
  obtain r0 r1 q0 q1 where r: "muladdc_halves s b c d = (r0, r1)" "muladdc_udbl s b c d = (q0, q1)" by fastforce
  from limb_pair_unique [OF trans [OF muladdc_halves_value [OF r(1)] muladdc_udbl_value [OF r(2), symmetric]]]
  show ?thesis unfolding r by (elim conjE, hypsubst, intro refl)
qed

section \<open>One row, and the product\<close>

lemma muladdc_steps:
  assumes "k \<le> length s" "k \<le> length d"
  shows "\<exists>c' passed'. (MULADDC_X1_CORE b ^^ k) (c, s, d, passed) = (c', drop k s, drop k d, passed @ passed') \<and>
    length passed' = k \<and> mpi_nat passed' + limb_base ^ k * unat c' = mpi_nat (take k d) + mpi_nat (take k s) * unat b + unat c"
  using assms
proof (induction k arbitrary: c s d passed)
  case (Suc k)
  from Suc.prems obtain x s' y d' where e: "s = x # s'" "d = y # d'" by (cases s; cases d) auto
  obtain r0 r1 where m: "muladdc_udbl x b c y = (r0, r1)" by fastforce
  have step: "MULADDC_X1_CORE b (c, x # s', y # d', passed) = (r1, s', d', passed @ [r0])" by (simp add: m)
  from Suc.IH [of s' d' r1 "passed @ [r0]"] Suc.prems e obtain c' p' where
    run: "(MULADDC_X1_CORE b ^^ k) (r1, s', d', passed @ [r0]) = (c', drop k s', drop k d', (passed @ [r0]) @ p')"
    and p': "length p' = k" "mpi_nat p' + limb_base ^ k * unat c' = mpi_nat (take k d') + mpi_nat (take k s') * unat b + unat r1"
    by auto
  have "mpi_nat (r0 # p') + limb_base ^ Suc k * unat c' = unat r0 + limb_base * (mpi_nat p' + limb_base ^ k * unat c')"
    by (simp add: algebra_simps)
  also have "\<dots> = mpi_nat (take (Suc k) d) + mpi_nat (take (Suc k) s) * unat b + unat c"
    unfolding p'(2) using muladdc_udbl_value [OF m] by (simp add: e algebra_simps)
  finally show ?case using p'(1) run
    by (auto simp: funpow_Suc_right step e simp del: funpow.simps MULADDC_X1_CORE.simps)
qed simp

lemma mla_excess_value:
  "mla_excess c d = (X, c') \<Longrightarrow> length X = length d \<and> mpi_nat X + limb_base ^ length d * unat c' = mpi_nat d + unat c"
proof (induction d arbitrary: c X c')
  case (Cons x d)
  let ?c = "of_bool (x + c < c) :: u64"
  obtain X1 c1 where l: "mla_excess ?c d = (X1, c1)" by fastforce
  with Cons.prems have X: "X = (x + c) # X1" "c' = c1" by (simp_all add: ct Let_def of_bool_def)
  from Cons.IH [OF l] have v: "length X1 = length d" "mpi_nat X1 + limb_base ^ length d * unat c1 = mpi_nat d + unat ?c" by simp_all
  have "mpi_nat X + limb_base ^ length (x # d) * unat c' = unat (x + c) + limb_base * (mpi_nat X1 + limb_base ^ length d * unat c1)"
    by (simp add: X algebra_simps)
  also have "\<dots> = mpi_nat (x # d) + unat c"
    unfolding v using add_carry(1) [of x c] by (simp add: algebra_simps)
  finally show ?case by (simp add: X v)
qed simp

lemma nat_and_7: "n AND 7 = n mod 8" for n :: nat
  using take_bit_eq_mask [of 3 n] by (simp add: take_bit_eq_mod mask_eq_exp_minus_1)

lemma core_mla_value:
  assumes "length s \<le> length d" "mbedtls_mpi_core_mla d s b = (X, c)"
  shows "length X = length d" "mpi_nat X + limb_base ^ length d * unat c = mpi_nat d + mpi_nat s * unat b"
proof -
  let ?n = "length s"
  obtain c1 p where run: "(MULADDC_X1_CORE b ^^ ?n) (0, s, d, []) = (c1, [], drop ?n d, p)"
    and p: "length p = ?n" "mpi_nat p + limb_base ^ ?n * unat c1 = mpi_nat (take ?n d) + mpi_nat s * unat b"
    using muladdc_steps [of ?n s d b 0 "[]"] assms(1) by auto
  have "(MULADDC_X1_CORE b ^^ (?n mod 8)) ((MULADDC_X8_CORE b ^^ (?n div 8)) (0, s, d, [])) =
      (MULADDC_X1_CORE b ^^ (?n mod 8 + 8 * (?n div 8))) (0, s, d, [])"
    unfolding MULADDC_X8_CORE_def funpow_mult funpow_add by simp
  then have whole: "(MULADDC_X1_CORE b ^^ (?n AND 7)) ((MULADDC_X8_CORE b ^^ (?n div 8)) (0, s, d, [])) = (c1, [], drop ?n d, p)"
    by (simp add: nat_and_7 run)
  obtain d2 c2 where ex: "mla_excess c1 (drop ?n d) = (d2, c2)" by fastforce
  from assms have X: "X = p @ d2" "c = c2"
    unfolding mbedtls_mpi_core_mla_def by (simp_all add: whole ex Let_def)
  from mla_excess_value [OF ex] have d2: "length d2 = length d - ?n"
    "mpi_nat d2 + limb_base ^ (length d - ?n) * unat c2 = mpi_nat (drop ?n d) + unat c1" by simp_all
  show "length X = length d" using assms(1) by (simp add: X p d2)
  have pow: "limb_base ^ length d = limb_base ^ ?n * limb_base ^ (length d - ?n)"
    using assms(1) by (simp flip: power_add)
  have "mpi_nat X + limb_base ^ length d * unat c = mpi_nat p + limb_base ^ ?n * (mpi_nat d2 + limb_base ^ (length d - ?n) * unat c2)"
    by (simp add: X p(1) pow algebra_simps)
  also have "\<dots> = mpi_nat d + mpi_nat s * unat b"
    unfolding d2(2) using p(2) mpi_nat_take_drop [of d ?n] assms(1) by (simp add: algebra_simps min_def)
  finally show "mpi_nat X + limb_base ^ length d * unat c = mpi_nat d + mpi_nat s * unat b" .
qed

lemma mla_window:
  fixes b :: mpi_uint
  assumes "i + n \<le> length X" "length s \<le> n"
  defines "X' \<equiv> take i X @ fst (mbedtls_mpi_core_mla (take n (drop i X)) s b) @ drop (i + n) X"
  shows "length X' = length X"
    and "mpi_nat X + limb_base ^ i * (mpi_nat s * unat b) < limb_base ^ (i + n) \<Longrightarrow>
      mpi_nat X' = mpi_nat X + limb_base ^ i * (mpi_nat s * unat b)"
proof -
  obtain Y c where m: "mbedtls_mpi_core_mla (take n (drop i X)) s b = (Y, c)" by fastforce
  have n: "length (take n (drop i X)) = n" using assms(1) by simp
  with assms(2) have "length s \<le> length (take n (drop i X))" by simp
  from core_mla_value [OF this m] have Y: "length Y = n"
    "mpi_nat Y + limb_base ^ n * unat c = mpi_nat (take n (drop i X)) + mpi_nat s * unat b" unfolding n by simp_all
  show "length X' = length X" using assms(1) Y by (simp add: X'_def m)
  have X: "mpi_nat X = mpi_nat (take i X) + limb_base ^ i * mpi_nat (take n (drop i X)) + limb_base ^ (i + n) * mpi_nat (drop (i + n) X)"
    using mpi_nat_take_drop [of X i] mpi_nat_take_drop [of "drop i X" n] assms(1)
    by (simp add: min_def algebra_simps power_add)
  have v: "mpi_nat X' + limb_base ^ (i + n) * unat c = mpi_nat X + limb_base ^ i * (mpi_nat s * unat b)"
  proof -
    have "mpi_nat X' + limb_base ^ (i + n) * unat c =
        mpi_nat (take i X) + limb_base ^ i * (mpi_nat Y + limb_base ^ n * unat c) + limb_base ^ (i + n) * mpi_nat (drop (i + n) X)"
      using assms(1) by (simp add: X'_def m Y(1) power_add algebra_simps min_def)
    also have "\<dots> = mpi_nat X + limb_base ^ i * (mpi_nat s * unat b)"
      unfolding Y(2) X by (simp add: algebra_simps)
    finally show ?thesis .
  qed
  assume small: "mpi_nat X + limb_base ^ i * (mpi_nat s * unat b) < limb_base ^ (i + n)"
  have "unat c = 0"
  proof (rule ccontr)
    assume "unat c \<noteq> 0"
    then have "limb_base ^ (i + n) * 1 \<le> limb_base ^ (i + n) * unat c" by (intro mult_left_mono) simp_all
    with v small show False by linarith
  qed
  with v show "mpi_nat X' = mpi_nat X + limb_base ^ i * (mpi_nat s * unat b)" by simp
qed

lemma core_mul_value:
  "length (mbedtls_mpi_core_mul A B) = length A + length B"
  "mpi_nat (mbedtls_mpi_core_mul A B) = mpi_nat A * mpi_nat B"
proof -
  let ?n = "length A + 1"
  let ?row = "\<lambda>i X. let d = take ?n (drop i X) in take i X @ fst (mbedtls_mpi_core_mla d A (B ! i)) @ drop (i + ?n) X"
  let ?X = "\<lambda>k. fold ?row [0..<k] (replicate (length A + length B) 0)"
  have inv: "length (?X k) = length A + length B \<and> mpi_nat (?X k) = mpi_nat A * mpi_nat (take k B)" if "k \<le> length B" for k
    using that
  proof (induction k)
    case (Suc k)
    from Suc have l: "length (?X k) = length A + length B" and v: "mpi_nat (?X k) = mpi_nat A * mpi_nat (take k B)" by simp_all
    from Suc.prems l have len: "k + ?n \<le> length (?X k)" "length A \<le> ?n" by simp_all
    have B: "mpi_nat (take (Suc k) B) = mpi_nat (take k B) + limb_base ^ k * unat (B ! k)"
      using Suc.prems by (simp add: take_Suc_conv_app_nth)
    then have total: "mpi_nat (?X k) + limb_base ^ k * (mpi_nat A * unat (B ! k)) = mpi_nat A * mpi_nat (take (Suc k) B)"
      unfolding v by (simp add: algebra_simps)
    have "mpi_nat (take (Suc k) B) < limb_base ^ Suc k"
      using mpi_nat_less [of "take (Suc k) B"] Suc.prems by (auto simp: min_def split: if_splits)
    then have "mpi_nat A * mpi_nat (take (Suc k) B) < limb_base ^ length A * limb_base ^ Suc k"
      using mpi_nat_less [of A] by (intro mult_strict_mono) simp_all
    also have "\<dots> = limb_base ^ (k + ?n)" by (simp add: power_add)
    finally have "mpi_nat (?X k) + limb_base ^ k * (mpi_nat A * unat (B ! k)) < limb_base ^ (k + ?n)" unfolding total .
    with mla_window [OF len, of "B ! k"] total l show ?case by (simp add: Let_def)
  qed simp
  from inv [of "length B"] show "length (mbedtls_mpi_core_mul A B) = length A + length B"
    "mpi_nat (mbedtls_mpi_core_mul A B) = mpi_nat A * mpi_nat B"
    unfolding mbedtls_mpi_core_mul_def by (simp_all add: Let_def)
qed

end
