(* ===== verification/Bignum_Bytes.thy ===== *)
theory Bignum_Bytes
  imports Bignum_Arith
begin

text \<open>
  Arrays of limbs as bits, as memory and as byte strings: the bits of the value and its bit length,
  the shifts, the bytes of the limbs, the exchange of byte order, and import and export in both byte
  orders.
\<close>

section \<open>Limbs in memory\<close>

lemma limb_bytes_eqI:
  fixes x y :: u64
  assumes "\<And>j. j < 8 \<Longrightarrow> mbedtls_byte j x = mbedtls_byte j y"
  shows "x = y"
proof (rule bit_word_eqI)
  fix n assume "n < LENGTH(64)"
  then have "mbedtls_byte (n div 8) x = mbedtls_byte (n div 8) y" by (intro assms) simp
  from arg_cong [OF this, of "\<lambda>w. bit w (n mod 8)"] show "bit x n = bit y n" by (simp add: bit_mbedtls_byte)
qed

lemma below_8: "j < 8 \<longleftrightarrow> j = 0 \<or> j = 1 \<or> j = 2 \<or> j = 3 \<or> j = 4 \<or> j = 5 \<or> j = 6 \<or> j = (7 :: nat)"
  by linarith

lemma nth_put_uint64_le: "j < 8 \<Longrightarrow> put_uint64_le x ! j = mbedtls_byte j x"
  unfolding below_8 by (elim disjE) (simp_all add: put_uint64_le_def)

lemma get_put_uint64_le:
  assumes "i + 8 \<le> length b" "take 8 (drop i b) = put_uint64_le x"
  shows "get_uint64_le b i = x"
proof (rule limb_bytes_eqI)
  fix j :: nat assume j: "j < 8"
  then have "mbedtls_byte j (get_uint64_le b i) = b ! (i + j)"
    unfolding below_8 by (elim disjE) (simp_all only: byte_get_uint64_le add_0_right)
  also have "\<dots> = mbedtls_byte j x"
    using arg_cong [OF assms(2), of "\<lambda>l. l ! j"] j assms(1) by (simp add: nth_put_uint64_le)
  finally show "mbedtls_byte j (get_uint64_le b i) = mbedtls_byte j x" .
qed

lemma length_put_uint64_le [simp]: "length (put_uint64_le x) = 8"
  by (simp add: put_uint64_le_def)

lemma length_mpi_memory [simp]: "length (mpi_memory X) = 8 * length X"
  by (induction X) (simp_all add: mpi_memory_def)

lemma mpi_memory_Cons: "mpi_memory (x # X) = put_uint64_le x @ mpi_memory X"
  by (simp add: mpi_memory_def)

lemma drop_mpi_memory: "i < length X \<Longrightarrow> take 8 (drop (8 * i) (mpi_memory X)) = put_uint64_le (X ! i)"
proof (induction X arbitrary: i)
  case (Cons x X)
  then show ?case by (cases i) (simp_all add: mpi_memory_Cons)
qed simp

lemma mpi_of_memory [simp]: "mpi_of_memory (mpi_memory X) = X"
  unfolding mpi_of_memory_def by (rule nth_equalityI) (simp_all add: get_put_uint64_le drop_mpi_memory)

section \<open>Bits of the value\<close>

lemma bit_horner_words:
  fixes X :: "'a::len word list"
  shows "bit (horner_sum unat (2 ^ LENGTH('a)) X) j \<longleftrightarrow>
    j div LENGTH('a) < length X \<and> bit (X ! (j div LENGTH('a))) (j mod LENGTH('a))"
proof (induction X arbitrary: j)
  case (Cons x X)
  let ?l = "LENGTH('a)" and ?h = "\<lambda>X :: 'a word list. horner_sum unat (2 ^ LENGTH('a)) X"
  have "unat x < 2 ^ ?l" by (rule unsigned_less)
  then have lo: "take_bit ?l (?h (x # X)) = unat x" and hi: "drop_bit ?l (?h (x # X)) = ?h X"
    by (simp_all add: take_bit_eq_mod drop_bit_eq_div)
  show ?case
  proof (cases "j < ?l")
    case True
    then have "bit (?h (x # X)) j \<longleftrightarrow> bit (take_bit ?l (?h (x # X))) j" by (simp only: bit_take_bit_iff simp_thms)
    then show ?thesis using True unfolding lo by (simp add: bit_unsigned_iff)
  next
    case False
    then have "bit (?h (x # X)) j \<longleftrightarrow> bit (drop_bit ?l (?h (x # X))) (j - ?l)"
      by (simp only: bit_drop_bit_eq comp_def) simp
    moreover have "j div ?l = Suc ((j - ?l) div ?l)" "j mod ?l = (j - ?l) mod ?l"
      using False by (simp_all add: le_div_geq le_mod_geq)
    ultimately show ?thesis unfolding hi by (simp add: Cons.IH)
  qed
qed simp

lemma bit_mpi_nat: "bit (mpi_nat X) j \<longleftrightarrow> j div 64 < length X \<and> bit (X ! (j div 64)) (j mod 64)"
  using bit_horner_words [of X j] by (simp add: mpi_nat_def limb_base_def)

lemma nat_less_by_bits: "(\<And>k. L \<le> k \<Longrightarrow> \<not> bit n k) \<Longrightarrow> n < 2 ^ L" for n :: nat
proof -
  assume "\<And>k. L \<le> k \<Longrightarrow> \<not> bit n k"
  then have "take_bit L n = n" by (intro bit_eqI) (auto simp: bit_take_bit_iff not_less[symmetric])
  then show ?thesis by (simp add: take_bit_nat_eq_self_iff)
qed

lemma nat_ge_by_bit: "bit n k \<Longrightarrow> 2 ^ k \<le> n" for n :: nat
  by (metis bit_iff_odd div_less even_zero not_le)

lemma clz_loop_value:
  assumes "j \<le> 64" "\<And>i. i < j \<Longrightarrow> \<not> bit a (63 - i)"
  shows "clz_loop a (drop_bit j (push_bit 63 1)) j \<le> 64 \<and> (\<forall>i<clz_loop a (drop_bit j (push_bit 63 1)) j. \<not> bit a (63 - i)) \<and>
    (clz_loop a (drop_bit j (push_bit 63 1)) j < 64 \<longrightarrow> bit a (63 - clz_loop a (drop_bit j (push_bit 63 1)) j))"
  using assms
proof (induction "64 - j" arbitrary: j)
  case 0
  then show ?case by (simp add: clz_loop.simps [of a _ 64])
next
  case (Suc k)
  then have j: "j < 64" by simp
  have bits: "bit (drop_bit j (push_bit 63 1) :: mpi_uint) i \<longleftrightarrow> i = 63 - j" for i
    unfolding bit_drop_bit_eq comp_def bit_push_bit_iff bit_1_iff using j by auto
  have test: "a AND drop_bit j (push_bit 63 1) \<noteq> 0 \<longleftrightarrow> bit a (63 - j)"
    unfolding bit_eq_iff [of "a AND _"] bit_and_iff unfolding bits using j by auto
  show ?case
  proof (cases "bit a (63 - j)")
    case True
    with test j Suc.prems show ?thesis by (subst (1 2 3 4) clz_loop.simps) simp
  next
    case False
    have next_j: "clz_loop a (drop_bit j (push_bit 63 1)) j = clz_loop a (drop_bit (Suc j) (push_bit 63 1)) (Suc j)"
      using False test j by (subst clz_loop.simps) simp
    have "\<not> bit a (63 - i)" if "i < Suc j" for i using that False Suc.prems(2) by (cases "i = j") simp_all
    with Suc.hyps(1) [of "Suc j"] Suc.hyps(2) j show ?thesis unfolding next_j by simp
  qed
qed

lemma core_clz_value:
  assumes "a \<noteq> 0"
  shows "mbedtls_mpi_core_clz a < 64" "bit a (63 - mbedtls_mpi_core_clz a)" "\<And>k. 63 - mbedtls_mpi_core_clz a < k \<Longrightarrow> \<not> bit a k"
proof -
  let ?r = "mbedtls_mpi_core_clz a"
  have r: "?r \<le> 64" "\<And>i. i < ?r \<Longrightarrow> \<not> bit a (63 - i)" "?r < 64 \<Longrightarrow> bit a (63 - ?r)"
    using clz_loop_value [of 0 a] by (simp_all add: mbedtls_mpi_core_clz_def)
  have zero: "\<not> bit a k" if "64 - ?r \<le> k" for k
  proof (cases "k < 64")
    case True
    with that r(1) r(2) [of "63 - k"] show ?thesis by simp
  qed (auto dest: bit_imp_le_length)
  show "?r < 64"
  proof (rule ccontr)
    assume "\<not> ?r < 64"
    then have "a = 0" using zero by (intro bit_word_eqI) simp
    with assms show False ..
  qed
  then show "bit a (63 - ?r)" "\<And>k. 63 - ?r < k \<Longrightarrow> \<not> bit a k" using r(3) zero by auto
qed

lemma bitlen_loop_value:
  "n \<le> length A \<Longrightarrow> bitlen_loop A n \<le> n * 64 \<and> mpi_nat (take n A) < 2 ^ bitlen_loop A n \<and>
    (0 < bitlen_loop A n \<longrightarrow> 2 ^ (bitlen_loop A n - 1) \<le> mpi_nat (take n A))"
proof (induction n)
  case (Suc n)
  show ?case
  proof (cases "A ! n = 0")
    case True
    then have "mpi_nat (take (Suc n) A) = mpi_nat (take n A)" using Suc.prems by (simp add: take_Suc_conv_app_nth)
    with True Suc show ?thesis by simp
  next
    case False
    let ?c = "mbedtls_mpi_core_clz (A ! n)"
    note c = core_clz_value [OF False]
    have b: "bitlen_loop A (Suc n) = n * 64 + (63 - ?c) + 1" using False c(1) by (simp add: Let_def)
    have idx: "(n * 64 + k) div 64 = n" "(n * 64 + k) mod 64 = k" if "k < 64" for k using that by simp_all
    have "bit (mpi_nat (take (Suc n) A)) (n * 64 + (63 - ?c))"
      using Suc.prems c(2) by (simp add: bit_mpi_nat idx)
    moreover have "\<not> bit (mpi_nat (take (Suc n) A)) k" if "n * 64 + (63 - ?c) + 1 \<le> k" for k
    proof (cases "k div 64 = n")
      case True
      then have "63 - ?c < k mod 64" using that by (simp add: modulo_nat_def)
      with True c(3) show ?thesis by (simp add: bit_mpi_nat)
    next
      case False
      have "n \<le> k div 64" using that by (simp add: less_eq_div_iff_mult_less_eq)
      with False show ?thesis by (simp add: bit_mpi_nat)
    qed
    ultimately have "mpi_nat (take (Suc n) A) < 2 ^ bitlen_loop A (Suc n)" "2 ^ (n * 64 + (63 - ?c)) \<le> mpi_nat (take (Suc n) A)"
      unfolding b by (auto intro: nat_less_by_bits nat_ge_by_bit simp del: One_nat_def)
    then show ?thesis unfolding b by simp
  qed
qed simp

lemma core_bitlen_value:
  "mbedtls_mpi_core_bitlen A \<le> length A * 64" "mpi_nat A < 2 ^ mbedtls_mpi_core_bitlen A"
  "0 < mbedtls_mpi_core_bitlen A \<Longrightarrow> 2 ^ (mbedtls_mpi_core_bitlen A - 1) \<le> mpi_nat A"
  using bitlen_loop_value [of "length A" A] by (simp_all add: mbedtls_mpi_core_bitlen_def)

section \<open>Shifts\<close>

lemma nat_and_63: "n AND 63 = n mod 64" for n :: nat
  using take_bit_eq_mask [of 6 n] by (simp add: take_bit_eq_mod mask_eq_exp_minus_1)

lemma mpi_nat_eq_by_bits:
  assumes "\<And>k. k < 64 * length X \<Longrightarrow> bit (X ! (k div 64)) (k mod 64) \<longleftrightarrow> bit n k" "\<And>k. 64 * length X \<le> k \<Longrightarrow> \<not> bit n k"
  shows "mpi_nat X = n"
proof (rule bit_eqI)
  fix k
  have "k div 64 < length X \<longleftrightarrow> k < 64 * length X" by (simp add: less_mult_imp_div_less div_less_iff_less_mult mult.commute)
  then show "bit (mpi_nat X) k \<longleftrightarrow> bit n k" unfolding bit_mpi_nat using assms [of k] by (cases "k < 64 * length X") auto
qed

lemma bit_limb_high: "\<not> bit (x :: mpi_uint) k" if "64 \<le> k"
  using that by (auto dest: bit_imp_le_length)

lemma shift_r_limbs:
  assumes "v \<le> length X"
  shows "fold (\<lambda>i X. X[i := 0]) [length X - v..<length X] (fold (\<lambda>i X. X[i := X ! (i + v)]) [0..<length X - v] X) =
    drop v X @ replicate v (0 :: mpi_uint)"
proof -
  let ?n = "length X"
  have move: "fold (\<lambda>i X. X[i := X ! (i + v)]) [0..<k] X = take k (drop v X) @ drop k X" if "k \<le> ?n - v" for k
    using that
  proof (induction k)
    case (Suc k)
    then have "fold (\<lambda>i X. X[i := X ! (i + v)]) [0..<Suc k] X = (take k (drop v X) @ drop k X)[k := X ! (k + v)]"
      by (simp add: nth_append add.commute)
    also have "\<dots> = take (Suc k) (drop v X) @ drop (Suc k) X"
      using Suc.prems by (intro nth_equalityI) (auto simp: nth_append nth_list_update not_less add.commute less_Suc_eq)
    finally show ?case .
  qed simp
  have clear: "fold (\<lambda>i X. X[i := 0]) [a..<b] Y = take a Y @ replicate (b - a) 0 @ drop b Y" if "a \<le> b" "b \<le> length Y" for a b and Y :: mpi
    using that
  proof (induction b rule: dec_induct)
    case (step b)
    then have "fold (\<lambda>i X. X[i := 0]) [a..<Suc b] Y = (take a Y @ replicate (b - a) 0 @ drop b Y)[b := 0]" by simp
    also have "\<dots> = take a Y @ replicate (Suc b - a) 0 @ drop (Suc b) Y"
      using step by (simp add: list_update_append Cons_nth_drop_Suc [symmetric] Suc_diff_le replicate_append_same [symmetric])
    finally show ?case .
  qed simp
  show ?thesis using assms by (simp add: move clear)
qed

lemma length_shift_r_bits [simp]: "length (shift_r_bits v X i r0) = length X"
  by (induction i arbitrary: X r0) (simp_all add: Let_def)

lemma nth_shift_r_bits:
  "i \<le> length X \<Longrightarrow> j < length X \<Longrightarrow> shift_r_bits v X i r0 ! j =
    (if i \<le> j then X ! j else drop_bit v (X ! j) OR (if Suc j = i then r0 else push_bit (64 - v) (X ! Suc j)))"
proof (induction i arbitrary: X r0)
  case (Suc i)
  let ?X = "X[i := drop_bit v (X ! i), i := drop_bit v (X ! i) OR r0]"
  have "shift_r_bits v X (Suc i) r0 = shift_r_bits v ?X i (push_bit (64 - v) (X ! i))" using Suc.prems by (simp add: Let_def)
  then show ?case using Suc.IH [of ?X "push_bit (64 - v) (X ! i)"] Suc.prems
    by (cases "i = j") (auto simp: nth_list_update)
qed simp

lemma shift_r_bits_value:
  assumes "0 < v" "v < 64"
  shows "mpi_nat (shift_r_bits v X (length X) 0) = drop_bit v (mpi_nat X)"
proof (rule mpi_nat_eq_by_bits)
  fix k assume "k < 64 * length (shift_r_bits v X (length X) 0)"
  define j m where "j = k div 64" and "m = k mod 64"
  have k: "k = 64 * j + m" "m < 64" by (simp_all add: j_def m_def)
  then have j: "j < length X" using \<open>k < _\<close> by simp
  have idx: "(v + k) div 64 = (if m + v < 64 then j else Suc j)" "(v + k) mod 64 = (if m + v < 64 then m + v else m + v - 64)"
  proof -
    have q: "(64 * a + r) div 64 = a" "(64 * a + r) mod 64 = r" if "r < 64" for a r :: nat using that by simp_all
    have e: "v + k = (if m + v < 64 then 64 * j + (m + v) else 64 * Suc j + (m + v - 64))" using k(1) by simp
    have "m + v - 64 < 64" using k(2) assms by linarith
    then show "(v + k) div 64 = (if m + v < 64 then j else Suc j)" "(v + k) mod 64 = (if m + v < 64 then m + v else m + v - 64)"
      unfolding e by (simp_all only: q split: if_split) simp_all
  qed
  show "bit (shift_r_bits v X (length X) 0 ! (k div 64)) (k mod 64) \<longleftrightarrow> bit (drop_bit v (mpi_nat X)) k"
    unfolding j_def [symmetric] m_def [symmetric] bit_drop_bit_eq comp_def bit_mpi_nat idx
    using j k(2) assms by (auto simp: nth_shift_r_bits bit_simps bit_limb_high add.commute)
next
  fix k assume "64 * length (shift_r_bits v X (length X) 0) \<le> k"
  then have "length X \<le> (v + k) div 64" by (simp add: less_eq_div_iff_mult_less_eq mult.commute)
  then show "\<not> bit (drop_bit v (mpi_nat X)) k" by (simp add: bit_drop_bit_eq bit_mpi_nat)
qed

lemma mpi_nat_drop: "v \<le> length X \<Longrightarrow> mpi_nat (drop v X) = mpi_nat X div limb_base ^ v"
proof -
  assume v: "v \<le> length X"
  then have "mpi_nat (take v X) < limb_base ^ v" using mpi_nat_less [of "take v X"] by (auto simp: min_def split: if_splits)
  with v mpi_nat_take_drop [of X v] show ?thesis by (simp add: min_def)
qed

lemma core_shift_r_value:
  "length (mbedtls_mpi_core_shift_r X count) = length X" "mpi_nat (mbedtls_mpi_core_shift_r X count) = mpi_nat X div 2 ^ count"
proof -
  let ?n = "length X" and ?v0 = "count div 64" and ?v1 = "count mod 64"
  have split: "(2 :: nat) ^ count = limb_base ^ ?v0 * 2 ^ ?v1"
    unfolding limb_base_def power_mult [symmetric] power_add [symmetric] by simp
  have lt: "?v1 < 64" by simp
  have "length (mbedtls_mpi_core_shift_r X count) = ?n \<and> mpi_nat (mbedtls_mpi_core_shift_r X count) = mpi_nat X div 2 ^ count"
  proof (cases "?v0 > ?n \<or> (?v0 = ?n \<and> ?v1 > 0)")
    case True
    then have "limb_base ^ ?n * 1 \<le> limb_base ^ ?v0 * 2 ^ ?v1"
      by (intro mult_le_mono power_increasing) (auto simp: Suc_le_eq)
    then have "limb_base ^ ?n \<le> 2 ^ count" unfolding split by simp
    then have "mpi_nat X < 2 ^ count" using mpi_nat_less [of X] by linarith
    then show ?thesis using True by (simp add: mbedtls_mpi_core_shift_r_def Let_def nat_and_63)
  next
    case False
    then have v0: "?v0 \<le> ?n" by simp
    define Y where "Y = (if ?v0 > 0 then drop ?v0 X @ replicate ?v0 0 else X)"
    have Y: "length Y = ?n" "mpi_nat Y = mpi_nat X div limb_base ^ ?v0"
      using v0 by (auto simp: Y_def mpi_nat_drop)
    have "mbedtls_mpi_core_shift_r X count = (if ?v1 > 0 then shift_r_bits ?v1 Y ?n 0 else Y)"
      unfolding mbedtls_mpi_core_shift_r_def Let_def nat_and_63 Y_def shift_r_limbs [OF v0] using False by auto
    then show ?thesis
      using Y shift_r_bits_value [of ?v1 Y] lt by (auto simp: split div_mult2_eq drop_bit_eq_div)
  qed
  then show "length (mbedtls_mpi_core_shift_r X count) = length X" "mpi_nat (mbedtls_mpi_core_shift_r X count) = mpi_nat X div 2 ^ count" by auto
qed

lemma shift_l_limbs:
  fixes X :: mpi
  assumes "0 < v"
  shows "fold (\<lambda>i X. X[i - 1 := 0]) (rev [1..<min v (length X) + 1])
      (fold (\<lambda>i X. X[i - 1 := X ! (i - v - 1)]) (rev [v + 1..<length X + 1]) X) =
    replicate (min v (length X)) 0 @ take (length X - v) X"
proof -
  let ?n = "length X"
  have move: "fold (\<lambda>i X. X[i - 1 := X ! (i - v - 1)]) (rev [k + 1..<?n + 1]) X = take k X @ take (?n - k) (drop (k - v) X)"
    if "v \<le> k" "k \<le> ?n" for k
    using that(2,1)
  proof (induction k rule: inc_induct)
    case (step k)
    have u: "rev [k + 1..<?n + 1] = rev [Suc k + 1..<?n + 1] @ [k + 1]"
      using step.hyps by (subst upt_conv_Cons) simp_all
    have kv: "k - v < Suc k" by simp
    have "fold (\<lambda>i X. X[i - 1 := X ! (i - v - 1)]) (rev [k + 1..<?n + 1]) X =
        (take (Suc k) X @ take (?n - Suc k) (drop (Suc k - v) X))[k := X ! (k - v)]"
      unfolding u using step assms kv by (simp add: nth_append)
    also have "\<dots> = take k X @ X ! (k - v) # take (?n - Suc k) (drop (Suc k - v) X)"
      using step.hyps by (simp add: list_update_append take_Suc_conv_app_nth)
    also have "\<dots> = take k X @ take (?n - k) (drop (k - v) X)"
    proof -
      have "drop (k - v) X = X ! (k - v) # drop (Suc k - v) X"
        using step.hyps step.prems by (subst Cons_nth_drop_Suc [symmetric]) (simp_all add: Suc_diff_le)
      then show ?thesis using step.hyps by (simp add: Suc_diff_Suc [symmetric])
    qed
    finally show ?case .
  qed simp
  have clear: "fold (\<lambda>i X. X[i - 1 := 0]) (rev [1..<k + 1]) Y = replicate k 0 @ drop k Y" if "k \<le> length Y" for k and Y :: mpi
    using that
  proof (induction k arbitrary: Y)
    case (Suc k)
    have "fold (\<lambda>i X. X[i - 1 := 0]) (rev [1..<Suc k + 1]) Y = fold (\<lambda>i X. X[i - 1 := 0]) (rev [1..<k + 1]) (Y[k := 0])" by simp
    also have "\<dots> = replicate (Suc k) 0 @ drop (Suc k) Y"
      using Suc.prems by (subst Suc.IH) (simp_all add: Cons_nth_drop_Suc [symmetric] replicate_append_same [symmetric])
    finally show ?case .
  qed simp
  show ?thesis
  proof (cases "v \<le> ?n")
    case True
    then show ?thesis using move [of v] clear [of v "take v X @ take (?n - v) (drop (v - v) X)"] by simp
  next
    case False
    then show ?thesis using clear [of ?n X] by (simp add: min_def)
  qed
qed

lemma limb_shift_l:
  fixes x r0 :: mpi_uint
  assumes "0 < v" "v < 64" "unat r0 < 2 ^ v"
  shows "unat (push_bit v x OR r0) + limb_base * unat (drop_bit (64 - v) x) = unat x * 2 ^ v + unat r0"
proof -
  have "push_bit v x OR r0 = push_bit v x + r0"
  proof (rule disjunctive_add [symmetric])
    fix n
    have "n < v" if "bit r0 n"
    proof -
      have "2 ^ n \<le> unat r0" by (rule nat_ge_by_bit) (use that in \<open>simp add: bit_unsigned_iff\<close>)
      with assms(3) have "(2 :: nat) ^ n < 2 ^ v" by linarith
      then show ?thesis by simp
    qed
    then show "\<not> bit (push_bit v x) n \<or> \<not> bit r0 n" unfolding bit_push_bit_iff by auto
  qed
  moreover have p: "unat (push_bit v x) = unat x mod 2 ^ (64 - v) * 2 ^ v"
  proof -
    have "unat (push_bit v x) = take_bit 64 (push_bit v (unat x))" by (simp add: unsigned_push_bit_eq)
    also have "\<dots> = push_bit v (take_bit (64 - v) (unat x))" by (simp add: take_bit_push_bit)
    finally show ?thesis by (simp only: push_bit_eq_mult take_bit_eq_mod)
  qed
  moreover have d: "unat (drop_bit (64 - v) x) = unat x div 2 ^ (64 - v)"
    unfolding unat_drop_bit_eq unfolding drop_bit_eq_div ..
  moreover have b: "limb_base = 2 ^ (64 - v) * 2 ^ v"
    unfolding limb_base_def using assms(2) by (simp flip: power_add)
  moreover have "unat x mod 2 ^ (64 - v) * 2 ^ v + unat r0 < limb_base"
  proof -
    have "(unat x mod 2 ^ (64 - v) + 1) * 2 ^ v \<le> 2 ^ (64 - v) * 2 ^ v" by (intro mult_right_mono) (simp_all add: Suc_le_eq)
    then show ?thesis using assms(3) unfolding b by (simp add: distrib_right)
  qed
  ultimately have "unat (push_bit v x OR r0) = unat x mod 2 ^ (64 - v) * 2 ^ v + unat r0" by (simp add: unat_add_small)
  then have "unat (push_bit v x OR r0) + limb_base * unat (drop_bit (64 - v) x) =
      (2 ^ (64 - v) * (unat x div 2 ^ (64 - v)) + unat x mod 2 ^ (64 - v)) * 2 ^ v + unat r0"
    unfolding d b by (simp only: distrib_left distrib_right ac_simps)
  then show ?thesis by (simp only: mult_div_mod_eq)
qed

lemma shift_l_bits_value:
  assumes "0 < v" "v < 64" "unat r0 < 2 ^ v"
  shows "\<exists>c. length (shift_l_bits v X r0) = length X \<and>
    mpi_nat (shift_l_bits v X r0) + limb_base ^ length X * c = mpi_nat X * 2 ^ v + unat r0"
  using assms(3)
proof (induction X arbitrary: r0)
  case Nil
  then show ?case by (auto intro: exI [of _ "unat r0"])
next
  case (Cons x X)
  let ?r1 = "drop_bit (64 - v) x"
  have "unat ?r1 < 2 ^ v"
  proof -
    have "unat ?r1 = unat x div 2 ^ (64 - v)" unfolding unat_drop_bit_eq unfolding drop_bit_eq_div ..
    moreover have "unat x < 2 ^ v * 2 ^ (64 - v)"
      using limb_less [of x] assms(2) unfolding limb_base_def by (simp flip: power_add del: limb_less)
    ultimately show ?thesis by (simp add: less_mult_imp_div_less)
  qed
  from Cons.IH [OF this] obtain c where c: "length (shift_l_bits v X ?r1) = length X"
    "mpi_nat (shift_l_bits v X ?r1) + limb_base ^ length X * c = mpi_nat X * 2 ^ v + unat ?r1" by blast
  have "mpi_nat (shift_l_bits v (x # X) r0) + limb_base ^ length (x # X) * c =
      unat (push_bit v x OR r0) + limb_base * (mpi_nat (shift_l_bits v X ?r1) + limb_base ^ length X * c)"
    by (simp add: Let_def algebra_simps)
  also have "\<dots> = mpi_nat (x # X) * 2 ^ v + unat r0"
    unfolding c(2) using limb_shift_l [OF assms(1,2) Cons.prems, of x] by (simp add: algebra_simps)
  finally show ?case using c(1) by (auto simp: Let_def)
qed

lemma core_shift_l_value:
  "length (mbedtls_mpi_core_shift_l X count) = length X"
  "mpi_nat (mbedtls_mpi_core_shift_l X count) = mpi_nat X * 2 ^ count mod limb_base ^ length X"
proof -
  let ?n = "length X" and ?v0 = "count div 64" and ?v1 = "count mod 64"
  have split: "(2 :: nat) ^ count = limb_base ^ ?v0 * 2 ^ ?v1"
    unfolding limb_base_def power_mult [symmetric] power_add [symmetric] by simp
  let ?m = "min ?v0 ?n"
  define Y where "Y = replicate ?m (0 :: mpi_uint) @ take (?n - ?v0) X"
  define Z where "Z = (if ?v1 > 0 then shift_l_bits ?v1 (take (?n - ?v0) X) 0 else take (?n - ?v0) X)"
  have "mbedtls_mpi_core_shift_l X count = (if ?v1 > 0 then take ?v0 Y @ shift_l_bits ?v1 (drop ?v0 Y) 0 else Y)"
    unfolding mbedtls_mpi_core_shift_l_def Let_def nat_and_63 Y_def
    using shift_l_limbs [of ?v0 X] by (cases "?v0 = 0") simp_all
  then have res: "mbedtls_mpi_core_shift_l X count = replicate ?m 0 @ Z"
    by (auto simp: Y_def Z_def min_def)
  obtain c where Z: "length Z = ?n - ?v0" "mpi_nat Z + limb_base ^ (?n - ?v0) * c = mpi_nat (take (?n - ?v0) X) * 2 ^ ?v1"
  proof (cases "?v1 > 0")
    case True
    from shift_l_bits_value [of ?v1 0 "take (?n - ?v0) X"] True that show thesis by (auto simp: Z_def)
  next
    case False
    then show thesis using that [of 0] by (simp add: Z_def)
  qed
  show "length (mbedtls_mpi_core_shift_l X count) = length X" unfolding res using Z(1) by simp
  have "mpi_nat (replicate ?m 0 @ Z) = mpi_nat X * 2 ^ count mod limb_base ^ ?n"
  proof (cases "?v0 \<le> ?n")
    case False
    then have "limb_base ^ ?n dvd 2 ^ count" unfolding split by (intro dvd_mult2 le_imp_power_dvd) simp
    then have "mpi_nat X * 2 ^ count mod limb_base ^ ?n = 0" by (simp add: dvd_mult)
    then show ?thesis using False Z(1) by (cases Z) simp_all
  next
    case True
    then have m: "?m = ?v0" by simp
    let ?k = "?n - ?v0"
    have pw: "limb_base ^ ?n = limb_base ^ ?v0 * limb_base ^ ?k" using True by (simp flip: power_add)
    have X: "mpi_nat X = mpi_nat (take ?k X) + limb_base ^ ?k * mpi_nat (drop ?k X)"
      using mpi_nat_take_drop [of X ?k] by (simp add: min_def split: if_splits)
    have "mpi_nat X * 2 ^ ?v1 mod limb_base ^ ?k = mpi_nat (take ?k X) * 2 ^ ?v1 mod limb_base ^ ?k"
      unfolding X distrib_right mult.assoc by (rule mod_mult_self2)
    also have "\<dots> = mpi_nat Z" using Z mpi_nat_less [of Z] by (metis mod_less mod_mult_self2)
    finally have z: "mpi_nat X * 2 ^ ?v1 mod limb_base ^ ?k = mpi_nat Z" .
    have "mpi_nat X * 2 ^ count mod limb_base ^ ?n = limb_base ^ ?v0 * (mpi_nat X * 2 ^ ?v1) mod (limb_base ^ ?v0 * limb_base ^ ?k)"
      unfolding split pw by (simp only: ac_simps)
    also have "\<dots> = limb_base ^ ?v0 * mpi_nat Z" by (simp only: mult_mod_right [symmetric] z)
    finally show ?thesis by (simp add: m)
  qed
  then show "mpi_nat (mbedtls_mpi_core_shift_l X count) = mpi_nat X * 2 ^ count mod limb_base ^ length X" unfolding res .
qed

section \<open>Byte strings\<close>

text \<open>The number that a byte string stands for, the least significant byte first.\<close>

definition bytes_nat :: "bytes \<Rightarrow> nat" where
  "bytes_nat b = horner_sum unat 256 b"

lemma bit_bytes_nat: "bit (bytes_nat b) j \<longleftrightarrow> j div 8 < length b \<and> bit (b ! (j div 8)) (j mod 8)"
  using bit_horner_words [of b j] by (simp add: bytes_nat_def)

lemma bytes_nat_append_zeros [simp]: "bytes_nat (b @ replicate n 0) = bytes_nat b"
proof -
  have "horner_sum unat 256 (replicate n (0 :: u8)) = (0 :: nat)" by (induction n) simp_all
  then show ?thesis by (simp add: bytes_nat_def horner_sum_append)
qed

lemma bytes_nat_inj:
  assumes "bytes_nat b = bytes_nat c" "length b = length c"
  shows "b = c"
proof (rule nth_equalityI)
  fix i assume i: "i < length b"
  show "b ! i = c ! i"
  proof (rule bit_word_eqI)
    fix n assume "n < LENGTH(8)"
    with arg_cong [OF assms(1), of "\<lambda>m. bit m (8 * i + n)"] i assms(2) show "bit (b ! i) n = bit (c ! i) n"
      by (simp add: bit_bytes_nat)
  qed
qed (rule assms(2))

lemma bytes_nat_less: "bytes_nat b < 256 ^ length b"
proof -
  have "bytes_nat b < 2 ^ (8 * length b)"
  proof (rule nat_less_by_bits)
    fix k assume "8 * length b \<le> k"
    then have "length b \<le> k div 8" by (simp add: less_eq_div_iff_mult_less_eq mult.commute)
    then show "\<not> bit (bytes_nat b) k" by (simp add: bit_bytes_nat)
  qed
  then show ?thesis by (simp add: power_mult)
qed

lemma GET_BYTE_eq: "GET_BYTE X i = mbedtls_byte (i mod 8) (X ! (i div 8))"
  by (simp add: GET_BYTE_def mbedtls_byte_def mult.commute)

lemma nth_mpi_memory: "i < 8 * length X \<Longrightarrow> mpi_memory X ! i = GET_BYTE X i"
proof (induction X arbitrary: i)
  case (Cons x X)
  show ?case
  proof (cases "i < 8")
    case True
    then show ?thesis by (simp add: mpi_memory_Cons nth_append nth_put_uint64_le GET_BYTE_eq)
  next
    case False
    then have "i div 8 = Suc ((i - 8) div 8)" "i mod 8 = (i - 8) mod 8" by (simp_all add: le_div_geq le_mod_geq)
    then show ?thesis using Cons False by (simp add: mpi_memory_Cons nth_append GET_BYTE_eq)
  qed
qed simp

lemma get_bytes_memory: "map (GET_BYTE X) [0..<8 * length X] = mpi_memory X"
  by (rule nth_equalityI) (simp_all add: nth_mpi_memory)

lemma bytes_nat_memory: "bytes_nat (mpi_memory X) = mpi_nat X"
proof (rule bit_eqI)
  fix j :: nat
  have d: "j div 8 div 8 = j div 64" "8 * (j div 8 mod 8) + j mod 8 = j mod 64"
    using div_mult2_eq [of j 8 8] mod_mult2_eq [of j 8 8] by simp_all
  have "j div 8 < 8 * length X \<longleftrightarrow> j div 64 < length X"
    by (simp add: div_less_iff_less_mult mult.commute)
  then show "bit (bytes_nat (mpi_memory X)) j \<longleftrightarrow> bit (mpi_nat X) j"
    unfolding bit_bytes_nat bit_mpi_nat length_mpi_memory
    using d by (auto simp: nth_mpi_memory GET_BYTE_eq bit_mbedtls_byte mult.commute)
qed

lemma memory_of_memory:
  assumes "length b = 8 * n"
  shows "mpi_memory (mpi_of_memory b) = b" "length (mpi_of_memory b) = n"
proof -
  show n: "length (mpi_of_memory b) = n" using assms by (simp add: mpi_of_memory_def)
  show "mpi_memory (mpi_of_memory b) = b"
  proof (rule nth_equalityI)
    show "length (mpi_memory (mpi_of_memory b)) = length b" using n assms by simp
    fix i assume "i < length (mpi_memory (mpi_of_memory b))"
    then have i: "i < 8 * n" "i div 8 < n" using n by simp_all
    have "i mod 8 < 8" by simp
    then have "mbedtls_byte (i mod 8) (get_uint64_le b (8 * (i div 8))) = b ! (8 * (i div 8) + i mod 8)"
      unfolding below_8 by (elim disjE) (simp_all only: byte_get_uint64_le add_0_right)
    with i n assms show "mpi_memory (mpi_of_memory b) ! i = b ! i"
      by (simp add: nth_mpi_memory GET_BYTE_eq) (simp add: mpi_of_memory_def)
  qed
qed

section \<open>Byte order\<close>

lemma bit_and_byte_mask: "bit (x AND push_bit k (mask 8)) n \<longleftrightarrow> bit x n \<and> k \<le> n \<and> n < k + 8" for x :: u64
  using bit_imp_le_length [of x n] by (auto simp: bit_and_iff bit_push_bit_iff bit_mask_iff)

lemma byte_bswap64: "j < 8 \<Longrightarrow> mbedtls_byte j (mbedtls_bswap64 x) = mbedtls_byte (7 - j) x"
proof -
  have m: "(0x00000000000000ff :: u64) = push_bit 0 (mask 8)" "(0x000000000000ff00 :: u64) = push_bit 8 (mask 8)"
    "(0x0000000000ff0000 :: u64) = push_bit 16 (mask 8)" "(0x00000000ff000000 :: u64) = push_bit 24 (mask 8)"
    "(0x000000ff00000000 :: u64) = push_bit 32 (mask 8)" "(0x0000ff0000000000 :: u64) = push_bit 40 (mask 8)"
    "(0x00ff000000000000 :: u64) = push_bit 48 (mask 8)" "(0xff00000000000000 :: u64) = push_bit 56 (mask 8)"
    by (simp_all add: mask_eq_exp_minus_1)
  assume "j < 8"
  then show ?thesis
    unfolding below_8 by (elim disjE; hypsubst; intro bit_word_eqI; unfold mbedtls_bswap64_def m; simp only: bit_mbedtls_byte bit_or_iff
        bit_push_bit_iff bit_drop_bit_eq comp_def bit_and_byte_mask; auto)
qed

lemma length_bigendian_loop [simp]: "length (bigendian_loop A left right) = length A"
  by (induction A left right rule: bigendian_loop.induct) (subst bigendian_loop.simps, simp add: Let_def)

lemma nth_bigendian_loop:
  "left + right + 1 = length A \<Longrightarrow> i < length A \<Longrightarrow> bigendian_loop A left right ! i =
    (if left \<le> i \<and> i \<le> right then mbedtls_bswap64 (A ! (left + right - i)) else A ! i)"
proof (induction A left right rule: bigendian_loop.induct)
  case (1 A left right)
  show ?case
  proof (cases "left \<le> right")
    case False
    then show ?thesis using 1 by (subst bigendian_loop.simps) auto
  next
    case True
    define A' where "A' = A[left := mbedtls_bswap64 (A ! right), right := mbedtls_bswap64 (A ! left)]"
    have step: "bigendian_loop A left right = (if right = 0 then A' else bigendian_loop A' (left + 1) (right - 1))"
      using True 1(2) by (subst bigendian_loop.simps) (simp add: Let_def A'_def mpi_bigendian_to_host_def)
    have nth: "A' ! k = (if k = right then mbedtls_bswap64 (A ! left) else if k = left then mbedtls_bswap64 (A ! right) else A ! k)"
      if "k < length A" for k using that 1(2) by (auto simp: A'_def nth_list_update)
    show ?thesis
    proof (cases "right = 0")
      case True
      then show ?thesis using \<open>left \<le> right\<close> 1(2,3) nth [of i] unfolding step by auto
    next
      case False
      have "bigendian_loop A' (left + 1) (right - 1) ! i =
          (if left + 1 \<le> i \<and> i \<le> right - 1 then mbedtls_bswap64 (A' ! (left + 1 + (right - 1) - i)) else A' ! i)"
        using True False 1(2,3) by (intro 1(1)) (simp_all add: A'_def mpi_bigendian_to_host_def)
      then show ?thesis using True False 1(2,3) nth [of i] nth [of "left + right - i"] unfolding step by auto
    qed
  qed
qed

lemma core_bigendian_eq: "mbedtls_mpi_core_bigendian_to_host A = rev (map mbedtls_bswap64 A)"
proof (rule nth_equalityI)
  show "length (mbedtls_mpi_core_bigendian_to_host A) = length (rev (map mbedtls_bswap64 A))"
    by (simp add: mbedtls_mpi_core_bigendian_to_host_def)
  fix i assume "i < length (mbedtls_mpi_core_bigendian_to_host A)"
  then have i: "i < length A" by (simp add: mbedtls_mpi_core_bigendian_to_host_def split: if_splits)
  then show "mbedtls_mpi_core_bigendian_to_host A ! i = rev (map mbedtls_bswap64 A) ! i"
    by (simp add: mbedtls_mpi_core_bigendian_to_host_def nth_bigendian_loop rev_nth) auto
qed

lemma put_bswap64: "put_uint64_le (mbedtls_bswap64 x) = rev (put_uint64_le x)"
proof (rule nth_equalityI)
  show "length (put_uint64_le (mbedtls_bswap64 x)) = length (rev (put_uint64_le x))"
    by (simp only: length_put_uint64_le length_rev)
  fix i assume "i < length (put_uint64_le (mbedtls_bswap64 x))"
  then have i: "i < 8" by (simp only: length_put_uint64_le)
  then have "8 - Suc i = 7 - i" "8 - Suc i < 8" by simp_all
  with i show "put_uint64_le (mbedtls_bswap64 x) ! i = rev (put_uint64_le x) ! i"
    by (simp only: nth_put_uint64_le rev_nth byte_bswap64 length_put_uint64_le)
qed

lemma memory_bigendian: "mpi_memory (mbedtls_mpi_core_bigendian_to_host A) = rev (mpi_memory A)"
  unfolding core_bigendian_eq by (induction A) (simp_all add: mpi_memory_def put_bswap64)

section \<open>Import and export\<close>

lemma limbs_for_bytes: "m < 8 \<Longrightarrow> d + (if m \<noteq> 0 then 1 else 0) \<le> n \<longleftrightarrow> 8 * d + m \<le> 8 * n" for d m n :: nat
  by (rule iffI; cases "m = 0"; simp; linarith)

lemma chars_to_limbs: "CHARS_TO_LIMBS i \<le> n \<longleftrightarrow> i \<le> 8 * n"
  using limbs_for_bytes [of "i mod 8" "i div 8" n] unfolding CHARS_TO_LIMBS_def mult_div_mod_eq by simp

lemma read_le_loop:
  fixes input :: bytes
  assumes "k \<le> length input" "length input \<le> 8 * n"
  defines "X \<equiv> fold (\<lambda>i X. X[i div 8 := X ! (i div 8) OR push_bit (i mod 8 * 8) (ucast (input ! i) :: mpi_uint)]) [0..<k] (replicate n 0)"
  shows "length X = n \<and> (\<forall>j<n. \<forall>m<64. bit (X ! j) m \<longleftrightarrow> 8 * j + m div 8 < k \<and> bit (input ! (8 * j + m div 8)) (m mod 8))"
  using assms(1) unfolding X_def
proof (induction k)
  case (Suc k)
  let ?f = "\<lambda>i X. X[i div 8 := X ! (i div 8) OR push_bit (i mod 8 * 8) (ucast (input ! i) :: mpi_uint)]"
  let ?X = "fold ?f [0..<k] (replicate n 0)"
  from Suc have len: "length ?X = n"
    and bits: "\<And>j m. j < n \<Longrightarrow> m < 64 \<Longrightarrow> bit (?X ! j) m \<longleftrightarrow> 8 * j + m div 8 < k \<and> bit (input ! (8 * j + m div 8)) (m mod 8)" by auto
  have k: "k div 8 < n" using Suc.prems assms(2) by (simp add: div_less_iff_less_mult mult.commute)
  have new: "bit (push_bit (k mod 8 * 8) (ucast (input ! k) :: mpi_uint)) m \<longleftrightarrow> m div 8 = k mod 8 \<and> bit (input ! k) (m mod 8)" if "m < 64" for m
  proof -
    have "k mod 8 * 8 \<le> m \<and> m - k mod 8 * 8 < 8 \<longleftrightarrow> m div 8 = k mod 8"
      by (auto simp: div_nat_eqI)
    moreover have "m div 8 = k mod 8 \<Longrightarrow> m - k mod 8 * 8 = m mod 8" by (metis modulo_nat_def mult.commute)
    ultimately show ?thesis using that bit_imp_le_length [of "input ! k" "m - k mod 8 * 8"]
      by (auto simp: bit_push_bit_iff bit_unsigned_iff)
  qed
  have "bit (fold ?f [0..<Suc k] (replicate n 0) ! j) m \<longleftrightarrow> 8 * j + m div 8 < Suc k \<and> bit (input ! (8 * j + m div 8)) (m mod 8)"
    if "j < n" "m < 64" for j m
  proof (cases "j = k div 8")
    case True
    have "8 * (k div 8) + m div 8 = k \<longleftrightarrow> m div 8 = k mod 8" using mult_div_mod_eq [of 8 k] by linarith
    then show ?thesis using that True len k by (auto simp: bit_or_iff bits new less_Suc_eq)
  next
    case False
    have "m div 8 < 8" using that(2) by simp
    then have "8 * j + m div 8 \<noteq> k" using False by auto
    then show ?thesis using that False len by (auto simp: bits less_Suc_eq)
  qed
  then show ?case using len by simp
qed simp

lemma core_read_le_value:
  "mbedtls_mpi_core_read_le X input = (if 8 * length X < length input then (MBEDTLS_ERR_MPI_BUFFER_TOO_SMALL, X)
    else (0, snd (mbedtls_mpi_core_read_le X input)))"
  "length input \<le> 8 * length X \<Longrightarrow> length (snd (mbedtls_mpi_core_read_le X input)) = length X \<and>
    mpi_nat (snd (mbedtls_mpi_core_read_le X input)) = bytes_nat input"
proof -
  have c: "length X < CHARS_TO_LIMBS (length input) \<longleftrightarrow> 8 * length X < length input"
    using chars_to_limbs [of "length input" "length X"] by linarith
  show "mbedtls_mpi_core_read_le X input = (if 8 * length X < length input then (MBEDTLS_ERR_MPI_BUFFER_TOO_SMALL, X)
    else (0, snd (mbedtls_mpi_core_read_le X input)))"
    unfolding mbedtls_mpi_core_read_le_def c by simp
  assume fits: "length input \<le> 8 * length X"
  let ?Y = "snd (mbedtls_mpi_core_read_le X input)"
  from fits c have "?Y = fold (\<lambda>i X. X[i div 8 := X ! (i div 8) OR push_bit (i mod 8 * 8) (ucast (input ! i))]) [0..<length input] (replicate (length X) 0)"
    unfolding mbedtls_mpi_core_read_le_def by simp
  with read_le_loop [OF order_refl fits] have len: "length ?Y = length X"
    and bits: "\<And>j m. j < length X \<Longrightarrow> m < 64 \<Longrightarrow> bit (?Y ! j) m \<longleftrightarrow> 8 * j + m div 8 < length input \<and> bit (input ! (8 * j + m div 8)) (m mod 8)"
    by simp_all
  have "mpi_nat ?Y = bytes_nat input"
  proof (rule mpi_nat_eq_by_bits)
    fix k assume "k < 64 * length ?Y"
    then have j: "k div 64 < length X" unfolding len by (simp add: div_less_iff_less_mult mult.commute)
    have "8 * (k div 64) + k mod 64 div 8 = k div 8" "k mod 64 mod 8 = k mod 8"
      using div_mult2_eq [of k 8 8] mod_mult2_eq [of k 8 8] mult_div_mod_eq [of 8 "k div 8"] by (simp_all add: mod_mod_cancel)
    then show "bit (?Y ! (k div 64)) (k mod 64) \<longleftrightarrow> bit (bytes_nat input) k"
      using bits [OF j, of "k mod 64"] by (simp add: bit_bytes_nat)
  next
    fix k assume "64 * length ?Y \<le> k"
    then have "length input \<le> k div 8" using fits unfolding len by (simp add: less_eq_div_iff_mult_less_eq)
    then show "\<not> bit (bytes_nat input) k" by (simp add: bit_bytes_nat)
  qed
  with len show "length ?Y = length X \<and> mpi_nat ?Y = bytes_nat input" by simp
qed

lemma mpi_nat_of_memory: "length b = 8 * n \<Longrightarrow> mpi_nat (mpi_of_memory b) = bytes_nat b"
  using bytes_nat_memory [of "mpi_of_memory b"] memory_of_memory [of b n] by simp

lemma core_bigendian_value:
  "length b = 8 * n \<Longrightarrow> mpi_nat (mbedtls_mpi_core_bigendian_to_host (mpi_of_memory b)) = bytes_nat (rev b)"
  unfolding bytes_nat_memory [symmetric] by (simp add: memory_bigendian memory_of_memory)

lemma length_core_bigendian [simp]: "length (mbedtls_mpi_core_bigendian_to_host X) = length X"
  by (simp add: core_bigendian_eq)

lemma core_read_be_value:
  "mbedtls_mpi_core_read_be X input = (if 8 * length X < length input then (MBEDTLS_ERR_MPI_BUFFER_TOO_SMALL, X)
    else (0, snd (mbedtls_mpi_core_read_be X input)))"
  "length input \<le> 8 * length X \<Longrightarrow> length (snd (mbedtls_mpi_core_read_be X input)) = length X \<and>
    mpi_nat (snd (mbedtls_mpi_core_read_be X input)) = bytes_nat (rev input)"
proof -
  let ?n = "length X"
  have c: "?n < CHARS_TO_LIMBS (length input) \<longleftrightarrow> 8 * ?n < length input"
    using chars_to_limbs [of "length input" ?n] by linarith
  show "mbedtls_mpi_core_read_be X input = (if 8 * length X < length input then (MBEDTLS_ERR_MPI_BUFFER_TOO_SMALL, X)
    else (0, snd (mbedtls_mpi_core_read_be X input)))"
    unfolding mbedtls_mpi_core_read_be_def c Let_def by simp
  assume fits: "length input \<le> 8 * length X"
  let ?Y = "snd (mbedtls_mpi_core_read_be X input)"
  have zeros: "mpi_memory (replicate ?n 0) = replicate (8 * ?n) 0"
  proof (rule nth_equalityI)
    fix i assume "i < length (mpi_memory (replicate ?n 0))"
    then have "i < 8 * ?n" "i div 8 < ?n" by simp_all
    then show "mpi_memory (replicate ?n 0) ! i = replicate (8 * ?n) 0 ! i" by (simp add: nth_mpi_memory GET_BYTE_def)
  qed simp
  show "length ?Y = length X \<and> mpi_nat ?Y = bytes_nat (rev input)"
  proof (cases "?n = 0")
    case True
    with fits show ?thesis by (simp add: mbedtls_mpi_core_read_be_def CHARS_TO_LIMBS_def bytes_nat_def)
  next
    case False
    let ?b = "replicate (8 * ?n - length input) 0 @ input"
    have b: "length ?b = 8 * ?n" using fits by simp
    have "?Y = mbedtls_mpi_core_bigendian_to_host (mpi_of_memory ?b)"
    proof (cases "length input = 0")
      case True
      then have "?b = mpi_memory (replicate ?n 0)" using zeros by simp
      then have "mpi_of_memory ?b = replicate ?n 0" by (simp only: mpi_of_memory)
      with True \<open>?n \<noteq> 0\<close> show ?thesis by (simp add: mbedtls_mpi_core_read_be_def CHARS_TO_LIMBS_def Let_def)
    next
      case False
      with \<open>?n \<noteq> 0\<close> fits c show ?thesis unfolding mbedtls_mpi_core_read_be_def
        by (simp add: Let_def zeros mult.commute)
    qed
    then show ?thesis using core_bigendian_value [OF b] memory_of_memory [OF b] by simp
  qed
qed

lemma bytes_nat_take:
  "n \<le> length b \<Longrightarrow> \<forall>i\<in>set [n..<length b]. b ! i = 0 \<Longrightarrow> bytes_nat (take n b) = bytes_nat b"
proof -
  assume a: "n \<le> length b" "\<forall>i\<in>set [n..<length b]. b ! i = 0"
  then have "drop n b = replicate (length b - n) 0" by (intro nth_equalityI) simp_all
  then show ?thesis by (metis append_take_drop_id bytes_nat_append_zeros)
qed

lemma bytes_nat_fits:
  assumes "n \<le> length b"
  shows "bytes_nat b < 256 ^ n \<longleftrightarrow> (\<forall>i\<in>set [n..<length b]. b ! i = 0)"
proof
  assume z: "\<forall>i\<in>set [n..<length b]. b ! i = 0"
  show "bytes_nat b < 256 ^ n" using bytes_nat_less [of "take n b"] assms bytes_nat_take [OF assms z] by (simp add: min_def split: if_splits)
next
  assume lt: "bytes_nat b < 256 ^ n"
  show "\<forall>i\<in>set [n..<length b]. b ! i = 0"
  proof
    fix i assume "i \<in> set [n..<length b]"
    then have i: "n \<le> i" "i < length b" by simp_all
    show "b ! i = 0"
    proof (rule bit_word_eqI)
      fix m assume "m < LENGTH(8)"
      then have "bit (bytes_nat b) (8 * i + m) \<longleftrightarrow> bit (b ! i) m" using i by (simp add: bit_bytes_nat)
      moreover have "\<not> bit (bytes_nat b) (8 * i + m)"
      proof
        assume "bit (bytes_nat b) (8 * i + m)"
        from nat_ge_by_bit [OF this] have "2 ^ (8 * n) \<le> bytes_nat b"
          using i(1) by (meson order_trans power_increasing one_le_numeral mult_le_mono2 trans_le_add1)
        with lt show False by (simp add: power_mult)
      qed
      ultimately show "bit (b ! i) m = bit (0 :: u8) m" by simp
    qed
  qed
qed

text \<open>Both exports succeed exactly when the value has no more bytes than the buffer.\<close>

lemma GET_BYTE_tail: "(\<exists>i\<in>set [n..<length A * 8]. GET_BYTE A i \<noteq> 0) \<longleftrightarrow> \<not> (\<forall>i\<in>set [n..<length (mpi_memory A)]. mpi_memory A ! i = 0)"
  by (auto simp: nth_mpi_memory mult.commute)

lemma memory_fits: "mpi_nat A < 256 ^ n \<longleftrightarrow> 8 * length A \<le> n \<or> (\<forall>i\<in>set [n..<length (mpi_memory A)]. mpi_memory A ! i = 0)"
proof (cases "8 * length A \<le> n")
  case True
  have "mpi_nat A < 256 ^ (8 * length A)" using bytes_nat_less [of "mpi_memory A"] by (simp add: bytes_nat_memory)
  also have "\<dots> \<le> 256 ^ n" using True by (intro power_increasing) simp_all
  finally show ?thesis using True by simp
next
  case False
  then show ?thesis using bytes_nat_fits [of n "mpi_memory A"] by (simp add: bytes_nat_memory)
qed

lemma core_write_le_value:
  "mbedtls_mpi_core_write_le A out = (if mpi_nat A < 256 ^ length out then (0, snd (mbedtls_mpi_core_write_le A out))
    else (MBEDTLS_ERR_MPI_BUFFER_TOO_SMALL, out))"
  "mpi_nat A < 256 ^ length out \<Longrightarrow> length (snd (mbedtls_mpi_core_write_le A out)) = length out \<and>
    bytes_nat (snd (mbedtls_mpi_core_write_le A out)) = mpi_nat A"
proof -
  let ?L = "length out" and ?m = "mpi_memory A"
  have all: "map (GET_BYTE A) [0..<length A * 8] = ?m" using get_bytes_memory [of A] by (simp add: mult.commute)
  have head: "map (GET_BYTE A) [0..<?L] = take ?L ?m" if "?L \<le> length A * 8"
    using that by (intro nth_equalityI) (simp_all add: nth_mpi_memory)
  have w: "mbedtls_mpi_core_write_le A out = (if length A * 8 < ?L then (0, ?m @ replicate (?L - length A * 8) 0)
      else if \<not> (\<forall>i\<in>set [?L..<length ?m]. ?m ! i = 0) then (MBEDTLS_ERR_MPI_BUFFER_TOO_SMALL, out) else (0, take ?L ?m))"
    unfolding mbedtls_mpi_core_write_le_def Let_def all GET_BYTE_tail using head by simp
  show "mbedtls_mpi_core_write_le A out = (if mpi_nat A < 256 ^ ?L then (0, snd (mbedtls_mpi_core_write_le A out))
    else (MBEDTLS_ERR_MPI_BUFFER_TOO_SMALL, out))"
    unfolding w memory_fits by auto
  assume fits: "mpi_nat A < 256 ^ ?L"
  show "length (snd (mbedtls_mpi_core_write_le A out)) = ?L \<and> bytes_nat (snd (mbedtls_mpi_core_write_le A out)) = mpi_nat A"
  proof (cases "length A * 8 < ?L")
    case True
    then show ?thesis unfolding w by (simp add: bytes_nat_memory)
  next
    case False
    with fits have z: "\<forall>i\<in>set [?L..<length ?m]. ?m ! i = 0" unfolding memory_fits by auto
    have "?L \<le> length ?m" using False by simp
    from bytes_nat_take [OF this z] this False z show ?thesis unfolding w by (simp add: bytes_nat_memory)
  qed
qed

lemma core_write_be_eq:
  "mbedtls_mpi_core_write_be X out = (fst (mbedtls_mpi_core_write_le X out),
    if fst (mbedtls_mpi_core_write_le X out) = 0 then rev (snd (mbedtls_mpi_core_write_le X out)) else out)"
proof -
  have r: "map (\<lambda>i. GET_BYTE X (n - 1 - i)) [0..<n] = rev (map (GET_BYTE X) [0..<n])" for n
    by (rule nth_equalityI) (simp_all add: rev_nth)
  show ?thesis unfolding mbedtls_mpi_core_write_be_def mbedtls_mpi_core_write_le_def Let_def r by simp
qed

lemma core_write_be_value:
  "mbedtls_mpi_core_write_be A out = (if mpi_nat A < 256 ^ length out then (0, snd (mbedtls_mpi_core_write_be A out))
    else (MBEDTLS_ERR_MPI_BUFFER_TOO_SMALL, out))"
  "mpi_nat A < 256 ^ length out \<Longrightarrow> length (snd (mbedtls_mpi_core_write_be A out)) = length out \<and>
    bytes_nat (rev (snd (mbedtls_mpi_core_write_be A out))) = mpi_nat A"
proof -
  have f: "fst (mbedtls_mpi_core_write_le A out) = (if mpi_nat A < 256 ^ length out then 0 else MBEDTLS_ERR_MPI_BUFFER_TOO_SMALL)"
    by (subst core_write_le_value(1)) simp
  show "mbedtls_mpi_core_write_be A out = (if mpi_nat A < 256 ^ length out then (0, snd (mbedtls_mpi_core_write_be A out))
    else (MBEDTLS_ERR_MPI_BUFFER_TOO_SMALL, out))"
    unfolding core_write_be_eq f by simp
  assume "mpi_nat A < 256 ^ length out"
  with core_write_le_value(2) [OF this] show "length (snd (mbedtls_mpi_core_write_be A out)) = length out \<and>
    bytes_nat (rev (snd (mbedtls_mpi_core_write_be A out))) = mpi_nat A"
    unfolding core_write_be_eq f by simp
qed

end
