(* ===== verification/Bignum_Montgomery.thy ===== *)
theory Bignum_Montgomery
  imports Bignum_Bytes
begin

text \<open>
  Montgomery multiplication of drivers/builtin/src/bignum_core.c: the negated inverse of the lowest
  limb of the modulus, the multiplication with its final subtraction, and the conversions to and from
  Montgomery representation. The radix is \<open>limb_base ^ n\<close> for a modulus of \<open>n\<close> limbs.
\<close>

section \<open>The code\<close>

definition montmul_init_step :: "mpi_uint \<Rightarrow> mpi_uint \<Rightarrow> mpi_uint" where
  "montmul_init_step n0 x = x * (2 - (n0 * x))"

text \<open>\<open>for (i = biL; i >= 8; i /= 2)\<close>.\<close>

function montmul_init_loop :: "mpi_uint \<Rightarrow> nat \<Rightarrow> mpi_uint \<Rightarrow> mpi_uint" where
  "montmul_init_loop n0 i x = (if 8 \<le> i then montmul_init_loop n0 (i div 2) (montmul_init_step n0 x) else x)"
  by pat_completeness auto
termination by (relation "measure (\<lambda>(n0, i, x). i)") auto

declare montmul_init_loop.simps [simp del]

definition mbedtls_mpi_core_montmul_init :: "mpi \<Rightarrow> mpi_uint" where
  "mbedtls_mpi_core_montmul_init N =
    (let x = N ! 0;
         x = x + push_bit 1 ((N ! 0 + 2) AND 4);
         x = montmul_init_loop (N ! 0) 64 x
     in NOT x + 1)"

text \<open>The limbs of \<open>T\<close> from the pointer on; each row works on \<open>AN_limbs + 2\<close> of them and moves the
  pointer by one.\<close>

primrec montmul_loop :: "mpi \<Rightarrow> mpi \<Rightarrow> mpi_uint \<Rightarrow> mpi \<Rightarrow> mpi \<Rightarrow> mpi" where
  "montmul_loop B N mm [] T = T"
| "montmul_loop B N mm (u0 # A) T =
    (let w = length N + 2;
         u1 = (T ! 0 + u0 * B ! 0) * mm;
         T = fst (mbedtls_mpi_core_mla (take w T) B u0) @ drop w T;
         T = fst (mbedtls_mpi_core_mla (take w T) N u1) @ drop w T
     in montmul_loop B N mm A (tl T))"

definition mbedtls_mpi_core_montmul :: "mpi \<Rightarrow> mpi \<Rightarrow> mpi \<Rightarrow> mpi_uint \<Rightarrow> mpi" where
  "mbedtls_mpi_core_montmul A B N mm =
    (let T = replicate (2 * length N + 1) 0;
         T = montmul_loop B N mm A T;
         carry = T ! length N;
         (X, borrow) = mbedtls_mpi_core_sub (take (length N) T) N
     in mpi_of_memory (mbedtls_ct_memcpy_if (mbedtls_ct_bool (carry XOR borrow))
          (mpi_memory X) (mpi_memory T) None (length N * 8)))"

definition mbedtls_mpi_core_to_mont_rep :: "mpi \<Rightarrow> mpi \<Rightarrow> mpi_uint \<Rightarrow> mpi \<Rightarrow> mpi" where
  "mbedtls_mpi_core_to_mont_rep A N mm rr = mbedtls_mpi_core_montmul A rr N mm"

definition mbedtls_mpi_core_from_mont_rep :: "mpi \<Rightarrow> mpi \<Rightarrow> mpi_uint \<Rightarrow> mpi" where
  "mbedtls_mpi_core_from_mont_rep A N mm = (let Rinv = 1 in mbedtls_mpi_core_montmul A [Rinv] N mm)"

section \<open>The inverse of the lowest limb\<close>

text \<open>One step squares the error \<open>1 - n0 * x\<close>: four correct bits become sixty-four in four steps.\<close>

lemma montmul_init_step_error: "1 - n0 * montmul_init_step n0 x = (1 - n0 * x) ^ 2"
  by (simp add: montmul_init_step_def power2_eq_square algebra_simps)

lemma montmul_init_loop_error: "1 - n0 * montmul_init_loop n0 64 x = (1 - n0 * x) ^ 16"
proof -
  let ?s = "montmul_init_step n0"
  have "montmul_init_loop n0 64 x = ?s (?s (?s (?s x)))"
    by (simp add: montmul_init_loop.simps [of n0 64] montmul_init_loop.simps [of n0 32] montmul_init_loop.simps [of n0 16]
      montmul_init_loop.simps [of n0 8] montmul_init_loop.simps [of n0 4])
  then show ?thesis by (simp only: montmul_init_step_error flip: power_mult) simp
qed

lemma odd_below_16:
  "odd n \<Longrightarrow> n < 16 \<Longrightarrow> n = 1 \<or> n = 3 \<or> n = 5 \<or> n = 7 \<or> n = 9 \<or> n = 11 \<or> n = 13 \<or> n = (15 :: nat)"
  by presburger

lemma and_4_low: "(16 * K + x) AND 4 = x AND 4" for K x :: u64
proof -
  have low: "w AND 4 = take_bit 4 w AND 4" for w :: u64
  proof -
    have "w AND 4 = w AND (15 AND 4)" by simp
    moreover have "(15 :: u64) = mask 4" by (simp add: mask_eq_exp_minus_1)
    ultimately show ?thesis by (simp only: take_bit_eq_mask and.assoc)
  qed
  have "take_bit 4 (16 * K + x) = take_bit 4 x"
    by transfer (simp add: take_bit_take_bit min_def take_bit_eq_mod)
  with low [of "16 * K + x"] low [of x] show ?thesis by simp
qed

lemma odd_unat: "odd (unat w) \<longleftrightarrow> odd w" for w :: u64
  by (simp add: bit_unsigned_iff flip: bit_0)

lemma montmul_start_case:
  fixes n0 l c m :: mpi_uint
  assumes "n0 = 16 * K + l" "push_bit 1 ((l + 2) AND 4) = c" "1 - l * (l + c) = 16 * m"
  shows "\<exists>q. 1 - n0 * (n0 + push_bit 1 ((n0 + 2) AND 4)) = 16 * q"
proof -
  have "push_bit 1 ((n0 + 2) AND 4) = c" unfolding assms(1) add.assoc and_4_low by (rule assms(2))
  then have "1 - n0 * (n0 + push_bit 1 ((n0 + 2) AND 4)) = (1 - l * (l + c)) - 16 * (16 * K * K + 2 * l * K + c * K)"
    by (simp add: assms(1) algebra_simps)
  also have "\<dots> = 16 * (m - (16 * K * K + 2 * l * K + c * K))" unfolding assms(3) by (simp only: right_diff_distrib)
  finally show ?thesis by blast
qed

lemma montmul_start_error:
  fixes n0 :: mpi_uint
  assumes "odd n0"
  shows "\<exists>q. 1 - n0 * (n0 + push_bit 1 ((n0 + 2) AND 4)) = 16 * q"
proof -
  define K where "K = drop_bit 4 n0"
  define l where "l = unat (take_bit 4 n0)"
  have n0: "n0 = 16 * K + of_nat l"
    using bits_ident [of 4 n0] by (simp add: K_def l_def push_bit_eq_mult mult.commute)
  have "odd l" "l < 16"
    unfolding l_def unsigned_take_bit_eq using assms by (simp_all add: take_bit_eq_mod odd_unat dvd_mod_iff)
  from odd_below_16 [OF this] show ?thesis
    using montmul_start_case [OF n0, of 0 0] montmul_start_case [OF n0, of 8 "- 2"] montmul_start_case [OF n0, of 8 "- 4"]
      montmul_start_case [OF n0, of 0 "- 3"] montmul_start_case [OF n0, of 0 "- 5"] montmul_start_case [OF n0, of 8 "- 13"]
      montmul_start_case [OF n0, of 8 "- 17"] montmul_start_case [OF n0, of 0 "- 14"]
    by (elim disjE) simp_all
qed

lemma montmul_init_value:
  assumes "odd (N ! 0)"
  shows "N ! 0 * mbedtls_mpi_core_montmul_init N = - 1"
proof -
  let ?n = "N ! 0"
  let ?x = "?n + push_bit 1 ((?n + 2) AND 4)"
  obtain q where q: "1 - ?n * ?x = 16 * q" using montmul_start_error [OF assms] by blast
  have "1 - ?n * montmul_init_loop ?n 64 ?x = (16 * q) ^ 16" unfolding montmul_init_loop_error q ..
  also have "\<dots> = 16 ^ 16 * q ^ 16" by (simp only: power_mult_distrib)
  also have "(16 :: mpi_uint) ^ 16 = 0" by simp
  finally have "?n * montmul_init_loop ?n 64 ?x = 1" by simp
  moreover have "mbedtls_mpi_core_montmul_init N = - montmul_init_loop ?n 64 ?x"
    by (simp add: mbedtls_mpi_core_montmul_init_def Let_def minus_eq_not_plus_1)
  ultimately show ?thesis by simp
qed

section \<open>The multiplication\<close>

lemma low_limb_zero:
  assumes "n0 * mm = - 1" "u1 = (t + u0 * b0) * mm"
  shows "t + u0 * b0 + u1 * n0 = (0 :: mpi_uint)"
proof -
  have "t + u0 * b0 + u1 * n0 = (t + u0 * b0) * (1 + n0 * mm)" unfolding assms(2) by (simp only: ring_distribs ac_simps mult_1_right mult_1_left)
  then show ?thesis by (simp add: assms(1))
qed

lemma unat_mult_base: "unat (x * y) = (unat x * unat y) mod limb_base" for x y :: u64
  by (simp add: unat_word_ariths limb_base_def)

lemma montmul_row:
  fixes u0 :: mpi_uint
  assumes T: "length N + 2 \<le> length T" and B: "0 < length B" "length B \<le> length N + 2" and N: "0 < length N"
    and mm: "N ! 0 * mm = - 1" and small: "mpi_nat T < mpi_nat N + mpi_nat B" and BN: "mpi_nat B \<le> mpi_nat N"
  defines "w \<equiv> length N + 2"
  defines "u1 \<equiv> (T ! 0 + u0 * B ! 0) * mm"
  defines "T1 \<equiv> fst (mbedtls_mpi_core_mla (take w T) B u0) @ drop w T"
  defines "T2 \<equiv> fst (mbedtls_mpi_core_mla (take w T1) N u1) @ drop w T1"
  shows "length T2 = length T" "limb_base * mpi_nat (tl T2) = mpi_nat T + unat u0 * mpi_nat B + unat u1 * mpi_nat N"
    and "mpi_nat (tl T2) < mpi_nat N + mpi_nat B"
proof -
  obtain m where m: "limb_base = Suc m" by (cases limb_base) simp_all
  have u: "unat u0 \<le> m" "unat u1 \<le> m" using limb_le [of u0] limb_le [of u1] by (simp_all add: m)
  have "mpi_nat T + unat u0 * mpi_nat B + unat u1 * mpi_nat N < mpi_nat N + mpi_nat B + m * mpi_nat B + m * mpi_nat N"
    using small u by (intro add_less_le_mono mult_right_mono) simp_all
  also have "\<dots> = limb_base * (mpi_nat N + mpi_nat B)" by (simp add: m algebra_simps)
  finally have total: "mpi_nat T + unat u0 * mpi_nat B + unat u1 * mpi_nat N < limb_base * (mpi_nat N + mpi_nat B)" .
  have "limb_base * (mpi_nat N + mpi_nat B) \<le> limb_base * (limb_base * limb_base ^ length N)"
  proof (rule mult_left_mono)
    have "mpi_nat N + mpi_nat B \<le> 2 * limb_base ^ length N" using mpi_nat_less [of N] BN by linarith
    also have "\<dots> \<le> limb_base * limb_base ^ length N" by (rule mult_right_mono) (simp_all add: limb_base_def)
    finally show "mpi_nat N + mpi_nat B \<le> limb_base * limb_base ^ length N" .
  qed simp
  then have room: "limb_base * (mpi_nat N + mpi_nat B) \<le> limb_base ^ (0 + w)" by (simp add: w_def)
  have w: "0 + w \<le> length T" "length B \<le> w" "length N \<le> w" using T B by (simp_all add: w_def)
  have l1: "length T1 = length T" using mla_window(1) [OF w(1,2), of u0] by (simp add: T1_def)
  have v1: "mpi_nat T1 = mpi_nat T + unat u0 * mpi_nat B"
    using mla_window(2) [OF w(1,2), of u0] total room by (simp add: T1_def mult.commute)
  have w1: "0 + w \<le> length T1" using w l1 by simp
  show l2: "length T2 = length T" using mla_window(1) [OF w1 w(3), of u1] l1 by (simp add: T2_def)
  have v2: "mpi_nat T2 = mpi_nat T + unat u0 * mpi_nat B + unat u1 * mpi_nat N"
    using mla_window(2) [OF w1 w(3), of u1] total room by (simp add: T2_def v1 mult.commute)
  have ne: "T \<noteq> []" "B \<noteq> []" "N \<noteq> []" "T2 \<noteq> []" using T B N l2 by auto
  have "mpi_nat T2 mod limb_base =
      (mpi_nat T mod limb_base + unat u0 * (mpi_nat B mod limb_base) + unat u1 * (mpi_nat N mod limb_base)) mod limb_base"
    unfolding v2 by (intro mod_add_cong mod_mult_cong) simp_all
  also have "\<dots> = unat (T ! 0 + u0 * B ! 0 + u1 * N ! 0)"
    unfolding mpi_nat_mod [OF ne(1)] mpi_nat_mod [OF ne(2)] mpi_nat_mod [OF ne(3)]
    by (simp add: unat_add_base unat_mult_base mod_simps)
  also have "\<dots> = 0" unfolding low_limb_zero [OF mm u1_def [THEN meta_eq_to_obj_eq]] by simp
  finally have "unat (T2 ! 0) = 0" unfolding mpi_nat_mod [OF ne(4)] .
  then have tl: "limb_base * mpi_nat (tl T2) = mpi_nat T2" using ne(4) by (cases T2) simp_all
  with v2 show v: "limb_base * mpi_nat (tl T2) = mpi_nat T + unat u0 * mpi_nat B + unat u1 * mpi_nat N" by simp
  with total show "mpi_nat (tl T2) < mpi_nat N + mpi_nat B" by (metis mult_less_cancel1)
qed

lemma montmul_loop_value:
  assumes "length T = length A + length N + 1" and B: "0 < length B" "length B \<le> length N + 2" and N: "0 < length N"
    and mm: "N ! 0 * mm = - 1" and "mpi_nat T < mpi_nat N + mpi_nat B" and BN: "mpi_nat B \<le> mpi_nat N"
  shows "length (montmul_loop B N mm A T) = length N + 1 \<and> mpi_nat (montmul_loop B N mm A T) < mpi_nat N + mpi_nat B \<and>
    (\<exists>q. mpi_nat (montmul_loop B N mm A T) * limb_base ^ length A = mpi_nat T + mpi_nat A * mpi_nat B + q * mpi_nat N)"
  using assms(1,6)
proof (induction A arbitrary: T)
  case Nil
  then show ?case by (auto intro: exI [of _ 0])
next
  case (Cons u0 A)
  from Cons.prems(1) have len: "length N + 2 \<le> length T" by simp
  define u1 where "u1 = (T ! 0 + u0 * B ! 0) * mm"
  let ?w = "length N + 2"
  define T1 where "T1 = fst (mbedtls_mpi_core_mla (take ?w T) B u0) @ drop ?w T"
  define T2 where "T2 = fst (mbedtls_mpi_core_mla (take ?w T1) N u1) @ drop ?w T1"
  note row = montmul_row [OF len B N mm Cons.prems(2) BN, of u0, folded u1_def, folded T1_def, folded T2_def]
  have loop: "montmul_loop B N mm (u0 # A) T = montmul_loop B N mm A (tl T2)"
    by (simp add: Let_def T2_def T1_def u1_def)
  from row(1) Cons.prems(1) have "length (tl T2) = length A + length N + 1" by simp
  from Cons.IH [OF this row(3)] obtain q where r: "length (montmul_loop B N mm A (tl T2)) = length N + 1"
    "mpi_nat (montmul_loop B N mm A (tl T2)) < mpi_nat N + mpi_nat B"
    "mpi_nat (montmul_loop B N mm A (tl T2)) * limb_base ^ length A = mpi_nat (tl T2) + mpi_nat A * mpi_nat B + q * mpi_nat N"
    by blast
  have "mpi_nat (montmul_loop B N mm A (tl T2)) * limb_base ^ length (u0 # A) =
      limb_base * (mpi_nat (montmul_loop B N mm A (tl T2)) * limb_base ^ length A)" by (simp add: ac_simps)
  also have "\<dots> = limb_base * mpi_nat (tl T2) + limb_base * (mpi_nat A * mpi_nat B + q * mpi_nat N)"
    unfolding r(3) by (simp only: distrib_left add.assoc)
  also have "\<dots> = mpi_nat T + mpi_nat (u0 # A) * mpi_nat B + (unat u1 + limb_base * q) * mpi_nat N"
    unfolding row(2) by (simp add: algebra_simps)
  finally show ?case unfolding loop using r(1,2) by blast
qed

lemma ct_copy_limbs:
  assumes "length X = n" "n \<le> length T"
  shows "mpi_of_memory (mbedtls_ct_memcpy_if (ct_mask c) (mpi_memory X) (mpi_memory T) None (n * 8)) = (if c then take n T else X)"
proof -
  have "take (8 * n) (mpi_memory T) = mpi_memory (take n T)"
    using arg_cong [OF append_take_drop_id [of n T], of mpi_memory] assms(2) unfolding mpi_memory_def
    by (metis append_eq_conv_conj concat_append length_mpi_memory length_take map_append min.absorb2 mpi_memory_def)
  moreover have "length (mpi_memory X) = n * 8" using assms(1) by simp
  ultimately show ?thesis using assms by (subst ct_memcpy_if_eq) (auto simp: mult.commute)
qed

lemma montmul_value:
  assumes A: "length A = length N" and B: "0 < length B" "length B \<le> length N" and N: "odd (N ! 0)"
    and BN: "mpi_nat B \<le> mpi_nat N"
  defines "X \<equiv> mbedtls_mpi_core_montmul A B N (mbedtls_mpi_core_montmul_init N)"
  shows "length X = length N" "mpi_nat X < mpi_nat N"
    "mpi_nat X * limb_base ^ length N mod mpi_nat N = mpi_nat A * mpi_nat B mod mpi_nat N"
proof -
  let ?n = "length N" and ?mm = "mbedtls_mpi_core_montmul_init N"
  have n: "0 < ?n" using B by linarith
  then have "odd (mpi_nat N)" using N by (simp add: odd_mpi_nat odd_unat)
  then have Npos: "0 < mpi_nat N" by (rule odd_pos)
  define T where "T = montmul_loop B N ?mm A (replicate (2 * ?n + 1) 0)"
  have "length (replicate (2 * ?n + 1) (0 :: mpi_uint)) = length A + ?n + 1" using A by simp
  from montmul_loop_value [OF this B(1) _ n montmul_init_value [OF N] _ BN] B(2) Npos
  obtain q where len: "length T = ?n + 1" and lt: "mpi_nat T < mpi_nat N + mpi_nat B"
    and v: "mpi_nat T * limb_base ^ ?n = mpi_nat A * mpi_nat B + q * mpi_nat N"
    unfolding T_def [symmetric] by (auto simp: A)
  define low where "low = take ?n T"
  obtain Y borrow where sub: "mbedtls_mpi_core_sub low N = (Y, borrow)" by fastforce
  have l: "length low = ?n" using len by (simp add: low_def)
  from len have "T = low @ [T ! ?n]" unfolding low_def by (metis lessI Suc_eq_plus1 take_Suc_conv_app_nth take_all_iff order_refl)
  then have T: "mpi_nat T = mpi_nat low + limb_base ^ ?n * unat (T ! ?n)"
    using mpi_nat_append [of low "[T ! ?n]"] by (simp add: l)
  have lowlt: "mpi_nat low < limb_base ^ ?n" "mpi_nat N < limb_base ^ ?n" using mpi_nat_less [of low] mpi_nat_less [of N] l by simp_all
  have carry: "unat (T ! ?n) < 2"
  proof (rule ccontr)
    assume "\<not> unat (T ! ?n) < 2"
    then have "limb_base ^ ?n * 2 \<le> limb_base ^ ?n * unat (T ! ?n)" by (intro mult_left_mono) simp_all
    with T lt BN lowlt show False by linarith
  qed
  have X: "X = (if T ! ?n XOR borrow \<noteq> 0 then low else Y)"
  proof -
    have "length Y = ?n" using core_sub_value(1) [OF l sub] l by simp
    then show ?thesis
      unfolding X_def mbedtls_mpi_core_montmul_def Let_def T_def [symmetric] low_def [symmetric] sub prod.case ct_bool_eq
      using ct_copy_limbs [of Y ?n T "T ! ?n XOR borrow \<noteq> 0"] len by (simp add: low_def)
  qed
  note sub' = core_sub_cases [OF l sub]
  have result: "mpi_nat X = (if mpi_nat T < mpi_nat N then mpi_nat T else mpi_nat T - mpi_nat N) \<and> length X = ?n"
  proof (cases "mpi_nat low < mpi_nat N")
    case True
    then have b: "borrow = 1" "mpi_nat Y = limb_base ^ ?n + mpi_nat low - mpi_nat N" using sub' l by simp_all
    from carry consider "T ! ?n = 0" | "T ! ?n = 1"
      unfolding less_2_cases_iff word_unat_eq_iff by (auto simp: word_unat_eq_iff)
    then show ?thesis
    proof cases
      case 1
      then have "X = low" "mpi_nat T = mpi_nat low" using X b(1) T by simp_all
      with True l show ?thesis by simp
    next
      case 2
      then have "X = Y" "mpi_nat T = mpi_nat low + limb_base ^ ?n" using X b(1) T by simp_all
      with b(2) lowlt l core_sub_value(1) [OF l sub] show ?thesis by (simp add: add.commute)
    qed
  next
    case False
    have "unat (T ! ?n) = 0"
    proof (rule ccontr)
      assume "unat (T ! ?n) \<noteq> 0"
      then have "unat (T ! ?n) = 1" using carry by linarith
      with T lt BN False lowlt show False by simp
    qed
    with False T sub' core_sub_value(1) [OF l sub] l show ?thesis by (simp add: X unat_eq_zero)
  qed
  then show "length X = length N" by simp
  from result lt BN show "mpi_nat X < mpi_nat N" by (auto split: if_splits)
  have "mpi_nat X mod mpi_nat N = mpi_nat T mod mpi_nat N"
    using result by (auto simp: le_mod_geq)
  then have "mpi_nat X * limb_base ^ ?n mod mpi_nat N = mpi_nat T * limb_base ^ ?n mod mpi_nat N" by (rule mod_mult_cong) simp
  also have "\<dots> = mpi_nat A * mpi_nat B mod mpi_nat N" unfolding v by simp
  finally show "mpi_nat X * limb_base ^ length N mod mpi_nat N = mpi_nat A * mpi_nat B mod mpi_nat N" .
qed

end
