(* ===== verification/Bignum_Exp.thy ===== *)
theory Bignum_Exp
  imports Bignum_Montgomery
begin

text \<open>
  Modular exponentiation of drivers/builtin/src/bignum_core.c: left-to-right with a fixed window over
  a table of powers in Montgomery representation, in the variant for a public exponent and in the
  constant-time one. The working memory \<open>T\<close> holds the table, the selected entry and the scratch
  limbs of the multiplications; the last are overwritten by each multiplication and are not modelled.
  The test hooks that only count calls are left out.
\<close>

section \<open>The code\<close>

definition MBEDTLS_MPI_WINDOW_SIZE :: nat where
  "MBEDTLS_MPI_WINDOW_SIZE = 3"

definition exp_mod_get_window_size :: "nat \<Rightarrow> nat" where
  "exp_mod_get_window_size Ebits =
    (if MBEDTLS_MPI_WINDOW_SIZE \<ge> 6 then (if Ebits > 671 then 6 else if Ebits > 239 then 5 else if Ebits > 79 then 4 else 1)
     else if MBEDTLS_MPI_WINDOW_SIZE = 5 then (if Ebits > 239 then 5 else if Ebits > 79 then 4 else 1)
     else if MBEDTLS_MPI_WINDOW_SIZE > 1 then (if Ebits > 79 then MBEDTLS_MPI_WINDOW_SIZE else 1)
     else 1)"

definition mbedtls_mpi_core_exp_mod_working_limbs :: "nat \<Rightarrow> nat \<Rightarrow> nat" where
  "mbedtls_mpi_core_exp_mod_working_limbs AN_limbs E_limbs =
    (let wsize = exp_mod_get_window_size (E_limbs * 64);
         welem = push_bit wsize 1;
         table_limbs = welem * AN_limbs;
         select_limbs = AN_limbs;
         temp_limbs = 2 * AN_limbs + 1
     in table_limbs + select_limbs + temp_limbs)"

definition mbedtls_mpi_core_ct_uint_table_lookup :: "mpi \<Rightarrow> mpi \<Rightarrow> nat \<Rightarrow> nat \<Rightarrow> mpi_uint \<Rightarrow> mpi" where
  "mbedtls_mpi_core_ct_uint_table_lookup dest table limbs count index =
    fold (\<lambda>i dest. let assign = mbedtls_ct_uint_eq (word_of_nat i) index
        in mbedtls_mpi_core_cond_assign dest (take limbs (drop (i * limbs) table)) assign)
      [0..<count] dest"

definition exp_mod_precompute_window :: "mpi \<Rightarrow> mpi \<Rightarrow> mpi_uint \<Rightarrow> mpi \<Rightarrow> nat \<Rightarrow> mpi" where
  "exp_mod_precompute_window A N mm RR welem =
    (let W0 = (replicate (length N) 0)[0 := 1];
         W0 = mbedtls_mpi_core_montmul W0 RR N mm;
         W1 = A
     in fst (fold (\<lambda>i (Wtable, Wprev). let Wcur = mbedtls_mpi_core_montmul Wprev W1 N mm in (Wtable @ Wcur, Wcur))
          [2..<welem] (W0 @ W1, W1)))"

definition exp_mod_calc_first_bit_optionally_safe :: "mpi \<Rightarrow> bool \<Rightarrow> nat \<times> nat" where
  "exp_mod_calc_first_bit_optionally_safe E E_public =
    (if E_public then
       let E_bits = mbedtls_mpi_core_bitlen E;
           E_bits = (if E_bits = 0 then 1 else E_bits)
       in (E_bits div 64, E_bits mod 64)
     else (length E, 0))"

definition exp_mod_table_lookup_optionally_safe :: "mpi \<Rightarrow> mpi \<Rightarrow> nat \<Rightarrow> nat \<Rightarrow> mpi_uint \<Rightarrow> bool \<Rightarrow> mpi" where
  "exp_mod_table_lookup_optionally_safe Wselect Wtable AN_limbs welem window window_public =
    (if window_public then take AN_limbs (drop (unat window * AN_limbs) Wtable)
     else mbedtls_mpi_core_ct_uint_table_lookup Wselect Wtable AN_limbs welem window)"

text \<open>
  The do-while loop. Its result is \<open>None\<close> when it does not return or when it leaves the limbs of
  \<open>E\<close>, which happens when \<open>E_limb_index\<close> wraps around at zero.
\<close>

partial_function (option) exp_mod_loop ::
  "mpi \<Rightarrow> mpi \<Rightarrow> mpi_uint \<Rightarrow> bool \<Rightarrow> nat \<Rightarrow> mpi \<Rightarrow> mpi \<Rightarrow> mpi \<Rightarrow> nat \<Rightarrow> nat \<Rightarrow> nat \<Rightarrow> mpi_uint \<Rightarrow> mpi option"
where
  "exp_mod_loop E N mm E_public wsize Wtable X Wselect E_limb_index E_bit_index window_bits window =
    (let X = mbedtls_mpi_core_montmul X X N mm in
     if E_bit_index = 0 \<and> E_limb_index = 0 then None
     else
       let (E_limb_index, E_bit_index) =
             (if E_bit_index = 0 then (E_limb_index - 1, 63) else (E_limb_index, E_bit_index - 1));
           window_bits = window_bits + 1;
           window = push_bit 1 window
       in if length E \<le> E_limb_index then None
          else
            let window = window OR (drop_bit E_bit_index (E ! E_limb_index) AND 1);
                (X, Wselect, window, window_bits) =
                  (if window_bits = wsize \<or> (E_bit_index = 0 \<and> E_limb_index = 0) then
                     let Wselect = exp_mod_table_lookup_optionally_safe Wselect Wtable (length N) (push_bit wsize 1) window E_public
                     in (mbedtls_mpi_core_montmul X Wselect N mm, Wselect, 0, 0)
                   else (X, Wselect, window, window_bits))
            in if \<not> (E_bit_index = 0 \<and> E_limb_index = 0) then
                 exp_mod_loop E N mm E_public wsize Wtable X Wselect E_limb_index E_bit_index window_bits window
               else Some X)"

definition mbedtls_mpi_core_exp_mod_optionally_safe :: "mpi \<Rightarrow> mpi \<Rightarrow> mpi \<Rightarrow> bool \<Rightarrow> mpi \<Rightarrow> mpi \<Rightarrow> mpi option" where
  "mbedtls_mpi_core_exp_mod_optionally_safe A N E E_public RR T =
    (let (E_limb_index, E_bit_index) = exp_mod_calc_first_bit_optionally_safe E E_public;
         wsize = exp_mod_get_window_size (E_limb_index * 64);
         welem = push_bit wsize 1;
         table_limbs = welem * length N;
         select_limbs = length N;
         mm = mbedtls_mpi_core_montmul_init N;
         Wtable = exp_mod_precompute_window A N mm RR welem;
         Wselect = take select_limbs (drop table_limbs T);
         X = take (length N) Wtable;
         window_bits = 0; window = 0
     in exp_mod_loop E N mm E_public wsize Wtable X Wselect E_limb_index E_bit_index window_bits window)"

definition mbedtls_mpi_core_exp_mod :: "mpi \<Rightarrow> mpi \<Rightarrow> mpi \<Rightarrow> mpi \<Rightarrow> mpi \<Rightarrow> mpi option" where
  "mbedtls_mpi_core_exp_mod A N E RR T = mbedtls_mpi_core_exp_mod_optionally_safe A N E False RR T"

definition mbedtls_mpi_core_exp_mod_unsafe :: "mpi \<Rightarrow> mpi \<Rightarrow> mpi \<Rightarrow> mpi \<Rightarrow> mpi \<Rightarrow> mpi option" where
  "mbedtls_mpi_core_exp_mod_unsafe A N E RR T = mbedtls_mpi_core_exp_mod_optionally_safe A N E True RR T"

section \<open>Numbers in Montgomery representation\<close>

text \<open>The array \<open>X\<close> stands for the residue \<open>x\<close> modulo \<open>N\<close>.\<close>

definition mont_rep :: "mpi \<Rightarrow> nat \<Rightarrow> mpi \<Rightarrow> bool" where
  "mont_rep N x X \<longleftrightarrow> length X = length N \<and> mpi_nat X < mpi_nat N \<and>
    mpi_nat X mod mpi_nat N = x * limb_base ^ length N mod mpi_nat N"

definition mont_modulus :: "mpi \<Rightarrow> bool" where
  "mont_modulus N \<longleftrightarrow> N \<noteq> [] \<and> odd (N ! 0)"

lemma mont_modulus_coprime: "mont_modulus N \<Longrightarrow> coprime (mpi_nat N) (limb_base ^ k)"
proof -
  assume "mont_modulus N"
  then have "odd (mpi_nat N)" by (simp add: mont_modulus_def odd_mpi_nat odd_unat)
  then have "coprime (mpi_nat N) (2 ^ (64 * k))" by simp
  then show ?thesis by (simp add: limb_base_def power_mult)
qed

lemma cancel_radix:
  fixes N x y r :: nat
  assumes "coprime N r" "x * r mod N = y * r mod N"
  shows "x mod N = y mod N"
proof -
  have "int N dvd (int x - int y) * int r"
    using assms(2) by (simp add: mod_eq_dvd_iff left_diff_distrib flip: of_nat_mult of_nat_mod) (metis mod_eq_dvd_iff of_nat_mod)
  with assms(1) have "int N dvd int x - int y" by (simp add: coprime_dvd_mult_left_iff)
  then show ?thesis by (metis mod_eq_dvd_iff of_nat_eq_iff of_nat_mod)
qed

lemma mont_rep_montmul:
  assumes N: "mont_modulus N" and X: "mont_rep N x X" and Y: "mont_rep N y Y"
  shows "mont_rep N (x * y) (mbedtls_mpi_core_montmul X Y N (mbedtls_mpi_core_montmul_init N))"
proof -
  let ?Z = "mbedtls_mpi_core_montmul X Y N (mbedtls_mpi_core_montmul_init N)" and ?R = "limb_base ^ length N"
  have pre: "length X = length N" "0 < length Y" "length Y \<le> length N" "odd (N ! 0)" "mpi_nat Y \<le> mpi_nat N"
    using N X Y by (simp_all add: mont_modulus_def mont_rep_def)
  note v = montmul_value [OF pre]
  have "mpi_nat ?Z * ?R mod mpi_nat N = (mpi_nat X mod mpi_nat N) * (mpi_nat Y mod mpi_nat N) mod mpi_nat N"
    using v(3) by (simp add: mod_mult_eq)
  also have "\<dots> = (x * ?R) * (y * ?R) mod mpi_nat N" using X Y unfolding mont_rep_def by (metis mod_mult_eq)
  finally have "mpi_nat ?Z * ?R mod mpi_nat N = (x * y * ?R) * ?R mod mpi_nat N" by (simp only: ac_simps)
  from cancel_radix [OF mont_modulus_coprime [OF N] this] v(1,2) show ?thesis by (simp add: mont_rep_def)
qed

lemma mont_rep_cong: "mont_rep N x X \<Longrightarrow> x mod mpi_nat N = y mod mpi_nat N \<Longrightarrow> mont_rep N y X"
  unfolding mont_rep_def by (metis mod_mult_left_eq)

lemma to_mont_rep_value:
  assumes N: "mont_modulus N" and A: "length A = length N" "length rr = length N"
    and rr: "mpi_nat rr = (limb_base ^ length N)\<^sup>2 mod mpi_nat N"
  shows "mont_rep N (mpi_nat A) (mbedtls_mpi_core_to_mont_rep A N (mbedtls_mpi_core_montmul_init N) rr)"
proof -
  let ?Z = "mbedtls_mpi_core_montmul A rr N (mbedtls_mpi_core_montmul_init N)" and ?R = "limb_base ^ length N"
  have "0 < mpi_nat N" using N by (intro odd_pos) (simp add: mont_modulus_def odd_mpi_nat odd_unat)
  then have pre: "length A = length N" "0 < length rr" "length rr \<le> length N" "odd (N ! 0)" "mpi_nat rr \<le> mpi_nat N"
    using N A rr by (simp_all add: mont_modulus_def less_imp_le)
  note v = montmul_value [OF pre]
  have "mpi_nat ?Z * ?R mod mpi_nat N = (mpi_nat A * ?R) * ?R mod mpi_nat N"
    unfolding v(3) rr by (simp add: mod_mult_right_eq power2_eq_square mult.assoc)
  from cancel_radix [OF mont_modulus_coprime [OF N] this] v(1,2) show ?thesis
    by (simp add: mont_rep_def mbedtls_mpi_core_to_mont_rep_def)
qed

lemma from_mont_rep_value:
  assumes N: "mont_modulus N" and X: "mont_rep N x X"
  shows "mpi_nat (mbedtls_mpi_core_from_mont_rep X N (mbedtls_mpi_core_montmul_init N)) = x mod mpi_nat N"
proof -
  let ?Z = "mbedtls_mpi_core_montmul X [1] N (mbedtls_mpi_core_montmul_init N)" and ?R = "limb_base ^ length N"
  have "0 < mpi_nat N" using N by (intro odd_pos) (simp add: mont_modulus_def odd_mpi_nat odd_unat)
  then have pre: "length X = length N" "0 < length [1 :: mpi_uint]" "length [1 :: mpi_uint] \<le> length N" "odd (N ! 0)"
      "mpi_nat [1] \<le> mpi_nat N"
    using N X by (auto simp: mont_modulus_def mont_rep_def Suc_le_eq)
  note v = montmul_value [OF pre]
  have "mpi_nat ?Z * ?R mod mpi_nat N = x * ?R mod mpi_nat N"
    unfolding v(3) using X by (simp add: mont_rep_def)
  from cancel_radix [OF mont_modulus_coprime [OF N] this] v(2) show ?thesis
    by (simp add: mbedtls_mpi_core_from_mont_rep_def)
qed

section \<open>The table of powers\<close>

definition table_entry :: "nat \<Rightarrow> mpi \<Rightarrow> nat \<Rightarrow> mpi" where
  "table_entry n table i = take n (drop (i * n) table)"

lemma core_cond_assign_eq:
  "length X = length A \<Longrightarrow> mbedtls_mpi_core_cond_assign X A (ct_mask c) = (if c then A else X)"
  by (auto intro!: nth_equalityI simp: mbedtls_mpi_core_cond_assign_def ct simp del: ct_mask_simps)

lemma length_table_entry: "(i + 1) * n \<le> length table \<Longrightarrow> length (table_entry n table i) = n"
  by (simp add: table_entry_def)

lemma table_entry_append:
  "(i + 1) * n \<le> length table \<Longrightarrow> table_entry n (table @ more_limbs) i = table_entry n table i"
  by (simp add: table_entry_def)

lemma ct_table_lookup_value:
  assumes "length dest = n" "length table = count * n" "unat index < count" "count < 2 ^ 64"
  shows "mbedtls_mpi_core_ct_uint_table_lookup dest table n count index = table_entry n table (unat index)"
proof -
  let ?f = "\<lambda>i dest. let assign = mbedtls_ct_uint_eq (word_of_nat i) index
        in mbedtls_mpi_core_cond_assign dest (take n (drop (i * n) table)) assign"
  have "fold ?f [0..<k] dest = (if unat index < k then table_entry n table (unat index) else dest)" if "k \<le> count" for k
    using that
  proof (induction k)
    case (Suc k)
    have "(k + 1) * n \<le> length table" "(unat index + 1) * n \<le> length table"
      using Suc.prems assms(2,3) by (auto simp del: mult_Suc intro!: mult_le_mono1)
    then have l: "length (table_entry n table k) = n" "length (table_entry n table (unat index)) = n" by (simp_all only: length_table_entry)
    have e: "word_of_nat k = index \<longleftrightarrow> k = unat index"
      using Suc.prems assms(4) by (simp add: word_unat_eq_iff unat_of_nat)
    show ?case using Suc l assms(1)
      by (auto simp: ct_compare core_cond_assign_eq e table_entry_def [symmetric] simp del: ct_mask_simps)
  qed simp
  from this [of count] assms(3) show ?thesis by (simp add: mbedtls_mpi_core_ct_uint_table_lookup_def)
qed

lemma mont_modulus_pos: "mont_modulus N \<Longrightarrow> 0 < mpi_nat N"
  by (intro odd_pos) (simp add: mont_modulus_def odd_mpi_nat odd_unat)

lemma precompute_window_value:
  assumes N: "mont_modulus N" and A: "mont_rep N a A"
    and RR: "length RR = length N" "mpi_nat RR = (limb_base ^ length N)\<^sup>2 mod mpi_nat N" and "2 \<le> welem"
  defines "W \<equiv> exp_mod_precompute_window A N (mbedtls_mpi_core_montmul_init N) RR welem"
  shows "length W = welem * length N" "\<And>i. i < welem \<Longrightarrow> mont_rep N (a ^ i) (table_entry (length N) W i)"
proof -
  let ?n = "length N" and ?mm = "mbedtls_mpi_core_montmul_init N"
  define W0 where "W0 = mbedtls_mpi_core_montmul ((replicate ?n 0)[0 := 1]) RR N ?mm"
  have one: "mpi_nat ((replicate ?n 0)[0 := 1]) = 1" using N by (cases ?n) (simp_all add: mont_modulus_def)
  have W0: "mont_rep N 1 W0"
    using to_mont_rep_value [OF N _ RR, of "(replicate ?n 0)[0 := 1]"] one
    by (simp add: W0_def mbedtls_mpi_core_to_mont_rep_def)
  let ?f = "\<lambda>i (Wtable, Wprev). let Wcur = mbedtls_mpi_core_montmul Wprev A N ?mm in (Wtable @ Wcur, Wcur)"
  have inv: "length (fst (fold ?f [2..<k] (W0 @ A, A))) = k * ?n \<and>
      (\<forall>i<k. mont_rep N (a ^ i) (table_entry ?n (fst (fold ?f [2..<k] (W0 @ A, A))) i)) \<and>
      mont_rep N (a ^ (k - 1)) (snd (fold ?f [2..<k] (W0 @ A, A)))" if "2 \<le> k" for k
    using that
  proof (induction k rule: dec_induct)
    case base
    have "length W0 = ?n" "length A = ?n" using W0 A by (simp_all add: mont_rep_def)
    then have "table_entry ?n (W0 @ A) 0 = W0" "table_entry ?n (W0 @ A) 1 = A" by (simp_all add: table_entry_def)
    with W0 A show ?case using \<open>length W0 = ?n\<close> \<open>length A = ?n\<close> by (auto simp: less_2_cases_iff)
  next
    case (step k)
    obtain Wt Wp where st: "fold ?f [2..<k] (W0 @ A, A) = (Wt, Wp)" by fastforce
    have len: "length Wt = k * ?n" and old: "\<And>i. i < k \<Longrightarrow> mont_rep N (a ^ i) (table_entry ?n Wt i)"
      and prev: "mont_rep N (a ^ (k - 1)) Wp" using step.IH unfolding st by auto
    define Wc where "Wc = mbedtls_mpi_core_montmul Wp A N ?mm"
    have Wc: "mont_rep N (a ^ k) Wc"
      using mont_rep_montmul [OF N prev A] step.hyps(1) by (simp add: Wc_def flip: power_Suc2)
    then have lc: "length Wc = ?n" by (simp add: mont_rep_def)
    have st': "fold ?f [2..<Suc k] (W0 @ A, A) = (Wt @ Wc, Wc)" using st step.hyps(1) by (simp add: Wc_def Let_def)
    have "mont_rep N (a ^ i) (table_entry ?n (Wt @ Wc) i)" if "i < Suc k" for i
    proof (cases "i = k")
      case True
      then show ?thesis using Wc lc len by (simp add: table_entry_def)
    next
      case False
      then have "(i + 1) * ?n \<le> length Wt" using that len by (auto simp del: mult_Suc intro!: mult_le_mono1)
      with old [of i] False that show ?thesis by (simp only: table_entry_append)
    qed
    then show ?case unfolding st' using Wc lc len by simp
  qed
  have "W = fst (fold ?f [2..<welem] (W0 @ A, A))" by (simp add: W_def exp_mod_precompute_window_def Let_def W0_def)
  with inv [OF assms(5)] show "length W = welem * ?n" "\<And>i. i < welem \<Longrightarrow> mont_rep N (a ^ i) (table_entry ?n W i)" by auto
qed

section \<open>The loop over the exponent\<close>

lemma table_lookup_value:
  assumes "length Wselect = n" "length Wtable = welem * n" "unat window < welem" "welem < 2 ^ 64"
  shows "exp_mod_table_lookup_optionally_safe Wselect Wtable n welem window window_public = table_entry n Wtable (unat window)"
  using ct_table_lookup_value [OF assms] by (simp add: exp_mod_table_lookup_optionally_safe_def table_entry_def)

lemma exponent_bit:
  assumes "i < length E" "b < 64"
  shows "unat (drop_bit b (E ! i) AND 1) = of_bool (bit (mpi_nat E) (i * 64 + b))"
proof -
  have "(i * 64 + b) div 64 = i" "(i * 64 + b) mod 64 = b" using assms(2) by simp_all
  then show ?thesis using assms(1) unfolding and_one_eq mod_2_eq_odd by (simp add: bit_mpi_nat flip: bit_iff_odd_drop_bit)
qed

lemma window_step:
  fixes window v :: mpi_uint
  assumes "unat window < 2 ^ 62" "unat v \<le> 1"
  shows "unat (push_bit 1 window OR v) = 2 * unat window + unat v"
proof -
  have v: "v = of_bool (unat v = 1)" using assms(2) by (auto simp: word_unat_eq_iff)
  have "push_bit 1 window OR v = push_bit 1 window + v"
  proof (rule disjunctive_add [symmetric])
    fix n show "\<not> bit (push_bit 1 window) n \<or> \<not> bit v n"
    proof (cases "n = 0")
      case True
      then show ?thesis unfolding bit_push_bit_iff by simp
    next
      case False
      then have "\<not> bit v n" by (subst v) (simp add: bit_1_iff)
      then show ?thesis ..
    qed
  qed
  moreover have "push_bit 1 window = 2 * window" by (simp add: push_bit_eq_mult mult.commute)
  ultimately show ?thesis using assms by (simp add: unat_add_base unat_mult_base limb_base_def)
qed

lemma nat_next_bit: "n div 2 ^ p = 2 * (n div 2 ^ Suc p) + of_bool (bit n p)" for n :: nat
proof -
  have "n div 2 ^ Suc p = n div 2 ^ p div 2" by (simp only: power_Suc2 div_mult2_eq)
  then show ?thesis unfolding bit_iff_odd by (simp add: mod_2_eq_odd flip: mod_2_eq_odd)
qed

lemma exp_mod_loop_value:
  assumes N: "mont_modulus N" and ws: "0 < wsize" "wsize \<le> 6"
    and W: "length Wtable = 2 ^ wsize * length N" "\<And>i. i < 2 ^ wsize \<Longrightarrow> mont_rep N (a ^ i) (table_entry (length N) Wtable i)"
    and "length Wselect = length N" "bi < 64" "li * 64 + bi = Suc p" "Suc p \<le> length E * 64"
    and "wb < wsize" "unat window < 2 ^ wb" "unat window \<le> mpi_nat E div 2 ^ Suc p"
    and "mont_rep N (a ^ (mpi_nat E div 2 ^ Suc p - unat window)) X"
  shows "\<exists>Y. exp_mod_loop E N (mbedtls_mpi_core_montmul_init N) pub wsize Wtable X Wselect li bi wb window = Some Y \<and>
    mont_rep N (a ^ mpi_nat E) Y"
  using assms(6-)
proof (induction p arbitrary: Wselect bi li wb window X rule: less_induct)
  case (less p)
  let ?e = "mpi_nat E" and ?mm = "mbedtls_mpi_core_montmul_init N" and ?n = "length N"
  let ?H = "?e div 2 ^ Suc p"
  obtain li' bi' where nxt: "(if bi = 0 then (li - 1, 63) else (li, bi - 1)) = (li', bi')" by fastforce
  have pos: "\<not> (bi = 0 \<and> li = 0)" using less.prems(3) by auto
  have p: "li' * 64 + bi' = p" and bi': "bi' < 64"
    using nxt less.prems(2,3) by (auto split: if_splits)
  have li': "li' < length E" using p less.prems(4) by linarith
  define v where "v = drop_bit bi' (E ! li') AND 1"
  have v: "unat v = of_bool (bit ?e p)" unfolding v_def exponent_bit [OF li' bi'] p ..
  define w where "w = push_bit 1 window OR v"
  have small: "unat window < 2 ^ 62"
  proof -
    have "(2 :: nat) ^ wb \<le> 2 ^ 6" using less.prems(5) ws(2) by (intro power_increasing) simp_all
    also have "\<dots> \<le> 2 ^ 62" by simp
    finally show ?thesis using less.prems(6) by (rule order.strict_trans2 [rotated])
  qed
  have w: "unat w = 2 * unat window + of_bool (bit ?e p)"
    unfolding w_def using window_step [OF small, of v] v by simp
  have H: "?e div 2 ^ p = 2 * ?H + of_bool (bit ?e p)" by (rule nat_next_bit)
  have wle: "unat w \<le> ?e div 2 ^ p" and diff: "?e div 2 ^ p - unat w = 2 * (?H - unat window)"
    using less.prems(7) unfolding w H by auto
  define X1 where "X1 = mbedtls_mpi_core_montmul X X N ?mm"
  have X1: "mont_rep N (a ^ (?e div 2 ^ p - unat w)) X1"
    using mont_rep_montmul [OF N less.prems(8) less.prems(8)] unfolding diff X1_def by (simp add: mult_2 power_add)
  have wlt: "unat w < 2 ^ Suc wb" using less.prems(6) unfolding w by (auto split: if_splits)
  have done_iff: "bi' = 0 \<and> li' = 0 \<longleftrightarrow> p = 0" using p by auto
  have unfold: "exp_mod_loop E N ?mm pub wsize Wtable X Wselect li bi wb window =
      (let (X, Wselect, window, window_bits) =
          (if wb + 1 = wsize \<or> p = 0 then
             let Wselect = exp_mod_table_lookup_optionally_safe Wselect Wtable ?n (push_bit wsize 1) w pub
             in (mbedtls_mpi_core_montmul X1 Wselect N ?mm, Wselect, 0, 0)
           else (X1, Wselect, w, wb + 1))
       in if p \<noteq> 0 then exp_mod_loop E N ?mm pub wsize Wtable X Wselect li' bi' window_bits window else Some X)"
  proof -
    have c: "(bi = 0 \<and> li = 0) = False" "(length E \<le> li') = False" using pos li' by simp_all
    show ?thesis
      by (subst exp_mod_loop.simps) (simp only: Let_def c if_False nxt prod.case done_iff X1_def w_def v_def)
  qed
  show ?case
  proof (cases "wb + 1 = wsize \<or> p = 0")
    case True
    have "unat w < 2 ^ wsize" using wlt less.prems(5) by (meson Suc_leI less_le_trans one_le_numeral power_increasing)
    moreover have "(2 :: nat) ^ wsize < 2 ^ 64" using ws(2) by (intro power_strict_increasing) simp_all
    ultimately have sel: "exp_mod_table_lookup_optionally_safe Wselect Wtable ?n (push_bit wsize 1) w pub = table_entry ?n Wtable (unat w)"
      using table_lookup_value [OF less.prems(1) W(1)] by (simp add: push_bit_eq_mult)
    have ent: "mont_rep N (a ^ unat w) (table_entry ?n Wtable (unat w))" by (rule W(2)) fact
    define X2 where "X2 = mbedtls_mpi_core_montmul X1 (table_entry ?n Wtable (unat w)) N ?mm"
    have X2: "mont_rep N (a ^ (?e div 2 ^ p)) X2"
      using mont_rep_montmul [OF N X1 ent] wle unfolding X2_def by (simp flip: power_add)
    have run: "exp_mod_loop E N ?mm pub wsize Wtable X Wselect li bi wb window =
        (if p \<noteq> 0 then exp_mod_loop E N ?mm pub wsize Wtable X2 (table_entry ?n Wtable (unat w)) li' bi' 0 0 else Some X2)"
      unfolding unfold by (simp only: True if_True Let_def prod.case sel X2_def)
    show ?thesis
    proof (cases p)
      case 0
      with X2 run show ?thesis by simp
    next
      case (Suc q)
      have "length (table_entry ?n Wtable (unat w)) = ?n" using ent by (simp add: mont_rep_def)
      from less.IH [OF _ this bi' p [unfolded Suc], of 0 0 X2] Suc less.prems(4) ws(1) X2 show ?thesis unfolding run by simp
    qed
  next
    case False
    then obtain q where q: "p = Suc q" by (cases p) auto
    have run: "exp_mod_loop E N ?mm pub wsize Wtable X Wselect li bi wb window =
        exp_mod_loop E N ?mm pub wsize Wtable X1 Wselect li' bi' (Suc wb) w"
      unfolding unfold using False by simp
    from less.IH [OF _ less.prems(1) bi' p [unfolded q], of "Suc wb" w X1] q less.prems(4,5) False wlt wle X1
    show ?thesis unfolding run by simp
  qed
qed

lemma window_size_bounds: "0 < exp_mod_get_window_size b" "exp_mod_get_window_size b \<le> 6"
  by (simp_all add: exp_mod_get_window_size_def MBEDTLS_MPI_WINDOW_SIZE_def)

lemma first_bit_value:
  assumes "E \<noteq> []" "exp_mod_calc_first_bit_optionally_safe E pub = (li, bi)"
  shows "bi < 64" "0 < li * 64 + bi" "li * 64 + bi \<le> length E * 64" "mpi_nat E div 2 ^ (li * 64 + bi) = 0"
proof -
  let ?b = "mbedtls_mpi_core_bitlen E"
  have "mpi_nat E < 2 ^ ?b" "?b \<le> length E * 64" by (rule core_bitlen_value)+
  moreover have "mpi_nat E < 2 ^ (length E * 64)"
    using mpi_nat_less [of E] by (metis limb_base_def mult.commute power_mult)
  moreover have "0 < length E" using assms(1) by simp
  ultimately show "bi < 64" "0 < li * 64 + bi" "li * 64 + bi \<le> length E * 64" "mpi_nat E div 2 ^ (li * 64 + bi) = 0"
    using assms(2) unfolding exp_mod_calc_first_bit_optionally_safe_def by (auto simp: Let_def Suc_le_eq split: if_splits)
qed

lemma exp_mod_value:
  assumes N: "mont_modulus N" and A: "mont_rep N a A" and "E \<noteq> []"
    and RR: "length RR = length N" "mpi_nat RR = (limb_base ^ length N)\<^sup>2 mod mpi_nat N"
    and T: "mbedtls_mpi_core_exp_mod_working_limbs (length N) (length E) \<le> length T"
  shows "\<exists>X. mbedtls_mpi_core_exp_mod_optionally_safe A N E pub RR T = Some X \<and> mont_rep N (a ^ mpi_nat E) X"
proof -
  let ?n = "length N" and ?mm = "mbedtls_mpi_core_montmul_init N"
  obtain li bi where fb: "exp_mod_calc_first_bit_optionally_safe E pub = (li, bi)" by fastforce
  note b = first_bit_value [OF assms(3) fb]
  let ?w = "exp_mod_get_window_size (li * 64)"
  have w: "0 < ?w" "?w \<le> 6" by (rule window_size_bounds)+
  have two: "2 \<le> (push_bit ?w 1 :: nat)" using self_le_power [of 2 ?w] w(1) by (simp add: push_bit_eq_mult)
  define W where "W = exp_mod_precompute_window A N ?mm RR (push_bit ?w 1)"
  note pw = precompute_window_value [OF N A RR two, folded W_def]
  have pb: "(push_bit ?w 1 :: nat) = 2 ^ ?w" by (simp add: push_bit_eq_mult)
  have entry0: "mont_rep N 1 (take ?n W)" using pw(2) [of 0] two by (simp add: table_entry_def)
  have sel: "length (take ?n (drop (push_bit ?w 1 * ?n) T)) = ?n"
  proof -
    have "li \<le> length E" using b(1,3) by linarith
    then have "?w \<le> exp_mod_get_window_size (length E * 64)"
      by (simp add: exp_mod_get_window_size_def MBEDTLS_MPI_WINDOW_SIZE_def)
    then have "(2 :: nat) ^ ?w * ?n \<le> 2 ^ exp_mod_get_window_size (length E * 64) * ?n"
      by (intro mult_right_mono power_increasing) simp_all
    moreover have "2 ^ exp_mod_get_window_size (length E * 64) * ?n + ?n + (2 * ?n + 1) \<le> length T"
      using T by (simp add: mbedtls_mpi_core_exp_mod_working_limbs_def Let_def push_bit_eq_mult)
    ultimately have "2 ^ ?w * ?n + ?n \<le> length T" by linarith
    then show ?thesis by (simp add: pb)
  qed
  obtain p where p: "li * 64 + bi = Suc p" using gr0_implies_Suc [OF b(2)] by (elim exE)
  have "mbedtls_mpi_core_exp_mod_optionally_safe A N E pub RR T =
      exp_mod_loop E N ?mm pub ?w W (take ?n W) (take ?n (drop (push_bit ?w 1 * ?n) T)) li bi 0 0"
    unfolding mbedtls_mpi_core_exp_mod_optionally_safe_def Let_def fb prod.case W_def ..
  moreover have "\<exists>Y. exp_mod_loop E N ?mm pub ?w W (take ?n W) (take ?n (drop (push_bit ?w 1 * ?n) T)) li bi 0 0 = Some Y \<and>
      mont_rep N (a ^ mpi_nat E) Y"
    by (rule exp_mod_loop_value [OF N w _ _ sel b(1) p]) (use b(3,4) p pw entry0 w in \<open>simp_all add: pb\<close>)
  ultimately show ?thesis by simp
qed

end
