(* ===== verification/Binary_Gcd.thy ===== *)
theory Binary_Gcd
  imports Main
begin

text \<open>
  The binary greatest common divisor on natural numbers that the constant-time routine of
  bignum_core.c carries out on limbs: out of \<open>u\<close>, \<open>v\<close> and \<open>v - u\<close> each step keeps one, halves an even
  one and drops the third. The steps keep the greatest common divisor, and as many steps as the two
  numbers have bits together are enough to bring \<open>u\<close> to zero.
\<close>

definition sorted_pair :: "nat \<Rightarrow> nat \<Rightarrow> nat \<times> nat" where
  "sorted_pair x y = (if y < x then (y, x) else (x, y))"

fun gcd_step :: "nat \<times> nat \<Rightarrow> nat \<times> nat" where
  "gcd_step (u, v) =
    (if odd u \<and> odd v then sorted_pair u ((v - u) div 2)
     else if odd u then sorted_pair (v - u) (v div 2)
     else sorted_pair (v - u) (u div 2))"

definition gcd_state :: "nat \<times> nat \<Rightarrow> bool" where
  "gcd_state p = (case p of (u, v) \<Rightarrow> u \<le> v \<and> (odd u \<or> odd v))"

lemma sorted_pair_cases: "sorted_pair x y = (x, y) \<and> x \<le> y \<or> sorted_pair x y = (y, x) \<and> y \<le> x"
  by (auto simp: sorted_pair_def)

lemma gcd_state_step: "gcd_state p \<Longrightarrow> gcd_state (gcd_step p)"
  by (cases p) (auto simp: gcd_state_def sorted_pair_def)

lemma gcd_half: "odd (x :: nat) \<Longrightarrow> even y \<Longrightarrow> gcd x (y div 2) = gcd x y"
proof -
  assume "odd x" "even y"
  then obtain k where "y = 2 * k" "coprime x 2" by auto
  then show ?thesis by (simp add: gcd_mult_right_left_cancel)
qed

lemma gcd_sorted_pair: "gcd (fst (sorted_pair x y)) (snd (sorted_pair x y)) = gcd x y"
  by (simp add: sorted_pair_def gcd.commute)

lemma gcd_step_gcd:
  assumes "gcd_state (u, v)"
  shows "gcd (fst (gcd_step (u, v))) (snd (gcd_step (u, v))) = gcd u v"
proof -
  from assms have uv: "u \<le> v" "odd u \<or> odd v" by (simp_all add: gcd_state_def)
  have d: "gcd u (v - u) = gcd u v" "gcd (v - u) v = gcd u v"
    using gcd_diff1_nat [OF uv(1)] gcd_diff2_nat [OF uv(1)] by (simp_all add: gcd.commute)
  consider "odd u" "odd v" | "odd u" "even v" | "even u" "odd v" using uv(2) by blast
  then show ?thesis
  proof cases
    case 1
    then show ?thesis using gcd_half [of u "v - u"] uv(1) d(1) by (simp add: gcd_sorted_pair)
  next
    case 2
    then show ?thesis using gcd_half [of "v - u" v] uv(1) d(2) by (simp add: gcd_sorted_pair)
  next
    case 3
    then show ?thesis using gcd_half [of "v - u" u] uv(1) d(1) by (simp add: gcd_sorted_pair gcd.commute)
  qed
qed

section \<open>How many steps are enough\<close>

text \<open>
  The measure of a pair. Either the two numbers have \<open>a\<close> and \<open>n\<close> bits, or the pair is close to the
  ratio one to two: \<open>x\<close> is odd, \<open>x\<close> and \<open>2 * y\<close> differ by a number of \<open>a\<close> bits, and the smaller of
  \<open>x / 2\<close> and \<open>y\<close> has \<open>n\<close> bits. The second form is what a step leaves that halves the larger number.
\<close>

definition near_double :: "nat \<Rightarrow> nat \<Rightarrow> nat \<Rightarrow> nat \<Rightarrow> bool" where
  "near_double a n x y \<longleftrightarrow> odd x \<and>
    (x < 2 * y \<and> 2 * y - x < 2 ^ a \<and> x < 2 * 2 ^ n \<or> 2 * y < x \<and> x - 2 * y < 2 ^ a \<and> y < 2 ^ n)"

definition steps_left :: "nat \<Rightarrow> nat \<Rightarrow> nat \<Rightarrow> bool" where
  "steps_left s x y \<longleftrightarrow> x = 0 \<or> y = 0 \<or>
    (\<exists>a n. a + n = s \<and> (x < 2 ^ a \<and> y < 2 ^ n \<or> near_double a n x y \<or> near_double a n y x))"

lemma steps_left_sym: "steps_left s x y \<Longrightarrow> steps_left s y x"
  unfolding steps_left_def by (metis add.commute)

lemma steps_leftI:
  "a + n = s \<Longrightarrow> x < 2 ^ a \<Longrightarrow> y < 2 ^ n \<Longrightarrow> steps_left s x y"
  "a + n = s \<Longrightarrow> near_double a n x y \<Longrightarrow> steps_left s x y"
  unfolding steps_left_def by blast+

lemma steps_left_sorted: "steps_left s x y \<Longrightarrow> steps_left s (fst (sorted_pair x y)) (snd (sorted_pair x y))"
  using steps_left_sym by (simp add: sorted_pair_def)

lemma power_pos_exponent: "x < 2 ^ n \<Longrightarrow> 0 < x \<Longrightarrow> \<exists>m. n = Suc m" for x n :: nat
  by (cases n) simp_all

lemma steps_left_bits:
  assumes "u \<le> v" "odd u \<or> odd v" "0 < u" "u < 2 ^ a" "v < 2 ^ n" "a + n = Suc s"
  shows "steps_left s (fst (gcd_step (u, v))) (snd (gcd_step (u, v)))"
proof -
  obtain a' n' where e: "a = Suc a'" "n = Suc n'" using power_pos_exponent assms by (metis order.strict_trans2)
  consider "odd u" "odd v" | "odd u" "even v" | "even u" "odd v" using assms(2) by blast
  then show ?thesis
  proof cases
    case 1
    have "(v - u) div 2 < 2 ^ n'" using assms(5) e by simp
    with assms 1 e show ?thesis by (simp add: steps_left_sorted steps_leftI(1) [of a n'])
  next
    case 2
    then have "near_double a n' (v - u) (v div 2)"
      using assms e by (auto simp: near_double_def)
    with assms 2 e show ?thesis by (simp add: steps_left_sorted steps_leftI(2) [of a n'])
  next
    case 3
    have "u div 2 < 2 ^ a'" "v - u < 2 ^ n" using assms e by auto
    with assms 3 e show ?thesis by (simp add: steps_left_sorted steps_leftI(1) [of n a'])
  qed
qed

lemma steps_left_near:
  assumes near: "near_double a n x y" and y: "0 < y" and s: "a + n = Suc s"
  shows "steps_left s (fst (gcd_step (sorted_pair x y))) (snd (gcd_step (sorted_pair x y)))"
proof -
  have x: "odd x" "0 < x" using near by (auto simp: near_double_def odd_pos)
  consider (half) "2 * y < x" | (below) "y < x" "x < 2 * y" | (equal) "x = y" | (above) "x < y"
    using x near by (auto simp: near_double_def) (metis linorder_neqE_nat)
  then show ?thesis
  proof cases
    case half
    then have n: "x - 2 * y < 2 ^ a" "y < 2 ^ n" using near by (auto simp: near_double_def)
    obtain n' where n': "n = Suc n'" using power_pos_exponent [OF n(2) y] ..
    have sp: "sorted_pair x y = (y, x)" using half by (simp add: sorted_pair_def)
    show ?thesis
    proof (cases "even y")
      case True
      then have "near_double a n' (x - y) (y div 2)" using half n n' x by (auto simp: near_double_def)
      with True half n' s x show ?thesis unfolding sp by (simp add: steps_left_sorted steps_leftI(2) [of a n'])
    next
      case False
      then have "even (x - y)" using x half by simp
      then have "2 * ((x - y) div 2) = x - y" by simp
      then have "near_double a n' y ((x - y) div 2)" using False half n n' y by (auto simp: near_double_def)
      with False half n' s x show ?thesis unfolding sp by (simp add: steps_left_sorted steps_leftI(2) [of a n'])
    qed
  next
    case below
    then have n: "2 * y - x < 2 ^ a" "x < 2 * 2 ^ n" using near by (auto simp: near_double_def)
    have "2 \<le> x" using below y by linarith
    then obtain n' where n': "n = Suc n'" using n(2) by (cases n) simp_all
    have sp: "sorted_pair x y = (y, x)" using below by (simp add: sorted_pair_def)
    have d: "x - y < 2 ^ n" using below n(2) by linarith
    show ?thesis
    proof (cases "even y")
      case True
      then have "2 * (y div 2) = y" by simp
      then have "near_double a n' (x - y) (y div 2)" using True below n d n' x by (auto simp: near_double_def)
      with True below n' s x show ?thesis unfolding sp by (simp add: steps_left_sorted steps_leftI(2) [of a n'])
    next
      case False
      then have "even (x - y)" using x below by simp
      then have h: "2 * ((x - y) div 2) = x - y" by simp
      then have "2 * ((x - y) div 2) < y" "y - 2 * ((x - y) div 2) < 2 ^ a" "(x - y) div 2 < 2 ^ n'"
        using below n d n' by auto
      then have "near_double a n' y ((x - y) div 2)" using False by (simp add: near_double_def)
      with False below n' s x show ?thesis unfolding sp by (simp add: steps_left_sorted steps_leftI(2) [of a n'])
    qed
  next
    case equal
    with x show ?thesis by (simp add: sorted_pair_def steps_left_def)
  next
    case above
    then have n: "2 * y - x < 2 ^ a" "x < 2 ^ (n + 1)" using near by (auto simp: near_double_def)
    have sp: "sorted_pair x y = (x, y)" using above by (simp add: sorted_pair_def)
    have "3 \<le> 2 * y - x" using above x(2) by linarith
    then have "2 \<le> a" using n(1) by (cases a; cases "a - 1") auto
    then obtain b where b: "a = b + 2" by (metis add.commute le_iff_add)
    then have s': "(n + 1) + b = s" "b + (n + 1) = s" using s by simp_all
    have d: "y - x < 2 * 2 ^ b" using n(1) above unfolding b by simp
    show ?thesis
    proof (cases "even y")
      case True
      then have "2 * (y div 2) = y" by simp
      then have "near_double (n + 1) b (y - x) (y div 2)"
        using True above n(2) d x by (auto simp: near_double_def)
      with True above s' x show ?thesis unfolding sp by (simp add: steps_left_sorted steps_leftI(2) [of "n + 1" b])
    next
      case False
      have "(y - x) div 2 < 2 ^ b" using d by simp
      with False above n(2) s' x show ?thesis unfolding sp
        by (simp add: steps_left_sorted steps_leftI(1) [of "n + 1" b])
    qed
  qed
qed

lemma steps_left_step:
  assumes "gcd_state (u, v)" "steps_left (Suc s) u v"
  shows "steps_left s (fst (gcd_step (u, v))) (snd (gcd_step (u, v)))"
proof (cases "u = 0")
  case True
  then show ?thesis by (simp add: sorted_pair_def steps_left_def)
next
  case False
  from assms(1) have uv: "u \<le> v" "odd u \<or> odd v" by (simp_all add: gcd_state_def)
  have sp: "sorted_pair u v = (u, v)" "sorted_pair v u = (u, v)" using uv(1) by (auto simp: sorted_pair_def)
  from False uv(1) assms(2) obtain a n where an: "a + n = Suc s"
    and "u < 2 ^ a \<and> v < 2 ^ n \<or> near_double a n u v \<or> near_double a n v u"
    unfolding steps_left_def by auto
  then consider "u < 2 ^ a" "v < 2 ^ n" | "near_double a n u v" | "near_double a n v u" by blast
  then show ?thesis
  proof cases
    case 1
    show ?thesis by (rule steps_left_bits [OF uv _ 1 an]) (use False in simp)
  next
    case 2
    from steps_left_near [OF 2 _ an] False uv(1) show ?thesis unfolding sp by simp
  next
    case 3
    from steps_left_near [OF 3 _ an] False show ?thesis unfolding sp by simp
  qed
qed

lemma steps_left_0: "gcd_state (u, v) \<Longrightarrow> steps_left 0 u v \<Longrightarrow> u = 0"
  by (auto simp: gcd_state_def steps_left_def near_double_def)

lemma gcd_steps_done:
  assumes "gcd_state p" "steps_left s (fst p) (snd p)"
  shows "gcd_state ((gcd_step ^^ s) p) \<and> fst ((gcd_step ^^ s) p) = 0 \<and> snd ((gcd_step ^^ s) p) = gcd (fst p) (snd p)"
  using assms
proof (induction s arbitrary: p)
  case 0
  then show ?case using steps_left_0 [of "fst p" "snd p"] by simp
next
  case (Suc s)
  obtain u v where p: "p = (u, v)" by fastforce
  with Suc.prems have st: "gcd_state (u, v)" "steps_left (Suc s) u v" by simp_all
  have "steps_left s (fst (gcd_step p)) (snd (gcd_step p))" unfolding p by (rule steps_left_step [OF st])
  from Suc.IH [OF gcd_state_step [OF Suc.prems(1)] this] gcd_step_gcd [OF st(1)] show ?case
    by (simp only: funpow_Suc_right comp_apply p fst_conv snd_conv)
qed

text \<open>Numbers of \<open>a\<close> and \<open>n\<close> bits need at most \<open>a + n\<close> steps.\<close>

lemma gcd_steps_bits:
  assumes "u \<le> v" "odd v" "u < 2 ^ a" "v < 2 ^ n"
  shows "(gcd_step ^^ (a + n)) (u, v) = (0, gcd u v)"
  using gcd_steps_done [of "(u, v)" "a + n"] steps_leftI(1) [OF refl assms(3,4)] assms(1,2)
  by (simp add: gcd_state_def prod_eq_iff)

end
