(* ===== verification/Bignum_Gcd.thy ===== *)
theory Bignum_Gcd
  imports Bignum_Exp Binary_Gcd
begin

text \<open>
  The constant-time greatest common divisor and modular inverse of
  drivers/builtin/src/bignum_core.c, for an odd modulus, with the modular subtraction and halving it
  uses. The temporaries \<open>d\<close>, \<open>t1\<close> and \<open>t2\<close> are written before they are read in every iteration and
  are local here; \<open>v\<close> and \<open>q\<close> share their memory with the results \<open>G\<close> and \<open>I\<close>. The inverse is
  optional: \<open>I = NULL\<close> is the argument \<open>False\<close> and the result \<open>None\<close>.
\<close>

section \<open>The code\<close>

definition mpi_core_sub_mod :: "mpi \<Rightarrow> mpi \<Rightarrow> mpi \<Rightarrow> mpi" where
  "mpi_core_sub_mod A B N =
    (let (X, c) = mbedtls_mpi_core_sub A B in fst (mbedtls_mpi_core_add_if X N (ucast c)))"

definition mbedtls_mpi_core_div2_mod_odd :: "mpi \<Rightarrow> mpi \<Rightarrow> mpi" where
  "mbedtls_mpi_core_div2_mod_odd X N =
    (let odd_cond = ucast (X ! 0) AND 1;
         (X, c) = mbedtls_mpi_core_add_if X N odd_cond;
         X = mbedtls_mpi_core_shift_r X 1
     in X[length X - 1 := X ! (length X - 1) OR push_bit 63 c])"

type_synonym gcd_modinv_state = "mpi \<times> mpi \<times> (mpi \<times> mpi) option"

text \<open>One iteration, on \<open>u\<close>, \<open>v\<close> and, when the inverse is wanted, \<open>q\<close> and \<open>r\<close>.\<close>

fun gcd_modinv_step :: "mpi \<Rightarrow> gcd_modinv_state \<Rightarrow> gcd_modinv_state" where
  "gcd_modinv_step N (u, v, qr) =
    (let limbs = length N;
         u_odd = mbedtls_ct_bool (u ! 0 AND 1);
         v_odd = mbedtls_ct_bool (v ! 0 AND 1);
         u_odd_v_odd = mbedtls_ct_bool_and u_odd v_odd;
         v_even = mbedtls_ct_bool_not v_odd;
         u_odd_v_even = mbedtls_ct_bool_and u_odd v_even;
         d = fst (mbedtls_mpi_core_sub v u);
         t1 = d;
         t1 = mbedtls_mpi_core_cond_assign t1 u u_odd_v_odd;
         t2 = u;
         t2 = mbedtls_mpi_core_cond_assign t2 v u_odd_v_even;
         t2 = mbedtls_mpi_core_cond_assign t2 d u_odd_v_odd;
         t2 = mbedtls_mpi_core_shift_r t2 1;
         u = t1;
         v = t2;
         swap = mbedtls_mpi_core_lt_ct v u limbs;
         (u, v) = mbedtls_mpi_core_cond_swap u v swap;
         qr = (case qr of None \<Rightarrow> None
               | Some (q, r) \<Rightarrow>
                 let d = mpi_core_sub_mod q r N;
                     t1 = d;
                     t1 = mbedtls_mpi_core_cond_assign t1 r u_odd_v_odd;
                     t2 = r;
                     t2 = mbedtls_mpi_core_cond_assign t2 q u_odd_v_even;
                     t2 = mbedtls_mpi_core_cond_assign t2 d u_odd_v_odd;
                     t2 = mbedtls_mpi_core_div2_mod_odd t2 N;
                     r = t1;
                     q = t2;
                     (r, q) = mbedtls_mpi_core_cond_swap r q swap
                 in Some (q, r))
     in (u, v, qr))"

definition mbedtls_mpi_core_gcd_modinv_odd :: "mpi \<Rightarrow> mpi \<Rightarrow> bool \<Rightarrow> mpi \<times> mpi option" where
  "mbedtls_mpi_core_gcd_modinv_odd A N want_I =
    (let N_limbs = length N;
         A_limbs = (if length A > N_limbs then N_limbs else length A);
         u = take A_limbs A @ replicate (N_limbs - A_limbs) 0;
         v = N;
         qr = (if want_I then Some (replicate N_limbs 0, (replicate N_limbs 0)[0 := 1]) else None);
         (u, v, qr) = (gcd_modinv_step N ^^ ((A_limbs + N_limbs) * 64)) (u, v, qr)
     in (v, map_option fst qr))"

section \<open>What the operations compute\<close>

lemma lt_ct_loop_value:
  "n \<le> length A \<Longrightarrow> n \<le> length B \<Longrightarrow>
    lt_ct_loop A B n (ct_mask ret) (ct_mask done_c) = ct_mask (ret \<or> \<not> done_c \<and> mpi_nat (take n A) < mpi_nat (take n B))"
proof (induction n arbitrary: ret done_c)
  case (Suc n)
  let ?a = "unat (A ! n)" and ?b = "unat (B ! n)" and ?x = "mpi_nat (take n A)" and ?y = "mpi_nat (take n B)"
  have v: "mpi_nat (take (Suc n) A) = ?x + limb_base ^ n * ?a" "mpi_nat (take (Suc n) B) = ?y + limb_base ^ n * ?b"
    using Suc.prems by (simp_all add: take_Suc_conv_app_nth)
  have lt: "?x < limb_base ^ n" "?y < limb_base ^ n"
    using mpi_nat_less [of "take n A"] mpi_nat_less [of "take n B"] Suc.prems by (simp_all add: min_def)
  have less: "p + limb_base ^ n * i < q + limb_base ^ n * j" if "i < j" "p < limb_base ^ n" for p q i j :: nat
  proof -
    have "limb_base ^ n * (i + 1) \<le> limb_base ^ n * j" using that(1) by (intro mult_left_mono) simp_all
    with that(2) show ?thesis by (simp add: distrib_left)
  qed
  have cmp: "mpi_nat (take (Suc n) A) < mpi_nat (take (Suc n) B) \<longleftrightarrow> ?a < ?b \<or> ?a = ?b \<and> ?x < ?y"
    unfolding v using less [of ?a ?b ?x ?y] less [of ?b ?a ?y ?x] lt by (cases ?a ?b rule: linorder_cases) auto
  have "lt_ct_loop A B (Suc n) (ct_mask ret) (ct_mask done_c) =
      lt_ct_loop A B n (ct_mask (ret \<or> A ! n < B ! n \<and> \<not> (done_c \<or> B ! n < A ! n))) (ct_mask ((done_c \<or> B ! n < A ! n) \<or> A ! n < B ! n))"
    by (simp add: Let_def ct del: ct_mask_simps)
  also have "\<dots> = ct_mask (ret \<or> \<not> done_c \<and> mpi_nat (take (Suc n) A) < mpi_nat (take (Suc n) B))"
    using Suc.prems unfolding cmp by (subst Suc.IH) (auto simp: word_less_nat_alt)
  finally show ?case .
qed simp

lemma core_lt_ct_value:
  "length A = n \<Longrightarrow> length B = n \<Longrightarrow> mbedtls_mpi_core_lt_ct A B n = ct_mask (mpi_nat A < mpi_nat B)"
  using lt_ct_loop_value [of n A B False False] by (simp add: mbedtls_mpi_core_lt_ct_def)

lemma core_cond_swap_eq:
  "length X = length Y \<Longrightarrow> mbedtls_mpi_core_cond_swap X Y (ct_mask c) = (if c then (Y, X) else (X, Y))"
  by (auto intro!: nth_equalityI simp: mbedtls_mpi_core_cond_swap_def ct simp del: ct_mask_simps)

lemma core_sub_mod_value:
  assumes "length A = length N" "length B = length N" "mpi_nat A < mpi_nat N" "mpi_nat B < mpi_nat N"
  shows "length (mpi_core_sub_mod A B N) = length N" "mpi_nat (mpi_core_sub_mod A B N) < mpi_nat N"
    "(int (mpi_nat (mpi_core_sub_mod A B N)) - (int (mpi_nat A) - int (mpi_nat B))) mod int (mpi_nat N) = 0"
proof -
  obtain X c where sub: "mbedtls_mpi_core_sub A B = (X, c)" by fastforce
  have AB: "length A = length B" using assms(1,2) by simp
  note v = core_sub_cases [OF AB sub] core_sub_value(1) [OF AB sub]
  have XN: "length X = length N" using v(3) assms(1) by simp
  let ?N = "if (ucast c :: u32) \<noteq> 0 then N else replicate (length X) 0"
  obtain Y k where add: "mbedtls_mpi_core_add X ?N = (Y, k)" by fastforce
  have Y: "mpi_core_sub_mod A B N = Y" by (simp add: mpi_core_sub_mod_def sub core_add_if_eq [OF XN] add)
  have "length X = length ?N" using XN by simp
  note a = core_add_value [OF this add]
  have bound: "mpi_nat N < limb_base ^ length N" "mpi_nat Y < limb_base ^ length N" "mpi_nat X < limb_base ^ length N"
    using mpi_nat_less [of N] mpi_nat_less [of Y] mpi_nat_less [of X] a(1) XN by simp_all
  have k: "unat k = 0 \<or> unat k = 1" using a(2) by linarith
  have "mpi_nat Y = (if mpi_nat A < mpi_nat B then mpi_nat A + mpi_nat N - mpi_nat B else mpi_nat A - mpi_nat B)"
  proof (cases "mpi_nat A < mpi_nat B")
    case True
    then have "mpi_nat Y + limb_base ^ length N * unat k = limb_base ^ length N + mpi_nat A - mpi_nat B + mpi_nat N"
      using a(3) v(1,2) XN AB assms(1) by simp
    with True k bound assms show ?thesis by auto
  next
    case False
    then have "mpi_nat Y + limb_base ^ length N * unat k = mpi_nat A - mpi_nat B"
      using a(3) v(1,2) XN AB assms(1) by simp
    with False k bound assms show ?thesis by auto
  qed
  then show "mpi_nat (mpi_core_sub_mod A B N) < mpi_nat N"
    "(int (mpi_nat (mpi_core_sub_mod A B N)) - (int (mpi_nat A) - int (mpi_nat B))) mod int (mpi_nat N) = 0"
    unfolding Y using assms(3,4) by (auto simp: of_nat_diff)
  show "length (mpi_core_sub_mod A B N) = length N" unfolding Y using a(1) XN by simp
qed

lemma mpi_nat_update:
  "i < length X \<Longrightarrow> mpi_nat (X[i := y]) + limb_base ^ i * unat (X ! i) = mpi_nat X + limb_base ^ i * unat y"
proof (induction X arbitrary: i)
  case (Cons x X)
  show ?case
  proof (cases i)
    case (Suc j)
    with Cons.prems have "j < length X" by simp
    then show ?thesis using arg_cong [OF Cons.IH, of j "\<lambda>n. limb_base * n"] by (simp add: Suc algebra_simps)
  qed simp
qed simp

lemma core_div2_mod_odd_value:
  assumes "length X = length N" "N \<noteq> []" "odd (mpi_nat N)" "mpi_nat X < mpi_nat N"
  shows "length (mbedtls_mpi_core_div2_mod_odd X N) = length N"
    "mpi_nat (mbedtls_mpi_core_div2_mod_odd X N) = (if odd (mpi_nat X) then (mpi_nat X + mpi_nat N) div 2 else mpi_nat X div 2)"
proof -
  let ?n = "length N"
  obtain n where n: "?n = Suc n" using assms(2) by (cases N) auto
  have Xne: "X \<noteq> []" using assms(1,2) by auto
  have cond: "(ucast (X ! 0) AND 1 :: u32) \<noteq> 0 \<longleftrightarrow> odd (mpi_nat X)"
  proof -
    have "odd (ucast (X ! 0) :: u32) \<longleftrightarrow> odd (X ! 0)" by (simp add: bit_simps flip: bit_0)
    then show ?thesis using Xne unfolding and_one_eq mod_2_eq_odd by (simp add: odd_mpi_nat odd_unat)
  qed
  let ?M = "if (ucast (X ! 0) AND 1 :: u32) \<noteq> 0 then N else replicate (length X) 0"
  obtain Y c where add: "mbedtls_mpi_core_add X ?M = (Y, c)" by fastforce
  have lM: "length X = length ?M" using assms(1) by simp
  note a = core_add_value [OF lM add]
  define Z where "Z = mbedtls_mpi_core_shift_r Y 1"
  have Y: "length Y = Suc n" using a(1) assms(1) n by simp
  have Z: "length Z = Suc n" "mpi_nat Z = mpi_nat Y div 2" unfolding Z_def by (simp_all add: core_shift_r_value Y)
  have res: "mbedtls_mpi_core_div2_mod_odd X N = Z[n := Z ! n OR push_bit 63 c]"
    by (simp add: mbedtls_mpi_core_div2_mod_odd_def core_add_if_eq [OF assms(1)] add Z_def [symmetric] Z(1) del: One_nat_def)
  have "mpi_nat Z < limb_base ^ n * 2 ^ 63"
    using mpi_nat_less [of Y] unfolding Z Y by (simp add: limb_base_def mult.commute)
  moreover have "limb_base ^ n * unat (Z ! n) \<le> mpi_nat Z"
    using mpi_nat_take_drop [of Z n] Z(1) by (simp add: Cons_nth_drop_Suc [symmetric])
  ultimately have "limb_base ^ n * unat (Z ! n) < limb_base ^ n * 2 ^ 63" by linarith
  then have top: "unat (Z ! n) < 2 ^ 63" by simp
  have c: "c = of_bool (unat c = 1)" using a(2) by (auto simp: word_unat_eq_iff)
  have or: "unat (Z ! n OR push_bit 63 c) = unat (Z ! n) + 2 ^ 63 * unat c"
  proof (cases "unat c = 1")
    case True
    then have c1: "c = 1" using c by simp
    have "Z ! n OR push_bit 63 1 = Z ! n + push_bit 63 1"
    proof (rule disjunctive_add [symmetric])
      fix k show "\<not> bit (Z ! n) k \<or> \<not> bit (push_bit 63 1 :: mpi_uint) k"
      proof (cases "k = 63")
        case True
        then show ?thesis using top by (simp add: top_bit)
      next
        case False
        then show ?thesis unfolding bit_push_bit_iff bit_1_iff by auto
      qed
    qed
    moreover have "unat (push_bit 63 1 :: mpi_uint) = 2 ^ 63" by simp
    ultimately show ?thesis using top True unfolding c1 by (simp add: unat_add_base limb_base_def)
  next
    case False
    then have "c = 0" using c by simp
    then show ?thesis by simp
  qed
  have half: "limb_base ^ Suc n * unat c div 2 = limb_base ^ n * 2 ^ 63 * unat c"
    by (simp add: limb_base_def)
  have ev: "even (limb_base ^ Suc n * unat c)" by (simp add: limb_base_def)
  have "mpi_nat (Z[n := Z ! n OR push_bit 63 c]) = mpi_nat Z + limb_base ^ n * (2 ^ 63 * unat c)"
    using mpi_nat_update [of n Z "Z ! n OR push_bit 63 c"] Z(1) unfolding or by (simp add: distrib_left)
  also have "\<dots> = (mpi_nat Y + limb_base ^ Suc n * unat c) div 2"
    unfolding Z(2) using half ev by (simp add: div_plus_div_distrib_dvd_right mult.assoc)
  also have "mpi_nat Y + limb_base ^ Suc n * unat c = (if odd (mpi_nat X) then mpi_nat X + mpi_nat N else mpi_nat X)"
    using a(3) cond assms(1) n by simp
  finally show "mpi_nat (mbedtls_mpi_core_div2_mod_odd X N) = (if odd (mpi_nat X) then (mpi_nat X + mpi_nat N) div 2 else mpi_nat X div 2)"
    unfolding res by simp
  show "length (mbedtls_mpi_core_div2_mod_odd X N) = length N" unfolding res using Z(1) n by simp
qed

section \<open>The loop\<close>

text \<open>What \<open>q\<close> is for \<open>v\<close> and \<open>r\<close> for \<open>u\<close>: the multiple of \<open>A\<close> that the number is, modulo \<open>N\<close>.\<close>

definition cofactor :: "mpi \<Rightarrow> nat \<Rightarrow> nat \<Rightarrow> mpi \<Rightarrow> bool" where
  "cofactor N A x X \<longleftrightarrow> length X = length N \<and> mpi_nat X < mpi_nat N \<and> int (mpi_nat N) dvd int x - int A * int (mpi_nat X)"

lemma cofactor_sub:
  assumes "cofactor N A y Y" "cofactor N A x X" "x \<le> y"
  shows "cofactor N A (y - x) (mpi_core_sub_mod Y X N)"
proof -
  let ?Z = "mpi_core_sub_mod Y X N"
  have pre: "length Y = length N" "length X = length N" "mpi_nat Y < mpi_nat N" "mpi_nat X < mpi_nat N"
    using assms by (simp_all add: cofactor_def)
  note v = core_sub_mod_value [OF pre]
  obtain a b c where e: "int y - int A * int (mpi_nat Y) = int (mpi_nat N) * a" "int x - int A * int (mpi_nat X) = int (mpi_nat N) * b"
    "int (mpi_nat ?Z) - (int (mpi_nat Y) - int (mpi_nat X)) = int (mpi_nat N) * c"
    using assms(1,2) v(3) unfolding cofactor_def by (meson dvd_def mod_eq_0_iff_dvd)
  then have z: "int (mpi_nat ?Z) = int (mpi_nat Y) - int (mpi_nat X) + int (mpi_nat N) * c"
    "int y = int A * int (mpi_nat Y) + int (mpi_nat N) * a" "int x = int A * int (mpi_nat X) + int (mpi_nat N) * b" by simp_all
  have "int (y - x) - int A * int (mpi_nat ?Z) = int (mpi_nat N) * (a - b - int A * c)"
    using assms(3) unfolding of_nat_diff [OF assms(3)] z by (simp add: algebra_simps)
  with v(1,2) show ?thesis by (simp add: cofactor_def)
qed

lemma cofactor_half:
  assumes "cofactor N A x X" "even x" "N \<noteq> []" "odd (mpi_nat N)"
  shows "cofactor N A (x div 2) (mbedtls_mpi_core_div2_mod_odd X N)"
proof -
  let ?Z = "mbedtls_mpi_core_div2_mod_odd X N" and ?N = "mpi_nat N"
  have pre: "length X = length N" "mpi_nat X < ?N" using assms(1) by (simp_all add: cofactor_def)
  note v = core_div2_mod_odd_value [OF pre(1) assms(3,4) pre(2)]
  have two: "2 * mpi_nat ?Z = mpi_nat X + (if odd (mpi_nat X) then ?N else 0)"
    unfolding v(2) using assms(4) by simp
  have "int ?N dvd int x - int A * int (mpi_nat X) - int A * (int (2 * mpi_nat ?Z) - int (mpi_nat X))"
  proof (rule dvd_diff)
    show "int ?N dvd int x - int A * int (mpi_nat X)" using assms(1) by (simp add: cofactor_def)
    have "int (2 * mpi_nat ?Z) - int (mpi_nat X) = int (if odd (mpi_nat X) then ?N else 0)" unfolding two by simp
    then have "int ?N dvd int (2 * mpi_nat ?Z) - int (mpi_nat X)" by simp
    then show "int ?N dvd int A * (int (2 * mpi_nat ?Z) - int (mpi_nat X))" by (rule dvd_mult)
  qed
  also have "int x - int A * int (mpi_nat X) - int A * (int (2 * mpi_nat ?Z) - int (mpi_nat X)) =
      2 * (int (x div 2) - int A * int (mpi_nat ?Z))"
  proof -
    have "int x = 2 * int (x div 2)" using assms(2) by (metis dvd_mult_div_cancel of_nat_mult of_nat_numeral)
    then show ?thesis by (simp add: algebra_simps)
  qed
  finally have "int ?N dvd 2 * (int (x div 2) - int A * int (mpi_nat ?Z))" .
  moreover have "coprime (int ?N) 2" using assms(4) by simp
  ultimately have "int ?N dvd int (x div 2) - int A * int (mpi_nat ?Z)" using coprime_dvd_mult_right_iff by blast
  moreover have "mpi_nat ?Z < ?N" using v(2) pre(2) by (auto split: if_splits)
  ultimately show ?thesis using v(1) by (simp add: cofactor_def)
qed

definition modinv_inv :: "mpi \<Rightarrow> nat \<Rightarrow> gcd_modinv_state \<Rightarrow> bool" where
  "modinv_inv N A st = (case st of (u, v, qr) \<Rightarrow>
    length u = length N \<and> length v = length N \<and> gcd_state (mpi_nat u, mpi_nat v) \<and>
    (case qr of None \<Rightarrow> True | Some (q, r) \<Rightarrow> cofactor N A (mpi_nat v) q \<and> cofactor N A (mpi_nat u) r))"

lemma ct_odd: "X \<noteq> [] \<Longrightarrow> mbedtls_ct_bool (X ! 0 AND 1) = ct_mask (odd (mpi_nat X))"
  unfolding ct_bool_eq and_one_eq mod_2_eq_odd by (simp add: odd_mpi_nat odd_unat)

lemma gcd_modinv_step_eq:
  fixes u v N :: mpi
  assumes len: "length u = length N" "length v = length N" "N \<noteq> []"
  defines "both \<equiv> odd (mpi_nat u) \<and> odd (mpi_nat v)"
  defines "d \<equiv> fst (mbedtls_mpi_core_sub v u)"
  defines "t1 \<equiv> if both then u else d"
  defines "t2 \<equiv> mbedtls_mpi_core_shift_r (if both then d else if odd (mpi_nat u) then v else u) 1"
  defines "swap \<equiv> mpi_nat t2 < mpi_nat t1"
  shows "gcd_modinv_step N (u, v, None) = (if swap then (t2, t1, None) else (t1, t2, None))"
    and "length q = length N \<Longrightarrow> length r = length N \<Longrightarrow> length (mpi_core_sub_mod q r N) = length N \<Longrightarrow>
      (\<And>X. length X = length N \<Longrightarrow> length (mbedtls_mpi_core_div2_mod_odd X N) = length N) \<Longrightarrow>
      gcd_modinv_step N (u, v, Some (q, r)) =
        (let dq = mpi_core_sub_mod q r N;
             t3 = (if both then r else dq);
             t4 = mbedtls_mpi_core_div2_mod_odd (if both then dq else if odd (mpi_nat u) then q else r) N
         in if swap then (t2, t1, Some (t3, t4)) else (t1, t2, Some (t4, t3)))"
proof -
  have ne: "u \<noteq> []" "v \<noteq> []" using len by auto
  obtain X c where sub: "mbedtls_mpi_core_sub v u = (X, c)" by fastforce
  have "length d = length N" using core_sub_value(1) [OF _ sub] len by (simp add: d_def sub)
  then have l: "length d = length N" "length t1 = length N" "length t2 = length N"
    using len by (simp_all add: t1_def t2_def core_shift_r_value)
  have t1: "mbedtls_mpi_core_cond_assign d u (ct_mask both) = t1"
    using l len by (simp add: core_cond_assign_eq t1_def del: ct_mask_simps)
  have t2: "mbedtls_mpi_core_shift_r (mbedtls_mpi_core_cond_assign
      (mbedtls_mpi_core_cond_assign u v (ct_mask (odd (mpi_nat u) \<and> \<not> odd (mpi_nat v)))) d (ct_mask both)) 1 = t2"
    using l len by (auto simp: core_cond_assign_eq t2_def both_def simp del: ct_mask_simps)
  have swap: "mbedtls_mpi_core_lt_ct t2 t1 (length N) = ct_mask swap"
    using l by (simp add: core_lt_ct_value swap_def del: ct_mask_simps)
  have sw: "mbedtls_mpi_core_cond_swap t1 t2 (ct_mask swap) = (if swap then (t2, t1) else (t1, t2))"
    using l by (simp add: core_cond_swap_eq del: ct_mask_simps)
  show "gcd_modinv_step N (u, v, None) = (if swap then (t2, t1, None) else (t1, t2, None))"
    unfolding gcd_modinv_step.simps Let_def ct_odd [OF ne(1)] ct_odd [OF ne(2)] ct_select ct_mask_logic both_def [symmetric]
      d_def [symmetric] t1 t2 swap sw by simp
  assume qr: "length q = length N" "length r = length N" "length (mpi_core_sub_mod q r N) = length N"
    and div2: "\<And>X. length X = length N \<Longrightarrow> length (mbedtls_mpi_core_div2_mod_odd X N) = length N"
  define dq where "dq = mpi_core_sub_mod q r N"
  define t3 where "t3 = (if both then r else dq)"
  define t4 where "t4 = mbedtls_mpi_core_div2_mod_odd (if both then dq else if odd (mpi_nat u) then q else r) N"
  have t3: "mbedtls_mpi_core_cond_assign dq r (ct_mask both) = t3"
    using qr by (simp add: core_cond_assign_eq t3_def dq_def del: ct_mask_simps)
  have t4: "mbedtls_mpi_core_div2_mod_odd (mbedtls_mpi_core_cond_assign
      (mbedtls_mpi_core_cond_assign r q (ct_mask (odd (mpi_nat u) \<and> \<not> odd (mpi_nat v)))) dq (ct_mask both)) N = t4"
    using qr by (auto simp: core_cond_assign_eq t4_def dq_def both_def simp del: ct_mask_simps)
  have "length t3 = length t4" using qr div2 by (simp add: t3_def t4_def dq_def)
  then have sw': "mbedtls_mpi_core_cond_swap t3 t4 (ct_mask swap) = (if swap then (t4, t3) else (t3, t4))"
    by (simp add: core_cond_swap_eq del: ct_mask_simps)
  show "gcd_modinv_step N (u, v, Some (q, r)) =
        (let dq = mpi_core_sub_mod q r N;
             t3 = (if both then r else dq);
             t4 = mbedtls_mpi_core_div2_mod_odd (if both then dq else if odd (mpi_nat u) then q else r) N
         in if swap then (t2, t1, Some (t3, t4)) else (t1, t2, Some (t4, t3)))"
    unfolding gcd_modinv_step.simps Let_def ct_odd [OF ne(1)] ct_odd [OF ne(2)] ct_select ct_mask_logic both_def [symmetric]
      d_def [symmetric] dq_def [symmetric] t3_def [symmetric] t4_def [symmetric] t1 t2 swap sw option.case prod.case t3 t4 sw' by simp
qed

lemma add_loop_length: "length A = length B \<Longrightarrow> length (fst (mbedtls_mpi_core_add A B)) = length A"
  using core_add_value(1) [of A B "fst (mbedtls_mpi_core_add A B)" "snd (mbedtls_mpi_core_add A B)"] by simp

lemma gcd_modinv_step_inv:
  assumes N: "N \<noteq> []" "odd (mpi_nat N)" and inv: "modinv_inv N A (u, v, qr)"
  shows "modinv_inv N A (gcd_modinv_step N (u, v, qr))"
    "(mpi_nat (fst (gcd_modinv_step N (u, v, qr))), mpi_nat (fst (snd (gcd_modinv_step N (u, v, qr))))) = gcd_step (mpi_nat u, mpi_nat v)"
    "(snd (snd (gcd_modinv_step N (u, v, qr))) = None) = (qr = None)"
proof -
  from inv have len: "length u = length N" "length v = length N" and st: "gcd_state (mpi_nat u, mpi_nat v)"
    by (simp_all add: modinv_inv_def)
  from st have uv: "mpi_nat u \<le> mpi_nat v" "odd (mpi_nat u) \<or> odd (mpi_nat v)" by (simp_all add: gcd_state_def)
  define both where "both \<longleftrightarrow> odd (mpi_nat u) \<and> odd (mpi_nat v)"
  define d where "d = fst (mbedtls_mpi_core_sub v u)"
  define t1 where "t1 = (if both then u else d)"
  define e where "e = (if both then d else if odd (mpi_nat u) then v else u)"
  define t2 where "t2 = mbedtls_mpi_core_shift_r e 1"
  obtain X c where sub: "mbedtls_mpi_core_sub v u = (X, c)" by fastforce
  have vu: "length v = length u" using len by simp
  have d: "length d = length N" "mpi_nat d = mpi_nat v - mpi_nat u"
    using core_sub_value(1) [OF vu sub] core_sub_cases(2) [OF vu sub] uv(1) len by (simp_all add: d_def sub)
  have l: "length t1 = length N" "length t2 = length N"
    using len d by (simp_all add: t1_def t2_def e_def core_shift_r_value)
  have ev: "even (mpi_nat e)" using uv d(2) by (auto simp: e_def both_def)
  have t2: "mpi_nat t2 = mpi_nat e div 2" by (simp add: t2_def core_shift_r_value)
  let ?swap = "mpi_nat t2 < mpi_nat t1"
  have pair: "sorted_pair (mpi_nat t1) (mpi_nat t2) = gcd_step (mpi_nat u, mpi_nat v)"
    using uv by (auto simp: t2 e_def t1_def d(2) both_def)
  have st': "gcd_state (sorted_pair (mpi_nat t1) (mpi_nat t2))" unfolding pair by (rule gcd_state_step [OF st])
  note eq = gcd_modinv_step_eq [OF len N(1), folded both_def, folded d_def, folded e_def, folded t1_def t2_def]
  have all: "modinv_inv N A (gcd_modinv_step N (u, v, qr)) \<and>
    (mpi_nat (fst (gcd_modinv_step N (u, v, qr))), mpi_nat (fst (snd (gcd_modinv_step N (u, v, qr))))) = gcd_step (mpi_nat u, mpi_nat v) \<and>
    (snd (snd (gcd_modinv_step N (u, v, qr))) = None) = (qr = None)"
  proof (cases qr)
    case None
    show ?thesis using st' l unfolding None eq(1) pair [symmetric]
      by (cases ?swap) (simp_all add: modinv_inv_def sorted_pair_def)
  next
    case (Some p)
    obtain q r where p: "qr = Some (q, r)" using Some by (cases p) simp
    with inv have q: "cofactor N A (mpi_nat v) q" and r: "cofactor N A (mpi_nat u) r" by (simp_all add: modinv_inv_def)
    define dq where "dq = mpi_core_sub_mod q r N"
    define t3 where "t3 = (if both then r else dq)"
    define f where "f = (if both then dq else if odd (mpi_nat u) then q else r)"
    define t4 where "t4 = mbedtls_mpi_core_div2_mod_odd f N"
    have dq: "cofactor N A (mpi_nat d) dq" unfolding d(2) dq_def by (rule cofactor_sub [OF q r uv(1)])
    have c3: "cofactor N A (mpi_nat t1) t3" using r dq by (simp add: t1_def t3_def)
    have "cofactor N A (mpi_nat e) f" using q r dq by (simp add: e_def f_def)
    then have c4: "cofactor N A (mpi_nat t2) t4" unfolding t2 t4_def by (rule cofactor_half [OF _ ev N])
    have lens: "length q = length N" "length r = length N" "length (mpi_core_sub_mod q r N) = length N"
      using q r dq by (simp_all add: cofactor_def dq_def)
    have div2: "length (mbedtls_mpi_core_div2_mod_odd X N) = length N" if "length X = length N" for X
      using N(1) that by (cases N)
        (simp_all add: mbedtls_mpi_core_div2_mod_odd_def core_add_if_eq split_def Let_def core_shift_r_value add_loop_length)
    have run: "gcd_modinv_step N (u, v, Some (q, r)) = (if ?swap then (t2, t1, Some (t3, t4)) else (t1, t2, Some (t4, t3)))"
      using eq(2) [OF lens div2] unfolding Let_def dq_def [symmetric]
      unfolding t3_def [symmetric] f_def [symmetric] unfolding t4_def [symmetric] .
    show ?thesis using st' l c3 c4 unfolding p run pair [symmetric]
      by (cases ?swap) (simp_all add: modinv_inv_def sorted_pair_def)
  qed
  show "modinv_inv N A (gcd_modinv_step N (u, v, qr))"
    by (rule all [THEN conjunct1])
  show "(mpi_nat (fst (gcd_modinv_step N (u, v, qr))), mpi_nat (fst (snd (gcd_modinv_step N (u, v, qr))))) = gcd_step (mpi_nat u, mpi_nat v)"
    by (rule all [THEN conjunct2, THEN conjunct1])
  show "(snd (snd (gcd_modinv_step N (u, v, qr))) = None) = (qr = None)"
    by (rule all [THEN conjunct2, THEN conjunct2])
qed

lemma gcd_modinv_steps:
  assumes N: "N \<noteq> []" "odd (mpi_nat N)" and inv: "modinv_inv N A st"
  shows "modinv_inv N A ((gcd_modinv_step N ^^ k) st) \<and>
    (mpi_nat (fst ((gcd_modinv_step N ^^ k) st)), mpi_nat (fst (snd ((gcd_modinv_step N ^^ k) st)))) =
      (gcd_step ^^ k) (mpi_nat (fst st), mpi_nat (fst (snd st))) \<and>
    (snd (snd ((gcd_modinv_step N ^^ k) st)) = None) = (snd (snd st) = None)"
proof (induction k)
  case 0
  then show ?case using inv by simp
next
  case (Suc k)
  obtain u v qr where st: "(gcd_modinv_step N ^^ k) st = (u, v, qr)" by (cases "(gcd_modinv_step N ^^ k) st") auto
  from Suc have i: "modinv_inv N A (u, v, qr)" and e: "(mpi_nat u, mpi_nat v) = (gcd_step ^^ k) (mpi_nat (fst st), mpi_nat (fst (snd st)))"
    "(qr = None) = (snd (snd st) = None)" unfolding st by simp_all
  note s = gcd_modinv_step_inv [OF N i]
  show ?case unfolding funpow.simps comp_apply st s(2) s(3) e using s(1) by simp
qed

text \<open>\<open>A\<close> padded to the length of \<open>N\<close>.\<close>

lemma padded_value: "length A \<le> n \<Longrightarrow> mpi_nat (take (length A) A @ replicate (n - length A) 0) = mpi_nat A"
  by simp

lemma gcd_modinv_odd_value:
  assumes A: "length A \<le> length N" "mpi_nat A \<le> mpi_nat N" and N: "N \<noteq> []" "odd (mpi_nat N)"
    and res: "mbedtls_mpi_core_gcd_modinv_odd A N want_I = (G, I)"
    and one: "want_I \<Longrightarrow> 1 < mpi_nat N"
  shows "mpi_nat G = gcd (mpi_nat A) (mpi_nat N)" "length G = length N" "(I = None) = (\<not> want_I)"
    "I = Some i \<Longrightarrow> length i = length N \<and> mpi_nat i < mpi_nat N \<and>
      mpi_nat A * mpi_nat i mod mpi_nat N = gcd (mpi_nat A) (mpi_nat N) mod mpi_nat N"
proof -
  let ?n = "length N" and ?a = "mpi_nat A" and ?N = "mpi_nat N"
  define u0 where "u0 = take (length A) A @ replicate (?n - length A) (0 :: mpi_uint)"
  define qr0 :: "(mpi \<times> mpi) option" where "qr0 = (if want_I then Some (replicate ?n 0, (replicate ?n 0)[0 := 1]) else None)"
  define k where "k = (length A + ?n) * 64"
  obtain u v qr where run: "(gcd_modinv_step N ^^ k) (u0, N, qr0) = (u, v, qr)"
    by (cases "(gcd_modinv_step N ^^ k) (u0, N, qr0)") auto
  have out: "G = v" "I = map_option fst qr"
    using res A(1) run by (simp_all add: mbedtls_mpi_core_gcd_modinv_odd_def Let_def k_def u0_def qr0_def min_def split: if_splits)
  have u0: "length u0 = ?n" "mpi_nat u0 = ?a" using A(1) unfolding u0_def by simp_all
  have one_val: "mpi_nat ((replicate ?n 0)[0 := 1]) = 1" using N(1) by (cases ?n) simp_all
  have "modinv_inv N ?a (u0, N, qr0)"
    using u0 A(2) N one one_val by (auto simp: modinv_inv_def gcd_state_def qr0_def cofactor_def)
  from gcd_modinv_steps [OF N this, of k] run u0
  have i: "modinv_inv N ?a (u, v, qr)" and e: "(mpi_nat u, mpi_nat v) = (gcd_step ^^ k) (?a, ?N)" and n: "(qr = None) = (qr0 = None)"
    by simp_all
  have base: "limb_base ^ m = 2 ^ (m * 64)" for m by (metis limb_base_def mult.commute power_mult)
  have "?a < 2 ^ (length A * 64)" "?N < 2 ^ (?n * 64)"
    using mpi_nat_less [of A] mpi_nat_less [of N] unfolding base .
  from gcd_steps_bits [OF A(2) N(2) this] e have g: "mpi_nat v = gcd ?a ?N" unfolding k_def add_mult_distrib by simp
  from i g out show "mpi_nat G = gcd ?a ?N" "length G = ?n" by (simp_all add: modinv_inv_def)
  from n out show "(I = None) = (\<not> want_I)" by (simp add: qr0_def)
  assume "I = Some i"
  then obtain r where "qr = Some (i, r)" using out by auto
  with i g have c: "length i = ?n" "mpi_nat i < ?N" "int ?N dvd int (gcd ?a ?N) - int ?a * int (mpi_nat i)"
    by (simp_all add: modinv_inv_def cofactor_def)
  then have "int (gcd ?a ?N) mod int ?N = int (?a * mpi_nat i) mod int ?N" by (simp add: mod_eq_dvd_iff)
  then have "gcd ?a ?N mod ?N = ?a * mpi_nat i mod ?N" by (metis of_nat_eq_iff of_nat_mod)
  with c show "length i = ?n \<and> mpi_nat i < ?N \<and> ?a * mpi_nat i mod ?N = gcd ?a ?N mod ?N" by simp
qed

end
