(* ===== verification/Bignum_Random.thy ===== *)
theory Bignum_Random
  imports Bignum_Gcd
begin

text \<open>
  Random numbers below a bound, of drivers/builtin/src/bignum_core.c: the filling of an array from a
  generator and the rejection loop. The generator \<open>f_rng\<close> is a parameter: from its state and a
  number of bytes it gives a status, the contents of the buffer and the next state.
\<close>

type_synonym 'r rng = "'r \<Rightarrow> nat \<Rightarrow> int \<times> bytes \<times> 'r"

definition mbedtls_mpi_core_fill_random :: "mpi \<Rightarrow> nat \<Rightarrow> 'r rng \<Rightarrow> 'r \<Rightarrow> int \<times> mpi \<times> 'r" where
  "mbedtls_mpi_core_fill_random X n_bytes f_rng p_rng =
    (let limbs = CHARS_TO_LIMBS n_bytes;
         overhead = limbs * 8 - n_bytes
     in if length X < limbs then (MBEDTLS_ERR_MPI_BAD_INPUT_DATA, X, p_rng)
        else
          let (ret, filled, p_rng) = f_rng p_rng n_bytes;
              X = mpi_of_memory (replicate overhead 0 @ filled @ replicate ((length X - limbs) * 8) 0)
          in if ret \<noteq> 0 then (ret, X, p_rng)
             else (0, mbedtls_mpi_core_bigendian_to_host (take limbs X) @ drop limbs X, p_rng))"

text \<open>The do-while loop; \<open>Suc count\<close> is the value of \<open>count\<close> on entry of an iteration.\<close>

primrec random_loop :: "mpi_uint \<Rightarrow> mpi \<Rightarrow> nat \<Rightarrow> nat \<Rightarrow> 'r rng \<Rightarrow> nat \<Rightarrow> mpi \<Rightarrow> 'r \<Rightarrow> int \<times> mpi \<times> 'r" where
  "random_loop lower N n_bits n_bytes f_rng 0 X p_rng = (MBEDTLS_ERR_MPI_NOT_ACCEPTABLE, X, p_rng)"
| "random_loop lower N n_bits n_bytes f_rng (Suc count) X p_rng =
    (let (ret, X, p_rng) = mbedtls_mpi_core_fill_random X n_bytes f_rng p_rng
     in if ret \<noteq> 0 then (ret, X, p_rng)
        else
          let X = mbedtls_mpi_core_shift_r X (8 * n_bytes - n_bits)
          in if count = 0 then (MBEDTLS_ERR_MPI_NOT_ACCEPTABLE, X, p_rng)
             else
               let ge_lower = mbedtls_mpi_core_uint_le_mpi lower X;
                   lt_upper = mbedtls_mpi_core_lt_ct X N (length N)
               in if mbedtls_ct_bool_and ge_lower lt_upper = 0
                  then random_loop lower N n_bits n_bytes f_rng count X p_rng
                  else (ret, X, p_rng))"

definition mbedtls_mpi_core_random :: "mpi \<Rightarrow> mpi_uint \<Rightarrow> mpi \<Rightarrow> 'r rng \<Rightarrow> 'r \<Rightarrow> int \<times> mpi \<times> 'r" where
  "mbedtls_mpi_core_random X lower N f_rng p_rng =
    (let n_bits = mbedtls_mpi_core_bitlen N;
         n_bytes = (n_bits + 7) div 8;
         count = (if n_bytes > 4 then 30 else 250)
     in random_loop lower N n_bits n_bytes f_rng count X p_rng)"

section \<open>One draw\<close>

lemma mpi_nat_zero_iff: "mpi_nat X = 0 \<longleftrightarrow> (\<forall>i<length X. X ! i = 0)"
proof (induction X)
  case (Cons x X)
  have "unat x = 0 \<longleftrightarrow> x = 0" by (rule unat_eq_zero)
  with Cons show ?case by (auto simp: nth_Cons split: nat.splits)
qed simp

lemma core_uint_le_mpi_value:
  assumes "A \<noteq> []"
  shows "mbedtls_mpi_core_uint_le_mpi lower A = ct_mask (unat lower \<le> mpi_nat A)"
proof -
  obtain a A' where A: "A = a # A'" using assms by (cases A) auto
  have "fold (\<lambda>i m. mbedtls_ct_bool_or m (mbedtls_ct_bool (A ! i))) [1..<k] 0 = ct_mask (\<exists>i\<in>{1..<k}. A ! i \<noteq> 0)" if "1 \<le> k" for k
    using that
  proof (induction k rule: dec_induct)
    case (step k)
    then have "fold (\<lambda>i m. mbedtls_ct_bool_or m (mbedtls_ct_bool (A ! i))) [1..<Suc k] 0 =
        mbedtls_ct_bool_or (ct_mask (\<exists>i\<in>{1..<k}. A ! i \<noteq> 0)) (mbedtls_ct_bool (A ! k))" by simp
    also have "\<dots> = ct_mask (\<exists>i\<in>{1..<Suc k}. A ! i \<noteq> 0)"
      using step.hyps(1) unfolding ct_bool_eq ct_select by (intro arg_cong [of _ _ ct_mask]) (auto simp: less_Suc_eq)
    finally show ?case .
  qed simp
  moreover have "(\<exists>i\<in>{1..<length A}. A ! i \<noteq> 0) \<longleftrightarrow> (\<exists>i\<in>{0..<length A'}. A' ! i \<noteq> 0)"
    unfolding A by (simp flip: image_Suc_atLeastLessThan)
  ultimately have f: "fold (\<lambda>i m. mbedtls_ct_bool_or m (mbedtls_ct_bool (A ! i))) [1..<length A] 0 = ct_mask (mpi_nat A' \<noteq> 0)"
    unfolding mpi_nat_zero_iff using assms by (simp add: Suc_le_eq Bex_def del: ct_mask_simps)
  have "unat lower \<le> mpi_nat A \<longleftrightarrow> mpi_nat A' \<noteq> 0 \<or> lower \<le> a"
  proof (cases "mpi_nat A' = 0")
    case False
    then have "limb_base * 1 \<le> limb_base * mpi_nat A'" by (intro mult_left_mono) simp_all
    then have "unat lower \<le> unat a + limb_base * mpi_nat A'" using limb_less [of lower] by linarith
    then show ?thesis using False by (simp add: A)
  qed (simp add: A word_le_nat_alt)
  then show ?thesis unfolding mbedtls_mpi_core_uint_le_mpi_def f Let_def ct_compare ct_select by (simp add: A)
qed

text \<open>The number drawn from the bytes of one call: read big-endian, cut to \<open>n_bits\<close> bits.\<close>

definition drawn :: "nat \<Rightarrow> nat \<Rightarrow> bytes \<Rightarrow> nat" where
  "drawn n_bits n_bytes b = bytes_nat (rev b) div 2 ^ (8 * n_bytes - n_bits)"

lemma mpi_memory_append: "mpi_memory (A @ B) = mpi_memory A @ mpi_memory B"
  by (simp add: mpi_memory_def)

lemma mpi_of_memory_append:
  assumes "length b = 8 * n" "length c = 8 * m"
  shows "mpi_of_memory (b @ c) = mpi_of_memory b @ mpi_of_memory c"
  using memory_of_memory(1) [OF assms(1)] memory_of_memory(1) [OF assms(2)] by (metis mpi_memory_append mpi_of_memory)

lemma fill_random_value:
  assumes "n_bytes \<le> 8 * length X" "f_rng p_rng n_bytes = (ret, b, p')" "length b = n_bytes"
  shows "\<exists>Y. mbedtls_mpi_core_fill_random X n_bytes f_rng p_rng = (ret, Y, p') \<and> length Y = length X \<and>
    (ret = 0 \<longrightarrow> mpi_nat Y = bytes_nat (rev b))"
proof -
  let ?l = "CHARS_TO_LIMBS n_bytes"
  have l: "?l \<le> length X" using assms(1) chars_to_limbs by blast
  have o: "n_bytes \<le> 8 * ?l" using chars_to_limbs [of n_bytes ?l] by simp
  let ?b = "replicate (?l * 8 - n_bytes) 0 @ b" and ?z = "replicate ((length X - ?l) * 8) (0 :: u8)"
  have lens: "length ?b = 8 * ?l" "length ?z = 8 * (length X - ?l)" using o assms(3) by simp_all
  have m: "mpi_of_memory (?b @ ?z) = mpi_of_memory ?b @ mpi_of_memory ?z" by (rule mpi_of_memory_append [OF lens])
  have lm: "length (mpi_of_memory ?b) = ?l" "length (mpi_of_memory ?z) = length X - ?l"
    using memory_of_memory(2) [OF lens(1)] memory_of_memory(2) [OF lens(2)] by simp_all
  have z: "mpi_nat (mpi_of_memory ?z) = 0"
    using mpi_nat_of_memory [OF lens(2)] bytes_nat_append_zeros [of "[]"] by (simp add: bytes_nat_def)
  have run: "mbedtls_mpi_core_fill_random X n_bytes f_rng p_rng =
      (if ret \<noteq> 0 then (ret, mpi_of_memory ?b @ mpi_of_memory ?z, p')
       else (0, mbedtls_mpi_core_bigendian_to_host (mpi_of_memory ?b) @ mpi_of_memory ?z, p'))"
    using l lm unfolding mbedtls_mpi_core_fill_random_def Let_def assms(2) prod.case
    unfolding append_assoc [symmetric] m by simp
  have v: "mpi_nat (mbedtls_mpi_core_bigendian_to_host (mpi_of_memory ?b) @ mpi_of_memory ?z) = bytes_nat (rev b)"
    using core_bigendian_value [OF lens(1)] z by simp
  show ?thesis unfolding run using l lm v by auto
qed

section \<open>The loop\<close>

text \<open>
  A generator as the list of the answers it gives: its state is the number of calls made, and the
  call number \<open>k\<close> answers with status \<open>fst (s k)\<close> and bytes \<open>snd (s k)\<close>. The loop stops at the first
  call that fails, that gives a number in the range or that is the last one allowed.
\<close>

definition answering :: "(nat \<Rightarrow> int \<times> bytes) \<Rightarrow> nat rng" where
  "answering s k n = (fst (s k), snd (s k), k + 1)"

definition random_stops :: "(nat \<Rightarrow> int \<times> bytes) \<Rightarrow> mpi_uint \<Rightarrow> mpi \<Rightarrow> nat \<Rightarrow> nat \<Rightarrow> nat \<Rightarrow> nat \<Rightarrow> bool" where
  "random_stops s lower N n_bits n_bytes tries k \<longleftrightarrow> fst (s k) \<noteq> 0 \<or> Suc k = tries \<or>
    unat lower \<le> drawn n_bits n_bytes (snd (s k)) \<and> drawn n_bits n_bytes (snd (s k)) < mpi_nat N"

lemma random_loop_step:
  assumes "n_bytes \<le> 8 * length N" "length (snd (s k)) = n_bytes" "length X = length N" "N \<noteq> []"
  shows "\<exists>Y. length Y = length N \<and> (fst (s k) = 0 \<longrightarrow> mpi_nat Y = drawn n_bits n_bytes (snd (s k))) \<and>
    random_loop lower N n_bits n_bytes (answering s) (Suc c) X k =
      (if fst (s k) \<noteq> 0 then (fst (s k), Y, k + 1)
       else if c = 0 then (MBEDTLS_ERR_MPI_NOT_ACCEPTABLE, Y, k + 1)
       else if unat lower \<le> mpi_nat Y \<and> mpi_nat Y < mpi_nat N then (0, Y, k + 1)
       else random_loop lower N n_bits n_bytes (answering s) c Y (k + 1))"
proof -
  have "answering s k n_bytes = (fst (s k), snd (s k), k + 1)" by (simp add: answering_def)
  from fill_random_value [of n_bytes X "answering s" k, OF _ this assms(2)] assms(1,3)
  obtain Z where Z: "mbedtls_mpi_core_fill_random X n_bytes (answering s) k = (fst (s k), Z, k + 1)" "length Z = length N"
    "fst (s k) = 0 \<Longrightarrow> mpi_nat Z = bytes_nat (rev (snd (s k)))" by auto
  let ?Y = "mbedtls_mpi_core_shift_r Z (8 * n_bytes - n_bits)"
  have Y: "length ?Y = length N" "fst (s k) = 0 \<Longrightarrow> mpi_nat ?Y = drawn n_bits n_bytes (snd (s k))"
    using Z(2,3) by (simp_all add: core_shift_r_value drawn_def)
  show ?thesis
  proof (cases "fst (s k) = 0")
    case False
    then show ?thesis using Z(1,2) by (intro exI [of _ Z]) (simp add: Let_def)
  next
    case True
    have "?Y \<noteq> []" using Y(1) assms(4) by auto
    note cmp = core_uint_le_mpi_value [OF this, of lower] core_lt_ct_value [OF Y(1) refl]
    have "random_loop lower N n_bits n_bytes (answering s) (Suc c) X k =
        (if c = 0 then (MBEDTLS_ERR_MPI_NOT_ACCEPTABLE, ?Y, k + 1)
         else if ct_mask (unat lower \<le> mpi_nat ?Y \<and> mpi_nat ?Y < mpi_nat N) = 0
         then random_loop lower N n_bits n_bytes (answering s) c ?Y (k + 1) else (0, ?Y, k + 1))"
      using True unfolding random_loop.simps Z(1) Let_def prod.case cmp ct_select by simp
    also have "\<dots> = (if c = 0 then (MBEDTLS_ERR_MPI_NOT_ACCEPTABLE, ?Y, k + 1)
        else if unat lower \<le> mpi_nat ?Y \<and> mpi_nat ?Y < mpi_nat N then (0, ?Y, k + 1)
        else random_loop lower N n_bits n_bytes (answering s) c ?Y (k + 1))"
      by (simp add: ct_mask_def)
    finally show ?thesis using True Y by (intro exI [of _ ?Y]) simp
  qed
qed

lemma random_loop_value:
  assumes "n_bytes \<le> 8 * length N" "\<And>j. length (snd (s j)) = n_bytes" "N \<noteq> []"
    and "k \<le> K" "K < tries" "random_stops s lower N n_bits n_bytes tries K"
    and "\<And>j. k \<le> j \<Longrightarrow> j < K \<Longrightarrow> \<not> random_stops s lower N n_bits n_bytes tries j" "length X = length N"
  shows "\<exists>Y. random_loop lower N n_bits n_bytes (answering s) (tries - k) X k =
      (if fst (s K) \<noteq> 0 then fst (s K) else if Suc K = tries then MBEDTLS_ERR_MPI_NOT_ACCEPTABLE else 0, Y, Suc K) \<and>
    length Y = length N \<and> (fst (s K) = 0 \<longrightarrow> mpi_nat Y = drawn n_bits n_bytes (snd (s K)))"
  using assms(4-)
proof (induction "K - k" arbitrary: k X)
  case 0
  then have k: "k = K" "tries - k = Suc (tries - Suc k)" by simp_all
  obtain Y where Y: "length Y = length N" "fst (s k) = 0 \<Longrightarrow> mpi_nat Y = drawn n_bits n_bytes (snd (s k))"
    and run: "random_loop lower N n_bits n_bytes (answering s) (Suc (tries - Suc k)) X k =
      (if fst (s k) \<noteq> 0 then (fst (s k), Y, k + 1)
       else if tries - Suc k = 0 then (MBEDTLS_ERR_MPI_NOT_ACCEPTABLE, Y, k + 1)
       else if unat lower \<le> mpi_nat Y \<and> mpi_nat Y < mpi_nat N then (0, Y, k + 1)
       else random_loop lower N n_bits n_bytes (answering s) (tries - Suc k) Y (k + 1))"
    using random_loop_step [of n_bytes N s k X, OF assms(1) assms(2) "0.prems"(5) assms(3)] by blast
  have "tries - Suc k = 0 \<longleftrightarrow> Suc k = tries" using "0.prems"(2) k by linarith
  then show ?case using Y "0.prems"(3) unfolding k(2) run by (auto simp: random_stops_def k(1) intro!: exI [of _ Y])
next
  case (Suc d)
  then have k: "k < K" "tries - k = Suc (tries - Suc k)" by simp_all
  then have ns: "\<not> random_stops s lower N n_bits n_bytes tries k" using Suc.prems(4) by simp
  obtain Y where Y: "length Y = length N" "fst (s k) = 0 \<Longrightarrow> mpi_nat Y = drawn n_bits n_bytes (snd (s k))"
    and run: "random_loop lower N n_bits n_bytes (answering s) (Suc (tries - Suc k)) X k =
      (if fst (s k) \<noteq> 0 then (fst (s k), Y, k + 1)
       else if tries - Suc k = 0 then (MBEDTLS_ERR_MPI_NOT_ACCEPTABLE, Y, k + 1)
       else if unat lower \<le> mpi_nat Y \<and> mpi_nat Y < mpi_nat N then (0, Y, k + 1)
       else random_loop lower N n_bits n_bytes (answering s) (tries - Suc k) Y (k + 1))"
    using random_loop_step [of n_bytes N s k X, OF assms(1) assms(2) Suc.prems(5) assms(3)] by blast
  have "tries - Suc k \<noteq> 0" using Suc.prems(2) k by linarith
  with ns Y have "random_loop lower N n_bits n_bytes (answering s) (tries - k) X k =
      random_loop lower N n_bits n_bytes (answering s) (tries - Suc k) Y (Suc k)"
    unfolding k(2) run by (auto simp: random_stops_def)
  moreover have "d = K - Suc k" "Suc k \<le> K" using Suc.hyps(2) k by simp_all
  ultimately show ?case using Suc.hyps(1) [of "Suc k" Y] Suc.prems(2,3,4) Y(1) by simp
qed

lemma core_random_value:
  fixes N :: mpi
  defines "n_bits \<equiv> mbedtls_mpi_core_bitlen N"
  defines "n_bytes \<equiv> (n_bits + 7) div 8"
  defines "tries \<equiv> if n_bytes > 4 then 30 else 250"
  assumes "\<And>j. length (snd (s j)) = n_bytes" "N \<noteq> []" "length X = length N"
  shows "\<exists>K<tries. (\<forall>j<K. \<not> random_stops s lower N n_bits n_bytes tries j) \<and> random_stops s lower N n_bits n_bytes tries K \<and>
    (\<exists>Y. mbedtls_mpi_core_random X lower N (answering s) 0 =
        (if fst (s K) \<noteq> 0 then fst (s K) else if Suc K = tries then MBEDTLS_ERR_MPI_NOT_ACCEPTABLE else 0, Y, Suc K) \<and>
      length Y = length N \<and> (fst (s K) = 0 \<longrightarrow> mpi_nat Y = drawn n_bits n_bytes (snd (s K))))"
proof -
  let ?P = "random_stops s lower N n_bits n_bytes tries"
  have "0 < tries" by (simp add: tries_def)
  then have last: "?P (tries - 1)" by (simp add: random_stops_def)
  define K where "K = (LEAST k. ?P k)"
  have K: "?P K" "\<And>j. j < K \<Longrightarrow> \<not> ?P j" "K \<le> tries - 1"
    unfolding K_def using last by (auto intro: LeastI dest: not_less_Least Least_le)
  have "n_bytes \<le> 8 * length N" using core_bitlen_value(1) [of N] by (simp add: n_bytes_def n_bits_def)
  from random_loop_value [OF this assms(4,5) _ _ K(1) _ assms(6), of 0] K(2,3) \<open>0 < tries\<close>
  have "\<exists>Y. random_loop lower N n_bits n_bytes (answering s) tries X 0 =
        (if fst (s K) \<noteq> 0 then fst (s K) else if Suc K = tries then MBEDTLS_ERR_MPI_NOT_ACCEPTABLE else 0, Y, Suc K) \<and>
      length Y = length N \<and> (fst (s K) = 0 \<longrightarrow> mpi_nat Y = drawn n_bits n_bytes (snd (s K)))" by simp
  moreover have "mbedtls_mpi_core_random X lower N (answering s) 0 = random_loop lower N n_bits n_bytes (answering s) tries X 0"
    by (simp add: mbedtls_mpi_core_random_def Let_def n_bits_def n_bytes_def tries_def)
  ultimately show ?thesis using K \<open>0 < tries\<close> by (intro exI [of _ K]) auto
qed

end
