(* ===== verification/Bignum_Properties.thy ===== *)
theory Bignum_Properties
  imports Bignum_Random
begin

text \<open>
  The properties of the big-number core: exact arithmetic on limbs, import and export, Montgomery
  multiplication, exponentiation, greatest common divisor and inverse, and random numbers in a range.
  The number that an array of limbs stands for is \<open>mpi_nat\<close>, the one of a byte string \<open>bytes_nat\<close>.
\<close>

lemma radix_power: "2 ^ (64 * n) = limb_base ^ n" "2 ^ (2 * 64 * n) = (limb_base ^ n)\<^sup>2"
  unfolding limb_base_def by (simp_all only: power_mult [symmetric] ac_simps)

lemma odd_modulus: "odd (mpi_nat N) \<Longrightarrow> mont_modulus N"
  by (cases N) (simp_all add: mont_modulus_def odd_unat limb_base_def)

text \<open>C40: addition, subtraction and multiplication of arrays of limbs are exact. Addition and subtraction
  of two arrays of the same length give the sum and the difference together with a carry or a borrow
  of at most one, the borrow exactly when the first number is the smaller one; the product of arrays
  of any lengths has the sum of the lengths and loses no carry; adding a multiple of an array to a
  longer one gives the carry that the sum has.\<close>

theorem limb_arithmetic:
  assumes "length A = length B" "length C \<le> length D"
  shows "(case mbedtls_mpi_core_add A B of (X, c) \<Rightarrow> length X = length A \<and> unat c \<le> 1 \<and>
      mpi_nat X + limb_base ^ length A * unat c = mpi_nat A + mpi_nat B) \<and>
    (case mbedtls_mpi_core_sub A B of (X, c) \<Rightarrow> length X = length A \<and> c = of_bool (mpi_nat A < mpi_nat B) \<and>
      mpi_nat X + mpi_nat B = mpi_nat A + limb_base ^ length A * unat c) \<and>
    (case mbedtls_mpi_core_mla D C b of (X, c) \<Rightarrow> length X = length D \<and>
      mpi_nat X + limb_base ^ length D * unat c = mpi_nat D + mpi_nat C * unat b) \<and>
    length (mbedtls_mpi_core_mul A D) = length A + length D \<and> mpi_nat (mbedtls_mpi_core_mul A D) = mpi_nat A * mpi_nat D"
  using core_add_value [OF assms(1)] core_sub_value [OF assms(1)] core_sub_cases(1) [OF assms(1)]
    core_mla_value [OF assms(2)] core_mul_value [of A D]
  by (auto split: prod.splits simp del: One_nat_def)

theorem limb_arithmetic_witness:
  "(case mbedtls_mpi_core_add [- 1, - 1] [1, 0] of (X, c) \<Rightarrow> length X = length [- 1 :: mpi_uint, - 1] \<and> unat c \<le> 1 \<and>
      mpi_nat X + limb_base ^ length [- 1 :: mpi_uint, - 1] * unat c = mpi_nat [- 1, - 1] + mpi_nat [1, 0]) \<and>
    (case mbedtls_mpi_core_sub [- 1, - 1] [1, 0] of (X, c) \<Rightarrow> length X = length [- 1 :: mpi_uint, - 1] \<and>
      c = of_bool (mpi_nat [- 1, - 1] < mpi_nat [1, 0]) \<and>
      mpi_nat X + mpi_nat [1, 0] = mpi_nat [- 1, - 1] + limb_base ^ length [- 1 :: mpi_uint, - 1] * unat c) \<and>
    (case mbedtls_mpi_core_mla [5, 6] [7] 8 of (X, c) \<Rightarrow> length X = length [5 :: mpi_uint, 6] \<and>
      mpi_nat X + limb_base ^ length [5 :: mpi_uint, 6] * unat c = mpi_nat [5, 6] + mpi_nat [7] * unat (8 :: mpi_uint)) \<and>
    length (mbedtls_mpi_core_mul [- 1, - 1] [5, 6]) = length [- 1 :: mpi_uint, - 1] + length [5 :: mpi_uint, 6] \<and>
    mpi_nat (mbedtls_mpi_core_mul [- 1, - 1] [5, 6]) = mpi_nat [- 1, - 1] * mpi_nat [5, 6]"
  by (rule limb_arithmetic) simp_all

text \<open>One multiply-accumulate step computes \<open>s * b + c + d\<close> exactly in two limbs, and the portable
  variant that splits the factors into halves computes the same two limbs as the one with a
  double-width type.\<close>

theorem muladdc_exact:
  "muladdc_halves s b c d = muladdc_udbl s b c d \<and>
    unat (fst (muladdc_udbl s b c d)) + limb_base * unat (snd (muladdc_udbl s b c d)) = unat s * unat b + unat c + unat d"
  using muladdc_variants muladdc_udbl_value [of s b c d] by simp

text \<open>C39: import and export are inverse, in both byte orders: a byte string that fits into the array is
  imported without error and exported again as it was, and any number is exported without error into
  any buffer that has room for its bytes, with zeros in front or behind, and imported from there as
  the same number; a number that does not fit is refused and the buffer left as it was, a string that
  does not fit is refused and the array left as it was.\<close>

theorem mpi_bytes_roundtrip:
  assumes "length out = length input"
  shows "(if length input \<le> 8 * length X
      then (\<exists>Y. mbedtls_mpi_core_read_be X input = (0, Y) \<and> mbedtls_mpi_core_write_be Y out = (0, input)) \<and>
        (\<exists>Y. mbedtls_mpi_core_read_le X input = (0, Y) \<and> mbedtls_mpi_core_write_le Y out = (0, input))
      else mbedtls_mpi_core_read_be X input = (MBEDTLS_ERR_MPI_BUFFER_TOO_SMALL, X) \<and>
        mbedtls_mpi_core_read_le X input = (MBEDTLS_ERR_MPI_BUFFER_TOO_SMALL, X)) \<and>
    (if mpi_nat A < 256 ^ length buf
      then \<exists>b l. mbedtls_mpi_core_write_be A buf = (0, b) \<and> mbedtls_mpi_core_write_le A buf = (0, l) \<and>
        length b = length buf \<and> length l = length buf \<and> bytes_nat (rev b) = mpi_nat A \<and> bytes_nat l = mpi_nat A \<and>
        (length buf \<le> 8 * length X \<longrightarrow> mpi_nat (snd (mbedtls_mpi_core_read_be X b)) = mpi_nat A \<and>
          mpi_nat (snd (mbedtls_mpi_core_read_le X l)) = mpi_nat A)
      else mbedtls_mpi_core_write_be A buf = (MBEDTLS_ERR_MPI_BUFFER_TOO_SMALL, buf) \<and>
        mbedtls_mpi_core_write_le A buf = (MBEDTLS_ERR_MPI_BUFFER_TOO_SMALL, buf))"
  (is "?import \<and> ?export")
proof
  show ?import
  proof (cases "length input \<le> 8 * length X")
    case True
    let ?b = "snd (mbedtls_mpi_core_read_be X input)" and ?l = "snd (mbedtls_mpi_core_read_le X input)"
    have r: "mbedtls_mpi_core_read_be X input = (0, ?b)" "mbedtls_mpi_core_read_le X input = (0, ?l)"
      using core_read_be_value(1) [of X input] core_read_le_value(1) [of X input] True by simp_all
    have v: "mpi_nat ?b = bytes_nat (rev input)" "mpi_nat ?l = bytes_nat input"
      using core_read_be_value(2) [OF True] core_read_le_value(2) [OF True] by simp_all
    then have fits: "mpi_nat ?b < 256 ^ length out" "mpi_nat ?l < 256 ^ length out"
      using bytes_nat_less [of "rev input"] bytes_nat_less [of input] assms by simp_all
    have "rev (snd (mbedtls_mpi_core_write_be ?b out)) = rev input"
      by (rule bytes_nat_inj) (use core_write_be_value(2) [OF fits(1)] v assms in simp_all)
    moreover have "snd (mbedtls_mpi_core_write_le ?l out) = input"
      by (rule bytes_nat_inj) (use core_write_le_value(2) [OF fits(2)] v assms in simp_all)
    ultimately have "mbedtls_mpi_core_write_be ?b out = (0, input)" "mbedtls_mpi_core_write_le ?l out = (0, input)"
      using core_write_be_value(1) [of ?b out] core_write_le_value(1) [of ?l out] fits by simp_all
    with r True show ?thesis by auto
  next
    case False
    then show ?thesis using core_read_be_value(1) [of X input] core_read_le_value(1) [of X input] by simp
  qed
  show ?export
  proof (cases "mpi_nat A < 256 ^ length buf")
    case True
    let ?b = "snd (mbedtls_mpi_core_write_be A buf)" and ?l = "snd (mbedtls_mpi_core_write_le A buf)"
    have w: "mbedtls_mpi_core_write_be A buf = (0, ?b)" "mbedtls_mpi_core_write_le A buf = (0, ?l)"
      using core_write_be_value(1) [of A buf] core_write_le_value(1) [of A buf] True by simp_all
    note v = core_write_be_value(2) [OF True] core_write_le_value(2) [OF True]
    have "length buf \<le> 8 * length X \<Longrightarrow> mpi_nat (snd (mbedtls_mpi_core_read_be X ?b)) = mpi_nat A \<and>
        mpi_nat (snd (mbedtls_mpi_core_read_le X ?l)) = mpi_nat A"
      using core_read_be_value(2) [of ?b X] core_read_le_value(2) [of ?l X] v by simp
    then show ?thesis unfolding if_P [OF True] by (intro exI [of _ ?b] exI [of _ ?l] conjI w impI) (use v in auto)
  next
    case False
    then show ?thesis using core_write_be_value(1) [of A buf] core_write_le_value(1) [of A buf] by simp
  qed
qed

theorem mpi_bytes_roundtrip_witness:
  "(if length [0 :: u8, 1, 2] \<le> 8 * length [9 :: mpi_uint]
      then (\<exists>Y. mbedtls_mpi_core_read_be [9] [0, 1, 2] = (0, Y) \<and> mbedtls_mpi_core_write_be Y [7, 7, 7] = (0, [0, 1, 2])) \<and>
        (\<exists>Y. mbedtls_mpi_core_read_le [9] [0, 1, 2] = (0, Y) \<and> mbedtls_mpi_core_write_le Y [7, 7, 7] = (0, [0, 1, 2]))
      else mbedtls_mpi_core_read_be [9] [0, 1, 2] = (MBEDTLS_ERR_MPI_BUFFER_TOO_SMALL, [9]) \<and>
        mbedtls_mpi_core_read_le [9] [0, 1, 2] = (MBEDTLS_ERR_MPI_BUFFER_TOO_SMALL, [9])) \<and>
    (if mpi_nat [255] < 256 ^ length [7 :: u8]
      then \<exists>b l. mbedtls_mpi_core_write_be [255] [7] = (0, b) \<and> mbedtls_mpi_core_write_le [255] [7] = (0, l) \<and>
        length b = length [7 :: u8] \<and> length l = length [7 :: u8] \<and> bytes_nat (rev b) = mpi_nat [255] \<and> bytes_nat l = mpi_nat [255] \<and>
        (length [7 :: u8] \<le> 8 * length [9 :: mpi_uint] \<longrightarrow> mpi_nat (snd (mbedtls_mpi_core_read_be [9] b)) = mpi_nat [255] \<and>
          mpi_nat (snd (mbedtls_mpi_core_read_le [9] l)) = mpi_nat [255])
      else mbedtls_mpi_core_write_be [255] [7] = (MBEDTLS_ERR_MPI_BUFFER_TOO_SMALL, [7]) \<and>
        mbedtls_mpi_core_write_le [255] [7] = (MBEDTLS_ERR_MPI_BUFFER_TOO_SMALL, [7]))"
  by (rule mpi_bytes_roundtrip) simp

text \<open>C37: Montgomery multiplication modulo an odd number, by any factor that is not above the modulus,
  gives a number below the modulus that is the product of the two divided by the power of the radix:
  with \<open>n\<close> limbs, \<open>X * 2 ^ (64 * n)\<close> is congruent to \<open>A * B\<close>. The first factor may be any number of
  \<open>n\<close> limbs.\<close>

theorem montmul_correct:
  assumes "length A = length N" "0 < length B" "length B \<le> length N" "odd (mpi_nat N)" "mpi_nat B \<le> mpi_nat N"
  shows "length (mbedtls_mpi_core_montmul A B N (mbedtls_mpi_core_montmul_init N)) = length N \<and>
    mpi_nat (mbedtls_mpi_core_montmul A B N (mbedtls_mpi_core_montmul_init N)) < mpi_nat N \<and>
    mpi_nat (mbedtls_mpi_core_montmul A B N (mbedtls_mpi_core_montmul_init N)) * 2 ^ (64 * length N) mod mpi_nat N =
      mpi_nat A * mpi_nat B mod mpi_nat N"
proof -
  have "odd (N ! 0)" using odd_modulus [OF assms(4)] by (simp add: mont_modulus_def)
  then show ?thesis
    unfolding radix_power using montmul_value [OF assms(1-3) _ assms(5)] by blast
qed

theorem montmul_correct_witness:
  "length (mbedtls_mpi_core_montmul [- 1] [5] [7] (mbedtls_mpi_core_montmul_init [7])) = length [7 :: mpi_uint] \<and>
    mpi_nat (mbedtls_mpi_core_montmul [- 1] [5] [7] (mbedtls_mpi_core_montmul_init [7])) < mpi_nat [7] \<and>
    mpi_nat (mbedtls_mpi_core_montmul [- 1] [5] [7] (mbedtls_mpi_core_montmul_init [7])) * 2 ^ (64 * length [7 :: mpi_uint]) mod mpi_nat [7] =
      mpi_nat [- 1] * mpi_nat [5] mod mpi_nat [7]"
  by (rule montmul_correct) simp_all

text \<open>C14: modular exponentiation always returns, in both variants, and its result is right: for an odd
  modulus, any base of the length of the modulus put into Montgomery representation and any exponent
  of at least one limb, zero included, the windowed loop ends, and its result taken out of the
  representation is the power modulo \<open>N\<close>, whatever the working memory held before.\<close>

theorem exp_mod_returns:
  assumes "odd (mpi_nat N)" "length A = length N" "E \<noteq> []"
    and "length RR = length N" "mpi_nat RR = 2 ^ (2 * 64 * length N) mod mpi_nat N"
    and "mbedtls_mpi_core_exp_mod_working_limbs (length N) (length E) \<le> length T"
  shows "(\<exists>X. mbedtls_mpi_core_exp_mod (mbedtls_mpi_core_to_mont_rep A N (mbedtls_mpi_core_montmul_init N) RR) N E RR T = Some X \<and>
      mpi_nat (mbedtls_mpi_core_from_mont_rep X N (mbedtls_mpi_core_montmul_init N)) = mpi_nat A ^ mpi_nat E mod mpi_nat N) \<and>
    (\<exists>X. mbedtls_mpi_core_exp_mod_unsafe (mbedtls_mpi_core_to_mont_rep A N (mbedtls_mpi_core_montmul_init N) RR) N E RR T = Some X \<and>
      mpi_nat (mbedtls_mpi_core_from_mont_rep X N (mbedtls_mpi_core_montmul_init N)) = mpi_nat A ^ mpi_nat E mod mpi_nat N)"
proof -
  note N = odd_modulus [OF assms(1)]
  have RR: "mpi_nat RR = (limb_base ^ length N)\<^sup>2 mod mpi_nat N"
    using assms(5) unfolding radix_power .
  note A = to_mont_rep_value [OF N assms(2,4) RR]
  from exp_mod_value [OF N A assms(3,4) RR assms(6)] from_mont_rep_value [OF N]
  show ?thesis unfolding mbedtls_mpi_core_exp_mod_def mbedtls_mpi_core_exp_mod_unsafe_def by metis
qed

theorem exp_mod_returns_witness:
  "(\<exists>X. mbedtls_mpi_core_exp_mod (mbedtls_mpi_core_to_mont_rep [3] [7] (mbedtls_mpi_core_montmul_init [7]) [4]) [7] [5] [4]
        (replicate 70 0) = Some X \<and>
      mpi_nat (mbedtls_mpi_core_from_mont_rep X [7] (mbedtls_mpi_core_montmul_init [7])) = mpi_nat [3] ^ mpi_nat [5] mod mpi_nat [7]) \<and>
    (\<exists>X. mbedtls_mpi_core_exp_mod_unsafe (mbedtls_mpi_core_to_mont_rep [3] [7] (mbedtls_mpi_core_montmul_init [7]) [4]) [7] [5] [4]
        (replicate 70 0) = Some X \<and>
      mpi_nat (mbedtls_mpi_core_from_mont_rep X [7] (mbedtls_mpi_core_montmul_init [7])) = mpi_nat [3] ^ mpi_nat [5] mod mpi_nat [7])"
  by (rule exp_mod_returns)
    (simp_all add: mbedtls_mpi_core_exp_mod_working_limbs_def exp_mod_get_window_size_def MBEDTLS_MPI_WINDOW_SIZE_def
      Let_def push_bit_eq_mult)

text \<open>C15: the constant-time greatest common divisor of a number and an odd one that is not smaller (and
  above 1 when the inverse is asked for, the precondition that bignum_core.h states) is
  the greatest common divisor, after its fixed number of steps, and the inverse is asked for exactly
  when it is given; when asked for, the second result is below \<open>N\<close> and its product with \<open>A\<close> is the
  divisor modulo \<open>N\<close>, so that it is the inverse of \<open>A\<close> when the two have no common factor.\<close>

theorem modinv_correct:
  assumes "length A \<le> length N" "mpi_nat A \<le> mpi_nat N" "odd (mpi_nat N)" "want_I \<longrightarrow> 1 < mpi_nat N"
  shows "case mbedtls_mpi_core_gcd_modinv_odd A N want_I of (G, I) \<Rightarrow>
    mpi_nat G = gcd (mpi_nat A) (mpi_nat N) \<and> length G = length N \<and> (I \<noteq> None) = want_I \<and>
    (\<forall>i. I = Some i \<longrightarrow> length i = length N \<and> mpi_nat i < mpi_nat N \<and>
      mpi_nat A * mpi_nat i mod mpi_nat N = gcd (mpi_nat A) (mpi_nat N) mod mpi_nat N \<and>
      (coprime (mpi_nat A) (mpi_nat N) \<longrightarrow> mpi_nat A * mpi_nat i mod mpi_nat N = 1))"
proof -
  obtain G I where r: "mbedtls_mpi_core_gcd_modinv_odd A N want_I = (G, I)" by fastforce
  have N: "N \<noteq> []" "want_I \<Longrightarrow> 1 < mpi_nat N" using assms(3,4) by auto
  note v = gcd_modinv_odd_value [OF assms(1,2) N(1) assms(3) r N(2)]
  have "mpi_nat A * mpi_nat i mod mpi_nat N = 1" if "I = Some i" "coprime (mpi_nat A) (mpi_nat N)" for i
    using v(3) v(4) [OF _ that(1)] that assms(4) by (simp add: coprime_iff_gcd_eq_1)
  with v show ?thesis unfolding r by auto
qed

theorem modinv_correct_witness:
  "case mbedtls_mpi_core_gcd_modinv_odd [3] [7, 0] True of (G, I) \<Rightarrow>
    mpi_nat G = gcd (mpi_nat [3]) (mpi_nat [7, 0]) \<and> length G = length [7 :: mpi_uint, 0] \<and> (I \<noteq> None) = True \<and>
    (\<forall>i. I = Some i \<longrightarrow> length i = length [7 :: mpi_uint, 0] \<and> mpi_nat i < mpi_nat [7, 0] \<and>
      mpi_nat [3] * mpi_nat i mod mpi_nat [7, 0] = gcd (mpi_nat [3]) (mpi_nat [7, 0]) mod mpi_nat [7, 0] \<and>
      (coprime (mpi_nat [3]) (mpi_nat [7, 0]) \<longrightarrow> mpi_nat [3] * mpi_nat i mod mpi_nat [7, 0] = 1))"
  by (rule modinv_correct) simp_all

text \<open>C38: the choice of a random number below \<open>N\<close> ends, with at most 30 calls of the generator, or 250
  when \<open>N\<close> has at most four bytes. It takes the answers of the generator one by one and stops at the
  first that is an error, that is in the range or that is the last one allowed. An error is passed
  on; the last answer is refused, whatever it is; otherwise the result is the number drawn, and it is
  in the range.\<close>

theorem random_terminates:
  assumes "\<forall>j. length (snd (s j)) = (mbedtls_mpi_core_bitlen N + 7) div 8" "N \<noteq> []" "length X = length N"
  shows "\<exists>K Y. let n_bits = mbedtls_mpi_core_bitlen N; n_bytes = (n_bits + 7) div 8; tries = (if n_bytes > 4 then 30 else 250)
    in K < tries \<and> random_stops s lower N n_bits n_bytes tries K \<and> (\<forall>j<K. \<not> random_stops s lower N n_bits n_bytes tries j) \<and>
      mbedtls_mpi_core_random X lower N (answering s) 0 =
        (if fst (s K) \<noteq> 0 then fst (s K) else if Suc K = tries then MBEDTLS_ERR_MPI_NOT_ACCEPTABLE else 0, Y, Suc K) \<and>
      (fst (s K) = 0 \<longrightarrow> mpi_nat Y = drawn n_bits n_bytes (snd (s K))) \<and>
      (fst (s K) = 0 \<and> Suc K \<noteq> tries \<longrightarrow> unat lower \<le> mpi_nat Y \<and> mpi_nat Y < mpi_nat N)"
proof -
  from core_random_value [of s N X lower] assms
  obtain K Y where "K < (if (mbedtls_mpi_core_bitlen N + 7) div 8 > 4 then 30 else 250)"
    and "\<forall>j<K. \<not> random_stops s lower N (mbedtls_mpi_core_bitlen N) ((mbedtls_mpi_core_bitlen N + 7) div 8)
      (if (mbedtls_mpi_core_bitlen N + 7) div 8 > 4 then 30 else 250) j"
    and "random_stops s lower N (mbedtls_mpi_core_bitlen N) ((mbedtls_mpi_core_bitlen N + 7) div 8)
      (if (mbedtls_mpi_core_bitlen N + 7) div 8 > 4 then 30 else 250) K"
    and "mbedtls_mpi_core_random X lower N (answering s) 0 =
      (if fst (s K) \<noteq> 0 then fst (s K)
       else if Suc K = (if (mbedtls_mpi_core_bitlen N + 7) div 8 > 4 then 30 else 250) then MBEDTLS_ERR_MPI_NOT_ACCEPTABLE else 0,
       Y, Suc K)"
    and "fst (s K) = 0 \<longrightarrow> mpi_nat Y = drawn (mbedtls_mpi_core_bitlen N) ((mbedtls_mpi_core_bitlen N + 7) div 8) (snd (s K))"
    by blast
  then show ?thesis unfolding Let_def by (intro exI [of _ K] exI [of _ Y]) (auto simp: random_stops_def)
qed

theorem random_terminates_witness:
  "\<exists>K Y. let n_bits = mbedtls_mpi_core_bitlen [7]; n_bytes = (n_bits + 7) div 8; tries = (if n_bytes > 4 then 30 else 250)
    in K < tries \<and> random_stops (\<lambda>j. (0, [of_nat j])) 1 [7] n_bits n_bytes tries K \<and>
      (\<forall>j<K. \<not> random_stops (\<lambda>j. (0, [of_nat j])) 1 [7] n_bits n_bytes tries j) \<and>
      mbedtls_mpi_core_random [0] 1 [7] (answering (\<lambda>j. (0, [of_nat j]))) 0 =
        (if fst (0 :: int, [of_nat K :: u8]) \<noteq> 0 then fst (0, [of_nat K :: u8])
         else if Suc K = tries then MBEDTLS_ERR_MPI_NOT_ACCEPTABLE else 0, Y, Suc K) \<and>
      (fst (0 :: int, [of_nat K :: u8]) = 0 \<longrightarrow> mpi_nat Y = drawn n_bits n_bytes (snd (0 :: int, [of_nat K]))) \<and>
      (fst (0 :: int, [of_nat K :: u8]) = 0 \<and> Suc K \<noteq> tries \<longrightarrow> unat (1 :: mpi_uint) \<le> mpi_nat Y \<and> mpi_nat Y < mpi_nat [7])"
proof -
  have "mbedtls_mpi_core_bitlen [7] = 3" by code_simp
  then show ?thesis by (intro random_terminates) simp_all
qed

end
