(* ===== verification/Hmac_Driver.thy ===== *)
theory Hmac_Driver
  imports Hash_Operations
begin

text \<open>
  HMAC in the built-in MAC driver, drivers/builtin/src/psa_crypto_mac.c: the key blocks, the inner
  and the outer hash on top of the hash functions of the API. The library of properties says that
  the operation absorbs a message under a key and that its result is the one of RFC 2104.
  Local buffers of the C code are zero before they are written; what is read of them was written before.
\<close>

section \<open>The operation\<close>

abbreviation PSA_HMAC_MAX_HASH_BLOCK_SIZE :: nat where "PSA_HMAC_MAX_HASH_BLOCK_SIZE \<equiv> 144"

definition PSA_HASH_BLOCK_LENGTH :: "psa_algorithm \<Rightarrow> nat" where
  "PSA_HASH_BLOCK_LENGTH a =
    (let h = PSA_ALG_HMAC_GET_HASH a in
     if h = PSA_ALG_MD5 then 64 else if h = PSA_ALG_RIPEMD160 then 64 else if h = PSA_ALG_SHA_1 then 64
     else if h = PSA_ALG_SHA_224 then 64 else if h = PSA_ALG_SHA_256 then 64
     else if h = PSA_ALG_SHA_384 then 128 else if h = PSA_ALG_SHA_512 then 128
     else if h = PSA_ALG_SHA_512_224 then 128 else if h = PSA_ALG_SHA_512_256 then 128
     else if h = PSA_ALG_SHA3_224 then 144 else if h = PSA_ALG_SHA3_256 then 136
     else if h = PSA_ALG_SHA3_384 then 104 else if h = PSA_ALG_SHA3_512 then 72
     else 0)"

record mbedtls_psa_hmac_operation =
  hmac_alg :: psa_algorithm
  hmac_hash_ctx :: psa_hash_operation
  hmac_opad :: bytes

definition MBEDTLS_PSA_HMAC_OPERATION_INIT :: mbedtls_psa_hmac_operation where
  "MBEDTLS_PSA_HMAC_OPERATION_INIT = \<lparr>hmac_alg = 0, hmac_hash_ctx = PSA_HASH_OPERATION_INIT,
     hmac_opad = replicate PSA_HMAC_MAX_HASH_BLOCK_SIZE 0\<rparr>"

definition psa_hmac_abort_internal :: "mbedtls_psa_hmac_operation \<Rightarrow> psa_status \<times> mbedtls_psa_hmac_operation" where
  "psa_hmac_abort_internal hmac =
    (let hmac = hmac\<lparr>hmac_opad := replicate PSA_HMAC_MAX_HASH_BLOCK_SIZE 0\<rparr>;
         (status, ctx) = psa_hash_abort (hmac_hash_ctx hmac)
     in (status, hmac\<lparr>hmac_hash_ctx := ctx\<rparr>))"

text \<open>The loop over the key bytes and the \<open>memset\<close> that fills up the block.\<close>

definition hmac_pad :: "u8 \<Rightarrow> u8 \<Rightarrow> nat \<Rightarrow> nat \<Rightarrow> bytes \<Rightarrow> bytes \<Rightarrow> bytes" where
  "hmac_pad flip fill key_length block_size source target =
    map (\<lambda>b. b XOR flip) (take key_length source) @ replicate (block_size - key_length) fill @ drop block_size target"

definition psa_hmac_setup_internal ::
    "mbedtls_psa_hmac_operation \<Rightarrow> bytes \<Rightarrow> psa_algorithm \<Rightarrow> bool list \<Rightarrow>
     psa_status \<times> mbedtls_psa_hmac_operation \<times> bool list" where
  "psa_hmac_setup_internal hmac key alg outcomes =
    (let ipad = replicate PSA_HMAC_MAX_HASH_BLOCK_SIZE 0;
         hash_size = PSA_HASH_LENGTH alg;
         block_size = PSA_HASH_BLOCK_LENGTH alg;
         hmac = hmac\<lparr>hmac_alg := alg\<rparr>
     in if block_size > length ipad then (PSA_ERROR_NOT_SUPPORTED, hmac, outcomes)
        else if block_size > length (hmac_opad hmac) then (PSA_ERROR_NOT_SUPPORTED, hmac, outcomes)
        else if block_size < hash_size then (PSA_ERROR_NOT_SUPPORTED, hmac, outcomes)
        else
          let (status, ipad, key_length, outcomes) =
                (if length key > block_size
                 then (let (status, ipad_out, key_length, outcomes) =
                             psa_hash_compute alg key (Some ipad) (length ipad) outcomes
                       in (status, contents ipad_out, key_length, outcomes))
                 else (PSA_SUCCESS, key @ drop (length key) ipad, length key, outcomes))
          in if status \<noteq> PSA_SUCCESS then (status, hmac, outcomes)
             else
               let ipad = hmac_pad 0x36 0x36 key_length block_size ipad ipad;
                   hmac = hmac\<lparr>hmac_opad := hmac_pad (0x36 XOR 0x5C) 0x5C key_length block_size ipad (hmac_opad hmac)\<rparr>;
                   (status, ctx) = psa_hash_setup (hmac_hash_ctx hmac) alg
               in if status \<noteq> PSA_SUCCESS then (status, hmac\<lparr>hmac_hash_ctx := ctx\<rparr>, outcomes)
                  else
                    let (status, ctx, outcomes) = psa_hash_update ctx (take block_size ipad) outcomes
                    in (status, hmac\<lparr>hmac_hash_ctx := ctx\<rparr>, outcomes))"

definition psa_hmac_update_internal ::
    "mbedtls_psa_hmac_operation \<Rightarrow> bytes \<Rightarrow> bool list \<Rightarrow> psa_status \<times> mbedtls_psa_hmac_operation \<times> bool list" where
  "psa_hmac_update_internal hmac data outcomes =
    (let (status, ctx, outcomes) = psa_hash_update (hmac_hash_ctx hmac) data outcomes
     in (status, hmac\<lparr>hmac_hash_ctx := ctx\<rparr>, outcomes))"

text \<open>\<open>hash_size\<close> is zero until the first \<open>psa_hash_finish\<close> writes it.\<close>

definition psa_hmac_finish_internal ::
    "mbedtls_psa_hmac_operation \<Rightarrow> bytes \<Rightarrow> nat \<Rightarrow> bool list \<Rightarrow>
     psa_status \<times> mbedtls_psa_hmac_operation \<times> bytes \<times> bool list" where
  "psa_hmac_finish_internal hmac mac mac_size outcomes =
    (let tmp = replicate PSA_HASH_MAX_SIZE 0;
         alg = hmac_alg hmac;
         block_size = PSA_HASH_BLOCK_LENGTH alg;
         (status, ctx, tmp_out, len, outcomes) = psa_hash_finish (hmac_hash_ctx hmac) (Some tmp) PSA_HASH_MAX_SIZE outcomes;
         tmp = contents tmp_out;
         hash_size = (case len of None \<Rightarrow> 0 | Some n \<Rightarrow> n)
     in if status \<noteq> PSA_SUCCESS then (status, hmac\<lparr>hmac_hash_ctx := ctx\<rparr>, mac, outcomes)
        else
          let (status, ctx) = psa_hash_setup ctx alg
          in if status \<noteq> PSA_SUCCESS then (status, hmac\<lparr>hmac_hash_ctx := ctx\<rparr>, mac, outcomes)
             else
               let (status, ctx, outcomes) = psa_hash_update ctx (take block_size (hmac_opad hmac)) outcomes
               in if status \<noteq> PSA_SUCCESS then (status, hmac\<lparr>hmac_hash_ctx := ctx\<rparr>, mac, outcomes)
                  else
                    let (status, ctx, outcomes) = psa_hash_update ctx (take hash_size tmp) outcomes
                    in if status \<noteq> PSA_SUCCESS then (status, hmac\<lparr>hmac_hash_ctx := ctx\<rparr>, mac, outcomes)
                       else
                         let (status, ctx, tmp_out, len, outcomes) = psa_hash_finish ctx (Some tmp) PSA_HASH_MAX_SIZE outcomes
                         in if status \<noteq> PSA_SUCCESS then (status, hmac\<lparr>hmac_hash_ctx := ctx\<rparr>, mac, outcomes)
                            else (status, hmac\<lparr>hmac_hash_ctx := ctx\<rparr>,
                                  take mac_size (contents tmp_out) @ drop mac_size mac, outcomes))"

section \<open>Memory that may run out\<close>

text \<open>A call whose only possible failure is the one of an allocation.\<close>

definition memory_suffices :: "bool list \<Rightarrow> bool" where
  "memory_suffices outcomes \<longleftrightarrow> list_all (\<lambda>b. b) outcomes"

definition only_memory_fails :: "bool list \<Rightarrow> psa_status \<Rightarrow> bool list \<Rightarrow> bool" where
  "only_memory_fails outcomes status outcomes' \<longleftrightarrow>
    (status = PSA_SUCCESS \<or> status = PSA_ERROR_INSUFFICIENT_MEMORY) \<and>
    (memory_suffices outcomes \<longrightarrow> status = PSA_SUCCESS \<and> memory_suffices outcomes')"

lemma memory_calloc: "memory_suffices outcomes \<Longrightarrow> fst (mbedtls_calloc outcomes) \<and> memory_suffices (snd (mbedtls_calloc outcomes))"
  by (cases outcomes) (simp_all add: memory_suffices_def)

lemma only_memory_refl: "only_memory_fails outcomes PSA_SUCCESS outcomes"
  by (simp add: only_memory_fails_def)

lemma only_memory_calloc:
  "only_memory_fails outcomes (if fst (mbedtls_calloc outcomes) then PSA_SUCCESS else PSA_ERROR_INSUFFICIENT_MEMORY)
    (snd (mbedtls_calloc outcomes))"
  using memory_calloc by (auto simp: only_memory_fails_def)

lemma only_memory_trans:
  "only_memory_fails o1 PSA_SUCCESS o2 \<Longrightarrow> only_memory_fails o2 status o3 \<Longrightarrow> only_memory_fails o1 status o3"
  by (auto simp: only_memory_fails_def)

lemma only_memory_cases:
  assumes "only_memory_fails outcomes status outcomes'"
  obtains (ok) "status = PSA_SUCCESS" | (memory) "status = PSA_ERROR_INSUFFICIENT_MEMORY" "\<not> memory_suffices outcomes"
  using assms by (auto simp: only_memory_fails_def)

section \<open>Messages in pieces\<close>

text \<open>
  The interface of an operation that takes a message in pieces: a caller feeds them one by one and
  stops at the first error. The law of the provider is the one of a single piece.
\<close>

fun feed :: "('o \<Rightarrow> bytes \<Rightarrow> bool list \<Rightarrow> psa_status \<times> 'o \<times> bool list) \<Rightarrow> 'o \<Rightarrow> bytes list \<Rightarrow> bool list \<Rightarrow>
    psa_status \<times> 'o \<times> bool list" where
  "feed update operation [] outcomes = (PSA_SUCCESS, operation, outcomes)"
| "feed update operation (input # inputs) outcomes =
    (let (status, operation, outcomes) = update operation input outcomes
     in if status \<noteq> PSA_SUCCESS then (status, operation, outcomes) else feed update operation inputs outcomes)"

locale message_stream =
  fixes absorbing :: "'o \<Rightarrow> bytes \<Rightarrow> bool"
    and update :: "'o \<Rightarrow> bytes \<Rightarrow> bool list \<Rightarrow> psa_status \<times> 'o \<times> bool list"
  assumes update_piece: "absorbing operation m \<Longrightarrow> length input < 2 ^ 32 \<Longrightarrow>
    \<exists>status operation' outcomes'. update operation input outcomes = (status, operation', outcomes') \<and>
      only_memory_fails outcomes status outcomes' \<and> (status = PSA_SUCCESS \<longrightarrow> absorbing operation' (m @ input))"
begin

lemma feed_pieces:
  "absorbing operation m \<Longrightarrow> \<forall>c\<in>set inputs. length c < 2 ^ 32 \<Longrightarrow>
    \<exists>status operation' outcomes'. feed update operation inputs outcomes = (status, operation', outcomes') \<and>
      only_memory_fails outcomes status outcomes' \<and> (status = PSA_SUCCESS \<longrightarrow> absorbing operation' (m @ concat inputs))"
proof (induction inputs arbitrary: operation m outcomes)
  case Nil
  then show ?case by (simp add: only_memory_refl)
next
  case (Cons c cs)
  have "length c < 2 ^ 32" using Cons.prems(2) by simp
  from update_piece [OF Cons.prems(1) this, of outcomes] obtain st op1 oc1 where
    1: "update operation c outcomes = (st, op1, oc1)" "only_memory_fails outcomes st oc1" "st = PSA_SUCCESS \<longrightarrow> absorbing op1 (m @ c)"
    by blast
  show ?case
  proof (cases "st = PSA_SUCCESS")
    case False
    with 1 show ?thesis by simp
  next
    case True
    with 1(3) have "absorbing op1 (m @ c)" by simp
    from Cons.IH [OF this, of oc1] Cons.prems(2) obtain st2 op2 oc2 where
      2: "feed update op1 cs oc1 = (st2, op2, oc2)" "only_memory_fails oc1 st2 oc2"
        "st2 = PSA_SUCCESS \<longrightarrow> absorbing op2 (m @ c @ concat cs)" by auto
    with 1(1) True only_memory_trans [OF 1(2) [unfolded True] 2(2)] show ?thesis by simp
  qed
qed

end

section \<open>The hash functions as calls that may run out of memory\<close>

lemma hash_update_step:
  assumes "hash_active alg m operation" "length input < 2 ^ 32"
  obtains status operation' outcomes' where "psa_hash_update operation input outcomes = (status, operation', outcomes')"
    "only_memory_fails outcomes status outcomes'" "status = PSA_SUCCESS \<longrightarrow> hash_active alg (m @ input) operation'"
    "hash_operation_typed operation'"
proof -
  have id: "hash_id operation \<noteq> 0" using assms(1) by (simp add: hash_active_def)
  from api_update [OF assms, of outcomes] active_typed assms(1) show thesis
  proof (cases "input = []")
    case True
    then show thesis
      using id assms(1) active_typed
      by (intro that [of PSA_SUCCESS operation outcomes]) (auto simp: psa_hash_update_def intro: only_memory_refl)
  next
    case False
    let ?ok = "fst (mbedtls_calloc outcomes)"
    from api_update [OF assms, of outcomes] False obtain op1 oc1 where
      u: "psa_hash_update operation input outcomes = (if ?ok then PSA_SUCCESS else PSA_ERROR_INSUFFICIENT_MEMORY, op1, oc1)"
        "?ok \<longrightarrow> hash_active alg (m @ input) op1" "\<not> ?ok \<longrightarrow> hash_id op1 = 0" by (auto split: if_splits)
    have "oc1 = snd (mbedtls_calloc outcomes)"
      using u(1) False id by (auto simp: psa_hash_update_def local_input_alloc_eq split_def Let_def split: if_splits)
    then show thesis using u active_typed only_memory_calloc [of outcomes]
      by (intro that [OF u(1)]) (auto split: if_splits intro: inactive_typed)
  qed
qed

interpretation hash_pieces: message_stream "\<lambda>operation m. hash_active alg m operation" psa_hash_update for alg
proof
  fix operation m input outcomes
  assume a: "hash_active alg m operation" "length (input :: bytes) < 2 ^ 32"
  show "\<exists>status operation' outcomes'. psa_hash_update operation input outcomes = (status, operation', outcomes') \<and>
      only_memory_fails outcomes status outcomes' \<and> (status = PSA_SUCCESS \<longrightarrow> hash_active alg (m @ input) operation')"
    by (rule hash_update_step [OF a, of outcomes]) blast
qed

lemma hash_finish_step:
  assumes "hash_active alg m operation" "PSA_HASH_LENGTH alg \<le> length out"
  obtains status operation' out' len outcomes' where
    "psa_hash_finish operation (Some out) (length out) outcomes = (status, operation', out', len, outcomes')"
    "only_memory_fails outcomes status outcomes'" "hash_operation_typed operation'"
    "status = PSA_SUCCESS \<longrightarrow> hash_id operation' = 0 \<and> len = Some (PSA_HASH_LENGTH alg) \<and>
       out' = Some (hash_standard alg m @ replicate (length out - PSA_HASH_LENGTH alg) 0x21)"
  using finish_active [OF assms, of outcomes] only_memory_calloc [of outcomes] active_typed [OF assms(1)]
  by (cases "fst (mbedtls_calloc outcomes)") (auto intro: that inactive_typed)

lemma hash_compute_step:
  assumes "is_hash_supported alg" "length input < 2 ^ 32" "PSA_HASH_LENGTH alg \<le> length out" "input \<noteq> []"
  obtains status out' len outcomes' where
    "psa_hash_compute alg input (Some out) (length out) outcomes = (status, out', len, outcomes')"
    "only_memory_fails outcomes status outcomes'"
    "status = PSA_SUCCESS \<longrightarrow> len = PSA_HASH_LENGTH alg \<and>
       out' = Some (hash_standard alg input @ replicate (length out - PSA_HASH_LENGTH alg) 0x21)"
proof -
  let ?d = "hash_standard alg input @ replicate (length out - PSA_HASH_LENGTH alg) 0x21"
  have n: "length out \<noteq> 0" using supported_length [OF assms(1)] assms(3) by auto
  have c: "mbedtls_psa_hash_compute alg input (replicate (length out) 0) (length out) = (PSA_SUCCESS, ?d, PSA_HASH_LENGTH alg)"
    and l: "length ?d = length out"
    using driver_compute [OF assms(1,2), of "replicate (length out) 0"] assms(3) by simp_all
  let ?o1 = "snd (mbedtls_calloc outcomes)"
  consider "\<not> fst (mbedtls_calloc outcomes)" | "fst (mbedtls_calloc outcomes)" "\<not> fst (mbedtls_calloc ?o1)"
    | "fst (mbedtls_calloc outcomes)" "fst (mbedtls_calloc ?o1)" by blast
  then show thesis
  proof cases
    case 1
    then have "psa_hash_compute alg input (Some out) (length out) outcomes = (PSA_ERROR_INSUFFICIENT_MEMORY, Some out, 0, ?o1)"
      using assms(4) supported_is_hash [OF assms(1)]
      by (simp add: psa_hash_compute_def local_input_alloc_eq LOCAL_OUTPUT_FREE_def psa_crypto_local_output_free_def PSA_CRYPTO_LOCAL_OUTPUT_INIT_def)
    from that [OF this] only_memory_calloc [of outcomes] 1 show thesis by simp
  next
    case 2
    then have "psa_hash_compute alg input (Some out) (length out) outcomes =
        (PSA_ERROR_INSUFFICIENT_MEMORY, Some out, 0, snd (mbedtls_calloc ?o1))"
      using assms(4) supported_is_hash [OF assms(1)] n
      by (simp add: psa_hash_compute_def local_input_alloc_eq local_output_alloc_eq LOCAL_OUTPUT_FREE_def psa_crypto_local_output_free_def
          PSA_CRYPTO_LOCAL_OUTPUT_INIT_def)
    from that [OF this] only_memory_trans [OF _ only_memory_calloc [of ?o1]] only_memory_calloc [of outcomes] 2 show thesis by simp
  next
    case 3
    then have "psa_hash_compute alg input (Some out) (length out) outcomes =
        (PSA_SUCCESS, Some ?d, PSA_HASH_LENGTH alg, snd (mbedtls_calloc ?o1))"
      using assms(4) supported_is_hash [OF assms(1)] n c local_output_free_copy [OF l, unfolded l]
      by (simp add: psa_hash_compute_def psa_driver_wrapper_hash_compute_def local_input_alloc_eq local_output_alloc_eq)
    from that [OF this] only_memory_trans [OF _ only_memory_calloc [of ?o1]] only_memory_calloc [of outcomes] 3 show thesis by simp
  qed
qed

section \<open>HMAC computes what RFC 2104 defines\<close>

definition hmac_key_block :: "psa_algorithm \<Rightarrow> bytes \<Rightarrow> bytes" where
  "hmac_key_block alg key =
    (let k = (if length key > PSA_HASH_BLOCK_LENGTH alg then hash_standard alg key else key)
     in k @ replicate (PSA_HASH_BLOCK_LENGTH alg - length k) 0)"

definition hmac_standard :: "psa_algorithm \<Rightarrow> bytes \<Rightarrow> bytes \<Rightarrow> bytes" where
  "hmac_standard alg key m =
    hash_standard alg (map (\<lambda>b. b XOR 0x5C) (hmac_key_block alg key) @
      hash_standard alg (map (\<lambda>b. b XOR 0x36) (hmac_key_block alg key) @ m))"

text \<open>The operation has absorbed a message under a key.\<close>

definition hmac_absorbing :: "psa_algorithm \<Rightarrow> bytes \<Rightarrow> bytes \<Rightarrow> mbedtls_psa_hmac_operation \<Rightarrow> bool" where
  "hmac_absorbing alg key m hmac \<longleftrightarrow> hmac_alg hmac = alg \<and> length (hmac_opad hmac) = PSA_HMAC_MAX_HASH_BLOCK_SIZE \<and>
     hash_active alg (map (\<lambda>b. b XOR 0x36) (hmac_key_block alg key) @ m) (hmac_hash_ctx hmac) \<and>
     take (PSA_HASH_BLOCK_LENGTH alg) (hmac_opad hmac) = map (\<lambda>b. b XOR 0x5C) (hmac_key_block alg key)"

lemma block_lengths: "is_hash_supported alg \<Longrightarrow> PSA_HASH_LENGTH alg \<le> PSA_HASH_BLOCK_LENGTH alg \<and>
    0 < PSA_HASH_BLOCK_LENGTH alg \<and> PSA_HASH_BLOCK_LENGTH alg \<le> PSA_HMAC_MAX_HASH_BLOCK_SIZE \<and> PSA_ALG_HMAC_GET_HASH alg = alg"
  by (auto simp: is_hash_supported_def hash_lengths PSA_HASH_BLOCK_LENGTH_def PSA_ALG_HMAC_GET_HASH_def)

lemma hmac_pads:
  assumes "take n ipad = k" "length k = n" "n \<le> b" "b \<le> 144" "length ipad = 144" "length opad = 144"
  shows "take b (hmac_pad 0x36 0x36 n b ipad ipad) = map (\<lambda>x. x XOR 0x36) (k @ replicate (b - n) 0)"
    "take b (hmac_pad (0x36 XOR 0x5C) 0x5C n b (hmac_pad 0x36 0x36 n b ipad ipad) opad) = map (\<lambda>x. x XOR 0x5C) (k @ replicate (b - n) 0)"
    "length (hmac_pad (0x36 XOR 0x5C) 0x5C n b (hmac_pad 0x36 0x36 n b ipad ipad) opad) = 144"
proof -
  have twice: "(x XOR 54) XOR 106 = x XOR 92" for x :: u8 by (simp add: xor.assoc)
  have i: "hmac_pad 0x36 0x36 n b ipad ipad = map (\<lambda>x. x XOR 0x36) k @ replicate (b - n) 0x36 @ drop b ipad"
    by (simp add: hmac_pad_def assms(1))
  have o: "hmac_pad (0x36 XOR 0x5C) 0x5C n b (hmac_pad 0x36 0x36 n b ipad ipad) opad =
      map (\<lambda>x. x XOR 0x5C) k @ replicate (b - n) 0x5C @ drop b opad"
    unfolding i unfolding hmac_pad_def using assms(2) by (simp add: twice comp_def)
  show "take b (hmac_pad 0x36 0x36 n b ipad ipad) = map (\<lambda>x. x XOR 0x36) (k @ replicate (b - n) 0)"
    unfolding i using assms by simp
  show "take b (hmac_pad (0x36 XOR 0x5C) 0x5C n b (hmac_pad 0x36 0x36 n b ipad ipad) opad) =
      map (\<lambda>x. x XOR 0x5C) (k @ replicate (b - n) 0)"
    unfolding o using assms by simp
  show "length (hmac_pad (0x36 XOR 0x5C) 0x5C n b (hmac_pad 0x36 0x36 n b ipad ipad) opad) = 144"
    unfolding o using assms by simp
qed

text \<open>The key or its hash, in the first bytes of the buffer.\<close>

lemma hmac_short_key:
  assumes "is_hash_supported alg" "length key < 2 ^ 32"
  obtains status ipad n outcomes' where
    "(if length key > PSA_HASH_BLOCK_LENGTH alg
      then (let (status, ipad_out, key_length, outcomes) = psa_hash_compute alg key (Some (replicate 144 0)) 144 outcomes
            in (status, contents ipad_out, key_length, outcomes))
      else (PSA_SUCCESS, key @ drop (length key) (replicate 144 0), length key, outcomes)) = (status, ipad, n, outcomes')"
    "only_memory_fails outcomes status outcomes'"
    "status = PSA_SUCCESS \<longrightarrow> length ipad = 144 \<and> n \<le> PSA_HASH_BLOCK_LENGTH alg \<and> length (take n ipad) = n \<and>
       hmac_key_block alg key = take n ipad @ replicate (PSA_HASH_BLOCK_LENGTH alg - n) 0"
proof (cases "length key > PSA_HASH_BLOCK_LENGTH alg")
  case False
  then show thesis using block_lengths [OF assms(1)]
    by (intro that [of PSA_SUCCESS "key @ drop (length key) (replicate 144 0)" "length key" outcomes])
      (simp_all add: hmac_key_block_def only_memory_refl)
next
  case True
  note l = supported_length [OF assms(1)] block_lengths [OF assms(1)]
  have "PSA_HASH_LENGTH alg \<le> 144" "key \<noteq> []" using l True by auto
  then obtain status out' len outcomes' where
    c: "psa_hash_compute alg key (Some (replicate 144 0)) 144 outcomes = (status, out', len, outcomes')"
      "only_memory_fails outcomes status outcomes'"
      "status = PSA_SUCCESS \<longrightarrow> len = PSA_HASH_LENGTH alg \<and> out' = Some (hash_standard alg key @ replicate (144 - PSA_HASH_LENGTH alg) 0x21)"
    using hash_compute_step [OF assms, of "replicate 144 0" outcomes, unfolded length_replicate] by blast
  have "length (hash_standard alg key) = PSA_HASH_LENGTH alg"
    using driver_compute [OF assms, of "replicate 144 0"] l by simp
  then show thesis using c l True
    by (intro that [of status "contents out'" len outcomes']) (auto simp: hmac_key_block_def)
qed

lemma hmac_setup_step:
  assumes "is_hash_supported alg" "hash_id (hmac_hash_ctx h) = 0" "length (hmac_opad h) = 144" "length key < 2 ^ 32"
  obtains status h' outcomes' where "psa_hmac_setup_internal h key alg outcomes = (status, h', outcomes')"
    "only_memory_fails outcomes status outcomes'" "status = PSA_SUCCESS \<longrightarrow> hmac_absorbing alg key [] h'"
    "hash_operation_typed (hmac_hash_ctx h')"
proof -
  note l = block_lengths [OF assms(1)]
  obtain st1 ipad n oc1 where k: "(if length key > PSA_HASH_BLOCK_LENGTH alg
      then (let (status, ipad_out, key_length, outcomes) = psa_hash_compute alg key (Some (replicate 144 0)) 144 outcomes
            in (status, contents ipad_out, key_length, outcomes))
      else (PSA_SUCCESS, key @ drop (length key) (replicate 144 0), length key, outcomes)) = (st1, ipad, n, oc1)"
    "only_memory_fails outcomes st1 oc1"
    "st1 = PSA_SUCCESS \<longrightarrow> length ipad = 144 \<and> n \<le> PSA_HASH_BLOCK_LENGTH alg \<and> length (take n ipad) = n \<and>
       hmac_key_block alg key = take n ipad @ replicate (PSA_HASH_BLOCK_LENGTH alg - n) 0"
    using hmac_short_key [OF assms(1,4), of outcomes] by blast
  let ?h = "h\<lparr>hmac_alg := alg\<rparr>" and ?ipad = "hmac_pad 0x36 0x36 n (PSA_HASH_BLOCK_LENGTH alg) ipad ipad"
  let ?opad = "hmac_pad (0x36 XOR 0x5C) 0x5C n (PSA_HASH_BLOCK_LENGTH alg) ?ipad (hmac_opad h)"
  obtain ctx where ctx: "psa_hash_setup (hmac_hash_ctx h) alg = (PSA_SUCCESS, ctx)" "hash_active alg [] ctx"
    by (rule api_setup [OF assms(1,2)])
  have e: "psa_hmac_setup_internal h key alg outcomes =
      (if st1 \<noteq> PSA_SUCCESS then (st1, ?h, oc1)
       else let (status, ctx, outcomes) = psa_hash_update ctx (take (PSA_HASH_BLOCK_LENGTH alg) ?ipad) oc1
            in (status, ?h\<lparr>hmac_opad := ?opad, hmac_hash_ctx := ctx\<rparr>, outcomes))"
    using l assms(3) ctx(1) unfolding psa_hmac_setup_internal_def length_replicate Let_def k(1) [unfolded Let_def] by simp
  show thesis
  proof (cases "st1 = PSA_SUCCESS")
    case False
    with e k(2) assms(2) that [of st1 ?h oc1] inactive_typed show thesis by simp
  next
    case True
    note p = hmac_pads [of n ipad "take n ipad" "PSA_HASH_BLOCK_LENGTH alg" "hmac_opad h"]
    have i: "take (PSA_HASH_BLOCK_LENGTH alg) ?ipad = map (\<lambda>b. b XOR 0x36) (hmac_key_block alg key)"
      and o: "take (PSA_HASH_BLOCK_LENGTH alg) ?opad = map (\<lambda>b. b XOR 0x5C) (hmac_key_block alg key)" "length ?opad = 144"
      using p k(3) True l assms(3) by simp_all
    have "length (take (PSA_HASH_BLOCK_LENGTH alg) ?ipad) < 2 ^ 32" using l by (simp add: min_def)
    from hash_update_step [OF ctx(2) this, of oc1] obtain st2 ctx2 oc2 where
      u: "psa_hash_update ctx (take (PSA_HASH_BLOCK_LENGTH alg) ?ipad) oc1 = (st2, ctx2, oc2)" "only_memory_fails oc1 st2 oc2"
        "st2 = PSA_SUCCESS \<longrightarrow> hash_active alg (take (PSA_HASH_BLOCK_LENGTH alg) ?ipad) ctx2" "hash_operation_typed ctx2" by auto
    show thesis
      by (rule that [of st2 "?h\<lparr>hmac_opad := ?opad, hmac_hash_ctx := ctx2\<rparr>" oc2])
        (use e u True i o only_memory_trans [OF k(2) [unfolded True] u(2)] in \<open>simp_all add: hmac_absorbing_def\<close>)
  qed
qed

lemma hmac_update_step:
  assumes "hmac_absorbing alg key m h" "length input < 2 ^ 32"
  obtains status h' outcomes' where "psa_hmac_update_internal h input outcomes = (status, h', outcomes')"
    "only_memory_fails outcomes status outcomes'" "status = PSA_SUCCESS \<longrightarrow> hmac_absorbing alg key (m @ input) h'"
    "hash_operation_typed (hmac_hash_ctx h')"
proof -
  from assms(1) have a: "hash_active alg (map (\<lambda>b. b XOR 0x36) (hmac_key_block alg key) @ m) (hmac_hash_ctx h)"
    by (simp add: hmac_absorbing_def)
  from hash_update_step [OF a assms(2), of outcomes] obtain st ctx oc where
    "psa_hash_update (hmac_hash_ctx h) input outcomes = (st, ctx, oc)" "only_memory_fails outcomes st oc"
    "st = PSA_SUCCESS \<longrightarrow> hash_active alg (map (\<lambda>b. b XOR 0x36) (hmac_key_block alg key) @ m @ input) ctx" "hash_operation_typed ctx"
    by auto
  then show thesis using assms(1)
    by (intro that [of st "h\<lparr>hmac_hash_ctx := ctx\<rparr>" oc]) (simp_all add: psa_hmac_update_internal_def hmac_absorbing_def)
qed

lemma active_digest_length:
  assumes "hash_active alg m operation" shows "length (hash_standard alg m) = PSA_HASH_LENGTH alg"
proof -
  have "PSA_HASH_LENGTH alg \<le> length (replicate 64 (0 :: u8))" using supported_length [OF active_supported [OF assms]] by simp
  from api_finish_internal [OF assms this] show ?thesis by blast
qed

lemma hmac_finish_step:
  assumes "hmac_absorbing alg key m h" "n \<le> PSA_HASH_LENGTH alg"
  obtains status h' mac' outcomes' where "psa_hmac_finish_internal h mac n outcomes = (status, h', mac', outcomes')"
    "only_memory_fails outcomes status outcomes'" "hash_operation_typed (hmac_hash_ctx h')"
    "mac' = (if status = PSA_SUCCESS then take n (hmac_standard alg key m) @ drop n mac else mac)"
proof -
  let ?B = "PSA_HASH_BLOCK_LENGTH alg" and ?L = "PSA_HASH_LENGTH alg"
  let ?inner = "map (\<lambda>b. b XOR 0x36) (hmac_key_block alg key) @ m"
  let ?outer = "map (\<lambda>b. b XOR 0x5C) (hmac_key_block alg key)"
  from assms(1) have h: "hmac_alg h = alg" "hash_active alg ?inner (hmac_hash_ctx h)" "take ?B (hmac_opad h) = ?outer"
    by (simp_all add: hmac_absorbing_def)
  note sup = active_supported [OF h(2)]
  note l = supported_length [OF sup] block_lengths [OF sup]
  note digest = active_digest_length [OF h(2)]
  have ol: "length (take ?B (hmac_opad h)) < 2 ^ 32" using l by (simp add: min_def)
  define tmp1 where "tmp1 = hash_standard alg ?inner @ replicate (64 - ?L) 0x21"
  have tmp1: "length tmp1 = 64" "take ?L tmp1 = hash_standard alg ?inner" "length (take ?L tmp1) < 2 ^ 32"
    using digest l by (simp_all add: tmp1_def min_def)
  obtain st1 c1 o1 n1 oc1 where
    1: "psa_hash_finish (hmac_hash_ctx h) (Some (replicate 64 0)) 64 outcomes = (st1, c1, o1, n1, oc1)"
      "only_memory_fails outcomes st1 oc1" "hash_operation_typed c1"
      "st1 = PSA_SUCCESS \<longrightarrow> hash_id c1 = 0 \<and> n1 = Some ?L \<and> o1 = Some tmp1"
    using hash_finish_step [OF h(2), of "replicate 64 0" outcomes] l unfolding length_replicate tmp1_def by blast
  show thesis
  proof (cases "st1 = PSA_SUCCESS")
    case False
    then show thesis using 1 h by (intro that [of st1 "h\<lparr>hmac_hash_ctx := c1\<rparr>" mac oc1]) (simp_all add: psa_hmac_finish_internal_def)
  next
    case s1: True
    with 1(4) have r1: "hash_id c1 = 0" "n1 = Some ?L" "o1 = Some tmp1" by simp_all
    obtain c2 where 2: "psa_hash_setup c1 alg = (PSA_SUCCESS, c2)" "hash_active alg [] c2" by (rule api_setup [OF sup r1(1)])
    obtain st3 c3 oc3 where 3: "psa_hash_update c2 (take ?B (hmac_opad h)) oc1 = (st3, c3, oc3)" "only_memory_fails oc1 st3 oc3"
        "st3 = PSA_SUCCESS \<longrightarrow> hash_active alg ([] @ take ?B (hmac_opad h)) c3" "hash_operation_typed c3"
      using hash_update_step [OF 2(2) ol, of oc1] by blast
    note m3 = only_memory_trans [OF 1(2) [unfolded s1] 3(2)]
    show thesis
    proof (cases "st3 = PSA_SUCCESS")
      case False
      then show thesis using 1 2 3 h r1 s1 m3
        by (intro that [of st3 "h\<lparr>hmac_hash_ctx := c3\<rparr>" mac oc3]) (simp_all add: psa_hmac_finish_internal_def)
    next
      case s3: True
      with 3(3) h(3) have a3: "hash_active alg ?outer c3" by simp
      obtain st4 c4 oc4 where 4: "psa_hash_update c3 (take ?L tmp1) oc3 = (st4, c4, oc4)" "only_memory_fails oc3 st4 oc4"
          "st4 = PSA_SUCCESS \<longrightarrow> hash_active alg (?outer @ take ?L tmp1) c4" "hash_operation_typed c4"
        using hash_update_step [OF a3 tmp1(3), of oc3] by blast
      note m4 = only_memory_trans [OF m3 [unfolded s3] 4(2)]
      show thesis
      proof (cases "st4 = PSA_SUCCESS")
        case False
        then show thesis using 1 2 3 4 h r1 s1 s3 m4
          by (intro that [of st4 "h\<lparr>hmac_hash_ctx := c4\<rparr>" mac oc4]) (simp_all add: psa_hmac_finish_internal_def)
      next
        case s4: True
        with 4(3) have a4: "hash_active alg (?outer @ hash_standard alg ?inner) c4" by (simp add: tmp1)
        have std: "hash_standard alg (?outer @ hash_standard alg ?inner) = hmac_standard alg key m" by (simp add: hmac_standard_def)
        obtain st5 c5 o5 n5 oc5 where 5: "psa_hash_finish c4 (Some tmp1) 64 oc4 = (st5, c5, o5, n5, oc5)"
            "only_memory_fails oc4 st5 oc5" "hash_operation_typed c5"
            "st5 = PSA_SUCCESS \<longrightarrow> hash_id c5 = 0 \<and> n5 = Some ?L \<and> o5 = Some (hmac_standard alg key m @ replicate (64 - ?L) 0x21)"
        proof -
          have "?L \<le> length tmp1" using l(1) tmp1(1) by simp
          from hash_finish_step [OF a4 this, of oc4, unfolded tmp1(1) std] that show thesis by metis
        qed
        have len: "length (hmac_standard alg key m) = ?L" using active_digest_length [OF a4] unfolding std .
        have out: "psa_hmac_finish_internal h mac n outcomes = (st5, h\<lparr>hmac_hash_ctx := c5\<rparr>,
            if st5 \<noteq> PSA_SUCCESS then mac else take n (contents o5) @ drop n mac, oc5)"
          by (simp add: psa_hmac_finish_internal_def h(1) 1(1) 2(1) 3(1) 4(1) 5(1) r1 s1 s3 s4)
        have "take n (contents o5) = take n (hmac_standard alg key m)" if "st5 = PSA_SUCCESS"
          using 5(4) that assms(2) len by simp
        then show thesis
          by (intro that [OF out only_memory_trans [OF m4 [unfolded s4] 5(2)]]) (simp_all add: 5(3))
      qed
    qed
  qed
qed

lemma hmac_abort_step:
  "hash_operation_typed (hmac_hash_ctx h) \<Longrightarrow>
    fst (psa_hmac_abort_internal h) = PSA_SUCCESS \<and> hash_id (hmac_hash_ctx (snd (psa_hmac_abort_internal h))) = 0"
  using api_abort [of "hmac_hash_ctx h"] by (simp add: psa_hmac_abort_internal_def split_def Let_def)

end
