(* ===== verification/Mac_Driver.thy ===== *)
theory Mac_Driver
  imports Hmac_Driver Key_Lifecycle
begin

text \<open>
  The built-in MAC driver, drivers/builtin/src/psa_crypto_mac.c: an operation holds the algorithm and
  a union of the HMAC operation and of the cipher context that CMAC works on. The cipher layer below
  CMAC (cipher.c and cmac.c) is a parameter: the functions of it that the driver calls.
\<close>

section \<open>The operation\<close>

record ('i, 'c) cmac_cipher =
  cipher_info_from_psa :: "psa_algorithm \<Rightarrow> psa_key_type \<Rightarrow> nat \<Rightarrow> 'i option"
  cipher_init :: 'c
  cipher_setup :: "'c \<Rightarrow> 'i \<Rightarrow> int \<times> 'c"
  cipher_cmac_starts :: "'c \<Rightarrow> bytes \<Rightarrow> nat \<Rightarrow> int \<times> 'c"
  cipher_cmac_update :: "'c \<Rightarrow> bytes \<Rightarrow> int \<times> 'c"
  cipher_cmac_finish :: "'c \<Rightarrow> int \<times> 'c \<times> bytes"
  cipher_free :: "'c \<Rightarrow> 'c"

datatype 'c mac_context_union =
    Mac_zero
  | Mac_hmac mbedtls_psa_hmac_operation
  | Mac_cmac 'c

record 'c mbedtls_psa_mac_operation =
  mac_alg :: psa_algorithm
  mac_ctx :: "'c mac_context_union"

definition MBEDTLS_PSA_MAC_OPERATION_INIT :: "'c mbedtls_psa_mac_operation" where
  "MBEDTLS_PSA_MAC_OPERATION_INIT = \<lparr>mac_alg = 0, mac_ctx = Mac_zero\<rparr>"

definition ctx_hmac :: "'c mbedtls_psa_mac_operation \<Rightarrow> mbedtls_psa_hmac_operation" where
  "ctx_hmac operation = (case mac_ctx operation of Mac_hmac h \<Rightarrow> h | _ \<Rightarrow> MBEDTLS_PSA_HMAC_OPERATION_INIT)"

definition ctx_cmac :: "('i, 'c) cmac_cipher \<Rightarrow> 'c mbedtls_psa_mac_operation \<Rightarrow> 'c" where
  "ctx_cmac cm operation = (case mac_ctx operation of Mac_cmac c \<Rightarrow> c | _ \<Rightarrow> cipher_init cm)"

section \<open>The operations of the driver\<close>

definition cmac_setup ::
    "('i, 'c) cmac_cipher \<Rightarrow> 'c mbedtls_psa_mac_operation \<Rightarrow> psa_key_attributes \<Rightarrow> bytes \<Rightarrow>
     psa_status \<times> 'c mbedtls_psa_mac_operation" where
  "cmac_setup cm operation attributes key_buffer =
    (case cipher_info_from_psa cm PSA_ALG_CMAC (attr_type attributes) (unat (attr_bits attributes)) of
       None \<Rightarrow> (PSA_ERROR_NOT_SUPPORTED, operation)
     | Some cipher_info \<Rightarrow>
         let (ret, c) = cipher_setup cm (ctx_cmac cm operation) cipher_info;
             (ret, c) = (if ret \<noteq> 0 then (ret, c) else cipher_cmac_starts cm c key_buffer (unat (attr_bits attributes)))
         in (mbedtls_to_psa_error ret, operation\<lparr>mac_ctx := Mac_cmac c\<rparr>))"

definition mac_init ::
    "('i, 'c) cmac_cipher \<Rightarrow> 'c mbedtls_psa_mac_operation \<Rightarrow> psa_algorithm \<Rightarrow> psa_status \<times> 'c mbedtls_psa_mac_operation" where
  "mac_init cm operation alg =
    (let operation = operation\<lparr>mac_alg := alg\<rparr>
     in if PSA_ALG_FULL_LENGTH_MAC alg = PSA_ALG_CMAC
        then (PSA_SUCCESS, operation\<lparr>mac_ctx := Mac_cmac (cipher_init cm)\<rparr>)
        else if PSA_ALG_IS_HMAC alg
        then (PSA_SUCCESS, operation\<lparr>mac_ctx := Mac_hmac ((ctx_hmac operation)\<lparr>hmac_alg := 0\<rparr>)\<rparr>)
        else (PSA_ERROR_NOT_SUPPORTED, MBEDTLS_PSA_MAC_OPERATION_INIT))"

definition mbedtls_psa_mac_abort ::
    "('i, 'c) cmac_cipher \<Rightarrow> 'c mbedtls_psa_mac_operation \<Rightarrow> psa_status \<times> 'c mbedtls_psa_mac_operation" where
  "mbedtls_psa_mac_abort cm operation =
    (if mac_alg operation = 0 then (PSA_SUCCESS, operation)
     else if PSA_ALG_FULL_LENGTH_MAC (mac_alg operation) = PSA_ALG_CMAC
     then (PSA_SUCCESS, operation\<lparr>mac_ctx := Mac_cmac (cipher_free cm (ctx_cmac cm operation)), mac_alg := 0\<rparr>)
     else if PSA_ALG_IS_HMAC (mac_alg operation)
     then (PSA_SUCCESS, operation\<lparr>mac_ctx := Mac_hmac (snd (psa_hmac_abort_internal (ctx_hmac operation))), mac_alg := 0\<rparr>)
     else (PSA_ERROR_BAD_STATE, MBEDTLS_PSA_MAC_OPERATION_INIT))"

definition driver_psa_mac_setup ::
    "('i, 'c) cmac_cipher \<Rightarrow> 'c mbedtls_psa_mac_operation \<Rightarrow> psa_key_attributes \<Rightarrow> bytes \<Rightarrow> psa_algorithm \<Rightarrow> bool list \<Rightarrow>
     psa_status \<times> 'c mbedtls_psa_mac_operation \<times> bool list" where
  "driver_psa_mac_setup cm operation attributes key_buffer alg outcomes =
    (if mac_alg operation \<noteq> 0 then (PSA_ERROR_BAD_STATE, operation, outcomes)
     else
       let (status, operation) = mac_init cm operation alg
       in if status \<noteq> PSA_SUCCESS then (status, operation, outcomes)
          else
            let (status, operation, outcomes) =
                  (if PSA_ALG_FULL_LENGTH_MAC alg = PSA_ALG_CMAC
                   then (let (status, operation) = cmac_setup cm operation attributes key_buffer in (status, operation, outcomes))
                   else if PSA_ALG_IS_HMAC alg
                   then (let (status, h, outcomes) =
                               psa_hmac_setup_internal (ctx_hmac operation) key_buffer (PSA_ALG_HMAC_GET_HASH alg) outcomes
                         in (status, operation\<lparr>mac_ctx := Mac_hmac h\<rparr>, outcomes))
                   else (PSA_ERROR_NOT_SUPPORTED, operation, outcomes))
            in (status, if status \<noteq> PSA_SUCCESS then snd (mbedtls_psa_mac_abort cm operation) else operation, outcomes))"

definition mbedtls_psa_mac_sign_setup ::
    "('i, 'c) cmac_cipher \<Rightarrow> 'c mbedtls_psa_mac_operation \<Rightarrow> psa_key_attributes \<Rightarrow> bytes \<Rightarrow> psa_algorithm \<Rightarrow> bool list \<Rightarrow>
     psa_status \<times> 'c mbedtls_psa_mac_operation \<times> bool list" where
  "mbedtls_psa_mac_sign_setup cm operation attributes key_buffer alg outcomes =
    driver_psa_mac_setup cm operation attributes key_buffer alg outcomes"

definition mbedtls_psa_mac_verify_setup ::
    "('i, 'c) cmac_cipher \<Rightarrow> 'c mbedtls_psa_mac_operation \<Rightarrow> psa_key_attributes \<Rightarrow> bytes \<Rightarrow> psa_algorithm \<Rightarrow> bool list \<Rightarrow>
     psa_status \<times> 'c mbedtls_psa_mac_operation \<times> bool list" where
  "mbedtls_psa_mac_verify_setup cm operation attributes key_buffer alg outcomes =
    driver_psa_mac_setup cm operation attributes key_buffer alg outcomes"

definition mbedtls_psa_mac_update ::
    "('i, 'c) cmac_cipher \<Rightarrow> 'c mbedtls_psa_mac_operation \<Rightarrow> bytes \<Rightarrow> bool list \<Rightarrow>
     psa_status \<times> 'c mbedtls_psa_mac_operation \<times> bool list" where
  "mbedtls_psa_mac_update cm operation input outcomes =
    (if mac_alg operation = 0 then (PSA_ERROR_BAD_STATE, operation, outcomes)
     else if PSA_ALG_FULL_LENGTH_MAC (mac_alg operation) = PSA_ALG_CMAC
     then (let (ret, c) = cipher_cmac_update cm (ctx_cmac cm operation) input
           in (mbedtls_to_psa_error ret, operation\<lparr>mac_ctx := Mac_cmac c\<rparr>, outcomes))
     else if PSA_ALG_IS_HMAC (mac_alg operation)
     then (let (status, h, outcomes) = psa_hmac_update_internal (ctx_hmac operation) input outcomes
           in (status, operation\<lparr>mac_ctx := Mac_hmac h\<rparr>, outcomes))
     else (PSA_ERROR_BAD_STATE, operation, outcomes))"

definition psa_mac_finish_internal ::
    "('i, 'c) cmac_cipher \<Rightarrow> 'c mbedtls_psa_mac_operation \<Rightarrow> bytes \<Rightarrow> nat \<Rightarrow> bool list \<Rightarrow>
     psa_status \<times> 'c mbedtls_psa_mac_operation \<times> bytes \<times> bool list" where
  "psa_mac_finish_internal cm operation mac mac_size outcomes =
    (if PSA_ALG_FULL_LENGTH_MAC (mac_alg operation) = PSA_ALG_CMAC
     then (let (ret, c, tmp) = cipher_cmac_finish cm (ctx_cmac cm operation);
               mac = (if ret = 0 then take mac_size tmp @ drop mac_size mac else mac)
           in (mbedtls_to_psa_error ret, operation\<lparr>mac_ctx := Mac_cmac c\<rparr>, mac, outcomes))
     else if PSA_ALG_IS_HMAC (mac_alg operation)
     then (let (status, h, mac, outcomes) = psa_hmac_finish_internal (ctx_hmac operation) mac mac_size outcomes
           in (status, operation\<lparr>mac_ctx := Mac_hmac h\<rparr>, mac, outcomes))
     else (PSA_ERROR_BAD_STATE, operation, mac, outcomes))"

text \<open>An output that a call does not write is \<open>None\<close>.\<close>

definition mbedtls_psa_mac_sign_finish ::
    "('i, 'c) cmac_cipher \<Rightarrow> 'c mbedtls_psa_mac_operation \<Rightarrow> bytes \<Rightarrow> nat \<Rightarrow> bool list \<Rightarrow>
     psa_status \<times> 'c mbedtls_psa_mac_operation \<times> bytes \<times> nat option \<times> bool list" where
  "mbedtls_psa_mac_sign_finish cm operation mac mac_size outcomes =
    (if mac_alg operation = 0 then (PSA_ERROR_BAD_STATE, operation, mac, None, outcomes)
     else
       let (status, operation, mac, outcomes) = psa_mac_finish_internal cm operation mac mac_size outcomes
       in (status, operation, mac, if status = PSA_SUCCESS then Some mac_size else None, outcomes))"

abbreviation PSA_MAC_MAX_SIZE :: nat where "PSA_MAC_MAX_SIZE \<equiv> PSA_HASH_MAX_SIZE"

definition mbedtls_psa_mac_verify_finish ::
    "('i, 'c) cmac_cipher \<Rightarrow> 'c mbedtls_psa_mac_operation \<Rightarrow> bytes \<Rightarrow> bool list \<Rightarrow>
     psa_status \<times> 'c mbedtls_psa_mac_operation \<times> bool list" where
  "mbedtls_psa_mac_verify_finish cm operation mac outcomes =
    (let actual_mac = replicate PSA_MAC_MAX_SIZE 0; mac_length = length mac
     in if mac_alg operation = 0 then (PSA_ERROR_BAD_STATE, operation, outcomes)
        else if mac_length > length actual_mac then (PSA_ERROR_INVALID_ARGUMENT, operation, outcomes)
        else
          let (status, operation, actual_mac, outcomes) = psa_mac_finish_internal cm operation actual_mac mac_length outcomes
          in if status \<noteq> PSA_SUCCESS then (status, operation, outcomes)
             else if mbedtls_ct_memcmp mac actual_mac mac_length \<noteq> 0 then (PSA_ERROR_INVALID_SIGNATURE, operation, outcomes)
             else (status, operation, outcomes))"

definition mbedtls_psa_mac_compute ::
    "('i, 'c) cmac_cipher \<Rightarrow> psa_key_attributes \<Rightarrow> bytes \<Rightarrow> psa_algorithm \<Rightarrow> bytes \<Rightarrow> bytes \<Rightarrow> nat \<Rightarrow> bool list \<Rightarrow>
     psa_status \<times> bytes \<times> nat option \<times> bool list" where
  "mbedtls_psa_mac_compute cm attributes key_buffer alg input mac mac_size outcomes =
    (let operation = MBEDTLS_PSA_MAC_OPERATION_INIT;
         (status, operation, outcomes) = driver_psa_mac_setup cm operation attributes key_buffer alg outcomes;
         (status, operation, outcomes) =
           (if status = PSA_SUCCESS \<and> length input > 0 then mbedtls_psa_mac_update cm operation input outcomes
            else (status, operation, outcomes));
         (status, operation, mac, mac_length, outcomes) =
           (if status \<noteq> PSA_SUCCESS then (status, operation, mac, None, outcomes)
            else
              let (status, operation, mac, outcomes) = psa_mac_finish_internal cm operation mac mac_size outcomes
              in (status, operation, mac, if status = PSA_SUCCESS then Some mac_size else None, outcomes));
         operation = snd (mbedtls_psa_mac_abort cm operation)
     in (status, mac, mac_length, outcomes))"

section \<open>HMAC through the driver\<close>

lemma hmac_not_cmac:
  assumes "PSA_ALG_IS_HMAC alg" shows "PSA_ALG_FULL_LENGTH_MAC alg \<noteq> PSA_ALG_CMAC \<and> alg \<noteq> 0"
proof -
  have "bit (alg AND 0x7fc00000) 22 = bit (0x03800000 :: u32) 22" "bit (alg AND 0x7fc00000) 23 = bit (0x03800000 :: u32) 23"
    using assms by (simp_all add: PSA_ALG_IS_HMAC_def)
  then have b: "\<not> bit alg 22" "bit alg 23" by (simp_all add: bit_and_iff)
  have "PSA_ALG_FULL_LENGTH_MAC alg \<noteq> PSA_ALG_CMAC"
  proof
    assume "PSA_ALG_FULL_LENGTH_MAC alg = PSA_ALG_CMAC"
    then have "bit (PSA_ALG_FULL_LENGTH_MAC alg) 22 = bit PSA_ALG_CMAC 22" by simp
    with b(1) show False by (simp add: PSA_ALG_FULL_LENGTH_MAC_def bit_and_iff)
  qed
  with b(2) show ?thesis by auto
qed

lemma hmac_setup_unsupported:
  assumes "\<not> is_hash_supported alg"
  obtains status h' outcomes' where "psa_hmac_setup_internal h key alg outcomes = (status, h', outcomes')" "status \<noteq> PSA_SUCCESS"
proof -
  obtain status h' outcomes' where e: "psa_hmac_setup_internal h key alg outcomes = (status, h', outcomes')" by (rule prod_cases3)
  have "fst (psa_hash_setup ctx alg) \<noteq> PSA_SUCCESS" for ctx
    using api_setup_refused [of ctx alg] assms by (simp split: if_splits)
  then have "psa_hash_setup ctx alg = (st, c) \<Longrightarrow> st \<noteq> PSA_SUCCESS" for ctx st c by (metis fst_conv)
  then have "status \<noteq> PSA_SUCCESS" using e unfolding psa_hmac_setup_internal_def Let_def by (auto split: prod.splits if_splits)
  with e show thesis by (rule that)
qed

text \<open>An operation of the driver that has absorbed a message under a key.\<close>

definition mac_absorbing :: "psa_algorithm \<Rightarrow> bytes \<Rightarrow> 'c mbedtls_psa_mac_operation \<Rightarrow> bytes \<Rightarrow> bool" where
  "mac_absorbing alg key operation m \<longleftrightarrow> mac_alg operation = alg \<and> PSA_ALG_IS_HMAC alg \<and>
     (\<exists>h. mac_ctx operation = Mac_hmac h \<and> hmac_absorbing (PSA_ALG_HMAC_GET_HASH alg) key m h)"

lemma mac_absorbing_hmac:
  assumes "mac_absorbing alg key operation m"
  shows "hmac_absorbing (PSA_ALG_HMAC_GET_HASH alg) key m (ctx_hmac operation)" "mac_alg operation = alg" "PSA_ALG_IS_HMAC alg"
    "PSA_ALG_FULL_LENGTH_MAC alg \<noteq> PSA_ALG_CMAC" "alg \<noteq> 0" "is_hash_supported (PSA_ALG_HMAC_GET_HASH alg)"
  using assms hmac_not_cmac [of alg] active_supported
  by (auto simp: mac_absorbing_def ctx_hmac_def hmac_absorbing_def)

lemma driver_mac_abort: "PSA_ALG_IS_HMAC (mac_alg operation) \<or> mac_alg operation = 0 \<Longrightarrow>
    fst (mbedtls_psa_mac_abort cm operation) = PSA_SUCCESS \<and> mac_alg (snd (mbedtls_psa_mac_abort cm operation)) = 0"
  using hmac_not_cmac by (auto simp: mbedtls_psa_mac_abort_def)

lemma driver_mac_setup:
  fixes cm :: "('i, 'c) cmac_cipher"
  assumes "PSA_ALG_IS_HMAC alg" "length key < 2 ^ 32"
  obtains status operation outcomes' where
    "driver_psa_mac_setup cm MBEDTLS_PSA_MAC_OPERATION_INIT attr key alg outcomes = (status, operation, outcomes')"
    "is_hash_supported (PSA_ALG_HMAC_GET_HASH alg) \<longrightarrow> only_memory_fails outcomes status outcomes'"
    "if status = PSA_SUCCESS then mac_absorbing alg key operation [] else mac_alg operation = 0"
    "\<not> is_hash_supported (PSA_ALG_HMAC_GET_HASH alg) \<longrightarrow> status \<noteq> PSA_SUCCESS"
proof -
  let ?h = "MBEDTLS_PSA_HMAC_OPERATION_INIT" and ?a = "PSA_ALG_HMAC_GET_HASH alg"
  let ?op = "\<lambda>h. \<lparr>mac_alg = alg, mac_ctx = Mac_hmac h\<rparr> :: 'c mbedtls_psa_mac_operation"
  note n = hmac_not_cmac [OF assms(1)]
  obtain st h oc where s: "psa_hmac_setup_internal ?h key ?a outcomes = (st, h, oc)" by (rule prod_cases3)
  have e: "driver_psa_mac_setup cm MBEDTLS_PSA_MAC_OPERATION_INIT attr key alg outcomes =
      (st, if st \<noteq> PSA_SUCCESS then snd (mbedtls_psa_mac_abort cm (?op h)) else ?op h, oc)"
    using n assms(1) s
    by (simp add: driver_psa_mac_setup_def mac_init_def MBEDTLS_PSA_MAC_OPERATION_INIT_def ctx_hmac_def MBEDTLS_PSA_HMAC_OPERATION_INIT_def)
  have i: "hash_id (hmac_hash_ctx ?h) = 0" "length (hmac_opad ?h) = 144"
    by (simp_all add: MBEDTLS_PSA_HMAC_OPERATION_INIT_def PSA_HASH_OPERATION_INIT_def)
  have sup: "is_hash_supported ?a \<longrightarrow> only_memory_fails outcomes st oc \<and> (st = PSA_SUCCESS \<longrightarrow> hmac_absorbing ?a key [] h)"
    using hmac_setup_step [OF _ i assms(2), of ?a outcomes] s by (metis prod.inject)
  have uns: "\<not> is_hash_supported ?a \<longrightarrow> st \<noteq> PSA_SUCCESS"
    using hmac_setup_unsupported [of ?a ?h key outcomes] s by (metis prod.inject)
  have ab: "mac_alg (snd (mbedtls_psa_mac_abort cm (?op h))) = 0" using driver_mac_abort [of "?op h" cm] assms(1) by simp
  show thesis
    by (rule that [OF e]) (use sup uns ab assms(1) in \<open>auto simp: mac_absorbing_def\<close>)
qed

lemma driver_mac_update:
  assumes "mac_absorbing alg key operation m" "length input < 2 ^ 32"
  obtains status operation' outcomes' where "mbedtls_psa_mac_update cm operation input outcomes = (status, operation', outcomes')"
    "only_memory_fails outcomes status outcomes'" "mac_alg operation' = alg"
    "status = PSA_SUCCESS \<longrightarrow> mac_absorbing alg key operation' (m @ input)"
proof -
  note a = mac_absorbing_hmac [OF assms(1)]
  obtain st h oc where u: "psa_hmac_update_internal (ctx_hmac operation) input outcomes = (st, h, oc)" "only_memory_fails outcomes st oc"
      "st = PSA_SUCCESS \<longrightarrow> hmac_absorbing (PSA_ALG_HMAC_GET_HASH alg) key (m @ input) h"
    using hmac_update_step [OF a(1) assms(2), of outcomes] by blast
  show thesis
    by (rule that [of st "operation\<lparr>mac_ctx := Mac_hmac h\<rparr>" oc])
      (use u a in \<open>simp_all add: mbedtls_psa_mac_update_def mac_absorbing_def\<close>)
qed

interpretation driver_pieces: message_stream "mac_absorbing alg key" "mbedtls_psa_mac_update cm"
  for alg key and cm :: "('i, 'c) cmac_cipher"
proof
  fix operation :: "'c mbedtls_psa_mac_operation" and m input outcomes
  assume a: "mac_absorbing alg key operation m" "length (input :: bytes) < 2 ^ 32"
  show "\<exists>status operation' outcomes'. mbedtls_psa_mac_update cm operation input outcomes = (status, operation', outcomes') \<and>
      only_memory_fails outcomes status outcomes' \<and> (status = PSA_SUCCESS \<longrightarrow> mac_absorbing alg key operation' (m @ input))"
    by (rule driver_mac_update [OF a, of cm outcomes]) blast
qed

lemma driver_mac_finish:
  assumes "mac_absorbing alg key operation m" "n \<le> PSA_HASH_LENGTH (PSA_ALG_HMAC_GET_HASH alg)"
  obtains status operation' mac' outcomes' where "psa_mac_finish_internal cm operation mac n outcomes = (status, operation', mac', outcomes')"
    "only_memory_fails outcomes status outcomes'" "mac_alg operation' = alg"
    "mac' = (if status = PSA_SUCCESS then take n (hmac_standard (PSA_ALG_HMAC_GET_HASH alg) key m) @ drop n mac else mac)"
proof -
  note a = mac_absorbing_hmac [OF assms(1)]
  obtain st h mac' oc where u: "psa_hmac_finish_internal (ctx_hmac operation) mac n outcomes = (st, h, mac', oc)"
      "only_memory_fails outcomes st oc" "hash_operation_typed (hmac_hash_ctx h)"
      "mac' = (if st = PSA_SUCCESS then take n (hmac_standard (PSA_ALG_HMAC_GET_HASH alg) key m) @ drop n mac else mac)"
    by (rule hmac_finish_step [OF a(1) assms(2)])
  show thesis
    by (rule that [of st "operation\<lparr>mac_ctx := Mac_hmac h\<rparr>" mac' oc]) (use u a in \<open>simp_all add: psa_mac_finish_internal_def\<close>)
qed

lemma driver_mac_compute:
  assumes "PSA_ALG_IS_HMAC alg" "length key < 2 ^ 32" "length input < 2 ^ 32" "n \<le> PSA_HASH_LENGTH (PSA_ALG_HMAC_GET_HASH alg)"
  obtains status mac' len outcomes' where "mbedtls_psa_mac_compute cm attr key alg input mac n outcomes = (status, mac', len, outcomes')"
    "is_hash_supported (PSA_ALG_HMAC_GET_HASH alg) \<longrightarrow> only_memory_fails outcomes status outcomes'"
    "mac' = (if status = PSA_SUCCESS then take n (hmac_standard (PSA_ALG_HMAC_GET_HASH alg) key input) @ drop n mac else mac)"
    "len = (if status = PSA_SUCCESS then Some n else None)"
    "\<not> is_hash_supported (PSA_ALG_HMAC_GET_HASH alg) \<longrightarrow> status \<noteq> PSA_SUCCESS"
proof -
  let ?a = "PSA_ALG_HMAC_GET_HASH alg"
  obtain st1 op1 oc1 where 1: "driver_psa_mac_setup cm MBEDTLS_PSA_MAC_OPERATION_INIT attr key alg outcomes = (st1, op1, oc1)"
      "is_hash_supported ?a \<longrightarrow> only_memory_fails outcomes st1 oc1"
      "if st1 = PSA_SUCCESS then mac_absorbing alg key op1 [] else mac_alg op1 = 0"
      "\<not> is_hash_supported ?a \<longrightarrow> st1 \<noteq> PSA_SUCCESS"
    using driver_mac_setup [OF assms(1,2), of cm attr outcomes] by blast
  show thesis
  proof (cases "st1 = PSA_SUCCESS")
    case False
    with 1 show thesis by (intro that [of st1 mac None oc1]) (simp_all add: mbedtls_psa_mac_compute_def split_def Let_def)
  next
    case s1: True
    with 1 have a1: "mac_absorbing alg key op1 []" and sup: "is_hash_supported ?a" and m1: "only_memory_fails outcomes PSA_SUCCESS oc1"
      by auto
    obtain st2 op2 oc2 where 2: "(if length input > 0 then mbedtls_psa_mac_update cm op1 input oc1 else (PSA_SUCCESS, op1, oc1)) = (st2, op2, oc2)"
        "only_memory_fails oc1 st2 oc2" "st2 = PSA_SUCCESS \<longrightarrow> mac_absorbing alg key op2 input"
    proof (cases "input = []")
      case True
      with a1 that [of PSA_SUCCESS op1 oc1] show thesis by (simp add: only_memory_refl)
    next
      case False
      with driver_mac_update [OF a1 assms(3), of cm oc1] that show thesis by (metis append_Nil length_greater_0_conv)
    qed
    note m2 = only_memory_trans [OF m1 2(2)]
    show thesis
    proof (cases "st2 = PSA_SUCCESS")
      case False
      with 1(1) 2(1) s1 m2 sup show thesis
        by (intro that [of st2 mac None oc2]) (simp_all add: mbedtls_psa_mac_compute_def split_def Let_def split: if_splits)
    next
      case s2: True
      with 2(3) have a2: "mac_absorbing alg key op2 input" by simp
      obtain st3 op3 mac3 oc3 where 3: "psa_mac_finish_internal cm op2 mac n oc2 = (st3, op3, mac3, oc3)" "only_memory_fails oc2 st3 oc3" "mac_alg op3 = alg"
          "mac3 = (if st3 = PSA_SUCCESS then take n (hmac_standard ?a key input) @ drop n mac else mac)"
        by (rule driver_mac_finish [OF a2 assms(4)])
      have e: "mbedtls_psa_mac_compute cm attr key alg input mac n outcomes = (st3, mac3, if st3 = PSA_SUCCESS then Some n else None, oc3)"
        using 2(1) s1 s2 by (simp add: mbedtls_psa_mac_compute_def 1(1) 3(1) split_def Let_def split: if_splits)
      from that [OF e] only_memory_trans [OF m2 [unfolded s2] 3(2)] 3(4) sup show thesis by simp
    qed
  qed
qed

end
