(* ===== verification/Mac_Api.thy ===== *)
theory Mac_Api
  imports Mac_Driver
begin

text \<open>
  The MAC functions of the API, core/psa_crypto.c, and their dispatch in psa_crypto_driver_wrappers.h.jinja
  with the built-in driver. Setup and the one-shot functions work on the key store; the others on the
  operation and on the list of outcomes of the next allocations. An output that is not written is \<open>None\<close>.
\<close>

section \<open>The operation\<close>

record 'c psa_mac_operation =
  mac_id :: nat
  mac_mac_size :: nat
  mac_is_sign :: bool
  mac_driver :: "'c mbedtls_psa_mac_operation"

definition PSA_MAC_OPERATION_INIT :: "'c psa_mac_operation" where
  "PSA_MAC_OPERATION_INIT = \<lparr>mac_id = 0, mac_mac_size = 0, mac_is_sign = False, mac_driver = MBEDTLS_PSA_MAC_OPERATION_INIT\<rparr>"

section \<open>Dispatch to the driver\<close>

definition psa_driver_wrapper_mac_compute ::
    "('i, 'c) cmac_cipher \<Rightarrow> psa_key_attributes \<Rightarrow> bytes \<Rightarrow> psa_algorithm \<Rightarrow> bytes \<Rightarrow> bytes \<Rightarrow> nat \<Rightarrow> bool list \<Rightarrow>
     psa_status \<times> bytes \<times> nat option \<times> bool list" where
  "psa_driver_wrapper_mac_compute cm attributes key_buffer alg input mac mac_size outcomes =
    (if PSA_KEY_LIFETIME_GET_LOCATION (attr_lifetime attributes) = PSA_KEY_LOCATION_LOCAL_STORAGE
     then (let (status, mac, mac_length, outcomes) = mbedtls_psa_mac_compute cm attributes key_buffer alg input mac mac_size outcomes
           in if status \<noteq> PSA_ERROR_NOT_SUPPORTED then (status, mac, mac_length, outcomes)
              else (PSA_ERROR_NOT_SUPPORTED, mac, mac_length, outcomes))
     else (PSA_ERROR_INVALID_ARGUMENT, mac, None, outcomes))"

definition psa_driver_wrapper_mac_sign_setup ::
    "('i, 'c) cmac_cipher \<Rightarrow> 'c psa_mac_operation \<Rightarrow> psa_key_attributes \<Rightarrow> bytes \<Rightarrow> psa_algorithm \<Rightarrow> bool list \<Rightarrow>
     psa_status \<times> 'c psa_mac_operation \<times> bool list" where
  "psa_driver_wrapper_mac_sign_setup cm operation attributes key_buffer alg outcomes =
    (if PSA_KEY_LIFETIME_GET_LOCATION (attr_lifetime attributes) = PSA_KEY_LOCATION_LOCAL_STORAGE
     then (let (status, ctx, outcomes) = mbedtls_psa_mac_sign_setup cm (mac_driver operation) attributes key_buffer alg outcomes;
               operation = operation\<lparr>mac_driver := ctx\<rparr>;
               operation = (if status = PSA_SUCCESS then operation\<lparr>mac_id := PSA_CRYPTO_MBED_TLS_DRIVER_ID\<rparr> else operation)
           in if status \<noteq> PSA_ERROR_NOT_SUPPORTED then (status, operation, outcomes)
              else (PSA_ERROR_NOT_SUPPORTED, operation, outcomes))
     else (PSA_ERROR_INVALID_ARGUMENT, operation, outcomes))"

definition psa_driver_wrapper_mac_verify_setup ::
    "('i, 'c) cmac_cipher \<Rightarrow> 'c psa_mac_operation \<Rightarrow> psa_key_attributes \<Rightarrow> bytes \<Rightarrow> psa_algorithm \<Rightarrow> bool list \<Rightarrow>
     psa_status \<times> 'c psa_mac_operation \<times> bool list" where
  "psa_driver_wrapper_mac_verify_setup cm operation attributes key_buffer alg outcomes =
    (if PSA_KEY_LIFETIME_GET_LOCATION (attr_lifetime attributes) = PSA_KEY_LOCATION_LOCAL_STORAGE
     then (let (status, ctx, outcomes) = mbedtls_psa_mac_verify_setup cm (mac_driver operation) attributes key_buffer alg outcomes;
               operation = operation\<lparr>mac_driver := ctx\<rparr>;
               operation = (if status = PSA_SUCCESS then operation\<lparr>mac_id := PSA_CRYPTO_MBED_TLS_DRIVER_ID\<rparr> else operation)
           in if status \<noteq> PSA_ERROR_NOT_SUPPORTED then (status, operation, outcomes)
              else (PSA_ERROR_NOT_SUPPORTED, operation, outcomes))
     else (PSA_ERROR_INVALID_ARGUMENT, operation, outcomes))"

definition psa_driver_wrapper_mac_update ::
    "('i, 'c) cmac_cipher \<Rightarrow> 'c psa_mac_operation \<Rightarrow> bytes \<Rightarrow> bool list \<Rightarrow> psa_status \<times> 'c psa_mac_operation \<times> bool list" where
  "psa_driver_wrapper_mac_update cm operation input outcomes =
    (if mac_id operation = PSA_CRYPTO_MBED_TLS_DRIVER_ID
     then (let (status, ctx, outcomes) = mbedtls_psa_mac_update cm (mac_driver operation) input outcomes
           in (status, operation\<lparr>mac_driver := ctx\<rparr>, outcomes))
     else (PSA_ERROR_INVALID_ARGUMENT, operation, outcomes))"

definition psa_driver_wrapper_mac_sign_finish ::
    "('i, 'c) cmac_cipher \<Rightarrow> 'c psa_mac_operation \<Rightarrow> bytes \<Rightarrow> nat \<Rightarrow> bool list \<Rightarrow>
     psa_status \<times> 'c psa_mac_operation \<times> bytes \<times> nat option \<times> bool list" where
  "psa_driver_wrapper_mac_sign_finish cm operation mac mac_size outcomes =
    (if mac_id operation = PSA_CRYPTO_MBED_TLS_DRIVER_ID
     then (let (status, ctx, mac, mac_length, outcomes) = mbedtls_psa_mac_sign_finish cm (mac_driver operation) mac mac_size outcomes
           in (status, operation\<lparr>mac_driver := ctx\<rparr>, mac, mac_length, outcomes))
     else (PSA_ERROR_INVALID_ARGUMENT, operation, mac, None, outcomes))"

definition psa_driver_wrapper_mac_verify_finish ::
    "('i, 'c) cmac_cipher \<Rightarrow> 'c psa_mac_operation \<Rightarrow> bytes \<Rightarrow> bool list \<Rightarrow> psa_status \<times> 'c psa_mac_operation \<times> bool list" where
  "psa_driver_wrapper_mac_verify_finish cm operation mac outcomes =
    (if mac_id operation = PSA_CRYPTO_MBED_TLS_DRIVER_ID
     then (let (status, ctx, outcomes) = mbedtls_psa_mac_verify_finish cm (mac_driver operation) mac outcomes
           in (status, operation\<lparr>mac_driver := ctx\<rparr>, outcomes))
     else (PSA_ERROR_INVALID_ARGUMENT, operation, outcomes))"

definition psa_driver_wrapper_mac_abort ::
    "('i, 'c) cmac_cipher \<Rightarrow> 'c psa_mac_operation \<Rightarrow> psa_status \<times> 'c psa_mac_operation" where
  "psa_driver_wrapper_mac_abort cm operation =
    (if mac_id operation = PSA_CRYPTO_MBED_TLS_DRIVER_ID
     then (let (status, ctx) = mbedtls_psa_mac_abort cm (mac_driver operation) in (status, operation\<lparr>mac_driver := ctx\<rparr>))
     else (PSA_ERROR_INVALID_ARGUMENT, operation))"

section \<open>The API\<close>

definition psa_wipe_tag_output_buffer :: "bytes \<Rightarrow> psa_status \<Rightarrow> nat \<Rightarrow> nat \<Rightarrow> bytes" where
  "psa_wipe_tag_output_buffer buffer status buffer_size len =
    (if buffer_size = 0 then buffer
     else
       let offset = (if status = PSA_SUCCESS then len else 0)
       in take offset buffer @ replicate (buffer_size - offset) 0x21 @ drop buffer_size buffer)"

definition psa_mac_abort :: "('i, 'c) cmac_cipher \<Rightarrow> 'c psa_mac_operation \<Rightarrow> psa_status \<times> 'c psa_mac_operation" where
  "psa_mac_abort cm operation =
    (if mac_id operation = 0 then (PSA_SUCCESS, operation)
     else
       let (status, operation) = psa_driver_wrapper_mac_abort cm operation
       in (status, operation\<lparr>mac_mac_size := 0, mac_is_sign := False, mac_id := 0\<rparr>))"

text \<open>The value of \<open>*mac_size\<close>, an 8-bit integer, is the second result.\<close>

definition psa_mac_finalize_alg_and_key_validation :: "psa_algorithm \<Rightarrow> psa_key_attributes \<Rightarrow> nat \<Rightarrow> psa_status \<times> nat" where
  "psa_mac_finalize_alg_and_key_validation alg attributes mac_size =
    (let key_type = attr_type attributes; key_bits = unat (attr_bits attributes)
     in if \<not> PSA_ALG_IS_MAC alg then (PSA_ERROR_INVALID_ARGUMENT, mac_size)
        else
          let status = psa_mac_key_can_do alg key_type
          in if status \<noteq> PSA_SUCCESS then (status, mac_size)
             else
               let mac_size = PSA_MAC_LENGTH key_type key_bits alg mod 256
               in if mac_size < 4 then (PSA_ERROR_NOT_SUPPORTED, mac_size)
                  else if mac_size > PSA_MAC_LENGTH key_type key_bits (PSA_ALG_FULL_LENGTH_MAC alg) then (PSA_ERROR_INVALID_ARGUMENT, mac_size)
                  else if mac_size > PSA_MAC_MAX_SIZE then (PSA_ERROR_NOT_SUPPORTED, mac_size)
                  else (PSA_SUCCESS, mac_size))"

definition psa_mac_setup ::
    "('i, 'c) cmac_cipher \<Rightarrow> 'c psa_mac_operation \<Rightarrow> psa_key_id \<Rightarrow> psa_algorithm \<Rightarrow> bool \<Rightarrow> psa_system \<Rightarrow>
     psa_status \<times> 'c psa_mac_operation \<times> psa_system" where
  "psa_mac_setup cm operation key alg is_sign sys =
    (let (status, operation, p_slot, sys) =
       (if mac_id operation \<noteq> 0 then (PSA_ERROR_BAD_STATE, operation, None, sys)
        else
          let operation = operation\<lparr>mac_driver := MBEDTLS_PSA_MAC_OPERATION_INIT\<rparr>;
              (status, p_slot, sys) = psa_get_and_lock_key_slot_with_policy key
                (if is_sign then PSA_KEY_USAGE_SIGN_MESSAGE else PSA_KEY_USAGE_VERIFY_MESSAGE) alg sys
          in if status \<noteq> PSA_SUCCESS then (status, operation, p_slot, sys)
             else
               let slot = get_key_slot (keystore sys) (the p_slot);
                   (status, mac_size) = psa_mac_finalize_alg_and_key_validation alg (slot_attr slot) (mac_mac_size operation);
                   operation = operation\<lparr>mac_mac_size := mac_size\<rparr>
               in if status \<noteq> PSA_SUCCESS then (status, operation, p_slot, sys)
                  else
                    let operation = operation\<lparr>mac_is_sign := is_sign\<rparr>;
                        (status, operation, outcomes) =
                          (if is_sign
                           then psa_driver_wrapper_mac_sign_setup cm operation (slot_attr slot) (slot_material slot) alg
                                  (calloc_outcomes (keystore sys))
                           else psa_driver_wrapper_mac_verify_setup cm operation (slot_attr slot) (slot_material slot) alg
                                  (calloc_outcomes (keystore sys)))
                    in (status, operation, p_slot, sys\<lparr>keystore := (keystore sys)\<lparr>calloc_outcomes := outcomes\<rparr>\<rparr>));
         operation = (if status \<noteq> PSA_SUCCESS then snd (psa_mac_abort cm operation) else operation);
         (unlock_status, g) = psa_unregister_read_under_mutex p_slot (keystore sys)
     in (if status = PSA_SUCCESS then unlock_status else status, operation, sys\<lparr>keystore := g\<rparr>))"

definition psa_mac_sign_setup ::
    "('i, 'c) cmac_cipher \<Rightarrow> 'c psa_mac_operation \<Rightarrow> psa_key_id \<Rightarrow> psa_algorithm \<Rightarrow> psa_system \<Rightarrow>
     psa_status \<times> 'c psa_mac_operation \<times> psa_system" where
  "psa_mac_sign_setup cm operation key alg sys = psa_mac_setup cm operation key alg True sys"

definition psa_mac_verify_setup ::
    "('i, 'c) cmac_cipher \<Rightarrow> 'c psa_mac_operation \<Rightarrow> psa_key_id \<Rightarrow> psa_algorithm \<Rightarrow> psa_system \<Rightarrow>
     psa_status \<times> 'c psa_mac_operation \<times> psa_system" where
  "psa_mac_verify_setup cm operation key alg sys = psa_mac_setup cm operation key alg False sys"

definition psa_mac_update ::
    "('i, 'c) cmac_cipher \<Rightarrow> 'c psa_mac_operation \<Rightarrow> bytes \<Rightarrow> bool list \<Rightarrow> psa_status \<times> 'c psa_mac_operation \<times> bool list" where
  "psa_mac_update cm operation input_external outcomes =
    (if mac_id operation = 0 then (PSA_ERROR_BAD_STATE, operation, outcomes)
     else if length input_external = 0 then (PSA_SUCCESS, operation, outcomes)
     else
       let (status, li, outcomes) = psa_crypto_local_input_alloc input_external outcomes
       in if status \<noteq> PSA_SUCCESS then (status, operation, outcomes)
          else
            let (status, operation, outcomes) = psa_driver_wrapper_mac_update cm operation (contents (input_buffer li)) outcomes
            in (status, if status \<noteq> PSA_SUCCESS then snd (psa_mac_abort cm operation) else operation, outcomes))"

definition psa_mac_sign_finish ::
    "('i, 'c) cmac_cipher \<Rightarrow> 'c psa_mac_operation \<Rightarrow> bytes option \<Rightarrow> nat \<Rightarrow> bool list \<Rightarrow>
     psa_status \<times> 'c psa_mac_operation \<times> bytes option \<times> nat \<times> bool list" where
  "psa_mac_sign_finish cm operation mac_external mac_size outcomes =
    (let (status, lo, outcomes) = psa_crypto_local_output_alloc mac_external mac_size outcomes;
         (status, operation, lo, mac_length, outcomes) =
           (if status \<noteq> PSA_SUCCESS then (status, operation, lo, None, outcomes)
            else if mac_id operation = 0 then (PSA_ERROR_BAD_STATE, operation, lo, None, outcomes)
            else if \<not> mac_is_sign operation then (PSA_ERROR_BAD_STATE, operation, lo, None, outcomes)
            else if mac_mac_size operation = 0 then (PSA_ERROR_BAD_STATE, operation, lo, None, outcomes)
            else if mac_size < mac_mac_size operation then (PSA_ERROR_BUFFER_TOO_SMALL, operation, lo, None, outcomes)
            else
              let (status, operation, mac, mac_length, outcomes) =
                    psa_driver_wrapper_mac_sign_finish cm operation (contents (output_buffer lo)) (mac_mac_size operation) outcomes
              in (status, operation, lo\<lparr>output_buffer := Some mac\<rparr>, mac_length, outcomes));
         (mac_length, operation) =
           (if status \<noteq> PSA_SUCCESS then (mac_size, operation\<lparr>mac_mac_size := 0\<rparr>) else (the mac_length, operation));
         lo = (case output_buffer lo of None \<Rightarrow> lo
               | Some mac \<Rightarrow> lo\<lparr>output_buffer := Some (psa_wipe_tag_output_buffer mac status mac_size mac_length)\<rparr>);
         (abort_status, operation) = psa_mac_abort cm operation;
         (status, mac_external) = LOCAL_OUTPUT_FREE lo mac_external status
     in (if status = PSA_SUCCESS then abort_status else status, operation, mac_external, mac_length, outcomes))"

definition psa_mac_verify_finish ::
    "('i, 'c) cmac_cipher \<Rightarrow> 'c psa_mac_operation \<Rightarrow> bytes \<Rightarrow> bool list \<Rightarrow> psa_status \<times> 'c psa_mac_operation \<times> bool list" where
  "psa_mac_verify_finish cm operation mac_external outcomes =
    (let (status, operation, outcomes) =
           (if mac_id operation = 0 then (PSA_ERROR_BAD_STATE, operation, outcomes)
            else if mac_is_sign operation then (PSA_ERROR_BAD_STATE, operation, outcomes)
            else if mac_mac_size operation \<noteq> length mac_external then (PSA_ERROR_INVALID_SIGNATURE, operation, outcomes)
            else
              let (status, li, outcomes) = psa_crypto_local_input_alloc mac_external outcomes
              in if status \<noteq> PSA_SUCCESS then (status, operation, outcomes)
                 else psa_driver_wrapper_mac_verify_finish cm operation (contents (input_buffer li)) outcomes);
         (abort_status, operation) = psa_mac_abort cm operation
     in (if status = PSA_SUCCESS then abort_status else status, operation, outcomes))"

definition psa_mac_compute_internal ::
    "('i, 'c) cmac_cipher \<Rightarrow> psa_key_id \<Rightarrow> psa_algorithm \<Rightarrow> bytes \<Rightarrow> bytes \<Rightarrow> nat \<Rightarrow> bool \<Rightarrow> psa_system \<Rightarrow>
     psa_status \<times> bytes \<times> nat \<times> psa_system" where
  "psa_mac_compute_internal cm key alg input mac mac_size is_sign sys =
    (let (status, p_slot, sys) = psa_get_and_lock_key_slot_with_policy key
           (if is_sign then PSA_KEY_USAGE_SIGN_MESSAGE else PSA_KEY_USAGE_VERIFY_MESSAGE) alg sys;
         (status, mac, mac_length, sys) =
           (if status \<noteq> PSA_SUCCESS then (status, mac, None, sys)
            else
              let slot = get_key_slot (keystore sys) (the p_slot);
                  (status, operation_mac_size) = psa_mac_finalize_alg_and_key_validation alg (slot_attr slot) 0
              in if status \<noteq> PSA_SUCCESS then (status, mac, None, sys)
                 else if mac_size < operation_mac_size then (PSA_ERROR_BUFFER_TOO_SMALL, mac, None, sys)
                 else
                   let (status, mac, mac_length, outcomes) =
                         psa_driver_wrapper_mac_compute cm (slot_attr slot) (slot_material slot) alg input mac operation_mac_size
                           (calloc_outcomes (keystore sys))
                   in (status, mac, mac_length, sys\<lparr>keystore := (keystore sys)\<lparr>calloc_outcomes := outcomes\<rparr>\<rparr>));
         mac_length = (if status \<noteq> PSA_SUCCESS then mac_size else the mac_length);
         mac = psa_wipe_tag_output_buffer mac status mac_size mac_length;
         (unlock_status, g) = psa_unregister_read_under_mutex p_slot (keystore sys)
     in (if status = PSA_SUCCESS then unlock_status else status, mac, mac_length, sys\<lparr>keystore := g\<rparr>))"

definition psa_mac_compute ::
    "('i, 'c) cmac_cipher \<Rightarrow> psa_key_id \<Rightarrow> psa_algorithm \<Rightarrow> bytes \<Rightarrow> bytes option \<Rightarrow> nat \<Rightarrow> psa_system \<Rightarrow>
     psa_status \<times> bytes option \<times> nat option \<times> psa_system" where
  "psa_mac_compute cm key alg input_external mac_external mac_size sys =
    (let (status, li, outcomes) = psa_crypto_local_input_alloc input_external (calloc_outcomes (keystore sys));
         sys = sys\<lparr>keystore := (keystore sys)\<lparr>calloc_outcomes := outcomes\<rparr>\<rparr>
     in if status \<noteq> PSA_SUCCESS
        then (let (status, mac_external) = LOCAL_OUTPUT_FREE PSA_CRYPTO_LOCAL_OUTPUT_INIT mac_external status
              in (status, mac_external, None, sys))
        else
          let (status, lo, outcomes) = psa_crypto_local_output_alloc mac_external mac_size (calloc_outcomes (keystore sys));
              sys = sys\<lparr>keystore := (keystore sys)\<lparr>calloc_outcomes := outcomes\<rparr>\<rparr>;
              (status, lo, mac_length, sys) =
                (if status \<noteq> PSA_SUCCESS then (status, lo, None, sys)
                 else
                   let (status, mac, mac_length, sys) =
                         psa_mac_compute_internal cm key alg (contents (input_buffer li)) (contents (output_buffer lo)) mac_size True sys
                   in (status, if output_buffer lo = None then lo else lo\<lparr>output_buffer := Some mac\<rparr>, Some mac_length, sys));
              (status, mac_external) = LOCAL_OUTPUT_FREE lo mac_external status
          in (status, mac_external, mac_length, sys))"

definition psa_mac_verify ::
    "('i, 'c) cmac_cipher \<Rightarrow> psa_key_id \<Rightarrow> psa_algorithm \<Rightarrow> bytes \<Rightarrow> bytes \<Rightarrow> psa_system \<Rightarrow> psa_status \<times> psa_system" where
  "psa_mac_verify cm key alg input_external mac_external sys =
    (let actual_mac = replicate PSA_MAC_MAX_SIZE 0;
         (status, li, outcomes) = psa_crypto_local_input_alloc input_external (calloc_outcomes (keystore sys));
         sys = sys\<lparr>keystore := (keystore sys)\<lparr>calloc_outcomes := outcomes\<rparr>\<rparr>
     in if status \<noteq> PSA_SUCCESS then (status, sys)
        else
          let (status, actual_mac, actual_mac_length, sys) =
                psa_mac_compute_internal cm key alg (contents (input_buffer li)) actual_mac PSA_MAC_MAX_SIZE False sys
          in if status \<noteq> PSA_SUCCESS then (status, sys)
             else if length mac_external \<noteq> actual_mac_length then (PSA_ERROR_INVALID_SIGNATURE, sys)
             else
               let (status, li, outcomes) = psa_crypto_local_input_alloc mac_external (calloc_outcomes (keystore sys));
                   sys = sys\<lparr>keystore := (keystore sys)\<lparr>calloc_outcomes := outcomes\<rparr>\<rparr>
               in if status \<noteq> PSA_SUCCESS then (status, sys)
                  else if mbedtls_ct_memcmp (contents (input_buffer li)) actual_mac actual_mac_length \<noteq> 0
                  then (PSA_ERROR_INVALID_SIGNATURE, sys)
                  else (status, sys))"

end
