(* ===== verification/Mac_Calls.thy ===== *)
theory Mac_Calls
  imports Mac_Api Key_Contracts
begin

text \<open>
  What the MAC calls of the API do, for HMAC: they read the key that the map of keys holds, under its
  policy, change nothing of the map, and give the tag of the standard or no tag.
\<close>

section \<open>Lengths and validation\<close>

lemma length_hash_standard: "is_hash_supported alg \<Longrightarrow> length (hash_standard alg m) = PSA_HASH_LENGTH alg"
  unfolding is_hash_supported_def
  by (elim insertE emptyE; simp add: hash_standard_def hash_lengths length_md5_digest length_ripemd160_digest length_sha1_digest
      length_sha256_digest length_sha512_digest length_sha3_digest)

lemma length_hmac_standard: "is_hash_supported alg \<Longrightarrow> length (hmac_standard alg key m) = PSA_HASH_LENGTH alg"
  by (simp add: hmac_standard_def length_hash_standard)

lemma full_length_hmac:
  assumes "PSA_ALG_IS_HMAC alg"
  shows "PSA_MAC_LENGTH t b (PSA_ALG_FULL_LENGTH_MAC alg) = PSA_HASH_LENGTH (PSA_ALG_HMAC_GET_HASH alg)"
proof -
  let ?f = "PSA_ALG_FULL_LENGTH_MAC alg"
  have "?f AND PSA_ALG_MAC_TRUNCATION_MASK = 0" by (simp add: PSA_ALG_FULL_LENGTH_MAC_def and.assoc)
  moreover have "?f AND 0x7fc00000 = alg AND 0x7fc00000" "?f AND 0xff = alg AND 0xff"
    by (simp_all add: PSA_ALG_FULL_LENGTH_MAC_def and.assoc)
  ultimately show ?thesis using assms by (simp add: PSA_MAC_LENGTH_def PSA_ALG_IS_HMAC_def PSA_ALG_HMAC_GET_HASH_def)
qed

lemma mac_validation:
  assumes "PSA_ALG_IS_HMAC alg" "psa_mac_finalize_alg_and_key_validation alg attr m0 = (PSA_SUCCESS, t)"
  shows "attr_type attr = PSA_KEY_TYPE_HMAC" "t = PSA_MAC_LENGTH (attr_type attr) (unat (attr_bits attr)) alg mod 256"
    "4 \<le> t" "t \<le> 64" "t \<le> PSA_HASH_LENGTH (PSA_ALG_HMAC_GET_HASH alg)"
proof -
  have "\<not> PSA_ALG_IS_BLOCK_CIPHER_MAC alg" using assms(1) by (simp add: PSA_ALG_IS_HMAC_def PSA_ALG_IS_BLOCK_CIPHER_MAC_def)
  then show "attr_type attr = PSA_KEY_TYPE_HMAC"
    using assms(2) by (auto simp: psa_mac_finalize_alg_and_key_validation_def psa_mac_key_can_do_def Let_def split: if_splits)
  show "t = PSA_MAC_LENGTH (attr_type attr) (unat (attr_bits attr)) alg mod 256" "4 \<le> t" "t \<le> 64"
      "t \<le> PSA_HASH_LENGTH (PSA_ALG_HMAC_GET_HASH alg)"
    using assms(2) full_length_hmac [OF assms(1)]
    by (auto simp: psa_mac_finalize_alg_and_key_validation_def Let_def split: if_splits)
qed

lemma wipe_tag:
  "length mac = n \<Longrightarrow> psa_wipe_tag_output_buffer mac st n len =
    (if st = PSA_SUCCESS then take len mac @ replicate (n - len) 0x21 else replicate n 0x21)"
  by (auto simp: psa_wipe_tag_output_buffer_def)

section \<open>Computing a tag\<close>

text \<open>When nothing but the policy stands in the way of a setup.\<close>

definition mac_possible :: "psa_algorithm \<Rightarrow> psa_key_attributes \<Rightarrow> bool" where
  "mac_possible alg attr \<longleftrightarrow> fst (psa_mac_finalize_alg_and_key_validation alg attr 0) = PSA_SUCCESS \<and>
     PSA_KEY_LIFETIME_GET_LOCATION (attr_lifetime attr) = PSA_KEY_LOCATION_LOCAL_STORAGE \<and> is_hash_supported (PSA_ALG_HMAC_GET_HASH alg)"

abbreviation mac_usage :: "bool \<Rightarrow> psa_key_usage" where
  "mac_usage is_sign \<equiv> if is_sign then PSA_KEY_USAGE_SIGN_MESSAGE else PSA_KEY_USAGE_VERIFY_MESSAGE"

text \<open>The tag of a message under the key in a slot.\<close>

definition slot_tag :: "psa_key_slot \<Rightarrow> psa_algorithm \<Rightarrow> bytes \<Rightarrow> bytes" where
  "slot_tag s alg input = take (PSA_MAC_LENGTH (attr_type (slot_attr s)) (unat (attr_bits (slot_attr s))) alg mod 256)
     (hmac_standard (PSA_ALG_HMAC_GET_HASH alg) (slot_material s) input)"

lemma wrapper_mac_compute:
  assumes "PSA_ALG_IS_HMAC alg" "length key < 2 ^ 32" "length input < 2 ^ 32" "n \<le> PSA_HASH_LENGTH (PSA_ALG_HMAC_GET_HASH alg)"
  obtains status mac' len outcomes' where "psa_driver_wrapper_mac_compute cm attr key alg input mac n outcomes = (status, mac', len, outcomes')"
    "mac' = (if status = PSA_SUCCESS then take n (hmac_standard (PSA_ALG_HMAC_GET_HASH alg) key input) @ drop n mac else mac)"
    "len = (if status = PSA_SUCCESS then Some n else None)"
    "status = PSA_SUCCESS \<longrightarrow> is_hash_supported (PSA_ALG_HMAC_GET_HASH alg)"
    "PSA_KEY_LIFETIME_GET_LOCATION (attr_lifetime attr) = PSA_KEY_LOCATION_LOCAL_STORAGE \<and>
     is_hash_supported (PSA_ALG_HMAC_GET_HASH alg) \<and> memory_suffices outcomes \<longrightarrow>
     status = PSA_SUCCESS \<and> memory_suffices outcomes'"
proof (rule driver_mac_compute [OF assms, of cm attr mac outcomes])
  fix status mac' len outcomes'
  assume c: "mbedtls_psa_mac_compute cm attr key alg input mac n outcomes = (status, mac', len, outcomes')"
    "is_hash_supported (PSA_ALG_HMAC_GET_HASH alg) \<longrightarrow> only_memory_fails outcomes status outcomes'"
    "mac' = (if status = PSA_SUCCESS then take n (hmac_standard (PSA_ALG_HMAC_GET_HASH alg) key input) @ drop n mac else mac)"
    "len = (if status = PSA_SUCCESS then Some n else None)"
    "\<not> is_hash_supported (PSA_ALG_HMAC_GET_HASH alg) \<longrightarrow> status \<noteq> PSA_SUCCESS"
  show thesis
  proof (cases "PSA_KEY_LIFETIME_GET_LOCATION (attr_lifetime attr) = PSA_KEY_LOCATION_LOCAL_STORAGE")
    case True
    with c show thesis
      by (intro that [of status mac' len outcomes']) (auto simp: psa_driver_wrapper_mac_compute_def only_memory_fails_def)
  next
    case False
    then show thesis
      by (intro that [of PSA_ERROR_INVALID_ARGUMENT mac None outcomes]) (simp_all add: psa_driver_wrapper_mac_compute_def)
  qed
qed

lemma mac_compute_internal_result:
  assumes ok: "system_ok sys" and alg: "PSA_ALG_IS_HMAC alg" and input: "length input < 2 ^ 32" and mac: "length mac = n"
    and key: "\<And>s. found_key sys key s \<Longrightarrow> length (slot_material s) < 2 ^ 32"
  obtains st mac' len sys' where "psa_mac_compute_internal cm key alg input mac n is_sign sys = (st, mac', len, sys')" "harmless sys sys'"
    "st \<noteq> PSA_SUCCESS \<longrightarrow> mac' = replicate n 0x21 \<and> len = n"
    "st = PSA_SUCCESS \<longrightarrow> (\<exists>s. found_key sys key s \<and> policy_check s (mac_usage is_sign) alg = PSA_SUCCESS \<and>
       attr_type (slot_attr s) = PSA_KEY_TYPE_HMAC \<and> 4 \<le> len \<and> len \<le> n \<and> length (slot_tag s alg input) = len \<and>
       mac' = slot_tag s alg input @ replicate (n - len) 0x21)"
    "\<forall>r sys1. psa_get_and_lock_key_slot_with_policy key (mac_usage is_sign) alg sys = (PSA_SUCCESS, Some r, sys1) \<and>
       mac_possible alg (slot_attr (get_key_slot (keystore sys1) r)) \<and> memory_suffices (calloc_outcomes (keystore sys1)) \<and>
       snd (psa_mac_finalize_alg_and_key_validation alg (slot_attr (get_key_slot (keystore sys1) r)) 0) \<le> n \<longrightarrow>
       st = PSA_SUCCESS \<and> memory_suffices (calloc_outcomes (keystore sys'))"
proof (cases rule: with_policy_result [OF ok, of key "mac_usage is_sign" alg, case_names got refused failed])
  case (refused st s sys1)
  then show thesis
    by (intro that [of st "replicate n 0x21" n sys1])
      (simp_all add: psa_mac_compute_internal_def psa_unregister_read_under_mutex_def psa_unregister_read_def wipe_tag mac)
next
  case (failed st sys1)
  then show thesis
    by (intro that [of st "replicate n 0x21" n sys1])
      (simp_all add: psa_mac_compute_internal_def psa_unregister_read_under_mutex_def psa_unregister_read_def wipe_tag mac)
next
  case (got r s sys1)
  have ok1: "system_ok sys1" using got(2) by (simp add: calm_def)
  note get = locked_get [OF got(3)]
  obtain stf t where f: "psa_mac_finalize_alg_and_key_validation alg (slot_attr s) 0 = (stf, t)" by fastforce
  show thesis
  proof (cases "stf = PSA_SUCCESS \<and> t \<le> n")
    case False
    from unlock_harmless [OF got(3,2,5) harmless_refl [OF ok1]] obtain g3 where
      u: "psa_unregister_read (Some r) (keystore sys1) = (PSA_SUCCESS, g3)" "harmless sys (sys1\<lparr>keystore := g3\<rparr>)" by blast
    let ?st = "if stf \<noteq> PSA_SUCCESS then stf else PSA_ERROR_BUFFER_TOO_SMALL"
    have "psa_mac_compute_internal cm key alg input mac n is_sign sys = (?st, replicate n 0x21, n, sys1\<lparr>keystore := g3\<rparr>)"
      using False by (auto simp: not_le psa_mac_compute_internal_def got(1) get f u(1) psa_unregister_read_under_mutex_def wipe_tag mac)
    moreover have "\<not> (mac_possible alg (slot_attr s) \<and> snd (psa_mac_finalize_alg_and_key_validation alg (slot_attr s) 0) \<le> n)"
      using f False by (simp add: mac_possible_def)
    ultimately show thesis using that u(2) False got(1) get by auto
  next
    case True
    then have f': "psa_mac_finalize_alg_and_key_validation alg (slot_attr s) 0 = (PSA_SUCCESS, t)" and tn: "t \<le> n" using f by simp_all
    note v = mac_validation [OF alg f']
    show thesis
    proof (rule wrapper_mac_compute [OF alg key [OF got(4)] input v(5), of cm "slot_attr s" mac "calloc_outcomes (keystore sys1)"])
      fix status mac' len oc
      assume c: "psa_driver_wrapper_mac_compute cm (slot_attr s) (slot_material s) alg input mac t (calloc_outcomes (keystore sys1)) =
          (status, mac', len, oc)"
        "mac' = (if status = PSA_SUCCESS then take t (hmac_standard (PSA_ALG_HMAC_GET_HASH alg) (slot_material s) input) @ drop t mac else mac)"
        "len = (if status = PSA_SUCCESS then Some t else None)"
        "status = PSA_SUCCESS \<longrightarrow> is_hash_supported (PSA_ALG_HMAC_GET_HASH alg)"
        "PSA_KEY_LIFETIME_GET_LOCATION (attr_lifetime (slot_attr s)) = PSA_KEY_LOCATION_LOCAL_STORAGE \<and>
         is_hash_supported (PSA_ALG_HMAC_GET_HASH alg) \<and> memory_suffices (calloc_outcomes (keystore sys1)) \<longrightarrow>
         status = PSA_SUCCESS \<and> memory_suffices oc"
      let ?sys2 = "sys1\<lparr>keystore := (keystore sys1)\<lparr>calloc_outcomes := oc\<rparr>\<rparr>"
      from unlock_harmless [OF got(3,2,5) calloc_harmless [OF ok1, of oc]] obtain g3 where
        u: "psa_unregister_read (Some r) (keystore ?sys2) = (PSA_SUCCESS, g3)" "harmless sys (?sys2\<lparr>keystore := g3\<rparr>)" by blast
      have tag: "take t (hmac_standard (PSA_ALG_HMAC_GET_HASH alg) (slot_material s) input) = slot_tag s alg input"
        using v(2) by (simp add: slot_tag_def)
      have len: "length (slot_tag s alg input) = t" if "status = PSA_SUCCESS"
        using length_hmac_standard c(4) that v(5) tag by (metis length_take min_absorb2)
      have lm: "length mac' = n" using c(2) len mac tn tag by (cases "status = PSA_SUCCESS") simp_all
      have "psa_mac_compute_internal cm key alg input mac n is_sign sys =
          (status, if status = PSA_SUCCESS then slot_tag s alg input @ replicate (n - t) 0x21 else replicate n 0x21,
           if status = PSA_SUCCESS then t else n, ?sys2\<lparr>keystore := g3\<rparr>)"
        using True u(1) lm len c(2)
        by (simp add: psa_mac_compute_internal_def got(1) get f c(1,3) psa_unregister_read_under_mutex_def wipe_tag tag)
      moreover have "\<forall>r' sys'. psa_get_and_lock_key_slot_with_policy key (mac_usage is_sign) alg sys = (PSA_SUCCESS, Some r', sys') \<and>
          mac_possible alg (slot_attr (get_key_slot (keystore sys') r')) \<and> memory_suffices (calloc_outcomes (keystore sys')) \<and>
          snd (psa_mac_finalize_alg_and_key_validation alg (slot_attr (get_key_slot (keystore sys') r')) 0) \<le> n \<longrightarrow>
          status = PSA_SUCCESS \<and> memory_suffices (calloc_outcomes (keystore (?sys2\<lparr>keystore := g3\<rparr>)))"
        using c(5) got(1) get unregister_calloc [of "Some r" "keystore ?sys2"] u(1) by (auto simp: mac_possible_def)
      ultimately show thesis using that [of status] u(2) got(4,6) v(1,3) tn len by auto
    qed
  qed
qed

section \<open>The calls over the map of keys\<close>

lemma mac_length_byte: "PSA_ALG_IS_HMAC alg \<Longrightarrow> PSA_MAC_LENGTH t b alg mod 256 = PSA_MAC_LENGTH t b alg"
proof -
  have "PSA_MAC_TRUNCATED_LENGTH alg < 2 ^ 6"
  proof -
    have "drop_bit 16 (alg AND PSA_ALG_MAC_TRUNCATION_MASK) = take_bit 6 (drop_bit 16 alg)"
      by (simp add: drop_bit_and take_bit_eq_mask mask_eq_exp_minus_1)
    then show ?thesis by (simp only: PSA_MAC_TRUNCATED_LENGTH_def unsigned_take_bit_eq take_bit_nat_less_exp)
  qed
  moreover have "PSA_HASH_LENGTH h < 256" for h by (simp add: PSA_HASH_LENGTH_def Let_def)
  ultimately show "PSA_ALG_IS_HMAC alg \<Longrightarrow> ?thesis" by (simp add: PSA_MAC_LENGTH_def)
qed

text \<open>The tag under a key with the given attributes and material, and the permission to use it.\<close>

definition key_tag :: "psa_key_attributes \<Rightarrow> bytes \<Rightarrow> psa_algorithm \<Rightarrow> bytes \<Rightarrow> bytes" where
  "key_tag a m alg input = take (PSA_MAC_LENGTH (attr_type a) (unat (attr_bits a)) alg) (hmac_standard (PSA_ALG_HMAC_GET_HASH alg) m input)"

definition mac_permitted :: "bool \<Rightarrow> psa_key_attributes \<Rightarrow> psa_algorithm \<Rightarrow> bool" where
  "mac_permitted is_sign a alg \<longleftrightarrow> attr_type a = PSA_KEY_TYPE_HMAC \<and>
     policy_usage (attr_policy a) AND mac_usage is_sign = mac_usage is_sign \<and>
     psa_key_policy_permits (attr_policy a) (attr_type a) alg = PSA_SUCCESS"

lemma checked_permitted:
  assumes "policy_check s (mac_usage is_sign) alg = PSA_SUCCESS" "attr_type (slot_attr s) = PSA_KEY_TYPE_HMAC" "alg \<noteq> 0"
  shows "mac_permitted is_sign (extend_attributes (slot_attr s)) alg"
proof -
  have u: "requested_usage s (mac_usage is_sign) = mac_usage is_sign"
    using assms(2) by (simp add: requested_usage_def)
  have "policy_usage (attr_policy (slot_attr s)) AND mac_usage is_sign = mac_usage is_sign"
    and p: "psa_key_policy_permits (attr_policy (slot_attr s)) (attr_type (slot_attr s)) alg = PSA_SUCCESS"
    using assms(1,3) unfolding policy_check_def u Let_def by (simp_all split: if_splits)
  from extend_usage_keeps [OF this(1)] have "policy_usage (attr_policy (extend_attributes (slot_attr s))) AND mac_usage is_sign = mac_usage is_sign"
    by (simp only: policy_usage_extend)
  moreover have "psa_key_policy_permits (attr_policy (extend_attributes (slot_attr s))) (attr_type (slot_attr s)) alg = PSA_SUCCESS"
  proof -
    have "psa_key_policy_permits (q\<lparr>policy_usage := u\<rparr>) kt alg = psa_key_policy_permits q kt alg" for q u kt
      by (simp add: psa_key_policy_permits_def)
    with p show ?thesis by (simp add: extend_attributes_def)
  qed
  ultimately show ?thesis using assms(2) by (simp add: mac_permitted_def)
qed

lemma calloc_inv:
  "system_inv sys \<Longrightarrow> system_inv (sys\<lparr>keystore := (keystore sys)\<lparr>calloc_outcomes := oc\<rparr>\<rparr>) \<and>
    key_view (sys\<lparr>keystore := (keystore sys)\<lparr>calloc_outcomes := oc\<rparr>\<rparr>) = key_view sys"
  using harmless_inv [OF _ calloc_harmless [OF system_invD(1)]] by blast

lemma compute_internal_view:
  assumes inv: "system_inv sys" and alg: "PSA_ALG_IS_HMAC alg" and input: "length input < 2 ^ 32" and mac: "length mac = n"
    and key: "\<forall>a m. key_view sys key a m \<longrightarrow> length m < 2 ^ 32"
  obtains st mac' len sys' where "psa_mac_compute_internal cm key alg input mac n is_sign sys = (st, mac', len, sys')"
    "system_inv sys'" "key_view sys' = key_view sys" "st \<noteq> PSA_SUCCESS \<longrightarrow> mac' = replicate n 0x21 \<and> len = n"
    "st = PSA_SUCCESS \<longrightarrow> (\<exists>a m. key_view sys key a m \<and> mac_permitted is_sign a alg \<and> 4 \<le> len \<and> len \<le> n \<and>
       length (key_tag a m alg input) = len \<and> mac' = key_tag a m alg input @ replicate (n - len) 0x21)"
    "\<forall>r sys1. psa_get_and_lock_key_slot_with_policy key (mac_usage is_sign) alg sys = (PSA_SUCCESS, Some r, sys1) \<and>
       mac_possible alg (slot_attr (get_key_slot (keystore sys1) r)) \<and> memory_suffices (calloc_outcomes (keystore sys1)) \<and>
       snd (psa_mac_finalize_alg_and_key_validation alg (slot_attr (get_key_slot (keystore sys1) r)) 0) \<le> n \<longrightarrow>
       st = PSA_SUCCESS \<and> memory_suffices (calloc_outcomes (keystore sys'))"
proof -
  note view = found_view [OF system_invD(3) [OF inv]]
  have k: "length (slot_material s) < 2 ^ 32" if "found_key sys key s" for s using view [OF that] key by blast
  show thesis
  proof (rule mac_compute_internal_result [OF system_invD(1) [OF inv] alg input mac k, where cm = cm and is_sign = is_sign])
    fix st mac' len sys'
    assume r: "psa_mac_compute_internal cm key alg input mac n is_sign sys = (st, mac', len, sys')" "harmless sys sys'"
      "st \<noteq> PSA_SUCCESS \<longrightarrow> mac' = replicate n 0x21 \<and> len = n"
      "st = PSA_SUCCESS \<longrightarrow> (\<exists>s. found_key sys key s \<and> policy_check s (mac_usage is_sign) alg = PSA_SUCCESS \<and>
         attr_type (slot_attr s) = PSA_KEY_TYPE_HMAC \<and> 4 \<le> len \<and> len \<le> n \<and> length (slot_tag s alg input) = len \<and>
         mac' = slot_tag s alg input @ replicate (n - len) 0x21)"
    "\<forall>r sys1. psa_get_and_lock_key_slot_with_policy key (mac_usage is_sign) alg sys = (PSA_SUCCESS, Some r, sys1) \<and>
       mac_possible alg (slot_attr (get_key_slot (keystore sys1) r)) \<and> memory_suffices (calloc_outcomes (keystore sys1)) \<and>
       snd (psa_mac_finalize_alg_and_key_validation alg (slot_attr (get_key_slot (keystore sys1) r)) 0) \<le> n \<longrightarrow>
       st = PSA_SUCCESS \<and> memory_suffices (calloc_outcomes (keystore sys'))"
    have tag: "slot_tag s alg input = key_tag (extend_attributes (slot_attr s)) (slot_material s) alg input" for s
      by (simp add: slot_tag_def key_tag_def mac_length_byte [OF alg])
    have "\<exists>a m. key_view sys key a m \<and> mac_permitted is_sign a alg \<and> 4 \<le> len \<and> len \<le> n \<and>
        length (key_tag a m alg input) = len \<and> mac' = key_tag a m alg input @ replicate (n - len) 0x21" if success: "st = PSA_SUCCESS"
    proof -
      from r(4) success obtain s where s: "found_key sys key s" "policy_check s (mac_usage is_sign) alg = PSA_SUCCESS"
        "attr_type (slot_attr s) = PSA_KEY_TYPE_HMAC" "4 \<le> len" "len \<le> n" "length (slot_tag s alg input) = len"
        "mac' = slot_tag s alg input @ replicate (n - len) 0x21" by blast
      have "alg \<noteq> 0" using hmac_not_cmac [OF alg] by blast
      from view [OF s(1)] checked_permitted [OF s(2,3) this] s(4-7) show ?thesis unfolding tag by blast
    qed
    with that [OF r(1) harmless_inv [OF inv r(2)] r(3) _ r(5)] show thesis by blast
  qed
qed

lemma mac_compute_view:
  assumes inv: "system_inv sys" and alg: "PSA_ALG_IS_HMAC alg" and input: "length input < 2 ^ 32" and buf: "length buf = n"
    and key: "\<forall>a m. key_view sys key a m \<longrightarrow> length m < 2 ^ 32"
    and e: "psa_mac_compute cm key alg input (Some buf) n sys = (st, out, len, sys')"
  shows "system_inv sys' \<and> key_view sys' = key_view sys \<and>
    (if st = PSA_SUCCESS
     then \<exists>a m t. key_view sys key a m \<and> mac_permitted True a alg \<and> 4 \<le> t \<and> t \<le> n \<and> len = Some t \<and>
            length (key_tag a m alg input) = t \<and> out = Some (key_tag a m alg input @ replicate (n - t) 0x21)
     else out = Some buf \<or> out = Some (replicate n 0x21))"
proof -
  let ?o1 = "calloc_outcomes (keystore sys)"
  obtain s1 li o2 where 1: "psa_crypto_local_input_alloc input ?o1 = (s1, li, o2)" by (rule prod_cases3)
  let ?sys1 = "sys\<lparr>keystore := (keystore sys)\<lparr>calloc_outcomes := o2\<rparr>\<rparr>"
  note i1 = calloc_inv [OF inv, of o2]
  show ?thesis
  proof (cases "s1 = PSA_SUCCESS")
    case False
    with e 1 i1 show ?thesis by (simp add: psa_mac_compute_def)
  next
    case s1: True
    have c: "contents (input_buffer li) = input" by (rule local_input_contents [OF 1 [unfolded s1]])
    obtain s2 lo o3 where 2: "psa_crypto_local_output_alloc (Some buf) n o2 = (s2, lo, o3)" by (rule prod_cases3)
    let ?sys2 = "?sys1\<lparr>keystore := (keystore ?sys1)\<lparr>calloc_outcomes := o3\<rparr>\<rparr>"
    have i2: "system_inv ?sys2" "key_view ?sys2 = key_view sys" using calloc_inv [of ?sys1 o3] i1 by simp_all
    show ?thesis
    proof (cases "s2 = PSA_SUCCESS")
      case False
      then have "lo = PSA_CRYPTO_LOCAL_OUTPUT_INIT" using 2 by (auto simp: local_output_alloc_eq split: if_splits)
      with e 1 2 s1 False i2 show ?thesis by (simp add: psa_mac_compute_def)
    next
      case s2: True
      have lo: "lo = (if n = 0 then PSA_CRYPTO_LOCAL_OUTPUT_INIT
          else \<lparr>output_original = Some buf, output_buffer = Some (replicate n 0), output_length = n\<rparr>)"
        using 2 s2 by (auto simp: local_output_alloc_eq split: if_splits)
      have "length (contents (output_buffer lo)) = n" by (simp add: lo PSA_CRYPTO_LOCAL_OUTPUT_INIT_def)
      moreover have "\<forall>a m. key_view ?sys2 key a m \<longrightarrow> length m < 2 ^ 32" using key unfolding i2(2) .
      ultimately show ?thesis
      proof (rule compute_internal_view [OF i2(1) alg input, where n = n and key = key and cm = cm and is_sign = True])
        fix st' mac' len' sys3
        assume r: "psa_mac_compute_internal cm key alg input (contents (output_buffer lo)) n True ?sys2 = (st', mac', len', sys3)"
          "system_inv sys3" "key_view sys3 = key_view ?sys2" "st' \<noteq> PSA_SUCCESS \<longrightarrow> mac' = replicate n 0x21 \<and> len' = n"
          "st' = PSA_SUCCESS \<longrightarrow> (\<exists>a m. key_view ?sys2 key a m \<and> mac_permitted True a alg \<and> 4 \<le> len' \<and> len' \<le> n \<and>
             length (key_tag a m alg input) = len' \<and> mac' = key_tag a m alg input @ replicate (n - len') 0x21)"
        have lm: "length mac' = length buf" using r(4,5) buf by (cases "st' = PSA_SUCCESS") auto
        have free: "LOCAL_OUTPUT_FREE (if output_buffer lo = None then lo else lo\<lparr>output_buffer := Some mac'\<rparr>) (Some buf) st' = (st', Some mac')"
        proof (cases "n = 0")
          case True
          then show ?thesis using lm buf unfolding lo by (simp add: PSA_CRYPTO_LOCAL_OUTPUT_INIT_def LOCAL_OUTPUT_FREE_def psa_crypto_local_output_free_def)
        next
          case False
          then show ?thesis using local_output_free_copy [OF lm, of st'] lm buf unfolding lo by simp
        qed
        have "(st, out, len, sys') = (st', Some mac', Some len', sys3)"
          using e 1 2 s1 s2 c r(1) free by (simp add: psa_mac_compute_def)
        with r(2-5) i2(2) show ?thesis by auto
      qed
    qed
  qed
qed

lemma mac_verify_view:
  assumes inv: "system_inv sys" and alg: "PSA_ALG_IS_HMAC alg" and input: "length input < 2 ^ 32"
    and key: "\<forall>a m. key_view sys key a m \<longrightarrow> length m < 2 ^ 32"
    and e: "psa_mac_verify cm key alg input mac sys = (st, sys')"
  shows "system_inv sys' \<and> key_view sys' = key_view sys \<and>
    ((\<exists>a m. key_view sys key a m \<and> mac_permitted False a alg \<and> 4 \<le> length (key_tag a m alg input) \<and>
        st = (if mac = key_tag a m alg input then PSA_SUCCESS else PSA_ERROR_INVALID_SIGNATURE)) \<or>
     st = PSA_ERROR_INSUFFICIENT_MEMORY \<or>
     st \<noteq> PSA_SUCCESS \<and> (\<forall>mac'. fst (psa_mac_verify cm key alg input mac' sys) = st))"
proof -
  obtain s1 li o2 where 1: "psa_crypto_local_input_alloc input (calloc_outcomes (keystore sys)) = (s1, li, o2)" by (rule prod_cases3)
  let ?sys1 = "sys\<lparr>keystore := (keystore sys)\<lparr>calloc_outcomes := o2\<rparr>\<rparr>"
  have i1: "system_inv ?sys1" "key_view ?sys1 = key_view sys" using calloc_inv [OF inv, of o2] by simp_all
  show ?thesis
  proof (cases "s1 = PSA_SUCCESS")
    case False
    with 1 have v: "psa_mac_verify cm key alg input mac' sys = (s1, ?sys1)" for mac' by (simp add: psa_mac_verify_def)
    with e i1 False show ?thesis by auto
  next
    case s1: True
    have c: "contents (input_buffer li) = input" by (rule local_input_contents [OF 1 [unfolded s1]])
    have k: "\<forall>a m. key_view ?sys1 key a m \<longrightarrow> length m < 2 ^ 32" using key unfolding i1(2) .
    show ?thesis
    proof (rule compute_internal_view [OF i1(1) alg input length_replicate k, where n = 64 and cm = cm and is_sign = False])
      fix st' mac' len sys3
      assume r: "psa_mac_compute_internal cm key alg input (replicate 64 0) 64 False ?sys1 = (st', mac', len, sys3)"
        "system_inv sys3" "key_view sys3 = key_view ?sys1"
        "st' = PSA_SUCCESS \<longrightarrow> (\<exists>a m. key_view ?sys1 key a m \<and> mac_permitted False a alg \<and> 4 \<le> len \<and> len \<le> 64 \<and>
           length (key_tag a m alg input) = len \<and> mac' = key_tag a m alg input @ replicate (64 - len) 0x21)"
      show ?thesis
      proof (cases "st' = PSA_SUCCESS")
        case False
        with 1 s1 c r(1) have v: "psa_mac_verify cm key alg input mac'' sys = (st', sys3)" for mac'' by (simp add: psa_mac_verify_def)
        with e i1 r(2,3) False show ?thesis by auto
      next
        case s': True
        with r(4) obtain a m where t: "key_view sys key a m" "mac_permitted False a alg" "4 \<le> len"
          "length (key_tag a m alg input) = len" "mac' = key_tag a m alg input @ replicate (64 - len) 0x21"
          unfolding i1(2) by blast
        obtain s4 li4 o4 where 4: "psa_crypto_local_input_alloc mac (calloc_outcomes (keystore sys3)) = (s4, li4, o4)" by (rule prod_cases3)
        have s4: "s4 = PSA_SUCCESS \<or> s4 = PSA_ERROR_INSUFFICIENT_MEMORY" using 4 by (auto simp: local_input_alloc_eq split: if_splits)
        have c4: "contents (input_buffer li4) = mac" if "s4 = PSA_SUCCESS" by (rule local_input_contents [OF 4 [unfolded that]])
        note i3 = calloc_inv [OF r(2), of o4]
        have v: "(st, sys') = (if length mac \<noteq> len then (PSA_ERROR_INVALID_SIGNATURE, sys3)
            else (if s4 \<noteq> PSA_SUCCESS then s4 else if mac = key_tag a m alg input then PSA_SUCCESS else PSA_ERROR_INVALID_SIGNATURE,
                  sys3\<lparr>keystore := (keystore sys3)\<lparr>calloc_outcomes := o4\<rparr>\<rparr>))"
          using e 1 s1 c r(1) s' 4 c4 memcmp_digest [OF t(4), of mac "replicate (64 - len) 0x21"]
          by (auto simp: psa_mac_verify_def t(5) split: if_splits)
        show ?thesis
        proof (cases "length mac = len \<and> s4 \<noteq> PSA_SUCCESS")
          case True
          with v s4 i3 r(3) i1(2) show ?thesis by simp
        next
          case False
          with v t(4) have "st = (if mac = key_tag a m alg input then PSA_SUCCESS else PSA_ERROR_INVALID_SIGNATURE)"
            "system_inv sys'" "key_view sys' = key_view sys"
            using i3 r(2,3) i1(2) by (auto split: if_splits)
          with t show ?thesis by blast
        qed
      qed
    qed
  qed
qed

section \<open>Tags in several steps\<close>

definition mac_active :: "bool \<Rightarrow> psa_algorithm \<Rightarrow> bytes \<Rightarrow> nat \<Rightarrow> 'c psa_mac_operation \<Rightarrow> bytes \<Rightarrow> bool" where
  "mac_active is_sign alg key t operation m \<longleftrightarrow> mac_id operation = 1 \<and> mac_is_sign operation = is_sign \<and>
     mac_mac_size operation = t \<and> 4 \<le> t \<and> t \<le> 64 \<and> t \<le> PSA_HASH_LENGTH (PSA_ALG_HMAC_GET_HASH alg) \<and>
     mac_absorbing alg key (mac_driver operation) m"

lemma api_mac_abort:
  assumes "mac_id operation = 0 \<or> mac_id operation = 1 \<and> PSA_ALG_IS_HMAC (mac_alg (mac_driver operation))"
  shows "fst (psa_mac_abort cm operation) = PSA_SUCCESS \<and> mac_id (snd (psa_mac_abort cm operation)) = 0"
  using assms driver_mac_abort [of "mac_driver operation" cm]
  by (auto simp: psa_mac_abort_def psa_driver_wrapper_mac_abort_def split_def Let_def)

lemma wrapper_mac_setup:
  assumes "PSA_ALG_IS_HMAC alg" "length key < 2 ^ 32" "mac_id operation = 0" "mac_driver operation = MBEDTLS_PSA_MAC_OPERATION_INIT"
  obtains st operation' oc where
    "(if is_sign then psa_driver_wrapper_mac_sign_setup cm operation attr key alg outcomes
      else psa_driver_wrapper_mac_verify_setup cm operation attr key alg outcomes) = (st, operation', oc)"
    "mac_is_sign operation' = mac_is_sign operation" "mac_mac_size operation' = mac_mac_size operation"
    "if st = PSA_SUCCESS then mac_id operation' = 1 \<and> mac_absorbing alg key (mac_driver operation') [] else mac_id operation' = 0"
    "PSA_KEY_LIFETIME_GET_LOCATION (attr_lifetime attr) = PSA_KEY_LOCATION_LOCAL_STORAGE \<and>
     is_hash_supported (PSA_ALG_HMAC_GET_HASH alg) \<and> memory_suffices outcomes \<longrightarrow> st = PSA_SUCCESS"
proof (cases "PSA_KEY_LIFETIME_GET_LOCATION (attr_lifetime attr) = PSA_KEY_LOCATION_LOCAL_STORAGE")
  case False
  with assms that [of PSA_ERROR_INVALID_ARGUMENT operation outcomes] show thesis
    by (simp add: psa_driver_wrapper_mac_sign_setup_def psa_driver_wrapper_mac_verify_setup_def)
next
  case True
  obtain st op1 oc where 1: "driver_psa_mac_setup cm MBEDTLS_PSA_MAC_OPERATION_INIT attr key alg outcomes = (st, op1, oc)"
      "is_hash_supported (PSA_ALG_HMAC_GET_HASH alg) \<longrightarrow> only_memory_fails outcomes st oc"
      "if st = PSA_SUCCESS then mac_absorbing alg key op1 [] else mac_alg op1 = 0"
      "\<not> is_hash_supported (PSA_ALG_HMAC_GET_HASH alg) \<longrightarrow> st \<noteq> PSA_SUCCESS"
    by (rule driver_mac_setup [OF assms(1,2)])
  let ?op = "if st = PSA_SUCCESS then operation\<lparr>mac_driver := op1, mac_id := 1\<rparr> else operation\<lparr>mac_driver := op1\<rparr>"
  have "(if is_sign then psa_driver_wrapper_mac_sign_setup cm operation attr key alg outcomes
      else psa_driver_wrapper_mac_verify_setup cm operation attr key alg outcomes) = (st, ?op, oc)"
    using True assms(4) 1(1)
    by (simp add: psa_driver_wrapper_mac_sign_setup_def psa_driver_wrapper_mac_verify_setup_def
        mbedtls_psa_mac_sign_setup_def mbedtls_psa_mac_verify_setup_def Let_def)
  from that [OF this] 1(2,3) assms(3) show thesis by (simp add: only_memory_fails_def)
qed

lemma validation_status:
  "fst (psa_mac_finalize_alg_and_key_validation alg attr m) = fst (psa_mac_finalize_alg_and_key_validation alg attr m')"
  by (simp add: psa_mac_finalize_alg_and_key_validation_def Let_def)

lemma mac_setup_result:
  assumes ok: "system_ok sys" and alg: "PSA_ALG_IS_HMAC alg" and id: "mac_id operation = 0"
    and key: "\<And>s. found_key sys key s \<Longrightarrow> length (slot_material s) < 2 ^ 32"
  obtains st operation' sys' where "psa_mac_setup cm operation key alg is_sign sys = (st, operation', sys')" "harmless sys sys'"
    "st \<noteq> PSA_SUCCESS \<longrightarrow> mac_id operation' = 0"
    "st = PSA_SUCCESS \<longrightarrow> (\<exists>s. found_key sys key s \<and> policy_check s (mac_usage is_sign) alg = PSA_SUCCESS \<and>
       attr_type (slot_attr s) = PSA_KEY_TYPE_HMAC \<and>
       mac_active is_sign alg (slot_material s) (PSA_MAC_LENGTH (attr_type (slot_attr s)) (unat (attr_bits (slot_attr s))) alg) operation' [])"
    "\<forall>r sys1. psa_get_and_lock_key_slot_with_policy key (mac_usage is_sign) alg sys = (PSA_SUCCESS, Some r, sys1) \<and>
       mac_possible alg (slot_attr (get_key_slot (keystore sys1) r)) \<and> memory_suffices (calloc_outcomes (keystore sys1)) \<longrightarrow> st = PSA_SUCCESS"
proof -
  let ?op = "operation\<lparr>mac_driver := MBEDTLS_PSA_MAC_OPERATION_INIT\<rparr>"
  show thesis
  proof (cases rule: with_policy_result [OF ok, of key "mac_usage is_sign" alg, case_names got refused failed])
    case (refused st s sys1)
    then show thesis using id
      by (intro that [of st ?op sys1]) (simp_all add: psa_mac_setup_def psa_unregister_read_under_mutex_def psa_unregister_read_def psa_mac_abort_def)
  next
    case (failed st sys1)
    then show thesis using id
      by (intro that [of st ?op sys1]) (simp_all add: psa_mac_setup_def psa_unregister_read_under_mutex_def psa_unregister_read_def psa_mac_abort_def)
  next
    case (got r s sys1)
    have ok1: "system_ok sys1" using got(2) by (simp add: calm_def)
    note get = locked_get [OF got(3)]
    obtain stf t where f: "psa_mac_finalize_alg_and_key_validation alg (slot_attr s) (mac_mac_size operation) = (stf, t)" by fastforce
    let ?op1 = "?op\<lparr>mac_mac_size := t\<rparr>"
    show thesis
    proof (cases "stf = PSA_SUCCESS")
      case False
      from unlock_harmless [OF got(3,2,5) harmless_refl [OF ok1]] obtain g3 where
        u: "psa_unregister_read (Some r) (keystore sys1) = (PSA_SUCCESS, g3)" "harmless sys (sys1\<lparr>keystore := g3\<rparr>)" by blast
      have "psa_mac_setup cm operation key alg is_sign sys = (stf, ?op1, sys1\<lparr>keystore := g3\<rparr>)"
        using False id by (simp add: psa_mac_setup_def got(1) get f u(1) psa_unregister_read_under_mutex_def psa_mac_abort_def)
      moreover have "\<not> mac_possible alg (slot_attr s)"
        using validation_status [of alg "slot_attr s" 0 "mac_mac_size operation"] f False by (simp add: mac_possible_def)
      ultimately show thesis using that u(2) False id got(1) get by auto
    next
      case True
      note v = mac_validation [OF alg f [unfolded True]]
      let ?op2 = "?op1\<lparr>mac_is_sign := is_sign\<rparr>"
      have op2: "mac_id ?op2 = 0" "mac_driver ?op2 = MBEDTLS_PSA_MAC_OPERATION_INIT" using id by simp_all
      obtain st op3 oc where 3: "(if is_sign
            then psa_driver_wrapper_mac_sign_setup cm ?op2 (slot_attr s) (slot_material s) alg (calloc_outcomes (keystore sys1))
            else psa_driver_wrapper_mac_verify_setup cm ?op2 (slot_attr s) (slot_material s) alg (calloc_outcomes (keystore sys1))) = (st, op3, oc)"
          "mac_is_sign op3 = mac_is_sign ?op2" "mac_mac_size op3 = mac_mac_size ?op2"
          "if st = PSA_SUCCESS then mac_id op3 = 1 \<and> mac_absorbing alg (slot_material s) (mac_driver op3) [] else mac_id op3 = 0"
          "PSA_KEY_LIFETIME_GET_LOCATION (attr_lifetime (slot_attr s)) = PSA_KEY_LOCATION_LOCAL_STORAGE \<and>
           is_hash_supported (PSA_ALG_HMAC_GET_HASH alg) \<and> memory_suffices (calloc_outcomes (keystore sys1)) \<longrightarrow> st = PSA_SUCCESS"
        by (rule wrapper_mac_setup [OF alg key [OF got(4)] op2])
      let ?sys2 = "sys1\<lparr>keystore := (keystore sys1)\<lparr>calloc_outcomes := oc\<rparr>\<rparr>"
      from unlock_harmless [OF got(3,2,5) calloc_harmless [OF ok1, of oc]] obtain g3 where
        u: "psa_unregister_read (Some r) (keystore ?sys2) = (PSA_SUCCESS, g3)" "harmless sys (?sys2\<lparr>keystore := g3\<rparr>)" by blast
      have "psa_mac_setup cm operation key alg is_sign sys = (st, op3, ?sys2\<lparr>keystore := g3\<rparr>)"
        using 3(4) id u(1) by (simp add: psa_mac_setup_def got(1) get f True 3(1) psa_unregister_read_under_mutex_def psa_mac_abort_def)
      moreover have "st \<noteq> PSA_SUCCESS \<longrightarrow> mac_id op3 = 0" using 3(4) by simp
      moreover have "st = PSA_SUCCESS \<longrightarrow> mac_active is_sign alg (slot_material s)
          (PSA_MAC_LENGTH (attr_type (slot_attr s)) (unat (attr_bits (slot_attr s))) alg) op3 []"
        using 3 v mac_length_byte [OF alg] by (simp add: mac_active_def)
      moreover have "\<forall>r' sys'. psa_get_and_lock_key_slot_with_policy key (mac_usage is_sign) alg sys = (PSA_SUCCESS, Some r', sys') \<and>
          mac_possible alg (slot_attr (get_key_slot (keystore sys') r')) \<and> memory_suffices (calloc_outcomes (keystore sys')) \<longrightarrow> st = PSA_SUCCESS"
        using 3(5) got(1) get by (auto simp: mac_possible_def)
      ultimately show thesis using that u(2) got(4,6) v(1) by blast
    qed
  qed
qed

lemma mac_active_driver:
  assumes "mac_active is_sign alg key t operation m"
  shows "mac_id operation = 1" "mac_is_sign operation = is_sign" "mac_mac_size operation = t" "4 \<le> t" "t \<le> 64"
    "t \<le> PSA_HASH_LENGTH (PSA_ALG_HMAC_GET_HASH alg)" "mac_absorbing alg key (mac_driver operation) m"
    "PSA_ALG_IS_HMAC alg" "is_hash_supported (PSA_ALG_HMAC_GET_HASH alg)"
  using assms mac_absorbing_hmac by (auto simp: mac_active_def)

text \<open>A piece that finds no memory for its copy leaves the operation as it was; any other failure ends it.\<close>

lemma mac_update_result:
  assumes a: "mac_active is_sign alg key t operation m" and input: "length input < 2 ^ 32"
  obtains st operation' oc where "psa_mac_update cm operation input outcomes = (st, operation', oc)"
    "only_memory_fails outcomes st oc" "st = PSA_SUCCESS \<longrightarrow> mac_active is_sign alg key t operation' (m @ input)"
    "st \<noteq> PSA_SUCCESS \<longrightarrow> operation' = operation \<or> mac_id operation' = 0"
proof -
  note d = mac_active_driver [OF a]
  show thesis
  proof (cases "input = []")
    case True
    with a d(1) that [of PSA_SUCCESS operation outcomes] show thesis by (simp add: psa_mac_update_def only_memory_refl)
  next
    case ne: False
    show thesis
    proof (cases "fst (mbedtls_calloc outcomes)")
      case False
      with ne d(1) that [of PSA_ERROR_INSUFFICIENT_MEMORY operation "snd (mbedtls_calloc outcomes)"] only_memory_calloc [of outcomes]
      show thesis by (simp add: psa_mac_update_def local_input_alloc_eq)
    next
      case True
      let ?o1 = "snd (mbedtls_calloc outcomes)"
      have m1: "only_memory_fails outcomes PSA_SUCCESS ?o1" using only_memory_calloc [of outcomes] True by simp
      obtain st ctx oc where u: "mbedtls_psa_mac_update cm (mac_driver operation) input ?o1 = (st, ctx, oc)"
          "only_memory_fails ?o1 st oc" "mac_alg ctx = alg" "st = PSA_SUCCESS \<longrightarrow> mac_absorbing alg key ctx (m @ input)"
        by (rule driver_mac_update [OF d(7) input])
      let ?op = "operation\<lparr>mac_driver := ctx\<rparr>"
      have e: "psa_mac_update cm operation input outcomes = (st, if st \<noteq> PSA_SUCCESS then snd (psa_mac_abort cm ?op) else ?op, oc)"
        using ne True d(1) by (simp add: psa_mac_update_def local_input_alloc_eq psa_driver_wrapper_mac_update_def u(1))
      have "mac_id (snd (psa_mac_abort cm ?op)) = 0" using api_mac_abort [of ?op cm] d(1,8) u(3) by simp
      with that [OF e only_memory_trans [OF m1 u(2)]] u(4) d show thesis by (simp add: mac_active_def)
    qed
  qed
qed

interpretation mac_pieces: message_stream "mac_active is_sign alg key t" "psa_mac_update cm"
  for is_sign alg key t and cm :: "('i, 'c) cmac_cipher"
proof
  fix operation :: "'c psa_mac_operation" and m input outcomes
  assume a: "mac_active is_sign alg key t operation m" "length (input :: bytes) < 2 ^ 32"
  show "\<exists>status operation' outcomes'. psa_mac_update cm operation input outcomes = (status, operation', outcomes') \<and>
      only_memory_fails outcomes status outcomes' \<and> (status = PSA_SUCCESS \<longrightarrow> mac_active is_sign alg key t operation' (m @ input))"
    by (rule mac_update_result [OF a, of cm outcomes]) blast
qed

lemma mac_sign_finish_result:
  assumes a: "mac_active True alg key t operation m" and buf: "length buf = n" "t \<le> n"
  obtains st operation' out len oc where "psa_mac_sign_finish cm operation (Some buf) n outcomes = (st, operation', out, len, oc)"
    "only_memory_fails outcomes st oc" "mac_id operation' = 0"
    "st = PSA_SUCCESS \<longrightarrow> len = t \<and> out = Some (take t (hmac_standard (PSA_ALG_HMAC_GET_HASH alg) key m) @ replicate (n - t) 0x21)"
    "st \<noteq> PSA_SUCCESS \<longrightarrow> len = n \<and> (out = Some buf \<or> out = Some (replicate n 0x21))"
proof -
  note d = mac_active_driver [OF a]
  have n: "n \<noteq> 0" "t \<noteq> 0" using d(4) buf by simp_all
  let ?o1 = "snd (mbedtls_calloc outcomes)" and ?lo = "\<lparr>output_original = Some buf, output_buffer = Some (replicate n 0), output_length = n\<rparr>"
  show thesis
  proof (cases "fst (mbedtls_calloc outcomes)")
    case False
    let ?op = "operation\<lparr>mac_mac_size := 0\<rparr>"
    obtain sa op' where ab: "psa_mac_abort cm ?op = (sa, op')" by fastforce
    then have i: "mac_id op' = 0" using api_mac_abort [of ?op cm] d(1,8) mac_absorbing_hmac(2) [OF d(7)] by simp
    have "psa_mac_sign_finish cm operation (Some buf) n outcomes = (PSA_ERROR_INSUFFICIENT_MEMORY, op', Some buf, n, ?o1)"
      using False n by (simp add: psa_mac_sign_finish_def local_output_alloc_eq PSA_CRYPTO_LOCAL_OUTPUT_INIT_def ab
          LOCAL_OUTPUT_FREE_def psa_crypto_local_output_free_def)
    from that [OF this _ i] only_memory_calloc [of outcomes] False show thesis by simp
  next
    case True
    have m1: "only_memory_fails outcomes PSA_SUCCESS ?o1" using only_memory_calloc [of outcomes] True by simp
    let ?H = "hmac_standard (PSA_ALG_HMAC_GET_HASH alg) key m"
    obtain st ctx mac oc where f: "psa_mac_finish_internal cm (mac_driver operation) (replicate n 0) t ?o1 = (st, ctx, mac, oc)"
        "only_memory_fails ?o1 st oc" "mac_alg ctx = alg"
        "mac = (if st = PSA_SUCCESS then take t ?H @ drop t (replicate n 0) else replicate n 0)"
      by (rule driver_mac_finish [OF d(7,6)])
    have lm: "length mac = n" using f(4) buf(2) length_hmac_standard [OF d(9), of key m] d(6) by simp
    let ?op = "if st \<noteq> PSA_SUCCESS then operation\<lparr>mac_driver := ctx, mac_mac_size := 0\<rparr> else operation\<lparr>mac_driver := ctx\<rparr>"
    obtain sa op' where ab: "psa_mac_abort cm ?op = (sa, op')" by fastforce
    then have ab': "sa = PSA_SUCCESS" "mac_id op' = 0" using api_mac_abort [of ?op cm] d(1,8) f(3) by (simp_all split: if_splits)
    let ?out = "psa_wipe_tag_output_buffer mac st n (if st = PSA_SUCCESS then t else n)"
    have out: "?out = (if st = PSA_SUCCESS then take t ?H @ replicate (n - t) 0x21 else replicate n 0x21)" "length ?out = length buf"
      using f(4) lm buf d(6) length_hmac_standard [OF d(9), of key m] by (simp_all add: wipe_tag)
    have free: "LOCAL_OUTPUT_FREE (?lo\<lparr>output_buffer := Some ?out\<rparr>) (Some buf) st = (st, Some ?out)"
      using local_output_free_copy [OF out(2), of st] out(2) buf(1) by simp
    have al: "psa_crypto_local_output_alloc (Some buf) n outcomes = (PSA_SUCCESS, ?lo, ?o1)"
      using True n by (simp add: local_output_alloc_eq)
    have w: "psa_driver_wrapper_mac_sign_finish cm operation (replicate n 0) t ?o1 =
        (st, operation\<lparr>mac_driver := ctx\<rparr>, mac, if st = PSA_SUCCESS then Some t else None, oc)"
      using d(1) f(1) mac_absorbing_hmac(2,5) [OF d(7)]
      by (simp add: psa_driver_wrapper_mac_sign_finish_def mbedtls_psa_mac_sign_finish_def)
    have "psa_mac_sign_finish cm operation (Some buf) n outcomes = (st, op', Some ?out, if st = PSA_SUCCESS then t else n, oc)"
      using d(1-3) n buf(2) w ab ab'(1) free by (auto simp: psa_mac_sign_finish_def al split: if_splits)
    from that [OF this [unfolded out(1)] only_memory_trans [OF m1 f(2)] ab'(2)] show thesis by simp
  qed
qed

lemma mac_verify_finish_result:
  assumes a: "mac_active False alg key t operation m"
  obtains st operation' oc where "psa_mac_verify_finish cm operation mac outcomes = (st, operation', oc)" "mac_id operation' = 0"
    "st = (if mac = take t (hmac_standard (PSA_ALG_HMAC_GET_HASH alg) key m) then PSA_SUCCESS else PSA_ERROR_INVALID_SIGNATURE) \<or>
     st = PSA_ERROR_INSUFFICIENT_MEMORY \<and> \<not> memory_suffices outcomes"
proof -
  note d = mac_active_driver [OF a]
  note da = mac_absorbing_hmac [OF d(7)]
  let ?tag = "take t (hmac_standard (PSA_ALG_HMAC_GET_HASH alg) key m)" and ?o1 = "snd (mbedtls_calloc outcomes)"
  have tag: "length ?tag = t" using length_hmac_standard [OF d(9), of key m] d(6) by simp
  have done_op: "\<exists>op'. psa_mac_abort cm op = (PSA_SUCCESS, op') \<and> mac_id op' = 0"
    if "mac_id op = 1" "mac_alg (mac_driver op) = alg" for op
    using api_mac_abort [of op cm] that d(8) by (metis prod.collapse)
  from done_op [OF d(1) da(2)] obtain op0 where op0: "psa_mac_abort cm operation = (PSA_SUCCESS, op0)" "mac_id op0 = 0" by blast
  show thesis
  proof (cases "length mac = t")
    case False
    then have "mac \<noteq> ?tag" using tag by auto
    moreover have "psa_mac_verify_finish cm operation mac outcomes = (PSA_ERROR_INVALID_SIGNATURE, op0, outcomes)"
      using False d(1-3) op0 by (simp add: psa_mac_verify_finish_def)
    ultimately show thesis using that [OF _ op0(2)] by simp
  next
    case l: True
    then have "mac \<noteq> []" using d(4) by auto
    show thesis
    proof (cases "fst (mbedtls_calloc outcomes)")
      case False
      then have "psa_mac_verify_finish cm operation mac outcomes = (PSA_ERROR_INSUFFICIENT_MEMORY, op0, ?o1)"
        using l d(1-3) op0 \<open>mac \<noteq> []\<close> by (simp add: psa_mac_verify_finish_def local_input_alloc_eq)
      from that [OF this op0(2)] memory_calloc False show thesis by blast
    next
      case True
      obtain st ctx act oc where f: "psa_mac_finish_internal cm (mac_driver operation) (replicate 64 0) t ?o1 = (st, ctx, act, oc)"
          "only_memory_fails ?o1 st oc" "mac_alg ctx = alg"
          "act = (if st = PSA_SUCCESS then ?tag @ drop t (replicate 64 0) else replicate 64 0)"
        by (rule driver_mac_finish [OF d(7,6)])
      let ?op = "operation\<lparr>mac_driver := ctx\<rparr>"
      let ?st = "if st \<noteq> PSA_SUCCESS then st else if mac = ?tag then PSA_SUCCESS else PSA_ERROR_INVALID_SIGNATURE"
      from done_op [of ?op] d(1) f(3) obtain op' where ab: "psa_mac_abort cm ?op = (PSA_SUCCESS, op')" "mac_id op' = 0" by auto
      have "mbedtls_psa_mac_verify_finish cm (mac_driver operation) mac ?o1 = (?st, ctx, oc)"
        using f(1) l d(5) da(2,5) memcmp_digest [OF tag l, of "drop t (replicate 64 0)"] f(4)
        by (simp add: mbedtls_psa_mac_verify_finish_def)
      then have "psa_mac_verify_finish cm operation mac outcomes = (?st, op', oc)"
        using True l d(1-3) ab \<open>mac \<noteq> []\<close>
        by (simp add: psa_mac_verify_finish_def local_input_alloc_eq psa_driver_wrapper_mac_verify_finish_def)
      moreover have "st = PSA_SUCCESS \<or> st = PSA_ERROR_INSUFFICIENT_MEMORY \<and> \<not> memory_suffices outcomes"
        using f(2) memory_calloc [of outcomes] by (auto simp: only_memory_fails_def)
      ultimately show thesis using that [OF _ ab(2)] by (auto split: if_splits)
    qed
  qed
qed

text \<open>A tag is only written to a buffer that it fits in.\<close>

lemma mac_sign_finish_room:
  assumes "mac_active True alg key t operation m" "psa_mac_sign_finish cm operation (Some buf) n outcomes = (PSA_SUCCESS, operation', out, len, oc)"
  shows "t \<le> n"
proof (rule ccontr)
  assume n: "\<not> t \<le> n"
  note d = mac_active_driver [OF assms(1)]
  have free: "fst (LOCAL_OUTPUT_FREE lo out1 st) \<noteq> PSA_SUCCESS" if "st \<noteq> PSA_SUCCESS" for lo out1 st
    using that by (auto simp: LOCAL_OUTPUT_FREE_def split_def Let_def)
  obtain s1 lo o1 where al: "psa_crypto_local_output_alloc (Some buf) n outcomes = (s1, lo, o1)" by (rule prod_cases3)
  have "fst (psa_mac_sign_finish cm operation (Some buf) n outcomes) \<noteq> PSA_SUCCESS"
    using n d(1-4) free [of s1] free [of PSA_ERROR_BUFFER_TOO_SMALL]
    by (cases "s1 = PSA_SUCCESS") (simp_all add: psa_mac_sign_finish_def al split_def Let_def)
  with assms(2) show False by simp
qed

section \<open>The calls in several steps over the map of keys\<close>

lemma mac_setup_view:
  assumes inv: "system_inv sys" and alg: "PSA_ALG_IS_HMAC alg" and id: "mac_id operation = 0"
    and key: "\<forall>a m. key_view sys key a m \<longrightarrow> length m < 2 ^ 32"
    and e: "psa_mac_setup cm operation key alg is_sign sys = (st, operation', sys')"
  shows "system_inv sys' \<and> key_view sys' = key_view sys \<and>
    (if st = PSA_SUCCESS
     then \<exists>a m. key_view sys key a m \<and> mac_permitted is_sign a alg \<and>
            mac_active is_sign alg m (PSA_MAC_LENGTH (attr_type a) (unat (attr_bits a)) alg) operation' []
     else mac_id operation' = 0)"
proof -
  note view = found_view [OF system_invD(3) [OF inv]]
  have k: "length (slot_material s) < 2 ^ 32" if "found_key sys key s" for s using view [OF that] key by blast
  show ?thesis
  proof (rule mac_setup_result [OF system_invD(1) [OF inv] alg id k, where cm = cm and is_sign = is_sign])
    fix st1 operation1 sys1
    assume r: "psa_mac_setup cm operation key alg is_sign sys = (st1, operation1, sys1)" "harmless sys sys1"
      "st1 \<noteq> PSA_SUCCESS \<longrightarrow> mac_id operation1 = 0"
      "st1 = PSA_SUCCESS \<longrightarrow> (\<exists>s. found_key sys key s \<and> policy_check s (mac_usage is_sign) alg = PSA_SUCCESS \<and>
         attr_type (slot_attr s) = PSA_KEY_TYPE_HMAC \<and>
         mac_active is_sign alg (slot_material s) (PSA_MAC_LENGTH (attr_type (slot_attr s)) (unat (attr_bits (slot_attr s))) alg) operation1 [])"
    have "\<exists>a m. key_view sys key a m \<and> mac_permitted is_sign a alg \<and>
        mac_active is_sign alg m (PSA_MAC_LENGTH (attr_type a) (unat (attr_bits a)) alg) operation1 []" if "st1 = PSA_SUCCESS"
    proof -
      from r(4) that obtain s where s: "found_key sys key s" "policy_check s (mac_usage is_sign) alg = PSA_SUCCESS"
        "attr_type (slot_attr s) = PSA_KEY_TYPE_HMAC"
        "mac_active is_sign alg (slot_material s) (PSA_MAC_LENGTH (attr_type (slot_attr s)) (unat (attr_bits (slot_attr s))) alg) operation1 []"
        by blast
      have "alg \<noteq> 0" using hmac_not_cmac [OF alg] by blast
      from checked_permitted [OF s(2,3) this] view [OF s(1)] s(4) show ?thesis
        by (intro exI [of _ "extend_attributes (slot_attr s)"] exI [of _ "slot_material s"]) simp
    qed
    with e r(1,3) harmless_inv [OF inv r(2)] show ?thesis by auto
  qed
qed

lemma mac_pieces_fed:
  assumes "mac_active is_sign alg key t operation m" "\<forall>p\<in>set ps. length p < 2 ^ 32"
    "feed (psa_mac_update cm) operation ps outcomes = (PSA_SUCCESS, operation', outcomes')"
  shows "mac_active is_sign alg key t operation' (m @ concat ps)"
  using mac_pieces.feed_pieces [OF assms(1,2), of cm outcomes] assms(3) by simp

end
