(* ===== verification/Mac_Properties.thy ===== *)
theory Mac_Properties
  imports Mac_Calls Key_Properties
begin

text \<open>
  The properties of the MAC calls, for HMAC, over the map of keys.
\<close>

section \<open>A key for the witnesses\<close>

text \<open>A cipher layer that supports no cipher: CMAC is not available.\<close>

definition no_ciphers :: "(unit, unit) cmac_cipher" where
  "no_ciphers = \<lparr>cipher_info_from_psa = \<lambda>_ _ _. None, cipher_init = (), cipher_setup = \<lambda>c _. (0, c), cipher_cmac_starts = \<lambda>c _ _. (0, c),
     cipher_cmac_update = \<lambda>c _. (0, c), cipher_cmac_finish = \<lambda>c. (0, c, []), cipher_free = \<lambda>c. c\<rparr>"

definition mac_attributes :: psa_key_attributes where
  "mac_attributes = (demo_attributes 0 0)\<lparr>attr_policy := \<lparr>policy_usage = 0xc00, policy_alg = 0x03800009, policy_alg2 = 0\<rparr>\<rparr>"

definition mac_system :: psa_system where
  "mac_system = snd (snd (psa_import_key demo_drivers mac_attributes [1, 2, 3] fresh_system))"

lemma mac_import: "psa_import_key demo_drivers mac_attributes [1, 2, 3] fresh_system = (PSA_SUCCESS, 0x40000000, mac_system)"
proof -
  obtain st k sys where e: "psa_import_key demo_drivers mac_attributes [1, 2, 3] fresh_system = (st, k, sys)" by (rule prod_cases3)
  have "(let (st, k, sys) = psa_import_key demo_drivers mac_attributes [1, 2, 3] fresh_system in st = PSA_SUCCESS \<and> k = 0x40000000)"
    by code_simp
  then show ?thesis by (simp add: mac_system_def e)
qed

lemma mac_system_inv: "system_inv mac_system"
  using import_key_view [OF fresh_inv mac_import] by simp

lemma mac_system_key:
  assumes v: "key_view mac_system 0x40000000 a m"
  shows "m = [1, 2, 3]"
proof -
  have raw: "key_type_is_raw_bytes (attr_type mac_attributes)" by code_simp
  from import_key_view [OF fresh_inv mac_import] obtain bits d where
    "imports_as demo_drivers mac_attributes [1, 2, 3] bits d" "m = d" using v by (auto simp: only_key_def)
  with imports_as_raw [OF _ raw] show ?thesis by blast
qed

lemma mac_system_lock:
  obtains r sys1 where
    "psa_get_and_lock_key_slot_with_policy 0x40000000 (mac_usage is_sign) 0x03800009 mac_system = (PSA_SUCCESS, Some r, sys1)"
    "mac_possible 0x03800009 (slot_attr (get_key_slot (keystore sys1) r))" "memory_suffices (calloc_outcomes (keystore sys1))"
    "snd (psa_mac_finalize_alg_and_key_validation 0x03800009 (slot_attr (get_key_slot (keystore sys1) r)) 0) = 32"
proof -
  let ?check = "\<lambda>is_sign. let (st, r, sys1) = psa_get_and_lock_key_slot_with_policy 0x40000000 (mac_usage is_sign) 0x03800009 mac_system;
        attr = slot_attr (get_key_slot (keystore sys1) (the r))
      in st = PSA_SUCCESS \<and> r \<noteq> None \<and> mac_possible 0x03800009 attr \<and> memory_suffices (calloc_outcomes (keystore sys1)) \<and>
         snd (psa_mac_finalize_alg_and_key_validation 0x03800009 attr 0) = 32"
  have "?check True" by code_simp
  moreover have "?check False" by code_simp
  ultimately have "?check is_sign" by (cases is_sign) (simp_all only:)
  moreover obtain st p sys1 where e:
    "psa_get_and_lock_key_slot_with_policy 0x40000000 (mac_usage is_sign) 0x03800009 mac_system = (st, p, sys1)" by (rule prod_cases3)
  ultimately have c: "st = PSA_SUCCESS" "p \<noteq> None" "mac_possible 0x03800009 (slot_attr (get_key_slot (keystore sys1) (the p)))"
    "memory_suffices (calloc_outcomes (keystore sys1))"
    "snd (psa_mac_finalize_alg_and_key_validation 0x03800009 (slot_attr (get_key_slot (keystore sys1) (the p))) 0) = 32"
    by (simp_all add: Let_def)
  from c(2) obtain r where "p = Some r" by blast
  with that [of r sys1] c e show thesis by simp
qed

lemma mac_system_calloc:
  "calloc_outcomes (keystore mac_system) = []"
  "mac_system\<lparr>keystore := (keystore mac_system)\<lparr>calloc_outcomes := []\<rparr>\<rparr> = mac_system"
proof -
  show "calloc_outcomes (keystore mac_system) = []" by code_simp
  then show "mac_system\<lparr>keystore := (keystore mac_system)\<lparr>calloc_outcomes := []\<rparr>\<rparr> = mac_system"
    by (cases mac_system; cases "keystore mac_system") simp
qed

text \<open>With HMAC-SHA-256, the tag of a key has 32 bytes.\<close>

lemma hmac_sha256: "PSA_ALG_IS_HMAC 0x03800009" "PSA_ALG_HMAC_GET_HASH 0x03800009 = PSA_ALG_SHA_256"
  "PSA_MAC_LENGTH t b 0x03800009 = 32" "is_hash_supported PSA_ALG_SHA_256"
proof -
  show a: "PSA_ALG_IS_HMAC 0x03800009" "PSA_ALG_HMAC_GET_HASH 0x03800009 = PSA_ALG_SHA_256" "is_hash_supported PSA_ALG_SHA_256" by code_simp+
  have "PSA_MAC_TRUNCATED_LENGTH 0x03800009 = 0" "PSA_HASH_LENGTH (PSA_ALG_HMAC_GET_HASH 0x03800009) = 32" by code_simp+
  with a(1) show "PSA_MAC_LENGTH t b 0x03800009 = 32" by (simp add: PSA_MAC_LENGTH_def)
qed

lemma mac_system_tag:
  assumes "key_view mac_system 0x40000000 a m"
  shows "key_tag a m 0x03800009 input = hmac_standard PSA_ALG_SHA_256 [1, 2, 3] input"
proof -
  have "length (hmac_standard PSA_ALG_SHA_256 [1, 2, 3] input) = 32"
    using length_hmac_standard [OF hmac_sha256(4)] by (simp add: hash_lengths)
  then show ?thesis using mac_system_key [OF assms] by (simp add: key_tag_def hmac_sha256)
qed

lemma mac_system_short: "\<forall>a m. key_view mac_system 0x40000000 a m \<longrightarrow> length m < 2 ^ 32"
  by (auto dest!: mac_system_key)

text \<open>With memory to spare the call that both one-shot functions share succeeds.\<close>

lemma mac_system_computes:
  assumes "length mac = n" "32 \<le> n"
  obtains mac' len sys' where
    "psa_mac_compute_internal no_ciphers 0x40000000 0x03800009 [7] mac n is_sign mac_system = (PSA_SUCCESS, mac', len, sys')"
    "memory_suffices (calloc_outcomes (keystore sys'))" "len = 32" "length mac' = n"
proof -
  obtain r sys1 where lock:
    "psa_get_and_lock_key_slot_with_policy 0x40000000 (mac_usage is_sign) 0x03800009 mac_system = (PSA_SUCCESS, Some r, sys1)"
    "mac_possible 0x03800009 (slot_attr (get_key_slot (keystore sys1) r))" "memory_suffices (calloc_outcomes (keystore sys1))"
    "snd (psa_mac_finalize_alg_and_key_validation 0x03800009 (slot_attr (get_key_slot (keystore sys1) r)) 0) = 32"
    by (rule mac_system_lock)
  have "length [7 :: u8] < 2 ^ 32" by simp
  obtain st mac' len sys' where r:
    "psa_mac_compute_internal no_ciphers 0x40000000 0x03800009 [7] mac n is_sign mac_system = (st, mac', len, sys')"
    "st = PSA_SUCCESS \<longrightarrow> (\<exists>a m. key_view mac_system 0x40000000 a m \<and> mac_permitted is_sign a 0x03800009 \<and> 4 \<le> len \<and> len \<le> n \<and>
       length (key_tag a m 0x03800009 [7]) = len \<and> mac' = key_tag a m 0x03800009 [7] @ replicate (n - len) 0x21)"
    "\<forall>r sys1. psa_get_and_lock_key_slot_with_policy 0x40000000 (mac_usage is_sign) 0x03800009 mac_system = (PSA_SUCCESS, Some r, sys1) \<and>
       mac_possible 0x03800009 (slot_attr (get_key_slot (keystore sys1) r)) \<and> memory_suffices (calloc_outcomes (keystore sys1)) \<and>
       snd (psa_mac_finalize_alg_and_key_validation 0x03800009 (slot_attr (get_key_slot (keystore sys1) r)) 0) \<le> n \<longrightarrow>
       st = PSA_SUCCESS \<and> memory_suffices (calloc_outcomes (keystore sys'))"
    by (rule compute_internal_view [OF mac_system_inv hmac_sha256(1) \<open>length [7] < 2 ^ 32\<close> assms(1) mac_system_short,
          of no_ciphers is_sign]) blast
  from r(3) lock assms(2) have s: "st = PSA_SUCCESS" "memory_suffices (calloc_outcomes (keystore sys'))" by auto
  from r(2) s(1) obtain a m where t: "key_view mac_system 0x40000000 a m" "length (key_tag a m 0x03800009 [7]) = len" "len \<le> n"
    "mac' = key_tag a m 0x03800009 [7] @ replicate (n - len) 0x21" by blast
  have "len = 32"
    using t(2) length_hmac_standard [OF hmac_sha256(4), of "[1, 2, 3]" "[7]"] by (simp add: mac_system_tag [OF t(1)] hash_lengths)
  with that r(1) s t show thesis by simp
qed

section \<open>Properties\<close>

text \<open>C8: Computing a MAC in one call: with an HMAC algorithm and messages and keys below 2^32 bytes,
  whatever allocations fail, a success comes with a key of the map under that identifier, whose policy
  permits signing messages with the algorithm; the output holds exactly the tag of RFC 2104 over the
  standard of the hash function, truncated to the length that the algorithm names (at least 4 bytes),
  followed by '!' up to the end of the buffer. On failure no byte of a tag is left in the buffer. The
  invariant and the map of keys stay as they are; the invariant that this starts from says that no call of
  the C library on a file fails.\<close>

theorem mac_compute_correct:
  assumes "system_inv sys" "PSA_ALG_IS_HMAC alg" "length input < 2 ^ 32" "length buf = n"
    "\<forall>a m. key_view sys key a m \<longrightarrow> length m < 2 ^ 32"
    "psa_mac_compute cm key alg input (Some buf) n sys = (st, out, len, sys')"
  shows "system_inv sys' \<and> key_view sys' = key_view sys \<and>
    (if st = PSA_SUCCESS
     then \<exists>a m t. key_view sys key a m \<and> mac_permitted True a alg \<and> 4 \<le> t \<and> t \<le> n \<and> len = Some t \<and>
            length (key_tag a m alg input) = t \<and> out = Some (key_tag a m alg input @ replicate (n - t) 0x21)
     else out = Some buf \<or> out = Some (replicate n 0x21))"
  by (rule mac_compute_view [OF assms])

lemma mac_compute_correct_witness:
  "\<exists>sys'. psa_mac_compute no_ciphers 0x40000000 0x03800009 [7] (Some (replicate 40 0)) 40 mac_system =
    (PSA_SUCCESS, Some (hmac_standard PSA_ALG_SHA_256 [1, 2, 3] [7] @ replicate 8 0x21), Some 32, sys') \<and>
    key_view sys' = key_view mac_system"
proof -
  obtain st out len sys' where e: "psa_mac_compute no_ciphers 0x40000000 0x03800009 [7] (Some (replicate 40 0)) 40 mac_system =
      (st, out, len, sys')" by (rule prod_cases4)
  have "length (replicate 40 (0 :: u8)) = 40" "32 \<le> (40 :: nat)" "length [7 :: u8] < 2 ^ 32" by simp_all
  from mac_system_computes [OF this(1,2), of True] obtain mac' len' sys2 where
    c: "psa_mac_compute_internal no_ciphers 0x40000000 0x03800009 [7] (replicate 40 0) 40 True mac_system = (PSA_SUCCESS, mac', len', sys2)"
      "length mac' = 40" by blast
  have "fst (psa_mac_compute no_ciphers 0x40000000 0x03800009 [7] (Some (replicate 40 0)) 40 mac_system) = PSA_SUCCESS"
    using c local_output_free_copy [of mac' "replicate 40 0" PSA_SUCCESS]
    by (simp add: psa_mac_compute_def mac_system_calloc local_input_alloc_eq local_output_alloc_eq)
  with e have s: "st = PSA_SUCCESS" by simp
  note r = mac_compute_correct [OF mac_system_inv hmac_sha256(1) \<open>length [7] < 2 ^ 32\<close> \<open>length (replicate 40 0) = 40\<close>
      mac_system_short e]
  from r s obtain a m t where k: "key_view mac_system 0x40000000 a m" "len = Some t" "length (key_tag a m 0x03800009 [7]) = t"
    "out = Some (key_tag a m 0x03800009 [7] @ replicate (40 - t) 0x21)" by auto
  have "t = 32"
    using k(3) length_hmac_standard [OF hmac_sha256(4), of "[1, 2, 3]" "[7]"] by (simp add: mac_system_tag [OF k(1)] hash_lengths)
  with k e s r show ?thesis by (simp add: mac_system_tag [OF k(1)])
qed

text \<open>C9: Verifying a MAC in one call, with an HMAC algorithm, a message and keys below 2^32 bytes, and in a
  system whose invariant includes that no call of the C library on a file fails, decides exactly: either
  the key of the map permits verifying messages and the answer is success if the given tag is the one of
  the standard and an invalid signature if it is not, or memory ran out, or the answer is an error that
  does not depend on the given tag. The invariant and the map of keys stay as they are.\<close>

theorem mac_verify_exact:
  assumes "system_inv sys" "PSA_ALG_IS_HMAC alg" "length input < 2 ^ 32"
    "\<forall>a m. key_view sys key a m \<longrightarrow> length m < 2 ^ 32"
    "psa_mac_verify cm key alg input mac sys = (st, sys')"
  shows "system_inv sys' \<and> key_view sys' = key_view sys \<and>
    ((\<exists>a m. key_view sys key a m \<and> mac_permitted False a alg \<and> 4 \<le> length (key_tag a m alg input) \<and>
        st = (if mac = key_tag a m alg input then PSA_SUCCESS else PSA_ERROR_INVALID_SIGNATURE)) \<or>
     st = PSA_ERROR_INSUFFICIENT_MEMORY \<or>
     st \<noteq> PSA_SUCCESS \<and> (\<forall>mac'. fst (psa_mac_verify cm key alg input mac' sys) = st))"
  by (rule mac_verify_view [OF assms])

lemma mac_verify_exact_witness:
  "\<exists>sys'. psa_mac_verify no_ciphers 0x40000000 0x03800009 [7] (hmac_standard PSA_ALG_SHA_256 [1, 2, 3] [7]) mac_system =
    (PSA_SUCCESS, sys') \<and> key_view sys' = key_view mac_system"
proof -
  let ?tag = "hmac_standard PSA_ALG_SHA_256 [1, 2, 3] [7]"
  have len: "length ?tag = 32" using length_hmac_standard [OF hmac_sha256(4)] by (simp add: hash_lengths)
  obtain st sys' where e: "psa_mac_verify no_ciphers 0x40000000 0x03800009 [7] ?tag mac_system = (st, sys')" by fastforce
  have "length (replicate 64 (0 :: u8)) = 64" "32 \<le> (64 :: nat)" "length [7 :: u8] < 2 ^ 32" by simp_all
  from mac_system_computes [OF this(1,2), of False] obtain mac' sys2 where
    c: "psa_mac_compute_internal no_ciphers 0x40000000 0x03800009 [7] (replicate 64 0) 64 False mac_system = (PSA_SUCCESS, mac', 32, sys2)"
      "memory_suffices (calloc_outcomes (keystore sys2))" "length mac' = 64" by blast
  have v: "fst (psa_mac_verify no_ciphers 0x40000000 0x03800009 [7] mac mac_system) =
      (if mbedtls_ct_memcmp mac mac' 32 = 0 then PSA_SUCCESS else PSA_ERROR_INVALID_SIGNATURE)" if "length mac = 32" for mac
  proof -
    have "mac \<noteq> []" using that by auto
    then show ?thesis using c memory_calloc [OF c(2)] that
      by (simp add: psa_mac_verify_def mac_system_calloc local_input_alloc_eq)
  qed
  have w: "fst (psa_mac_verify no_ciphers 0x40000000 0x03800009 [7] (take 32 mac') mac_system) = PSA_SUCCESS"
    using v [of "take 32 mac'"] memcmp_digest [of "take 32 mac'" 32 "take 32 mac'" "drop 32 mac'"] c(3) by simp
  note r = mac_verify_exact [OF mac_system_inv hmac_sha256(1) \<open>length [7] < 2 ^ 32\<close> mac_system_short e]
  have "st = PSA_SUCCESS \<or> st = PSA_ERROR_INVALID_SIGNATURE" using v [OF len] e by (simp split: if_splits)
  moreover have "\<not> (\<forall>mac'. fst (psa_mac_verify no_ciphers 0x40000000 0x03800009 [7] mac' mac_system) = PSA_ERROR_INVALID_SIGNATURE)"
    using w by (intro notI) (drule spec [of _ "take 32 mac'"], simp)
  ultimately obtain a m where k: "key_view mac_system 0x40000000 a m"
      "st = (if ?tag = key_tag a m 0x03800009 [7] then PSA_SUCCESS else PSA_ERROR_INVALID_SIGNATURE)" and "key_view sys' = key_view mac_system"
    using r by auto
  with e show ?thesis by (simp add: mac_system_tag [OF k(1)])
qed

text \<open>C10: Signing and verifying a message in pieces, with an HMAC algorithm, a key below 2^32 bytes and every
  piece below 2^32 bytes, with the same key in two states of the system whose maps agree on it (the
  invariant of both says that no call of the C library on a file fails): when setup, the pieces and the last
  step of signing succeed, the output is the tag of the whole message followed by '!'; when setup and the
  pieces of verifying succeed and memory suffices for the last step, it accepts a tag if and only if it is
  the one of the whole message, whatever way either message was cut into such pieces. Both operations end
  inactive, and no map of keys changes.\<close>

theorem mac_sign_then_verify:
  assumes "system_inv sys" "system_inv sys'" "key_view sys' key = key_view sys key" "PSA_ALG_IS_HMAC alg"
    "\<forall>a m. key_view sys key a m \<longrightarrow> length m < 2 ^ 32" "\<forall>p\<in>set ps \<union> set qs. length p < 2 ^ 32" "length buf = n"
    "mac_id signer = 0" "psa_mac_sign_setup cm signer key alg sys = (PSA_SUCCESS, signer1, sys1)"
    "feed (psa_mac_update cm) signer1 ps o1 = (PSA_SUCCESS, signer2, o2)"
    "psa_mac_sign_finish cm signer2 (Some buf) n o3 = (PSA_SUCCESS, signer3, out, len, o4)"
    "mac_id verifier = 0" "psa_mac_verify_setup cm verifier key alg sys' = (PSA_SUCCESS, verifier1, sys1')"
    "feed (psa_mac_update cm) verifier1 qs o5 = (PSA_SUCCESS, verifier2, o6)"
    "psa_mac_verify_finish cm verifier2 mac o7 = (st, verifier3, o8)" "memory_suffices o7"
  shows "\<exists>a m. key_view sys key a m \<and> mac_permitted True a alg \<and> mac_permitted False a alg \<and>
    length (key_tag a m alg (concat ps)) = len \<and> out = Some (key_tag a m alg (concat ps) @ replicate (n - len) 0x21) \<and>
    st = (if mac = key_tag a m alg (concat qs) then PSA_SUCCESS else PSA_ERROR_INVALID_SIGNATURE) \<and>
    mac_id signer3 = 0 \<and> mac_id verifier3 = 0 \<and> key_view sys1 = key_view sys \<and> key_view sys1' = key_view sys'"
proof -
  let ?t = "\<lambda>a. PSA_MAC_LENGTH (attr_type a) (unat (attr_bits a)) alg"
  have key': "\<forall>a m. key_view sys' key a m \<longrightarrow> length m < 2 ^ 32" using assms(5) unfolding assms(3) .
  from mac_setup_view [OF assms(1,4,8,5) assms(9) [unfolded psa_mac_sign_setup_def]] obtain a m where
    s: "key_view sys key a m" "mac_permitted True a alg" "mac_active True alg m (?t a) signer1 []" "key_view sys1 = key_view sys" by auto
  from mac_setup_view [OF assms(2,4,12) key' assms(13) [unfolded psa_mac_verify_setup_def]] obtain a' m' where
    v: "key_view sys' key a' m'" "mac_permitted False a' alg" "mac_active False alg m' (?t a') verifier1 []"
      "key_view sys1' = key_view sys'" by auto
  have same: "a' = a" "m' = m" using key_view_fun [OF assms(1) s(1)] v(1) unfolding assms(3) by blast+
  have s2: "mac_active True alg m (?t a) signer2 (concat ps)"
    using mac_pieces_fed [OF s(3) _ assms(10)] assms(6) by simp
  have v2: "mac_active False alg m (?t a) verifier2 (concat qs)"
    using mac_pieces_fed [OF v(3) _ assms(14)] assms(6) by (simp add: same)
  have tag: "take (?t a) (hmac_standard (PSA_ALG_HMAC_GET_HASH alg) m x) = key_tag a m alg x" for x by (simp add: key_tag_def)
  have size: "length (key_tag a m alg x) = ?t a" for x
    using mac_active_driver(6,9) [OF s2] length_hmac_standard by (simp add: key_tag_def)
  obtain st1 op1 out1 len1 oc1 where "psa_mac_sign_finish cm signer2 (Some buf) n o3 = (st1, op1, out1, len1, oc1)" "mac_id op1 = 0"
      "st1 = PSA_SUCCESS \<longrightarrow> len1 = ?t a \<and>
         out1 = Some (take (?t a) (hmac_standard (PSA_ALG_HMAC_GET_HASH alg) m (concat ps)) @ replicate (n - ?t a) 0x21)"
    by (rule mac_sign_finish_result [OF s2 assms(7) mac_sign_finish_room [OF s2 assms(11)], of cm o3]) blast
  then have f: "len = ?t a" "out = Some (key_tag a m alg (concat ps) @ replicate (n - ?t a) 0x21)" "mac_id signer3 = 0"
    using assms(11) by (simp_all add: tag)
  obtain st2 op2 oc2 where "psa_mac_verify_finish cm verifier2 mac o7 = (st2, op2, oc2)" "mac_id op2 = 0"
      "st2 = (if mac = take (?t a) (hmac_standard (PSA_ALG_HMAC_GET_HASH alg) m (concat qs)) then PSA_SUCCESS else PSA_ERROR_INVALID_SIGNATURE) \<or>
       st2 = PSA_ERROR_INSUFFICIENT_MEMORY \<and> \<not> memory_suffices o7"
    by (rule mac_verify_finish_result [OF v2, of cm mac o7]) blast
  then have "st = (if mac = key_tag a m alg (concat qs) then PSA_SUCCESS else PSA_ERROR_INVALID_SIGNATURE)" "mac_id verifier3 = 0"
    using assms(15,16) by (simp_all add: tag)
  with s v f size show ?thesis unfolding same by blast
qed

lemma mac_system_setup:
  obtains operation sys1 where
    "psa_mac_setup no_ciphers PSA_MAC_OPERATION_INIT 0x40000000 0x03800009 is_sign mac_system = (PSA_SUCCESS, operation, sys1)"
proof -
  obtain r sys1 where lock:
    "psa_get_and_lock_key_slot_with_policy 0x40000000 (mac_usage is_sign) 0x03800009 mac_system = (PSA_SUCCESS, Some r, sys1)"
    "mac_possible 0x03800009 (slot_attr (get_key_slot (keystore sys1) r))" "memory_suffices (calloc_outcomes (keystore sys1))"
    by (rule mac_system_lock)
  have id: "mac_id (PSA_MAC_OPERATION_INIT :: unit psa_mac_operation) = 0" by (simp add: PSA_MAC_OPERATION_INIT_def)
  have key: "length (slot_material s) < 2 ^ 32" if "found_key mac_system 0x40000000 s" for s
    using mac_system_short found_view [OF system_invD(3) [OF mac_system_inv] that] by blast
  obtain st operation sys2 where
    "psa_mac_setup no_ciphers PSA_MAC_OPERATION_INIT 0x40000000 0x03800009 is_sign mac_system = (st, operation, sys2)"
    "\<forall>r sys1. psa_get_and_lock_key_slot_with_policy 0x40000000 (mac_usage is_sign) 0x03800009 mac_system = (PSA_SUCCESS, Some r, sys1) \<and>
       mac_possible 0x03800009 (slot_attr (get_key_slot (keystore sys1) r)) \<and> memory_suffices (calloc_outcomes (keystore sys1)) \<longrightarrow>
       st = PSA_SUCCESS"
    by (rule mac_setup_result [OF system_invD(1) [OF mac_system_inv] hmac_sha256(1) id key, where cm = no_ciphers and is_sign = is_sign]) blast
  with that lock show thesis by blast
qed

lemma mac_system_active:
  obtains a m operation sys1 where "key_view mac_system 0x40000000 a m"
    "psa_mac_setup no_ciphers PSA_MAC_OPERATION_INIT 0x40000000 0x03800009 is_sign mac_system = (PSA_SUCCESS, operation, sys1)"
    "mac_active is_sign 0x03800009 m 32 operation []"
proof -
  have id: "mac_id (PSA_MAC_OPERATION_INIT :: unit psa_mac_operation) = 0" by (simp add: PSA_MAC_OPERATION_INIT_def)
  obtain operation sys1 where
    s: "psa_mac_setup no_ciphers PSA_MAC_OPERATION_INIT 0x40000000 0x03800009 is_sign mac_system = (PSA_SUCCESS, operation, sys1)"
    by (rule mac_system_setup)
  from mac_setup_view [OF mac_system_inv hmac_sha256(1) id mac_system_short s] show thesis
    using that s by (auto simp: hmac_sha256(3))
qed

text \<open>Signing and verifying without a lack of memory.\<close>

lemma mac_system_fed:
  assumes "mac_active is_sign alg key t operation []" "\<forall>p\<in>set ps. length p < 2 ^ 32"
  obtains operation' o' where "feed (psa_mac_update no_ciphers) operation ps [] = (PSA_SUCCESS, operation', o')"
    "mac_active is_sign alg key t operation' (concat ps)"
proof -
  from mac_pieces.feed_pieces [OF assms, of no_ciphers "[]"] obtain st op o' where
    f: "feed (psa_mac_update no_ciphers) operation ps [] = (st, op, o')" "only_memory_fails [] st o'"
      "st = PSA_SUCCESS \<longrightarrow> mac_active is_sign alg key t op (concat ps)" by auto
  have "st = PSA_SUCCESS" using f(2) by (simp add: only_memory_fails_def memory_suffices_def)
  with that f show thesis by simp
qed

lemma mac_sign_then_verify_witness:
  "\<exists>signer1 sys1 signer2 o2 signer3 o4 verifier1 sys1' verifier2 o6 verifier3 o8.
    psa_mac_sign_setup no_ciphers PSA_MAC_OPERATION_INIT 0x40000000 0x03800009 mac_system = (PSA_SUCCESS, signer1, sys1) \<and>
    feed (psa_mac_update no_ciphers) signer1 [[4], [5, 6]] [] = (PSA_SUCCESS, signer2, o2) \<and>
    psa_mac_sign_finish no_ciphers signer2 (Some (replicate 40 0)) 40 [] =
      (PSA_SUCCESS, signer3, Some (hmac_standard PSA_ALG_SHA_256 [1, 2, 3] [4, 5, 6] @ replicate 8 0x21), 32, o4) \<and>
    psa_mac_verify_setup no_ciphers PSA_MAC_OPERATION_INIT 0x40000000 0x03800009 mac_system = (PSA_SUCCESS, verifier1, sys1') \<and>
    feed (psa_mac_update no_ciphers) verifier1 [[4, 5], [], [6]] [] = (PSA_SUCCESS, verifier2, o6) \<and>
    psa_mac_verify_finish no_ciphers verifier2 (hmac_standard PSA_ALG_SHA_256 [1, 2, 3] [4, 5, 6]) [] = (PSA_SUCCESS, verifier3, o8)"
proof -
  let ?tag = "hmac_standard PSA_ALG_SHA_256 [1, 2, 3] [4, 5, 6]"
  have id: "mac_id (PSA_MAC_OPERATION_INIT :: unit psa_mac_operation) = 0" by (simp add: PSA_MAC_OPERATION_INIT_def)
  obtain a m signer1 sys1 where s: "key_view mac_system 0x40000000 a m"
    "psa_mac_setup no_ciphers PSA_MAC_OPERATION_INIT 0x40000000 0x03800009 True mac_system = (PSA_SUCCESS, signer1, sys1)"
    "mac_active True 0x03800009 m 32 signer1 []" by (rule mac_system_active)
  obtain a' m' verifier1 sys1' where v: "key_view mac_system 0x40000000 a' m'"
    "psa_mac_setup no_ciphers PSA_MAC_OPERATION_INIT 0x40000000 0x03800009 False mac_system = (PSA_SUCCESS, verifier1, sys1')"
    "mac_active False 0x03800009 m' 32 verifier1 []" by (rule mac_system_active)
  have ps: "\<forall>p\<in>set [[4], [5, 6 :: u8]]. length p < 2 ^ 32" "\<forall>p\<in>set [[4, 5], [], [6 :: u8]]. length p < 2 ^ 32" by simp_all
  obtain signer2 o2 where s2: "feed (psa_mac_update no_ciphers) signer1 [[4], [5, 6]] [] = (PSA_SUCCESS, signer2, o2)"
    "mac_active True 0x03800009 m 32 signer2 (concat [[4], [5, 6]])" by (rule mac_system_fed [OF s(3) ps(1)])
  obtain verifier2 o6 where v2: "feed (psa_mac_update no_ciphers) verifier1 [[4, 5], [], [6]] [] = (PSA_SUCCESS, verifier2, o6)"
    "mac_active False 0x03800009 m' 32 verifier2 (concat [[4, 5], [], [6]])" by (rule mac_system_fed [OF v(3) ps(2)])
  have buf: "length (replicate 40 (0 :: u8)) = 40" "32 \<le> (40 :: nat)" by simp_all
  obtain st signer3 out len o4 where f: "psa_mac_sign_finish no_ciphers signer2 (Some (replicate 40 0)) 40 [] = (st, signer3, out, len, o4)"
    "only_memory_fails [] st o4" by (rule mac_sign_finish_result [OF s2(2) buf, of no_ciphers "[]"]) blast
  have st: "st = PSA_SUCCESS" using f(2) by (simp add: only_memory_fails_def memory_suffices_def)
  obtain st' verifier3 o8 where g: "psa_mac_verify_finish no_ciphers verifier2 ?tag [] = (st', verifier3, o8)" by (rule prod_cases3)
  have all: "\<forall>p\<in>set [[4], [5, 6]] \<union> set [[4, 5], [], [6 :: u8]]. length p < 2 ^ 32" "memory_suffices []"
    by (simp_all add: memory_suffices_def)
  from mac_sign_then_verify [OF mac_system_inv mac_system_inv refl hmac_sha256(1) mac_system_short all(1) buf(1)
      id s(2) [folded psa_mac_sign_setup_def] s2(1) f(1) [unfolded st] id v(2) [folded psa_mac_verify_setup_def] v2(1) g all(2)]
  obtain a m where r: "key_view mac_system 0x40000000 a m" "length (key_tag a m 0x03800009 [4, 5, 6]) = len"
    "out = Some (key_tag a m 0x03800009 [4, 5, 6] @ replicate (40 - len) 0x21)"
    "st' = (if ?tag = key_tag a m 0x03800009 [4, 5, 6] then PSA_SUCCESS else PSA_ERROR_INVALID_SIGNATURE)" by auto
  have "length ?tag = 32" using length_hmac_standard [OF hmac_sha256(4)] by (simp add: hash_lengths)
  with r have "len = 32" "out = Some (?tag @ replicate 8 0x21)" "st' = PSA_SUCCESS"
    by (simp_all add: mac_system_tag [OF r(1)])
  with f(1) st g s(2) s2(1) v(2) v2(1) show ?thesis unfolding psa_mac_sign_setup_def psa_mac_verify_setup_def by blast
qed

end
