(* ===== verification/Spec2Isabelle.thy ===== *)
theory Spec2Isabelle
  imports Slot_Contracts Key_Policy Key_Storage Key_Properties Hash_Properties Hash_Operations Xof_Api Base64 Bignum_Properties Mac_Properties
begin

text \<open>
  TF-PSA-Crypto: a verification development of the core of the library.

  \<^bold>\<open>The program and its parts.\<close> TF-PSA-Crypto implements the PSA Cryptography API. The application calls the
  functions of core/psa_crypto.c. They check their arguments, copy the buffers of the caller, look up the
  key in the key store (core/psa_crypto_slot_management.c), check its policy, and dispatch through the
  driver wrappers (scripts/data_files/driver_templates) to the built-in drivers (drivers/builtin/src).
  Persistent keys are kept in files (core/psa_crypto_storage.c over core/psa_its_file.c). The drivers rest
  on the hash modules, on the core of the big-number arithmetic and on a module of constant-time functions.

  \<^bold>\<open>Configuration.\<close> The model follows the default configuration: dynamic key store, 64-bit words, little
  endian, every hash algorithm enabled, local copies of the caller's buffers, no accelerator and no
  opaque driver. Calls of the allocator and of the C file functions fail when a list of outcomes in the
  state says so; a statement over all lists is one over all patterns of failure. Threads interleave
  between the sections that the mutex of the key store protects, which are the steps of the model.

  \<^bold>\<open>Foundations.\<close>
  \<^item> Prelude: machine words, byte strings, big- and little-endian access (core/alignment.h), the allocator.
  \<^item> Crypto_Values: the encodings of key types, algorithms, lifetimes and identifiers and the macros over
    them (include/psa/crypto_values.h, crypto_sizes.h, crypto_struct.h).
  \<^item> Psa_Error: the translation of driver errors to status codes (\<open>mbedtls_to_psa_error\<close>).
  \<^item> Local_Buffers: the copies of the caller's buffers (the end of core/psa_crypto.c).
  \<^item> Constant_Time: utilities/constant_time_impl.h and constant_time.c; every function equals the plain
    one. The condition of a value, the selection and the comparison have variants in assembly: the ones
    for x86-64 and AArch64 are modelled, and equal the portable ones.

  \<^bold>\<open>The key store.\<close>
  \<^item> Key_Slots: the slices of slots, the lists of free slots, the states of a slot, registration of readers,
    allocation, wiping, eviction (psa_crypto_slot_management.c and .h, one definition per function).
  \<^item> Slot_Invariant: the well-formedness of the store (free lists are chains over exactly the empty slots).
  \<^item> Slot_Refinement: the store as a partial map from places to slots; what each operation does to it.
  \<^item> Slot_Readers: a step relation of clients that take, use and give back slots in any order, with its
    reachable states; a slot in use stays as it is.
  \<^item> Slot_Contracts: volatile allocation and wiping refine the map.

  \<^bold>\<open>Storage.\<close>
  \<^item> Its_File: core/psa_its_file.c over files whose calls may fail.
  \<^item> Its_Store: the files as a map from identifiers to entries; writing is atomic under every failure. The
    interface of a storage backend is a locale, interpreted on the files.
  \<^item> Key_Storage: core/psa_crypto_storage.c over such a backend: the format of stored keys, its parser and its
    round trip, saving, loading and destroying.

  \<^bold>\<open>Keys.\<close>
  \<^item> Key_Policy: permission, intersection and restriction of policies; the intersection permits exactly
    what both policies permit, but for algorithms that only the base of a key agreement or of J-PAKE
    permits, which two different policies lose.
  \<^item> Key_Lifecycle: import, copy, export, attributes, destruction, with the lookup under a policy
    (core/psa_crypto.c). The conversions of asymmetric keys are a parameter.
  \<^item> Lifecycle_Facts, Lifecycle_Calls, Lifecycle_Copy, Lifecycle_Contracts, Key_Contracts: what each call does,
    through the map \<open>key_view\<close> from identifiers to attributes and material, which joins the volatile
    slices, the cache and the files. Their invariant \<open>system_inv\<close> is about the runs in which no call of the C
    library on a file fails (allocations may): with such failures the files can disagree with what
    the calls report, as \<open>open_failure_overwrites_key\<close> shows.
  \<^item> Key_Properties: the calls refine that map; policies never widen; no call disturbs a key in use; a
    restart keeps persistent keys.

  \<^bold>\<open>Hash functions.\<close>
  \<^item> Block_Hash: the buffering that MD5, SHA-1, RIPEMD-160 and SHA-2 share, as a locale over a compression
    function: feeding a message in pieces gives the digest of the padded message.
  \<^item> Hash_Md5, Hash_Sha1, Hash_Ripemd160, Sha2_Rounds, Hash_Sha256, Hash_Sha512: the modules of the same names
    and their standards; both variants of the SHA-2 compression functions.
  \<^item> Hash_Sha3, Sha3_Standard: sha3.c and FIPS 202, its permutation on bits of a state and its sponge.
    The standards are stated apart from the code: MD5 as the operations of RFC 1321, whose table
    Md5_Sine proves to be the one of sines, RIPEMD-160 by the permutations, shifts and constants of its
    paper, the others as FIPS 180-4 and FIPS 202 give them.
  \<^item> Hash_Properties: streaming equals the standard for pieces below 2^32 bytes; the byte counters, with
    their limit.
  \<^item> Hash_Driver, Hash_Api, Hash_Streams, Hash_Operations: psa_crypto_hash.c and the hash API. A locale of
    streaming hash modules is interpreted on all eleven algorithms; the union of contexts is always read
    as it was written; verification accepts exactly the digest.
  \<^item> Xof_Api: psa_crypto_xof.c and the XOF API.

  \<^bold>\<open>Message authentication.\<close>
  \<^item> Hmac_Driver: HMAC in psa_crypto_mac.c over the hash API, with RFC 2104 as its specification.
  \<^item> Mac_Driver: the rest of psa_crypto_mac.c; the cipher layer below CMAC is a parameter.
  \<^item> Mac_Api: the MAC calls of core/psa_crypto.c and their dispatch.
  \<^item> Mac_Calls, Mac_Properties: tags computed in one call or in pieces are, for HMAC with keys and pieces below 2^32
    bytes, the ones of the standard under the key that the map of keys holds; verification accepts exactly those; a failure leaves no tag behind.

  \<^bold>\<open>Big numbers.\<close>
  \<^item> Bignum_Core: bignum_core.c, bn_mul.h and bignum_internal.h: limbs, import and export, shifts,
    comparison, addition, subtraction, multiply-accumulate, multiplication. An array of limbs is a list
    of words, lowest first; lengths are the ones of the lists.
  \<^item> Bignum_Arith, Bignum_Bytes: the number \<open>mpi_nat\<close> of an array and what each operation does to it.
  \<^item> Bignum_Montgomery, Bignum_Exp: Montgomery multiplication and the windowed exponentiation.
  \<^item> Binary_Gcd, Bignum_Gcd: the constant-time greatest common divisor and inverse, refining a step on pairs
    of numbers. \<open>(limbs of A + limbs of N) * 64\<close> steps are enough, which is proved of the steps on numbers.
  \<^item> Bignum_Random: random numbers in a range over a generator that is a parameter.
  \<^item> Bignum_Properties: the properties of these.

  \<^bold>\<open>Encodings.\<close>
  \<^item> Base64: utilities/base64.c; round trip, and the exact size of the output.

  \<^bold>\<open>Loops and bounds.\<close> Loops of the C code are recursion on lists or indices and terminate by their type, except
  the windowed exponentiation, a partial function into an option, of which \<open>exp_mod_returns\<close> proves that it
  returns. The bounds of the rejection loop (30 or 250 draws) are the constants of the code.

  \<^bold>\<open>Not modelled, and why.\<close>
  \<^item> The cipher, AEAD, signature, key agreement, derivation, PAKE and interruptible calls of
    core/psa_crypto.c: they share the lookup, the policy and the buffers modelled here, and
    otherwise sequence calls of drivers that are not modelled.
  \<^item> The cipher modules (aes.c, gcm.c and others), the older big-number layer bignum.c with its signed numbers, and the
    elliptic curve and RSA modules over it.
  \<^item> \<open>mbedtls_mpi_core_get_mont_r2_unsafe\<close>, which calls bignum.c: its result is a hypothesis of the
    exponentiation.
  \<^item> ASN.1, PEM, PK, LMS and key wrap: outside the core of the API.
  \<^item> The initialisation of the random generator and the platform layer: they depend on the platform.
  \<^item> Variants written in assembly or with compiler intrinsics (but those of Constant_Time above), test hooks, self tests, test drivers.
  \<^item> The everest and p256-m drivers: third-party code.
  \<^item> Timing and erasure of memory on the stack: the model has values, no execution times and no dead storage.
\<close>

end
